(* ===== verification/Prelude.thy ===== *)
theory Prelude
  imports "HOL-Library.Word"
begin

unbundle bit_operations_syntax

text \<open>
  Shared vocabulary of the development: machine integers, octets and C strings, the error
  codes of \<open>ESBError.h\<close> and \<open>ESHttpError.h\<close>, bit-flag state words, and the generic lemmas
  and lemma collections the component theories use.
\<close>

section \<open>Machine integers, octets, C strings\<close>

type_synonym u8 = "8 word"
type_synonym u16 = "16 word"
type_synonym u32 = "32 word"
type_synonym u64 = "64 word"

type_synonym cstr = "u8 list"
  \<comment> \<open>a NUL terminated string, without its terminator\<close>

definition asc :: "string \<Rightarrow> u8 list" where
  "asc s = map of_char s"

text \<open>The octets the HTTP grammar names.\<close>

abbreviation (input) HT :: u8 where "HT \<equiv> 9"
abbreviation (input) LF :: u8 where "LF \<equiv> 10"
abbreviation (input) CR :: u8 where "CR \<equiv> 13"
abbreviation (input) SP :: u8 where "SP \<equiv> 32"
abbreviation (input) HASH :: u8 where "HASH \<equiv> 35"
abbreviation (input) PERCENT :: u8 where "PERCENT \<equiv> 37"
abbreviation (input) ASTERISK :: u8 where "ASTERISK \<equiv> 42"
abbreviation (input) PLUS :: u8 where "PLUS \<equiv> 43"
abbreviation (input) HYPHEN :: u8 where "HYPHEN \<equiv> 45"
abbreviation (input) DOT :: u8 where "DOT \<equiv> 46"
abbreviation (input) SLASH :: u8 where "SLASH \<equiv> 47"
abbreviation (input) DIGIT0 :: u8 where "DIGIT0 \<equiv> 48"
abbreviation (input) COLON :: u8 where "COLON \<equiv> 58"
abbreviation (input) SEMICOLON :: u8 where "SEMICOLON \<equiv> 59"
abbreviation (input) EQUALS :: u8 where "EQUALS \<equiv> 61"
abbreviation (input) QUESTION :: u8 where "QUESTION \<equiv> 63"
abbreviation (input) UPPER_A :: u8 where "UPPER_A \<equiv> 65"
abbreviation (input) LOWER_A :: u8 where "LOWER_A \<equiv> 97"

text \<open>
  A C string read from memory ends before its first NUL; reading past the list stands for
  reading the terminator.
\<close>

definition c_string :: "u8 list \<Rightarrow> cstr" where
  "c_string bs = takeWhile (\<lambda>c. c \<noteq> 0) bs"

definition c_head :: "cstr \<Rightarrow> u8" where
  "c_head s = (case s of [] \<Rightarrow> 0 | c # _ \<Rightarrow> c)"

text \<open>
  The comparison functions of \<open>string.h\<close> and \<open>strings.h\<close>; only the sign of their result is
  specified, so the model returns the sign.
\<close>

fun strncmp :: "cstr \<Rightarrow> cstr \<Rightarrow> nat \<Rightarrow> int" where
  "strncmp s t 0 = 0"
| "strncmp s t (Suc n) =
     (let a = c_head s; b = c_head t in
      if a \<noteq> b then (if a < b then -1 else 1)
      else if a = 0 then 0
      else strncmp (tl s) (tl t) n)"

definition strcmp :: "cstr \<Rightarrow> cstr \<Rightarrow> int" where
  "strcmp s t = strncmp s t (Suc (max (length s) (length t)))"

definition tolower :: "u8 \<Rightarrow> u8" where
  "tolower c = (if 65 \<le> c \<and> c \<le> 90 then c + 32 else c)"

definition strcasecmp :: "cstr \<Rightarrow> cstr \<Rightarrow> int" where
  "strcasecmp s t = strcmp (map tolower s) (map tolower t)"

section \<open>Error codes\<close>

text \<open>
  \<open>ESB::Error\<close> is an int; \<open>ESBError.h\<close> and \<open>ESHttpError.h\<close> name its values.
  \<open>UNDEFINED_BEHAVIOUR\<close> is not a code of the program: the model answers it where the C++
  evaluates a signed overflow or a NULL dereference, after which the language gives the
  program no meaning.
\<close>

datatype (plugins only: code) error =
    ESB_SUCCESS | ESB_OTHER_ERROR | ESB_OPERATION_NOT_SUPPORTED | ESB_NULL_POINTER
  | ESB_UNIQUENESS_VIOLATION | ESB_INVALID_ARGUMENT | ESB_OUT_OF_MEMORY | ESB_NOT_INITIALIZED
  | ESB_AGAIN | ESB_INTR | ESB_UNSUPPORTED_TRANSPORT | ESB_INVALID_ITERATOR | ESB_INPROGRESS | ESB_INVALID_STATE | ESB_NOT_OWNER | ESB_IN_USE
  | ESB_CANNOT_FIND | ESB_OVERFLOW | ESB_CANNOT_CONVERT | ESB_ILLEGAL_ENCODING
  | ESB_OUT_OF_BOUNDS | ESB_SHUTDOWN | ESB_CLEANUP | ESB_PAUSE | ESB_SEND_RESPONSE
  | ESB_CLOSED | ESB_NOT_IMPLEMENTED | ESB_BREAK | ESB_UNDERFLOW | ESB_CANNOT_PARSE
  | ESB_MISSING_FIELD | ESB_INVALID_FIELD
  | ES_HTTP_BAD_CRLF | ES_HTTP_BAD_REQUEST_URI_ASTERISK | ES_HTTP_BAD_REQUEST_URI_ABS_PATH
  | ES_HTTP_BAD_REQUEST_URI_QUERY | ES_HTTP_BAD_REQUEST_URI_SCHEME | ES_HTTP_BAD_REQUEST_URI_HOST
  | ES_HTTP_BAD_REQUEST_URI_PORT | ES_HTTP_BAD_REQUEST_METHOD | ES_HTTP_BAD_REQUEST_VERSION
  | ES_HTTP_BAD_REQUEST_FIELD_NAME | ES_HTTP_BAD_REQUEST_FIELD_VALUE | ES_HTTP_BAD_CONTENT_LENGTH
  | ES_HTTP_BAD_INTEGER | ES_HTTP_BAD_REASON_PHRASE | ES_HTTP_BAD_STATUS_CODE
  | ES_HTTP_BAD_REQUEST_URI_FRAGMENT | ES_HTTP_MULTIPART_NOT_SUPPORTED | ES_HTTP_PARSER_JAMMED
  | ES_HTTP_FORMATTER_JAMMED
  | UNDEFINED_BEHAVIOUR

section \<open>Bit-flag words\<close>

text \<open>
  The parsers and formatters keep their state in an int used as a set of flags:
  \<open>FLAG & _state\<close>, \<open>_state &= ~OLD; _state |= NEW\<close>. The flags below are literals, so a test
  after an update reduces to arithmetic on literals.
\<close>

definition has_flag :: "u32 \<Rightarrow> u32 \<Rightarrow> bool" where
  "has_flag st m \<longleftrightarrow> m AND st \<noteq> 0"

definition transition :: "u32 \<Rightarrow> u32 \<Rightarrow> u32 \<Rightarrow> u32" where
  "transition st old new = (st AND NOT old) OR new"

lemma has_flag_transition:
  "has_flag (transition st old new) m \<longleftrightarrow> has_flag st (m AND NOT old) \<or> has_flag new m"
proof -
  have "m AND (st AND NOT old OR new) = ((m AND NOT old) AND st) OR (m AND new)"
    by (simp add: bit.conj_disj_distrib ac_simps)
  moreover have "x OR y = 0 \<longleftrightarrow> x = 0 \<and> y = 0" for x y :: u32
    by (metis or_eq_0_iff)
  ultimately show ?thesis
    by (auto simp: has_flag_def transition_def)
qed

lemma has_flag_or: "has_flag (st OR new) m \<longleftrightarrow> has_flag st m \<or> has_flag new m"
  using has_flag_transition [of st 0 new m] by (simp add: transition_def)

lemma has_flag_0 [simp]: "\<not> has_flag 0 m" "\<not> has_flag st 0"
  by (simp_all add: has_flag_def)

section \<open>Words below a bound\<close>

lemma unat_add_1_less: "(x :: 'a::len word) < y \<Longrightarrow> unat (x + 1) = Suc (unat x)"
proof -
  assume "x < y"
  then have "Suc (unat x) \<le> unat y"
    by (simp add: word_less_nat_alt)
  also have "unat y < 2 ^ LENGTH('a)"
    by (rule unsigned_less)
  finally show ?thesis
    by (simp add: unat_word_ariths)
qed

lemma word_add_1_le: "(x :: 'a::len word) < y \<Longrightarrow> x + 1 \<le> y"
  by (simp add: word_le_nat_alt word_less_nat_alt unat_add_1_less)

lemma word_less_of_neq_le: "(x :: 'a::len word) \<le> y \<Longrightarrow> x \<noteq> y \<Longrightarrow> x < y"
  by simp

section \<open>Lemma collections\<close>

named_theorems buf_simps \<open>how the buffer operations change and read the positions\<close>
named_theorems fill_simps \<open>read operations commute with data arriving at the write position\<close>
named_theorems http_class \<open>characterisations of the octet classes\<close>

end
