(* ===== verification/Buffer.thy ===== *)
theory Buffer
  imports Prelude
begin

text \<open>
  \<open>ESB::Buffer\<close> (base/include/ESBBuffer.h, base/source/ESBBuffer.cpp): an octet array of fixed
  capacity with a read and a write position and a mark of each, all \<open>UInt32\<close>. Every operation
  of the class is a definition here. \<open>buf_inv\<close> is the class invariant, \<open>unread\<close> the abstract
  value (the octets between the two positions); the operations refine a bounded FIFO queue of
  octets (locale \<open>octet_queue\<close>).
\<close>

section \<open>State and operations\<close>

record buffer =
  octets :: "u8 list"
  cap :: u32
  rdMark :: u32
  wrMark :: u32
  rdPos :: u32
  wrPos :: u32

definition new_buffer :: "u8 list \<Rightarrow> u32 \<Rightarrow> buffer" where
  "new_buffer bs n = \<lparr>octets = bs, cap = n, rdMark = 0, wrMark = 0, rdPos = 0, wrPos = 0\<rparr>"

definition writable :: "buffer \<Rightarrow> u32" where
  "writable b = cap b - wrPos b"

definition readable :: "buffer \<Rightarrow> u32" where
  "readable b = wrPos b - rdPos b"

definition isReadable :: "buffer \<Rightarrow> bool" where
  "isReadable b \<longleftrightarrow> 0 < readable b"

definition isWritable :: "buffer \<Rightarrow> bool" where
  "isWritable b \<longleftrightarrow> 0 < writable b"

definition putNext :: "buffer \<Rightarrow> u8 \<Rightarrow> buffer" where
  "putNext b c =
     (if \<not> isWritable b then b
      else b\<lparr>octets := (octets b)[unat (wrPos b) := c], wrPos := wrPos b + 1\<rparr>)"

definition buf_next :: "buffer \<Rightarrow> u8 \<times> buffer" where
  "buf_next b =
     (if isReadable b then (octets b ! unat (rdPos b), b\<lparr>rdPos := rdPos b + 1\<rparr>) else (0, b))"

definition peekNext :: "buffer \<Rightarrow> u8" where
  "peekNext b = (if isReadable b then octets b ! unat (rdPos b) else 0)"

definition skipNext :: "buffer \<Rightarrow> buffer" where
  "skipNext b = b\<lparr>rdPos := (if \<not> isReadable b then rdPos b else rdPos b + 1)\<rparr>"

definition readMark :: "buffer \<Rightarrow> buffer" where
  "readMark b = b\<lparr>rdMark := rdPos b\<rparr>"

definition readReset :: "buffer \<Rightarrow> buffer" where
  "readReset b = b\<lparr>rdPos := rdMark b\<rparr>"

definition writeMark :: "buffer \<Rightarrow> buffer" where
  "writeMark b = b\<lparr>wrMark := wrPos b\<rparr>"

definition writeReset :: "buffer \<Rightarrow> buffer" where
  "writeReset b = b\<lparr>wrPos := wrMark b\<rparr>"

definition setWritePosition :: "buffer \<Rightarrow> u32 \<Rightarrow> buffer" where
  "setWritePosition b p = b\<lparr>wrPos := (if p > cap b then cap b else p)\<rparr>"

definition setReadPosition :: "buffer \<Rightarrow> u32 \<Rightarrow> buffer" where
  "setReadPosition b p = b\<lparr>rdPos := (if p > cap b then cap b else p)\<rparr>"

definition buf_skip :: "buffer \<Rightarrow> u32 \<Rightarrow> buffer" where
  "buf_skip b n = b\<lparr>rdPos := (if rdPos b + n > wrPos b then wrPos b else rdPos b + n)\<rparr>"

definition buf_clear :: "buffer \<Rightarrow> buffer" where
  "buf_clear b = b\<lparr>rdPos := 0, wrPos := 0, rdMark := 0, wrMark := 0\<rparr>"

text \<open>\<open>memmove\<close> of the octets between the positions to the front of the array.\<close>

definition compact :: "buffer \<Rightarrow> bool \<times> buffer" where
  "compact b =
     (if rdPos b = 0 then (False, b)
      else
        let n = unat (wrPos b - rdPos b);
            moved = (if wrPos b \<noteq> rdPos b
                     then take n (drop (unat (rdPos b)) (octets b)) @ drop n (octets b)
                     else octets b)
        in (True, b\<lparr>octets := moved, wrPos := wrPos b - rdPos b, rdPos := 0,
                    rdMark := 0, wrMark := 0\<rparr>))"

text \<open>
  \<open>duplicate\<close>: the loop that trims trailing white space, then the copy. The allocator is the
  parameter \<open>alloc\<close>, which answers an error code, an address and its new state; the model keeps
  the string by value. \<open>int length = writePosition()\<close> is exact for capacities below $2^{31}$.
\<close>

type_synonym 'a alloc_fn = "'a \<Rightarrow> u64 \<Rightarrow> error \<times> u64 \<times> 'a"

fun trimmed_length :: "u8 list \<Rightarrow> nat \<Rightarrow> nat" where
  "trimmed_length os 0 = 0"
| "trimmed_length os (Suc i) =
     (if os ! i = SP \<or> os ! i = HT \<or> os ! i = LF \<or> os ! i = CR then trimmed_length os i
      else Suc i)"

definition duplicate ::
  "'a alloc_fn \<Rightarrow> 'a \<Rightarrow> buffer \<Rightarrow> bool \<Rightarrow> cstr option \<times> 'a" where
  "duplicate alloc al b trim =
     (let len0 = unat (wrPos b);
          len = (if trim then trimmed_length (octets b) len0 else len0)
      in case alloc al (of_nat (len + 1)) of
           (e, _, al') \<Rightarrow>
             if e \<noteq> ESB_SUCCESS then (None, al')
             else (Some (c_string (take len (octets b))), al'))"

definition match :: "buffer \<Rightarrow> cstr \<Rightarrow> bool" where
  "match b str \<longleftrightarrow> strncmp (drop (unat (rdPos b)) (octets b)) str (unat (wrPos b - rdPos b)) = 0"

section \<open>Invariant and abstraction\<close>

definition buf_inv :: "buffer \<Rightarrow> bool" where
  "buf_inv b \<longleftrightarrow> length (octets b) = unat (cap b) \<and> rdPos b \<le> wrPos b \<and> wrPos b \<le> cap b
     \<and> rdMark b \<le> wrPos b \<and> wrMark b \<le> cap b"

definition unread :: "buffer \<Rightarrow> u8 list" where
  "unread b = take (unat (readable b)) (drop (unat (rdPos b)) (octets b))"

definition written :: "buffer \<Rightarrow> u8 list" where
  "written b = take (unat (wrPos b)) (octets b)"

definition room :: "buffer \<Rightarrow> nat" where
  "room b = unat (writable b)"

lemma buf_invD:
  assumes "buf_inv b"
  shows "length (octets b) = unat (cap b)" "rdPos b \<le> wrPos b" "wrPos b \<le> cap b"
    "rdMark b \<le> wrPos b" "wrMark b \<le> cap b"
    "unat (rdPos b) \<le> unat (wrPos b)" "unat (wrPos b) \<le> unat (cap b)"
    "unat (rdMark b) \<le> unat (wrPos b)"
  using assms by (auto simp: buf_inv_def word_le_nat_alt)

lemma unat_readable: "buf_inv b \<Longrightarrow> unat (readable b) = unat (wrPos b) - unat (rdPos b)"
  by (simp add: readable_def buf_inv_def unat_sub)

lemma room_eq: "buf_inv b \<Longrightarrow> room b = unat (cap b) - unat (wrPos b)"
  by (simp add: room_def writable_def buf_inv_def unat_sub)

lemma isReadable_less: "isReadable b \<longleftrightarrow> rdPos b \<noteq> wrPos b"
  by (auto simp: isReadable_def readable_def word_neq_0_conv [symmetric])

lemma isWritable_less: "isWritable b \<longleftrightarrow> wrPos b \<noteq> cap b"
  by (auto simp: isWritable_def writable_def word_neq_0_conv [symmetric])

lemma isWritable_room: "isWritable b \<longleftrightarrow> 0 < room b"
  by (simp add: isWritable_def room_def word_less_nat_alt)

lemma length_unread: "buf_inv b \<Longrightarrow> length (unread b) = unat (readable b)"
  using buf_invD [of b] by (auto simp: unread_def unat_readable)

lemma isReadable_unread: "buf_inv b \<Longrightarrow> isReadable b \<longleftrightarrow> unread b \<noteq> []"
  using length_unread [of b]
  by (auto simp: isReadable_def word_less_nat_alt simp flip: length_greater_0_conv)

lemma length_written: "buf_inv b \<Longrightarrow> length (written b) = unat (wrPos b)"
  using buf_invD [of b] by (simp add: written_def)

lemma unread_written: "buf_inv b \<Longrightarrow> unread b = drop (unat (rdPos b)) (written b)"
  using buf_invD [of b] by (simp add: unread_def written_def unat_readable drop_take)

section \<open>Every operation keeps the invariant\<close>

lemma isReadable_lt: "buf_inv b \<Longrightarrow> isReadable b \<longleftrightarrow> rdPos b < wrPos b"
  by (auto simp: isReadable_less buf_inv_def)

lemma isWritable_lt: "buf_inv b \<Longrightarrow> isWritable b \<longleftrightarrow> wrPos b < cap b"
  by (auto simp: isWritable_less buf_inv_def)

lemma putNext_inv [intro]: "buf_inv b \<Longrightarrow> buf_inv (putNext b c)"
proof (cases "isWritable b")
  case True
  assume inv: "buf_inv b"
  with True have lt: "wrPos b < cap b"
    by (simp add: isWritable_lt)
  have "wrPos b \<le> wrPos b + 1"
    using lt by (simp add: word_le_nat_alt unat_add_1_less)
  then have "rdPos b \<le> wrPos b + 1" "rdMark b \<le> wrPos b + 1"
    using inv by (auto simp: buf_inv_def)
  then show ?thesis
    using inv True lt by (simp add: putNext_def buf_inv_def word_add_1_le)
qed (simp add: putNext_def)

lemma buf_next_inv [intro]: "buf_inv b \<Longrightarrow> buf_inv (snd (buf_next b))"
  by (auto simp: buf_next_def isReadable_lt word_add_1_le) (simp add: buf_inv_def word_add_1_le)

lemma skipNext_next: "skipNext b = snd (buf_next b)"
  by (simp add: skipNext_def buf_next_def)

lemma peekNext_next: "peekNext b = fst (buf_next b)"
  by (simp add: peekNext_def buf_next_def)

lemma readMark_inv [intro]: "buf_inv b \<Longrightarrow> buf_inv (readMark b)"
  by (simp add: readMark_def buf_inv_def)

lemma readReset_inv [intro]: "buf_inv b \<Longrightarrow> buf_inv (readReset b)"
  by (simp add: readReset_def buf_inv_def)

lemma writeMark_inv [intro]: "buf_inv b \<Longrightarrow> buf_inv (writeMark b)"
  by (simp add: writeMark_def buf_inv_def)

lemma writeReset_inv:
  "buf_inv b \<Longrightarrow> rdPos b \<le> wrMark b \<Longrightarrow> rdMark b \<le> wrMark b \<Longrightarrow> buf_inv (writeReset b)"
  by (simp add: writeReset_def buf_inv_def)

lemma setReadPosition_inv: "buf_inv b \<Longrightarrow> p \<le> wrPos b \<Longrightarrow> buf_inv (setReadPosition b p)"
  by (auto simp: setReadPosition_def buf_inv_def)

lemma setWritePosition_inv:
  "buf_inv b \<Longrightarrow> rdPos b \<le> p \<Longrightarrow> rdMark b \<le> p \<Longrightarrow> buf_inv (setWritePosition b p)"
  by (auto simp: setWritePosition_def buf_inv_def)

lemma buf_skip_inv [intro]: "buf_inv b \<Longrightarrow> buf_inv (buf_skip b n)"
  by (auto simp: buf_skip_def buf_inv_def)

lemma buf_clear_inv [intro]: "buf_inv b \<Longrightarrow> buf_inv (buf_clear b)"
  by (simp add: buf_clear_def buf_inv_def)

lemma compact_inv [intro]: "buf_inv b \<Longrightarrow> buf_inv (snd (compact b))"
proof (cases "rdPos b = 0")
  case False
  assume inv: "buf_inv b"
  let ?b = "snd (compact b)"
  have "wrPos b - rdPos b \<le> wrPos b"
    using buf_invD(6) [OF inv] buf_invD(2) [OF inv] by (simp add: word_le_nat_alt [of "wrPos b - rdPos b"] unat_sub)
  then have "wrPos ?b \<le> cap ?b"
    using buf_invD(3) [OF inv] False by (simp add: compact_def Let_def)
  moreover have "length (octets ?b) = unat (cap ?b)"
    using buf_invD(1,7) [OF inv] buf_invD(2) [OF inv] False
    by (auto simp: compact_def Let_def unat_sub)
  ultimately show ?thesis
    using False by (auto simp: buf_inv_def compact_def Let_def)
qed (simp add: compact_def)

section \<open>Effect of the operations on the unread octets\<close>

lemma unread_next:
  assumes "buf_inv b" "isReadable b"
  shows "unread b = fst (buf_next b) # unread (snd (buf_next b))"
proof -
  have lt: "unat (rdPos b) < unat (wrPos b)"
    using assms by (simp add: isReadable_lt word_less_nat_alt)
  have "unat (wrPos b) \<le> length (octets b)"
    using buf_invD [OF assms(1)] by simp
  moreover have "readable (b\<lparr>rdPos := rdPos b + 1\<rparr>) = readable b - 1"
    by (simp add: readable_def)
  moreover have "unat (readable b - 1) = unat (readable b) - 1"
    using assms(2) by (simp add: isReadable_def unat_minus_one word_neq_0_conv)
  moreover have "unat (rdPos b + 1) = Suc (unat (rdPos b))"
    using assms by (simp add: isReadable_lt unat_add_1_less)
  ultimately show ?thesis
    using assms lt
    by (auto simp: unread_def buf_next_def unat_readable Cons_nth_drop_Suc [symmetric] take_Cons'
        split: if_splits)
qed

lemma unread_nextE:
  assumes "buf_inv b" "isReadable b"
  obtains c b' where "buf_next b = (c, b')" "unread b = c # unread b'" "buf_inv b'"
  using unread_next [OF assms] buf_next_inv [OF assms(1)] by (cases "buf_next b") auto

lemma readable_next_less: "isReadable b \<Longrightarrow> unat (readable (snd (buf_next b))) < unat (readable b)"
proof -
  assume r: "isReadable b"
  then have "readable (snd (buf_next b)) = readable b - 1"
    by (simp add: buf_next_def readable_def)
  with r show ?thesis
    by (simp add: isReadable_def unat_minus_one word_neq_0_conv word_less_nat_alt)
qed

lemma written_putNext:
  assumes "buf_inv b" "0 < room b"
  shows "written (putNext b c) = written b @ [c]"
proof -
  have "isWritable b" using assms by (simp add: isWritable_room)
  then have "unat (wrPos b + 1) = Suc (unat (wrPos b))" "unat (wrPos b) < unat (cap b)"
    using assms by (simp_all add: isWritable_lt unat_add_1_less word_less_nat_alt)
  then show ?thesis
    using assms \<open>isWritable b\<close> by (simp add: written_def putNext_def buf_inv_def take_Suc_conv_app_nth)
qed

lemma putNext_full [simp]: "room b = 0 \<Longrightarrow> putNext b c = b"
  by (simp add: putNext_def isWritable_room)

lemma rdPos_putNext [simp]: "rdPos (putNext b c) = rdPos b"
  and rdMark_putNext [simp]: "rdMark (putNext b c) = rdMark b"
  and wrMark_putNext [simp]: "wrMark (putNext b c) = wrMark b"
  and cap_putNext [simp]: "cap (putNext b c) = cap b"
  by (simp_all add: putNext_def)

lemma unread_putNext:
  assumes "buf_inv b" "0 < room b"
  shows "unread (putNext b c) = unread b @ [c]"
  using assms buf_invD [OF assms(1)]
  by (simp add: unread_written written_putNext putNext_inv length_written)

lemma wrPos_putNext: "0 < room b \<Longrightarrow> wrPos (putNext b c) = wrPos b + 1"
  by (simp add: putNext_def isWritable_room)

lemma unat_wrPos_putNext: "buf_inv b \<Longrightarrow> 0 < room b \<Longrightarrow> unat (wrPos (putNext b c)) = Suc (unat (wrPos b))"
  by (metis isWritable_lt isWritable_room unat_add_1_less wrPos_putNext)

lemma room_putNext: "buf_inv b \<Longrightarrow> room (putNext b c) = room b - 1"
  by (cases "room b = 0") (simp_all add: room_eq putNext_inv unat_wrPos_putNext)

lemma compact_unread: "buf_inv b \<Longrightarrow> unread (snd (compact b)) = unread b"
  using buf_invD [of b]
  by (auto simp: compact_def unread_def readable_def Let_def unat_sub)

lemma compact_room: "buf_inv b \<Longrightarrow> room (snd (compact b)) = room b + unat (rdPos b)"
  using buf_invD [of b] compact_inv [of b]
  by (auto simp: room_eq) (auto simp: compact_def Let_def unat_sub)

lemma compact_result: "fst (compact b) \<longleftrightarrow> rdPos b \<noteq> 0"
  by (simp add: compact_def Let_def)

lemma unread_clear [simp]: "unread (buf_clear b) = []"
  by (simp add: unread_def buf_clear_def readable_def)

lemma room_clear: "room (buf_clear b) = unat (cap b)"
  by (simp add: room_def writable_def buf_clear_def)

lemma wrPos_clear [simp]: "wrPos (buf_clear b) = 0"
  and cap_clear [simp]: "cap (buf_clear b) = cap b"
  by (simp_all add: buf_clear_def)

text \<open>Stepping back over the octet just read restores the buffer.\<close>

lemma unget_next:
  assumes "buf_inv b" "isReadable b"
  shows "setReadPosition (snd (buf_next b)) (rdPos (snd (buf_next b)) - 1) = b"
proof -
  have "\<not> cap b < rdPos b"
    using buf_invD [OF assms(1)] by (auto simp: word_le_nat_alt word_less_nat_alt)
  then show ?thesis
    using assms by (simp add: buf_next_def setReadPosition_def)
qed

section \<open>Data from and to a socket\<close>

text \<open>
  \<open>ConnectedSocket::receive(Buffer *)\<close> (base/source/ESBConnectedSocket.cpp): \<open>recv\<close> stores the
  octets \<open>bs\<close> the kernel delivers, at most \<open>writable()\<close> of them, behind the write position.
  \<open>ConnectedSocket::send(Buffer *)\<close>: the kernel takes \<open>n\<close> octets, at most \<open>readable()\<close>.
\<close>

definition receive :: "buffer \<Rightarrow> u8 list \<Rightarrow> buffer" where
  "receive b bs =
     (if bs = [] then b
      else setWritePosition
        (b\<lparr>octets := take (unat (wrPos b)) (octets b) @ bs
                      @ drop (unat (wrPos b) + length bs) (octets b)\<rparr>)
        (wrPos b + of_nat (length bs)))"

definition send :: "buffer \<Rightarrow> u32 \<Rightarrow> buffer" where
  "send b n =
     (if n = 0 then b else snd (compact (setReadPosition b (rdPos b + n))))"

definition fits :: "buffer \<Rightarrow> u8 list \<Rightarrow> bool" where
  "fits b bs \<longleftrightarrow> buf_inv b \<and> length bs \<le> room b"

lemma fits_inv: "fits b bs \<Longrightarrow> buf_inv b"
  by (simp add: fits_def)

lemma fits_le: "fits b bs \<Longrightarrow> unat (wrPos b) + length bs \<le> unat (cap b)"
  using buf_invD(7) [of b] by (auto simp: fits_def room_eq)

lemma receive_Nil [simp]: "receive b [] = b"
  by (simp add: receive_def)

lemma unat_wrPos_receive:
  assumes "fits b bs"
  shows "unat (wrPos b + of_nat (length bs)) = unat (wrPos b) + length bs"
    "unat (wrPos (receive b bs)) = unat (wrPos b) + length bs"
    "\<not> cap b < wrPos b + of_nat (length bs)"
proof -
  have le: "unat (wrPos b) + length bs \<le> unat (cap b)"
    using assms by (rule fits_le)
  also have "unat (cap b) < 2 ^ 32"
    using unsigned_less [of "cap b"] by simp
  finally have "unat (wrPos b) + length bs < 2 ^ 32" .
  then show 1: "unat (wrPos b + of_nat (length bs)) = unat (wrPos b) + length bs"
    by (simp add: unat_word_ariths unat_of_nat)
  with le show 2: "\<not> cap b < wrPos b + of_nat (length bs)"
    by (simp add: word_less_nat_alt)
  from 1 2 show "unat (wrPos (receive b bs)) = unat (wrPos b) + length bs"
    by (simp add: receive_def setWritePosition_def)
qed

lemma receive_eq:
  assumes "fits b bs"
  shows "receive b bs =
    b\<lparr>octets := take (unat (wrPos b)) (octets b) @ bs @ drop (unat (wrPos b) + length bs) (octets b),
      wrPos := wrPos b + of_nat (length bs)\<rparr>"
  using unat_wrPos_receive(3) [OF assms]
  by (cases "bs = []") (simp_all add: receive_def setWritePosition_def)

lemma receive_fields [simp]:
  "rdPos (receive b bs) = rdPos b" "rdMark (receive b bs) = rdMark b"
  "wrMark (receive b bs) = wrMark b" "cap (receive b bs) = cap b"
  by (simp_all add: receive_def setWritePosition_def)

lemma receive_inv:
  assumes "fits b bs"
  shows "buf_inv (receive b bs)"
proof -
  have inv: "buf_inv b" and len: "length bs \<le> room b"
    using assms by (auto simp: fits_def)
  note w = unat_wrPos_receive [OF assms]
  have "wrPos b \<le> wrPos b + of_nat (length bs)"
    unfolding word_le_nat_alt w(1) by simp
  then have "rdPos b \<le> wrPos b + of_nat (length bs)" "rdMark b \<le> wrPos b + of_nat (length bs)"
    using buf_invD [OF inv] by auto
  moreover have "unat (wrPos b) + length bs \<le> unat (cap b)"
    using assms by (rule fits_le)
  ultimately show ?thesis
    using w(3) buf_invD [OF inv] by (simp add: receive_eq [OF assms] buf_inv_def)
qed

lemma room_receive: "fits b bs \<Longrightarrow> room (receive b bs) = room b - length bs"
  using unat_wrPos_receive(2) [of b bs] receive_inv [of b bs] fits_inv [of b bs]
  by (simp add: room_eq)

lemma written_receive: "fits b bs \<Longrightarrow> written (receive b bs) = written b @ bs"
  using unat_wrPos_receive(2) [of b bs] buf_invD [of b]
  by (simp add: written_def fits_def) (simp add: receive_eq fits_def)

lemma unread_receive: "fits b bs \<Longrightarrow> unread (receive b bs) = unread b @ bs"
  using buf_invD [of b]
  by (simp add: unread_written receive_inv written_receive)
     (simp add: fits_def unread_written length_written)

lemma readable_receive: "fits b bs \<Longrightarrow> unat (readable (receive b bs)) = unat (readable b) + length bs"
  by (metis fits_def length_append length_unread receive_inv unread_receive)

lemma fits_Nil [simp]: "fits b [] \<longleftrightarrow> buf_inv b"
  by (simp add: fits_def)

lemma receive_append:
  assumes "fits b (xs @ ys)"
  shows "receive (receive b xs) ys = receive b (xs @ ys)"
proof -
  have x: "fits b xs" using assms by (simp add: fits_def)
  then have y: "fits (receive b xs) ys"
    using assms by (simp add: fits_def receive_inv [OF x] room_receive)
  have "unat (wrPos b) \<le> length (octets b)"
    using buf_invD [OF fits_inv [OF x]] by simp
  then show ?thesis
    by (subst receive_eq [OF y])
       (simp add: receive_eq [OF x] receive_eq [OF assms] unat_wrPos_receive(1) [OF x] ac_simps)
qed

text \<open>Read operations commute with the arrival of data.\<close>

lemma receive_update_read:
  "receive (b\<lparr>rdPos := p\<rparr>) bs = (receive b bs)\<lparr>rdPos := p\<rparr>"
  "receive (b\<lparr>rdMark := p\<rparr>) bs = (receive b bs)\<lparr>rdMark := p\<rparr>"
  by (simp_all add: receive_def setWritePosition_def)

lemma room_update_read [simp]:
  "room (b\<lparr>rdPos := p\<rparr>) = room b" "room (b\<lparr>rdMark := p\<rparr>) = room b"
  by (simp_all add: room_def writable_def)

lemma readMark_receive [fill_simps]: "readMark (receive b bs) = receive (readMark b) bs"
  by (simp add: readMark_def receive_update_read)

lemma readReset_receive [fill_simps]: "readReset (receive b bs) = receive (readReset b) bs"
  by (simp add: readReset_def receive_update_read)

lemma setReadPosition_receive [fill_simps]:
  "setReadPosition (receive b bs) p = receive (setReadPosition b p) bs"
  by (simp add: setReadPosition_def receive_update_read)

lemma isReadable_receive [fill_simps]: "fits b bs \<Longrightarrow> isReadable b \<Longrightarrow> isReadable (receive b bs)"
  by (simp add: isReadable_unread receive_inv unread_receive fits_inv)

lemma buf_next_receive [fill_simps]:
  assumes "fits b bs" "isReadable b"
  shows "buf_next (receive b bs) = (fst (buf_next b), receive (snd (buf_next b)) bs)"
proof -
  have inv: "buf_inv b" and lt: "unat (rdPos b) < unat (wrPos b)"
    using assms by (auto simp: fits_def isReadable_lt word_less_nat_alt)
  then have "octets (receive b bs) ! unat (rdPos b) = octets b ! unat (rdPos b)"
    using buf_invD [OF inv] by (simp add: receive_eq [OF assms(1)] nth_append)
  then show ?thesis
    using assms isReadable_receive [OF assms] by (simp add: buf_next_def receive_update_read)
qed

lemma room_read_ops [simp]:
  "room (readMark b) = room b" "room (readReset b) = room b" "room (setReadPosition b p) = room b"
  "room (snd (buf_next b)) = room b" "room (skipNext b) = room b"
  by (simp_all add: readMark_def readReset_def setReadPosition_def buf_next_def skipNext_def)

lemma fits_read_ops [simp]:
  "fits b bs \<Longrightarrow> fits (readMark b) bs" "fits b bs \<Longrightarrow> fits (readReset b) bs"
  "fits b bs \<Longrightarrow> fits (snd (buf_next b)) bs" "fits b bs \<Longrightarrow> fits (skipNext b) bs"
  by (auto simp: fits_def skipNext_next)

text \<open>\<open>b'\<close> is \<open>b\<close> with the read position moved ahead, and nothing else changed.\<close>

definition advances :: "buffer \<Rightarrow> buffer \<Rightarrow> bool" where
  "advances b b' \<longleftrightarrow> b' = b\<lparr>rdPos := rdPos b'\<rparr> \<and> rdPos b \<le> rdPos b' \<and> rdPos b' \<le> wrPos b"

lemma advances_refl [intro]: "buf_inv b \<Longrightarrow> advances b b"
  by (simp add: advances_def buf_inv_def)

lemma advances_fields:
  assumes "advances b b'"
  shows "octets b' = octets b" "wrPos b' = wrPos b" "cap b' = cap b" "rdMark b' = rdMark b"
    "wrMark b' = wrMark b" "room b' = room b" "rdPos b \<le> rdPos b'" "rdPos b' \<le> wrPos b"
  using assms unfolding advances_def by (metis room_update_read(1) buffer.select_convs buffer.surjective buffer.update_convs(5))+

lemma advances_trans [trans]: "advances a b \<Longrightarrow> advances b c \<Longrightarrow> advances a c"
  using advances_fields [of a b] unfolding advances_def
  by (metis (no_types, lifting) buffer.surjective buffer.update_convs(5) order_trans)

lemma advances_inv: "buf_inv b \<Longrightarrow> advances b b' \<Longrightarrow> buf_inv b'"
  using advances_fields [of b b'] by (simp add: buf_inv_def)

lemma advances_fits: "fits b bs \<Longrightarrow> advances b b' \<Longrightarrow> fits b' bs"
  using advances_fields [of b b'] advances_inv [of b b'] by (simp add: fits_def)

lemma advances_next: "buf_inv b \<Longrightarrow> advances b (snd (buf_next b))"
proof (cases "isReadable b")
  case True
  assume "buf_inv b"
  with True have "rdPos b < wrPos b" by (simp add: isReadable_lt)
  then have "rdPos b + 1 \<le> wrPos b" "rdPos b \<le> rdPos b + 1"
    by (auto simp: word_add_1_le word_le_nat_alt [of "rdPos b"] unat_add_1_less)
  with True show ?thesis
    by (simp add: advances_def buf_next_def)
qed (auto simp: buf_next_def advances_refl)

lemma advances_unread:
  assumes "buf_inv b" "advances b b'"
  shows "unread b' = drop (unat (rdPos b' - rdPos b)) (unread b)"
proof -
  note f = advances_fields [OF assms(2)]
  have "unat (rdPos b' - rdPos b) = unat (rdPos b') - unat (rdPos b)"
    "unat (rdPos b) \<le> unat (rdPos b')"
    using f(7) by (simp_all add: unat_sub word_le_nat_alt)
  then show ?thesis
    using f assms advances_inv [OF assms] by (simp add: unread_written written_def)
qed

lemma advances_readable:
  "buf_inv b \<Longrightarrow> advances b b' \<Longrightarrow> unat (readable b') \<le> unat (readable b)"
  using advances_fields [of b b'] advances_inv [of b b']
  by (simp add: unat_readable word_le_nat_alt diff_le_mono2)

section \<open>The buffer is a bounded FIFO queue of octets\<close>

locale octet_queue =
  fixes put :: "'q \<Rightarrow> u8 \<Rightarrow> 'q"
    and get :: "'q \<Rightarrow> u8 \<times> 'q"
    and contents :: "'q \<Rightarrow> u8 list"
    and space :: "'q \<Rightarrow> nat"
    and ok :: "'q \<Rightarrow> bool"
  assumes put_ok: "ok q \<Longrightarrow> ok (put q c)"
    and get_ok: "ok q \<Longrightarrow> ok (snd (get q))"
    and put_contents: "ok q \<Longrightarrow> contents (put q c) = (if space q = 0 then contents q else contents q @ [c])"
    and put_space: "ok q \<Longrightarrow> space (put q c) = space q - 1"
    and get_contents: "ok q \<Longrightarrow> contents q \<noteq> [] \<Longrightarrow> contents q = fst (get q) # contents (snd (get q))"
begin

lemma puts_ok: "ok q \<Longrightarrow> ok (foldl put q cs)"
  by (induction cs arbitrary: q) (auto intro: put_ok)

lemma puts_contents: "ok q \<Longrightarrow> contents (foldl put q cs) = contents q @ take (space q) cs"
proof (induction cs arbitrary: q)
  case (Cons c cs)
  then show ?case
    by (cases "space q") (auto simp: put_ok put_contents put_space)
qed simp

end

fun get_n :: "('q \<Rightarrow> u8 \<times> 'q) \<Rightarrow> nat \<Rightarrow> 'q \<Rightarrow> u8 list \<times> 'q" where
  "get_n get 0 q = ([], q)"
| "get_n get (Suc n) q = (let (c, q') = get q; (cs, q'') = get_n get n q' in (c # cs, q''))"

context octet_queue begin

lemma get_n_contents:
  "ok q \<Longrightarrow> n \<le> length (contents q) \<Longrightarrow>
    fst (get_n get n q) = take n (contents q) \<and> contents (snd (get_n get n q)) = drop n (contents q)"
proof (induction n arbitrary: q)
  case (Suc n)
  obtain c q' where g: "get q = (c, q')" by (cases "get q")
  have "contents q = c # contents q'" "ok q'"
    using Suc.prems get_contents [of q] get_ok [of q] g by fastforce+
  with Suc.IH [of q'] Suc.prems g show ?case by (auto simp: Let_def split: prod.splits)
qed simp

text \<open>What is put into an empty queue with enough space is what is read, in order.\<close>

lemma fifo:
  "ok q \<Longrightarrow> contents q = [] \<Longrightarrow> length cs \<le> space q \<Longrightarrow>
    fst (get_n get (length cs) (foldl put q cs)) = cs"
  using get_n_contents [of "foldl put q cs" "length cs"] by (simp add: puts_contents puts_ok)

end

interpretation bufq: octet_queue putNext buf_next unread room buf_inv
proof
  fix b :: buffer and c
  assume inv: "buf_inv b"
  show "buf_inv (putNext b c)" "buf_inv (snd (buf_next b))"
    using inv by auto
  show "unread (putNext b c) = (if room b = 0 then unread b else unread b @ [c])"
    using inv by (auto simp: unread_putNext)
  show "room (putNext b c) = room b - 1"
    using inv by (rule room_putNext)
  assume "unread b \<noteq> []"
  then show "unread b = fst (buf_next b) # unread (snd (buf_next b))"
    using inv by (intro unread_next) (simp_all add: isReadable_unread)
qed

end
