(* ===== verification/HttpUtil.thy ===== *)
theory HttpUtil
  imports Buffer
begin

text \<open>
  \<open>ES::HttpUtil\<close> (data-plane/http-common/include/ESHttpUtil.h, source/ESHttpUtil.cpp): the
  octet classes and the scanning, escaping and number routines the parsers and formatters
  share. The class table is the source's array; \<open>http_class\<close> collects what each class is.
\<close>

section \<open>Octet classes\<close>

text \<open>\<open>HttpUtil::_Bitmasks\<close>, indexed by the octet.\<close>

definition bitmasks :: "u16 list" where
  "bitmasks = [
   0x0000, 0x0000, 0x0000, 0x0000, 0x0000, 0x0000, 0x0000, 0x0000,
   0x0000, 0x0300, 0x0000, 0x0000, 0x0000, 0x0000, 0x0000, 0x0000,
   0x0000, 0x0000, 0x0000, 0x0000, 0x0000, 0x0000, 0x0000, 0x0000,
   0x0000, 0x0000, 0x0000, 0x0000, 0x0000, 0x0000, 0x0000, 0x0000,
   0x0300, 0x0508, 0x0300, 0x0500, 0x05c0, 0x0520, 0x05c0, 0x0508,
   0x0308, 0x0308, 0x0508, 0x05c0, 0x03c0, 0x0508, 0x0508, 0x0380,
   0x0504, 0x0504, 0x0504, 0x0504, 0x0504, 0x0504, 0x0504, 0x0504,
   0x0504, 0x0504, 0x03c0, 0x0380, 0x0300, 0x03c0, 0x0300, 0x0380,
   0x03c0, 0x0512, 0x0512, 0x0512, 0x0512, 0x0512, 0x0512, 0x0502,
   0x0502, 0x0502, 0x0502, 0x0502, 0x0502, 0x0502, 0x0502, 0x0502,
   0x0502, 0x0502, 0x0502, 0x0502, 0x0502, 0x0502, 0x0502, 0x0502,
   0x0502, 0x0502, 0x0502, 0x0300, 0x0300, 0x0300, 0x0500, 0x0508,
   0x0500, 0x0511, 0x0511, 0x0511, 0x0511, 0x0511, 0x0511, 0x0501,
   0x0501, 0x0501, 0x0501, 0x0501, 0x0501, 0x0501, 0x0501, 0x0501,
   0x0501, 0x0501, 0x0501, 0x0501, 0x0501, 0x0501, 0x0501, 0x0501,
   0x0501, 0x0501, 0x0501, 0x0300, 0x0500, 0x0300, 0x0508, 0x0000,
   0x0100, 0x0100, 0x0100, 0x0100, 0x0100, 0x0100, 0x0100, 0x0100,
   0x0100, 0x0100, 0x0100, 0x0100, 0x0100, 0x0100, 0x0100, 0x0100,
   0x0100, 0x0100, 0x0100, 0x0100, 0x0100, 0x0100, 0x0100, 0x0100,
   0x0100, 0x0100, 0x0100, 0x0100, 0x0100, 0x0100, 0x0100, 0x0100,
   0x0100, 0x0100, 0x0100, 0x0100, 0x0100, 0x0100, 0x0100, 0x0100,
   0x0100, 0x0100, 0x0100, 0x0100, 0x0100, 0x0100, 0x0100, 0x0100,
   0x0100, 0x0100, 0x0100, 0x0100, 0x0100, 0x0100, 0x0100, 0x0100,
   0x0100, 0x0100, 0x0100, 0x0100, 0x0100, 0x0100, 0x0100, 0x0100,
   0x0100, 0x0100, 0x0100, 0x0100, 0x0100, 0x0100, 0x0100, 0x0100,
   0x0100, 0x0100, 0x0100, 0x0100, 0x0100, 0x0100, 0x0100, 0x0100,
   0x0100, 0x0100, 0x0100, 0x0100, 0x0100, 0x0100, 0x0100, 0x0100,
   0x0100, 0x0100, 0x0100, 0x0100, 0x0100, 0x0100, 0x0100, 0x0100,
   0x0100, 0x0100, 0x0100, 0x0100, 0x0100, 0x0100, 0x0100, 0x0100,
   0x0100, 0x0100, 0x0100, 0x0100, 0x0100, 0x0100, 0x0100, 0x0100,
   0x0100, 0x0100, 0x0100, 0x0100, 0x0100, 0x0100, 0x0100, 0x0100,
   0x0100, 0x0100, 0x0100, 0x0100, 0x0100, 0x0100, 0x0100, 0x0100
  ]"

definition octet_in :: "u16 \<Rightarrow> u8 \<Rightarrow> bool" where
  "octet_in m c \<longleftrightarrow> bitmasks ! unat c AND m \<noteq> 0"

text \<open>
  IS_LOW_ALPHA 0x01, IS_UP_ALPHA 0x02, IS_DIGIT 0x04, IS_MARK 0x08, hexadecimal letter 0x10,
  percent sign 0x20, path characters 0x40, IS_RESERVED 0x80, IS_TEXT 0x100,
  IS_SEPARATOR 0x200, IS_TOKEN 0x400; the other masks are disjunctions of these.
\<close>

definition IsLowAlpha :: "u8 \<Rightarrow> bool" where "IsLowAlpha c = octet_in 0x01 c"
definition IsUpAlpha :: "u8 \<Rightarrow> bool" where "IsUpAlpha c = octet_in 0x02 c"
definition IsDigit :: "u8 \<Rightarrow> bool" where "IsDigit c = octet_in 0x04 c"
definition IsAlpha :: "u8 \<Rightarrow> bool" where "IsAlpha c = octet_in 0x03 c"
definition IsAlphaNum :: "u8 \<Rightarrow> bool" where "IsAlphaNum c = octet_in 0x07 c"
definition IsMark :: "u8 \<Rightarrow> bool" where "IsMark c = octet_in 0x08 c"
definition IsUnreserved :: "u8 \<Rightarrow> bool" where "IsUnreserved c = octet_in 0x0F c"
definition IsHex :: "u8 \<Rightarrow> bool" where "IsHex c = octet_in 0x14 c"
definition IsEscaped :: "u8 \<Rightarrow> bool" where "IsEscaped c = octet_in 0x34 c"
definition IsPchar :: "u8 \<Rightarrow> bool" where "IsPchar c = octet_in 0x7F c"
definition IsReserved :: "u8 \<Rightarrow> bool" where "IsReserved c = octet_in 0x80 c"
definition IsUric :: "u8 \<Rightarrow> bool" where "IsUric c = octet_in 0xBF c"
definition IsText :: "u8 \<Rightarrow> bool" where "IsText c = octet_in 0x100 c"
definition IsSeparator :: "u8 \<Rightarrow> bool" where "IsSeparator c = octet_in 0x200 c"
definition IsToken :: "u8 \<Rightarrow> bool" where "IsToken c = octet_in 0x400 c"

text \<open>
  A class is decided octet by octet: both sides are computed for the 256 octets and the two
  lists compared.
\<close>

lemma octet_class_eqI:
  assumes "map (\<lambda>x. x AND m \<noteq> 0) bitmasks = map P (map of_nat [0..<256])"
  shows "octet_in m c \<longleftrightarrow> P c"
proof -
  have len: "length bitmasks = 256" by (simp add: bitmasks_def)
  have c: "unat c < 256" using unsigned_less [of c] by simp
  have "octet_in m c = (map (\<lambda>x. x AND m \<noteq> 0) bitmasks ! unat c)"
    using c by (simp add: octet_in_def len)
  also have "\<dots> = P c"
    unfolding assms using c by simp
  finally show ?thesis .
qed

lemma upt256: "[0..<256] = 0 # 1 # [2..<256]"
  by (simp add: upt_conv_Cons numeral_2_eq_2)

lemma octet_list: "map of_nat [0..<256] = ([
    0, 1, 2, 3, 4, 5, 6, 7, 8, 9, 10, 11, 12, 13, 14, 15, 16, 17, 18, 19, 20, 21, 22, 23, 24,
    25, 26, 27, 28, 29, 30, 31, 32, 33, 34, 35, 36, 37, 38, 39, 40, 41, 42, 43, 44, 45, 46,
    47, 48, 49, 50, 51, 52, 53, 54, 55, 56, 57, 58, 59, 60, 61, 62, 63, 64, 65, 66, 67, 68,
    69, 70, 71, 72, 73, 74, 75, 76, 77, 78, 79, 80, 81, 82, 83, 84, 85, 86, 87, 88, 89, 90,
    91, 92, 93, 94, 95, 96, 97, 98, 99, 100, 101, 102, 103, 104, 105, 106, 107, 108, 109, 110,
    111, 112, 113, 114, 115, 116, 117, 118, 119, 120, 121, 122, 123, 124, 125, 126, 127, 128,
    129, 130, 131, 132, 133, 134, 135, 136, 137, 138, 139, 140, 141, 142, 143, 144, 145, 146,
    147, 148, 149, 150, 151, 152, 153, 154, 155, 156, 157, 158, 159, 160, 161, 162, 163, 164,
    165, 166, 167, 168, 169, 170, 171, 172, 173, 174, 175, 176, 177, 178, 179, 180, 181, 182,
    183, 184, 185, 186, 187, 188, 189, 190, 191, 192, 193, 194, 195, 196, 197, 198, 199, 200,
    201, 202, 203, 204, 205, 206, 207, 208, 209, 210, 211, 212, 213, 214, 215, 216, 217, 218,
    219, 220, 221, 222, 223, 224, 225, 226, 227, 228, 229, 230, 231, 232, 233, 234, 235, 236,
    237, 238, 239, 240, 241, 242, 243, 244, 245, 246, 247, 248, 249, 250, 251, 252, 253, 254,
    255] :: u8 list)"
  unfolding upt256 by simp

lemma octet_all:
  assumes "list_all P (map of_nat [0..<256])"
  shows "P (c :: u8)"
proof -
  obtain n where "c = of_nat n" "n < 256"
    by (rule that [of "unat c"]) (use unsigned_less [of c] in simp_all)
  then show ?thesis
    using assms by (simp add: list_all_iff)
qed

lemma IsDigit_iff [http_class]: "IsDigit c \<longleftrightarrow> 48 \<le> c \<and> c \<le> 57"
  unfolding IsDigit_def
  by (rule octet_class_eqI, simp only: octet_list bitmasks_def list.map) (simp add: word_le_nat_alt)

lemma IsUpAlpha_iff [http_class]: "IsUpAlpha c \<longleftrightarrow> 65 \<le> c \<and> c \<le> 90"
  unfolding IsUpAlpha_def
  by (rule octet_class_eqI, simp only: octet_list bitmasks_def list.map) (simp add: word_le_nat_alt)

lemma IsLowAlpha_iff [http_class]: "IsLowAlpha c \<longleftrightarrow> 97 \<le> c \<and> c \<le> 122"
  unfolding IsLowAlpha_def
  by (rule octet_class_eqI, simp only: octet_list bitmasks_def list.map) (simp add: word_le_nat_alt)

lemma IsAlpha_iff [http_class]: "IsAlpha c \<longleftrightarrow> 65 \<le> c \<and> c \<le> 90 \<or> 97 \<le> c \<and> c \<le> 122"
  unfolding IsAlpha_def
  by (rule octet_class_eqI, simp only: octet_list bitmasks_def list.map) (simp add: word_le_nat_alt)

lemma IsAlphaNum_iff [http_class]: "IsAlphaNum c \<longleftrightarrow> 48 \<le> c \<and> c \<le> 57 \<or> 65 \<le> c \<and> c \<le> 90 \<or> 97 \<le> c \<and> c \<le> 122"
  unfolding IsAlphaNum_def
  by (rule octet_class_eqI, simp only: octet_list bitmasks_def list.map) (simp add: word_le_nat_alt)

lemma IsHex_iff [http_class]: "IsHex c \<longleftrightarrow> 48 \<le> c \<and> c \<le> 57 \<or> 65 \<le> c \<and> c \<le> 70 \<or> 97 \<le> c \<and> c \<le> 102"
  unfolding IsHex_def
  by (rule octet_class_eqI, simp only: octet_list bitmasks_def list.map) (simp add: word_le_nat_alt)

lemma IsText_iff [http_class]: "IsText c \<longleftrightarrow> 32 \<le> c \<and> c \<noteq> 127 \<or> c = 9"
  unfolding IsText_def
  by (rule octet_class_eqI, simp only: octet_list bitmasks_def list.map) (simp add: word_le_nat_alt)

lemma IsSeparator_iff [http_class]: "IsSeparator c \<longleftrightarrow> c \<in> {9, 32, 34, 40, 41, 44, 47, 58, 59, 60, 61, 62, 63, 64, 91, 92, 93, 123, 125}"
  unfolding IsSeparator_def
  by (rule octet_class_eqI, simp only: octet_list bitmasks_def list.map) (simp add: word_le_nat_alt)

lemma IsToken_iff [http_class]: "IsToken c \<longleftrightarrow> 33 \<le> c \<and> c \<le> 126 \<and>
    c \<notin> {34, 40, 41, 44, 47, 58, 59, 60, 61, 62, 63, 64, 91, 92, 93, 123, 125}"
  unfolding IsToken_def
  by (rule octet_class_eqI, simp only: octet_list bitmasks_def list.map) (simp add: word_le_nat_alt)

lemma IsMark_iff [http_class]: "IsMark c \<longleftrightarrow> c \<in> {33, 39, 40, 41, 42, 45, 46, 95, 126}"
  unfolding IsMark_def
  by (rule octet_class_eqI, simp only: octet_list bitmasks_def list.map) (simp add: word_le_nat_alt)

lemma IsReserved_iff [http_class]: "IsReserved c \<longleftrightarrow> c \<in> {36, 38, 43, 44, 47, 58, 59, 61, 63, 64}"
  unfolding IsReserved_def
  by (rule octet_class_eqI, simp only: octet_list bitmasks_def list.map) (simp add: word_le_nat_alt)

lemma IsPchar_iff [http_class]: "IsPchar c \<longleftrightarrow> 48 \<le> c \<and> c \<le> 57 \<or> 65 \<le> c \<and> c \<le> 90 \<or> 97 \<le> c \<and> c \<le> 122 \<or>
    c \<in> {33, 36, 37, 38, 39, 40, 41, 42, 43, 44, 45, 46, 58, 61, 64, 95, 126}"
  unfolding IsPchar_def
  by (rule octet_class_eqI, simp only: octet_list bitmasks_def list.map) (simp add: word_le_nat_alt)

lemma IsUric_iff [http_class]: "IsUric c \<longleftrightarrow> 48 \<le> c \<and> c \<le> 57 \<or> 65 \<le> c \<and> c \<le> 90 \<or> 97 \<le> c \<and> c \<le> 122 \<or>
    c \<in> {33, 36, 37, 38, 39, 40, 41, 42, 43, 44, 45, 46, 47, 58, 59, 61, 63, 64, 95, 126}"
  unfolding IsUric_def
  by (rule octet_class_eqI, simp only: octet_list bitmasks_def list.map) (simp add: word_le_nat_alt)

end
