(* ===== verification/HttpScan.thy ===== *)
theory HttpScan
  imports HttpUtil
begin

text \<open>
  The scanning, escaping and number routines of \<open>ES::HttpUtil\<close>
  (data-plane/http-common/source/ESHttpUtil.cpp). Loops over a buffer stop because every round
  reads an octet (\<open>readable_next_less\<close>).
\<close>

section \<open>Scanning\<close>

definition IsSpace :: "u8 \<Rightarrow> bool" where
  "IsSpace c \<longleftrightarrow> c = SP \<or> c = HT"

definition IsLWS :: "u8 \<Rightarrow> bool" where
  "IsLWS c \<longleftrightarrow> c = CR \<or> c = LF \<or> c = SP \<or> c = HT"

lemma readable_skipNext_less: "isReadable b \<Longrightarrow> unat (readable (skipNext b)) < unat (readable b)"
  by (simp add: skipNext_next readable_next_less)

function SkipSpaces :: "buffer \<Rightarrow> buffer" where
  "SkipSpaces b =
     (if \<not> isReadable b then b
      else if peekNext b = SP \<or> peekNext b = HT then SkipSpaces (skipNext b)
      else b)"
  by pat_completeness auto
termination
  by (relation "measure (\<lambda>b. unat (readable b))") (auto simp: readable_skipNext_less)

function SkipWhitespace :: "buffer \<Rightarrow> buffer" where
  "SkipWhitespace b =
     (if \<not> isReadable b then b
      else if peekNext b = SP \<or> peekNext b = HT \<or> peekNext b = CR \<or> peekNext b = LF
      then SkipWhitespace (skipNext b)
      else b)"
  by pat_completeness auto
termination
  by (relation "measure (\<lambda>b. unat (readable b))") (auto simp: readable_skipNext_less)

text \<open>
  \<open>SkipLine\<close>: the loop, with the saved position, \<open>foundCarriageReturn\<close> and the count
  \<open>*bytesSkipped\<close>.
\<close>

function SkipLine_loop :: "u32 \<Rightarrow> bool \<Rightarrow> u32 \<Rightarrow> buffer \<Rightarrow> error \<times> u32 \<times> buffer" where
  "SkipLine_loop position found n b =
     (if \<not> isReadable b then (ESB_AGAIN, n, setReadPosition b position)
      else
        let (c, b') = buf_next b in
        if c = CR then SkipLine_loop position True (if found then n + 1 else n) b'
        else if c = LF then (ESB_SUCCESS, n, b')
        else SkipLine_loop position False ((if found then n + 1 else n) + 1) b')"
  by pat_completeness auto
termination
  by (relation "measure (\<lambda>(_, _, _, b). unat (readable b))")
     (auto dest!: readable_next_less simp: prod_eq_iff)

definition SkipLine :: "buffer \<Rightarrow> error \<times> u32 \<times> buffer" where
  "SkipLine b = SkipLine_loop (rdPos b) False 0 b"

text \<open>
  \<open>SkipLWS\<close>: skips blanks and line continuations. ESB_INPROGRESS: field data follows,
  ESB_SUCCESS: the line ended, ESB_AGAIN: undecided, the read position is put back.
\<close>

function SkipLWS_loop :: "u32 \<Rightarrow> bool \<Rightarrow> buffer \<Rightarrow> error \<times> buffer" where
  "SkipLWS_loop mark foundCRLF b =
     (if \<not> isReadable b then (ESB_AGAIN, setReadPosition b mark)
      else
        let (c, b') = buf_next b in
        if c = CR then
          (if foundCRLF then (ESB_SUCCESS, setReadPosition b' (rdPos b' - 1))
           else SkipLWS_loop mark foundCRLF b')
        else if c = LF then
          (if foundCRLF then (ESB_SUCCESS, setReadPosition b' (rdPos b' - 1))
           else SkipLWS_loop mark True b')
        else if c = SP \<or> c = HT then SkipLWS_loop mark False b'
        else if foundCRLF then (ESB_SUCCESS, setReadPosition b' (rdPos b' - 1))
        else (ESB_INPROGRESS, setReadPosition b' (rdPos b' - 1)))"
  by pat_completeness auto
termination
  by (relation "measure (\<lambda>(_, _, b). unat (readable b))")
     (auto dest!: readable_next_less simp: prod_eq_iff)

definition SkipLWS_depth :: "buffer \<Rightarrow> int \<Rightarrow> error \<times> buffer" where
  "SkipLWS_depth b depth =
     (if 0 > depth then (ESB_OVERFLOW, b) else SkipLWS_loop (rdPos b) False b)"

definition SkipLWS :: "buffer \<Rightarrow> error \<times> buffer" where
  "SkipLWS b = SkipLWS_depth b 3"

declare SkipSpaces.simps [simp del] SkipWhitespace.simps [simp del]
  SkipLine_loop.simps [simp del] SkipLWS_loop.simps [simp del]

fun IsMatch_loop :: "buffer \<Rightarrow> cstr \<Rightarrow> bool" where
  "IsMatch_loop b [] = True"
| "IsMatch_loop b (p # ps) =
     (let (c, b') = buf_next b in if p \<noteq> c then False else IsMatch_loop b' ps)"

text \<open>\<open>IsMatch\<close> puts the read position back on either result.\<close>

definition IsMatch :: "buffer \<Rightarrow> cstr \<Rightarrow> bool \<times> buffer" where
  "IsMatch b lit = (IsMatch_loop b lit, setReadPosition b (rdPos b))"

fun EndsWith_loop :: "cstr \<Rightarrow> cstr \<Rightarrow> nat \<Rightarrow> nat \<Rightarrow> bool" where
  "EndsWith_loop str pat 0 j = True"
| "EndsWith_loop str pat (Suc i) j =
     (if pat ! i \<noteq> str ! (j - 1) then False else EndsWith_loop str pat i (j - 1))"

definition EndsWith :: "cstr option \<Rightarrow> int \<Rightarrow> cstr option \<Rightarrow> int \<Rightarrow> bool" where
  "EndsWith str strLength pat patLength =
     (case (str, pat) of
        (Some s, Some p) \<Rightarrow>
          if 0 \<ge> strLength \<or> 0 \<ge> patLength then False
          else if patLength > strLength then False
          else EndsWith_loop s p (nat patLength) (nat strLength)
      | _ \<Rightarrow> False)"

section \<open>Numbers\<close>

fun ParseInteger_loop :: "cstr \<Rightarrow> u64 \<Rightarrow> error \<times> u64" where
  "ParseInteger_loop [] n = (ESB_SUCCESS, n)"
| "ParseInteger_loop (c # cs) n =
     (if \<not> IsDigit c then (ES_HTTP_BAD_INTEGER, n)
      else ParseInteger_loop cs (n * 10 + (ucast c - 48)))"

definition ParseInteger :: "cstr option \<Rightarrow> u64 \<Rightarrow> error \<times> u64" where
  "ParseInteger str old =
     (case str of None \<Rightarrow> (ESB_NULL_POINTER, old) | Some s \<Rightarrow> ParseInteger_loop s 0)"

text \<open>
  \<open>FormatInteger\<close> keeps the magnitude in an int: its overflow is undefined, the model answers
  None for it. The test \<open>2 \<le> radix\<close>, which the caller has already made, keeps the loops total.
\<close>

function magnitude_loop :: "int \<Rightarrow> int \<Rightarrow> int \<Rightarrow> nat \<Rightarrow> (int \<times> nat) option" where
  "magnitude_loop radix tmp magnitude len =
     (if tmp > 0 \<and> 2 \<le> radix then
        (if magnitude * radix > 2147483647 then None
         else magnitude_loop radix (tmp div radix) (magnitude * radix) (Suc len))
      else Some (magnitude, len))"
  by pat_completeness auto
termination
proof (relation "measure (\<lambda>(_, tmp, _, _). nat tmp)", simp)
  fix radix tmp :: int
  assume "0 < tmp \<and> 2 \<le> radix"
  then have "tmp div radix < tmp"
    by (intro int_div_less_self) auto
  then show "((radix, tmp div radix, m, n), radix, tmp, m', n') \<in> measure (\<lambda>(_, tmp, _, _). nat tmp)"
    for m m' n n' using \<open>0 < tmp \<and> 2 \<le> radix\<close> by simp
qed

function digit_loop :: "int \<Rightarrow> int \<Rightarrow> int \<Rightarrow> buffer \<Rightarrow> buffer" where
  "digit_loop radix integer magnitude b =
     (if magnitude \<ge> radix \<and> 2 \<le> radix then
        let digit = (integer mod magnitude) div (magnitude div radix);
            c = (if digit < 10 then 48 + of_int digit else 97 + of_int digit - 10)
        in digit_loop radix integer (magnitude div radix) (putNext b c)
      else b)"
  by pat_completeness auto
termination
proof (relation "measure (\<lambda>(_, _, m, _). nat m)", simp)
  fix radix magnitude integer :: int and digit c and b :: buffer
  assume a: "radix \<le> magnitude \<and> 2 \<le> radix"
  then have "magnitude div radix < magnitude"
    by (intro int_div_less_self) auto
  then show "((radix, integer, magnitude div radix, putNext b c), radix, integer, magnitude, b)
      \<in> measure (\<lambda>(_, _, m, _). nat m)"
    using a by simp
qed

declare magnitude_loop.simps [simp del] digit_loop.simps [simp del]

definition FormatInteger :: "buffer \<Rightarrow> u64 \<Rightarrow> int \<Rightarrow> error \<times> buffer" where
  "FormatInteger b integer radix =
     (if 2 > radix \<or> 16 < radix then (ESB_INVALID_ARGUMENT, b)
      else if integer = 0 then
        (if \<not> isWritable b then (ESB_AGAIN, b) else (ESB_SUCCESS, putNext b 48))
      else
        case magnitude_loop radix (sint (ucast integer :: u32)) 1 0 of
          None \<Rightarrow> (UNDEFINED_BEHAVIOUR, b)
        | Some (magnitude, len) \<Rightarrow>
            if len > unat (writable b) then (ESB_AGAIN, b)
            else (ESB_SUCCESS, digit_loop radix (uint integer) magnitude b))"

section \<open>Escapes\<close>

definition hex_value :: "u8 \<Rightarrow> u8" where
  "hex_value c =
     (if IsUpAlpha c then c - 65 + 10 else if IsLowAlpha c then c - 97 + 10 else c - 48)"

definition DecodeEscape :: "buffer \<Rightarrow> u8 \<Rightarrow> error \<times> u8 \<times> buffer" where
  "DecodeEscape b value =
     (if 3 > readable b then (ESB_AGAIN, value, b)
      else
        let (c1, b1) = buf_next b in
        if c1 \<noteq> PERCENT then (ESB_ILLEGAL_ENCODING, value, b1)
        else
          let (c2, b2) = buf_next b1 in
          if \<not> IsHex c2 then (ESB_ILLEGAL_ENCODING, value, b2)
          else
            let value' = hex_value c2 * 16; (c3, b3) = buf_next b2 in
            if \<not> IsHex c3 then (ESB_ILLEGAL_ENCODING, value', b3)
            else (ESB_SUCCESS, value' + hex_value c3, b3))"

definition hex_digit :: "u8 \<Rightarrow> u8" where
  "hex_digit v = (if 10 \<le> v then 65 + (v - 10) else 48 + v)"

definition EncodeEscape :: "buffer \<Rightarrow> u8 \<Rightarrow> error \<times> buffer" where
  "EncodeEscape b value =
     (if value = 0 then (ESB_NULL_POINTER, b)
      else if 3 > writable b then (ESB_AGAIN, b)
      else
        let b1 = putNext b PERCENT;
            b2 = putNext b1 (hex_digit (drop_bit 4 (0xF0 AND value)));
            b3 = putNext b2 (hex_digit (0x0F AND value))
        in (ESB_SUCCESS, b3))"

section \<open>Strings and state\<close>

definition HttpUtil_Duplicate :: "'a alloc_fn \<Rightarrow> 'a \<Rightarrow> cstr option \<Rightarrow> cstr option \<times> 'a" where
  "HttpUtil_Duplicate alloc al value =
     (case value of
        None \<Rightarrow> (None, al)
      | Some v \<Rightarrow>
          (case alloc al (of_nat (length v + 1)) of
             (e, _, al') \<Rightarrow> if e \<noteq> ESB_SUCCESS then (None, al') else (Some v, al')))"

text \<open>
  \<open>Start\<close>, \<open>Transition\<close> and \<open>Rollback\<close>: a formatter marks the write position when it enters a
  state and puts the buffer back to the mark when the state cannot be finished.
\<close>

definition Start :: "buffer \<Rightarrow> u32 \<Rightarrow> u32 \<times> buffer" where
  "Start b initialState = (initialState, writeMark b)"

definition Transition :: "u32 \<Rightarrow> buffer \<Rightarrow> u32 \<Rightarrow> u32 \<Rightarrow> error \<times> u32 \<times> buffer" where
  "Transition st b oldState newState = (ESB_SUCCESS, transition st oldState newState, writeMark b)"

definition Rollback :: "buffer \<Rightarrow> error \<Rightarrow> error \<times> buffer" where
  "Rollback b result = (result, writeReset b)"

section \<open>Scans only advance the read position\<close>

lemma nextE:
  assumes "buf_inv b" "isReadable b"
  obtains c b' where "buf_next b = (c, b')" "peekNext b = c" "skipNext b = b'" "buf_inv b'"
    "unread b = c # unread b'" "advances b b'" "unat (readable b') < unat (readable b)"
    "rdPos b < rdPos b'" "setReadPosition b' (rdPos b' - 1) = b"
proof -
  obtain c b' where n: "buf_next b = (c, b')"
    by (cases "buf_next b")
  have "rdPos b' = rdPos b + 1" "rdPos b < wrPos b"
    using n assms by (auto simp: buf_next_def isReadable_lt)
  then have lt: "rdPos b < rdPos b'"
    by (simp add: word_less_nat_alt [of "rdPos b"] unat_add_1_less)
  show ?thesis
    by (rule that [OF n])
       (use n lt unread_next [OF assms] buf_next_inv [OF assms(1)] advances_next [OF assms(1)]
          readable_next_less [OF assms(2)] unget_next [OF assms]
        in \<open>simp_all add: peekNext_next skipNext_next\<close>)
qed

lemma advances_SkipSpaces: "buf_inv b \<Longrightarrow> advances b (SkipSpaces b)"
proof (induction b rule: SkipSpaces.induct)
  case (1 b)
  show ?case
  proof (cases "isReadable b \<and> (peekNext b = SP \<or> peekNext b = HT)")
    case True
    then obtain b' where b': "skipNext b = b'" "buf_inv b'" "advances b b'"
      using "1.prems" by (metis nextE)
    then have "advances b' (SkipSpaces b')"
      using True "1.IH" by auto
    with b' True show ?thesis
      using advances_trans [of b b'] by (simp add: SkipSpaces.simps [of b])
  next
    case False
    then have "SkipSpaces b = b"
      by (auto simp: SkipSpaces.simps [of b])
    then show ?thesis
      using "1.prems" by auto
  qed
qed

lemma setReadPosition_back:
  assumes "advances a b" "buf_inv a"
  shows "setReadPosition b (rdPos a) = a"
proof -
  obtain p where "b = a\<lparr>rdPos := p\<rparr>"
    using assms(1) by (auto simp: advances_def)
  moreover have "\<not> cap a < rdPos a"
    using buf_invD [OF assms(2)] by auto
  ultimately show ?thesis
    by (simp add: setReadPosition_def)
qed

lemma SkipLine_loop_advances:
  "buf_inv b \<Longrightarrow> advances a b \<Longrightarrow> buf_inv a \<Longrightarrow> SkipLine_loop (rdPos a) found n b = (e, n', b') \<Longrightarrow>
    if e = ESB_AGAIN then b' = a else e = ESB_SUCCESS \<and> advances b b' \<and> rdPos b < rdPos b'"
proof (induction b arbitrary: found n rule: measure_induct_rule [of "\<lambda>b. unat (readable b)"])
  case (less b)
  show ?case
  proof (cases "isReadable b")
    case False
    with less.prems show ?thesis
      by (auto simp: SkipLine_loop.simps [of _ _ _ b] setReadPosition_back)
  next
    case True
    then obtain c b1 where b1: "buf_next b = (c, b1)" "buf_inv b1" "advances b b1" "rdPos b < rdPos b1"
      "unat (readable b1) < unat (readable b)"
      using less.prems(1) by (metis nextE)
    have ab1: "advances a b1"
      using less.prems(2) b1(3) by (rule advances_trans)
    have rec: "advances b b' \<and> rdPos b < rdPos b'" if "advances b1 b'"
      using that b1(3,4) advances_trans advances_fields(7) order_less_le_trans by metis
    note IH = less.IH [OF b1(5,2) ab1 less.prems(3)]
    show ?thesis
      using less.prems(4) True b1(1,3,4) IH rec
      by (auto simp: SkipLine_loop.simps [of _ _ _ b] split: if_splits)
  qed
qed

lemma SkipLine_cases:
  assumes "buf_inv b" "SkipLine b = (e, n, b')"
  shows "e = ESB_AGAIN \<and> b' = b \<or> e = ESB_SUCCESS \<and> advances b b' \<and> rdPos b < rdPos b'"
  using SkipLine_loop_advances [OF assms(1) advances_refl [OF assms(1)] assms(1)
      assms(2) [unfolded SkipLine_def]]
  by (auto split: if_splits)

lemma SkipLWS_loop_advances:
  "buf_inv b \<Longrightarrow> advances a b \<Longrightarrow> buf_inv a \<Longrightarrow> SkipLWS_loop (rdPos a) found b = (e, b') \<Longrightarrow>
    if e = ESB_AGAIN then b' = a else (e = ESB_SUCCESS \<or> e = ESB_INPROGRESS) \<and> advances b b'"
proof (induction b arbitrary: found rule: measure_induct_rule [of "\<lambda>b. unat (readable b)"])
  case (less b)
  show ?case
  proof (cases "isReadable b")
    case False
    with less.prems show ?thesis
      by (auto simp: SkipLWS_loop.simps [of _ _ b] setReadPosition_back)
  next
    case True
    then obtain c b1 where b1: "buf_next b = (c, b1)" "buf_inv b1" "advances b b1"
      "setReadPosition b1 (rdPos b1 - 1) = b" "unat (readable b1) < unat (readable b)"
      using less.prems(1) by (metis nextE)
    have ab1: "advances a b1"
      using less.prems(2) b1(3) by (rule advances_trans)
    have rec: "advances b b'" if "advances b1 b'"
      using that b1(3) advances_trans by metis
    note IH = less.IH [OF b1(5,2) ab1 less.prems(3)]
    show ?thesis
      using less.prems True b1(1,3,4) IH rec
      by (auto simp: SkipLWS_loop.simps [of _ _ b] advances_refl split: if_splits)
  qed
qed

lemma SkipLWS_eq: "SkipLWS b = SkipLWS_loop (rdPos b) False b"
  by (simp add: SkipLWS_def SkipLWS_depth_def)

lemma SkipLWS_cases:
  assumes "buf_inv b" "SkipLWS b = (e, b')"
  shows "e = ESB_AGAIN \<and> b' = b \<or> (e = ESB_SUCCESS \<or> e = ESB_INPROGRESS) \<and> advances b b'"
  using SkipLWS_loop_advances [OF assms(1) advances_refl [OF assms(1)] assms(1)
      assms(2) [unfolded SkipLWS_eq]]
  by (auto split: if_splits)

section \<open>Scans and data that arrives later\<close>

text \<open>
  A scan that has decided is not changed by more data behind the write position; one that has
  not starts over from where it stood.
\<close>

lemma SkipSpaces_receive:
  "fits b bs \<Longrightarrow> SkipSpaces (receive b bs) =
    (if isReadable (SkipSpaces b) then receive (SkipSpaces b) bs
     else SkipSpaces (receive (SkipSpaces b) bs))"
proof (induction b rule: measure_induct_rule [of "\<lambda>b. unat (readable b)"])
  case (less b)
  show ?case
  proof (cases "isReadable b")
    case True
    then obtain c b1 where b1: "buf_next b = (c, b1)" "peekNext b = c" "skipNext b = b1"
      "unat (readable b1) < unat (readable b)"
      using fits_inv [OF less.prems] by (metis nextE)
    have "fits b1 bs" using fits_read_ops(3) [OF less.prems] b1(1) by simp
    note IH = less.IH [OF b1(4) this]
    have "buf_next (receive b bs) = (c, receive b1 bs)"
      using buf_next_receive [OF less.prems True] b1(1) by simp
    then have r: "peekNext (receive b bs) = c" "skipNext (receive b bs) = receive b1 bs"
      by (simp_all add: peekNext_next skipNext_next)
    show ?thesis
      using True b1 r IH isReadable_receive [OF less.prems True]
      by (simp add: SkipSpaces.simps [of b] SkipSpaces.simps [of "receive b bs"])
  next
    case False
    then have "SkipSpaces b = b"
      by (simp add: SkipSpaces.simps [of b])
    with False show ?thesis by simp
  qed
qed

lemma SkipSpaces_idem: "SkipSpaces (SkipSpaces b) = SkipSpaces b"
proof (induction b rule: SkipSpaces.induct)
  case (1 b)
  then show ?case
    by (cases "isReadable b \<and> (peekNext b = SP \<or> peekNext b = HT)")
       (auto simp: SkipSpaces.simps [of b])
qed

lemma SkipLine_loop_receive:
  "fits b bs \<Longrightarrow> SkipLine_loop position found n b = (e, n', b') \<Longrightarrow> e \<noteq> ESB_AGAIN \<Longrightarrow>
    SkipLine_loop position found n (receive b bs) = (e, n', receive b' bs)"
proof (induction b arbitrary: found n rule: measure_induct_rule [of "\<lambda>b. unat (readable b)"])
  case (less b)
  have True: "isReadable b"
    using less.prems by (auto simp: SkipLine_loop.simps [of _ _ _ b] split: if_splits)
  then obtain c b1 where b1: "buf_next b = (c, b1)" "unat (readable b1) < unat (readable b)"
    using fits_inv [OF less.prems(1)] by (metis nextE)
  have "fits b1 bs" using fits_read_ops(3) [OF less.prems(1)] b1(1) by simp
  note IH = less.IH [OF b1(2) this]
  have "buf_next (receive b bs) = (c, receive b1 bs)"
    using buf_next_receive [OF less.prems(1) True] b1(1) by simp
  then show ?case
    using True b1(1) IH less.prems(2,3) isReadable_receive [OF less.prems(1) True]
    by (auto simp: SkipLine_loop.simps [of _ _ _ b] SkipLine_loop.simps [of _ _ _ "receive b bs"]
        split: if_splits)
qed

lemma SkipLine_receive:
  "fits b bs \<Longrightarrow> SkipLine b = (e, n, b') \<Longrightarrow> e \<noteq> ESB_AGAIN \<Longrightarrow>
    SkipLine (receive b bs) = (e, n, receive b' bs)"
  by (simp add: SkipLine_def SkipLine_loop_receive)

lemma SkipLWS_loop_receive:
  "fits b bs \<Longrightarrow> SkipLWS_loop position found b = (e, b') \<Longrightarrow> e \<noteq> ESB_AGAIN \<Longrightarrow>
    SkipLWS_loop position found (receive b bs) = (e, receive b' bs)"
proof (induction b arbitrary: found rule: measure_induct_rule [of "\<lambda>b. unat (readable b)"])
  case (less b)
  have True: "isReadable b"
    using less.prems by (auto simp: SkipLWS_loop.simps [of _ _ b] split: if_splits)
  then obtain c b1 where b1: "buf_next b = (c, b1)" "unat (readable b1) < unat (readable b)"
    using fits_inv [OF less.prems(1)] by (metis nextE)
  have "fits b1 bs" using fits_read_ops(3) [OF less.prems(1)] b1(1) by simp
  note IH = less.IH [OF b1(2) this]
  have "buf_next (receive b bs) = (c, receive b1 bs)"
    using buf_next_receive [OF less.prems(1) True] b1(1) by simp
  then show ?case
    using True b1(1) IH less.prems(2,3) isReadable_receive [OF less.prems(1) True]
    by (auto simp: SkipLWS_loop.simps [of _ _ b] SkipLWS_loop.simps [of _ _ "receive b bs"]
        setReadPosition_receive split: if_splits)
qed

lemma SkipLWS_receive:
  "fits b bs \<Longrightarrow> SkipLWS b = (e, b') \<Longrightarrow> e \<noteq> ESB_AGAIN \<Longrightarrow>
    SkipLWS (receive b bs) = (e, receive b' bs)"
  by (simp add: SkipLWS_eq SkipLWS_loop_receive)

end
