(* ===== verification/HttpNumber.thy ===== *)
theory HttpNumber
  imports HttpScan
begin

text \<open>
  What the number and escape routines of \<open>ES::HttpUtil\<close> compute: the digits
  \<open>FormatInteger\<close> writes, the value \<open>ParseInteger\<close> reads back, and the same for the percent
  escapes.
\<close>

section \<open>Writing a list of octets\<close>

definition put_all :: "buffer \<Rightarrow> u8 list \<Rightarrow> buffer" where
  "put_all b cs = foldl putNext b cs"

lemma put_all_Nil [simp]: "put_all b [] = b"
  and put_all_Cons: "put_all b (c # cs) = put_all (putNext b c) cs"
  and put_all_append: "put_all b (xs @ ys) = put_all (put_all b xs) ys"
  by (simp_all add: put_all_def)

lemma put_all_inv [intro]: "buf_inv b \<Longrightarrow> buf_inv (put_all b cs)"
  unfolding put_all_def by (rule bufq.puts_ok)

lemma unread_put_all: "buf_inv b \<Longrightarrow> length cs \<le> room b \<Longrightarrow> unread (put_all b cs) = unread b @ cs"
  unfolding put_all_def by (simp add: bufq.puts_contents)

lemma put_all_fields [simp]:
  "rdPos (put_all b cs) = rdPos b" "rdMark (put_all b cs) = rdMark b"
  "wrMark (put_all b cs) = wrMark b" "cap (put_all b cs) = cap b"
  by (induction cs arbitrary: b) (simp_all add: put_all_Cons)

lemma room_put_all: "buf_inv b \<Longrightarrow> room (put_all b cs) = room b - length cs"
  by (induction cs arbitrary: b) (simp_all add: put_all_Cons room_putNext putNext_inv)

lemma written_put_all:
  "buf_inv b \<Longrightarrow> length cs \<le> room b \<Longrightarrow> written (put_all b cs) = written b @ cs"
  by (induction cs arbitrary: b)
     (simp_all add: put_all_Cons room_putNext putNext_inv written_putNext)

section \<open>Digits\<close>

definition digit_octet :: "nat \<Rightarrow> u8" where
  "digit_octet d = (if d < 10 then 48 + of_nat d else 97 + of_nat d - 10)"

text \<open>The \<open>k\<close> low digits of \<open>n\<close> in base \<open>r\<close>, most significant first.\<close>

fun digits :: "nat \<Rightarrow> nat \<Rightarrow> nat \<Rightarrow> u8 list" where
  "digits r 0 n = []"
| "digits r (Suc k) n = digit_octet ((n mod r ^ Suc k) div r ^ k) # digits r k n"

text \<open>How many digits \<open>n\<close> has.\<close>

function digit_count :: "nat \<Rightarrow> nat \<Rightarrow> nat" where
  "digit_count r n = (if n = 0 \<or> r < 2 then 0 else Suc (digit_count r (n div r)))"
  by pat_completeness auto
termination
  by (relation "measure snd") auto

declare digit_count.simps [simp del]

lemma length_digits [simp]: "length (digits r k n) = k"
  by (induction k) auto

lemma magnitude_loop_eq:
  "2 \<le> r \<Longrightarrow> magnitude_loop (int r) (int t) (int m) len =
    (if m * r ^ digit_count r t \<le> 2147483647 \<or> digit_count r t = 0
     then Some (int (m * r ^ digit_count r t), len + digit_count r t) else None)"
proof (induction r t arbitrary: m len rule: digit_count.induct)
  case (1 r t)
  show ?case
  proof (cases "t = 0")
    case True
    then show ?thesis
      by (simp add: magnitude_loop.simps digit_count.simps)
  next
    case False
    let ?k = "digit_count r (t div r)"
    have k: "digit_count r t = Suc ?k"
      using False "1.prems" by (simp add: digit_count.simps [of r t])
    have IH: "magnitude_loop (int r) (int (t div r)) (int (m * r)) (Suc len) =
      (if m * r * r ^ ?k \<le> 2147483647 \<or> ?k = 0
       then Some (int (m * r * r ^ ?k), Suc len + ?k) else None)"
      using "1.IH" [of "m * r" "Suc len"] False "1.prems" by simp
    have small: "m * r \<le> m * r * r ^ ?k"
      using "1.prems" by simp
    show ?thesis
    proof (cases "m * r \<le> 2147483647")
      case True
      then have "\<not> int m * int r > 2147483647"
        by (metis of_nat_le_iff of_nat_mult of_nat_numeral not_le)
      then show ?thesis
        using IH False "1.prems" True
        by (auto simp: magnitude_loop.simps [of "int r" "int t"] k zdiv_int ac_simps)
    next
      case over: False
      then have "int m * int r > 2147483647"
        by (metis of_nat_less_iff of_nat_mult of_nat_numeral not_le)
      moreover have "\<not> m * (r * r ^ ?k) \<le> 2147483647"
        using small over unfolding mult.assoc by linarith
      ultimately show ?thesis
        using False "1.prems"
        by (simp add: magnitude_loop.simps [of "int r" "int t"] k)
    qed
  qed
qed

lemma digit_loop_eq:
  "2 \<le> r \<Longrightarrow> r \<le> 16 \<Longrightarrow> digit_loop (int r) (int n) (int (r ^ k)) b = put_all b (digits r k n)"
proof (induction k arbitrary: b)
  case 0
  then show ?case by (simp add: digit_loop.simps)
next
  case (Suc k)
  let ?d = "(n mod r ^ Suc k) div r ^ k"
  have q: "int (r ^ Suc k) div int r = int (r ^ k)"
    using Suc.prems by simp
  have ge: "int r \<le> int (r ^ Suc k)"
    using Suc.prems by (simp add: self_le_power)
  have d: "(int n mod int (r ^ Suc k)) div (int (r ^ Suc k) div int r) = int ?d"
    unfolding q by (simp only: zmod_int zdiv_int)
  have c: "(if int ?d < 10 then 48 + of_int (int ?d) else 97 + of_int (int ?d) - 10) = digit_octet ?d"
    by (simp add: digit_octet_def)
  have cond: "(int r \<le> int (r ^ Suc k) \<and> 2 \<le> int r) = True"
    using ge Suc.prems by simp
  have "digit_loop (int r) (int n) (int (r ^ Suc k)) b =
      digit_loop (int r) (int n) (int (r ^ k)) (putNext b (digit_octet ?d))"
    by (simp only: digit_loop.simps [of "int r" "int n" "int (r ^ Suc k)"] cond Let_def d c if_True)
       (simp only: q)
  then show ?case
    using Suc by (simp add: put_all_Cons)
qed

lemma digit_count_bound:
  "2 \<le> r \<Longrightarrow> n < r ^ digit_count r n \<and> (0 < n \<longrightarrow> r ^ digit_count r n \<le> r * n)"
proof (induction r n rule: digit_count.induct)
  case (1 r n)
  show ?case
  proof (cases "n = 0")
    case True
    then show ?thesis by (simp add: digit_count.simps)
  next
    case False
    let ?k = "digit_count r (n div r)"
    have k: "digit_count r n = Suc ?k"
      using False "1.prems" by (simp add: digit_count.simps [of r n])
    have IH: "n div r < r ^ ?k" "0 < n div r \<longrightarrow> r ^ ?k \<le> r * (n div r)"
      using "1.IH" False "1.prems" by auto
    have "n < r * r ^ ?k"
      using IH(1) "1.prems" by (simp add: div_less_iff_less_mult ac_simps)
    moreover have "r ^ ?k \<le> n"
    proof (cases "n div r = 0")
      case True
      then have "?k = 0" by (simp add: digit_count.simps)
      with False show ?thesis by simp
    next
      case False
      with IH(2) have "r ^ ?k \<le> r * (n div r)" by simp
      also have "\<dots> \<le> n" by simp
      finally show ?thesis .
    qed
    ultimately show ?thesis
      by (simp add: k)
  qed
qed

text \<open>
  \<open>FormatInteger\<close> on a number whose magnitude fits an int: exactly the digits of the number, or
  ESB_AGAIN and no octet written.
\<close>

lemma FormatInteger_digits:
  assumes n: "0 < unat n" "r * unat n \<le> 2147483647" and r: "2 \<le> r" "r \<le> 16"
    and inv: "buf_inv b"
  shows "FormatInteger b n (int r) =
    (if room b < digit_count r (unat n) then (ESB_AGAIN, b)
     else (ESB_SUCCESS, put_all b (digits r (digit_count r (unat n)) (unat n))))"
proof -
  let ?k = "digit_count r (unat n)"
  have "2 * unat n \<le> r * unat n"
    using r by simp
  then have lt: "unat n < 2147483648"
    using n(2) by linarith
  have lt': "int (unat n) < 2147483648"
    using lt by linarith
  have nz: "n \<noteq> 0"
    using n(1) by auto
  have "uint (ucast n :: u32) = take_bit 32 (uint n)"
    by (simp add: unsigned_ucast_eq)
  also have "\<dots> = int (unat n)"
    unfolding uint_nat using lt' by (intro take_bit_int_eq_self) auto
  finally have u: "uint (ucast n :: u32) = int (unat n)" .
  have "sint (ucast n :: u32) = int (unat n)"
    unfolding sint_uint u using lt' order_trans [of "- 2147483648" 0 "uint n"]
    by (simp add: signed_take_bit_int_eq_self)
  then have m: "magnitude_loop (int r) (sint (ucast n :: u32)) 1 0 = Some (int (r ^ ?k), ?k)"
    using magnitude_loop_eq [OF r(1), of "unat n" 1 0] digit_count_bound [OF r(1), of "unat n"] n
    by simp
  have d: "digit_loop (int r) (uint n) (int (r ^ ?k)) b = put_all b (digits r ?k (unat n))"
    unfolding uint_nat by (rule digit_loop_eq [OF r])
  have "\<not> (2 > int r \<or> 16 < int r)"
    using r by simp
  then show ?thesis
    by (simp only: FormatInteger_def m nz if_False option.case prod.case d room_def)
qed

lemma digit_octet_IsDigit: "d < 10 \<Longrightarrow> IsDigit (digit_octet d)"
  by (auto simp: http_class digit_octet_def word_le_nat_alt unat_word_ariths unat_of_nat)

lemma digit_octet_value: "d < 10 \<Longrightarrow> (ucast (digit_octet d) :: u64) - 48 = of_nat d"
proof -
  assume "d < 10"
  then have "d \<in> {0,1,2,3,4,5,6,7,8,9}" by auto
  then show ?thesis by (auto simp: digit_octet_def)
qed

lemma ParseInteger_loop_digits:
  "ParseInteger_loop (digits 10 k n) m = (ESB_SUCCESS, m * 10 ^ k + of_nat (n mod 10 ^ k))"
proof (induction k arbitrary: m)
  case (Suc k)
  let ?d = "(n mod 10 ^ Suc k) div 10 ^ k"
  have d: "?d < 10"
    by (simp add: div_less_iff_less_mult)
  have "n mod 10 ^ Suc k = ?d * 10 ^ k + n mod 10 ^ k"
    by (metis div_mult_mod_eq mod_mod_cancel le_imp_power_dvd lessI less_imp_le)
  then have "(of_nat (n mod 10 ^ Suc k) :: u64) = of_nat ?d * 10 ^ k + of_nat (n mod 10 ^ k)"
    by (metis of_nat_add of_nat_mult of_nat_numeral of_nat_power)
  then show ?case
    using d Suc [of "m * 10 + of_nat ?d"]
    by (simp only: digits.simps ParseInteger_loop.simps digit_octet_IsDigit digit_octet_value)
       (simp add: algebra_simps)
qed simp

text \<open>What is written in base 10 is read back.\<close>

lemma ParseInteger_digits:
  "n < 10 ^ k \<Longrightarrow> n < 2 ^ 64 \<Longrightarrow> ParseInteger (Some (digits 10 k n)) old = (ESB_SUCCESS, of_nat n)"
  by (simp add: ParseInteger_def ParseInteger_loop_digits)

lemma ParseInteger_loop_value:
  "ParseInteger_loop s m = (ESB_SUCCESS, v) \<longleftrightarrow>
    (\<forall>c \<in> set s. IsDigit c) \<and> v = foldl (\<lambda>n c. n * 10 + (ucast c - 48)) m s"
  by (induction s arbitrary: m) auto

section \<open>Percent escapes\<close>

lemma hex_digit_value:
  assumes "v < 16"
  shows "IsHex (hex_digit v)" "hex_value (hex_digit v) = v"
proof -
  have "unat v \<in> {0,1,2,3,4,5,6,7,8,9,10,11,12,13,14,15}"
    using assms by (simp add: word_less_nat_alt) arith
  then have "of_nat (unat v) \<in> (of_nat ` {0,1,2,3,4,5,6,7,8,9,10,11,12,13,14,15} :: u8 set)"
    by (rule imageI)
  then have "v \<in> {0,1,2,3,4,5,6,7,8,9,10,11,12,13,14,15}"
    by simp
  then show "IsHex (hex_digit v)" "hex_value (hex_digit v) = v"
    by (auto simp: hex_digit_def hex_value_def http_class word_le_nat_alt)
qed

lemma nibbles:
  fixes v :: u8
  shows "drop_bit 4 (0xF0 AND v) < 16" "0x0F AND v < 16"
    "drop_bit 4 (0xF0 AND v) * 16 + (0x0F AND v) = v"
  by (rule octet_all [of _ v], simp only: octet_list list.pred_inject, simp add: word_less_nat_alt)+

end
