(* ===== verification/HttpMessage.thy ===== *)
theory HttpMessage
  imports HttpNumber
begin

text \<open>
  The messages the parsers build and the formatters read: \<open>HttpHeader\<close>, \<open>HttpMessage\<close>,
  \<open>HttpRequestUri\<close>, \<open>HttpRequest\<close> and \<open>HttpResponse\<close> (data-plane/http-common). A class that
  extends another is a record extension, a \<open>const unsigned char *\<close> that may be NULL an option,
  the embedded list of headers a list in its order.
\<close>

section \<open>Headers and messages\<close>

record http_header =
  fieldName :: cstr
  fieldValue :: "cstr option"

record http_message =
  flags :: u32
  httpVersion :: int
  headers :: "http_header list"

definition sizeof_HttpHeader :: u64 where
  "sizeof_HttpHeader = 40"
  \<comment> \<open>virtual table, next, previous, fieldName, fieldValue on a 64 bit target\<close>

definition set_message_flag :: "u32 \<Rightarrow> bool \<Rightarrow> 'z http_message_scheme \<Rightarrow> 'z http_message_scheme" where
  "set_message_flag f on m = m\<lparr>flags := (if on then flags m OR f else flags m AND NOT f)\<rparr>"

definition setHasBody :: "'z http_message_scheme \<Rightarrow> bool \<Rightarrow> 'z http_message_scheme" where
  "setHasBody m on = set_message_flag 1 on m"

definition setReuseConnection :: "'z http_message_scheme \<Rightarrow> bool \<Rightarrow> 'z http_message_scheme" where
  "setReuseConnection m on = set_message_flag 2 on m"

definition setSend100Continue :: "'z http_message_scheme \<Rightarrow> bool \<Rightarrow> 'z http_message_scheme" where
  "setSend100Continue m on = set_message_flag 4 on m"

definition hasBody :: "'z http_message_scheme \<Rightarrow> bool" where
  "hasBody m = has_flag (flags m) 1"

definition reuseConnection :: "'z http_message_scheme \<Rightarrow> bool" where
  "reuseConnection m = has_flag (flags m) 2"

definition send100Continue :: "'z http_message_scheme \<Rightarrow> bool" where
  "send100Continue m = has_flag (flags m) 4"

definition message_reset :: "'z http_message_scheme \<Rightarrow> 'z http_message_scheme" where
  "message_reset m = m\<lparr>httpVersion := 110, headers := []\<rparr>"

fun findHeader_loop :: "cstr \<Rightarrow> http_header list \<Rightarrow> http_header option" where
  "findHeader_loop name [] = None"
| "findHeader_loop name (h # hs) =
     (if strcasecmp name (fieldName h) = 0 then Some h else findHeader_loop name hs)"

definition findHeader :: "'z http_message_scheme \<Rightarrow> cstr option \<Rightarrow> http_header option" where
  "findHeader m name = (case name of None \<Rightarrow> None | Some n \<Rightarrow> findHeader_loop n (headers m))"

text \<open>
  \<open>addHeader(fieldName, fieldValue, allocator)\<close> copies both strings into one block behind the
  header object. A NULL \<open>fieldValue\<close> reaches \<open>strlen\<close>.
\<close>

definition addHeader ::
  "'a alloc_fn \<Rightarrow> 'a \<Rightarrow> 'z http_message_scheme \<Rightarrow> cstr option \<Rightarrow> cstr option
    \<Rightarrow> error \<times> 'a \<times> 'z http_message_scheme" where
  "addHeader alloc al m name value =
     (case name of
        None \<Rightarrow> (ESB_NULL_POINTER, al, m)
      | Some n \<Rightarrow>
          (case value of
             None \<Rightarrow> (UNDEFINED_BEHAVIOUR, al, m)
           | Some v \<Rightarrow>
               (case alloc al (sizeof_HttpHeader + of_nat (length n) + of_nat (length v) + 2) of
                  (e, _, al') \<Rightarrow>
                    if e \<noteq> ESB_SUCCESS then (e, al', m)
                    else (ESB_SUCCESS, al',
                          m\<lparr>headers := headers m @ [\<lparr>fieldName = n, fieldValue = Some v\<rparr>]\<rparr>))))"

datatype header_copy_result =
    ES_HTTP_HEADER_COPY | ES_HTTP_HEADER_SKIP | ES_HTTP_HEADER_COPY_AND_STOP
  | ES_HTTP_HEADER_SKIP_AND_STOP | ES_HTTP_HEADER_ERROR

type_synonym header_copy_filter = "cstr \<Rightarrow> cstr option \<Rightarrow> header_copy_result"

definition HeaderCopyAll :: header_copy_filter where
  "HeaderCopyAll name value = ES_HTTP_HEADER_COPY"

fun copyHeaders ::
  "'a alloc_fn \<Rightarrow> header_copy_filter \<Rightarrow> http_header list \<Rightarrow> 'a \<Rightarrow> 'z http_message_scheme
    \<Rightarrow> error \<times> 'a \<times> 'z http_message_scheme" where
  "copyHeaders alloc ff [] al m = (ESB_SUCCESS, al, m)"
| "copyHeaders alloc ff (h # hs) al m =
     (case ff (fieldName h) (fieldValue h) of
        ES_HTTP_HEADER_COPY \<Rightarrow>
          (case addHeader alloc al m (Some (fieldName h)) (fieldValue h) of
             (e, al', m') \<Rightarrow>
               if e \<noteq> ESB_SUCCESS then (e, al', m') else copyHeaders alloc ff hs al' m')
      | ES_HTTP_HEADER_SKIP \<Rightarrow> copyHeaders alloc ff hs al m
      | ES_HTTP_HEADER_COPY_AND_STOP \<Rightarrow> addHeader alloc al m (Some (fieldName h)) (fieldValue h)
      | ES_HTTP_HEADER_SKIP_AND_STOP \<Rightarrow> (ESB_SUCCESS, al, m)
      | ES_HTTP_HEADER_ERROR \<Rightarrow> (ESB_INVALID_FIELD, al, m))"

section \<open>Request URIs\<close>

datatype uri_type = ES_URI_ASTERISK | ES_URI_HTTP | ES_URI_HTTPS | ES_URI_OTHER

record request_uri =
  uriType :: uri_type
  port :: int
  host :: "cstr option"
  absPath :: "cstr option"
  query :: "cstr option"
  fragment :: "cstr option"
  other :: "cstr option"

definition new_request_uri :: request_uri where
  "new_request_uri = \<lparr>uriType = ES_URI_HTTP, port = -1, host = None, absPath = None,
     query = None, fragment = None, other = None\<rparr>"

definition uri_reset :: "request_uri \<Rightarrow> request_uri" where
  "uri_reset u = u\<lparr>uriType := ES_URI_HTTP, port := -1, host := None, absPath := None,
     query := None, fragment := None, other := None\<rparr>"

text \<open>
  \<open>HttpRequestUri::copy\<close>. The strings are duplicated one after the other; a failure clears the
  ones copied before it (\<open>DiscardAllocator::deallocate\<close> gives nothing back). A string the other
  URI does not have is left as it was.
\<close>

definition uri_copy ::
  "'a alloc_fn \<Rightarrow> 'a \<Rightarrow> request_uri \<Rightarrow> request_uri \<Rightarrow> error \<times> 'a \<times> request_uri" where
  "uri_copy alloc al u src =
     (let u0 = u\<lparr>uriType := uriType src, port := port src\<rparr>;
          dup = (\<lambda>al v old. case v of None \<Rightarrow> (True, old, al)
                   | Some s \<Rightarrow> (case HttpUtil_Duplicate alloc al (Some s) of
                                 (None, al') \<Rightarrow> (False, None, al') | (Some d, al') \<Rightarrow> (True, Some d, al')))
      in case dup al (host src) (host u0) of (ok1, h, al1) \<Rightarrow>
         if \<not> ok1 then (ESB_OUT_OF_MEMORY, al1, u0\<lparr>host := None\<rparr>)
         else let u1 = u0\<lparr>host := h\<rparr> in
         case dup al1 (absPath src) (absPath u1) of (ok2, p, al2) \<Rightarrow>
         if \<not> ok2 then (ESB_OUT_OF_MEMORY, al2, u1\<lparr>absPath := None, host := None\<rparr>)
         else let u2 = u1\<lparr>absPath := p\<rparr> in
         case dup al2 (query src) (query u2) of (ok3, q, al3) \<Rightarrow>
         if \<not> ok3 then (ESB_OUT_OF_MEMORY, al3, u2\<lparr>query := None, host := None, absPath := None\<rparr>)
         else let u3 = u2\<lparr>query := q\<rparr> in
         case dup al3 (fragment src) (fragment u3) of (ok4, f, al4) \<Rightarrow>
         if \<not> ok4 then (ESB_OUT_OF_MEMORY, al4,
                u3\<lparr>fragment := None, host := None, absPath := None, query := None\<rparr>)
         else let u4 = u3\<lparr>fragment := f\<rparr> in
         case dup al4 (other src) (other u4) of (ok5, oth, al5) \<Rightarrow>
         if \<not> ok5 then (ESB_OUT_OF_MEMORY, al5,
                u4\<lparr>other := None, host := None, absPath := None, query := None, fragment := None\<rparr>)
         else (ESB_SUCCESS, al5, u4\<lparr>other := oth\<rparr>))"

text \<open>
  \<open>HttpRequestUri::Compare\<close>. None stands for \<open>strcmp\<close> on a NULL \<open>other\<close> (undefined); equal
  pointers hold equal strings, so the pointer tests before the string comparisons do not show.
\<close>

definition default_port :: "request_uri \<Rightarrow> int" where
  "default_port r = (if 0 \<le> port r then port r else if uriType r = ES_URI_HTTP then 80 else 443)"

definition compare_opt :: "(cstr \<Rightarrow> cstr \<Rightarrow> int) \<Rightarrow> cstr option \<Rightarrow> cstr option \<Rightarrow> int" where
  "compare_opt cmp s t =
     (if s = t then 0
      else case s of None \<Rightarrow> -1
        | Some s' \<Rightarrow> (case t of None \<Rightarrow> 1 | Some t' \<Rightarrow> cmp s' t'))"

definition uri_Compare :: "request_uri \<Rightarrow> request_uri \<Rightarrow> int option" where
  "uri_Compare r1 r2 =
     (if uriType r1 = ES_URI_ASTERISK \<and> uriType r2 = ES_URI_ASTERISK then Some 0
      else if uriType r1 = ES_URI_OTHER \<and> uriType r2 = ES_URI_OTHER then
        (case (other r1, other r2) of (Some s, Some t) \<Rightarrow> Some (strcmp s t) | _ \<Rightarrow> None)
      else if uriType r1 \<noteq> uriType r2 then Some (if ES_URI_HTTP = uriType r1 then 1 else -1)
      else
        let result = compare_opt strcasecmp (host r1) (host r2) in
        if result \<noteq> 0 then Some result
        else if default_port r1 - default_port r2 \<noteq> 0 then Some (default_port r1 - default_port r2)
        else
          let absPath1 = (case absPath r1 of None \<Rightarrow> asc ''/'' | Some p \<Rightarrow> p);
              absPath2 = (case absPath r2 of None \<Rightarrow> asc ''/'' | Some p \<Rightarrow> p);
              result = strcmp absPath1 absPath2 in
          if result \<noteq> 0 then Some result
          else Some (compare_opt strcmp (query r1) (query r2)))"

section \<open>Requests and responses\<close>

record http_request = http_message +
  reqMethod :: "cstr option"
  requestUri :: request_uri

record http_response = http_message +
  statusCode :: int
  reasonPhrase :: "cstr option"

definition new_http_request :: http_request where
  "new_http_request = \<lparr>flags = 0, httpVersion = 110, headers = [],
     reqMethod = None, requestUri = new_request_uri\<rparr>"

definition new_http_response :: http_response where
  "new_http_response = \<lparr>flags = 0, httpVersion = 110, headers = [],
     statusCode = 0, reasonPhrase = None\<rparr>"

definition request_reset :: "http_request \<Rightarrow> http_request" where
  "request_reset r = (message_reset r)\<lparr>reqMethod := None, requestUri := uri_reset (requestUri r)\<rparr>"

definition response_reset :: "http_response \<Rightarrow> http_response" where
  "response_reset r = (message_reset r)\<lparr>statusCode := 0, reasonPhrase := None\<rparr>"

definition request_copy ::
  "'a alloc_fn \<Rightarrow> header_copy_filter \<Rightarrow> 'a \<Rightarrow> http_request \<Rightarrow> http_request option
    \<Rightarrow> error \<times> 'a \<times> http_request" where
  "request_copy alloc ff al r src =
     (case src of
        None \<Rightarrow> (ESB_NULL_POINTER, al, r)
      | Some s \<Rightarrow>
          let r0 = r\<lparr>flags := flags s, httpVersion := httpVersion s, reqMethod := reqMethod s\<rparr> in
          (case uri_copy alloc al (requestUri r0) (requestUri s) of (e, al1, u) \<Rightarrow>
             let r1 = r0\<lparr>requestUri := u\<rparr> in
             if e \<noteq> ESB_SUCCESS then (e, al1, r1)
             else copyHeaders alloc ff (headers s) al1 r1))"

definition response_copy ::
  "'a alloc_fn \<Rightarrow> header_copy_filter \<Rightarrow> 'a \<Rightarrow> http_response \<Rightarrow> http_response option
    \<Rightarrow> error \<times> 'a \<times> http_response" where
  "response_copy alloc ff al r src =
     (case src of
        None \<Rightarrow> (ESB_NULL_POINTER, al, r)
      | Some s \<Rightarrow>
          copyHeaders alloc ff (headers s) al
            (r\<lparr>flags := flags s, httpVersion := httpVersion s, statusCode := statusCode s,
               reasonPhrase := reasonPhrase s\<rparr>))"

text \<open>
  \<open>HttpRequest::parsePeerAddress\<close>: the outputs \<open>hostname\<close>, \<open>port\<close> and \<open>isSecure\<close> are returned;
  an output the code has not written is None.
\<close>

fun port_loop :: "cstr \<Rightarrow> u16 \<Rightarrow> u16" where
  "port_loop [] n = n"
| "port_loop (c # cs) n = (if IsDigit c then port_loop cs (n * 10 + (ucast c - 48)) else n)"

definition parsePeerAddress ::
  "http_request \<Rightarrow> int \<Rightarrow> error \<times> cstr option \<times> u16 option \<times> bool option" where
  "parsePeerAddress r sz =
     (if 0 \<ge> sz then (ESB_INVALID_ARGUMENT, None, None, None)
      else
        let isSecure = (uriType (requestUri r) = ES_URI_HTTPS);
            dflt = (if isSecure then 443 else 80 :: u16)
        in case host (requestUri r) of
             Some h \<Rightarrow>
               if int (length h) \<ge> sz then (ESB_OVERFLOW, None, None, Some isSecure)
               else (ESB_SUCCESS, Some h,
                     Some (if 0 \<ge> port (requestUri r) then dflt else of_int (port (requestUri r))),
                     Some isSecure)
           | None \<Rightarrow>
               (case findHeader r (Some (asc ''Host'')) of
                  None \<Rightarrow> (ESB_INVALID_ARGUMENT, None, None, Some isSecure)
                | Some hdr \<Rightarrow>
                    (case fieldValue hdr of
                       None \<Rightarrow> (ESB_INVALID_ARGUMENT, None, None, Some isSecure)
                     | Some v \<Rightarrow>
                         let q = takeWhile (\<lambda>c. c \<noteq> COLON) v; p = dropWhile (\<lambda>c. c \<noteq> COLON) v in
                         if int (length q) \<ge> sz then (ESB_OVERFLOW, None, None, Some isSecure)
                         else if c_head p \<noteq> COLON then (ESB_SUCCESS, Some q, Some dflt, Some isSecure)
                         else let n = port_loop (tl p) 0 in
                           (ESB_SUCCESS, Some q, Some (if n = 0 then dflt else n), Some isSecure))))"

text \<open>\<open>HttpResponse::DefaultReasonPhrase\<close> and its tables.\<close>

definition OneHundredClass :: "string option list" where
  "OneHundredClass = [Some ''Continue'', Some ''Switching Protocols'']"

definition TwoHundredClass :: "string option list" where
  "TwoHundredClass = [Some ''OK'', Some ''Created'', Some ''Accepted'',
     Some ''Non-Authoritative Information'', Some ''No Content'', Some ''Reset Content'']"

definition ThreeHundredClass :: "string option list" where
  "ThreeHundredClass = [Some ''Multiple Choices'', Some ''Moved Permanently'', Some ''Found'',
     Some ''See Other'', None, Some ''Use Proxy'', Some ''Switch Proxy'',
     Some ''Temporary Redirect'']"

definition FourHundredClass :: "string option list" where
  "FourHundredClass = [Some ''Bad Request'', None, Some ''Payment Required'', Some ''Forbidden'',
     Some ''Not Found'', Some ''Method Not Allowed'', Some ''Not Acceptable'', None,
     Some ''Request Timeout'', Some ''Conflict'', Some ''Gone'', Some ''Length Required'', None,
     Some ''Payload Too Large'', Some ''URI Too Long'', Some ''Unsupported Media Type'', None,
     Some ''Expectation Failed'', None, None, None, None, None, None, None, None,
     Some ''Upgrade Required'']"

definition FiveHundredClass :: "string option list" where
  "FiveHundredClass = [Some ''Internal Server Error'', Some ''Not Implemented'',
     Some ''Bad Gateway'', Some ''Service Unavailable'', Some ''Gateway Timeout'',
     Some ''HTTP Version Not Supported'']"

definition DefaultReasonPhrase :: "int \<Rightarrow> string option" where
  "DefaultReasonPhrase code =
     (let entry = (\<lambda>xs base. if int (length xs) > code - base then xs ! nat (code - base) else None) in
      if 100 > code \<or> 600 \<le> code then None
      else if 200 > code then entry OneHundredClass 100
      else if 300 > code then entry TwoHundredClass 200
      else if 400 > code then entry ThreeHundredClass 300
      else if 500 > code then entry FourHundredClass 400
      else entry FiveHundredClass 500)"

end
