(* ===== verification/RequestUriParser.thy ===== *)
theory RequestUriParser
  imports HttpMessage
begin

text \<open>
  \<open>ES::HttpRequestUriParser\<close> (data-plane/http1/source/ESHttpRequestUriParser.cpp): one function
  per production, in the reverse of the order in which they call each other. A parser keeps a
  flag word and shares its working buffer and its allocator with the message parser that owns
  it, so these two fields are a record of their own. The theorem about the whole is that a
  parse fed piece by piece ends as the parse of the whole input.
\<close>

section \<open>State\<close>

record 'a parse_ctx =
  workingBuffer :: buffer
  allocator :: 'a

record 'a uri_parser = "'a parse_ctx" +
  uriState :: u32

abbreviation (input) ES_URI_PARSING_ASTERISK :: u32 where "ES_URI_PARSING_ASTERISK \<equiv> 1"
abbreviation (input) ES_URI_PARSING_SCHEME :: u32 where "ES_URI_PARSING_SCHEME \<equiv> 2"
abbreviation (input) ES_URI_PARSING_HOST :: u32 where "ES_URI_PARSING_HOST \<equiv> 4"
abbreviation (input) ES_URI_PARSING_PORT :: u32 where "ES_URI_PARSING_PORT \<equiv> 8"
abbreviation (input) ES_URI_PARSING_ABS_PATH :: u32 where "ES_URI_PARSING_ABS_PATH \<equiv> 16"
abbreviation (input) ES_URI_PARSING_QUERY :: u32 where "ES_URI_PARSING_QUERY \<equiv> 32"
abbreviation (input) ES_URI_PARSING_FRAGMENT :: u32 where "ES_URI_PARSING_FRAGMENT \<equiv> 64"
abbreviation (input) ES_URI_PARSE_COMPLETE :: u32 where "ES_URI_PARSE_COMPLETE \<equiv> 128"
abbreviation (input) ES_URI_PARSING_NON_HTTP_URI :: u32 where "ES_URI_PARSING_NON_HTTP_URI \<equiv> 256"
abbreviation (input) ES_URI_SKIPPING_FWD_SLASHES :: u32 where "ES_URI_SKIPPING_FWD_SLASHES \<equiv> 512"

definition uri_parser_reset :: "'a uri_parser \<Rightarrow> 'a uri_parser" where
  "uri_parser_reset p = p\<lparr>uriState := 0, workingBuffer := buf_clear (workingBuffer p)\<rparr>"

text \<open>The steps every production uses: store an octet, save the string, enter the next state.\<close>

definition wb_put :: "('a, 'z) parse_ctx_scheme \<Rightarrow> u8 \<Rightarrow> ('a, 'z) parse_ctx_scheme" where
  "wb_put p c = p\<lparr>workingBuffer := putNext (workingBuffer p) c\<rparr>"

definition wb_clear :: "('a, 'z) parse_ctx_scheme \<Rightarrow> ('a, 'z) parse_ctx_scheme" where
  "wb_clear p = p\<lparr>workingBuffer := buf_clear (workingBuffer p)\<rparr>"

definition wb_dup ::
  "'a alloc_fn \<Rightarrow> ('a, 'z) parse_ctx_scheme \<Rightarrow> cstr option \<times> ('a, 'z) parse_ctx_scheme" where
  "wb_dup alloc p =
     (case duplicate alloc (allocator p) (workingBuffer p) True of
        (s, al) \<Rightarrow> (s, p\<lparr>allocator := al\<rparr>))"

definition uri_enter :: "u32 \<Rightarrow> u32 \<Rightarrow> 'a uri_parser \<Rightarrow> 'a uri_parser" where
  "uri_enter old new p = p\<lparr>uriState := transition (uriState p) old new\<rparr>"

type_synonym 'a uri_result = "error \<times> 'a uri_parser \<times> buffer \<times> request_uri"

section \<open>Productions\<close>

function parseFragment :: "'a alloc_fn \<Rightarrow> 'a uri_parser \<Rightarrow> buffer \<Rightarrow> request_uri \<Rightarrow> 'a uri_result" where
  "parseFragment alloc p b u =
     (if \<not> isReadable b then (ESB_AGAIN, p, b, u)
      else if \<not> isWritable (workingBuffer p) then (ESB_OVERFLOW, p, b, u)
      else
        let (c, b') = buf_next b in
        if IsUric c then parseFragment alloc (wb_put p c) b' u
        else if IsSpace c then
          let (s, p') = wb_dup alloc p; u' = u\<lparr>fragment := s\<rparr> in
          if s = None then (ESB_OUT_OF_MEMORY, p', b', u')
          else (ESB_SUCCESS, uri_enter ES_URI_PARSING_FRAGMENT ES_URI_PARSE_COMPLETE (wb_clear p'),
                readMark b', u')
        else (ES_HTTP_BAD_REQUEST_URI_FRAGMENT, p, b', u))"
  by pat_completeness auto
termination
  by (relation "measure (\<lambda>(_, _, b, _). unat (readable b))")
     (auto dest!: readable_next_less simp: prod_eq_iff)

function parseQuery :: "'a alloc_fn \<Rightarrow> 'a uri_parser \<Rightarrow> buffer \<Rightarrow> request_uri \<Rightarrow> 'a uri_result" where
  "parseQuery alloc p b u =
     (if \<not> isReadable b then (ESB_AGAIN, p, b, u)
      else if \<not> isWritable (workingBuffer p) then (ESB_OVERFLOW, p, b, u)
      else
        let (c, b') = buf_next b in
        if IsUric c then parseQuery alloc (wb_put p c) b' u
        else if c = HASH then
          let (s, p') = wb_dup alloc p; u' = u\<lparr>query := s\<rparr> in
          if s = None then (ESB_OUT_OF_MEMORY, p', b', u')
          else parseFragment alloc (uri_enter ES_URI_PARSING_QUERY ES_URI_PARSING_FRAGMENT (wb_clear p'))
                 (readMark b') u'
        else if IsSpace c then
          let (s, p') = wb_dup alloc p; u' = u\<lparr>query := s\<rparr> in
          if s = None then (ESB_OUT_OF_MEMORY, p', b', u')
          else (ESB_SUCCESS, uri_enter ES_URI_PARSING_QUERY ES_URI_PARSE_COMPLETE (wb_clear p'),
                readMark b', u')
        else (ES_HTTP_BAD_REQUEST_URI_QUERY, p, b', u))"
  by pat_completeness auto
termination
  by (relation "measure (\<lambda>(_, _, b, _). unat (readable b))")
     (auto dest!: readable_next_less simp: prod_eq_iff)

function parseAbsPath_loop ::
  "'a alloc_fn \<Rightarrow> 'a uri_parser \<Rightarrow> buffer \<Rightarrow> request_uri \<Rightarrow> 'a uri_result" where
  "parseAbsPath_loop alloc p b u =
     (if \<not> isReadable b then (ESB_AGAIN, p, b, u)
      else if \<not> isWritable (workingBuffer p) then (ESB_OVERFLOW, p, b, u)
      else
        let (c, b') = buf_next b in
        if IsPchar c then parseAbsPath_loop alloc (wb_put p c) b' u
        else if c = SLASH \<or> c = SEMICOLON then parseAbsPath_loop alloc (wb_put p c) b' u
        else if c = QUESTION then
          let (s, p') = wb_dup alloc p; u' = u\<lparr>absPath := s\<rparr> in
          if s = None then (ESB_OUT_OF_MEMORY, p', b', u')
          else parseQuery alloc (uri_enter ES_URI_PARSING_ABS_PATH ES_URI_PARSING_QUERY (wb_clear p'))
                 (readMark b') u'
        else if c = HASH then
          let (s, p') = wb_dup alloc p; u' = u\<lparr>absPath := s\<rparr> in
          if s = None then (ESB_OUT_OF_MEMORY, p', b', u')
          else parseFragment alloc
                 (uri_enter ES_URI_PARSING_ABS_PATH ES_URI_PARSING_FRAGMENT (wb_clear p'))
                 (readMark b') u'
        else if IsSpace c then
          let (s, p') = wb_dup alloc p; u' = u\<lparr>absPath := s\<rparr> in
          if s = None then (ESB_OUT_OF_MEMORY, p', b', u')
          else (ESB_SUCCESS, uri_enter ES_URI_PARSING_ABS_PATH ES_URI_PARSE_COMPLETE (wb_clear p'),
                readMark b', u')
        else (ES_HTTP_BAD_REQUEST_URI_ABS_PATH, p, b', u))"
  by pat_completeness auto
termination
  by (relation "measure (\<lambda>(_, _, b, _). unat (readable b))")
     (auto dest!: readable_next_less simp: prod_eq_iff)

definition parseAbsPath ::
  "'a alloc_fn \<Rightarrow> 'a uri_parser \<Rightarrow> buffer \<Rightarrow> request_uri \<Rightarrow> 'a uri_result" where
  "parseAbsPath alloc p b u =
     (if wrPos (workingBuffer p) = 0 then
        (if \<not> isReadable b then (ESB_AGAIN, p, b, u)
         else if \<not> isWritable (workingBuffer p) then (ESB_OVERFLOW, p, b, u)
         else
           let (c, b') = buf_next b in
           if c \<noteq> SLASH then (ES_HTTP_BAD_REQUEST_URI_ABS_PATH, p, b', u)
           else parseAbsPath_loop alloc (wb_put p SLASH) b' u)
      else parseAbsPath_loop alloc p b u)"

function parsePort :: "'a alloc_fn \<Rightarrow> 'a uri_parser \<Rightarrow> buffer \<Rightarrow> request_uri \<Rightarrow> 'a uri_result" where
  "parsePort alloc p b u =
     (if \<not> isReadable b then (ESB_AGAIN, p, b, u)
      else
        let (c, b') = buf_next b in
        if IsDigit c then
          let u1 = (if 0 > port u then u\<lparr>port := 0\<rparr> else u);
              u2 = u1\<lparr>port := port u1 * 10 + (uint c - 48)\<rparr> in
          if 65536 \<le> port u2 then (ES_HTTP_BAD_REQUEST_URI_PORT, p, b', u2)
          else parsePort alloc p b' u2
        else if IsSpace c then
          if 0 > port u then (ES_HTTP_BAD_REQUEST_URI_PORT, p, b', u)
          else (ESB_SUCCESS, uri_enter ES_URI_PARSING_PORT ES_URI_PARSE_COMPLETE (wb_clear p),
                readMark b', u\<lparr>absPath := Some (asc ''/'')\<rparr>)
        else if c = SLASH then
          if 0 > port u then (ES_HTTP_BAD_REQUEST_URI_PORT, p, b', u)
          else parseAbsPath alloc (uri_enter ES_URI_PARSING_PORT ES_URI_PARSING_ABS_PATH (wb_clear p))
                 (readMark (setReadPosition b' (rdPos b' - 1))) u
        else if c = QUESTION then
          if 0 > port u then (ES_HTTP_BAD_REQUEST_URI_PORT, p, b', u)
          else parseQuery alloc (uri_enter ES_URI_PARSING_PORT ES_URI_PARSING_QUERY (wb_clear p))
                 (readMark b') (u\<lparr>absPath := Some (asc ''/'')\<rparr>)
        else if c = HASH then
          if 0 > port u then (ES_HTTP_BAD_REQUEST_URI_PORT, p, b', u)
          else parseFragment alloc
                 (uri_enter ES_URI_PARSING_PORT ES_URI_PARSING_FRAGMENT (wb_clear p))
                 (readMark b') (u\<lparr>absPath := Some (asc ''/'')\<rparr>)
        else (ES_HTTP_BAD_REQUEST_URI_PORT, p, b', u))"
  by pat_completeness auto
termination
  by (relation "measure (\<lambda>(_, _, b, _). unat (readable b))")
     (auto dest!: readable_next_less simp: prod_eq_iff)

function parseHost_loop ::
  "'a alloc_fn \<Rightarrow> 'a uri_parser \<Rightarrow> buffer \<Rightarrow> request_uri \<Rightarrow> 'a uri_result" where
  "parseHost_loop alloc p b u =
     (if \<not> isReadable b then (ESB_AGAIN, p, b, u)
      else if \<not> isWritable (workingBuffer p) then (ESB_OVERFLOW, p, b, u)
      else
        let (c, b') = buf_next b in
        if IsAlphaNum c then parseHost_loop alloc (wb_put p c) b' u
        else if c = HYPHEN \<or> c = DOT then parseHost_loop alloc (wb_put p c) b' u
        else if c = COLON then
          let (s, p') = wb_dup alloc p; u' = u\<lparr>host := s\<rparr> in
          if s = None then (ESB_OUT_OF_MEMORY, p', b', u')
          else parsePort alloc (uri_enter ES_URI_PARSING_HOST ES_URI_PARSING_PORT (wb_clear p'))
                 (readMark b') u'
        else if c = SP \<or> c = HT then
          let (s, p') = wb_dup alloc p; u' = u\<lparr>host := s\<rparr> in
          if s = None then (ESB_OUT_OF_MEMORY, p', b', u')
          else (ESB_SUCCESS, uri_enter ES_URI_PARSING_HOST ES_URI_PARSE_COMPLETE (wb_clear p'),
                readMark b', u'\<lparr>absPath := Some (asc ''/'')\<rparr>)
        else if c = SLASH then
          let (s, p') = wb_dup alloc p; u' = u\<lparr>host := s\<rparr> in
          if s = None then (ESB_OUT_OF_MEMORY, p', b', u')
          else parseAbsPath alloc (uri_enter ES_URI_PARSING_HOST ES_URI_PARSING_ABS_PATH (wb_clear p'))
                 (readMark (setReadPosition b' (rdPos b' - 1))) u'
        else if c = QUESTION then
          let (s, p') = wb_dup alloc p; u' = u\<lparr>host := s\<rparr> in
          if s = None then (ESB_OUT_OF_MEMORY, p', b', u')
          else parseQuery alloc (uri_enter ES_URI_PARSING_HOST ES_URI_PARSING_QUERY (wb_clear p'))
                 (readMark b') (u'\<lparr>absPath := Some (asc ''/'')\<rparr>)
        else if c = HASH then
          let (s, p') = wb_dup alloc p; u' = u\<lparr>host := s\<rparr> in
          if s = None then (ESB_OUT_OF_MEMORY, p', b', u')
          else parseFragment alloc
                 (uri_enter ES_URI_PARSING_HOST ES_URI_PARSING_FRAGMENT (wb_clear p'))
                 (readMark b') (u'\<lparr>absPath := Some (asc ''/'')\<rparr>)
        else (ES_HTTP_BAD_REQUEST_URI_HOST, p, b', u))"
  by pat_completeness auto
termination
  by (relation "measure (\<lambda>(_, _, b, _). unat (readable b))")
     (auto dest!: readable_next_less simp: prod_eq_iff)

definition parseHost ::
  "'a alloc_fn \<Rightarrow> 'a uri_parser \<Rightarrow> buffer \<Rightarrow> request_uri \<Rightarrow> 'a uri_result" where
  "parseHost alloc p b u =
     (if wrPos (workingBuffer p) = 0 then
        (if \<not> isReadable b then (ESB_AGAIN, p, b, u)
         else if \<not> isWritable (workingBuffer p) then (ESB_OVERFLOW, p, b, u)
         else
           let (c, b') = buf_next b in
           if \<not> IsAlphaNum c then (ES_HTTP_BAD_REQUEST_URI_HOST, p, b', u)
           else parseHost_loop alloc (wb_put p c) b' u)
      else parseHost_loop alloc p b u)"

function skipForwardSlashes ::
  "'a alloc_fn \<Rightarrow> 'a uri_parser \<Rightarrow> buffer \<Rightarrow> request_uri \<Rightarrow> 'a uri_result" where
  "skipForwardSlashes alloc p b u =
     (if \<not> isReadable b then (ESB_AGAIN, p, b, u)
      else if peekNext b = SLASH then skipForwardSlashes alloc p (skipNext b) u
      else parseHost alloc (uri_enter ES_URI_SKIPPING_FWD_SLASHES ES_URI_PARSING_HOST p) b u)"
  by pat_completeness auto
termination
  by (relation "measure (\<lambda>(_, _, b, _). unat (readable b))") (auto simp: readable_skipNext_less)

function parseNonHttpUri ::
  "'a alloc_fn \<Rightarrow> 'a uri_parser \<Rightarrow> buffer \<Rightarrow> request_uri \<Rightarrow> 'a uri_result" where
  "parseNonHttpUri alloc p b u =
     (if \<not> isReadable b then (ESB_AGAIN, p, b, u)
      else if \<not> isWritable (workingBuffer p) then (ESB_OVERFLOW, p, b, u)
      else
        let (c, b') = buf_next b in
        if IsSpace c then
          let (s, p') = wb_dup alloc p; u' = u\<lparr>other := s\<rparr> in
          if s = None then (ESB_OUT_OF_MEMORY, p', b', u')
          else (ESB_SUCCESS,
                uri_enter ES_URI_PARSING_NON_HTTP_URI ES_URI_PARSE_COMPLETE (wb_clear p'),
                readMark b', u')
        else parseNonHttpUri alloc (wb_put p c) b' u)"
  by pat_completeness auto
termination
  by (relation "measure (\<lambda>(_, _, b, _). unat (readable b))")
     (auto dest!: readable_next_less simp: prod_eq_iff)

function parseScheme_loop ::
  "'a alloc_fn \<Rightarrow> 'a uri_parser \<Rightarrow> buffer \<Rightarrow> request_uri \<Rightarrow> 'a uri_result" where
  "parseScheme_loop alloc p b u =
     (if \<not> isReadable b then (ESB_AGAIN, p, b, u)
      else if \<not> isWritable (workingBuffer p) then (ESB_OVERFLOW, p, b, u)
      else
        let (c, b') = buf_next b in
        if IsAlphaNum c then parseScheme_loop alloc (wb_put p c) b' u
        else if c = PLUS \<or> c = EQUALS \<or> c = DOT then parseScheme_loop alloc (wb_put p c) b' u
        else if c = COLON then
          (if match (workingBuffer p) (asc ''http'') then
             skipForwardSlashes alloc
               (uri_enter ES_URI_PARSING_SCHEME ES_URI_SKIPPING_FWD_SLASHES (wb_clear p))
               (readMark b') (u\<lparr>uriType := ES_URI_HTTP\<rparr>)
           else if match (workingBuffer p) (asc ''https'') then
             skipForwardSlashes alloc
               (uri_enter ES_URI_PARSING_SCHEME ES_URI_SKIPPING_FWD_SLASHES (wb_clear p))
               (readMark b') (u\<lparr>uriType := ES_URI_HTTPS\<rparr>)
           else
             parseNonHttpUri alloc
               (uri_enter ES_URI_PARSING_SCHEME ES_URI_PARSING_NON_HTTP_URI (wb_put p COLON))
               (readMark b') (u\<lparr>uriType := ES_URI_OTHER\<rparr>))
        else (ES_HTTP_BAD_REQUEST_URI_SCHEME, p, b', u))"
  by pat_completeness auto
termination
  by (relation "measure (\<lambda>(_, _, b, _). unat (readable b))")
     (auto dest!: readable_next_less simp: prod_eq_iff)

definition parseScheme ::
  "'a alloc_fn \<Rightarrow> 'a uri_parser \<Rightarrow> buffer \<Rightarrow> request_uri \<Rightarrow> 'a uri_result" where
  "parseScheme alloc p b u =
     (if wrPos (workingBuffer p) = 0 then
        (if \<not> isReadable b then (ESB_AGAIN, p, b, u)
         else if \<not> isWritable (workingBuffer p) then (ESB_OVERFLOW, p, b, u)
         else
           let (c, b') = buf_next b in
           if \<not> IsAlpha c then (ES_HTTP_BAD_REQUEST_URI_SCHEME, p, b', u)
           else parseScheme_loop alloc (wb_put p c) b' u)
      else parseScheme_loop alloc p b u)"

definition parseAsterisk :: "'a uri_parser \<Rightarrow> buffer \<Rightarrow> request_uri \<Rightarrow> 'a uri_result" where
  "parseAsterisk p b u =
     (if \<not> isReadable b then (ESB_AGAIN, p, b, u)
      else
        let (c, b1) = buf_next b in
        if c \<noteq> ASTERISK then (ES_HTTP_BAD_REQUEST_URI_ASTERISK, p, b1, u)
        else if \<not> isReadable b1 then (ESB_AGAIN, p, readReset b1, u)
        else
          let (c2, b2) = buf_next b1 in
          if \<not> IsSpace c2 then (ES_HTTP_BAD_REQUEST_URI_ASTERISK, p, b2, u)
          else (ESB_SUCCESS, uri_enter ES_URI_PARSING_ASTERISK ES_URI_PARSE_COMPLETE p, b2,
                u\<lparr>uriType := ES_URI_ASTERISK\<rparr>))"

definition uri_dispatch ::
  "'a alloc_fn \<Rightarrow> 'a uri_parser \<Rightarrow> buffer \<Rightarrow> request_uri \<Rightarrow> 'a uri_result" where
  "uri_dispatch alloc p b u =
     (if has_flag (uriState p) ES_URI_PARSING_ASTERISK then parseAsterisk p b u
      else if has_flag (uriState p) ES_URI_PARSING_SCHEME then parseScheme alloc p b u
      else if has_flag (uriState p) ES_URI_SKIPPING_FWD_SLASHES then skipForwardSlashes alloc p b u
      else if has_flag (uriState p) ES_URI_PARSING_HOST then parseHost alloc p b u
      else if has_flag (uriState p) ES_URI_PARSING_PORT then parsePort alloc p b u
      else if has_flag (uriState p) ES_URI_PARSING_ABS_PATH then parseAbsPath alloc p b u
      else if has_flag (uriState p) ES_URI_PARSING_QUERY then parseQuery alloc p b u
      else if has_flag (uriState p) ES_URI_PARSING_FRAGMENT then parseFragment alloc p b u
      else if has_flag (uriState p) ES_URI_PARSING_NON_HTTP_URI then parseNonHttpUri alloc p b u
      else (ESB_INVALID_STATE, p, b, u))"

definition uri_parse ::
  "'a alloc_fn \<Rightarrow> 'a uri_parser \<Rightarrow> buffer \<Rightarrow> request_uri \<Rightarrow> 'a uri_result" where
  "uri_parse alloc p b u =
     (if has_flag (uriState p) ES_URI_PARSE_COMPLETE then (ESB_INVALID_STATE, p, b, u)
      else if uriState p = 0 then
        let b1 = readMark (SkipSpaces b) in
        if \<not> isReadable b1 then (ESB_AGAIN, p, b1, u)
        else
          let st = (if peekNext b1 = ASTERISK then ES_URI_PARSING_ASTERISK
                    else if peekNext b1 = SLASH then ES_URI_PARSING_ABS_PATH
                    else ES_URI_PARSING_SCHEME)
          in uri_dispatch alloc (p\<lparr>uriState := st\<rparr>) b1 u
      else uri_dispatch alloc p b u)"

declare parseFragment.simps [simp del] parseQuery.simps [simp del] parseAbsPath_loop.simps [simp del]
  parsePort.simps [simp del] parseHost_loop.simps [simp del] skipForwardSlashes.simps [simp del]
  parseNonHttpUri.simps [simp del] parseScheme_loop.simps [simp del]

end
