(* ===== verification/Incremental.thy ===== *)
theory Incremental
  imports HttpScan
begin

text \<open>
  What it means for a parser to be incremental. The sockets call a parser on whatever octets
  have arrived; on ESB_AGAIN they receive more and call it again with the state it left. A
  parser is correct only if the way the network cuts the input does not show. \<open>resumes\<close> states
  this for one call, the locale \<open>incremental_parser\<close> lifts it to any division into pieces.
\<close>

section \<open>What a call may do to its input buffer\<close>

text \<open>It moves the read position and the read mark, within what has been written.\<close>

definition consumed :: "buffer \<Rightarrow> buffer \<Rightarrow> bool" where
  "consumed b b' \<longleftrightarrow> b' = b\<lparr>rdPos := rdPos b', rdMark := rdMark b'\<rparr> \<and>
     rdPos b' \<le> wrPos b \<and> rdMark b' \<le> wrPos b"

lemma consumed_refl [intro]: "buf_inv b \<Longrightarrow> consumed b b"
  by (simp add: consumed_def buf_inv_def)

lemma consumed_fields:
  assumes "consumed b b'"
  shows "octets b' = octets b" "wrPos b' = wrPos b" "cap b' = cap b" "wrMark b' = wrMark b"
    "room b' = room b" "rdPos b' \<le> wrPos b" "rdMark b' \<le> wrPos b"
proof -
  obtain p q where "b' = b\<lparr>rdPos := p, rdMark := q\<rparr>"
    using assms by (auto simp: consumed_def)
  then show "octets b' = octets b" "wrPos b' = wrPos b" "cap b' = cap b" "wrMark b' = wrMark b"
    "room b' = room b"
    by (simp_all add: room_def writable_def)
qed (use assms in \<open>auto simp: consumed_def\<close>)

lemma consumed_trans [trans]:
  assumes ab: "consumed a b" and bc: "consumed b c"
  shows "consumed a c"
proof -
  obtain p q where b: "b = a\<lparr>rdPos := p, rdMark := q\<rparr>"
    using ab unfolding consumed_def by blast
  obtain r s where c: "c = b\<lparr>rdPos := r, rdMark := s\<rparr>"
    using bc unfolding consumed_def by blast
  show ?thesis
    using bc unfolding c b consumed_def by simp
qed

lemma consumed_inv: "buf_inv b \<Longrightarrow> consumed b b' \<Longrightarrow> buf_inv b'"
  using consumed_fields [of b b'] by (simp add: buf_inv_def)

lemma consumed_fits: "fits b bs \<Longrightarrow> consumed b b' \<Longrightarrow> fits b' bs"
  using consumed_fields [of b b'] consumed_inv [of b b'] by (simp add: fits_def)

lemma advances_consumed: "buf_inv b \<Longrightarrow> advances b b' \<Longrightarrow> consumed b b'"
proof -
  assume inv: "buf_inv b" and a: "advances b b'"
  obtain p where b': "b' = b\<lparr>rdPos := p\<rparr>"
    using a unfolding advances_def by blast
  have "rdPos b \<le> p" "p \<le> wrPos b"
    using a unfolding b' advances_def by simp_all
  from this(2) show ?thesis
    using buf_invD(4) [OF inv] unfolding b' consumed_def by simp
qed

lemma consumed_readMark: "consumed b b' \<Longrightarrow> consumed b (readMark b')"
proof -
  assume c: "consumed b b'"
  then obtain p q where b': "b' = b\<lparr>rdPos := p, rdMark := q\<rparr>"
    unfolding consumed_def by blast
  show ?thesis
    using c unfolding b' by (simp add: consumed_def readMark_def)
qed

lemma consumed_mark: "buf_inv b \<Longrightarrow> consumed b (readMark b)"
  by (auto intro: consumed_readMark)

lemma consumed_unget:
  assumes "consumed b b'" "setReadPosition b' p = b" "buf_inv b"
  shows "consumed b' b"
proof -
  obtain p q where b': "b' = b\<lparr>rdPos := p, rdMark := q\<rparr>"
    using assms(1) unfolding consumed_def by blast
  show ?thesis
    using buf_invD(2,4) [OF assms(3)] unfolding b' consumed_def by simp
qed

lemma readE:
  assumes "buf_inv b" "isReadable b"
  obtains c b' where "buf_next b = (c, b')" "peekNext b = c" "skipNext b = b'" "buf_inv b'"
    "unread b = c # unread b'" "consumed b b'" "unat (readable b') < unat (readable b)"
    "setReadPosition b' (rdPos b' - 1) = b"
    "\<And>bs. fits b bs \<Longrightarrow> isReadable (receive b bs)"
    "\<And>bs. fits b bs \<Longrightarrow> buf_next (receive b bs) = (c, receive b' bs)"
proof -
  obtain c b' where n: "buf_next b = (c, b')" "peekNext b = c" "skipNext b = b'" "buf_inv b'"
    "unread b = c # unread b'" "advances b b'" "unat (readable b') < unat (readable b)"
    "setReadPosition b' (rdPos b' - 1) = b"
    using nextE [OF assms] by metis
  show ?thesis
  proof (rule that [OF n(1-5) _ n(7,8)])
    show "consumed b b'"
      using assms(1) n(6) by (rule advances_consumed)
  next
    fix bs assume "fits b bs"
    then show "isReadable (receive b bs)" "buf_next (receive b bs) = (c, receive b' bs)"
      using assms(2) n(1) by (simp_all add: isReadable_receive buf_next_receive)
  qed
qed

section \<open>One call\<close>

type_synonym ('p, 'm) parse_result = "error \<times> 'p \<times> buffer \<times> 'm"

text \<open>
  \<open>now\<close> is the call on the buffer as it is, \<open>later\<close> the call that follows an ESB_AGAIN, \<open>ok\<close>
  the invariant of the states between calls. With more octets behind the write position, an
  undecided call behaves as the later call does, and a decided one decides the same. A call that
  fails may leave any state: the parser is not called again. The errors in \<open>X\<close> are exempt: where
  the call on all the octets ends with one of them, the later call may differ. \<open>resumes\<close> has no
  such error.
\<close>

definition resumes_upto ::
  "error set \<Rightarrow> (buffer \<Rightarrow> ('p, 'm) parse_result) \<Rightarrow> ('p \<Rightarrow> buffer \<Rightarrow> 'm \<Rightarrow> ('p, 'm) parse_result)
    \<Rightarrow> ('p \<Rightarrow> buffer \<Rightarrow> 'm \<Rightarrow> bool) \<Rightarrow> buffer \<Rightarrow> bool" where
  "resumes_upto X now later ok b \<longleftrightarrow>
     (case now b of (e, p', b', m') \<Rightarrow>
        (e = ESB_AGAIN \<or> e = ESB_SUCCESS \<longrightarrow> ok p' b' m') \<and> consumed b b' \<and>
        (\<forall>bs. fits b bs \<longrightarrow>
           (if e = ESB_AGAIN
            then now (receive b bs) = later p' (receive b' bs) m' \<or> fst (now (receive b bs)) \<in> X
            else now (receive b bs) = (e, p', receive b' bs, m'))))"

abbreviation resumes ::
  "(buffer \<Rightarrow> ('p, 'm) parse_result) \<Rightarrow> ('p \<Rightarrow> buffer \<Rightarrow> 'm \<Rightarrow> ('p, 'm) parse_result)
    \<Rightarrow> ('p \<Rightarrow> buffer \<Rightarrow> 'm \<Rightarrow> bool) \<Rightarrow> buffer \<Rightarrow> bool" where
  "resumes \<equiv> resumes_upto {}"

lemma resumes_mono: "resumes_upto X now later ok b \<Longrightarrow> X \<subseteq> Y \<Longrightarrow> resumes_upto Y now later ok b"
  unfolding resumes_upto_def subset_iff by (cases "now b") (auto split: if_splits)

lemma resumes_again:
  assumes "now b = (ESB_AGAIN, p, b', m)" "ok p b' m" "consumed b b'"
    and "\<And>bs. fits b bs \<Longrightarrow>
      now (receive b bs) = later p (receive b' bs) m \<or> fst (now (receive b bs)) \<in> X"
  shows "resumes_upto X now later ok b"
  using assms by (simp add: resumes_upto_def)

lemma resumes_done:
  assumes "now b = (e, p, b', m)" "e \<noteq> ESB_AGAIN" "e = ESB_SUCCESS \<Longrightarrow> ok p b' m" "consumed b b'"
    and "\<And>bs. fits b bs \<Longrightarrow> now (receive b bs) = (e, p, receive b' bs, m)"
  shows "resumes_upto X now later ok b"
  using assms by (simp add: resumes_upto_def)

lemma resumes_step:
  assumes "now b = nxt b1" "consumed b b1" "resumes_upto X nxt later ok b1"
    and "\<And>bs. fits b bs \<Longrightarrow> now (receive b bs) = nxt (receive b1 bs)"
  shows "resumes_upto X now later ok b"
proof -
  obtain e p b' m where n: "nxt b1 = (e, p, b', m)"
    by (cases "nxt b1")
  then show ?thesis
    using assms consumed_trans [OF assms(2), of b'] consumed_fits [OF _ assms(2)]
    by (simp add: resumes_upto_def)
qed

lemma resumes_cong:
  assumes "buf_inv b" "\<And>bs. fits b bs \<Longrightarrow> now (receive b bs) = now' (receive b bs)"
    "resumes_upto X now' later ok b"
  shows "resumes_upto X now later ok b"
  using assms(2) [of "[]"] assms unfolding resumes_upto_def
  by (cases "now' b") (auto split: if_splits)

text \<open>One call that runs another and goes on where that one succeeds.\<close>

definition if_success ::
  "('p, 'm) parse_result \<Rightarrow> ('p \<Rightarrow> buffer \<Rightarrow> 'm \<Rightarrow> ('p, 'm) parse_result) \<Rightarrow> ('p, 'm) parse_result" where
  "if_success r k = (case r of (e, p, b, m) \<Rightarrow> if e \<noteq> ESB_SUCCESS then (e, p, b, m) else k p b m)"

lemma resumes_bind:
  assumes f: "resumes_upto X f laterf okf b" and X: "ESB_SUCCESS \<notin> X"
    and again: "\<And>p b1 m. okf p b1 m \<Longrightarrow> consumed b b1 \<Longrightarrow> f b = (ESB_AGAIN, p, b1, m) \<Longrightarrow>
      ok p b1 m \<and> (\<forall>bs. fits b1 bs \<longrightarrow>
        later p (receive b1 bs) m = if_success (laterf p (receive b1 bs) m) k
        \<or> fst (if_success (laterf p (receive b1 bs) m) k) \<in> X)"
    and success: "\<And>p b1 m. okf p b1 m \<Longrightarrow> consumed b b1 \<Longrightarrow> f b = (ESB_SUCCESS, p, b1, m) \<Longrightarrow>
      resumes_upto X (\<lambda>b. k p b m) later ok b1"
  shows "resumes_upto X (\<lambda>b. if_success (f b) k) later ok b"
proof -
  obtain e p b1 m where fb: "f b = (e, p, b1, m)"
    by (cases "f b")
  have okf: "e = ESB_AGAIN \<or> e = ESB_SUCCESS \<Longrightarrow> okf p b1 m" and cons: "consumed b b1"
    and more: "\<And>bs. fits b bs \<Longrightarrow>
      (if e = ESB_AGAIN
       then f (receive b bs) = laterf p (receive b1 bs) m \<or> fst (f (receive b bs)) \<in> X
       else f (receive b bs) = (e, p, receive b1 bs, m))"
    using f fb by (auto simp: resumes_upto_def)
  consider "e = ESB_AGAIN" | "e = ESB_SUCCESS" | "e \<noteq> ESB_AGAIN" "e \<noteq> ESB_SUCCESS" by blast
  then show ?thesis
  proof cases
    case 1
    note a = again [OF okf cons, unfolded fb, OF disjI1]
    have stray: "fst r \<in> X \<Longrightarrow> fst (if_success r k) \<in> X" for r
      using X by (cases r) (auto simp: if_success_def split: prod.splits)
    show ?thesis
    proof (rule resumes_again [where p = p and b' = b1 and m = m])
      show "if_success (f b) k = (ESB_AGAIN, p, b1, m)" "consumed b b1" "ok p b1 m"
        using 1 fb cons a by (simp_all add: if_success_def)
      fix bs assume fits: "fits b bs"
      then show "if_success (f (receive b bs)) k = later p (receive b1 bs) m
          \<or> fst (if_success (f (receive b bs)) k) \<in> X"
        using more [OF fits] a 1 stray [of "f (receive b bs)"] consumed_fits [OF fits cons] by auto
    qed
  next
    case 2
    show ?thesis
      by (rule resumes_step [OF _ cons success [OF okf cons]])
         (use 2 fb more in \<open>simp_all add: if_success_def\<close>)
  next
    case 3
    then show ?thesis
      using fb more cons
      by (intro resumes_done [where p = p and b' = b1 and m = m and e = e]) (simp_all add: if_success_def)
  qed
qed

text \<open>Rules that follow the shape of the parsers' code.\<close>

lemma resumes_return:
  assumes "e \<noteq> ESB_AGAIN" "e = ESB_SUCCESS \<Longrightarrow> ok p (g b) m" "consumed b (g b)"
    and "\<And>bs. fits b bs \<Longrightarrow> g (receive b bs) = receive (g b) bs"
  shows "resumes_upto X (\<lambda>b. (e, p, g b, m)) later ok b"
  using assms by (simp add: resumes_upto_def)

lemma resumes_call:
  assumes "consumed b (g b)" "resumes_upto X nxt later ok (g b)"
    and "\<And>bs. fits b bs \<Longrightarrow> g (receive b bs) = receive (g b) bs"
  shows "resumes_upto X (\<lambda>b. nxt (g b)) later ok b"
  by (rule resumes_step [where nxt = nxt and ?b1.0 = "g b"]) (use assms in auto)

lemma resumes_if:
  assumes "Q \<Longrightarrow> resumes_upto X f later ok b" "\<not> Q \<Longrightarrow> resumes_upto X g later ok b"
  shows "resumes_upto X (\<lambda>b. if Q then f b else g b) later ok b"
  using assms by (cases Q) auto

text \<open>The head of a loop: more input? space for the octet? then read one and go on with \<open>k\<close>.\<close>

lemma resumes_read:
  fixes b :: buffer
  assumes head: "\<And>b. now b =
        (if \<not> isReadable b then (ESB_AGAIN, p, b, m)
         else if \<not> w then (ESB_OVERFLOW, p, b, m)
         else let (c, b') = buf_next b in k c b')"
    and later: "\<And>b. later p b m = now b"
    and inv: "buf_inv b" and ok: "ok p b m"
    and step: "\<And>c b1. isReadable b \<Longrightarrow> w \<Longrightarrow> buf_next b = (c, b1) \<Longrightarrow> buf_inv b1 \<Longrightarrow>
        unat (readable b1) < unat (readable b) \<Longrightarrow> setReadPosition b1 (rdPos b1 - 1) = b \<Longrightarrow> consumed b1 b \<Longrightarrow> resumes_upto X (k c) later ok b1"
  shows "resumes_upto X now later ok b"
proof (cases "isReadable b")
  case False
  then show ?thesis
    by (intro resumes_again [where p = p and b' = b and m = m]) (simp_all add: head later ok inv consumed_refl)
next
  case True
  then obtain c b1 where r: "buf_next b = (c, b1)" "buf_inv b1" "consumed b b1"
    "unat (readable b1) < unat (readable b)" "setReadPosition b1 (rdPos b1 - 1) = b"
    "\<And>bs. fits b bs \<Longrightarrow> isReadable (receive b bs)"
    "\<And>bs. fits b bs \<Longrightarrow> buf_next (receive b bs) = (c, receive b1 bs)"
    using inv by (metis readE)
  show ?thesis
  proof (cases w)
    case False
    then show ?thesis
      using True r(6)
      by (intro resumes_done [where p = p and b' = b and m = m]) (simp_all add: head ok inv consumed_refl)
  next
    case w: True
    show ?thesis
      by (rule resumes_step [where nxt = "k c", OF _ r(3)])
         (use True w r step [OF True w r(1,2,4,5) consumed_unget [OF r(3,5) inv]] in \<open>simp_all add: head\<close>)
  qed
qed

text \<open>A head that looks at the next octet and leaves it.\<close>

lemma resumes_peek:
  assumes head: "\<And>b. now b = (if \<not> isReadable b then (ESB_AGAIN, p, b, m) else k (peekNext b) b)"
    and later: "\<And>b. later p b m = now b"
    and inv: "buf_inv b" and ok: "ok p b m"
    and step: "\<And>c b1. isReadable b \<Longrightarrow> skipNext b = b1 \<Longrightarrow> buf_inv b1 \<Longrightarrow>
        unat (readable b1) < unat (readable b) \<Longrightarrow> consumed b b1 \<Longrightarrow>
        (\<And>bs. fits b bs \<Longrightarrow> skipNext (receive b bs) = receive b1 bs) \<Longrightarrow> resumes_upto X (k c) later ok b"
  shows "resumes_upto X now later ok b"
proof (cases "isReadable b")
  case False
  then show ?thesis
    by (intro resumes_again [where p = p and b' = b and m = m]) (simp_all add: head later ok inv consumed_refl)
next
  case True
  then obtain c b1 where r: "peekNext b = c" "skipNext b = b1" "buf_inv b1" "consumed b b1"
    "unat (readable b1) < unat (readable b)"
    "\<And>bs. fits b bs \<Longrightarrow> isReadable (receive b bs)"
    "\<And>bs. fits b bs \<Longrightarrow> buf_next (receive b bs) = (c, receive b1 bs)"
    using inv by (metis readE)
  have skip: "fits b bs \<Longrightarrow> skipNext (receive b bs) = receive b1 bs" for bs
    using r(7) by (simp add: skipNext_next)
  show ?thesis
  proof (rule resumes_step [where nxt = "k c" and ?b1.0 = b])
    show "now b = k c b" "consumed b b"
      using True r(1) inv by (auto simp: head)
    show "resumes_upto X (k c) later ok b"
      by (rule step [OF True r(2,3,5,4) skip])
    show "now (receive b bs) = k c (receive b bs)" if "fits b bs" for bs
      using r(6,7) [OF that] by (simp add: head peekNext_next)
  qed
qed

text \<open>A tail call on the buffer behind the octet that was looked at.\<close>

lemma resumes_skip:
  assumes "skipNext b = b1" "consumed b b1"
    "\<And>bs. fits b bs \<Longrightarrow> skipNext (receive b bs) = receive b1 bs" "resumes_upto X nxt later ok b1"
  shows "resumes_upto X (\<lambda>b. nxt (skipNext b)) later ok b"
  by (rule resumes_call [where g = skipNext]) (use assms in auto)

text \<open>A call on a part of the parser and a part of the message: \<open>P\<close> and \<open>M\<close> put the parts back.\<close>

lemma resumes_part:
  assumes f: "resumes_upto X f laterf okf b"
    and now: "\<And>b. now b = (case f b of (e, q, b', u) \<Rightarrow> (e, P q, b', M u))"
    and later: "\<And>q b u. later (P q) b (M u) = (case laterf q b u of (e, q', b', u') \<Rightarrow> (e, P q', b', M u'))"
    and ok: "\<And>q b u. okf q b u \<Longrightarrow> ok (P q) b (M u)"
  shows "resumes_upto X now later ok b"
proof -
  have stray: "fst (case r of (e, q, b', u) \<Rightarrow> (e, P q, b', M u)) = fst r" for r
    by (cases r) simp
  obtain e q b' u where "f b = (e, q, b', u)"
    by (cases "f b")
  then show ?thesis
    using f by (auto simp: resumes_upto_def now later ok stray split: if_splits)
qed

section \<open>A stream of pieces\<close>

text \<open>
  The caller's loop: call the parser; on ESB_AGAIN receive the next piece and call it again.
  Pieces that arrive after the parser has decided stay unread behind what it consumed.
\<close>

fun feed ::
  "('p \<Rightarrow> buffer \<Rightarrow> 'm \<Rightarrow> ('p, 'm) parse_result) \<Rightarrow> 'p \<Rightarrow> buffer \<Rightarrow> 'm \<Rightarrow> u8 list list
    \<Rightarrow> ('p, 'm) parse_result" where
  "feed step p b m [] = step p b m"
| "feed step p b m (c # cs) =
     (case step p b m of (e, p', b', m') \<Rightarrow>
        if e = ESB_AGAIN then feed step p' (receive b' c) m' cs
        else (e, p', receive b' (c @ concat cs), m'))"

locale incremental_parser =
  fixes step :: "'p \<Rightarrow> buffer \<Rightarrow> 'm \<Rightarrow> ('p, 'm) parse_result"
    and ok :: "'p \<Rightarrow> buffer \<Rightarrow> 'm \<Rightarrow> bool"
    and X :: "error set"
  assumes ok_inv: "ok p b m \<Longrightarrow> buf_inv b"
    and ok_receive: "ok p b m \<Longrightarrow> fits b bs \<Longrightarrow> ok p (receive b bs) m"
    and step_resumes: "ok p b m \<Longrightarrow> resumes_upto X (\<lambda>b. step p b m) step ok b"
begin

lemma step_ok:
  assumes "ok p b m" "step p b m = (e, p', b', m')"
  shows "e = ESB_AGAIN \<or> e = ESB_SUCCESS \<Longrightarrow> ok p' b' m'" "consumed b b'"
  using step_resumes [OF assms(1)] assms(2) by (auto simp: resumes_upto_def)

lemma step_more:
  assumes "ok p b m" "step p b m = (e, p', b', m')" "fits b bs"
  shows "if e = ESB_AGAIN
    then step p (receive b bs) m = step p' (receive b' bs) m' \<or> fst (step p (receive b bs) m) \<in> X
    else step p (receive b bs) m = (e, p', receive b' bs, m')"
  using step_resumes [OF assms(1)] assms(2,3) by (simp add: resumes_upto_def)

text \<open>However the octets are cut into pieces, the result is that of the whole.\<close>

lemma feed_concat:
  "ok p b m \<Longrightarrow> fits b (concat cs) \<Longrightarrow>
    feed step p b m cs = step p (receive b (concat cs)) m \<or> fst (step p (receive b (concat cs)) m) \<in> X"
proof (induction cs arbitrary: p b m)
  case (Cons c cs)
  obtain e p' b' m' where s: "step p b m = (e, p', b', m')"
    by (cases "step p b m")
  have fits: "fits b (c @ concat cs)"
    using Cons.prems by simp
  have fits': "fits b' (c @ concat cs)"
    using fits step_ok(2) [OF Cons.prems(1) s] by (rule consumed_fits)
  note more = step_more [OF Cons.prems(1) s fits]
  show ?case
  proof (cases "e = ESB_AGAIN")
    case True
    have c: "fits b' c"
      using fits' by (simp add: fits_def)
    have cs: "fits (receive b' c) (concat cs)"
      using fits' by (auto simp: fits_def receive_inv [OF c] room_receive [OF c])
    have "ok p' (receive b' c) m'"
      using step_ok(1) [OF Cons.prems(1) s] True c by (auto intro: ok_receive)
    from Cons.IH [OF this cs] show ?thesis
      using s more True by (auto simp: receive_append [OF fits'])
  next
    case False
    then show ?thesis
      using s more by simp
  qed
qed simp

text \<open>Two divisions of the same octets cannot be told apart, unless the whole is a stray error.\<close>

lemma feed_division:
  "ok p b m \<Longrightarrow> fits b (concat cs) \<Longrightarrow> concat cs = concat ds \<Longrightarrow>
    fst (step p (receive b (concat cs)) m) \<notin> X \<Longrightarrow>
    feed step p b m cs = feed step p b m ds"
  using feed_concat [of p b m cs] feed_concat [of p b m ds] by simp

end

end
