(* ===== verification/MessageParser.thy ===== *)
theory MessageParser
  imports RequestUriParser Incremental
begin

text \<open>
  \<open>ES::HttpMessageParser\<close> (data-plane/http1/source/ESHttpMessageParser.cpp): headers, body framing
  and chunked bodies. The virtual functions \<open>parseStartLine\<close> and \<open>isBodyNotAllowed\<close> are arguments
  of \<open>parseHeaders\<close>; the request and the response parser supply them. Pointers to the input
  buffer and to the outputs are never NULL here (the members of the sockets that pass them).
  A loop that puts an octet back goes round again only if it has consumed input, which
  \<open>parseFieldValue_progress\<close> and \<open>field_round_progress\<close> show it always has.
\<close>

section \<open>State\<close>

record 'a message_parser = "'a parse_ctx" +
  msgState :: u32
  bodyBytesRemaining :: u64

abbreviation (input) ES_PARSING_START_LINE :: u32 where "ES_PARSING_START_LINE \<equiv> 1"
abbreviation (input) ES_PARSING_FIELD_NAME :: u32 where "ES_PARSING_FIELD_NAME \<equiv> 2"
abbreviation (input) ES_PARSING_FIELD_VALUE :: u32 where "ES_PARSING_FIELD_VALUE \<equiv> 4"
abbreviation (input) ES_HEADER_PARSE_COMPLETE :: u32 where "ES_HEADER_PARSE_COMPLETE \<equiv> 8"
abbreviation (input) ES_PARSING_UNENCODED_BODY :: u32 where "ES_PARSING_UNENCODED_BODY \<equiv> 16"
abbreviation (input) ES_PARSING_CHUNKED_BODY :: u32 where "ES_PARSING_CHUNKED_BODY \<equiv> 32"
abbreviation (input) ES_PARSING_CHUNK_SIZE :: u32 where "ES_PARSING_CHUNK_SIZE \<equiv> 64"
abbreviation (input) ES_PARSING_CHUNK_EXTENSION :: u32 where "ES_PARSING_CHUNK_EXTENSION \<equiv> 128"
abbreviation (input) ES_PARSING_CHUNK_DATA :: u32 where "ES_PARSING_CHUNK_DATA \<equiv> 256"
abbreviation (input) ES_PARSING_END_CHUNK :: u32 where "ES_PARSING_END_CHUNK \<equiv> 512"
abbreviation (input) ES_PARSING_TRAILER :: u32 where "ES_PARSING_TRAILER \<equiv> 1024"
abbreviation (input) ES_BODY_PARSE_COMPLETE :: u32 where "ES_BODY_PARSE_COMPLETE \<equiv> 2048"
abbreviation (input) ES_PARSING_MULTIPART_BODY :: u32 where "ES_PARSING_MULTIPART_BODY \<equiv> 4096"
abbreviation (input) ES_PARSING_BODY_UNTIL_CLOSE :: u32 where "ES_PARSING_BODY_UNTIL_CLOSE \<equiv> 8192"

definition message_parser_reset ::
  "('a, 'p) message_parser_scheme \<Rightarrow> ('a, 'p) message_parser_scheme" where
  "message_parser_reset p =
     p\<lparr>workingBuffer := buf_clear (workingBuffer p), msgState := 0, bodyBytesRemaining := 0\<rparr>"

definition msg_enter ::
  "u32 \<Rightarrow> u32 \<Rightarrow> ('a, 'p) message_parser_scheme \<Rightarrow> ('a, 'p) message_parser_scheme" where
  "msg_enter old new p = p\<lparr>msgState := transition (msgState p) old new\<rparr>"

type_synonym ('a, 'p, 'm) message_result =
  "error \<times> ('a, 'p) message_parser_scheme \<times> buffer \<times> 'm http_message_scheme"

section \<open>Header fields\<close>

definition save_field_name ::
  "'a alloc_fn \<Rightarrow> ('a, 'p) message_parser_scheme \<Rightarrow> 'm http_message_scheme
    \<Rightarrow> error \<times> ('a, 'p) message_parser_scheme \<times> 'm http_message_scheme" where
  "save_field_name alloc p m =
     (case wb_dup alloc p of
        (None, p') \<Rightarrow> (ESB_OUT_OF_MEMORY, p', m)
      | (Some name, p') \<Rightarrow>
          (case alloc (allocator p') sizeof_HttpHeader of
             (e, _, al') \<Rightarrow>
               if e \<noteq> ESB_SUCCESS then (ESB_OUT_OF_MEMORY, p'\<lparr>allocator := al'\<rparr>, m)
               else (ESB_SUCCESS, p'\<lparr>allocator := al'\<rparr>,
                     m\<lparr>headers := headers m @ [\<lparr>fieldName = name, fieldValue = None\<rparr>]\<rparr>)))"

function parseFieldName ::
  "'a alloc_fn \<Rightarrow> ('a, 'p) message_parser_scheme \<Rightarrow> buffer \<Rightarrow> 'm http_message_scheme
    \<Rightarrow> ('a, 'p, 'm) message_result" where
  "parseFieldName alloc p b m =
     (if \<not> isReadable b then (ESB_AGAIN, p, b, m)
      else if \<not> isWritable (workingBuffer p) then (ESB_OVERFLOW, p, b, m)
      else
        let (c, b') = buf_next b in
        if c = COLON then (case save_field_name alloc p m of (e, p', m') \<Rightarrow> (e, p', b', m'))
        else if IsToken c then parseFieldName alloc (wb_put p c) b' m
        else (ES_HTTP_BAD_REQUEST_FIELD_NAME, p, b', m))"
  by pat_completeness auto
termination
  by (relation "measure (\<lambda>(_, _, b, _). unat (readable b))")
     (auto dest!: readable_next_less simp: prod_eq_iff)

definition set_last_value :: "cstr \<Rightarrow> 'm http_message_scheme \<Rightarrow> 'm http_message_scheme" where
  "set_last_value v m = m\<lparr>headers := butlast (headers m) @ [(last (headers m))\<lparr>fieldValue := Some v\<rparr>]\<rparr>"

definition save_field_value ::
  "'a alloc_fn \<Rightarrow> ('a, 'p) message_parser_scheme \<Rightarrow> 'm http_message_scheme
    \<Rightarrow> error \<times> ('a, 'p) message_parser_scheme \<times> 'm http_message_scheme" where
  "save_field_value alloc p m =
     (case wb_dup alloc p of
        (None, p') \<Rightarrow> (ESB_OUT_OF_MEMORY, p', m)
      | (Some v, p') \<Rightarrow>
          if headers m = [] then (ESB_INVALID_STATE, p', m)
          else (ESB_SUCCESS, p', set_last_value v m))"

text \<open>White space between two words becomes one space; before the first word it is dropped.\<close>

definition wb_fold_space :: "('a, 'z) parse_ctx_scheme \<Rightarrow> ('a, 'z) parse_ctx_scheme" where
  "wb_fold_space p = (if 0 < wrPos (workingBuffer p) then wb_put p SP else p)"

function parseFieldValue ::
  "'a alloc_fn \<Rightarrow> ('a, 'p) message_parser_scheme \<Rightarrow> buffer \<Rightarrow> 'm http_message_scheme
    \<Rightarrow> ('a, 'p, 'm) message_result" where
  "parseFieldValue alloc p b m =
     (if \<not> isReadable b then (ESB_AGAIN, p, b, m)
      else if \<not> isWritable (workingBuffer p) then (ESB_OVERFLOW, p, b, m)
      else
        let (c, b') = buf_next b in
        if IsLWS c then
          (case SkipLWS (setReadPosition b' (rdPos b' - 1)) of
             (e, b2) \<Rightarrow>
               if e = ESB_SUCCESS then
                 (case save_field_value alloc p m of (e, p', m') \<Rightarrow> (e, p', b2, m'))
               else if e = ESB_INPROGRESS then
                 (if readable b2 \<le> readable b' then parseFieldValue alloc (wb_fold_space p) b2 m
                  else (UNDEFINED_BEHAVIOUR, p, b2, m))
               else (e, p, b2, m))
        else if IsToken c then parseFieldValue alloc (wb_put p c) b' m
        else if IsSeparator c then parseFieldValue alloc (wb_put p c) b' m
        else if IsText c then parseFieldValue alloc (wb_put p c) b' m
        else (ES_HTTP_BAD_REQUEST_FIELD_VALUE, p, b', m))"
  by pat_completeness auto
termination
  by (relation "measure (\<lambda>(_, _, b, _). unat (readable b))")
     (auto dest!: readable_next_less simp: prod_eq_iff word_le_nat_alt)

declare parseFieldName.simps [simp del] parseFieldValue.simps [simp del]

section \<open>What follows the headers\<close>

text \<open>
  The header loop of \<open>postParse\<close>: the content length, and whether a content length, a multipart
  type and a chunked encoding were found. \<open>1.1 <= message.httpVersion()\<close> compares an int with a
  double: it holds for 2 and above.
\<close>

definition version_at_least_1_1 :: "'m http_message_scheme \<Rightarrow> bool" where
  "version_at_least_1_1 m \<longleftrightarrow> 2 \<le> httpVersion m"

fun scan_headers ::
  "http_header list \<Rightarrow> 'm http_message_scheme \<Rightarrow> u64 \<Rightarrow> bool \<Rightarrow> bool \<Rightarrow> bool
    \<Rightarrow> error \<times> 'm http_message_scheme \<times> u64 \<times> bool \<times> bool \<times> bool" where
  "scan_headers [] m len found multi chunked = (ESB_SUCCESS, m, len, found, multi, chunked)"
| "scan_headers (h # hs) m len found multi chunked =
     (if strcasecmp (fieldName h) (asc ''Expect'') = 0 then
        (case fieldValue h of
           None \<Rightarrow> scan_headers hs m len found multi chunked
         | Some v \<Rightarrow>
             scan_headers hs
               (if strncmp v (asc ''100-continue'') 12 = 0 then setSend100Continue m True else m)
               len found multi chunked)
      else if version_at_least_1_1 m \<and> strcasecmp (fieldName h) (asc ''Connection'') = 0 then
        (case fieldValue h of
           None \<Rightarrow> scan_headers hs m len found multi chunked
         | Some v \<Rightarrow>
             scan_headers hs (if strncmp v (asc ''close'') 5 = 0 then setReuseConnection m False else m)
               len found multi chunked)
      else if strcasecmp (fieldName h) (asc ''Content-Length'') = 0 then
        (case fieldValue h of
           None \<Rightarrow> scan_headers hs m len found multi chunked
         | Some v \<Rightarrow>
             (case ParseInteger (Some v) len of
                (e, len') \<Rightarrow>
                  if e = ES_HTTP_BAD_INTEGER then (ES_HTTP_BAD_CONTENT_LENGTH, m, len', found, multi, chunked)
                  else if e \<noteq> ESB_SUCCESS then (e, m, len', found, multi, chunked)
                  else scan_headers hs m len' True multi chunked))
      else if strcasecmp (fieldName h) (asc ''Transfer-Encoding'') = 0 then
        (case fieldValue h of
           None \<Rightarrow> scan_headers hs m len found multi chunked
         | Some v \<Rightarrow>
             scan_headers hs m len found multi (if strncmp v (asc ''identity'') 8 \<noteq> 0 then True else chunked))
      else if strcasecmp (fieldName h) (asc ''Content-Type'') = 0 then
        (case fieldValue h of
           None \<Rightarrow> scan_headers hs m len found multi chunked
         | Some v \<Rightarrow>
             scan_headers hs m len found
               (if strncmp v (asc ''multipart/byteranges'') 20 = 0 then True else multi) chunked)
      else scan_headers hs m len found multi chunked)"

text \<open>
  \<open>postParse\<close> chooses the body framing. \<open>isBodyNotAllowed\<close> answers None where the virtual
  function dereferences NULL.
\<close>

definition postParse ::
  "('m http_message_scheme \<Rightarrow> bool option) \<Rightarrow> ('a, 'p) message_parser_scheme
    \<Rightarrow> 'm http_message_scheme \<Rightarrow> error \<times> ('a, 'p) message_parser_scheme \<times> 'm http_message_scheme" where
  "postParse isBodyNotAllowed p m =
     (let m1 = setSend100Continue (setReuseConnection m (version_at_least_1_1 m)) False in
      case scan_headers (headers m1) m1 0 False False False of
        (e, m2, contentLength, foundContentLength, foundMultipart, foundChunked) \<Rightarrow>
          if e \<noteq> ESB_SUCCESS then (e, p, m2)
          else if foundChunked then
            (ESB_SUCCESS,
             p\<lparr>bodyBytesRemaining := 0,
               msgState := msgState p OR (ES_PARSING_CHUNKED_BODY OR ES_PARSING_CHUNK_SIZE)\<rparr>,
             setHasBody m2 True)
          else if foundContentLength then
            (ESB_SUCCESS,
             p\<lparr>bodyBytesRemaining := contentLength,
               msgState := msgState p OR ES_PARSING_UNENCODED_BODY\<rparr>,
             setHasBody m2 (0 < contentLength))
          else if foundMultipart then
            (ES_HTTP_MULTIPART_NOT_SUPPORTED,
             p\<lparr>bodyBytesRemaining := 0, msgState := msgState p OR ES_PARSING_MULTIPART_BODY\<rparr>,
             setHasBody m2 False)
          else
            (case isBodyNotAllowed m2 of
               None \<Rightarrow> (UNDEFINED_BEHAVIOUR, p, m2)
             | Some True \<Rightarrow>
                 (ESB_SUCCESS,
                  p\<lparr>bodyBytesRemaining := 0, msgState := msgState p OR ES_PARSING_UNENCODED_BODY\<rparr>,
                  setHasBody m2 False)
             | Some False \<Rightarrow>
                 (ESB_SUCCESS,
                  p\<lparr>bodyBytesRemaining := 0xFFFFFFFFFFFFFFFF,
                    msgState := msgState p OR ES_PARSING_BODY_UNTIL_CLOSE\<rparr>,
                  setReuseConnection (setHasBody m2 True) False)))"

section \<open>Headers\<close>

text \<open>The empty line: the same five statements stand twice in the code.\<close>

definition headers_end ::
  "('m http_message_scheme \<Rightarrow> bool option) \<Rightarrow> ('a, 'p) message_parser_scheme \<Rightarrow> buffer
    \<Rightarrow> 'm http_message_scheme \<Rightarrow> ('a, 'p, 'm) message_result" where
  "headers_end isBodyNotAllowed p b m =
     (case postParse isBodyNotAllowed
        (wb_clear (msg_enter ES_PARSING_FIELD_NAME ES_HEADER_PARSE_COMPLETE p)) m of
        (e, p', m') \<Rightarrow> (e, p', readMark b, m'))"

text \<open>
  One round of the while loop of \<open>parseHeaders\<close>: the left summand is a return, the right one the
  state with which the loop goes on.
\<close>

definition value_round ::
  "'a alloc_fn \<Rightarrow> ('a, 'p) message_parser_scheme \<Rightarrow> buffer \<Rightarrow> 'm http_message_scheme
    \<Rightarrow> ('a, 'p, 'm) message_result
       + ('a, 'p) message_parser_scheme \<times> buffer \<times> 'm http_message_scheme" where
  "value_round alloc p b m =
     (if has_flag (msgState p) ES_PARSING_FIELD_VALUE then
        (case parseFieldValue alloc p b m of
           (e, p', b', m') \<Rightarrow>
             if e \<noteq> ESB_SUCCESS then Inl (e, p', b', m')
             else Inr (wb_clear (msg_enter ES_PARSING_FIELD_VALUE ES_PARSING_FIELD_NAME p'),
                       readMark b', m'))
      else Inr (p, b, m))"

definition field_round ::
  "'a alloc_fn \<Rightarrow> ('m http_message_scheme \<Rightarrow> bool option) \<Rightarrow> ('a, 'p) message_parser_scheme
    \<Rightarrow> buffer \<Rightarrow> 'm http_message_scheme
    \<Rightarrow> ('a, 'p, 'm) message_result
       + ('a, 'p) message_parser_scheme \<times> buffer \<times> 'm http_message_scheme" where
  "field_round alloc isBodyNotAllowed p b m =
     (if has_flag (msgState p) ES_PARSING_FIELD_NAME then
        (if \<not> isReadable b then Inl (ESB_AGAIN, p, b, m)
         else if peekNext b = CR then
           let b1 = skipNext b in
           if \<not> isReadable b1 then Inl (ESB_AGAIN, p, setReadPosition b1 (rdPos b1 - 1), m)
           else if peekNext b1 \<noteq> LF then Inl (ES_HTTP_BAD_REQUEST_FIELD_NAME, p, b1, m)
           else Inl (headers_end isBodyNotAllowed p (skipNext b1) m)
         else if peekNext b = LF then Inl (headers_end isBodyNotAllowed p (skipNext b) m)
         else
           (case parseFieldName alloc p b m of
              (e, p', b', m') \<Rightarrow>
                if e \<noteq> ESB_SUCCESS then Inl (e, p', b', m')
                else value_round alloc
                       (wb_clear (msg_enter ES_PARSING_FIELD_NAME ES_PARSING_FIELD_VALUE p'))
                       (readMark b') m'))
      else value_round alloc p b m)"

function fields_loop ::
  "'a alloc_fn \<Rightarrow> ('m http_message_scheme \<Rightarrow> bool option) \<Rightarrow> ('a, 'p) message_parser_scheme
    \<Rightarrow> buffer \<Rightarrow> 'm http_message_scheme \<Rightarrow> ('a, 'p, 'm) message_result" where
  "fields_loop alloc isBodyNotAllowed p b m =
     (if \<not> has_flag (msgState p) (ES_PARSING_FIELD_NAME OR ES_PARSING_FIELD_VALUE)
      then (ESB_INVALID_STATE, p, b, m)
      else
        case field_round alloc isBodyNotAllowed p b m of
          Inl r \<Rightarrow> r
        | Inr (p', b', m') \<Rightarrow>
            if readable b' < readable b then fields_loop alloc isBodyNotAllowed p' b' m'
            else (UNDEFINED_BEHAVIOUR, p', b', m'))"
  by pat_completeness auto
termination
  by (relation "measure (\<lambda>(_, _, _, b, _). unat (readable b))") (auto simp: word_less_nat_alt)

declare fields_loop.simps [simp del]

text \<open>Empty lines before the start line.\<close>

function skip_empty_lines :: "buffer \<Rightarrow> buffer" where
  "skip_empty_lines b =
     (if \<not> isReadable b then b
      else if IsLWS (peekNext b) then skip_empty_lines (skipNext b)
      else b)"
  by pat_completeness auto
termination
  by (relation "measure (\<lambda>b. unat (readable b))") (auto simp: readable_skipNext_less)

declare skip_empty_lines.simps [simp del]

definition start_line_then_fields ::
  "'a alloc_fn
    \<Rightarrow> (('a, 'p) message_parser_scheme \<Rightarrow> buffer \<Rightarrow> 'm http_message_scheme \<Rightarrow> ('a, 'p, 'm) message_result)
    \<Rightarrow> ('m http_message_scheme \<Rightarrow> bool option) \<Rightarrow> ('a, 'p) message_parser_scheme
    \<Rightarrow> buffer \<Rightarrow> 'm http_message_scheme \<Rightarrow> ('a, 'p, 'm) message_result" where
  "start_line_then_fields alloc parseStartLine isBodyNotAllowed p b m =
     (if has_flag (msgState p) ES_PARSING_START_LINE then
        if_success (parseStartLine p b m)
          (\<lambda>p' b' m'. fields_loop alloc isBodyNotAllowed
             (wb_clear (msg_enter ES_PARSING_START_LINE ES_PARSING_FIELD_NAME p')) (readMark b') m')
      else fields_loop alloc isBodyNotAllowed p b m)"

definition parseHeaders ::
  "'a alloc_fn
    \<Rightarrow> (('a, 'p) message_parser_scheme \<Rightarrow> buffer \<Rightarrow> 'm http_message_scheme \<Rightarrow> ('a, 'p, 'm) message_result)
    \<Rightarrow> ('m http_message_scheme \<Rightarrow> bool option) \<Rightarrow> ('a, 'p) message_parser_scheme
    \<Rightarrow> buffer \<Rightarrow> 'm http_message_scheme \<Rightarrow> ('a, 'p, 'm) message_result" where
  "parseHeaders alloc parseStartLine isBodyNotAllowed p b m =
     (if has_flag (msgState p) ES_HEADER_PARSE_COMPLETE then (ESB_INVALID_STATE, p, b, m)
      else if msgState p = 0 then
        let b1 = skip_empty_lines b in
        if \<not> isReadable b1 then (ESB_AGAIN, p, b1, m)
        else start_line_then_fields alloc parseStartLine isBodyNotAllowed
               (wb_clear (p\<lparr>msgState := ES_PARSING_START_LINE\<rparr>)) (readMark b1) m
      else start_line_then_fields alloc parseStartLine isBodyNotAllowed p b m)"

section \<open>Version\<close>

definition parseVersion ::
  "buffer \<Rightarrow> 'm http_message_scheme \<Rightarrow> bool \<Rightarrow> error \<times> buffer \<times> 'm http_message_scheme" where
  "parseVersion b m clientMode =
     (let b1 = SkipSpaces b in
      if (if clientMode then 9 else 10) > readable b1 then (ESB_AGAIN, b1, m)
      else
        let finish = (\<lambda>b3 version.
          if clientMode then
            (case buf_next b3 of (c, b4) \<Rightarrow>
               if \<not> IsSpace c then (ES_HTTP_BAD_REQUEST_VERSION, b4, m)
               else (ESB_SUCCESS, b4, m\<lparr>httpVersion := version\<rparr>))
          else
            (case buf_next b3 of (c, b4) \<Rightarrow>
               if c = LF then (ESB_SUCCESS, b4, m\<lparr>httpVersion := version\<rparr>)
               else if c = CR then
                 (case buf_next b4 of (d, b5) \<Rightarrow>
                    if d \<noteq> LF then (ES_HTTP_BAD_REQUEST_VERSION, b5, m)
                    else (ESB_SUCCESS, b5, m\<lparr>httpVersion := version\<rparr>))
               else (ES_HTTP_BAD_REQUEST_VERSION, b4, m)))
        in
        case IsMatch b1 (asc ''HTTP/1.1'') of
          (True, b2) \<Rightarrow> finish (buf_skip b2 8) 110
        | (False, b2) \<Rightarrow>
            (case IsMatch b2 (asc ''HTTP/1.0'') of
               (True, b3) \<Rightarrow> finish (buf_skip b3 8) 100
             | (False, b3) \<Rightarrow> (ES_HTTP_BAD_REQUEST_VERSION, b3, m)))"

section \<open>Bodies\<close>

text \<open>
  \<open>parseBody\<close> answers through two pointers, the position and the size of the next piece of data
  (0: the body has ended); the model takes their old values and returns the new ones.
\<close>

type_synonym ('a, 'p) body_result =
  "error \<times> ('a, 'p) message_parser_scheme \<times> buffer \<times> u64 \<times> u64"

definition parseUnencodedBody ::
  "('a, 'p) message_parser_scheme \<Rightarrow> buffer \<Rightarrow> u64 \<Rightarrow> u64 \<Rightarrow> ('a, 'p) body_result" where
  "parseUnencodedBody p b start sz =
     (if has_flag (msgState p) ES_BODY_PARSE_COMPLETE then
        (ESB_SUCCESS,
         p\<lparr>msgState := msgState p AND NOT (ES_PARSING_UNENCODED_BODY OR ES_PARSING_BODY_UNTIL_CLOSE)\<rparr>,
         b, start, 0)
      else if \<not> isReadable b then (ESB_AGAIN, p, b, start, sz)
      else
        let bytesRemaining = ucast (min (bodyBytesRemaining p) (ucast (readable b))) :: u32 in
        (ESB_SUCCESS, p, b, ucast (rdPos b), ucast bytesRemaining))"

function parseChunkSize_loop ::
  "('a, 'p) message_parser_scheme \<Rightarrow> buffer \<Rightarrow> error \<times> ('a, 'p) message_parser_scheme \<times> buffer" where
  "parseChunkSize_loop p b =
     (if \<not> isReadable b then (ESB_AGAIN, p, b)
      else
        let (c, b') = buf_next b in
        if \<not> IsHex c then (ESB_SUCCESS, p, setReadPosition b' (rdPos b' - 1))
        else
          parseChunkSize_loop
            (p\<lparr>bodyBytesRemaining := bodyBytesRemaining p * 16
                 + (if IsUpAlpha c then ucast c - 65 + 10
                    else if IsLowAlpha c then ucast c - 97 + 10
                    else ucast c - 48)\<rparr>) b')"
  by pat_completeness auto
termination
  by (relation "measure (\<lambda>(_, b). unat (readable b))")
     (auto dest!: readable_next_less simp: prod_eq_iff)

declare parseChunkSize_loop.simps [simp del]

definition parseChunkSize ::
  "('a, 'p) message_parser_scheme \<Rightarrow> buffer \<Rightarrow> error \<times> ('a, 'p) message_parser_scheme \<times> buffer" where
  "parseChunkSize p b =
     parseChunkSize_loop p (if bodyBytesRemaining p = 0 then SkipSpaces b else b)"

definition parseChunkExtension :: "buffer \<Rightarrow> error \<times> buffer" where
  "parseChunkExtension b = (case SkipLine b of (e, _, b') \<Rightarrow> (e, b'))"

definition parseEndChunk :: "buffer \<Rightarrow> error \<times> buffer" where
  "parseEndChunk b = (case SkipLine b of (e, _, b') \<Rightarrow> (e, b'))"

definition parseChunkData ::
  "('a, 'p) message_parser_scheme \<Rightarrow> buffer \<Rightarrow> u64 \<Rightarrow> u64 \<Rightarrow> ('a, 'p) body_result" where
  "parseChunkData p b start sz =
     (if \<not> isReadable b then (ESB_AGAIN, p, b, start, sz)
      else (ESB_SUCCESS, p, b, ucast (rdPos b), min (bodyBytesRemaining p) (ucast (readable b))))"

definition chunk_data_step ::
  "('a, 'p) message_parser_scheme \<Rightarrow> buffer \<Rightarrow> u64 \<Rightarrow> u64 \<Rightarrow> ('a, 'p) body_result" where
  "chunk_data_step p b start sz =
     (if has_flag (msgState p) ES_PARSING_CHUNK_DATA then parseChunkData p b start sz
      else (ESB_INVALID_STATE, p, b, start, sz))"

definition chunk_extension_step ::
  "('a, 'p) message_parser_scheme \<Rightarrow> buffer \<Rightarrow> u64 \<Rightarrow> u64 \<Rightarrow> ('a, 'p) body_result" where
  "chunk_extension_step p b start sz =
     (if has_flag (msgState p) ES_PARSING_CHUNK_EXTENSION then
        (case parseChunkExtension b of
           (e, b1) \<Rightarrow>
             if e \<noteq> ESB_SUCCESS then (e, p, b1, start, sz)
             else
               let p1 = p\<lparr>msgState := msgState p AND NOT ES_PARSING_CHUNK_EXTENSION\<rparr>;
                   b2 = readMark b1 in
               if bodyBytesRemaining p1 = 0 then
                 (ESB_SUCCESS, p1\<lparr>msgState := msgState p1 OR ES_PARSING_TRAILER\<rparr>, b2, start, 0)
               else chunk_data_step (p1\<lparr>msgState := msgState p1 OR ES_PARSING_CHUNK_DATA\<rparr>) b2 start sz)
      else chunk_data_step p b start sz)"

definition chunk_size_step ::
  "('a, 'p) message_parser_scheme \<Rightarrow> buffer \<Rightarrow> u64 \<Rightarrow> u64 \<Rightarrow> ('a, 'p) body_result" where
  "chunk_size_step p b start sz =
     (if has_flag (msgState p) ES_PARSING_CHUNK_SIZE then
        (case parseChunkSize p b of
           (e, p1, b1) \<Rightarrow>
             if e \<noteq> ESB_SUCCESS then (e, p1, b1, start, sz)
             else chunk_extension_step
                    (msg_enter ES_PARSING_CHUNK_SIZE ES_PARSING_CHUNK_EXTENSION p1)
                    (readMark b1) start sz)
      else chunk_extension_step p b start sz)"

definition parseChunkedBody ::
  "('a, 'p) message_parser_scheme \<Rightarrow> buffer \<Rightarrow> u64 \<Rightarrow> u64 \<Rightarrow> ('a, 'p) body_result" where
  "parseChunkedBody p b start sz =
     (if has_flag (msgState p) ES_PARSING_END_CHUNK then
        (case parseEndChunk b of
           (e, b1) \<Rightarrow>
             if e \<noteq> ESB_SUCCESS then (e, p, b1, start, sz)
             else chunk_size_step (msg_enter ES_PARSING_END_CHUNK ES_PARSING_CHUNK_SIZE p)
                    (readMark b1) start sz)
      else chunk_size_step p b start sz)"

definition parseMultipartBody ::
  "('a, 'p) message_parser_scheme \<Rightarrow> buffer \<Rightarrow> u64 \<Rightarrow> u64 \<Rightarrow> ('a, 'p) body_result" where
  "parseMultipartBody p b start sz = (ESB_OPERATION_NOT_SUPPORTED, p, b, start, sz)"

definition parseBody ::
  "('a, 'p) message_parser_scheme \<Rightarrow> buffer \<Rightarrow> u64 \<Rightarrow> u64 \<Rightarrow> ('a, 'p) body_result" where
  "parseBody p b start sz =
     (if has_flag (msgState p) (ES_PARSING_UNENCODED_BODY OR ES_PARSING_BODY_UNTIL_CLOSE)
      then parseUnencodedBody p b start sz
      else if has_flag (msgState p) ES_PARSING_CHUNKED_BODY then parseChunkedBody p b start sz
      else if has_flag (msgState p) ES_PARSING_MULTIPART_BODY then parseMultipartBody p b start sz
      else (ESB_INVALID_STATE, p, b, start, sz))"

text \<open>
  \<open>consumeBody\<close>: the caller has taken \<open>n\<close> octets. \<open>skip\<close> has a \<open>UInt32\<close> parameter. The test
  \<open>!(ES_PARSING_CHUNK_DATA | _state)\<close> is the one of the source: it is never true.
\<close>

definition consumeBody ::
  "('a, 'p) message_parser_scheme \<Rightarrow> buffer \<Rightarrow> u64 \<Rightarrow> error \<times> ('a, 'p) message_parser_scheme \<times> buffer" where
  "consumeBody p b n =
     (if has_flag (msgState p) ES_PARSING_MULTIPART_BODY then (ESB_OPERATION_NOT_SUPPORTED, p, b)
      else if has_flag (msgState p) (ES_PARSING_UNENCODED_BODY OR ES_PARSING_BODY_UNTIL_CLOSE) then
        let b1 = buf_skip b (ucast n); p1 = p\<lparr>bodyBytesRemaining := bodyBytesRemaining p - n\<rparr> in
        if bodyBytesRemaining p1 = 0
        then (ESB_SUCCESS, p1\<lparr>msgState := msgState p1 OR ES_BODY_PARSE_COMPLETE\<rparr>, readMark b1)
        else (ESB_SUCCESS, p1, b1)
      else if ES_PARSING_CHUNK_DATA OR msgState p = 0 then (ESB_INVALID_STATE, p, b)
      else
        let b1 = buf_skip b (ucast n); p1 = p\<lparr>bodyBytesRemaining := bodyBytesRemaining p - n\<rparr> in
        if bodyBytesRemaining p1 = 0
        then (ESB_SUCCESS, msg_enter ES_PARSING_CHUNK_DATA ES_PARSING_END_CHUNK p1, readMark b1)
        else (ESB_SUCCESS, p1, b1))"

function skipTrailer_loop ::
  "('a, 'p) message_parser_scheme \<Rightarrow> buffer \<Rightarrow> error \<times> ('a, 'p) message_parser_scheme \<times> buffer" where
  "skipTrailer_loop p b =
     (case SkipLine b of
        (e, bytesSkipped, b') \<Rightarrow>
          if e \<noteq> ESB_SUCCESS then (e, p, b')
          else if bytesSkipped = 0 then
            (ESB_SUCCESS, msg_enter ES_PARSING_TRAILER ES_BODY_PARSE_COMPLETE p, readMark b')
          else if readable b' < readable b then skipTrailer_loop p b'
          else (UNDEFINED_BEHAVIOUR, p, b'))"
  by pat_completeness auto
termination
  by (relation "measure (\<lambda>(_, b). unat (readable b))") (auto simp: word_less_nat_alt)

declare skipTrailer_loop.simps [simp del]

definition skipTrailer ::
  "('a, 'p) message_parser_scheme \<Rightarrow> buffer \<Rightarrow> error \<times> ('a, 'p) message_parser_scheme \<times> buffer" where
  "skipTrailer p b =
     (if \<not> has_flag (msgState p) ES_PARSING_TRAILER then (ESB_SUCCESS, p, b) else skipTrailer_loop p b)"

end
