(* ===== verification/MessageIncremental.thy ===== *)
theory MessageIncremental
  imports MessageParser
begin

text \<open>
  \<open>parseHeaders\<close> is incremental for every start line parser that is (locale
  \<open>start_line_parser\<close>), with one exception: \<open>parseHeaders\<close> looks for the empty line again when
  it resumes within a field name, so octets that are a bad field name in one piece
  can be taken for the end of the headers when they arrive in two.
\<close>

section \<open>Working buffer and state updates\<close>

lemma msg_enter_simps [simp]:
  "msgState (msg_enter old new p) = transition (msgState p) old new"
  "workingBuffer (msg_enter old new p) = workingBuffer p"
  "allocator (msg_enter old new p) = allocator p"
  "bodyBytesRemaining (msg_enter old new p) = bodyBytesRemaining p"
  by (simp_all add: msg_enter_def)

lemma wb_state [simp]:
  "msgState (wb_put p c) = msgState p" "msgState (wb_clear p) = msgState p"
  "workingBuffer (wb_put p c) = putNext (workingBuffer p) c"
  "workingBuffer (wb_clear p) = buf_clear (workingBuffer p)"
  by (simp_all add: wb_put_def wb_clear_def)

lemma wb_dup_state:
  fixes p :: "('a, 'p) message_parser_scheme"
  assumes "wb_dup alloc p = (s, p')"
  shows "msgState p' = msgState p" "workingBuffer p' = workingBuffer p"
  using assms by (auto simp: wb_dup_def split: prod.splits)

lemma wb_fold_space_state [simp]:
  "msgState (wb_fold_space p) = msgState p" for p :: "('a, 'p) message_parser_scheme"
  by (simp add: wb_fold_space_def)

lemma wb_fold_space_inv [intro]: "buf_inv (workingBuffer p) \<Longrightarrow> buf_inv (workingBuffer (wb_fold_space p))"
  by (auto simp: wb_fold_space_def wb_put_def)

section \<open>Empty lines\<close>

lemma advances_skip_empty_lines: "buf_inv b \<Longrightarrow> advances b (skip_empty_lines b)"
proof (induction b rule: skip_empty_lines.induct)
  case (1 b)
  show ?case
  proof (cases "isReadable b \<and> IsLWS (peekNext b)")
    case True
    then obtain b' where b': "skipNext b = b'" "buf_inv b'" "advances b b'"
      using "1.prems" by (metis nextE)
    then have "advances b' (skip_empty_lines b')"
      using True "1.IH" by auto
    with b' True show ?thesis
      using advances_trans [of b b'] by (simp add: skip_empty_lines.simps [of b])
  next
    case False
    then have "skip_empty_lines b = b"
      by (auto simp: skip_empty_lines.simps [of b])
    then show ?thesis
      using "1.prems" by auto
  qed
qed

lemma skip_empty_lines_receive:
  "fits b bs \<Longrightarrow> skip_empty_lines (receive b bs) =
    (if isReadable (skip_empty_lines b) then receive (skip_empty_lines b) bs
     else skip_empty_lines (receive (skip_empty_lines b) bs))"
proof (induction b rule: measure_induct_rule [of "\<lambda>b. unat (readable b)"])
  case (less b)
  show ?case
  proof (cases "isReadable b")
    case True
    then obtain c b1 where b1: "buf_next b = (c, b1)" "peekNext b = c" "skipNext b = b1"
      "unat (readable b1) < unat (readable b)"
      using fits_inv [OF less.prems] by (metis nextE)
    have "fits b1 bs" using fits_read_ops(3) [OF less.prems] b1(1) by simp
    note IH = less.IH [OF b1(4) this]
    have "buf_next (receive b bs) = (c, receive b1 bs)"
      using buf_next_receive [OF less.prems True] b1(1) by simp
    then have r: "peekNext (receive b bs) = c" "skipNext (receive b bs) = receive b1 bs"
      by (simp_all add: peekNext_next skipNext_next)
    show ?thesis
      using True b1 r IH isReadable_receive [OF less.prems True]
      by (simp add: skip_empty_lines.simps [of b] skip_empty_lines.simps [of "receive b bs"])
  next
    case False
    then have "skip_empty_lines b = b"
      by (simp add: skip_empty_lines.simps [of b])
    with False show ?thesis by simp
  qed
qed

section \<open>Field names and values\<close>

definition field_ok ::
  "u32 \<Rightarrow> ('a, 'p) message_parser_scheme \<Rightarrow> buffer \<Rightarrow> 'm http_message_scheme \<Rightarrow> bool" where
  "field_ok st p b m \<longleftrightarrow> buf_inv b \<and> buf_inv (workingBuffer p) \<and> msgState p = st"

lemma resumes_id:
  assumes "e \<noteq> ESB_AGAIN" "buf_inv b" "e = ESB_SUCCESS \<Longrightarrow> ok p b m"
  shows "resumes_upto X (\<lambda>b. (e, p, b, m)) later ok b"
  using assms by (intro resumes_return [where g = "\<lambda>b. b"]) auto

text \<open>A string is saved: the result depends on the parser and the message only.\<close>

lemma save_field_name_state:
  assumes "save_field_name alloc p m = (e, p', m')"
  shows "e \<noteq> ESB_AGAIN" "msgState p' = msgState p" "workingBuffer p' = workingBuffer p"
  using assms by (auto simp: save_field_name_def dest: wb_dup_state
    split: prod.splits option.splits if_splits)

lemma save_field_value_state:
  assumes "save_field_value alloc p m = (e, p', m')"
  shows "e \<noteq> ESB_AGAIN" "msgState p' = msgState p" "workingBuffer p' = workingBuffer p"
  using assms by (auto simp: save_field_value_def dest: wb_dup_state
    split: prod.splits option.splits if_splits)

lemma resumes_save_name:
  assumes "field_ok st p b m"
  shows "resumes_upto X (\<lambda>b. case save_field_name alloc p m of (e, p', m') \<Rightarrow> (e, p', b, m'))
    later (field_ok st) b"
proof -
  obtain e p' m' where s: "save_field_name alloc p m = (e, p', m')"
    by (cases "save_field_name alloc p m")
  show ?thesis
    using assms save_field_name_state [OF s] unfolding s prod.case
    by (intro resumes_id) (auto simp: field_ok_def)
qed

lemma resumes_save_value:
  assumes "field_ok st p b m"
  shows "resumes_upto X (\<lambda>b. case save_field_value alloc p m of (e, p', m') \<Rightarrow> (e, p', b, m'))
    later (field_ok st) b"
proof -
  obtain e p' m' where s: "save_field_value alloc p m = (e, p', m')"
    by (cases "save_field_value alloc p m")
  show ?thesis
    using assms save_field_value_state [OF s] unfolding s prod.case
    by (intro resumes_id) (auto simp: field_ok_def)
qed

text \<open>A scan of white space that starts at the octet just read.\<close>

lemma SkipLWS_progress:
  assumes inv: "buf_inv b" and c: "buf_next b = (c, b1)" "isReadable b" "IsLWS c"
    and skip: "SkipLWS b = (e, b2)" "e \<noteq> ESB_AGAIN"
  shows "e = ESB_SUCCESS \<or> e = ESB_INPROGRESS" "advances b b2" "advances b1 b2" "buf_inv b2"
proof -
  have b1: "buf_inv b1" "advances b b1"
    using buf_next_inv [OF inv] advances_next [OF inv] c(1) by simp_all
  have loop: "SkipLWS b = SkipLWS_loop (rdPos b) (c = LF) b1"
    using c unfolding SkipLWS_eq SkipLWS_loop.simps [of "rdPos b" False b]
    by (auto simp: IsLWS_def)
  note adv = SkipLWS_loop_advances [OF b1 inv, of "c = LF" e b2]
  show "e = ESB_SUCCESS \<or> e = ESB_INPROGRESS" "advances b1 b2"
    using adv skip loop by auto
  then show "advances b b2" "buf_inv b2"
    using b1(2) advances_trans advances_inv [OF b1(1)] by blast+
qed

lemma resumes_lws:
  assumes r: "isReadable b" "buf_next b = (c, b1)" "buf_inv b1" "consumed b1 b"
      "setReadPosition b1 (rdPos b1 - 1) = b" "IsLWS c"
    and inv: "buf_inv b" and ok: "ok p b m"
    and F: "\<And>b'. F b' = (case SkipLWS (setReadPosition b' (rdPos b' - 1)) of (e, b2) \<Rightarrow>
        if e = ESB_SUCCESS then fin b2
        else if e = ESB_INPROGRESS then (if readable b2 \<le> readable b' then go b2 else jam b2)
        else (e, p, b2, m))"
    and later: "\<And>bs. fits b bs \<Longrightarrow> later p (receive b bs) m = F (receive b1 bs)"
    and fin: "\<And>b2. buf_inv b2 \<Longrightarrow> resumes_upto X fin later ok b2"
    and go: "\<And>b2. buf_inv b2 \<Longrightarrow> unat (readable b2) \<le> unat (readable b1) \<Longrightarrow> resumes_upto X go later ok b2"
  shows "resumes_upto X F later ok b1"
proof -
  obtain e b2 where skip: "SkipLWS b = (e, b2)"
    by (cases "SkipLWS b")
  have unget: "setReadPosition (receive b1 bs) (rdPos b1 - 1) = receive b bs" for bs
    using r(5) by (simp add: setReadPosition_receive)
  have fits: "fits b1 bs \<Longrightarrow> fits b bs" for bs
    using r(4) by (auto intro: consumed_fits)
  show ?thesis
  proof (cases "e = ESB_AGAIN")
    case True
    then have "b2 = b"
      using SkipLWS_cases [OF inv skip] by simp
    then show ?thesis
      using skip True r(5) by (intro resumes_again [where p = p and b' = b and m = m]) (simp_all add: F later fits ok r(4))
  next
    case False
    note pr = SkipLWS_progress [OF inv r(2,1,6) skip False]
    have cons: "consumed b1 b2"
      using r(4) advances_consumed [OF inv pr(2)] by (rule consumed_trans)
    have skip': "SkipLWS (receive b bs) = (e, receive b2 bs)" if "fits b1 bs" for bs
      using SkipLWS_receive [OF fits [OF that] skip False] .
    consider "e = ESB_SUCCESS" | "e = ESB_INPROGRESS" using pr(1) by blast
    then show ?thesis
    proof cases
      case 1
      show ?thesis
        by (rule resumes_step [OF _ cons fin [OF pr(4)]])
           (use 1 skip skip' r(5) unget in \<open>simp_all add: F\<close>)
    next
      case 2
      have le: "unat (readable b2) \<le> unat (readable b1)"
        using r(3) pr(3) by (rule advances_readable)
      have le': "readable (receive b2 bs) \<le> readable (receive b1 bs)" if "fits b1 bs" for bs
        using le readable_receive [OF that] readable_receive [OF consumed_fits [OF that cons]]
        by (simp add: word_le_nat_alt)
      show ?thesis
        by (rule resumes_step [OF _ cons go [OF pr(4) le]])
           (use 2 skip skip' r(5) unget le le' in \<open>simp_all add: F word_le_nat_alt\<close>)
    qed
  qed
qed

lemma parseFieldName_resumes:
  "field_ok st p b m \<Longrightarrow> resumes (\<lambda>b. parseFieldName alloc p b m) (parseFieldName alloc) (field_ok st) b"
proof (induction b arbitrary: p rule: measure_induct_rule [of "\<lambda>b. unat (readable b)"])
  case (less b)
  show ?case
  proof (rule resumes_read, rule parseFieldName.simps, rule refl)
    show "buf_inv b" "field_ok st p b m"
      using less.prems by (auto simp: field_ok_def)
  qed (intro resumes_if resumes_id resumes_save_name less.IH;
       use less.prems in \<open>auto simp: field_ok_def\<close>)
qed

lemma parseFieldValue_resumes:
  "field_ok st p b m \<Longrightarrow> resumes (\<lambda>b. parseFieldValue alloc p b m) (parseFieldValue alloc) (field_ok st) b"
proof (induction b arbitrary: p rule: measure_induct_rule [of "\<lambda>b. unat (readable b)"])
  case (less b)
  show ?case
  proof (rule resumes_read, rule parseFieldValue.simps, rule refl)
    show inv: "buf_inv b" and ok: "field_ok st p b m"
      using less.prems by (auto simp: field_ok_def)
    fix c b1
    assume b1: "isReadable b" "isWritable (workingBuffer p)" "buf_next b = (c, b1)" "buf_inv b1"
      "unat (readable b1) < unat (readable b)" "setReadPosition b1 (rdPos b1 - 1) = b" "consumed b1 b"
    define F where "F b' = (case SkipLWS (setReadPosition b' (rdPos b' - 1)) of (e, b2) \<Rightarrow>
        if e = ESB_SUCCESS then (case save_field_value alloc p m of (e, p', m') \<Rightarrow> (e, p', b2, m'))
        else if e = ESB_INPROGRESS then
          (if readable b2 \<le> readable b' then parseFieldValue alloc (wb_fold_space p) b2 m
           else (UNDEFINED_BEHAVIOUR, p, b2, m))
        else (e, p, b2, m))" for b'
    have "resumes F (parseFieldValue alloc) (field_ok st) b1" if "IsLWS c"
    proof (rule resumes_lws [where F = F and p = p and b = b and c = c and m = m and ok = "field_ok st"
          and fin = "\<lambda>b2. case save_field_value alloc p m of (e, p', m') \<Rightarrow> (e, p', b2, m')"
          and go = "\<lambda>b2. parseFieldValue alloc (wb_fold_space p) b2 m"
          and jam = "\<lambda>b2. (UNDEFINED_BEHAVIOUR, p, b2, m)"])
      show "parseFieldValue alloc p (receive b bs) m = F (receive b1 bs)" if "fits b bs" for bs
        using b1(1-3) \<open>IsLWS c\<close> that
        by (simp add: parseFieldValue.simps [of alloc p "receive b bs"] isReadable_receive buf_next_receive F_def)
      show "resumes (\<lambda>b2. parseFieldValue alloc (wb_fold_space p) b2 m)
          (parseFieldValue alloc) (field_ok st) b2"
        if "buf_inv b2" "unat (readable b2) \<le> unat (readable b1)" for b2
        by (rule less.IH) (use that less.prems b1(5) in \<open>auto simp: field_ok_def\<close>)
      show "resumes (\<lambda>b2. case save_field_value alloc p m of (e, p', m') \<Rightarrow> (e, p', b2, m'))
          (parseFieldValue alloc) (field_ok st) b2" if "buf_inv b2" for b2
        by (rule resumes_save_value) (use that less.prems in \<open>auto simp: field_ok_def\<close>)
    qed (use that b1 inv ok in \<open>simp_all add: F_def\<close>)
    then show "resumes (\<lambda>b'. if IsLWS c then
          (case SkipLWS (setReadPosition b' (rdPos b' - 1)) of
             (e, b2) \<Rightarrow>
               if e = ESB_SUCCESS then (case save_field_value alloc p m of (e, p', m') \<Rightarrow> (e, p', b2, m'))
               else if e = ESB_INPROGRESS then
                 (if readable b2 \<le> readable b' then parseFieldValue alloc (wb_fold_space p) b2 m
                  else (UNDEFINED_BEHAVIOUR, p, b2, m))
               else (e, p, b2, m))
        else if IsToken c then parseFieldValue alloc (wb_put p c) b' m
        else if IsSeparator c then parseFieldValue alloc (wb_put p c) b' m
        else if IsText c then parseFieldValue alloc (wb_put p c) b' m
        else (ES_HTTP_BAD_REQUEST_FIELD_VALUE, p, b', m)) (parseFieldValue alloc) (field_ok st) b1"
      unfolding F_def
      by (intro resumes_if resumes_id less.IH; use less.prems b1 in \<open>auto simp: field_ok_def\<close>)
  qed
qed

text \<open>Both consume input when they succeed, so the guards of the loops never stop a round.\<close>

lemma parseFieldName_progress:
  "buf_inv b \<Longrightarrow> parseFieldName alloc p b m = (ESB_SUCCESS, p', b', m') \<Longrightarrow>
    unat (readable b') < unat (readable b)"
proof (induction b arbitrary: p rule: measure_induct_rule [of "\<lambda>b. unat (readable b)"])
  case (less b)
  have r: "isReadable b"
    using less.prems by (auto simp: parseFieldName.simps [of _ _ b] split: if_splits)
  with less.prems obtain c b1 where b1: "buf_next b = (c, b1)" "buf_inv b1"
    "unat (readable b1) < unat (readable b)"
    by (metis nextE)
  show ?case
    using less.prems r b1 less.IH [OF b1(3,2)]
    by (fastforce simp: parseFieldName.simps [of _ _ b] split: if_splits prod.splits)
qed

lemma parseFieldValue_progress:
  "buf_inv b \<Longrightarrow> parseFieldValue alloc p b m = (ESB_SUCCESS, p', b', m') \<Longrightarrow>
    unat (readable b') < unat (readable b)"
proof (induction b arbitrary: p rule: measure_induct_rule [of "\<lambda>b. unat (readable b)"])
  case (less b)
  have r: "isReadable b"
    using less.prems by (auto simp: parseFieldValue.simps [of _ _ b] split: if_splits)
  with less.prems obtain c b1 where b1: "buf_next b = (c, b1)" "buf_inv b1"
    "unat (readable b1) < unat (readable b)" "setReadPosition b1 (rdPos b1 - 1) = b"
    by (metis nextE)
  obtain e b2 where skip: "SkipLWS b = (e, b2)"
    by (cases "SkipLWS b")
  have lws: "unat (readable b2) \<le> unat (readable b1)" "buf_inv b2" if "IsLWS c" "e \<noteq> ESB_AGAIN"
    using SkipLWS_progress(3,4) [OF less.prems(1) b1(1) r that(1) skip that(2)]
      advances_readable [OF b1(2)] by auto
  show ?case
  proof (cases "IsLWS c")
    case True
    have "parseFieldValue alloc p b m =
       (if \<not> isWritable (workingBuffer p) then (ESB_OVERFLOW, p, b, m)
        else if e = ESB_SUCCESS then (case save_field_value alloc p m of (e, p', m') \<Rightarrow> (e, p', b2, m'))
        else if e = ESB_INPROGRESS then
          (if readable b2 \<le> readable b1 then parseFieldValue alloc (wb_fold_space p) b2 m
           else (UNDEFINED_BEHAVIOUR, p, b2, m))
        else (e, p, b2, m))"
      using True r b1(1,4) skip by (simp add: parseFieldValue.simps [of _ _ b])
    then consider "e = ESB_SUCCESS" "b' = b2"
      | "e = ESB_INPROGRESS" "parseFieldValue alloc (wb_fold_space p) b2 m = (ESB_SUCCESS, p', b', m')"
      using less.prems(2) by (auto split: if_splits prod.splits)
    then show ?thesis
    proof cases
      case 1
      then show ?thesis using lws(1) [OF True] b1(3) by simp
    next
      case 2
      then show ?thesis
        using lws [OF True] b1(3) less.IH [of b2 "wb_fold_space p"] by simp
    qed
  next
    case False
    then show ?thesis
      using less.prems(2) r b1(1,3) less.IH [OF b1(3,2)]
      by (auto simp: parseFieldValue.simps [of _ _ b] split: if_splits intro: less_trans)
  qed
qed

section \<open>The header loop\<close>

definition stray_header_errors :: "error set" where
  "stray_header_errors = {ES_HTTP_BAD_REQUEST_FIELD_NAME, ESB_OVERFLOW}"

definition fields_ok :: "('a, 'p) message_parser_scheme \<Rightarrow> buffer \<Rightarrow> 'm http_message_scheme \<Rightarrow> bool" where
  "fields_ok p b m \<longleftrightarrow> buf_inv b \<and> buf_inv (workingBuffer p) \<and>
     (msgState p = ES_PARSING_FIELD_NAME \<or> msgState p = ES_PARSING_FIELD_VALUE
      \<or> has_flag (msgState p) ES_HEADER_PARSE_COMPLETE)"

lemma readable_readMark [simp]: "readable (readMark b) = readable b"
  by (simp add: readable_def readMark_def)

lemma has_flag_fields [simp]:
  "has_flag 2 2" "has_flag 4 4" "\<not> has_flag 4 2" "has_flag 2 6" "has_flag 4 6" "\<not> has_flag 2 8"
  "\<not> has_flag 4 8" "\<not> has_flag 2 1" "\<not> has_flag 4 1" "has_flag 1 1" "\<not> has_flag 1 8"
  by (simp_all add: has_flag_def)

lemma transition_fields [simp]: "transition 4 4 2 = 2" "transition 2 2 4 = 4" "transition 2 2 8 = 8"
  "transition 1 1 2 = 2"
  by (simp_all add: transition_def)

lemma fields_loop_value:
  assumes "buf_inv b" "msgState p = ES_PARSING_FIELD_VALUE" "buf_inv (workingBuffer p)"
  shows "fields_loop alloc bna p b m =
    if_success (parseFieldValue alloc p b m) (\<lambda>p' b' m'. fields_loop alloc bna
      (wb_clear (msg_enter ES_PARSING_FIELD_VALUE ES_PARSING_FIELD_NAME p')) (readMark b') m')"
proof -
  obtain e p' b' m' where v: "parseFieldValue alloc p b m = (e, p', b', m')"
    by (cases "parseFieldValue alloc p b m")
  with assms parseFieldValue_progress [OF assms(1), of alloc p m p' b' m'] show ?thesis
    by (simp add: fields_loop.simps [of _ _ p b] field_round_def value_round_def if_success_def
        word_less_nat_alt)
qed

lemma parseFieldName_state:
  assumes "buf_inv b" "buf_inv (workingBuffer p)" "parseFieldName alloc p b m = (e, p', b', m')"
    "e = ESB_AGAIN \<or> e = ESB_SUCCESS"
  shows "msgState p' = msgState p" "buf_inv b'" "buf_inv (workingBuffer p')"
  using parseFieldName_resumes [of "msgState p" p b m alloc] assms
  by (auto simp: resumes_upto_def field_ok_def)

lemma parseFieldValue_state:
  assumes "buf_inv b" "buf_inv (workingBuffer p)" "parseFieldValue alloc p b m = (e, p', b', m')"
    "e = ESB_AGAIN \<or> e = ESB_SUCCESS"
  shows "msgState p' = msgState p" "buf_inv b'" "buf_inv (workingBuffer p')"
  using parseFieldValue_resumes [of "msgState p" p b m alloc] assms
  by (auto simp: resumes_upto_def field_ok_def)

lemma fields_loop_name:
  assumes inv: "buf_inv b" "buf_inv (workingBuffer p)" and st: "msgState p = ES_PARSING_FIELD_NAME"
    and c: "isReadable b" "peekNext b \<noteq> CR" "peekNext b \<noteq> LF"
  shows "fields_loop alloc bna p b m =
    if_success (parseFieldName alloc p b m) (\<lambda>p' b' m'. fields_loop alloc bna
      (wb_clear (msg_enter ES_PARSING_FIELD_NAME ES_PARSING_FIELD_VALUE p')) (readMark b') m')"
proof -
  obtain e p1 b1 m1 where n: "parseFieldName alloc p b m = (e, p1, b1, m1)"
    by (cases "parseFieldName alloc p b m")
  show ?thesis
  proof (cases "e = ESB_SUCCESS")
    case True
    note s = parseFieldName_state [OF inv n] and pr = parseFieldName_progress [OF inv(1), of alloc p m p1 b1 m1]
    define p2 where "p2 = wb_clear (msg_enter ES_PARSING_FIELD_NAME ES_PARSING_FIELD_VALUE p1)"
    have p2: "msgState p2 = ES_PARSING_FIELD_VALUE" "buf_inv (workingBuffer p2)" "buf_inv (readMark b1)"
      using s True st by (auto simp: p2_def)
    obtain e2 p3 b3 m3 where v: "parseFieldValue alloc p2 (readMark b1) m1 = (e2, p3, b3, m3)"
      by (cases "parseFieldValue alloc p2 (readMark b1) m1")
    have "unat (readable b3) < unat (readable b1)" if "e2 = ESB_SUCCESS"
      using parseFieldValue_progress [OF p2(3), of alloc p2 m1 p3 b3 m3] v that by simp
    then show ?thesis
      using n True pr c st v p2
      by (auto simp: fields_loop.simps [of _ _ p b] fields_loop_value [OF p2(3,1,2)] field_round_def
          value_round_def if_success_def word_less_nat_alt simp flip: p2_def)
  next
    case False
    then show ?thesis
      using n c st by (simp add: fields_loop.simps [of _ _ p b] field_round_def if_success_def)
  qed
qed

text \<open>The end of the headers does not depend on the input.\<close>

lemma ParseInteger_loop_error: "fst (ParseInteger_loop s n) \<in> {ESB_SUCCESS, ES_HTTP_BAD_INTEGER}"
  by (induction s n rule: ParseInteger_loop.induct) auto

lemma scan_headers_error:
  "fst (scan_headers hs m len found multi chunked) \<in> {ESB_SUCCESS, ES_HTTP_BAD_CONTENT_LENGTH}"
proof (induction hs arbitrary: m len found multi chunked)
  case (Cons h hs)
  have pi: "e \<in> {ESB_SUCCESS, ES_HTTP_BAD_INTEGER}" if "ParseInteger (Some v) len = (e, n)" for v e n
    using that ParseInteger_loop_error [of v 0] by (simp add: ParseInteger_def)
  show ?case
    using Cons.IH by (auto split: option.splits prod.splits dest: pi)
qed simp

lemma postParse_state:
  assumes "postParse bna p m = (e, p', m')"
  shows "e \<noteq> ESB_AGAIN" "workingBuffer p' = workingBuffer p"
    "has_flag (msgState p) k \<Longrightarrow> has_flag (msgState p') k"
proof -
  obtain e1 m1 x where s: "scan_headers (headers (setSend100Continue (setReuseConnection m (version_at_least_1_1 m)) False))
      (setSend100Continue (setReuseConnection m (version_at_least_1_1 m)) False) 0 False False False = (e1, m1, x)"
    using prod_cases3 by blast
  then have "e1 \<noteq> ESB_AGAIN"
    by (metis scan_headers_error fst_conv empty_iff error.distinct insert_iff)
  then show "e \<noteq> ESB_AGAIN" "workingBuffer p' = workingBuffer p"
    "has_flag (msgState p) k \<Longrightarrow> has_flag (msgState p') k"
    using assms by (auto simp: postParse_def Let_def s has_flag_or split: prod.splits if_splits option.splits bool.splits)
qed

definition headers_ok ::
  "(('a, 'p) message_parser_scheme \<Rightarrow> bool)
    \<Rightarrow> (('a, 'p) message_parser_scheme \<Rightarrow> buffer \<Rightarrow> 'm http_message_scheme \<Rightarrow> bool)
    \<Rightarrow> ('a, 'p) message_parser_scheme \<Rightarrow> buffer \<Rightarrow> 'm http_message_scheme \<Rightarrow> bool" where
  "headers_ok fresh sl_ok p b m \<longleftrightarrow> buf_inv b \<and> buf_inv (workingBuffer p) \<and>
     (msgState p = 0 \<and> fresh p \<or> msgState p = ES_PARSING_START_LINE \<and> sl_ok p b m
      \<or> msgState p = ES_PARSING_FIELD_NAME \<or> msgState p = ES_PARSING_FIELD_VALUE
      \<or> has_flag (msgState p) ES_HEADER_PARSE_COMPLETE)"

lemma headers_end_resumes:
  assumes "buf_inv b" "buf_inv (workingBuffer p)" "msgState p = ES_PARSING_FIELD_NAME"
  shows "resumes_upto X (\<lambda>b. headers_end bna p b m) later (headers_ok fresh sl_ok) b"
proof -
  obtain e p' m' where pp: "postParse bna (wb_clear (msg_enter ES_PARSING_FIELD_NAME
      ES_HEADER_PARSE_COMPLETE p)) m = (e, p', m')"
    by (cases "postParse bna (wb_clear (msg_enter ES_PARSING_FIELD_NAME ES_HEADER_PARSE_COMPLETE p)) m")
  have "has_flag 8 8" by (simp add: has_flag_def)
  then show ?thesis
    using postParse_state(1,2) [OF pp] postParse_state(3) [OF pp, of 8] assms
    unfolding headers_end_def pp prod.case
    by (intro resumes_return [where g = readMark])
       (auto simp: headers_ok_def consumed_mark readMark_receive)
qed

lemma parseHeaders_fields:
  "msgState p = 2 \<or> msgState p = 4 \<Longrightarrow> parseHeaders alloc sl bna p b m = fields_loop alloc bna p b m"
  by (auto simp: parseHeaders_def start_line_then_fields_def)

text \<open>Where a field name was interrupted, the loop goes on with it unless a line end comes next.\<close>

lemma resume_in_name:
  assumes inv: "buf_inv b" "buf_inv (workingBuffer p)" and st: "msgState p = ES_PARSING_FIELD_NAME"
    and no: "fst (if_success (parseFieldName alloc p b m) (\<lambda>p' b' m'. fields_loop alloc bna
      (wb_clear (msg_enter ES_PARSING_FIELD_NAME ES_PARSING_FIELD_VALUE p')) (readMark b') m'))
      \<notin> stray_header_errors"
  shows "parseHeaders alloc sl bna p b m =
    if_success (parseFieldName alloc p b m) (\<lambda>p' b' m'. fields_loop alloc bna
      (wb_clear (msg_enter ES_PARSING_FIELD_NAME ES_PARSING_FIELD_VALUE p')) (readMark b') m')"
proof (cases "isReadable b")
  case False
  then show ?thesis
    using st by (simp add: parseHeaders_fields fields_loop.simps [of _ _ p b] field_round_def
        parseFieldName.simps [of _ _ b] if_success_def)
next
  case True
  have "\<not> IsToken CR" "\<not> IsToken LF"
    by (simp_all add: http_class)
  then have "peekNext b \<noteq> CR \<and> peekNext b \<noteq> LF"
    using no True by (auto simp: parseFieldName.simps [of _ _ b] peekNext_next if_success_def
        stray_header_errors_def split: prod.splits if_splits)
  then show ?thesis
    using st True by (simp add: parseHeaders_fields fields_loop_name [OF inv st])
qed

lemma fields_resumes:
  fixes p :: "('a, 'p) message_parser_scheme"
  shows "buf_inv b \<Longrightarrow> buf_inv (workingBuffer p) \<Longrightarrow>
    msgState p = ES_PARSING_FIELD_NAME \<or> msgState p = ES_PARSING_FIELD_VALUE \<Longrightarrow>
    resumes_upto stray_header_errors (\<lambda>b. fields_loop alloc bna p b m)
      (parseHeaders alloc sl bna) (headers_ok fresh sl_ok) b"
proof (induction b arbitrary: p m rule: measure_induct_rule [of "\<lambda>b. unat (readable b)"])
  case (less b)
  have noX: "ESB_SUCCESS \<notin> stray_header_errors"
    by (simp add: stray_header_errors_def)
  have value_step: "resumes_upto stray_header_errors (\<lambda>b. fields_loop alloc bna p b m)
      (parseHeaders alloc sl bna) (headers_ok fresh sl_ok) b"
    if inv: "buf_inv b" "buf_inv (workingBuffer p)" and st: "msgState p = ES_PARSING_FIELD_VALUE"
      and IH: "\<And>c p m. unat (readable c) < unat (readable b) \<Longrightarrow> buf_inv c \<Longrightarrow> buf_inv (workingBuffer p) \<Longrightarrow>
        msgState p = ES_PARSING_FIELD_NAME \<Longrightarrow>
        resumes_upto stray_header_errors (\<lambda>b. fields_loop alloc bna p b m)
          (parseHeaders alloc sl bna) (headers_ok fresh sl_ok) c" for p b m
  proof (rule resumes_cong [OF inv(1)])
    show "fields_loop alloc bna p (receive b bs) m =
      if_success (parseFieldValue alloc p (receive b bs) m) (\<lambda>p' b' m'. fields_loop alloc bna
        (wb_clear (msg_enter ES_PARSING_FIELD_VALUE ES_PARSING_FIELD_NAME p')) (readMark b') m')"
      if "fits b bs" for bs
      using receive_inv [OF that] st inv(2) by (rule fields_loop_value)
    have ok: "field_ok 4 p b m"
      using inv st by (simp add: field_ok_def)
    show "resumes_upto stray_header_errors (\<lambda>b. if_success (parseFieldValue alloc p b m)
        (\<lambda>p' b' m'. fields_loop alloc bna
        (wb_clear (msg_enter ES_PARSING_FIELD_VALUE ES_PARSING_FIELD_NAME p')) (readMark b') m'))
      (parseHeaders alloc sl bna) (headers_ok fresh sl_ok) b"
    proof (rule resumes_bind [OF resumes_mono [OF parseFieldValue_resumes [OF ok] empty_subsetI] noX])
      fix p1 b1 m1
      assume ok1: "field_ok 4 p1 b1 m1" and "consumed b b1"
        and v: "parseFieldValue alloc p b m = (ESB_SUCCESS, p1, b1, m1)"
      have "unat (readable b1) < unat (readable b)"
        using inv(1) v by (rule parseFieldValue_progress)
      with ok1 show "resumes_upto stray_header_errors (\<lambda>b. fields_loop alloc bna
        (wb_clear (msg_enter ES_PARSING_FIELD_VALUE ES_PARSING_FIELD_NAME p1)) (readMark b) m1)
        (parseHeaders alloc sl bna) (headers_ok fresh sl_ok) b1"
        by (intro resumes_call [where g = readMark] IH)
           (auto simp: field_ok_def readMark_receive consumed_mark)
    next
      fix p1 b1 m1
      assume ok1: "field_ok 4 p1 b1 m1" and "parseFieldValue alloc p b m = (ESB_AGAIN, p1, b1, m1)"
      from ok1 show "headers_ok fresh sl_ok p1 b1 m1 \<and> (\<forall>bs. fits b1 bs \<longrightarrow>
        parseHeaders alloc sl bna p1 (receive b1 bs) m1 =
          if_success (parseFieldValue alloc p1 (receive b1 bs) m1) (\<lambda>p' b' m'. fields_loop alloc bna
            (wb_clear (msg_enter ES_PARSING_FIELD_VALUE ES_PARSING_FIELD_NAME p')) (readMark b') m') \<or>
        fst (if_success (parseFieldValue alloc p1 (receive b1 bs) m1) (\<lambda>p' b' m'. fields_loop alloc bna
            (wb_clear (msg_enter ES_PARSING_FIELD_VALUE ES_PARSING_FIELD_NAME p')) (readMark b') m'))
          \<in> stray_header_errors)"
        by (auto simp: field_ok_def headers_ok_def parseHeaders_fields intro!: fields_loop_value receive_inv)
    qed
  qed
  show ?case
  proof (cases "msgState p = ES_PARSING_FIELD_VALUE")
    case True
    then show ?thesis
      by (rule value_step [OF less.prems(1,2)]) (rule less.IH, assumption+, rule disjI1)
  next
    case False
    then have st: "msgState p = ES_PARSING_FIELD_NAME"
      using less.prems(3) by simp
    note inv = less.prems(1,2)
    have loop: "fields_loop alloc bna p b' m = (case field_round alloc bna p b' m of
          Inl r \<Rightarrow> r
        | Inr (p1, b1, m1) \<Rightarrow>
            if readable b1 < readable b' then fields_loop alloc bna p1 b1 m1
            else (UNDEFINED_BEHAVIOUR, p1, b1, m1))" for b'
      using st by (simp add: fields_loop.simps [of _ _ p b'])
    have ok: "headers_ok fresh sl_ok p b m"
      using inv st by (simp add: headers_ok_def)
    have wait: "resumes_upto stray_header_errors (\<lambda>b. fields_loop alloc bna p b m)
        (parseHeaders alloc sl bna) (headers_ok fresh sl_ok) b"
      if "fields_loop alloc bna p b m = (ESB_AGAIN, p, b, m)"
    proof (rule resumes_again [where now = "\<lambda>b. fields_loop alloc bna p b m" and p = p and b' = b and m = m])
      show "fields_loop alloc bna p b m = (ESB_AGAIN, p, b, m)" "headers_ok fresh sl_ok p b m" "consumed b b"
        using that ok inv(1) by auto
      fix bs
      have "parseHeaders alloc sl bna p (receive b bs) m = fields_loop alloc bna p (receive b bs) m"
        using st by (intro parseHeaders_fields) simp
      then show "fields_loop alloc bna p (receive b bs) m = parseHeaders alloc sl bna p (receive b bs) m \<or>
          fst (fields_loop alloc bna p (receive b bs) m) \<in> stray_header_errors" by simp
    qed
    show ?thesis
    proof (cases "isReadable b")
      case False
      then show ?thesis
        using st by (intro wait) (simp add: loop field_round_def)
    next
      case rd: True
      then obtain c b1 where r: "buf_next b = (c, b1)" "peekNext b = c" "skipNext b = b1" "buf_inv b1"
        "consumed b b1" "setReadPosition b1 (rdPos b1 - 1) = b"
        "\<And>bs. fits b bs \<Longrightarrow> isReadable (receive b bs)"
        "\<And>bs. fits b bs \<Longrightarrow> buf_next (receive b bs) = (c, receive b1 bs)"
        using inv(1) by (metis readE)
      have pk: "peekNext (receive b bs) = c" "skipNext (receive b bs) = receive b1 bs" if "fits b bs" for bs
        using r(8) [OF that] by (simp_all add: peekNext_next skipNext_next)
      note head = headers_end_resumes [OF _ inv(2) st, of _ stray_header_errors bna m
          "parseHeaders alloc sl bna" fresh sl_ok]
      consider "c = CR" | "c = LF" | "c \<noteq> CR" "c \<noteq> LF" by blast
      then show ?thesis
      proof cases
        case 1
        show ?thesis
        proof (cases "isReadable b1")
          case False
          then show ?thesis
            using st rd 1 r(2,3,6) by (intro wait) (simp add: loop field_round_def)
        next
          case rd1: True
          then obtain c2 b2 where r2: "peekNext b1 = c2" "skipNext b1 = b2" "buf_inv b2"
            "consumed b1 b2" "\<And>bs. fits b1 bs \<Longrightarrow> isReadable (receive b1 bs)"
            "\<And>bs. fits b1 bs \<Longrightarrow> buf_next (receive b1 bs) = (c2, receive b2 bs)"
            using r(4) by (metis readE)
          have pk2: "peekNext (receive b1 bs) = c2" "skipNext (receive b1 bs) = receive b2 bs"
            "isReadable (receive b1 bs)" if "fits b bs" for bs
            using r2(5,6) [OF consumed_fits [OF that r(5)]] by (simp_all add: peekNext_next skipNext_next)
          show ?thesis
          proof (cases "c2 = LF")
            case True
            show ?thesis
              by (rule resumes_step [OF _ consumed_trans [OF r(5) r2(4)] head [OF r2(3)]])
                 (use st rd 1 True rd1 r(2,3,7) r2(1,2) pk pk2 in \<open>simp_all add: loop field_round_def\<close>)
          next
            case False
            show ?thesis
              by (rule resumes_done [where p = p and b' = b1 and m = m and e = ES_HTTP_BAD_REQUEST_FIELD_NAME])
                 (use st rd 1 False rd1 r(2,3,5,7) r2(1) pk pk2 in \<open>simp_all add: loop field_round_def\<close>)
          qed
        qed
      next
        case 2
        show ?thesis
          by (rule resumes_step [OF _ r(5) head [OF r(4)]])
             (use st rd 2 r(2,3,7) pk in \<open>simp_all add: loop field_round_def\<close>)
      next
        case 3
        define k where "k p' b' m' = fields_loop alloc bna
          (wb_clear (msg_enter ES_PARSING_FIELD_NAME ES_PARSING_FIELD_VALUE p')) (readMark b') m'"
          for p' :: "('a, 'p) message_parser_scheme" and b' m'
        have name: "fields_loop alloc bna p b' m = if_success (parseFieldName alloc p b' m) k"
          if "buf_inv b'" "isReadable b'" "peekNext b' = c" for b'
          using fields_loop_name [OF that(1) inv(2) st that(2), of alloc bna m] that(3) 3
          by (simp add: k_def [abs_def])
        have okn: "field_ok 2 p b m"
          using inv st by (simp add: field_ok_def)
        show ?thesis
        proof (rule resumes_cong [OF inv(1)])
          show "fields_loop alloc bna p (receive b bs) m = if_success (parseFieldName alloc p (receive b bs) m) k"
            if "fits b bs" for bs
            using receive_inv [OF that] r(7) [OF that] pk(1) [OF that] by (rule name)
          show "resumes_upto stray_header_errors (\<lambda>b. if_success (parseFieldName alloc p b m) k)
            (parseHeaders alloc sl bna) (headers_ok fresh sl_ok) b"
          proof (rule resumes_bind [OF resumes_mono [OF parseFieldName_resumes [OF okn] empty_subsetI] noX])
            fix p1 b2 m1
            assume ok1: "field_ok 2 p1 b2 m1"
              and n: "parseFieldName alloc p b m = (ESB_SUCCESS, p1, b2, m1)"
            have "unat (readable b2) < unat (readable b)"
              using inv(1) n by (rule parseFieldName_progress)
            with ok1 show "resumes_upto stray_header_errors (\<lambda>b. k p1 b m1)
              (parseHeaders alloc sl bna) (headers_ok fresh sl_ok) b2"
              unfolding k_def
              by (intro resumes_call [where g = readMark] less.IH)
                 (auto simp: field_ok_def readMark_receive consumed_mark)
          next
            fix p1 b2 m1
            assume ok1: "field_ok 2 p1 b2 m1" and "parseFieldName alloc p b m = (ESB_AGAIN, p1, b2, m1)"
            from ok1 show "headers_ok fresh sl_ok p1 b2 m1 \<and> (\<forall>bs. fits b2 bs \<longrightarrow>
              parseHeaders alloc sl bna p1 (receive b2 bs) m1 =
                if_success (parseFieldName alloc p1 (receive b2 bs) m1) k \<or>
              fst (if_success (parseFieldName alloc p1 (receive b2 bs) m1) k) \<in> stray_header_errors)"
              unfolding k_def [abs_def]
              by (auto simp: field_ok_def headers_ok_def intro: resume_in_name receive_inv)
          qed
        qed
      qed
    qed
  qed
qed

section \<open>The interface to the start line\<close>

text \<open>
  What \<open>parseHeaders\<close> relies on: the virtual \<open>parseStartLine\<close> is incremental, leaves the state
  of the message parser alone, and can start from a parser that is \<open>fresh\<close> (as \<open>reset\<close> leaves it).
\<close>

locale start_line_parser =
  incremental_parser parseStartLine sl_ok "{}"
  for parseStartLine :: "('a, 'p) message_parser_scheme \<Rightarrow> buffer \<Rightarrow> 'm http_message_scheme
      \<Rightarrow> ('a, 'p, 'm) message_result"
    and sl_ok :: "('a, 'p) message_parser_scheme \<Rightarrow> buffer \<Rightarrow> 'm http_message_scheme \<Rightarrow> bool" +
  fixes fresh :: "('a, 'p) message_parser_scheme \<Rightarrow> bool"
  assumes sl_wb: "sl_ok p b m \<Longrightarrow> buf_inv (workingBuffer p)"
    and sl_state: "parseStartLine p b m = (e, p', b', m') \<Longrightarrow> msgState p' = msgState p"
    and fresh_ok: "fresh p \<Longrightarrow> buf_inv (workingBuffer p) \<Longrightarrow> buf_inv b \<Longrightarrow>
      sl_ok (wb_clear (p\<lparr>msgState := ES_PARSING_START_LINE\<rparr>)) (readMark b) m"
begin

lemma start_line_resumes:
  assumes ok: "sl_ok p b m" and st: "msgState p = ES_PARSING_START_LINE"
  shows "resumes_upto stray_header_errors
    (\<lambda>b. parseHeaders alloc parseStartLine bna p b m)
    (parseHeaders alloc parseStartLine bna) (headers_ok fresh sl_ok) b"
proof -
  define k where "k p' b' m' = fields_loop alloc bna
      (wb_clear (msg_enter ES_PARSING_START_LINE ES_PARSING_FIELD_NAME p')) (readMark b') m'"
    for p' :: "('a, 'p) message_parser_scheme" and b' and m' :: "'m http_message_scheme"
  have headers: "parseHeaders alloc parseStartLine bna p' b' m' = if_success (parseStartLine p' b' m') k"
    if "msgState p' = ES_PARSING_START_LINE" for p' b' m'
    using that by (simp add: parseHeaders_def start_line_then_fields_def k_def [abs_def])
  have "resumes_upto stray_header_errors (\<lambda>b. if_success (parseStartLine p b m) k)
    (parseHeaders alloc parseStartLine bna) (headers_ok fresh sl_ok) b"
  proof (rule resumes_bind [OF resumes_mono [OF step_resumes [OF ok] empty_subsetI]])
    show "ESB_SUCCESS \<notin> stray_header_errors" by (simp add: stray_header_errors_def)
    fix p1 b1 m1
    assume ok1: "sl_ok p1 b1 m1" and s: "parseStartLine p b m = (ESB_AGAIN, p1, b1, m1)"
    show "headers_ok fresh sl_ok p1 b1 m1 \<and> (\<forall>bs. fits b1 bs \<longrightarrow>
        parseHeaders alloc parseStartLine bna p1 (receive b1 bs) m1 =
          if_success (parseStartLine p1 (receive b1 bs) m1) k \<or>
        fst (if_success (parseStartLine p1 (receive b1 bs) m1) k) \<in> stray_header_errors)"
      using ok1 ok_inv [OF ok1] sl_wb [OF ok1] sl_state [OF s] st
      by (simp add: headers headers_ok_def)
  next
    fix p1 b1 m1
    assume ok1: "sl_ok p1 b1 m1" and s: "parseStartLine p b m = (ESB_SUCCESS, p1, b1, m1)"
    show "resumes_upto stray_header_errors (\<lambda>b. k p1 b m1)
        (parseHeaders alloc parseStartLine bna) (headers_ok fresh sl_ok) b1"
      unfolding k_def
      using ok_inv [OF ok1] sl_wb [OF ok1] sl_state [OF s] st
      by (intro resumes_call [where g = readMark] fields_resumes) (auto simp: readMark_receive consumed_mark)
  qed
  then show ?thesis
    by (simp add: headers [OF st])
qed

lemma parseHeaders_resumes:
  assumes ok: "headers_ok fresh sl_ok p b m"
  shows "resumes_upto stray_header_errors
    (\<lambda>b. parseHeaders alloc parseStartLine bna p b m)
    (parseHeaders alloc parseStartLine bna) (headers_ok fresh sl_ok) b"
proof -
  have inv: "buf_inv b" "buf_inv (workingBuffer p)"
    using ok by (auto simp: headers_ok_def)
  consider "has_flag (msgState p) 8" | "msgState p = 1" "sl_ok p b m" | "msgState p = 2 \<or> msgState p = 4"
    | "msgState p = 0" "fresh p"
    using ok by (auto simp: headers_ok_def)
  then show ?thesis
  proof cases
    case 1
    then show ?thesis
      using inv(1) by (auto simp: parseHeaders_def intro!: resumes_id)
  next
    case 2
    then show ?thesis by (intro start_line_resumes)
  next
    case 3
    then show ?thesis
      using fields_resumes [OF inv 3, of alloc bna m] by (simp add: parseHeaders_fields)
  next
    case 4
    note st = 4(1)
    define p1 where "p1 = wb_clear (p\<lparr>msgState := ES_PARSING_START_LINE\<rparr>)"
    have headers: "parseHeaders alloc parseStartLine bna p c m =
        (let c1 = skip_empty_lines c in
         if \<not> isReadable c1 then (ESB_AGAIN, p, c1, m)
         else parseHeaders alloc parseStartLine bna p1 (readMark c1) m)" for c
      using st by (simp add: parseHeaders_def p1_def Let_def)
    define b1 where "b1 = skip_empty_lines b"
    have cons: "consumed b b1"
      unfolding b1_def using inv(1) advances_skip_empty_lines [OF inv(1)] by (rule advances_consumed)
    have inv1: "buf_inv b1"
      using inv(1) cons by (rule consumed_inv)
    show ?thesis
    proof (cases "isReadable b1")
      case False
      show ?thesis
      proof (rule resumes_again [where p = p and b' = b1 and m = m])
        show "parseHeaders alloc parseStartLine bna p b m = (ESB_AGAIN, p, b1, m)"
          using False by (simp add: headers flip: b1_def)
        show "headers_ok fresh sl_ok p b1 m"
          using 4 inv(2) inv1 by (simp add: headers_ok_def)
        show "consumed b b1" by (rule cons)
        fix bs assume "fits b bs"
        then have "skip_empty_lines (receive b bs) = skip_empty_lines (receive b1 bs)"
          using False by (simp add: skip_empty_lines_receive b1_def)
        then show "parseHeaders alloc parseStartLine bna p (receive b bs) m =
            parseHeaders alloc parseStartLine bna p (receive b1 bs) m \<or>
          fst (parseHeaders alloc parseStartLine bna p (receive b bs) m) \<in> stray_header_errors"
          by (simp add: headers)
      qed
    next
      case True
      have ok1: "sl_ok p1 (readMark b1) m"
        unfolding p1_def using 4(2) inv(2) inv1 by (rule fresh_ok)
      show ?thesis
      proof (rule resumes_step [where ?b1.0 = "readMark b1" and
            nxt = "\<lambda>b. parseHeaders alloc parseStartLine bna p1 b m"])
        show "resumes_upto stray_header_errors (\<lambda>b. parseHeaders alloc parseStartLine bna p1 b m)
          (parseHeaders alloc parseStartLine bna) (headers_ok fresh sl_ok) (readMark b1)"
          using ok1 by (rule start_line_resumes) (simp add: p1_def)
        show "consumed b (readMark b1)"
          using cons by (rule consumed_readMark)
        show "parseHeaders alloc parseStartLine bna p b m =
            parseHeaders alloc parseStartLine bna p1 (readMark b1) m"
          using True by (simp add: headers flip: b1_def)
        fix bs assume fits: "fits b bs"
        have "fits b1 bs" using fits cons by (rule consumed_fits)
        then show "parseHeaders alloc parseStartLine bna p (receive b bs) m =
            parseHeaders alloc parseStartLine bna p1 (receive (readMark b1) bs) m"
          using True fits
          by (simp add: headers skip_empty_lines_receive isReadable_receive readMark_receive flip: b1_def)
      qed
    qed
  qed
qed

text \<open>The headers do not depend on how the network cuts them.\<close>

lemma headers_stream: "incremental_parser (parseHeaders alloc parseStartLine bna) (headers_ok fresh sl_ok)
    stray_header_errors"
proof
  show "headers_ok fresh sl_ok p b m \<Longrightarrow> buf_inv b" for p b m
    by (simp add: headers_ok_def)
  show "headers_ok fresh sl_ok p b m \<Longrightarrow> fits b bs \<Longrightarrow> headers_ok fresh sl_ok p (receive b bs) m"
    for p b m bs
    using ok_receive by (auto simp: headers_ok_def receive_inv)
  show "headers_ok fresh sl_ok p b m \<Longrightarrow>
    resumes_upto stray_header_errors (\<lambda>b. parseHeaders alloc parseStartLine bna p b m)
      (parseHeaders alloc parseStartLine bna) (headers_ok fresh sl_ok) b" for p b m
    by (rule parseHeaders_resumes)
qed

end

section \<open>Version\<close>

lemma IsMatch_loop_unread:
  "buf_inv b \<Longrightarrow> length ps \<le> length (unread b) \<Longrightarrow> IsMatch_loop b ps \<longleftrightarrow> take (length ps) (unread b) = ps"
proof (induction ps arbitrary: b)
  case (Cons p ps)
  have "isReadable b"
    using Cons.prems by (auto simp: isReadable_unread)
  with Cons.prems(1) obtain c b1 where b1: "buf_next b = (c, b1)" "unread b = c # unread b1" "buf_inv b1"
    by (rule unread_nextE)
  then show ?case
    using Cons.IH [OF b1(3)] Cons.prems(2) by auto
qed simp

lemma IsMatch_eq: "buf_inv b \<Longrightarrow> IsMatch b ps = (IsMatch_loop b ps, b)"
  using buf_invD(2,3) [of b] by (auto simp: IsMatch_def setReadPosition_def)

lemma buf_skip_within:
  assumes "buf_inv b" "unat n \<le> unat (readable b)"
  shows "advances b (buf_skip b n)" "unat (rdPos (buf_skip b n)) = unat (rdPos b) + unat n"
    "unread (buf_skip b n) = drop (unat n) (unread b)" "buf_inv (buf_skip b n)"
    "fits b bs \<Longrightarrow> buf_skip (receive b bs) n = receive (buf_skip b n) bs"
proof -
  have sum: "unat (rdPos b) + unat n \<le> unat (wrPos b)"
    using assms buf_invD(6) [OF assms(1)] by (simp add: unat_readable)
  also have "unat (wrPos b) < 2 ^ 32"
    using unsigned_less [of "wrPos b"] by simp
  finally have pos: "unat (rdPos b + n) = unat (rdPos b) + unat n"
    by (simp add: unat_word_ariths)
  then have skip: "buf_skip b n = b\<lparr>rdPos := rdPos b + n\<rparr>"
    using sum by (simp add: buf_skip_def word_less_nat_alt)
  show adv: "advances b (buf_skip b n)"
    using pos sum unfolding skip advances_def by (simp add: word_le_nat_alt)
  show p: "unat (rdPos (buf_skip b n)) = unat (rdPos b) + unat n"
    using pos by (simp add: skip)
  show "unread (buf_skip b n) = drop (unat n) (unread b)"
    using advances_unread [OF assms(1) adv] pos by (simp add: skip)
  show "buf_inv (buf_skip b n)"
    using assms(1) adv by (rule advances_inv)
  assume fits: "fits b bs"
  have "\<not> wrPos (receive b bs) < rdPos b + n"
    using unat_wrPos_receive(2) [OF fits] pos sum by (simp add: word_less_nat_alt)
  then show "buf_skip (receive b bs) n = receive (buf_skip b n) bs"
    by (simp add: skip receive_update_read) (simp add: buf_skip_def)
qed

text \<open>The octets that follow the version number, once there are enough of them.\<close>

definition version_tail ::
  "buffer \<Rightarrow> 'm http_message_scheme \<Rightarrow> bool \<Rightarrow> int \<Rightarrow> error \<times> buffer \<times> 'm http_message_scheme" where
  "version_tail b3 m clientMode version =
     (if clientMode then
        (case buf_next b3 of (c, b4) \<Rightarrow>
           if \<not> IsSpace c then (ES_HTTP_BAD_REQUEST_VERSION, b4, m)
           else (ESB_SUCCESS, b4, m\<lparr>httpVersion := version\<rparr>))
      else
        (case buf_next b3 of (c, b4) \<Rightarrow>
           if c = LF then (ESB_SUCCESS, b4, m\<lparr>httpVersion := version\<rparr>)
           else if c = CR then
             (case buf_next b4 of (d, b5) \<Rightarrow>
                if d \<noteq> LF then (ES_HTTP_BAD_REQUEST_VERSION, b5, m)
                else (ESB_SUCCESS, b5, m\<lparr>httpVersion := version\<rparr>))
           else (ES_HTTP_BAD_REQUEST_VERSION, b4, m)))"

definition version_octets :: "bool \<Rightarrow> nat" where
  "version_octets clientMode = (if clientMode then 9 else 10)"

lemma parseVersion_eq:
  assumes "buf_inv b" and b1: "b1 = SkipSpaces b"
  shows "parseVersion b m clientMode =
    (if length (unread b1) < version_octets clientMode then (ESB_AGAIN, b1, m)
     else if take 8 (unread b1) = asc ''HTTP/1.1'' then version_tail (buf_skip b1 8) m clientMode 110
     else if take 8 (unread b1) = asc ''HTTP/1.0'' then version_tail (buf_skip b1 8) m clientMode 100
     else (ES_HTTP_BAD_REQUEST_VERSION, b1, m))"
proof -
  have inv: "buf_inv b1"
    unfolding b1 using assms(1) advances_SkipSpaces by (rule advances_inv) (rule assms(1))
  have lens: "length (asc ''HTTP/1.1'') = 8" "length (asc ''HTTP/1.0'') = 8"
    by (simp_all add: asc_def)
  have rd: "length (unread b1) = unat (readable b1)"
    using inv by (rule length_unread)
  have again: "(if clientMode then 9 else 10) > readable b1 \<longleftrightarrow> length (unread b1) < version_octets clientMode"
    by (simp add: rd version_octets_def word_less_nat_alt)
  show ?thesis
  proof (cases "length (unread b1) < version_octets clientMode")
    case True
    then show ?thesis
      using again by (simp add: parseVersion_def flip: b1)
  next
    case False
    then have "8 \<le> length (unread b1)"
      by (simp add: version_octets_def split: if_splits)
    then have "IsMatch b1 (asc ''HTTP/1.1'') = (take 8 (unread b1) = asc ''HTTP/1.1'', b1)"
      "IsMatch b1 (asc ''HTTP/1.0'') = (take 8 (unread b1) = asc ''HTTP/1.0'', b1)"
      using IsMatch_loop_unread [OF inv, of "asc ''HTTP/1.1''"] IsMatch_loop_unread [OF inv, of "asc ''HTTP/1.0''"]
        IsMatch_eq [OF inv] by (simp_all add: lens)
    then show ?thesis
      using again False
      by (simp add: parseVersion_def version_tail_def Let_def flip: b1)
  qed
qed

text \<open>A read that is inside the data commutes with more data.\<close>

lemma next_within:
  assumes "buf_inv b" "0 < length (unread b)"
  obtains c b1 where "buf_next b = (c, b1)" "buf_inv b1" "advances b b1" "unread b = c # unread b1"
    "\<And>bs. fits b bs \<Longrightarrow> buf_next (receive b bs) = (c, receive b1 bs)"
    "\<And>bs. fits b bs \<Longrightarrow> fits b1 bs"
proof -
  have r: "isReadable b"
    using assms by (simp add: isReadable_unread)
  then obtain c b1 where n: "buf_next b = (c, b1)" "buf_inv b1" "unread b = c # unread b1" "advances b b1"
    using assms(1) by (metis nextE)
  show ?thesis
    by (rule that [OF n(1,2,4,3)])
       (use n(1) r advances_fits [OF _ n(4)] in \<open>auto simp: buf_next_receive\<close>)
qed

lemma version_tail_receive:
  assumes "buf_inv b" "(if clientMode then 1 else 2) \<le> length (unread b)"
  obtains e b' m' where "version_tail b m clientMode v = (e, b', m')" "advances b b'"
    "e = ESB_SUCCESS \<or> e = ES_HTTP_BAD_REQUEST_VERSION"
    "\<And>bs. fits b bs \<Longrightarrow> version_tail (receive b bs) m clientMode v = (e, receive b' bs, m')"
proof -
  have "0 < length (unread b)"
    using assms(2) by (auto split: if_splits)
  with assms(1) obtain c b1 where n: "buf_next b = (c, b1)" "buf_inv b1" "advances b b1"
    "unread b = c # unread b1" "\<And>bs. fits b bs \<Longrightarrow> buf_next (receive b bs) = (c, receive b1 bs)"
    "\<And>bs. fits b bs \<Longrightarrow> fits b1 bs"
    by (rule next_within) blast
  show ?thesis
  proof (cases "clientMode \<or> c \<noteq> CR")
    case True
    then show ?thesis
      by (intro that [of "fst (version_tail b m clientMode v)" b1 "snd (snd (version_tail b m clientMode v))"])
         (auto simp: version_tail_def n(1,3,5))
  next
    case False
    then have "0 < length (unread b1)"
      using assms(2) n(4) by auto
    with n(2) obtain d b2 where n2: "buf_next b1 = (d, b2)" "advances b1 b2"
      "\<And>bs. fits b1 bs \<Longrightarrow> buf_next (receive b1 bs) = (d, receive b2 bs)"
      by (metis next_within)
    from False n2 show ?thesis
      by (intro that [of "fst (version_tail b m clientMode v)" b2 "snd (snd (version_tail b m clientMode v))"])
         (auto simp: version_tail_def n advances_trans [OF n(3)])
  qed
qed

text \<open>
  \<open>parseVersion\<close> and \<open>parseStatusCode\<close> skip spaces, wait for a number of octets and then decide
  within the data.
\<close>

lemma wait_then_receive:
  assumes inv: "buf_inv b" and n: "0 < n"
    and F: "\<And>b. buf_inv b \<Longrightarrow> F b = (if unat (readable (SkipSpaces b)) < n then (ESB_AGAIN, SkipSpaces b, m)
              else G (SkipSpaces b))"
    and G: "\<And>b1. buf_inv b1 \<Longrightarrow> n \<le> length (unread b1) \<Longrightarrow>
      \<exists>e b' m'. G b1 = (e, b', m') \<and> advances b1 b' \<and> e \<noteq> ESB_AGAIN \<and>
        (\<forall>bs. fits b1 bs \<longrightarrow> G (receive b1 bs) = (e, receive b' bs, m'))"
  obtains e b' m' where "F b = (e, b', m')" "advances b b'" "e = ESB_AGAIN \<Longrightarrow> m' = m"
    "\<And>bs. fits b bs \<Longrightarrow> F (receive b bs) = (if e = ESB_AGAIN then F (receive b' bs) else (e, receive b' bs, m'))"
proof -
  define b1 where "b1 = SkipSpaces b"
  have adv: "advances b b1"
    unfolding b1_def using inv by (rule advances_SkipSpaces)
  have inv1: "buf_inv b1"
    using inv adv by (rule advances_inv)
  have fits1: "fits b1 bs" if "fits b bs" for bs
    using that adv by (rule advances_fits)
  have idem: "SkipSpaces b1 = b1"
    by (simp add: b1_def SkipSpaces_idem)
  show ?thesis
  proof (cases "unat (readable b1) < n")
    case True
    have "F (receive b bs) = F (receive b1 bs)" if "fits b bs" for bs
    proof -
      have "SkipSpaces (receive b bs) = SkipSpaces (receive b1 bs)"
      proof (cases "isReadable b1")
        case True
        then have "SkipSpaces (receive b1 bs) = receive b1 bs"
          using SkipSpaces_receive [OF fits1 [OF that], unfolded idem] by presburger
        moreover have "SkipSpaces (receive b bs) = receive b1 bs"
          using SkipSpaces_receive [OF that] True unfolding b1_def by presburger
        ultimately show ?thesis by simp
      next
        case False
        then show ?thesis
          using SkipSpaces_receive [OF that] unfolding b1_def by presburger
      qed
      then show ?thesis
        unfolding F [OF receive_inv [OF that]] F [OF receive_inv [OF fits1 [OF that]]] by simp
    qed
    with True adv show ?thesis
      by (intro that [of ESB_AGAIN b1 m]) (simp_all add: F [OF inv] flip: b1_def)
  next
    case False
    then have len: "n \<le> length (unread b1)"
      by (simp add: length_unread [OF inv1])
    obtain e b' m' where g: "G b1 = (e, b', m')" "advances b1 b'" "e \<noteq> ESB_AGAIN"
      "\<And>bs. fits b1 bs \<Longrightarrow> G (receive b1 bs) = (e, receive b' bs, m')"
      using G [OF inv1 len] by blast
    have "F (receive b bs) = (e, receive b' bs, m')" if "fits b bs" for bs
    proof -
      have "isReadable b1"
        using len n inv1 by (auto simp: isReadable_unread)
      then have skip: "SkipSpaces (receive b bs) = receive b1 bs"
        using SkipSpaces_receive [OF that] by (simp add: b1_def)
      have "\<not> unat (readable (receive b1 bs)) < n"
        using False readable_receive [OF fits1 [OF that]] by simp
      then show ?thesis
        unfolding F [OF receive_inv [OF that]] skip using g(4) [OF fits1 [OF that]] by simp
    qed
    with False g adv show ?thesis
      using advances_trans [OF adv g(2)]
      by (intro that [of e b' m']) (auto simp: F [OF inv] simp flip: b1_def)
  qed
qed

lemma parseVersion_receive:
  assumes inv: "buf_inv b"
  obtains e b' m' where "parseVersion b m clientMode = (e, b', m')" "advances b b'"
    "e = ESB_AGAIN \<Longrightarrow> m' = m"
    "\<And>bs. fits b bs \<Longrightarrow> parseVersion (receive b bs) m clientMode =
      (if e = ESB_AGAIN then parseVersion (receive b' bs) m clientMode else (e, receive b' bs, m'))"
proof (rule wait_then_receive [OF inv, where n = "version_octets clientMode" and m = m
      and F = "\<lambda>b. parseVersion b m clientMode"
      and G = "\<lambda>b1. if take 8 (unread b1) = asc ''HTTP/1.1'' then version_tail (buf_skip b1 8) m clientMode 110
         else if take 8 (unread b1) = asc ''HTTP/1.0'' then version_tail (buf_skip b1 8) m clientMode 100
         else (ES_HTTP_BAD_REQUEST_VERSION, b1, m)"])
  show "0 < version_octets clientMode"
    by (simp add: version_octets_def)
  show "parseVersion b m clientMode = (if unat (readable (SkipSpaces b)) < version_octets clientMode
      then (ESB_AGAIN, SkipSpaces b, m)
      else if take 8 (unread (SkipSpaces b)) = asc ''HTTP/1.1'' then version_tail (buf_skip (SkipSpaces b) 8) m clientMode 110
      else if take 8 (unread (SkipSpaces b)) = asc ''HTTP/1.0'' then version_tail (buf_skip (SkipSpaces b) 8) m clientMode 100
      else (ES_HTTP_BAD_REQUEST_VERSION, SkipSpaces b, m))" if "buf_inv b" for b
    using parseVersion_eq [OF that refl, of m clientMode]
      length_unread [OF advances_inv [OF that advances_SkipSpaces [OF that]]] by simp
  fix b1 :: buffer
  assume inv1: "buf_inv b1" and len: "version_octets clientMode \<le> length (unread b1)"
  have eight: "8 \<le> length (unread b1)"
    using len by (simp add: version_octets_def split: if_splits)
  then have "unat (8 :: u32) \<le> unat (readable b1)"
    using length_unread [OF inv1] by simp
  note skip = buf_skip_within [OF inv1 this]
  have more: "(if clientMode then 1 else 2) \<le> length (unread (buf_skip b1 8))"
    using len skip(3) by (auto simp: version_octets_def)
  have tail: "\<exists>e b' m'. version_tail (buf_skip b1 8) m clientMode v = (e, b', m') \<and> advances b1 b' \<and>
      e \<noteq> ESB_AGAIN \<and> (\<forall>bs. fits b1 bs \<longrightarrow>
        version_tail (buf_skip (receive b1 bs) 8) m clientMode v = (e, receive b' bs, m'))" for v
    by (rule version_tail_receive [OF skip(4) more, of m v])
       (use skip(1,5) in \<open>auto intro: advances_trans advances_fits\<close>)
  have same: "take 8 (unread (receive b1 bs)) = take 8 (unread b1)" if "fits b1 bs" for bs
    using eight by (simp add: unread_receive [OF that])
  consider "take 8 (unread b1) = asc ''HTTP/1.1''"
    | "take 8 (unread b1) \<noteq> asc ''HTTP/1.1''" "take 8 (unread b1) = asc ''HTTP/1.0''"
    | "take 8 (unread b1) \<noteq> asc ''HTTP/1.1''" "take 8 (unread b1) \<noteq> asc ''HTTP/1.0''" by blast
  then show "\<exists>e b' m'.
      (if take 8 (unread b1) = asc ''HTTP/1.1'' then version_tail (buf_skip b1 8) m clientMode 110
       else if take 8 (unread b1) = asc ''HTTP/1.0'' then version_tail (buf_skip b1 8) m clientMode 100
       else (ES_HTTP_BAD_REQUEST_VERSION, b1, m)) = (e, b', m') \<and> advances b1 b' \<and> e \<noteq> ESB_AGAIN \<and>
      (\<forall>bs. fits b1 bs \<longrightarrow>
        (if take 8 (unread (receive b1 bs)) = asc ''HTTP/1.1''
         then version_tail (buf_skip (receive b1 bs) 8) m clientMode 110
         else if take 8 (unread (receive b1 bs)) = asc ''HTTP/1.0''
         then version_tail (buf_skip (receive b1 bs) 8) m clientMode 100
         else (ES_HTTP_BAD_REQUEST_VERSION, receive b1 bs, m)) = (e, receive b' bs, m'))"
  proof cases
    case 1
    with tail [of 110] same show ?thesis by (simp only: if_True) simp
  next
    case 2
    with tail [of 100] same show ?thesis by (simp only: if_True if_False) simp
  next
    case 3
    with same inv1 show ?thesis by auto
  qed
qed (use that in blast)+

text \<open>A stage that runs such a scan and goes on with \<open>k\<close>.\<close>

lemma resumes_scan:
  assumes inv: "buf_inv b"
    and g: "g b m = (e, b', m')" "advances b b'" "e = ESB_AGAIN \<Longrightarrow> m' = m"
      "\<And>bs. fits b bs \<Longrightarrow> g (receive b bs) m = (if e = ESB_AGAIN then g (receive b' bs) m else (e, receive b' bs, m'))"
    and S: "\<And>b. S b = (case g b m of (e, b', m') \<Rightarrow>
        if e \<noteq> ESB_SUCCESS then (e, p, b', m') else k (readMark b') m')"
    and later: "\<And>b. later p b m = S b"
    and ok: "\<And>b. buf_inv b \<Longrightarrow> ok p b m"
    and k: "\<And>b1. buf_inv b1 \<Longrightarrow> resumes_upto X (\<lambda>b. k b m') later ok b1"
  shows "resumes_upto X S later ok b"
proof -
  have cons: "consumed b b'"
    using inv g(2) by (rule advances_consumed)
  have inv': "buf_inv b'"
    using inv cons by (rule consumed_inv)
  consider "e = ESB_AGAIN" | "e = ESB_SUCCESS" | "e \<noteq> ESB_AGAIN" "e \<noteq> ESB_SUCCESS" by blast
  then show ?thesis
  proof cases
    case 1
    show ?thesis
      by (rule resumes_again [where p = p and b' = b' and m = m])
         (use 1 g ok [OF inv'] cons in \<open>simp_all add: S later\<close>)
  next
    case 2
    show ?thesis
      by (rule resumes_step [OF _ consumed_readMark [OF cons] k])
         (use 2 g inv' in \<open>auto simp: S readMark_receive\<close>)
  next
    case 3
    show ?thesis
      by (rule resumes_done [where p = p and b' = b' and m = m' and e = e])
         (use 3 g cons in \<open>simp_all add: S\<close>)
  qed
qed

end
