(* ===== verification/UriIncremental.thy ===== *)
theory UriIncremental
  imports RequestUriParser Incremental
begin

text \<open>
  \<open>HttpRequestUriParser::parse\<close> is incremental: every production resumes through the dispatch of
  \<open>parse\<close> on the state it left. One lemma per production, in the order of their definitions,
  then the interpretation of \<open>incremental_parser\<close>.
\<close>

section \<open>The states between calls\<close>

definition uri_states :: "u32 list" where
  "uri_states = [0, 1, 2, 4, 8, 16, 32, 64, 128, 256, 512]"

definition uri_ok :: "'a uri_parser \<Rightarrow> buffer \<Rightarrow> request_uri \<Rightarrow> bool" where
  "uri_ok p b u \<longleftrightarrow> buf_inv b \<and> buf_inv (workingBuffer p) \<and> uriState p \<in> set uri_states \<and>
     (uriState p = ES_URI_PARSING_ASTERISK \<longrightarrow> rdMark b = rdPos b)"

lemma uri_dispatch_eq:
  "uriState p = 1 \<Longrightarrow> uri_parse alloc p b u = parseAsterisk p b u"
  "uriState p = 2 \<Longrightarrow> uri_parse alloc p b u = parseScheme alloc p b u"
  "uriState p = 4 \<Longrightarrow> uri_parse alloc p b u = parseHost alloc p b u"
  "uriState p = 8 \<Longrightarrow> uri_parse alloc p b u = parsePort alloc p b u"
  "uriState p = 16 \<Longrightarrow> uri_parse alloc p b u = parseAbsPath alloc p b u"
  "uriState p = 32 \<Longrightarrow> uri_parse alloc p b u = parseQuery alloc p b u"
  "uriState p = 64 \<Longrightarrow> uri_parse alloc p b u = parseFragment alloc p b u"
  "uriState p = 256 \<Longrightarrow> uri_parse alloc p b u = parseNonHttpUri alloc p b u"
  "uriState p = 512 \<Longrightarrow> uri_parse alloc p b u = skipForwardSlashes alloc p b u"
  "uriState p = 128 \<Longrightarrow> uri_parse alloc p b u = (ESB_INVALID_STATE, p, b, u)"
  by (simp_all add: uri_parse_def uri_dispatch_def has_flag_def)

section \<open>Working buffer and state updates\<close>

lemma wb_put_simps [simp]:
  "uriState (wb_put p c) = uriState p" "allocator (wb_put p c) = allocator p"
  "workingBuffer (wb_put p c) = putNext (workingBuffer p) c"
  by (simp_all add: wb_put_def)

lemma wb_clear_simps [simp]:
  "uriState (wb_clear p) = uriState p" "allocator (wb_clear p) = allocator p"
  "workingBuffer (wb_clear p) = buf_clear (workingBuffer p)"
  by (simp_all add: wb_clear_def)

lemma wb_dup_simps:
  assumes "wb_dup alloc p = (s, p')"
  shows "uriState p' = uriState p" "workingBuffer p' = workingBuffer p"
  using assms by (auto simp: wb_dup_def split: prod.splits)

lemma uri_enter_simps [simp]:
  "uriState (uri_enter old new p) = transition (uriState p) old new"
  "workingBuffer (uri_enter old new p) = workingBuffer p"
  "allocator (uri_enter old new p) = allocator p"
  by (simp_all add: uri_enter_def)

text \<open>What ends a production: an error, a saved string and the final state, a call of the next.\<close>

lemma uri_error:
  "e \<noteq> ESB_AGAIN \<Longrightarrow> buf_inv b \<Longrightarrow> buf_inv (workingBuffer p) \<Longrightarrow> uriState p \<in> set uri_states \<Longrightarrow>
    uriState p \<noteq> 1 \<Longrightarrow> resumes (\<lambda>b. (e, p, b, u)) later uri_ok b"
  by (rule resumes_return [where g = "\<lambda>b. b"]) (auto simp: uri_ok_def)

lemma uri_done:
  "e \<noteq> ESB_AGAIN \<Longrightarrow> buf_inv b \<Longrightarrow> buf_inv (workingBuffer p) \<Longrightarrow> uriState p \<in> set uri_states \<Longrightarrow>
    uriState p \<noteq> 1 \<Longrightarrow> resumes (\<lambda>b. (e, p, readMark b, u)) later uri_ok b"
  by (rule resumes_return [where g = readMark])
     (auto simp: uri_ok_def consumed_mark readMark_receive)

lemma uri_call:
  "buf_inv b \<Longrightarrow> resumes nxt later ok (readMark b) \<Longrightarrow> resumes (\<lambda>b. nxt (readMark b)) later ok b"
  by (rule resumes_call [where g = readMark]) (auto simp: consumed_mark readMark_receive)

lemma uri_call_unget:
  assumes "consumed b1 (setReadPosition b1 (rdPos b1 - 1))" "buf_inv (setReadPosition b1 (rdPos b1 - 1))"
    "resumes nxt later ok (readMark (setReadPosition b1 (rdPos b1 - 1)))"
  shows "resumes (\<lambda>b. nxt (readMark (setReadPosition b (rdPos b - 1)))) later ok b1"
  by (rule resumes_call [where g = "\<lambda>b. readMark (setReadPosition b (rdPos b - 1))"])
     (use assms in \<open>auto simp: setReadPosition_receive readMark_receive consumed_readMark\<close>)

lemma resumes_dup:
  assumes "\<And>s p'. wb_dup alloc p = (s, p') \<Longrightarrow> uriState p' = uriState p \<Longrightarrow>
      workingBuffer p' = workingBuffer p \<Longrightarrow> resumes (f s p') later ok b"
  shows "resumes (\<lambda>b. case wb_dup alloc p of (s, p') \<Rightarrow> f s p' b) later ok b"
  using assms by (cases "wb_dup alloc p") (simp add: wb_dup_simps)

lemmas uri_resume_intros = resumes_if resumes_dup uri_error uri_done uri_call

lemma SkipSpaces_mark: "SkipSpaces (b\<lparr>rdMark := q\<rparr>) = (SkipSpaces b)\<lparr>rdMark := q\<rparr>"
proof (induction b rule: SkipSpaces.induct)
  case (1 b)
  have r: "isReadable (b\<lparr>rdMark := q\<rparr>) = isReadable b" "peekNext (b\<lparr>rdMark := q\<rparr>) = peekNext b"
    "skipNext (b\<lparr>rdMark := q\<rparr>) = (skipNext b)\<lparr>rdMark := q\<rparr>"
    by (simp_all add: isReadable_def readable_def peekNext_def skipNext_def)
  show ?case
    using 1 by (auto simp: SkipSpaces.simps [of b] SkipSpaces.simps [of "b\<lparr>rdMark := q\<rparr>"] r)
qed

lemma SkipSpaces_readMark: "readMark (SkipSpaces (readMark b)) = readMark (SkipSpaces b)"
  by (simp add: readMark_def SkipSpaces_mark)

section \<open>The productions\<close>

lemma parseFragment_resumes:
  "buf_inv b \<Longrightarrow> buf_inv (workingBuffer p) \<Longrightarrow> uriState p = ES_URI_PARSING_FRAGMENT \<Longrightarrow>
    resumes (\<lambda>b. parseFragment alloc p b u) (uri_parse alloc) uri_ok b"
proof (induction b arbitrary: p rule: measure_induct_rule [of "\<lambda>b. unat (readable b)"])
  case (less b)
  show ?case
  proof (rule resumes_read, rule parseFragment.simps, rule uri_dispatch_eq(7), rule less.prems(3), rule less.prems(1))
    show "uri_ok p b u"
      using less.prems by (simp add: uri_ok_def uri_states_def)
  qed (unfold Let_def, intro uri_resume_intros less.IH; use less.prems in
       \<open>auto simp: uri_states_def transition_def\<close>)
qed

lemma parseQuery_resumes:
  "buf_inv b \<Longrightarrow> buf_inv (workingBuffer p) \<Longrightarrow> uriState p = ES_URI_PARSING_QUERY \<Longrightarrow>
    resumes (\<lambda>b. parseQuery alloc p b u) (uri_parse alloc) uri_ok b"
proof (induction b arbitrary: p rule: measure_induct_rule [of "\<lambda>b. unat (readable b)"])
  case (less b)
  show ?case
  proof (rule resumes_read, rule parseQuery.simps, rule uri_dispatch_eq(6), rule less.prems(3), rule less.prems(1))
    show "uri_ok p b u"
      using less.prems by (simp add: uri_ok_def uri_states_def)
  qed (unfold Let_def, intro uri_resume_intros less.IH parseFragment_resumes; use less.prems in
       \<open>auto simp: uri_states_def transition_def\<close>)
qed

lemma wrPos_put_pos:
  "buf_inv w \<Longrightarrow> isWritable w \<Longrightarrow> wrPos (putNext w c) \<noteq> 0"
  using unat_wrPos_putNext [of w c] by (auto simp: isWritable_room)

lemma parseAbsPath_loop_resumes:
  "buf_inv b \<Longrightarrow> buf_inv (workingBuffer p) \<Longrightarrow> uriState p = ES_URI_PARSING_ABS_PATH \<Longrightarrow>
    wrPos (workingBuffer p) \<noteq> 0 \<Longrightarrow>
    resumes (\<lambda>b. parseAbsPath_loop alloc p b u) (uri_parse alloc) uri_ok b"
proof (induction b arbitrary: p rule: measure_induct_rule [of "\<lambda>b. unat (readable b)"])
  case (less b)
  show ?case
  proof (rule resumes_read, rule parseAbsPath_loop.simps)
    show "buf_inv b" by (rule less.prems(1))
    show "uri_ok p b u"
      using less.prems by (simp add: uri_ok_def uri_states_def)
    show "uri_parse alloc p b u = parseAbsPath_loop alloc p b u" for b
      using less.prems(4) by (simp add: uri_dispatch_eq(5) [OF less.prems(3)] parseAbsPath_def)
  qed (unfold Let_def, intro uri_resume_intros less.IH parseQuery_resumes parseFragment_resumes;
       use less.prems in \<open>auto simp: uri_states_def transition_def wrPos_put_pos\<close>)
qed

lemma parseAbsPath_resumes:
  assumes "buf_inv b" "buf_inv (workingBuffer p)" "uriState p = ES_URI_PARSING_ABS_PATH"
  shows "resumes (\<lambda>b. parseAbsPath alloc p b u) (uri_parse alloc) uri_ok b"
proof (cases "wrPos (workingBuffer p) = 0")
  case True
  have eq: "parseAbsPath alloc p b u =
     (if \<not> isReadable b then (ESB_AGAIN, p, b, u)
      else if \<not> isWritable (workingBuffer p) then (ESB_OVERFLOW, p, b, u)
      else let (c, b') = buf_next b in
           if c \<noteq> SLASH then (ES_HTTP_BAD_REQUEST_URI_ABS_PATH, p, b', u)
           else parseAbsPath_loop alloc (wb_put p SLASH) b' u)" for b
    using True by (simp add: parseAbsPath_def)
  show ?thesis
  proof (rule resumes_read, rule eq, rule uri_dispatch_eq(5), rule assms(3), rule assms(1))
    show "uri_ok p b u"
      using assms by (simp add: uri_ok_def uri_states_def)
  qed (intro resumes_if uri_error parseAbsPath_loop_resumes;
       use assms in \<open>auto simp: uri_states_def wrPos_put_pos\<close>)
next
  case False
  then show ?thesis
    using parseAbsPath_loop_resumes [OF assms False] by (simp add: parseAbsPath_def)
qed

lemma parsePort_resumes:
  "buf_inv b \<Longrightarrow> buf_inv (workingBuffer p) \<Longrightarrow> uriState p = ES_URI_PARSING_PORT \<Longrightarrow>
    resumes (\<lambda>b. parsePort alloc p b u) (uri_parse alloc) uri_ok b"
proof (induction b arbitrary: p u rule: measure_induct_rule [of "\<lambda>b. unat (readable b)"])
  case (less b)
  show ?case
  proof (rule resumes_read [where w = True], simp only: not_True_eq_False if_False, rule parsePort.simps,
      rule uri_dispatch_eq(4), rule less.prems(3), rule less.prems(1))
    show "uri_ok p b u"
      using less.prems by (simp add: uri_ok_def uri_states_def)
  qed (unfold Let_def, intro uri_resume_intros uri_call_unget less.IH parseAbsPath_resumes parseQuery_resumes
      parseFragment_resumes; use less.prems in \<open>auto simp: uri_states_def transition_def\<close>)
qed

lemma parseHost_loop_resumes:
  "buf_inv b \<Longrightarrow> buf_inv (workingBuffer p) \<Longrightarrow> uriState p = ES_URI_PARSING_HOST \<Longrightarrow>
    wrPos (workingBuffer p) \<noteq> 0 \<Longrightarrow>
    resumes (\<lambda>b. parseHost_loop alloc p b u) (uri_parse alloc) uri_ok b"
proof (induction b arbitrary: p rule: measure_induct_rule [of "\<lambda>b. unat (readable b)"])
  case (less b)
  show ?case
  proof (rule resumes_read, rule parseHost_loop.simps)
    show "buf_inv b" by (rule less.prems(1))
    show "uri_ok p b u"
      using less.prems by (simp add: uri_ok_def uri_states_def)
    show "uri_parse alloc p b u = parseHost_loop alloc p b u" for b
      using less.prems(4) by (simp add: uri_dispatch_eq(3) [OF less.prems(3)] parseHost_def)
  qed (unfold Let_def, intro uri_resume_intros uri_call_unget less.IH parsePort_resumes
       parseAbsPath_resumes parseQuery_resumes parseFragment_resumes;
       use less.prems in \<open>auto simp: uri_states_def transition_def wrPos_put_pos\<close>)
qed

lemma parseHost_resumes:
  assumes "buf_inv b" "buf_inv (workingBuffer p)" "uriState p = ES_URI_PARSING_HOST"
  shows "resumes (\<lambda>b. parseHost alloc p b u) (uri_parse alloc) uri_ok b"
proof (cases "wrPos (workingBuffer p) = 0")
  case True
  have eq: "parseHost alloc p b u =
     (if \<not> isReadable b then (ESB_AGAIN, p, b, u)
      else if \<not> isWritable (workingBuffer p) then (ESB_OVERFLOW, p, b, u)
      else let (c, b') = buf_next b in
           if \<not> IsAlphaNum c then (ES_HTTP_BAD_REQUEST_URI_HOST, p, b', u)
           else parseHost_loop alloc (wb_put p c) b' u)" for b
    using True by (simp add: parseHost_def)
  show ?thesis
  proof (rule resumes_read, rule eq, rule uri_dispatch_eq(3), rule assms(3), rule assms(1))
    show "uri_ok p b u"
      using assms by (simp add: uri_ok_def uri_states_def)
  qed (intro resumes_if uri_error parseHost_loop_resumes;
       use assms in \<open>auto simp: uri_states_def wrPos_put_pos\<close>)
next
  case False
  then show ?thesis
    using parseHost_loop_resumes [OF assms False] by (simp add: parseHost_def)
qed

lemma skipForwardSlashes_resumes:
  "buf_inv b \<Longrightarrow> buf_inv (workingBuffer p) \<Longrightarrow> uriState p = ES_URI_SKIPPING_FWD_SLASHES \<Longrightarrow>
    resumes (\<lambda>b. skipForwardSlashes alloc p b u) (uri_parse alloc) uri_ok b"
proof (induction b rule: measure_induct_rule [of "\<lambda>b. unat (readable b)"])
  case (less b)
  show ?case
  proof (rule resumes_peek, rule skipForwardSlashes.simps, rule uri_dispatch_eq(9), rule less.prems(3), rule less.prems(1))
    show "uri_ok p b u"
      using less.prems by (simp add: uri_ok_def uri_states_def)
    fix c b1
    assume b1: "skipNext b = b1" "buf_inv b1" "unat (readable b1) < unat (readable b)" "consumed b b1"
      "\<And>bs. fits b bs \<Longrightarrow> skipNext (receive b bs) = receive b1 bs"
    show "resumes (\<lambda>b. if c = SLASH then skipForwardSlashes alloc p (skipNext b) u
        else parseHost alloc (uri_enter ES_URI_SKIPPING_FWD_SLASHES ES_URI_PARSING_HOST p) b u)
       (uri_parse alloc) uri_ok b"
      by (intro resumes_if resumes_skip [OF b1(1,4,5)] less.IH [OF b1(3,2)] parseHost_resumes)
         (use less.prems in \<open>auto simp: transition_def\<close>)
  qed
qed

lemma parseNonHttpUri_resumes:
  "buf_inv b \<Longrightarrow> buf_inv (workingBuffer p) \<Longrightarrow> uriState p = ES_URI_PARSING_NON_HTTP_URI \<Longrightarrow>
    resumes (\<lambda>b. parseNonHttpUri alloc p b u) (uri_parse alloc) uri_ok b"
proof (induction b arbitrary: p rule: measure_induct_rule [of "\<lambda>b. unat (readable b)"])
  case (less b)
  show ?case
  proof (rule resumes_read, rule parseNonHttpUri.simps, rule uri_dispatch_eq(8), rule less.prems(3), rule less.prems(1))
    show "uri_ok p b u"
      using less.prems by (simp add: uri_ok_def uri_states_def)
  qed (unfold Let_def, intro uri_resume_intros less.IH; use less.prems in
       \<open>auto simp: uri_states_def transition_def\<close>)
qed

lemma parseScheme_loop_resumes:
  "buf_inv b \<Longrightarrow> buf_inv (workingBuffer p) \<Longrightarrow> uriState p = ES_URI_PARSING_SCHEME \<Longrightarrow>
    wrPos (workingBuffer p) \<noteq> 0 \<Longrightarrow>
    resumes (\<lambda>b. parseScheme_loop alloc p b u) (uri_parse alloc) uri_ok b"
proof (induction b arbitrary: p rule: measure_induct_rule [of "\<lambda>b. unat (readable b)"])
  case (less b)
  show ?case
  proof (rule resumes_read, rule parseScheme_loop.simps)
    show "buf_inv b" by (rule less.prems(1))
    show "uri_ok p b u"
      using less.prems by (simp add: uri_ok_def uri_states_def)
    show "uri_parse alloc p b u = parseScheme_loop alloc p b u" for b
      using less.prems(4) by (simp add: uri_dispatch_eq(2) [OF less.prems(3)] parseScheme_def)
  qed (intro uri_resume_intros less.IH skipForwardSlashes_resumes
       parseNonHttpUri_resumes;
       use less.prems in \<open>auto simp: uri_states_def transition_def wrPos_put_pos\<close>)
qed

lemma parseScheme_resumes:
  assumes "buf_inv b" "buf_inv (workingBuffer p)" "uriState p = ES_URI_PARSING_SCHEME"
  shows "resumes (\<lambda>b. parseScheme alloc p b u) (uri_parse alloc) uri_ok b"
proof (cases "wrPos (workingBuffer p) = 0")
  case True
  have eq: "parseScheme alloc p b u =
     (if \<not> isReadable b then (ESB_AGAIN, p, b, u)
      else if \<not> isWritable (workingBuffer p) then (ESB_OVERFLOW, p, b, u)
      else let (c, b') = buf_next b in
           if \<not> IsAlpha c then (ES_HTTP_BAD_REQUEST_URI_SCHEME, p, b', u)
           else parseScheme_loop alloc (wb_put p c) b' u)" for b
    using True by (simp add: parseScheme_def)
  show ?thesis
  proof (rule resumes_read, rule eq, rule uri_dispatch_eq(2), rule assms(3), rule assms(1))
    show "uri_ok p b u"
      using assms by (simp add: uri_ok_def uri_states_def)
  qed (intro resumes_if uri_error parseScheme_loop_resumes;
       use assms in \<open>auto simp: uri_states_def wrPos_put_pos\<close>)
next
  case False
  then show ?thesis
    using parseScheme_loop_resumes [OF assms False] by (simp add: parseScheme_def)
qed

lemma parseAsterisk_resumes:
  assumes inv: "buf_inv b" "buf_inv (workingBuffer p)" and st: "uriState p = ES_URI_PARSING_ASTERISK"
    and mark: "rdMark b = rdPos b"
  shows "resumes (\<lambda>b. parseAsterisk p b u) (uri_parse alloc) uri_ok b"
proof -
  have ok: "uri_ok p b u"
    using assms by (simp add: uri_ok_def uri_states_def)
  have later: "uri_parse alloc p c u = parseAsterisk p c u" for c
    using st by (rule uri_dispatch_eq(1))
  show ?thesis
  proof (cases "isReadable b")
    case False
    then show ?thesis
      by (intro resumes_again [where p = p and b' = b and m = u])
         (simp_all add: parseAsterisk_def later ok inv consumed_refl)
  next
    case True
    then obtain c b1 where r: "buf_next b = (c, b1)" "buf_inv b1" "consumed b b1"
      "\<And>bs. fits b bs \<Longrightarrow> isReadable (receive b bs)"
      "\<And>bs. fits b bs \<Longrightarrow> buf_next (receive b bs) = (c, receive b1 bs)"
      using inv(1) by (metis readE)
    have "b1 = b\<lparr>rdPos := rdPos b1\<rparr>"
      using advances_next [OF inv(1)] r(1) by (simp add: advances_def)
    then have reset: "readReset b1 = b"
      using mark by (metis buffer.surjective buffer.update_convs(5) buffer.select_convs(3) readReset_def)
    show ?thesis
    proof (cases "c = ASTERISK")
      case False
      then show ?thesis
        using True r ok
        by (intro resumes_done [where p = p and b' = b1 and m = u]) (simp_all add: parseAsterisk_def)
    next
      case star: True
      define k :: "u8 \<Rightarrow> buffer \<Rightarrow> 'a uri_result" where "k c2 b2 =
         (if \<not> IsSpace c2 then (ES_HTTP_BAD_REQUEST_URI_ASTERISK, p, b2, u)
          else (ESB_SUCCESS, uri_enter ES_URI_PARSING_ASTERISK ES_URI_PARSE_COMPLETE p, b2,
                u\<lparr>uriType := ES_URI_ASTERISK\<rparr>))" for c2 b2
      have star_eq: "parseAsterisk p b' u =
          (if \<not> isReadable b'' then (ESB_AGAIN, p, readReset b'', u) else case buf_next b'' of (c2, b2) \<Rightarrow> k c2 b2)"
        if "isReadable b'" "buf_next b' = (ASTERISK, b'')" for b' b''
        using that by (simp add: parseAsterisk_def k_def)
      show ?thesis
      proof (cases "isReadable b1")
        case False
        then show ?thesis
          by (intro resumes_again [where p = p and b' = b and m = u])
             (use True r star in \<open>simp_all add: star_eq reset ok later inv consumed_refl\<close>)
      next
        case True1: True
        then obtain c2 b2 where r2: "buf_next b1 = (c2, b2)" "buf_inv b2" "consumed b1 b2"
          "\<And>bs. fits b1 bs \<Longrightarrow> isReadable (receive b1 bs)"
          "\<And>bs. fits b1 bs \<Longrightarrow> buf_next (receive b1 bs) = (c2, receive b2 bs)"
          using r(2) by (metis readE)
        have fits: "fits b bs \<Longrightarrow> fits b1 bs" for bs
          using r(3) by (auto intro: consumed_fits)
        have k: "resumes (k c2) (uri_parse alloc) uri_ok b2"
          using r2(2) inv(2) st unfolding k_def
          by (intro resumes_if resumes_return [where g = "\<lambda>b. b"])
             (auto simp: uri_ok_def uri_states_def transition_def)
        show ?thesis
          by (rule resumes_step [OF _ consumed_trans [OF r(3) r2(3)] k])
             (use True True1 r r2 star fits in \<open>simp_all add: star_eq\<close>)
      qed
    qed
  qed
qed

section \<open>The parser\<close>

lemma uri_dispatch_resumes:
  assumes "uri_ok p b u" "uriState p \<noteq> 0"
  shows "resumes (\<lambda>b. uri_parse alloc p b u) (uri_parse alloc) uri_ok b"
proof -
  have inv: "buf_inv b" "buf_inv (workingBuffer p)"
    using assms by (auto simp: uri_ok_def)
  consider "uriState p = 1" | "uriState p = 2" | "uriState p = 4" | "uriState p = 8"
    | "uriState p = 16" | "uriState p = 32" | "uriState p = 64" | "uriState p = 128"
    | "uriState p = 256" | "uriState p = 512"
    using assms by (auto simp: uri_ok_def uri_states_def)
  then show ?thesis
  proof cases
    case 1
    with assms(1) have "rdMark b = rdPos b" by (simp add: uri_ok_def)
    with 1 inv show ?thesis
      by (simp add: uri_dispatch_eq parseAsterisk_resumes)
  next
    case 8
    with inv show ?thesis
      by (auto simp: uri_dispatch_eq intro!: resumes_return [where g = "\<lambda>b. b"])
  qed (use inv in \<open>simp_all add: uri_dispatch_eq parseScheme_resumes parseHost_resumes
      parsePort_resumes parseAbsPath_resumes parseQuery_resumes parseFragment_resumes
      parseNonHttpUri_resumes skipForwardSlashes_resumes\<close>)
qed

lemma uri_parse_resumes:
  assumes ok: "uri_ok p b u"
  shows "resumes (\<lambda>b. uri_parse alloc p b u) (uri_parse alloc) uri_ok b"
proof (cases "uriState p = 0")
  case False
  with ok show ?thesis by (rule uri_dispatch_resumes)
next
  case st: True
  have inv: "buf_inv b" "buf_inv (workingBuffer p)"
    using ok by (auto simp: uri_ok_def)
  define b1 where "b1 = readMark (SkipSpaces b)"
  define st1 :: "buffer \<Rightarrow> u32" where "st1 c = (if peekNext c = ASTERISK then 1 else if peekNext c = SLASH then 16 else 2)" for c
  have adv: "advances b (SkipSpaces b)"
    using inv(1) by (rule advances_SkipSpaces)
  have cons: "consumed b b1"
    unfolding b1_def using advances_consumed [OF inv(1) adv] by (rule consumed_readMark)
  have inv1: "buf_inv b1"
    using inv(1) cons by (rule consumed_inv)
  have eq: "uri_parse alloc p c u =
      (let c1 = readMark (SkipSpaces c) in
       if \<not> isReadable c1 then (ESB_AGAIN, p, c1, u)
       else uri_parse alloc (p\<lparr>uriState := st1 c1\<rparr>) c1 u)" for c
    using st by (simp add: uri_parse_def st1_def has_flag_def Let_def)
  have rd: "isReadable (readMark c) = isReadable c" for c
    by (simp add: isReadable_def readable_def readMark_def)
  show ?thesis
  proof (cases "isReadable b1")
    case False
    have "uri_ok p b1 u"
      using st inv1 inv(2) by (simp add: uri_ok_def uri_states_def)
    moreover have "uri_parse alloc p (receive b bs) u = uri_parse alloc p (receive b1 bs) u"
      if fits: "fits b bs" for bs
    proof -
      have "\<not> isReadable (SkipSpaces b)"
        using False by (simp add: b1_def rd)
      then have "SkipSpaces (receive b bs) = SkipSpaces (receive (SkipSpaces b) bs)"
        using fits by (simp add: SkipSpaces_receive)
      moreover have "readMark (SkipSpaces (readMark c)) = readMark (SkipSpaces c)" for c
        by (rule SkipSpaces_readMark)
      ultimately show ?thesis
        by (simp add: eq b1_def flip: readMark_receive)
    qed
    ultimately show ?thesis
      using False cons
      by (intro resumes_again [where p = p and b' = b1 and m = u]) (auto simp: eq [of b] simp flip: b1_def)
  next
    case True
    have ok1: "uri_ok (p\<lparr>uriState := st1 b1\<rparr>) b1 u"
      using inv1 inv(2) by (simp add: uri_ok_def uri_states_def st1_def b1_def readMark_def)
    show ?thesis
    proof (rule resumes_step [OF _ cons uri_dispatch_resumes [OF ok1]])
      show "uriState (p\<lparr>uriState := st1 b1\<rparr>) \<noteq> 0" by (simp add: st1_def)
      show "uri_parse alloc p b u = uri_parse alloc (p\<lparr>uriState := st1 b1\<rparr>) b1 u"
        using True by (simp add: eq flip: b1_def)
      fix bs assume fits: "fits b bs"
      have r: "readMark (SkipSpaces (receive b bs)) = receive b1 bs"
        using True fits by (simp add: SkipSpaces_receive readMark_receive b1_def rd)
      have f1: "fits b1 bs"
        using fits cons by (rule consumed_fits)
      have "st1 (receive b1 bs) = st1 b1" "isReadable (receive b1 bs)"
        using True f1 by (simp_all add: st1_def peekNext_next buf_next_receive isReadable_receive)
      then show "uri_parse alloc p (receive b bs) u
          = uri_parse alloc (p\<lparr>uriState := st1 b1\<rparr>) (receive b1 bs) u"
        unfolding eq [of "receive b bs"] by (simp add: r)
    qed
  qed
qed

interpretation uri_stream: incremental_parser "uri_parse alloc" uri_ok "{}" for alloc
proof
  show "uri_ok p b u \<Longrightarrow> buf_inv b" for p b u
    by (simp add: uri_ok_def)
  show "uri_ok p b u \<Longrightarrow> fits b bs \<Longrightarrow> uri_ok p (receive b bs) u" for p b bs u
    by (simp add: uri_ok_def receive_inv)
  show "uri_ok p b u \<Longrightarrow> resumes (\<lambda>b. uri_parse alloc p b u) (uri_parse alloc) uri_ok b" for p b u
    by (rule uri_parse_resumes)
qed

end
