(* ===== verification/RequestParser.thy ===== *)
theory RequestParser
  imports MessageIncremental UriIncremental
begin

text \<open>
  \<open>ES::HttpRequestParser\<close> (data-plane/http1/source/ESHttpRequestParser.cpp): the request line.
  The URI parser is a member that works on the same working buffer and allocator: it runs on a
  view of the request parser. The last section interprets \<open>start_line_parser\<close>, so the request
  headers are incremental.
\<close>

section \<open>The parser\<close>

record 'a request_parser = "'a message_parser" +
  requestState :: u32
  requestUriState :: u32

abbreviation (input) ES_PARSING_METHOD :: u32 where "ES_PARSING_METHOD \<equiv> 1"
abbreviation (input) ES_PARSING_REQUEST_URI :: u32 where "ES_PARSING_REQUEST_URI \<equiv> 2"
abbreviation (input) ES_PARSING_HTTP_VERSION :: u32 where "ES_PARSING_HTTP_VERSION \<equiv> 4"
abbreviation (input) ES_REQUEST_PARSE_COMPLETE :: u32 where "ES_REQUEST_PARSE_COMPLETE \<equiv> 8"

type_synonym 'a request_result = "error \<times> 'a request_parser \<times> buffer \<times> http_request"

definition new_request_parser :: "buffer \<Rightarrow> 'a \<Rightarrow> 'a request_parser" where
  "new_request_parser wb al = \<lparr>workingBuffer = wb, allocator = al, msgState = 0,
     bodyBytesRemaining = 0, requestState = 0, requestUriState = 0\<rparr>"

definition uri_view :: "'a request_parser \<Rightarrow> 'a uri_parser" where
  "uri_view p = \<lparr>workingBuffer = workingBuffer p, allocator = allocator p, uriState = requestUriState p\<rparr>"

definition with_uri :: "'a request_parser \<Rightarrow> 'a uri_parser \<Rightarrow> 'a request_parser" where
  "with_uri p q = p\<lparr>workingBuffer := workingBuffer q, allocator := allocator q, requestUriState := uriState q\<rparr>"

definition request_parser_reset :: "'a request_parser \<Rightarrow> 'a request_parser" where
  "request_parser_reset p =
     (let p1 = (message_parser_reset p)\<lparr>requestState := 0\<rparr>
      in with_uri p1 (uri_parser_reset (uri_view p1)))"

definition req_enter :: "u32 \<Rightarrow> u32 \<Rightarrow> 'a request_parser \<Rightarrow> 'a request_parser" where
  "req_enter old new p = p\<lparr>requestState := transition (requestState p) old new\<rparr>"

function parseMethod ::
  "'a alloc_fn \<Rightarrow> 'a request_parser \<Rightarrow> buffer \<Rightarrow> http_request \<Rightarrow> 'a request_result" where
  "parseMethod alloc p b m =
     (if \<not> isReadable b then (ESB_AGAIN, p, b, m)
      else if \<not> isWritable (workingBuffer p) then (ESB_OVERFLOW, p, b, m)
      else
        let (c, b') = buf_next b in
        if IsSpace c then
          (case wb_dup alloc p of
             (s, p') \<Rightarrow>
               (if s = None then ESB_OUT_OF_MEMORY else ESB_SUCCESS, p', b', m\<lparr>reqMethod := s\<rparr>))
        else if IsToken c then parseMethod alloc (wb_put p c) b' m
        else (ES_HTTP_BAD_REQUEST_METHOD, p, b', m))"
  by pat_completeness auto
termination
  by (relation "measure (\<lambda>(_, _, b, _). unat (readable b))")
     (auto dest!: readable_next_less simp: prod_eq_iff)

declare parseMethod.simps [simp del]

definition parseRequestUri ::
  "'a alloc_fn \<Rightarrow> 'a request_parser \<Rightarrow> buffer \<Rightarrow> http_request \<Rightarrow> 'a request_result" where
  "parseRequestUri alloc p b m =
     (case uri_parse alloc (uri_view p) b (requestUri m) of
        (e, q, b', u) \<Rightarrow> (e, with_uri p q, b', m\<lparr>requestUri := u\<rparr>))"

text \<open>\<open>parseStartLine\<close>: its three stages, each going on with the next.\<close>

definition request_version_stage ::
  "'a request_parser \<Rightarrow> buffer \<Rightarrow> http_request \<Rightarrow> 'a request_result" where
  "request_version_stage p b m =
     (if has_flag (requestState p) ES_PARSING_HTTP_VERSION then
        (case parseVersion b m False of
           (e, b', m') \<Rightarrow>
             if e \<noteq> ESB_SUCCESS then (e, p, b', m')
             else (ESB_SUCCESS, wb_clear (req_enter ES_PARSING_HTTP_VERSION ES_REQUEST_PARSE_COMPLETE p),
                   readMark b', m'))
      else (ESB_INVALID_STATE, p, b, m))"

definition request_uri_stage ::
  "'a alloc_fn \<Rightarrow> 'a request_parser \<Rightarrow> buffer \<Rightarrow> http_request \<Rightarrow> 'a request_result" where
  "request_uri_stage alloc p b m =
     (if has_flag (requestState p) ES_PARSING_REQUEST_URI then
        if_success (parseRequestUri alloc p b m)
          (\<lambda>p' b' m'. request_version_stage
             (wb_clear (req_enter ES_PARSING_REQUEST_URI ES_PARSING_HTTP_VERSION p')) (readMark b') m')
      else request_version_stage p b m)"

definition request_method_stage ::
  "'a alloc_fn \<Rightarrow> 'a request_parser \<Rightarrow> buffer \<Rightarrow> http_request \<Rightarrow> 'a request_result" where
  "request_method_stage alloc p b m =
     (if has_flag (requestState p) ES_PARSING_METHOD then
        if_success (parseMethod alloc p b m)
          (\<lambda>p' b' m'. request_uri_stage alloc
             (wb_clear (req_enter ES_PARSING_METHOD ES_PARSING_REQUEST_URI p')) (readMark b') m')
      else request_uri_stage alloc p b m)"

definition request_parseStartLine ::
  "'a alloc_fn \<Rightarrow> 'a request_parser \<Rightarrow> buffer \<Rightarrow> http_request \<Rightarrow> 'a request_result" where
  "request_parseStartLine alloc p b m =
     (if has_flag (requestState p) ES_REQUEST_PARSE_COMPLETE then (ESB_INVALID_STATE, p, b, m)
      else if requestState p = 0
      then request_method_stage alloc (wb_clear (p\<lparr>requestState := ES_PARSING_METHOD\<rparr>)) (readMark b) m
      else request_method_stage alloc p b m)"

definition request_isBodyNotAllowed :: "http_request \<Rightarrow> bool option" where
  "request_isBodyNotAllowed m =
     (case reqMethod m of
        None \<Rightarrow> None
      | Some s \<Rightarrow> Some (strcasecmp (asc ''GET'') s = 0 \<or> strcasecmp (asc ''DELETE'') s = 0))"

definition request_parseHeaders ::
  "'a alloc_fn \<Rightarrow> 'a request_parser \<Rightarrow> buffer \<Rightarrow> http_request \<Rightarrow> 'a request_result" where
  "request_parseHeaders alloc =
     parseHeaders alloc (request_parseStartLine alloc) request_isBodyNotAllowed"

section \<open>The request line is incremental\<close>

definition request_line_ok :: "'a request_parser \<Rightarrow> buffer \<Rightarrow> http_request \<Rightarrow> bool" where
  "request_line_ok p b m \<longleftrightarrow> buf_inv b \<and> buf_inv (workingBuffer p) \<and>
     (requestState p = 0 \<and> requestUriState p = 0
      \<or> requestState p = ES_PARSING_METHOD \<and> requestUriState p = 0
      \<or> requestState p = ES_PARSING_REQUEST_URI \<and> uri_ok (uri_view p) b (requestUri m)
      \<or> requestState p = ES_PARSING_HTTP_VERSION \<or> requestState p = ES_REQUEST_PARSE_COMPLETE)"

lemma req_enter_simps [simp]:
  "requestState (req_enter old new p) = transition (requestState p) old new"
  "requestUriState (req_enter old new p) = requestUriState p"
  "workingBuffer (req_enter old new p) = workingBuffer p"
  "msgState (req_enter old new p) = msgState p"
  by (simp_all add: req_enter_def)

lemma wb_request_state [simp]:
  "requestState (wb_put p c) = requestState p" "requestState (wb_clear p) = requestState p"
  "requestUriState (wb_put p c) = requestUriState p" "requestUriState (wb_clear p) = requestUriState p"
  by (simp_all add: wb_put_def wb_clear_def)

lemma wb_dup_request:
  fixes p :: "'a request_parser"
  assumes "wb_dup alloc p = (s, p')"
  shows "requestState p' = requestState p" "requestUriState p' = requestUriState p"
    "workingBuffer p' = workingBuffer p" "msgState p' = msgState p"
  using assms by (auto simp: wb_dup_def split: prod.splits)

lemma uri_view_simps [simp]:
  "workingBuffer (uri_view p) = workingBuffer p" "uriState (uri_view p) = requestUriState p"
  "uri_view (with_uri p q) = q" "with_uri (with_uri p q) r = with_uri p r"
  "requestState (with_uri p q) = requestState p" "workingBuffer (with_uri p q) = workingBuffer q"
  "requestUriState (with_uri p q) = uriState q" "msgState (with_uri p q) = msgState p"
  by (simp_all add: uri_view_def with_uri_def)

lemma request_flags [simp]:
  "has_flag 4 4" "\<not> has_flag 4 1" "\<not> has_flag 4 2" "has_flag 2 2" "\<not> has_flag 2 1" "has_flag 1 1"
  "\<not> has_flag 1 8" "\<not> has_flag 2 8" "\<not> has_flag 4 8" "has_flag 8 8"
  "transition 4 4 8 = 8" "transition 2 2 4 = 4" "transition 1 1 2 = 2"
  by (simp_all add: has_flag_def transition_def)

lemma version_stage_resumes:
  assumes inv: "buf_inv b" "buf_inv (workingBuffer p)" and st: "requestState p = ES_PARSING_HTTP_VERSION"
  shows "resumes (\<lambda>b. request_version_stage p b m) (request_parseStartLine alloc) request_line_ok b"
proof -
  obtain e b' m' where v: "parseVersion b m False = (e, b', m')" "advances b b'"
    "e = ESB_AGAIN \<Longrightarrow> m' = m"
    "\<And>bs. fits b bs \<Longrightarrow> parseVersion (receive b bs) m False =
      (if e = ESB_AGAIN then parseVersion (receive b' bs) m False else (e, receive b' bs, m'))"
    by (rule parseVersion_receive [OF inv(1), of m False]) blast
  show ?thesis
    by (rule resumes_scan [where g = "\<lambda>b m. parseVersion b m False" and p = p and m = m
          and k = "\<lambda>b m. (ESB_SUCCESS, wb_clear (req_enter 4 8 p), b, m)", OF inv(1) v])
       (use inv(2) st in \<open>auto simp: request_version_stage_def request_parseStartLine_def
          request_method_stage_def request_uri_stage_def request_line_ok_def intro!: resumes_id\<close>)
qed

definition request_uri_ok :: "'a request_parser \<Rightarrow> buffer \<Rightarrow> http_request \<Rightarrow> bool" where
  "request_uri_ok p b m \<longleftrightarrow> requestState p = ES_PARSING_REQUEST_URI \<and> uri_ok (uri_view p) b (requestUri m)"

lemma request_uri_okD:
  "request_uri_ok p b m \<Longrightarrow> buf_inv b" "request_uri_ok p b m \<Longrightarrow> buf_inv (workingBuffer p)"
  "request_uri_ok p b m \<Longrightarrow> request_line_ok p b m"
  by (simp_all add: request_uri_ok_def request_line_ok_def uri_ok_def)

lemma parseRequestUri_resumes:
  assumes "request_uri_ok p b m"
  shows "resumes (\<lambda>b. parseRequestUri alloc p b m) (parseRequestUri alloc) request_uri_ok b"
proof (rule resumes_part [where P = "with_uri p" and M = "\<lambda>u. m\<lparr>requestUri := u\<rparr>"])
  show "resumes (\<lambda>b. uri_parse alloc (uri_view p) b (requestUri m)) (uri_parse alloc) uri_ok b"
    using assms by (intro uri_parse_resumes) (simp add: request_uri_ok_def)
  show "parseRequestUri alloc p b m = (case uri_parse alloc (uri_view p) b (requestUri m) of
      (e, q, b', u) \<Rightarrow> (e, with_uri p q, b', m\<lparr>requestUri := u\<rparr>))" for b
    by (simp add: parseRequestUri_def)
  show "parseRequestUri alloc (with_uri p q) b (m\<lparr>requestUri := u\<rparr>) = (case uri_parse alloc q b u of
      (e, q', b', u') \<Rightarrow> (e, with_uri p q', b', m\<lparr>requestUri := u'\<rparr>))" for q b u
    by (simp add: parseRequestUri_def split: prod.splits)
  show "uri_ok q b u \<Longrightarrow> request_uri_ok (with_uri p q) b (m\<lparr>requestUri := u\<rparr>)" for q b u
    using assms by (simp add: request_uri_ok_def)
qed

lemma uri_stage_resumes:
  fixes p :: "'a request_parser"
  assumes ok: "request_uri_ok p b m"
  shows "resumes (\<lambda>b. request_uri_stage alloc p b m) (request_parseStartLine alloc) request_line_ok b"
proof -
  define k where "k p' b' m' = request_version_stage
      (wb_clear (req_enter ES_PARSING_REQUEST_URI ES_PARSING_HTTP_VERSION p')) (readMark b') m'"
    for p' :: "'a request_parser" and b' m'
  have stage: "request_uri_stage alloc p b m = if_success (parseRequestUri alloc p b m) k"
    if "requestState p = ES_PARSING_REQUEST_URI" for p b m
    using that by (simp add: request_uri_stage_def k_def [abs_def])
  have "resumes (\<lambda>b. if_success (parseRequestUri alloc p b m) k) (request_parseStartLine alloc) request_line_ok b"
  proof (rule resumes_bind [OF parseRequestUri_resumes [OF ok]])
    fix p1 :: "'a request_parser" and b1 m1
    assume ok1: "request_uri_ok p1 b1 m1"
    show "request_line_ok p1 b1 m1 \<and> (\<forall>bs. fits b1 bs \<longrightarrow>
        request_parseStartLine alloc p1 (receive b1 bs) m1 =
          if_success (parseRequestUri alloc p1 (receive b1 bs) m1) k \<or>
        fst (if_success (parseRequestUri alloc p1 (receive b1 bs) m1) k) \<in> {})"
      using request_uri_okD(3) [OF ok1] ok1
      by (simp add: request_parseStartLine_def request_method_stage_def stage request_uri_ok_def)
    show "resumes (\<lambda>b. k p1 b m1) (request_parseStartLine alloc) request_line_ok b1"
      unfolding k_def using request_uri_okD(1,2) [OF ok1] ok1
      by (intro resumes_call [where g = readMark] version_stage_resumes)
         (auto simp: readMark_receive consumed_mark request_uri_ok_def)
  qed simp
  then show ?thesis
    using ok by (simp add: stage request_uri_ok_def)
qed

definition method_ok :: "'a request_parser \<Rightarrow> buffer \<Rightarrow> http_request \<Rightarrow> bool" where
  "method_ok p b m \<longleftrightarrow> buf_inv b \<and> buf_inv (workingBuffer p) \<and>
     requestState p = ES_PARSING_METHOD \<and> requestUriState p = 0"

lemma resumes_save_method:
  assumes "method_ok p b m"
  shows "resumes (\<lambda>b. case wb_dup alloc p of (s, p') \<Rightarrow>
      (if s = None then ESB_OUT_OF_MEMORY else ESB_SUCCESS, p', b, m\<lparr>reqMethod := s\<rparr>)) later method_ok b"
proof -
  obtain s p' where s: "wb_dup alloc p = (s, p')"
    by (cases "wb_dup alloc p")
  show ?thesis
    using assms wb_dup_request [OF s] unfolding s prod.case
    by (intro resumes_id) (auto simp: method_ok_def)
qed

lemma parseMethod_resumes:
  "method_ok p b m \<Longrightarrow> resumes (\<lambda>b. parseMethod alloc p b m) (parseMethod alloc) method_ok b"
proof (induction b arbitrary: p rule: measure_induct_rule [of "\<lambda>b. unat (readable b)"])
  case (less b)
  show ?case
  proof (rule resumes_read, rule parseMethod.simps, rule refl)
    show "buf_inv b" "method_ok p b m"
      using less.prems by (auto simp: method_ok_def)
  qed (intro resumes_if resumes_id resumes_save_method less.IH;
       use less.prems in \<open>auto simp: method_ok_def\<close>)
qed

lemma method_stage_resumes:
  fixes p :: "'a request_parser"
  assumes ok: "method_ok p b m"
  shows "resumes (\<lambda>b. request_method_stage alloc p b m) (request_parseStartLine alloc) request_line_ok b"
proof -
  define k where "k p' b' m' = request_uri_stage alloc
      (wb_clear (req_enter ES_PARSING_METHOD ES_PARSING_REQUEST_URI p')) (readMark b') m'"
    for p' :: "'a request_parser" and b' m'
  have stage: "request_method_stage alloc p b m = if_success (parseMethod alloc p b m) k"
    if "requestState p = ES_PARSING_METHOD" for p b m
    using that by (simp add: request_method_stage_def k_def [abs_def])
  have "resumes (\<lambda>b. if_success (parseMethod alloc p b m) k) (request_parseStartLine alloc) request_line_ok b"
  proof (rule resumes_bind [OF parseMethod_resumes [OF ok]])
    fix p1 :: "'a request_parser" and b1 m1
    assume ok1: "method_ok p1 b1 m1"
    then show "request_line_ok p1 b1 m1 \<and> (\<forall>bs. fits b1 bs \<longrightarrow>
        request_parseStartLine alloc p1 (receive b1 bs) m1 =
          if_success (parseMethod alloc p1 (receive b1 bs) m1) k \<or>
        fst (if_success (parseMethod alloc p1 (receive b1 bs) m1) k) \<in> {})"
      by (simp add: request_parseStartLine_def stage method_ok_def request_line_ok_def)
    from ok1 show "resumes (\<lambda>b. k p1 b m1) (request_parseStartLine alloc) request_line_ok b1"
      unfolding k_def
      by (intro resumes_call [where g = readMark] uri_stage_resumes)
         (auto simp: readMark_receive consumed_mark request_uri_ok_def uri_ok_def method_ok_def uri_states_def)
  qed simp
  then show ?thesis
    using ok by (simp add: stage method_ok_def)
qed

lemma request_line_resumes:
  assumes ok: "request_line_ok p b m"
  shows "resumes (\<lambda>b. request_parseStartLine alloc p b m) (request_parseStartLine alloc) request_line_ok b"
proof -
  have inv: "buf_inv b" "buf_inv (workingBuffer p)"
    using ok by (auto simp: request_line_ok_def)
  consider "requestState p = 0" "requestUriState p = 0" | "requestState p = 1" "requestUriState p = 0"
    | "requestState p = 2" "uri_ok (uri_view p) b (requestUri m)" | "requestState p = 4" | "requestState p = 8"
    using ok by (auto simp: request_line_ok_def)
  then show ?thesis
  proof cases
    case 1
    have "resumes (\<lambda>b. request_method_stage alloc (wb_clear (p\<lparr>requestState := 1\<rparr>)) (readMark b) m)
        (request_parseStartLine alloc) request_line_ok b"
      using inv 1 by (intro resumes_call [where g = readMark] method_stage_resumes)
        (auto simp: readMark_receive consumed_mark method_ok_def)
    then show ?thesis
      using 1 by (simp add: request_parseStartLine_def)
  next
    case 2
    then show ?thesis
      using inv method_stage_resumes [of p b m alloc] by (simp add: request_parseStartLine_def method_ok_def)
  next
    case 3
    then show ?thesis
      using uri_stage_resumes [of p b m alloc]
      by (simp add: request_parseStartLine_def request_method_stage_def request_uri_ok_def)
  next
    case 4
    then show ?thesis
      using version_stage_resumes [OF inv 4, of m alloc]
      by (simp add: request_parseStartLine_def request_method_stage_def request_uri_stage_def)
  next
    case 5
    then show ?thesis
      using inv(1) by (auto simp: request_parseStartLine_def intro!: resumes_id)
  qed
qed

text \<open>The message parser's state is not touched by the request line.\<close>

lemma parseMethod_msgState:
  "parseMethod alloc p b m = (e, p', b', m') \<Longrightarrow> msgState p' = msgState p"
proof (induction b arbitrary: p rule: measure_induct_rule [of "\<lambda>b. unat (readable b)"])
  case (less b)
  show ?case
  proof (cases "isReadable b \<and> isWritable (workingBuffer p)")
    case True
    then show ?thesis
      using less.prems less.IH [OF readable_next_less, of "wb_put p (fst (buf_next b))"]
      by (auto simp: parseMethod.simps [of _ _ b] dest: wb_dup_request split: prod.splits if_splits)
  next
    case False
    then show ?thesis
      using less.prems by (auto simp: parseMethod.simps [of _ _ b] split: if_splits)
  qed
qed

lemma request_line_msgState:
  assumes "request_parseStartLine alloc p b m = (e, p', b', m')"
  shows "msgState p' = msgState p"
proof -
  have v: "msgState p' = msgState p" if "request_version_stage p b m = (e, p', b', m')" for p b m p'
    using that by (auto simp: request_version_stage_def split: prod.splits if_splits)
  have u: "msgState p' = msgState p" if "request_uri_stage alloc p b m = (e, p', b', m')" for p b m p'
    using that by (auto simp: request_uri_stage_def parseRequestUri_def if_success_def
        dest!: v split: prod.splits if_splits)
  have w: "msgState p' = msgState p" if "request_method_stage alloc p b m = (e, p', b', m')" for p b m p'
    using that by (auto simp: request_method_stage_def if_success_def
        dest!: u parseMethod_msgState split: prod.splits if_splits)
  show ?thesis
    using assms by (auto simp: request_parseStartLine_def dest!: w split: if_splits)
qed

section \<open>The request headers are incremental\<close>

definition request_fresh :: "'a request_parser \<Rightarrow> bool" where
  "request_fresh p \<longleftrightarrow> requestState p = 0 \<and> requestUriState p = 0"

interpretation request_line: start_line_parser "request_parseStartLine alloc" request_line_ok request_fresh
  for alloc
proof
  show "request_line_ok p b m \<Longrightarrow> buf_inv b" for p :: "'a request_parser" and b m
    by (simp add: request_line_ok_def)
  show "request_line_ok p b m \<Longrightarrow> fits b bs \<Longrightarrow> request_line_ok p (receive b bs) m"
    for p :: "'a request_parser" and b m bs
    using uri_stream.ok_receive by (auto simp: request_line_ok_def receive_inv)
  show "request_line_ok p b m \<Longrightarrow>
      resumes (\<lambda>b. request_parseStartLine alloc p b m) (request_parseStartLine alloc) request_line_ok b" for p b m
    by (rule request_line_resumes)
  show "request_line_ok p b m \<Longrightarrow> buf_inv (workingBuffer p)" for p :: "'a request_parser" and b m
    by (simp add: request_line_ok_def)
  show "request_parseStartLine alloc p b m = (e, p', b', m') \<Longrightarrow> msgState p' = msgState p" for p b m e p' b' m'
    by (rule request_line_msgState)
  show "request_fresh p \<Longrightarrow> buf_inv (workingBuffer p) \<Longrightarrow> buf_inv b \<Longrightarrow>
      request_line_ok (wb_clear (p\<lparr>msgState := ES_PARSING_START_LINE\<rparr>)) (readMark b) m"
    for p :: "'a request_parser" and b m
    by (auto simp: request_line_ok_def request_fresh_def)
qed

definition request_headers_ok :: "'a request_parser \<Rightarrow> buffer \<Rightarrow> http_request \<Rightarrow> bool" where
  "request_headers_ok = headers_ok request_fresh request_line_ok"

interpretation request_stream:
  incremental_parser "request_parseHeaders alloc" request_headers_ok stray_header_errors for alloc
  unfolding request_parseHeaders_def request_headers_ok_def by (rule request_line.headers_stream)

end
