(* ===== verification/ResponseParser.thy ===== *)
theory ResponseParser
  imports MessageIncremental
begin

text \<open>
  \<open>ES::HttpResponseParser\<close> (data-plane/http1/source/ESHttpResponseParser.cpp): the status line,
  and the interpretation of \<open>start_line_parser\<close> that makes the response headers incremental.
\<close>

section \<open>The parser\<close>

record 'a response_parser = "'a message_parser" +
  responseState :: u32

abbreviation (input) ES_PARSING_VERSION :: u32 where "ES_PARSING_VERSION \<equiv> 1"
abbreviation (input) ES_PARSING_STATUS_CODE :: u32 where "ES_PARSING_STATUS_CODE \<equiv> 2"
abbreviation (input) ES_PARSING_REASON_PHRASE :: u32 where "ES_PARSING_REASON_PHRASE \<equiv> 4"
abbreviation (input) ES_RESPONSE_PARSE_COMPLETE :: u32 where "ES_RESPONSE_PARSE_COMPLETE \<equiv> 8"

type_synonym 'a response_result = "error \<times> 'a response_parser \<times> buffer \<times> http_response"

definition new_response_parser :: "buffer \<Rightarrow> 'a \<Rightarrow> 'a response_parser" where
  "new_response_parser wb al = \<lparr>workingBuffer = wb, allocator = al, msgState = 0,
     bodyBytesRemaining = 0, responseState = 0\<rparr>"

definition response_parser_reset :: "'a response_parser \<Rightarrow> 'a response_parser" where
  "response_parser_reset p = (message_parser_reset p)\<lparr>responseState := 0\<rparr>"

definition res_enter :: "u32 \<Rightarrow> u32 \<Rightarrow> 'a response_parser \<Rightarrow> 'a response_parser" where
  "res_enter old new p = p\<lparr>responseState := transition (responseState p) old new\<rparr>"

text \<open>The for loop of \<open>parseStatusCode\<close>, with the rounds still to go and the code so far.\<close>

fun status_loop :: "nat \<Rightarrow> int \<Rightarrow> buffer \<Rightarrow> error \<times> int \<times> buffer" where
  "status_loop 0 code b = (ESB_SUCCESS, code, b)"
| "status_loop (Suc i) code b =
     (let (c, b') = buf_next b in
      if \<not> IsDigit c then (ES_HTTP_BAD_STATUS_CODE, code, b')
      else status_loop i (code * 10 + (uint c - 48)) b')"

definition parseStatusCode :: "buffer \<Rightarrow> http_response \<Rightarrow> error \<times> buffer \<times> http_response" where
  "parseStatusCode b m =
     (let b1 = SkipSpaces b in
      if 4 > readable b1 then (ESB_AGAIN, b1, m)
      else
        case status_loop 3 0 b1 of
          (e, code, b2) \<Rightarrow>
            if e \<noteq> ESB_SUCCESS then (e, b2, m)
            else
              case buf_next b2 of
                (c, b3) \<Rightarrow>
                  if \<not> IsSpace c then (ES_HTTP_BAD_STATUS_CODE, b3, m)
                  else (ESB_SUCCESS, b3, m\<lparr>statusCode := code\<rparr>))"

definition save_reason ::
  "'a alloc_fn \<Rightarrow> 'a response_parser \<Rightarrow> http_response \<Rightarrow> error \<times> 'a response_parser \<times> http_response" where
  "save_reason alloc p m =
     (case wb_dup alloc p of
        (None, p') \<Rightarrow> (ESB_OUT_OF_MEMORY, p', m)
      | (Some s, p') \<Rightarrow> (ESB_SUCCESS, p', m\<lparr>reasonPhrase := Some s\<rparr>))"

function parseReasonPhrase ::
  "'a alloc_fn \<Rightarrow> 'a response_parser \<Rightarrow> buffer \<Rightarrow> http_response \<Rightarrow> 'a response_result" where
  "parseReasonPhrase alloc p b m =
     (if \<not> isReadable b then (ESB_AGAIN, p, b, m)
      else if \<not> isWritable (workingBuffer p) then (ESB_OVERFLOW, p, b, m)
      else
        let (c, b') = buf_next b in
        if IsLWS c then
          (case SkipLWS (setReadPosition b' (rdPos b' - 1)) of
             (e, b2) \<Rightarrow>
               if e = ESB_SUCCESS then (case save_reason alloc p m of (e, p', m') \<Rightarrow> (e, p', b2, m'))
               else if e = ESB_INPROGRESS then
                 (if readable b2 \<le> readable b' then parseReasonPhrase alloc (wb_fold_space p) b2 m
                  else (UNDEFINED_BEHAVIOUR, p, b2, m))
               else (e, p, b2, m))
        else if IsText c then parseReasonPhrase alloc (wb_put p c) b' m
        else (ES_HTTP_BAD_REASON_PHRASE, p, b', m))"
  by pat_completeness auto
termination
  by (relation "measure (\<lambda>(_, _, b, _). unat (readable b))")
     (auto dest!: readable_next_less simp: prod_eq_iff word_le_nat_alt)

declare parseReasonPhrase.simps [simp del]

text \<open>\<open>parseStartLine\<close>: its three stages.\<close>

definition reason_stage ::
  "'a alloc_fn \<Rightarrow> 'a response_parser \<Rightarrow> buffer \<Rightarrow> http_response \<Rightarrow> 'a response_result" where
  "reason_stage alloc p b m =
     (if has_flag (responseState p) ES_PARSING_REASON_PHRASE then
        if_success (parseReasonPhrase alloc p b m)
          (\<lambda>p' b' m'. (ESB_SUCCESS,
             wb_clear (res_enter ES_PARSING_REASON_PHRASE ES_RESPONSE_PARSE_COMPLETE p'), readMark b', m'))
      else (ESB_INVALID_STATE, p, b, m))"

definition status_stage ::
  "'a alloc_fn \<Rightarrow> 'a response_parser \<Rightarrow> buffer \<Rightarrow> http_response \<Rightarrow> 'a response_result" where
  "status_stage alloc p b m =
     (if has_flag (responseState p) ES_PARSING_STATUS_CODE then
        (case parseStatusCode b m of
           (e, b', m') \<Rightarrow>
             if e \<noteq> ESB_SUCCESS then (e, p, b', m')
             else reason_stage alloc
                    (wb_clear (res_enter ES_PARSING_STATUS_CODE ES_PARSING_REASON_PHRASE p)) (readMark b') m')
      else reason_stage alloc p b m)"

definition response_version_stage ::
  "'a alloc_fn \<Rightarrow> 'a response_parser \<Rightarrow> buffer \<Rightarrow> http_response \<Rightarrow> 'a response_result" where
  "response_version_stage alloc p b m =
     (if has_flag (responseState p) ES_PARSING_VERSION then
        (case parseVersion b m True of
           (e, b', m') \<Rightarrow>
             if e \<noteq> ESB_SUCCESS then (e, p, b', m')
             else status_stage alloc
                    (wb_clear (res_enter ES_PARSING_VERSION ES_PARSING_STATUS_CODE p)) (readMark b') m')
      else status_stage alloc p b m)"

definition response_parseStartLine ::
  "'a alloc_fn \<Rightarrow> 'a response_parser \<Rightarrow> buffer \<Rightarrow> http_response \<Rightarrow> 'a response_result" where
  "response_parseStartLine alloc p b m =
     (if has_flag (responseState p) ES_RESPONSE_PARSE_COMPLETE then (ESB_INVALID_STATE, p, b, m)
      else if responseState p = 0
      then response_version_stage alloc (wb_clear (p\<lparr>responseState := ES_PARSING_VERSION\<rparr>)) (readMark b) m
      else response_version_stage alloc p b m)"

definition response_isBodyNotAllowed :: "http_response \<Rightarrow> bool option" where
  "response_isBodyNotAllowed m =
     Some (if statusCode m = 204 \<or> statusCode m = 304 then True else 200 \<le> statusCode m)"

definition response_parseHeaders ::
  "'a alloc_fn \<Rightarrow> 'a response_parser \<Rightarrow> buffer \<Rightarrow> http_response \<Rightarrow> 'a response_result" where
  "response_parseHeaders alloc =
     parseHeaders alloc (response_parseStartLine alloc) response_isBodyNotAllowed"

section \<open>The status line is incremental\<close>

definition status_line_ok :: "'a response_parser \<Rightarrow> buffer \<Rightarrow> http_response \<Rightarrow> bool" where
  "status_line_ok p b m \<longleftrightarrow> buf_inv b \<and> buf_inv (workingBuffer p) \<and>
     responseState p \<in> set [0, ES_PARSING_VERSION, ES_PARSING_STATUS_CODE, ES_PARSING_REASON_PHRASE,
       ES_RESPONSE_PARSE_COMPLETE]"

lemma res_enter_simps [simp]:
  "responseState (res_enter old new p) = transition (responseState p) old new"
  "workingBuffer (res_enter old new p) = workingBuffer p"
  "msgState (res_enter old new p) = msgState p"
  by (simp_all add: res_enter_def)

lemma wb_response_state [simp]:
  "responseState (wb_put p c) = responseState p" "responseState (wb_clear p) = responseState p"
  "responseState (wb_fold_space p) = responseState p"
  by (simp_all add: wb_put_def wb_clear_def wb_fold_space_def)

lemma response_flags [simp]:
  "has_flag 4 4" "\<not> has_flag 4 1" "\<not> has_flag 4 2" "has_flag 2 2" "\<not> has_flag 2 1" "has_flag 1 1"
  "\<not> has_flag 1 8" "\<not> has_flag 2 8" "\<not> has_flag 4 8" "has_flag 8 8"
  "transition 4 4 8 = 8" "transition 2 2 4 = 4" "transition 1 1 2 = 2"
  by (simp_all add: has_flag_def transition_def)

lemma save_reason_state:
  assumes "save_reason alloc p m = (e, p', m')"
  shows "e \<noteq> ESB_AGAIN" "msgState p' = msgState p" "workingBuffer p' = workingBuffer p"
    "responseState p' = responseState p"
  using assms by (auto simp: save_reason_def wb_dup_def split: prod.splits option.splits if_splits)

definition reason_ok :: "'a response_parser \<Rightarrow> buffer \<Rightarrow> http_response \<Rightarrow> bool" where
  "reason_ok p b m \<longleftrightarrow> buf_inv b \<and> buf_inv (workingBuffer p) \<and> responseState p = ES_PARSING_REASON_PHRASE"

lemma resumes_save_reason:
  assumes "reason_ok p b m"
  shows "resumes (\<lambda>b. case save_reason alloc p m of (e, p', m') \<Rightarrow> (e, p', b, m')) later reason_ok b"
proof -
  obtain e p' m' where s: "save_reason alloc p m = (e, p', m')"
    by (cases "save_reason alloc p m")
  show ?thesis
    using assms save_reason_state [OF s] unfolding s prod.case
    by (intro resumes_id) (auto simp: reason_ok_def)
qed

lemma parseReasonPhrase_resumes:
  "reason_ok p b m \<Longrightarrow> resumes (\<lambda>b. parseReasonPhrase alloc p b m) (parseReasonPhrase alloc) reason_ok b"
proof (induction b arbitrary: p rule: measure_induct_rule [of "\<lambda>b. unat (readable b)"])
  case (less b)
  show ?case
  proof (rule resumes_read, rule parseReasonPhrase.simps, rule refl)
    show inv: "buf_inv b" and ok: "reason_ok p b m"
      using less.prems by (auto simp: reason_ok_def)
    fix c b1
    assume b1: "isReadable b" "isWritable (workingBuffer p)" "buf_next b = (c, b1)" "buf_inv b1"
      "unat (readable b1) < unat (readable b)" "setReadPosition b1 (rdPos b1 - 1) = b" "consumed b1 b"
    define F where "F b' = (case SkipLWS (setReadPosition b' (rdPos b' - 1)) of (e, b2) \<Rightarrow>
        if e = ESB_SUCCESS then (case save_reason alloc p m of (e, p', m') \<Rightarrow> (e, p', b2, m'))
        else if e = ESB_INPROGRESS then
          (if readable b2 \<le> readable b' then parseReasonPhrase alloc (wb_fold_space p) b2 m
           else (UNDEFINED_BEHAVIOUR, p, b2, m))
        else (e, p, b2, m))" for b'
    have "resumes F (parseReasonPhrase alloc) reason_ok b1" if "IsLWS c"
    proof (rule resumes_lws [where F = F and p = p and b = b and c = c and m = m and ok = reason_ok
          and fin = "\<lambda>b2. case save_reason alloc p m of (e, p', m') \<Rightarrow> (e, p', b2, m')"
          and go = "\<lambda>b2. parseReasonPhrase alloc (wb_fold_space p) b2 m"
          and jam = "\<lambda>b2. (UNDEFINED_BEHAVIOUR, p, b2, m)"])
      show "parseReasonPhrase alloc p (receive b bs) m = F (receive b1 bs)" if "fits b bs" for bs
        using b1(1-3) \<open>IsLWS c\<close> that
        by (simp add: parseReasonPhrase.simps [of alloc p "receive b bs"] isReadable_receive buf_next_receive F_def)
      show "resumes (\<lambda>b2. parseReasonPhrase alloc (wb_fold_space p) b2 m) (parseReasonPhrase alloc) reason_ok b2"
        if "buf_inv b2" "unat (readable b2) \<le> unat (readable b1)" for b2
        by (rule less.IH) (use that less.prems b1(5) in \<open>auto simp: reason_ok_def\<close>)
      show "resumes (\<lambda>b2. case save_reason alloc p m of (e, p', m') \<Rightarrow> (e, p', b2, m'))
          (parseReasonPhrase alloc) reason_ok b2" if "buf_inv b2" for b2
        by (rule resumes_save_reason) (use that less.prems in \<open>auto simp: reason_ok_def\<close>)
    qed (use that b1 inv ok in \<open>simp_all add: F_def\<close>)
    then show "resumes (\<lambda>b'. if IsLWS c then
          (case SkipLWS (setReadPosition b' (rdPos b' - 1)) of
             (e, b2) \<Rightarrow>
               if e = ESB_SUCCESS then (case save_reason alloc p m of (e, p', m') \<Rightarrow> (e, p', b2, m'))
               else if e = ESB_INPROGRESS then
                 (if readable b2 \<le> readable b' then parseReasonPhrase alloc (wb_fold_space p) b2 m
                  else (UNDEFINED_BEHAVIOUR, p, b2, m))
               else (e, p, b2, m))
        else if IsText c then parseReasonPhrase alloc (wb_put p c) b' m
        else (ES_HTTP_BAD_REASON_PHRASE, p, b', m)) (parseReasonPhrase alloc) reason_ok b1"
      unfolding F_def
      by (intro resumes_if resumes_id less.IH; use less.prems b1 in \<open>auto simp: reason_ok_def\<close>)
  qed
qed

lemma reason_stage_resumes:
  fixes p :: "'a response_parser"
  assumes ok: "reason_ok p b m"
  shows "resumes (\<lambda>b. reason_stage alloc p b m) (response_parseStartLine alloc) status_line_ok b"
proof -
  define k where "k p' b' m' = (ESB_SUCCESS,
      wb_clear (res_enter ES_PARSING_REASON_PHRASE ES_RESPONSE_PARSE_COMPLETE p'), readMark b', m')"
    for p' :: "'a response_parser" and b' and m' :: http_response
  have stage: "reason_stage alloc p b m = if_success (parseReasonPhrase alloc p b m) k"
    if "responseState p = ES_PARSING_REASON_PHRASE" for p b m
    using that by (simp add: reason_stage_def k_def [abs_def])
  have "resumes (\<lambda>b. if_success (parseReasonPhrase alloc p b m) k) (response_parseStartLine alloc) status_line_ok b"
  proof (rule resumes_bind [OF parseReasonPhrase_resumes [OF ok]])
    fix p1 :: "'a response_parser" and b1 m1
    assume ok1: "reason_ok p1 b1 m1"
    then show "status_line_ok p1 b1 m1 \<and> (\<forall>bs. fits b1 bs \<longrightarrow>
        response_parseStartLine alloc p1 (receive b1 bs) m1 =
          if_success (parseReasonPhrase alloc p1 (receive b1 bs) m1) k \<or>
        fst (if_success (parseReasonPhrase alloc p1 (receive b1 bs) m1) k) \<in> {})"
      by (simp add: response_parseStartLine_def response_version_stage_def status_stage_def stage
          reason_ok_def status_line_ok_def)
    from ok1 show "resumes (\<lambda>b. k p1 b m1) (response_parseStartLine alloc) status_line_ok b1"
      unfolding k_def by (intro resumes_return [where g = readMark])
        (auto simp: readMark_receive consumed_mark reason_ok_def status_line_ok_def)
  qed simp
  then show ?thesis
    using ok by (simp add: stage reason_ok_def)
qed

text \<open>A fixed number of digits inside the data.\<close>

lemma status_loop_receive:
  assumes "buf_inv b" "n < length (unread b)"
  obtains e code' b' where "status_loop n code b = (e, code', b')" "advances b b'" "buf_inv b'"
    "e = ESB_SUCCESS \<or> e = ES_HTTP_BAD_STATUS_CODE" "e = ESB_SUCCESS \<Longrightarrow> 0 < length (unread b')"
    "\<And>bs. fits b bs \<Longrightarrow> status_loop n code (receive b bs) = (e, code', receive b' bs)"
  using assms
proof (induction n arbitrary: b code thesis)
  case 0
  show ?case
    by (rule "0.prems"(1) [of ESB_SUCCESS code b]) (use 0 in auto)
next
  case (Suc n)
  have "0 < length (unread b)"
    using Suc.prems(3) by linarith
  with Suc.prems(2) obtain c b1 where n: "buf_next b = (c, b1)" "buf_inv b1" "advances b b1"
    "unread b = c # unread b1" "\<And>bs. fits b bs \<Longrightarrow> buf_next (receive b bs) = (c, receive b1 bs)"
    "\<And>bs. fits b bs \<Longrightarrow> fits b1 bs"
    by (rule next_within) blast
  show ?case
  proof (cases "IsDigit c")
    case False
    show ?thesis
      by (rule Suc.prems(1) [of ES_HTTP_BAD_STATUS_CODE code b1]) (use n False in auto)
  next
    case True
    have len: "n < length (unread b1)"
      using Suc.prems(3) n(4) by simp
    obtain e code' b' where r: "status_loop n (code * 10 + (uint c - 48)) b1 = (e, code', b')"
      "advances b1 b'" "buf_inv b'" "e = ESB_SUCCESS \<or> e = ES_HTTP_BAD_STATUS_CODE"
      "e = ESB_SUCCESS \<Longrightarrow> 0 < length (unread b')"
      "\<And>bs. fits b1 bs \<Longrightarrow> status_loop n (code * 10 + (uint c - 48)) (receive b1 bs) = (e, code', receive b' bs)"
      by (rule Suc.IH [OF _ n(2) len, of "code * 10 + (uint c - 48)"]) blast
    show ?thesis
      by (rule Suc.prems(1) [of e code' b'])
         (use n True r advances_trans [OF n(3) r(2)] in auto)
  qed
qed

lemma parseStatusCode_receive:
  assumes inv: "buf_inv b"
  obtains e b' m' where "parseStatusCode b m = (e, b', m')" "advances b b'"
    "e = ESB_AGAIN \<Longrightarrow> m' = m"
    "\<And>bs. fits b bs \<Longrightarrow> parseStatusCode (receive b bs) m =
      (if e = ESB_AGAIN then parseStatusCode (receive b' bs) m else (e, receive b' bs, m'))"
proof (rule wait_then_receive [OF inv, where n = 4 and m = m and F = "\<lambda>b. parseStatusCode b m"
      and G = "\<lambda>b1. case status_loop 3 0 b1 of (e, code, b2) \<Rightarrow>
         if e \<noteq> ESB_SUCCESS then (e, b2, m)
         else case buf_next b2 of (c, b3) \<Rightarrow>
           if \<not> IsSpace c then (ES_HTTP_BAD_STATUS_CODE, b3, m) else (ESB_SUCCESS, b3, m\<lparr>statusCode := code\<rparr>)"])
  show "parseStatusCode b m = (if unat (readable (SkipSpaces b)) < 4 then (ESB_AGAIN, SkipSpaces b, m)
     else case status_loop 3 0 (SkipSpaces b) of (e, code, b2) \<Rightarrow>
         if e \<noteq> ESB_SUCCESS then (e, b2, m)
         else case buf_next b2 of (c, b3) \<Rightarrow>
           if \<not> IsSpace c then (ES_HTTP_BAD_STATUS_CODE, b3, m) else (ESB_SUCCESS, b3, m\<lparr>statusCode := code\<rparr>))" for b
    by (simp add: parseStatusCode_def Let_def word_less_nat_alt)
  fix b1 :: buffer
  assume inv1: "buf_inv b1" and len: "4 \<le> length (unread b1)"
  then have "3 < length (unread b1)" by simp
  with inv1 obtain e code b2 where l: "status_loop 3 0 b1 = (e, code, b2)" "advances b1 b2" "buf_inv b2"
    "e = ESB_SUCCESS \<or> e = ES_HTTP_BAD_STATUS_CODE" "e = ESB_SUCCESS \<Longrightarrow> 0 < length (unread b2)"
    "\<And>bs. fits b1 bs \<Longrightarrow> status_loop 3 0 (receive b1 bs) = (e, code, receive b2 bs)"
    by (rule status_loop_receive) blast
  show "\<exists>e b' m'. (case status_loop 3 0 b1 of (e, code, b2) \<Rightarrow>
         if e \<noteq> ESB_SUCCESS then (e, b2, m)
         else case buf_next b2 of (c, b3) \<Rightarrow>
           if \<not> IsSpace c then (ES_HTTP_BAD_STATUS_CODE, b3, m) else (ESB_SUCCESS, b3, m\<lparr>statusCode := code\<rparr>))
      = (e, b', m') \<and> advances b1 b' \<and> e \<noteq> ESB_AGAIN \<and>
      (\<forall>bs. fits b1 bs \<longrightarrow> (case status_loop 3 0 (receive b1 bs) of (e, code, b2) \<Rightarrow>
         if e \<noteq> ESB_SUCCESS then (e, b2, m)
         else case buf_next b2 of (c, b3) \<Rightarrow>
           if \<not> IsSpace c then (ES_HTTP_BAD_STATUS_CODE, b3, m) else (ESB_SUCCESS, b3, m\<lparr>statusCode := code\<rparr>))
        = (e, receive b' bs, m'))"
  proof (cases "e = ESB_SUCCESS")
    case False
    then show ?thesis using l by auto
  next
    case True
    obtain c b3 where n: "buf_next b2 = (c, b3)" "advances b2 b3"
      "\<And>bs. fits b2 bs \<Longrightarrow> buf_next (receive b2 bs) = (c, receive b3 bs)"
      by (rule next_within [OF l(3) l(5) [OF True]]) blast
    show ?thesis
      using True l(1,6) n advances_trans [OF l(2) n(2)] advances_fits [OF _ l(2)] by simp
  qed
qed (use that in \<open>blast | simp\<close>)+

lemma status_stage_resumes:
  assumes inv: "buf_inv b" "buf_inv (workingBuffer p)" and st: "responseState p = ES_PARSING_STATUS_CODE"
  shows "resumes (\<lambda>b. status_stage alloc p b m) (response_parseStartLine alloc) status_line_ok b"
proof -
  obtain e b' m' where v: "parseStatusCode b m = (e, b', m')" "advances b b'" "e = ESB_AGAIN \<Longrightarrow> m' = m"
    "\<And>bs. fits b bs \<Longrightarrow> parseStatusCode (receive b bs) m =
      (if e = ESB_AGAIN then parseStatusCode (receive b' bs) m else (e, receive b' bs, m'))"
    by (rule parseStatusCode_receive [OF inv(1), of m]) blast
  show ?thesis
    by (rule resumes_scan [where g = parseStatusCode and p = p and m = m
          and k = "\<lambda>b m. reason_stage alloc (wb_clear (res_enter 2 4 p)) b m", OF inv(1) v])
       (use inv(2) st in \<open>auto simp: status_stage_def response_parseStartLine_def
          response_version_stage_def status_line_ok_def reason_ok_def intro!: reason_stage_resumes\<close>)
qed

lemma response_version_stage_resumes:
  assumes inv: "buf_inv b" "buf_inv (workingBuffer p)" and st: "responseState p = ES_PARSING_VERSION"
  shows "resumes (\<lambda>b. response_version_stage alloc p b m) (response_parseStartLine alloc) status_line_ok b"
proof -
  obtain e b' m' where v: "parseVersion b m True = (e, b', m')" "advances b b'" "e = ESB_AGAIN \<Longrightarrow> m' = m"
    "\<And>bs. fits b bs \<Longrightarrow> parseVersion (receive b bs) m True =
      (if e = ESB_AGAIN then parseVersion (receive b' bs) m True else (e, receive b' bs, m'))"
    by (rule parseVersion_receive [OF inv(1), of m True]) blast
  show ?thesis
    by (rule resumes_scan [where g = "\<lambda>b m. parseVersion b m True" and p = p and m = m
          and k = "\<lambda>b m. status_stage alloc (wb_clear (res_enter 1 2 p)) b m", OF inv(1) v])
       (use inv(2) st in \<open>auto simp: response_version_stage_def response_parseStartLine_def
          status_line_ok_def intro!: status_stage_resumes\<close>)
qed

lemma status_line_resumes:
  assumes ok: "status_line_ok p b m"
  shows "resumes (\<lambda>b. response_parseStartLine alloc p b m) (response_parseStartLine alloc) status_line_ok b"
proof -
  have inv: "buf_inv b" "buf_inv (workingBuffer p)"
    using ok by (auto simp: status_line_ok_def)
  consider "responseState p = 0" | "responseState p = 1" | "responseState p = 2" | "responseState p = 4"
    | "responseState p = 8"
    using ok by (auto simp: status_line_ok_def)
  then show ?thesis
  proof cases
    case 1
    have "resumes (\<lambda>b. response_version_stage alloc (wb_clear (p\<lparr>responseState := 1\<rparr>)) (readMark b) m)
        (response_parseStartLine alloc) status_line_ok b"
      using inv by (intro resumes_call [where g = readMark] response_version_stage_resumes)
        (auto simp: readMark_receive consumed_mark)
    with 1 show ?thesis by (simp add: response_parseStartLine_def)
  next
    case 2
    with response_version_stage_resumes [OF inv 2, of alloc m] show ?thesis
      by (simp add: response_parseStartLine_def)
  next
    case 3
    with status_stage_resumes [OF inv 3, of alloc m] show ?thesis
      by (simp add: response_parseStartLine_def response_version_stage_def)
  next
    case 4
    with inv reason_stage_resumes [of p b m alloc] show ?thesis
      by (simp add: response_parseStartLine_def response_version_stage_def status_stage_def reason_ok_def)
  next
    case 5
    with inv(1) show ?thesis
      by (auto simp: response_parseStartLine_def intro!: resumes_id)
  qed
qed

text \<open>The message parser's state is not touched by the status line.\<close>

lemma wb_fold_space_msgState: "msgState (wb_fold_space p) = msgState p" for p :: "'a response_parser"
  by simp

lemma parseReasonPhrase_msgState:
  "parseReasonPhrase alloc p b m = (e, p', b', m') \<Longrightarrow> msgState p' = msgState p"
proof (induction b arbitrary: p rule: measure_induct_rule [of "\<lambda>b. unat (readable b)"])
  case (less b)
  show ?case
  proof (cases "isReadable b \<and> isWritable (workingBuffer p)")
    case False
    then show ?thesis
      using less.prems by (auto simp: parseReasonPhrase.simps [of _ _ b] split: if_splits)
  next
    case True
    obtain c b1 where n: "buf_next b = (c, b1)" by (cases "buf_next b")
    have lt: "unat (readable b1) < unat (readable b)"
      using readable_next_less [of b] True n by simp
    obtain e2 b2 where s: "SkipLWS (setReadPosition b1 (rdPos b1 - 1)) = (e2, b2)"
      by (cases "SkipLWS (setReadPosition b1 (rdPos b1 - 1))")
    have IH: "parseReasonPhrase alloc q c m = (e, p', b', m') \<Longrightarrow>
        unat (readable c) \<le> unat (readable b1) \<Longrightarrow> msgState p' = msgState q" for c q
      using less.IH [of c q] lt by simp
    show ?thesis
      using less.prems True n s
      by (auto simp: parseReasonPhrase.simps [of _ _ b] word_le_nat_alt dest: save_reason_state(2) IH
          split: prod.splits if_splits)
  qed
qed

lemma status_line_msgState:
  assumes "response_parseStartLine alloc p b m = (e, p', b', m')"
  shows "msgState p' = msgState p"
proof -
  have r: "msgState p' = msgState p" if "reason_stage alloc p b m = (e, p', b', m')" for p b m p'
    using that by (auto simp: reason_stage_def if_success_def dest!: parseReasonPhrase_msgState
        split: prod.splits if_splits)
  have s: "msgState p' = msgState p" if "status_stage alloc p b m = (e, p', b', m')" for p b m p'
    using that by (auto simp: status_stage_def dest!: r split: prod.splits if_splits)
  have v: "msgState p' = msgState p" if "response_version_stage alloc p b m = (e, p', b', m')" for p b m p'
    using that by (auto simp: response_version_stage_def dest!: s split: prod.splits if_splits)
  show ?thesis
    using assms by (auto simp: response_parseStartLine_def dest!: v split: if_splits)
qed

section \<open>The response headers are incremental\<close>

definition response_fresh :: "'a response_parser \<Rightarrow> bool" where
  "response_fresh p \<longleftrightarrow> responseState p = 0"

interpretation status_line: start_line_parser "response_parseStartLine alloc" status_line_ok response_fresh
  for alloc
proof
  show "status_line_ok p b m \<Longrightarrow> buf_inv b" for p :: "'a response_parser" and b m
    by (simp add: status_line_ok_def)
  show "status_line_ok p b m \<Longrightarrow> fits b bs \<Longrightarrow> status_line_ok p (receive b bs) m"
    for p :: "'a response_parser" and b m bs
    by (auto simp: status_line_ok_def receive_inv)
  show "status_line_ok p b m \<Longrightarrow>
      resumes (\<lambda>b. response_parseStartLine alloc p b m) (response_parseStartLine alloc) status_line_ok b" for p b m
    by (rule status_line_resumes)
  show "status_line_ok p b m \<Longrightarrow> buf_inv (workingBuffer p)" for p :: "'a response_parser" and b m
    by (simp add: status_line_ok_def)
  show "response_parseStartLine alloc p b m = (e, p', b', m') \<Longrightarrow> msgState p' = msgState p" for p b m e p' b' m'
    by (rule status_line_msgState)
  show "response_fresh p \<Longrightarrow> buf_inv (workingBuffer p) \<Longrightarrow> buf_inv b \<Longrightarrow>
      status_line_ok (wb_clear (p\<lparr>msgState := ES_PARSING_START_LINE\<rparr>)) (readMark b) m"
    for p :: "'a response_parser" and b m
    by (auto simp: status_line_ok_def response_fresh_def)
qed

definition response_headers_ok :: "'a response_parser \<Rightarrow> buffer \<Rightarrow> http_response \<Rightarrow> bool" where
  "response_headers_ok = headers_ok response_fresh status_line_ok"

interpretation response_stream:
  incremental_parser "response_parseHeaders alloc" response_headers_ok stray_header_errors for alloc
  unfolding response_parseHeaders_def response_headers_ok_def by (rule status_line.headers_stream)

end
