(* ===== verification/ParserProperties.thy ===== *)
theory ParserProperties
  imports RequestParser ResponseParser
begin

text \<open>
  What the parsers guarantee their callers, the sockets, who feed them whatever octets the network
  delivers. Witnesses are evaluated on small buffers.
\<close>

section \<open>Concrete inputs\<close>

text \<open>An allocator that counts its calls, and buffers as the sockets create them.\<close>

definition counting_alloc :: "nat alloc_fn" where
  "counting_alloc n k = (ESB_SUCCESS, 0, Suc n)"

definition empty_buffer :: buffer where
  "empty_buffer = new_buffer (replicate 96 0) 96"

definition request_parser0 :: "nat request_parser" where
  "request_parser0 = new_request_parser empty_buffer 0"

definition response_parser0 :: "nat response_parser" where
  "response_parser0 = new_response_parser empty_buffer 0"

lemma empty_buffer_inv: "buf_inv empty_buffer"
  by code_simp

lemma parsers0_ok:
  "request_headers_ok request_parser0 empty_buffer new_http_request"
  "response_headers_ok response_parser0 empty_buffer new_http_response"
  using empty_buffer_inv
  by (simp_all add: request_headers_ok_def response_headers_ok_def headers_ok_def request_fresh_def
      response_fresh_def request_parser0_def response_parser0_def new_request_parser_def
      new_response_parser_def)

section \<open>Incremental parsing\<close>

text \<open>C1. However the network cuts the octets of a request head into pieces, feeding the
  pieces to \<open>parseHeaders\<close> one by one ends in the same error code, parser state, input buffer and
  message as one call on all the octets, unless that one call fails with a bad field name or an
  overflow of the working buffer.\<close>

theorem request_headers_any_division:
  assumes "request_headers_ok p b m" "fits b (concat cs)"
    and "fst (request_parseHeaders alloc p (receive b (concat cs)) m)
      \<notin> {ES_HTTP_BAD_REQUEST_FIELD_NAME, ESB_OVERFLOW}"
  shows "feed (request_parseHeaders alloc) p b m cs
    = request_parseHeaders alloc p (receive b (concat cs)) m"
  using request_stream.feed_concat [OF assms(1,2), of alloc] assms(3)
  by (simp add: stray_header_errors_def)

theorem request_headers_any_division_witness:
  "feed (request_parseHeaders counting_alloc) request_parser0 empty_buffer new_http_request
     [asc ''GET /a?b H'', asc ''TTP/1.1'', [CR], [LF] @ asc ''Ho'', asc ''st: x'', [CR, LF, CR], [LF]]
   = request_parseHeaders counting_alloc request_parser0 (receive empty_buffer
       (concat [asc ''GET /a?b H'', asc ''TTP/1.1'', [CR], [LF] @ asc ''Ho'', asc ''st: x'', [CR, LF, CR], [LF]]))
       new_http_request"
  by (rule request_headers_any_division [OF parsers0_ok(1)]) code_simp+

text \<open>C23. The same for a response head: any division of its octets into pieces gives the result of one call on
  all of them, unless that one call fails with a bad field name or an overflow of the working buffer.\<close>

theorem response_headers_any_division:
  assumes "response_headers_ok p b m" "fits b (concat cs)"
    and "fst (response_parseHeaders alloc p (receive b (concat cs)) m)
      \<notin> {ES_HTTP_BAD_REQUEST_FIELD_NAME, ESB_OVERFLOW}"
  shows "feed (response_parseHeaders alloc) p b m cs
    = response_parseHeaders alloc p (receive b (concat cs)) m"
  using response_stream.feed_concat [OF assms(1,2), of alloc] assms(3)
  by (simp add: stray_header_errors_def)

theorem response_headers_any_division_witness:
  "feed (response_parseHeaders counting_alloc) response_parser0 empty_buffer new_http_response
     [asc ''HTTP/1.'', asc ''1 20'', asc ''0 O'', [asc ''K'' ! 0, CR], [LF] @ asc ''A: b'', [LF, LF]]
   = response_parseHeaders counting_alloc response_parser0 (receive empty_buffer
       (concat [asc ''HTTP/1.'', asc ''1 20'', asc ''0 O'', [asc ''K'' ! 0, CR], [LF] @ asc ''A: b'', [LF, LF]]))
       new_http_response"
  by (rule response_headers_any_division [OF parsers0_ok(2)]) code_simp+

lemma not_tokens: "\<not> IsToken CR" "\<not> IsToken LF" "\<not> IsToken COLON"
  by (simp_all add: http_class)

text \<open>A field name reads on as long as there are token octets and there is space for one more.\<close>

lemma parseFieldName_tokens:
  assumes "\<forall>c \<in> set n. IsToken c" "buf_inv b" "buf_inv (workingBuffer p)" "length n \<le> room (workingBuffer p)" "unread b = n @ r"
  shows "\<exists>p' b'. parseFieldName alloc p b m = parseFieldName alloc p' b' m \<and> consumed b b' \<and> buf_inv b' \<and> unread b' = r \<and>
    buf_inv (workingBuffer p') \<and> room (workingBuffer p') = room (workingBuffer p) - length n \<and> msgState p' = msgState p"
  using assms
proof (induction n arbitrary: p b)
  case (Cons c n)
  have "isReadable b"
    using Cons.prems(2,5) by (simp add: isReadable_unread)
  then obtain b1 where b1: "buf_next b = (c, b1)" "buf_inv b1" "unread b1 = n @ r" "consumed b b1"
    using readE [OF Cons.prems(2)] Cons.prems(5) by (metis append_Cons list.inject)
  have room: "0 < room (workingBuffer p)"
    using Cons.prems(4) by (cases "room (workingBuffer p)") auto
  then have "isWritable (workingBuffer p)"
    by (simp add: isWritable_def room_def word_less_nat_alt)
  then have run: "parseFieldName alloc p b m = parseFieldName alloc (wb_put p c) b1 m"
    using b1(1) \<open>isReadable b\<close> Cons.prems(1) not_tokens(3) by (auto simp: parseFieldName.simps [of _ _ b])
  have p1: "buf_inv (workingBuffer (wb_put p c))" "room (workingBuffer (wb_put p c)) = room (workingBuffer p) - 1"
      "msgState (wb_put p c) = msgState p"
    using Cons.prems(3) by (auto simp: wb_put_def room_putNext)
  have "\<forall>c \<in> set n. IsToken c" "length n \<le> room (workingBuffer (wb_put p c))"
    using Cons.prems(1,4) p1(2) by auto
  from Cons.IH [OF this(1) b1(2) p1(1) this(2) b1(3)]
  obtain p' b' where "parseFieldName alloc (wb_put p c) b1 m = parseFieldName alloc p' b' m" "consumed b1 b'" "buf_inv b'"
      "unread b' = r" "buf_inv (workingBuffer p')" "msgState p' = msgState (wb_put p c)"
      "room (workingBuffer p') = room (workingBuffer (wb_put p c)) - length n"
    by (elim exE conjE)
  then show ?case
    using run p1 consumed_trans [OF b1(4)] by (intro exI [of _ p'] exI [of _ b']) simp
next
  case Nil
  then show ?case
    by (intro exI [of _ p] exI [of _ b]) (simp add: consumed_refl)
qed

text \<open>What the caller sees of a result: the error code and the message.\<close>

definition seen :: "('p, 'm) parse_result \<Rightarrow> error \<times> 'm" where
  "seen r = (case r of (e, _, _, m) \<Rightarrow> (e, m))"

lemma headers_end_seen: "seen (headers_end nb p b m) = seen (headers_end nb q c m)"
  by (simp add: headers_end_def postParse_def seen_def Let_def split: prod.split option.split bool.split)

lemma line_end_ends_headers:
  assumes "msgState p = ES_PARSING_FIELD_NAME" "buf_inv b" "unread b = LF # r"
  shows "request_parseHeaders alloc p b m = headers_end request_isBodyNotAllowed p (skipNext b) m"
proof -
  have "isReadable b" "peekNext b = LF"
    using assms(2,3) readE [of b] by (auto simp: isReadable_unread)
  then show ?thesis
    using assms(1)
    by (simp add: request_parseHeaders_def parseHeaders_fields fields_loop.simps field_round_def has_flag_def)
qed

lemma name_read:
  assumes "msgState p = ES_PARSING_FIELD_NAME" "buf_inv b" "unread b = c # r" "IsToken c"
    and "parseFieldName alloc p b m = (e, p', b', m')" "e \<noteq> ESB_SUCCESS"
  shows "request_parseHeaders alloc p b m = (e, p', b', m')"
proof -
  have "isReadable b" "peekNext b = c"
    using assms(2,3) readE [of b] by (auto simp: isReadable_unread)
  then show ?thesis
    using assms(1,4-6) not_tokens
    by (auto simp: request_parseHeaders_def parseHeaders_fields fields_loop.simps field_round_def has_flag_def)
qed

text \<open>C32. A line of the headers that is a name without a colon is rejected when it arrives in one piece with
  its line end, but when the piece that the parser is given ends behind the name, the line end is taken for
  the empty line behind the headers: error code and message are those of a message whose headers end before
  that line. This is where the exception of C1 shows.\<close>

theorem split_field_name_accepted:
  assumes "msgState p = ES_PARSING_FIELD_NAME" "buf_inv (workingBuffer p)" "unread b = []" "fits b (n @ [LF])"
    and "n \<noteq> []" "\<forall>c \<in> set n. IsToken c" "length n < room (workingBuffer p)"
  shows "fst (request_parseHeaders alloc p (receive b (n @ [LF])) m) = ES_HTTP_BAD_REQUEST_FIELD_NAME \<and>
    seen (feed (request_parseHeaders alloc) p b m [n, [LF]]) = seen (request_parseHeaders alloc p (receive b [LF]) m)"
proof
  have fit: "fits b n" "fits b [LF]"
    using assms(4) by (simp_all add: fits_def)
  obtain c n' where n: "n = c # n'" "IsToken c"
    using assms(5,6) by (cases n) auto
  let ?whole = "receive b (n @ [LF])"
  have whole: "buf_inv ?whole" "unread ?whole = n @ [LF]"
    using assms(3,4) by (simp_all add: receive_inv unread_receive)
  from parseFieldName_tokens [OF assms(6) whole(1) assms(2) less_imp_le [OF assms(7)] whole(2), of alloc m]
  obtain q b1 where q: "parseFieldName alloc p ?whole m = parseFieldName alloc q b1 m" "buf_inv b1" "unread b1 = [LF]"
      "room (workingBuffer q) = room (workingBuffer p) - length n"
    by auto
  have "isReadable b1" "isWritable (workingBuffer q)"
    using q(2-4) assms(7) by (simp_all add: isReadable_unread isWritable_def room_def word_less_nat_alt)
  moreover obtain b2 where "buf_next b1 = (LF, b2)"
    using readE [OF q(2) \<open>isReadable b1\<close>] q(3) by (metis list.inject)
  ultimately have "parseFieldName alloc q b1 m = (ES_HTTP_BAD_REQUEST_FIELD_NAME, q, b2, m)"
    using not_tokens(2) by (simp add: parseFieldName.simps [of _ _ b1])
  then show "fst (request_parseHeaders alloc p ?whole m) = ES_HTTP_BAD_REQUEST_FIELD_NAME"
    using name_read [OF assms(1) whole(1), of c "n' @ [LF]"] whole(2) n q(1) by simp
  let ?first = "receive b n"
  have first: "buf_inv ?first" "unread ?first = n @ []"
    using assms(3) fit by (simp_all add: receive_inv unread_receive)
  from parseFieldName_tokens [OF assms(6) first(1) assms(2) less_imp_le [OF assms(7)] first(2), of alloc m]
  obtain q b1 where q: "parseFieldName alloc p ?first m = parseFieldName alloc q b1 m" "consumed ?first b1" "buf_inv b1"
      "unread b1 = []" "msgState q = msgState p"
    by auto
  have "\<not> isReadable b1"
    using q(3,4) by (simp add: isReadable_unread)
  then have again: "request_parseHeaders alloc p ?first m = (ESB_AGAIN, q, b1, m)"
    using name_read [OF assms(1) first(1), of c n'] first(2) n q(1) by (simp add: parseFieldName.simps [of _ _ b1])
  have "room ?first = room b - length n"
    using room_receive fit(1) by blast
  then have "fits ?first [LF]"
    using assms(4) first(1) by (auto simp: fits_def)
  then have "fits b1 [LF]"
    using consumed_fits q(2) by blast
  then have second: "buf_inv (receive b1 [LF])" "unread (receive b1 [LF]) = [LF]"
    using q(4) by (simp_all add: receive_inv unread_receive)
  have empty: "buf_inv (receive b [LF])" "unread (receive b [LF]) = [LF]"
    using assms(3) fit(2) by (simp_all add: receive_inv unread_receive)
  have "\<not> isReadable b"
    using assms(3) fits_inv [OF fit(1)] by (simp add: isReadable_unread)
  then have "request_parseHeaders alloc p b m = (ESB_AGAIN, p, b, m)"
    using assms(1)
    by (simp add: request_parseHeaders_def parseHeaders_fields fields_loop.simps field_round_def has_flag_def)
  then have "feed (request_parseHeaders alloc) p b m [n, [LF]] = request_parseHeaders alloc q (receive b1 [LF]) m"
    using again by simp
  then show "seen (feed (request_parseHeaders alloc) p b m [n, [LF]]) = seen (request_parseHeaders alloc p (receive b [LF]) m)"
    using line_end_ends_headers [OF _ second] line_end_ends_headers [OF assms(1) empty] q(5) assms(1) headers_end_seen
    by metis
qed

text \<open>The parser behind a request line.\<close>

definition request_line_read :: "nat request_result" where
  "request_line_read = request_parseHeaders counting_alloc request_parser0
     (receive empty_buffer (asc ''GET / HTTP/1.1'' @ [CR, LF])) new_http_request"

theorem split_field_name_accepted_witness:
  "case request_line_read of (_, p, b, m) \<Rightarrow>
     fst (request_parseHeaders counting_alloc p (receive b (asc ''Fo'' @ [LF])) m) = ES_HTTP_BAD_REQUEST_FIELD_NAME \<and>
     fst (feed (request_parseHeaders counting_alloc) p b m [asc ''Fo'', [LF]]) = ESB_SUCCESS"
proof -
  obtain e p b m where r: "request_line_read = (e, p, b, m)"
    by (cases request_line_read)
  have "case request_line_read of (_, p, b, m) \<Rightarrow>
      msgState p = ES_PARSING_FIELD_NAME \<and> buf_inv (workingBuffer p) \<and> unread b = [] \<and> fits b (asc ''Fo'' @ [LF]) \<and>
      length (asc ''Fo'') < room (workingBuffer p) \<and> fst (request_parseHeaders counting_alloc p (receive b [LF]) m) = ESB_SUCCESS"
    by code_simp
  then have start: "msgState p = ES_PARSING_FIELD_NAME" "buf_inv (workingBuffer p)" "unread b = []" "fits b (asc ''Fo'' @ [LF])"
      "length (asc ''Fo'') < room (workingBuffer p)" "fst (request_parseHeaders counting_alloc p (receive b [LF]) m) = ESB_SUCCESS"
    by (simp_all add: r)
  have name: "asc ''Fo'' \<noteq> []"
    by (simp add: asc_def)
  have tokens: "\<forall>c \<in> set (asc ''Fo''). IsToken c"
    by code_simp
  show ?thesis
    using split_field_name_accepted [OF start(1-4) name tokens start(5), of counting_alloc m] start(6)
    by (auto simp: r seen_def split: prod.splits)
qed

text \<open>C29. A request URI is parsed the same way however it is cut, with no exception.\<close>

theorem uri_any_division:
  assumes "uri_ok p b u" "fits b (concat cs)"
  shows "feed (uri_parse alloc) p b u cs = uri_parse alloc p (receive b (concat cs)) u"
  using uri_stream.feed_concat [OF assms, of alloc] by simp

theorem uri_any_division_witness:
  "feed (uri_parse counting_alloc) \<lparr>workingBuffer = empty_buffer, allocator = 0, uriState = 0\<rparr>
     empty_buffer new_request_uri [asc ''http:/'', asc ''/x:8'', asc ''0/p?q ''] =
   uri_parse counting_alloc \<lparr>workingBuffer = empty_buffer, allocator = 0, uriState = 0\<rparr>
     (receive empty_buffer (concat [asc ''http:/'', asc ''/x:8'', asc ''0/p?q ''])) new_request_uri"
  by (rule uri_any_division) code_simp+

end
