(* ===== verification/UriFormatter.thy ===== *)
theory UriFormatter
  imports HttpMessage
begin

text \<open>
  \<open>ES::HttpRequestUriFormatter\<close> (data-plane/http1/source/ESHttpRequestUriFormatter.cpp). A formatter
  is a state word; what it writes goes into the output buffer, and a state that cannot be
  finished puts the buffer back to its write mark (\<open>Rollback\<close>). Where the source passes a
  function-local pointer over a C string, the model recurses over the string.
\<close>

section \<open>Steps shared by the formatters\<close>

type_synonym 's format_result = "error \<times> 's \<times> buffer"

text \<open>
  The loop of the formatters: every octet of a string is written if it is of the class \<open>plain\<close>
  and otherwise handed to \<open>special\<close>, an escape or an error. ESB_AGAIN and errors roll back.
\<close>

fun format_octets ::
  "(u8 \<Rightarrow> bool) \<Rightarrow> (buffer \<Rightarrow> u8 \<Rightarrow> error \<times> buffer) \<Rightarrow> cstr \<Rightarrow> buffer \<Rightarrow> error \<times> buffer" where
  "format_octets plain special [] b = (ESB_SUCCESS, b)"
| "format_octets plain special (c # cs) b =
     (if \<not> isWritable b then Rollback b ESB_AGAIN
      else if plain c then format_octets plain special cs (putNext b c)
      else
        case special b c of
          (e, b') \<Rightarrow>
            if e \<noteq> ESB_SUCCESS then Rollback b' e else format_octets plain special cs b')"

definition reject :: "error \<Rightarrow> buffer \<Rightarrow> u8 \<Rightarrow> error \<times> buffer" where
  "reject e b c = (e, b)"

definition no_other :: "buffer \<Rightarrow> u8 \<Rightarrow> error \<times> buffer" where
  "no_other b c = (ESB_SUCCESS, b)"
  \<comment> \<open>never used: every octet is plain\<close>

definition roll_back :: "'s \<Rightarrow> buffer \<Rightarrow> error \<Rightarrow> 's format_result" where
  "roll_back st b e = (case Rollback b e of (e', b') \<Rightarrow> (e', st, b'))"

text \<open>A unit of output in state \<open>old\<close>: its result decides between a return and the next state.\<close>

definition unit_step :: "u32 \<Rightarrow> u32 \<Rightarrow> u32 \<Rightarrow> error \<times> buffer \<Rightarrow> u32 format_result" where
  "unit_step st old new r =
     (case r of (e, b) \<Rightarrow> if e \<noteq> ESB_SUCCESS then (e, st, b) else Transition st b old new)"

text \<open>\<open>if (ESB_SUCCESS != error) return error;\<close>\<close>

definition if_ok :: "'s format_result \<Rightarrow> ('s \<Rightarrow> buffer \<Rightarrow> 's format_result) \<Rightarrow> 's format_result" where
  "if_ok r k = (case r of (e, st, b) \<Rightarrow> if e \<noteq> ESB_SUCCESS then (e, st, b) else k st b)"

section \<open>Productions\<close>

abbreviation (input) ES_URI_FORMATTING_ASTERISK :: u32 where "ES_URI_FORMATTING_ASTERISK \<equiv> 1"
abbreviation (input) ES_URI_FORMATTING_SCHEME :: u32 where "ES_URI_FORMATTING_SCHEME \<equiv> 2"
abbreviation (input) ES_URI_FORMATTING_HOST :: u32 where "ES_URI_FORMATTING_HOST \<equiv> 4"
abbreviation (input) ES_URI_FORMATTING_PORT :: u32 where "ES_URI_FORMATTING_PORT \<equiv> 8"
abbreviation (input) ES_URI_FORMATTING_ABS_PATH :: u32 where "ES_URI_FORMATTING_ABS_PATH \<equiv> 16"
abbreviation (input) ES_URI_FORMATTING_QUERY :: u32 where "ES_URI_FORMATTING_QUERY \<equiv> 32"
abbreviation (input) ES_URI_FORMATTING_FRAGMENT :: u32 where "ES_URI_FORMATTING_FRAGMENT \<equiv> 64"
abbreviation (input) ES_URI_FORMAT_COMPLETE :: u32 where "ES_URI_FORMAT_COMPLETE \<equiv> 128"
abbreviation (input) ES_URI_FORMATTING_NON_HTTP_URI :: u32 where "ES_URI_FORMATTING_NON_HTTP_URI \<equiv> 256"

definition formatAsterisk :: "u32 \<Rightarrow> buffer \<Rightarrow> request_uri \<Rightarrow> u32 format_result" where
  "formatAsterisk st b u =
     (if writable b = 0 then roll_back st b ESB_AGAIN
      else Transition st (putNext b ASTERISK) ES_URI_FORMATTING_ASTERISK ES_URI_FORMAT_COMPLETE)"

definition is_path_octet :: "u8 \<Rightarrow> bool" where
  "is_path_octet c \<longleftrightarrow> IsPchar c \<or> c = SLASH \<or> c = SEMICOLON"

definition formatAbsPath :: "u32 \<Rightarrow> buffer \<Rightarrow> request_uri \<Rightarrow> u32 format_result" where
  "formatAbsPath st b u =
     (let p = (case absPath u of Some s \<Rightarrow> s | None \<Rightarrow> asc ''/'') in
      if c_head p \<noteq> SLASH \<and> \<not> isWritable b then roll_back st b ESB_AGAIN
      else
        let b1 = (if c_head p \<noteq> SLASH then putNext b SLASH else b) in
        unit_step st ES_URI_FORMATTING_ABS_PATH ES_URI_FORMATTING_QUERY
          (format_octets is_path_octet EncodeEscape p b1))"

definition formatQuery :: "u32 \<Rightarrow> buffer \<Rightarrow> request_uri \<Rightarrow> u32 format_result" where
  "formatQuery st b u =
     (case query u of
        None \<Rightarrow> Transition st b ES_URI_FORMATTING_QUERY ES_URI_FORMATTING_FRAGMENT
      | Some p \<Rightarrow>
          if c_head p = 0 then Transition st b ES_URI_FORMATTING_QUERY ES_URI_FORMATTING_FRAGMENT
          else if \<not> isWritable b then roll_back st b ESB_AGAIN
          else unit_step st ES_URI_FORMATTING_QUERY ES_URI_FORMATTING_FRAGMENT
                 (format_octets IsUric EncodeEscape p (putNext b QUESTION)))"

definition formatFragment :: "u32 \<Rightarrow> buffer \<Rightarrow> request_uri \<Rightarrow> u32 format_result" where
  "formatFragment st b u =
     (case fragment u of
        None \<Rightarrow> Transition st b ES_URI_FORMATTING_FRAGMENT ES_URI_FORMAT_COMPLETE
      | Some p \<Rightarrow>
          if c_head p = 0 then Transition st b ES_URI_FORMATTING_FRAGMENT ES_URI_FORMAT_COMPLETE
          else if \<not> isWritable b then roll_back st b ESB_AGAIN
          else unit_step st ES_URI_FORMATTING_FRAGMENT ES_URI_FORMAT_COMPLETE
                 (format_octets IsUric EncodeEscape p (putNext b HASH)))"

definition formatScheme :: "u32 \<Rightarrow> buffer \<Rightarrow> request_uri \<Rightarrow> u32 format_result" where
  "formatScheme st b u =
     (case uriType u of
        ES_URI_ASTERISK \<Rightarrow> roll_back st b ESB_INVALID_STATE
      | ES_URI_HTTP \<Rightarrow>
          unit_step st ES_URI_FORMATTING_SCHEME ES_URI_FORMATTING_HOST
            (format_octets (\<lambda>_. True) no_other (asc ''http://'') b)
      | ES_URI_HTTPS \<Rightarrow>
          unit_step st ES_URI_FORMATTING_SCHEME ES_URI_FORMATTING_HOST
            (format_octets (\<lambda>_. True) no_other (asc ''https://'') b)
      | ES_URI_OTHER \<Rightarrow> Transition st b ES_URI_FORMATTING_SCHEME ES_URI_FORMATTING_HOST)"

definition formatHost :: "u32 \<Rightarrow> buffer \<Rightarrow> request_uri \<Rightarrow> u32 format_result" where
  "formatHost st b u =
     (case host u of
        None \<Rightarrow> (UNDEFINED_BEHAVIOUR, st, b)
      | Some p \<Rightarrow>
          unit_step st ES_URI_FORMATTING_HOST ES_URI_FORMATTING_PORT
            (format_octets (\<lambda>_. True) no_other p b))"

definition formatPort :: "u32 \<Rightarrow> buffer \<Rightarrow> request_uri \<Rightarrow> u32 format_result" where
  "formatPort st b u =
     (if uriType u = ES_URI_HTTP \<and> (0 > port u \<or> 80 = port u)
         \<or> uriType u = ES_URI_HTTPS \<and> (0 > port u \<or> 443 = port u)
      then Transition st b ES_URI_FORMATTING_PORT ES_URI_FORMATTING_ABS_PATH
      else if uriType u \<noteq> ES_URI_HTTP \<and> uriType u \<noteq> ES_URI_HTTPS
      then roll_back st b ES_HTTP_BAD_REQUEST_URI_PORT
      else if 65536 \<le> port u then roll_back st b ES_HTTP_BAD_REQUEST_URI_PORT
      else if \<not> isWritable b then roll_back st b ESB_AGAIN
      else
        case FormatInteger (putNext b COLON) (of_int (port u)) 10 of
          (e, b1) \<Rightarrow>
            if e \<noteq> ESB_SUCCESS then roll_back st b1 e
            else Transition st b1 ES_URI_FORMATTING_PORT ES_URI_FORMATTING_ABS_PATH)"

definition formatNonHttpUri :: "u32 \<Rightarrow> buffer \<Rightarrow> request_uri \<Rightarrow> u32 format_result" where
  "formatNonHttpUri st b u =
     (case other u of
        None \<Rightarrow> roll_back st b ESB_INVALID_ARGUMENT
      | Some p \<Rightarrow>
          if c_head p = 0 then roll_back st b ESB_INVALID_ARGUMENT
          else unit_step st ES_URI_FORMATTING_NON_HTTP_URI ES_URI_FORMAT_COMPLETE
                 (format_octets (\<lambda>_. True) no_other p b))"

section \<open>\<open>format\<close>\<close>

text \<open>Its sequence of state tests, from the last to the first.\<close>

definition uri_fragment_stage :: "u32 \<Rightarrow> buffer \<Rightarrow> request_uri \<Rightarrow> u32 format_result" where
  "uri_fragment_stage st b u =
     (if has_flag st ES_URI_FORMATTING_FRAGMENT then formatFragment st b u
      else roll_back st b ESB_INVALID_STATE)"

definition uri_query_stage :: "u32 \<Rightarrow> buffer \<Rightarrow> request_uri \<Rightarrow> u32 format_result" where
  "uri_query_stage st b u =
     (if has_flag st ES_URI_FORMATTING_QUERY
      then if_ok (formatQuery st b u) (\<lambda>st b. uri_fragment_stage st b u)
      else uri_fragment_stage st b u)"

definition uri_path_stage :: "u32 \<Rightarrow> buffer \<Rightarrow> request_uri \<Rightarrow> u32 format_result" where
  "uri_path_stage st b u =
     (if has_flag st ES_URI_FORMATTING_ABS_PATH
      then if_ok (formatAbsPath st b u) (\<lambda>st b. uri_query_stage st b u)
      else uri_query_stage st b u)"

definition uri_port_stage :: "u32 \<Rightarrow> buffer \<Rightarrow> request_uri \<Rightarrow> u32 format_result" where
  "uri_port_stage st b u =
     (if has_flag st ES_URI_FORMATTING_PORT
      then if_ok (formatPort st b u) (\<lambda>st b. uri_path_stage st b u)
      else uri_path_stage st b u)"

definition uri_host_stage :: "u32 \<Rightarrow> buffer \<Rightarrow> request_uri \<Rightarrow> u32 format_result" where
  "uri_host_stage st b u =
     (if has_flag st ES_URI_FORMATTING_HOST
      then if_ok (formatHost st b u) (\<lambda>st b. uri_port_stage st b u)
      else uri_port_stage st b u)"

definition uri_scheme_stage :: "u32 \<Rightarrow> buffer \<Rightarrow> request_uri \<Rightarrow> u32 format_result" where
  "uri_scheme_stage st b u =
     (if has_flag st ES_URI_FORMATTING_SCHEME
      then if_ok (formatScheme st b u) (\<lambda>st b. uri_host_stage st b u)
      else uri_host_stage st b u)"

definition uri_format_stages :: "u32 \<Rightarrow> buffer \<Rightarrow> request_uri \<Rightarrow> u32 format_result" where
  "uri_format_stages st b u =
     (if has_flag st ES_URI_FORMATTING_ASTERISK then formatAsterisk st b u
      else if has_flag st ES_URI_FORMATTING_NON_HTTP_URI then formatNonHttpUri st b u
      else uri_scheme_stage st b u)"

definition uri_format_start :: "buffer \<Rightarrow> request_uri \<Rightarrow> u32 \<times> buffer" where
  "uri_format_start b u =
     (case uriType u of
        ES_URI_ASTERISK \<Rightarrow> Start b ES_URI_FORMATTING_ASTERISK
      | ES_URI_OTHER \<Rightarrow> Start b ES_URI_FORMATTING_NON_HTTP_URI
      | _ \<Rightarrow> (case host u of
                None \<Rightarrow> Start b ES_URI_FORMATTING_ABS_PATH
              | Some h \<Rightarrow> if c_head h \<noteq> 0 then Start b ES_URI_FORMATTING_SCHEME
                          else Start b ES_URI_FORMATTING_ABS_PATH))"

definition uri_format :: "u32 \<Rightarrow> buffer \<Rightarrow> request_uri \<Rightarrow> u32 format_result" where
  "uri_format st b u =
     (if has_flag st ES_URI_FORMAT_COMPLETE then (ESB_INVALID_STATE, st, b)
      else if st = 0 then
        (if \<not> isWritable b then (ESB_AGAIN, st, b)
         else case uri_format_start b u of (st1, b1) \<Rightarrow> uri_format_stages st1 b1 u)
      else uri_format_stages st b u)"

end
