(* ===== verification/MessageFormatter.thy ===== *)
theory MessageFormatter
  imports UriFormatter
begin

text \<open>
  \<open>ES::HttpMessageFormatter\<close>, \<open>ES::HttpRequestFormatter\<close> and \<open>ES::HttpResponseFormatter\<close>
  (data-plane/http1/source). The pointer \<open>_currentHeader\<close> into the list of the message is the
  rest of that list; the virtual \<open>formatStartLine\<close> is an argument of \<open>formatHeaders\<close>. The
  pointers to the output buffer and to the sizes are never NULL here.
\<close>

section \<open>State\<close>

record message_formatter =
  fmtState :: u32
  currentHeader :: "http_header list"

abbreviation (input) ES_FORMATTING_START_LINE :: u32 where "ES_FORMATTING_START_LINE \<equiv> 1"
abbreviation (input) ES_FORMATTING_FIELD_NAME :: u32 where "ES_FORMATTING_FIELD_NAME \<equiv> 2"
abbreviation (input) ES_FORMATTING_FIELD_VALUE :: u32 where "ES_FORMATTING_FIELD_VALUE \<equiv> 4"
abbreviation (input) ES_HEADER_FORMAT_COMPLETE :: u32 where "ES_HEADER_FORMAT_COMPLETE \<equiv> 8"
abbreviation (input) ES_FORMATTING_UNENCODED_BODY :: u32 where "ES_FORMATTING_UNENCODED_BODY \<equiv> 16"
abbreviation (input) ES_FORMATTING_CHUNKED_BODY :: u32 where "ES_FORMATTING_CHUNKED_BODY \<equiv> 32"
abbreviation (input) ES_BODY_FORMAT_COMPLETE :: u32 where "ES_BODY_FORMAT_COMPLETE \<equiv> 64"
abbreviation (input) ES_FORMATTING_HEADER :: u32 where "ES_FORMATTING_HEADER \<equiv> 6"
abbreviation (input) ES_FOUND_CONTENT_LENGTH_HEADER :: u32 where "ES_FOUND_CONTENT_LENGTH_HEADER \<equiv> 1024"
abbreviation (input) ES_FOUND_TRANSFER_ENCODING_CHUNKED_HEADER :: u32
  where "ES_FOUND_TRANSFER_ENCODING_CHUNKED_HEADER \<equiv> 2048"

type_synonym 'f formatter_result = "'f message_formatter_scheme format_result"

definition message_formatter_reset :: "'f message_formatter_scheme \<Rightarrow> 'f message_formatter_scheme" where
  "message_formatter_reset f = f\<lparr>fmtState := 0, currentHeader := []\<rparr>"

definition fmt_transition ::
  "'f message_formatter_scheme \<Rightarrow> buffer \<Rightarrow> u32 \<Rightarrow> u32 \<Rightarrow> 'f formatter_result" where
  "fmt_transition f b old new =
     (case Transition (fmtState f) b old new of (e, st, b') \<Rightarrow> (e, f\<lparr>fmtState := st\<rparr>, b'))"

section \<open>Start line parts and header fields\<close>

definition formatVersion ::
  "buffer \<Rightarrow> 'm http_message_scheme \<Rightarrow> bool \<Rightarrow> error \<times> buffer" where
  "formatVersion b m clientMode =
     (if clientMode \<and> \<not> isWritable b then Rollback b ESB_AGAIN
      else
        let b1 = (if clientMode then putNext b SP else b) in
        if httpVersion m \<noteq> 110 \<and> httpVersion m \<noteq> 100 then Rollback b1 ES_HTTP_BAD_REQUEST_VERSION
        else
          case format_octets (\<lambda>_. True) no_other
                 (if httpVersion m = 110 then asc ''HTTP/1.1'' else asc ''HTTP/1.0'') b1 of
            (e, b2) \<Rightarrow>
              if e \<noteq> ESB_SUCCESS then (e, b2)
              else if clientMode then
                (if 2 > writable b2 then Rollback b2 ESB_AGAIN
                 else (ESB_SUCCESS, putNext (putNext b2 CR) LF))
              else
                (if \<not> isWritable b2 then Rollback b2 ESB_AGAIN else (ESB_SUCCESS, putNext b2 SP)))"

definition formatFieldName :: "buffer \<Rightarrow> cstr \<Rightarrow> error \<times> buffer" where
  "formatFieldName b name =
     (case format_octets IsToken (reject ES_HTTP_BAD_REQUEST_FIELD_NAME) name b of
        (e, b1) \<Rightarrow>
          if e \<noteq> ESB_SUCCESS then (e, b1)
          else if 2 > writable b1 then Rollback b1 ESB_AGAIN
          else (ESB_SUCCESS, putNext (putNext b1 COLON) SP))"

fun formatFieldValue_loop :: "bool \<Rightarrow> cstr \<Rightarrow> buffer \<Rightarrow> error \<times> buffer" where
  "formatFieldValue_loop lastIsSpace [] b = (ESB_SUCCESS, b)"
| "formatFieldValue_loop lastIsSpace (c # cs) b =
     (if \<not> isWritable b then Rollback b ESB_AGAIN
      else if IsLWS c then
        (if \<not> lastIsSpace then formatFieldValue_loop True cs (putNext b SP)
         else formatFieldValue_loop lastIsSpace cs b)
      else if IsToken c then formatFieldValue_loop False cs (putNext b c)
      else if IsSeparator c then formatFieldValue_loop False cs (putNext b c)
      else if IsText c then formatFieldValue_loop False cs (putNext b c)
      else Rollback b ES_HTTP_BAD_REQUEST_FIELD_VALUE)"

definition formatFieldValue :: "buffer \<Rightarrow> cstr option \<Rightarrow> error \<times> buffer" where
  "formatFieldValue b value =
     (case value of
        None \<Rightarrow> (UNDEFINED_BEHAVIOUR, b)
      | Some v \<Rightarrow>
          (case formatFieldValue_loop True v b of
             (e, b1) \<Rightarrow>
               if e \<noteq> ESB_SUCCESS then (e, b1)
               else if 2 > writable b1 then Rollback b1 ESB_AGAIN
               else (ESB_SUCCESS, putNext (putNext b1 CR) LF)))"

section \<open>Headers\<close>

text \<open>The flags found on the way: which framing headers the message carries.\<close>

definition note_header :: "http_header \<Rightarrow> u32 \<Rightarrow> u32" where
  "note_header h st =
     (let st1 = (if strcasecmp (fieldName h) (asc ''Content-Length'') = 0
                 then st OR ES_FOUND_CONTENT_LENGTH_HEADER else st) in
      if strcasecmp (fieldName h) (asc ''Transfer-Encoding'') = 0
         \<and> (case fieldValue h of None \<Rightarrow> True | Some v \<Rightarrow> strncmp v (asc ''identity'') 8 \<noteq> 0)
      then st1 OR ES_FOUND_TRANSFER_ENCODING_CHUNKED_HEADER else st1)"

text \<open>
  The while loop of \<open>formatHeaders\<close> from the current header on. In a round that starts in
  the field name state the second test of the loop body always holds.
\<close>

definition format_value_round ::
  "'f message_formatter_scheme \<Rightarrow> buffer \<Rightarrow> http_header
    \<Rightarrow> ('f message_formatter_scheme \<Rightarrow> buffer \<Rightarrow> 'f formatter_result) \<Rightarrow> 'f formatter_result" where
  "format_value_round f b h k =
     (case formatFieldValue b (fieldValue h) of
        (e, b1) \<Rightarrow>
          if e \<noteq> ESB_SUCCESS then (e, f, b1)
          else
            case fmt_transition f b1 ES_FORMATTING_FIELD_VALUE ES_FORMATTING_FIELD_NAME of
              (_, f1, b2) \<Rightarrow> k (f1\<lparr>currentHeader := tl (currentHeader f1)\<rparr>) b2)"

fun format_fields ::
  "http_header list \<Rightarrow> 'f message_formatter_scheme \<Rightarrow> buffer \<Rightarrow> 'f formatter_result" where
  "format_fields [] f b =
     (if \<not> has_flag (fmtState f) ES_FORMATTING_HEADER then (ESB_INVALID_STATE, f, b)
      else if 2 > writable b then (ESB_AGAIN, f, writeReset b)
      else
        let b1 = putNext (putNext b CR) LF in
        if has_flag (fmtState f) ES_FOUND_TRANSFER_ENCODING_CHUNKED_HEADER
        then fmt_transition f b1 ES_FORMATTING_FIELD_NAME
               (ES_HEADER_FORMAT_COMPLETE OR ES_FORMATTING_CHUNKED_BODY)
        else fmt_transition f b1 ES_FORMATTING_FIELD_NAME
               (ES_HEADER_FORMAT_COMPLETE OR ES_FORMATTING_UNENCODED_BODY))"
| "format_fields (h # hs) f b =
     (if \<not> has_flag (fmtState f) ES_FORMATTING_HEADER then (ESB_INVALID_STATE, f, b)
      else if has_flag (fmtState f) ES_FORMATTING_FIELD_NAME then
        (case formatFieldName b (fieldName h) of
           (e, b1) \<Rightarrow>
             if e \<noteq> ESB_SUCCESS then (e, f, b1)
             else
               case fmt_transition (f\<lparr>fmtState := note_header h (fmtState f)\<rparr>) b1
                      ES_FORMATTING_FIELD_NAME ES_FORMATTING_FIELD_VALUE of
                 (_, f1, b2) \<Rightarrow> format_value_round f1 b2 h (\<lambda>f b. format_fields hs f b))
      else format_value_round f b h (\<lambda>f b. format_fields hs f b))"

definition format_start_line_stage ::
  "('f message_formatter_scheme \<Rightarrow> buffer \<Rightarrow> 'm http_message_scheme \<Rightarrow> 'f formatter_result)
    \<Rightarrow> 'f message_formatter_scheme \<Rightarrow> buffer \<Rightarrow> 'm http_message_scheme \<Rightarrow> 'f formatter_result" where
  "format_start_line_stage formatStartLine f b m =
     (if has_flag (fmtState f) ES_FORMATTING_START_LINE then
        if_ok (formatStartLine f b m)
          (\<lambda>f1 b1.
             case fmt_transition (f1\<lparr>currentHeader := headers m\<rparr>) b1
                    ES_FORMATTING_START_LINE ES_FORMATTING_FIELD_NAME of
               (_, f2, b2) \<Rightarrow> format_fields (currentHeader f2) f2 b2)
      else format_fields (currentHeader f) f b)"

definition formatHeaders ::
  "('f message_formatter_scheme \<Rightarrow> buffer \<Rightarrow> 'm http_message_scheme \<Rightarrow> 'f formatter_result)
    \<Rightarrow> 'f message_formatter_scheme \<Rightarrow> buffer \<Rightarrow> 'm http_message_scheme \<Rightarrow> 'f formatter_result" where
  "formatHeaders formatStartLine f b m =
     (if has_flag (fmtState f) ES_HEADER_FORMAT_COMPLETE then (ESB_INVALID_STATE, f, b)
      else if fmtState f = 0 then
        (if \<not> isWritable b then (ESB_AGAIN, f, b)
         else case Start b ES_FORMATTING_START_LINE of
                (st, b1) \<Rightarrow> format_start_line_stage formatStartLine (f\<lparr>fmtState := st\<rparr>) b1 m)
      else format_start_line_stage formatStartLine f b m)"

section \<open>Bodies\<close>

text \<open>
  \<open>beginChunk\<close> reserves 8 octets for the chunk size and 4 for the two line ends. The output
  \<open>availableSize\<close> is returned; its old value is the third argument.
\<close>

definition beginChunk ::
  "'f message_formatter_scheme \<Rightarrow> buffer \<Rightarrow> u64 \<Rightarrow> u64
    \<Rightarrow> error \<times> 'f message_formatter_scheme \<times> buffer \<times> u64" where
  "beginChunk f b requestedSize availableSize =
     (let outputBufferSpace = max (uint (writable b) - 12) 0 in
      if 0 \<ge> outputBufferSpace then (ESB_AGAIN, f, b, availableSize)
      else
        let available = min requestedSize (of_int outputBufferSpace) in
        case FormatInteger b available 16 of
          (e, b1) \<Rightarrow>
            if e \<noteq> ESB_SUCCESS then (e, f, writeReset b1, available)
            else if 2 > writable b1 then (ESB_AGAIN, f, writeReset b1, available)
            else (ESB_SUCCESS, f, putNext (putNext b1 CR) LF, available))"

definition beginUnencodedBlock ::
  "'f message_formatter_scheme \<Rightarrow> buffer \<Rightarrow> u64 \<Rightarrow> u64
    \<Rightarrow> error \<times> 'f message_formatter_scheme \<times> buffer \<times> u64" where
  "beginUnencodedBlock f b requestedSize availableSize =
     (if 0 \<ge> writable b then (ESB_AGAIN, f, b, availableSize)
      else (ESB_SUCCESS, f, b, min requestedSize (ucast (writable b))))"

definition beginBlock ::
  "'f message_formatter_scheme \<Rightarrow> buffer \<Rightarrow> u64 \<Rightarrow> u64
    \<Rightarrow> error \<times> 'f message_formatter_scheme \<times> buffer \<times> u64" where
  "beginBlock f b offeredSize maxChunkSize =
     (if 0 = offeredSize then (ESB_INVALID_ARGUMENT, f, b, maxChunkSize)
      else if has_flag (fmtState f) ES_BODY_FORMAT_COMPLETE then (ESB_INVALID_STATE, f, b, maxChunkSize)
      else if has_flag (fmtState f) ES_FORMATTING_CHUNKED_BODY then beginChunk f b offeredSize maxChunkSize
      else if has_flag (fmtState f) ES_FORMATTING_UNENCODED_BODY
      then beginUnencodedBlock f b offeredSize maxChunkSize
      else (ESB_INVALID_STATE, f, b, maxChunkSize))"

definition endChunk :: "'f message_formatter_scheme \<Rightarrow> buffer \<Rightarrow> 'f formatter_result" where
  "endChunk f b =
     (if 2 > writable b then (ESB_AGAIN, f, b) else (ESB_SUCCESS, f, putNext (putNext b CR) LF))"

definition endBlock :: "'f message_formatter_scheme \<Rightarrow> buffer \<Rightarrow> 'f formatter_result" where
  "endBlock f b =
     (if has_flag (fmtState f) ES_BODY_FORMAT_COMPLETE then (ESB_INVALID_STATE, f, b)
      else if has_flag (fmtState f) ES_FORMATTING_CHUNKED_BODY then endChunk f b
      else if has_flag (fmtState f) ES_FORMATTING_UNENCODED_BODY then (ESB_SUCCESS, f, b)
      else (ESB_INVALID_STATE, f, b))"

definition endBody :: "'f message_formatter_scheme \<Rightarrow> buffer \<Rightarrow> 'f formatter_result" where
  "endBody f b =
     (if has_flag (fmtState f) ES_BODY_FORMAT_COMPLETE then (ESB_INVALID_STATE, f, b)
      else if has_flag (fmtState f) ES_FORMATTING_CHUNKED_BODY then
        (if 5 > writable b then (ESB_AGAIN, f, b)
         else fmt_transition f (putNext (putNext (putNext (putNext (putNext b DIGIT0) CR) LF) CR) LF)
                ES_FORMATTING_CHUNKED_BODY ES_BODY_FORMAT_COMPLETE)
      else if has_flag (fmtState f) ES_FORMATTING_UNENCODED_BODY then
        fmt_transition f b ES_FORMATTING_UNENCODED_BODY ES_BODY_FORMAT_COMPLETE
      else (ESB_INVALID_STATE, f, b))"

section \<open>Requests\<close>

record request_formatter = message_formatter +
  reqFmtState :: u32
  uriFmtState :: u32

abbreviation (input) ES_FORMATTING_METHOD :: u32 where "ES_FORMATTING_METHOD \<equiv> 1"
abbreviation (input) ES_FORMATTING_REQUEST_URI :: u32 where "ES_FORMATTING_REQUEST_URI \<equiv> 2"
abbreviation (input) ES_FORMATTING_HTTP_VERSION :: u32 where "ES_FORMATTING_HTTP_VERSION \<equiv> 4"
abbreviation (input) ES_FORMAT_COMPLETE :: u32 where "ES_FORMAT_COMPLETE \<equiv> 8"

definition new_request_formatter :: request_formatter where
  "new_request_formatter = \<lparr>fmtState = 0, currentHeader = [], reqFmtState = 0, uriFmtState = 0\<rparr>"

definition request_formatter_reset :: "request_formatter \<Rightarrow> request_formatter" where
  "request_formatter_reset f = (message_formatter_reset f)\<lparr>reqFmtState := 0, uriFmtState := 0\<rparr>"

definition req_fmt_transition ::
  "request_formatter \<Rightarrow> buffer \<Rightarrow> u32 \<Rightarrow> u32 \<Rightarrow> request_formatter format_result" where
  "req_fmt_transition f b old new =
     (case Transition (reqFmtState f) b old new of (e, st, b') \<Rightarrow> (e, f\<lparr>reqFmtState := st\<rparr>, b'))"

definition formatMethod :: "buffer \<Rightarrow> http_request \<Rightarrow> error \<times> buffer" where
  "formatMethod b m =
     (case reqMethod m of
        None \<Rightarrow> (ES_HTTP_BAD_REQUEST_METHOD, b)
      | Some s \<Rightarrow>
          if c_head s = 0 then (ES_HTTP_BAD_REQUEST_METHOD, b)
          else
            (case format_octets IsToken (reject ES_HTTP_BAD_REQUEST_METHOD) s b of
               (e, b1) \<Rightarrow>
                 if e \<noteq> ESB_SUCCESS then (e, b1)
                 else if \<not> isWritable b1 then Rollback b1 ESB_AGAIN
                 else (ESB_SUCCESS, putNext b1 SP)))"

definition format_version_stage ::
  "request_formatter \<Rightarrow> buffer \<Rightarrow> http_request \<Rightarrow> request_formatter format_result" where
  "format_version_stage f b m =
     (if has_flag (reqFmtState f) ES_FORMATTING_HTTP_VERSION then
        (case formatVersion b m True of
           (e, b1) \<Rightarrow>
             if e \<noteq> ESB_SUCCESS then (e, f, b1)
             else req_fmt_transition f b1 ES_FORMATTING_HTTP_VERSION ES_FORMAT_COMPLETE)
      else (ESB_INVALID_STATE, f, b))"

definition format_uri_stage ::
  "request_formatter \<Rightarrow> buffer \<Rightarrow> http_request \<Rightarrow> request_formatter format_result" where
  "format_uri_stage f b m =
     (if has_flag (reqFmtState f) ES_FORMATTING_REQUEST_URI then
        (case uri_format (uriFmtState f) b (requestUri m) of
           (e, st, b1) \<Rightarrow>
             let f1 = f\<lparr>uriFmtState := st\<rparr> in
             if e \<noteq> ESB_SUCCESS then (e, f1, b1)
             else
               case req_fmt_transition f1 b1 ES_FORMATTING_REQUEST_URI ES_FORMATTING_HTTP_VERSION of
                 (_, f2, b2) \<Rightarrow> format_version_stage f2 b2 m)
      else format_version_stage f b m)"

definition format_method_stage ::
  "request_formatter \<Rightarrow> buffer \<Rightarrow> http_request \<Rightarrow> request_formatter format_result" where
  "format_method_stage f b m =
     (if has_flag (reqFmtState f) ES_FORMATTING_METHOD then
        (case formatMethod b m of
           (e, b1) \<Rightarrow>
             if e \<noteq> ESB_SUCCESS then (e, f, b1)
             else
               case req_fmt_transition f b1 ES_FORMATTING_METHOD ES_FORMATTING_REQUEST_URI of
                 (_, f1, b2) \<Rightarrow> format_uri_stage f1 b2 m)
      else format_uri_stage f b m)"

definition request_formatStartLine ::
  "request_formatter \<Rightarrow> buffer \<Rightarrow> http_request \<Rightarrow> request_formatter format_result" where
  "request_formatStartLine f b m =
     (if has_flag (reqFmtState f) ES_FORMAT_COMPLETE then (ESB_INVALID_STATE, f, b)
      else if reqFmtState f = 0 then
        (case Start b ES_FORMATTING_METHOD of
           (st, b1) \<Rightarrow> format_method_stage (f\<lparr>reqFmtState := st\<rparr>) b1 m)
      else format_method_stage f b m)"

definition request_formatHeaders ::
  "request_formatter \<Rightarrow> buffer \<Rightarrow> http_request \<Rightarrow> request_formatter format_result" where
  "request_formatHeaders = formatHeaders request_formatStartLine"

section \<open>Responses\<close>

record response_formatter = message_formatter +
  resFmtState :: u32

abbreviation (input) ES_FORMATTING_VERSION :: u32 where "ES_FORMATTING_VERSION \<equiv> 1"
abbreviation (input) ES_FORMATTING_STATUS_CODE :: u32 where "ES_FORMATTING_STATUS_CODE \<equiv> 2"
abbreviation (input) ES_FORMATTING_REASON_PHRASE :: u32 where "ES_FORMATTING_REASON_PHRASE \<equiv> 4"

definition new_response_formatter :: response_formatter where
  "new_response_formatter = \<lparr>fmtState = 0, currentHeader = [], resFmtState = 0\<rparr>"

definition response_formatter_reset :: "response_formatter \<Rightarrow> response_formatter" where
  "response_formatter_reset f = (message_formatter_reset f)\<lparr>resFmtState := 0\<rparr>"

definition res_fmt_transition ::
  "response_formatter \<Rightarrow> buffer \<Rightarrow> u32 \<Rightarrow> u32 \<Rightarrow> response_formatter format_result" where
  "res_fmt_transition f b old new =
     (case Transition (resFmtState f) b old new of (e, st, b') \<Rightarrow> (e, f\<lparr>resFmtState := st\<rparr>, b'))"

definition formatStatusCode :: "buffer \<Rightarrow> http_response \<Rightarrow> error \<times> buffer" where
  "formatStatusCode b m =
     (if 100 > statusCode m \<or> 999 < statusCode m then Rollback b ES_HTTP_BAD_STATUS_CODE
      else if 4 > writable b then Rollback b ESB_AGAIN
      else
        case FormatInteger b (of_int (statusCode m)) 10 of
          (e, b1) \<Rightarrow>
            if e \<noteq> ESB_SUCCESS then Rollback b1 e
            else if \<not> isWritable b1 then Rollback b1 ESB_AGAIN
            else (ESB_SUCCESS, putNext b1 SP))"

definition is_reason_octet :: "u8 \<Rightarrow> bool" where
  "is_reason_octet c \<longleftrightarrow> c \<noteq> LF \<and> c \<noteq> CR \<and> IsText c"

definition formatReasonPhrase :: "buffer \<Rightarrow> http_response \<Rightarrow> error \<times> buffer" where
  "formatReasonPhrase b m =
     (case reasonPhrase m of
        None \<Rightarrow> Rollback b ES_HTTP_BAD_REASON_PHRASE
      | Some s \<Rightarrow>
          if c_head s = 0 then Rollback b ES_HTTP_BAD_REASON_PHRASE
          else
            (case format_octets is_reason_octet (reject ES_HTTP_BAD_REASON_PHRASE) s b of
               (e, b1) \<Rightarrow>
                 if e \<noteq> ESB_SUCCESS then (e, b1)
                 else if 2 > writable b1 then Rollback b1 ESB_AGAIN
                 else (ESB_SUCCESS, putNext (putNext b1 CR) LF)))"

definition format_reason_stage ::
  "response_formatter \<Rightarrow> buffer \<Rightarrow> http_response \<Rightarrow> response_formatter format_result" where
  "format_reason_stage f b m =
     (if has_flag (resFmtState f) ES_FORMATTING_REASON_PHRASE then
        (case formatReasonPhrase b m of
           (e, b1) \<Rightarrow>
             if e \<noteq> ESB_SUCCESS then (e, f, b1)
             else res_fmt_transition f b1 ES_FORMATTING_REASON_PHRASE ES_FORMAT_COMPLETE)
      else (ESB_INVALID_STATE, f, b))"

definition format_status_stage ::
  "response_formatter \<Rightarrow> buffer \<Rightarrow> http_response \<Rightarrow> response_formatter format_result" where
  "format_status_stage f b m =
     (if has_flag (resFmtState f) ES_FORMATTING_STATUS_CODE then
        (case formatStatusCode b m of
           (e, b1) \<Rightarrow>
             if e \<noteq> ESB_SUCCESS then (e, f, b1)
             else
               case res_fmt_transition f b1 ES_FORMATTING_STATUS_CODE ES_FORMATTING_REASON_PHRASE of
                 (_, f1, b2) \<Rightarrow> format_reason_stage f1 b2 m)
      else format_reason_stage f b m)"

definition format_response_version_stage ::
  "response_formatter \<Rightarrow> buffer \<Rightarrow> http_response \<Rightarrow> response_formatter format_result" where
  "format_response_version_stage f b m =
     (if has_flag (resFmtState f) ES_FORMATTING_VERSION then
        (case formatVersion b m False of
           (e, b1) \<Rightarrow>
             if e \<noteq> ESB_SUCCESS then (e, f, b1)
             else
               case res_fmt_transition f b1 ES_FORMATTING_VERSION ES_FORMATTING_STATUS_CODE of
                 (_, f1, b2) \<Rightarrow> format_status_stage f1 b2 m)
      else format_status_stage f b m)"

definition response_formatStartLine ::
  "response_formatter \<Rightarrow> buffer \<Rightarrow> http_response \<Rightarrow> response_formatter format_result" where
  "response_formatStartLine f b m =
     (if has_flag (resFmtState f) ES_FORMAT_COMPLETE then (ESB_INVALID_STATE, f, b)
      else if resFmtState f = 0 then
        (case Start b ES_FORMATTING_VERSION of
           (st, b1) \<Rightarrow> format_response_version_stage (f\<lparr>resFmtState := st\<rparr>) b1 m)
      else format_response_version_stage f b m)"

definition response_formatHeaders ::
  "response_formatter \<Rightarrow> buffer \<Rightarrow> http_response \<Rightarrow> response_formatter format_result" where
  "response_formatHeaders = formatHeaders response_formatStartLine"

end
