(* ===== verification/FormatUnits.thy ===== *)
theory FormatUnits
  imports MessageFormatter HttpNumber
begin

text \<open>
  What the formatters promise their callers, who call them again with an emptied buffer on
  ESB_AGAIN. The text of a message is a list of units, one per formatter state; a unit is
  written whole or not at all. A call writes the longest prefix of the remaining units that
  fits (\<open>greedy\<close>); locale \<open>unit_formatter\<close> draws the consequence for the whole output.
\<close>

section \<open>Output so far\<close>

text \<open>\<open>b'\<close> is \<open>b\<close> with \<open>w\<close> written; what lies behind the write position does not count.\<close>

definition wrote :: "buffer \<Rightarrow> u8 list \<Rightarrow> buffer \<Rightarrow> bool" where
  "wrote b w b' \<longleftrightarrow> buf_inv b' \<and> written b' = written b @ w \<and>
     rdPos b' = rdPos b \<and> rdMark b' = rdMark b \<and> cap b' = cap b"

definition marked :: "buffer \<Rightarrow> bool" where
  "marked b \<longleftrightarrow> wrMark b = wrPos b"

text \<open>Within a unit that started at \<open>a\<close>, \<open>w\<close> has been written.\<close>

definition pending :: "buffer \<Rightarrow> u8 list \<Rightarrow> buffer \<Rightarrow> bool" where
  "pending a w b \<longleftrightarrow> buf_inv a \<and> marked a \<and> wrote a w b \<and> wrMark b = wrMark a"

lemma wrote_refl [intro]: "buf_inv b \<Longrightarrow> wrote b [] b"
  by (simp add: wrote_def)

lemma wrote_trans: "wrote a v b \<Longrightarrow> wrote b w c \<Longrightarrow> wrote a (v @ w) c"
  by (simp add: wrote_def)

lemma wrote_room:
  assumes "buf_inv a" "wrote a w b"
  shows "length w \<le> room a" "room b = room a - length w" "unread b = unread a @ w"
    "unat (wrPos b) = unat (wrPos a) + length w"
proof -
  have b: "buf_inv b" "written b = written a @ w" "cap b = cap a" "rdPos b = rdPos a"
    using assms(2) by (auto simp: wrote_def)
  have len: "unat (wrPos b) = unat (wrPos a) + length w"
    using length_written [OF b(1)] length_written [OF assms(1)] b(2) by simp
  then show "unat (wrPos b) = unat (wrPos a) + length w" .
  show "length w \<le> room a" "room b = room a - length w"
    using len buf_invD(7) [OF b(1)] b(3) by (simp_all add: room_eq assms(1) b(1))
  show "unread b = unread a @ w"
    using buf_invD(6) [OF assms(1)] length_written [OF assms(1)]
    by (simp add: unread_written assms(1) b)
qed

lemma wrote_writeMark: "wrote a w b \<Longrightarrow> wrote a w (writeMark b)"
  by (auto simp: wrote_def writeMark_def buf_inv_def written_def)

lemma pendingD:
  assumes "pending a w b"
  shows "buf_inv a" "marked a" "wrote a w b" "buf_inv b" "length w \<le> room a"
    "room b = room a - length w" "isWritable b \<longleftrightarrow> length w < room a"
    "unat (writable b) = room a - length w"
proof -
  show inv: "buf_inv a" "marked a" "wrote a w b"
    using assms by (auto simp: pending_def)
  then show "buf_inv b"
    by (simp add: wrote_def)
  note r = wrote_room [OF inv(1,3)]
  from r(1) show "length w \<le> room a" .
  from r(2) show "room b = room a - length w" .
  from r(2) show "isWritable b \<longleftrightarrow> length w < room a"
    by (simp add: isWritable_room)
  from r(2) show "unat (writable b) = room a - length w"
    by (simp add: room_def)
qed

lemma pending_start: "buf_inv a \<Longrightarrow> marked a \<Longrightarrow> pending a [] a"
  by (auto simp: pending_def)

lemma pending_put:
  assumes "pending a w b" "length w < room a"
  shows "pending a (w @ [c]) (putNext b c)"
proof -
  note d = pendingD [OF assms(1)]
  have "0 < room b"
    using assms(2) d(6) by simp
  then have "wrote a (w @ [c]) (putNext b c)"
    using d(3) putNext_inv [OF d(4)] by (simp add: wrote_def written_putNext)
  then show ?thesis
    using assms(1) by (simp add: pending_def)
qed

lemma pending_put_all:
  "pending a w b \<Longrightarrow> length w + length v \<le> room a \<Longrightarrow> pending a (w @ v) (put_all b v)"
proof (induction v arbitrary: w b)
  case (Cons c v)
  then have "pending a (w @ [c]) (putNext b c)"
    by (intro pending_put) auto
  from Cons.IH [OF this] Cons.prems show ?case
    by (simp add: put_all_def)
qed simp

lemma pending_reset:
  assumes "pending a w b"
  shows "pending a [] (writeReset b)"
proof -
  have a: "buf_inv a" "wrMark a = wrPos a" "wrote a w b" "wrMark b = wrMark a"
    using assms by (auto simp: pending_def marked_def)
  have b: "buf_inv b" "written b = written a @ w" "cap b = cap a" "rdPos b = rdPos a" "rdMark b = rdMark a"
    using a(3) by (auto simp: wrote_def)
  have le: "unat (wrPos a) \<le> unat (wrPos b)"
    using wrote_room(4) [OF a(1,3)] by simp
  have "take (unat (wrPos a)) (octets b) = take (unat (wrPos a)) (written b)"
    using le by (simp add: written_def min_def)
  also have "\<dots> = written a"
    using length_written [OF a(1)] by (simp add: b(2))
  finally have "written (writeReset b) = written a"
    by (simp add: written_def writeReset_def a(2,4))
  moreover have "buf_inv (writeReset b)"
    using b buf_invD [OF a(1)] a(2,4) by (intro writeReset_inv) auto
  ultimately show ?thesis
    using a b by (simp add: pending_def wrote_def marked_def) (simp add: writeReset_def)
qed

lemma marked_writeMark [simp]: "marked (writeMark b)"
  by (simp add: marked_def writeMark_def)

lemma marked_eq: "marked b \<Longrightarrow> writeMark b = b"
  by (simp add: marked_def writeMark_def)

lemma pending_marked: "pending a [] b \<Longrightarrow> marked b"
  using wrote_room(4) [of a "[]" b] by (simp add: pending_def marked_def word_unat_eq_iff)

section \<open>Units\<close>

text \<open>The outcome of a unit with text \<open>t\<close>: written, or ESB_AGAIN and nothing written.\<close>

definition unit_part :: "buffer \<Rightarrow> u8 list \<Rightarrow> nat \<Rightarrow> error \<times> buffer \<Rightarrow> bool" where
  "unit_part a t n r \<longleftrightarrow> (\<exists>b. r = (ESB_SUCCESS, b) \<and> pending a t b) \<or>
     (\<exists>b. r = (ESB_AGAIN, b) \<and> pending a [] b \<and> room a < length t + n)"

definition unit_result :: "buffer \<Rightarrow> u8 list \<Rightarrow> error \<times> buffer \<Rightarrow> bool" where
  "unit_result a t r \<longleftrightarrow> unit_part a t 0 r"

lemma unit_part_success: "pending a t b \<Longrightarrow> unit_part a t n (ESB_SUCCESS, b)"
  by (simp add: unit_part_def)

lemma unit_part_again: "pending a w b \<Longrightarrow> room a < length t + n \<Longrightarrow> unit_part a t n (Rollback b ESB_AGAIN)"
  by (simp add: unit_part_def Rollback_def pending_reset)

text \<open>A slack of \<open>n\<close>: ESB_AGAIN is allowed although \<open>t\<close> alone would fit, because what follows needs
  \<open>n\<close> octets more.\<close>

lemma unit_part_then:
  assumes "unit_part a t n r" "n \<le> length t' + m"
    and "\<And>b. pending a t b \<Longrightarrow> unit_part a (t @ t') m (k b)"
  shows "unit_part a (t @ t') m (case r of (e, b) \<Rightarrow> if e \<noteq> ESB_SUCCESS then (e, b) else k b)"
  using assms unfolding unit_part_def by fastforce

lemma unit_part_put:
  assumes "pending a w b"
  shows "unit_part a (w @ [c]) n (if \<not> isWritable b then Rollback b ESB_AGAIN else (ESB_SUCCESS, putNext b c))"
  using assms pendingD(7) [OF assms]
  by (auto intro: unit_part_success unit_part_again pending_put)

lemma unit_part_put2:
  assumes "pending a w b"
  shows "unit_part a (w @ [c, d]) n
    (if 2 > writable b then Rollback b ESB_AGAIN else (ESB_SUCCESS, putNext (putNext b c) d))"
proof (cases "2 > writable b")
  case True
  then show ?thesis
    using pendingD(8) [OF assms] by (auto simp: word_less_nat_alt intro: unit_part_again [OF assms])
next
  case False
  then have "length w + 2 \<le> room a"
    using pendingD(5,8) [OF assms] by (simp add: word_less_nat_alt)
  then have "pending a ((w @ [c]) @ [d]) (putNext (putNext b c) d)"
    using assms by (intro pending_put) auto
  then show ?thesis
    using False by (simp add: unit_part_success)
qed

lemma unit_resultE:
  assumes "unit_result a t r"
  obtains b where "r = (ESB_SUCCESS, b)" "pending a t b" "length t \<le> room a"
  | b where "r = (ESB_AGAIN, b)" "pending a [] b" "room a < length t"
  using assms pendingD(5) by (auto simp: unit_result_def unit_part_def)

text \<open>What a call that starts at \<open>a\<close> with the units \<open>us\<close> to write may return.\<close>

definition greedy ::
  "buffer \<Rightarrow> u8 list list \<Rightarrow> (u8 list list \<Rightarrow> 's \<Rightarrow> bool) \<Rightarrow> 's format_result \<Rightarrow> bool" where
  "greedy a us Q r \<longleftrightarrow>
     (\<exists>e s b n. r = (e, s, b) \<and> n \<le> length us \<and> wrote a (concat (take n us)) b \<and> marked b \<and>
        Q (drop n us) s \<and>
        (if n = length us then e = ESB_SUCCESS else e = ESB_AGAIN \<and> room b < length (us ! n)))"

lemma greedy_Nil: "buf_inv a \<Longrightarrow> marked a \<Longrightarrow> Q [] s \<Longrightarrow> greedy a [] Q (ESB_SUCCESS, s, a)"
  by (auto simp: greedy_def)

lemma greedy_again:
  "buf_inv a \<Longrightarrow> marked a \<Longrightarrow> us \<noteq> [] \<Longrightarrow> Q us s \<Longrightarrow> room a < length (hd us) \<Longrightarrow>
    greedy a us Q (ESB_AGAIN, s, a)"
  unfolding greedy_def by (intro exI [of _ ESB_AGAIN] exI [of _ s] exI [of _ a] exI [of _ 0])
    (auto simp: hd_conv_nth)

lemma greedy_mono:
  "greedy a us Q r \<Longrightarrow> (\<And>xs s. Q xs s \<Longrightarrow> Q' xs s) \<Longrightarrow> greedy a us Q' r"
  unfolding greedy_def by blast

lemma greedy_Cons:
  assumes g: "unit_result a t g" and inv: "buf_inv a" "marked a" and s: "Q (t # us) s"
    and k: "\<And>b. pending a t b \<Longrightarrow> greedy (writeMark b) us Q (k (writeMark b))"
  shows "greedy a (t # us) Q (case g of (e, b) \<Rightarrow> if e \<noteq> ESB_SUCCESS then (e, s, b) else k (writeMark b))"
proof (cases rule: unit_resultE [OF g])
  case b: (1 b)
  obtain e s' b' n where r: "k (writeMark b) = (e, s', b')" "n \<le> length us"
    "wrote (writeMark b) (concat (take n us)) b'" "marked b'" "Q (drop n us) s'"
    "if n = length us then e = ESB_SUCCESS else e = ESB_AGAIN \<and> room b' < length (us ! n)"
    using k [OF b(2)] unfolding greedy_def by blast
  have "wrote a (t @ concat (take n us)) b'"
    using wrote_trans [OF wrote_writeMark [OF pendingD(3) [OF b(2)]] r(3)] .
  then show ?thesis
    unfolding greedy_def using b r
    by (intro exI [of _ e] exI [of _ s'] exI [of _ b'] exI [of _ "Suc n"]) auto
next
  case b: (2 b)
  have "room b < length t"
    using b(3) pendingD(6) [OF b(2)] by simp
  then show ?thesis
    unfolding greedy_def using b pendingD(3) [OF b(2)] pending_marked [OF b(2)] s
    by (intro exI [of _ ESB_AGAIN] exI [of _ s] exI [of _ b] exI [of _ 0]) auto
qed

text \<open>A part that is itself a formatter, then the rest.\<close>

lemma greedy_append:
  assumes r: "greedy a us (\<lambda>xs s. if xs = [] then P s else Q (xs @ vs) (F s)) r" and inv: "buf_inv a"
    and k: "\<And>s b. wrote a (concat us) b \<Longrightarrow> marked b \<Longrightarrow> P s \<Longrightarrow> greedy b vs Q (k s b)"
  shows "greedy a (us @ vs) Q
    (case r of (e, s, b) \<Rightarrow> if e \<noteq> ESB_SUCCESS then (e, F s, b) else k s b)"
proof -
  obtain e s b n where g: "r = (e, s, b)" "n \<le> length us" "wrote a (concat (take n us)) b" "marked b"
    "if drop n us = [] then P s else Q (drop n us @ vs) (F s)"
    "if n = length us then e = ESB_SUCCESS else e = ESB_AGAIN \<and> room b < length (us ! n)"
    using r unfolding greedy_def by blast
  show ?thesis
  proof (cases "n = length us")
    case True
    obtain e' s' b' n' where h: "k s b = (e', s', b')" "n' \<le> length vs"
      "wrote b (concat (take n' vs)) b'" "marked b'" "Q (drop n' vs) s'"
      "if n' = length vs then e' = ESB_SUCCESS else e' = ESB_AGAIN \<and> room b' < length (vs ! n')"
      using k [of b s] g True unfolding greedy_def by auto
    have "wrote a (concat us @ concat (take n' vs)) b'"
      using wrote_trans [OF g(3) h(3)] True by simp
    then show ?thesis
      unfolding greedy_def using g True h
      by (intro exI [of _ e'] exI [of _ s'] exI [of _ b'] exI [of _ "length us + n'"])
         (auto simp: nth_append)
  next
    case False
    then show ?thesis
      unfolding greedy_def using g
      by (intro exI [of _ e] exI [of _ "F s"] exI [of _ b] exI [of _ n]) (auto simp: nth_append)
  qed
qed

section \<open>Formatting a message through a small buffer\<close>

text \<open>
  The caller's loop: format, send everything that was written, and format again as long as the
  answer is ESB_AGAIN. The result is the output and the answer of the last call.
\<close>

fun drain :: "('s \<Rightarrow> buffer \<Rightarrow> 's format_result) \<Rightarrow> nat \<Rightarrow> 's \<Rightarrow> buffer \<Rightarrow> u8 list \<times> 's format_result" where
  "drain step 0 s b = ([], ESB_AGAIN, s, b)"
| "drain step (Suc n) s b =
     (case step s b of
        (e, s', b') \<Rightarrow>
          if e = ESB_AGAIN then
            (case drain step n s' (send b' (readable b')) of (out, r) \<Rightarrow> (unread b' @ out, r))
          else (unread b', e, s', b'))"

definition drained :: "buffer \<Rightarrow> bool" where
  "drained b \<longleftrightarrow> buf_inv b \<and> marked b \<and> unread b = [] \<and> room b = unat (cap b)"

lemma send_all_drained:
  assumes "buf_inv b" "unread b \<noteq> []"
  shows "drained (send b (readable b))" "cap (send b (readable b)) = cap b"
proof -
  note i = buf_invD [OF assms(1)]
  have r: "readable b \<noteq> 0"
    using assms by (metis isReadable_def isReadable_unread word_neq_0_conv)
  have le: "rdPos b + readable b = wrPos b"
    by (simp add: readable_def)
  have w: "wrPos b \<noteq> 0"
    using i(2) r by (auto simp: readable_def)
  have "send b (readable b) = snd (compact (b\<lparr>rdPos := wrPos b\<rparr>))"
    using r le i(3) by (simp add: send_def setReadPosition_def)
  also have "\<dots> = b\<lparr>rdPos := 0, wrPos := 0, rdMark := 0, wrMark := 0\<rparr>"
    using w by (simp add: compact_def Let_def)
  finally have "send b (readable b) = buf_clear b"
    by (simp add: buf_clear_def)
  then show "drained (send b (readable b))" "cap (send b (readable b)) = cap b"
    using buf_clear_inv [OF assms(1)]
    by (simp_all add: drained_def room_clear) (simp add: marked_def buf_clear_def)
qed

text \<open>
  The contract of a formatter and its consequence for the caller: when every unit fits an empty
  buffer, the loop ends with ESB_SUCCESS after at most one call per unit, and the output is the
  text of all units, in order and each once.
\<close>

locale unit_formatter =
  fixes step :: "'s \<Rightarrow> buffer \<Rightarrow> 's format_result"
    and at :: "u8 list list \<Rightarrow> 's \<Rightarrow> bool"
  assumes step_greedy: "at us s \<Longrightarrow> us \<noteq> [] \<Longrightarrow> buf_inv b \<Longrightarrow> marked b \<Longrightarrow> greedy b us at (step s b)"
begin

lemma one_call:
  assumes "at us s" "us \<noteq> []" "drained b" "\<forall>u \<in> set us. length u \<le> unat (cap b)"
  obtains (complete) s' b' where "step s b = (ESB_SUCCESS, s', b')" "at [] s'" "unread b' = concat us"
  | (more) s' b' k where "step s b = (ESB_AGAIN, s', b')" "0 < k" "k < length us" "at (drop k us) s'"
    "unread b' = concat (take k us)" "unread b' \<noteq> []" "buf_inv b'" "cap b' = cap b"
proof -
  have b: "buf_inv b" "marked b" "unread b = []" "room b = unat (cap b)"
    using assms(3) by (auto simp: drained_def)
  obtain e s' b' n where g: "step s b = (e, s', b')" "n \<le> length us" "wrote b (concat (take n us)) b'"
    "at (drop n us) s'" "if n = length us then e = ESB_SUCCESS else e = ESB_AGAIN \<and> room b' < length (us ! n)"
    using step_greedy [OF assms(1,2) b(1,2)] unfolding greedy_def by blast
  note w = wrote_room [OF b(1) g(3)]
  show thesis
  proof (cases "n = length us")
    case True
    then show thesis
      using g w(3) b(3) by (intro complete [of s' b']) auto
  next
    case False
    then have n: "n < length us" "e = ESB_AGAIN" "room b' < length (us ! n)"
      using g(2,5) by auto
    have "length (us ! n) \<le> room b"
      using assms(4) n(1) b(4) by simp
    then have "\<not> length (concat (take n us)) = 0"
      using n(3) w(2) by linarith
    then have "concat (take n us) \<noteq> []"
      by (metis list.size(3))
    moreover from this have "0 < n"
      by (cases n) auto
    ultimately show thesis
      using g w(3) b(3) n by (intro more [of s' b' n]) (auto simp: wrote_def)
  qed
qed

lemma drain_all:
  assumes "at us s" "us \<noteq> []" "drained b" "\<forall>u \<in> set us. length u \<le> unat (cap b)" "length us \<le> n"
  shows "\<exists>s' b'. drain step n s b = (concat us, ESB_SUCCESS, s', b') \<and> at [] s'"
  using assms
proof (induction n arbitrary: us s b)
  case (Suc n)
  from Suc.prems(1-4) show ?case
  proof (cases rule: one_call)
    case (complete s' b')
    then show ?thesis by simp
  next
    case (more s' b' k)
    have "\<forall>u \<in> set (drop k us). length u \<le> unat (cap (send b' (readable b')))"
      using Suc.prems(4) more(8) send_all_drained(2) [OF more(7,6)] by (auto dest: in_set_dropD)
    then obtain s'' b'' where
      "drain step n s' (send b' (readable b')) = (concat (drop k us), ESB_SUCCESS, s'', b'')" "at [] s''"
      using Suc.IH [OF more(4) _ send_all_drained(1) [OF more(7,6)]] more(2,3) Suc.prems(5) by fastforce
    moreover have "concat us = concat (take k us) @ concat (drop k us)"
      by (metis append_take_drop_id concat_append)
    ultimately show ?thesis
      using more(1,5) by simp
  qed
qed simp

end

end
