(* ===== verification/FormatTexts.thy ===== *)
theory FormatTexts
  imports FormatUnits
begin

text \<open>
  The text of every unit of a message, and the lemma per production that the formatter writes
  that text as one unit: whole, or not at all with ESB_AGAIN.
\<close>

section \<open>Octets of a string\<close>

definition escape_text :: "u8 \<Rightarrow> u8 list" where
  "escape_text c = [PERCENT, hex_digit (drop_bit 4 (0xF0 AND c)), hex_digit (0x0F AND c)]"

definition escaped :: "(u8 \<Rightarrow> bool) \<Rightarrow> cstr \<Rightarrow> u8 list" where
  "escaped plain cs = concat (map (\<lambda>c. if plain c then [c] else escape_text c) cs)"

lemma escaped_simps [simp]:
  "escaped plain [] = []"
  "escaped plain (c # cs) = (if plain c then [c] else escape_text c) @ escaped plain cs"
  by (simp_all add: escaped_def)

lemma escaped_plain: "\<forall>c \<in> set cs. plain c \<Longrightarrow> escaped plain cs = cs"
  by (induction cs) auto

text \<open>What \<open>special\<close> does with an octet that is not plain: it writes \<open>esc c\<close>, or nothing for want
  of room.\<close>

lemma EncodeEscape_part:
  assumes p: "pending a w b" and c: "c \<noteq> 0"
  shows "(\<exists>b'. EncodeEscape b c = (ESB_SUCCESS, b') \<and> pending a (w @ escape_text c) b') \<or>
    (EncodeEscape b c = (ESB_AGAIN, b) \<and> room a < length (w @ escape_text c))"
proof (cases "3 > writable b")
  case True
  then show ?thesis
    using pendingD(5,8) [OF p] c by (simp add: EncodeEscape_def escape_text_def word_less_nat_alt)
next
  case False
  then have "length w + length (escape_text c) \<le> room a"
    using pendingD(5,8) [OF p] by (simp add: escape_text_def word_less_nat_alt)
  from pending_put_all [OF p this] show ?thesis
    using False c by (simp add: EncodeEscape_def escape_text_def put_all_def Let_def)
qed

lemma format_octets_part:
  assumes "pending a w b" and "\<forall>c \<in> set cs. \<not> plain c \<longrightarrow> c \<noteq> 0"
  shows "unit_part a (w @ escaped plain cs) n (format_octets plain EncodeEscape cs b)"
  using assms
proof (induction cs arbitrary: w b)
  case Nil
  then show ?case by (simp add: unit_part_success)
next
  case (Cons c cs)
  let ?t = "if plain c then [c] else escape_text c"
  show ?case
  proof (cases "isWritable b")
    case False
    then show ?thesis
      using Cons.prems(1) pendingD(7) [OF Cons.prems(1)]
      by (auto simp: escape_text_def intro!: unit_part_again)
  next
    case True
    show ?thesis
    proof (cases "plain c")
      case plain: True
      have "pending a (w @ [c]) (putNext b c)"
        using Cons.prems(1) True pendingD(7) [OF Cons.prems(1)] by (simp add: pending_put)
      from Cons.IH [OF this] Cons.prems(2) show ?thesis
        using True plain by simp
    next
      case False
      with Cons.prems(2) have "c \<noteq> 0" by simp
      from EncodeEscape_part [OF Cons.prems(1) this] show ?thesis
      proof (elim disjE exE conjE)
        fix b'
        assume e: "EncodeEscape b c = (ESB_SUCCESS, b')" "pending a (w @ escape_text c) b'"
        from Cons.IH [OF e(2)] Cons.prems(2) show ?thesis
          using True False e(1) by simp
      next
        assume e: "EncodeEscape b c = (ESB_AGAIN, b)" "room a < length (w @ escape_text c)"
        then show ?thesis
          using True False Cons.prems(1) by (auto intro: unit_part_again)
      qed
    qed
  qed
qed

text \<open>When every octet is plain, what is done with the others does not matter.\<close>

lemma format_octets_cong:
  "\<forall>c \<in> set cs. plain c = plain' c \<and> (\<not> plain c \<longrightarrow> special = special') \<Longrightarrow>
    format_octets plain special cs b = format_octets plain' special' cs b"
  by (induction cs arbitrary: b) (auto split: prod.split)

lemma format_octets_plain:
  assumes "pending a w b" "\<forall>c \<in> set cs. plain c"
  shows "unit_part a (w @ cs) n (format_octets plain special cs b)"
proof -
  have "format_octets plain special cs b = format_octets plain EncodeEscape cs b"
    using assms(2) by (intro format_octets_cong) auto
  then show ?thesis
    using format_octets_part [OF assms(1), of cs plain n] assms(2) by (simp add: escaped_plain)
qed

section \<open>Start lines\<close>

definition version_text :: "int \<Rightarrow> u8 list" where
  "version_text v = (if v = 110 then asc ''HTTP/1.1'' else asc ''HTTP/1.0'')"

definition known_version :: "'m http_message_scheme \<Rightarrow> bool" where
  "known_version m \<longleftrightarrow> httpVersion m = 110 \<or> httpVersion m = 100"

lemma unit_part_then1:
  assumes "unit_part a t 1 r"
  shows "unit_part a (t @ [c]) 0 (case r of (e, b) \<Rightarrow> if e \<noteq> ESB_SUCCESS then (e, b)
    else if \<not> isWritable b then Rollback b ESB_AGAIN else (ESB_SUCCESS, putNext b c))"
  by (rule unit_part_then [OF assms]) (simp, erule unit_part_put)

lemma unit_part_then2:
  assumes "unit_part a t 2 r"
  shows "unit_part a (t @ [c, d]) 0 (case r of (e, b) \<Rightarrow> if e \<noteq> ESB_SUCCESS then (e, b)
    else if 2 > writable b then Rollback b ESB_AGAIN else (ESB_SUCCESS, putNext (putNext b c) d))"
  by (rule unit_part_then [OF assms]) (simp, erule unit_part_put2)

lemma pending_first: "buf_inv a \<Longrightarrow> marked a \<Longrightarrow> isWritable a \<Longrightarrow> pending a [c] (putNext a c)"
  using pending_put [OF pending_start, of a c] by (simp add: isWritable_room)

lemma unit_part_full:
  "buf_inv a \<Longrightarrow> marked a \<Longrightarrow> \<not> isWritable a \<Longrightarrow> t \<noteq> [] \<Longrightarrow> unit_part a t n (Rollback a ESB_AGAIN)"
  by (rule unit_part_again [OF pending_start]) (auto simp: isWritable_room)

lemma formatVersion_client:
  assumes a: "buf_inv a" "marked a" and m: "known_version m"
  shows "unit_result a (SP # version_text (httpVersion m) @ [CR, LF]) (formatVersion a m True)"
proof (cases "isWritable a")
  case True
  let ?v = "version_text (httpVersion m)"
  have "unit_part a (([SP] @ ?v) @ [CR, LF]) 0
      (case format_octets (\<lambda>_. True) no_other ?v (putNext a SP) of
        (e, b) \<Rightarrow> if e \<noteq> ESB_SUCCESS then (e, b) else
           if 2 > writable b then Rollback b ESB_AGAIN else (ESB_SUCCESS, putNext (putNext b CR) LF))"
    by (intro unit_part_then2 format_octets_plain pending_first a True) simp
  then show ?thesis
    using True m by (auto simp: unit_result_def formatVersion_def known_version_def version_text_def
        cong: prod.case_cong if_cong)
next
  case False
  then show ?thesis
    using a by (simp add: unit_result_def formatVersion_def unit_part_full)
qed

lemma formatVersion_server:
  assumes a: "buf_inv a" "marked a" and m: "known_version m"
  shows "unit_result a (version_text (httpVersion m) @ [SP]) (formatVersion a m False)"
proof -
  let ?v = "version_text (httpVersion m)"
  have "unit_part a (([] @ ?v) @ [SP]) 0
      (case format_octets (\<lambda>_. True) no_other ?v a of
        (e, b) \<Rightarrow> if e \<noteq> ESB_SUCCESS then (e, b) else
           if \<not> isWritable b then Rollback b ESB_AGAIN else (ESB_SUCCESS, putNext b SP))"
    by (intro unit_part_then1 format_octets_plain pending_start a) simp
  then show ?thesis
    using m by (auto simp: unit_result_def formatVersion_def known_version_def version_text_def
        cong: prod.case_cong if_cong)
qed

lemma token_nonzero: "IsToken c \<Longrightarrow> c \<noteq> 0"
proof -
  have "\<not> IsToken 0" by code_simp
  then show "IsToken c \<Longrightarrow> c \<noteq> 0" by auto
qed

lemma formatMethod_unit:
  assumes a: "buf_inv a" "marked a" and m: "reqMethod m = Some s" "s \<noteq> []" "\<forall>c \<in> set s. IsToken c"
  shows "unit_result a (s @ [SP]) (formatMethod a m)"
proof -
  have "c_head s \<noteq> 0"
    using m(2,3) by (cases s) (auto simp: c_head_def token_nonzero)
  moreover have "unit_part a (([] @ s) @ [SP]) 0
      (case format_octets IsToken (reject ES_HTTP_BAD_REQUEST_METHOD) s a of
        (e, b) \<Rightarrow> if e \<noteq> ESB_SUCCESS then (e, b) else
           if \<not> isWritable b then Rollback b ESB_AGAIN else (ESB_SUCCESS, putNext b SP))"
    by (intro unit_part_then1 format_octets_plain pending_start a m(3))
  ultimately show ?thesis
    using m(1) by (simp add: unit_result_def formatMethod_def)
qed

definition status_text :: "int \<Rightarrow> u8 list" where
  "status_text n = digits 10 3 (nat n)"

lemma digit_count_eq:
  assumes "2 \<le> r" "r ^ k \<le> n" "n < r ^ Suc k"
  shows "digit_count r n = Suc k"
proof -
  have pos: "0 < n"
    using assms(1,2) by (metis gr_zeroI le_zero_eq not_numeral_le_zero power_eq_0_iff)
  have "r ^ k < r ^ digit_count r n"
    using digit_count_bound [OF assms(1), of n] assms(2) by simp
  moreover have "r ^ digit_count r n < r ^ Suc (Suc k)"
  proof -
    have "r ^ digit_count r n \<le> r * n"
      using digit_count_bound [OF assms(1), of n] pos by simp
    also have "\<dots> < r * r ^ Suc k"
      using assms(1,3) by simp
    finally show ?thesis by simp
  qed
  moreover have "1 < r"
    using assms(1) by simp
  ultimately have "k < digit_count r n" "digit_count r n < Suc (Suc k)"
    by (auto simp only: power_strict_increasing_iff)
  then show ?thesis by simp
qed

lemma put_all_unit:
  assumes a: "buf_inv a" "marked a" "length t \<le> room a"
  shows "pending a t (put_all a t)"
  using pending_put_all [OF pending_start [OF a(1,2)], of t] a(3) by simp

lemma formatStatusCode_unit:
  assumes a: "buf_inv a" "marked a" and m: "100 \<le> statusCode m" "statusCode m \<le> 999"
  shows "unit_result a (status_text (statusCode m) @ [SP]) (formatStatusCode a m)"
proof (cases "4 > writable a")
  case True
  then show ?thesis
    using a m by (auto simp: unit_result_def formatStatusCode_def status_text_def word_less_nat_alt
        room_def intro!: unit_part_again pending_start)
next
  case False
  let ?n = "nat (statusCode m)"
  have room: "4 \<le> room a"
    using False by (simp add: room_def word_less_nat_alt)
  have n: "100 \<le> ?n" "?n \<le> 999"
    using m by auto
  obtain k where k: "statusCode m = int k"
    using m(1) by (metis nonneg_int_cases order_trans zero_le_numeral)
  then have u: "unat (of_int (statusCode m) :: u64) = ?n"
    using n by (simp add: unat_of_nat)
  have d: "digit_count 10 ?n = 3"
    using digit_count_eq [of 10 2 ?n] n by simp
  have F: "FormatInteger a (of_int (statusCode m)) 10 = (ESB_SUCCESS, put_all a (status_text (statusCode m)))"
    using FormatInteger_digits [of "of_int (statusCode m)" 10 a] room n u d a
    by (simp add: status_text_def)
  have "unit_part a (status_text (statusCode m)) 1 (ESB_SUCCESS, put_all a (status_text (statusCode m)))"
    using room by (intro unit_part_success put_all_unit a) (simp add: status_text_def)
  from unit_part_then1 [OF this, of SP] show ?thesis
    using m False F by (simp add: unit_result_def formatStatusCode_def cong: prod.case_cong if_cong)
qed

lemma formatReasonPhrase_unit:
  assumes a: "buf_inv a" "marked a"
    and m: "reasonPhrase m = Some s" "c_head s \<noteq> 0" "\<forall>c \<in> set s. is_reason_octet c"
  shows "unit_result a (s @ [CR, LF]) (formatReasonPhrase a m)"
proof -
  have "unit_part a (([] @ s) @ [CR, LF]) 0
      (case format_octets is_reason_octet (reject ES_HTTP_BAD_REASON_PHRASE) s a of
        (e, b) \<Rightarrow> if e \<noteq> ESB_SUCCESS then (e, b) else
           if 2 > writable b then Rollback b ESB_AGAIN else (ESB_SUCCESS, putNext (putNext b CR) LF))"
    by (intro unit_part_then2 format_octets_plain pending_start a m(3))
  then show ?thesis
    using m by (simp add: unit_result_def formatReasonPhrase_def)
qed

section \<open>Header fields\<close>

lemma formatFieldName_unit:
  assumes a: "buf_inv a" "marked a" and s: "\<forall>c \<in> set s. IsToken c"
  shows "unit_result a (s @ [COLON, SP]) (formatFieldName a s)"
proof -
  have "unit_part a (([] @ s) @ [COLON, SP]) 0
      (case format_octets IsToken (reject ES_HTTP_BAD_REQUEST_FIELD_NAME) s a of
        (e, b) \<Rightarrow> if e \<noteq> ESB_SUCCESS then (e, b) else
           if 2 > writable b then Rollback b ESB_AGAIN else (ESB_SUCCESS, putNext (putNext b COLON) SP))"
    by (intro unit_part_then2 format_octets_plain pending_start a s)
  then show ?thesis
    by (simp add: unit_result_def formatFieldName_def)
qed

text \<open>The text of a value: white space runs become one space, leading ones disappear.\<close>

fun squeeze :: "bool \<Rightarrow> cstr \<Rightarrow> u8 list" where
  "squeeze lastIsSpace [] = []"
| "squeeze lastIsSpace (c # cs) =
     (if IsLWS c then (if lastIsSpace then [] else [SP]) @ squeeze True cs
      else c # squeeze False cs)"

definition value_octet :: "u8 \<Rightarrow> bool" where
  "value_octet c \<longleftrightarrow> IsLWS c \<or> IsToken c \<or> IsSeparator c \<or> IsText c"

lemma formatFieldValue_loop_part:
  "pending a w b \<Longrightarrow> \<forall>c \<in> set v. value_octet c \<Longrightarrow>
    unit_part a (w @ squeeze l v) 2 (formatFieldValue_loop l v b)"
proof (induction v arbitrary: l w b)
  case Nil
  then show ?case by (simp add: unit_part_success)
next
  case (Cons c cs)
  show ?case
  proof (cases "isWritable b")
    case False
    then show ?thesis
      using Cons.prems(1) pendingD(7) [OF Cons.prems(1)] by (auto intro!: unit_part_again)
  next
    case True
    have step: "pending a (w @ [x]) (putNext b x)" for x
      using Cons.prems(1) True pendingD(7) [OF Cons.prems(1)] by (simp add: pending_put)
    have rest: "\<forall>c \<in> set cs. value_octet c" "value_octet c"
      using Cons.prems(2) by auto
    show ?thesis
      using True rest(2) Cons.IH [OF step rest(1), of SP True] Cons.IH [OF step rest(1), of c False]
        Cons.IH [OF Cons.prems(1) rest(1), of True]
      by (auto simp: value_octet_def)
  qed
qed

lemma formatFieldValue_unit:
  assumes a: "buf_inv a" "marked a" and v: "\<forall>c \<in> set v. value_octet c"
  shows "unit_result a (squeeze True v @ [CR, LF]) (formatFieldValue a (Some v))"
proof -
  have "unit_part a (([] @ squeeze True v) @ [CR, LF]) 0
      (case formatFieldValue_loop True v a of
        (e, b) \<Rightarrow> if e \<noteq> ESB_SUCCESS then (e, b) else
           if 2 > writable b then Rollback b ESB_AGAIN else (ESB_SUCCESS, putNext (putNext b CR) LF))"
    by (intro unit_part_then2 formatFieldValue_loop_part pending_start a v)
  then show ?thesis
    by (simp add: unit_result_def formatFieldValue_def)
qed

end
