(* ===== verification/UriUnits.thy ===== *)
theory UriUnits
  imports FormatTexts
begin

text \<open>
  A request URI as a list of units, and the formatter's states as positions in that list: a call
  of \<open>format\<close> writes the longest prefix of the remaining units that fits the buffer.
\<close>

section \<open>Texts\<close>

definition number_text :: "nat \<Rightarrow> u8 list" where
  "number_text n = (if n = 0 then [48] else digits 10 (digit_count 10 n) n)"

definition scheme_text :: "request_uri \<Rightarrow> u8 list" where
  "scheme_text u = (if uriType u = ES_URI_HTTPS then asc ''https://'' else asc ''http://'')"

definition default_or_none :: "request_uri \<Rightarrow> bool" where
  "default_or_none u \<longleftrightarrow> port u < 0 \<or> port u = (if uriType u = ES_URI_HTTPS then 443 else 80)"

definition port_text :: "request_uri \<Rightarrow> u8 list" where
  "port_text u = (if default_or_none u then [] else COLON # number_text (nat (port u)))"

definition path_text :: "request_uri \<Rightarrow> u8 list" where
  "path_text u = (let p = (case absPath u of Some s \<Rightarrow> s | None \<Rightarrow> asc ''/'') in
     (if c_head p \<noteq> SLASH then [SLASH] else []) @ escaped is_path_octet p)"

definition optional_text :: "u8 \<Rightarrow> cstr option \<Rightarrow> u8 list" where
  "optional_text c s = (case s of None \<Rightarrow> [] | Some p \<Rightarrow> if c_head p = 0 then [] else c # escaped IsUric p)"

definition http_units :: "request_uri \<Rightarrow> u8 list list" where
  "http_units u = [scheme_text u, the (host u), port_text u, path_text u,
     optional_text QUESTION (query u), optional_text HASH (fragment u)]"

definition has_host :: "request_uri \<Rightarrow> bool" where
  "has_host u \<longleftrightarrow> (case host u of None \<Rightarrow> False | Some h \<Rightarrow> c_head h \<noteq> 0)"

definition uri_units :: "request_uri \<Rightarrow> u8 list list" where
  "uri_units u =
     (case uriType u of
        ES_URI_ASTERISK \<Rightarrow> [[ASTERISK]]
      | ES_URI_OTHER \<Rightarrow> [the (other u)]
      | _ \<Rightarrow> if has_host u then http_units u else drop 3 (http_units u))"

definition nul_free :: "cstr option \<Rightarrow> bool" where
  "nul_free s \<longleftrightarrow> (case s of None \<Rightarrow> True | Some p \<Rightarrow> 0 \<notin> set p)"

text \<open>The URIs the formatter accepts: C strings, a port below 65536, a body for other schemes.\<close>

definition uri_formattable :: "request_uri \<Rightarrow> bool" where
  "uri_formattable u \<longleftrightarrow> nul_free (absPath u) \<and> nul_free (query u) \<and> nul_free (fragment u) \<and>
     port u < 65536 \<and>
     (uriType u = ES_URI_OTHER \<longrightarrow> (case other u of None \<Rightarrow> False | Some p \<Rightarrow> c_head p \<noteq> 0))"

lemma uri_formattable_other:
  assumes "uri_formattable u" "uriType u = ES_URI_OTHER"
  obtains p where "other u = Some p" "c_head p \<noteq> 0"
  using assms by (auto simp: uri_formattable_def split: option.splits)

section \<open>Productions\<close>

text \<open>A production in state \<open>old\<close> writes the unit \<open>t\<close> and goes on to \<open>new\<close>.\<close>

definition writes :: "buffer \<Rightarrow> u8 list \<Rightarrow> u32 \<Rightarrow> u32 \<Rightarrow> u32 \<Rightarrow> u32 format_result \<Rightarrow> bool" where
  "writes a t st old new r \<longleftrightarrow> (\<exists>g. r = unit_step st old new g \<and> unit_result a t g)"

lemma writesI: "unit_result a t g \<Longrightarrow> writes a t st old new (unit_step st old new g)"
  unfolding writes_def by blast

lemma writes_nothing:
  "buf_inv a \<Longrightarrow> marked a \<Longrightarrow> writes a [] st old new (Transition st a old new)"
  unfolding writes_def by (intro exI [of _ "(ESB_SUCCESS, a)"])
    (auto simp: unit_step_def unit_result_def intro!: unit_part_success pending_start)

lemma writes_full:
  "buf_inv a \<Longrightarrow> marked a \<Longrightarrow> \<not> isWritable a \<Longrightarrow> t \<noteq> [] \<Longrightarrow>
    writes a t st old new (roll_back st a ESB_AGAIN)"
  unfolding writes_def by (intro exI [of _ "Rollback a ESB_AGAIN"])
    (auto simp: unit_step_def roll_back_def Rollback_def unit_result_def
      dest: unit_part_full [of _ t 0])

lemma formatAsterisk_writes:
  assumes a: "buf_inv a" "marked a"
  shows "writes a [ASTERISK] st 1 128 (formatAsterisk st a u)"
proof (cases "isWritable a")
  case True
  then have "writes a [ASTERISK] st 1 128 (unit_step st 1 128 (ESB_SUCCESS, putNext a ASTERISK))"
    by (intro writesI) (simp add: unit_result_def unit_part_success pending_first a)
  then show ?thesis
    using True by (auto simp: formatAsterisk_def isWritable_def unit_step_def)
next
  case False
  then show ?thesis
    using writes_full [OF a False, of "[ASTERISK]"] False
    by (simp add: formatAsterisk_def isWritable_def word_neq_0_conv [symmetric])
qed

lemma formatAbsPath_writes:
  assumes a: "buf_inv a" "marked a" and s: "nul_free (absPath u)"
  shows "writes a (path_text u) st 16 32 (formatAbsPath st a u)"
proof -
  define p where "p = (case absPath u of Some s \<Rightarrow> s | None \<Rightarrow> asc ''/'')"
  have nul: "\<forall>c \<in> set p. \<not> is_path_octet c \<longrightarrow> c \<noteq> 0"
    using s by (auto simp: p_def nul_free_def asc_def split: option.splits)
  show ?thesis
  proof (cases "c_head p \<noteq> SLASH \<and> \<not> isWritable a")
    case True
    then show ?thesis
      using writes_full [OF a, of "path_text u"]
      by (simp add: formatAbsPath_def path_text_def p_def [symmetric] Let_def)
  next
    case False
    have "pending a (if c_head p \<noteq> SLASH then [SLASH] else [])
        (if c_head p \<noteq> SLASH then putNext a SLASH else a)"
      using False pending_first [OF a, of SLASH] by (auto simp: pending_start a)
    from format_octets_part [OF this nul, of 0] show ?thesis
      using False
      by (auto simp: formatAbsPath_def path_text_def p_def [symmetric] Let_def unit_result_def intro!: writesI)
  qed
qed

lemma optional_writes:
  assumes a: "buf_inv a" "marked a" and s: "nul_free s"
  shows "writes a (optional_text c s) st old new
    (case s of None \<Rightarrow> Transition st a old new
     | Some p \<Rightarrow> if c_head p = 0 then Transition st a old new
         else if \<not> isWritable a then roll_back st a ESB_AGAIN
         else unit_step st old new (format_octets IsUric EncodeEscape p (putNext a c)))"
proof (cases s)
  case (Some p)
  have nul: "\<forall>c \<in> set p. \<not> IsUric c \<longrightarrow> c \<noteq> 0"
    using s Some by (auto simp: nul_free_def)
  show ?thesis
    using Some format_octets_part [OF pending_first [OF a, of c] nul, of 0]
    by (auto simp: optional_text_def unit_result_def a writes_nothing writes_full intro!: writesI)
qed (simp add: optional_text_def writes_nothing a)

lemma formatQuery_writes:
  assumes a: "buf_inv a" "marked a" and u: "nul_free (query u)"
  shows "writes a (optional_text QUESTION (query u)) st 32 64 (formatQuery st a u)"
  unfolding formatQuery_def by (rule optional_writes [OF assms])

lemma formatFragment_writes:
  assumes a: "buf_inv a" "marked a" and u: "nul_free (fragment u)"
  shows "writes a (optional_text HASH (fragment u)) st 64 128 (formatFragment st a u)"
  unfolding formatFragment_def by (rule optional_writes [OF assms])

lemma formatScheme_writes:
  assumes a: "buf_inv a" "marked a" and u: "uriType u = ES_URI_HTTP \<or> uriType u = ES_URI_HTTPS"
  shows "writes a (scheme_text u) st 2 4 (formatScheme st a u)"
  using format_octets_plain [OF pending_start [OF a], of "scheme_text u" "\<lambda>_. True" 0 no_other] u
  by (auto simp: formatScheme_def scheme_text_def unit_result_def intro!: writesI)

lemma formatHost_writes:
  assumes a: "buf_inv a" "marked a" and u: "host u = Some h"
  shows "writes a h st 4 8 (formatHost st a u)"
  using format_octets_plain [OF pending_start [OF a], of h "\<lambda>_. True" 0 no_other] u
  by (auto simp: formatHost_def unit_result_def intro!: writesI)

lemma formatNonHttpUri_writes:
  assumes a: "buf_inv a" "marked a" and u: "other u = Some p" "c_head p \<noteq> 0"
  shows "writes a p st 256 128 (formatNonHttpUri st a u)"
  using format_octets_plain [OF pending_start [OF a], of p "\<lambda>_. True" 0 no_other] u
  by (auto simp: formatNonHttpUri_def unit_result_def intro!: writesI)

section \<open>States as positions\<close>

definition uri_at :: "request_uri \<Rightarrow> u8 list list \<Rightarrow> u32 \<Rightarrow> bool" where
  "uri_at u us st \<longleftrightarrow>
     st = 0 \<and> us = uri_units u \<or> st = 128 \<and> us = [] \<or>
     (case uriType u of
        ES_URI_ASTERISK \<Rightarrow> st = 1 \<and> us = uri_units u
      | ES_URI_OTHER \<Rightarrow> st = 256 \<and> us = uri_units u
      | _ \<Rightarrow> has_host u \<and> (st = 2 \<and> us = http_units u \<or> st = 4 \<and> us = drop 1 (http_units u) \<or>
             st = 8 \<and> us = drop 2 (http_units u)) \<or>
           st = 16 \<and> us = drop 3 (http_units u) \<or> st = 32 \<and> us = drop 4 (http_units u) \<or>
           st = 64 \<and> us = drop 5 (http_units u))"

lemma greedy_writes:
  assumes w: "writes a t st old new r" and a: "buf_inv a" "marked a" and s: "Q (t # us) st"
    and k: "\<And>b. buf_inv b \<Longrightarrow> marked b \<Longrightarrow> greedy b us Q (k (transition st old new) b)"
  shows "greedy a (t # us) Q (if_ok r k)"
proof -
  obtain g where g: "r = unit_step st old new g" "unit_result a t g"
    using w by (auto simp: writes_def)
  have "if_ok r k = (case g of (e, b) \<Rightarrow> if e \<noteq> ESB_SUCCESS then (e, st, b)
      else k (transition st old new) (writeMark b))"
    by (auto simp: g(1) if_ok_def unit_step_def Transition_def split: prod.split)
  moreover have "greedy (writeMark b) us Q (k (transition st old new) (writeMark b))"
    if "pending a t b" for b
    using k [of "writeMark b"] pendingD(4) [OF that] by (simp add: writeMark_inv)
  ultimately show ?thesis
    using greedy_Cons [OF g(2) a, of Q us st "\<lambda>b. k (transition st old new) b"] s by simp
qed

lemma greedy_writes_last:
  assumes "writes a t st old new r" "buf_inv a" "marked a" "Q [t] st" "Q [] (transition st old new)"
  shows "greedy a [t] Q r"
proof -
  have "if_ok r (\<lambda>st b. (ESB_SUCCESS, st, b)) = r"
    by (simp add: if_ok_def split: prod.split)
  then show ?thesis
    using greedy_writes [OF assms(1-3), of Q "[]" "\<lambda>st b. (ESB_SUCCESS, st, b)"] assms(4,5)
    by (auto intro: greedy_Nil)
qed

lemma state_literals:
  "transition 1 1 128 = 128" "transition 2 2 4 = 4" "transition 4 4 8 = 8" "transition 8 8 16 = 16"
  "transition 16 16 32 = 32" "transition 32 32 64 = 64" "transition 64 64 128 = 128"
  "transition 256 256 128 = 128"
  by (simp_all add: transition_def)

lemmas uri_stage_defs = uri_format_stages_def uri_scheme_stage_def uri_host_stage_def uri_port_stage_def
  uri_path_stage_def uri_query_stage_def uri_fragment_stage_def

definition uri_http :: "request_uri \<Rightarrow> bool" where
  "uri_http u \<longleftrightarrow> uriType u = ES_URI_HTTP \<or> uriType u = ES_URI_HTTPS"

lemma uri_at_http:
  assumes "uri_http u"
  shows "uri_at u (drop 5 (http_units u)) 64" "uri_at u (drop 4 (http_units u)) 32"
    "uri_at u (drop 3 (http_units u)) 16" "has_host u \<Longrightarrow> uri_at u (drop 2 (http_units u)) 8"
    "has_host u \<Longrightarrow> uri_at u (drop 1 (http_units u)) 4" "has_host u \<Longrightarrow> uri_at u (http_units u) 2"
    "uri_at u [] 128"
  using assms by (auto simp: uri_at_def uri_http_def)

lemma formatPort_writes:
  assumes a: "buf_inv a" "marked a" and u: "uri_http u" "port u < 65536"
  shows "writes a (port_text u) st 8 16 (formatPort st a u)"
proof (cases "default_or_none u")
  case True
  then show ?thesis
    using u a by (auto simp: default_or_none_def formatPort_def port_text_def uri_http_def intro!: writes_nothing)
next
  case False
  then have p: "0 \<le> port u"
    by (simp add: default_or_none_def)
  then obtain n where n: "port u = int n" "n < 65536"
    using u(2) by (metis nonneg_int_cases of_nat_less_iff of_nat_numeral)
  have goto: "formatPort st a u = (if \<not> isWritable a then roll_back st a ESB_AGAIN
      else case FormatInteger (putNext a COLON) (of_nat n) 10 of (e, b1) \<Rightarrow>
        if e \<noteq> ESB_SUCCESS then roll_back st b1 e else Transition st b1 8 16)"
    using False u n by (auto simp: default_or_none_def formatPort_def uri_http_def)
  show ?thesis
  proof (cases "isWritable a")
    case w: False
    then show ?thesis
      using writes_full [OF a w, of "port_text u"] False by (simp add: goto port_text_def)
  next
    case w: True
    have pend: "pending a [COLON] (putNext a COLON)"
      by (rule pending_first [OF a w])
    note d = pendingD [OF pend]
    let ?t = "number_text n"
    have F: "FormatInteger (putNext a COLON) (of_nat n) 10 =
      (if room (putNext a COLON) < length ?t then (ESB_AGAIN, putNext a COLON)
       else (ESB_SUCCESS, put_all (putNext a COLON) ?t))"
    proof (cases "n = 0")
      case True
      then show ?thesis
        by (simp add: FormatInteger_def number_text_def isWritable_room put_all_Cons)
    next
      case False
      have un: "unat (of_nat n :: u64) = n"
        using n(2) by (simp add: unat_of_nat)
      show ?thesis
        using FormatInteger_digits [of "of_nat n" 10 "putNext a COLON"] False n(2) d(4) un
        by (simp add: number_text_def)
    qed
    have "writes a ([COLON] @ ?t) st 8 16 (unit_step st 8 16
        (if room (putNext a COLON) < length ?t then Rollback (putNext a COLON) ESB_AGAIN
         else (ESB_SUCCESS, put_all (putNext a COLON) ?t)))"
      using d(5,6) pending_put_all [OF pend, of ?t]
      by (intro writesI) (auto simp: unit_result_def intro!: unit_part_success unit_part_again [OF pend])
    then show ?thesis
      using False w n by (simp add: goto F port_text_def unit_step_def roll_back_def Rollback_def
          split: if_splits)
  qed
qed

section \<open>A call of format\<close>

lemma uri_fragment_stage_greedy:
  assumes a: "buf_inv a" "marked a" and u: "uri_http u" "uri_formattable u"
  shows "greedy a (drop 5 (http_units u)) (uri_at u) (uri_fragment_stage 64 a u)"
proof -
  have "greedy a [optional_text HASH (fragment u)] (uri_at u) (formatFragment 64 a u)"
    using u uri_at_http [OF u(1)]
    by (intro greedy_writes_last [OF formatFragment_writes [OF a]] a)
       (simp_all add: uri_formattable_def state_literals http_units_def)
  then show ?thesis
    by (simp add: uri_fragment_stage_def http_units_def has_flag_def)
qed

lemma uri_query_stage_greedy:
  assumes a: "buf_inv a" "marked a" and u: "uri_http u" "uri_formattable u"
  shows "greedy a (drop 4 (http_units u)) (uri_at u) (uri_query_stage 32 a u)"
proof -
  have "greedy a (optional_text QUESTION (query u) # drop 5 (http_units u)) (uri_at u)
      (if_ok (formatQuery 32 a u) (\<lambda>st b. uri_fragment_stage st b u))"
    using u uri_at_http [OF u(1)] uri_fragment_stage_greedy [OF _ _ u]
    by (intro greedy_writes [OF formatQuery_writes [OF a]] a)
       (simp_all add: uri_formattable_def state_literals http_units_def)
  then show ?thesis
    by (simp add: uri_query_stage_def http_units_def has_flag_def)
qed

lemma uri_path_stage_greedy:
  assumes a: "buf_inv a" "marked a" and u: "uri_http u" "uri_formattable u"
  shows "greedy a (drop 3 (http_units u)) (uri_at u) (uri_path_stage 16 a u)"
proof -
  have "greedy a (path_text u # drop 4 (http_units u)) (uri_at u)
      (if_ok (formatAbsPath 16 a u) (\<lambda>st b. uri_query_stage st b u))"
    using u uri_at_http [OF u(1)] uri_query_stage_greedy [OF _ _ u]
    by (intro greedy_writes [OF formatAbsPath_writes [OF a]] a)
       (simp_all add: uri_formattable_def state_literals http_units_def)
  then show ?thesis
    by (simp add: uri_path_stage_def http_units_def has_flag_def)
qed

lemma uri_port_stage_greedy:
  assumes a: "buf_inv a" "marked a" and u: "uri_http u" "uri_formattable u" "has_host u"
  shows "greedy a (drop 2 (http_units u)) (uri_at u) (uri_port_stage 8 a u)"
proof -
  have "greedy a (port_text u # drop 3 (http_units u)) (uri_at u)
      (if_ok (formatPort 8 a u) (\<lambda>st b. uri_path_stage st b u))"
    using u uri_at_http [OF u(1)] uri_path_stage_greedy [OF _ _ u(1,2)]
    by (intro greedy_writes [OF formatPort_writes [OF a]] a)
       (simp_all add: uri_formattable_def state_literals http_units_def)
  then show ?thesis
    by (simp add: uri_port_stage_def http_units_def has_flag_def)
qed

lemma uri_host_stage_greedy:
  assumes a: "buf_inv a" "marked a" and u: "uri_http u" "uri_formattable u" "has_host u"
  shows "greedy a (drop 1 (http_units u)) (uri_at u) (uri_host_stage 4 a u)"
proof -
  obtain h where h: "host u = Some h"
    using u(3) by (auto simp: has_host_def split: option.splits)
  have "greedy a (h # drop 2 (http_units u)) (uri_at u)
      (if_ok (formatHost 4 a u) (\<lambda>st b. uri_port_stage st b u))"
    using u h uri_at_http [OF u(1)] uri_port_stage_greedy [OF _ _ u]
    by (intro greedy_writes [OF formatHost_writes [OF a]] a)
       (simp_all add: uri_formattable_def state_literals http_units_def)
  then show ?thesis
    using h by (simp add: uri_host_stage_def http_units_def has_flag_def)
qed

lemma uri_scheme_stage_greedy:
  assumes a: "buf_inv a" "marked a" and u: "uri_http u" "uri_formattable u" "has_host u"
  shows "greedy a (http_units u) (uri_at u) (uri_scheme_stage 2 a u)"
proof -
  have "greedy a (scheme_text u # drop 1 (http_units u)) (uri_at u)
      (if_ok (formatScheme 2 a u) (\<lambda>st b. uri_host_stage st b u))"
    using u uri_at_http [OF u(1)] uri_host_stage_greedy [OF _ _ u]
    by (intro greedy_writes [OF formatScheme_writes [OF a]] a)
       (simp_all add: uri_http_def uri_formattable_def state_literals http_units_def)
  then show ?thesis
    by (simp add: uri_scheme_stage_def http_units_def has_flag_def)
qed

text \<open>The states before the one the formatter is in are passed over.\<close>

lemma uri_stage_skip:
  "uri_format_stages 2 b u = uri_scheme_stage 2 b u" "uri_format_stages 4 b u = uri_host_stage 4 b u"
  "uri_format_stages 8 b u = uri_port_stage 8 b u" "uri_format_stages 16 b u = uri_path_stage 16 b u"
  "uri_format_stages 32 b u = uri_query_stage 32 b u" "uri_format_stages 64 b u = uri_fragment_stage 64 b u"
  "uri_format_stages 1 b u = formatAsterisk 1 b u" "uri_format_stages 256 b u = formatNonHttpUri 256 b u"
  by (simp_all add: uri_stage_defs has_flag_def)

lemma uri_format_stages_greedy:
  assumes a: "buf_inv a" "marked a" and u: "uri_formattable u"
    and st: "uri_at u us st" "us \<noteq> []" "st \<noteq> 0"
  shows "greedy a us (uri_at u) (uri_format_stages st a u)"
proof (cases "uri_http u")
  case True
  then show ?thesis
    using st uri_fragment_stage_greedy [OF a True u] uri_query_stage_greedy [OF a True u]
      uri_path_stage_greedy [OF a True u] uri_port_stage_greedy [OF a True u]
      uri_host_stage_greedy [OF a True u] uri_scheme_stage_greedy [OF a True u]
    by (auto simp: uri_at_def uri_http_def uri_stage_skip)
next
  case False
  then consider "uriType u = ES_URI_ASTERISK" | "uriType u = ES_URI_OTHER"
    by (cases "uriType u") (auto simp: uri_http_def)
  then show ?thesis
  proof cases
    case 1
    then have "st = 1" "us = [[ASTERISK]]"
      using st by (auto simp: uri_at_def uri_units_def)
    then show ?thesis
      using 1 by (auto simp: uri_stage_skip uri_at_def uri_units_def state_literals
          intro!: greedy_writes_last [OF formatAsterisk_writes [OF a] a])
  next
    case 2
    then obtain p where p: "other u = Some p" "c_head p \<noteq> 0"
      using uri_formattable_other [OF u] by blast
    have "st = 256" "us = [p]"
      using st 2 p by (auto simp: uri_at_def uri_units_def)
    then show ?thesis
      using 2 p by (auto simp: uri_stage_skip uri_at_def uri_units_def state_literals
          intro!: greedy_writes_last [OF formatNonHttpUri_writes [OF a p] a])
  qed
qed

lemma uri_units_first:
  assumes "uri_formattable u"
  shows "uri_units u \<noteq> []" "hd (uri_units u) \<noteq> []"
proof -
  have "path_text u \<noteq> []"
  proof (cases "absPath u")
    case (Some p)
    then show ?thesis
      by (cases p) (auto simp: path_text_def c_head_def escape_text_def)
  qed (simp add: path_text_def c_head_def asc_def escape_text_def)
  moreover have "the (other u) \<noteq> []" if "uriType u = ES_URI_OTHER"
    by (rule uri_formattable_other [OF assms that]) (auto simp: c_head_def)
  ultimately show "uri_units u \<noteq> []" "hd (uri_units u) \<noteq> []"
    by (auto simp: uri_units_def http_units_def scheme_text_def asc_def split: uri_type.split)
qed

lemma uri_format_start_at:
  assumes "uri_format_start b u = (st, b')"
  shows "uri_at u (uri_units u) st" "st \<noteq> 0" "\<not> has_flag st 128" "b' = writeMark b"
proof -
  have "(st, b') = Start b (case uriType u of ES_URI_ASTERISK \<Rightarrow> 1 | ES_URI_OTHER \<Rightarrow> 256
      | _ \<Rightarrow> if has_host u then 2 else 16)"
    using assms by (auto simp: uri_format_start_def has_host_def split: uri_type.splits option.splits)
  then show "uri_at u (uri_units u) st" "st \<noteq> 0" "\<not> has_flag st 128" "b' = writeMark b"
    by (auto simp: Start_def uri_at_def uri_units_def has_flag_def split: uri_type.splits)
qed

theorem uri_format_greedy:
  assumes a: "buf_inv a" "marked a" and u: "uri_formattable u" and st: "uri_at u us st" "us \<noteq> []"
  shows "greedy a us (uri_at u) (uri_format st a u)"
proof (cases "st = 0")
  case False
  then have "\<not> has_flag st 128"
    using st by (auto simp: uri_at_def has_flag_def split: uri_type.splits)
  then show ?thesis
    using uri_format_stages_greedy [OF a u st False] False by (simp add: uri_format_def)
next
  case True
  then have us: "us = uri_units u"
    using st by (auto simp: uri_at_def split: uri_type.splits)
  show ?thesis
  proof (cases "isWritable a")
    case False
    then have "room a = 0"
      by (simp add: isWritable_room)
    then have "greedy a us (uri_at u) (ESB_AGAIN, 0, a)"
      using uri_units_first [OF u] st True us by (intro greedy_again a) auto
    then show ?thesis
      using False True by (simp add: uri_format_def)
  next
    case w: True
    obtain st1 b1 where s: "uri_format_start a u = (st1, b1)"
      by (cases "uri_format_start a u") auto
    have "b1 = a"
      using uri_format_start_at(4) [OF s] a(2) by (simp add: writeMark_def marked_def)
    then show ?thesis
      using uri_format_stages_greedy [OF a u _ st(2), of st1] uri_format_start_at [OF s] us w True s
      by (simp add: uri_format_def)
  qed
qed

end
