(* ===== verification/MessageUnits.thy ===== *)
theory MessageUnits
  imports UriUnits
begin

text \<open>
  Requests and responses as lists of units, and the interpretation of \<open>unit_formatter\<close> on
  \<open>formatHeaders\<close> of both formatters.
\<close>

section \<open>Request line\<close>

definition request_line_units :: "http_request \<Rightarrow> u8 list list" where
  "request_line_units m = (the (reqMethod m) @ [SP]) # uri_units (requestUri m)
     @ [SP # version_text (httpVersion m) @ [CR, LF]]"

definition request_line_formattable :: "http_request \<Rightarrow> bool" where
  "request_line_formattable m \<longleftrightarrow>
     (case reqMethod m of None \<Rightarrow> False | Some s \<Rightarrow> s \<noteq> [] \<and> (\<forall>c \<in> set s. IsToken c)) \<and>
     uri_formattable (requestUri m) \<and> known_version m"

text \<open>The units a request formatter still has to write for its start line.\<close>

definition request_line_at :: "http_request \<Rightarrow> u8 list list \<Rightarrow> request_formatter \<Rightarrow> bool" where
  "request_line_at m us f \<longleftrightarrow>
     (reqFmtState f = 0 \<or> reqFmtState f = 1) \<and> uriFmtState f = 0 \<and> us = request_line_units m \<or>
     reqFmtState f = 2 \<and> (\<exists>xs. xs \<noteq> [] \<and> uri_at (requestUri m) xs (uriFmtState f) \<and>
       us = xs @ [last (request_line_units m)]) \<or>
     reqFmtState f = 4 \<and> us = [last (request_line_units m)] \<or>
     reqFmtState f = 8 \<and> us = []"

text \<open>The start line leaves the fields of the message formatter alone.\<close>

definition same_message :: "'f message_formatter_scheme \<Rightarrow> 'f message_formatter_scheme \<Rightarrow> bool" where
  "same_message f g \<longleftrightarrow> fmtState g = fmtState f \<and> currentHeader g = currentHeader f"

lemma same_message_refl [simp]: "same_message f f"
  by (simp add: same_message_def)

lemma greedy_unit:
  assumes g: "unit_result a t g" and a: "buf_inv a" "marked a" and s: "Q (t # us) s"
    and k: "\<And>b. buf_inv b \<Longrightarrow> marked b \<Longrightarrow> greedy b us Q (k b)"
    and r: "r = (case g of (e, b) \<Rightarrow> if e \<noteq> ESB_SUCCESS then (e, s, b) else k (writeMark b))"
  shows "greedy a (t # us) Q r"
  using greedy_Cons [of a t g Q us s k] g a s k pendingD(4) unfolding r by (auto simp: writeMark_inv)

lemma format_version_stage_greedy:
  assumes a: "buf_inv a" "marked a" and m: "request_line_formattable m" and f: "reqFmtState f = 4"
    and Q: "Q [last (request_line_units m)] f" "Q [] (f\<lparr>reqFmtState := 8\<rparr>)"
  shows "greedy a [last (request_line_units m)] Q (format_version_stage f a m)"
proof (rule greedy_unit [where s = f and k = "\<lambda>b. (ESB_SUCCESS, f\<lparr>reqFmtState := 8\<rparr>, b)"])
  show "unit_result a (last (request_line_units m)) (formatVersion a m True)"
    using formatVersion_client [OF a, of m] m by (simp add: request_line_formattable_def request_line_units_def)
  have t: "transition 4 4 8 = 8" "has_flag 4 4"
    by (simp_all add: transition_def has_flag_def)
  show "format_version_stage f a m = (case formatVersion a m True of (e, b) \<Rightarrow>
      if e \<noteq> ESB_SUCCESS then (e, f, b) else (ESB_SUCCESS, f\<lparr>reqFmtState := 8\<rparr>, writeMark b))"
    by (simp add: format_version_stage_def f t req_fmt_transition_def Transition_def cong: prod.case_cong if_cong)
qed (use a Q in \<open>auto intro: greedy_Nil\<close>)

lemma request_line_units_eq:
  "request_line_units m =
    (the (reqMethod m) @ [SP]) # uri_units (requestUri m) @ [last (request_line_units m)]"
  by (simp add: request_line_units_def)

lemma format_uri_stage_greedy:
  assumes a: "buf_inv a" "marked a" and m: "request_line_formattable m" and f: "reqFmtState f = 2"
    and xs: "uri_at (requestUri m) xs (uriFmtState f)" "xs \<noteq> []"
    and Q: "\<And>us g. request_line_at m us g \<Longrightarrow> same_message f g \<Longrightarrow> Q us g"
  shows "greedy a (xs @ [last (request_line_units m)]) Q (format_uri_stage f a m)"
proof -
  let ?v = "last (request_line_units m)"
  let ?F = "\<lambda>st. f\<lparr>uriFmtState := st\<rparr>"
  let ?k = "\<lambda>st b. format_version_stage (f\<lparr>uriFmtState := st, reqFmtState := 4\<rparr>) (writeMark b) m"
  have u: "uri_formattable (requestUri m)"
    using m by (simp add: request_line_formattable_def)
  have g: "greedy a xs (uri_at (requestUri m)) (uri_format (uriFmtState f) a (requestUri m))"
    by (rule uri_format_greedy [OF a u xs])
  have "greedy a (xs @ [?v]) Q (case uri_format (uriFmtState f) a (requestUri m) of
      (e, st, b) \<Rightarrow> if e \<noteq> ESB_SUCCESS then (e, ?F st, b) else ?k st b)"
  proof (rule greedy_append [where P = "\<lambda>_. True", OF _ a(1)])
    show "greedy a xs (\<lambda>xs s. if xs = [] then True else Q (xs @ [?v]) (?F s))
        (uri_format (uriFmtState f) a (requestUri m))"
      using g by (rule greedy_mono)
        (auto simp: request_line_at_def same_message_def f intro!: Q)
    show "greedy b [?v] Q (?k st b)" if "wrote a (concat xs) b" "marked b" for st b
      unfolding marked_eq [OF that(2)] using that m
      by (intro format_version_stage_greedy Q)
        (auto simp: request_line_at_def same_message_def wrote_def)
  qed
  moreover have "transition 2 2 4 = 4" "has_flag 2 2"
    by (simp_all add: transition_def has_flag_def)
  ultimately show ?thesis
    by (simp add: format_uri_stage_def f req_fmt_transition_def Transition_def Let_def cong: prod.case_cong if_cong)
qed

lemma format_method_stage_greedy:
  assumes a: "buf_inv a" "marked a" and m: "request_line_formattable m" and f: "request_line_at m us f"
    and ne: "us \<noteq> []" "reqFmtState f \<noteq> 0"
    and Q: "\<And>us g. request_line_at m us g \<Longrightarrow> same_message f g \<Longrightarrow> Q us g"
  shows "greedy a us Q (format_method_stage f a m)"
proof -
  consider (meth) "reqFmtState f = 1" "uriFmtState f = 0" "us = request_line_units m"
    | (uri) xs where "reqFmtState f = 2" "uri_at (requestUri m) xs (uriFmtState f)" "xs \<noteq> []"
      "us = xs @ [last (request_line_units m)]"
    | (version) "reqFmtState f = 4" "us = [last (request_line_units m)]"
    using f ne by (auto simp: request_line_at_def)
  then show ?thesis
  proof cases
    case version
    have "has_flag 4 1 = False" "has_flag 4 2 = False"
      by (simp_all add: has_flag_def)
    then have "format_method_stage f a m = format_version_stage f a m"
      using version by (simp add: format_method_stage_def format_uri_stage_def)
    moreover have "greedy a us Q (format_version_stage f a m)"
      unfolding version(2) using f version
      by (intro format_version_stage_greedy a m version(1) Q) (auto simp: request_line_at_def same_message_def)
    ultimately show ?thesis by simp
  next
    case uri
    have "has_flag 2 1 = False"
      by (simp add: has_flag_def)
    then have "format_method_stage f a m = format_uri_stage f a m"
      using uri by (simp add: format_method_stage_def)
    then show ?thesis
      using format_uri_stage_greedy [OF a m uri(1-3) Q] uri(4) by simp
  next
    case meth
    obtain s where s: "reqMethod m = Some s" "s \<noteq> []" "\<forall>c \<in> set s. IsToken c"
      using m by (auto simp: request_line_formattable_def split: option.splits)
    let ?f = "f\<lparr>reqFmtState := 2\<rparr>"
    let ?rest = "uri_units (requestUri m) @ [last (request_line_units m)]"
    have t: "transition 1 1 2 = 2" "has_flag 1 1"
      by (simp_all add: transition_def has_flag_def)
    have "greedy a ((s @ [SP]) # ?rest) Q (format_method_stage f a m)"
    proof (rule greedy_unit [where s = f and k = "\<lambda>b. format_uri_stage ?f b m"])
      show "unit_result a (s @ [SP]) (formatMethod a m)"
        by (rule formatMethod_unit [OF a s])
      show "Q ((s @ [SP]) # ?rest) f"
        using f meth s request_line_units_eq [of m] by (intro Q) auto
      show "greedy b ?rest Q (format_uri_stage ?f b m)" if "buf_inv b" "marked b" for b
        using meth m uri_units_first(1) [of "requestUri m"]
        by (intro format_uri_stage_greedy that m Q)
           (auto simp: uri_at_def request_line_formattable_def same_message_def)
      show "format_method_stage f a m = (case formatMethod a m of (e, b) \<Rightarrow>
          if e \<noteq> ESB_SUCCESS then (e, f, b) else format_uri_stage ?f (writeMark b) m)"
        by (simp add: format_method_stage_def meth(1) t req_fmt_transition_def Transition_def
            cong: prod.case_cong if_cong)
    qed (use a in auto)
    then show ?thesis
      using meth(3) s request_line_units_eq [of m] by simp
  qed
qed

lemma request_formatStartLine_greedy:
  assumes a: "buf_inv a" "marked a" and m: "request_line_formattable m" and f: "request_line_at m us f"
    and ne: "us \<noteq> []"
  shows "greedy a us (\<lambda>us g. request_line_at m us g \<and> same_message f g) (request_formatStartLine f a m)"
proof (cases "reqFmtState f = 0")
  case True
  let ?f = "f\<lparr>reqFmtState := 1\<rparr>"
  have "request_line_at m us ?f"
    using f True by (auto simp: request_line_at_def)
  then have "greedy a us (\<lambda>us g. request_line_at m us g \<and> same_message f g) (format_method_stage ?f a m)"
    by (intro format_method_stage_greedy a m ne) (auto simp: same_message_def)
  then show ?thesis
    by (simp add: request_formatStartLine_def True Start_def marked_eq [OF a(2)])
next
  case False
  then have "\<not> has_flag (reqFmtState f) 8"
    using f ne by (auto simp: request_line_at_def has_flag_def)
  then show ?thesis
    using False format_method_stage_greedy [OF a m f ne False] by (simp add: request_formatStartLine_def)
qed

section \<open>Status line\<close>

definition status_line_units :: "http_response \<Rightarrow> u8 list list" where
  "status_line_units m = [version_text (httpVersion m) @ [SP], status_text (statusCode m) @ [SP],
     the (reasonPhrase m) @ [CR, LF]]"

definition status_line_formattable :: "http_response \<Rightarrow> bool" where
  "status_line_formattable m \<longleftrightarrow> known_version m \<and> 100 \<le> statusCode m \<and> statusCode m \<le> 999 \<and>
     (case reasonPhrase m of None \<Rightarrow> False | Some s \<Rightarrow> c_head s \<noteq> 0 \<and> (\<forall>c \<in> set s. is_reason_octet c))"

definition status_line_at :: "http_response \<Rightarrow> u8 list list \<Rightarrow> response_formatter \<Rightarrow> bool" where
  "status_line_at m us f \<longleftrightarrow>
     (resFmtState f = 0 \<or> resFmtState f = 1) \<and> us = status_line_units m \<or>
     resFmtState f = 2 \<and> us = drop 1 (status_line_units m) \<or>
     resFmtState f = 4 \<and> us = drop 2 (status_line_units m) \<or>
     resFmtState f = 8 \<and> us = []"

definition status_line_kept :: "http_response \<Rightarrow> response_formatter \<Rightarrow> u8 list list \<Rightarrow> response_formatter \<Rightarrow> bool" where
  "status_line_kept m f us g \<longleftrightarrow> status_line_at m us g \<and> same_message f g"

lemma format_reason_stage_greedy:
  assumes a: "buf_inv a" "marked a" and m: "status_line_formattable m" and f: "same_message f0 f" "resFmtState f = 4"
  shows "greedy a (drop 2 (status_line_units m)) (status_line_kept m f0) (format_reason_stage f a m)"
proof -
  obtain s where s: "reasonPhrase m = Some s" "c_head s \<noteq> 0" "\<forall>c \<in> set s. is_reason_octet c"
    using m by (auto simp: status_line_formattable_def split: option.splits)
  have t: "transition 4 4 8 = 8" "has_flag 4 4"
    by (simp_all add: transition_def has_flag_def)
  have "greedy a [s @ [CR, LF]] (status_line_kept m f0) (format_reason_stage f a m)"
  proof (rule greedy_unit [where s = f and k = "\<lambda>b. (ESB_SUCCESS, f\<lparr>resFmtState := 8\<rparr>, b)"])
    show "unit_result a (s @ [CR, LF]) (formatReasonPhrase a m)"
      by (rule formatReasonPhrase_unit [OF a s])
    show "format_reason_stage f a m = (case formatReasonPhrase a m of (e, b) \<Rightarrow>
        if e \<noteq> ESB_SUCCESS then (e, f, b) else (ESB_SUCCESS, f\<lparr>resFmtState := 8\<rparr>, writeMark b))"
      by (simp add: format_reason_stage_def f t res_fmt_transition_def Transition_def cong: prod.case_cong if_cong)
  qed (use a f s in \<open>auto simp: status_line_kept_def status_line_at_def same_message_def status_line_units_def
      intro!: greedy_Nil\<close>)
  then show ?thesis
    by (simp add: status_line_units_def s)
qed

lemma format_status_stage_greedy:
  assumes a: "buf_inv a" "marked a" and m: "status_line_formattable m" and f: "same_message f0 f" "resFmtState f = 2"
  shows "greedy a (drop 1 (status_line_units m)) (status_line_kept m f0) (format_status_stage f a m)"
proof -
  let ?t = "status_text (statusCode m) @ [SP]"
  let ?f = "f\<lparr>resFmtState := 4\<rparr>"
  have t: "transition 2 2 4 = 4" "has_flag 2 2"
    by (simp_all add: transition_def has_flag_def)
  have "greedy a (?t # drop 2 (status_line_units m)) (status_line_kept m f0) (format_status_stage f a m)"
  proof (rule greedy_unit [where s = f and k = "\<lambda>b. format_reason_stage ?f b m"])
    show "unit_result a ?t (formatStatusCode a m)"
      using m by (intro formatStatusCode_unit a) (simp_all add: status_line_formattable_def)
    show "format_status_stage f a m = (case formatStatusCode a m of (e, b) \<Rightarrow>
        if e \<noteq> ESB_SUCCESS then (e, f, b) else format_reason_stage ?f (writeMark b) m)"
      by (simp add: format_status_stage_def f t res_fmt_transition_def Transition_def cong: prod.case_cong if_cong)
    show "greedy b (drop 2 (status_line_units m)) (status_line_kept m f0) (format_reason_stage ?f b m)"
      if "buf_inv b" "marked b" for b
      using f by (intro format_reason_stage_greedy that m) (simp_all add: same_message_def)
  qed (use a f in \<open>auto simp: status_line_kept_def status_line_at_def status_line_units_def\<close>)
  then show ?thesis
    by (simp add: status_line_units_def)
qed

lemma format_response_version_stage_greedy:
  assumes a: "buf_inv a" "marked a" and m: "status_line_formattable m" and f: "same_message f0 f" "resFmtState f = 1"
  shows "greedy a (status_line_units m) (status_line_kept m f0) (format_response_version_stage f a m)"
proof -
  let ?t = "version_text (httpVersion m) @ [SP]"
  let ?f = "f\<lparr>resFmtState := 2\<rparr>"
  have t: "transition 1 1 2 = 2" "has_flag 1 1"
    by (simp_all add: transition_def has_flag_def)
  have "greedy a (?t # drop 1 (status_line_units m)) (status_line_kept m f0) (format_response_version_stage f a m)"
  proof (rule greedy_unit [where s = f and k = "\<lambda>b. format_status_stage ?f b m"])
    show "unit_result a ?t (formatVersion a m False)"
      using m by (intro formatVersion_server a) (simp_all add: status_line_formattable_def)
    show "format_response_version_stage f a m = (case formatVersion a m False of (e, b) \<Rightarrow>
        if e \<noteq> ESB_SUCCESS then (e, f, b) else format_status_stage ?f (writeMark b) m)"
      by (simp add: format_response_version_stage_def f t res_fmt_transition_def Transition_def
          cong: prod.case_cong if_cong)
    show "greedy b (drop 1 (status_line_units m)) (status_line_kept m f0) (format_status_stage ?f b m)"
      if "buf_inv b" "marked b" for b
      using f by (intro format_status_stage_greedy that m) (simp_all add: same_message_def)
  qed (use a f in \<open>auto simp: status_line_kept_def status_line_at_def status_line_units_def\<close>)
  then show ?thesis
    by (simp add: status_line_units_def)
qed

lemma response_formatStartLine_greedy:
  assumes a: "buf_inv a" "marked a" and m: "status_line_formattable m" and f: "status_line_at m us f"
    and ne: "us \<noteq> []"
  shows "greedy a us (status_line_kept m f) (response_formatStartLine f a m)"
proof -
  have pass: "\<not> has_flag 2 1" "\<not> has_flag 4 1" "\<not> has_flag 4 2" "\<not> has_flag 1 8" "\<not> has_flag 2 8" "\<not> has_flag 4 8"
    by (simp_all add: has_flag_def)
  consider "resFmtState f = 0" "us = status_line_units m" | "resFmtState f = 1" "us = status_line_units m"
    | "resFmtState f = 2" "us = drop 1 (status_line_units m)" | "resFmtState f = 4" "us = drop 2 (status_line_units m)"
    using f ne by (auto simp: status_line_at_def)
  then show ?thesis
  proof cases
    case 1
    then show ?thesis
      using format_response_version_stage_greedy [OF a m, of f "f\<lparr>resFmtState := 1\<rparr>"]
      by (simp add: response_formatStartLine_def Start_def marked_eq [OF a(2)] same_message_def)
  next
    case 2
    then show ?thesis
      using format_response_version_stage_greedy [OF a m, of f f] pass by (simp add: response_formatStartLine_def)
  next
    case 3
    then show ?thesis
      using format_status_stage_greedy [OF a m, of f f] pass
      by (simp add: response_formatStartLine_def format_response_version_stage_def)
  next
    case 4
    then show ?thesis
      using format_reason_stage_greedy [OF a m, of f f] pass
      by (simp add: response_formatStartLine_def format_response_version_stage_def format_status_stage_def)
  qed
qed

section \<open>Header fields\<close>

definition header_units :: "http_header \<Rightarrow> u8 list list" where
  "header_units h = [fieldName h @ [COLON, SP], squeeze True (the (fieldValue h)) @ [CR, LF]]"

definition fields_units :: "http_header list \<Rightarrow> u8 list list" where
  "fields_units hs = concat (map header_units hs) @ [[CR, LF]]"

definition header_formattable :: "http_header \<Rightarrow> bool" where
  "header_formattable h \<longleftrightarrow> (\<forall>c \<in> set (fieldName h). IsToken c) \<and>
     (case fieldValue h of None \<Rightarrow> False | Some v \<Rightarrow> \<forall>c \<in> set v. value_octet c)"

lemma fields_units_Cons: "fields_units (h # hs) =
    (fieldName h @ [COLON, SP]) # (squeeze True (the (fieldValue h)) @ [CR, LF]) # fields_units hs"
  by (simp add: fields_units_def header_units_def)

lemma fields_units_Nil: "fields_units [] = [[CR, LF]]"
  by (simp add: fields_units_def)

text \<open>A header that asks for the chunked coding, as the formatter decides it.\<close>

definition asks_chunked :: "http_header \<Rightarrow> bool" where
  "asks_chunked h \<longleftrightarrow> strcasecmp (fieldName h) (asc ''Transfer-Encoding'') = 0 \<and>
     (case fieldValue h of None \<Rightarrow> True | Some v \<Rightarrow> strncmp v (asc ''identity'') 8 \<noteq> 0)"

text \<open>The flag word in phase \<open>s\<close>; \<open>ch\<close>: a header met so far asks for the chunked coding.\<close>

definition phase :: "u32 \<Rightarrow> u32 \<Rightarrow> bool \<Rightarrow> bool" where
  "phase st s ch \<longleftrightarrow> (\<forall>k \<in> {1, 2, 4, 8, 16, 32}. has_flag st k \<longleftrightarrow> k = s) \<and>
     (has_flag st ES_FOUND_TRANSFER_ENCODING_CHUNKED_HEADER \<longleftrightarrow> ch)"

lemma phaseD:
  assumes "phase st s ch"
  shows "has_flag st 1 \<longleftrightarrow> s = 1" "has_flag st 2 \<longleftrightarrow> s = 2" "has_flag st 4 \<longleftrightarrow> s = 4" "has_flag st 8 \<longleftrightarrow> s = 8"
    "has_flag st 2048 \<longleftrightarrow> ch" "s \<in> {1, 2, 4, 8, 16, 32} \<Longrightarrow> st \<noteq> 0"
  using assms by (auto simp: phase_def)

lemma has_flag_header: "has_flag st 6 \<longleftrightarrow> has_flag st 2 \<or> has_flag st 4"
proof -
  have "6 AND st = (2 AND st) OR (4 AND st)"
    by (simp flip: bit.conj_disj_distrib2)
  then show ?thesis
    by (metis has_flag_def or_eq_0_iff)
qed

lemma phase_note: "phase st 2 ch \<Longrightarrow> phase (note_header h st) 2 (ch \<or> asks_chunked h)"
  by (auto simp: phase_def note_header_def asks_chunked_def has_flag_or Let_def)
     (simp_all add: has_flag_def)

lemma phase_transition:
  "phase st 1 ch \<Longrightarrow> phase (transition st 1 2) 2 ch"
  "phase st 2 ch \<Longrightarrow> phase (transition st 2 4) 4 ch"
  "phase st 4 ch \<Longrightarrow> phase (transition st 4 2) 2 ch"
  by (auto simp: phase_def has_flag_transition) (simp_all add: has_flag_def)

definition fields_at :: "http_header list \<Rightarrow> u8 list list \<Rightarrow> 'f message_formatter_scheme \<Rightarrow> bool" where
  "fields_at hs us f \<longleftrightarrow>
     (\<exists>seen rest. hs = seen @ rest \<and> currentHeader f = rest \<and> us = fields_units rest \<and>
        phase (fmtState f) 2 (\<exists>h \<in> set seen. asks_chunked h)) \<or>
     (\<exists>seen h rest. hs = seen @ h # rest \<and> currentHeader f = h # rest \<and> us = tl (fields_units (h # rest)) \<and>
        phase (fmtState f) 4 (\<exists>h \<in> set (seen @ [h]). asks_chunked h))"

text \<open>All written: the body is chunked if and only if a header asked for it.\<close>

definition fields_done :: "http_header list \<Rightarrow> 'f message_formatter_scheme \<Rightarrow> bool" where
  "fields_done hs f \<longleftrightarrow> has_flag (fmtState f) ES_HEADER_FORMAT_COMPLETE \<and>
     (has_flag (fmtState f) ES_FORMATTING_CHUNKED_BODY \<longleftrightarrow> (\<exists>h \<in> set hs. asks_chunked h)) \<and>
     (has_flag (fmtState f) ES_FORMATTING_UNENCODED_BODY \<longleftrightarrow> \<not> (\<exists>h \<in> set hs. asks_chunked h))"

definition headers_rest :: "http_header list \<Rightarrow> u8 list list \<Rightarrow> 'f message_formatter_scheme \<Rightarrow> bool" where
  "headers_rest hs us f \<longleftrightarrow> (if us = [] then fields_done hs f else fields_at hs us f)"

lemma fields_rest_name:
  "hs = seen @ rest \<Longrightarrow> currentHeader f = rest \<Longrightarrow> phase (fmtState f) 2 (\<exists>h \<in> set seen. asks_chunked h) \<Longrightarrow>
    headers_rest hs (fields_units rest) f"
  by (auto simp: headers_rest_def fields_at_def fields_units_def)

lemma fields_rest_value:
  "hs = seen @ h # rest \<Longrightarrow> currentHeader f = h # rest \<Longrightarrow>
    phase (fmtState f) 4 (\<exists>h \<in> set (seen @ [h]). asks_chunked h) \<Longrightarrow>
    headers_rest hs ((squeeze True (the (fieldValue h)) @ [CR, LF]) # fields_units rest) f"
  by (auto simp: headers_rest_def fields_at_def fields_units_Cons)

lemma format_fields_end:
  assumes a: "buf_inv a" "marked a" and f: "phase (fmtState f) 2 (\<exists>h \<in> set hs. asks_chunked h)" "currentHeader f = []"
  shows "greedy a (fields_units []) (headers_rest hs) (format_fields [] f a)"
proof -
  let ?c = "\<exists>h \<in> set hs. asks_chunked h"
  define st where "st = transition (fmtState f) 2 (8 OR (if ?c then 32 else 16))"
  have "has_flag (fmtState f) 6"
    using phaseD(2) [OF f(1)] by (simp add: has_flag_header)
  then have eq: "format_fields [] f a =
      (case if 2 > writable a then Rollback a ESB_AGAIN else (ESB_SUCCESS, putNext (putNext a CR) LF) of
         (e, b) \<Rightarrow> if e \<noteq> ESB_SUCCESS then (e, f, b) else (ESB_SUCCESS, f\<lparr>fmtState := st\<rparr>, writeMark b))"
    using phaseD(5) [OF f(1)] by (simp add: Rollback_def fmt_transition_def Transition_def Let_def st_def)
  have u: "unit_result a [CR, LF]
      (if 2 > writable a then Rollback a ESB_AGAIN else (ESB_SUCCESS, putNext (putNext a CR) LF))"
    using unit_part_put2 [OF pending_start [OF a], of CR LF 0] by (simp add: unit_result_def)
  have "fields_done hs (f\<lparr>fmtState := st\<rparr>)"
    using f(1) by (auto simp: st_def fields_done_def has_flag_transition phase_def) (simp_all add: has_flag_def)
  then have "headers_rest hs [] (f\<lparr>fmtState := st\<rparr>)"
    by (simp add: headers_rest_def)
  then show ?thesis
    unfolding fields_units_Nil
    using fields_rest_name [of hs hs "[]" f] f
    by (intro greedy_unit [OF u a _ _ eq]) (auto simp: fields_units_Nil intro: greedy_Nil)
qed

lemma format_value_round_greedy:
  assumes a: "buf_inv a" "marked a" and h: "header_formattable h"
    and f: "hs = seen @ h # rest" "currentHeader f = h # rest"
      "phase (fmtState f) 4 (\<exists>h \<in> set (seen @ [h]). asks_chunked h)"
    and k: "\<And>b g. buf_inv b \<Longrightarrow> marked b \<Longrightarrow> currentHeader g = rest \<Longrightarrow>
      phase (fmtState g) 2 (\<exists>h \<in> set (seen @ [h]). asks_chunked h) \<Longrightarrow>
      greedy b (fields_units rest) (headers_rest hs) (k g b)"
  shows "greedy a ((squeeze True (the (fieldValue h)) @ [CR, LF]) # fields_units rest) (headers_rest hs)
    (format_value_round f a h k)"
proof -
  obtain v where v: "fieldValue h = Some v" "\<forall>c \<in> set v. value_octet c"
    using h by (auto simp: header_formattable_def split: option.splits)
  define g where "g = f\<lparr>fmtState := transition (fmtState f) 4 2, currentHeader := rest\<rparr>"
  have eq: "format_value_round f a h k = (case formatFieldValue a (Some v) of
      (e, b) \<Rightarrow> if e \<noteq> ESB_SUCCESS then (e, f, b) else k g (writeMark b))"
    using f(2) v(1) by (simp add: format_value_round_def fmt_transition_def Transition_def g_def
        cong: prod.case_cong if_cong)
  have u: "unit_result a (squeeze True (the (fieldValue h)) @ [CR, LF]) (formatFieldValue a (Some v))"
    using formatFieldValue_unit [OF a v(2)] v(1) by simp
  show ?thesis
    using f phase_transition(3) [OF f(3)]
    by (intro greedy_unit [OF u a _ _ eq] fields_rest_value [OF f] k) (simp_all add: g_def)
qed

lemma format_fields_greedy:
  fixes f :: "'f message_formatter_scheme"
  assumes "buf_inv a" "marked a" "\<forall>h \<in> set rest. header_formattable h"
    and "hs = seen @ rest" "currentHeader f = rest" "phase (fmtState f) 2 (\<exists>h \<in> set seen. asks_chunked h)"
  shows "greedy a (fields_units rest) (headers_rest hs) (format_fields rest f a)"
  using assms
proof (induction rest arbitrary: a f seen)
  case Nil
  then show ?case
    using format_fields_end [of a f hs] by simp
next
  case (Cons h rest)
  note a = Cons.prems(1,2)
  let ?v = "squeeze True (the (fieldValue h)) @ [CR, LF]"
  define g where "g = f\<lparr>fmtState := transition (note_header h (fmtState f)) 2 4\<rparr>"
  have ph: "phase (fmtState g) 4 (\<exists>h \<in> set (seen @ [h]). asks_chunked h)"
    using phase_transition(2) [OF phase_note [OF Cons.prems(6), of h]]
    by (simp add: g_def disj_commute)
  have flags: "has_flag (fmtState f) 6" "has_flag (fmtState f) 2"
    using phaseD(2) [OF Cons.prems(6)] by (simp_all add: has_flag_header)
  have eq: "format_fields (h # rest) f a = (case formatFieldName a (fieldName h) of
      (e, b) \<Rightarrow> if e \<noteq> ESB_SUCCESS then (e, f, b)
        else format_value_round g (writeMark b) h (\<lambda>f b. format_fields rest f b))"
    using flags by (simp add: fmt_transition_def Transition_def g_def cong: prod.case_cong if_cong)
  have u: "unit_result a (fieldName h @ [COLON, SP]) (formatFieldName a (fieldName h))"
    using Cons.prems(3) by (intro formatFieldName_unit a) (simp add: header_formattable_def)
  have IH: "greedy b (fields_units rest) (headers_rest hs) (format_fields rest f' b)"
    if "buf_inv b" "marked b" "currentHeader f' = rest"
      "phase (fmtState f') 2 (\<exists>h \<in> set (seen @ [h]). asks_chunked h)"
      for b and f' :: "'f message_formatter_scheme"
    using Cons.IH [of b "seen @ [h]" f'] that Cons.prems(3,4) by simp
  have name: "headers_rest hs (fields_units (h # rest)) f"
    using Cons.prems by (intro fields_rest_name)
  have "greedy b (?v # fields_units rest) (headers_rest hs) (format_value_round g b h (\<lambda>f b. format_fields rest f b))"
    if "buf_inv b" "marked b" for b
    using Cons.prems(3-5) ph by (intro format_value_round_greedy that IH) (auto simp: g_def)
  then show ?case
    using name unfolding fields_units_Cons by (intro greedy_unit [OF u a _ _ eq])
qed

lemma format_fields_at_greedy:
  assumes a: "buf_inv a" "marked a" and hs: "\<forall>h \<in> set hs. header_formattable h"
    and f: "fields_at hs us f"
  shows "greedy a us (headers_rest hs) (format_fields (currentHeader f) f a)"
proof -
  from f consider (name) seen rest where "hs = seen @ rest" "currentHeader f = rest" "us = fields_units rest"
      "phase (fmtState f) 2 (\<exists>h \<in> set seen. asks_chunked h)"
    | (val) seen h rest where "hs = seen @ h # rest" "currentHeader f = h # rest"
      "us = tl (fields_units (h # rest))" "phase (fmtState f) 4 (\<exists>h \<in> set (seen @ [h]). asks_chunked h)"
    unfolding fields_at_def by blast
  then show ?thesis
  proof cases
    case name
    then show ?thesis
      using format_fields_greedy [OF a, of rest hs seen f] hs by simp
  next
    case val
    have "format_fields (currentHeader f) f a =
        format_value_round f a h (\<lambda>f b. format_fields rest f b)"
      using phaseD(2,3) [OF val(4)] val(2) by (simp add: has_flag_header)
    moreover have "greedy a ((squeeze True (the (fieldValue h)) @ [CR, LF]) # fields_units rest) (headers_rest hs)
        (format_value_round f a h (\<lambda>f b. format_fields rest f b))"
      using hs val by (intro format_value_round_greedy [OF a] format_fields_greedy) auto
    ultimately show ?thesis
      using val(3) by (simp add: fields_units_Cons)
  qed
qed

section \<open>Whole messages\<close>

definition message_units :: "('m http_message_scheme \<Rightarrow> u8 list list) \<Rightarrow> 'm http_message_scheme \<Rightarrow> u8 list list" where
  "message_units line_units m = line_units m @ fields_units (headers m)"

text \<open>The units still to write in a state of the message formatter.\<close>

definition message_at ::
  "('m http_message_scheme \<Rightarrow> u8 list list)
    \<Rightarrow> ('m http_message_scheme \<Rightarrow> u8 list list \<Rightarrow> 'f message_formatter_scheme \<Rightarrow> bool)
    \<Rightarrow> 'm http_message_scheme \<Rightarrow> u8 list list \<Rightarrow> 'f message_formatter_scheme \<Rightarrow> bool" where
  "message_at line_units line_at m us f \<longleftrightarrow>
     fmtState f = 0 \<and> line_at m (line_units m) f \<and> us = message_units line_units m \<or>
     fmtState f = 1 \<and> (\<exists>xs. xs \<noteq> [] \<and> line_at m xs f \<and> us = xs @ fields_units (headers m)) \<or>
     headers_rest (headers m) us f"

text \<open>What \<open>formatHeaders\<close> relies on in the virtual \<open>formatStartLine\<close>, and what follows for it.\<close>

locale start_line_formatter =
  fixes formatStartLine :: "'f message_formatter_scheme \<Rightarrow> buffer \<Rightarrow> 'm http_message_scheme \<Rightarrow> 'f formatter_result"
    and line_units :: "'m http_message_scheme \<Rightarrow> u8 list list"
    and line_at :: "'m http_message_scheme \<Rightarrow> u8 list list \<Rightarrow> 'f message_formatter_scheme \<Rightarrow> bool"
    and line_ok :: "'m http_message_scheme \<Rightarrow> bool"
  assumes line_greedy: "line_ok m \<Longrightarrow> line_at m us f \<Longrightarrow> us \<noteq> [] \<Longrightarrow> buf_inv a \<Longrightarrow> marked a \<Longrightarrow>
      greedy a us (\<lambda>us g. line_at m us g \<and> same_message f g) (formatStartLine f a m)"
    and line_first: "line_ok m \<Longrightarrow> line_units m \<noteq> [] \<and> hd (line_units m) \<noteq> []"
    and line_at_state: "line_at m us (f\<lparr>fmtState := st\<rparr>) \<longleftrightarrow> line_at m us f"
begin

lemma format_start_line_stage_greedy:
  assumes m: "line_ok m" "\<forall>h \<in> set (headers m). header_formattable h"
    and a: "buf_inv a" "marked a" and f: "fmtState f = 1" "line_at m xs f" "xs \<noteq> []"
  shows "greedy a (xs @ fields_units (headers m)) (message_at line_units line_at m) (format_start_line_stage formatStartLine f a m)"
proof -
  let ?k = "\<lambda>g b. case fmt_transition (g\<lparr>currentHeader := headers m\<rparr>) b 1 2 of
      (_, f2, b2) \<Rightarrow> format_fields (currentHeader f2) f2 b2"
  have "greedy a (xs @ fields_units (headers m)) (message_at line_units line_at m) (if_ok (formatStartLine f a m) ?k)"
    unfolding if_ok_def
  proof (rule greedy_append [where F = "\<lambda>s. s" and P = "\<lambda>g. fmtState g = 1", OF _ a(1)])
    show "greedy a xs (\<lambda>xs s. if xs = [] then fmtState s = 1 else message_at line_units line_at m (xs @ fields_units (headers m)) s)
        (formatStartLine f a m)"
      using line_greedy [OF m(1) f(2,3) a] by (rule greedy_mono) (auto simp: message_at_def same_message_def f(1))
    show "greedy b (fields_units (headers m)) (message_at line_units line_at m) (?k g b)"
      if "wrote a (concat xs) b" "marked b" "fmtState g = 1" for g b
    proof -
      have "phase (transition 1 1 2) 2 False"
        by (simp add: phase_def transition_def has_flag_def)
      then have "greedy b (fields_units (headers m)) (headers_rest (headers m))
          (format_fields (headers m) (g\<lparr>currentHeader := headers m, fmtState := transition 1 1 2\<rparr>) b)"
        using that(1,2) m(2) by (intro format_fields_greedy [where seen = "[]"]) (auto simp: wrote_def)
      then show ?thesis
        using that(3) marked_eq [OF that(2)]
        by (simp add: fmt_transition_def Transition_def) (erule greedy_mono, simp add: message_at_def)
    qed
  qed
  then show ?thesis
    using f(1) by (simp add: format_start_line_stage_def has_flag_def)
qed

lemma formatHeaders_greedy:
  assumes m: "line_ok m" "\<forall>h \<in> set (headers m). header_formattable h"
    and f: "message_at line_units line_at m us f" "us \<noteq> []" and a: "buf_inv a" "marked a"
  shows "greedy a us (message_at line_units line_at m) (formatHeaders formatStartLine f a m)"
proof -
  from f consider (start) "fmtState f = 0" "line_at m (line_units m) f" "us = message_units line_units m"
    | (line) xs where "fmtState f = 1" "xs \<noteq> []" "line_at m xs f" "us = xs @ fields_units (headers m)"
    | (fields) "fields_at (headers m) us f"
    by (auto simp: message_at_def headers_rest_def)
  then show ?thesis
  proof cases
    case start
    show ?thesis
    proof (cases "isWritable a")
      case False
      then have "room a < length (hd us)"
        using line_first [OF m(1)] start(3) by (simp add: isWritable_room message_units_def hd_append)
      then have "greedy a us (message_at line_units line_at m) (ESB_AGAIN, f, a)"
        by (intro greedy_again a f)
      then show ?thesis
        using False start(1) by (simp add: formatHeaders_def)
    next
      case True
      have "greedy a us (message_at line_units line_at m) (format_start_line_stage formatStartLine (f\<lparr>fmtState := 1\<rparr>) a m)"
        unfolding start(3) message_units_def using start(2) line_first [OF m(1)]
        by (intro format_start_line_stage_greedy m a) (simp_all add: line_at_state)
      then show ?thesis
        using True start(1) marked_eq [OF a(2)] by (simp add: formatHeaders_def Start_def)
    qed
  next
    case line
    then show ?thesis
      using format_start_line_stage_greedy [OF m a line(1,3,2)] by (simp add: formatHeaders_def has_flag_def)
  next
    case fields
    then obtain s ch where ph: "phase (fmtState f) s ch" "s = 2 \<or> s = 4"
      unfolding fields_at_def by blast
    then have "\<not> has_flag (fmtState f) 8" "\<not> has_flag (fmtState f) 1" "fmtState f \<noteq> 0"
      using phaseD [OF ph(1)] ph(2) by auto
    moreover have "greedy a us (message_at line_units line_at m) (format_fields (currentHeader f) f a)"
      using format_fields_at_greedy [OF a m(2) fields] by (rule greedy_mono) (simp add: message_at_def)
    ultimately show ?thesis
      by (simp add: formatHeaders_def format_start_line_stage_def)
  qed
qed

end

interpretation request_head: start_line_formatter request_formatStartLine request_line_units
  request_line_at request_line_formattable
proof
  show "request_line_formattable m \<Longrightarrow> request_line_units m \<noteq> [] \<and> hd (request_line_units m) \<noteq> []" for m
    by (simp add: request_line_units_def)
  show "request_line_at m us (f\<lparr>fmtState := st\<rparr>) \<longleftrightarrow> request_line_at m us f" for m us f st
    by (simp add: request_line_at_def)
qed (rule request_formatStartLine_greedy)

interpretation response_head: start_line_formatter response_formatStartLine status_line_units
  status_line_at status_line_formattable
proof
  show "greedy a us (\<lambda>us g. status_line_at m us g \<and> same_message f g) (response_formatStartLine f a m)"
    if "status_line_formattable m" "status_line_at m us f" "us \<noteq> []" "buf_inv a" "marked a" for m us f a
    using response_formatStartLine_greedy [OF that(4,5,1,2,3)] by (rule greedy_mono) (simp add: status_line_kept_def)
qed (auto simp: status_line_units_def version_text_def asc_def status_line_at_def)

section \<open>The formatters keep the contract\<close>

definition request_units :: "http_request \<Rightarrow> u8 list list" where
  "request_units = message_units request_line_units"

definition request_formattable :: "http_request \<Rightarrow> bool" where
  "request_formattable m \<longleftrightarrow> request_line_formattable m \<and> (\<forall>h \<in> set (headers m). header_formattable h)"

definition request_at :: "http_request \<Rightarrow> u8 list list \<Rightarrow> request_formatter \<Rightarrow> bool" where
  "request_at m us f \<longleftrightarrow> request_formattable m \<and> message_at request_line_units request_line_at m us f"

definition response_units :: "http_response \<Rightarrow> u8 list list" where
  "response_units = message_units status_line_units"

definition response_formattable :: "http_response \<Rightarrow> bool" where
  "response_formattable m \<longleftrightarrow> status_line_formattable m \<and> (\<forall>h \<in> set (headers m). header_formattable h)"

definition response_at :: "http_response \<Rightarrow> u8 list list \<Rightarrow> response_formatter \<Rightarrow> bool" where
  "response_at m us f \<longleftrightarrow> response_formattable m \<and> message_at status_line_units status_line_at m us f"

interpretation request_output: unit_formatter "\<lambda>f b. request_formatHeaders f b m" "request_at m" for m
proof
  fix us f b
  assume at: "request_at m us f" "us \<noteq> []" "buf_inv b" "marked b"
  then have "greedy b us (message_at request_line_units request_line_at m) (request_formatHeaders f b m)"
    unfolding request_formatHeaders_def
    by (intro request_head.formatHeaders_greedy) (auto simp: request_at_def request_formattable_def)
  then show "greedy b us (request_at m) (request_formatHeaders f b m)"
    by (rule greedy_mono) (use at in \<open>simp add: request_at_def\<close>)
qed

interpretation response_output: unit_formatter "\<lambda>f b. response_formatHeaders f b m" "response_at m" for m
proof
  fix us f b
  assume at: "response_at m us f" "us \<noteq> []" "buf_inv b" "marked b"
  then have "greedy b us (message_at status_line_units status_line_at m) (response_formatHeaders f b m)"
    unfolding response_formatHeaders_def
    by (intro response_head.formatHeaders_greedy) (auto simp: response_at_def response_formattable_def)
  then show "greedy b us (response_at m) (response_formatHeaders f b m)"
    by (rule greedy_mono) (use at in \<open>simp add: response_at_def\<close>)
qed

lemma request_units_ne: "request_units m \<noteq> []"
  by (simp add: request_units_def message_units_def fields_units_def)

lemma response_units_ne: "response_units m \<noteq> []"
  by (simp add: response_units_def message_units_def fields_units_def)

lemma request_start: "request_formattable m \<Longrightarrow> request_at m (request_units m) new_request_formatter"
  by (simp add: request_at_def message_at_def request_units_def new_request_formatter_def request_line_at_def)

lemma response_start: "response_formattable m \<Longrightarrow> response_at m (response_units m) new_response_formatter"
  by (simp add: response_at_def message_at_def response_units_def new_response_formatter_def status_line_at_def)

lemma message_at_done: "message_at line_units line_at m [] f \<Longrightarrow> fields_done (headers m) f"
  by (auto simp: message_at_def headers_rest_def message_units_def fields_units_def)

end
