(* ===== verification/ChunkedBody.thy ===== *)
theory ChunkedBody
  imports MessageIncremental MessageFormatter HttpNumber
begin

text \<open>
  Chunked bodies from end to end: what \<open>beginChunk\<close>, the caller's data and \<open>endChunk\<close> leave in the
  buffer, and what \<open>parseBody\<close> and \<open>consumeBody\<close> read from such octets.
\<close>

section \<open>Reading given octets\<close>

definition passed :: "buffer \<Rightarrow> u8 list \<Rightarrow> buffer \<Rightarrow> bool" where
  "passed b w b' \<longleftrightarrow> buf_inv b \<and> buf_inv b' \<and> advances b b' \<and> unread b = w @ unread b'"

lemma passed_refl: "buf_inv b \<Longrightarrow> passed b [] b"
  by (auto simp: passed_def)

lemma passed_trans: "passed a v b \<Longrightarrow> passed b w c \<Longrightarrow> passed a (v @ w) c"
  using advances_trans [of a b c] by (simp add: passed_def)

lemma passE:
  assumes "buf_inv b" "unread b = c # cs"
  obtains b' where "isReadable b" "buf_next b = (c, b')" "passed b [c] b'" "unread b' = cs"
    "peekNext b = c" "setReadPosition b' (rdPos b' - 1) = b"
proof -
  have r: "isReadable b"
    using assms by (simp add: isReadable_unread)
  obtain d b' where n: "buf_next b = (d, b')" "peekNext b = d" "skipNext b = b'" "buf_inv b'"
    "unread b = d # unread b'" "advances b b'" "unat (readable b') < unat (readable b)"
    "rdPos b < rdPos b'" "setReadPosition b' (rdPos b' - 1) = b"
    by (rule nextE [OF assms(1) r])
  show thesis
    by (rule that [of b']) (use r n assms in \<open>auto simp: passed_def\<close>)
qed

lemma unread_readMark [simp]: "unread (readMark b) = unread b"
  by (simp add: unread_def readMark_def readable_def)

lemma passed_readMark [simp]: "passed b w b' \<Longrightarrow> buf_inv (readMark b')" "unread (readMark b') = unread b'"
  by (auto simp: passed_def)

section \<open>Chunk sizes\<close>

definition hex_step :: "u64 \<Rightarrow> u8 \<Rightarrow> u64" where
  "hex_step n c = n * 16 + (if IsUpAlpha c then ucast c - 65 + 10
      else if IsLowAlpha c then ucast c - 97 + 10 else ucast c - 48)"

lemma parseChunkSize_loop_passed:
  "buf_inv b \<Longrightarrow> unread b = ds @ c # rest \<Longrightarrow> \<forall>d \<in> set ds. IsHex d \<Longrightarrow> \<not> IsHex c \<Longrightarrow>
    \<exists>b'. parseChunkSize_loop p b =
        (ESB_SUCCESS, p\<lparr>bodyBytesRemaining := foldl hex_step (bodyBytesRemaining p) ds\<rparr>, b') \<and>
      passed b ds b' \<and> unread b' = c # rest"
proof (induction ds arbitrary: p b)
  case Nil
  then obtain b' where "isReadable b" "buf_next b = (c, b')" "setReadPosition b' (rdPos b' - 1) = b"
    using passE [OF Nil(1), of c rest] by (metis append_Nil)
  then show ?case
    using Nil by (simp add: parseChunkSize_loop.simps [of p b] passed_refl)
next
  case (Cons d ds)
  then obtain b' where b': "isReadable b" "buf_next b = (d, b')" "passed b [d] b'" "unread b' = ds @ c # rest"
    using passE [OF Cons.prems(1), of d "ds @ c # rest"] by (metis append_Cons)
  let ?p = "p\<lparr>bodyBytesRemaining := hex_step (bodyBytesRemaining p) d\<rparr>"
  obtain b'' where b'': "parseChunkSize_loop ?p b' =
      (ESB_SUCCESS, ?p\<lparr>bodyBytesRemaining := foldl hex_step (bodyBytesRemaining ?p) ds\<rparr>, b'')"
      "passed b' ds b''" "unread b'' = c # rest"
    using Cons.IH [of b' ?p] Cons.prems(3,4) b' by (auto simp: passed_def)
  have "passed b (d # ds) b''"
    using passed_trans [OF b'(3) b''(2)] by simp
  moreover have "parseChunkSize_loop p b = parseChunkSize_loop ?p b'"
    using b' Cons.prems(3) by (simp add: parseChunkSize_loop.simps [of p b] hex_step_def)
  ultimately show ?case
    using b'' by auto
qed

lemma digit_octet_all:
  "list_all (\<lambda>d. IsHex (digit_octet d) \<and> digit_octet d \<noteq> SP \<and> digit_octet d \<noteq> HT \<and>
     hex_step 0 (digit_octet d) = of_nat d) [0..<16]"
  by code_simp

lemma digit_octet_hex:
  assumes "d < 16"
  shows "IsHex (digit_octet d)" "digit_octet d \<noteq> SP" "digit_octet d \<noteq> HT"
    "hex_step n (digit_octet d) = n * 16 + of_nat d"
proof -
  have "hex_step n c = n * 16 + hex_step 0 c" for c
    by (simp add: hex_step_def)
  moreover have "d \<in> set [0..<16]"
    using assms by simp
  ultimately show "IsHex (digit_octet d)" "digit_octet d \<noteq> SP" "digit_octet d \<noteq> HT"
    "hex_step n (digit_octet d) = n * 16 + of_nat d"
    using digit_octet_all unfolding list_all_iff by (metis (no_types, lifting))+
qed

lemma digits_hex: "\<forall>d \<in> set (digits 16 k n). IsHex d \<and> d \<noteq> SP \<and> d \<noteq> HT"
proof (induction k)
  case (Suc k)
  have "(n mod 16 ^ Suc k) div 16 ^ k < 16"
    by (simp add: div_less_iff_less_mult)
  then show ?case
    using Suc digit_octet_hex by simp
qed simp

lemma foldl_digits: "foldl hex_step m (digits 16 k n) = m * 16 ^ k + of_nat (n mod 16 ^ k)"
proof (induction k arbitrary: m)
  case (Suc k)
  let ?d = "(n mod 16 ^ Suc k) div 16 ^ k"
  have d: "?d < 16"
    by (simp add: div_less_iff_less_mult)
  have "n mod 16 ^ Suc k = ?d * 16 ^ k + n mod 16 ^ k"
    by (metis div_mult_mod_eq mod_mod_cancel le_imp_power_dvd lessI less_imp_le)
  then have "(of_nat (n mod 16 ^ Suc k) :: u64) = of_nat (?d * 16 ^ k + n mod 16 ^ k)"
    by (rule arg_cong)
  also have "\<dots> = of_nat ?d * 16 ^ k + of_nat (n mod 16 ^ k)"
    by (simp only: of_nat_add of_nat_mult of_nat_power of_nat_numeral)
  finally show ?case
    using Suc [of "m * 16 + of_nat ?d"] digit_octet_hex(4) [OF d, of m]
    by (simp only: digits.simps foldl.simps) (simp add: algebra_simps)
qed simp

definition size_text :: "nat \<Rightarrow> u8 list" where
  "size_text n = (if n = 0 then [DIGIT0] else digits 16 (digit_count 16 n) n)"

lemma size_text:
  "\<forall>d \<in> set (size_text n). IsHex d \<and> d \<noteq> SP \<and> d \<noteq> HT" "foldl hex_step 0 (size_text n) = of_nat n"
  "size_text n \<noteq> []"
proof -
  have zero: "IsHex DIGIT0" "hex_step 0 DIGIT0 = 0"
    by (simp_all add: http_class hex_step_def word_le_nat_alt)
  have nz: "digit_count 16 n \<noteq> 0" if "n \<noteq> 0"
    using that by (simp add: digit_count.simps [of 16 n])
  show "\<forall>d \<in> set (size_text n). IsHex d \<and> d \<noteq> SP \<and> d \<noteq> HT"
    using zero(1) digits_hex by (simp add: size_text_def)
  show "foldl hex_step 0 (size_text n) = of_nat n"
    using zero(2) digit_count_bound [of 16 n] by (simp add: size_text_def foldl_digits)
  show "size_text n \<noteq> []"
    using nz by (metis length_digits list.size(3) size_text_def list.distinct(1))
qed

lemma SkipSpaces_none: "buf_inv b \<Longrightarrow> unread b = c # cs \<Longrightarrow> c \<noteq> SP \<Longrightarrow> c \<noteq> HT \<Longrightarrow> SkipSpaces b = b"
  by (erule passE, assumption) (simp add: SkipSpaces.simps [of b])

lemma parseChunkSize_passed:
  assumes "buf_inv b" "unread b = size_text n @ CR # rest" "bodyBytesRemaining p = 0"
  shows "\<exists>b'. parseChunkSize p b = (ESB_SUCCESS, p\<lparr>bodyBytesRemaining := of_nat n\<rparr>, b') \<and>
    passed b (size_text n) b' \<and> unread b' = CR # rest"
proof -
  have "SkipSpaces b = b"
    using assms(1,2) size_text(1,3) [of n] by (cases "size_text n") (auto intro: SkipSpaces_none)
  moreover have "\<not> IsHex CR"
    by (simp add: http_class word_le_nat_alt)
  ultimately show ?thesis
    using parseChunkSize_loop_passed [OF assms(1,2), of p] size_text(1,2) [of n] assms(3)
    by (simp add: parseChunkSize_def)
qed

lemma SkipLine_crlf:
  assumes "buf_inv b" "unread b = CR # LF # rest"
  shows "\<exists>b'. SkipLine b = (ESB_SUCCESS, 0, b') \<and> passed b [CR, LF] b' \<and> unread b' = rest"
proof -
  obtain b1 where b1: "isReadable b" "buf_next b = (CR, b1)" "passed b [CR] b1" "unread b1 = LF # rest"
    by (rule passE [OF assms]) blast
  then have inv: "buf_inv b1"
    by (simp add: passed_def)
  obtain b2 where b2: "isReadable b1" "buf_next b1 = (LF, b2)" "passed b1 [LF] b2" "unread b2 = rest"
    by (rule passE [OF inv b1(4)]) blast
  have "passed b [CR, LF] b2"
    using passed_trans [OF b1(3) b2(3)] by simp
  then show ?thesis
    using b1 b2 by (simp add: SkipLine_def SkipLine_loop.simps [of _ _ _ b] SkipLine_loop.simps [of _ _ _ b1])
qed

section \<open>Reading a chunked body\<close>

text \<open>
  The loop of the sockets over \<open>parseBody\<close> and \<open>consumeBody\<close>, for a handler that takes everything
  it is offered: the octets taken, and the answer that ended the loop.
\<close>

fun read_body ::
  "nat \<Rightarrow> ('a, 'p) message_parser_scheme \<Rightarrow> buffer \<Rightarrow> u8 list \<times> error \<times> ('a, 'p) message_parser_scheme \<times> buffer" where
  "read_body 0 p b = ([], ESB_AGAIN, p, b)"
| "read_body (Suc n) p b =
     (case parseBody p b 0 0 of
        (e, p1, b1, start, sz) \<Rightarrow>
          if e \<noteq> ESB_SUCCESS then ([], e, p1, b1)
          else if sz = 0 then ([], ESB_SUCCESS, p1, b1)
          else
            case consumeBody p1 b1 sz of
              (e2, p2, b2) \<Rightarrow>
                if e2 \<noteq> ESB_SUCCESS then ([], e2, p2, b2)
                else
                  case read_body n p2 b2 of
                    (out, r) \<Rightarrow> (take (unat sz) (drop (unat start) (octets b1)) @ out, r))"

definition chunk_text :: "u8 list \<Rightarrow> u8 list" where
  "chunk_text d = size_text (length d) @ [CR, LF] @ d @ [CR, LF]"

definition chunked_text :: "u8 list list \<Rightarrow> u8 list" where
  "chunked_text ds = concat (map chunk_text ds) @ [DIGIT0, CR, LF, CR, LF]"

text \<open>States in which a chunk starts: before its size, and before the line end of the last one.\<close>

definition chunk_start :: "('a, 'p) message_parser_scheme \<Rightarrow> bool" where
  "chunk_start p \<longleftrightarrow> msgState p = 104 \<and> bodyBytesRemaining p = 0"

definition chunk_ended :: "('a, 'p) message_parser_scheme \<Rightarrow> bool" where
  "chunk_ended p \<longleftrightarrow> msgState p = 552 \<and> bodyBytesRemaining p = 0"

lemma SkipLine_rest:
  "buf_inv b \<Longrightarrow> unread b = CR # LF # rest \<Longrightarrow>
    \<exists>b'. SkipLine b = (ESB_SUCCESS, 0, b') \<and> buf_inv (readMark b') \<and> unread (readMark b') = rest"
  using SkipLine_crlf [of b rest] passed_readMark by fastforce

text \<open>Size and extension of a chunk.\<close>

lemma chunk_size_step_passed:
  assumes p: "chunk_start p" and b: "buf_inv b" "unread b = size_text n @ CR # LF # rest" and n: "n < 2 ^ 64"
  shows "\<exists>b'. buf_inv b' \<and> unread b' = rest \<and>
    chunk_size_step p b start sz =
      (if n = 0 then (ESB_SUCCESS, p\<lparr>msgState := 1064\<rparr>, b', start, 0)
       else parseChunkData (p\<lparr>bodyBytesRemaining := of_nat n, msgState := 296\<rparr>) b' start sz)"
proof -
  have st: "msgState p = 104" "bodyBytesRemaining p = 0"
    using p by (auto simp: chunk_start_def)
  obtain b1 where b1: "parseChunkSize p b = (ESB_SUCCESS, p\<lparr>bodyBytesRemaining := of_nat n\<rparr>, b1)"
      "passed b (size_text n) b1" "unread b1 = CR # LF # rest"
    using parseChunkSize_passed [OF b(1), of n "LF # rest" p] b(2) st(2) by auto
  have m: "buf_inv (readMark b1)" "unread (readMark b1) = CR # LF # rest"
    using b1(2,3) by simp_all
  obtain b2 where b2: "SkipLine (readMark b1) = (ESB_SUCCESS, 0, b2)" "buf_inv (readMark b2)"
      "unread (readMark b2) = rest"
    using SkipLine_rest [OF m] by blast
  have z: "(of_nat n :: u64) = 0 \<longleftrightarrow> n = 0"
    using n by (auto simp: word_of_nat_eq_0_iff dest: dvd_imp_le)
  have flags: "has_flag 104 64" "transition 104 64 128 = 168" "has_flag 168 128" "168 AND NOT 128 = (40 :: u32)"
    "40 OR 1024 = (1064 :: u32)" "40 OR 256 = (296 :: u32)" "has_flag 296 256"
    by (simp_all add: has_flag_def transition_def)
  show ?thesis
    using b2(2,3) st flags z
    by (intro exI [of _ "readMark b2"])
       (simp add: chunk_size_step_def b1(1) msg_enter_def chunk_extension_step_def
         parseChunkExtension_def b2(1) chunk_data_step_def Let_def)
qed

lemma readable_bound: "unat (readable b) < 2 ^ 32"
  using unsigned_less [where 'a = nat, of "readable b"] by simp

text \<open>The data of a chunk is offered whole when it is in the buffer, and taking it ends the chunk.\<close>

lemma chunk_data_taken:
  fixes p :: "('a, 'p) message_parser_scheme"
  assumes b: "buf_inv b" "unread b = d @ rest" "d \<noteq> []"
    and p: "msgState p = 296" "bodyBytesRemaining p = of_nat (length d)"
  shows "\<exists>sz p2 b2. parseChunkData p b start sz0 = (ESB_SUCCESS, p, b, ucast (rdPos b), sz) \<and> sz \<noteq> 0 \<and>
    take (unat sz) (drop (unat (ucast (rdPos b) :: u64)) (octets b)) = d \<and>
    consumeBody p b sz = (ESB_SUCCESS, p2, b2) \<and> chunk_ended p2 \<and> buf_inv b2 \<and> unread b2 = rest"
proof -
  have le: "length d \<le> unat (readable b)"
    using length_unread [OF b(1)] b(2) by simp
  also have "\<dots> < 2 ^ 32"
    by (rule readable_bound)
  finally have lt: "length d < 2 ^ 32" .
  let ?n = "of_nat (length d) :: u64"
  have un: "unat ?n = length d"
    using lt by (simp add: unat_of_nat)
  then have uc: "unat (ucast ?n :: u32) = length d"
    using lt by (simp add: unsigned_ucast_eq take_bit_eq_mod)
  have "?n \<le> ucast (readable b)"
    using le un readable_bound [of b] by (simp add: word_le_nat_alt unsigned_ucast_eq take_bit_eq_mod)
  then have mn: "min ?n (ucast (readable b)) = ?n"
    by (simp add: min_def)
  have r: "isReadable b"
    using b by (simp add: isReadable_unread)
  have nz: "?n \<noteq> 0"
    using un b(3) by (metis length_0_conv unat_0)
  have start: "unat (ucast (rdPos b) :: u64) = unat (rdPos b)"
    using unsigned_less [where 'a = nat, of "rdPos b"] by (simp add: unsigned_ucast_eq take_bit_eq_mod)
  have "take (length d) (drop (unat (rdPos b)) (octets b)) = take (length d) (unread b)"
    using le by (simp add: unread_def min_def)
  then have data: "take (unat ?n) (drop (unat (ucast (rdPos b) :: u64)) (octets b)) = d"
    using un start b(2) by simp
  note sk = buf_skip_within [OF b(1), of "ucast ?n"]
  have skip: "buf_inv (readMark (buf_skip b (ucast ?n)))" "unread (readMark (buf_skip b (ucast ?n))) = rest"
    using sk(3,4) le uc b(2) by (simp_all add: readMark_inv unread_readMark)
  let ?p2 = "p\<lparr>bodyBytesRemaining := 0, msgState := 552\<rparr>"
  have flags: "\<not> has_flag 296 4096" "\<not> has_flag 296 (16 OR 8192)" "256 OR 296 \<noteq> (0 :: u32)"
    "transition 296 256 512 = 552"
    by (simp_all add: has_flag_def transition_def)
  have "consumeBody p b ?n = (ESB_SUCCESS, ?p2, readMark (buf_skip b (ucast ?n)))"
    using p flags by (simp add: consumeBody_def msg_enter_def Let_def)
  moreover have "chunk_ended ?p2"
    by (simp add: chunk_ended_def)
  moreover have "parseChunkData p b start sz0 = (ESB_SUCCESS, p, b, ucast (rdPos b), ?n)"
    using r p(2) mn by (simp add: parseChunkData_def)
  ultimately show ?thesis
    using nz data skip by blast
qed

lemma parseBody_chunk:
  assumes "chunk_start p"
  shows "parseBody p b start sz = chunk_size_step p b start sz"
proof -
  have "\<not> has_flag 104 (16 OR 8192)" "has_flag 104 32" "\<not> has_flag 104 512"
    by (simp_all add: has_flag_def)
  then show ?thesis
    using assms by (simp add: chunk_start_def parseBody_def parseChunkedBody_def)
qed

lemma parseBody_ended:
  assumes p: "chunk_ended p" and b: "buf_inv b" "unread b = CR # LF # rest"
  shows "\<exists>b'. buf_inv b' \<and> unread b' = rest \<and>
    parseBody p b start sz = chunk_size_step (p\<lparr>msgState := 104\<rparr>) b' start sz"
proof -
  have "\<not> has_flag 552 (16 OR 8192)" "has_flag 552 32" "has_flag 552 512" "transition 552 512 64 = 104"
    by (simp_all add: has_flag_def transition_def)
  then show ?thesis
    using SkipLine_rest [OF b] p
    by (auto simp: chunk_ended_def parseBody_def parseChunkedBody_def parseEndChunk_def msg_enter_def)
qed

text \<open>In front of a chunk, with or without the line end of the one before.\<close>

definition before_chunks :: "('a, 'p) message_parser_scheme \<Rightarrow> buffer \<Rightarrow> u8 list \<Rightarrow> bool" where
  "before_chunks p b t \<longleftrightarrow> buf_inv b \<and>
     (chunk_start p \<and> unread b = t \<or> chunk_ended p \<and> unread b = CR # LF # t)"

lemma enter_chunk:
  assumes "before_chunks p b t"
  shows "\<exists>q c. chunk_start q \<and> buf_inv c \<and> unread c = t \<and> parseBody p b 0 0 = chunk_size_step q c 0 0"
proof (cases "chunk_start p")
  case True
  then show ?thesis
    using assms parseBody_chunk [OF True] by (auto simp: before_chunks_def chunk_start_def chunk_ended_def)
next
  case False
  then have e: "buf_inv b" "chunk_ended p" "unread b = CR # LF # t"
    using assms by (auto simp: before_chunks_def)
  then have "chunk_start (p\<lparr>msgState := 104\<rparr>)"
    by (simp add: chunk_start_def chunk_ended_def)
  then show ?thesis
    using parseBody_ended [OF e(2,1,3), of 0 0] by blast
qed

lemma size_text_0: "size_text 0 = [DIGIT0]"
  by (simp add: size_text_def)

text \<open>What a reader in front of the chunks \<open>ds\<close> returns: their data, in one round per chunk.\<close>

lemma read_chunks:
  "[] \<notin> set ds \<Longrightarrow> length ds < n \<Longrightarrow> before_chunks p b (chunked_text ds @ rest) \<Longrightarrow>
    \<exists>p' b'. read_body n p b = (concat ds, ESB_SUCCESS, p', b') \<and> msgState p' = 1064 \<and>
      buf_inv b' \<and> unread b' = CR # LF # rest"
proof (induction ds arbitrary: n p b)
  case Nil
  then obtain k where k: "n = Suc k"
    by (cases n) auto
  obtain q c where q: "chunk_start q" "buf_inv c" "unread c = chunked_text [] @ rest"
      "parseBody p b 0 0 = chunk_size_step q c 0 0"
    using enter_chunk [OF Nil(3)] by blast
  then have "unread c = size_text 0 @ CR # LF # (CR # LF # rest)"
    by (simp add: chunked_text_def size_text_0)
  from chunk_size_step_passed [OF q(1,2) this, of 0 0] show ?case
    using q(4) by (auto simp: k)
next
  case (Cons d ds)
  then obtain k where k: "n = Suc k" "length ds < k"
    by (cases n) auto
  let ?t = "d @ CR # LF # chunked_text ds @ rest"
  obtain q c where q: "chunk_start q" "buf_inv c" "unread c = chunked_text (d # ds) @ rest"
      "parseBody p b 0 0 = chunk_size_step q c 0 0"
    using enter_chunk [OF Cons.prems(3)] by blast
  have d: "d \<noteq> []" "[] \<notin> set ds"
    using Cons.prems(1) by auto
  have u: "unread c = size_text (length d) @ CR # LF # ?t"
    using q(3) by (simp add: chunked_text_def chunk_text_def)
  then have "length d \<le> length (unread c)"
    by simp
  also have "\<dots> < 2 ^ 64"
    using length_unread [OF q(2)] readable_bound [of c] by simp
  finally obtain c1 where c1: "buf_inv c1" "unread c1 = ?t" "chunk_size_step q c 0 0 =
      parseChunkData (q\<lparr>bodyBytesRemaining := of_nat (length d), msgState := 296\<rparr>) c1 0 0"
    using chunk_size_step_passed [OF q(1,2) u, of 0 0] d(1) by auto
  let ?q = "q\<lparr>bodyBytesRemaining := of_nat (length d), msgState := 296\<rparr>"
  obtain sz p2 b2 where s: "parseChunkData ?q c1 0 0 = (ESB_SUCCESS, ?q, c1, ucast (rdPos c1), sz)" "sz \<noteq> 0"
      "take (unat sz) (drop (unat (ucast (rdPos c1) :: u64)) (octets c1)) = d"
      "consumeBody ?q c1 sz = (ESB_SUCCESS, p2, b2)" "chunk_ended p2" "buf_inv b2"
      "unread b2 = CR # LF # chunked_text ds @ rest"
    using chunk_data_taken [OF c1(1,2) d(1), of ?q 0 0] by auto
  have "before_chunks p2 b2 (chunked_text ds @ rest)"
    using s by (simp add: before_chunks_def)
  from Cons.IH [OF d(2) k(2) this] show ?case
    using s q(4) c1(3) by (auto simp: k)
qed

lemma skipTrailer_passed:
  assumes "msgState p = 1064" "buf_inv b" "unread b = CR # LF # rest"
  shows "\<exists>p' b'. skipTrailer p b = (ESB_SUCCESS, p', b') \<and> msgState p' = 2088 \<and> buf_inv b' \<and> unread b' = rest"
proof -
  have "has_flag 1064 1024" "transition 1064 1024 2048 = 2088"
    by (simp_all add: has_flag_def transition_def)
  then show ?thesis
    using SkipLine_rest [OF assms(2,3)] assms(1)
    by (auto simp: skipTrailer_def skipTrailer_loop.simps [of p b] msg_enter_def)
qed

section \<open>Writing a chunked body\<close>

lemma digit_count_mono: "2 \<le> r \<Longrightarrow> n < r ^ k \<Longrightarrow> digit_count r n \<le> k"
proof (induction r n arbitrary: k rule: digit_count.induct)
  case (1 r n)
  show ?case
  proof (cases "n = 0")
    case False
    then obtain j where k: "k = Suc j"
      using "1.prems" by (cases k) auto
    have "n div r < r ^ j"
      using "1.prems" by (simp add: k div_less_iff_less_mult mult.commute)
    then show ?thesis
      using "1.IH" [of j] False "1.prems"(1) by (simp add: digit_count.simps [of r n] k)
  qed (simp add: digit_count.simps)
qed

lemma length_size_text: "n < 2 ^ 27 \<Longrightarrow> length (size_text n) \<le> 7"
  using digit_count_mono [of 16 n 7] by (simp add: size_text_def)

text \<open>
  \<open>beginChunk\<close> offers what fits behind the reserve of 12 octets, and then the size line, the data
  and the line end do fit. \<open>FormatInteger\<close> multiplies in an int, hence the bound on the capacity.
\<close>

lemma uint_room: "uint (writable b) = int (room b)"
  by (simp only: room_def uint_nat)

lemma beginChunk_text:
  assumes b: "buf_inv b" "cap b \<le> 2 ^ 27" and room: "12 < room b" and req: "0 < req"
  defines "n \<equiv> min (unat req) (room b - 12)"
  shows "\<exists>b'. beginChunk f b req old = (ESB_SUCCESS, f, b', of_nat n) \<and> buf_inv b' \<and>
    unread b' = unread b @ size_text n @ [CR, LF] \<and> cap b' = cap b \<and>
    room b' = room b - length (size_text n) - 2 \<and> n + 2 \<le> room b'"
proof -
  have rc: "room b \<le> 2 ^ 27"
    using b(2) buf_invD(7) [OF b(1)] by (simp add: room_eq b(1) word_le_nat_alt)
  have n: "0 < n" "n < 2 ^ 27" "n \<le> room b - 12"
    using room req rc by (auto simp: n_def word_less_nat_alt)
  have space: "max (uint (writable b) - 12) 0 = int (room b - 12)"
    using room uint_room [of b] by simp
  have "unat (of_nat (room b - 12) :: u64) = room b - 12"
    using rc by (simp add: unat_of_nat)
  then have avail: "min req (of_int (int (room b - 12))) = (of_nat n :: u64)"
    by (cases "unat req \<le> room b - 12") (simp_all add: n_def min_def word_le_nat_alt)
  have un: "unat (of_nat n :: u64) = n"
    using n(2) by (simp add: unat_of_nat)
  have len: "length (size_text n) \<le> 7"
    by (rule length_size_text [OF n(2)])
  have st: "size_text n = digits 16 (digit_count 16 n) n"
    using n(1) by (simp add: size_text_def)
  have F: "FormatInteger b (of_nat n) 16 = (ESB_SUCCESS, put_all b (size_text n))"
    using FormatInteger_digits [of "of_nat n" 16 b] un n(1,2) b(1) room len by (simp add: st)
  let ?b1 = "put_all b (size_text n)"
  have b1: "buf_inv ?b1" "room ?b1 = room b - length (size_text n)" "unread ?b1 = unread b @ size_text n"
    using b(1) len room by (auto simp: room_put_all unread_put_all)
  have w: "\<not> 2 > writable ?b1"
    using b1(2) room len by (simp add: word_less_nat_alt flip: room_def)
  have two: "putNext (putNext ?b1 CR) LF = put_all ?b1 [CR, LF]"
    by (simp add: put_all_def)
  have "beginChunk f b req old = (ESB_SUCCESS, f, put_all ?b1 [CR, LF], of_nat n)"
    unfolding beginChunk_def Let_def space avail F using room w two by simp
  moreover have "unread (put_all ?b1 [CR, LF]) = unread b @ size_text n @ [CR, LF]"
    using b1 room len by (simp add: unread_put_all)
  moreover have "room (put_all ?b1 [CR, LF]) = room b - length (size_text n) - 2"
    using b1 by (simp add: room_put_all)
  ultimately show ?thesis
    using n(3) len b1(1) room by auto
qed

text \<open>A sender of the blocks \<open>ds\<close> that offers each once and writes what it may.\<close>

fun write_body ::
  "'f message_formatter_scheme \<Rightarrow> buffer \<Rightarrow> u8 list list \<Rightarrow> 'f formatter_result" where
  "write_body f b [] = endBody f b"
| "write_body f b (d # ds) =
     (case beginBlock f b (of_nat (length d)) 0 of
        (e, f1, b1, n) \<Rightarrow>
          if e \<noteq> ESB_SUCCESS then (e, f1, b1)
          else
            case endBlock f1 (put_all b1 (take (unat n) d)) of
              (e2, f2, b2) \<Rightarrow> if e2 \<noteq> ESB_SUCCESS then (e2, f2, b2) else write_body f2 b2 ds)"

definition chunked_output :: "'f message_formatter_scheme \<Rightarrow> bool" where
  "chunked_output f \<longleftrightarrow> has_flag (fmtState f) ES_FORMATTING_CHUNKED_BODY \<and>
     \<not> has_flag (fmtState f) ES_BODY_FORMAT_COMPLETE"

lemma endBlock_text:
  "chunked_output f \<Longrightarrow> buf_inv b \<Longrightarrow> 2 \<le> room b \<Longrightarrow> endBlock f b = (ESB_SUCCESS, f, put_all b [CR, LF])"
  by (simp add: endBlock_def endChunk_def chunked_output_def put_all_def word_less_nat_alt flip: room_def)

lemma endBody_text:
  assumes f: "chunked_output f" and b: "buf_inv b" "5 \<le> room b"
  shows "\<exists>f' b'. endBody f b = (ESB_SUCCESS, f', b') \<and> buf_inv b' \<and>
    unread b' = unread b @ [DIGIT0, CR, LF, CR, LF] \<and> has_flag (fmtState f') ES_BODY_FORMAT_COMPLETE"
proof -
  let ?t = "[DIGIT0, CR, LF, CR, LF]"
  have u: "unread (writeMark c) = unread c" for c
    by (simp add: unread_def writeMark_def readable_def)
  have "endBody f b = fmt_transition f (put_all b ?t) 32 64"
    using f b by (simp add: endBody_def chunked_output_def put_all_def word_less_nat_alt flip: room_def)
  moreover have "unread (put_all b ?t) = unread b @ ?t"
    using b by (simp add: unread_put_all)
  moreover have "has_flag (transition (fmtState f) 32 64) 64"
    unfolding has_flag_transition by (simp add: has_flag_def)
  ultimately show ?thesis
    using b(1) by (auto simp: fmt_transition_def Transition_def u)
qed

lemma write_body_text:
  "chunked_output f \<Longrightarrow> buf_inv b \<Longrightarrow> cap b \<le> 2 ^ 27 \<Longrightarrow> [] \<notin> set ds \<Longrightarrow>
    length (chunked_text ds) + 12 \<le> room b \<Longrightarrow>
    \<exists>f' b'. write_body f b ds = (ESB_SUCCESS, f', b') \<and> buf_inv b' \<and>
      unread b' = unread b @ chunked_text ds \<and> has_flag (fmtState f') ES_BODY_FORMAT_COMPLETE"
proof (induction ds arbitrary: b)
  case Nil
  then show ?case
    using endBody_text [of f b] by (simp add: chunked_text_def)
next
  case (Cons d ds)
  have split: "chunked_text (d # ds) = size_text (length d) @ [CR, LF] @ d @ [CR, LF] @ chunked_text ds"
    by (simp add: chunked_text_def chunk_text_def)
  have d: "d \<noteq> []" "[] \<notin> set ds"
    using Cons.prems(4) by auto
  have rc: "room b \<le> 2 ^ 27"
    using Cons.prems(2,3) buf_invD(7) [OF Cons.prems(2)] by (simp add: room_eq word_le_nat_alt)
  have big: "length d + 12 \<le> room b"
    using Cons.prems(5) by (simp add: split)
  have gt: "12 < room b"
    using big d(1) by (cases d) auto
  have un: "unat (of_nat (length d) :: u64) = length d"
    using big rc by (simp add: unat_of_nat)
  have pos: "(0 :: u64) < of_nat (length d)"
    using un d(1) by (simp add: word_less_nat_alt)
  have mn: "min (unat (of_nat (length d) :: u64)) (room b - 12) = length d"
    using un big by simp
  obtain b1 where b1: "beginChunk f b (of_nat (length d)) 0 = (ESB_SUCCESS, f, b1, of_nat (length d))"
      "buf_inv b1" "unread b1 = unread b @ size_text (length d) @ [CR, LF]" "cap b1 = cap b"
      "room b1 = room b - length (size_text (length d)) - 2" "length d + 2 \<le> room b1"
    using beginChunk_text [OF Cons.prems(2,3) gt pos, of f 0] unfolding mn by auto
  have bl: "beginBlock f b (of_nat (length d)) 0 = (ESB_SUCCESS, f, b1, of_nat (length d))"
    using Cons.prems(1) b1(1) pos by (auto simp: beginBlock_def chunked_output_def)
  let ?b2 = "put_all b1 d"
  let ?b3 = "put_all ?b2 [CR, LF]"
  have b2: "buf_inv ?b2" "unread ?b2 = unread b1 @ d" "room ?b2 = room b1 - length d"
    using b1(2,6) by (auto simp: unread_put_all room_put_all)
  have e: "endBlock f ?b2 = (ESB_SUCCESS, f, ?b3)"
    using b2(1,3) b1(6) by (intro endBlock_text Cons.prems(1)) auto
  have b3: "buf_inv ?b3" "unread ?b3 = unread b1 @ d @ [CR, LF]" "cap ?b3 = cap b"
    "length (chunked_text ds) + 12 \<le> room ?b3"
    using b2 b1(4,5,6) Cons.prems(5) by (auto simp: unread_put_all room_put_all split)
  have w: "write_body f b (d # ds) = write_body f ?b3 ds"
    using bl e un by simp
  show ?case
    using Cons.IH [OF Cons.prems(1) b3(1) _ d(2) b3(4)] Cons.prems(3) unfolding w
    by (simp add: b3(2) b1(3,4) split)
qed

text \<open>What is written is read back.\<close>

lemma chunked_round_trip:
  assumes f: "chunked_output f" and b: "buf_inv b" "unread b = []" "cap b \<le> 2 ^ 27"
    and ds: "[] \<notin> set ds" "length (chunked_text ds) + 12 \<le> room b" and p: "chunk_start p" "length ds < n"
  obtains f' b1 p1 b2 p2 b3 where "write_body f b ds = (ESB_SUCCESS, f', b1)"
    "read_body n p b1 = (concat ds, ESB_SUCCESS, p1, b2)"
    "skipTrailer p1 b2 = (ESB_SUCCESS, p2, b3)" "unread b3 = []" "has_flag (msgState p2) ES_BODY_PARSE_COMPLETE"
proof -
  obtain f' b1 where w: "write_body f b ds = (ESB_SUCCESS, f', b1)" "buf_inv b1" "unread b1 = chunked_text ds"
    using write_body_text [OF f b(1,3) ds] b(2) by auto
  have "before_chunks p b1 (chunked_text ds @ [])"
    using w(2,3) p(1) by (simp add: before_chunks_def)
  from read_chunks [OF ds(1) p(2) this] obtain p1 b2 where
    r: "read_body n p b1 = (concat ds, ESB_SUCCESS, p1, b2)" "msgState p1 = 1064" "buf_inv b2" "unread b2 = [CR, LF]"
    by auto
  obtain p2 b3 where "skipTrailer p1 b2 = (ESB_SUCCESS, p2, b3)" "msgState p2 = 2088" "unread b3 = []"
    using skipTrailer_passed [OF r(2,3), of "[]"] r(4) by auto
  moreover have "has_flag 2088 2048"
    by (simp add: has_flag_def)
  ultimately show thesis
    using that w(1) r(1) by metis
qed

end
