(* ===== verification/FormatterProperties.thy ===== *)
theory FormatterProperties
  imports ParserProperties MessageUnits ChunkedBody "HOL-Library.Code_Target_Nat"
begin

text \<open>
  What the formatters guarantee the sockets that send their output, and that the parsers read
  back what was formatted.
\<close>

section \<open>Formatting through a small buffer\<close>

definition small_buffer :: buffer where
  "small_buffer = new_buffer (replicate 24 0) 24"

definition sample_request :: http_request where
  "sample_request = new_http_request\<lparr>reqMethod := Some (asc ''GET''),
     requestUri := new_request_uri\<lparr>uriType := ES_URI_HTTP, host := Some (asc ''a''), port := 8080,
       absPath := Some (asc ''/x y''), query := Some (asc ''q''), fragment := None, other := None\<rparr>,
     httpVersion := 110,
     headers := [\<lparr>fieldName = asc ''Transfer-Encoding'', fieldValue = Some (asc ''  chunked '')\<rparr>]\<rparr>"

definition sample_response :: http_response where
  "sample_response = new_http_response\<lparr>statusCode := 200, reasonPhrase := Some (asc ''OK''), httpVersion := 110,
     headers := [\<lparr>fieldName = asc ''Content-Length'', fieldValue = Some (asc ''0'')\<rparr>]\<rparr>"

text \<open>C3. A request head formatted through a buffer that is sent whenever \<open>formatHeaders\<close> answers
  ESB_AGAIN comes out as the text of the request, nothing lost and nothing twice, after at most one
  call per unit; the body is then chunked if and only if a header asks for it.\<close>

theorem request_formatted_whole:
  assumes "request_formattable m" "drained b"
    and "\<forall>u \<in> set (request_units m). length u \<le> unat (cap b)" "length (request_units m) \<le> n"
  shows "\<exists>f b'. drain (\<lambda>f b. request_formatHeaders f b m) n new_request_formatter b =
      (concat (request_units m), ESB_SUCCESS, f, b') \<and>
    (has_flag (fmtState f) ES_FORMATTING_CHUNKED_BODY \<longleftrightarrow> (\<exists>h \<in> set (headers m). asks_chunked h))"
proof -
  obtain f b' where d: "drain (\<lambda>f b. request_formatHeaders f b m) n new_request_formatter b =
      (concat (request_units m), ESB_SUCCESS, f, b')" "request_at m [] f"
    using request_output.drain_all [OF request_start [OF assms(1)] request_units_ne assms(2-4)] by blast
  have "fields_done (headers m) f"
    using d(2) message_at_done unfolding request_at_def by blast
  then show ?thesis
    using d(1) by (auto simp: fields_done_def)
qed

theorem request_formatted_whole_witness:
  "\<exists>f b'. drain (\<lambda>f b. request_formatHeaders f b sample_request) 11 new_request_formatter small_buffer =
      (concat (request_units sample_request), ESB_SUCCESS, f, b') \<and>
    (has_flag (fmtState f) ES_FORMATTING_CHUNKED_BODY \<longleftrightarrow> (\<exists>h \<in> set (headers sample_request). asks_chunked h))"
  by (rule request_formatted_whole) code_simp+

text \<open>C26. The same for a response head.\<close>

theorem response_formatted_whole:
  assumes "response_formattable m" "drained b"
    and "\<forall>u \<in> set (response_units m). length u \<le> unat (cap b)" "length (response_units m) \<le> n"
  shows "\<exists>f b'. drain (\<lambda>f b. response_formatHeaders f b m) n new_response_formatter b =
      (concat (response_units m), ESB_SUCCESS, f, b') \<and>
    (has_flag (fmtState f) ES_FORMATTING_CHUNKED_BODY \<longleftrightarrow> (\<exists>h \<in> set (headers m). asks_chunked h))"
proof -
  obtain f b' where d: "drain (\<lambda>f b. response_formatHeaders f b m) n new_response_formatter b =
      (concat (response_units m), ESB_SUCCESS, f, b')" "response_at m [] f"
    using response_output.drain_all [OF response_start [OF assms(1)] response_units_ne assms(2-4)] by blast
  have "fields_done (headers m) f"
    using d(2) message_at_done unfolding response_at_def by blast
  then show ?thesis
    using d(1) by (auto simp: fields_done_def)
qed

theorem response_formatted_whole_witness:
  "\<exists>f b'. drain (\<lambda>f b. response_formatHeaders f b sample_response) 6 new_response_formatter small_buffer =
      (concat (response_units sample_response), ESB_SUCCESS, f, b') \<and>
    (has_flag (fmtState f) ES_FORMATTING_CHUNKED_BODY \<longleftrightarrow> (\<exists>h \<in> set (headers sample_response). asks_chunked h))"
  by (rule response_formatted_whole) code_simp+

text \<open>C27. A single call writes whole units only: with the units \<open>us\<close> still to write it writes the
  longest prefix of them that fits, answers ESB_SUCCESS exactly if that was all, and otherwise
  ESB_AGAIN with less room left than the next unit needs.\<close>

theorem request_call_writes_longest_prefix:
  assumes "request_at m us f" "us \<noteq> []" "buf_inv b" "marked b"
  shows "\<exists>e f' b' n. request_formatHeaders f b m = (e, f', b') \<and> n \<le> length us \<and>
    unread b' = unread b @ concat (take n us) \<and> request_at m (drop n us) f' \<and>
    (if n = length us then e = ESB_SUCCESS else e = ESB_AGAIN \<and> room b' < length (us ! n))"
proof -
  obtain e f' b' n where g: "request_formatHeaders f b m = (e, f', b')" "n \<le> length us"
    "wrote b (concat (take n us)) b'" "request_at m (drop n us) f'"
    "if n = length us then e = ESB_SUCCESS else e = ESB_AGAIN \<and> room b' < length (us ! n)"
    using request_output.step_greedy [OF assms] unfolding greedy_def by blast
  then show ?thesis
    using wrote_room(3) [OF assms(3) g(3)] by blast
qed

theorem request_call_writes_longest_prefix_witness:
  "\<exists>e f' b' n. request_formatHeaders new_request_formatter small_buffer sample_request = (e, f', b') \<and>
    n \<le> length (request_units sample_request) \<and>
    unread b' = unread small_buffer @ concat (take n (request_units sample_request)) \<and>
    request_at sample_request (drop n (request_units sample_request)) f' \<and>
    (if n = length (request_units sample_request) then e = ESB_SUCCESS
     else e = ESB_AGAIN \<and> room b' < length (request_units sample_request ! n))"
proof (rule request_call_writes_longest_prefix)
  show "request_at sample_request (request_units sample_request) new_request_formatter"
    by (rule request_start) code_simp
qed code_simp+

text \<open>C15. A chunked body that fits the buffer is read back as it was written: the reader's loop
  returns the data of all chunks, and skipping the trailer leaves the buffer empty.\<close>

theorem chunked_body_round_trip:
  assumes "chunked_output f" "buf_inv b" "unread b = []" "cap b \<le> 2 ^ 27"
    and "[] \<notin> set ds" "length (chunked_text ds) + 12 \<le> room b" "chunk_start p" "length ds < n"
  shows "\<exists>f' b1 p1 b2 p2 b3. write_body f b ds = (ESB_SUCCESS, f', b1) \<and>
    read_body n p b1 = (concat ds, ESB_SUCCESS, p1, b2) \<and> skipTrailer p1 b2 = (ESB_SUCCESS, p2, b3) \<and>
    unread b3 = [] \<and> has_flag (msgState p2) ES_BODY_PARSE_COMPLETE"
  by (rule chunked_round_trip [OF assms]) blast

theorem chunked_body_round_trip_witness:
  "\<exists>f' b1 p1 b2 p2 b3.
    write_body (new_response_formatter\<lparr>fmtState := 40\<rparr>) empty_buffer [asc ''hello'', asc '' world, again''] =
      (ESB_SUCCESS, f', b1) \<and>
    read_body 3 (response_parser0\<lparr>msgState := 104\<rparr>) b1 =
      (concat [asc ''hello'', asc '' world, again''], ESB_SUCCESS, p1, b2) \<and>
    skipTrailer p1 b2 = (ESB_SUCCESS, p2, b3) \<and>
    unread b3 = [] \<and> has_flag (msgState p2) ES_BODY_PARSE_COMPLETE"
  by (rule chunked_body_round_trip) code_simp+

end
