(* ===== verification/BufferQueue.thy ===== *)
theory BufferQueue
  imports Buffer
begin

text \<open>
  The contract of \<open>ESB::Buffer\<close> towards the parsers, formatters and sockets that share one: a queue
  of octets with a fixed number of places, of which \<open>free\<close> can still be filled and \<open>gone\<close> have been
  read but not reclaimed. The operations of \<open>Buffer\<close> refine it, over any sequence of calls.
\<close>

section \<open>The abstract queue\<close>

datatype buffer_call =
  Put u8 | Get | Skip u32 | Compact | Clear | Receive "u8 list" | Send nat

record queue =
  free :: nat
  gone :: nat
  content :: "u8 list"

fun queue_call :: "buffer_call \<Rightarrow> queue \<Rightarrow> u8 list \<times> queue" where
  "queue_call (Put c) q =
     ([], if free q = 0 then q else q\<lparr>free := free q - 1, content := content q @ [c]\<rparr>)"
| "queue_call Get q =
     (case content q of
        [] \<Rightarrow> ([0], q)
      | c # cs \<Rightarrow> ([c], q\<lparr>gone := gone q + 1, content := cs\<rparr>))"
| "queue_call (Skip n) q =
     (let k = min (unat n) (length (content q)) in ([], q\<lparr>gone := gone q + k, content := drop k (content q)\<rparr>))"
| "queue_call Compact q = ([], q\<lparr>free := free q + gone q, gone := 0\<rparr>)"
| "queue_call Clear q = ([], \<lparr>free = free q + gone q + length (content q), gone = 0, content = []\<rparr>)"
| "queue_call (Receive bs) q =
     (let new = take (free q) bs in ([], q\<lparr>free := free q - length new, content := content q @ new\<rparr>))"
| "queue_call (Send n) q =
     (let k = min n (length (content q)) in
      (take k (content q),
       if k = 0 then q else \<lparr>free = free q + gone q + k, gone = 0, content = drop k (content q)\<rparr>))"

fun queue_calls :: "buffer_call list \<Rightarrow> queue \<Rightarrow> u8 list \<times> queue" where
  "queue_calls [] q = ([], q)"
| "queue_calls (c # cs) q =
     (let (out, q') = queue_call c q; (outs, q'') = queue_calls cs q' in (out @ outs, q''))"

section \<open>The same calls on a buffer\<close>

text \<open>
  \<open>Receive\<close> and \<open>Send\<close> are the two calls that a connected socket makes for the kernel, which
  delivers at most \<open>writable()\<close> octets and takes at most \<open>readable()\<close>.
\<close>

fun apply_call :: "buffer_call \<Rightarrow> buffer \<Rightarrow> u8 list \<times> buffer" where
  "apply_call (Put c) b = ([], putNext b c)"
| "apply_call Get b = (let (c, b') = buf_next b in ([c], b'))"
| "apply_call (Skip n) b = ([], buf_skip b n)"
| "apply_call Compact b = ([], snd (compact b))"
| "apply_call Clear b = ([], buf_clear b)"
| "apply_call (Receive bs) b = ([], receive b (take (unat (writable b)) bs))"
| "apply_call (Send n) b =
     (let k = min n (unat (readable b)) in (take k (unread b), send b (of_nat k)))"

fun apply_calls :: "buffer_call list \<Rightarrow> buffer \<Rightarrow> u8 list \<times> buffer" where
  "apply_calls [] b = ([], b)"
| "apply_calls (c # cs) b =
     (let (out, b') = apply_call c b; (outs, b'') = apply_calls cs b' in (out @ outs, b''))"

section \<open>Refinement\<close>

definition queue_of :: "buffer \<Rightarrow> queue" where
  "queue_of b = \<lparr>free = room b, gone = unat (rdPos b), content = unread b\<rparr>"

text \<open>\<open>Buffer::skip\<close> adds in 32 bits: it needs the sum of the position and the argument to fit.\<close>

definition no_wrap :: "u32 \<Rightarrow> buffer_call \<Rightarrow> bool" where
  "no_wrap n c \<longleftrightarrow> (case c of Skip k \<Rightarrow> uint n + uint k < 2 ^ 32 | _ \<Rightarrow> True)"

lemma no_wrap_Skip: "no_wrap n (Skip k) \<longleftrightarrow> unat n + unat k < 2 ^ 32"
  unfolding no_wrap_def by (simp add: uint_nat del: of_nat_unat) linarith

lemma unread_setRead:
  assumes "buf_inv b" "n \<le> length (unread b)"
  shows "buf_inv (b\<lparr>rdPos := rdPos b + of_nat n\<rparr>)" "unat (rdPos b + of_nat n) = unat (rdPos b) + n"
    "unread (b\<lparr>rdPos := rdPos b + of_nat n\<rparr>) = drop n (unread b)" "rdPos b + of_nat n \<le> wrPos b"
proof -
  note D = buf_invD [OF assms(1)]
  have n: "n \<le> unat (wrPos b) - unat (rdPos b)"
    using assms by (simp add: length_unread unat_readable)
  then have le: "unat (rdPos b) + n \<le> unat (wrPos b)"
    using D(6) by linarith
  also have "unat (wrPos b) < 2 ^ 32"
    using unsigned_less [where 'a = nat, of "wrPos b"] by simp
  finally have lt: "unat (rdPos b) + n < 2 ^ 32" .
  then show u: "unat (rdPos b + of_nat n) = unat (rdPos b) + n"
    by (simp add: unat_word_ariths unat_of_nat)
  then show w: "rdPos b + of_nat n \<le> wrPos b"
    using le by (simp add: word_le_nat_alt)
  then show inv: "buf_inv (b\<lparr>rdPos := rdPos b + of_nat n\<rparr>)"
    using assms(1) by (simp add: buf_inv_def)
  show "unread (b\<lparr>rdPos := rdPos b + of_nat n\<rparr>) = drop n (unread b)"
    using inv assms(1) u by (simp add: unread_written written_def add.commute)
qed

lemma queue_of_skip:
  assumes "buf_inv b" "unat (cap b) + unat n < 2 ^ 32"
  defines "k \<equiv> min (unat n) (length (unread b))"
  shows "queue_of (buf_skip b n) = \<lparr>free = room b, gone = unat (rdPos b) + k, content = drop k (unread b)\<rparr>"
proof -
  note D = buf_invD [OF assms(1)]
  have len: "length (unread b) = unat (wrPos b) - unat (rdPos b)"
    using assms(1) by (simp add: length_unread unat_readable)
  have "unat (rdPos b) + unat n < 2 ^ 32"
    using assms(2) D(6,7) by linarith
  then have u: "unat (rdPos b + n) = unat (rdPos b) + unat n"
    by (simp add: unat_word_ariths)
  have "buf_skip b n = b\<lparr>rdPos := rdPos b + of_nat k\<rparr>"
  proof (cases "unat n \<le> length (unread b)")
    case True
    then have "\<not> wrPos b < rdPos b + n"
      using u len D(6) by (simp add: word_less_nat_alt)
    then show ?thesis
      using True by (simp add: buf_skip_def k_def)
  next
    case False
    then have gt: "wrPos b < rdPos b + n"
      using u len D(6) by (simp add: word_less_nat_alt)
    have "unat (rdPos b + of_nat k) = unat (wrPos b)"
      using unread_setRead(2) [OF assms(1), of k] False len D(6) by (simp add: k_def)
    then have "rdPos b + of_nat k = wrPos b"
      by (simp add: word_unat_eq_iff)
    then show ?thesis
      using gt by (simp add: buf_skip_def)
  qed
  then show ?thesis
    using unread_setRead [OF assms(1), of k] by (simp add: queue_of_def k_def)
qed

lemma queue_of_compact:
  "buf_inv b \<Longrightarrow> queue_of (snd (compact b)) = \<lparr>free = room b + unat (rdPos b), gone = 0, content = unread b\<rparr>"
  by (simp add: queue_of_def compact_unread compact_room) (simp add: compact_def Let_def)

lemma cap_compact: "cap (snd (compact b)) = cap b"
  by (simp add: compact_def Let_def)

lemma queue_of_receive:
  "buf_inv b \<Longrightarrow> length bs \<le> room b \<Longrightarrow>
    queue_of (receive b bs) = \<lparr>free = room b - length bs, gone = unat (rdPos b), content = unread b @ bs\<rparr>"
  using unread_receive [of b bs] room_receive [of b bs] by (simp add: queue_of_def fits_def)

lemma queue_of_clear:
  "buf_inv b \<Longrightarrow> queue_of (buf_clear b) =
    \<lparr>free = room b + unat (rdPos b) + length (unread b), gone = 0, content = []\<rparr>"
  using buf_invD(6,7) [of b]
  by (simp add: queue_of_def room_clear room_eq length_unread unat_readable) (simp add: buf_clear_def)

lemma send_eq:
  assumes "buf_inv b" "k \<le> length (unread b)" "0 < k"
  shows "send b (of_nat k) = snd (compact (b\<lparr>rdPos := rdPos b + of_nat k\<rparr>))"
proof -
  have "unat (of_nat k :: u32) = k"
    using assms(2) unsigned_less [where 'a = nat, of "readable b"]
    by (simp add: unat_of_nat length_unread assms(1))
  then have "(of_nat k :: u32) \<noteq> 0"
    using assms(3) by auto
  moreover have "\<not> cap b < rdPos b + of_nat k"
    using unread_setRead(4) [OF assms(1,2)] buf_invD(3) [OF assms(1)] by simp
  ultimately show ?thesis
    by (simp add: send_def setReadPosition_def)
qed

lemma queue_of_send:
  assumes "buf_inv b" "k \<le> length (unread b)"
  shows "queue_of (send b (of_nat k)) =
    (if k = 0 then queue_of b else \<lparr>free = room b + unat (rdPos b) + k, gone = 0, content = drop k (unread b)\<rparr>)"
  using queue_of_compact [OF unread_setRead(1) [OF assms]] unread_setRead [OF assms] send_eq [OF assms]
  by (cases "k = 0") (simp_all add: send_def)

lemma send_keeps:
  assumes "buf_inv b" "k \<le> length (unread b)"
  shows "buf_inv (send b (of_nat k))" "cap (send b (of_nat k)) = cap b"
  using compact_inv [OF unread_setRead(1) [OF assms]] send_eq [OF assms] assms(1)
  by (cases "k = 0"; simp add: send_def cap_compact)+

lemma apply_call_refines:
  assumes "buf_inv b" "no_wrap (cap b) c"
  shows "fst (apply_call c b) = fst (queue_call c (queue_of b))" (is ?out)
    "queue_of (snd (apply_call c b)) = snd (queue_call c (queue_of b))" (is ?state)
    "buf_inv (snd (apply_call c b)) \<and> cap (snd (apply_call c b)) = cap b" (is ?keeps)
proof -
  have room: "unat (writable b) = room b"
    by (simp add: room_def)
  have len: "unat (readable b) = length (unread b)"
    using assms(1) by (simp add: length_unread)
  have "?out \<and> ?state \<and> ?keeps"
  proof (cases c)
    case (Put x)
    have "queue_of (putNext b x) =
      (if room b = 0 then queue_of b else (queue_of b)\<lparr>free := room b - 1, content := unread b @ [x]\<rparr>)"
      using assms(1) by (simp add: queue_of_def room_putNext unread_putNext)
    then show ?thesis
      using Put assms(1) by (auto simp: queue_of_def)
  next
    case Get
    show ?thesis
    proof (cases "isReadable b")
      case True
      then show ?thesis
        using Get assms(1) unread_next [OF assms(1) True] buf_next_inv [OF assms(1)] isReadable_lt [OF assms(1)]
        by (auto simp: queue_of_def unat_add_1_less buf_next_def room_def writable_def split: list.splits)
    next
      case False
      then show ?thesis
        using Get assms(1) by (simp add: queue_of_def buf_next_def isReadable_unread)
    qed
  next
    case (Skip n)
    then show ?thesis
      using no_wrap_Skip [of "cap b" n] assms queue_of_skip [OF assms(1), of n] buf_skip_inv [OF assms(1), of n]
      by (simp add: Let_def) (simp add: queue_of_def buf_skip_def)
  next
    case Compact
    then show ?thesis
      using queue_of_compact [OF assms(1)] compact_inv [OF assms(1)] cap_compact [of b]
      by (simp add: queue_of_def)
  next
    case Clear
    then show ?thesis
      using assms queue_of_clear [OF assms(1)] by (auto simp: queue_of_def)
  next
    case (Receive bs)
    let ?bs = "take (room b) bs"
    have "queue_of (receive b ?bs) =
      \<lparr>free = room b - length ?bs, gone = unat (rdPos b), content = unread b @ ?bs\<rparr>"
      by (rule queue_of_receive [OF assms(1)]) simp
    moreover have "buf_inv (receive b ?bs)"
      by (rule receive_inv) (simp add: fits_def assms(1))
    ultimately show ?thesis
      using Receive room by (simp add: queue_of_def Let_def)
  next
    case (Send n)
    let ?k = "min n (length (unread b))"
    show ?thesis
      using Send len queue_of_send [OF assms(1), of ?k] send_keeps [OF assms(1), of ?k]
      by (cases n; cases "unread b") (simp_all add: Let_def queue_of_def)
  qed
  then show ?out ?state ?keeps
    by auto
qed

lemma apply_calls_refine:
  "buf_inv b \<Longrightarrow> \<forall>c \<in> set cs. no_wrap (cap b) c \<Longrightarrow>
    fst (apply_calls cs b) = fst (queue_calls cs (queue_of b)) \<and>
    queue_of (snd (apply_calls cs b)) = snd (queue_calls cs (queue_of b)) \<and>
    buf_inv (snd (apply_calls cs b)) \<and> cap (snd (apply_calls cs b)) = cap b"
proof (induction cs arbitrary: b)
  case (Cons c cs)
  note r = apply_call_refines [OF Cons.prems(1), of c]
  obtain out b' where b': "apply_call c b = (out, b')"
    by (cases "apply_call c b")
  have q: "queue_call c (queue_of b) = (out, queue_of b')" "buf_inv b'" "cap b' = cap b"
    using r b' Cons.prems(2) by (auto simp: prod_eq_iff)
  show ?case
    using Cons.IH [OF q(2)] Cons.prems(2) q b' by (auto simp: Let_def split: prod.splits)
qed simp

end
