(* ===== verification/CodecProperties.thy ===== *)
theory CodecProperties
  imports BufferQueue ChunkedBody ParserProperties "HOL-Library.Code_Target_Nat"
begin

text \<open>
  What the shared buffer and the codecs on it promise: the buffer is a bounded queue of octets,
  integers and escapes are read back as they were written, and a chunk that was begun can always be
  ended.
\<close>

section \<open>The buffer is a bounded queue\<close>

definition calls_sample :: "buffer_call list" where
  "calls_sample = [Receive (asc ''abcdef''), Get, Skip 1, Compact, Put 33, Send 2, Clear, Put 63, Get]"

text \<open>C16. Any sequence of calls of the operations of \<open>Buffer\<close>, with the deliveries and the takes of the
  kernel between them, answers the octets of the abstract queue and ends in the state of that queue,
  as long as no argument of \<open>skip\<close> makes the 32-bit sum wrap; the invariant and the capacity stay.\<close>

theorem buffer_refines_queue:
  assumes "buf_inv b" "\<forall>c \<in> set cs. no_wrap (cap b) c"
  shows "fst (apply_calls cs b) = fst (queue_calls cs (queue_of b)) \<and>
    queue_of (snd (apply_calls cs b)) = snd (queue_calls cs (queue_of b)) \<and>
    buf_inv (snd (apply_calls cs b)) \<and> cap (snd (apply_calls cs b)) = cap b"
  by (rule apply_calls_refine [OF assms])

theorem buffer_refines_queue_witness:
  "fst (apply_calls calls_sample empty_buffer) = fst (queue_calls calls_sample (queue_of empty_buffer)) \<and>
    queue_of (snd (apply_calls calls_sample empty_buffer)) =
      snd (queue_calls calls_sample (queue_of empty_buffer)) \<and>
    buf_inv (snd (apply_calls calls_sample empty_buffer)) \<and>
    cap (snd (apply_calls calls_sample empty_buffer)) = cap empty_buffer"
  by (rule buffer_refines_queue) code_simp+

text \<open>Without that bound \<open>skip\<close> goes backwards: an argument close to $2^{32}$ makes octets
  unread again that had been read.\<close>

theorem skip_wraps:
  "let b = buf_skip (receive empty_buffer (asc ''ab'')) 2
   in unread b = [] \<and> unread (buf_skip b 0xFFFFFFFF) = asc ''b''"
  by code_simp

section \<open>Integers and escapes\<close>

text \<open>A number formatted in base 10 is parsed back to itself.\<close>

theorem integer_round_trip:
  assumes "buf_inv b" "unread b = []" "0 < unat n" "10 * unat n \<le> 2147483647"
    and "digit_count 10 (unat n) \<le> room b"
  shows "\<exists>b'. FormatInteger b n 10 = (ESB_SUCCESS, b') \<and>
    ParseInteger (Some (unread b')) old = (ESB_SUCCESS, n)"
proof -
  let ?k = "digit_count 10 (unat n)"
  let ?b = "put_all b (digits 10 ?k (unat n))"
  have "FormatInteger b n (int 10) = (ESB_SUCCESS, ?b)"
    using FormatInteger_digits [of n 10 b] assms by simp
  moreover have "unread ?b = digits 10 ?k (unat n)"
    using assms by (simp add: unread_put_all)
  moreover have "ParseInteger (Some (digits 10 ?k (unat n))) old = (ESB_SUCCESS, of_nat (unat n))"
    using digit_count_bound [of 10 "unat n"] assms(3,4) by (intro ParseInteger_digits) auto
  ultimately show ?thesis
    by simp
qed

theorem integer_round_trip_witness:
  "\<exists>b'. FormatInteger empty_buffer 80443 10 = (ESB_SUCCESS, b') \<and>
    ParseInteger (Some (unread b')) 0 = (ESB_SUCCESS, 80443)"
  by (rule integer_round_trip) code_simp+

lemma DecodeEscape_hex:
  assumes "buf_inv b" "unread b = PERCENT # h # l # rest" "IsHex h" "IsHex l"
  shows "\<exists>b'. DecodeEscape b old = (ESB_SUCCESS, hex_value h * 16 + hex_value l, b') \<and> unread b' = rest"
proof -
  obtain b1 where b1: "buf_next b = (PERCENT, b1)" "buf_inv b1" "unread b1 = h # l # rest"
    using assms(1,2) by (metis isReadable_unread list.discI list.inject unread_nextE)
  obtain b2 where b2: "buf_next b1 = (h, b2)" "buf_inv b2" "unread b2 = l # rest"
    using b1(2,3) by (metis isReadable_unread list.discI list.inject unread_nextE)
  obtain b3 where b3: "buf_next b2 = (l, b3)" "unread b3 = rest"
    using b2(2,3) by (metis isReadable_unread list.discI list.inject unread_nextE)
  have "\<not> 3 > readable b"
    using assms(2) length_unread [OF assms(1)] by (simp add: word_less_nat_alt)
  then show ?thesis
    using assms(3,4) b3(2) by (simp add: DecodeEscape_def Let_def b1 b2 b3)
qed

text \<open>Every octet but NUL that is written as an escape is read back, and exactly its three octets
  are consumed.\<close>

theorem escape_round_trip:
  assumes "buf_inv b" "unread b = []" "3 \<le> room b" "c \<noteq> 0"
  shows "\<exists>b' b''. EncodeEscape b c = (ESB_SUCCESS, b') \<and> DecodeEscape b' old = (ESB_SUCCESS, c, b'') \<and>
    unread b'' = []"
proof -
  define hi lo where d: "hi = drop_bit 4 (0xF0 AND c)" "lo = 0x0F AND c"
  let ?b = "put_all b [PERCENT, hex_digit hi, hex_digit lo]"
  have E: "EncodeEscape b c = (ESB_SUCCESS, ?b)"
    using assms(3,4)
    by (simp add: EncodeEscape_def put_all_def Let_def word_less_nat_alt d flip: room_def)
  have "buf_inv ?b" "unread ?b = [PERCENT, hex_digit hi, hex_digit lo]"
    using assms by (auto simp: unread_put_all)
  from DecodeEscape_hex [OF this] obtain b' where
    "DecodeEscape ?b old = (ESB_SUCCESS, hi * 16 + lo, b')" "unread b' = []"
    using hex_digit_value [OF nibbles(1) [of c]] hex_digit_value [OF nibbles(2) [of c]] d by metis
  then show ?thesis
    using E nibbles(3) [of c] d by auto
qed

theorem escape_round_trip_witness:
  "\<exists>b' b''. EncodeEscape empty_buffer 0x2F = (ESB_SUCCESS, b') \<and>
    DecodeEscape b' 0 = (ESB_SUCCESS, 0x2F, b'') \<and> unread b'' = []"
  by (rule escape_round_trip) code_simp+

section \<open>Room for a chunk\<close>

text \<open>C30. \<open>beginChunk\<close> never offers more than asked for nor more than fits: behind the size line it has
  written there is room for the data it offers and for the line end of \<open>endChunk\<close>.\<close>

theorem begun_chunk_fits:
  assumes "buf_inv b" "cap b \<le> 2 ^ 27" "12 < room b" "0 < req"
  shows "\<exists>b' n. beginChunk f b req old = (ESB_SUCCESS, f, b', n) \<and> 0 < n \<and> n \<le> req \<and>
    buf_inv b' \<and> unread b' = unread b @ size_text (unat n) @ [CR, LF] \<and> unat n + 2 \<le> room b'"
proof -
  let ?n = "min (unat req) (room b - 12)"
  obtain b' where b': "beginChunk f b req old = (ESB_SUCCESS, f, b', of_nat ?n)" "buf_inv b'"
    "unread b' = unread b @ size_text ?n @ [CR, LF]" "?n + 2 \<le> room b'"
    using beginChunk_text [OF assms, of f old] by blast
  have lt: "?n < 2 ^ 64"
    using unsigned_less [where 'a = nat, of req] by simp
  then have un: "unat (of_nat ?n :: u64) = ?n"
    by (simp add: unat_of_nat)
  then have "0 < (of_nat ?n :: u64)" "(of_nat ?n :: u64) \<le> req"
    using assms(3,4) by (simp_all only: word_less_nat_alt word_le_nat_alt) simp_all
  then show ?thesis
    using b' un by metis
qed

theorem begun_chunk_fits_witness:
  "\<exists>b' n. beginChunk new_response_formatter empty_buffer 40 0 = (ESB_SUCCESS, new_response_formatter, b', n) \<and>
    0 < n \<and> n \<le> 40 \<and> buf_inv b' \<and>
    unread b' = unread empty_buffer @ size_text (unat n) @ [CR, LF] \<and> unat n + 2 \<le> room b'"
  by (rule begun_chunk_fits) code_simp+

end
