(* ===== verification/SocketEnv.thy ===== *)
theory SocketEnv
  imports Buffer
begin

text \<open>
  What the two HTTP sockets, \<open>ES::HttpServerSocket\<close> and \<open>ES::HttpClientSocket\<close>
  (data-plane/http1/source), have in common: the environment they call, the body callbacks of their
  handlers with the adaptors of the synchronous calls, and the loops over their buffers, which the two
  classes repeat word for word.

  The environment is the multiplexer and its pools, the allocator and the connected socket with the
  kernel or the TLS library behind it. It works on a world \<open>'w\<close>; \<open>'t\<close> are transactions, \<open>'s\<close> sockets.
\<close>

section \<open>The environment\<close>

datatype recv_result = Received "u8 list" | RecvError error

datatype send_result = Sent u32 | SendError error

record ('w, 'a, 't, 's) socket_env =
  isShutdown :: "'w \<Rightarrow> bool"
  acquireBuffer :: "'w \<Rightarrow> buffer option \<times> 'w"
  releaseBuffer :: "buffer \<Rightarrow> 'w \<Rightarrow> 'w"
  createTransaction :: "'w \<Rightarrow> 't option \<times> 'w"
  destroyTransaction :: "'t \<Rightarrow> 'w \<Rightarrow> 'w"
  updateMultiplexedSocket :: "'w \<Rightarrow> 's \<Rightarrow> error \<times> 'w \<times> 's"
  removeMultiplexedSocket :: "'w \<Rightarrow> 's \<Rightarrow> error \<times> 'w \<times> 's"
  allocate :: "'a alloc_fn"
  resetAllocator :: "'a \<Rightarrow> 'a"
  sockPeer :: "'w \<Rightarrow> u8 list"
  sockConnected :: "'w \<Rightarrow> bool"
  sockWantRead :: "'w \<Rightarrow> bool"
  sockWantWrite :: "'w \<Rightarrow> bool"
  sockClose :: "'w \<Rightarrow> 'w"
  sockReceive :: "nat \<Rightarrow> 'w \<Rightarrow> recv_result \<times> 'w"
  sockSend :: "u8 list \<Rightarrow> 'w \<Rightarrow> send_result \<times> 'w"

text \<open>
  The part of a handler that a synchronous call replaces by an adaptor with a state \<open>'c\<close> of its own:
  \<open>consumeRequestBody\<close>, \<open>offerResponseBody\<close> and \<open>produceResponseBody\<close> of a server handler,
  \<open>consumeResponseBody\<close>, \<open>offerRequestBody\<close> and \<open>produceRequestBody\<close> of a client handler. The first
  answers how many octets it has taken, the last the octets it has written to the place it was given.
\<close>

record ('c, 'w, 's) body_handler =
  consume_body :: "u8 list \<Rightarrow> u64 \<Rightarrow> 'c \<Rightarrow> 'w \<Rightarrow> 's \<Rightarrow> error \<times> u64 \<times> 'c \<times> 'w \<times> 's"
  offer_body :: "'c \<Rightarrow> 'w \<Rightarrow> 's \<Rightarrow> error \<times> u64 \<times> 'c \<times> 'w \<times> 's"
  produce_body :: "u64 \<Rightarrow> 'c \<Rightarrow> 'w \<Rightarrow> 's \<Rightarrow> error \<times> u8 list \<times> 'c \<times> 'w \<times> 's"

section \<open>The adaptors of the synchronous calls\<close>

text \<open>\<open>HttpResponseBodyProducer\<close>, \<open>HttpRequestBodyProducer\<close>: the state is \<open>_bytesProduced\<close>.\<close>

definition body_producer :: "u8 list \<Rightarrow> u64 \<Rightarrow> (u64, 'w, 's) body_handler" where
  "body_producer buf sz =
     \<lparr>consume_body = (\<lambda>_ _ c w s. (ESB_OPERATION_NOT_SUPPORTED, 0, c, w, s)),
      offer_body = (\<lambda>c w s.
        if sz = 0 then (ESB_SUCCESS, 0, c, w, s)
        else (if sz - c = 0 then ESB_BREAK else ESB_SUCCESS, sz - c, c, w, s)),
      produce_body = (\<lambda>n c w s.
        if n > sz - c then (ESB_INVALID_ARGUMENT, [], c, w, s)
        else (ESB_SUCCESS, take (unat n) (drop (unat c) buf), c + n, w, s))\<rparr>"

text \<open>
  \<open>HttpRequestBodyConsumer\<close>, \<open>HttpResponseBodyConsumer\<close>: the octets copied, \<open>_bytesConsumed\<close> and
  \<open>_bytesOffered\<close>.
\<close>

type_synonym consumer_state = "u8 list \<times> u64 \<times> u64"

definition body_consumer :: "u64 \<Rightarrow> (consumer_state, 'w, 's) body_handler" where
  "body_consumer sz =
     \<lparr>consume_body = (\<lambda>body offered (copied, consumed, _) w s.
        let n = min (sz - consumed) offered in
        if offered = 0 then (ESB_SUCCESS, 0, (copied, consumed, offered), w, s)
        else if n = 0 then (ESB_BREAK, 0, (copied, consumed, offered), w, s)
        else (ESB_SUCCESS, n, (copied @ take (unat n) body, consumed + n, offered), w, s)),
      offer_body = (\<lambda>c w s. (ESB_OPERATION_NOT_SUPPORTED, 0, c, w, s)),
      produce_body = (\<lambda>_ c w s. (ESB_OPERATION_NOT_SUPPORTED, [], c, w, s))\<rparr>"

section \<open>Buffers\<close>

text \<open>The read from the socket at the end of \<open>fillReceiveBuffer\<close>.\<close>

definition refill ::
  "('w, 'a, 't, 's, 'z) socket_env_scheme \<Rightarrow> buffer \<Rightarrow> 'w \<Rightarrow> error \<times> 'w \<times> buffer" where
  "refill env b w =
     (case (if isWritable b then (True, b) else compact b) of (room_left, b1) \<Rightarrow>
        if \<not> room_left then (ESB_OVERFLOW, w, b1)
        else
          case sockReceive env (unat (writable b1)) w of
            (RecvError e, w1) \<Rightarrow> (e, w1, b1)
          | (Received bs, w1) \<Rightarrow>
              if bs = [] then (ESB_CLOSED, w1, b1) else (ESB_SUCCESS, w1, receive b1 bs))"

partial_function (option) flush_loop ::
  "('w, 'a, 't, 's, 'z) socket_env_scheme \<Rightarrow> bool \<Rightarrow> 'w \<Rightarrow> buffer \<Rightarrow> (error \<times> 'w \<times> buffer) option" where
  "flush_loop env flushed w b =
     (if isShutdown env w \<or> \<not> isReadable b
      then Some (if isShutdown env w then ESB_SHUTDOWN else ESB_SUCCESS, w, b)
      else
        case sockSend env (unread b) w of
          (SendError e, w1) \<Rightarrow>
            Some (if e = ESB_AGAIN then (if flushed then ESB_SUCCESS else ESB_AGAIN) else e, w1, b)
        | (Sent n, w1) \<Rightarrow> flush_loop env True w1 (send b n))"

declare flush_loop.simps [code]

text \<open>
  The octets the handler stores behind the write position, then
  \<open>setWritePosition(writePosition() + chunkSize)\<close>, whose argument is truncated to 32 bits.
\<close>

definition store_body :: "u8 list \<Rightarrow> u64 \<Rightarrow> buffer \<Rightarrow> buffer" where
  "store_body os n b =
     (let k = unat (wrPos b); new = take (unat n) os in
      setWritePosition
        (b\<lparr>octets := take k (octets b) @ new @ drop (k + length new) (octets b)\<rparr>)
        (ucast (ucast (wrPos b) + n)))"

text \<open>ESB_AGAIN from the multiplexer is not passed on as such.\<close>

definition relay_error :: "error \<Rightarrow> error" where
  "relay_error e = (if e = ESB_AGAIN then ESB_OTHER_ERROR else e)"

definition after_update ::
  "('w \<Rightarrow> 's \<Rightarrow> error \<times> 'w \<times> 's) \<Rightarrow> bool \<Rightarrow> 'w \<Rightarrow> 's \<Rightarrow> error \<times> 'w \<times> 's" where
  "after_update upd updateMultiplexer w s =
     (if \<not> updateMultiplexer then (ESB_SUCCESS, w, s)
      else case upd w s of (e, w1, s1) \<Rightarrow> (relay_error e, w1, s1))"

section \<open>State words\<close>

text \<open>Masks of a word with bits set and cleared reduce to masks of the word.\<close>

lemmas mask_simps = bit.conj_disj_distrib2 and.assoc

lemma and_mask_clear:
  fixes x m k :: u32
  assumes "k AND m = 0"
  shows "(x AND NOT m) AND k = x AND k"
proof -
  have "x AND k = (x AND k AND m) OR (x AND k AND NOT m)"
    by (simp flip: bit.conj_disj_distrib)
  then show ?thesis
    using assms by (simp add: ac_simps)
qed

lemma mask_mask: "x AND m = v \<Longrightarrow> m AND k = k \<Longrightarrow> x AND k = v AND k" for x :: u32
  by (metis and.assoc)

end
