(* ===== verification/SocketSend.thy ===== *)
theory SocketSend
  imports SocketEnv BufferQueue
begin

text \<open>
  Sending: what \<open>flushSendBuffer\<close> of both sockets does to the octets of the send buffer, for a kernel that
  takes a prefix of what it is offered. \<open>tk w\<close> are the octets taken from this socket so far.
\<close>

definition honest_kernel :: "('w, 'a, 't, 's, 'z) socket_env_scheme \<Rightarrow> ('w \<Rightarrow> u8 list) \<Rightarrow> bool" where
  "honest_kernel env tk \<longleftrightarrow>
     (\<forall>os w r w'. sockSend env os w = (r, w') \<and> length os < 2 ^ 32 \<longrightarrow>
        (case r of
           Sent n \<Rightarrow> unat n \<le> length os \<and> tk w' = tk w @ take (unat n) os
         | SendError e \<Rightarrow> e \<noteq> ESB_SUCCESS \<and> tk w' = tk w))"

text \<open>A kernel that does not answer 0 to a send of something: it takes an octet or fails.\<close>

definition progressing :: "('w, 'a, 't, 's, 'z) socket_env_scheme \<Rightarrow> bool" where
  "progressing env \<longleftrightarrow> (\<forall>os w n w'. sockSend env os w = (Sent n, w') \<and> os \<noteq> [] \<and> length os < 2 ^ 32 \<longrightarrow> 0 < n)"

lemma honest_sent:
  "honest_kernel env tk \<Longrightarrow> sockSend env os w = (Sent n, w') \<Longrightarrow> length os < 2 ^ 32 \<Longrightarrow>
    unat n \<le> length os \<and> tk w' = tk w @ take (unat n) os"
  unfolding honest_kernel_def by (drule spec [of _ os], drule spec [of _ w]) auto

lemma honest_error:
  "honest_kernel env tk \<Longrightarrow> sockSend env os w = (SendError e, w') \<Longrightarrow> length os < 2 ^ 32 \<Longrightarrow>
    e \<noteq> ESB_SUCCESS \<and> tk w' = tk w"
  unfolding honest_kernel_def by (drule spec [of _ os], drule spec [of _ w]) auto

lemma length_unread_less: "buf_inv b \<Longrightarrow> length (unread b) < 2 ^ 32"
  using unsigned_less [where 'a = nat, of "readable b"] by (simp add: length_unread)

lemma send_sent:
  assumes "buf_inv b" "unat n \<le> length (unread b)"
  shows "buf_inv (send b n)" "unread (send b n) = drop (unat n) (unread b)"
proof -
  have n: "of_nat (unat n) = n"
    by simp
  show "buf_inv (send b n)"
    using send_keeps(1) [OF assms] unfolding n .
  show "unread (send b n) = drop (unat n) (unread b)"
    using queue_of_send [OF assms] unfolding n by (auto simp: queue_of_def split: if_splits)
qed

text \<open>
  Whatever the flush answers, the octets taken and those still in the buffer are those there were, in
  order; it answers ESB_AGAIN only if nothing was sent and ESB_SUCCESS only with an empty buffer or
  after sending something (\<open>flushed\<close>).
\<close>

definition flush_accounts ::
  "('w, 'a, 't, 's, 'z) socket_env_scheme \<Rightarrow> ('w \<Rightarrow> u8 list) \<Rightarrow> bool \<Rightarrow> 'w \<Rightarrow> buffer \<Rightarrow> error \<times> 'w \<times> buffer \<Rightarrow> bool" where
  "flush_accounts env tk fl w b y \<longleftrightarrow>
     (case y of (e, w', b') \<Rightarrow>
        buf_inv b' \<and>
        (\<exists>os. tk w' = tk w @ os \<and> unread b = os @ unread b' \<and>
          (e = ESB_AGAIN \<longrightarrow> \<not> fl \<and> os = []) \<and>
          (e = ESB_SUCCESS \<and> progressing env \<longrightarrow> fl \<or> os \<noteq> [] \<or> unread b' = [])))"

lemma flush_accounts_sent:
  assumes "flush_accounts env tk True w1 (send b n) y" "buf_inv b" "unat n \<le> length (unread b)"
    and "tk w1 = tk w @ take (unat n) (unread b)" "progressing env \<longrightarrow> 0 < n" "unread b \<noteq> []"
  shows "flush_accounts env tk fl w b y"
proof -
  obtain e w' b' where y: "y = (e, w', b')"
    by (cases y) auto
  obtain os where os: "tk w' = tk w1 @ os" "drop (unat n) (unread b) = os @ unread b'" "e \<noteq> ESB_AGAIN" "buf_inv b'"
    using assms(1) send_sent [OF assms(2,3)] y by (auto simp: flush_accounts_def)
  let ?os = "take (unat n) (unread b) @ os"
  have "tk w' = tk w @ ?os" "unread b = ?os @ unread b'"
    using os assms(4) append_take_drop_id [of "unat n" "unread b"] by auto
  moreover have "progressing env \<longrightarrow> ?os \<noteq> []"
    using assms(5,6) by (auto simp: word_less_nat_alt)
  ultimately show ?thesis
    unfolding y flush_accounts_def using os(3,4) by blast
qed

lemma flush_loop_accounts:
  assumes "flush_loop env fl w b = Some y" "honest_kernel env tk" "buf_inv b"
  shows "flush_accounts env tk fl w b y"
proof -
  let ?P = "\<lambda>env' fl w b y. env' = env \<longrightarrow> buf_inv b \<longrightarrow> flush_accounts env tk fl w b y"
  have "?P env fl w b y"
  proof (rule flush_loop.raw_induct [where P = ?P, OF _ assms(1)], intro impI)
    fix f env' fl w b y
    assume IH: "\<And>env' fl w b y. f env' fl w b = Some y \<Longrightarrow> ?P env' fl w b y"
      and round: "(if isShutdown env' w \<or> \<not> isReadable b
        then Some (if isShutdown env' w then ESB_SHUTDOWN else ESB_SUCCESS, w, b)
        else case sockSend env' (unread b) w of
            (Sent n, w1) \<Rightarrow> f env' True w1 (send b n)
          | (SendError e, w1) \<Rightarrow>
              Some (if e = ESB_AGAIN then (if fl then ESB_SUCCESS else ESB_AGAIN) else e, w1, b)) = Some y"
      and env: "env' = env" and inv: "buf_inv b"
    note len = length_unread_less [OF inv]
    obtain r w1 where s: "sockSend env (unread b) w = (r, w1)"
      by (cases "sockSend env (unread b) w")
    show "flush_accounts env tk fl w b y"
    proof (cases "isShutdown env w \<or> \<not> isReadable b")
      case True
      then show ?thesis
        using round env inv by (auto simp: flush_accounts_def isReadable_unread split: if_splits)
    next
      case False
      then have ne: "unread b \<noteq> []"
        using inv by (simp add: isReadable_unread)
      show ?thesis
      proof (cases r)
        case (SendError e)
        then have "e \<noteq> ESB_SUCCESS \<and> tk w1 = tk w"
          using honest_error [OF assms(2) _ len] s by blast
        then show ?thesis
          using round env inv False s SendError by (auto simp: flush_accounts_def split: if_splits)
      next
        case (Sent n)
        have t: "unat n \<le> length (unread b)" "tk w1 = tk w @ take (unat n) (unread b)"
          using honest_sent [OF assms(2) _ len] s Sent by auto
        have "progressing env \<longrightarrow> 0 < n"
          using s Sent ne len by (auto simp: progressing_def)
        moreover have "f env True w1 (send b n) = Some y"
          using round env False s Sent by simp
        then have "flush_accounts env tk True w1 (send b n) y"
          using IH send_sent(1) [OF inv t(1)] by blast
        ultimately show ?thesis
          using flush_accounts_sent [of env tk w1 b n y w fl] inv t ne by blast
      qed
    qed
  qed
  then show ?thesis
    using assms by blast
qed

text \<open>The flush returns.\<close>

lemma flush_loop_returns:
  assumes "honest_kernel env tk" "progressing env" "buf_inv b"
  shows "\<exists>y. flush_loop env fl w b = Some y"
  using assms(3)
proof (induction "length (unread b)" arbitrary: b fl w rule: less_induct)
  case less
  show ?case
  proof (cases "isShutdown env w \<or> \<not> isReadable b")
    case True
    then show ?thesis
      by (subst flush_loop.simps) auto
  next
    case False
    then have ne: "unread b \<noteq> []"
      using less.prems by (simp add: isReadable_unread)
    obtain r w1 where s: "sockSend env (unread b) w = (r, w1)"
      by (cases "sockSend env (unread b) w")
    show ?thesis
    proof (cases r)
      case (SendError e)
      then show ?thesis
        using False s by (subst flush_loop.simps) auto
    next
      case (Sent n)
      have t: "unat n \<le> length (unread b)"
        using honest_sent [OF assms(1) _ length_unread_less [OF less.prems]] s Sent by auto
      have "0 < unat n"
        using assms(2) s Sent ne length_unread_less [OF less.prems] by (auto simp: progressing_def word_less_nat_alt)
      then have "length (unread (send b n)) < length (unread b)"
        using send_sent(2) [OF less.prems t] ne by simp
      then have "\<exists>y. flush_loop env True w1 (send b n) = Some y"
        using less.hyps send_sent(1) [OF less.prems t] by blast
      then show ?thesis
        using False s Sent by (subst flush_loop.simps) auto
    qed
  qed
qed

end
