(* ===== verification/ServerSocket.thy ===== *)
theory ServerSocket
  imports RequestParser MessageFormatter SocketEnv
begin

text \<open>
  \<open>ES::HttpServerSocket\<close> (data-plane/http1/source/ESHttpServerSocket.cpp) and the transaction it
  drives (ESHttpServerTransaction.cpp, http-common/source/ESHttpTransaction.cpp): the state machine
  that receives a request, lets a handler produce the response and sends it.

  What the socket calls is the record \<open>server_env\<close>: the multiplexer and its pools, the allocator and
  the connected socket with the kernel or the TLS library behind it. They work on a world \<open>'w\<close>. The
  callbacks of the application are the record \<open>server_handler\<close>; each may change the world and
  the socket it is given. Debug assertions and log lines are not translated; a NULL transaction
  or buffer that the code would dereference is UNDEFINED_BEHAVIOUR.
  The loops of this component may run forever (a handler or a kernel that always has more), so they
  are partial functions: None means that the call does not return.
\<close>

section \<open>Transactions\<close>

record 'a server_transaction =
  context_of :: u64
  peerAddress :: "u8 list"
  startTime :: int
  request :: http_request
  response :: http_response
  parser :: "'a request_parser"
  formatter :: response_formatter

definition transaction_reset :: "('a \<Rightarrow> 'a) \<Rightarrow> 'a server_transaction \<Rightarrow> 'a server_transaction" where
  "transaction_reset resetAl t =
     t\<lparr>context_of := 0, peerAddress := [],
       parser := (parser t)\<lparr>allocator := resetAl (allocator (parser t)),
                           workingBuffer := buf_clear (workingBuffer (parser t))\<rparr>,
       request := request_reset (request t), response := response_reset (response t), startTime := 0\<rparr>"

definition server_transaction_reset ::
  "('a \<Rightarrow> 'a) \<Rightarrow> 'a server_transaction \<Rightarrow> 'a server_transaction" where
  "server_transaction_reset resetAl t =
     (let t1 = transaction_reset resetAl t
      in t1\<lparr>parser := request_parser_reset (parser t1), formatter := response_formatter_reset (formatter t1)\<rparr>)"

section \<open>The socket\<close>

record 'a server_socket =
  sockState :: u32
  requestsPerConnection :: int
  bodyBytesWritten :: u64
  bytesAvailable :: u64
  transaction :: "'a server_transaction option"
  recvBuffer :: "buffer option"
  sendBuffer :: "buffer option"

abbreviation (input) SERVER_INITIAL_FILL_RECV_BUFFER :: u32 where "SERVER_INITIAL_FILL_RECV_BUFFER \<equiv> 1"
abbreviation (input) SERVER_INITIAL_DRAIN_SEND_BUFFER :: u32 where "SERVER_INITIAL_DRAIN_SEND_BUFFER \<equiv> 2"
abbreviation (input) SERVER_UPDATE_MULTIPLEXER :: u32 where "SERVER_UPDATE_MULTIPLEXER \<equiv> 4"
abbreviation (input) SERVER_ADVANCE_RECV :: u32 where "SERVER_ADVANCE_RECV \<equiv> 8"
abbreviation (input) SERVER_ADVANCE_SEND :: u32 where "SERVER_ADVANCE_SEND \<equiv> 16"

abbreviation (input) SERVER_INACTIVE :: u32 where "SERVER_INACTIVE \<equiv> 1"
abbreviation (input) SERVER_TRANSACTION_BEGIN :: u32 where "SERVER_TRANSACTION_BEGIN \<equiv> 2"
abbreviation (input) SERVER_PARSING_HEADERS :: u32 where "SERVER_PARSING_HEADERS \<equiv> 4"
abbreviation (input) SERVER_PARSING_BODY :: u32 where "SERVER_PARSING_BODY \<equiv> 8"
abbreviation (input) SERVER_SKIPPING_TRAILER :: u32 where "SERVER_SKIPPING_TRAILER \<equiv> 16"
abbreviation (input) SERVER_FORMATTING_HEADERS :: u32 where "SERVER_FORMATTING_HEADERS \<equiv> 32"
abbreviation (input) SERVER_FORMATTING_BODY :: u32 where "SERVER_FORMATTING_BODY \<equiv> 64"
abbreviation (input) SERVER_FLUSHING_BODY :: u32 where "SERVER_FLUSHING_BODY \<equiv> 128"
abbreviation (input) SERVER_TRANSACTION_END :: u32 where "SERVER_TRANSACTION_END \<equiv> 256"
abbreviation (input) SERVER_CANNOT_REUSE_CONNECTION :: u32 where "SERVER_CANNOT_REUSE_CONNECTION \<equiv> 512"
abbreviation (input) SERVER_RECV_PAUSED :: u32 where "SERVER_RECV_PAUSED \<equiv> 1024"
abbreviation (input) SERVER_SEND_PAUSED :: u32 where "SERVER_SEND_PAUSED \<equiv> 2048"
abbreviation (input) SERVER_ABORTED :: u32 where "SERVER_ABORTED \<equiv> 4096"
abbreviation (input) SERVER_LAST_CHUNK_RECEIVED :: u32 where "SERVER_LAST_CHUNK_RECEIVED \<equiv> 8192"
abbreviation (input) SERVER_DEAD :: u32 where "SERVER_DEAD \<equiv> 16384"
abbreviation (input) SERVER_STATE_MASK :: u32 where "SERVER_STATE_MASK \<equiv> 511"
abbreviation (input) SERVER_RECV_STATE_MASK :: u32 where "SERVER_RECV_STATE_MASK \<equiv> 28"
abbreviation (input) SERVER_SEND_STATE_MASK :: u32 where "SERVER_SEND_STATE_MASK \<equiv> 224"

definition new_server_socket :: "'a server_socket" where
  "new_server_socket = \<lparr>sockState = SERVER_TRANSACTION_BEGIN, requestsPerConnection = 0,
     bodyBytesWritten = 0, bytesAvailable = 0, transaction = None, recvBuffer = None, sendBuffer = None\<rparr>"

definition CloseAfterErrorResponse :: bool where
  "CloseAfterErrorResponse = True"

definition in_state :: "'a server_socket \<Rightarrow> u32 \<Rightarrow> bool" where
  "in_state s m \<longleftrightarrow> has_flag (sockState s) m"

definition addFlag :: "u32 \<Rightarrow> 'a server_socket \<Rightarrow> 'a server_socket" where
  "addFlag f s = s\<lparr>sockState := sockState s OR f\<rparr>"

definition clearFlag :: "u32 \<Rightarrow> 'a server_socket \<Rightarrow> 'a server_socket" where
  "clearFlag f s = s\<lparr>sockState := sockState s AND NOT f\<rparr>"

text \<open>
  \<open>stateTransition\<close>: the beginning of a transaction assigns the whole word, every other state keeps
  the flags. A word that is no single state only clears the state.
\<close>

definition stateTransition :: "u32 \<Rightarrow> 'a server_socket \<Rightarrow> 'a server_socket" where
  "stateTransition st s =
     (let new = st AND SERVER_STATE_MASK; cleared = sockState s AND NOT SERVER_STATE_MASK in
      if new = SERVER_TRANSACTION_BEGIN then s\<lparr>sockState := SERVER_TRANSACTION_BEGIN\<rparr>
      else if new \<in> {SERVER_INACTIVE, SERVER_PARSING_HEADERS, SERVER_PARSING_BODY, SERVER_SKIPPING_TRAILER,
                     SERVER_FORMATTING_HEADERS, SERVER_FORMATTING_BODY, SERVER_FLUSHING_BODY,
                     SERVER_TRANSACTION_END}
      then s\<lparr>sockState := cleared OR new\<rparr>
      else s\<lparr>sockState := cleared\<rparr>)"

definition conditionalStateTransition :: "u32 \<Rightarrow> u32 \<Rightarrow> 'a server_socket \<Rightarrow> 'a server_socket" where
  "conditionalStateTransition ifState new s = (if in_state s ifState then stateTransition new s else s)"

definition set_transaction :: "'a server_transaction \<Rightarrow> 'a server_socket \<Rightarrow> 'a server_socket" where
  "set_transaction t s = s\<lparr>transaction := Some t\<rparr>"

section \<open>What the socket uses\<close>

record ('w, 'a) server_env = "('w, 'a, 'a server_transaction, 'a server_socket) socket_env" +
  addAverage :: "int \<Rightarrow> 'w \<Rightarrow> 'w"

datatype end_state =
    ES_HTTP_SERVER_HANDLER_BEGIN | ES_HTTP_SERVER_HANDLER_RECV_REQUEST_HEADERS
  | ES_HTTP_SERVER_HANDLER_RECV_REQUEST_BODY | ES_HTTP_SERVER_HANDLER_SEND_RESPONSE_HEADERS
  | ES_HTTP_SERVER_HANDLER_SEND_RESPONSE_BODY | ES_HTTP_SERVER_HANDLER_END

text \<open>\<open>HttpServerHandler\<close>; \<open>bodyHandler\<close> are its body callbacks.\<close>

record ('w, 'a) server_handler =
  beginTransaction :: "'w \<Rightarrow> 'a server_socket \<Rightarrow> error \<times> 'w \<times> 'a server_socket"
  receiveRequestHeaders :: "'w \<Rightarrow> 'a server_socket \<Rightarrow> error \<times> 'w \<times> 'a server_socket"
  endTransaction :: "end_state \<Rightarrow> 'w \<Rightarrow> 'a server_socket \<Rightarrow> 'w \<times> 'a server_socket"
  bodyHandler :: "(unit, 'w, 'a server_socket) body_handler"

type_synonym ('w, 'a) socket_result = "error \<times> 'w \<times> 'a server_socket"
type_synonym ('c, 'w, 'a) machine_result = "error \<times> 'c \<times> 'w \<times> 'a server_socket"

section \<open>Buffers\<close>

text \<open>\<open>_transaction->response().setStatusCode\<close> and so on: the members a callback or the socket changes.\<close>

definition update_response ::
  "(http_response \<Rightarrow> http_response) \<Rightarrow> 'a server_transaction \<Rightarrow> 'a server_transaction" where
  "update_response f t = t\<lparr>response := f (response t)\<rparr>"

definition fill_buffer ::
  "('w, 'a) server_env \<Rightarrow> buffer \<Rightarrow> 'w \<Rightarrow> 'a server_socket \<Rightarrow> ('w, 'a) socket_result" where
  "fill_buffer env b w s = (case refill env b w of (e, w1, b1) \<Rightarrow> (e, w1, s\<lparr>recvBuffer := Some b1\<rparr>))"

definition fill_with_transaction ::
  "('w, 'a) server_env \<Rightarrow> buffer \<Rightarrow> 'w \<Rightarrow> 'a server_socket \<Rightarrow> ('w, 'a) socket_result" where
  "fill_with_transaction env b w s =
     (case transaction s of
        Some t \<Rightarrow> fill_buffer env b w s
      | None \<Rightarrow>
          (case createTransaction env w of
             (None, w1) \<Rightarrow> (ESB_OUT_OF_MEMORY, releaseBuffer env b w1, s)
           | (Some t, w1) \<Rightarrow> fill_buffer env b w1 (s\<lparr>transaction := Some t\<rparr>)))"

definition fillReceiveBuffer ::
  "('w, 'a) server_env \<Rightarrow> 'w \<Rightarrow> 'a server_socket \<Rightarrow> ('w, 'a) socket_result" where
  "fillReceiveBuffer env w s =
     (case recvBuffer s of
        Some b \<Rightarrow> fill_with_transaction env b w s
      | None \<Rightarrow>
          (case acquireBuffer env w of
             (None, w1) \<Rightarrow> (ESB_OUT_OF_MEMORY, w1, s)
           | (Some b, w1) \<Rightarrow> fill_with_transaction env b w1 (s\<lparr>recvBuffer := Some b\<rparr>)))"

definition flushSendBuffer ::
  "('w, 'a) server_env \<Rightarrow> 'w \<Rightarrow> 'a server_socket \<Rightarrow> ('w, 'a) socket_result option" where
  "flushSendBuffer env w s =
     (case sendBuffer s of
        None \<Rightarrow> Some (UNDEFINED_BEHAVIOUR, w, s)
      | Some b \<Rightarrow>
          if \<not> isReadable b then Some (ESB_OVERFLOW, w, s)
          else map_option (\<lambda>(e, w1, b1). (e, w1, s\<lparr>sendBuffer := Some b1\<rparr>)) (flush_loop env False w b))"

section \<open>Parts of the states\<close>

definition IsHttpError :: "error \<Rightarrow> bool" where
  "IsHttpError e \<longleftrightarrow>
     e \<in> {ES_HTTP_BAD_CRLF, ES_HTTP_BAD_REQUEST_URI_ASTERISK, ES_HTTP_BAD_REQUEST_URI_ABS_PATH,
          ES_HTTP_BAD_REQUEST_URI_QUERY, ES_HTTP_BAD_REQUEST_URI_SCHEME, ES_HTTP_BAD_REQUEST_URI_HOST,
          ES_HTTP_BAD_REQUEST_URI_PORT, ES_HTTP_BAD_REQUEST_METHOD, ES_HTTP_BAD_REQUEST_VERSION,
          ES_HTTP_BAD_REQUEST_FIELD_NAME, ES_HTTP_BAD_REQUEST_FIELD_VALUE, ES_HTTP_BAD_CONTENT_LENGTH,
          ES_HTTP_BAD_INTEGER, ES_HTTP_BAD_REASON_PHRASE, ES_HTTP_BAD_STATUS_CODE,
          ES_HTTP_BAD_REQUEST_URI_FRAGMENT, ES_HTTP_MULTIPART_NOT_SUPPORTED, ES_HTTP_PARSER_JAMMED,
          ES_HTTP_FORMATTER_JAMMED}"

text \<open>A header whose allocation fails is only logged.\<close>

definition add_response_header ::
  "('w, 'a) server_env \<Rightarrow> string \<Rightarrow> string \<Rightarrow> 'a server_transaction \<Rightarrow> 'a server_transaction" where
  "add_response_header env name v t =
     (case addHeader (allocate env) (allocator (parser t)) (response t) (Some (asc name)) (Some (asc v)) of
        (_, al, r) \<Rightarrow> t\<lparr>parser := (parser t)\<lparr>allocator := al\<rparr>, response := r\<rparr>)"

definition setResponse ::
  "('w, 'a) server_env \<Rightarrow> int \<Rightarrow> string \<Rightarrow> 'a server_socket \<Rightarrow> error \<times> 'a server_socket" where
  "setResponse env status reason s =
     (case transaction s of
        None \<Rightarrow> (UNDEFINED_BEHAVIOUR, s)
      | Some t \<Rightarrow>
          let t1 = update_response
                (\<lambda>r. setHasBody (r\<lparr>statusCode := status, reasonPhrase := Some (asc reason)\<rparr>) False) t;
              t2 = add_response_header env ''Content-Length'' ''0'' t1;
              t3 = (if 110 \<le> httpVersion (request t2)
                        \<and> (\<not> reuseConnection (request t2) \<or> CloseAfterErrorResponse)
                    then add_response_header env ''Connection'' ''close'' t2 else t2)
          in (ESB_SUCCESS, set_transaction t3 s))"

definition currentChunkBytesAvailable ::
  "'a server_socket \<Rightarrow> error \<times> u64 \<times> 'a server_socket" where
  "currentChunkBytesAvailable s =
     (if 0 < bytesAvailable s then (ESB_SUCCESS, bytesAvailable s, s)
      else if in_state s SERVER_LAST_CHUNK_RECEIVED then (ESB_SUCCESS, 0, s)
      else
        case transaction s of
          None \<Rightarrow> (UNDEFINED_BEHAVIOUR, 0, s)
        | Some t \<Rightarrow>
            if \<not> hasBody (request t) then (ESB_SUCCESS, 0, s)
            else
              case recvBuffer s of
                None \<Rightarrow> (UNDEFINED_BEHAVIOUR, 0, s)
              | Some b \<Rightarrow>
                  (case parseBody (parser t) b 0 0 of (e, p, b1, _, n) \<Rightarrow>
                     let s1 = (set_transaction (t\<lparr>parser := p\<rparr>) s)\<lparr>recvBuffer := Some b1\<rparr> in
                     if e \<noteq> ESB_SUCCESS then (e, n, s1)
                     else
                       let s2 = s1\<lparr>bytesAvailable := n\<rparr>
                       in (ESB_SUCCESS, n, if n = 0 then addFlag SERVER_LAST_CHUNK_RECEIVED s2 else s2)))"

definition consume_received :: "u64 \<Rightarrow> 'a server_socket \<Rightarrow> error \<times> 'a server_socket" where
  "consume_received n s =
     (case (transaction s, recvBuffer s) of
        (Some t, Some b) \<Rightarrow>
          (case consumeBody (parser t) b n of (e, p, b1) \<Rightarrow>
             let s1 = (set_transaction (t\<lparr>parser := p\<rparr>) s)\<lparr>recvBuffer := Some b1\<rparr> in
             if e \<noteq> ESB_SUCCESS then (e, s1)
             else (ESB_SUCCESS, s1\<lparr>bytesAvailable := bytesAvailable s1 - n\<rparr>))
      | _ \<Rightarrow> (UNDEFINED_BEHAVIOUR, s))"

text \<open>
  A formatter call: the transaction's formatter works on the send buffer.
\<close>

definition on_formatter ::
  "(response_formatter \<Rightarrow> buffer \<Rightarrow> http_response \<Rightarrow> error \<times> response_formatter \<times> buffer)
    \<Rightarrow> 'a server_socket \<Rightarrow> error \<times> 'a server_socket" where
  "on_formatter g s =
     (case (transaction s, sendBuffer s) of
        (Some t, Some b) \<Rightarrow>
          (case g (formatter t) b (response t) of (e, f, b1) \<Rightarrow>
             (e, (set_transaction (t\<lparr>formatter := f\<rparr>) s)\<lparr>sendBuffer := Some b1\<rparr>))
      | _ \<Rightarrow> (UNDEFINED_BEHAVIOUR, s))"

definition formatStartChunk :: "u64 \<Rightarrow> 'a server_socket \<Rightarrow> error \<times> u64 \<times> 'a server_socket" where
  "formatStartChunk n s =
     (case (transaction s, sendBuffer s) of
        (Some t, Some b) \<Rightarrow>
          (case beginBlock (formatter t) b n 0 of (e, f, b1, sz) \<Rightarrow>
             (e, sz, (set_transaction (t\<lparr>formatter := f\<rparr>) s)\<lparr>sendBuffer := Some b1\<rparr>))
      | _ \<Rightarrow> (UNDEFINED_BEHAVIOUR, 0, s))"

definition formatEndChunk :: "'a server_socket \<Rightarrow> error \<times> 'a server_socket" where
  "formatEndChunk = on_formatter (\<lambda>f b r. endBlock f b)"

section \<open>The states\<close>

definition stateBeginTransaction ::
  "('w, 'a) server_env \<Rightarrow> ('w, 'a) server_handler \<Rightarrow> 'w \<Rightarrow> 'a server_socket \<Rightarrow> ('w, 'a) socket_result" where
  "stateBeginTransaction env h w s =
     (let s1 = addFlag SERVER_CANNOT_REUSE_CONNECTION s in
      case transaction s1 of
        None \<Rightarrow> (UNDEFINED_BEHAVIOUR, w, s1)
      | Some t \<Rightarrow>
          (case beginTransaction h w (set_transaction (t\<lparr>peerAddress := sockPeer env w\<rparr>) s1) of
             (e, w2, s2) \<Rightarrow>
               if e = ESB_SUCCESS then
                 (ESB_SUCCESS, w2, conditionalStateTransition SERVER_TRANSACTION_BEGIN SERVER_PARSING_HEADERS s2)
               else if e = ESB_AGAIN \<or> e = ESB_PAUSE then (ESB_PAUSE, w2, s2)
               else if e = ESB_SEND_RESPONSE then
                 (ESB_SUCCESS, w2, stateTransition SERVER_FORMATTING_HEADERS s2)
               else (e, w2, s2)))"

definition stateReceiveRequestHeaders ::
  "('w, 'a) server_env \<Rightarrow> ('w, 'a) server_handler \<Rightarrow> 'w \<Rightarrow> 'a server_socket \<Rightarrow> ('w, 'a) socket_result" where
  "stateReceiveRequestHeaders env h w s =
     (case (transaction s, recvBuffer s) of
        (Some t, Some b) \<Rightarrow>
          (case request_parseHeaders (allocate env) (parser t) b (request t) of (e, p, b1, r) \<Rightarrow>
             let s1 = (set_transaction (t\<lparr>parser := p, request := r\<rparr>) s)\<lparr>recvBuffer := Some b1\<rparr> in
             if e = ESB_AGAIN then (ESB_AGAIN, w, s1)
             else if e \<noteq> ESB_SUCCESS then
               let s2 = snd (if IsHttpError e then setResponse env 400 ''Bad Request'' s1
                             else setResponse env 500 ''Internal Server Error'' s1)
               in (ESB_SUCCESS, w, stateTransition SERVER_FORMATTING_HEADERS s2)
             else
               case receiveRequestHeaders h w (stateTransition SERVER_PARSING_BODY s1) of (e2, w2, s2) \<Rightarrow>
                 if e2 = ESB_SUCCESS then (ESB_SUCCESS, w2, s2)
                 else if e2 = ESB_PAUSE \<or> e2 = ESB_AGAIN then (ESB_PAUSE, w2, s2)
                 else if e2 = ESB_SEND_RESPONSE then
                   (ESB_SUCCESS, w2, conditionalStateTransition SERVER_PARSING_BODY SERVER_FORMATTING_HEADERS s2)
                 else (e2, w2, s2))
      | _ \<Rightarrow> (UNDEFINED_BEHAVIOUR, w, s))"

text \<open>The last chunk: the trailer is next whatever the handler answers.\<close>

definition offer_last_chunk ::
  "('c, 'w, 'a server_socket) body_handler \<Rightarrow> 'c \<Rightarrow> 'w \<Rightarrow> 'a server_socket \<Rightarrow> ('c, 'w, 'a) machine_result" where
  "offer_last_chunk bh c w s =
     (case consume_body bh [0] 0 c w (stateTransition SERVER_SKIPPING_TRAILER s) of
        (e, _, c1, w1, s1) \<Rightarrow>
          (if e = ESB_SUCCESS \<or> e = ESB_SEND_RESPONSE then ESB_SUCCESS
           else if e = ESB_PAUSE \<or> e = ESB_AGAIN then ESB_PAUSE else e, c1, w1, s1))"

definition offer_chunk ::
  "('c, 'w, 'a server_socket) body_handler \<Rightarrow> u64 \<Rightarrow> 'c \<Rightarrow> 'w \<Rightarrow> 'a server_socket
    \<Rightarrow> bool \<times> ('c, 'w, 'a) machine_result" where
  "offer_chunk bh n c w s =
     (case recvBuffer s of
        None \<Rightarrow> (True, UNDEFINED_BEHAVIOUR, c, w, s)
      | Some b \<Rightarrow>
          (case consume_body bh (take (unat n) (unread b)) n c w s of (e, k, c1, w1, s1) \<Rightarrow>
             case (if 0 < k then consume_received k s1 else (ESB_SUCCESS, s1)) of (e2, s2) \<Rightarrow>
               if e2 \<noteq> ESB_SUCCESS then (True, e2, c1, w1, s2)
               else if e = ESB_SUCCESS then (False, ESB_SUCCESS, c1, w1, s2)
               else if e = ESB_AGAIN \<or> e = ESB_PAUSE then (True, ESB_PAUSE, c1, w1, s2)
               else if e = ESB_SEND_RESPONSE then
                 (True, ESB_SUCCESS, c1, w1,
                  conditionalStateTransition SERVER_PARSING_BODY SERVER_FORMATTING_HEADERS s2)
               else (True, e, c1, w1, s2)))"

partial_function (option) stateReceiveRequestBody ::
  "('w, 'a) server_env \<Rightarrow> ('c, 'w, 'a server_socket) body_handler \<Rightarrow> 'c \<Rightarrow> 'w \<Rightarrow> 'a server_socket
    \<Rightarrow> ('c, 'w, 'a) machine_result option" where
  "stateReceiveRequestBody env bh c w s =
     (if isShutdown env w then Some (ESB_SHUTDOWN, c, w, s)
      else
        case currentChunkBytesAvailable s of (e, n, s1) \<Rightarrow>
          if e \<noteq> ESB_SUCCESS then Some (e, c, w, s1)
          else if n = 0 then Some (offer_last_chunk bh c w s1)
          else
            case offer_chunk bh n c w s1 of (finished, e2, c2, w2, s2) \<Rightarrow>
              if finished then Some (e2, c2, w2, s2)
              else stateReceiveRequestBody env bh c2 w2 s2)"

definition stateSkipTrailer :: "'a server_socket \<Rightarrow> error \<times> 'a server_socket" where
  "stateSkipTrailer s =
     (case (transaction s, recvBuffer s) of
        (Some t, Some b) \<Rightarrow>
          (case skipTrailer (parser t) b of (e, p, b1) \<Rightarrow>
             let s1 = (set_transaction (t\<lparr>parser := p\<rparr>) s)\<lparr>recvBuffer := Some b1\<rparr> in
             if e = ESB_SUCCESS then
               (ESB_SUCCESS, stateTransition SERVER_FORMATTING_HEADERS (clearFlag SERVER_CANNOT_REUSE_CONNECTION s1))
             else (e, s1))
      | _ \<Rightarrow> (UNDEFINED_BEHAVIOUR, s))"

definition stateSendResponseHeaders ::
  "('w, 'a) server_env \<Rightarrow> 'w \<Rightarrow> 'a server_socket \<Rightarrow> ('w, 'a) socket_result" where
  "stateSendResponseHeaders env w s =
     (case (case sendBuffer s of Some b \<Rightarrow> (Some b, w) | None \<Rightarrow> acquireBuffer env w) of
        (None, w1) \<Rightarrow> (ESB_OUT_OF_MEMORY, w1, s)
      | (Some b, w1) \<Rightarrow>
          (case on_formatter response_formatHeaders (s\<lparr>sendBuffer := Some b\<rparr>) of (e, s1) \<Rightarrow>
             (e, w1, if e = ESB_SUCCESS then stateTransition SERVER_FORMATTING_BODY s1 else s1)))"

definition end_response_body :: "'a server_socket \<Rightarrow> error \<times> 'a server_socket" where
  "end_response_body s =
     (case on_formatter (\<lambda>f b r. endBody f b) s of (e, s1) \<Rightarrow>
        (e, if e = ESB_SUCCESS then stateTransition SERVER_FLUSHING_BODY s1 else s1))"

text \<open>One chunk of the response body: begin it, let the handler produce it, end it.\<close>

definition send_chunk ::
  "('c, 'w, 'a server_socket) body_handler \<Rightarrow> u64 \<Rightarrow> 'c \<Rightarrow> 'w \<Rightarrow> 'a server_socket \<Rightarrow> ('c, 'w, 'a) machine_result" where
  "send_chunk bh offered c w s =
     (case formatStartChunk offered s of (e, n, s1) \<Rightarrow>
        if e \<noteq> ESB_SUCCESS then (e, c, w, s1)
        else
          case produce_body bh n c w s1 of (e2, os, c2, w2, s2) \<Rightarrow>
            if e2 \<notin> {ESB_SUCCESS, ESB_AGAIN, ESB_PAUSE} then (e2, c2, w2, s2)
            else
              let s3 = s2\<lparr>sendBuffer := map_option (store_body os n) (sendBuffer s2),
                          bodyBytesWritten := bodyBytesWritten s2 + n\<rparr>
              in (case formatEndChunk s3 of (e3, s4) \<Rightarrow> (e3, c2, w2, s4)))"

partial_function (option) stateSendResponseBody ::
  "('w, 'a) server_env \<Rightarrow> ('c, 'w, 'a server_socket) body_handler \<Rightarrow> 'c \<Rightarrow> 'w \<Rightarrow> 'a server_socket
    \<Rightarrow> ('c, 'w, 'a) machine_result option" where
  "stateSendResponseBody env bh c w s =
     (if isShutdown env w then Some (ESB_SHUTDOWN, c, w, s)
      else
        case offer_body bh c w s of (e, offered, c1, w1, s1) \<Rightarrow>
          if e = ESB_AGAIN \<or> e = ESB_PAUSE then Some (ESB_PAUSE, c1, w1, s1)
          else if e \<noteq> ESB_SUCCESS then Some (e, c1, w1, s1)
          else if offered = 0 then
            (case end_response_body s1 of (e2, s2) \<Rightarrow> Some (e2, c1, w1, s2))
          else
            case send_chunk bh offered c1 w1 s1 of (e2, c2, w2, s2) \<Rightarrow>
              if e2 \<noteq> ESB_SUCCESS then Some (e2, c2, w2, s2)
              else stateSendResponseBody env bh c2 w2 s2)"

definition stateFlushResponseBody ::
  "('w, 'a) server_env \<Rightarrow> 'w \<Rightarrow> 'a server_socket \<Rightarrow> ('w, 'a) socket_result option" where
  "stateFlushResponseBody env w s =
     map_option (\<lambda>(e, w1, s1).
         (e, w1, if e = ESB_SUCCESS then stateTransition SERVER_TRANSACTION_END s1 else s1))
       (flushSendBuffer env w s)"

definition stateEndTransaction ::
  "('w, 'a) server_env \<Rightarrow> ('w, 'a) server_handler \<Rightarrow> 'w \<Rightarrow> 'a server_socket \<Rightarrow> ('w, 'a) socket_result" where
  "stateEndTransaction env h w s =
     (case endTransaction h ES_HTTP_SERVER_HANDLER_END w
             (s\<lparr>requestsPerConnection := requestsPerConnection s + 1\<rparr>) of (w1, s1) \<Rightarrow>
        if in_state s1 SERVER_CANNOT_REUSE_CONNECTION then (ESB_CLEANUP, w1, s1)
        else
          case transaction s1 of
            None \<Rightarrow> (UNDEFINED_BEHAVIOUR, w1, s1)
          | Some t \<Rightarrow>
              if CloseAfterErrorResponse \<and> 300 \<le> statusCode (response t) then (ESB_CLEANUP, w1, s1)
              else if \<not> reuseConnection (request t) then (ESB_CLEANUP, w1, s1)
              else
                (ESB_SUCCESS, w1,
                 (stateTransition SERVER_TRANSACTION_BEGIN s1)
                   \<lparr>bodyBytesWritten := 0, transaction := Some (server_transaction_reset (resetAllocator env) t)\<rparr>))"

section \<open>The machine\<close>

definition with_c :: "'c \<Rightarrow> ('w, 'a) socket_result \<Rightarrow> ('c, 'w, 'a) machine_result" where
  "with_c c r = (case r of (e, w, s) \<Rightarrow> (e, c, w, s))"

text \<open>The handler of the current state.\<close>

definition run_state ::
  "('w, 'a) server_env \<Rightarrow> ('w, 'a) server_handler \<Rightarrow> ('c, 'w, 'a server_socket) body_handler \<Rightarrow> 'c \<Rightarrow> 'w \<Rightarrow> 'a server_socket
    \<Rightarrow> ('c, 'w, 'a) machine_result option" where
  "run_state env h bh c w s =
     (let st = sockState s AND SERVER_STATE_MASK in
      if st = SERVER_TRANSACTION_BEGIN then Some (with_c c (stateBeginTransaction env h w s))
      else if st = SERVER_PARSING_HEADERS then Some (with_c c (stateReceiveRequestHeaders env h w s))
      else if st = SERVER_PARSING_BODY then stateReceiveRequestBody env bh c w s
      else if st = SERVER_SKIPPING_TRAILER then
        (case stateSkipTrailer s of (e, s1) \<Rightarrow> Some (e, c, w, s1))
      else if st = SERVER_FORMATTING_HEADERS then Some (with_c c (stateSendResponseHeaders env w s))
      else if st = SERVER_FORMATTING_BODY then stateSendResponseBody env bh c w s
      else if st = SERVER_FLUSHING_BODY then map_option (with_c c) (stateFlushResponseBody env w s)
      else if st = SERVER_TRANSACTION_END then Some (with_c c (stateEndTransaction env h w s))
      else Some (ESB_INVALID_STATE, c, w, s))"

text \<open>
  One round of the loop of \<open>advanceStateMachine\<close>: either its result, or the two local flags and the
  state for the next round. \<open>handleRemoteClose\<close> and \<open>handleError\<close> only log.
\<close>

definition machine_round ::
  "('w, 'a) server_env \<Rightarrow> ('w, 'a) server_handler \<Rightarrow> ('c, 'w, 'a server_socket) body_handler \<Rightarrow> u32 \<Rightarrow> bool \<Rightarrow> bool
    \<Rightarrow> 'c \<Rightarrow> 'w \<Rightarrow> 'a server_socket
    \<Rightarrow> (('c, 'w, 'a) machine_result + bool \<times> bool \<times> 'c \<times> 'w \<times> 'a server_socket) option" where
  "machine_round env h bh fl fill drain c w s =
     (if isShutdown env w then Some (Inl (ESB_SHUTDOWN, c, w, s))
      else
        let inRecv = in_state s SERVER_RECV_STATE_MASK; inSend = in_state s SERVER_SEND_STATE_MASK in
        if inRecv \<and> \<not> has_flag fl SERVER_ADVANCE_RECV then Some (Inl (ESB_SUCCESS, c, w, s))
        else if inSend \<and> \<not> has_flag fl SERVER_ADVANCE_SEND then Some (Inl (ESB_SUCCESS, c, w, s))
        else
          case (if fill then fillReceiveBuffer env w s else (ESB_SUCCESS, w, s)) of (e0, w0, s0) \<Rightarrow>
            if e0 \<noteq> ESB_SUCCESS then Some (Inl (e0, c, w0, s0))
            else
              case run_state env h bh c w0 s0 of
                None \<Rightarrow> None
              | Some (e, c1, w1, s1) \<Rightarrow>
                if e = ESB_AGAIN \<and> sockState s0 AND SERVER_STATE_MASK = SERVER_FLUSHING_BODY
                then Some (Inl (ESB_AGAIN, c1, w1, s1))
                else if e = ESB_BREAK then Some (Inl (ESB_SUCCESS, c1, w1, s1))
                else if e \<noteq> ESB_SUCCESS \<and> e \<noteq> ESB_AGAIN then Some (Inl (e, c1, w1, s1))
                else
                  let fill1 = (if e = ESB_AGAIN then inRecv else False);
                      drain1 = (if e = ESB_AGAIN then inSend else drain) in
                  if \<not> drain1 then Some (Inr (fill1, False, c1, w1, s1))
                  else
                    map_option (\<lambda>(e2, w2, s2).
                        if e2 \<noteq> ESB_SUCCESS then Inl (e2, c1, w2, s2)
                        else Inr (fill1, False, c1, w2, s2))
                      (flushSendBuffer env w1 s1))"

partial_function (option) machine_loop ::
  "('w, 'a) server_env \<Rightarrow> ('w, 'a) server_handler \<Rightarrow> ('c, 'w, 'a server_socket) body_handler \<Rightarrow> u32 \<Rightarrow> bool \<Rightarrow> bool
    \<Rightarrow> 'c \<Rightarrow> 'w \<Rightarrow> 'a server_socket \<Rightarrow> ('c, 'w, 'a) machine_result option" where
  "machine_loop env h bh fl fill drain c w s =
     (case machine_round env h bh fl fill drain c w s of
        None \<Rightarrow> None
      | Some (Inl res) \<Rightarrow> Some res
      | Some (Inr (fill1, drain1, c1, w1, s1)) \<Rightarrow> machine_loop env h bh fl fill1 drain1 c1 w1 s1)"

declare stateReceiveRequestBody.simps [code] stateSendResponseBody.simps [code]
  machine_loop.simps [code]

definition advanceStateMachine ::
  "('w, 'a) server_env \<Rightarrow> ('w, 'a) server_handler \<Rightarrow> ('c, 'w, 'a server_socket) body_handler \<Rightarrow> u32
    \<Rightarrow> 'c \<Rightarrow> 'w \<Rightarrow> 'a server_socket \<Rightarrow> ('c, 'w, 'a) machine_result option" where
  "advanceStateMachine env h bh fl c w s =
     machine_loop env h bh fl (has_flag fl SERVER_INITIAL_FILL_RECV_BUFFER)
       (has_flag fl SERVER_INITIAL_DRAIN_SEND_BUFFER) c w s"

definition advance_own ::
  "('w, 'a) server_env \<Rightarrow> ('w, 'a) server_handler \<Rightarrow> u32 \<Rightarrow> 'w \<Rightarrow> 'a server_socket
    \<Rightarrow> ('w, 'a) socket_result option" where
  "advance_own env h fl w s =
     map_option (\<lambda>(e, _, w1, s1). (e, w1, s1)) (advanceStateMachine env h (bodyHandler h) fl () w s)"

section \<open>The adaptors of the synchronous calls\<close>

section \<open>Entry points\<close>

definition wantRead :: "('w, 'a) server_env \<Rightarrow> 'w \<Rightarrow> 'a server_socket \<Rightarrow> bool" where
  "wantRead env w s =
     (if in_state s (SERVER_RECV_PAUSED OR SERVER_ABORTED OR SERVER_INACTIVE) then False
      else if sockWantRead env w then True
      else if sockWantWrite env w then False
      else in_state s (SERVER_TRANSACTION_BEGIN OR SERVER_RECV_STATE_MASK))"

definition wantWrite :: "('w, 'a) server_env \<Rightarrow> 'w \<Rightarrow> 'a server_socket \<Rightarrow> bool" where
  "wantWrite env w s =
     (if in_state s (SERVER_SEND_PAUSED OR SERVER_ABORTED OR SERVER_INACTIVE) then False
      else if sockWantWrite env w then True
      else if sockWantRead env w then False
      else in_state s SERVER_SEND_STATE_MASK)"

definition handleReadable ::
  "('w, 'a) server_env \<Rightarrow> ('w, 'a) server_handler \<Rightarrow> 'w \<Rightarrow> 'a server_socket \<Rightarrow> ('w, 'a) socket_result option" where
  "handleReadable env h w s =
     (if \<not> wantRead env w s \<or> \<not> sockConnected env w then Some (ESB_INVALID_STATE, w, s)
      else advance_own env h
        (SERVER_INITIAL_FILL_RECV_BUFFER OR SERVER_ADVANCE_RECV OR SERVER_ADVANCE_SEND) w s)"

definition handleWritable ::
  "('w, 'a) server_env \<Rightarrow> ('w, 'a) server_handler \<Rightarrow> 'w \<Rightarrow> 'a server_socket \<Rightarrow> ('w, 'a) socket_result option" where
  "handleWritable env h w s =
     (if \<not> wantWrite env w s \<or> \<not> sockConnected env w \<or> transaction s = None
      then Some (ESB_INVALID_STATE, w, s)
      else advance_own env h (SERVER_ADVANCE_RECV OR SERVER_ADVANCE_SEND) w s)"

definition requestBodyAvailable ::
  "('w, 'a) server_env \<Rightarrow> ('w, 'a) server_handler \<Rightarrow> 'w \<Rightarrow> 'a server_socket
    \<Rightarrow> (error \<times> u64 \<times> 'w \<times> 'a server_socket) option" where
  "requestBodyAvailable env h w s =
     map_option (\<lambda>(e, (_, _, offered), w1, s1). (e, offered, w1, s1))
       (advanceStateMachine env h (body_consumer 0) (SERVER_UPDATE_MULTIPLEXER OR SERVER_ADVANCE_RECV)
          ([], 0, 0) w s)"

definition readRequestBody ::
  "('w, 'a) server_env \<Rightarrow> ('w, 'a) server_handler \<Rightarrow> u64 \<Rightarrow> 'w \<Rightarrow> 'a server_socket
    \<Rightarrow> (error \<times> u8 list \<times> u64 \<times> 'w \<times> 'a server_socket) option" where
  "readRequestBody env h bytesRequested w s =
     map_option (\<lambda>(e, (copied, consumed, _), w1, s1). (e, copied, consumed, w1, s1))
       (advanceStateMachine env h (body_consumer bytesRequested)
          (SERVER_UPDATE_MULTIPLEXER OR SERVER_ADVANCE_RECV) ([], 0, 0) w s)"

definition sendEmptyResponse ::
  "('w, 'a) server_env \<Rightarrow> ('w, 'a) server_handler \<Rightarrow> int \<Rightarrow> string \<Rightarrow> 'w \<Rightarrow> 'a server_socket
    \<Rightarrow> ('w, 'a) socket_result option" where
  "sendEmptyResponse env h status reason w s =
     (case setResponse env status reason s of (e, s1) \<Rightarrow>
        if e \<noteq> ESB_SUCCESS then Some (e, w, s1) else advance_own env h SERVER_ADVANCE_SEND w s1)"

definition sendResponse ::
  "('w, 'a) server_env \<Rightarrow> ('w, 'a) server_handler \<Rightarrow> http_response \<Rightarrow> header_copy_filter
    \<Rightarrow> 'w \<Rightarrow> 'a server_socket \<Rightarrow> ('w, 'a) socket_result option" where
  "sendResponse env h resp ff w s =
     (case transaction s of
        None \<Rightarrow> Some (UNDEFINED_BEHAVIOUR, w, s)
      | Some t \<Rightarrow>
          (case response_copy (allocate env) ff (allocator (parser t)) (response t) (Some resp) of
             (e, al, r) \<Rightarrow>
               let s1 = set_transaction (t\<lparr>parser := (parser t)\<lparr>allocator := al\<rparr>, response := r\<rparr>) s in
               if e \<noteq> ESB_SUCCESS then Some (e, w, s1) else advance_own env h SERVER_ADVANCE_SEND w s1))"

definition sendResponseBody ::
  "('w, 'a) server_env \<Rightarrow> ('w, 'a) server_handler \<Rightarrow> u8 list \<Rightarrow> u64 \<Rightarrow> 'w \<Rightarrow> 'a server_socket
    \<Rightarrow> (error \<times> u64 \<times> 'w \<times> 'a server_socket) option" where
  "sendResponseBody env h chunk bytesOffered w s =
     (if sockState s AND SERVER_STATE_MASK \<noteq> SERVER_FORMATTING_BODY then Some (ESB_INVALID_STATE, 0, w, s)
      else
        advanceStateMachine env h (body_producer chunk bytesOffered)
          (SERVER_UPDATE_MULTIPLEXER OR SERVER_ADVANCE_SEND) 0 w s)"

definition release_buffers ::
  "('w, 'a) server_env \<Rightarrow> 'w \<Rightarrow> 'a server_socket \<Rightarrow> 'w \<times> 'a server_socket" where
  "release_buffers env w s =
     (let w1 = (case sendBuffer s of None \<Rightarrow> w | Some b \<Rightarrow> releaseBuffer env b w);
          w2 = (case recvBuffer s of None \<Rightarrow> w1 | Some b \<Rightarrow> releaseBuffer env b w1)
      in (w2, s\<lparr>sendBuffer := None, recvBuffer := None\<rparr>))"

text \<open>The state in which \<open>handleRemove\<close> reports the end of the transaction, if it does.\<close>

definition removal_state :: "u32 \<Rightarrow> end_state option" where
  "removal_state st =
     (if st = SERVER_PARSING_HEADERS \<or> st = SERVER_TRANSACTION_BEGIN
      then Some ES_HTTP_SERVER_HANDLER_RECV_REQUEST_HEADERS
      else if st = SERVER_PARSING_BODY \<or> st = SERVER_SKIPPING_TRAILER
      then Some ES_HTTP_SERVER_HANDLER_RECV_REQUEST_BODY
      else if st = SERVER_FORMATTING_HEADERS then Some ES_HTTP_SERVER_HANDLER_SEND_RESPONSE_HEADERS
      else if st = SERVER_FORMATTING_BODY \<or> st = SERVER_FLUSHING_BODY
      then Some ES_HTTP_SERVER_HANDLER_SEND_RESPONSE_BODY
      else None)"

definition handleRemove ::
  "('w, 'a) server_env \<Rightarrow> ('w, 'a) server_handler \<Rightarrow> 'w \<Rightarrow> 'a server_socket \<Rightarrow> 'w \<times> 'a server_socket" where
  "handleRemove env h w s =
     (case release_buffers env (sockClose env w) s of (w1, s1) \<Rightarrow>
      case (case removal_state (sockState s1 AND SERVER_STATE_MASK) of
              Some st \<Rightarrow> endTransaction h st w1 s1 | None \<Rightarrow> (w1, s1)) of (w2, s2) \<Rightarrow>
        let w3 = (case transaction s2 of None \<Rightarrow> w2 | Some t \<Rightarrow> destroyTransaction env t w2);
            s3 = stateTransition SERVER_INACTIVE (s2\<lparr>transaction := None\<rparr>)
        in (addAverage env (requestsPerConnection s3) w3, s3\<lparr>requestsPerConnection := 0\<rparr>))"

text \<open>The destructor.\<close>

definition destroy_socket :: "('w, 'a) server_env \<Rightarrow> 'w \<Rightarrow> 'a server_socket \<Rightarrow> 'w" where
  "destroy_socket env w s =
     (let w1 = (case recvBuffer s of None \<Rightarrow> w | Some b \<Rightarrow> releaseBuffer env b w);
          w2 = (case sendBuffer s of None \<Rightarrow> w1 | Some b \<Rightarrow> releaseBuffer env b w1)
      in (case transaction s of None \<Rightarrow> w2 | Some t \<Rightarrow> destroyTransaction env t w2))"

section \<open>Abort, pause and resume\<close>

definition abort :: "('w, 'a) server_env \<Rightarrow> bool \<Rightarrow> 'w \<Rightarrow> 'a server_socket \<Rightarrow> ('w, 'a) socket_result" where
  "abort env upd w s =
     (if in_state s SERVER_ABORTED then (ESB_INVALID_STATE, w, s)
      else after_update (removeMultiplexedSocket env) upd w (addFlag SERVER_ABORTED s))"

definition pauseRecv :: "('w, 'a) server_env \<Rightarrow> bool \<Rightarrow> 'w \<Rightarrow> 'a server_socket \<Rightarrow> ('w, 'a) socket_result" where
  "pauseRecv env upd w s =
     (if in_state s (SERVER_INACTIVE OR SERVER_ABORTED) then (ESB_INVALID_STATE, w, s)
      else if in_state s SERVER_RECV_PAUSED then (ESB_SUCCESS, w, s)
      else after_update (updateMultiplexedSocket env) upd w (addFlag SERVER_RECV_PAUSED s))"

definition resumeRecv :: "('w, 'a) server_env \<Rightarrow> bool \<Rightarrow> 'w \<Rightarrow> 'a server_socket \<Rightarrow> ('w, 'a) socket_result" where
  "resumeRecv env upd w s =
     (if in_state s (SERVER_INACTIVE OR SERVER_ABORTED) then (ESB_INVALID_STATE, w, s)
      else if \<not> in_state s SERVER_RECV_PAUSED then (ESB_SUCCESS, w, s)
      else after_update (updateMultiplexedSocket env) upd w (clearFlag SERVER_RECV_PAUSED s))"

definition pauseSend :: "('w, 'a) server_env \<Rightarrow> bool \<Rightarrow> 'w \<Rightarrow> 'a server_socket \<Rightarrow> ('w, 'a) socket_result" where
  "pauseSend env upd w s =
     (if in_state s (SERVER_INACTIVE OR SERVER_ABORTED) then (ESB_INVALID_STATE, w, s)
      else if in_state s SERVER_SEND_PAUSED then (ESB_SUCCESS, w, s)
      else after_update (updateMultiplexedSocket env) upd w (addFlag SERVER_SEND_PAUSED s))"

definition resumeSend :: "('w, 'a) server_env \<Rightarrow> bool \<Rightarrow> 'w \<Rightarrow> 'a server_socket \<Rightarrow> ('w, 'a) socket_result" where
  "resumeSend env upd w s =
     (if in_state s (SERVER_INACTIVE OR SERVER_ABORTED) then (ESB_INVALID_STATE, w, s)
      else if \<not> in_state s SERVER_SEND_PAUSED then (ESB_SUCCESS, w, s)
      else after_update (updateMultiplexedSocket env) upd w (clearFlag SERVER_SEND_PAUSED s))"

definition updateInterestList ::
  "('w, 'a) server_env \<Rightarrow> bool \<Rightarrow> 'w \<Rightarrow> 'a server_socket \<Rightarrow> ('w, 'a) socket_result" where
  "updateInterestList env = after_update (updateMultiplexedSocket env)"

definition markDead :: "'a server_socket \<Rightarrow> 'a server_socket" where
  "markDead s = s\<lparr>sockState := sockState s OR SERVER_DEAD\<rparr>"

definition dead :: "'a server_socket \<Rightarrow> bool" where
  "dead s = in_state s SERVER_DEAD"

definition describeState :: "'a server_socket \<Rightarrow> string" where
  "describeState s =
     (let st = sockState s AND SERVER_STATE_MASK in
      if st = SERVER_INACTIVE then ''inactive''
      else if st = SERVER_TRANSACTION_BEGIN then ''begun''
      else if st = SERVER_PARSING_HEADERS then ''recv-headers''
      else if st = SERVER_PARSING_BODY then ''recv-body''
      else if st = SERVER_SKIPPING_TRAILER then ''recv-trailer''
      else if st = SERVER_FORMATTING_HEADERS then ''send-headers''
      else if st = SERVER_FORMATTING_BODY then ''send-body''
      else if st = SERVER_FLUSHING_BODY then ''flush-body''
      else if st = SERVER_TRANSACTION_END then ''end''
      else ''unknown'')"

definition describeFlags :: "'a server_socket \<Rightarrow> string" where
  "describeFlags s =
     (if in_state s SERVER_RECV_PAUSED
      then (if in_state s SERVER_SEND_PAUSED then ''send-recv-paused'' else ''recv-paused'')
      else if in_state s SERVER_SEND_PAUSED then ''send-paused''
      else if in_state s SERVER_ABORTED then ''aborted'' else ''active'')"

end
