(* ===== verification/ServerInvariant.thy ===== *)
theory ServerInvariant
  imports ServerSocket
begin

text \<open>
  The contract of the server socket's state machine: the transitions the program allows
  (\<open>server_step\<close>, the predecessors each case of \<open>stateTransition\<close> asserts), the invariant that ties the
  state to the transaction, the buffers and the two flags about the body, and the locales of the
  callbacks that keep to the setters of \<open>HttpServerStream\<close>. Every state handler keeps the invariant
  and moves along allowed transitions.
\<close>

section \<open>State and flags\<close>

definition state_of :: "'a server_socket \<Rightarrow> u32" where
  "state_of s = sockState s AND SERVER_STATE_MASK"

lemma state_of_update [simp]:
  "state_of (s\<lparr>requestsPerConnection := n\<rparr>) = state_of s"
  "state_of (s\<lparr>bodyBytesWritten := k\<rparr>) = state_of s"
  "state_of (s\<lparr>bytesAvailable := k\<rparr>) = state_of s"
  "state_of (s\<lparr>transaction := t\<rparr>) = state_of s"
  "state_of (s\<lparr>recvBuffer := b\<rparr>) = state_of s"
  "state_of (s\<lparr>sendBuffer := b\<rparr>) = state_of s"
  by (simp_all add: state_of_def)

lemma in_state_update [simp]:
  "in_state (s\<lparr>requestsPerConnection := n\<rparr>) m = in_state s m"
  "in_state (s\<lparr>bodyBytesWritten := k\<rparr>) m = in_state s m"
  "in_state (s\<lparr>bytesAvailable := k\<rparr>) m = in_state s m"
  "in_state (s\<lparr>transaction := t\<rparr>) m = in_state s m"
  "in_state (s\<lparr>recvBuffer := b\<rparr>) m = in_state s m"
  "in_state (s\<lparr>sendBuffer := b\<rparr>) m = in_state s m"
  by (simp_all add: in_state_def)

lemma set_transaction_sel [simp]:
  "transaction (set_transaction t s) = Some t" "recvBuffer (set_transaction t s) = recvBuffer s"
  "sendBuffer (set_transaction t s) = sendBuffer s" "bytesAvailable (set_transaction t s) = bytesAvailable s"
  "state_of (set_transaction t s) = state_of s" "in_state (set_transaction t s) m = in_state s m"
  "requestsPerConnection (set_transaction t s) = requestsPerConnection s"
  by (simp_all add: set_transaction_def)

lemma flag_sel [simp]:
  "transaction (addFlag f s) = transaction s" "transaction (clearFlag f s) = transaction s"
  "recvBuffer (addFlag f s) = recvBuffer s" "recvBuffer (clearFlag f s) = recvBuffer s"
  "sendBuffer (addFlag f s) = sendBuffer s" "sendBuffer (clearFlag f s) = sendBuffer s"
  "bytesAvailable (addFlag f s) = bytesAvailable s" "bytesAvailable (clearFlag f s) = bytesAvailable s"
  "requestsPerConnection (addFlag f s) = requestsPerConnection s"
  "requestsPerConnection (clearFlag f s) = requestsPerConnection s"
  by (simp_all add: addFlag_def clearFlag_def)

lemma transition_sel [simp]:
  "transaction (stateTransition n s) = transaction s" "recvBuffer (stateTransition n s) = recvBuffer s"
  "sendBuffer (stateTransition n s) = sendBuffer s" "bytesAvailable (stateTransition n s) = bytesAvailable s"
  "requestsPerConnection (stateTransition n s) = requestsPerConnection s"
  by (simp_all add: stateTransition_def Let_def)

lemma flag_state [simp]:
  "f AND SERVER_STATE_MASK = 0 \<Longrightarrow> state_of (addFlag f s) = state_of s"
  "f AND SERVER_STATE_MASK = 0 \<Longrightarrow> state_of (clearFlag f s) = state_of s"
proof -
  assume f: "f AND SERVER_STATE_MASK = 0"
  then show "state_of (addFlag f s) = state_of s"
    by (simp add: state_of_def addFlag_def mask_simps)
  show "state_of (clearFlag f s) = state_of s"
    using and_mask_clear [of SERVER_STATE_MASK f] f
    by (simp add: state_of_def clearFlag_def and.commute [of f])
qed

lemma flag_in_state [simp]:
  "in_state (addFlag f s) m \<longleftrightarrow> in_state s m \<or> has_flag f m"
  "in_state (clearFlag f s) m \<longleftrightarrow> in_state s (m AND NOT f)"
  using has_flag_transition [of "sockState s" f 0 m]
  by (simp_all add: in_state_def addFlag_def clearFlag_def has_flag_or transition_def)

lemma state_in_state: "m AND SERVER_STATE_MASK = m \<Longrightarrow> in_state s m \<longleftrightarrow> m AND state_of s \<noteq> 0"
proof -
  assume m: "m AND SERVER_STATE_MASK = m"
  have "m AND state_of s = (m AND SERVER_STATE_MASK) AND sockState s"
    by (simp only: state_of_def ac_simps)
  then show ?thesis
    by (simp add: in_state_def has_flag_def m)
qed

lemma state_of_transition [simp]:
  "state_of (stateTransition SERVER_INACTIVE s) = 1"
  "state_of (stateTransition SERVER_TRANSACTION_BEGIN s) = 2"
  "state_of (stateTransition SERVER_PARSING_HEADERS s) = 4"
  "state_of (stateTransition SERVER_PARSING_BODY s) = 8"
  "state_of (stateTransition SERVER_SKIPPING_TRAILER s) = 16"
  "state_of (stateTransition SERVER_FORMATTING_HEADERS s) = 32"
  "state_of (stateTransition SERVER_FORMATTING_BODY s) = 64"
  "state_of (stateTransition SERVER_FLUSHING_BODY s) = 128"
  "state_of (stateTransition SERVER_TRANSACTION_END s) = 256"
  by (simp_all add: stateTransition_def state_of_def mask_simps)

lemma flag_of_transition [simp]:
  assumes "m = SERVER_CANNOT_REUSE_CONNECTION \<or> m = SERVER_LAST_CHUNK_RECEIVED"
  shows "in_state (stateTransition SERVER_INACTIVE s) m = in_state s m"
    "\<not> in_state (stateTransition SERVER_TRANSACTION_BEGIN s) m"
    "in_state (stateTransition SERVER_PARSING_HEADERS s) m = in_state s m"
    "in_state (stateTransition SERVER_PARSING_BODY s) m = in_state s m"
    "in_state (stateTransition SERVER_SKIPPING_TRAILER s) m = in_state s m"
    "in_state (stateTransition SERVER_FORMATTING_HEADERS s) m = in_state s m"
    "in_state (stateTransition SERVER_FORMATTING_BODY s) m = in_state s m"
    "in_state (stateTransition SERVER_FLUSHING_BODY s) m = in_state s m"
    "in_state (stateTransition SERVER_TRANSACTION_END s) m = in_state s m"
  using assms
  by (auto simp: stateTransition_def in_state_def has_flag_def mask_simps and.commute [of m]
      and.commute [of 512] and.commute [of 8192])

section \<open>The contract\<close>

inductive server_step :: "u32 \<Rightarrow> u32 \<Rightarrow> bool" where
  receive_headers: "server_step SERVER_TRANSACTION_BEGIN SERVER_PARSING_HEADERS"
| receive_body: "server_step SERVER_PARSING_HEADERS SERVER_PARSING_BODY"
| skip_trailer: "server_step SERVER_PARSING_BODY SERVER_SKIPPING_TRAILER"
| respond_at_once: "server_step SERVER_TRANSACTION_BEGIN SERVER_FORMATTING_HEADERS"
| respond_to_headers: "server_step SERVER_PARSING_HEADERS SERVER_FORMATTING_HEADERS"
| respond_to_body: "server_step SERVER_PARSING_BODY SERVER_FORMATTING_HEADERS"
| respond: "server_step SERVER_SKIPPING_TRAILER SERVER_FORMATTING_HEADERS"
| send_body: "server_step SERVER_FORMATTING_HEADERS SERVER_FORMATTING_BODY"
| flush_body: "server_step SERVER_FORMATTING_BODY SERVER_FLUSHING_BODY"
| finish: "server_step SERVER_FLUSHING_BODY SERVER_TRANSACTION_END"
| reuse: "server_step SERVER_TRANSACTION_END SERVER_TRANSACTION_BEGIN"
| remove: "st \<noteq> SERVER_INACTIVE \<Longrightarrow> server_step st SERVER_INACTIVE"

declare server_step.intros [intro]

inductive_simps server_step_from_inactive: "server_step SERVER_INACTIVE st"
inductive_simps server_step_to_begin: "server_step st SERVER_TRANSACTION_BEGIN"

definition server_inv :: "'a server_socket \<Rightarrow> bool" where
  "server_inv s \<longleftrightarrow>
     state_of s \<in> {1, 2, 4, 8, 16, 32, 64, 128, 256} \<and>
     (transaction s = None \<longrightarrow> state_of s \<in> {1, 2}) \<and>
     (transaction s \<noteq> None \<longrightarrow> recvBuffer s \<noteq> None) \<and>
     (state_of s \<in> {64, 128, 256} \<longrightarrow> sendBuffer s \<noteq> None) \<and>
     (state_of s \<in> {4, 8, 16} \<longrightarrow> in_state s SERVER_CANNOT_REUSE_CONNECTION) \<and>
     (state_of s \<in> {2, 4, 16} \<longrightarrow> bytesAvailable s = 0) \<and>
     (state_of s \<in> {32, 64, 128, 256} \<and> bytesAvailable s \<noteq> 0
        \<longrightarrow> in_state s SERVER_CANNOT_REUSE_CONNECTION) \<and>
     (state_of s \<in> {2, 4} \<longrightarrow> \<not> in_state s SERVER_LAST_CHUNK_RECEIVED)"

text \<open>
  One move of a socket: it stays in its state or takes one of the steps above, within the request that it
  serves; only at the end of a transaction is a request counted, and only then can the next one begin.
\<close>

definition server_moves :: "'a server_socket \<Rightarrow> 'a server_socket \<Rightarrow> bool" where
  "server_moves s s' \<longleftrightarrow>
     (if state_of s = SERVER_TRANSACTION_END \<and> requestsPerConnection s' = requestsPerConnection s + 1
      then state_of s' = SERVER_TRANSACTION_END \<or> state_of s' = SERVER_TRANSACTION_BEGIN
      else requestsPerConnection s' = requestsPerConnection s \<and>
        (state_of s' = state_of s \<or>
         state_of s \<noteq> SERVER_TRANSACTION_END \<and> state_of s' \<noteq> SERVER_INACTIVE \<and> server_step (state_of s) (state_of s')))"

text \<open>Many moves: a socket comes back to an earlier state only in a later request.\<close>

definition server_follows :: "'a server_socket \<Rightarrow> 'a server_socket \<Rightarrow> bool" where
  "server_follows s s' \<longleftrightarrow>
     requestsPerConnection s \<le> requestsPerConnection s' \<and>
     (requestsPerConnection s' = requestsPerConnection s \<longrightarrow> state_of s \<le> state_of s')"

lemma server_follows_refl [simp, intro]: "server_follows s s"
  by (simp add: server_follows_def)

lemma server_follows_trans [trans]: "server_follows s s' \<Longrightarrow> server_follows s' s'' \<Longrightarrow> server_follows s s''"
  by (auto simp: server_follows_def)

lemma server_step_forward: "server_step a b \<Longrightarrow> a \<noteq> SERVER_TRANSACTION_END \<Longrightarrow> b \<noteq> SERVER_INACTIVE \<Longrightarrow> a \<le> b"
  by (cases rule: server_step.cases) auto

lemma server_moves_follows: "server_moves s s' \<Longrightarrow> server_follows s s'"
  by (auto simp: server_moves_def server_follows_def intro: server_step_forward split: if_splits)

definition goes :: "'a server_socket \<Rightarrow> 'a server_socket \<Rightarrow> bool" where
  "goes s s' \<longleftrightarrow> (server_inv s \<longrightarrow> server_inv s' \<and> server_moves s s')"

lemma server_moves_refl [simp]: "server_moves s s"
  by (simp add: server_moves_def)

lemma server_moves_step:
  "server_step (state_of s) (state_of s') \<Longrightarrow> state_of s \<noteq> SERVER_TRANSACTION_END \<Longrightarrow>
    state_of s' \<noteq> SERVER_INACTIVE \<Longrightarrow> requestsPerConnection s' = requestsPerConnection s \<Longrightarrow> server_moves s s'"
  by (simp add: server_moves_def)

lemma goes_refl [intro, simp]: "goes s s"
  by (simp add: goes_def)

text \<open>
  What a callback may do to the socket through \<open>HttpServerStream\<close>: pause, resume, abort, and set the
  members of the messages; not run the machine.
\<close>

definition polite_step :: "'a server_socket \<Rightarrow> 'a server_socket \<Rightarrow> bool" where
  "polite_step s s' \<longleftrightarrow>
     s' = s\<lparr>sockState := sockState s', transaction := transaction s'\<rparr> \<and>
     sockState s' AND 0x23FF = sockState s AND 0x23FF \<and>
     rel_option (\<lambda>t t'. formatter t' = formatter t \<and>
       parser t' = (parser t)\<lparr>allocator := allocator (parser t')\<rparr>) (transaction s) (transaction s')"

lemma polite_refl [intro, simp]: "polite_step s s"
  by (cases "transaction s") (simp_all add: polite_step_def)

lemma politeD:
  assumes "polite_step s s'"
  shows "state_of s' = state_of s" "recvBuffer s' = recvBuffer s" "sendBuffer s' = sendBuffer s"
    "bytesAvailable s' = bytesAvailable s" "transaction s' = None \<longleftrightarrow> transaction s = None"
    "in_state s' SERVER_CANNOT_REUSE_CONNECTION = in_state s SERVER_CANNOT_REUSE_CONNECTION"
    "in_state s' SERVER_LAST_CHUNK_RECEIVED = in_state s SERVER_LAST_CHUNK_RECEIVED"
    "requestsPerConnection s' = requestsPerConnection s" "bodyBytesWritten s' = bodyBytesWritten s"
proof -
  have m: "sockState s' AND 0x23FF = sockState s AND 0x23FF"
    using assms by (simp add: polite_step_def)
  show "state_of s' = state_of s"
    using mask_mask [OF m, of 511] by (simp add: state_of_def and.assoc)
  show "in_state s' SERVER_CANNOT_REUSE_CONNECTION = in_state s SERVER_CANNOT_REUSE_CONNECTION"
    using mask_mask [OF m, of 512] by (simp add: in_state_def has_flag_def and.assoc and.commute [of 512])
  show "in_state s' SERVER_LAST_CHUNK_RECEIVED = in_state s SERVER_LAST_CHUNK_RECEIVED"
    using mask_mask [OF m, of 8192] by (simp add: in_state_def has_flag_def and.assoc and.commute [of 8192])
  have eq: "s' = s\<lparr>sockState := sockState s', transaction := transaction s'\<rparr>"
    using assms by (simp add: polite_step_def)
  show "recvBuffer s' = recvBuffer s" "sendBuffer s' = sendBuffer s" "bytesAvailable s' = bytesAvailable s"
    "requestsPerConnection s' = requestsPerConnection s" "bodyBytesWritten s' = bodyBytesWritten s"
    by (subst eq; simp)+
  show "transaction s' = None \<longleftrightarrow> transaction s = None"
    using assms by (auto simp: polite_step_def option_rel_Some1 option_rel_Some2)
qed

lemma polite_inv: "polite_step s s' \<Longrightarrow> server_inv s' \<longleftrightarrow> server_inv s"
  by (simp add: server_inv_def politeD)

lemma polite_goes [intro]: "polite_step s s' \<Longrightarrow> goes s s'"
  by (simp add: goes_def polite_inv politeD server_moves_def)

locale polite_body =
  fixes bh :: "('c, 'w, 'a server_socket) body_handler"
  assumes consume_polite: "consume_body bh os n c w s = (e, k, c', w', s') \<Longrightarrow> polite_step s s'"
    and offer_polite: "offer_body bh c w s = (e, k, c', w', s') \<Longrightarrow> polite_step s s'"
    and produce_polite: "produce_body bh n c w s = (e, os, c', w', s') \<Longrightarrow> polite_step s s'"

locale polite_handler =
  fixes h :: "('w, 'a) server_handler"
  assumes begin_polite: "beginTransaction h w s = (e, w', s') \<Longrightarrow> polite_step s s'"
    and headers_polite: "receiveRequestHeaders h w s = (e, w', s') \<Longrightarrow> polite_step s s'"
    and end_polite: "endTransaction h st w s = (w', s') \<Longrightarrow> polite_step s s'"

text \<open>The two adaptors never touch the socket.\<close>

interpretation producer: polite_body "body_producer buf sz"
  by unfold_locales (auto simp: body_producer_def split: if_splits)

interpretation consumer: polite_body "body_consumer sz"
  by unfold_locales (auto simp: body_consumer_def Let_def split: if_splits)

end
