(* ===== verification/ServerMachine.thy ===== *)
theory ServerMachine
  imports ServerInvariant
begin

text \<open>
  Every state handler of the server socket, and so the whole machine, keeps the invariant and moves
  along the allowed transitions, whatever the multiplexer, the kernel and the parsers answer, if the
  callbacks are polite.
\<close>

section \<open>Elementary moves\<close>

lemma goes_to_headers:
  "state_of s = 2 \<Longrightarrow> transaction s \<noteq> None \<Longrightarrow> in_state s SERVER_CANNOT_REUSE_CONNECTION \<Longrightarrow>
    goes s (stateTransition SERVER_PARSING_HEADERS s)"
  by (auto simp: goes_def server_inv_def intro!: server_moves_step)

lemma goes_to_body: "state_of s = 4 \<Longrightarrow> goes s (stateTransition SERVER_PARSING_BODY s)"
  by (auto simp: goes_def server_inv_def intro!: server_moves_step)

lemma goes_to_trailer:
  "state_of s = 8 \<Longrightarrow> bytesAvailable s = 0 \<Longrightarrow> goes s (stateTransition SERVER_SKIPPING_TRAILER s)"
  by (auto simp: goes_def server_inv_def intro!: server_moves_step)

lemma goes_to_response:
  assumes "state_of s \<in> {2, 4, 8}" "transaction s \<noteq> None"
  shows "goes s (stateTransition SERVER_FORMATTING_HEADERS s)"
proof -
  have "server_moves s (stateTransition SERVER_FORMATTING_HEADERS s)"
    using assms(1) by (auto intro!: server_moves_step)
  moreover have "server_inv s \<Longrightarrow> server_inv (stateTransition SERVER_FORMATTING_HEADERS s)"
    using assms unfolding server_inv_def by (elim insertE) simp_all
  ultimately show ?thesis
    by (simp add: goes_def)
qed

lemma goes_trailer_skipped:
  "state_of s = 16 \<Longrightarrow>
    goes s (stateTransition SERVER_FORMATTING_HEADERS (clearFlag SERVER_CANNOT_REUSE_CONNECTION s))"
  by (auto simp: goes_def server_inv_def intro!: server_moves_step)

lemma goes_to_send_body:
  "state_of s = 32 \<Longrightarrow> sendBuffer s \<noteq> None \<Longrightarrow> goes s (stateTransition SERVER_FORMATTING_BODY s)"
  by (auto simp: goes_def server_inv_def intro!: server_moves_step)

lemma goes_to_flush: "state_of s = 64 \<Longrightarrow> goes s (stateTransition SERVER_FLUSHING_BODY s)"
  by (auto simp: goes_def server_inv_def intro!: server_moves_step)

lemma goes_to_end: "state_of s = 128 \<Longrightarrow> goes s (stateTransition SERVER_TRANSACTION_END s)"
  by (auto simp: goes_def server_inv_def intro!: server_moves_step)

lemma reuse_inv:
  "state_of s = 256 \<Longrightarrow> \<not> in_state s SERVER_CANNOT_REUSE_CONNECTION \<Longrightarrow> server_inv s \<Longrightarrow>
    server_inv ((stateTransition SERVER_TRANSACTION_BEGIN s)\<lparr>bodyBytesWritten := k, transaction := Some t\<rparr>)"
  by (auto simp: server_inv_def)

lemma in_state_single:
  "state_of s = 2 \<Longrightarrow> in_state s SERVER_TRANSACTION_BEGIN"
  "state_of s = 8 \<Longrightarrow> in_state s SERVER_PARSING_BODY"
  by (simp_all add: state_in_state)

section \<open>Parts that stay in their state\<close>

text \<open>The parts below change neither the state nor the flags, and count no request.\<close>

definition stays :: "'a server_socket \<Rightarrow> 'a server_socket \<Rightarrow> bool" where
  "stays s s' \<longleftrightarrow> (server_inv s \<longrightarrow> server_inv s') \<and> state_of s' = state_of s \<and>
     requestsPerConnection s' = requestsPerConnection s \<and>
     (transaction s \<noteq> None \<longrightarrow> transaction s' \<noteq> None) \<and> (sendBuffer s \<noteq> None \<longrightarrow> sendBuffer s' \<noteq> None) \<and>
     (in_state s SERVER_CANNOT_REUSE_CONNECTION \<longrightarrow> in_state s' SERVER_CANNOT_REUSE_CONNECTION)"

lemma stays_refl [simp, intro]: "stays s s"
  by (simp add: stays_def)

lemma stays_trans [trans]: "stays s s' \<Longrightarrow> stays s' s'' \<Longrightarrow> stays s s''"
  unfolding stays_def by auto

lemma stays_moves: "stays s s' \<Longrightarrow> server_moves s s'"
  by (simp add: stays_def server_moves_def)

lemma stays_goes: "stays s s' \<Longrightarrow> goes s s'"
  by (simp add: goes_def stays_moves) (simp add: stays_def)

lemma server_moves_same:
  assumes "state_of s = state_of t" "requestsPerConnection s = requestsPerConnection t"
  shows "server_moves s u = server_moves t u" "server_moves u s = server_moves u t"
  using assms by (simp_all add: server_moves_def)

lemma stays_then [trans]: "stays s s' \<Longrightarrow> goes s' s'' \<Longrightarrow> goes s s''"
  using server_moves_same(1) [of s s' s''] by (simp add: goes_def stays_def)

lemma goes_then_stays [trans]: "goes s s' \<Longrightarrow> stays s' s'' \<Longrightarrow> goes s s''"
  using server_moves_same(2) [of s' s'' s] by (simp add: goes_def stays_def)

lemma staysD:
  assumes "stays s s'"
  shows "state_of s' = state_of s" "transaction s \<noteq> None \<Longrightarrow> transaction s' \<noteq> None"
    "sendBuffer s \<noteq> None \<Longrightarrow> sendBuffer s' \<noteq> None"
    "in_state s SERVER_CANNOT_REUSE_CONNECTION \<Longrightarrow> in_state s' SERVER_CANNOT_REUSE_CONNECTION"
    "requestsPerConnection s' = requestsPerConnection s"
  using assms by (auto simp: stays_def)

lemma stays_inv: "stays s s' \<Longrightarrow> server_inv s \<Longrightarrow> server_inv s'"
  by (simp add: stays_def)

lemma inv_transaction: "server_inv s \<Longrightarrow> state_of s \<notin> {1, 2} \<Longrightarrow> transaction s \<noteq> None"
  by (auto simp: server_inv_def)

lemma polite_stays: "polite_step s s' \<Longrightarrow> stays s s'"
  by (auto simp: stays_def politeD polite_inv)

lemma stays_set [simp]:
  "stays s (s\<lparr>recvBuffer := Some b\<rparr>)" "stays s (s\<lparr>sendBuffer := Some b\<rparr>)"
  "stays s (s\<lparr>bodyBytesWritten := k\<rparr>)" "stays s (addFlag SERVER_CANNOT_REUSE_CONNECTION s)"
  by (auto simp: stays_def server_inv_def has_flag_def)

lemma stays_set_transaction: "transaction s \<noteq> None \<Longrightarrow> stays s (set_transaction t s)"
  by (simp add: stays_def server_inv_def)

lemma stays_transaction_recv:
  "transaction s \<noteq> None \<Longrightarrow> stays s ((set_transaction t s)\<lparr>recvBuffer := Some b\<rparr>)"
  by (rule stays_trans [OF stays_set_transaction stays_set(1)])

lemma stays_transaction_send:
  "transaction s \<noteq> None \<Longrightarrow> stays s ((set_transaction t s)\<lparr>sendBuffer := Some b\<rparr>)"
  by (rule stays_trans [OF stays_set_transaction stays_set(2)])

lemma fill_buffer_stays:
  "transaction s \<noteq> None \<Longrightarrow> fill_buffer env b w s = (e, w', s') \<Longrightarrow> stays s s'"
  by (auto simp: fill_buffer_def split: prod.splits)

lemma stays_new_transaction:
  "state_of s \<in> {1, 2} \<Longrightarrow> recvBuffer s \<noteq> None \<Longrightarrow> stays s (s\<lparr>transaction := Some t\<rparr>)"
  by (auto simp: stays_def server_inv_def)

lemma fillReceiveBuffer_goes:
  assumes "fillReceiveBuffer env w s = (e, w', s')" "server_inv s"
  shows "stays s s'"
proof -
  have t: "transaction s = None \<Longrightarrow> state_of s \<in> {1, 2}"
    using assms(2) by (auto simp: server_inv_def)
  have f: "stays s s'" if "fill_with_transaction env b w1 s1 = (e, w', s')" "stays s s1"
      "state_of s1 = state_of s" "transaction s1 = transaction s" "recvBuffer s1 \<noteq> None" for b w1 s1
  proof (cases "transaction s1")
    case None
    then have new: "stays s (s1\<lparr>transaction := Some t\<rparr>)" for t
      using that t stays_new_transaction [of s1 t] stays_trans [OF that(2)] by auto
    show ?thesis
      using that(1,2) None
      by (auto simp: fill_with_transaction_def split: prod.splits option.splits
          dest!: fill_buffer_stays [rotated] intro: stays_trans [OF new])
  next
    case (Some t)
    then show ?thesis
      using that fill_buffer_stays [of s1 env b w1] stays_trans [OF that(2)]
      by (auto simp: fill_with_transaction_def)
  qed
  show ?thesis
    using assms(1) f stays_set(1)
    by (auto simp: fillReceiveBuffer_def split: option.splits prod.splits)
qed

lemma flushSendBuffer_stays:
  "flushSendBuffer env w s = Some (e, w', s') \<Longrightarrow> stays s s'"
  by (auto simp: flushSendBuffer_def split: option.splits if_splits)

lemma on_formatter_stays: "on_formatter g s = (e, s') \<Longrightarrow> stays s s'"
  by (auto simp: on_formatter_def Let_def stays_transaction_send split: option.splits prod.splits)

lemma formatStartChunk_stays: "formatStartChunk n s = (e, k, s') \<Longrightarrow> stays s s'"
  by (auto simp: formatStartChunk_def Let_def stays_transaction_send split: option.splits prod.splits)

lemma setResponse_stays: "setResponse env st r s = (e, s') \<Longrightarrow> stays s s'"
  by (auto simp: setResponse_def Let_def stays_set_transaction split: option.splits)

lemma stays_body:
  assumes "state_of s = 8"
  shows "stays s (s\<lparr>bytesAvailable := n\<rparr>)" "stays s (addFlag SERVER_LAST_CHUNK_RECEIVED s)"
  using assms by (auto simp: stays_def server_inv_def has_flag_def)

lemma currentChunk_stays:
  assumes "currentChunkBytesAvailable s = (e, n, s')" "state_of s = 8"
  shows "stays s s'" "e = ESB_SUCCESS \<Longrightarrow> bytesAvailable s' = n"
proof -
  have body: "stays s ((set_transaction t s)\<lparr>recvBuffer := Some b, bytesAvailable := k\<rparr>)"
    "stays s ((set_transaction t s)\<lparr>recvBuffer := Some b\<rparr>)"
    "stays s (addFlag SERVER_LAST_CHUNK_RECEIVED ((set_transaction t s)\<lparr>recvBuffer := Some b, bytesAvailable := k\<rparr>))"
    if "transaction s \<noteq> None" for t :: "'a server_transaction" and b k
    using stays_transaction_recv [OF that, where t = t and b = b] stays_body(1) [of "(set_transaction t s)\<lparr>recvBuffer := Some b\<rparr>" k]
      stays_body(2) [of "(set_transaction t s)\<lparr>recvBuffer := Some b, bytesAvailable := k\<rparr>"] assms(2)
    by (auto intro: stays_trans)
  show "stays s s'" "e = ESB_SUCCESS \<Longrightarrow> bytesAvailable s' = n"
    using assms body
    by (auto simp: currentChunkBytesAvailable_def Let_def word_neq_0_conv [symmetric]
        split: option.splits prod.splits if_splits)
qed

lemma consume_received_stays: "consume_received n s = (e, s') \<Longrightarrow> state_of s = 8 \<Longrightarrow> stays s s'"
  by (auto simp: consume_received_def Let_def stays_transaction_recv
      intro: stays_trans [OF stays_transaction_recv stays_body(1)]
      split: option.splits prod.splits if_splits)

section \<open>The states\<close>

context polite_handler begin

lemma begin_goes:
  assumes "stateBeginTransaction env h w s = (e, w', s')" "state_of s = 2"
  shows "goes s s'"
proof (cases "transaction s")
  case None
  then show ?thesis
    using assms(1) stays_goes [OF stays_set(4)] by (auto simp: stateBeginTransaction_def)
next
  case (Some t)
  let ?s1 = "set_transaction (t\<lparr>peerAddress := sockPeer env w\<rparr>) (addFlag SERVER_CANNOT_REUSE_CONNECTION s)"
  obtain e2 w2 s2 where r: "beginTransaction h w ?s1 = (e2, w2, s2)"
    by (cases "beginTransaction h w ?s1")
  have "stays s ?s1"
    by (rule stays_trans [OF stays_set(4) stays_set_transaction]) (simp add: Some)
  moreover note p = begin_polite [OF r]
  ultimately have st: "stays s s2"
    by (blast intro: stays_trans polite_stays)
  have s2: "state_of s2 = 2" "transaction s2 \<noteq> None" "in_state s2 SERVER_CANNOT_REUSE_CONNECTION"
    using assms(2) p by (simp_all add: politeD has_flag_def)
  show ?thesis
    using assms(1) Some r stays_goes [OF st] stays_then [OF st goes_to_headers [OF s2]]
      stays_then [OF st goes_to_response] s2
    by (auto simp: stateBeginTransaction_def conditionalStateTransition_def in_state_single split: if_splits)
qed

lemma headers_goes:
  assumes "stateReceiveRequestHeaders env h w s = (e, w', s')" "state_of s = 4"
  shows "goes s s'"
proof (cases "transaction s = None \<or> recvBuffer s = None")
  case True
  then show ?thesis
    using assms(1) by (auto simp: stateReceiveRequestHeaders_def split: option.splits)
next
  case False
  then obtain t b where tb: "transaction s = Some t" "recvBuffer s = Some b"
    by auto
  obtain e1 p b1 r where g: "request_parseHeaders (allocate env) (parser t) b (request t) = (e1, p, b1, r)"
    by (cases "request_parseHeaders (allocate env) (parser t) b (request t)") auto
  let ?s1 = "(set_transaction (t\<lparr>parser := p, request := r\<rparr>) s)\<lparr>recvBuffer := Some b1\<rparr>"
  have st: "stays s ?s1"
    by (rule stays_transaction_recv) (simp add: tb)
  have bad: "goes s (stateTransition SERVER_FORMATTING_HEADERS (snd (setResponse env n m ?s1)))" for n m
  proof -
    have "stays s (snd (setResponse env n m ?s1))"
      using stays_trans [OF st setResponse_stays] by (cases "setResponse env n m ?s1") auto
    then show ?thesis
      using assms(2) tb by (intro stays_then [OF _ goes_to_response]) (auto simp: staysD)
  qed
  obtain e2 w2 s2 where c: "receiveRequestHeaders h w (stateTransition SERVER_PARSING_BODY ?s1) = (e2, w2, s2)"
    by (cases "receiveRequestHeaders h w (stateTransition SERVER_PARSING_BODY ?s1)")
  have p: "polite_step (stateTransition SERVER_PARSING_BODY ?s1) s2"
    by (rule headers_polite [OF c])
  have s2: "state_of s2 = 8" "transaction s2 \<noteq> None"
    using politeD(1,5) [OF p] by auto
  have "goes s (stateTransition SERVER_PARSING_BODY ?s1)"
    using assms(2) by (intro stays_then [OF st goes_to_body]) simp
  then have g2: "goes s s2"
    by (rule goes_then_stays [OF _ polite_stays [OF p]])
  have g3: "goes s (stateTransition SERVER_FORMATTING_HEADERS s2)"
    unfolding goes_def
  proof (intro impI conjI)
    assume "server_inv s"
    then have "server_inv s2"
      using g2 by (simp add: goes_def)
    then show "server_inv (stateTransition SERVER_FORMATTING_HEADERS s2)"
      using goes_to_response [of s2] s2 by (simp add: goes_def)
    show "server_moves s (stateTransition SERVER_FORMATTING_HEADERS s2)"
      using assms(2) politeD(8) [OF p] by (intro server_moves_step) (simp_all add: respond_to_headers)
  qed
  show ?thesis
    using assms(1) tb g c stays_goes [OF st] bad g2 g3
    by (auto simp: stateReceiveRequestHeaders_def conditionalStateTransition_def Let_def split: if_splits)
qed

lemma end_goes:
  assumes "stateEndTransaction env h w s = (e, w', s')" "state_of s = 256"
  shows "goes s s'"
proof -
  let ?s0 = "s\<lparr>requestsPerConnection := requestsPerConnection s + 1\<rparr>"
  obtain w1 s1 where r: "endTransaction h ES_HTTP_SERVER_HANDLER_END w ?s0 = (w1, s1)"
    by (cases "endTransaction h ES_HTTP_SERVER_HANDLER_END w ?s0")
  note p = end_polite [OF r]
  have s1: "state_of s1 = 256" "requestsPerConnection s1 = requestsPerConnection s + 1"
    using politeD(1,8) [OF p] assms(2) by simp_all
  have inv: "server_inv s \<Longrightarrow> server_inv s1"
    using polite_inv [OF p] by (simp add: server_inv_def)
  then have g: "goes s s1"
    using s1 assms(2) by (simp add: goes_def server_moves_def)
  have "goes s ((stateTransition SERVER_TRANSACTION_BEGIN s1)\<lparr>bodyBytesWritten := k, transaction := Some t\<rparr>)"
    if "\<not> in_state s1 SERVER_CANNOT_REUSE_CONNECTION" for k t
    using reuse_inv [OF s1(1) that] inv s1 assms(2) by (simp add: goes_def server_moves_def)
  then show ?thesis
    using assms(1) r g by (auto simp: stateEndTransaction_def split: if_splits option.splits)
qed

end

context polite_body begin

lemma last_chunk_goes:
  assumes "offer_last_chunk bh c w s = (e, c', w', s')" "state_of s = 8" "bytesAvailable s = 0"
  shows "goes s s'"
proof -
  obtain e1 k c1 w1 s1 where
    r: "consume_body bh [0] 0 c w (stateTransition SERVER_SKIPPING_TRAILER s) = (e1, k, c1, w1, s1)"
    by (cases "consume_body bh [0] 0 c w (stateTransition SERVER_SKIPPING_TRAILER s)") auto
  have "goes s s1"
    by (rule goes_then_stays [OF goes_to_trailer [OF assms(2,3)] polite_stays [OF consume_polite [OF r]]])
  then show ?thesis
    using assms(1) r by (auto simp: offer_last_chunk_def)
qed

lemma offer_chunk_goes:
  assumes "offer_chunk bh n c w s = (finished, e, c', w', s')" "state_of s = 8" "transaction s \<noteq> None"
  shows "goes s s'" "\<not> finished \<Longrightarrow> stays s s'"
proof -
  have "goes s s' \<and> (\<not> finished \<longrightarrow> stays s s')"
  proof (cases "recvBuffer s")
    case None
    then show ?thesis
      using assms(1) by (auto simp: offer_chunk_def)
  next
    case (Some b)
    let ?os = "take (unat n) (unread b)"
    obtain e1 k c1 w1 s1 where r: "consume_body bh ?os n c w s = (e1, k, c1, w1, s1)"
      by (cases "consume_body bh ?os n c w s") auto
    obtain e2 s2 where c: "(if 0 < k then consume_received k s1 else (ESB_SUCCESS, s1)) = (e2, s2)"
      by (cases "if 0 < k then consume_received k s1 else (ESB_SUCCESS, s1)")
    have s1: "stays s s1"
      by (rule polite_stays [OF consume_polite [OF r]])
    then have "stays s1 s2"
      using c consume_received_stays [of k s1 e2 s2] staysD(1) [OF s1] assms(2) by (auto split: if_splits)
    with s1 have s2: "stays s s2"
      by (rule stays_trans)
    then have "goes s (stateTransition SERVER_FORMATTING_HEADERS s2)"
      using assms(2,3) by (intro stays_then [OF _ goes_to_response]) (auto simp: staysD)
    then show ?thesis
      using assms(1) Some r c s2 stays_goes [OF s2]
      by (auto simp: offer_chunk_def conditionalStateTransition_def split: if_splits)
  qed
  then show "goes s s'" "\<not> finished \<Longrightarrow> stays s s'"
    by auto
qed

lemma receive_body_goes:
  assumes "stateReceiveRequestBody env bh c w s = Some y" "server_inv s" "state_of s = 8"
  shows "goes s (snd (snd (snd y)))"
proof -
  let ?P = "\<lambda>env' bh' c w s y. bh' = bh \<longrightarrow> server_inv s \<and> state_of s = 8 \<longrightarrow> goes s (snd (snd (snd y)))"
  have "?P env bh c w s y"
  proof (rule stateReceiveRequestBody.raw_induct [where P = ?P, OF _ assms(1)], intro impI)
    fix f env' bh' c w s y
    assume IH: "\<And>env' bh' c w s y. f env' bh' c w s = Some y \<Longrightarrow> ?P env' bh' c w s y"
      and round: "(if isShutdown env' w then Some (ESB_SHUTDOWN, c, w, s)
        else case currentChunkBytesAvailable s of (e, n, s1) \<Rightarrow>
          if e \<noteq> ESB_SUCCESS then Some (e, c, w, s1)
          else if n = 0 then Some (offer_last_chunk bh' c w s1)
          else case offer_chunk bh' n c w s1 of (finished, e2, c2, w2, s2) \<Rightarrow>
            if finished then Some (e2, c2, w2, s2) else f env' bh' c2 w2 s2) = Some y"
      and bh: "bh' = bh" and inv: "server_inv s \<and> state_of s = 8"
    obtain e n s1 where a: "currentChunkBytesAvailable s = (e, n, s1)"
      by (cases "currentChunkBytesAvailable s") auto
    note st = currentChunk_stays [OF a]
    have s1: "stays s s1" "state_of s1 = 8" "server_inv s1" "transaction s1 \<noteq> None"
      using st(1) inv stays_inv [of s s1] inv_transaction [of s1] by (simp_all add: staysD(1))
    obtain finished e2 c2 w2 s2 where o: "offer_chunk bh n c w s1 = (finished, e2, c2, w2, s2)"
      by (cases "offer_chunk bh n c w s1") auto
    have g2: "goes s s2" "\<not> finished \<Longrightarrow> stays s s2 \<and> server_inv s2 \<and> state_of s2 = 8"
      using offer_chunk_goes [OF o s1(2,4)] stays_then [OF s1(1)] stays_trans [OF s1(1)] s1(2,3) stays_inv [of s1 s2]
      by (auto dest: staysD(1))
    obtain e3 c3 w3 s3 where l: "offer_last_chunk bh c w s1 = (e3, c3, w3, s3)"
      by (cases "offer_last_chunk bh c w s1") auto
    have g3: "goes s s3" if "n = 0" "e = ESB_SUCCESS"
      using last_chunk_goes [OF l s1(2)] stays_then [OF s1(1)] st(2) inv that by auto
    have again: "goes s (snd (snd (snd y)))" if "f env' bh c2 w2 s2 = Some y" "\<not> finished"
      using IH [OF that(1)] stays_then g2(2) that(2) by blast
    show "goes s (snd (snd (snd y)))"
      using round bh g2(1) g3 again stays_goes [OF s1(1)] by (simp add: a o l split: if_splits) auto
  qed
  then show ?thesis
    using assms by blast
qed

lemma send_chunk_stays:
  assumes "send_chunk bh n c w s = (e, c', w', s')"
  shows "stays s s'"
proof -
  obtain e1 k s1 where a: "formatStartChunk n s = (e1, k, s1)"
    by (cases "formatStartChunk n s") auto
  obtain e2 os c2 w2 s2 where p: "produce_body bh k c w s1 = (e2, os, c2, w2, s2)"
    by (cases "produce_body bh k c w s1") auto
  let ?s3 = "s2\<lparr>sendBuffer := map_option (store_body os k) (sendBuffer s2),
    bodyBytesWritten := bodyBytesWritten s2 + k\<rparr>"
  obtain e4 s4 where f: "formatEndChunk ?s3 = (e4, s4)"
    by (cases "formatEndChunk ?s3")
  have s2: "stays s s2"
    by (rule stays_trans [OF formatStartChunk_stays [OF a] polite_stays [OF produce_polite [OF p]]])
  have "stays s2 ?s3"
    by (cases "sendBuffer s2") (auto simp: stays_def server_inv_def)
  then have "stays s s4"
    using s2 f by (auto simp: formatEndChunk_def dest!: on_formatter_stays intro: stays_trans)
  then show ?thesis
    using assms a p f s2 formatStartChunk_stays [OF a] by (auto simp: send_chunk_def Let_def split: if_splits)
qed

lemma end_response_body_goes:
  assumes "end_response_body s = (e, s')" "state_of s = 64"
  shows "goes s s'"
proof -
  obtain e1 s1 where a: "on_formatter (\<lambda>f b r. endBody f b) s = (e1, s1)"
    by (cases "on_formatter (\<lambda>f b r. endBody f b) s")
  note st = on_formatter_stays [OF a]
  then show ?thesis
    using assms a stays_then [OF st goes_to_flush]
    by (auto simp: end_response_body_def staysD stays_goes)
qed

lemma send_body_goes:
  assumes "stateSendResponseBody env bh c w s = Some y" "state_of s = 64"
  shows "goes s (snd (snd (snd y)))"
proof -
  let ?P = "\<lambda>env' bh' c w s y. bh' = bh \<longrightarrow> state_of s = 64 \<longrightarrow> goes s (snd (snd (snd y)))"
  have "?P env bh c w s y"
  proof (rule stateSendResponseBody.raw_induct [where P = ?P, OF _ assms(1)], intro impI)
    fix f env' bh' c w s y
    assume IH: "\<And>env' bh' c w s y. f env' bh' c w s = Some y \<Longrightarrow> ?P env' bh' c w s y"
      and round: "(if isShutdown env' w then Some (ESB_SHUTDOWN, c, w, s)
        else case offer_body bh' c w s of (e, offered, c1, w1, s1) \<Rightarrow>
          if e = ESB_AGAIN \<or> e = ESB_PAUSE then Some (ESB_PAUSE, c1, w1, s1)
          else if e \<noteq> ESB_SUCCESS then Some (e, c1, w1, s1)
          else if offered = 0 then case end_response_body s1 of (e2, s2) \<Rightarrow> Some (e2, c1, w1, s2)
          else case send_chunk bh' offered c1 w1 s1 of (e2, c2, w2, s2) \<Rightarrow>
            if e2 \<noteq> ESB_SUCCESS then Some (e2, c2, w2, s2) else f env' bh' c2 w2 s2) = Some y"
      and bh: "bh' = bh" and st: "state_of s = 64"
    obtain e n c1 w1 s1 where a: "offer_body bh c w s = (e, n, c1, w1, s1)"
      by (cases "offer_body bh c w s") auto
    have s1: "stays s s1" "state_of s1 = 64"
      using polite_stays [OF offer_polite [OF a]] st by (auto simp: staysD)
    obtain e2 s2 where b: "end_response_body s1 = (e2, s2)"
      by (cases "end_response_body s1")
    obtain e3 c3 w3 s3 where d: "send_chunk bh n c1 w1 s1 = (e3, c3, w3, s3)"
      by (cases "send_chunk bh n c1 w1 s1") auto
    have s3: "stays s s3" "state_of s3 = 64"
      using stays_trans [OF s1(1) send_chunk_stays [OF d]] st by (auto simp: staysD)
    have again: "goes s (snd (snd (snd y)))" if "f env' bh c3 w3 s3 = Some y"
      using IH [OF that] stays_then [OF s3(1)] s3(2) by blast
    show "goes s (snd (snd (snd y)))"
      using round bh again stays_goes [OF s1(1)] stays_goes [OF s3(1)]
        stays_then [OF s1(1) end_response_body_goes [OF b s1(2)]]
      by (simp add: a b d split: if_splits) auto
  qed
  then show ?thesis
    using assms by blast
qed

end

lemma skip_trailer_goes: "stateSkipTrailer s = (e, s') \<Longrightarrow> state_of s = 16 \<Longrightarrow> goes s s'"
  by (auto simp: stateSkipTrailer_def Let_def stays_goes stays_transaction_recv
      intro: stays_then [OF stays_transaction_recv goes_trailer_skipped]
      split: option.splits prod.splits if_splits)

lemma send_headers_goes:
  assumes "stateSendResponseHeaders env w s = (e, w', s')" "state_of s = 32"
  shows "goes s s'"
proof -
  have "goes s (if e2 = ESB_SUCCESS then stateTransition SERVER_FORMATTING_BODY s2 else s2)"
    if "on_formatter response_formatHeaders (s\<lparr>sendBuffer := Some b\<rparr>) = (e2, s2)" for b e2 s2
  proof -
    note st = stays_trans [OF stays_set(2) on_formatter_stays [OF that]]
    have "sendBuffer s2 \<noteq> None"
      using staysD(3) [OF on_formatter_stays [OF that]] by simp
    then show ?thesis
      using assms(2) stays_goes [OF st] stays_then [OF st goes_to_send_body]
      by (auto simp: staysD(1) [OF st])
  qed
  note on = this
  show ?thesis
  proof (cases "case sendBuffer s of Some b \<Rightarrow> (Some b, w) | None \<Rightarrow> acquireBuffer env w")
    case (Pair b w1)
    show ?thesis
    proof (cases b)
      case None
      then show ?thesis
        using assms(1) Pair by (simp add: stateSendResponseHeaders_def)
    next
      case (Some b1)
      obtain e2 s2 where f: "on_formatter response_formatHeaders (s\<lparr>sendBuffer := Some b1\<rparr>) = (e2, s2)"
        by (cases "on_formatter response_formatHeaders (s\<lparr>sendBuffer := Some b1\<rparr>)")
      show ?thesis
        using on [OF f] assms(1) Pair Some f by (auto simp: stateSendResponseHeaders_def)
    qed
  qed
qed

lemma flush_goes:
  assumes "stateFlushResponseBody env w s = Some (e, w', s')" "state_of s = 128"
  shows "goes s s'"
proof -
  obtain s1 where f: "flushSendBuffer env w s = Some (e, w', s1)"
      "s' = (if e = ESB_SUCCESS then stateTransition SERVER_TRANSACTION_END s1 else s1)"
    using assms(1) by (auto simp: stateFlushResponseBody_def)
  note st = flushSendBuffer_stays [OF f(1)]
  show ?thesis
    using f(2) assms(2) stays_goes [OF st] stays_then [OF st goes_to_end]
    by (simp add: staysD(1) [OF st])
qed

section \<open>The machine\<close>

text \<open>The socket after a round of the machine, whether that is the last one or not.\<close>

definition round_socket ::
  "('c, 'w, 'a) machine_result + bool \<times> bool \<times> 'c \<times> 'w \<times> 'a server_socket \<Rightarrow> 'a server_socket" where
  "round_socket r = (case r of Inl (_, _, _, s) \<Rightarrow> s | Inr (_, _, _, _, s) \<Rightarrow> s)"

locale polite_machine = polite_handler h + polite_body bh
  for h :: "('w, 'a) server_handler" and bh :: "('c, 'w, 'a server_socket) body_handler"
begin

lemma run_state_goes:
  assumes "run_state env h bh c w s = Some (e, c', w', s')" "server_inv s"
  shows "goes s s'"
  using assms begin_goes [of env w s] headers_goes [of env w s] receive_body_goes [of env c w s]
    skip_trailer_goes [of s] send_headers_goes [of env w s] send_body_goes [of env c w s]
    flush_goes [of env w s] end_goes [of env w s]
  by (fastforce simp: run_state_def with_c_def Let_def state_of_def split: if_splits prod.splits)

lemma round_goes:
  assumes "machine_round env h bh fl fill drain c w s = Some r" "server_inv s"
  shows "goes s (round_socket r)"
proof -
  obtain e0 w0 s0 where f: "(if fill then fillReceiveBuffer env w s else (ESB_SUCCESS, w, s)) = (e0, w0, s0)"
    by (cases "if fill then fillReceiveBuffer env w s else (ESB_SUCCESS, w, s)") auto
  have s0: "stays s s0"
    using f fillReceiveBuffer_goes [of env w s e0 w0 s0] assms(2) by (auto split: if_splits)
  have g: "goes s s1" if "run_state env h bh c w0 s0 = Some (e, c1, w1, s1)" for e c1 w1 s1
    using run_state_goes [OF that stays_inv [OF s0 assms(2)]] stays_then [OF s0] by blast
  have g2: "goes s s2" if "run_state env h bh c w0 s0 = Some (e, c1, w1, s1)"
      "flushSendBuffer env w1 s1 = Some (e2, w2, s2)" for e c1 w1 s1 e2 w2 s2
    by (rule goes_then_stays [OF g [OF that(1)] flushSendBuffer_stays [OF that(2)]])
  show ?thesis
    using assms(1) stays_goes [OF s0] g g2
    by (auto simp: machine_round_def round_socket_def Let_def f
        split: if_splits prod.splits option.splits)
qed

lemma machine_loop_goes:
  assumes "machine_loop env h bh fl fill drain c w s = Some y" "server_inv s"
  shows "server_inv (snd (snd (snd y))) \<and> server_follows s (snd (snd (snd y)))"
proof -
  let ?Q = "\<lambda>s s'. server_inv s' \<and> server_follows s s'"
  let ?P = "\<lambda>env' h' bh' fl fill drain c w s y.
    h' = h \<longrightarrow> bh' = bh \<longrightarrow> server_inv s \<longrightarrow> ?Q s (snd (snd (snd y)))"
  have "?P env h bh fl fill drain c w s y"
  proof (rule machine_loop.raw_induct [where P = ?P, OF _ assms(1)], intro impI)
    fix f env' h' bh' fl fill drain c w s y
    assume IH: "\<And>env' h' bh' fl fill drain c w s y. f env' h' bh' fl fill drain c w s = Some y \<Longrightarrow>
          ?P env' h' bh' fl fill drain c w s y"
      and round: "(case machine_round env' h' bh' fl fill drain c w s of None \<Rightarrow> None
        | Some (Inl res) \<Rightarrow> Some res
        | Some (Inr (fill1, drain1, c1, w1, s1)) \<Rightarrow> f env' h' bh' fl fill1 drain1 c1 w1 s1) = Some y"
      and h: "h' = h" "bh' = bh" and inv: "server_inv s"
    obtain r where r: "machine_round env' h bh fl fill drain c w s = Some r"
      using round h by (auto split: option.splits)
    have g: "?Q s (round_socket r)"
      using round_goes [OF r inv] inv server_moves_follows [of s "round_socket r"] by (simp add: goes_def)
    show "?Q s (snd (snd (snd y)))"
    proof (cases r)
      case (Inl res)
      then show ?thesis
        using round h r g by (cases res) (auto simp: round_socket_def)
    next
      case (Inr t)
      obtain fill1 drain1 c1 w1 s1 where t: "t = (fill1, drain1, c1, w1, s1)"
        by (cases t)
      have s1: "?Q s s1"
        using g Inr t by (simp add: round_socket_def)
      have "f env' h' bh' fl fill1 drain1 c1 w1 s1 = Some y"
        using round h r Inr t by simp
      then have "?Q s1 (snd (snd (snd y)))"
        using IH [of env' h' bh' fl fill1 drain1 c1 w1 s1 y] h s1 by simp
      with s1 show ?thesis
        by (auto intro: server_follows_trans)
    qed
  qed
  then show ?thesis
    using assms by blast
qed

lemma advance_goes:
  assumes "advanceStateMachine env h bh fl c w s = Some (e, c', w', s')" "server_inv s"
  shows "server_inv s'" "server_follows s s'"
  using machine_loop_goes [OF assms(1) [unfolded advanceStateMachine_def] assms(2)] by simp_all

end

section \<open>The entry points\<close>

locale polite_server = polite_machine h "bodyHandler h" for h :: "('w, 'a) server_handler"
begin

lemma advance_own_goes:
  "advance_own env h fl w s = Some (e, w', s') \<Longrightarrow> server_inv s \<Longrightarrow>
    server_inv s' \<and> server_follows s s'"
  unfolding advance_own_def by (auto dest: advance_goes)

lemma handleReadable_goes:
  "handleReadable env h w s = Some (e, w', s') \<Longrightarrow> server_inv s \<Longrightarrow>
    server_inv s' \<and> server_follows s s'"
  by (auto simp: handleReadable_def dest!: advance_own_goes split: if_splits)

lemma handleWritable_goes:
  "handleWritable env h w s = Some (e, w', s') \<Longrightarrow> server_inv s \<Longrightarrow>
    server_inv s' \<and> server_follows s s'"
  by (auto simp: handleWritable_def dest!: advance_own_goes split: if_splits)

lemma sendEmptyResponse_goes:
  assumes "sendEmptyResponse env h st r w s = Some (e, w', s')" "server_inv s"
  shows "server_inv s' \<and> server_follows s s'"
proof -
  obtain e1 s1 where a: "setResponse env st r s = (e1, s1)"
    by (cases "setResponse env st r s")
  note st = setResponse_stays [OF a]
  show ?thesis
    using assms a stays_inv [OF st] server_moves_follows [OF stays_moves [OF st]] advance_own_goes
    by (auto simp: sendEmptyResponse_def intro: server_follows_trans split: if_splits)
qed

lemma sendResponse_goes:
  assumes "sendResponse env h resp ff w s = Some (e, w', s')" "server_inv s"
  shows "server_inv s' \<and> server_follows s s'"
proof (cases "transaction s")
  case None
  then show ?thesis
    using assms by (simp add: sendResponse_def)
next
  case (Some t)
  have "server_inv (set_transaction t' s)" "server_follows s (set_transaction t' s)" for t'
    using stays_inv [OF stays_set_transaction assms(2)] server_moves_follows [OF stays_moves [OF stays_set_transaction [of s]]] Some
    by simp_all
  then show ?thesis
    using assms Some advance_own_goes server_follows_trans [of s "set_transaction t' s" for t']
    by (auto simp: sendResponse_def Let_def split: if_splits prod.splits) blast+
qed

text \<open>Removal from the multiplexer leaves nothing behind.\<close>

lemma handleRemove_inactive:
  assumes "handleRemove env h w s = (w', s')"
  shows "state_of s' = SERVER_INACTIVE" "transaction s' = None" "recvBuffer s' = None" "sendBuffer s' = None"
proof -
  obtain w1 s1 where r: "release_buffers env (sockClose env w) s = (w1, s1)"
    by (cases "release_buffers env (sockClose env w) s")
  have s1: "recvBuffer s1 = None" "sendBuffer s1 = None"
    using r by (auto simp: release_buffers_def Let_def)
  obtain w2 s2 where e: "(case removal_state (sockState s1 AND SERVER_STATE_MASK) of
      Some st \<Rightarrow> endTransaction h st w1 s1 | None \<Rightarrow> (w1, s1)) = (w2, s2)"
    by (cases "case removal_state (sockState s1 AND SERVER_STATE_MASK) of
      Some st \<Rightarrow> endTransaction h st w1 s1 | None \<Rightarrow> (w1, s1)")
  have "polite_step s1 s2"
    using e end_polite by (auto split: option.splits)
  then have "recvBuffer s2 = None" "sendBuffer s2 = None"
    using s1 by (simp_all add: politeD)
  then show "state_of s' = SERVER_INACTIVE" "transaction s' = None" "recvBuffer s' = None"
      "sendBuffer s' = None"
    using assms by (auto simp: handleRemove_def r e Let_def)
qed

end

end
