(* ===== verification/OriginHandler.thy ===== *)
theory OriginHandler
  imports ServerMachine HttpNumber
begin

text \<open>
  \<open>ES::HttpOriginHandler\<close> (data-plane/origin/source/ESHttpOriginHandler.cpp), a server handler: it
  counts the octets of the request body and answers with a body of a configured size. Its callbacks
  are polite, so the results about the server socket hold for it.
  Its per-transaction objects (\<open>HttpOriginContext\<close>) live in a heap, the first component of the world.
\<close>

section \<open>Parameters and contexts\<close>

datatype disrupt_transaction =
    HAPPY_PATH
  | STALL_SERVER_RECV_HEADERS | STALL_SERVER_RECV_BODY | STALL_SERVER_SEND_HEADERS | STALL_SERVER_SEND_BODY
  | CLOSE_SERVER_RECV_HEADERS | CLOSE_SERVER_RECV_BODY | CLOSE_SERVER_SEND_HEADERS | CLOSE_SERVER_SEND_BODY
  | STALL_CLIENT_RECV_HEADERS | STALL_CLIENT_RECV_BODY | STALL_CLIENT_SEND_HEADERS | STALL_CLIENT_SEND_BODY
  | CLOSE_CLIENT_RECV_HEADERS | CLOSE_CLIENT_RECV_BODY | CLOSE_CLIENT_SEND_HEADERS | CLOSE_CLIENT_SEND_BODY

record test_params =
  requestSize :: u64
  responseSize :: u64
  useContentLengthHeader :: bool
  contentType :: "cstr option"
  disruptTransaction :: disrupt_transaction

record origin_context =
  bytesSent :: u64
  bytesReceived :: u64

record heap_world =
  contexts :: "(u64 \<times> origin_context) list"

definition sizeof_HttpOriginContext :: u64 where
  "sizeof_HttpOriginContext = 24"

definition origin_context_at :: "u64 \<Rightarrow> 'z heap_world_scheme \<Rightarrow> origin_context option" where
  "origin_context_at a w = map_of (contexts w) a"

definition set_origin_context :: "u64 \<Rightarrow> origin_context \<Rightarrow> 'z heap_world_scheme \<Rightarrow> 'z heap_world_scheme" where
  "set_origin_context a c w = w\<lparr>contexts := (a, c) # filter (\<lambda>e. fst e \<noteq> a) (contexts w)\<rparr>"

definition free_origin_context :: "u64 \<Rightarrow> 'z heap_world_scheme \<Rightarrow> 'z heap_world_scheme" where
  "free_origin_context a w = w\<lparr>contexts := filter (\<lambda>e. fst e \<noteq> a) (contexts w)\<rparr>"

text \<open>\<open>%lu\<close>\<close>

definition decimal :: "u64 \<Rightarrow> cstr" where
  "decimal n = (if n = 0 then [48] else digits 10 (digit_count 10 (unat n)) (unat n))"

text \<open>\<open>stream.context()\<close>, \<open>stream.setContext()\<close>\<close>

definition stream_context :: "'a server_socket \<Rightarrow> u64" where
  "stream_context s = (case transaction s of None \<Rightarrow> 0 | Some t \<Rightarrow> context_of t)"

definition map_transaction ::
  "('a server_transaction \<Rightarrow> 'a server_transaction) \<Rightarrow> 'a server_socket \<Rightarrow> 'a server_socket" where
  "map_transaction f s = s\<lparr>transaction := map_option f (transaction s)\<rparr>"

definition setContext :: "u64 \<Rightarrow> 'a server_socket \<Rightarrow> 'a server_socket" where
  "setContext c = map_transaction (\<lambda>t. t\<lparr>context_of := c\<rparr>)"

definition stall :: "('w, 'a) server_env \<Rightarrow> 'w \<Rightarrow> 'a server_socket \<Rightarrow> ('w, 'a) socket_result" where
  "stall env w s =
     (case pauseSend env False w s of (_, w1, s1) \<Rightarrow>
      case pauseRecv env False w1 s1 of (_, w2, s2) \<Rightarrow> (ESB_PAUSE, w2, s2))"

section \<open>The callbacks\<close>

definition origin_beginTransaction ::
  "test_params \<Rightarrow> ('z heap_world_scheme, 'a) server_env \<Rightarrow> 'z heap_world_scheme \<Rightarrow> 'a server_socket
    \<Rightarrow> ('z heap_world_scheme, 'a) socket_result" where
  "origin_beginTransaction params env w s =
     (if disruptTransaction params = STALL_SERVER_RECV_HEADERS then stall env w s
      else if disruptTransaction params = CLOSE_SERVER_RECV_HEADERS then (ESB_CLOSED, w, s)
      else
        case transaction s of
          None \<Rightarrow> (UNDEFINED_BEHAVIOUR, w, s)
        | Some t \<Rightarrow>
            (case allocate env (allocator (parser t)) sizeof_HttpOriginContext of (e, addr, al) \<Rightarrow>
               let s1 = map_transaction (\<lambda>t. t\<lparr>parser := (parser t)\<lparr>allocator := al\<rparr>\<rparr>) s in
               if e \<noteq> ESB_SUCCESS then (ESB_OUT_OF_MEMORY, w, s1)
               else (ESB_SUCCESS, set_origin_context addr \<lparr>bytesSent = 0, bytesReceived = 0\<rparr> w,
                     setContext addr s1)))"

definition origin_receiveRequestHeaders ::
  "'w \<Rightarrow> 'a server_socket \<Rightarrow> ('w, 'a) socket_result" where
  "origin_receiveRequestHeaders w s = (ESB_SUCCESS, w, s)"

text \<open>\<open>response.addHeader(...)\<close>, whose error ends the callback.\<close>

definition stream_addHeader ::
  "('w, 'a) server_env \<Rightarrow> cstr \<Rightarrow> cstr \<Rightarrow> 'a server_socket \<Rightarrow> error \<times> 'a server_socket" where
  "stream_addHeader env name v s =
     (case transaction s of
        None \<Rightarrow> (UNDEFINED_BEHAVIOUR, s)
      | Some t \<Rightarrow>
          (case addHeader (allocate env) (allocator (parser t)) (response t) (Some name) (Some v) of
             (e, al, r) \<Rightarrow>
               (e, set_transaction (t\<lparr>parser := (parser t)\<lparr>allocator := al\<rparr>, response := r\<rparr>) s)))"

definition origin_response ::
  "test_params \<Rightarrow> ('w, 'a) server_env \<Rightarrow> 'a server_socket \<Rightarrow> error \<times> 'a server_socket" where
  "origin_response params env s =
     (let s1 = map_transaction (update_response
            (\<lambda>r. r\<lparr>statusCode := 200, reasonPhrase := Some (asc ''OK'')\<rparr>)) s in
      case (if useContentLengthHeader params
            then stream_addHeader env (asc ''Content-Length'') (decimal (requestSize params)) s1
            else stream_addHeader env (asc ''Transfer-Encoding'') (asc ''chunked'') s1) of
        (e, s2) \<Rightarrow>
          if e \<noteq> ESB_SUCCESS then (e, s2)
          else
            case contentType params of
              None \<Rightarrow> (ESB_SEND_RESPONSE, s2)
            | Some ty \<Rightarrow>
                (case stream_addHeader env (asc ''Content-Type'') ty s2 of (e2, s3) \<Rightarrow>
                   (if e2 \<noteq> ESB_SUCCESS then e2 else ESB_SEND_RESPONSE, s3)))"

definition origin_consumeRequestBody ::
  "test_params \<Rightarrow> ('z heap_world_scheme, 'a) server_env \<Rightarrow> u8 list \<Rightarrow> u64 \<Rightarrow> unit
    \<Rightarrow> 'z heap_world_scheme \<Rightarrow> 'a server_socket
    \<Rightarrow> error \<times> u64 \<times> unit \<times> 'z heap_world_scheme \<times> 'a server_socket" where
  "origin_consumeRequestBody params env chunk chunkSize c w s =
     (if disruptTransaction params = STALL_SERVER_RECV_BODY then
        (case stall env w s of (e, w1, s1) \<Rightarrow> (e, 0, c, w1, s1))
      else if disruptTransaction params = CLOSE_SERVER_RECV_BODY then (ESB_CLOSED, 0, c, w, s)
      else
        case origin_context_at (stream_context s) w of
          None \<Rightarrow> (UNDEFINED_BEHAVIOUR, 0, c, w, s)
        | Some ctx \<Rightarrow>
            let w1 = set_origin_context (stream_context s)
                  (ctx\<lparr>bytesReceived := bytesReceived ctx + chunkSize\<rparr>) w in
            if 0 < chunkSize then (ESB_SUCCESS, chunkSize, c, w1, s)
            else if disruptTransaction params = STALL_SERVER_SEND_HEADERS then
              (case stall env w1 s of (e, w2, s1) \<Rightarrow> (e, chunkSize, c, w2, s1))
            else if disruptTransaction params = CLOSE_SERVER_SEND_HEADERS then
              (ESB_CLOSED, chunkSize, c, w1, s)
            else
              (case origin_response params env s of (e, s1) \<Rightarrow> (e, chunkSize, c, w1, s1)))"

definition origin_offerResponseBody ::
  "test_params \<Rightarrow> ('z heap_world_scheme, 'a) server_env \<Rightarrow> unit
    \<Rightarrow> 'z heap_world_scheme \<Rightarrow> 'a server_socket
    \<Rightarrow> error \<times> u64 \<times> unit \<times> 'z heap_world_scheme \<times> 'a server_socket" where
  "origin_offerResponseBody params env c w s =
     (if disruptTransaction params = STALL_SERVER_SEND_BODY then
        (case stall env w s of (e, w1, s1) \<Rightarrow> (e, 0, c, w1, s1))
      else if disruptTransaction params = CLOSE_SERVER_SEND_BODY then (ESB_CLOSED, 0, c, w, s)
      else
        case origin_context_at (stream_context s) w of
          None \<Rightarrow> (UNDEFINED_BEHAVIOUR, 0, c, w, s)
        | Some ctx \<Rightarrow> (ESB_SUCCESS, responseSize params - bytesSent ctx, c, w, s))"

text \<open>A release build leaves the octets of the buffer as they are: the callback writes none.\<close>

definition origin_produceResponseBody ::
  "u64 \<Rightarrow> unit \<Rightarrow> 'z heap_world_scheme \<Rightarrow> 'a server_socket
    \<Rightarrow> error \<times> u8 list \<times> unit \<times> 'z heap_world_scheme \<times> 'a server_socket" where
  "origin_produceResponseBody n c w s =
     (case origin_context_at (stream_context s) w of
        None \<Rightarrow> (UNDEFINED_BEHAVIOUR, [], c, w, s)
      | Some ctx \<Rightarrow>
          (ESB_SUCCESS, [], c,
           set_origin_context (stream_context s) (ctx\<lparr>bytesSent := bytesSent ctx + n\<rparr>) w, s))"

text \<open>Deallocation in the transaction's allocator does nothing until the transaction is reset.\<close>

definition origin_endTransaction ::
  "end_state \<Rightarrow> 'z heap_world_scheme \<Rightarrow> 'a server_socket \<Rightarrow> 'z heap_world_scheme \<times> 'a server_socket" where
  "origin_endTransaction st w s =
     (if stream_context s = 0 then (w, s)
      else (free_origin_context (stream_context s) w, setContext 0 s))"

definition origin_body ::
  "test_params \<Rightarrow> ('z heap_world_scheme, 'a) server_env \<Rightarrow> (unit, 'z heap_world_scheme, 'a server_socket) body_handler" where
  "origin_body params env =
     \<lparr>consume_body = origin_consumeRequestBody params env,
      offer_body = origin_offerResponseBody params env,
      produce_body = origin_produceResponseBody\<rparr>"

definition origin_handler ::
  "test_params \<Rightarrow> ('z heap_world_scheme, 'a) server_env \<Rightarrow> ('z heap_world_scheme, 'a) server_handler" where
  "origin_handler params env =
     \<lparr>beginTransaction = origin_beginTransaction params env,
      receiveRequestHeaders = origin_receiveRequestHeaders,
      endTransaction = origin_endTransaction,
      bodyHandler = origin_body params env\<rparr>"

section \<open>The callbacks are polite\<close>

lemma allocator_trans:
  fixes p :: "'a request_parser"
  shows "q = p\<lparr>allocator := allocator q\<rparr> \<Longrightarrow> r = q\<lparr>allocator := allocator r\<rparr> \<Longrightarrow> r = p\<lparr>allocator := allocator r\<rparr>"
  by (cases p; cases q; cases r) simp

lemma polite_trans [trans]: "polite_step s s' \<Longrightarrow> polite_step s' s'' \<Longrightarrow> polite_step s s''"
proof -
  assume p: "polite_step s s'" "polite_step s' s''"
  have "s'' = s\<lparr>sockState := sockState s'', transaction := transaction s''\<rparr>"
    using p unfolding polite_step_def
    by (cases s; cases s'; cases s'') simp
  moreover have "rel_option (\<lambda>t t'. formatter t' = formatter t \<and>
       parser t' = (parser t)\<lparr>allocator := allocator (parser t')\<rparr>) (transaction s) (transaction s'')"
    using p unfolding polite_step_def
    by (cases "transaction s"; cases "transaction s'"; cases "transaction s''")
       (auto intro: allocator_trans)
  ultimately show ?thesis
    using p by (simp add: polite_step_def)
qed

lemma polite_map_transaction:
  assumes "\<And>t. formatter (f t) = formatter t" "\<And>t. parser (f t) = (parser t)\<lparr>allocator := allocator (parser (f t))\<rparr>"
  shows "polite_step s (map_transaction f s)"
  using assms by (cases "transaction s") (simp_all add: polite_step_def map_transaction_def)

lemma polite_setContext [simp]: "polite_step s (setContext c s)"
  unfolding setContext_def by (rule polite_map_transaction) simp_all

lemma polite_flag:
  assumes "f \<in> {SERVER_RECV_PAUSED, SERVER_SEND_PAUSED, SERVER_ABORTED}"
  shows "polite_step s (addFlag f s)" "polite_step s (clearFlag f s)"
  using assms
  by (cases "transaction s"; auto simp: polite_step_def addFlag_def clearFlag_def mask_simps)+

lemma stall_polite: "stall env w s = (e, w', s') \<Longrightarrow> polite_step s s'"
  using polite_flag(1) [of 2048 s] polite_flag(1) [of 1024 s] polite_trans [OF _ polite_flag(1) [of 1024]]
  by (auto simp: stall_def pauseSend_def pauseRecv_def after_update_def split: if_splits)

lemma stream_addHeader_polite: "stream_addHeader env n v s = (e, s') \<Longrightarrow> polite_step s s'"
  by (auto simp: stream_addHeader_def polite_step_def set_transaction_def split: option.splits prod.splits)

lemma origin_response_polite: "origin_response params env s = (e, s') \<Longrightarrow> polite_step s s'"
proof -
  assume r: "origin_response params env s = (e, s')"
  let ?s1 = "map_transaction (update_response
    (\<lambda>r. r\<lparr>statusCode := 200, reasonPhrase := Some (asc ''OK'')\<rparr>)) s"
  have s1: "polite_step s ?s1"
    by (rule polite_map_transaction) (simp_all add: update_response_def)
  have "polite_step ?s1 s'"
    using r stream_addHeader_polite polite_trans
    by (auto simp: origin_response_def Let_def split: if_splits prod.splits option.splits) blast+
  with s1 show ?thesis
    by (rule polite_trans)
qed

interpretation origin_own: polite_body "origin_body params env"
proof
  show "consume_body (origin_body params env) os n c w s = (e, k, c', w', s') \<Longrightarrow> polite_step s s'"
    for os n c w s e k c' w' s'
    by (auto simp: origin_body_def origin_consumeRequestBody_def Let_def
        dest!: stall_polite origin_response_polite split: if_splits option.splits prod.splits)
  show "offer_body (origin_body params env) c w s = (e, k, c', w', s') \<Longrightarrow> polite_step s s'"
    for c w s e k c' w' s'
    by (auto simp: origin_body_def origin_offerResponseBody_def
        dest!: stall_polite split: if_splits option.splits prod.splits)
  show "produce_body (origin_body params env) n c w s = (e, os, c', w', s') \<Longrightarrow> polite_step s s'"
    for n c w s e os c' w' s'
    by (auto simp: origin_body_def origin_produceResponseBody_def split: option.splits)
qed

interpretation origin: polite_handler "origin_handler params env"
proof
  show "beginTransaction (origin_handler params env) w s = (e, w', s') \<Longrightarrow> polite_step s s'" for w s e w' s'
  proof -
    assume r: "beginTransaction (origin_handler params env) w s = (e, w', s')"
    have "polite_step s (map_transaction (\<lambda>t. t\<lparr>parser := (parser t)\<lparr>allocator := al\<rparr>\<rparr>) s)" for al
      by (rule polite_map_transaction) simp_all
    then show ?thesis
      using r polite_trans [OF _ polite_setContext]
      by (auto simp: origin_handler_def origin_beginTransaction_def Let_def
          dest!: stall_polite split: if_splits option.splits prod.splits)
  qed
  show "receiveRequestHeaders (origin_handler params env) w s = (e, w', s') \<Longrightarrow> polite_step s s'"
    for w s e w' s'
    by (simp add: origin_handler_def origin_receiveRequestHeaders_def)
  show "endTransaction (origin_handler params env) st w s = (w', s') \<Longrightarrow> polite_step s s'" for st w s w' s'
    by (auto simp: origin_handler_def origin_endTransaction_def split: if_splits)
qed

lemma bodyHandler_origin: "bodyHandler (origin_handler params env) = origin_body params env"
  by (simp add: origin_handler_def)

interpretation origin_server: polite_server "origin_handler params env"
  unfolding polite_server_def polite_machine_def bodyHandler_origin
  using origin.polite_handler_axioms origin_own.polite_body_axioms by blast

end
