(* ===== verification/ScriptedNetwork.thy ===== *)
theory ScriptedNetwork
  imports OriginHandler
begin

text \<open>
  A concrete world for the socket: what arrives from the peer is a list of segments, and a list of
  windows says how much the kernel takes at each send (0: it would block; the empty list: everything).
  It runs the models on concrete conversations and shows that the hypotheses about the environment
  can hold. Small buffers keep the evaluation short.
\<close>

record wire =
  arriving :: "u8 list list"
  taken :: "u8 list"
  windows :: "nat list"

definition wire_receive :: "nat \<Rightarrow> wire \<Rightarrow> recv_result \<times> wire" where
  "wire_receive n w =
     (case arriving w of
        [] \<Rightarrow> (RecvError ESB_AGAIN, w)
      | os # rest \<Rightarrow>
          if length os \<le> n then (Received os, w\<lparr>arriving := rest\<rparr>)
          else (Received (take n os), w\<lparr>arriving := drop n os # rest\<rparr>))"

definition wire_send :: "u8 list \<Rightarrow> wire \<Rightarrow> send_result \<times> wire" where
  "wire_send os w =
     (case windows w of
        [] \<Rightarrow> (Sent (of_nat (length os)), w\<lparr>taken := taken w @ os\<rparr>)
      | k # ks \<Rightarrow>
          let w1 = w\<lparr>windows := ks\<rparr> in
          if k = 0 then (SendError ESB_AGAIN, w1)
          else (Sent (of_nat (min k (length os))), w1\<lparr>taken := taken w @ take k os\<rparr>))"

text \<open>The wire is a kernel that takes a prefix of what it is offered, and takes something if it does not fail.\<close>

lemma wire_send_prefix:
  assumes "wire_send os w = (Sent n, w')" "length os < 2 ^ 32"
  shows "unat n \<le> length os" "taken w' = taken w @ take (unat n) os" "os \<noteq> [] \<Longrightarrow> 0 < n"
proof -
  have n: "unat (of_nat k :: u32) = k" if "k < 4294967296" for k
    using that by (simp add: unat_of_nat)
  have "0 < (of_nat k :: u32)" if "0 < k" "k < 4294967296" for k
    using n [OF that(2)] that(1) by (simp add: word_less_nat_alt)
  then show "unat n \<le> length os" "taken w' = taken w @ take (unat n) os" "os \<noteq> [] \<Longrightarrow> 0 < n"
    using assms n by (auto simp: wire_send_def Let_def min_def split: list.splits if_splits)
qed

lemma wire_send_error: "wire_send os w = (SendError e, w') \<Longrightarrow> e = ESB_AGAIN \<and> taken w' = taken w"
  by (auto simp: wire_send_def Let_def split: list.splits if_splits)

record network = heap_world +
  line :: wire
  buffersOut :: int
  transactionsLeft :: nat
  averages :: "int list"

definition bump_alloc :: "u64 alloc_fn" where
  "bump_alloc al n = (ESB_SUCCESS, al, al + n)"

definition net_transaction :: "u64 server_transaction" where
  "net_transaction = \<lparr>context_of = 0, peerAddress = [], startTime = 0, request = new_http_request,
     response = new_http_response, parser = new_request_parser (new_buffer (replicate 32 0) 32) 4096,
     formatter = new_response_formatter\<rparr>"

definition net_buffer :: buffer where
  "net_buffer = new_buffer (replicate 64 0) 64"

definition net_receive :: "nat \<Rightarrow> 'z network_scheme \<Rightarrow> recv_result \<times> 'z network_scheme" where
  "net_receive n w = (case wire_receive n (line w) of (r, l) \<Rightarrow> (r, w\<lparr>line := l\<rparr>))"

definition net_send :: "u8 list \<Rightarrow> 'z network_scheme \<Rightarrow> send_result \<times> 'z network_scheme" where
  "net_send os w = (case wire_send os (line w) of (r, l) \<Rightarrow> (r, w\<lparr>line := l\<rparr>))"

definition net_env :: "(network, u64) server_env" where
  "net_env =
     \<lparr>isShutdown = (\<lambda>_. False),
      acquireBuffer = (\<lambda>w. (Some net_buffer, w\<lparr>buffersOut := buffersOut w + 1\<rparr>)),
      releaseBuffer = (\<lambda>_ w. w\<lparr>buffersOut := buffersOut w - 1\<rparr>),
      createTransaction = (\<lambda>w. if transactionsLeft w = 0 then (None, w)
                               else (Some net_transaction, w\<lparr>transactionsLeft := transactionsLeft w - 1\<rparr>)),
      destroyTransaction = (\<lambda>_ w. w\<lparr>transactionsLeft := transactionsLeft w + 1\<rparr>),
      updateMultiplexedSocket = (\<lambda>w s. (ESB_SUCCESS, w, s)),
      removeMultiplexedSocket = (\<lambda>w s. (ESB_SUCCESS, w, s)),
      allocate = bump_alloc,
      resetAllocator = (\<lambda>_. 4096),
      sockPeer = (\<lambda>_. [127, 0, 0, 1]),
      sockConnected = (\<lambda>_. True),
      sockWantRead = (\<lambda>_. False),
      sockWantWrite = (\<lambda>_. False),
      sockClose = (\<lambda>w. w),
      sockReceive = net_receive,
      sockSend = net_send,
      addAverage = (\<lambda>n w. w\<lparr>averages := n # averages w\<rparr>)\<rparr>"

definition new_wire :: "u8 list list \<Rightarrow> nat list \<Rightarrow> wire" where
  "new_wire segments ks = \<lparr>arriving = segments, taken = [], windows = ks\<rparr>"

definition net_world :: "u8 list list \<Rightarrow> nat list \<Rightarrow> network" where
  "net_world segments ks = \<lparr>contexts = [], line = new_wire segments ks, buffersOut = 0,
     transactionsLeft = 1, averages = []\<rparr>"

definition plain_params :: test_params where
  "plain_params = \<lparr>requestSize = 0, responseSize = 5, useContentLengthHeader = False,
     contentType = None, disruptTransaction = HAPPY_PATH\<rparr>"

abbreviation net_origin :: "test_params \<Rightarrow> (network, u64) server_handler" where
  "net_origin params \<equiv> origin_handler params net_env"

definition crlf :: "u8 list" where
  "crlf = [CR, LF]"

definition get_request :: "u8 list" where
  "get_request = asc ''GET / HTTP/1.1'' @ crlf @ asc ''Host: x'' @ crlf @ crlf"

end
