(* ===== verification/ServerProperties.thy ===== *)
theory ServerProperties
  imports SocketSend ScriptedNetwork
begin

text \<open>
  What the server socket guarantees the application and the peer, and where it does not do what it
  means to. The witnesses run a socket with the origin handler on the scripted network.
\<close>

section \<open>Reachable sockets\<close>

text \<open>
  The calls of the multiplexer and of the application on a socket. The callbacks are those of the handler
  \<open>h\<close>; \<open>setters\<close> stands for any use of \<open>HttpServerStream\<close> between two calls.
\<close>

inductive server_call ::
  "('w, 'a) server_env \<Rightarrow> ('w, 'a) server_handler \<Rightarrow> 'a server_socket \<Rightarrow> 'a server_socket \<Rightarrow> bool"
  for env h s s' where
  readable: "handleReadable env h w s = Some (e, w', s') \<Longrightarrow> server_call env h s s'"
| writable: "handleWritable env h w s = Some (e, w', s') \<Longrightarrow> server_call env h s s'"
| empty_response: "sendEmptyResponse env h n r w s = Some (e, w', s') \<Longrightarrow> server_call env h s s'"
| full_response: "sendResponse env h m ff w s = Some (e, w', s') \<Longrightarrow> server_call env h s s'"
| response_body: "sendResponseBody env h os n w s = Some (e, k, w', s') \<Longrightarrow> server_call env h s s'"
| request_body: "readRequestBody env h n w s = Some (e, os, k, w', s') \<Longrightarrow> server_call env h s s'"
| body_available: "requestBodyAvailable env h w s = Some (e, k, w', s') \<Longrightarrow> server_call env h s s'"
| setters: "polite_step s s' \<Longrightarrow> server_call env h s s'"

text \<open>The sockets that such calls can lead to.\<close>

inductive server_reachable ::
  "('w, 'a) server_env \<Rightarrow> ('w, 'a) server_handler \<Rightarrow> 'a server_socket \<Rightarrow> bool"
  for env h where
  accepted: "server_reachable env h new_server_socket"
| called: "server_reachable env h s \<Longrightarrow> server_call env h s s' \<Longrightarrow> server_reachable env h s'"

lemma new_server_inv: "server_inv new_server_socket"
  by (simp add: server_inv_def new_server_socket_def state_of_def in_state_def has_flag_def)

context polite_server begin

lemma producer_goes:
  assumes "advanceStateMachine env h (body_producer os n) fl c w s = Some (e, c', w', s')" "server_inv s"
  shows "server_inv s' \<and> server_follows s s'"
proof -
  have "polite_machine h (body_producer os n)"
    unfolding polite_machine_def using polite_handler_axioms producer.polite_body_axioms by blast
  from polite_machine.advance_goes [OF this assms] show ?thesis ..
qed

lemma consumer_goes:
  assumes "advanceStateMachine env h (body_consumer n) fl c w s = Some (e, c', w', s')" "server_inv s"
  shows "server_inv s' \<and> server_follows s s'"
proof -
  have "polite_machine h (body_consumer n)"
    unfolding polite_machine_def using polite_handler_axioms consumer.polite_body_axioms by blast
  from polite_machine.advance_goes [OF this assms] show ?thesis ..
qed

lemma call_keeps:
  assumes "server_call env h s s'" "server_inv s"
  shows "server_inv s' \<and> server_follows s s'"
  using assms
proof (cases rule: server_call.cases)
  case (setters)
  then show ?thesis
    using assms(2) polite_inv server_moves_follows [OF stays_moves [OF polite_stays]] by blast
qed (auto simp: sendResponseBody_def readRequestBody_def requestBodyAvailable_def
    dest: handleReadable_goes handleWritable_goes sendEmptyResponse_goes sendResponse_goes
      producer_goes consumer_goes split: if_splits)

lemma call_follows: "server_call env h s s' \<Longrightarrow> server_inv s \<Longrightarrow> server_follows s s'"
  using call_keeps by blast

lemma reachable_inv: "server_reachable env h s \<Longrightarrow> server_inv s"
  by (induction rule: server_reachable.induct) (use new_server_inv call_keeps in blast)+

end

section \<open>A served request\<close>

definition served :: "error \<times> network \<times> u64 server_socket" where
  "served = the (handleReadable net_env (net_origin plain_params) (net_world [get_request] []) new_server_socket)"

lemma served_run:
  "handleReadable net_env (net_origin plain_params) (net_world [get_request] []) new_server_socket =
    Some (fst served, fst (snd served), snd (snd served))"
proof -
  have "handleReadable net_env (net_origin plain_params) (net_world [get_request] []) new_server_socket \<noteq> None"
    by code_simp
  then show ?thesis
    by (auto simp: served_def)
qed

text \<open>C2. Whatever the calls of the multiplexer and the application and whatever the kernel, the parser
  and a polite handler answer: a socket is in exactly one of its states, from the request headers on it
  has a transaction and a receive buffer, from the response body on a send buffer; it cannot be reused
  while the request is being read, and octets of a body are left only where it is being read or where
  the connection will not be reused.\<close>

theorem reachable_server_inv:
  assumes "polite_server h" "server_reachable env h s"
  shows "server_inv s"
  using polite_server.reachable_inv [OF assms] .

theorem reachable_server_inv_witness:
  "server_inv (snd (snd served))"
proof (rule reachable_server_inv)
  show "polite_server (net_origin plain_params)"
    by (rule origin_server.polite_server_axioms)
  show "server_reachable net_env (net_origin plain_params) (snd (snd served))"
    by (rule server_reachable.called [OF server_reachable.accepted server_call.readable [OF served_run]])
qed

text \<open>C4. Every round of the machine, that is one dispatch of the handler of the current state with the filling
  and flushing of the buffers around it, moves a socket by at most one step of its protocol and skips none:
  the steps are those that \<open>stateTransition\<close> asserts in a debug build. The number of requests grows by one
  at the end of a transaction and never elsewhere, and without that no transaction begins.\<close>

theorem server_round_follows_protocol:
  assumes "polite_machine h bh" "server_inv s" "machine_round env h bh fl fill drain c w s = Some r"
  shows "(state_of (round_socket r), requestsPerConnection (round_socket r)) \<in>
    {(state_of s, requestsPerConnection s)} \<union>
    {(st, requestsPerConnection s) | st. server_step (state_of s) st \<and>
       st \<noteq> SERVER_INACTIVE \<and> state_of s \<noteq> SERVER_TRANSACTION_END} \<union>
    {(st, requestsPerConnection s + 1) | st. st \<in> {SERVER_TRANSACTION_END, SERVER_TRANSACTION_BEGIN} \<and>
       state_of s = SERVER_TRANSACTION_END}"
proof -
  have "server_moves s (round_socket r)"
    using polite_machine.round_goes [OF assms(1,3,2)] assms(2) by (simp add: goes_def)
  then show ?thesis
    by (auto simp: server_moves_def split: if_splits)
qed

definition served_round :: "(unit, network, u64) machine_result + bool \<times> bool \<times> unit \<times> network \<times> u64 server_socket" where
  "served_round = the (machine_round net_env (net_origin plain_params) (bodyHandler (net_origin plain_params)) 15 True False ()
     (net_world [get_request] []) new_server_socket)"

theorem server_round_follows_protocol_witness:
  "state_of (round_socket served_round) = SERVER_PARSING_HEADERS \<and>
   (state_of (round_socket served_round), requestsPerConnection (round_socket served_round)) \<in>
    {(state_of (new_server_socket :: u64 server_socket), 0)} \<union>
    {(st, 0) | st. server_step (state_of (new_server_socket :: u64 server_socket)) st \<and>
       st \<noteq> SERVER_INACTIVE \<and> state_of (new_server_socket :: u64 server_socket) \<noteq> SERVER_TRANSACTION_END} \<union>
    {(st, 0 + 1) | st. st \<in> {SERVER_TRANSACTION_END, SERVER_TRANSACTION_BEGIN} \<and>
       state_of (new_server_socket :: u64 server_socket) = SERVER_TRANSACTION_END}"
proof
  have "machine_round net_env (net_origin plain_params) (bodyHandler (net_origin plain_params)) 15 True False ()
      (net_world [get_request] []) new_server_socket \<noteq> None"
    by code_simp
  then have run: "machine_round net_env (net_origin plain_params) (bodyHandler (net_origin plain_params)) 15 True False ()
      (net_world [get_request] []) new_server_socket = Some served_round"
    by (auto simp: served_round_def)
  show "state_of (round_socket served_round) = SERVER_PARSING_HEADERS"
    by code_simp
  have machine: "polite_machine (net_origin plain_params) (bodyHandler (net_origin plain_params))"
    using origin_server.polite_server_axioms by (simp add: polite_server_def)
  have none: "requestsPerConnection (new_server_socket :: u64 server_socket) = 0"
    by (simp add: new_server_socket_def)
  from server_round_follows_protocol [OF machine new_server_inv run, unfolded none]
  show "(state_of (round_socket served_round), requestsPerConnection (round_socket served_round)) \<in>
    {(state_of (new_server_socket :: u64 server_socket), 0)} \<union>
    {(st, 0) | st. server_step (state_of (new_server_socket :: u64 server_socket)) st \<and>
       st \<noteq> SERVER_INACTIVE \<and> state_of (new_server_socket :: u64 server_socket) \<noteq> SERVER_TRANSACTION_END} \<union>
    {(st, 0 + 1) | st. st \<in> {SERVER_TRANSACTION_END, SERVER_TRANSACTION_BEGIN} \<and>
       state_of (new_server_socket :: u64 server_socket) = SERVER_TRANSACTION_END}" .
qed




section \<open>The end of a transaction\<close>

text \<open>C24. The connection is used for another request only if the request was read to its end, no octets of
  its body are left, the status is below 300 and the request allows it; then the socket is in the state
  of a new one, its parser and formatter are reset, and what has already arrived stays in the receive
  buffer.\<close>

theorem reuse_condition:
  assumes "polite_handler h" "server_inv s" "state_of s = SERVER_TRANSACTION_END"
    and "stateEndTransaction env h w s = (ESB_SUCCESS, w', s')"
  shows "\<not> in_state s SERVER_CANNOT_REUSE_CONNECTION \<and> bytesAvailable s = 0 \<and>
    sockState s' = SERVER_TRANSACTION_BEGIN \<and> bytesAvailable s' = 0 \<and> bodyBytesWritten s' = 0 \<and>
    recvBuffer s' = recvBuffer s \<and> requestsPerConnection s' = requestsPerConnection s + 1 \<and>
    (\<exists>t s1. endTransaction h ES_HTTP_SERVER_HANDLER_END w
        (s\<lparr>requestsPerConnection := requestsPerConnection s + 1\<rparr>) = (w', s1) \<and>
      transaction s1 = Some t \<and> statusCode (response t) < 300 \<and> reuseConnection (request t) \<and>
      transaction s' = Some (server_transaction_reset (resetAllocator env) t))"
proof -
  let ?s0 = "s\<lparr>requestsPerConnection := requestsPerConnection s + 1\<rparr>"
  obtain w1 s1 where r: "endTransaction h ES_HTTP_SERVER_HANDLER_END w ?s0 = (w1, s1)"
    by (cases "endTransaction h ES_HTTP_SERVER_HANDLER_END w ?s0")
  note p = politeD [OF polite_handler.end_polite [OF assms(1) r]]
  show ?thesis
    using assms(4) p r assms(2,3)
    by (auto simp: stateEndTransaction_def CloseAfterErrorResponse_def server_inv_def
        stateTransition_def Let_def split: if_splits option.splits)
qed

definition ended :: "u64 server_socket" where
  "ended = new_server_socket\<lparr>sockState := SERVER_TRANSACTION_END,
     transaction := Some (net_transaction\<lparr>request := setReuseConnection new_http_request True,
       response := new_http_response\<lparr>statusCode := 200\<rparr>\<rparr>),
     recvBuffer := Some (receive net_buffer (asc ''GET'')), sendBuffer := Some net_buffer\<rparr>"

theorem reuse_condition_witness:
  "\<not> in_state ended SERVER_CANNOT_REUSE_CONNECTION \<and> bytesAvailable ended = 0 \<and>
    (let (e, w', s') = stateEndTransaction net_env (net_origin plain_params) (net_world [] []) ended in
      sockState s' = SERVER_TRANSACTION_BEGIN \<and> bytesAvailable s' = 0 \<and> bodyBytesWritten s' = 0 \<and>
      recvBuffer s' = recvBuffer ended \<and> requestsPerConnection s' = requestsPerConnection ended + 1 \<and>
      (\<exists>t s1. endTransaction (net_origin plain_params) ES_HTTP_SERVER_HANDLER_END (net_world [] [])
          (ended\<lparr>requestsPerConnection := requestsPerConnection ended + 1\<rparr>) = (w', s1) \<and>
        transaction s1 = Some t \<and> statusCode (response t) < 300 \<and> reuseConnection (request t) \<and>
        transaction s' = Some (server_transaction_reset (resetAllocator net_env) t)))"
proof -
  obtain e w' s' where r: "stateEndTransaction net_env (net_origin plain_params) (net_world [] []) ended = (e, w', s')"
    by (cases "stateEndTransaction net_env (net_origin plain_params) (net_world [] []) ended")
  have "fst (stateEndTransaction net_env (net_origin plain_params) (net_world [] []) ended) = ESB_SUCCESS"
    by code_simp
  then have e: "stateEndTransaction net_env (net_origin plain_params) (net_world [] []) ended = (ESB_SUCCESS, w', s')"
    using r by simp
  have "server_inv ended" "state_of ended = SERVER_TRANSACTION_END"
    by code_simp+
  from reuse_condition [OF origin.polite_handler_axioms this e] show ?thesis
    unfolding e by simp
qed

lemma in_state_or: "in_state s (m OR n) \<longleftrightarrow> in_state s m \<or> in_state s n"
proof -
  have "(m OR n) AND sockState s = (m AND sockState s) OR (n AND sockState s)"
    by (simp add: bit.conj_disj_distrib2)
  then show ?thesis
    by (simp add: in_state_def has_flag_def or_eq_0_iff)
qed

lemma inactive_wants_nothing:
  assumes "state_of s = SERVER_INACTIVE"
  shows "\<not> wantRead env w s" "\<not> wantWrite env w s"
proof -
  have "in_state s SERVER_INACTIVE"
    using assms by (simp add: state_in_state)
  then show "\<not> wantRead env w s" "\<not> wantWrite env w s"
    by (simp_all only: wantRead_def wantWrite_def in_state_or) simp_all
qed

text \<open>Removal from the multiplexer closes the socket for good: it is inactive, and no buffer and no
  transaction is held.\<close>

theorem removed_socket_holds_nothing:
  assumes "polite_server h" "handleRemove env h w s = (w', s')"
  shows "state_of s' = SERVER_INACTIVE \<and> transaction s' = None \<and> recvBuffer s' = None \<and> sendBuffer s' = None \<and>
    \<not> wantRead env w' s' \<and> \<not> wantWrite env w' s'"
  using polite_server.handleRemove_inactive [OF assms] inactive_wants_nothing [of s' env w'] by simp

theorem removed_socket_holds_nothing_witness:
  "let (w', s') = handleRemove net_env (net_origin plain_params) (fst (snd served)) (snd (snd served)) in
    state_of s' = SERVER_INACTIVE \<and> transaction s' = None \<and> recvBuffer s' = None \<and> sendBuffer s' = None \<and>
    \<not> wantRead net_env w' s' \<and> \<not> wantWrite net_env w' s'"
proof -
  obtain w' s' where r: "handleRemove net_env (net_origin plain_params) (fst (snd served)) (snd (snd served)) = (w', s')"
    by (cases "handleRemove net_env (net_origin plain_params) (fst (snd served)) (snd (snd served))")
  show ?thesis
    using removed_socket_holds_nothing [OF origin_server.polite_server_axioms r] by (simp add: r)
qed

section \<open>Sending\<close>

text \<open>C25. The flush returns; the octets the kernel has taken are the next ones of the send buffer, in
  order, and the rest stays in the buffer. ESB_AGAIN means that none was taken, ESB_SUCCESS that some
  were.\<close>

theorem flush_sends_in_order:
  assumes "honest_kernel env tk" "progressing env" "sendBuffer s = Some b" "buf_inv b" "unread b \<noteq> []"
    and "\<And>w. \<not> isShutdown env w"
  shows "\<exists>e w' b' os. flushSendBuffer env w s = Some (e, w', s\<lparr>sendBuffer := Some b'\<rparr>) \<and>
    tk w' = tk w @ os \<and> unread b = os @ unread b' \<and> buf_inv b' \<and>
    (e = ESB_AGAIN \<longrightarrow> os = []) \<and> (e = ESB_SUCCESS \<longrightarrow> os \<noteq> [])"
proof -
  obtain e w' b' where y: "flush_loop env False w b = Some (e, w', b')"
    using flush_loop_returns [OF assms(1,2,4)] by (metis prod_cases3)
  have "flush_accounts env tk False w b (e, w', b')"
    by (rule flush_loop_accounts [OF y assms(1,4)])
  then obtain os where "tk w' = tk w @ os" "unread b = os @ unread b'" "buf_inv b'"
      "e = ESB_AGAIN \<longrightarrow> os = []" "e = ESB_SUCCESS \<longrightarrow> os \<noteq> [] \<or> unread b' = []"
    unfolding flush_accounts_def using assms(2) by auto
  then show ?thesis
    using y assms(3,4,5)
    by (intro exI [of _ e] exI [of _ w'] exI [of _ b'] exI [of _ os])
       (auto simp: flushSendBuffer_def isReadable_unread)
qed

abbreviation net_taken :: "network \<Rightarrow> u8 list" where
  "net_taken w \<equiv> taken (line w)"

lemma net_kernel: "honest_kernel net_env net_taken" "progressing net_env"
  by (auto simp: honest_kernel_def progressing_def net_env_def net_send_def
      dest: wire_send_prefix wire_send_error split: send_result.splits prod.splits)

theorem flush_sends_in_order_witness:
  "\<exists>e w' b' os. flushSendBuffer net_env (net_world [] [2, 0])
      (new_server_socket\<lparr>sendBuffer := Some (receive net_buffer (asc ''HTTP''))\<rparr>) =
      Some (e, w', new_server_socket\<lparr>sendBuffer := Some (receive net_buffer (asc ''HTTP'')), sendBuffer := Some b'\<rparr>) \<and>
    net_taken w' = net_taken (net_world [] [2, 0]) @ os \<and>
    unread (receive net_buffer (asc ''HTTP'')) = os @ unread b' \<and> buf_inv b' \<and>
    (e = ESB_AGAIN \<longrightarrow> os = []) \<and> (e = ESB_SUCCESS \<longrightarrow> os \<noteq> [])"
proof (rule flush_sends_in_order [OF net_kernel])
  show "buf_inv (receive net_buffer (asc ''HTTP''))" "unread (receive net_buffer (asc ''HTTP'')) \<noteq> []"
    by code_simp+
qed (simp_all add: net_env_def)

section \<open>Defects\<close>

text \<open>C31. A flush that sent only a part counts as done. When the kernel takes some of the last octets of a
  response and then no more, the flushing state answers success with the others still in the send buffer,
  and the transaction ends. Where the connection is used again, the socket then waits for the next request
  with those octets unsent and does not ask to write (unless the transport does).\<close>

theorem partial_flush_ends_transaction:
  assumes "polite_handler h" "state_of s = SERVER_FLUSHING_BODY" "sendBuffer s = Some b" "buf_inv b"
    and "sockSend env (unread b) w = (Sent n, w1)" "unat n < length (unread b)"
    and "sockSend env (drop (unat n) (unread b)) w1 = (SendError ESB_AGAIN, w2)"
    and "\<not> isShutdown env w" "\<not> isShutdown env w1"
  shows "\<exists>s1 b1. stateFlushResponseBody env w s = Some (ESB_SUCCESS, w2, s1) \<and>
    state_of s1 = SERVER_TRANSACTION_END \<and> sendBuffer s1 = Some b1 \<and>
    unread b1 = drop (unat n) (unread b) \<and> unread b1 \<noteq> [] \<and>
    (case stateEndTransaction env h w2 s1 of (e, w3, s2) \<Rightarrow>
      sendBuffer s2 = Some b1 \<and>
      (e = ESB_SUCCESS \<longrightarrow> state_of s2 = SERVER_TRANSACTION_BEGIN \<and> wantWrite env w3 s2 = sockWantWrite env w3))"
proof -
  let ?b = "send b n"
  let ?s = "stateTransition SERVER_TRANSACTION_END (s\<lparr>sendBuffer := Some ?b\<rparr>)"
  have rest: "buf_inv ?b" "unread ?b = drop (unat n) (unread b)"
    using send_sent [OF assms(4), of n] assms(6) by simp_all
  have readable: "isReadable b" "isReadable ?b"
    using assms(4,6) rest isReadable_unread [of b] isReadable_unread [of ?b] by auto
  have "flush_loop env True w1 ?b = Some (ESB_SUCCESS, w2, ?b)"
    by (subst flush_loop.simps) (simp add: readable assms(7,9) rest(2))
  then have "flush_loop env False w b = Some (ESB_SUCCESS, w2, ?b)"
    by (subst flush_loop.simps) (simp add: readable assms(5,8))
  then have run: "stateFlushResponseBody env w s = Some (ESB_SUCCESS, w2, ?s)"
    by (simp add: stateFlushResponseBody_def flushSendBuffer_def assms(3) readable)
  obtain w3 s2 where e: "endTransaction h ES_HTTP_SERVER_HANDLER_END w2 (?s\<lparr>requestsPerConnection := requestsPerConnection ?s + 1\<rparr>) = (w3, s2)"
    by fastforce
  have kept: "sendBuffer s2 = Some ?b"
    using politeD(3) [OF polite_handler.end_polite [OF assms(1) e]] by simp
  have begun: "wantWrite env w ((stateTransition SERVER_TRANSACTION_BEGIN s2)\<lparr>bodyBytesWritten := k, transaction := t\<rparr>) =
      sockWantWrite env w" for w k t
    by (simp add: wantWrite_def stateTransition_def in_state_def has_flag_def)
  have "case stateEndTransaction env h w2 ?s of (e, w3, s2) \<Rightarrow>
      sendBuffer s2 = Some ?b \<and>
      (e = ESB_SUCCESS \<longrightarrow> state_of s2 = SERVER_TRANSACTION_BEGIN \<and> wantWrite env w3 s2 = sockWantWrite env w3)"
    using e kept begun by (simp add: stateEndTransaction_def split: option.split)
  then show ?thesis
    using run rest(2) assms(6) by (intro exI [of _ ?s] exI [of _ ?b]) simp
qed

definition flushing :: "u64 server_socket" where
  "flushing = new_server_socket\<lparr>sockState := SERVER_FLUSHING_BODY, recvBuffer := Some net_buffer,
     transaction := Some (net_transaction\<lparr>request := setReuseConnection new_http_request True,
       response := new_http_response\<lparr>statusCode := 200\<rparr>\<rparr>),
     sendBuffer := Some (receive net_buffer (asc ''HTTP''))\<rparr>"

theorem partial_flush_ends_transaction_witness:
  "(case stateFlushResponseBody net_env (net_world [] [3, 0]) flushing of
      None \<Rightarrow> False
    | Some (e, w, s) \<Rightarrow> e = ESB_SUCCESS \<and> net_taken w = asc ''HTT'' \<and>
        (case stateEndTransaction net_env (net_origin plain_params) w s of (e, w, s) \<Rightarrow>
           e = ESB_SUCCESS \<and> state_of s = SERVER_TRANSACTION_BEGIN \<and> \<not> wantWrite net_env w s \<and>
           map_option unread (sendBuffer s) = Some (asc ''P'')))"
proof -
  let ?w = "net_world [] [3, 0]"
  let ?b = "receive net_buffer (asc ''HTTP'')"
  obtain w1 where w1: "sockSend net_env (asc ''HTTP'') ?w = (Sent 3, w1)" "net_taken w1 = asc ''HTT''" "windows (line w1) = [0]"
    by (simp add: net_env_def net_send_def wire_send_def net_world_def new_wire_def asc_def)
  obtain w2 where w2: "sockSend net_env (asc ''P'') w1 = (SendError ESB_AGAIN, w2)" "net_taken w2 = asc ''HTT''"
    using w1(2,3) by (simp add: net_env_def net_send_def wire_send_def)
  have b: "sendBuffer flushing = Some ?b" "buf_inv ?b" "unread ?b = asc ''HTTP''" "state_of flushing = SERVER_FLUSHING_BODY"
    by code_simp+
  have sizes: "unat (3 :: u32) < length (asc ''HTTP'')" "drop (unat (3 :: u32)) (asc ''HTTP'') = asc ''P''"
    by (simp_all add: asc_def)
  have open1: "\<not> isShutdown net_env w" "\<not> sockWantWrite net_env w" for w
    by (simp_all add: net_env_def)
  have reused: "fst (stateEndTransaction net_env (net_origin plain_params) w2 s1) = ESB_SUCCESS"
    if "stateFlushResponseBody net_env ?w flushing = Some (ESB_SUCCESS, w2, s1)" for s1
  proof -
    have "case stateFlushResponseBody net_env ?w flushing of None \<Rightarrow> False
      | Some (e, w, s) \<Rightarrow> fst (stateEndTransaction net_env (net_origin plain_params) w s) = ESB_SUCCESS"
      by code_simp
    then show ?thesis
      by (simp add: that)
  qed
  have polite: "polite_handler (net_origin plain_params)"
    by (rule origin.polite_handler_axioms)
  note partial_flush_ends_transaction [OF polite b(4,1,2), of net_env ?w 3 w1 w2, unfolded b(3) sizes(2),
    OF w1(1) sizes(1) w2(1) open1(1) open1(1)]
  then obtain s1 b1 where s1: "stateFlushResponseBody net_env ?w flushing = Some (ESB_SUCCESS, w2, s1)" "unread b1 = asc ''P''"
      "case stateEndTransaction net_env (net_origin plain_params) w2 s1 of (e, w3, s2) \<Rightarrow>
        sendBuffer s2 = Some b1 \<and>
        (e = ESB_SUCCESS \<longrightarrow> state_of s2 = SERVER_TRANSACTION_BEGIN \<and> wantWrite net_env w3 s2 = sockWantWrite net_env w3)"
    by (elim exE conjE) (rule that)
  then show ?thesis
    using reused [OF s1(1)] w2(2) open1 by (auto split: prod.splits)
qed

text \<open>The answer to a request that cannot be parsed announces an empty body, and then the handler is
  asked for its body all the same: stale octets of the send buffer follow the head.\<close>

theorem error_response_has_body:
  "case handleReadable net_env (net_origin plain_params) (net_world [asc ''GET /'' @ [1]] []) new_server_socket of
     None \<Rightarrow> False
   | Some (e, w', s') \<Rightarrow>
       e = ESB_CLEANUP \<and>
       (let head = asc ''HTTP/1.1 400 Bad Request'' @ crlf @ asc ''Content-Length: 0'' @ crlf
              @ asc ''Connection: close'' @ crlf @ crlf
        in take (length head) (net_taken w') = head \<and> length (net_taken w') = length head + 5)"
  by code_simp

text \<open>When no transaction can be created the receive buffer is released and kept, so the removal of the
  socket releases it a second time.\<close>

theorem buffer_released_twice:
  "let w0 = (net_world [get_request] [])\<lparr>transactionsLeft := 0\<rparr> in
   case handleReadable net_env (net_origin plain_params) w0 new_server_socket of
     None \<Rightarrow> False
   | Some (e, w', s') \<Rightarrow> e = ESB_OUT_OF_MEMORY \<and>
       buffersOut (fst (handleRemove net_env (net_origin plain_params) w' s')) = - 1"
  by code_simp

end
