(* ===== verification/ClientSocket.thy ===== *)
theory ClientSocket
  imports ResponseParser MessageFormatter SocketEnv
begin

text \<open>
  \<open>ES::HttpClientSocket\<close> (data-plane/http1/source/ESHttpClientSocket.cpp) and its transaction
  (ESHttpClientTransaction.cpp): the state machine that connects, sends a request and receives the
  response. It is modelled as the server socket is: the environment and the handler are parameters,
  debug assertions and log lines are left out, a NULL dereference is UNDEFINED_BEHAVIOUR and None means
  that the call does not return. Names that the server socket has too carry the prefix \<open>client_\<close>.
\<close>

section \<open>The socket\<close>

record 'a client_transaction =
  ctContext :: u64
  ctPeer :: "u8 list"
  ctStart :: int
  ctRequest :: http_request
  ctResponse :: http_response
  ctParser :: "'a response_parser"
  ctFormatter :: request_formatter

definition client_transaction_reset ::
  "('a \<Rightarrow> 'a) \<Rightarrow> 'a client_transaction \<Rightarrow> 'a client_transaction" where
  "client_transaction_reset resetAl t =
     (let t1 = t\<lparr>ctContext := 0, ctPeer := [],
            ctParser := (ctParser t)\<lparr>allocator := resetAl (allocator (ctParser t)),
                                    workingBuffer := buf_clear (workingBuffer (ctParser t))\<rparr>,
            ctRequest := request_reset (ctRequest t), ctResponse := response_reset (ctResponse t), ctStart := 0\<rparr>
      in t1\<lparr>ctParser := response_parser_reset (ctParser t1), ctFormatter := request_formatter_reset (ctFormatter t1)\<rparr>)"

record 'a client_socket =
  clState :: u32
  clBodyBytesWritten :: u64
  clBytesAvailable :: u64
  clTransaction :: "'a client_transaction option"
  clRecvBuffer :: "buffer option"
  clSendBuffer :: "buffer option"

abbreviation (input) INITIAL_FILL_RECV_BUFFER :: u32 where "INITIAL_FILL_RECV_BUFFER \<equiv> 1"
abbreviation (input) INITIAL_DRAIN_SEND_BUFFER :: u32 where "INITIAL_DRAIN_SEND_BUFFER \<equiv> 2"
abbreviation (input) UPDATE_MULTIPLEXER :: u32 where "UPDATE_MULTIPLEXER \<equiv> 4"
abbreviation (input) ADVANCE_RECV :: u32 where "ADVANCE_RECV \<equiv> 8"
abbreviation (input) ADVANCE_SEND :: u32 where "ADVANCE_SEND \<equiv> 16"

abbreviation (input) CLIENT_INACTIVE :: u32 where "CLIENT_INACTIVE \<equiv> 1"
abbreviation (input) CLIENT_CONNECTING :: u32 where "CLIENT_CONNECTING \<equiv> 2"
abbreviation (input) CLIENT_TRANSACTION_BEGIN :: u32 where "CLIENT_TRANSACTION_BEGIN \<equiv> 4"
abbreviation (input) CLIENT_FORMATTING_HEADERS :: u32 where "CLIENT_FORMATTING_HEADERS \<equiv> 8"
abbreviation (input) CLIENT_FORMATTING_BODY :: u32 where "CLIENT_FORMATTING_BODY \<equiv> 16"
abbreviation (input) CLIENT_FLUSHING_BODY :: u32 where "CLIENT_FLUSHING_BODY \<equiv> 32"
abbreviation (input) CLIENT_PARSING_HEADERS :: u32 where "CLIENT_PARSING_HEADERS \<equiv> 64"
abbreviation (input) CLIENT_PARSING_BODY :: u32 where "CLIENT_PARSING_BODY \<equiv> 128"
abbreviation (input) CLIENT_TRANSACTION_END :: u32 where "CLIENT_TRANSACTION_END \<equiv> 256"
abbreviation (input) FIRST_USE_AFTER_REUSE :: u32 where "FIRST_USE_AFTER_REUSE \<equiv> 512"
abbreviation (input) CLIENT_RECV_PAUSED :: u32 where "CLIENT_RECV_PAUSED \<equiv> 1024"
abbreviation (input) CLIENT_SEND_PAUSED :: u32 where "CLIENT_SEND_PAUSED \<equiv> 2048"
abbreviation (input) CLIENT_ABORTED :: u32 where "CLIENT_ABORTED \<equiv> 4096"
abbreviation (input) CLIENT_LAST_CHUNK_RECEIVED :: u32 where "CLIENT_LAST_CHUNK_RECEIVED \<equiv> 8192"
abbreviation (input) CLIENT_DEAD :: u32 where "CLIENT_DEAD \<equiv> 16384"
abbreviation (input) CLIENT_STATE_MASK :: u32 where "CLIENT_STATE_MASK \<equiv> 511"
abbreviation (input) CLIENT_RECV_STATE_MASK :: u32 where "CLIENT_RECV_STATE_MASK \<equiv> 192"
abbreviation (input) CLIENT_SEND_STATE_MASK :: u32 where "CLIENT_SEND_STATE_MASK \<equiv> 56"

definition client_in :: "'a client_socket \<Rightarrow> u32 \<Rightarrow> bool" where
  "client_in s m \<longleftrightarrow> has_flag (clState s) m"

definition client_addFlag :: "u32 \<Rightarrow> 'a client_socket \<Rightarrow> 'a client_socket" where
  "client_addFlag f s = s\<lparr>clState := clState s OR f\<rparr>"

definition client_clearFlag :: "u32 \<Rightarrow> 'a client_socket \<Rightarrow> 'a client_socket" where
  "client_clearFlag f s = s\<lparr>clState := clState s AND NOT f\<rparr>"

text \<open>CLIENT_CONNECTING is no target: the case only asserts, and clears the state.\<close>

definition client_stateTransition :: "u32 \<Rightarrow> 'a client_socket \<Rightarrow> 'a client_socket" where
  "client_stateTransition st s =
     (let new = st AND CLIENT_STATE_MASK; cleared = clState s AND NOT CLIENT_STATE_MASK in
      if new \<in> {CLIENT_INACTIVE, CLIENT_TRANSACTION_BEGIN, CLIENT_FORMATTING_HEADERS, CLIENT_FORMATTING_BODY,
                CLIENT_FLUSHING_BODY, CLIENT_PARSING_HEADERS, CLIENT_PARSING_BODY, CLIENT_TRANSACTION_END}
      then s\<lparr>clState := cleared OR new\<rparr>
      else s\<lparr>clState := cleared\<rparr>)"

definition new_client_socket :: "bool \<Rightarrow> 'a client_transaction option \<Rightarrow> 'a client_socket" where
  "new_client_socket reused t =
     (let s = \<lparr>clState = CLIENT_CONNECTING, clBodyBytesWritten = 0, clBytesAvailable = 0,
               clTransaction = t, clRecvBuffer = None, clSendBuffer = None\<rparr> in
      if reused then client_addFlag FIRST_USE_AFTER_REUSE (client_stateTransition CLIENT_TRANSACTION_BEGIN s)
      else s)"

definition client_set_transaction :: "'a client_transaction \<Rightarrow> 'a client_socket \<Rightarrow> 'a client_socket" where
  "client_set_transaction t s = s\<lparr>clTransaction := Some t\<rparr>"

section \<open>What the socket uses\<close>

text \<open>
  \<open>reuseConnections\<close> is the static member \<open>_ReuseConnections\<close>, \<open>executeTransaction\<close> starts a transaction
  on another connection, \<open>recordOutcome\<close> counts a success or failure since a start time.
\<close>

record ('w, 'a) client_env = "('w, 'a, 'a client_transaction, 'a client_socket) socket_env" +
  reuseConnections :: bool
  executeTransaction :: "'a client_transaction \<Rightarrow> 'w \<Rightarrow> error \<times> 'w"
  recordOutcome :: "bool \<Rightarrow> int \<Rightarrow> 'w \<Rightarrow> 'w"

datatype client_end_state =
    ES_HTTP_CLIENT_HANDLER_BEGIN | ES_HTTP_CLIENT_HANDLER_RESOLVE | ES_HTTP_CLIENT_HANDLER_CONNECT
  | ES_HTTP_CLIENT_HANDLER_SEND_REQUEST_HEADERS | ES_HTTP_CLIENT_HANDLER_SEND_REQUEST_BODY
  | ES_HTTP_CLIENT_HANDLER_RECV_RESPONSE_HEADERS | ES_HTTP_CLIENT_HANDLER_RECV_RESPONSE_BODY
  | ES_HTTP_CLIENT_HANDLER_END

type_synonym ('w, 'a) client_result = "error \<times> 'w \<times> 'a client_socket"
type_synonym ('c, 'w, 'a) client_machine_result = "error \<times> 'c \<times> 'w \<times> 'a client_socket"

record ('w, 'a) client_handler =
  beginRequest :: "'w \<Rightarrow> 'a client_socket \<Rightarrow> ('w, 'a) client_result"
  endRequest :: "'w \<Rightarrow> 'a client_socket \<Rightarrow> ('w, 'a) client_result"
  receiveResponseHeaders :: "'w \<Rightarrow> 'a client_socket \<Rightarrow> ('w, 'a) client_result"
  endClientTransaction :: "client_end_state \<Rightarrow> 'w \<Rightarrow> 'a client_socket \<Rightarrow> 'w \<times> 'a client_socket"
  clientBody :: "(unit, 'w, 'a client_socket) body_handler"

section \<open>Buffers\<close>

definition client_refill ::
  "('w, 'a) client_env \<Rightarrow> buffer \<Rightarrow> 'w \<Rightarrow> 'a client_socket \<Rightarrow> ('w, 'a) client_result" where
  "client_refill env b w s = (case refill env b w of (e, w1, b1) \<Rightarrow> (e, w1, s\<lparr>clRecvBuffer := Some b1\<rparr>))"

definition client_fillReceiveBuffer ::
  "('w, 'a) client_env \<Rightarrow> 'w \<Rightarrow> 'a client_socket \<Rightarrow> ('w, 'a) client_result" where
  "client_fillReceiveBuffer env w s =
     (if clTransaction s = None then (ESB_INVALID_STATE, w, s)
      else
        case clRecvBuffer s of
          Some b \<Rightarrow> client_refill env b w s
        | None \<Rightarrow>
            (case acquireBuffer env w of
               (None, w1) \<Rightarrow> (ESB_OUT_OF_MEMORY, w1, s)
             | (Some b, w1) \<Rightarrow> client_refill env b w1 s))"

text \<open>
  Each successful send clears FIRST_USE_AFTER_REUSE. With the kernel's answer to the first send the
  flag is settled: a buffer that has got shorter, or a send of nothing.
\<close>

partial_function (option) client_flush_loop ::
  "('w, 'a) client_env \<Rightarrow> bool \<Rightarrow> 'w \<Rightarrow> buffer \<Rightarrow> 'a client_socket \<Rightarrow> ('w, 'a) client_result option" where
  "client_flush_loop env flushed w b s =
     (if isShutdown env w \<or> \<not> isReadable b
      then Some (if isShutdown env w then ESB_SHUTDOWN else ESB_SUCCESS, w, s\<lparr>clSendBuffer := Some b\<rparr>)
      else
        case sockSend env (unread b) w of
          (SendError e, w1) \<Rightarrow>
            Some (if e = ESB_AGAIN then (if flushed then ESB_SUCCESS else ESB_AGAIN) else e, w1,
                  s\<lparr>clSendBuffer := Some b\<rparr>)
        | (Sent n, w1) \<Rightarrow>
            client_flush_loop env True w1 (send b n) (client_clearFlag FIRST_USE_AFTER_REUSE s))"

declare client_flush_loop.simps [code]

definition client_flushSendBuffer ::
  "('w, 'a) client_env \<Rightarrow> 'w \<Rightarrow> 'a client_socket \<Rightarrow> ('w, 'a) client_result option" where
  "client_flushSendBuffer env w s =
     (case clSendBuffer s of
        None \<Rightarrow> Some (UNDEFINED_BEHAVIOUR, w, s)
      | Some b \<Rightarrow> if \<not> isReadable b then Some (ESB_OVERFLOW, w, s) else client_flush_loop env False w b s)"

definition client_currentChunkBytesAvailable ::
  "'a client_socket \<Rightarrow> error \<times> u64 \<times> 'a client_socket" where
  "client_currentChunkBytesAvailable s =
     (if 0 < clBytesAvailable s then (ESB_SUCCESS, clBytesAvailable s, s)
      else if client_in s CLIENT_LAST_CHUNK_RECEIVED then (ESB_SUCCESS, 0, s)
      else
        case clTransaction s of
          None \<Rightarrow> (UNDEFINED_BEHAVIOUR, 0, s)
        | Some t \<Rightarrow>
            if \<not> hasBody (ctResponse t) then (ESB_SUCCESS, 0, s)
            else
              case clRecvBuffer s of
                None \<Rightarrow> (UNDEFINED_BEHAVIOUR, 0, s)
              | Some b \<Rightarrow>
                  (case parseBody (ctParser t) b 0 0 of (e, p, b1, _, n) \<Rightarrow>
                     let s1 = (client_set_transaction (t\<lparr>ctParser := p\<rparr>) s)\<lparr>clRecvBuffer := Some b1\<rparr> in
                     if e \<noteq> ESB_SUCCESS then (e, n, s1)
                     else
                       let s2 = s1\<lparr>clBytesAvailable := n\<rparr>
                       in (ESB_SUCCESS, n, if n = 0 then client_addFlag CLIENT_LAST_CHUNK_RECEIVED s2 else s2)))"

definition client_consume_received :: "u64 \<Rightarrow> 'a client_socket \<Rightarrow> error \<times> 'a client_socket" where
  "client_consume_received n s =
     (case (clTransaction s, clRecvBuffer s) of
        (Some t, Some b) \<Rightarrow>
          (case consumeBody (ctParser t) b n of (e, p, b1) \<Rightarrow>
             let s1 = (client_set_transaction (t\<lparr>ctParser := p\<rparr>) s)\<lparr>clRecvBuffer := Some b1\<rparr> in
             if e \<noteq> ESB_SUCCESS then (e, s1)
             else (ESB_SUCCESS, s1\<lparr>clBytesAvailable := clBytesAvailable s1 - n\<rparr>))
      | _ \<Rightarrow> (UNDEFINED_BEHAVIOUR, s))"

definition client_on_formatter ::
  "(request_formatter \<Rightarrow> buffer \<Rightarrow> http_request \<Rightarrow> error \<times> request_formatter \<times> buffer)
    \<Rightarrow> 'a client_socket \<Rightarrow> error \<times> 'a client_socket" where
  "client_on_formatter g s =
     (case (clTransaction s, clSendBuffer s) of
        (Some t, Some b) \<Rightarrow>
          (case g (ctFormatter t) b (ctRequest t) of (e, f, b1) \<Rightarrow>
             (e, (client_set_transaction (t\<lparr>ctFormatter := f\<rparr>) s)\<lparr>clSendBuffer := Some b1\<rparr>))
      | _ \<Rightarrow> (UNDEFINED_BEHAVIOUR, s))"

definition client_formatStartChunk :: "u64 \<Rightarrow> 'a client_socket \<Rightarrow> error \<times> u64 \<times> 'a client_socket" where
  "client_formatStartChunk n s =
     (case (clTransaction s, clSendBuffer s) of
        (Some t, Some b) \<Rightarrow>
          (case beginBlock (ctFormatter t) b n 0 of (e, f, b1, sz) \<Rightarrow>
             (e, sz, (client_set_transaction (t\<lparr>ctFormatter := f\<rparr>) s)\<lparr>clSendBuffer := Some b1\<rparr>))
      | _ \<Rightarrow> (UNDEFINED_BEHAVIOUR, 0, s))"

definition client_formatEndChunk :: "'a client_socket \<Rightarrow> error \<times> 'a client_socket" where
  "client_formatEndChunk = client_on_formatter (\<lambda>f b r. endBlock f b)"

section \<open>The states\<close>

text \<open>Without reuse of connections the request says so, unless it has a Connection header already.\<close>

definition client_announce_close ::
  "('w, 'a) client_env \<Rightarrow> 'a client_socket \<Rightarrow> error \<times> 'a client_socket" where
  "client_announce_close env s =
     (if reuseConnections env then (ESB_SUCCESS, s)
      else
        case clTransaction s of
          None \<Rightarrow> (UNDEFINED_BEHAVIOUR, s)
        | Some t \<Rightarrow>
            if findHeader (ctRequest t) (Some (asc ''Connection'')) \<noteq> None then (ESB_SUCCESS, s)
            else
              case addHeader (allocate env) (allocator (ctParser t)) (ctRequest t)
                     (Some (asc ''Connection'')) (Some (asc ''close'')) of
                (e, al, r) \<Rightarrow>
                  (relay_error e,
                   client_set_transaction (t\<lparr>ctParser := (ctParser t)\<lparr>allocator := al\<rparr>, ctRequest := r\<rparr>) s))"

definition client_stateBeginTransaction ::
  "('w, 'a) client_env \<Rightarrow> ('w, 'a) client_handler \<Rightarrow> 'w \<Rightarrow> 'a client_socket \<Rightarrow> ('w, 'a) client_result" where
  "client_stateBeginTransaction env h w s =
     (case client_announce_close env s of (e0, s0) \<Rightarrow>
        if e0 \<noteq> ESB_SUCCESS then (e0, w, s0)
        else
          case beginRequest h w s0 of (e, w1, s1) \<Rightarrow>
            if e \<noteq> ESB_SUCCESS then (relay_error e, w1, s1)
            else (ESB_SUCCESS, w1, client_stateTransition CLIENT_FORMATTING_HEADERS s1))"

definition client_stateSendRequestHeaders ::
  "('w, 'a) client_env \<Rightarrow> 'w \<Rightarrow> 'a client_socket \<Rightarrow> ('w, 'a) client_result" where
  "client_stateSendRequestHeaders env w s =
     (case (case clSendBuffer s of Some b \<Rightarrow> (Some b, w) | None \<Rightarrow> acquireBuffer env w) of
        (None, w1) \<Rightarrow> (ESB_OUT_OF_MEMORY, w1, s)
      | (Some b, w1) \<Rightarrow>
          (case client_on_formatter request_formatHeaders (s\<lparr>clSendBuffer := Some b\<rparr>) of (e, s1) \<Rightarrow>
             (e, w1, if e = ESB_SUCCESS then client_stateTransition CLIENT_FORMATTING_BODY s1 else s1)))"

definition client_end_request_body :: "'a client_socket \<Rightarrow> error \<times> 'a client_socket" where
  "client_end_request_body s =
     (case client_on_formatter (\<lambda>f b r. endBody f b) s of (e, s1) \<Rightarrow>
        (e, if e = ESB_SUCCESS then client_stateTransition CLIENT_FLUSHING_BODY s1 else s1))"

text \<open>One chunk of the request body: begin it, let the handler produce it, end it.\<close>

definition client_send_chunk ::
  "('c, 'w, 'a client_socket) body_handler \<Rightarrow> u64 \<Rightarrow> 'c \<Rightarrow> 'w \<Rightarrow> 'a client_socket
    \<Rightarrow> ('c, 'w, 'a) client_machine_result" where
  "client_send_chunk bh offered c w s =
     (case client_formatStartChunk offered s of (e, n, s1) \<Rightarrow>
        if e \<noteq> ESB_SUCCESS then (e, c, w, s1)
        else
          case produce_body bh n c w s1 of (e2, os, c2, w2, s2) \<Rightarrow>
            if e2 \<notin> {ESB_SUCCESS, ESB_AGAIN, ESB_PAUSE} then (e2, c2, w2, s2)
            else
              let s3 = s2\<lparr>clSendBuffer := map_option (store_body os n) (clSendBuffer s2),
                          clBodyBytesWritten := clBodyBytesWritten s2 + n\<rparr>
              in (case client_formatEndChunk s3 of (e3, s4) \<Rightarrow> (e3, c2, w2, s4)))"

partial_function (option) client_stateSendRequestBody ::
  "('w, 'a) client_env \<Rightarrow> ('c, 'w, 'a client_socket) body_handler \<Rightarrow> 'c \<Rightarrow> 'w \<Rightarrow> 'a client_socket
    \<Rightarrow> ('c, 'w, 'a) client_machine_result option" where
  "client_stateSendRequestBody env bh c w s =
     (if isShutdown env w then Some (ESB_SHUTDOWN, c, w, s)
      else
        case offer_body bh c w s of (e, offered, c1, w1, s1) \<Rightarrow>
          if e = ESB_AGAIN \<or> e = ESB_PAUSE then Some (ESB_PAUSE, c1, w1, s1)
          else if e \<noteq> ESB_SUCCESS then Some (e, c1, w1, s1)
          else if offered = 0 then
            (case client_end_request_body s1 of (e2, s2) \<Rightarrow> Some (e2, c1, w1, s2))
          else
            case client_send_chunk bh offered c1 w1 s1 of (e2, c2, w2, s2) \<Rightarrow>
              if e2 \<noteq> ESB_SUCCESS then Some (e2, c2, w2, s2)
              else client_stateSendRequestBody env bh c2 w2 s2)"

definition client_stateFlushRequestBody ::
  "('w, 'a) client_env \<Rightarrow> ('w, 'a) client_handler \<Rightarrow> 'w \<Rightarrow> 'a client_socket \<Rightarrow> ('w, 'a) client_result option" where
  "client_stateFlushRequestBody env h w s =
     map_option (\<lambda>(e, w1, s1).
         if e \<noteq> ESB_SUCCESS then (e, w1, s1)
         else endRequest h w1 (client_stateTransition CLIENT_PARSING_HEADERS s1))
       (client_flushSendBuffer env w s)"

definition client_stateReceiveResponseHeaders ::
  "('w, 'a) client_env \<Rightarrow> ('w, 'a) client_handler \<Rightarrow> 'w \<Rightarrow> 'a client_socket \<Rightarrow> ('w, 'a) client_result" where
  "client_stateReceiveResponseHeaders env h w s =
     (case (clTransaction s, clRecvBuffer s) of
        (Some t, Some b) \<Rightarrow>
          (case response_parseHeaders (allocate env) (ctParser t) b (ctResponse t) of (e, p, b1, r) \<Rightarrow>
             let s1 = (client_set_transaction (t\<lparr>ctParser := p, ctResponse := r\<rparr>) s)\<lparr>clRecvBuffer := Some b1\<rparr> in
             if e \<noteq> ESB_SUCCESS then (e, w, s1)
             else
               case receiveResponseHeaders h w (client_stateTransition CLIENT_PARSING_BODY s1) of (e2, w2, s2) \<Rightarrow>
                 (if e2 = ESB_AGAIN then ESB_PAUSE else e2, w2, s2))
      | _ \<Rightarrow> (UNDEFINED_BEHAVIOUR, w, s))"

definition client_offer_last_chunk ::
  "('c, 'w, 'a client_socket) body_handler \<Rightarrow> 'c \<Rightarrow> 'w \<Rightarrow> 'a client_socket
    \<Rightarrow> ('c, 'w, 'a) client_machine_result" where
  "client_offer_last_chunk bh c w s =
     (case consume_body bh [0] 0 c w (client_stateTransition CLIENT_TRANSACTION_END s) of (e, _, c1, w1, s1) \<Rightarrow>
        (if e = ESB_AGAIN then ESB_PAUSE else e, c1, w1, s1))"

definition client_offer_chunk ::
  "('c, 'w, 'a client_socket) body_handler \<Rightarrow> u64 \<Rightarrow> 'c \<Rightarrow> 'w \<Rightarrow> 'a client_socket
    \<Rightarrow> bool \<times> ('c, 'w, 'a) client_machine_result" where
  "client_offer_chunk bh n c w s =
     (case clRecvBuffer s of
        None \<Rightarrow> (True, UNDEFINED_BEHAVIOUR, c, w, s)
      | Some b \<Rightarrow>
          (case consume_body bh (take (unat n) (unread b)) n c w s of (e, k, c1, w1, s1) \<Rightarrow>
             case (if 0 < k then client_consume_received k s1 else (ESB_SUCCESS, s1)) of (e2, s2) \<Rightarrow>
               if e2 \<noteq> ESB_SUCCESS then (True, e2, c1, w1, s2)
               else if e = ESB_SUCCESS then (False, ESB_SUCCESS, c1, w1, s2)
               else (True, if e = ESB_AGAIN then ESB_PAUSE else e, c1, w1, s2)))"

partial_function (option) client_stateReceiveResponseBody ::
  "('w, 'a) client_env \<Rightarrow> ('c, 'w, 'a client_socket) body_handler \<Rightarrow> 'c \<Rightarrow> 'w \<Rightarrow> 'a client_socket
    \<Rightarrow> ('c, 'w, 'a) client_machine_result option" where
  "client_stateReceiveResponseBody env bh c w s =
     (if isShutdown env w then Some (ESB_SHUTDOWN, c, w, s)
      else
        case client_currentChunkBytesAvailable s of (e, n, s1) \<Rightarrow>
          if e \<noteq> ESB_SUCCESS then Some (e, c, w, s1)
          else if n = 0 then Some (client_offer_last_chunk bh c w s1)
          else
            case client_offer_chunk bh n c w s1 of (finished, e2, c2, w2, s2) \<Rightarrow>
              if finished then Some (e2, c2, w2, s2)
              else client_stateReceiveResponseBody env bh c2 w2 s2)"

section \<open>The machine\<close>

definition client_with_c :: "'c \<Rightarrow> ('w, 'a) client_result \<Rightarrow> ('c, 'w, 'a) client_machine_result" where
  "client_with_c c r = (case r of (e, w, s) \<Rightarrow> (e, c, w, s))"

text \<open>The handler of the current state. The states without one end the loop, TRANSACTION_END with success.\<close>

definition client_run_state ::
  "('w, 'a) client_env \<Rightarrow> ('w, 'a) client_handler \<Rightarrow> ('c, 'w, 'a client_socket) body_handler \<Rightarrow> 'c \<Rightarrow> 'w
    \<Rightarrow> 'a client_socket \<Rightarrow> ('c, 'w, 'a) client_machine_result option" where
  "client_run_state env h bh c w s =
     (let st = clState s AND CLIENT_STATE_MASK in
      if st = CLIENT_TRANSACTION_BEGIN then Some (client_with_c c (client_stateBeginTransaction env h w s))
      else if st = CLIENT_FORMATTING_HEADERS then Some (client_with_c c (client_stateSendRequestHeaders env w s))
      else if st = CLIENT_FORMATTING_BODY then client_stateSendRequestBody env bh c w s
      else if st = CLIENT_FLUSHING_BODY then map_option (client_with_c c) (client_stateFlushRequestBody env h w s)
      else if st = CLIENT_PARSING_HEADERS then
        Some (client_with_c c (client_stateReceiveResponseHeaders env h w s))
      else if st = CLIENT_PARSING_BODY then client_stateReceiveResponseBody env bh c w s
      else Some (ESB_INVALID_STATE, c, w, s))"

text \<open>
  One round of \<open>advanceStateMachine\<close>: its result, or the two local flags for the next round. A request
  flushed to its end makes the next round read from the socket.
\<close>

definition client_machine_round ::
  "('w, 'a) client_env \<Rightarrow> ('w, 'a) client_handler \<Rightarrow> ('c, 'w, 'a client_socket) body_handler \<Rightarrow> u32 \<Rightarrow> bool \<Rightarrow> bool
    \<Rightarrow> 'c \<Rightarrow> 'w \<Rightarrow> 'a client_socket
    \<Rightarrow> (('c, 'w, 'a) client_machine_result + bool \<times> bool \<times> 'c \<times> 'w \<times> 'a client_socket) option" where
  "client_machine_round env h bh fl fill drain c w s =
     (if isShutdown env w then Some (Inl (ESB_SHUTDOWN, c, w, s))
      else
        let inRecv = client_in s CLIENT_RECV_STATE_MASK; inSend = client_in s CLIENT_SEND_STATE_MASK in
        if inRecv \<and> \<not> has_flag fl ADVANCE_RECV then Some (Inl (ESB_SUCCESS, c, w, s))
        else if inSend \<and> \<not> has_flag fl ADVANCE_SEND then Some (Inl (ESB_SUCCESS, c, w, s))
        else
          case (if fill then client_fillReceiveBuffer env w s else (ESB_SUCCESS, w, s)) of (e0, w0, s0) \<Rightarrow>
            if e0 \<noteq> ESB_SUCCESS then Some (Inl (e0, c, w0, s0))
            else
              let st = clState s0 AND CLIENT_STATE_MASK in
              if st = CLIENT_TRANSACTION_END then Some (Inl (ESB_SUCCESS, c, w0, s0))
              else
                case client_run_state env h bh c w0 s0 of
                  None \<Rightarrow> None
                | Some (e, c1, w1, s1) \<Rightarrow>
                  if e = ESB_AGAIN \<and> st = CLIENT_FLUSHING_BODY then Some (Inl (ESB_AGAIN, c1, w1, s1))
                  else if e = ESB_BREAK then Some (Inl (ESB_SUCCESS, c1, w1, s1))
                  else if e \<noteq> ESB_SUCCESS \<and> e \<noteq> ESB_AGAIN then Some (Inl (e, c1, w1, s1))
                  else
                    let fill1 = (if e = ESB_AGAIN then inRecv else st = CLIENT_FLUSHING_BODY);
                        drain1 = (if e = ESB_AGAIN then inSend else drain) in
                    if \<not> drain1 then Some (Inr (fill1, False, c1, w1, s1))
                    else
                      map_option (\<lambda>(e2, w2, s2).
                          if e2 \<noteq> ESB_SUCCESS then Inl (e2, c1, w2, s2)
                          else Inr (fill1, False, c1, w2, s2))
                        (client_flushSendBuffer env w1 s1))"

partial_function (option) client_machine_loop ::
  "('w, 'a) client_env \<Rightarrow> ('w, 'a) client_handler \<Rightarrow> ('c, 'w, 'a client_socket) body_handler \<Rightarrow> u32 \<Rightarrow> bool \<Rightarrow> bool
    \<Rightarrow> 'c \<Rightarrow> 'w \<Rightarrow> 'a client_socket \<Rightarrow> ('c, 'w, 'a) client_machine_result option" where
  "client_machine_loop env h bh fl fill drain c w s =
     (case client_machine_round env h bh fl fill drain c w s of
        None \<Rightarrow> None
      | Some (Inl res) \<Rightarrow> Some res
      | Some (Inr (fill1, drain1, c1, w1, s1)) \<Rightarrow> client_machine_loop env h bh fl fill1 drain1 c1 w1 s1)"

declare client_stateSendRequestBody.simps [code] client_stateReceiveResponseBody.simps [code]
  client_machine_loop.simps [code]

definition client_advanceStateMachine ::
  "('w, 'a) client_env \<Rightarrow> ('w, 'a) client_handler \<Rightarrow> ('c, 'w, 'a client_socket) body_handler \<Rightarrow> u32
    \<Rightarrow> 'c \<Rightarrow> 'w \<Rightarrow> 'a client_socket \<Rightarrow> ('c, 'w, 'a) client_machine_result option" where
  "client_advanceStateMachine env h bh fl c w s =
     client_machine_loop env h bh fl (has_flag fl INITIAL_FILL_RECV_BUFFER)
       (has_flag fl INITIAL_DRAIN_SEND_BUFFER) c w s"

definition client_advance_own ::
  "('w, 'a) client_env \<Rightarrow> ('w, 'a) client_handler \<Rightarrow> u32 \<Rightarrow> 'w \<Rightarrow> 'a client_socket
    \<Rightarrow> ('w, 'a) client_result option" where
  "client_advance_own env h fl w s =
     map_option (\<lambda>(e, _, w1, s1). (e, w1, s1)) (client_advanceStateMachine env h (clientBody h) fl () w s)"

section \<open>Entry points\<close>

definition client_wantConnect :: "'a client_socket \<Rightarrow> bool" where
  "client_wantConnect s = client_in s CLIENT_CONNECTING"

definition client_wantRead :: "('w, 'a) client_env \<Rightarrow> 'w \<Rightarrow> 'a client_socket \<Rightarrow> bool" where
  "client_wantRead env w s =
     (if client_in s (CLIENT_RECV_PAUSED OR CLIENT_ABORTED OR CLIENT_INACTIVE) then False
      else if sockWantRead env w then True
      else if sockWantWrite env w then False
      else client_in s CLIENT_RECV_STATE_MASK)"

definition client_wantWrite :: "('w, 'a) client_env \<Rightarrow> 'w \<Rightarrow> 'a client_socket \<Rightarrow> bool" where
  "client_wantWrite env w s =
     (if client_in s (CLIENT_SEND_PAUSED OR CLIENT_ABORTED OR CLIENT_INACTIVE) then False
      else if sockWantWrite env w then True
      else if sockWantRead env w then False
      else client_in s (CLIENT_TRANSACTION_BEGIN OR CLIENT_SEND_STATE_MASK))"

definition client_handleReadable ::
  "('w, 'a) client_env \<Rightarrow> ('w, 'a) client_handler \<Rightarrow> 'w \<Rightarrow> 'a client_socket \<Rightarrow> ('w, 'a) client_result option" where
  "client_handleReadable env h w s =
     (if \<not> client_wantRead env w s \<or> \<not> sockConnected env w \<or> clTransaction s = None
      then Some (ESB_INVALID_STATE, w, s)
      else client_advance_own env h (INITIAL_FILL_RECV_BUFFER OR ADVANCE_RECV OR ADVANCE_SEND) w s)"

definition client_handleWritable ::
  "('w, 'a) client_env \<Rightarrow> ('w, 'a) client_handler \<Rightarrow> 'w \<Rightarrow> 'a client_socket \<Rightarrow> ('w, 'a) client_result option" where
  "client_handleWritable env h w s =
     (if \<not> client_wantWrite env w s \<or> \<not> sockConnected env w \<or> clTransaction s = None
      then Some (ESB_INVALID_STATE, w, s)
      else client_advance_own env h (ADVANCE_RECV OR ADVANCE_SEND) w s)"

definition handleConnect ::
  "('w, 'a) client_env \<Rightarrow> ('w, 'a) client_handler \<Rightarrow> 'w \<Rightarrow> 'a client_socket \<Rightarrow> ('w, 'a) client_result option" where
  "handleConnect env h w s = client_handleWritable env h w (client_stateTransition CLIENT_TRANSACTION_BEGIN s)"

definition responseBodyAvailable ::
  "('w, 'a) client_env \<Rightarrow> ('w, 'a) client_handler \<Rightarrow> 'w \<Rightarrow> 'a client_socket
    \<Rightarrow> (error \<times> u64 \<times> 'w \<times> 'a client_socket) option" where
  "responseBodyAvailable env h w s =
     map_option (\<lambda>(e, (_, _, offered), w1, s1). (e, offered, w1, s1))
       (client_advanceStateMachine env h (body_consumer 0) (UPDATE_MULTIPLEXER OR ADVANCE_RECV) ([], 0, 0) w s)"

definition readResponseBody ::
  "('w, 'a) client_env \<Rightarrow> ('w, 'a) client_handler \<Rightarrow> u64 \<Rightarrow> 'w \<Rightarrow> 'a client_socket
    \<Rightarrow> (error \<times> u8 list \<times> u64 \<times> 'w \<times> 'a client_socket) option" where
  "readResponseBody env h bytesRequested w s =
     map_option (\<lambda>(e, (copied, consumed, _), w1, s1). (e, copied, consumed, w1, s1))
       (client_advanceStateMachine env h (body_consumer bytesRequested) (UPDATE_MULTIPLEXER OR ADVANCE_RECV)
          ([], 0, 0) w s)"

definition sendRequestBody ::
  "('w, 'a) client_env \<Rightarrow> ('w, 'a) client_handler \<Rightarrow> u8 list \<Rightarrow> u64 \<Rightarrow> 'w \<Rightarrow> 'a client_socket
    \<Rightarrow> (error \<times> u64 \<times> 'w \<times> 'a client_socket) option" where
  "sendRequestBody env h chunk bytesOffered w s =
     (if \<not> client_in s CLIENT_FORMATTING_BODY then Some (ESB_INVALID_STATE, 0, w, s)
      else
        client_advanceStateMachine env h (body_producer chunk bytesOffered) (UPDATE_MULTIPLEXER OR ADVANCE_SEND)
          0 w s)"

section \<open>Removal\<close>

text \<open>
  An active socket has a transaction (\<open>client_inv\<close> in ClientInvariant): where \<open>handleRemove\<close> would
  dereference a NULL one, the definitions below leave the world as it is.
\<close>

definition client_release_buffers ::
  "('w, 'a) client_env \<Rightarrow> 'w \<Rightarrow> 'a client_socket \<Rightarrow> 'w \<times> 'a client_socket" where
  "client_release_buffers env w s =
     (let w1 = (case clSendBuffer s of None \<Rightarrow> w | Some b \<Rightarrow> releaseBuffer env b w);
          w2 = (case clRecvBuffer s of None \<Rightarrow> w1 | Some b \<Rightarrow> releaseBuffer env b w1)
      in (w2, s\<lparr>clSendBuffer := None, clRecvBuffer := None\<rparr>))"

definition client_drop_transaction ::
  "('w, 'a) client_env \<Rightarrow> 'w \<Rightarrow> 'a client_socket \<Rightarrow> 'w \<times> 'a client_socket" where
  "client_drop_transaction env w s =
     (case clTransaction s of
        None \<Rightarrow> (w, s)
      | Some t \<Rightarrow> (destroyTransaction env t w, s\<lparr>clTransaction := None\<rparr>))"

text \<open>The state in which the handler is told of a transaction that ends early.\<close>

definition client_removal_state :: "u32 \<Rightarrow> client_end_state option" where
  "client_removal_state st =
     (if st = CLIENT_TRANSACTION_BEGIN then Some ES_HTTP_CLIENT_HANDLER_BEGIN
      else if st = CLIENT_CONNECTING then Some ES_HTTP_CLIENT_HANDLER_CONNECT
      else if st = CLIENT_FORMATTING_HEADERS then Some ES_HTTP_CLIENT_HANDLER_SEND_REQUEST_HEADERS
      else if st = CLIENT_FORMATTING_BODY \<or> st = CLIENT_FLUSHING_BODY
      then Some ES_HTTP_CLIENT_HANDLER_SEND_REQUEST_BODY
      else if st = CLIENT_PARSING_HEADERS then Some ES_HTTP_CLIENT_HANDLER_RECV_RESPONSE_HEADERS
      else if st = CLIENT_PARSING_BODY then Some ES_HTTP_CLIENT_HANDLER_RECV_RESPONSE_BODY
      else if st = CLIENT_TRANSACTION_END then Some ES_HTTP_CLIENT_HANDLER_END
      else None)"

definition connection_reusable :: "('w, 'a) client_env \<Rightarrow> 'a client_socket \<Rightarrow> bool" where
  "connection_reusable env s \<longleftrightarrow>
     reuseConnections env \<and> \<not> client_in s CLIENT_ABORTED \<and>
     (case clTransaction s of
        None \<Rightarrow> True
      | Some t \<Rightarrow>
          (case findHeader (ctResponse t) (Some (asc ''Connection'')) of
             None \<Rightarrow> True
           | Some hdr \<Rightarrow>
               (case fieldValue hdr of None \<Rightarrow> True | Some v \<Rightarrow> strcasecmp (asc ''close'') v \<noteq> 0)))"

text \<open>A connection that was stale when it was reused: its transaction is started again elsewhere.\<close>

definition retry_transaction ::
  "('w, 'a) client_env \<Rightarrow> ('w, 'a) client_handler \<Rightarrow> 'w \<Rightarrow> 'a client_socket \<Rightarrow> 'w \<times> 'a client_socket" where
  "retry_transaction env h w s =
     (case clTransaction s of
        None \<Rightarrow> (w, client_stateTransition CLIENT_INACTIVE s)
      | Some t \<Rightarrow>
          (case executeTransaction env t (sockClose env w) of (e, w1) \<Rightarrow>
             case (if e = ESB_SUCCESS then (w1, s)
                   else case endClientTransaction h ES_HTTP_CLIENT_HANDLER_BEGIN w1 s of
                     (w2, s2) \<Rightarrow> client_drop_transaction env w2 s2) of
               (w3, s3) \<Rightarrow> (w3, client_stateTransition CLIENT_INACTIVE (s3\<lparr>clTransaction := None\<rparr>))))"

definition client_report_end ::
  "('w, 'a) client_env \<Rightarrow> ('w, 'a) client_handler \<Rightarrow> 'w \<Rightarrow> 'a client_socket \<Rightarrow> 'w \<times> 'a client_socket" where
  "client_report_end env h w s =
     (case (client_removal_state (clState s AND CLIENT_STATE_MASK), clTransaction s) of
        (Some st, Some t) \<Rightarrow>
          endClientTransaction h st (recordOutcome env (st = ES_HTTP_CLIENT_HANDLER_END) (ctStart t) w) s
      | _ \<Rightarrow> (w, s))"

definition client_handleRemove ::
  "('w, 'a) client_env \<Rightarrow> ('w, 'a) client_handler \<Rightarrow> 'w \<Rightarrow> 'a client_socket \<Rightarrow> 'w \<times> 'a client_socket" where
  "client_handleRemove env h w s =
     (case client_release_buffers env w s of (w1, s1) \<Rightarrow>
        if client_in s1 FIRST_USE_AFTER_REUSE \<and> \<not> client_in s1 CLIENT_ABORTED
        then retry_transaction env h w1 s1
        else
          let keep = (clState s1 AND CLIENT_STATE_MASK = CLIENT_TRANSACTION_END \<and> connection_reusable env s1) in
          case client_report_end env h w1 s1 of (w2, s2) \<Rightarrow>
          case client_drop_transaction env w2 s2 of (w3, s3) \<Rightarrow>
            (if keep then w3 else sockClose env w3, client_stateTransition CLIENT_INACTIVE s3))"

text \<open>The destructor.\<close>

definition client_destroy_socket :: "('w, 'a) client_env \<Rightarrow> 'w \<Rightarrow> 'a client_socket \<Rightarrow> 'w" where
  "client_destroy_socket env w s =
     (let w1 = (case clRecvBuffer s of None \<Rightarrow> w | Some b \<Rightarrow> releaseBuffer env b w);
          w2 = (case clSendBuffer s of None \<Rightarrow> w1 | Some b \<Rightarrow> releaseBuffer env b w1)
      in fst (client_drop_transaction env w2 s))"

section \<open>Abort, pause and resume\<close>

definition client_abort :: "('w, 'a) client_env \<Rightarrow> bool \<Rightarrow> 'w \<Rightarrow> 'a client_socket \<Rightarrow> ('w, 'a) client_result" where
  "client_abort env upd w s =
     (if client_in s CLIENT_ABORTED then (ESB_INVALID_STATE, w, s)
      else after_update (removeMultiplexedSocket env) upd w (client_addFlag CLIENT_ABORTED s))"

definition client_pauseRecv :: "('w, 'a) client_env \<Rightarrow> bool \<Rightarrow> 'w \<Rightarrow> 'a client_socket \<Rightarrow> ('w, 'a) client_result" where
  "client_pauseRecv env upd w s =
     (if client_in s (CLIENT_INACTIVE OR CLIENT_ABORTED) then (ESB_INVALID_STATE, w, s)
      else if client_in s CLIENT_RECV_PAUSED then (ESB_SUCCESS, w, s)
      else after_update (updateMultiplexedSocket env) upd w (client_addFlag CLIENT_RECV_PAUSED s))"

definition client_resumeRecv :: "('w, 'a) client_env \<Rightarrow> bool \<Rightarrow> 'w \<Rightarrow> 'a client_socket \<Rightarrow> ('w, 'a) client_result" where
  "client_resumeRecv env upd w s =
     (if client_in s (CLIENT_INACTIVE OR CLIENT_ABORTED) then (ESB_INVALID_STATE, w, s)
      else if \<not> client_in s CLIENT_RECV_PAUSED then (ESB_SUCCESS, w, s)
      else after_update (updateMultiplexedSocket env) upd w (client_clearFlag CLIENT_RECV_PAUSED s))"

definition client_pauseSend :: "('w, 'a) client_env \<Rightarrow> bool \<Rightarrow> 'w \<Rightarrow> 'a client_socket \<Rightarrow> ('w, 'a) client_result" where
  "client_pauseSend env upd w s =
     (if client_in s (CLIENT_INACTIVE OR CLIENT_ABORTED) then (ESB_INVALID_STATE, w, s)
      else if client_in s CLIENT_SEND_PAUSED then (ESB_SUCCESS, w, s)
      else after_update (updateMultiplexedSocket env) upd w (client_addFlag CLIENT_SEND_PAUSED s))"

definition client_resumeSend :: "('w, 'a) client_env \<Rightarrow> bool \<Rightarrow> 'w \<Rightarrow> 'a client_socket \<Rightarrow> ('w, 'a) client_result" where
  "client_resumeSend env upd w s =
     (if client_in s (CLIENT_INACTIVE OR CLIENT_ABORTED) then (ESB_INVALID_STATE, w, s)
      else if \<not> client_in s CLIENT_SEND_PAUSED then (ESB_SUCCESS, w, s)
      else after_update (updateMultiplexedSocket env) upd w (client_clearFlag CLIENT_SEND_PAUSED s))"

definition client_markDead :: "'a client_socket \<Rightarrow> 'a client_socket" where
  "client_markDead s = client_addFlag CLIENT_DEAD s"

definition client_dead :: "'a client_socket \<Rightarrow> bool" where
  "client_dead s = client_in s CLIENT_DEAD"

definition client_describeState :: "'a client_socket \<Rightarrow> string" where
  "client_describeState s =
     (let st = clState s AND CLIENT_STATE_MASK in
      if st = CLIENT_INACTIVE then ''inactive''
      else if st = CLIENT_CONNECTING then ''connecting''
      else if st = CLIENT_TRANSACTION_BEGIN then ''begun''
      else if st = CLIENT_FORMATTING_HEADERS then ''send-headers''
      else if st = CLIENT_FORMATTING_BODY then ''send-body''
      else if st = CLIENT_FLUSHING_BODY then ''flush-body''
      else if st = CLIENT_PARSING_HEADERS then ''recv-headers''
      else if st = CLIENT_PARSING_BODY then ''recv-body''
      else if st = CLIENT_TRANSACTION_END then ''end''
      else ''unknown'')"

definition client_describeFlags :: "'a client_socket \<Rightarrow> string" where
  "client_describeFlags s =
     (if client_in s CLIENT_RECV_PAUSED
      then (if client_in s CLIENT_SEND_PAUSED then ''send-recv-paused'' else ''recv-paused'')
      else if client_in s CLIENT_SEND_PAUSED then ''send-paused''
      else if client_in s CLIENT_ABORTED then ''aborted'' else ''active'')"

end
