(* ===== verification/ClientInvariant.thy ===== *)
theory ClientInvariant
  imports ClientSocket
begin

text \<open>
  The contract of the client socket's state machine, as ServerInvariant states the server's: the
  transitions that \<open>stateTransition\<close> asserts, the invariant that ties the state to the transaction, the
  buffers and the flags, and the callbacks that keep to the setters of \<open>HttpClientStream\<close>.
\<close>

section \<open>State and flags\<close>

definition client_state :: "'a client_socket \<Rightarrow> u32" where
  "client_state s = clState s AND CLIENT_STATE_MASK"

lemma client_state_update [simp]:
  "client_state (s\<lparr>clBodyBytesWritten := k\<rparr>) = client_state s"
  "client_state (s\<lparr>clBytesAvailable := k\<rparr>) = client_state s"
  "client_state (s\<lparr>clTransaction := t\<rparr>) = client_state s"
  "client_state (s\<lparr>clRecvBuffer := b\<rparr>) = client_state s"
  "client_state (s\<lparr>clSendBuffer := b\<rparr>) = client_state s"
  by (simp_all add: client_state_def)

lemma client_in_update [simp]:
  "client_in (s\<lparr>clBodyBytesWritten := k\<rparr>) m = client_in s m"
  "client_in (s\<lparr>clBytesAvailable := k\<rparr>) m = client_in s m"
  "client_in (s\<lparr>clTransaction := t\<rparr>) m = client_in s m"
  "client_in (s\<lparr>clRecvBuffer := b\<rparr>) m = client_in s m"
  "client_in (s\<lparr>clSendBuffer := b\<rparr>) m = client_in s m"
  by (simp_all add: client_in_def)

lemma client_set_transaction_sel [simp]:
  "clTransaction (client_set_transaction t s) = Some t" "clRecvBuffer (client_set_transaction t s) = clRecvBuffer s"
  "clSendBuffer (client_set_transaction t s) = clSendBuffer s" "clBytesAvailable (client_set_transaction t s) = clBytesAvailable s"
  "client_state (client_set_transaction t s) = client_state s" "client_in (client_set_transaction t s) m = client_in s m"
  by (simp_all add: client_set_transaction_def)

lemma client_flag_sel [simp]:
  "clTransaction (client_addFlag f s) = clTransaction s" "clTransaction (client_clearFlag f s) = clTransaction s"
  "clRecvBuffer (client_addFlag f s) = clRecvBuffer s" "clRecvBuffer (client_clearFlag f s) = clRecvBuffer s"
  "clSendBuffer (client_addFlag f s) = clSendBuffer s" "clSendBuffer (client_clearFlag f s) = clSendBuffer s"
  "clBytesAvailable (client_addFlag f s) = clBytesAvailable s" "clBytesAvailable (client_clearFlag f s) = clBytesAvailable s"
  by (simp_all add: client_addFlag_def client_clearFlag_def)

lemma client_transition_sel [simp]:
  "clTransaction (client_stateTransition n s) = clTransaction s" "clRecvBuffer (client_stateTransition n s) = clRecvBuffer s"
  "clSendBuffer (client_stateTransition n s) = clSendBuffer s" "clBytesAvailable (client_stateTransition n s) = clBytesAvailable s"
  by (simp_all add: client_stateTransition_def Let_def)

lemma client_flag_state [simp]:
  "f AND CLIENT_STATE_MASK = 0 \<Longrightarrow> client_state (client_addFlag f s) = client_state s"
  "f AND CLIENT_STATE_MASK = 0 \<Longrightarrow> client_state (client_clearFlag f s) = client_state s"
proof -
  assume f: "f AND CLIENT_STATE_MASK = 0"
  then show "client_state (client_addFlag f s) = client_state s"
    by (simp add: client_state_def client_addFlag_def mask_simps)
  show "client_state (client_clearFlag f s) = client_state s"
    using and_mask_clear [of CLIENT_STATE_MASK f] f
    by (simp add: client_state_def client_clearFlag_def and.commute [of f])
qed

lemma client_flag_in_state [simp]:
  "client_in (client_addFlag f s) m \<longleftrightarrow> client_in s m \<or> has_flag f m"
  "client_in (client_clearFlag f s) m \<longleftrightarrow> client_in s (m AND NOT f)"
  using has_flag_transition [of "clState s" f 0 m]
  by (simp_all add: client_in_def client_addFlag_def client_clearFlag_def has_flag_or transition_def)

lemma client_state_in_state: "m AND CLIENT_STATE_MASK = m \<Longrightarrow> client_in s m \<longleftrightarrow> m AND client_state s \<noteq> 0"
proof -
  assume m: "m AND CLIENT_STATE_MASK = m"
  have "m AND client_state s = (m AND CLIENT_STATE_MASK) AND clState s"
    by (simp only: client_state_def ac_simps)
  then show ?thesis
    by (simp add: client_in_def has_flag_def m)
qed

lemma client_state_of_transition [simp]:
  "client_state (client_stateTransition CLIENT_INACTIVE s) = 1"
  "client_state (client_stateTransition CLIENT_TRANSACTION_BEGIN s) = 4"
  "client_state (client_stateTransition CLIENT_FORMATTING_HEADERS s) = 8"
  "client_state (client_stateTransition CLIENT_FORMATTING_BODY s) = 16"
  "client_state (client_stateTransition CLIENT_FLUSHING_BODY s) = 32"
  "client_state (client_stateTransition CLIENT_PARSING_HEADERS s) = 64"
  "client_state (client_stateTransition CLIENT_PARSING_BODY s) = 128"
  "client_state (client_stateTransition CLIENT_TRANSACTION_END s) = 256"
  by (simp_all add: client_stateTransition_def client_state_def mask_simps)

lemma client_flag_of_transition [simp]:
  assumes "m = FIRST_USE_AFTER_REUSE \<or> m = CLIENT_LAST_CHUNK_RECEIVED \<or> m = CLIENT_ABORTED"
    and "n = CLIENT_INACTIVE \<or> n = CLIENT_TRANSACTION_BEGIN \<or> n = CLIENT_FORMATTING_HEADERS \<or>
      n = CLIENT_FORMATTING_BODY \<or> n = CLIENT_FLUSHING_BODY \<or> n = CLIENT_PARSING_HEADERS \<or>
      n = CLIENT_PARSING_BODY \<or> n = CLIENT_TRANSACTION_END"
  shows "client_in (client_stateTransition n s) m = client_in s m"
  using assms
  by (elim disjE) (simp_all add: client_stateTransition_def client_in_def has_flag_def mask_simps
      and.commute [of 512] and.commute [of 8192] and.commute [of 4096])

section \<open>The contract\<close>

inductive client_step :: "u32 \<Rightarrow> u32 \<Rightarrow> bool" where
  connected: "client_step CLIENT_CONNECTING CLIENT_TRANSACTION_BEGIN"
| send_headers: "client_step CLIENT_TRANSACTION_BEGIN CLIENT_FORMATTING_HEADERS"
| send_request_body: "client_step CLIENT_FORMATTING_HEADERS CLIENT_FORMATTING_BODY"
| flush_request: "client_step CLIENT_FORMATTING_BODY CLIENT_FLUSHING_BODY"
| await_response: "client_step CLIENT_FLUSHING_BODY CLIENT_PARSING_HEADERS"
| response_headers: "client_step CLIENT_PARSING_HEADERS CLIENT_PARSING_BODY"
| response_complete: "client_step CLIENT_PARSING_BODY CLIENT_TRANSACTION_END"
| removed: "st \<noteq> CLIENT_INACTIVE \<Longrightarrow> client_step st CLIENT_INACTIVE"

declare client_step.intros [intro]

inductive_simps client_step_from_inactive: "client_step CLIENT_INACTIVE st"
inductive_simps client_step_to_connecting: "client_step st CLIENT_CONNECTING"

definition client_inv :: "'a client_socket \<Rightarrow> bool" where
  "client_inv s \<longleftrightarrow>
     client_state s \<in> {1, 2, 4, 8, 16, 32, 64, 128, 256} \<and>
     (client_state s \<noteq> 1 \<longrightarrow> clTransaction s \<noteq> None) \<and>
     (client_state s \<in> {16, 32, 64, 128, 256} \<longrightarrow> clSendBuffer s \<noteq> None) \<and>
     (client_state s \<in> {128, 256} \<longrightarrow> clRecvBuffer s \<noteq> None) \<and>
     (client_state s \<in> {2, 4, 8, 16, 32, 64, 256} \<longrightarrow> clBytesAvailable s = 0) \<and>
     (client_state s \<in> {2, 4, 8, 16, 32, 64} \<longrightarrow> \<not> client_in s CLIENT_LAST_CHUNK_RECEIVED) \<and>
     (client_in s FIRST_USE_AFTER_REUSE \<longrightarrow> client_state s \<in> {1, 4, 8, 16, 32})"

text \<open>The second part: a flag that says the connection is fresh is never set again.\<close>

definition client_goes :: "'a client_socket \<Rightarrow> 'a client_socket \<Rightarrow> bool" where
  "client_goes s s' \<longleftrightarrow>
     (client_inv s \<longrightarrow> client_inv s' \<and> client_step\<^sup>*\<^sup>* (client_state s) (client_state s')) \<and>
     (client_in s' FIRST_USE_AFTER_REUSE \<longrightarrow> client_in s FIRST_USE_AFTER_REUSE)"

lemma client_goes_refl [intro, simp]: "client_goes s s"
  by (simp add: client_goes_def)

lemma client_goes_trans [trans]: "client_goes s s' \<Longrightarrow> client_goes s' s'' \<Longrightarrow> client_goes s s''"
  by (auto simp: client_goes_def)

text \<open>What a callback may do to the socket: pause, resume, abort, and set the members of the messages.\<close>

definition client_polite :: "'a client_socket \<Rightarrow> 'a client_socket \<Rightarrow> bool" where
  "client_polite s s' \<longleftrightarrow>
     s' = s\<lparr>clState := clState s', clTransaction := clTransaction s'\<rparr> \<and>
     clState s' AND 0x23FF = clState s AND 0x23FF \<and>
     rel_option (\<lambda>t t'. ctFormatter t' = ctFormatter t \<and> ctStart t' = ctStart t \<and>
       ctParser t' = (ctParser t)\<lparr>allocator := allocator (ctParser t')\<rparr>) (clTransaction s) (clTransaction s')"

lemma client_polite_refl [intro, simp]: "client_polite s s"
  by (cases "clTransaction s") (simp_all add: client_polite_def)

lemma client_politeD:
  assumes "client_polite s s'"
  shows "client_state s' = client_state s" "clRecvBuffer s' = clRecvBuffer s" "clSendBuffer s' = clSendBuffer s"
    "clBytesAvailable s' = clBytesAvailable s" "clTransaction s' = None \<longleftrightarrow> clTransaction s = None"
    "client_in s' FIRST_USE_AFTER_REUSE = client_in s FIRST_USE_AFTER_REUSE"
    "client_in s' CLIENT_LAST_CHUNK_RECEIVED = client_in s CLIENT_LAST_CHUNK_RECEIVED"
proof -
  have m: "clState s' AND 0x23FF = clState s AND 0x23FF"
    using assms by (simp add: client_polite_def)
  show "client_state s' = client_state s"
    using mask_mask [OF m, of 511] by (simp add: client_state_def and.assoc)
  show "client_in s' FIRST_USE_AFTER_REUSE = client_in s FIRST_USE_AFTER_REUSE"
    using mask_mask [OF m, of 512] by (simp add: client_in_def has_flag_def and.assoc and.commute [of 512])
  show "client_in s' CLIENT_LAST_CHUNK_RECEIVED = client_in s CLIENT_LAST_CHUNK_RECEIVED"
    using mask_mask [OF m, of 8192] by (simp add: client_in_def has_flag_def and.assoc and.commute [of 8192])
  have eq: "s' = s\<lparr>clState := clState s', clTransaction := clTransaction s'\<rparr>"
    using assms by (simp add: client_polite_def)
  show "clRecvBuffer s' = clRecvBuffer s" "clSendBuffer s' = clSendBuffer s"
      "clBytesAvailable s' = clBytesAvailable s"
    by (subst eq; simp)+
  show "clTransaction s' = None \<longleftrightarrow> clTransaction s = None"
    using assms by (auto simp: client_polite_def option_rel_Some1 option_rel_Some2)
qed

lemma client_polite_inv: "client_polite s s' \<Longrightarrow> client_inv s' \<longleftrightarrow> client_inv s"
  by (simp add: client_inv_def client_politeD)

lemma client_polite_goes [intro]: "client_polite s s' \<Longrightarrow> client_goes s s'"
  by (simp add: client_goes_def client_polite_inv client_politeD)

locale polite_client_body =
  fixes bh :: "('c, 'w, 'a client_socket) body_handler"
  assumes consume_polite: "consume_body bh os n c w s = (e, k, c', w', s') \<Longrightarrow> client_polite s s'"
    and offer_polite: "offer_body bh c w s = (e, k, c', w', s') \<Longrightarrow> client_polite s s'"
    and produce_polite: "produce_body bh n c w s = (e, os, c', w', s') \<Longrightarrow> client_polite s s'"

locale polite_client_handler =
  fixes h :: "('w, 'a) client_handler"
  assumes begin_polite: "beginRequest h w s = (e, w', s') \<Longrightarrow> client_polite s s'"
    and endRequest_polite: "endRequest h w s = (e, w', s') \<Longrightarrow> client_polite s s'"
    and headers_polite: "receiveResponseHeaders h w s = (e, w', s') \<Longrightarrow> client_polite s s'"
    and end_polite: "endClientTransaction h st w s = (w', s') \<Longrightarrow> client_polite s s'"

text \<open>The two adaptors never touch the socket.\<close>

interpretation request_producer: polite_client_body "body_producer buf sz"
  by unfold_locales (auto simp: body_producer_def split: if_splits)

interpretation response_consumer: polite_client_body "body_consumer sz"
  by unfold_locales (auto simp: body_consumer_def Let_def split: if_splits)

end
