(* ===== verification/ClientMachine.thy ===== *)
theory ClientMachine
  imports ClientInvariant SocketSend
begin

text \<open>
  Every state handler of the client socket, and so its whole machine, keeps the invariant and moves
  along the allowed transitions, if the callbacks are polite. Its flush is the server's with the
  flag of a reused connection cleared by the first send.
\<close>

section \<open>The flush\<close>

definition sends :: "('w, 'a) client_env \<Rightarrow> 'w \<Rightarrow> buffer \<Rightarrow> bool" where
  "sends env w b \<longleftrightarrow> \<not> isShutdown env w \<and> isReadable b \<and>
     (case sockSend env (unread b) w of (Sent _, _) \<Rightarrow> True | _ \<Rightarrow> False)"

definition not_fresh :: "bool \<Rightarrow> 'a client_socket \<Rightarrow> 'a client_socket" where
  "not_fresh sent s = (if sent then client_clearFlag FIRST_USE_AFTER_REUSE s else s)"

lemma clear_twice [simp]: "client_clearFlag f (client_clearFlag f s) = client_clearFlag f s"
  by (simp add: client_clearFlag_def and.assoc)

lemma not_fresh_simps [simp]:
  "not_fresh p (client_clearFlag FIRST_USE_AFTER_REUSE s) = client_clearFlag FIRST_USE_AFTER_REUSE s"
  "not_fresh False s = s" "not_fresh True s = client_clearFlag FIRST_USE_AFTER_REUSE s"
  by (simp_all add: not_fresh_def)

lemma client_flush_loop_flush:
  assumes "client_flush_loop env fl w b s = Some y"
  shows "\<exists>e w' b'. flush_loop env fl w b = Some (e, w', b') \<and>
    y = (e, w', (not_fresh (sends env w b) s)\<lparr>clSendBuffer := Some b'\<rparr>)"
proof -
  let ?P = "\<lambda>env' fl w b s y. env' = env \<longrightarrow> (\<exists>e w' b'. flush_loop env fl w b = Some (e, w', b') \<and>
    y = (e, w', (not_fresh (sends env w b) s)\<lparr>clSendBuffer := Some b'\<rparr>))"
  have "?P env fl w b s y"
  proof (rule client_flush_loop.raw_induct [where P = ?P, OF _ assms(1)], intro impI)
    fix f env' fl w b s y
    assume IH: "\<And>env' fl w b s y. f env' fl w b s = Some y \<Longrightarrow> ?P env' fl w b s y"
      and round: "(if isShutdown env' w \<or> \<not> isReadable b
        then Some (if isShutdown env' w then ESB_SHUTDOWN else ESB_SUCCESS, w, s\<lparr>clSendBuffer := Some b\<rparr>)
        else case sockSend env' (unread b) w of
            (Sent n, w1) \<Rightarrow> f env' True w1 (send b n) (client_clearFlag FIRST_USE_AFTER_REUSE s)
          | (SendError e, w1) \<Rightarrow> Some (if e = ESB_AGAIN then (if fl then ESB_SUCCESS else ESB_AGAIN) else e,
              w1, s\<lparr>clSendBuffer := Some b\<rparr>)) = Some y"
      and env: "env' = env"
    show "\<exists>e w' b'. flush_loop env fl w b = Some (e, w', b') \<and>
      y = (e, w', (not_fresh (sends env w b) s)\<lparr>clSendBuffer := Some b'\<rparr>)"
    proof (cases "isShutdown env w \<or> \<not> isReadable b")
      case True
      then show ?thesis
        using round env by (subst flush_loop.simps) (auto simp: sends_def)
    next
      case False
      obtain r w1 where s: "sockSend env (unread b) w = (r, w1)"
        by (cases "sockSend env (unread b) w")
      show ?thesis
      proof (cases r)
        case (SendError e)
        then show ?thesis
          using round env False s by (subst flush_loop.simps) (auto simp: sends_def)
      next
        case (Sent n)
        then have "f env True w1 (send b n) (client_clearFlag FIRST_USE_AFTER_REUSE s) = Some y"
          using round env False s by simp
        from IH [OF this] obtain e w' b' where "flush_loop env True w1 (send b n) = Some (e, w', b')"
            "y = (e, w', (client_clearFlag FIRST_USE_AFTER_REUSE s)\<lparr>clSendBuffer := Some b'\<rparr>)"
          by auto
        then show ?thesis
          using False s Sent by (subst flush_loop.simps) (auto simp: sends_def)
      qed
    qed
  qed
  then show ?thesis
    by simp
qed

lemma flush_loop_client_flush:
  assumes "flush_loop env fl w b = Some y"
  shows "\<exists>z. client_flush_loop (env :: ('w, 'a) client_env) fl w b s = Some z"
proof -
  let ?P = "\<lambda>env' fl w b y. env' = env \<longrightarrow> (\<forall>s. \<exists>z. client_flush_loop env fl w b s = Some z)"
  have "?P env fl w b y"
  proof (rule flush_loop.raw_induct [where P = ?P, OF _ assms(1)], intro impI allI)
    fix f env' fl w b y s
    assume IH: "\<And>env' fl w b y. f env' fl w b = Some y \<Longrightarrow> ?P env' fl w b y"
      and round: "(if isShutdown env' w \<or> \<not> isReadable b
        then Some (if isShutdown env' w then ESB_SHUTDOWN else ESB_SUCCESS, w, b)
        else case sockSend env' (unread b) w of
            (Sent n, w1) \<Rightarrow> f env' True w1 (send b n)
          | (SendError e, w1) \<Rightarrow>
              Some (if e = ESB_AGAIN then (if fl then ESB_SUCCESS else ESB_AGAIN) else e, w1, b)) = Some y"
      and env: "env' = env"
    show "\<exists>z. client_flush_loop env fl w b s = Some z"
      using round env IH
      by (subst client_flush_loop.simps) (auto split: if_splits prod.splits send_result.splits)
  qed
  then show ?thesis
    by simp
qed

lemma client_flush_loop_eq:
  "client_flush_loop env fl w b s =
    map_option (\<lambda>(e, w', b'). (e, w', (not_fresh (sends env w b) s)\<lparr>clSendBuffer := Some b'\<rparr>))
      (flush_loop env fl w b)"
proof (cases "client_flush_loop env fl w b s")
  case None
  then show ?thesis
    using flush_loop_client_flush [of env fl w b _ s] by (cases "flush_loop env fl w b") auto
next
  case (Some y)
  then show ?thesis
    using client_flush_loop_flush [OF Some] by auto
qed

lemma flush_loop_success:
  assumes "flush_loop env False w b = Some (ESB_SUCCESS, w', b')" "isReadable b"
    and "\<And>os w w'. sockSend env os w \<noteq> (SendError ESB_SUCCESS, w')"
  shows "sends env w b"
  using assms
  by (subst (asm) flush_loop.simps) (auto simp: sends_def split: if_splits prod.splits send_result.splits)

section \<open>Elementary moves\<close>

lemma client_goes_move:
  assumes "client_inv s \<Longrightarrow> client_inv s'" "client_inv s \<Longrightarrow> client_step (client_state s) (client_state s')"
    and "client_in s' FIRST_USE_AFTER_REUSE \<Longrightarrow> client_in s FIRST_USE_AFTER_REUSE"
  shows "client_goes s s'"
  using assms by (auto simp: client_goes_def)

lemma client_goes_begin:
  "client_state s = 2 \<Longrightarrow> client_goes s (client_stateTransition CLIENT_TRANSACTION_BEGIN s)"
  by (rule client_goes_move) (auto simp: client_inv_def)

lemma client_goes_headers:
  "client_state s = 4 \<Longrightarrow> client_goes s (client_stateTransition CLIENT_FORMATTING_HEADERS s)"
  by (rule client_goes_move) (auto simp: client_inv_def)

lemma client_goes_body:
  "client_state s = 8 \<Longrightarrow> clSendBuffer s \<noteq> None \<Longrightarrow>
    client_goes s (client_stateTransition CLIENT_FORMATTING_BODY s)"
  by (rule client_goes_move) (auto simp: client_inv_def)

lemma client_goes_flush:
  "client_state s = 16 \<Longrightarrow> client_goes s (client_stateTransition CLIENT_FLUSHING_BODY s)"
  by (rule client_goes_move) (auto simp: client_inv_def)

lemma client_goes_response:
  "client_state s = 32 \<Longrightarrow> \<not> client_in s FIRST_USE_AFTER_REUSE \<Longrightarrow>
    client_goes s (client_stateTransition CLIENT_PARSING_HEADERS s)"
  by (rule client_goes_move) (auto simp: client_inv_def)

lemma client_goes_response_body:
  "client_state s = 64 \<Longrightarrow> clRecvBuffer s \<noteq> None \<Longrightarrow>
    client_goes s (client_stateTransition CLIENT_PARSING_BODY s)"
  by (rule client_goes_move) (auto simp: client_inv_def)

lemma client_goes_end:
  "client_state s = 128 \<Longrightarrow> clBytesAvailable s = 0 \<Longrightarrow>
    client_goes s (client_stateTransition CLIENT_TRANSACTION_END s)"
  by (rule client_goes_move) (auto simp: client_inv_def)

section \<open>Parts that stay in their state\<close>

definition client_stays :: "'a client_socket \<Rightarrow> 'a client_socket \<Rightarrow> bool" where
  "client_stays s s' \<longleftrightarrow> client_goes s s' \<and> client_state s' = client_state s \<and>
     (clTransaction s \<noteq> None \<longrightarrow> clTransaction s' \<noteq> None) \<and>
     (clSendBuffer s \<noteq> None \<longrightarrow> clSendBuffer s' \<noteq> None) \<and> (clRecvBuffer s \<noteq> None \<longrightarrow> clRecvBuffer s' \<noteq> None)"

lemma client_stays_refl [simp, intro]: "client_stays s s"
  by (simp add: client_stays_def)

lemma client_stays_trans [trans]: "client_stays s s' \<Longrightarrow> client_stays s' s'' \<Longrightarrow> client_stays s s''"
  unfolding client_stays_def by (auto intro: client_goes_trans)

lemma client_stays_goes: "client_stays s s' \<Longrightarrow> client_goes s s'"
  by (simp add: client_stays_def)

lemma client_staysD:
  assumes "client_stays s s'"
  shows "client_state s' = client_state s" "clTransaction s \<noteq> None \<Longrightarrow> clTransaction s' \<noteq> None"
    "clSendBuffer s \<noteq> None \<Longrightarrow> clSendBuffer s' \<noteq> None" "clRecvBuffer s \<noteq> None \<Longrightarrow> clRecvBuffer s' \<noteq> None"
    "client_inv s \<Longrightarrow> client_inv s'"
  using assms by (auto simp: client_stays_def client_goes_def)

lemma client_then_move: "client_stays s s' \<Longrightarrow> client_goes s' s'' \<Longrightarrow> client_goes s s''"
  by (rule client_goes_trans [OF client_stays_goes])

lemma client_inv_transaction: "client_inv s \<Longrightarrow> client_state s \<noteq> 1 \<Longrightarrow> clTransaction s \<noteq> None"
  by (auto simp: client_inv_def)

lemma client_polite_stays: "client_polite s s' \<Longrightarrow> client_stays s s'"
  by (auto simp: client_stays_def client_politeD client_polite_goes)

lemma client_stays_set [simp]:
  "client_stays s (s\<lparr>clRecvBuffer := Some b\<rparr>)" "client_stays s (s\<lparr>clSendBuffer := Some b\<rparr>)"
  "client_stays s (s\<lparr>clBodyBytesWritten := k\<rparr>)" "client_stays s (client_set_transaction t s)"
  by (simp_all add: client_stays_def client_goes_def client_inv_def)

lemma client_in_none: "\<not> client_in s 0"
  by (simp add: client_in_def has_flag_def)

lemma client_stays_not_fresh [simp]: "client_stays s (not_fresh p s)"
  by (cases p) (simp_all add: client_stays_def client_goes_def client_inv_def client_in_none)

lemma client_stays_set2 [simp]:
  "client_stays s ((client_set_transaction t s)\<lparr>clRecvBuffer := Some b\<rparr>)"
  "client_stays s ((client_set_transaction t s)\<lparr>clSendBuffer := Some b\<rparr>)"
  using client_stays_trans [OF client_stays_set(4) client_stays_set(1)]
    client_stays_trans [OF client_stays_set(4) client_stays_set(2)] by blast+

lemma client_fill_stays: "client_fillReceiveBuffer env w s = (e, w', s') \<Longrightarrow> client_stays s s'"
  by (auto simp: client_fillReceiveBuffer_def client_refill_def split: option.splits prod.splits if_splits)

lemma client_flush_stays:
  assumes "client_flushSendBuffer env w s = Some (e, w', s')"
  shows "client_stays s s'"
proof (cases "clSendBuffer s")
  case None
  then show ?thesis
    using assms by (simp add: client_flushSendBuffer_def)
next
  case (Some b)
  have "client_stays s ((not_fresh p s)\<lparr>clSendBuffer := Some b'\<rparr>)" for p b'
    by (rule client_stays_trans [OF client_stays_not_fresh client_stays_set(2)])
  then show ?thesis
    using assms Some
    by (auto simp: client_flushSendBuffer_def client_flush_loop_eq split: if_splits)
qed

lemma client_on_formatter_stays: "client_on_formatter g s = (e, s') \<Longrightarrow> client_stays s s'"
  by (auto simp: client_on_formatter_def Let_def split: option.splits prod.splits)

lemma client_formatStartChunk_stays: "client_formatStartChunk n s = (e, k, s') \<Longrightarrow> client_stays s s'"
  by (auto simp: client_formatStartChunk_def Let_def split: option.splits prod.splits)

lemma client_announce_stays: "client_announce_close env s = (e, s') \<Longrightarrow> client_stays s s'"
  by (auto simp: client_announce_close_def split: option.splits prod.splits if_splits)

lemma client_stays_body:
  assumes "client_state s = 128"
  shows "client_stays s (s\<lparr>clBytesAvailable := n\<rparr>)" "client_stays s (client_addFlag CLIENT_LAST_CHUNK_RECEIVED s)"
  using assms by (auto simp: client_stays_def client_goes_def client_inv_def has_flag_def)

lemma client_currentChunk_stays:
  assumes "client_currentChunkBytesAvailable s = (e, n, s')" "client_state s = 128"
  shows "client_stays s s'" "e = ESB_SUCCESS \<Longrightarrow> clBytesAvailable s' = n"
proof -
  have body: "client_stays s ((client_set_transaction t s)\<lparr>clRecvBuffer := Some b, clBytesAvailable := k\<rparr>)"
    "client_stays s (client_addFlag CLIENT_LAST_CHUNK_RECEIVED
       ((client_set_transaction t s)\<lparr>clRecvBuffer := Some b, clBytesAvailable := k\<rparr>))" for t b k
  proof -
    let ?s = "(client_set_transaction t s)\<lparr>clRecvBuffer := Some b\<rparr>"
    show 1: "client_stays s (?s\<lparr>clBytesAvailable := k\<rparr>)"
      using assms(2) by (intro client_stays_trans [OF client_stays_set2(1) client_stays_body(1)]) simp
    show "client_stays s (client_addFlag CLIENT_LAST_CHUNK_RECEIVED (?s\<lparr>clBytesAvailable := k\<rparr>))"
      using assms(2) by (intro client_stays_trans [OF 1 client_stays_body(2)]) simp
  qed
  show "client_stays s s'" "e = ESB_SUCCESS \<Longrightarrow> clBytesAvailable s' = n"
    using assms body
    by (auto simp: client_currentChunkBytesAvailable_def Let_def word_neq_0_conv [symmetric]
        split: option.splits prod.splits if_splits)
qed

lemma client_consume_received_stays:
  "client_consume_received n s = (e, s') \<Longrightarrow> client_state s = 128 \<Longrightarrow> client_stays s s'"
  by (auto simp: client_consume_received_def Let_def
      intro: client_stays_trans [OF client_stays_set2(1) client_stays_body(1)]
      split: option.splits prod.splits if_splits)

section \<open>The states\<close>

text \<open>A send that fails has a reason, as the code asserts.\<close>

locale failing_sends =
  fixes env :: "('w, 'a) client_env"
  assumes reason: "sockSend env os w \<noteq> (SendError ESB_SUCCESS, w')"
begin

lemma flush_clears_fresh:
  assumes "client_flushSendBuffer env w s = Some (ESB_SUCCESS, w', s')"
  shows "\<not> client_in s' FIRST_USE_AFTER_REUSE"
proof (cases "clSendBuffer s")
  case None
  then show ?thesis
    using assms by (simp add: client_flushSendBuffer_def)
next
  case (Some b)
  then obtain b' where f: "flush_loop env False w b = Some (ESB_SUCCESS, w', b')" "isReadable b"
      "s' = (not_fresh (sends env w b) s)\<lparr>clSendBuffer := Some b'\<rparr>"
    using assms by (auto simp: client_flushSendBuffer_def client_flush_loop_eq split: if_splits)
  show ?thesis
    using f(3) flush_loop_success [OF f(1,2) reason] by (simp add: client_in_none)
qed

end

context polite_client_handler begin

lemma begin_goes:
  assumes "client_stateBeginTransaction env h w s = (e, w', s')" "client_state s = 4"
  shows "client_goes s s'"
proof -
  obtain e0 s0 where a: "client_announce_close env s = (e0, s0)"
    by (cases "client_announce_close env s")
  obtain e1 w1 s1 where r: "beginRequest h w s0 = (e1, w1, s1)"
    by (cases "beginRequest h w s0")
  note st0 = client_announce_stays [OF a]
  note st = client_stays_trans [OF st0 client_polite_stays [OF begin_polite [OF r]]]
  show ?thesis
    using assms a r client_stays_goes [OF st0] client_stays_goes [OF st]
      client_then_move [OF st client_goes_headers]
    by (auto simp: client_stateBeginTransaction_def client_staysD(1) [OF st] split: if_splits)
qed

lemma flush_request_goes:
  assumes "client_stateFlushRequestBody env h w s = Some (e, w', s')" "client_state s = 32" "failing_sends env"
  shows "client_goes s s'"
proof -
  obtain e1 w1 s1 where f: "client_flushSendBuffer env w s = Some (e1, w1, s1)"
      "(e, w', s') = (if e1 \<noteq> ESB_SUCCESS then (e1, w1, s1)
         else endRequest h w1 (client_stateTransition CLIENT_PARSING_HEADERS s1))"
    using assms(1) by (auto simp: client_stateFlushRequestBody_def)
  note st = client_flush_stays [OF f(1)]
  show ?thesis
  proof (cases "e1 = ESB_SUCCESS")
    case True
    then have "client_goes s (client_stateTransition CLIENT_PARSING_HEADERS s1)"
      using failing_sends.flush_clears_fresh [OF assms(3)] f(1) assms(2)
      by (intro client_then_move [OF st client_goes_response]) (simp_all add: client_staysD(1) [OF st])
    then show ?thesis
      using f(2) True endRequest_polite [of w1 "client_stateTransition CLIENT_PARSING_HEADERS s1" e w' s']
        client_goes_trans [OF _ client_polite_goes] by auto
  qed (use f(2) client_stays_goes [OF st] in simp)
qed

lemma headers_goes:
  assumes "client_stateReceiveResponseHeaders env h w s = (e, w', s')" "client_state s = 64"
  shows "client_goes s s'"
proof (cases "clTransaction s = None \<or> clRecvBuffer s = None")
  case True
  then show ?thesis
    using assms(1) by (auto simp: client_stateReceiveResponseHeaders_def split: option.splits)
next
  case False
  then obtain t b where tb: "clTransaction s = Some t" "clRecvBuffer s = Some b"
    by auto
  obtain e1 p b1 r where g: "response_parseHeaders (allocate env) (ctParser t) b (ctResponse t) = (e1, p, b1, r)"
    by (cases "response_parseHeaders (allocate env) (ctParser t) b (ctResponse t)") auto
  let ?s1 = "(client_set_transaction (t\<lparr>ctParser := p, ctResponse := r\<rparr>) s)\<lparr>clRecvBuffer := Some b1\<rparr>"
  obtain e2 w2 s2 where
    c: "receiveResponseHeaders h w (client_stateTransition CLIENT_PARSING_BODY ?s1) = (e2, w2, s2)"
    by (cases "receiveResponseHeaders h w (client_stateTransition CLIENT_PARSING_BODY ?s1)")
  have "client_goes s (client_stateTransition CLIENT_PARSING_BODY ?s1)"
    using assms(2) by (intro client_then_move [OF client_stays_set2(1) client_goes_response_body]) simp_all
  then have "client_goes s s2"
    by (rule client_goes_trans [OF _ client_polite_goes [OF headers_polite [OF c]]])
  then show ?thesis
    using assms(1) tb g c client_stays_goes [OF client_stays_set2(1)]
    by (auto simp: client_stateReceiveResponseHeaders_def Let_def split: if_splits)
qed

end

lemma client_send_headers_goes:
  assumes "client_stateSendRequestHeaders env w s = (e, w', s')" "client_state s = 8"
  shows "client_goes s s'"
proof (cases "case clSendBuffer s of Some b \<Rightarrow> (Some b, w) | None \<Rightarrow> acquireBuffer env w")
  case (Pair b w1)
  show ?thesis
  proof (cases b)
    case None
    then show ?thesis
      using assms(1) Pair by (simp add: client_stateSendRequestHeaders_def)
  next
    case (Some b1)
    obtain e2 s2 where f: "client_on_formatter request_formatHeaders (s\<lparr>clSendBuffer := Some b1\<rparr>) = (e2, s2)"
      by (cases "client_on_formatter request_formatHeaders (s\<lparr>clSendBuffer := Some b1\<rparr>)")
    note st0 = client_on_formatter_stays [OF f]
    note st = client_stays_trans [OF client_stays_set(2) st0]
    have "client_goes s (client_stateTransition CLIENT_FORMATTING_BODY s2)"
      using client_staysD(1) [OF st] client_staysD(3) [OF st0] assms(2)
      by (intro client_then_move [OF st client_goes_body]) simp_all
    then show ?thesis
      using assms(1) Pair Some f client_stays_goes [OF st]
      by (auto simp: client_stateSendRequestHeaders_def)
  qed
qed

lemma client_end_request_body_goes:
  assumes "client_end_request_body s = (e, s')" "client_state s = 16"
  shows "client_goes s s'"
proof -
  obtain e1 s1 where a: "client_on_formatter (\<lambda>f b r. endBody f b) s = (e1, s1)"
    by (cases "client_on_formatter (\<lambda>f b r. endBody f b) s")
  note st = client_on_formatter_stays [OF a]
  show ?thesis
    using assms a client_then_move [OF st client_goes_flush] client_stays_goes [OF st]
    by (auto simp: client_end_request_body_def client_staysD(1) [OF st])
qed

context polite_client_body begin

lemma last_chunk_goes:
  assumes "client_offer_last_chunk bh c w s = (e, c', w', s')" "client_state s = 128" "clBytesAvailable s = 0"
  shows "client_goes s s'"
proof -
  obtain e1 k c1 w1 s1 where
    r: "consume_body bh [0] 0 c w (client_stateTransition CLIENT_TRANSACTION_END s) = (e1, k, c1, w1, s1)"
    by (cases "consume_body bh [0] 0 c w (client_stateTransition CLIENT_TRANSACTION_END s)") auto
  have "client_goes s s1"
    by (rule client_goes_trans [OF client_goes_end [OF assms(2,3)] client_polite_goes [OF consume_polite [OF r]]])
  then show ?thesis
    using assms(1) r by (auto simp: client_offer_last_chunk_def)
qed

lemma offer_chunk_stays:
  assumes "client_offer_chunk bh n c w s = (finished, e, c', w', s')" "client_state s = 128"
  shows "client_stays s s'"
proof (cases "clRecvBuffer s")
  case None
  then show ?thesis
    using assms(1) by (auto simp: client_offer_chunk_def)
next
  case (Some b)
  let ?os = "take (unat n) (unread b)"
  obtain e1 k c1 w1 s1 where r: "consume_body bh ?os n c w s = (e1, k, c1, w1, s1)"
    by (cases "consume_body bh ?os n c w s") auto
  obtain e2 s2 where c: "(if 0 < k then client_consume_received k s1 else (ESB_SUCCESS, s1)) = (e2, s2)"
    by (cases "if 0 < k then client_consume_received k s1 else (ESB_SUCCESS, s1)")
  have s1: "client_stays s s1"
    by (rule client_polite_stays [OF consume_polite [OF r]])
  have "client_stays s1 s2"
    using c client_consume_received_stays [of k s1 e2 s2] client_staysD(1) [OF s1] assms(2)
    by (auto split: if_splits)
  with s1 have "client_stays s s2"
    by (rule client_stays_trans)
  then show ?thesis
    using assms(1) Some r c by (auto simp: client_offer_chunk_def split: if_splits)
qed

lemma receive_body_goes:
  assumes "client_stateReceiveResponseBody env bh c w s = Some y" "client_state s = 128" "client_inv s"
  shows "client_goes s (snd (snd (snd y)))"
proof -
  let ?P = "\<lambda>env' bh' c w s y. bh' = bh \<longrightarrow> client_state s = 128 \<and> client_inv s \<longrightarrow>
    client_goes s (snd (snd (snd y)))"
  have "?P env bh c w s y"
  proof (rule client_stateReceiveResponseBody.raw_induct [where P = ?P, OF _ assms(1)], intro impI)
    fix f env' bh' c w s y
    assume IH: "\<And>env' bh' c w s y. f env' bh' c w s = Some y \<Longrightarrow> ?P env' bh' c w s y"
      and round: "(if isShutdown env' w then Some (ESB_SHUTDOWN, c, w, s)
        else case client_currentChunkBytesAvailable s of (e, n, s1) \<Rightarrow>
          if e \<noteq> ESB_SUCCESS then Some (e, c, w, s1)
          else if n = 0 then Some (client_offer_last_chunk bh' c w s1)
          else case client_offer_chunk bh' n c w s1 of (finished, e2, c2, w2, s2) \<Rightarrow>
            if finished then Some (e2, c2, w2, s2) else f env' bh' c2 w2 s2) = Some y"
      and bh: "bh' = bh" and inv: "client_state s = 128 \<and> client_inv s"
    obtain e n s1 where a: "client_currentChunkBytesAvailable s = (e, n, s1)"
      by (cases "client_currentChunkBytesAvailable s") auto
    note st = client_currentChunk_stays [OF a]
    have s1: "client_stays s s1" "client_state s1 = 128"
      using st(1) inv by (simp_all add: client_staysD(1))
    obtain finished e2 c2 w2 s2 where o: "client_offer_chunk bh n c w s1 = (finished, e2, c2, w2, s2)"
      by (cases "client_offer_chunk bh n c w s1") auto
    have s2: "client_stays s s2" "client_state s2 = 128 \<and> client_inv s2"
      using client_stays_trans [OF s1(1) offer_chunk_stays [OF o s1(2)]] inv by (auto simp: client_staysD(1,5))
    obtain e3 c3 w3 s3 where l: "client_offer_last_chunk bh c w s1 = (e3, c3, w3, s3)"
      by (cases "client_offer_last_chunk bh c w s1") auto
    have g3: "client_goes s s3" if "n = 0" "e = ESB_SUCCESS"
      using client_then_move [OF s1(1) last_chunk_goes [OF l s1(2)]] st(2) inv that by simp
    have again: "client_goes s (snd (snd (snd y)))" if "f env' bh c2 w2 s2 = Some y"
      using IH [OF that] client_then_move [OF s2(1)] s2(2) by blast
    show "client_goes s (snd (snd (snd y)))"
      using round bh g3 again client_stays_goes [OF s1(1)] client_stays_goes [OF s2(1)]
      by (simp add: a o l split: if_splits) auto
  qed
  then show ?thesis
    using assms by blast
qed

lemma send_chunk_stays:
  assumes "client_send_chunk bh n c w s = (e, c', w', s')"
  shows "client_stays s s'"
proof -
  obtain e1 k s1 where a: "client_formatStartChunk n s = (e1, k, s1)"
    by (cases "client_formatStartChunk n s") auto
  obtain e2 os c2 w2 s2 where p: "produce_body bh k c w s1 = (e2, os, c2, w2, s2)"
    by (cases "produce_body bh k c w s1") auto
  let ?s3 = "s2\<lparr>clSendBuffer := map_option (store_body os k) (clSendBuffer s2),
    clBodyBytesWritten := clBodyBytesWritten s2 + k\<rparr>"
  obtain e4 s4 where f: "client_formatEndChunk ?s3 = (e4, s4)"
    by (cases "client_formatEndChunk ?s3")
  note s1 = client_formatStartChunk_stays [OF a]
  have s2: "client_stays s s2"
    by (rule client_stays_trans [OF s1 client_polite_stays [OF produce_polite [OF p]]])
  have "client_stays s2 ?s3"
    by (simp add: client_stays_def client_goes_def client_inv_def)
  moreover have "client_stays ?s3 s4"
    using f unfolding client_formatEndChunk_def by (rule client_on_formatter_stays)
  ultimately have "client_stays s s4"
    using s2 by (blast intro: client_stays_trans)
  then show ?thesis
    using assms a p f s2 s1 by (auto simp: client_send_chunk_def Let_def split: if_splits)
qed

lemma send_body_goes:
  assumes "client_stateSendRequestBody env bh c w s = Some y" "client_state s = 16"
  shows "client_goes s (snd (snd (snd y)))"
proof -
  let ?P = "\<lambda>env' bh' c w s y. bh' = bh \<longrightarrow> client_state s = 16 \<longrightarrow> client_goes s (snd (snd (snd y)))"
  have "?P env bh c w s y"
  proof (rule client_stateSendRequestBody.raw_induct [where P = ?P, OF _ assms(1)], intro impI)
    fix f env' bh' c w s y
    assume IH: "\<And>env' bh' c w s y. f env' bh' c w s = Some y \<Longrightarrow> ?P env' bh' c w s y"
      and round: "(if isShutdown env' w then Some (ESB_SHUTDOWN, c, w, s)
        else case offer_body bh' c w s of (e, offered, c1, w1, s1) \<Rightarrow>
          if e = ESB_AGAIN \<or> e = ESB_PAUSE then Some (ESB_PAUSE, c1, w1, s1)
          else if e \<noteq> ESB_SUCCESS then Some (e, c1, w1, s1)
          else if offered = 0 then case client_end_request_body s1 of (e2, s2) \<Rightarrow> Some (e2, c1, w1, s2)
          else case client_send_chunk bh' offered c1 w1 s1 of (e2, c2, w2, s2) \<Rightarrow>
            if e2 \<noteq> ESB_SUCCESS then Some (e2, c2, w2, s2) else f env' bh' c2 w2 s2) = Some y"
      and bh: "bh' = bh" and st: "client_state s = 16"
    obtain e n c1 w1 s1 where a: "offer_body bh c w s = (e, n, c1, w1, s1)"
      by (cases "offer_body bh c w s") auto
    have s1: "client_stays s s1" "client_state s1 = 16"
      using client_polite_stays [OF offer_polite [OF a]] st by (auto simp: client_staysD)
    obtain e2 s2 where b: "client_end_request_body s1 = (e2, s2)"
      by (cases "client_end_request_body s1")
    obtain e3 c3 w3 s3 where d: "client_send_chunk bh n c1 w1 s1 = (e3, c3, w3, s3)"
      by (cases "client_send_chunk bh n c1 w1 s1") auto
    have s3: "client_stays s s3" "client_state s3 = 16"
      using client_stays_trans [OF s1(1) send_chunk_stays [OF d]] st by (auto simp: client_staysD)
    have again: "client_goes s (snd (snd (snd y)))" if "f env' bh c3 w3 s3 = Some y"
      using IH [OF that] client_then_move [OF s3(1)] s3(2) by blast
    show "client_goes s (snd (snd (snd y)))"
      using round bh again client_stays_goes [OF s1(1)] client_stays_goes [OF s3(1)]
        client_then_move [OF s1(1) client_end_request_body_goes [OF b s1(2)]]
      by (simp add: a b d split: if_splits) auto
  qed
  then show ?thesis
    using assms by blast
qed

end

section \<open>The machine\<close>

locale polite_client_machine = failing_sends env + polite_client_handler h + polite_client_body bh
  for env :: "('w, 'a) client_env" and h :: "('w, 'a) client_handler"
    and bh :: "('c, 'w, 'a client_socket) body_handler"
begin

lemma run_state_goes:
  assumes "client_run_state env h bh c w s = Some (e, c', w', s')" "client_inv s"
  shows "client_goes s s'"
  using assms begin_goes [of env w s] headers_goes [of env w s] receive_body_goes [of env c w s]
    client_send_headers_goes [of env w s] send_body_goes [of env c w s]
    flush_request_goes [OF _ _ failing_sends_axioms, of w s]
  by (fastforce simp: client_run_state_def client_with_c_def Let_def client_state_def split: if_splits prod.splits)

definition round_socket ::
  "('c, 'w, 'a) client_machine_result + bool \<times> bool \<times> 'c \<times> 'w \<times> 'a client_socket \<Rightarrow> 'a client_socket" where
  "round_socket r = (case r of Inl (_, _, _, s) \<Rightarrow> s | Inr (_, _, _, _, s) \<Rightarrow> s)"

lemma round_goes:
  assumes "client_machine_round env h bh fl fill drain c w s = Some r" "client_inv s"
  shows "client_goes s (round_socket r)"
proof -
  obtain e0 w0 s0 where f: "(if fill then client_fillReceiveBuffer env w s else (ESB_SUCCESS, w, s)) = (e0, w0, s0)"
    by (cases "if fill then client_fillReceiveBuffer env w s else (ESB_SUCCESS, w, s)") auto
  have s0: "client_stays s s0"
    using f client_fill_stays [of env w s e0 w0 s0] by (auto split: if_splits)
  have g: "client_goes s s1" if "client_run_state env h bh c w0 s0 = Some (e, c1, w1, s1)" for e c1 w1 s1
    using run_state_goes [OF that client_staysD(5) [OF s0 assms(2)]] client_then_move [OF s0] by blast
  have g2: "client_goes s s2" if "client_run_state env h bh c w0 s0 = Some (e, c1, w1, s1)"
      "client_flushSendBuffer env w1 s1 = Some (e2, w2, s2)" for e c1 w1 s1 e2 w2 s2
    by (rule client_goes_trans [OF g [OF that(1)] client_stays_goes [OF client_flush_stays [OF that(2)]]])
  show ?thesis
    using assms(1) client_stays_goes [OF s0] g g2
    by (auto simp: client_machine_round_def round_socket_def Let_def f
        split: if_splits prod.splits option.splits)
qed

lemma machine_loop_goes:
  assumes "client_machine_loop env h bh fl fill drain c w s = Some y" "client_inv s"
  shows "client_goes s (snd (snd (snd y)))"
proof -
  let ?P = "\<lambda>env' h' bh' fl fill drain c w s y. env' = env \<longrightarrow>
    h' = h \<longrightarrow> bh' = bh \<longrightarrow> client_inv s \<longrightarrow> client_goes s (snd (snd (snd y)))"
  have "?P env h bh fl fill drain c w s y"
  proof (rule client_machine_loop.raw_induct [where P = ?P, OF _ assms(1)], intro impI)
    fix f env' h' bh' fl fill drain c w s y
    assume IH: "\<And>env' h' bh' fl fill drain c w s y. f env' h' bh' fl fill drain c w s = Some y \<Longrightarrow>
          ?P env' h' bh' fl fill drain c w s y"
      and round: "(case client_machine_round env' h' bh' fl fill drain c w s of None \<Rightarrow> None
        | Some (Inl res) \<Rightarrow> Some res
        | Some (Inr (fill1, drain1, c1, w1, s1)) \<Rightarrow> f env' h' bh' fl fill1 drain1 c1 w1 s1) = Some y"
      and h: "env' = env" "h' = h" "bh' = bh" and inv: "client_inv s"
    obtain r where r: "client_machine_round env h bh fl fill drain c w s = Some r"
      using round h by (auto split: option.splits)
    have g: "client_goes s (round_socket r)"
      by (rule round_goes [OF r inv])
    show "client_goes s (snd (snd (snd y)))"
    proof (cases r)
      case (Inl res)
      then show ?thesis
        using round h r g by (cases res) (auto simp: round_socket_def)
    next
      case (Inr t)
      obtain fill1 drain1 c1 w1 s1 where t: "t = (fill1, drain1, c1, w1, s1)"
        by (cases t)
      have s1: "client_goes s s1"
        using g Inr t by (simp add: round_socket_def)
      have "f env' h' bh' fl fill1 drain1 c1 w1 s1 = Some y"
        using round h r Inr t by simp
      then have "client_goes s1 (snd (snd (snd y)))"
        using IH [of env' h' bh' fl fill1 drain1 c1 w1 s1 y] h s1 inv by (simp add: client_goes_def)
      with s1 show ?thesis
        by (rule client_goes_trans)
    qed
  qed
  then show ?thesis
    using assms by blast
qed

lemma advance_goes:
  assumes "client_advanceStateMachine env h bh fl c w s = Some (e, c', w', s')"
  shows "client_inv s \<Longrightarrow> client_goes s s'"
  using machine_loop_goes [OF assms(1) [unfolded client_advanceStateMachine_def]] by simp

end

end
