(* ===== verification/ClientRetry.thy ===== *)
theory ClientRetry
  imports ClientMachine
begin

text \<open>
  When a transaction may be started again on another connection: while FIRST_USE_AFTER_REUSE is set,
  the kernel has taken no octet of it. \<open>tk w\<close> are the octets that the kernel has taken from this
  socket; only \<open>send\<close> changes them.
\<close>

locale quiet_client = polite_client_machine env h bh
  for env :: "('w, 'a) client_env" and h :: "('w, 'a) client_handler"
    and bh :: "('c, 'w, 'a client_socket) body_handler" +
  fixes tk :: "'w \<Rightarrow> u8 list"
  assumes acquire_quiet: "acquireBuffer env w = (b, w') \<Longrightarrow> tk w' = tk w"
    and receive_quiet: "sockReceive env len w = (r, w') \<Longrightarrow> tk w' = tk w"
    and failed_send_quiet: "sockSend env os w = (SendError e, w') \<Longrightarrow> tk w' = tk w"
    and begin_quiet: "beginRequest h w s = (e, w', s') \<Longrightarrow> tk w' = tk w"
    and endRequest_quiet: "endRequest h w s = (e, w', s') \<Longrightarrow> tk w' = tk w"
    and headers_quiet: "receiveResponseHeaders h w s = (e, w', s') \<Longrightarrow> tk w' = tk w"
    and consume_quiet: "consume_body bh os n c w s = (e, k, c', w', s') \<Longrightarrow> tk w' = tk w"
    and offer_quiet: "offer_body bh c w s = (e, k, c', w', s') \<Longrightarrow> tk w' = tk w"
    and produce_quiet: "produce_body bh n c w s = (e, os, c', w', s') \<Longrightarrow> tk w' = tk w"
begin

definition quiet :: "'w \<times> 'a client_socket \<Rightarrow> 'w \<times> 'a client_socket \<Rightarrow> bool" where
  "quiet x y \<longleftrightarrow> (client_in (snd y) FIRST_USE_AFTER_REUSE \<longrightarrow>
     client_in (snd x) FIRST_USE_AFTER_REUSE \<and> tk (fst y) = tk (fst x))"

lemma quiet_trans [trans]: "quiet x y \<Longrightarrow> quiet y z \<Longrightarrow> quiet x z"
  by (auto simp: quiet_def)

lemma quiet_goes: "client_goes s s' \<Longrightarrow> tk w' = tk w \<Longrightarrow> quiet (w, s) (w', s')"
  by (auto simp: quiet_def client_goes_def)

lemma refill_quiet: "refill env b w = (e, w', b') \<Longrightarrow> tk w' = tk w"
  by (auto simp: refill_def dest: receive_quiet split: prod.splits if_splits recv_result.splits)

lemma fill_quiet: "client_fillReceiveBuffer env w s = (e, w', s') \<Longrightarrow> tk w' = tk w"
  by (auto simp: client_fillReceiveBuffer_def client_refill_def dest!: acquire_quiet refill_quiet
      split: option.splits prod.splits if_splits)

lemma flush_quiet:
  assumes "client_flushSendBuffer env w s = Some (e, w', s')"
  shows "quiet (w, s) (w', s')"
proof (cases "clSendBuffer s")
  case None
  then show ?thesis
    using assms by (auto simp: client_flushSendBuffer_def quiet_def)
next
  case (Some b)
  show ?thesis
  proof (cases "isReadable b")
    case False
    then show ?thesis
      using assms Some by (auto simp: client_flushSendBuffer_def quiet_def)
  next
    case True
    then obtain b' where f: "flush_loop env False w b = Some (e, w', b')"
        "s' = (not_fresh (sends env w b) s)\<lparr>clSendBuffer := Some b'\<rparr>"
      using assms Some by (auto simp: client_flushSendBuffer_def client_flush_loop_eq)
    have "tk w' = tk w" if "\<not> sends env w b"
      using f(1) that failed_send_quiet
      by (subst (asm) flush_loop.simps) (auto simp: sends_def split: if_splits prod.splits send_result.splits)
    then show ?thesis
      using f(2) by (cases "sends env w b") (auto simp: quiet_def client_in_none)
  qed
qed

lemma begin_state_quiet: "client_stateBeginTransaction env h w s = (e, w', s') \<Longrightarrow> tk w' = tk w"
  by (auto simp: client_stateBeginTransaction_def dest: begin_quiet split: prod.splits if_splits)

lemma send_headers_quiet: "client_stateSendRequestHeaders env w s = (e, w', s') \<Longrightarrow> tk w' = tk w"
  by (auto simp: client_stateSendRequestHeaders_def dest: acquire_quiet split: prod.splits option.splits)

lemma receive_headers_quiet: "client_stateReceiveResponseHeaders env h w s = (e, w', s') \<Longrightarrow> tk w' = tk w"
  by (auto simp: client_stateReceiveResponseHeaders_def Let_def dest: headers_quiet
      split: prod.splits option.splits if_splits)

lemma send_chunk_quiet: "client_send_chunk bh n c w s = (e, c', w', s') \<Longrightarrow> tk w' = tk w"
  by (auto simp: client_send_chunk_def Let_def dest: produce_quiet split: prod.splits if_splits)

lemma send_chunk_world [simp]: "tk (fst (snd (snd (client_send_chunk bh n c w s)))) = tk w"
  using send_chunk_quiet by (cases "client_send_chunk bh n c w s") auto

lemma offer_chunk_quiet: "client_offer_chunk bh n c w s = (finished, e, c', w', s') \<Longrightarrow> tk w' = tk w"
  by (auto simp: client_offer_chunk_def dest: consume_quiet split: option.splits prod.splits if_splits)

lemma last_chunk_quiet: "client_offer_last_chunk bh c w s = (e, c', w', s') \<Longrightarrow> tk w' = tk w"
  by (auto simp: client_offer_last_chunk_def dest: consume_quiet split: prod.splits)

lemma send_body_quiet:
  assumes "client_stateSendRequestBody env bh c w s = Some y"
  shows "tk (fst (snd (snd y))) = tk w"
proof -
  let ?P = "\<lambda>env' bh' c w s y. bh' = bh \<longrightarrow> tk (fst (snd (snd y))) = tk w"
  have "?P env bh c w s y"
  proof (rule client_stateSendRequestBody.raw_induct [where P = ?P, OF _ assms], intro impI)
    fix f env' bh' c w s y
    assume IH: "\<And>env' bh' c w s y. f env' bh' c w s = Some y \<Longrightarrow> ?P env' bh' c w s y"
      and round: "(if isShutdown env' w then Some (ESB_SHUTDOWN, c, w, s)
        else case offer_body bh' c w s of (e, offered, c1, w1, s1) \<Rightarrow>
          if e = ESB_AGAIN \<or> e = ESB_PAUSE then Some (ESB_PAUSE, c1, w1, s1)
          else if e \<noteq> ESB_SUCCESS then Some (e, c1, w1, s1)
          else if offered = 0 then case client_end_request_body s1 of (e2, s2) \<Rightarrow> Some (e2, c1, w1, s2)
          else case client_send_chunk bh' offered c1 w1 s1 of (e2, c2, w2, s2) \<Rightarrow>
            if e2 \<noteq> ESB_SUCCESS then Some (e2, c2, w2, s2) else f env' bh' c2 w2 s2) = Some y"
      and bh: "bh' = bh"
    show "tk (fst (snd (snd y))) = tk w"
      using round bh
      by (auto dest!: IH offer_quiet send_chunk_quiet split: if_splits prod.splits)
  qed
  then show ?thesis
    by simp
qed

lemma receive_body_quiet:
  assumes "client_stateReceiveResponseBody env bh c w s = Some y"
  shows "tk (fst (snd (snd y))) = tk w"
proof -
  let ?P = "\<lambda>env' bh' c w s y. bh' = bh \<longrightarrow> tk (fst (snd (snd y))) = tk w"
  have "?P env bh c w s y"
  proof (rule client_stateReceiveResponseBody.raw_induct [where P = ?P, OF _ assms], intro impI)
    fix f env' bh' c w s y
    assume IH: "\<And>env' bh' c w s y. f env' bh' c w s = Some y \<Longrightarrow> ?P env' bh' c w s y"
      and round: "(if isShutdown env' w then Some (ESB_SHUTDOWN, c, w, s)
        else case client_currentChunkBytesAvailable s of (e, n, s1) \<Rightarrow>
          if e \<noteq> ESB_SUCCESS then Some (e, c, w, s1)
          else if n = 0 then Some (client_offer_last_chunk bh' c w s1)
          else case client_offer_chunk bh' n c w s1 of (finished, e2, c2, w2, s2) \<Rightarrow>
            if finished then Some (e2, c2, w2, s2) else f env' bh' c2 w2 s2) = Some y"
      and bh: "bh' = bh"
    have "tk (fst (snd (snd (client_offer_last_chunk bh c w s1)))) = tk w" for s1
      using last_chunk_quiet by (cases "client_offer_last_chunk bh c w s1") auto
    then show "tk (fst (snd (snd y))) = tk w"
      using round bh by (auto dest!: IH offer_chunk_quiet split: if_splits prod.splits)
  qed
  then show ?thesis
    by simp
qed

lemma flush_state_quiet:
  assumes "client_stateFlushRequestBody env h w s = Some (e, w', s')"
  shows "quiet (w, s) (w', s')"
proof -
  obtain e1 w1 s1 where f: "client_flushSendBuffer env w s = Some (e1, w1, s1)"
      "(e, w', s') = (if e1 \<noteq> ESB_SUCCESS then (e1, w1, s1)
         else endRequest h w1 (client_stateTransition CLIENT_PARSING_HEADERS s1))"
    using assms by (auto simp: client_stateFlushRequestBody_def)
  let ?s = "client_stateTransition CLIENT_PARSING_HEADERS s1"
  show ?thesis
  proof (cases "e1 = ESB_SUCCESS")
    case True
    then have r: "endRequest h w1 ?s = (e, w', s')"
      using f(2) by simp
    have "\<not> client_in s' FIRST_USE_AFTER_REUSE"
      using flush_clears_fresh f(1) True client_politeD(6) [OF endRequest_polite [OF r]] by simp
    then show ?thesis
      by (simp add: quiet_def)
  qed (use f flush_quiet [OF f(1)] in simp)
qed

lemma run_state_quiet:
  assumes "client_run_state env h bh c w s = Some (e, c', w', s')" "client_inv s"
  shows "quiet (w, s) (w', s')"
proof -
  note g = run_state_goes [OF assms]
  show ?thesis
  proof (cases "clState s AND CLIENT_STATE_MASK = CLIENT_FLUSHING_BODY")
    case True
    then show ?thesis
      using assms(1) flush_state_quiet
      by (auto simp: client_run_state_def client_with_c_def Let_def split: prod.splits)
  next
    case False
    then have "tk w' = tk w"
      using assms(1) begin_state_quiet [of w s] send_headers_quiet [of w s] receive_headers_quiet [of w s]
        send_body_quiet [of c w s] receive_body_quiet [of c w s]
      by (fastforce simp: client_run_state_def client_with_c_def Let_def split: prod.splits if_splits)
    then show ?thesis
      by (rule quiet_goes [OF g])
  qed
qed

definition round_end ::
  "('c, 'w, 'a) client_machine_result + bool \<times> bool \<times> 'c \<times> 'w \<times> 'a client_socket \<Rightarrow> 'w \<times> 'a client_socket" where
  "round_end r = (case r of Inl (_, _, w, s) \<Rightarrow> (w, s) | Inr (_, _, _, w, s) \<Rightarrow> (w, s))"

lemma round_quiet:
  assumes "client_machine_round env h bh fl fill drain c w s = Some r" "client_inv s"
  shows "quiet (w, s) (round_end r)"
proof -
  obtain e0 w0 s0 where f: "(if fill then client_fillReceiveBuffer env w s else (ESB_SUCCESS, w, s)) = (e0, w0, s0)"
    by (cases "if fill then client_fillReceiveBuffer env w s else (ESB_SUCCESS, w, s)") auto
  have s0: "client_stays s s0" "tk w0 = tk w"
    using f client_fill_stays [of env w s e0 w0 s0] fill_quiet [of w s e0 w0 s0] by (auto split: if_splits)
  note q0 = quiet_goes [OF client_stays_goes [OF s0(1)] s0(2)]
  have g: "quiet (w, s) (w1, s1)" if "client_run_state env h bh c w0 s0 = Some (e, c1, w1, s1)" for e c1 w1 s1
    using run_state_quiet [OF that client_staysD(5) [OF s0(1) assms(2)]] by (rule quiet_trans [OF q0])
  have g2: "quiet (w, s) (w2, s2)" if "client_run_state env h bh c w0 s0 = Some (e, c1, w1, s1)"
      "client_flushSendBuffer env w1 s1 = Some (e2, w2, s2)" for e c1 w1 s1 e2 w2 s2
    by (rule quiet_trans [OF g [OF that(1)] flush_quiet [OF that(2)]])
  have "quiet (w, s) (w, s)"
    by (simp add: quiet_def)
  then show ?thesis
    using assms(1) q0 g g2
    by (auto simp: client_machine_round_def round_end_def Let_def f
        split: if_splits prod.splits option.splits)
qed

lemma machine_quiet:
  assumes "client_machine_loop env h bh fl fill drain c w s = Some y" "client_inv s"
  shows "quiet (w, s) (snd (snd y))"
proof -
  let ?P = "\<lambda>env' h' bh' fl fill drain c w s y. env' = env \<longrightarrow>
    h' = h \<longrightarrow> bh' = bh \<longrightarrow> client_inv s \<longrightarrow> quiet (w, s) (snd (snd y))"
  have "?P env h bh fl fill drain c w s y"
  proof (rule client_machine_loop.raw_induct [where P = ?P, OF _ assms(1)], intro impI)
    fix f env' h' bh' fl fill drain c w s y
    assume IH: "\<And>env' h' bh' fl fill drain c w s y. f env' h' bh' fl fill drain c w s = Some y \<Longrightarrow>
          ?P env' h' bh' fl fill drain c w s y"
      and round: "(case client_machine_round env' h' bh' fl fill drain c w s of None \<Rightarrow> None
        | Some (Inl res) \<Rightarrow> Some res
        | Some (Inr (fill1, drain1, c1, w1, s1)) \<Rightarrow> f env' h' bh' fl fill1 drain1 c1 w1 s1) = Some y"
      and h: "env' = env" "h' = h" "bh' = bh" and inv: "client_inv s"
    obtain r where r: "client_machine_round env h bh fl fill drain c w s = Some r"
      using round h by (auto split: option.splits)
    note q = round_quiet [OF r inv]
    show "quiet (w, s) (snd (snd y))"
    proof (cases r)
      case (Inl res)
      then show ?thesis
        using round h r q by (cases res) (auto simp: round_end_def)
    next
      case (Inr t)
      obtain fill1 drain1 c1 w1 s1 where t: "t = (fill1, drain1, c1, w1, s1)"
        by (cases t)
      have "client_inv s1"
        using round_goes [OF r inv] inv Inr t by (simp add: round_socket_def client_goes_def)
      moreover have "f env' h' bh' fl fill1 drain1 c1 w1 s1 = Some y"
        using round h r Inr t by simp
      ultimately have "quiet (w1, s1) (snd (snd y))"
        using IH [of env' h' bh' fl fill1 drain1 c1 w1 s1 y] h by simp
      moreover have "quiet (w, s) (w1, s1)"
        using q Inr t by (simp add: round_end_def)
      ultimately show ?thesis
        by (blast intro: quiet_trans)
    qed
  qed
  then show ?thesis
    using assms by blast
qed

lemma advance_quiet:
  assumes "client_advanceStateMachine env h bh fl c w s = Some (e, c', w', s')" "client_inv s"
  shows "client_in s' FIRST_USE_AFTER_REUSE \<Longrightarrow> client_in s FIRST_USE_AFTER_REUSE \<and> tk w' = tk w"
  using machine_quiet [OF assms(1) [unfolded client_advanceStateMachine_def] assms(2)] by (simp add: quiet_def)

end

end
