(* ===== verification/LoadgenHandler.thy ===== *)
theory LoadgenHandler
  imports ClientMachine OriginHandler
begin

text \<open>
  \<open>ES::HttpLoadgenHandler\<close> (data-plane/loadgen/source/ESHttpLoadgenHandler.cpp), a client handler: it
  sends a body of a configured size, counts the octets of the response and starts the next
  transaction at the end of one. Its callbacks are polite, so the results about the client socket hold
  for it. The \<open>HttpLoadgenContext\<close> objects and the two shared counters are in the world.
\<close>

record load_context =
  loadSent :: u64
  loadReceived :: u64

record load_world =
  loadContexts :: "(u64 \<times> load_context) list"
  remainingIterations :: u32
  completedIterations :: u32

definition load_context_at :: "u64 \<Rightarrow> 'z load_world_scheme \<Rightarrow> load_context option" where
  "load_context_at a w = map_of (loadContexts w) a"

definition set_load_context :: "u64 \<Rightarrow> load_context \<Rightarrow> 'z load_world_scheme \<Rightarrow> 'z load_world_scheme" where
  "set_load_context a c w = w\<lparr>loadContexts := (a, c) # filter (\<lambda>e. fst e \<noteq> a) (loadContexts w)\<rparr>"

definition free_load_context :: "u64 \<Rightarrow> 'z load_world_scheme \<Rightarrow> 'z load_world_scheme" where
  "free_load_context a w = w\<lparr>loadContexts := filter (\<lambda>e. fst e \<noteq> a) (loadContexts w)\<rparr>"

text \<open>\<open>stream.context()\<close>, \<open>stream.setContext()\<close>\<close>

definition client_context :: "'a client_socket \<Rightarrow> u64" where
  "client_context s = (case clTransaction s of None \<Rightarrow> 0 | Some t \<Rightarrow> ctContext t)"

definition client_setContext :: "u64 \<Rightarrow> 'a client_socket \<Rightarrow> 'a client_socket" where
  "client_setContext c s = s\<lparr>clTransaction := map_option (\<lambda>t. t\<lparr>ctContext := c\<rparr>) (clTransaction s)\<rparr>"

definition client_stall :: "('w, 'a) client_env \<Rightarrow> 'w \<Rightarrow> 'a client_socket \<Rightarrow> ('w, 'a) client_result" where
  "client_stall env w s =
     (case client_pauseSend env False w s of (_, w1, s1) \<Rightarrow>
      case client_pauseRecv env False w1 s1 of (_, w2, s2) \<Rightarrow> (ESB_PAUSE, w2, s2))"

section \<open>The callbacks\<close>

definition loadgen_beginTransaction ::
  "test_params \<Rightarrow> ('w, 'a) client_env \<Rightarrow> 'w \<Rightarrow> 'a client_socket \<Rightarrow> ('w, 'a) client_result" where
  "loadgen_beginTransaction params env w s =
     (if disruptTransaction params = STALL_CLIENT_SEND_HEADERS then client_stall env w s
      else if disruptTransaction params = CLOSE_CLIENT_SEND_HEADERS then (ESB_CLOSED, w, s)
      else (ESB_SUCCESS, w, s))"

definition loadgen_endRequest :: "'w \<Rightarrow> 'a client_socket \<Rightarrow> ('w, 'a) client_result" where
  "loadgen_endRequest w s = (ESB_SUCCESS, w, s)"

definition loadgen_receiveResponseHeaders ::
  "test_params \<Rightarrow> ('w, 'a) client_env \<Rightarrow> 'w \<Rightarrow> 'a client_socket \<Rightarrow> ('w, 'a) client_result" where
  "loadgen_receiveResponseHeaders params env w s =
     (if disruptTransaction params = STALL_CLIENT_RECV_HEADERS then client_stall env w s
      else if disruptTransaction params = CLOSE_CLIENT_RECV_HEADERS then (ESB_CLOSED, w, s)
      else (ESB_SUCCESS, w, s))"

definition loadgen_offerRequestBody ::
  "test_params \<Rightarrow> ('z load_world_scheme, 'a) client_env \<Rightarrow> unit \<Rightarrow> 'z load_world_scheme \<Rightarrow> 'a client_socket
    \<Rightarrow> error \<times> u64 \<times> unit \<times> 'z load_world_scheme \<times> 'a client_socket" where
  "loadgen_offerRequestBody params env c w s =
     (if disruptTransaction params = STALL_CLIENT_SEND_BODY then
        (case client_stall env w s of (e, w1, s1) \<Rightarrow> (e, 0, c, w1, s1))
      else if disruptTransaction params = CLOSE_CLIENT_SEND_BODY then (ESB_CLOSED, 0, c, w, s)
      else
        case load_context_at (client_context s) w of
          None \<Rightarrow> (UNDEFINED_BEHAVIOUR, 0, c, w, s)
        | Some ctx \<Rightarrow> (ESB_SUCCESS, requestSize params - loadSent ctx, c, w, s))"

text \<open>A release build leaves the octets of the buffer as they are: the callback writes none.\<close>

definition loadgen_produceRequestBody ::
  "u64 \<Rightarrow> unit \<Rightarrow> 'z load_world_scheme \<Rightarrow> 'a client_socket
    \<Rightarrow> error \<times> u8 list \<times> unit \<times> 'z load_world_scheme \<times> 'a client_socket" where
  "loadgen_produceRequestBody n c w s =
     (case load_context_at (client_context s) w of
        None \<Rightarrow> (UNDEFINED_BEHAVIOUR, [], c, w, s)
      | Some ctx \<Rightarrow>
          (ESB_SUCCESS, [], c,
           set_load_context (client_context s) (ctx\<lparr>loadSent := loadSent ctx + n\<rparr>) w, s))"

definition loadgen_consumeResponseBody ::
  "test_params \<Rightarrow> ('z load_world_scheme, 'a) client_env \<Rightarrow> u8 list \<Rightarrow> u64 \<Rightarrow> unit
    \<Rightarrow> 'z load_world_scheme \<Rightarrow> 'a client_socket
    \<Rightarrow> error \<times> u64 \<times> unit \<times> 'z load_world_scheme \<times> 'a client_socket" where
  "loadgen_consumeResponseBody params env chunk chunkSize c w s =
     (if disruptTransaction params = STALL_CLIENT_RECV_BODY then
        (case client_stall env w s of (e, w1, s1) \<Rightarrow> (e, 0, c, w1, s1))
      else if disruptTransaction params = CLOSE_CLIENT_RECV_BODY then (ESB_CLOSED, 0, c, w, s)
      else
        case load_context_at (client_context s) w of
          None \<Rightarrow> (UNDEFINED_BEHAVIOUR, 0, c, w, s)
        | Some ctx \<Rightarrow>
            (ESB_SUCCESS, chunkSize, c,
             set_load_context (client_context s) (ctx\<lparr>loadReceived := loadReceived ctx + chunkSize\<rparr>) w, s))"

text \<open>
  The next transaction with the same request, unless the iterations are used up. The counter's
  \<open>dec\<close> answers the new value. Where the transaction cannot be built or started the context stays
  behind.
\<close>

definition loadgen_next ::
  "('z load_world_scheme, 'a) client_env \<Rightarrow> 'z load_world_scheme \<Rightarrow> 'a client_socket
    \<Rightarrow> 'z load_world_scheme \<times> 'a client_socket" where
  "loadgen_next env w s =
     (case createTransaction env w of
        (None, w1) \<Rightarrow> (w1, s)
      | (Some t, w1) \<Rightarrow>
          (case request_copy (allocate env) HeaderCopyAll (allocator (ctParser t)) (ctRequest t)
                  (map_option ctRequest (clTransaction s)) of
             (e, al, r) \<Rightarrow>
               let t1 = t\<lparr>ctParser := (ctParser t)\<lparr>allocator := al\<rparr>, ctRequest := r\<rparr> in
               if e \<noteq> ESB_SUCCESS then (destroyTransaction env t1 w1, s)
               else
                 let a = client_context s;
                     t2 = t1\<lparr>ctPeer := sockPeer env w1, ctContext := a\<rparr>;
                     w2 = set_load_context a \<lparr>loadSent = 0, loadReceived = 0\<rparr> w1;
                     s1 = client_setContext 0 s
                 in (case executeTransaction env t2 w2 of
                       (e2, w3) \<Rightarrow> (if e2 \<noteq> ESB_SUCCESS then destroyTransaction env t2 w3 else w3, s1))))"

definition loadgen_endTransaction ::
  "('z load_world_scheme, 'a) client_env \<Rightarrow> client_end_state \<Rightarrow> 'z load_world_scheme \<Rightarrow> 'a client_socket
    \<Rightarrow> 'z load_world_scheme \<times> 'a client_socket" where
  "loadgen_endTransaction env st w s =
     (let remaining = remainingIterations w - 1;
          w1 = w\<lparr>completedIterations := completedIterations w + 1, remainingIterations := remaining\<rparr> in
      if sint remaining < 0 then (free_load_context (client_context s) w1, client_setContext 0 s)
      else loadgen_next env w1 s)"

definition loadgen_body ::
  "test_params \<Rightarrow> ('z load_world_scheme, 'a) client_env \<Rightarrow> (unit, 'z load_world_scheme, 'a client_socket) body_handler" where
  "loadgen_body params env =
     \<lparr>consume_body = loadgen_consumeResponseBody params env,
      offer_body = loadgen_offerRequestBody params env,
      produce_body = loadgen_produceRequestBody\<rparr>"

definition loadgen_handler ::
  "test_params \<Rightarrow> ('z load_world_scheme, 'a) client_env \<Rightarrow> ('z load_world_scheme, 'a) client_handler" where
  "loadgen_handler params env =
     \<lparr>beginRequest = loadgen_beginTransaction params env,
      endRequest = loadgen_endRequest,
      receiveResponseHeaders = loadgen_receiveResponseHeaders params env,
      endClientTransaction = loadgen_endTransaction env,
      clientBody = loadgen_body params env\<rparr>"

section \<open>The callbacks are polite\<close>

lemma client_polite_trans [trans]:
  "client_polite s s' \<Longrightarrow> client_polite s' s'' \<Longrightarrow> client_polite s s''"
proof -
  assume p: "client_polite s s'" "client_polite s' s''"
  have al: "q = p\<lparr>allocator := allocator q\<rparr> \<Longrightarrow> r = q\<lparr>allocator := allocator r\<rparr> \<Longrightarrow>
      r = p\<lparr>allocator := allocator r\<rparr>" for p q r :: "'a response_parser"
    by (cases p; cases q; cases r) simp
  have "s'' = s\<lparr>clState := clState s'', clTransaction := clTransaction s''\<rparr>"
    using p unfolding client_polite_def by (cases s; cases s'; cases s'') simp
  moreover have "rel_option (\<lambda>t t'. ctFormatter t' = ctFormatter t \<and> ctStart t' = ctStart t \<and>
       ctParser t' = (ctParser t)\<lparr>allocator := allocator (ctParser t')\<rparr>) (clTransaction s) (clTransaction s'')"
    using p unfolding client_polite_def
    by (cases "clTransaction s"; cases "clTransaction s'"; cases "clTransaction s''") (auto intro: al)
  ultimately show ?thesis
    using p by (simp add: client_polite_def)
qed

lemma client_polite_setContext [simp]: "client_polite s (client_setContext c s)"
  by (cases "clTransaction s") (simp_all add: client_polite_def client_setContext_def)

lemma client_polite_flag:
  assumes "f \<in> {CLIENT_RECV_PAUSED, CLIENT_SEND_PAUSED, CLIENT_ABORTED}"
  shows "client_polite s (client_addFlag f s)" "client_polite s (client_clearFlag f s)"
  using assms
  by (cases "clTransaction s"; auto simp: client_polite_def client_addFlag_def client_clearFlag_def mask_simps)+

lemma client_stall_polite: "client_stall env w s = (e, w', s') \<Longrightarrow> client_polite s s'"
  using client_polite_flag(1) [of 2048 s] client_polite_flag(1) [of 1024 s]
    client_polite_trans [OF _ client_polite_flag(1) [of 1024]]
  by (auto simp: client_stall_def client_pauseSend_def client_pauseRecv_def after_update_def split: if_splits)

interpretation loadgen_own: polite_client_body "loadgen_body params env"
proof
  show "consume_body (loadgen_body params env) os n c w s = (e, k, c', w', s') \<Longrightarrow> client_polite s s'"
    for os n c w s e k c' w' s'
    by (auto simp: loadgen_body_def loadgen_consumeResponseBody_def Let_def
        dest!: client_stall_polite split: if_splits option.splits prod.splits)
  show "offer_body (loadgen_body params env) c w s = (e, k, c', w', s') \<Longrightarrow> client_polite s s'"
    for c w s e k c' w' s'
    by (auto simp: loadgen_body_def loadgen_offerRequestBody_def
        dest!: client_stall_polite split: if_splits option.splits prod.splits)
  show "produce_body (loadgen_body params env) n c w s = (e, os, c', w', s') \<Longrightarrow> client_polite s s'"
    for n c w s e os c' w' s'
    by (auto simp: loadgen_body_def loadgen_produceRequestBody_def split: option.splits)
qed

interpretation loadgen: polite_client_handler "loadgen_handler params env"
proof
  show "beginRequest (loadgen_handler params env) w s = (e, w', s') \<Longrightarrow> client_polite s s'" for w s e w' s'
    by (auto simp: loadgen_handler_def loadgen_beginTransaction_def dest!: client_stall_polite split: if_splits)
  show "endRequest (loadgen_handler params env) w s = (e, w', s') \<Longrightarrow> client_polite s s'" for w s e w' s'
    by (simp add: loadgen_handler_def loadgen_endRequest_def)
  show "receiveResponseHeaders (loadgen_handler params env) w s = (e, w', s') \<Longrightarrow> client_polite s s'"
    for w s e w' s'
    by (auto simp: loadgen_handler_def loadgen_receiveResponseHeaders_def
        dest!: client_stall_polite split: if_splits)
  show "endClientTransaction (loadgen_handler params env) st w s = (w', s') \<Longrightarrow> client_polite s s'" for st w s w' s'
    by (auto simp: loadgen_handler_def loadgen_endTransaction_def loadgen_next_def Let_def
        split: if_splits option.splits prod.splits)
qed

end
