(* ===== verification/ScriptedPeer.thy ===== *)
theory ScriptedPeer
  imports LoadgenHandler ScriptedNetwork
begin

text \<open>
  A concrete world for the client socket, on the wire of ScriptedNetwork: it runs the load generator
  against a scripted origin. \<open>executed\<close> are the transactions started on another connection, \<open>outcomes\<close>
  the successes and failures counted, \<open>closed\<close> whether the connection was closed.
\<close>

record peer_world = load_world +
  clientLine :: wire
  clientBuffersOut :: int
  executed :: "u64 client_transaction list"
  destroyed :: nat
  outcomes :: "bool list"
  closed :: bool

definition simple_request :: http_request where
  "simple_request = new_http_request\<lparr>reqMethod := Some (asc ''GET''),
     requestUri := new_request_uri\<lparr>absPath := Some (asc ''/'')\<rparr>,
     headers := [\<lparr>fieldName = asc ''Host'', fieldValue = Some (asc ''x'')\<rparr>]\<rparr>"

text \<open>The context of the transaction is at address 8.\<close>

definition peer_transaction :: "u64 client_transaction" where
  "peer_transaction = \<lparr>ctContext = 8, ctPeer = [127, 0, 0, 1], ctStart = 0, ctRequest = simple_request,
     ctResponse = new_http_response, ctParser = new_response_parser (new_buffer (replicate 32 0) 32) 4096,
     ctFormatter = new_request_formatter\<rparr>"

definition peer_receive :: "nat \<Rightarrow> 'z peer_world_scheme \<Rightarrow> recv_result \<times> 'z peer_world_scheme" where
  "peer_receive n w = (case wire_receive n (clientLine w) of (r, l) \<Rightarrow> (r, w\<lparr>clientLine := l\<rparr>))"

definition peer_send :: "u8 list \<Rightarrow> 'z peer_world_scheme \<Rightarrow> send_result \<times> 'z peer_world_scheme" where
  "peer_send os w = (case wire_send os (clientLine w) of (r, l) \<Rightarrow> (r, w\<lparr>clientLine := l\<rparr>))"

definition peer_env :: "bool \<Rightarrow> (peer_world, u64) client_env" where
  "peer_env reuse =
     \<lparr>isShutdown = (\<lambda>_. False),
      acquireBuffer = (\<lambda>w. (Some net_buffer, w\<lparr>clientBuffersOut := clientBuffersOut w + 1\<rparr>)),
      releaseBuffer = (\<lambda>_ w. w\<lparr>clientBuffersOut := clientBuffersOut w - 1\<rparr>),
      createTransaction = (\<lambda>w. (Some (peer_transaction\<lparr>ctRequest := new_http_request\<rparr>), w)),
      destroyTransaction = (\<lambda>_ w. w\<lparr>destroyed := destroyed w + 1\<rparr>),
      updateMultiplexedSocket = (\<lambda>w s. (ESB_SUCCESS, w, s)),
      removeMultiplexedSocket = (\<lambda>w s. (ESB_SUCCESS, w, s)),
      allocate = bump_alloc,
      resetAllocator = (\<lambda>_. 4096),
      sockPeer = (\<lambda>_. [127, 0, 0, 1]),
      sockConnected = (\<lambda>_. True),
      sockWantRead = (\<lambda>_. False),
      sockWantWrite = (\<lambda>_. False),
      sockClose = (\<lambda>w. w\<lparr>closed := True\<rparr>),
      sockReceive = peer_receive,
      sockSend = peer_send,
      reuseConnections = reuse,
      executeTransaction = (\<lambda>t w. (ESB_SUCCESS, w\<lparr>executed := executed w @ [t]\<rparr>)),
      recordOutcome = (\<lambda>good _ w. w\<lparr>outcomes := outcomes w @ [good]\<rparr>)\<rparr>"

definition peer_world :: "u8 list list \<Rightarrow> nat list \<Rightarrow> peer_world" where
  "peer_world segments ks = \<lparr>loadContexts = [(8, \<lparr>loadSent = 0, loadReceived = 0\<rparr>)],
     remainingIterations = 1, completedIterations = 0, clientLine = new_wire segments ks,
     clientBuffersOut = 0, executed = [], destroyed = 0, outcomes = [], closed = False\<rparr>"

abbreviation peer_loadgen :: "test_params \<Rightarrow> bool \<Rightarrow> (peer_world, u64) client_handler" where
  "peer_loadgen params reuse \<equiv> loadgen_handler params (peer_env reuse)"

definition ok_response :: "u8 list" where
  "ok_response = asc ''HTTP/1.1 200 OK'' @ crlf @ asc ''Content-Length: 5'' @ crlf @ crlf @ asc ''hello''"

end
