(* ===== verification/ClientProperties.thy ===== *)
theory ClientProperties
  imports ClientRetry ScriptedPeer
begin

text \<open>
  What the client socket guarantees, and where it does not do what it means to. The witnesses run
  the load generator against a scripted origin.
\<close>

section \<open>The entry points\<close>

context polite_client_machine begin

lemma advance_keeps:
  assumes "client_advanceStateMachine env h bh fl c w s = Some (e, c', w', s')" "client_inv s"
  shows "client_inv s' \<and> client_goes s s'"
  using advance_goes [OF assms] assms(2) by (simp add: client_goes_def)

end

locale polite_client = polite_client_machine env h "clientBody h"
  for env :: "('w, 'a) client_env" and h :: "('w, 'a) client_handler"
begin

lemma advance_own_goes:
  "client_advance_own env h fl w s = Some (e, w', s') \<Longrightarrow> client_inv s \<Longrightarrow> client_goes s s'"
  unfolding client_advance_own_def by (auto dest: advance_keeps)

lemma readable_goes:
  "client_handleReadable env h w s = Some (e, w', s') \<Longrightarrow> client_inv s \<Longrightarrow> client_goes s s'"
  by (auto simp: client_handleReadable_def dest: advance_own_goes split: if_splits)

lemma writable_goes:
  "client_handleWritable env h w s = Some (e, w', s') \<Longrightarrow> client_inv s \<Longrightarrow> client_goes s s'"
  by (auto simp: client_handleWritable_def dest: advance_own_goes split: if_splits)

lemma connecting_state: "client_inv s \<Longrightarrow> client_wantConnect s \<Longrightarrow> client_state s = 2"
proof -
  assume inv: "client_inv s" and "client_wantConnect s"
  then have "2 AND client_state s \<noteq> 0"
    by (simp add: client_wantConnect_def client_state_in_state)
  moreover have "client_state s \<in> {1, 2, 4, 8, 16, 32, 64, 128, 256}"
    using inv by (simp only: client_inv_def)
  ultimately show ?thesis
    by (elim insertE) simp_all
qed

lemma connect_goes:
  assumes "handleConnect env h w s = Some (e, w', s')" "client_inv s" "client_wantConnect s"
  shows "client_goes s s'"
proof -
  note st = connecting_state [OF assms(2,3)]
  have b: "client_goes s (client_stateTransition CLIENT_TRANSACTION_BEGIN s)"
    by (rule client_goes_begin [OF st])
  then have "client_inv (client_stateTransition CLIENT_TRANSACTION_BEGIN s)"
    using assms(2) by (simp add: client_goes_def)
  from client_goes_trans [OF b writable_goes [OF assms(1) [unfolded handleConnect_def] this]]
  show ?thesis .
qed

lemma adaptor_goes:
  "client_advanceStateMachine env h (body_producer os n) fl c w s = Some y \<Longrightarrow> client_inv s \<Longrightarrow>
    client_goes s (snd (snd (snd y)))"
  "client_advanceStateMachine env h (body_consumer n) fl c2 w s = Some z \<Longrightarrow> client_inv s \<Longrightarrow>
    client_goes s (snd (snd (snd z)))"
proof -
  have "polite_client_machine env h (body_producer os n)" "polite_client_machine env h (body_consumer n)"
    unfolding polite_client_machine_def
    using failing_sends_axioms polite_client_handler_axioms request_producer.polite_client_body_axioms
      response_consumer.polite_client_body_axioms by blast+
  then show "client_advanceStateMachine env h (body_producer os n) fl c w s = Some y \<Longrightarrow> client_inv s \<Longrightarrow>
      client_goes s (snd (snd (snd y)))"
    "client_advanceStateMachine env h (body_consumer n) fl c2 w s = Some z \<Longrightarrow> client_inv s \<Longrightarrow>
      client_goes s (snd (snd (snd z)))"
    by (cases y; cases z; auto dest: polite_client_machine.advance_goes)+
qed

end

section \<open>Reachable sockets\<close>

inductive client_reachable ::
  "('w, 'a) client_env \<Rightarrow> ('w, 'a) client_handler \<Rightarrow> 'a client_socket \<Rightarrow> bool"
  for env h where
  created: "client_reachable env h (new_client_socket reused (Some t))"
| connect: "client_reachable env h s \<Longrightarrow> client_wantConnect s \<Longrightarrow> handleConnect env h w s = Some (e, w', s') \<Longrightarrow>
    client_reachable env h s'"
| readable: "client_reachable env h s \<Longrightarrow> client_handleReadable env h w s = Some (e, w', s') \<Longrightarrow>
    client_reachable env h s'"
| writable: "client_reachable env h s \<Longrightarrow> client_handleWritable env h w s = Some (e, w', s') \<Longrightarrow>
    client_reachable env h s'"
| request_body: "client_reachable env h s \<Longrightarrow> sendRequestBody env h os n w s = Some (e, k, w', s') \<Longrightarrow>
    client_reachable env h s'"
| response_body: "client_reachable env h s \<Longrightarrow> readResponseBody env h n w s = Some (e, os, k, w', s') \<Longrightarrow>
    client_reachable env h s'"
| body_available: "client_reachable env h s \<Longrightarrow> responseBodyAvailable env h w s = Some (e, k, w', s') \<Longrightarrow>
    client_reachable env h s'"
| setters: "client_reachable env h s \<Longrightarrow> client_polite s s' \<Longrightarrow> client_reachable env h s'"

lemma new_client_inv: "client_inv (new_client_socket reused (Some t))"
proof (cases reused)
  case True
  then show ?thesis
    by (simp add: client_inv_def new_client_socket_def Let_def has_flag_def)
       (simp add: client_in_def has_flag_def)
next
  case False
  then show ?thesis
    by (simp add: client_inv_def new_client_socket_def client_state_def client_in_def has_flag_def)
qed

lemma goes_inv: "client_goes s s' \<Longrightarrow> client_inv s \<Longrightarrow> client_inv s'"
  by (simp add: client_goes_def)

context polite_client begin

lemma reachable_inv: "client_reachable env h s \<Longrightarrow> client_inv s"
proof (induction rule: client_reachable.induct)
  case created
  show ?case by (rule new_client_inv)
next
  case connect
  show ?case
    by (rule goes_inv [OF connect_goes [OF connect.hyps(3) connect.IH connect.hyps(2)] connect.IH])
next
  case readable
  show ?case by (rule goes_inv [OF readable_goes [OF readable.hyps(2) readable.IH] readable.IH])
next
  case writable
  show ?case by (rule goes_inv [OF writable_goes [OF writable.hyps(2) writable.IH] writable.IH])
next
  case request_body
  then show ?case
    by (auto simp: sendRequestBody_def split: if_splits dest!: adaptor_goes(1) intro: goes_inv)
next
  case response_body
  then show ?case
    by (auto simp: readResponseBody_def dest!: adaptor_goes(2) intro: goes_inv)
next
  case body_available
  then show ?case
    by (auto simp: responseBodyAvailable_def dest!: adaptor_goes(2) intro: goes_inv)
next
  case setters
  then show ?case by (simp add: client_polite_inv)
qed

end

section \<open>The load generator on the scripted origin\<close>

abbreviation peer_taken :: "peer_world \<Rightarrow> u8 list" where
  "peer_taken w \<equiv> taken (clientLine w)"

lemma clientBody_loadgen: "clientBody (loadgen_handler params env) = loadgen_body params env"
  by (simp add: loadgen_handler_def)

lemma peer_sends: "peer_send os w = (SendError e, w') \<Longrightarrow> e = ESB_AGAIN \<and> peer_taken w' = peer_taken w"
  by (auto simp: peer_send_def dest: wire_send_error split: prod.splits)

lemma wire_receive_quiet: "wire_receive n w = (r, w') \<Longrightarrow> taken w' = taken w"
  by (auto simp: wire_receive_def split: list.splits if_splits)

lemma load_world_line [simp]:
  "clientLine (set_load_context a c w) = clientLine w" "clientLine (free_load_context a w) = clientLine w"
  by (simp_all add: set_load_context_def free_load_context_def)

lemma client_stall_world: "client_stall env w s = (e, w', s') \<Longrightarrow> w' = w"
  by (auto simp: client_stall_def client_pauseSend_def client_pauseRecv_def after_update_def split: if_splits)

interpretation peer_quiet: quiet_client "peer_env reuse" "loadgen_handler params (peer_env reuse)"
  "loadgen_body params (peer_env reuse)" peer_taken
proof (unfold_locales, goal_cases)
  case (1 os w w')
  show ?case
    using peer_sends by (auto simp: peer_env_def)
next
  case (2 w b w')
  then show ?case by (auto simp: peer_env_def)
next
  case (3 n w r w')
  then show ?case by (auto simp: peer_env_def peer_receive_def dest: wire_receive_quiet split: prod.splits)
next
  case (4 os w e w')
  then show ?case using peer_sends by (auto simp: peer_env_def)
next
  case (5 w s e w' s')
  then show ?case by (auto simp: loadgen_handler_def loadgen_beginTransaction_def dest!: client_stall_world split: if_splits)
next
  case (6 w s e w' s')
  then show ?case by (auto simp: loadgen_handler_def loadgen_endRequest_def)
next
  case (7 w s e w' s')
  then show ?case by (auto simp: loadgen_handler_def loadgen_receiveResponseHeaders_def dest!: client_stall_world
        split: if_splits)
next
  case (8 os n c w s e k c' w' s')
  then show ?case
    by (auto simp: loadgen_body_def loadgen_consumeResponseBody_def dest!: client_stall_world
        split: if_splits option.splits prod.splits)
next
  case (9 c w s e k c' w' s')
  then show ?case
    by (auto simp: loadgen_body_def loadgen_offerRequestBody_def dest!: client_stall_world
        split: if_splits option.splits prod.splits)
next
  case (10 n c w s e os c' w' s')
  then show ?case by (auto simp: loadgen_body_def loadgen_produceRequestBody_def split: option.splits)
qed

interpretation peer: polite_client "peer_env reuse" "loadgen_handler params (peer_env reuse)"
  unfolding polite_client_def clientBody_loadgen by (rule peer_quiet.polite_client_machine_axioms)

section \<open>A transaction\<close>

definition fetched :: "error \<times> peer_world \<times> u64 client_socket" where
  "fetched = the (handleConnect (peer_env True) (peer_loadgen plain_params True) (peer_world [ok_response] [])
     (new_client_socket False (Some peer_transaction)))"

lemma fetched_run:
  "handleConnect (peer_env True) (peer_loadgen plain_params True) (peer_world [ok_response] [])
     (new_client_socket False (Some peer_transaction)) = Some (fst fetched, fst (snd fetched), snd (snd fetched))"
proof -
  have "handleConnect (peer_env True) (peer_loadgen plain_params True) (peer_world [ok_response] [])
     (new_client_socket False (Some peer_transaction)) \<noteq> None"
    by code_simp
  then show ?thesis
    by (auto simp: fetched_def)
qed

lemma new_client_connecting: "client_wantConnect (new_client_socket False t)"
  by (simp add: client_wantConnect_def new_client_socket_def client_in_def has_flag_def)

text \<open>C17. Whatever the calls of the multiplexer and the application and whatever the kernel, the parser and
  a polite handler answer: an active client socket has its transaction, from the request body on a send
  buffer, from the response body on a receive buffer; octets of a body are left only while it is read, and
  the mark of a reused connection is gone before a response is awaited.\<close>

theorem reachable_client_inv:
  assumes "polite_client env h" "client_reachable env h s"
  shows "client_inv s"
  using polite_client.reachable_inv [OF assms] .

theorem reachable_client_inv_witness:
  "client_inv (snd (snd fetched))"
proof (rule reachable_client_inv [OF peer.polite_client_axioms])
  show "client_reachable (peer_env True) (peer_loadgen plain_params True) (snd (snd fetched))"
    by (rule client_reachable.connect [OF client_reachable.created new_client_connecting fetched_run])
qed

abbreviation (input) client_states :: "u32 set" where
  "client_states \<equiv> {1, 2, 4, 8, 16, 32, 64, 128, 256}"

lemma client_step_up:
  "client_step a b \<Longrightarrow> a \<in> client_states \<Longrightarrow> b \<in> client_states \<and> (b = CLIENT_INACTIVE \<or> a \<noteq> CLIENT_INACTIVE \<and> a \<le> b)"
  by (erule client_step.cases) simp_all

lemma client_step_forward:
  assumes "client_step\<^sup>*\<^sup>* a b" "a \<in> client_states"
  shows "b \<in> client_states \<and> (b = CLIENT_INACTIVE \<or> a \<le> b)"
  using assms
proof (induction rule: rtranclp_induct)
  case (step b c)
  then have "c \<in> client_states" "c = CLIENT_INACTIVE \<or> b \<noteq> CLIENT_INACTIVE \<and> b \<le> c"
    using client_step_up [of b c] by blast+
  then show ?case
    using step.IH step.prems by (meson order_trans)
qed simp

text \<open>C18. A client socket goes through the states in their order, along the transitions that
  \<open>stateTransition\<close> asserts in a debug build, and never returns to an earlier one: a transaction is sent
  and received once.\<close>

theorem client_moves_forward:
  assumes "polite_client env h" "client_inv s"
    and "handleConnect env h w s = Some (e, w', s') \<and> client_wantConnect s \<or>
      client_handleReadable env h w s = Some (e, w', s') \<or> client_handleWritable env h w s = Some (e, w', s')"
  shows "client_step\<^sup>*\<^sup>* (client_state s) (client_state s') \<and>
    (client_state s' = CLIENT_INACTIVE \<or> client_state s \<le> client_state s')"
proof -
  have "client_goes s s'"
    using assms(2,3) polite_client.connect_goes [OF assms(1), of w s e w' s']
      polite_client.readable_goes [OF assms(1), of w s e w' s']
      polite_client.writable_goes [OF assms(1), of w s e w' s'] by blast
  then have "client_step\<^sup>*\<^sup>* (client_state s) (client_state s')"
    using assms(2) by (simp add: client_goes_def)
  moreover have "client_state s \<in> {1, 2, 4, 8, 16, 32, 64, 128, 256}"
    using assms(2) by (simp only: client_inv_def)
  ultimately show ?thesis
    using client_step_forward by blast
qed

theorem client_moves_forward_witness:
  "client_step\<^sup>*\<^sup>* (client_state (new_client_socket False (Some peer_transaction))) (client_state (snd (snd fetched))) \<and>
    (client_state (snd (snd fetched)) = CLIENT_INACTIVE \<or>
      client_state (new_client_socket False (Some peer_transaction)) \<le> client_state (snd (snd fetched)))"
  by (rule client_moves_forward [OF peer.polite_client_axioms new_client_inv])
     (use fetched_run new_client_connecting in blast)

section \<open>Retry and reuse\<close>

text \<open>C6. As long as the mark of a reused connection is set, the kernel has not taken an octet of the
  transaction, and the mark is never set again: \<open>handleRemove\<close>, which retries only with the mark,
  never sends a request a second time.\<close>

theorem retried_only_unsent:
  assumes "quiet_client env h (clientBody h) tk" "client_inv s"
    and "client_handleWritable env h w s = Some (e, w', s') \<or> client_handleReadable env h w s = Some (e, w', s')"
    and "client_in s' FIRST_USE_AFTER_REUSE"
  shows "client_in s FIRST_USE_AFTER_REUSE \<and> tk w' = tk w"
proof -
  have "client_advance_own env h fl w s = Some (e, w', s') \<Longrightarrow> ?thesis" for fl
    using quiet_client.advance_quiet [OF assms(1) _ assms(2) assms(4)]
    by (auto simp: client_advance_own_def)
  then show ?thesis
    using assms(3,4) by (auto simp: client_handleWritable_def client_handleReadable_def split: if_splits)
qed

definition stale :: "error \<times> peer_world \<times> u64 client_socket" where
  "stale = the (client_handleWritable (peer_env True) (peer_loadgen plain_params True) (peer_world [] [0])
     (new_client_socket True (Some peer_transaction)))"

lemma stale_run:
  "client_handleWritable (peer_env True) (peer_loadgen plain_params True) (peer_world [] [0])
     (new_client_socket True (Some peer_transaction)) = Some (fst stale, fst (snd stale), snd (snd stale))"
proof -
  have "client_handleWritable (peer_env True) (peer_loadgen plain_params True) (peer_world [] [0])
     (new_client_socket True (Some peer_transaction)) \<noteq> None"
    by code_simp
  then show ?thesis
    by (auto simp: stale_def)
qed

theorem retried_only_unsent_witness:
  "client_in (new_client_socket True (Some peer_transaction)) FIRST_USE_AFTER_REUSE \<and>
    peer_taken (fst (snd stale)) = peer_taken (peer_world [] [0])"
proof (rule retried_only_unsent [where env = "peer_env True" and h = "peer_loadgen plain_params True" and
      tk = peer_taken and w = "peer_world [] [0]" and w' = "fst (snd stale)" and s' = "snd (snd stale)"])
  show "quiet_client (peer_env True) (peer_loadgen plain_params True)
      (clientBody (peer_loadgen plain_params True)) peer_taken"
    unfolding clientBody_loadgen by (rule peer_quiet.quiet_client_axioms)
  show "client_in (snd (snd stale)) FIRST_USE_AFTER_REUSE"
    unfolding stale_def by code_simp
  show "client_handleWritable (peer_env True) (peer_loadgen plain_params True) (peer_world [] [0])
      (new_client_socket True (Some peer_transaction)) = Some (fst stale, fst (snd stale), snd (snd stale)) \<or>
    client_handleReadable (peer_env True) (peer_loadgen plain_params True) (peer_world [] [0])
      (new_client_socket True (Some peer_transaction)) = Some (fst stale, fst (snd stale), snd (snd stale))"
    using stale_run by blast
qed (rule new_client_inv)

text \<open>\<open>op w\<close>: the connection is open.\<close>

definition stays_closed ::
  "('w, 'a) client_env \<Rightarrow> ('w, 'a) client_handler \<Rightarrow> ('w \<Rightarrow> bool) \<Rightarrow> bool" where
  "stays_closed env h op \<longleftrightarrow>
     (\<forall>w. \<not> op (sockClose env w)) \<and>
     (\<forall>t w. \<not> op w \<longrightarrow> \<not> op (snd (executeTransaction env t w)) \<and> \<not> op (destroyTransaction env t w)) \<and>
     (\<forall>st w s. \<not> op w \<longrightarrow> \<not> op (fst (endClientTransaction h st w s)))"

lemma client_removed:
  assumes "polite_client_handler h" "clRecvBuffer s = None" "clSendBuffer s = None"
  shows "retry_transaction env h w s = (w', s') \<Longrightarrow>
      client_state s' = 1 \<and> (clTransaction s \<noteq> None \<longrightarrow> clTransaction s' = None) \<and> clRecvBuffer s' = None \<and> clSendBuffer s' = None"
    "client_report_end env h w s = (w', s') \<Longrightarrow> clRecvBuffer s' = None \<and> clSendBuffer s' = None"
proof -
  have buffers: "clRecvBuffer s1 = clRecvBuffer s0 \<and> clSendBuffer s1 = clSendBuffer s0"
    if "endClientTransaction h st w0 s0 = (w1, s1)" for st w0 s0 w1 s1
    using client_politeD(2,3) [OF polite_client_handler.end_polite [OF assms(1) that]] by simp
  show "retry_transaction env h w s = (w', s') \<Longrightarrow>
      client_state s' = 1 \<and> (clTransaction s \<noteq> None \<longrightarrow> clTransaction s' = None) \<and> clRecvBuffer s' = None \<and> clSendBuffer s' = None"
    "client_report_end env h w s = (w', s') \<Longrightarrow> clRecvBuffer s' = None \<and> clSendBuffer s' = None"
    using assms(2,3)
    by (auto simp: retry_transaction_def client_report_end_def client_drop_transaction_def
        dest!: buffers split: option.splits prod.splits if_splits)
qed

text \<open>C28. Removal from the multiplexer leaves no transaction and no buffer behind, and the connection stays
  open, for the pool, only after a complete response that does not ask to close it.\<close>

theorem pooled_only_after_response:
  assumes "polite_client_handler h" "stays_closed env h op"
    and "client_inv s" "client_state s \<noteq> CLIENT_INACTIVE" "client_handleRemove env h w s = (w', s')"
  shows "client_state s' = CLIENT_INACTIVE \<and> clTransaction s' = None \<and> clRecvBuffer s' = None \<and>
    clSendBuffer s' = None \<and>
    (op w' \<longrightarrow> client_state s = CLIENT_TRANSACTION_END \<and> connection_reusable env s)"
proof -
  let ?s1 = "s\<lparr>clSendBuffer := None, clRecvBuffer := None\<rparr>"
  obtain w1 where r: "client_release_buffers env w s = (w1, ?s1)"
    by (simp add: client_release_buffers_def Let_def)
  obtain t where t: "clTransaction s = Some t"
    using client_inv_transaction [OF assms(3)] assms(4) by auto
  have keep: "connection_reusable env ?s1 \<longleftrightarrow> connection_reusable env s"
    by (simp add: connection_reusable_def)
  show ?thesis
  proof (cases "client_in s FIRST_USE_AFTER_REUSE \<and> \<not> client_in s CLIENT_ABORTED")
    case True
    then have e: "retry_transaction env h w1 ?s1 = (w', s')"
      using assms(5) r by (simp add: client_handleRemove_def)
    have "\<not> op w'"
      using e t assms(2)
      by (auto simp: retry_transaction_def client_drop_transaction_def stays_closed_def
          split: prod.splits if_splits option.splits) (metis fst_conv snd_conv)+
    then show ?thesis
      using client_removed(1) [OF assms(1) _ _ e] t by simp
  next
    case False
    let ?keep = "clState s AND CLIENT_STATE_MASK = CLIENT_TRANSACTION_END \<and> connection_reusable env s"
    obtain w2 s2 where e: "client_report_end env h w1 ?s1 = (w2, s2)"
      by (cases "client_report_end env h w1 ?s1")
    obtain w3 s3 where d: "client_drop_transaction env w2 s2 = (w3, s3)"
      by (cases "client_drop_transaction env w2 s2")
    have w': "w' = (if ?keep then w3 else sockClose env w3)" "s' = client_stateTransition CLIENT_INACTIVE s3"
      using assms(5) r e d False keep by (auto simp: client_handleRemove_def Let_def split: if_splits)
    have s3: "clTransaction s3 = None" "clRecvBuffer s3 = clRecvBuffer s2" "clSendBuffer s3 = clSendBuffer s2"
      using d by (auto simp: client_drop_transaction_def split: option.splits)
    have "op w' \<longrightarrow> ?keep"
      using w'(1) assms(2) by (auto simp: stays_closed_def)
    then show ?thesis
      using w'(2) s3 client_removed(2) [OF assms(1) _ _ e]
      by (simp flip: client_state_def)
  qed
qed

theorem pooled_only_after_response_witness:
  "let (w', s') = client_handleRemove (peer_env True) (peer_loadgen plain_params True)
      (fst (snd fetched)) (snd (snd fetched)) in
    client_state s' = CLIENT_INACTIVE \<and> clTransaction s' = None \<and> clRecvBuffer s' = None \<and>
    clSendBuffer s' = None \<and>
    (\<not> closed w' \<longrightarrow> client_state (snd (snd fetched)) = CLIENT_TRANSACTION_END \<and>
      connection_reusable (peer_env True) (snd (snd fetched)))"
proof -
  obtain w' s' where r: "client_handleRemove (peer_env True) (peer_loadgen plain_params True)
      (fst (snd fetched)) (snd (snd fetched)) = (w', s')"
    by (cases "client_handleRemove (peer_env True) (peer_loadgen plain_params True)
      (fst (snd fetched)) (snd (snd fetched))")
  have "closed w \<Longrightarrow> closed (fst (endClientTransaction (peer_loadgen plain_params True) st w s))" for st w s
    by (auto simp: loadgen_handler_def loadgen_endTransaction_def loadgen_next_def Let_def peer_env_def
        free_load_context_def set_load_context_def split: prod.splits option.splits)
  then have "stays_closed (peer_env True) (peer_loadgen plain_params True) (\<lambda>w. \<not> closed w)"
    by (simp add: stays_closed_def peer_env_def)
  moreover have "client_state (snd (snd fetched)) \<noteq> CLIENT_INACTIVE"
    unfolding fetched_def by code_simp
  moreover have "client_inv (snd (snd fetched))"
    using peer.connect_goes [OF fetched_run new_client_inv new_client_connecting] new_client_inv
    by (blast intro: goes_inv)
  ultimately show ?thesis
    using pooled_only_after_response [OF loadgen.polite_client_handler_axioms _ _ _ r] by (simp add: r)
qed

section \<open>A whole transaction\<close>

text \<open>The load generator fetches: the request goes out once, as its text, the body of the response is
  counted, the connection is kept, the buffers are returned, and the next transaction with the same
  request is started.\<close>

theorem load_generator_fetches:
  "case handleConnect (peer_env True) (peer_loadgen plain_params True) (peer_world [ok_response] [])
      (new_client_socket False (Some peer_transaction)) of
     None \<Rightarrow> False
   | Some (e, w, s) \<Rightarrow>
       e = ESB_SUCCESS \<and> client_in s CLIENT_TRANSACTION_END \<and>
       peer_taken w = asc ''GET / HTTP/1.1'' @ crlf @ asc ''Host: x'' @ crlf @ crlf \<and>
       load_context_at 8 w = Some \<lparr>loadSent = 0, loadReceived = 5\<rparr> \<and>
       (case client_handleRemove (peer_env True) (peer_loadgen plain_params True) w s of (w', s') \<Rightarrow>
          outcomes w' = [True] \<and> \<not> closed w' \<and> clientBuffersOut w' = 0 \<and> completedIterations w' = 1 \<and>
          map ctRequest (executed w') = [simple_request])"
  by code_simp

section \<open>Defects\<close>

text \<open>A flush that sent only a part counts as done: the socket awaits the response with octets of the
  request unsent, and no longer asks to write. Neither side can go on.\<close>

theorem partial_request_awaits_response:
  "case handleConnect (peer_env True) (peer_loadgen plain_params True) (peer_world [] [20, 0])
      (new_client_socket False (Some peer_transaction)) of
     None \<Rightarrow> False
   | Some (e, w, s) \<Rightarrow>
       e = ESB_AGAIN \<and> client_in s CLIENT_PARSING_HEADERS \<and> length (peer_taken w) = 20 \<and>
       (case clSendBuffer s of None \<Rightarrow> False | Some b \<Rightarrow> length (unread b) = 7) \<and>
       \<not> client_wantWrite (peer_env True) w s"
  by code_simp

text \<open>The retry hands the transaction over with its formatter where the stale connection left it, at
  the end of the headers: on the new connection the request cannot be formatted and the retry fails.\<close>

theorem retry_fails:
  "case client_handleWritable (peer_env True) (peer_loadgen plain_params True) (peer_world [] [0])
      (new_client_socket True (Some peer_transaction)) of
     None \<Rightarrow> False
   | Some (e, w, s) \<Rightarrow>
       (case executed (fst (client_handleRemove (peer_env True) (peer_loadgen plain_params True) w s)) of
          [t] \<Rightarrow>
            (case handleConnect (peer_env True) (peer_loadgen plain_params True) (peer_world [ok_response] [])
                (new_client_socket False (Some t)) of
               None \<Rightarrow> False
             | Some (e', w', s') \<Rightarrow> e' = ESB_INVALID_STATE \<and> peer_taken w' = [])
        | _ \<Rightarrow> False)"
  by code_simp

end
