(* ===== verification/EmbeddedList.thy ===== *)
theory EmbeddedList
  imports Prelude
begin

text \<open>
  \<open>ESB::EmbeddedList\<close> (base/source/ESBEmbeddedList.cpp): a doubly linked list whose links are members of
  its elements. Elements are addresses, 0 is NULL, and the links of all elements are one store, so that
  what an operation does to other lists is visible. \<open>linked\<close> says which sequence of elements a list
  holds; every operation refines the operation on that sequence.
\<close>

section \<open>The operations\<close>

record links =
  next_of :: "nat \<Rightarrow> nat"
  previous_of :: "nat \<Rightarrow> nat"

record embedded_list =
  list_head :: nat
  list_tail :: nat

definition set_next :: "nat \<Rightarrow> nat \<Rightarrow> links \<Rightarrow> links" where
  "set_next e n h = h\<lparr>next_of := (next_of h)(e := n)\<rparr>"

definition set_previous :: "nat \<Rightarrow> nat \<Rightarrow> links \<Rightarrow> links" where
  "set_previous e p h = h\<lparr>previous_of := (previous_of h)(e := p)\<rparr>"

definition new_embedded_list :: embedded_list where
  "new_embedded_list = \<lparr>list_head = 0, list_tail = 0\<rparr>"

definition list_isEmpty :: "embedded_list \<Rightarrow> bool" where
  "list_isEmpty l \<longleftrightarrow> list_head l = 0"

definition list_first :: "embedded_list \<Rightarrow> nat" where
  "list_first l = list_head l"

definition list_last :: "embedded_list \<Rightarrow> nat" where
  "list_last l = list_tail l"

definition list_remove :: "nat \<Rightarrow> links \<Rightarrow> embedded_list \<Rightarrow> links \<times> embedded_list" where
  "list_remove e h l =
     (if e = 0 \<or> list_head l = 0 \<or> list_tail l = 0 then (h, l)
      else
        let (h1, l1) =
              (if previous_of h e \<noteq> 0 then (set_next (previous_of h e) (next_of h e) h, l)
               else (if next_of h e \<noteq> 0 then set_previous (next_of h e) 0 h else h,
                     l\<lparr>list_head := next_of h e\<rparr>));
            (h2, l2) =
              (if next_of h1 e \<noteq> 0 then (set_previous (next_of h1 e) (previous_of h1 e) h1, l1)
               else (if previous_of h1 e \<noteq> 0 then set_next (previous_of h1 e) 0 h1 else h1,
                     l1\<lparr>list_tail := previous_of h1 e\<rparr>))
        in (set_previous e 0 (set_next e 0 h2), l2))"

definition list_removeFirst :: "links \<Rightarrow> embedded_list \<Rightarrow> nat \<times> links \<times> embedded_list" where
  "list_removeFirst h l = (list_head l, if list_head l \<noteq> 0 then list_remove (list_head l) h l else (h, l))"

definition list_removeLast :: "links \<Rightarrow> embedded_list \<Rightarrow> nat \<times> links \<times> embedded_list" where
  "list_removeLast h l = (list_tail l, if list_tail l \<noteq> 0 then list_remove (list_tail l) h l else (h, l))"

definition list_addFirst :: "nat \<Rightarrow> links \<Rightarrow> embedded_list \<Rightarrow> links \<times> embedded_list" where
  "list_addFirst e h l =
     (if list_head l = 0 then (set_previous e 0 (set_next e 0 h), \<lparr>list_head = e, list_tail = e\<rparr>)
      else
        (set_previous (list_head l) e (set_previous e 0 (set_next e (list_head l) h)), l\<lparr>list_head := e\<rparr>))"

definition list_addLast :: "nat \<Rightarrow> links \<Rightarrow> embedded_list \<Rightarrow> links \<times> embedded_list" where
  "list_addLast e h l =
     (if list_tail l = 0 then (set_previous e 0 (set_next e 0 h), \<lparr>list_head = e, list_tail = e\<rparr>)
      else
        (set_next (list_tail l) e (set_previous e (list_tail l) (set_next e 0 h)), l\<lparr>list_tail := e\<rparr>))"

text \<open>The loops follow \<open>next\<close> to its end, which a list with a cycle does not have: None.\<close>

partial_function (option) size_from :: "links \<Rightarrow> nat \<Rightarrow> int \<Rightarrow> int option" where
  "size_from h e n = (if e = 0 then Some n else size_from h (next_of h e) (n + 1))"

definition list_size :: "links \<Rightarrow> embedded_list \<Rightarrow> int option" where
  "list_size h l = size_from h (list_head l) 0"

partial_function (option) index_from :: "links \<Rightarrow> int \<Rightarrow> nat \<Rightarrow> int \<Rightarrow> nat option" where
  "index_from h idx e i =
     (if e = 0 then Some 0 else if i = idx then Some e else index_from h idx (next_of h e) (i + 1))"

definition list_index :: "links \<Rightarrow> embedded_list \<Rightarrow> int \<Rightarrow> nat option" where
  "list_index h l idx = index_from h idx (list_head l) 0"

definition valid_at :: "links \<Rightarrow> embedded_list \<Rightarrow> nat \<Rightarrow> bool" where
  "valid_at h l e \<longleftrightarrow>
     (if next_of h e \<noteq> 0 then previous_of h (next_of h e) = e else list_tail l = e) \<and>
     (if previous_of h e \<noteq> 0 then next_of h (previous_of h e) = e else list_head l = e)"

partial_function (option) validate_from :: "links \<Rightarrow> embedded_list \<Rightarrow> nat \<Rightarrow> bool option" where
  "validate_from h l e =
     (if e = 0 then Some True else if \<not> valid_at h l e then Some False else validate_from h l (next_of h e))"

definition list_validate :: "links \<Rightarrow> embedded_list \<Rightarrow> bool option" where
  "list_validate h l = validate_from h l (list_head l)"

text \<open>\<open>destroy\<close> is what the cleanup handler of an element does to the world, if it has one.\<close>

partial_function (option) list_clear ::
  "(nat \<Rightarrow> ('w \<Rightarrow> 'w) option) \<Rightarrow> links \<Rightarrow> embedded_list \<Rightarrow> 'w \<Rightarrow> (links \<times> embedded_list \<times> 'w) option" where
  "list_clear destroy h l w =
     (case list_removeFirst h l of (e, h1, l1) \<Rightarrow>
        if e = 0 then Some (h1, l1, w)
        else list_clear destroy h1 l1 (case destroy e of None \<Rightarrow> w | Some f \<Rightarrow> f w))"

declare size_from.simps [code] index_from.simps [code] validate_from.simps [code] list_clear.simps [code]

section \<open>What a list holds\<close>

text \<open>\<open>chain h p xs q\<close>: the elements \<open>xs\<close> are linked, \<open>p\<close> before the first and \<open>q\<close> behind the last.\<close>

fun chain :: "links \<Rightarrow> nat \<Rightarrow> nat list \<Rightarrow> nat \<Rightarrow> bool" where
  "chain h p [] q \<longleftrightarrow> True"
| "chain h p (x # xs) q \<longleftrightarrow>
     x \<noteq> 0 \<and> previous_of h x = p \<and> next_of h x = (case xs of [] \<Rightarrow> q | y # _ \<Rightarrow> y) \<and> chain h x xs q"

definition first_or :: "nat list \<Rightarrow> nat \<Rightarrow> nat" where
  "first_or xs q = (case xs of [] \<Rightarrow> q | x # _ \<Rightarrow> x)"

definition last_or :: "nat \<Rightarrow> nat list \<Rightarrow> nat" where
  "last_or p xs = (if xs = [] then p else last xs)"

definition linked :: "links \<Rightarrow> embedded_list \<Rightarrow> nat list \<Rightarrow> bool" where
  "linked h l xs \<longleftrightarrow> chain h 0 xs 0 \<and> distinct xs \<and> list_head l = first_or xs 0 \<and> list_tail l = last_or 0 xs"

lemma first_or_simps [simp]:
  "first_or [] q = q" "first_or (x # xs) q = x" "first_or (xs @ ys) q = first_or xs (first_or ys q)"
  by (cases xs; simp add: first_or_def)+

lemma last_or_simps [simp]:
  "last_or p [] = p" "last_or p (x # xs) = last_or x xs" "last_or p (xs @ ys) = last_or (last_or p xs) ys"
  by (cases ys; simp add: last_or_def)+

lemma chain_Cons [simp]:
  "chain h p (x # xs) q \<longleftrightarrow> x \<noteq> 0 \<and> previous_of h x = p \<and> next_of h x = first_or xs q \<and> chain h x xs q"
  by (simp add: first_or_def)

declare chain.simps(2) [simp del]

lemma chain_append: "chain h p (xs @ ys) q \<longleftrightarrow> chain h p xs (first_or ys q) \<and> chain h (last_or p xs) ys q"
  by (induction xs arbitrary: p) auto

lemma chain_nonzero: "chain h p xs q \<Longrightarrow> 0 \<notin> set xs"
  by (induction xs arbitrary: p) auto

lemma first_or_eq: "first_or xs 0 = 0 \<Longrightarrow> 0 \<notin> set xs \<Longrightarrow> xs = []"
  by (cases xs) auto

lemma last_or_in: "xs \<noteq> [] \<Longrightarrow> last_or p xs \<in> set xs"
  by (simp add: last_or_def)

lemma last_or_eq: "last_or 0 xs = 0 \<Longrightarrow> 0 \<notin> set xs \<Longrightarrow> xs = []"
  using last_or_in [of xs 0] by (cases xs) auto

text \<open>The links outside a chain do not matter to it.\<close>

lemma chain_frame:
  "(\<And>x. x \<in> set xs \<Longrightarrow> next_of h' x = next_of h x \<and> previous_of h' x = previous_of h x) \<Longrightarrow>
    chain h' p xs q \<longleftrightarrow> chain h p xs q"
  by (induction xs arbitrary: p) auto

lemma chain_set_other [simp]:
  "e \<notin> set xs \<Longrightarrow> chain (set_next e n h) p xs q \<longleftrightarrow> chain h p xs q"
  "e \<notin> set xs \<Longrightarrow> chain (set_previous e n h) p xs q \<longleftrightarrow> chain h p xs q"
  by (rule chain_frame; auto simp: set_next_def set_previous_def)+

lemma link_sel [simp]:
  "next_of (set_next e n h) x = (if x = e then n else next_of h x)"
  "previous_of (set_next e n h) x = previous_of h x"
  "previous_of (set_previous e n h) x = (if x = e then n else previous_of h x)"
  "next_of (set_previous e n h) x = next_of h x"
  by (simp_all add: set_next_def set_previous_def)

text \<open>Changing the link at one end of a chain.\<close>

lemma chain_new_successor:
  "distinct xs \<Longrightarrow> xs \<noteq> [] \<Longrightarrow> chain h p xs q \<Longrightarrow> chain (set_next (last_or p xs) r h) p xs r"
proof (induction xs arbitrary: p)
  case (Cons x xs)
  show ?case
  proof (cases xs)
    case Nil
    then show ?thesis using Cons.prems by simp
  next
    case (Cons y ys)
    then have "last_or x xs \<noteq> x"
      using last_or_in [of xs x] Cons.prems(1) by auto
    moreover have "chain (set_next (last_or x xs) r h) x xs r"
      using Cons.IH Cons.prems Cons by simp
    ultimately show ?thesis
      using Cons.prems Cons by simp
  qed
qed simp

lemma chain_new_predecessor:
  "distinct xs \<Longrightarrow> xs \<noteq> [] \<Longrightarrow> chain h p xs q \<Longrightarrow> chain (set_previous (first_or xs q) r h) r xs q"
  by (cases xs) auto

section \<open>The operations refine those on sequences\<close>

lemma linked_nonzero: "linked h l xs \<Longrightarrow> 0 \<notin> set xs"
  by (auto simp: linked_def dest: chain_nonzero)

lemma new_list_linked: "linked h new_embedded_list []"
  by (simp add: linked_def new_embedded_list_def)

lemma isEmpty_linked: "linked h l xs \<Longrightarrow> list_isEmpty l \<longleftrightarrow> xs = []"
  using linked_nonzero [of h l xs] by (auto simp: linked_def list_isEmpty_def dest: first_or_eq)

lemma addLast_linked:
  assumes "linked h l xs" "e \<noteq> 0" "e \<notin> set xs" "list_addLast e h l = (h', l')"
  shows "linked h' l' (xs @ [e])"
proof (cases "xs = []")
  case True
  then show ?thesis
    using assms by (auto simp: linked_def list_addLast_def)
next
  case False
  let ?h = "set_previous e (last_or 0 xs) (set_next e 0 h)"
  have xs: "chain h 0 xs 0" "distinct xs" "list_tail l = last_or 0 xs" "last_or 0 xs \<in> set xs"
    using assms(1) last_or_in [OF False] by (simp_all add: linked_def)
  then have "list_tail l \<noteq> 0"
    using linked_nonzero [OF assms(1)] by metis
  moreover have "chain (set_next (last_or 0 xs) e ?h) 0 xs e"
    using xs assms(3) False by (intro chain_new_successor) auto
  moreover have "last_or 0 xs \<noteq> e" "first_or xs 0 = first_or xs e"
    using xs(4) assms(3) False by (auto simp: first_or_def split: list.split)
  ultimately show ?thesis
    using assms xs by (auto simp: linked_def list_addLast_def chain_append)
qed

lemma addFirst_linked:
  assumes "linked h l xs" "e \<noteq> 0" "e \<notin> set xs" "list_addFirst e h l = (h', l')"
  shows "linked h' l' (e # xs)"
proof (cases xs)
  case Nil
  then show ?thesis
    using assms by (auto simp: linked_def list_addFirst_def)
next
  case (Cons y ys)
  have "y \<noteq> 0" "y \<noteq> e"
    using Cons linked_nonzero [OF assms(1)] assms(3) by auto
  then show ?thesis
    using assms Cons by (auto simp: linked_def list_addFirst_def)
qed

lemma list_remove_eq:
  assumes "e \<noteq> 0" "list_head l \<noteq> 0" "list_tail l \<noteq> 0" "previous_of h e = p" "next_of h e = n" "p \<noteq> e" "n \<noteq> e"
  shows "list_remove e h l =
    (set_previous e 0 (set_next e 0
       (if n \<noteq> 0 then set_previous n p (if p \<noteq> 0 then set_next p n h else set_previous n 0 h)
        else if p \<noteq> 0 then set_next p 0 (set_next p n h) else h)),
     \<lparr>list_head = if p \<noteq> 0 then list_head l else n, list_tail = if n \<noteq> 0 then list_tail l else p\<rparr>)"
  using assms by (cases "p = 0"; cases "n = 0"; cases l) (simp_all add: list_remove_def)

lemma remove_linked:
  assumes "linked h l (us @ e # vs)" "list_remove e h l = (h', l')"
  shows "linked h' l' (us @ vs)" "next_of h' e = 0" "previous_of h' e = 0"
    "x \<notin> set (us @ e # vs) \<Longrightarrow> next_of h' x = next_of h x \<and> previous_of h' x = previous_of h x"
proof -
  obtain p n where pn: "p = last_or 0 us" "n = first_or vs 0"
    by blast
  have c: "chain h 0 us e" "previous_of h e = p" "next_of h e = n" "chain h e vs 0" "e \<noteq> 0"
    and d: "distinct us" "distinct vs" "e \<notin> set us" "e \<notin> set vs" "set us \<inter> set vs = {}"
    and l: "list_head l = first_or us e" "list_tail l = last_or e vs"
    using assms(1) pn by (auto simp: linked_def chain_append)
  have z: "0 \<notin> set us" "0 \<notin> set vs"
    using linked_nonzero [OF assms(1)] by auto
  have p: "p \<in> set us \<or> us = [] \<and> p = 0" and n: "n \<in> set vs \<or> vs = [] \<and> n = 0"
    using pn last_or_in [of us 0] by (metis last_or_simps(1)) (cases vs; simp add: pn)
  have "last_or e vs \<in> set (e # vs)" "first_or us e \<in> set (e # us)"
    using last_or_in [of vs e] by (cases "vs = []"; simp) (cases us; simp)
  then have ht: "list_head l \<noteq> 0" "list_tail l \<noteq> 0"
    unfolding l using c(5) z by (metis set_ConsD)+
  have "p \<noteq> e" "n \<noteq> e" and other: "n \<notin> set us" "p \<notin> set vs"
    using p n d(3,4,5) c(5) z by (metis disjoint_iff)+
  note r = list_remove_eq [OF c(5) ht c(2,3) this(1,2), unfolded assms(2)]
  have us: "p \<in> set us \<Longrightarrow> chain (set_next p m h1) 0 us m" if "chain h1 0 us k" for h1 k m
    using chain_new_successor [OF d(1) _ that] pn by (cases "us = []") simp_all
  have vs: "n \<in> set vs \<Longrightarrow> chain (set_previous n m h1) m vs 0" if "chain h1 k vs 0" for h1 k m
    using chain_new_predecessor [OF d(2) _ that] pn by (cases "vs = []") simp_all
  let ?h = "if n \<noteq> 0 then set_previous n p (if p \<noteq> 0 then set_next p n h else set_previous n 0 h)
    else if p \<noteq> 0 then set_next p 0 (set_next p n h) else h"
  have h': "h' = set_previous e 0 (set_next e 0 ?h)"
    using r by simp
  have "chain ?h 0 us n"
    using p n z other us [OF c(1)] us [OF us [OF c(1)]] by (elim disjE) auto
  moreover have "chain ?h p vs 0"
    using p n z other vs [OF c(4)] vs [of "set_next p n h" e] vs [OF vs [OF c(4)]] c(4) by (elim disjE) auto
  ultimately have "chain h' 0 us n" "chain h' p vs 0"
    unfolding h' using d(3,4) by simp_all
  moreover have "list_head l' = first_or us n"
    using r p n z l pn by (cases us) force+
  moreover have "list_tail l' = last_or p vs"
    using r n z l pn by (cases vs) auto
  ultimately show "linked h' l' (us @ vs)"
    using d by (simp add: linked_def chain_append pn)
  show "next_of h' e = 0" "previous_of h' e = 0"
    by (simp_all add: h')
  show "x \<notin> set (us @ e # vs) \<Longrightarrow> next_of h' x = next_of h x \<and> previous_of h' x = previous_of h x"
    unfolding h' using p n by auto
qed

lemma add_frame:
  assumes "linked h l xs" "x \<notin> set xs" "x \<noteq> e" "x \<noteq> 0"
  shows "list_addFirst e h l = (h', l') \<Longrightarrow> next_of h' x = next_of h x \<and> previous_of h' x = previous_of h x"
    "list_addLast e h l = (h', l') \<Longrightarrow> next_of h' x = next_of h x \<and> previous_of h' x = previous_of h x"
proof -
  have "x \<noteq> list_head l" "x \<noteq> list_tail l"
    using assms last_or_in [of xs 0] by (cases "xs = []"; cases xs; auto simp: linked_def)+
  then show "list_addFirst e h l = (h', l') \<Longrightarrow> next_of h' x = next_of h x \<and> previous_of h' x = previous_of h x"
    "list_addLast e h l = (h', l') \<Longrightarrow> next_of h' x = next_of h x \<and> previous_of h' x = previous_of h x"
    using assms(3) by (auto simp: list_addFirst_def list_addLast_def split: if_splits)
qed

text \<open>The loops.\<close>

lemma size_from_chain: "chain h p xs 0 \<Longrightarrow> size_from h (first_or xs 0) n = Some (n + int (length xs))"
  by (induction xs arbitrary: p n; subst size_from.simps) (auto simp: algebra_simps)

lemma index_from_chain:
  "chain h p xs 0 \<Longrightarrow> index_from h idx (first_or xs 0) i =
    Some (if i \<le> idx \<and> nat (idx - i) < length xs then xs ! nat (idx - i) else 0)"
proof (induction xs arbitrary: p i)
  case Nil
  then show ?case
    by (subst index_from.simps) simp
next
  case (Cons x xs)
  have "nat (idx - i) = Suc (nat (idx - (i + 1)))" if "i < idx"
    using that by linarith
  then show ?case
    using Cons by (subst index_from.simps) auto
qed

lemma validate_from_chain:
  assumes "chain h p xs 0" "list_tail l = last_or p xs"
    and "p \<noteq> 0 \<Longrightarrow> xs \<noteq> [] \<Longrightarrow> next_of h p = first_or xs 0" "p = 0 \<Longrightarrow> list_head l = first_or xs 0"
  shows "validate_from h l (first_or xs 0) = Some True"
  using assms
proof (induction xs arbitrary: p)
  case Nil
  then show ?case
    by (subst validate_from.simps) simp
next
  case (Cons x xs)
  have "valid_at h l x"
    using Cons.prems by (cases xs) (auto simp: valid_at_def)
  moreover have "validate_from h l (first_or xs 0) = Some True"
    using Cons.prems by (intro Cons.IH [of x]) auto
  ultimately show ?case
    using Cons.prems by (subst validate_from.simps) simp
qed

lemma list_reads_linked:
  assumes "linked h l xs"
  shows "list_size h l = Some (int (length xs))"
    "list_index h l idx = Some (if 0 \<le> idx \<and> nat idx < length xs then xs ! nat idx else 0)"
    "list_validate h l = Some True"
  using assms size_from_chain [of h 0 xs 0] index_from_chain [of h 0 xs idx 0] validate_from_chain [of h 0 xs l]
  by (simp_all add: linked_def list_size_def list_index_def list_validate_def)

lemma removeFirst_linked:
  assumes "linked h l (e # xs)" "list_removeFirst h l = (e', h', l')"
  shows "e' = e" "linked h' l' xs"
  using assms remove_linked(1) [of h l "[]" e xs h' l']
  by (auto simp: list_removeFirst_def linked_def)

lemma list_clear_linked:
  "linked h l xs \<Longrightarrow> \<exists>h' l'. list_clear destroy h l w =
      Some (h', l', fold (\<lambda>e w. case destroy e of None \<Rightarrow> w | Some f \<Rightarrow> f w) xs w) \<and> linked h' l' []"
proof (induction xs arbitrary: h l w)
  case Nil
  then show ?case
    by (subst list_clear.simps) (simp add: list_removeFirst_def linked_def)
next
  case (Cons e xs)
  obtain h1 l1 where r: "list_removeFirst h l = (e, h1, l1)" "linked h1 l1 xs"
    using removeFirst_linked [OF Cons.prems] by (cases "list_removeFirst h l") auto
  have "e \<noteq> 0"
    using linked_nonzero [OF Cons.prems] by auto
  then show ?case
    using r Cons.IH [OF r(2)] by (subst list_clear.simps) simp
qed

section \<open>Several lists over one store\<close>

datatype list_call =
  AddFirst nat nat | AddLast nat nat | Remove nat nat | RemoveFirst nat | RemoveLast nat

text \<open>A call names a list by its index. The result is the element removed, or 0.\<close>

definition on_list ::
  "nat \<Rightarrow> (links \<Rightarrow> embedded_list \<Rightarrow> nat \<times> links \<times> embedded_list) \<Rightarrow> links \<times> embedded_list list
    \<Rightarrow> nat \<times> links \<times> embedded_list list" where
  "on_list i f st =
     (case st of (h, ls) \<Rightarrow> case f h (ls ! i) of (r, h1, l) \<Rightarrow> (r, h1, ls[i := l]))"

fun apply_list_call :: "list_call \<Rightarrow> links \<times> embedded_list list \<Rightarrow> nat \<times> links \<times> embedded_list list" where
  "apply_list_call (AddFirst i e) = on_list i (\<lambda>h l. (0, list_addFirst e h l))"
| "apply_list_call (AddLast i e) = on_list i (\<lambda>h l. (0, list_addLast e h l))"
| "apply_list_call (Remove i e) = on_list i (\<lambda>h l. (0, list_remove e h l))"
| "apply_list_call (RemoveFirst i) = on_list i list_removeFirst"
| "apply_list_call (RemoveLast i) = on_list i list_removeLast"

fun list_call_spec :: "list_call \<Rightarrow> nat list list \<Rightarrow> nat \<times> nat list list" where
  "list_call_spec (AddFirst i e) xss = (0, xss[i := e # xss ! i])"
| "list_call_spec (AddLast i e) xss = (0, xss[i := xss ! i @ [e]])"
| "list_call_spec (Remove i e) xss = (0, xss[i := remove1 e (xss ! i)])"
| "list_call_spec (RemoveFirst i) xss = (first_or (xss ! i) 0, xss[i := tl (xss ! i)])"
| "list_call_spec (RemoveLast i) xss = (last_or 0 (xss ! i), xss[i := butlast (xss ! i)])"

text \<open>An element may be added to a list if it is in none, and removed from the list it is in.\<close>

fun legal_list_call :: "list_call \<Rightarrow> nat list list \<Rightarrow> bool" where
  "legal_list_call (AddFirst i e) xss \<longleftrightarrow> i < length xss \<and> e \<noteq> 0 \<and> (\<forall>xs \<in> set xss. e \<notin> set xs)"
| "legal_list_call (AddLast i e) xss \<longleftrightarrow> i < length xss \<and> e \<noteq> 0 \<and> (\<forall>xs \<in> set xss. e \<notin> set xs)"
| "legal_list_call (Remove i e) xss \<longleftrightarrow> i < length xss \<and> e \<in> set (xss ! i)"
| "legal_list_call (RemoveFirst i) xss \<longleftrightarrow> i < length xss"
| "legal_list_call (RemoveLast i) xss \<longleftrightarrow> i < length xss"

definition apart :: "nat list list \<Rightarrow> bool" where
  "apart xss \<longleftrightarrow> (\<forall>i < length xss. \<forall>j < length xss. i \<noteq> j \<longrightarrow> set (xss ! i) \<inter> set (xss ! j) = {})"

definition lists_linked :: "links \<times> embedded_list list \<Rightarrow> nat list list \<Rightarrow> bool" where
  "lists_linked st xss \<longleftrightarrow> length (snd st) = length xss \<and> apart xss \<and>
     (\<forall>i < length xss. linked (fst st) (snd st ! i) (xss ! i))"

text \<open>\<open>local_change h h' xs\<close>: only links of \<open>xs\<close> have changed.\<close>

definition local_change :: "links \<Rightarrow> links \<Rightarrow> nat set \<Rightarrow> bool" where
  "local_change h h' A \<longleftrightarrow>
     (\<forall>x. x \<notin> A \<and> x \<noteq> 0 \<longrightarrow> next_of h' x = next_of h x \<and> previous_of h' x = previous_of h x)"

lemma linked_frame:
  assumes "linked h l xs" "local_change h h' A" "A \<inter> set xs = {}"
  shows "linked h' l xs"
proof -
  have "next_of h' x = next_of h x \<and> previous_of h' x = previous_of h x" if "x \<in> set xs" for x
    using assms that linked_nonzero [OF assms(1)] unfolding local_change_def by (metis disjoint_iff)
  then show ?thesis
    using chain_frame [of xs h' h 0 0] assms(1) by (simp add: linked_def)
qed

lemma on_list_linked:
  assumes "lists_linked (h, ls) xss" "i < length xss" "f h (ls ! i) = (r, h', l')"
    and "linked h' l' ys" "local_change h h' A" "A \<subseteq> set (xss ! i) \<union> set ys"
    and "\<And>j. j < length xss \<Longrightarrow> j \<noteq> i \<Longrightarrow> set ys \<inter> set (xss ! j) = {}"
  shows "lists_linked (snd (on_list i f (h, ls))) (xss[i := ys])"
proof -
  have len: "length ls = length xss" and ap: "apart xss"
    and l: "linked h (ls ! j) (xss ! j)" if "j < length xss" for j
    using assms(1) that by (auto simp: lists_linked_def)
  have "linked h' (ls ! j) (xss ! j)" if "j < length xss" "j \<noteq> i" for j
  proof (rule linked_frame [OF l [OF that(1)] assms(5)])
    have "set (xss ! i) \<inter> set (xss ! j) = {}"
      using ap assms(2) that by (auto simp: apart_def)
    then show "A \<inter> set (xss ! j) = {}"
      using assms(6,7) that by blast
  qed
  moreover have "apart (xss[i := ys])"
    unfolding apart_def
  proof (intro allI impI)
    fix j k
    assume jk: "j < length (xss[i := ys])" "k < length (xss[i := ys])" "j \<noteq> k"
    show "set (xss[i := ys] ! j) \<inter> set (xss[i := ys] ! k) = {}"
      using jk assms(2,7) ap by (cases "j = i"; cases "k = i") (simp_all add: apart_def Int_commute)
  qed
  ultimately show ?thesis
    using assms(2-4) len by (auto simp: lists_linked_def on_list_def nth_list_update)
qed

lemma local_change_remove:
  assumes "linked h l (us @ e # vs)" "list_remove e h l = (h', l')"
  shows "local_change h h' (set (us @ e # vs))"
  using remove_linked(4) [OF assms] by (auto simp: local_change_def)

lemma local_change_add:
  assumes "linked h l xs"
  shows "list_addFirst e h l = (h', l') \<Longrightarrow> local_change h h' (insert e (set xs))"
    "list_addLast e h l = (h', l') \<Longrightarrow> local_change h h' (insert e (set xs))"
  using add_frame [OF assms] by (auto simp: local_change_def)

lemma apart_other:
  "apart xss \<Longrightarrow> i < length xss \<Longrightarrow> j < length xss \<Longrightarrow> j \<noteq> i \<Longrightarrow> set (xss ! i) \<inter> set (xss ! j) = {}"
  by (auto simp: apart_def)

lemma apply_list_call_refines:
  assumes "lists_linked st xss" "legal_list_call c xss"
  shows "fst (apply_list_call c st) = fst (list_call_spec c xss) \<and>
    lists_linked (snd (apply_list_call c st)) (snd (list_call_spec c xss))"
proof -
  obtain h ls where st: "st = (h, ls)"
    by (cases st)
  define i where "i = (case c of AddFirst i _ \<Rightarrow> i | AddLast i _ \<Rightarrow> i | Remove i _ \<Rightarrow> i | RemoveFirst i \<Rightarrow> i | RemoveLast i \<Rightarrow> i)"
  have i: "i < length xss"
    using assms(2) by (cases c) (auto simp: i_def)
  then have l: "linked h (ls ! i) (xss ! i)" and ap: "apart xss"
    using assms(1) by (auto simp: lists_linked_def st)
  note lk = assms(1) [unfolded st]
  have other: "set (xss ! i) \<inter> set (xss ! j) = {}" if "j < length xss" "j \<noteq> i" for j
    using apart_other [OF ap i] that by blast
  have del: "lists_linked (snd (on_list i f (h, ls))) (xss[i := us @ vs])"
    if "xss ! i = us @ e # vs" "f h (ls ! i) = (r, list_remove e h (ls ! i))" for f r us e vs
  proof -
    obtain h' l' where r: "list_remove e h (ls ! i) = (h', l')"
      by (cases "list_remove e h (ls ! i)")
    have l0: "linked h (ls ! i) (us @ e # vs)"
      using l that(1) by simp
    show ?thesis
      using that r remove_linked(1) [OF l0 r] local_change_remove [OF l0 r] other
      by (intro on_list_linked [OF lk i, where h' = h' and l' = l' and r = r and A = "set (us @ e # vs)"])
         (auto simp: that(1))
  qed
  show ?thesis
  proof (cases c)
    case (AddFirst j e)
    obtain h' l' where r: "list_addFirst e h (ls ! i) = (h', l')"
      by (cases "list_addFirst e h (ls ! i)")
    have e: "e \<noteq> 0" "e \<notin> set (xss ! j)" if "j < length xss" for j
      using assms(2) AddFirst that by auto
    show ?thesis
      using AddFirst r i other e addFirst_linked [OF l e [OF i] r] local_change_add(1) [OF l r]
        on_list_linked [OF lk i, of "\<lambda>h l. (0, list_addFirst e h l)" 0 h' l' "e # xss ! i" "insert e (set (xss ! i))"]
      by (auto simp: st i_def on_list_def split: prod.splits)
  next
    case (AddLast j e)
    obtain h' l' where r: "list_addLast e h (ls ! i) = (h', l')"
      by (cases "list_addLast e h (ls ! i)")
    have e: "e \<noteq> 0" "e \<notin> set (xss ! j)" if "j < length xss" for j
      using assms(2) AddLast that by auto
    show ?thesis
      using AddLast r i other e addLast_linked [OF l e [OF i] r] local_change_add(2) [OF l r]
        on_list_linked [OF lk i, of "\<lambda>h l. (0, list_addLast e h l)" 0 h' l' "xss ! i @ [e]" "insert e (set (xss ! i))"]
      by (auto simp: st i_def on_list_def split: prod.splits)
  next
    case (Remove j e)
    then obtain us vs where x: "xss ! i = us @ e # vs"
      using assms(2) by (auto simp: i_def in_set_conv_decomp)
    have "e \<notin> set us"
      using l x by (auto simp: linked_def)
    then show ?thesis
      using del [OF x, of "\<lambda>h l. (0, list_remove e h l)" 0] Remove x
      by (simp add: st i_def remove1_append on_list_def split: prod.splits)
  next
    case (RemoveFirst j)
    show ?thesis
    proof (cases "xss ! i")
      case Nil
      then have "xss[i := []] = xss"
        using list_update_id [of xss i] by simp
      then show ?thesis
        using Nil RemoveFirst l lk by (simp add: st i_def on_list_def list_removeFirst_def linked_def)
    next
      case (Cons e xs)
      then have "list_head (ls ! i) = e" "e \<noteq> 0"
        using l by (auto simp: linked_def)
      then show ?thesis
        using del [of "[]" e xs list_removeFirst e] Cons RemoveFirst
        by (simp add: st i_def list_removeFirst_def on_list_def split: prod.splits)
    qed
  next
    case (RemoveLast j)
    show ?thesis
    proof (cases "xss ! i" rule: rev_cases)
      case Nil
      then have "xss[i := []] = xss"
        using list_update_id [of xss i] by simp
      then show ?thesis
        using Nil RemoveLast l lk by (simp add: st i_def on_list_def list_removeLast_def linked_def)
    next
      case (snoc xs e)
      then have "list_tail (ls ! i) = e" "e \<noteq> 0"
        using l linked_nonzero [OF l] by (auto simp: linked_def)
      then show ?thesis
        using del [of xs e "[]" list_removeLast e] snoc RemoveLast
        by (simp add: st i_def list_removeLast_def on_list_def split: prod.splits)
    qed
  qed
qed

end
