(* ===== verification/Dates.thy ===== *)
theory Dates
  imports Prelude
begin

text \<open>
  \<open>ESB::Date\<close> (base/include/ESBDate.h): seconds and microseconds in 32-bit words, with wrapping
  arithmetic. A date is normal when its microseconds are below a million; \<open>micros\<close> is its value.
\<close>

record date =
  seconds :: u32
  microSeconds :: u32

definition setSeconds :: "u32 \<Rightarrow> date \<Rightarrow> date" where
  "setSeconds n d = d\<lparr>seconds := n\<rparr>"

definition setMicroSeconds :: "u32 \<Rightarrow> date \<Rightarrow> date" where
  "setMicroSeconds n d = d\<lparr>seconds := seconds d + n div 1000000, microSeconds := n mod 1000000\<rparr>"

definition date_assign_seconds :: "u32 \<Rightarrow> date \<Rightarrow> date" where
  "date_assign_seconds n d = d\<lparr>seconds := n, microSeconds := 0\<rparr>"

definition date_plus :: "date \<Rightarrow> date \<Rightarrow> date" where
  "date_plus a b =
     \<lparr>seconds = seconds a + seconds b + (microSeconds a + microSeconds b) div 1000000,
      microSeconds = (microSeconds a + microSeconds b) mod 1000000\<rparr>"

definition date_minus :: "date \<Rightarrow> date \<Rightarrow> date" where
  "date_minus a b =
     (let borrow = microSeconds b > microSeconds a;
          s = (if borrow then seconds a - 1 else seconds a);
          us = (if borrow then microSeconds a + 1000 * 1000 else microSeconds a)
      in \<lparr>seconds = s - seconds b, microSeconds = us - microSeconds b\<rparr>)"

definition date_plus_seconds :: "date \<Rightarrow> u32 \<Rightarrow> date" where
  "date_plus_seconds a n = a\<lparr>seconds := seconds a + n\<rparr>"

definition date_minus_seconds :: "date \<Rightarrow> u32 \<Rightarrow> date" where
  "date_minus_seconds a n = a\<lparr>seconds := seconds a - n\<rparr>"

definition date_less :: "date \<Rightarrow> date \<Rightarrow> bool" where
  "date_less a b \<longleftrightarrow>
     (if seconds a < seconds b then True
      else if seconds a > seconds b then False
      else microSeconds a < microSeconds b)"

definition date_less_eq :: "date \<Rightarrow> date \<Rightarrow> bool" where
  "date_less_eq a b \<longleftrightarrow>
     (if seconds a < seconds b then True
      else if seconds a > seconds b then False
      else microSeconds a \<le> microSeconds b)"

definition date_greater :: "date \<Rightarrow> date \<Rightarrow> bool" where
  "date_greater a b \<longleftrightarrow>
     (if seconds a > seconds b then True
      else if seconds a < seconds b then False
      else microSeconds a > microSeconds b)"

definition date_greater_eq :: "date \<Rightarrow> date \<Rightarrow> bool" where
  "date_greater_eq a b \<longleftrightarrow>
     (if seconds a > seconds b then True
      else if seconds a < seconds b then False
      else microSeconds a \<ge> microSeconds b)"

definition date_equal :: "date \<Rightarrow> date \<Rightarrow> bool" where
  "date_equal a b \<longleftrightarrow> (if seconds a \<noteq> seconds b then False else microSeconds a = microSeconds b)"

definition date_unequal :: "date \<Rightarrow> date \<Rightarrow> bool" where
  "date_unequal a b \<longleftrightarrow> (if seconds a \<noteq> seconds b then True else microSeconds a \<noteq> microSeconds b)"

section \<open>Values\<close>

definition normal :: "date \<Rightarrow> bool" where
  "normal d \<longleftrightarrow> microSeconds d < 1000000"

definition micros :: "date \<Rightarrow> nat" where
  "micros d = unat (seconds d) * 1000000 + unat (microSeconds d)"

lemma normal_nat: "normal d \<longleftrightarrow> unat (microSeconds d) < 1000000"
  by (simp add: normal_def word_less_nat_alt)

lemma setMicroSeconds_normal: "normal (setMicroSeconds n d)"
  by (simp add: normal_nat setMicroSeconds_def unat_mod)

text \<open>The orders are those of the values, and the six operators agree.\<close>

lemma micros_less_iff:
  assumes "normal a" "normal b"
  shows "micros a < micros b \<longleftrightarrow> seconds a < seconds b \<or> seconds a = seconds b \<and> microSeconds a < microSeconds b"
  using assms
  by (auto simp: micros_def normal_nat word_less_nat_alt word_unat_eq_iff)

lemma micros_eq_iff:
  assumes "normal a" "normal b"
  shows "micros a = micros b \<longleftrightarrow> seconds a = seconds b \<and> microSeconds a = microSeconds b"
proof -
  have "unat (microSeconds d) = micros d mod 1000000" "unat (seconds d) = micros d div 1000000"
    if "normal d" for d
    using that by (simp_all add: micros_def normal_nat)
  then show ?thesis
    using assms by (metis word_unat_eq_iff micros_def)
qed

lemma date_less_micros: "normal a \<Longrightarrow> normal b \<Longrightarrow> date_less a b \<longleftrightarrow> micros a < micros b"
  by (auto simp: micros_less_iff date_less_def)

lemma date_equal_micros: "normal a \<Longrightarrow> normal b \<Longrightarrow> date_equal a b \<longleftrightarrow> micros a = micros b"
  by (simp add: micros_eq_iff date_equal_def)

lemma date_orders:
  "date_greater a b \<longleftrightarrow> date_less b a" "date_less_eq a b \<longleftrightarrow> date_less a b \<or> date_equal a b"
  "date_greater_eq a b \<longleftrightarrow> date_less_eq b a" "date_unequal a b \<longleftrightarrow> \<not> date_equal a b"
  by (auto simp: date_less_def date_less_eq_def date_greater_def date_greater_eq_def date_equal_def date_unequal_def)

lemma plus_normal:
  assumes "normal a" "normal b"
  shows "normal (date_plus a b)"
  by (simp add: normal_nat date_plus_def unat_mod)

lemma minus_normal:
  assumes "normal a" "normal b"
  shows "normal (date_minus a b)"
proof (cases "microSeconds b > microSeconds a")
  case True
  have "unat (microSeconds a + 1000000 - microSeconds b) = unat (microSeconds a) + 1000000 - unat (microSeconds b)"
    using assms by (simp add: normal_nat unat_word_ariths unat_sub_if_size word_size mod_add_left_eq)
  then show ?thesis
    using True assms by (simp add: normal_nat date_minus_def word_less_nat_alt)
next
  case False
  then show ?thesis
    using assms by (simp add: normal_nat date_minus_def word_less_nat_alt unat_sub word_le_nat_alt)
qed

text \<open>Subtraction undoes addition, also where the seconds wrap.\<close>

lemma carry:
  assumes "normal a" "normal b"
  shows "if unat (microSeconds a) + unat (microSeconds b) < 1000000
    then (microSeconds a + microSeconds b) div 1000000 = 0 \<and>
      (microSeconds a + microSeconds b) mod 1000000 = microSeconds a + microSeconds b \<and>
      microSeconds b \<le> microSeconds a + microSeconds b
    else (microSeconds a + microSeconds b) div 1000000 = 1 \<and>
      (microSeconds a + microSeconds b) mod 1000000 = microSeconds a + microSeconds b - 1000000 \<and>
      microSeconds a + microSeconds b - 1000000 < microSeconds b"
proof -
  let ?x = "microSeconds a" and ?y = "microSeconds b"
  have xy: "unat ?x < 1000000" "unat ?y < 1000000"
    using assms by (simp_all add: normal_nat)
  then have add: "unat (?x + ?y) = unat ?x + unat ?y"
    by (simp add: unat_word_ariths)
  show ?thesis
  proof (cases "unat ?x + unat ?y < 1000000")
    case True
    then show ?thesis
      using add by (simp add: word_unat_eq_iff unat_div unat_mod word_le_nat_alt)
  next
    case False
    then have "unat (?x + ?y - 1000000) = unat ?x + unat ?y - 1000000"
      using add by (simp add: unat_sub word_le_nat_alt)
    moreover have "(unat ?x + unat ?y) div 1000000 = 1" "(unat ?x + unat ?y) mod 1000000 = unat ?x + unat ?y - 1000000"
      using False xy by (simp_all add: div_nat_eqI mod_nat_eqI)
    ultimately show ?thesis
      using add False xy by (simp add: word_unat_eq_iff unat_div unat_mod word_less_nat_alt)
  qed
qed

lemma minus_plus:
  assumes "normal a" "normal b"
  shows "date_minus (date_plus a b) b = a"
  using carry [OF assms]
  by (cases a) (auto simp: date_minus_def date_plus_def Let_def split: if_splits)

lemma micros_minus:
  assumes "normal a" "normal b" "micros b \<le> micros a"
  shows "micros (date_minus a b) = micros a - micros b"
proof (cases "microSeconds b > microSeconds a")
  case True
  have s: "unat (seconds b) < unat (seconds a)"
    using assms True by (auto simp: micros_def normal_nat word_less_nat_alt)
  then have "unat (seconds a - 1 - seconds b) = unat (seconds a) - 1 - unat (seconds b)"
    by (simp add: unat_sub_if_size word_size)
  moreover have "unat (microSeconds a + 1000000 - microSeconds b) = unat (microSeconds a) + 1000000 - unat (microSeconds b)"
    using assms by (simp add: normal_nat unat_word_ariths unat_sub_if_size word_size mod_add_left_eq)
  ultimately show ?thesis
    using True s assms by (simp add: micros_def date_minus_def normal_nat algebra_simps)
next
  case False
  have s: "unat (seconds b) \<le> unat (seconds a)"
    using assms False by (auto simp: micros_def normal_nat word_less_nat_alt)
  moreover have "unat (microSeconds a - microSeconds b) = unat (microSeconds a) - unat (microSeconds b)"
      "unat (microSeconds b) \<le> unat (microSeconds a)"
    using False by (simp_all add: unat_sub not_less word_le_nat_alt)
  moreover have "unat (seconds a - seconds b) = unat (seconds a) - unat (seconds b)"
    using s by (simp add: unat_sub word_le_nat_alt)
  ultimately show ?thesis
    using False by (simp add: micros_def date_minus_def diff_mult_distrib)
qed

lemma micros_plus:
  assumes "normal a" "normal b" "micros a + micros b < 2 ^ 32 * 1000000"
  shows "micros (date_plus a b) = micros a + micros b"
proof -
  let ?x = "unat (microSeconds a) + unat (microSeconds b)" and ?s = "unat (seconds a) + unat (seconds b)"
  have xy: "unat (microSeconds a) < 1000000" "unat (microSeconds b) < 1000000"
    using assms by (simp_all add: normal_nat)
  then have u: "unat (microSeconds a + microSeconds b) = ?x"
    by (simp add: unat_word_ariths)
  have div: "?s * 1000000 + ?x = (?s + ?x div 1000000) * 1000000 + ?x mod 1000000"
    by simp
  have "?s * 1000000 + ?x < 2 ^ 32 * 1000000"
    using assms(3) by (simp add: micros_def)
  then have "?s + ?x div 1000000 < 2 ^ 32"
    unfolding div by simp
  then have "unat (seconds (date_plus a b)) = ?s + ?x div 1000000"
    using u by (simp add: date_plus_def unat_word_ariths unat_div mod_simps)
  moreover have "unat (microSeconds (date_plus a b)) = ?x mod 1000000"
    using u by (simp add: date_plus_def unat_mod)
  ultimately have "micros (date_plus a b) = ?s * 1000000 + ?x"
    unfolding div by (simp add: micros_def)
  then show ?thesis
    by (simp add: micros_def)
qed

end
