(* ===== verification/TimingWheel.thy ===== *)
theory TimingWheel
  imports Dates
begin

text \<open>
  \<open>ESB::FlatTimingWheel\<close> (base/source/ESBFlatTimingWheel.cpp) and \<open>ESB::Timer\<close>: a ring of buckets, one for
  each tick, that holds the timers due within the next \<open>_maxTicks\<close> ticks. A timer is a number and
  \<open>timerTick\<close> holds the member \<open>_tick\<close> of every timer, a signed word that is negative outside the wheel. A
  bucket is an \<open>EmbeddedList\<close>; by the refinement in EmbeddedList it is the list of its timers.

  The contract of the wheel, a queue ordered by ticks, is in TimerQueue.
\<close>

section \<open>The operations\<close>

record timing_wheel =
  wheelStart :: date
  tickMilliSeconds :: u32
  maxTicks :: u32
  currentTick :: u32
  buckets :: "nat list list option"
  timerTick :: "nat \<Rightarrow> u32"

text \<open>\<open>buckets\<close> is None when the allocation in the constructor has failed.\<close>

definition new_timing_wheel :: "u32 \<Rightarrow> u32 \<Rightarrow> date \<Rightarrow> bool \<Rightarrow> timing_wheel" where
  "new_timing_wheel ticks tickMs now allocated =
     \<lparr>wheelStart = now, tickMilliSeconds = tickMs, maxTicks = ticks, currentTick = 0,
      buckets = (if allocated then Some (replicate (unat ticks) []) else None), timerTick = (\<lambda>_. - 1)\<rparr>"

definition inTimingWheel :: "timing_wheel \<Rightarrow> nat \<Rightarrow> bool" where
  "inTimingWheel w t \<longleftrightarrow> 0 \<le>s timerTick w t"

definition setTick :: "nat \<Rightarrow> u32 \<Rightarrow> timing_wheel \<Rightarrow> timing_wheel" where
  "setTick t k w = w\<lparr>timerTick := (timerTick w)(t := k)\<rparr>"

definition timer_remove :: "nat \<Rightarrow> timing_wheel \<Rightarrow> timing_wheel" where
  "timer_remove t = setTick t (- 1)"

definition maxDelayMilliSeconds :: "timing_wheel \<Rightarrow> u32" where
  "maxDelayMilliSeconds w = tickMilliSeconds w * maxTicks w"

text \<open>The Int32 argument is converted to UInt32 by the remainder with \<open>_maxTicks\<close>.\<close>

definition wheel_idx :: "timing_wheel \<Rightarrow> u32 \<Rightarrow> u32" where
  "wheel_idx w v = (v mod maxTicks w + maxTicks w) mod maxTicks w"

definition wheel_ticks :: "timing_wheel \<Rightarrow> date \<Rightarrow> u32" where
  "wheel_ticks w d =
     seconds d * 1000 div tickMilliSeconds w + microSeconds d div 1000 div tickMilliSeconds w"

abbreviation (input) bucket :: "nat list list \<Rightarrow> u32 \<Rightarrow> nat list" where
  "bucket bs i \<equiv> bs ! unat i"

definition bucket_add :: "nat \<Rightarrow> timing_wheel \<Rightarrow> timing_wheel" where
  "bucket_add t w =
     (let i = unat (wheel_idx w (timerTick w t))
      in w\<lparr>buckets := map_option (\<lambda>bs. bs[i := bs ! i @ [t]]) (buckets w)\<rparr>)"

definition bucket_remove :: "nat \<Rightarrow> timing_wheel \<Rightarrow> timing_wheel" where
  "bucket_remove t w =
     (let i = unat (wheel_idx w (timerTick w t))
      in w\<lparr>buckets := map_option (\<lambda>bs. bs[i := remove1 t (bs ! i)]) (buckets w)\<rparr>)"

definition now_tick :: "timing_wheel \<Rightarrow> date \<Rightarrow> u32" where
  "now_tick w now = wheel_ticks w (date_minus now (wheelStart w))"

definition wheel_insert :: "nat option \<Rightarrow> u32 \<Rightarrow> date \<Rightarrow> timing_wheel \<Rightarrow> error \<times> timing_wheel" where
  "wheel_insert timer delayMs now w =
     (case timer of
        None \<Rightarrow> (ESB_NULL_POINTER, w)
      | Some t \<Rightarrow>
          if buckets w = None then (ESB_OUT_OF_MEMORY, w)
          else if inTimingWheel w t then (ESB_INVALID_ARGUMENT, w)
          else
            let due = now_tick w now + delayMs div tickMilliSeconds w in
            if due \<le> currentTick w then (ESB_UNDERFLOW, w)
            else if due \<ge> currentTick w + maxTicks w then (ESB_OVERFLOW, w)
            else (ESB_SUCCESS, bucket_add t (setTick t due w)))"

definition wheel_remove :: "nat option \<Rightarrow> timing_wheel \<Rightarrow> error \<times> timing_wheel" where
  "wheel_remove timer w =
     (case timer of
        None \<Rightarrow> (ESB_NULL_POINTER, w)
      | Some t \<Rightarrow>
          if \<not> inTimingWheel w t then (ESB_INVALID_ARGUMENT, w)
          else if buckets w = None then (ESB_OUT_OF_MEMORY, w)
          else (ESB_SUCCESS, timer_remove t (bucket_remove t w)))"

definition wheel_update :: "nat option \<Rightarrow> u32 \<Rightarrow> date \<Rightarrow> timing_wheel \<Rightarrow> error \<times> timing_wheel" where
  "wheel_update timer delayMs now w =
     (case timer of
        None \<Rightarrow> (ESB_NULL_POINTER, w)
      | Some t \<Rightarrow>
          if buckets w = None then (ESB_OUT_OF_MEMORY, w)
          else if \<not> inTimingWheel w t then wheel_insert timer delayMs now w
          else
            let due = now_tick w now + delayMs div tickMilliSeconds w in
            if due \<le> currentTick w then (ESB_UNDERFLOW, timer_remove t (bucket_remove t w))
            else if due \<ge> currentTick w + maxTicks w then (ESB_OVERFLOW, w)
            else if due = timerTick w t then (ESB_SUCCESS, w)
            else (ESB_SUCCESS, bucket_add t (setTick t due (bucket_remove t w))))"

text \<open>
  The loop of \<open>nextExpired\<close>. It does not end when the last tick is the last 32-bit word: None. The
  result is the timer and the wheel.
\<close>

partial_function (option) expired_from ::
  "u32 \<Rightarrow> u32 \<Rightarrow> nat list list \<Rightarrow> timing_wheel \<Rightarrow> (nat option \<times> timing_wheel) option" where
  "expired_from tick nowTick bs w =
     (if nowTick < tick then Some (None, w\<lparr>currentTick := nowTick\<rparr>)
      else
        case bucket bs (wheel_idx w tick) of
          [] \<Rightarrow> expired_from (tick + 1) nowTick bs w
        | t # ts \<Rightarrow>
            let w1 = timer_remove t (w\<lparr>buckets := Some (bs[unat (wheel_idx w tick) := ts])\<rparr>)
            in Some (Some t, if ts = [] then w1\<lparr>currentTick := tick\<rparr> else w1))"

declare expired_from.simps [code]

text \<open>Without buckets the loop dereferences NULL.\<close>

definition nextExpired :: "date \<Rightarrow> timing_wheel \<Rightarrow> (error \<times> nat option \<times> timing_wheel) option" where
  "nextExpired now w =
     (if now_tick w now = currentTick w then Some (ESB_SUCCESS, None, w)
      else
        case buckets w of
          None \<Rightarrow>
            Some (if now_tick w now < currentTick w then (ESB_SUCCESS, None, w\<lparr>currentTick := now_tick w now\<rparr>)
                  else (UNDEFINED_BEHAVIOUR, None, w))
        | Some bs \<Rightarrow> map_option (\<lambda>(t, w1). (ESB_SUCCESS, t, w1)) (expired_from (currentTick w) (now_tick w now) bs w))"

text \<open>\<open>clear\<close> answers the timers in the order in which their cleanup handlers are called.\<close>

definition wheel_clear :: "timing_wheel \<Rightarrow> nat list \<times> timing_wheel" where
  "wheel_clear w =
     (case buckets w of
        None \<Rightarrow> ([], w)
      | Some bs \<Rightarrow> (concat bs, fold timer_remove (concat bs) (w\<lparr>buckets := Some (map (\<lambda>_. []) bs)\<rparr>)))"

definition tick_nat :: "timing_wheel \<Rightarrow> nat \<Rightarrow> nat" where
  "tick_nat w t = unat (timerTick w t)"

end
