(* ===== verification/TimerQueue.thy ===== *)
theory TimerQueue
  imports TimingWheel
begin

text \<open>
  The contract of the timing wheel: a queue of timers with the ticks at which they are due, in the order
  of these ticks and, within a tick, in the order of their insertion. The wheel refines the queue call by
  call, the error codes and the tick up to which timers have expired included.
\<close>

section \<open>The specification\<close>

type_synonym due_timer = "nat \<times> nat"

record timer_spec =
  expiredTo :: nat
  span :: nat
  due :: "due_timer list"

definition spec_enqueue :: "nat \<Rightarrow> nat \<Rightarrow> timer_spec \<Rightarrow> timer_spec" where
  "spec_enqueue k t q =
     q\<lparr>due := takeWhile (\<lambda>e. fst e \<le> k) (due q) @ (k, t) # dropWhile (\<lambda>e. fst e \<le> k) (due q)\<rparr>"

definition spec_drop :: "nat \<Rightarrow> timer_spec \<Rightarrow> timer_spec" where
  "spec_drop t q = q\<lparr>due := filter (\<lambda>e. snd e \<noteq> t) (due q)\<rparr>"

definition spec_insert :: "nat \<Rightarrow> nat \<Rightarrow> timer_spec \<Rightarrow> error \<times> timer_spec" where
  "spec_insert k t q =
     (if t \<in> snd ` set (due q) then (ESB_INVALID_ARGUMENT, q)
      else if k \<le> expiredTo q then (ESB_UNDERFLOW, q)
      else if expiredTo q + span q \<le> k then (ESB_OVERFLOW, q)
      else (ESB_SUCCESS, spec_enqueue k t q))"

definition spec_remove :: "nat \<Rightarrow> timer_spec \<Rightarrow> error \<times> timer_spec" where
  "spec_remove t q =
     (if t \<in> snd ` set (due q) then (ESB_SUCCESS, spec_drop t q) else (ESB_INVALID_ARGUMENT, q))"

definition spec_update :: "nat \<Rightarrow> nat \<Rightarrow> timer_spec \<Rightarrow> error \<times> timer_spec" where
  "spec_update k t q =
     (if t \<notin> snd ` set (due q) then spec_insert k t q
      else if k \<le> expiredTo q then (ESB_UNDERFLOW, spec_drop t q)
      else if expiredTo q + span q \<le> k then (ESB_OVERFLOW, q)
      else if (k, t) \<in> set (due q) then (ESB_SUCCESS, q)
      else (ESB_SUCCESS, spec_enqueue k t (spec_drop t q)))"

text \<open>
  The first timer expires when its tick has come. The wheel then counts its tick as expired, unless
  another timer of that tick is left; when no timer is due it counts the present tick.
\<close>

definition spec_expired :: "nat \<Rightarrow> timer_spec \<Rightarrow> nat option \<times> timer_spec" where
  "spec_expired n q =
     (case due q of
        (k, t) # es \<Rightarrow>
          if k \<le> n then
            (Some t, q\<lparr>due := es, expiredTo := (if es \<noteq> [] \<and> fst (hd es) = k then expiredTo q else k)\<rparr>)
          else (None, q\<lparr>expiredTo := n\<rparr>)
      | [] \<Rightarrow> (None, q\<lparr>expiredTo := n\<rparr>))"

section \<open>The simulation relation\<close>

definition at_tick :: "nat \<Rightarrow> timer_spec \<Rightarrow> nat list" where
  "at_tick k q = map snd (filter (\<lambda>e. fst e = k) (due q))"

definition in_window :: "timer_spec \<Rightarrow> nat \<Rightarrow> bool" where
  "in_window q k \<longleftrightarrow> expiredTo q \<le> k \<and> k < expiredTo q + span q"

text \<open>
  \<open>represents w bs q\<close>: the wheel with the buckets \<open>bs\<close> stands for the queue \<open>q\<close>. The bucket of each tick
  of the window holds the timers due at that tick, in the order of the queue.
\<close>

definition represents :: "timing_wheel \<Rightarrow> timer_spec \<Rightarrow> bool" where
  "represents w q \<longleftrightarrow>
     0 < tickMilliSeconds w \<and> 0 < span q \<and> expiredTo q + span q < 2 ^ 31 \<and>
     expiredTo q = unat (currentTick w) \<and> span q = unat (maxTicks w) \<and>
     sorted (map fst (due q)) \<and> distinct (map snd (due q)) \<and>
     (\<forall>e \<in> set (due q). expiredTo q < fst e \<and> fst e < expiredTo q + span q \<and> tick_nat w (snd e) = fst e) \<and>
     (\<forall>t. inTimingWheel w t \<longleftrightarrow> t \<in> snd ` set (due q)) \<and>
     (\<exists>bs. buckets w = Some bs \<and> length bs = span q \<and>
        (\<forall>k. in_window q k \<longrightarrow> bs ! (k mod span q) = at_tick k q))"

lemma unat_wheel_idx:
  assumes "represents w q"
  shows "unat (wheel_idx w v) = unat v mod span q"
proof -
  have m: "0 < unat (maxTicks w)" "unat (maxTicks w) < 2 ^ 31" "span q = unat (maxTicks w)"
    using assms by (auto simp: represents_def)
  then have "unat v mod unat (maxTicks w) < unat (maxTicks w)"
    by simp
  then have "unat (v mod maxTicks w + maxTicks w) = unat v mod unat (maxTicks w) + unat (maxTicks w)"
    using m(2) by (simp add: unat_word_ariths unat_mod)
  then show ?thesis
    using m(3) by (simp add: wheel_idx_def unat_mod)
qed

text \<open>Two ticks of the window have different buckets.\<close>

lemma window_buckets:
  assumes "in_window q j" "in_window q k"
  shows "j mod span q = k mod span q \<longleftrightarrow> j = k"
proof
  assume eq: "j mod span q = k mod span q"
  have "j = k" if "j \<le> k" "j mod span q = k mod span q" "in_window q j" "in_window q k" for j k
  proof -
    have "span q dvd k - j"
      using that(1,2) by (metis mod_eq_dvd_iff_nat)
    moreover have "k - j < span q"
      using that by (auto simp: in_window_def)
    ultimately show ?thesis
      using that(1) by (auto dest: dvd_imp_le)
  qed
  then show "j = k"
    using eq assms by (metis nat_le_linear)
qed simp

lemma window_for:
  assumes "0 < span q" "expiredTo q \<le> k"
  obtains j where "in_window q j" "j mod span q = k mod span q" "j \<le> k"
proof
  define j where "j = expiredTo q + (k - expiredTo q) mod span q"
  show "in_window q j" "j mod span q = k mod span q"
    using assms by (simp_all add: j_def in_window_def mod_add_right_eq)
  have "(k - expiredTo q) mod span q \<le> k - expiredTo q"
    by simp
  then show "j \<le> k"
    using assms(2) unfolding j_def by linarith
qed

section \<open>The operations on the queue\<close>

lemma at_tick_enqueue:
  assumes "sorted (map fst (due q))"
  shows "at_tick k (spec_enqueue d t q) = at_tick k q @ (if k = d then [t] else [])"
proof -
  have gr: "\<forall>e \<in> set (dropWhile (\<lambda>e. fst e \<le> d) es). d < fst e" if "sorted (map fst es)" for es :: "due_timer list"
    using that by (induction es) auto
  have "filter (\<lambda>e. fst e = d) (dropWhile (\<lambda>e. fst e \<le> d) (due q)) = []"
    using gr [OF assms] by (auto simp: filter_empty_conv)
  moreover have "filter P (due q) = filter P (takeWhile (\<lambda>e. fst e \<le> d) (due q)) @ filter P (dropWhile (\<lambda>e. fst e \<le> d) (due q))" for P
    by (metis filter_append takeWhile_dropWhile_id)
  ultimately show ?thesis
    by (simp add: at_tick_def spec_enqueue_def)
qed

lemma set_enqueue: "set (due (spec_enqueue d t q)) = insert (d, t) (set (due q))"
proof -
  have "set (due q) = set (takeWhile (\<lambda>e. fst e \<le> d) (due q)) \<union> set (dropWhile (\<lambda>e. fst e \<le> d) (due q))"
    by (metis set_append takeWhile_dropWhile_id)
  then show ?thesis
    by (auto simp: spec_enqueue_def)
qed

lemma sorted_enqueue:
  assumes "sorted (map fst (due q))"
  shows "sorted (map fst (due (spec_enqueue d t q)))"
proof -
  have "sorted (map fst (takeWhile (\<lambda>e. fst e \<le> d) es @ (d, t) # dropWhile (\<lambda>e. fst e \<le> d) es))"
    if "sorted (map fst es)" for es :: "due_timer list"
    using that by (induction es) (auto simp: less_imp_le dest: set_takeWhileD set_dropWhileD)
  then show ?thesis
    using assms by (simp add: spec_enqueue_def)
qed

lemma distinct_enqueue:
  assumes "distinct (map snd (due q))" "t \<notin> snd ` set (due q)"
  shows "distinct (map snd (due (spec_enqueue d t q)))"
proof -
  have ins: "distinct (map snd (us @ (d, t) # vs))"
    if "distinct (map snd (us @ vs))" "t \<notin> snd ` set (us @ vs)" for us vs :: "due_timer list"
    using that by auto
  show ?thesis
    using ins [of "takeWhile (\<lambda>e. fst e \<le> d) (due q)" "dropWhile (\<lambda>e. fst e \<le> d) (due q)"] assms
    by (simp add: spec_enqueue_def del: map_append set_append)
qed

lemma at_tick_drop: "at_tick k (spec_drop t q) = filter (\<lambda>s. s \<noteq> t) (at_tick k q)"
proof -
  have "map snd (filter (\<lambda>e. fst e = k) (filter (\<lambda>e. snd e \<noteq> t) es)) = filter (\<lambda>s. s \<noteq> t) (map snd (filter (\<lambda>e. fst e = k) es))"
    for es :: "due_timer list"
    by (induction es) auto
  then show ?thesis
    by (simp add: at_tick_def spec_drop_def)
qed

lemma distinct_at_tick: "distinct (map snd (due q)) \<Longrightarrow> distinct (at_tick k q)"
  by (auto simp: at_tick_def distinct_map inj_on_def)

lemma window_fields [simp]:
  "in_window (spec_enqueue d t q) = in_window q" "in_window (spec_drop t q) = in_window q"
  "expiredTo (spec_enqueue d t q) = expiredTo q" "expiredTo (spec_drop t q) = expiredTo q"
  "span (spec_enqueue d t q) = span q" "span (spec_drop t q) = span q"
  by (simp_all add: in_window_def spec_enqueue_def spec_drop_def fun_eq_iff)

section \<open>Every operation keeps the relation\<close>

lemma bucket_fields [simp]:
  "timerTick (bucket_add t w) = timerTick w" "timerTick (bucket_remove t w) = timerTick w"
  "currentTick (bucket_add t w) = currentTick w" "currentTick (bucket_remove t w) = currentTick w"
  "maxTicks (bucket_add t w) = maxTicks w" "maxTicks (bucket_remove t w) = maxTicks w"
  "tickMilliSeconds (bucket_add t w) = tickMilliSeconds w" "tickMilliSeconds (bucket_remove t w) = tickMilliSeconds w"
  "wheelStart (bucket_add t w) = wheelStart w" "wheelStart (bucket_remove t w) = wheelStart w"
  "buckets (bucket_add t w) =
    map_option (\<lambda>bs. let i = unat (wheel_idx w (timerTick w t)) in bs[i := bs ! i @ [t]]) (buckets w)"
  "buckets (bucket_remove t w) =
    map_option (\<lambda>bs. let i = unat (wheel_idx w (timerTick w t)) in bs[i := remove1 t (bs ! i)]) (buckets w)"
  by (simp_all add: bucket_add_def bucket_remove_def Let_def)

lemma setTick_fields [simp]:
  "timerTick (setTick t v w) = (timerTick w)(t := v)" "currentTick (setTick t v w) = currentTick w"
  "maxTicks (setTick t v w) = maxTicks w" "tickMilliSeconds (setTick t v w) = tickMilliSeconds w"
  "buckets (setTick t v w) = buckets w" "wheelStart (setTick t v w) = wheelStart w"
  by (simp_all add: setTick_def)

lemma wheel_idx_cong: "maxTicks w' = maxTicks w \<Longrightarrow> wheel_idx w' = wheel_idx w"
  by (simp add: wheel_idx_def fun_eq_iff)

lemma representsI:
  assumes "represents w q" "tickMilliSeconds w' = tickMilliSeconds w" "maxTicks w' = maxTicks w"
    and "span q' = span q" "expiredTo q' = unat (currentTick w')" "expiredTo q' + span q' < 2 ^ 31"
    and "sorted (map fst (due q'))" "distinct (map snd (due q'))"
    and "\<And>k t. (k, t) \<in> set (due q') \<Longrightarrow> expiredTo q' < k \<and> k < expiredTo q' + span q' \<and> tick_nat w' t = k"
    and "\<And>t. inTimingWheel w' t \<longleftrightarrow> t \<in> snd ` set (due q')"
    and "buckets w' = Some bs" "length bs = span q" "\<And>k. in_window q' k \<Longrightarrow> bs ! (k mod span q) = at_tick k q'"
  shows "represents w' q'"
  unfolding represents_def
proof (intro conjI exI)
  show "\<forall>e \<in> set (due q'). expiredTo q' < fst e \<and> fst e < expiredTo q' + span q' \<and> tick_nat w' (snd e) = fst e"
    using assms(9) by auto
  show "\<forall>k. in_window q' k \<longrightarrow> bs ! (k mod span q') = at_tick k q'"
    using assms(4,13) by simp
qed (use assms in \<open>simp_all add: represents_def\<close>)

lemma representsD:
  assumes "represents w q"
  shows "0 < span q" "expiredTo q + span q < 2 ^ 31" "expiredTo q = unat (currentTick w)" "span q = unat (maxTicks w)"
    "sorted (map fst (due q))" "distinct (map snd (due q))"
    "(k, t) \<in> set (due q) \<Longrightarrow> expiredTo q < k \<and> k < expiredTo q + span q \<and> tick_nat w t = k"
    "inTimingWheel w t \<longleftrightarrow> t \<in> snd ` set (due q)"
  using assms by (force simp: represents_def)+

lemma represents_buckets:
  assumes "represents w q"
  obtains bs where "buckets w = Some bs" "length bs = span q" "\<forall>k. in_window q k \<longrightarrow> bs ! (k mod span q) = at_tick k q"
  using assms by (auto simp: represents_def)

lemma sint_nonneg_iff: "0 \<le>s (v :: u32) \<longleftrightarrow> unat v < 2 ^ 31"
proof -
  have int_less: "int n < 2 ^ 31 \<longleftrightarrow> n < 2 ^ 31" for n
    by simp
  have "0 \<le>s v \<longleftrightarrow> \<not> bit (uint v) 31"
    by (simp add: word_sle_eq sint_uint signed_take_bit_nonnegative_iff)
  also have "\<dots> \<longleftrightarrow> even (uint v div 2 ^ 31)"
    by (simp add: bit_iff_odd)
  also have "\<dots> \<longleftrightarrow> uint v < 2 ^ 31"
  proof
    assume "even (uint v div 2 ^ 31)"
    moreover have "uint v div 2 ^ 31 < 2" "0 \<le> uint v div 2 ^ 31"
      using uint_lt2p [of v] by (simp_all add: pos_imp_zdiv_nonneg_iff)
    ultimately have "uint v div 2 ^ 31 = 0"
      by (cases "uint v div 2 ^ 31 = 1") auto
    then show "uint v < 2 ^ 31"
      by (auto simp: zdiv_eq_0_iff)
  qed simp
  also have "\<dots> \<longleftrightarrow> unat v < 2 ^ 31"
    by (subst uint_nat) (rule int_less)
  finally show ?thesis .
qed

lemma represents_enqueue:
  assumes rep: "represents w q" and t: "t \<notin> snd ` set (due q)"
    and d: "unat v = d" "expiredTo q < d" "d < expiredTo q + span q"
  shows "represents (bucket_add t (setTick t v w)) (spec_enqueue d t q)"
proof -
  obtain bs where bs: "buckets w = Some bs" "length bs = span q" "\<forall>k. in_window q k \<longrightarrow> bs ! (k mod span q) = at_tick k q"
    using represents_buckets [OF rep] by blast
  note D = representsD [OF rep]
  have i: "unat (wheel_idx (setTick t v w) v) = d mod span q"
    using unat_wheel_idx [OF rep, of v] d(1) wheel_idx_cong [of "setTick t v w" w] by simp
  have dw: "in_window q d" and lt: "d mod span q < span q"
    using d D(1) by (auto simp: in_window_def)
  show ?thesis
  proof (rule representsI [OF rep, where bs = "bs[d mod span q := bs ! (d mod span q) @ [t]]"])
    fix k s
    assume "(k, s) \<in> set (due (spec_enqueue d t q))"
    then have "(k, s) = (d, t) \<or> (k, s) \<in> set (due q) \<and> s \<noteq> t"
      using t by (auto simp: set_enqueue image_iff)
    then show "expiredTo (spec_enqueue d t q) < k \<and> k < expiredTo (spec_enqueue d t q) + span (spec_enqueue d t q) \<and>
        tick_nat (bucket_add t (setTick t v w)) s = k"
      using d D(7) by (auto simp: tick_nat_def)
  next
    fix s
    have "0 \<le>s v"
      using d D(2) by (simp add: sint_nonneg_iff)
    then show "inTimingWheel (bucket_add t (setTick t v w)) s \<longleftrightarrow> s \<in> snd ` set (due (spec_enqueue d t q))"
      using D(8) [of s] by (auto simp: inTimingWheel_def set_enqueue)
  next
    fix k
    assume "in_window (spec_enqueue d t q) k"
    then show "bs[d mod span q := bs ! (d mod span q) @ [t]] ! (k mod span q) = at_tick k (spec_enqueue d t q)"
      using window_buckets [OF dw, of k] bs lt D(5) dw by (auto simp: at_tick_enqueue nth_list_update)
  qed (use D bs i t in \<open>simp_all add: sorted_enqueue distinct_enqueue Let_def\<close>)
qed

lemma represents_drop:
  assumes rep: "represents w q" and t: "t \<in> snd ` set (due q)"
  shows "represents (timer_remove t (bucket_remove t w)) (spec_drop t q)"
proof -
  obtain bs where bs: "buckets w = Some bs" "length bs = span q" "\<forall>k. in_window q k \<longrightarrow> bs ! (k mod span q) = at_tick k q"
    using represents_buckets [OF rep] by blast
  obtain d where d: "(d, t) \<in> set (due q)"
    using t by auto
  note D = representsD [OF rep]
  have dw: "in_window q d" and tick: "unat (timerTick w t) = d"
    using D(7) [OF d] by (auto simp: in_window_def tick_nat_def)
  have i: "unat (wheel_idx w (timerTick w t)) = d mod span q" and lt: "d mod span q < span q"
    using unat_wheel_idx [OF rep, of "timerTick w t"] tick D(1) by simp_all
  have other: "t \<notin> set (at_tick k q)" if "k \<noteq> d" for k
    using that D(7) [OF d] D(7) [of k t] by (auto simp: at_tick_def)
  show ?thesis
  proof (rule representsI [OF rep, where bs = "bs[d mod span q := remove1 t (bs ! (d mod span q))]"])
    fix k s
    assume "(k, s) \<in> set (due (spec_drop t q))"
    then show "expiredTo (spec_drop t q) < k \<and> k < expiredTo (spec_drop t q) + span (spec_drop t q) \<and>
        tick_nat (timer_remove t (bucket_remove t w)) s = k"
      using D(7) [of k s] by (auto simp: spec_drop_def timer_remove_def tick_nat_def)
  next
    fix s
    show "inTimingWheel (timer_remove t (bucket_remove t w)) s \<longleftrightarrow> s \<in> snd ` set (due (spec_drop t q))"
      using D(8) [of s] by (force simp: spec_drop_def timer_remove_def inTimingWheel_def)
  next
    fix k
    assume k: "in_window (spec_drop t q) k"
    show "bs[d mod span q := remove1 t (bs ! (d mod span q))] ! (k mod span q) = at_tick k (spec_drop t q)"
    proof (cases "k = d")
      case True
      moreover have "remove1 t (at_tick d q) = filter (\<lambda>s. s \<noteq> t) (at_tick d q)"
        using distinct_at_tick [OF D(6), of d]
        by (simp add: distinct_remove1_removeAll removeAll_filter_not_eq) (metis (lifting) filter_cong)
      ultimately show ?thesis
        using bs dw lt by (simp add: at_tick_drop)
    next
      case False
      then have "k mod span q \<noteq> d mod span q"
        using window_buckets [OF dw, of k] k by simp
      then show ?thesis
        using bs k other [OF False] by (auto simp: at_tick_drop intro!: filter_True [symmetric])
    qed
  qed (use D bs i t in \<open>auto simp: timer_remove_def Let_def spec_drop_def sorted_wrt_filter sorted_map distinct_map inj_on_def\<close>)
qed

text \<open>The wheel may count as expired every tick at which no timer is left.\<close>

lemma represents_advance:
  assumes rep: "represents w q" and m: "unat v = m" "expiredTo q \<le> m" "m + span q < 2 ^ 31"
    and later: "\<And>k t. (k, t) \<in> set (due q) \<Longrightarrow> m < k"
  shows "represents (w\<lparr>currentTick := v\<rparr>) (q\<lparr>expiredTo := m\<rparr>)"
proof -
  obtain bs where bs: "buckets w = Some bs" "length bs = span q" "\<forall>k. in_window q k \<longrightarrow> bs ! (k mod span q) = at_tick k q"
    using represents_buckets [OF rep] by blast
  note D = representsD [OF rep]
  have none: "at_tick k q = []" if "k \<le> m \<or> expiredTo q + span q \<le> k" for k
    using that later D(7) by (fastforce simp: at_tick_def filter_empty_conv)
  show ?thesis
  proof (rule representsI [OF rep, where bs = bs])
    fix k
    assume "in_window (q\<lparr>expiredTo := m\<rparr>) k"
    then have k: "m \<le> k" "k < m + span q"
      by (simp_all add: in_window_def)
    have at: "at_tick k (q\<lparr>expiredTo := m\<rparr>) = at_tick k q"
      by (simp add: at_tick_def)
    show "bs ! (k mod span q) = at_tick k (q\<lparr>expiredTo := m\<rparr>)"
    proof (cases "in_window q k")
      case True
      then show ?thesis
        using bs(3) at by simp
    next
      case False
      text \<open>The bucket of a tick that has just come into the window was that of a tick gone by.\<close>
      then have kn: "expiredTo q + span q \<le> k"
        using k m(2) by (auto simp: in_window_def)
      then obtain j where j: "in_window q j" "j mod span q = (k - span q) mod span q" "j \<le> k - span q"
        using window_for [OF D(1), of "k - span q"] by (metis add_le_imp_le_diff)
      have "k - span q + span q = k" "k - span q \<le> m"
        using kn k by auto
      then have "j mod span q = k mod span q" "j \<le> m"
        using j by (metis mod_add_self2, simp)
      then have "bs ! (k mod span q) = []"
        using bs(3) j(1) none by metis
      then show ?thesis
        using at none kn by simp
    qed
  next
    fix k t
    assume "(k, t) \<in> set (due (q\<lparr>expiredTo := m\<rparr>))"
    then show "expiredTo (q\<lparr>expiredTo := m\<rparr>) < k \<and> k < expiredTo (q\<lparr>expiredTo := m\<rparr>) + span (q\<lparr>expiredTo := m\<rparr>) \<and>
        tick_nat (w\<lparr>currentTick := v\<rparr>) t = k"
      using D(7) [of k t] later [of k t] m(2) by (auto simp: tick_nat_def)
  qed (use D bs m in \<open>simp_all add: inTimingWheel_def\<close>)
qed

section \<open>The expiry of timers\<close>

lemma at_tick_first:
  assumes "sorted (map fst (due q))" "\<And>k t. (k, t) \<in> set (due q) \<Longrightarrow> n \<le> k" "at_tick n q = t # ts"
  obtains es where "due q = (n, t) # es" "ts = map snd (filter (\<lambda>e. fst e = n) es)"
    "ts = [] \<longleftrightarrow> \<not> (es \<noteq> [] \<and> fst (hd es) = n)"
proof (cases "due q")
  case Nil
  then show thesis
    using assms(3) by (simp add: at_tick_def)
next
  case (Cons e es)
  have "fst e = n"
  proof (rule ccontr)
    assume "fst e \<noteq> n"
    then have "\<forall>d \<in> set (due q). fst d \<noteq> n"
      using assms(1) assms(2) [of "fst e" "snd e"] Cons by auto
    then show False
      using assms(3) by (simp add: at_tick_def filter_empty_conv)
  qed
  moreover have "filter (\<lambda>e. fst e = n) es = [] \<longleftrightarrow> \<not> (es \<noteq> [] \<and> fst (hd es) = n)"
  proof (cases es)
    case (Cons d ds)
    then have "\<forall>c \<in> set es. fst d \<le> fst c"
      using assms(1) \<open>due q = e # es\<close> by auto
    moreover have "n \<le> fst d"
      using assms(2) [of "fst d" "snd d"] \<open>due q = e # es\<close> Cons by simp
    ultimately show ?thesis
      using Cons by (auto simp: filter_empty_conv)
  qed simp
  ultimately show thesis
    using that [of es] assms(3) Cons by (cases e) (auto simp: at_tick_def)
qed

lemma represents_pop:
  assumes rep: "represents w q" and bs: "buckets w = Some bs"
    and q: "due q = (n, t) # es" and b: "bs ! (n mod span q) = t # ts" "ts = map snd (filter (\<lambda>e. fst e = n) es)"
  shows "represents (timer_remove t (w\<lparr>buckets := Some (bs[n mod span q := ts])\<rparr>)) (q\<lparr>due := es\<rparr>)"
proof -
  note D = representsD [OF rep]
  have t: "t \<in> snd ` set (due q)"
    using q by force
  have n: "unat (timerTick w t) = n"
    using D(7) [of n t] q by (auto simp: tick_nat_def)
  have "spec_drop t q = q\<lparr>due := es\<rparr>"
    using q D(6) by (cases q) (auto simp: spec_drop_def image_iff intro!: filter_True)
  moreover have "bucket_remove t w = w\<lparr>buckets := Some (bs[n mod span q := ts])\<rparr>"
    using unat_wheel_idx [OF rep, of "timerTick w t"] n bs b by (simp add: bucket_remove_def)
  ultimately show ?thesis
    using represents_drop [OF rep t] by simp
qed

lemma expired_from_spec:
  assumes "represents w q" "buckets w = Some bs" "expiredTo q \<le> unat tick" "unat tick \<le> unat now + 1"
    and "expiredTo q \<le> unat now" "unat now + span q < 2 ^ 31" "\<And>k t. (k, t) \<in> set (due q) \<Longrightarrow> unat tick \<le> k"
  shows "\<exists>w'. expired_from tick now bs w = Some (fst (spec_expired (unat now) q), w') \<and>
    represents w' (snd (spec_expired (unat now) q))"
  using assms(3,4,7)
proof (induction "unat now + 1 - unat tick" arbitrary: tick)
  case 0
  then have "unat now < unat tick"
    by simp
  then have later: "unat now < k" if "(k, t) \<in> set (due q)" for k t
    using 0(4) [OF that] by simp
  then have "spec_expired (unat now) q = (None, q\<lparr>expiredTo := unat now\<rparr>)"
    by (cases "due q") (force simp: spec_expired_def)+
  then show ?case
    using represents_advance [OF assms(1) _ assms(5,6)] later \<open>unat now < unat tick\<close>
    by (subst expired_from.simps) (simp add: word_less_nat_alt)
next
  case (Suc n)
  then have le: "unat tick \<le> unat now" "\<not> now < tick"
    by (simp_all add: word_less_nat_alt)
  then have next_tick: "unat (tick + 1) = unat tick + 1"
    using assms(6) by (simp add: unat_word_ariths)
  note D = representsD [OF assms(1)]
  have i: "unat (wheel_idx w tick) = unat tick mod span q"
    by (rule unat_wheel_idx [OF assms(1)])
  have bucket_at: "bs ! (k mod span q) = at_tick k q" if "in_window q k" for k
    using represents_buckets [OF assms(1)] assms(2) that by (metis option.inject)
  note b = bucket_at [of "unat tick"]
  show ?case
  proof (cases "bs ! (unat tick mod span q)")
    case Nil
    have "unat (tick + 1) \<le> k" if "(k, t) \<in> set (due q)" for k t
    proof (cases "k = unat tick")
      case True
      then have "in_window q (unat tick)"
        using D(7) [OF that] by (simp add: in_window_def)
      then have "at_tick k q = []"
        using b Nil True by simp
      then show ?thesis
        using that by (auto simp: at_tick_def filter_empty_conv)
    next
      case False
      then show ?thesis
        using Suc.prems(3) [OF that] next_tick by simp
    qed
    moreover have "n = unat now + 1 - unat (tick + 1)" "expiredTo q \<le> unat (tick + 1)" "unat (tick + 1) \<le> unat now + 1"
      using Suc.hyps(2) Suc.prems(1) le next_tick by auto
    ultimately show ?thesis
      using Suc.hyps(1) [of "tick + 1"] Nil le i by (subst expired_from.simps) simp
  next
    case (Cons t ts)
    have win: "in_window q (unat tick)"
    proof (rule ccontr)
      assume no: "\<not> in_window q (unat tick)"
      then have "due q = []"
        using D(7) Suc.prems by (cases "due q") (fastforce simp: in_window_def)+
      then have "at_tick k q = []" for k
        by (simp add: at_tick_def)
      moreover obtain j where "in_window q j" "j mod span q = unat tick mod span q"
        using window_for [OF D(1) Suc.prems(1)] by blast
      moreover from this have "bs ! (j mod span q) = at_tick j q"
        using bucket_at by blast
      ultimately show False
        using Cons by simp
    qed
    then have at: "at_tick (unat tick) q = t # ts"
      using b Cons by simp
    obtain es where es: "due q = (unat tick, t) # es" "ts = map snd (filter (\<lambda>e. fst e = unat tick) es)"
        "ts = [] \<longleftrightarrow> \<not> (es \<noteq> [] \<and> fst (hd es) = unat tick)"
      by (rule at_tick_first [OF D(5) Suc.prems(3) at])
    define w1 where "w1 = timer_remove t (w\<lparr>buckets := Some (bs[unat tick mod span q := ts])\<rparr>)"
    have w1: "represents w1 (q\<lparr>due := es\<rparr>)"
      using represents_pop [OF assms(1,2) es(1) Cons es(2)] by (simp add: w1_def)
    have run: "expired_from tick now bs w = Some (Some t, if ts = [] then w1\<lparr>currentTick := tick\<rparr> else w1)"
      using le i Cons by (subst expired_from.simps) (simp add: w1_def Let_def)
    have spec: "spec_expired (unat now) q =
        (Some t, if ts = [] then q\<lparr>due := es, expiredTo := unat tick\<rparr> else q\<lparr>due := es\<rparr>)"
      using es le by (simp add: spec_expired_def)
    show ?thesis
    proof (cases "ts = []")
      case True
      have "unat tick < k" if "(k, s) \<in> set es" for k s
      proof -
        have "k \<noteq> unat tick"
          using True es(2) that by (auto simp: filter_empty_conv)
        then show ?thesis
          using Suc.prems(3) [of k s] es(1) that by simp
      qed
      then have "represents (w1\<lparr>currentTick := tick\<rparr>) (q\<lparr>due := es, expiredTo := unat tick\<rparr>)"
        using represents_advance [OF w1, of tick "unat tick"] Suc.prems(1) le assms(6) by simp
      then show ?thesis
        using run spec True by simp
    next
      case False
      then show ?thesis
        using run spec w1 by simp
    qed
  qed
qed

section \<open>Sequences of calls\<close>

datatype wheel_call =
  InsertTimer "nat option" u32 date
| RemoveTimer "nat option"
| UpdateTimer "nat option" u32 date
| NextExpired date

fun apply_wheel_call :: "wheel_call \<Rightarrow> timing_wheel \<Rightarrow> (error \<times> nat option \<times> timing_wheel) option" where
  "apply_wheel_call (InsertTimer t d now) w = (case wheel_insert t d now w of (r, w1) \<Rightarrow> Some (r, None, w1))"
| "apply_wheel_call (RemoveTimer t) w = (case wheel_remove t w of (r, w1) \<Rightarrow> Some (r, None, w1))"
| "apply_wheel_call (UpdateTimer t d now) w = (case wheel_update t d now w of (r, w1) \<Rightarrow> Some (r, None, w1))"
| "apply_wheel_call (NextExpired now) w = nextExpired now w"

fun run_wheel :: "wheel_call list \<Rightarrow> timing_wheel \<Rightarrow> ((error \<times> nat option) list \<times> timing_wheel) option" where
  "run_wheel [] w = Some ([], w)"
| "run_wheel (c # cs) w =
     (case apply_wheel_call c w of
        None \<Rightarrow> None
      | Some (r, t, w1) \<Rightarrow> map_option (\<lambda>(rs, w2). ((r, t) # rs, w2)) (run_wheel cs w1))"

text \<open>The specification reads the clock of the wheel: its start and the length of its ticks.\<close>

definition tick_at :: "timing_wheel \<Rightarrow> date \<Rightarrow> nat" where
  "tick_at w now = unat (now_tick w now)"

definition due_at :: "timing_wheel \<Rightarrow> date \<Rightarrow> u32 \<Rightarrow> nat" where
  "due_at w now d = tick_at w now + unat (d div tickMilliSeconds w)"

fun spec_call :: "timing_wheel \<Rightarrow> wheel_call \<Rightarrow> timer_spec \<Rightarrow> (error \<times> nat option) \<times> timer_spec" where
  "spec_call w (InsertTimer t d now) q =
     (case t of None \<Rightarrow> ((ESB_NULL_POINTER, None), q)
      | Some t \<Rightarrow> case spec_insert (due_at w now d) t q of (r, q1) \<Rightarrow> ((r, None), q1))"
| "spec_call w (RemoveTimer t) q =
     (case t of None \<Rightarrow> ((ESB_NULL_POINTER, None), q)
      | Some t \<Rightarrow> case spec_remove t q of (r, q1) \<Rightarrow> ((r, None), q1))"
| "spec_call w (UpdateTimer t d now) q =
     (case t of None \<Rightarrow> ((ESB_NULL_POINTER, None), q)
      | Some t \<Rightarrow> case spec_update (due_at w now d) t q of (r, q1) \<Rightarrow> ((r, None), q1))"
| "spec_call w (NextExpired now) q =
     (case spec_expired (tick_at w now) q of (t, q1) \<Rightarrow> ((ESB_SUCCESS, t), q1))"

fun run_spec :: "timing_wheel \<Rightarrow> wheel_call list \<Rightarrow> timer_spec \<Rightarrow> (error \<times> nat option) list \<times> timer_spec" where
  "run_spec w [] q = ([], q)"
| "run_spec w (c # cs) q =
     (case spec_call w c q of (r, q1) \<Rightarrow> case run_spec w cs q1 of (rs, q2) \<Rightarrow> (r # rs, q2))"

text \<open>
  The clock does not run backwards and the ticks of a call fit in 31 bits: with ticks of a
  millisecond the wheel is good for 24 days.
\<close>

fun in_time :: "timing_wheel \<Rightarrow> wheel_call \<Rightarrow> timer_spec \<Rightarrow> bool" where
  "in_time w (InsertTimer t d now) q \<longleftrightarrow> due_at w now d < 2 ^ 31"
| "in_time w (RemoveTimer t) q \<longleftrightarrow> True"
| "in_time w (UpdateTimer t d now) q \<longleftrightarrow> due_at w now d < 2 ^ 31"
| "in_time w (NextExpired now) q \<longleftrightarrow> expiredTo q \<le> tick_at w now \<and> tick_at w now + span q < 2 ^ 31"

fun all_in_time :: "timing_wheel \<Rightarrow> wheel_call list \<Rightarrow> timer_spec \<Rightarrow> bool" where
  "all_in_time w [] q \<longleftrightarrow> True"
| "all_in_time w (c # cs) q \<longleftrightarrow> in_time w c q \<and> all_in_time w cs (snd (spec_call w c q))"

lemma due_word:
  assumes "due_at w now d < 2 ^ 31"
  shows "unat (now_tick w now + d div tickMilliSeconds w) = due_at w now d"
  using assms by (simp add: due_at_def tick_at_def unat_word_ariths)

lemma due_compare:
  assumes "represents w q" "unat v = k"
  shows "v \<le> currentTick w \<longleftrightarrow> k \<le> expiredTo q" "currentTick w + maxTicks w \<le> v \<longleftrightarrow> expiredTo q + span q \<le> k"
proof -
  note D = representsD [OF assms(1)]
  have "unat (currentTick w + maxTicks w) = expiredTo q + span q"
    using D(2-4) by (simp add: unat_word_ariths)
  then show "v \<le> currentTick w \<longleftrightarrow> k \<le> expiredTo q" "currentTick w + maxTicks w \<le> v \<longleftrightarrow> expiredTo q + span q \<le> k"
    using D(3) assms(2) by (simp_all add: word_le_nat_alt)
qed

lemma represents_allocated: "represents w q \<Longrightarrow> \<exists>bs. buckets w = Some bs"
  by (auto simp: represents_def)

lemma wheel_insert_spec:
  assumes rep: "represents w q" and d: "due_at w now d < 2 ^ 31"
  shows "fst (wheel_insert (Some t) d now w) = fst (spec_insert (due_at w now d) t q) \<and>
    represents (snd (wheel_insert (Some t) d now w)) (snd (spec_insert (due_at w now d) t q))"
  using represents_enqueue [OF rep _ due_word [OF d], of t] representsD(8) [OF rep, of t]
    due_compare [OF rep due_word [OF d]] represents_allocated [OF rep] rep
  by (auto simp: wheel_insert_def spec_insert_def Let_def)

lemma wheel_remove_spec:
  assumes rep: "represents w q"
  shows "fst (wheel_remove (Some t) w) = fst (spec_remove t q) \<and>
    represents (snd (wheel_remove (Some t) w)) (snd (spec_remove t q))"
  using represents_drop [OF rep, of t] representsD(8) [OF rep, of t] represents_allocated [OF rep] rep
  by (auto simp: wheel_remove_def spec_remove_def)

lemma wheel_update_spec:
  assumes rep: "represents w q" and d: "due_at w now d < 2 ^ 31"
  shows "fst (wheel_update (Some t) d now w) = fst (spec_update (due_at w now d) t q) \<and>
    represents (snd (wheel_update (Some t) d now w)) (snd (spec_update (due_at w now d) t q))"
proof (cases "t \<in> snd ` set (due q)")
  case False
  then show ?thesis
    using wheel_insert_spec [OF rep d, of t] representsD(8) [OF rep, of t] represents_allocated [OF rep]
    by (auto simp: wheel_update_def spec_update_def)
next
  case True
  let ?v = "now_tick w now + d div tickMilliSeconds w"
  note D = representsD [OF rep]
  have same: "?v = timerTick w t \<longleftrightarrow> (due_at w now d, t) \<in> set (due q)"
  proof
    assume "?v = timerTick w t"
    then have "tick_nat w t = due_at w now d"
      using due_word [OF d] by (simp add: tick_nat_def)
    then show "(due_at w now d, t) \<in> set (due q)"
      using True D(7) by fastforce
  next
    assume "(due_at w now d, t) \<in> set (due q)"
    then have "unat (timerTick w t) = unat ?v"
      using D(7) due_word [OF d] by (simp add: tick_nat_def)
    then show "?v = timerTick w t"
      by (simp add: word_unat_eq_iff)
  qed
  let ?w1 = "timer_remove t (bucket_remove t w)" and ?q1 = "spec_drop t q"
  have r1: "represents ?w1 ?q1"
    by (rule represents_drop [OF rep True])
  have set1: "setTick t v ?w1 = setTick t v (bucket_remove t w)" for v
    by (simp add: timer_remove_def setTick_def)
  have "represents (bucket_add t (setTick t ?v (bucket_remove t w))) (spec_enqueue (due_at w now d) t ?q1)"
    if "expiredTo q < due_at w now d" "due_at w now d < expiredTo q + span q"
    using represents_enqueue [OF r1 _ due_word [OF d], of t] that by (auto simp: set1 spec_drop_def)
  then show ?thesis
    using True same r1 D(8) [of t] due_compare [OF rep due_word [OF d]] represents_allocated [OF rep] rep
    by (auto simp: wheel_update_def spec_update_def Let_def)
qed

lemma nextExpired_spec:
  assumes rep: "represents w q" and now: "expiredTo q \<le> tick_at w now" "tick_at w now + span q < 2 ^ 31"
  shows "\<exists>w'. nextExpired now w = Some (ESB_SUCCESS, fst (spec_expired (tick_at w now) q), w') \<and>
    represents w' (snd (spec_expired (tick_at w now) q))"
proof (cases "now_tick w now = currentTick w")
  case True
  then have "tick_at w now = expiredTo q"
    using representsD(3) [OF rep] by (simp add: tick_at_def)
  moreover have "spec_expired (expiredTo q) q = (None, q)"
    using representsD(7) [OF rep] by (cases "due q") (force simp: spec_expired_def)+
  ultimately show ?thesis
    using True rep by (simp add: nextExpired_def)
next
  case False
  obtain bs where bs: "buckets w = Some bs"
    using represents_allocated [OF rep] by blast
  have "expiredTo q \<le> k" if "(k, t) \<in> set (due q)" for k t
    using representsD(7) [OF rep that] by simp
  then show ?thesis
    using expired_from_spec [OF rep bs, of "currentTick w" "now_tick w now"] now representsD(3) [OF rep] False bs
    by (auto simp: nextExpired_def tick_at_def)
qed

text \<open>No call changes the start of the wheel or the length of its ticks.\<close>

definition same_clock :: "timing_wheel \<Rightarrow> timing_wheel \<Rightarrow> bool" where
  "same_clock w w' \<longleftrightarrow> wheelStart w' = wheelStart w \<and> tickMilliSeconds w' = tickMilliSeconds w"

lemma same_clock_ticks: "same_clock w w' \<Longrightarrow> tick_at w' = tick_at w \<and> due_at w' = due_at w"
  by (simp add: same_clock_def tick_at_def due_at_def now_tick_def wheel_ticks_def fun_eq_iff)

lemma expired_from_clock:
  assumes "expired_from tick now bs w = Some (t, w')"
  shows "same_clock w w'"
proof -
  let ?P = "\<lambda>_ _ _ v r. same_clock v (snd r)"
  have "?P tick now bs w (t, w')"
  proof (rule expired_from.raw_induct [where P = ?P, OF _ assms(1)])
    fix rec tick now bs v r
    assume IH: "\<And>tick now bs v r. rec tick now bs v = Some r \<Longrightarrow> ?P tick now bs v r"
      and r: "(if now < tick then Some (None, v\<lparr>currentTick := now\<rparr>)
        else case bs ! unat (wheel_idx v tick) of
            [] \<Rightarrow> rec (tick + 1) now bs v
          | t # ts \<Rightarrow>
              let w1 = timer_remove t (v\<lparr>buckets := Some (bs[unat (wheel_idx v tick) := ts])\<rparr>)
              in Some (Some t, if ts = [] then w1\<lparr>currentTick := tick\<rparr> else w1)) = Some r"
    show "?P tick now bs v r"
      using r IH by (auto simp: same_clock_def timer_remove_def Let_def split: if_splits list.splits)
  qed
  then show ?thesis
    by simp
qed

lemma apply_wheel_call_clock:
  assumes "apply_wheel_call c w = Some (r, t, w')"
  shows "same_clock w w'"
proof (cases c)
  case (NextExpired now)
  then show ?thesis
    using assms expired_from_clock
    by (auto simp: nextExpired_def same_clock_def split: option.splits if_splits prod.splits)
qed (use assms in \<open>auto simp: wheel_insert_def wheel_remove_def wheel_update_def same_clock_def Let_def timer_remove_def
    split: prod.splits option.splits if_splits\<close>)

lemma run_wheel_clock:
  assumes "run_wheel cs w = Some (rs, w')"
  shows "same_clock w w'"
  using assms
proof (induction cs arbitrary: w rs)
  case Nil
  then show ?case
    by (simp add: same_clock_def)
next
  case (Cons c cs)
  then obtain r t w1 ss where "apply_wheel_call c w = Some (r, t, w1)" "run_wheel cs w1 = Some (ss, w')"
    by (auto split: option.splits)
  then show ?case
    using Cons.IH apply_wheel_call_clock by (metis same_clock_def)
qed

lemma run_spec_clock:
  assumes "same_clock w w'"
  shows "run_spec w' cs q = run_spec w cs q" "all_in_time w' cs q = all_in_time w cs q"
proof -
  have call: "spec_call w' c q = spec_call w c q" for c q
    using same_clock_ticks [OF assms] by (cases c) (simp_all split: option.split)
  moreover have "in_time w' c q = in_time w c q" for c q
    by (cases c) (simp_all add: same_clock_ticks [OF assms])
  ultimately show "run_spec w' cs q = run_spec w cs q" "all_in_time w' cs q = all_in_time w cs q"
    by (induction cs arbitrary: q) (simp_all split: prod.splits)
qed

lemma apply_wheel_call_spec:
  assumes rep: "represents w q" and ok: "in_time w c q"
  shows "\<exists>w'. apply_wheel_call c w = Some (fst (fst (spec_call w c q)), snd (fst (spec_call w c q)), w') \<and>
    represents w' (snd (spec_call w c q))"
proof (cases c)
  case (InsertTimer t d now)
  then show ?thesis
    using wheel_insert_spec [OF rep, of now d "the t"] ok rep
    by (cases t) (auto simp: wheel_insert_def [of None] split: prod.splits)
next
  case (RemoveTimer t)
  then show ?thesis
    using wheel_remove_spec [OF rep, of "the t"] rep
    by (cases t) (auto simp: wheel_remove_def [of None] split: prod.splits)
next
  case (UpdateTimer t d now)
  then show ?thesis
    using wheel_update_spec [OF rep, of now d "the t"] ok rep
    by (cases t) (auto simp: wheel_update_def [of None] split: prod.splits)
next
  case (NextExpired now)
  then show ?thesis
    using nextExpired_spec [OF rep, of now] ok
    by (auto split: prod.splits)
qed

lemma run_wheel_spec:
  assumes "represents w q" "all_in_time w cs q"
  shows "\<exists>w'. run_wheel cs w = Some (fst (run_spec w cs q), w') \<and> represents w' (snd (run_spec w cs q))"
  using assms
proof (induction cs arbitrary: w q)
  case (Cons c cs)
  obtain r q1 where s: "spec_call w c q = (r, q1)"
    by fastforce
  then obtain w1 where w1: "apply_wheel_call c w = Some (fst r, snd r, w1)" "represents w1 q1"
    using apply_wheel_call_spec [OF Cons.prems(1), of c] Cons.prems(2) by auto
  note clock = run_spec_clock [OF apply_wheel_call_clock [OF w1(1)]]
  show ?case
    using Cons.IH [OF w1(2)] Cons.prems(2) s w1(1) clock by (auto split: prod.splits)
qed simp

lemma new_wheel_represents:
  assumes "0 < n" "n < 2 ^ 31" "0 < ms"
  shows "represents (new_timing_wheel n ms start True) \<lparr>expiredTo = 0, span = unat n, due = []\<rparr>"
  using assms sint_nonneg_iff [of "- 1"]
  by (auto simp: represents_def new_timing_wheel_def inTimingWheel_def at_tick_def word_less_nat_alt)

lemma set_concat_nth: "t \<in> set (concat xss) \<longleftrightarrow> (\<exists>i < length xss. t \<in> set (xss ! i))"
  by (metis (no_types, lifting) UN_iff in_set_conv_nth set_concat)

lemma distinct_buckets:
  assumes "\<And>i. i < length xss \<Longrightarrow> distinct (xss ! i) \<and> (\<forall>t \<in> set (xss ! i). f t = i + m)"
  shows "distinct (concat xss)"
  using assms
proof (induction xss arbitrary: m)
  case (Cons xs xss)
  have later: "distinct (xss ! i) \<and> (\<forall>t \<in> set (xss ! i). f t = i + Suc m)" if "i < length xss" for i
    using Cons.prems [of "Suc i"] that by simp
  then have "distinct (concat xss)"
    by (rule Cons.IH)
  moreover have "m < f t" if "t \<in> set (concat xss)" for t
    using that later unfolding set_concat_nth by fastforce
  ultimately show ?case
    using Cons.prems [of 0] by fastforce
qed simp

lemma wheel_clear_spec:
  assumes rep: "represents w q"
  shows "set (fst (wheel_clear w)) = snd ` set (due q)" "distinct (fst (wheel_clear w))"
    "represents (snd (wheel_clear w)) (q\<lparr>due := []\<rparr>)"
proof -
  obtain bs where bs: "buckets w = Some bs" "length bs = span q" "\<forall>k. in_window q k \<longrightarrow> bs ! (k mod span q) = at_tick k q"
    using represents_buckets [OF rep] by blast
  note D = representsD [OF rep]
  have bucket: "\<exists>k. in_window q k \<and> k mod span q = i \<and> bs ! i = at_tick k q" if "i < span q" for i
  proof -
    have "(i + expiredTo q * span q) mod span q = i" "expiredTo q \<le> i + expiredTo q * span q"
      using that by (simp, cases "span q") auto
    then show ?thesis
      using window_for [OF D(1), of "i + expiredTo q * span q"] bs(3) by metis
  qed
  have mem: "t \<in> set (at_tick k q) \<longleftrightarrow> (k, t) \<in> set (due q)" for k t
    by (force simp: at_tick_def)
  have sub: "distinct (bs ! i) \<and> (\<forall>t \<in> set (bs ! i). tick_nat w t mod span q = i + 0)" if i: "i < length bs" for i
  proof -
    obtain k where "in_window q k" "k mod span q = i" "bs ! i = at_tick k q"
      using bucket [of i] i bs(2) by auto
    moreover have "tick_nat w t = k" if "t \<in> set (at_tick k q)" for t
      using D(7) [of k t] that mem by simp
    ultimately show ?thesis
      using distinct_at_tick [OF D(6), of k] by simp
  qed
  have "distinct (concat bs)"
    by (rule distinct_buckets [OF sub])
  then show "distinct (fst (wheel_clear w))"
    using bs by (simp add: wheel_clear_def)
  have set_bs: "set (concat bs) = snd ` set (due q)"
  proof (intro equalityI subsetI)
    fix t
    assume "t \<in> set (concat bs)"
    then obtain i where "i < length bs" "t \<in> set (bs ! i)"
      unfolding set_concat_nth by blast
    moreover from this obtain k where "bs ! i = at_tick k q"
      using bucket [of i] bs(2) by auto
    ultimately have "(k, t) \<in> set (due q)"
      using mem by simp
    then show "t \<in> snd ` set (due q)"
      by force
  next
    fix t
    assume "t \<in> snd ` set (due q)"
    then obtain k where k: "(k, t) \<in> set (due q)"
      by auto
    then have "t \<in> set (bs ! (k mod span q))"
      using D(7) [OF k] bs(3) mem by (simp add: in_window_def)
    moreover have "k mod span q < length bs"
      using D(1) bs(2) by simp
    ultimately show "t \<in> set (concat bs)"
      unfolding set_concat_nth by blast
  qed
  then show "set (fst (wheel_clear w)) = snd ` set (due q)"
    using bs by (simp add: wheel_clear_def)
  define w0 where "w0 = w\<lparr>buckets := Some (map (\<lambda>_. []) bs)\<rparr>"
  have folded: "fold timer_remove ts v = v\<lparr>timerTick := (\<lambda>t. if t \<in> set ts then - 1 else timerTick v t)\<rparr>" for ts v
    by (induction ts arbitrary: v) (auto simp: timer_remove_def setTick_def fun_eq_iff)
  have "snd (wheel_clear w) = w0\<lparr>timerTick := (\<lambda>t. if t \<in> set (concat bs) then - 1 else timerTick w0 t)\<rparr>"
    using bs unfolding wheel_clear_def w0_def by (simp add: folded)
  note this [unfolded set_bs]
  moreover have "\<not> 0 \<le>s timerTick w t" if "t \<notin> snd ` set (due q)" for t
    using D(8) [of t] that by (simp add: inTimingWheel_def)
  ultimately show "represents (snd (wheel_clear w)) (q\<lparr>due := []\<rparr>)"
    using D bs sint_nonneg_iff [of "- 1"]
    by (intro representsI [OF rep, where bs = "map (\<lambda>_. []) bs"])
       (auto simp: w0_def inTimingWheel_def at_tick_def set_bs)
qed

section \<open>Time\<close>

text \<open>
  The seconds and the fraction of a second are divided by the length of a tick apart, so the tick of a
  moment is its number of milliseconds divided by that length, or one less.
\<close>

lemma unat_wheel_ticks:
  assumes "0 < tickMilliSeconds w" "unat (seconds d) * 1000 + 1000 \<le> 2 ^ 32" "normal d"
  shows "unat (wheel_ticks w d) =
    unat (seconds d) * 1000 div unat (tickMilliSeconds w) + unat (microSeconds d) div 1000 div unat (tickMilliSeconds w)"
proof -
  let ?T = "unat (tickMilliSeconds w)" and ?s = "unat (seconds d) * 1000" and ?u = "unat (microSeconds d) div 1000"
  have "unat (seconds d * 1000) = ?s"
    using assms(2) by (simp add: unat_word_ariths)
  then have a: "unat (seconds d * 1000 div tickMilliSeconds w) = ?s div ?T"
    by (simp add: unat_div)
  have b: "unat (microSeconds d div 1000 div tickMilliSeconds w) = ?u div ?T"
    by (simp add: unat_div)
  have "?u < 1000" "?s div ?T \<le> ?s" "?u div ?T \<le> ?u"
    using assms(3) by (simp_all add: normal_nat less_mult_imp_div_less)
  then have "?s div ?T + ?u div ?T < 2 ^ 32"
    using assms(2) by linarith
  then have "unat (seconds d * 1000 div tickMilliSeconds w) + unat (microSeconds d div 1000 div tickMilliSeconds w) < 2 ^ LENGTH(32)"
    unfolding a b by simp
  then show ?thesis
    unfolding wheel_ticks_def unat_add_lem by (simp only: a b)
qed

lemma tick_bounds:
  assumes "0 < (T :: nat)"
  shows "T * (a div T + b div T) \<le> a + b" "a + b < T * (a div T + b div T) + 2 * T"
proof -
  have "a = T * (a div T) + a mod T" "b = T * (b div T) + b mod T" "a mod T < T" "b mod T < T"
    using assms by simp_all
  then show "T * (a div T + b div T) \<le> a + b" "a + b < T * (a div T + b div T) + 2 * T"
    unfolding add_mult_distrib2 by linarith+
qed

lemma milliseconds:
  assumes "x \<le> s * 1000 + u div 1000" "s * 1000 + u div 1000 + 1 \<le> (y :: nat)"
  shows "1000 * x \<le> s * 1000000 + u" "s * 1000000 + u < 1000 * y"
proof -
  obtain q r where "u = 1000 * q + r" "r < 1000" "q = u div 1000"
    by (metis mod_less_divisor mult_div_mod_eq zero_less_numeral)
  then show "1000 * x \<le> s * 1000000 + u" "s * 1000000 + u < 1000 * y"
    using assms by simp_all
qed

lemma tick_at_bounds:
  fixes w now
  defines "T \<equiv> unat (tickMilliSeconds w)" and "M \<equiv> micros now - micros (wheelStart w)"
  assumes "0 < tickMilliSeconds w" "normal now" "normal (wheelStart w)" "micros (wheelStart w) \<le> micros now" "M < 1000 * 2 ^ 31"
  shows "1000 * (T * tick_at w now) \<le> M" "M < 1000 * (T * tick_at w now + 2 * T)"
proof -
  let ?d = "date_minus now (wheelStart w)"
  have M: "M = unat (seconds ?d) * 1000000 + unat (microSeconds ?d)" and n: "normal ?d"
    using micros_minus [of now "wheelStart w"] minus_normal [of now "wheelStart w"] assms(4-6)
    by (simp_all add: M_def micros_def)
  then have tick: "tick_at w now = unat (seconds ?d) * 1000 div T + unat (microSeconds ?d) div 1000 div T"
    using unat_wheel_ticks [OF assms(3), of ?d] assms(7) by (simp add: tick_at_def now_tick_def T_def)
  have T: "0 < T"
    using assms(3) by (simp add: T_def word_less_nat_alt)
  have b: "T * tick_at w now \<le> unat (seconds ?d) * 1000 + unat (microSeconds ?d) div 1000"
      "unat (seconds ?d) * 1000 + unat (microSeconds ?d) div 1000 + 1 \<le> T * tick_at w now + 2 * T"
    using tick_bounds [OF T, of "unat (seconds ?d) * 1000" "unat (microSeconds ?d) div 1000"]
    unfolding tick by simp_all
  show "1000 * (T * tick_at w now) \<le> M" "M < 1000 * (T * tick_at w now + 2 * T)"
    unfolding M by (rule milliseconds [OF b])+
qed

lemma elapsed:
  assumes "1000 * a \<le> x - s" "x - s < 1000 * (a + 2 * T)" "1000 * b \<le> y - s" "y - s < 1000 * (b + 2 * T)"
    and "k \<le> d" "d < k + T" "s \<le> x" "x \<le> (y :: nat)"
  shows "a + k \<le> b \<Longrightarrow> x + 1000 * d < y + 3000 * T" "x + 1000 * d + 2000 * T \<le> y \<Longrightarrow> a + k \<le> b"
proof -
  obtain p where p: "x = s + p"
    using assms(7) le_Suc_ex by blast
  obtain r where r: "y = s + r"
    using assms(7,8) le_Suc_ex le_trans by blast
  have "p < 1000 * a + 2000 * T" "1000 * a \<le> p" "r < 1000 * b + 2000 * T" "1000 * b \<le> r" "k \<le> d" "d < k + T"
    using assms p r by simp_all
  then show "a + k \<le> b \<Longrightarrow> x + 1000 * d < y + 3000 * T" "x + 1000 * d + 2000 * T \<le> y \<Longrightarrow> a + k \<le> b"
    unfolding p r by simp_all
qed

lemma due_between:
  fixes w now now2 d
  defines "T \<equiv> unat (tickMilliSeconds w)"
  assumes "0 < tickMilliSeconds w" "normal now" "normal now2" "normal (wheelStart w)"
    and "micros (wheelStart w) \<le> micros now" "micros now \<le> micros now2"
    and "micros now2 - micros (wheelStart w) < 1000 * 2 ^ 31"
  shows "due_at w now d \<le> tick_at w now2 \<Longrightarrow> micros now + 1000 * unat d < micros now2 + 3000 * T"
    "micros now + 1000 * unat d + 2000 * T \<le> micros now2 \<Longrightarrow> due_at w now d \<le> tick_at w now2"
proof -
  have T: "0 < T"
    using assms(2) by (simp add: T_def word_less_nat_alt)
  have b1: "1000 * (T * tick_at w now) \<le> micros now - micros (wheelStart w)"
      "micros now - micros (wheelStart w) < 1000 * (T * tick_at w now + 2 * T)"
    using tick_at_bounds [of w now, folded T_def] assms by simp_all
  have b2: "1000 * (T * tick_at w now2) \<le> micros now2 - micros (wheelStart w)"
      "micros now2 - micros (wheelStart w) < 1000 * (T * tick_at w now2 + 2 * T)"
    using tick_at_bounds [of w now2, folded T_def] assms by simp_all
  define k where "k = unat d div T"
  have "unat d = T * k + unat d mod T" "unat d mod T < T"
    using T by (simp_all add: k_def)
  then have k: "T * k \<le> unat d" "unat d < T * k + T"
    by linarith+
  have due: "due_at w now d = tick_at w now + k"
    by (simp add: due_at_def k_def T_def unat_div)
  have mult: "due_at w now d \<le> tick_at w now2 \<longleftrightarrow> T * tick_at w now + T * k \<le> T * tick_at w now2"
    using T by (simp add: due flip: add_mult_distrib2)
  show "micros now + 1000 * unat d < micros now2 + 3000 * T" if "due_at w now d \<le> tick_at w now2"
    using elapsed(1) [OF b1 b2 k assms(6,7)] that mult by simp
  show "due_at w now d \<le> tick_at w now2" if "micros now + 1000 * unat d + 2000 * T \<le> micros now2"
    using elapsed(2) [OF b1 b2 k assms(6,7)] that mult by simp
qed

section \<open>The loop of the multiplexer\<close>

lemma sorted_takeWhile:
  fixes es :: "due_timer list"
  assumes "sorted (map fst es)"
  shows "takeWhile (\<lambda>e. fst e \<le> k) es = filter (\<lambda>e. fst e \<le> k) es"
    "set (dropWhile (\<lambda>e. fst e \<le> k) es) = {e \<in> set es. k < fst e}"
proof -
  have later: "\<forall>e \<in> set es. k < fst e" if "sorted (map fst (d # es))" "\<not> fst d \<le> k" for d and es :: "due_timer list"
    using that by auto
  show "takeWhile (\<lambda>e. fst e \<le> k) es = filter (\<lambda>e. fst e \<le> k) es"
    using assms by (induction es) (use later in \<open>auto simp: filter_empty_conv not_le\<close>)
  show "set (dropWhile (\<lambda>e. fst e \<le> k) es) = {e \<in> set es. k < fst e}"
    using assms by (induction es) (use later in \<open>auto simp: not_le\<close>)
qed

lemma run_spec_span: "span (snd (run_spec w cs q)) = span q"
proof (induction cs arbitrary: q)
  case (Cons c cs)
  have "span (snd (spec_call w c q)) = span q"
    by (cases c) (auto simp: spec_insert_def spec_remove_def spec_update_def spec_expired_def split: option.splits list.splits)
  then show ?case
    using Cons.IH by (simp split: prod.splits) (metis snd_conv)
qed simp

text \<open>\<open>checkIdleSockets\<close> takes timers from the wheel until none is due.\<close>

partial_function (option) expired_timers :: "date \<Rightarrow> timing_wheel \<Rightarrow> (nat list \<times> timing_wheel) option" where
  "expired_timers now w =
     (case nextExpired now w of
        None \<Rightarrow> None
      | Some (e, None, w1) \<Rightarrow> Some ([], w1)
      | Some (e, Some t, w1) \<Rightarrow> Option.bind (expired_timers now w1) (\<lambda>(ts, w2). Some (t # ts, w2)))"

declare expired_timers.simps [code]

lemma expired_timers_spec:
  assumes "represents w q" "expiredTo q \<le> tick_at w now" "tick_at w now + span q < 2 ^ 31"
  shows "\<exists>w' q'. expired_timers now w = Some (map snd (takeWhile (\<lambda>e. fst e \<le> tick_at w now) (due q)), w') \<and>
    represents w' q' \<and> due q' = dropWhile (\<lambda>e. fst e \<le> tick_at w now) (due q) \<and>
    expiredTo q' = tick_at w now \<and> span q' = span q"
  using assms
proof (induction "due q" arbitrary: w q)
  case Nil
  then show ?case
    using Nil.hyps [symmetric] nextExpired_spec [OF Nil.prems]
    by (subst expired_timers.simps) (force simp: spec_expired_def)
next
  case (Cons e es)
  obtain k t where q: "due q = (k, t) # es"
    using Cons.hyps(2) by (metis prod.collapse)
  show ?case
  proof (cases "k \<le> tick_at w now")
    case False
    then show ?thesis
      using nextExpired_spec [OF Cons.prems] q
      by (subst expired_timers.simps) (force simp: spec_expired_def)
  next
    case True
    define q1 where "q1 = snd (spec_expired (tick_at w now) q)"
    have q1: "due q1 = es" "span q1 = span q" "expiredTo q1 \<le> tick_at w now"
      using q True Cons.prems(2) by (auto simp: q1_def spec_expired_def)
    obtain w1 where w1: "nextExpired now w = Some (ESB_SUCCESS, Some t, w1)" "represents w1 q1"
      using nextExpired_spec [OF Cons.prems] q True by (auto simp: q1_def spec_expired_def)
    have tick: "tick_at w1 = tick_at w"
      using apply_wheel_call_clock [of "NextExpired now" w] w1(1) same_clock_ticks by auto
    obtain w2 q2 where "expired_timers now w1 = Some (map snd (takeWhile (\<lambda>e. fst e \<le> tick_at w now) es), w2)"
        "represents w2 q2" "due q2 = dropWhile (\<lambda>e. fst e \<le> tick_at w now) es"
        "expiredTo q2 = tick_at w now" "span q2 = span q"
      using Cons.hyps(1) [OF q1(1) [symmetric] w1(2)] Cons.prems(3) q1 tick by auto
    then show ?thesis
      using w1(1) q True by (subst expired_timers.simps) auto
  qed
qed

end
