(* ===== verification/BaseProperties.thy ===== *)
theory BaseProperties
  imports EmbeddedList TimerQueue
begin

text \<open>
  The properties of the base library: the intrusive lists and the timing wheel. The theories imported
  prove them call by call; here they are stated over whole runs.
\<close>

section \<open>Intrusive lists\<close>

fun run_list_calls :: "list_call list \<Rightarrow> links \<times> embedded_list list \<Rightarrow> nat list \<times> links \<times> embedded_list list" where
  "run_list_calls [] st = ([], st)"
| "run_list_calls (c # cs) st =
     (case apply_list_call c st of (r, st1) \<Rightarrow> case run_list_calls cs st1 of (rs, st2) \<Rightarrow> (r # rs, st2))"

fun run_list_specs :: "list_call list \<Rightarrow> nat list list \<Rightarrow> nat list \<times> nat list list" where
  "run_list_specs [] xss = ([], xss)"
| "run_list_specs (c # cs) xss =
     (case list_call_spec c xss of (r, xss1) \<Rightarrow> case run_list_specs cs xss1 of (rs, xss2) \<Rightarrow> (r # rs, xss2))"

fun legal_list_calls :: "list_call list \<Rightarrow> nat list list \<Rightarrow> bool" where
  "legal_list_calls [] xss \<longleftrightarrow> True"
| "legal_list_calls (c # cs) xss \<longleftrightarrow> legal_list_call c xss \<and> legal_list_calls cs (snd (list_call_spec c xss))"

lemma run_list_calls_linked:
  assumes "lists_linked st xss" "legal_list_calls cs xss"
  shows "fst (run_list_calls cs st) = fst (run_list_specs cs xss) \<and>
    lists_linked (snd (run_list_calls cs st)) (snd (run_list_specs cs xss))"
  using assms
proof (induction cs arbitrary: st xss)
  case (Cons c cs)
  then show ?case
    using apply_list_call_refines [OF Cons.prems(1), of c] Cons.IH
    by (simp split: prod.splits) (metis prod.collapse fst_conv snd_conv)
qed simp

text \<open>What a caller can see of list \<open>i\<close>: its size, its elements by index and the answer of \<open>validate\<close>.\<close>

definition list_view :: "nat \<Rightarrow> links \<times> embedded_list list \<Rightarrow> int option \<times> (int \<Rightarrow> nat option) \<times> bool option" where
  "list_view i st =
     (case st of (h, ls) \<Rightarrow> (list_size h (ls ! i), list_index h (ls ! i), list_validate h (ls ! i)))"

text \<open>C21. Several intrusive lists share one store of links. Starting from empty lists, every
  sequence of insertions and removals that respects the rule that an element is in one list at most
  answers the elements that the same sequence answers on HOL lists, and afterwards every list has the
  size and the elements of its HOL list and validates: no operation on a list disturbs another, and no
  traversal runs into a cycle.\<close>

theorem embedded_lists_refine:
  assumes "legal_list_calls cs (replicate n [])"
    and "run_list_specs cs (replicate n []) = (rs, xss)" "i < n"
  shows "fst (run_list_calls cs (h, replicate n new_embedded_list)) = rs \<and>
    list_view i (snd (run_list_calls cs (h, replicate n new_embedded_list))) =
      (Some (int (length (xss ! i))),
       \<lambda>k. Some (if 0 \<le> k \<and> nat k < length (xss ! i) then xss ! i ! nat k else 0), Some True)"
proof -
  have "lists_linked (h, replicate n new_embedded_list) (replicate n [])"
    by (simp add: lists_linked_def apart_def linked_def new_embedded_list_def)
  note run = run_list_calls_linked [OF this assms(1)]
  obtain h' ls where st: "snd (run_list_calls cs (h, replicate n new_embedded_list)) = (h', ls)"
    by fastforce
  have "length (snd (run_list_specs cs yss)) = length yss" for yss
  proof (induction cs arbitrary: yss)
    case (Cons c cs)
    have "length (snd (list_call_spec c yss)) = length yss"
      by (cases c) simp_all
    then show ?case
      using Cons.IH by (simp split: prod.splits) (metis snd_conv)
  qed simp
  then have "length xss = n"
    by (metis assms(2) length_replicate snd_conv)
  then have "linked h' (ls ! i) (xss ! i)"
    using run assms(2,3) st by (simp add: lists_linked_def)
  then show ?thesis
    using run assms(2) st by (simp add: list_view_def list_reads_linked fun_eq_iff)
qed

theorem embedded_lists_refine_witness:
  "\<exists>h. fst (run_list_calls [AddLast 0 1, AddFirst 0 2, AddLast 1 3, Remove 0 1, AddLast 1 1, RemoveFirst 1]
      (h, replicate 2 new_embedded_list)) = [0, 0, 0, 0, 0, 3]"
  using embedded_lists_refine [of "[AddLast 0 1, AddFirst 0 2, AddLast 1 3, Remove 0 1, AddLast 1 1, RemoveFirst 1]" 2
      "[0, 0, 0, 0, 0, 3]" "[[2], [1]]" 0]
  by (auto simp: numeral_2_eq_2 first_or_def)

section \<open>Dates\<close>

text \<open>On dates whose microseconds are below a million, the six comparisons are those of the number of
  microseconds, addition adds them as long as the seconds fit in 32 bits, subtraction of an earlier date
  subtracts them, and subtraction undoes addition even where the seconds wrap.\<close>

theorem dates_are_times:
  assumes "normal a" "normal b"
  shows "(date_less a b \<longleftrightarrow> micros a < micros b) \<and> (date_less_eq a b \<longleftrightarrow> micros a \<le> micros b) \<and>
    (date_greater a b \<longleftrightarrow> micros a > micros b) \<and> (date_greater_eq a b \<longleftrightarrow> micros a \<ge> micros b) \<and>
    (date_equal a b \<longleftrightarrow> micros a = micros b) \<and> (date_unequal a b \<longleftrightarrow> micros a \<noteq> micros b) \<and>
    normal (date_plus a b) \<and> normal (date_minus a b) \<and>
    (micros a + micros b < 2 ^ 32 * 1000000 \<longrightarrow> micros (date_plus a b) = micros a + micros b) \<and>
    (micros b \<le> micros a \<longrightarrow> micros (date_minus a b) = micros a - micros b) \<and>
    date_minus (date_plus a b) b = a"
  using assms
  by (auto simp: date_orders date_less_micros date_equal_micros plus_normal minus_normal micros_plus micros_minus minus_plus)

theorem dates_are_times_witness:
  "micros (date_minus \<lparr>seconds = 7, microSeconds = 200000\<rparr> \<lparr>seconds = 5, microSeconds = 300000\<rparr>) = 1900000"
  using dates_are_times [of "\<lparr>seconds = 7, microSeconds = 200000\<rparr>" "\<lparr>seconds = 5, microSeconds = 300000\<rparr>"]
  by (simp add: normal_def micros_def)

section \<open>The timing wheel\<close>

abbreviation (input) empty_spec :: "u32 \<Rightarrow> timer_spec" where
  "empty_spec n \<equiv> \<lparr>expiredTo = 0, span = unat n, due = []\<rparr>"

text \<open>C19. The timing wheel refines its queue: over every sequence of calls, the rejected ones included,
  it answers the same error codes and the same expired timers, as long as the clock does not run
  backwards and the ticks fit in 31 bits. In particular every call of \<open>nextExpired\<close> returns.\<close>

theorem timing_wheel_refines_queue:
  assumes "0 < n" "n < 2 ^ 31" "0 < ms"
    and "all_in_time (new_timing_wheel n ms start True) cs (empty_spec n)"
  shows "map_option fst (run_wheel cs (new_timing_wheel n ms start True)) =
    Some (fst (run_spec (new_timing_wheel n ms start True) cs (empty_spec n)))"
  using run_wheel_spec [OF new_wheel_represents [OF assms(1-3), of start] assms(4)] by auto

definition wheel_example :: "wheel_call list" where
  "wheel_example =
     (let at = (\<lambda>ms. \<lparr>seconds = 100, microSeconds = ms * 1000\<rparr>)
      in [InsertTimer (Some 7) 3 (at 0), InsertTimer (Some 8) 2 (at 0), InsertTimer (Some 7) 1 (at 0),
          InsertTimer (Some 9) 40 (at 0), InsertTimer (Some 9) 0 (at 0), RemoveTimer None, NextExpired (at 1),
          UpdateTimer (Some 8) 2 (at 1), NextExpired (at 5), NextExpired (at 5), NextExpired (at 5)])"

lemmas wheel_simps =
  wheel_example_def Let_def due_at_def tick_at_def now_tick_def wheel_ticks_def date_minus_def new_timing_wheel_def
  spec_insert_def spec_remove_def spec_update_def spec_expired_def spec_enqueue_def spec_drop_def

theorem timing_wheel_refines_queue_witness:
  "map_option fst (run_wheel wheel_example (new_timing_wheel 8 1 \<lparr>seconds = 100, microSeconds = 0\<rparr> True)) =
    Some [(ESB_SUCCESS, None), (ESB_SUCCESS, None), (ESB_INVALID_ARGUMENT, None), (ESB_OVERFLOW, None),
      (ESB_UNDERFLOW, None), (ESB_NULL_POINTER, None), (ESB_SUCCESS, None), (ESB_SUCCESS, None),
      (ESB_SUCCESS, Some 7), (ESB_SUCCESS, Some 8), (ESB_SUCCESS, None)]"
proof -
  let ?w = "new_timing_wheel 8 1 \<lparr>seconds = 100, microSeconds = 0\<rparr> True"
  have "all_in_time ?w wheel_example (empty_spec 8)"
    by (simp add: wheel_simps)
  moreover have "fst (run_spec ?w wheel_example (empty_spec 8)) =
    [(ESB_SUCCESS, None), (ESB_SUCCESS, None), (ESB_INVALID_ARGUMENT, None), (ESB_OVERFLOW, None),
      (ESB_UNDERFLOW, None), (ESB_NULL_POINTER, None), (ESB_SUCCESS, None), (ESB_SUCCESS, None),
      (ESB_SUCCESS, Some 7), (ESB_SUCCESS, Some 8), (ESB_SUCCESS, None)]"
    by (simp add: wheel_simps)
  ultimately show ?thesis
    using timing_wheel_refines_queue [of 8 1 "\<lparr>seconds = 100, microSeconds = 0\<rparr>" wheel_example] by simp
qed

text \<open>C20. After any such sequence of calls, the loop of the multiplexer that takes expired timers until
  there is none gets exactly the timers that are due, in the order of their ticks and of their insertion,
  and leaves exactly the others in the wheel: none is lost, none comes early.\<close>

theorem expired_timers_exact:
  assumes "0 < n" "n < 2 ^ 31" "0 < ms"
    and "all_in_time (new_timing_wheel n ms start True) cs (empty_spec n)"
    and "run_spec (new_timing_wheel n ms start True) cs (empty_spec n) = (rs, q)"
    and "run_wheel cs (new_timing_wheel n ms start True) = Some (rs, w)"
    and "expiredTo q \<le> tick_at w now" "tick_at w now + unat n < 2 ^ 31"
  shows "\<exists>w'. expired_timers now w = Some (map snd (filter (\<lambda>e. fst e \<le> tick_at w now) (due q)), w') \<and>
    sorted (map fst (due q)) \<and> (\<forall>t. inTimingWheel w t \<longleftrightarrow> t \<in> snd ` set (due q)) \<and>
    (\<forall>t. inTimingWheel w' t \<longleftrightarrow> t \<in> snd ` {e \<in> set (due q). tick_at w now < fst e})"
proof -
  have rep: "represents w q"
    using run_wheel_spec [OF new_wheel_represents [OF assms(1-3), of start] assms(4)] assms(5,6) by simp
  have "span q = unat n"
    using run_spec_span [of "new_timing_wheel n ms start True" cs "empty_spec n"] assms(5) by simp
  then obtain w' q' where run: "expired_timers now w = Some (map snd (takeWhile (\<lambda>e. fst e \<le> tick_at w now) (due q)), w')"
      "represents w' q'" "due q' = dropWhile (\<lambda>e. fst e \<le> tick_at w now) (due q)"
    using expired_timers_spec [OF rep assms(7)] assms(8) by auto
  then show ?thesis
    using sorted_takeWhile [OF representsD(5) [OF rep], of "tick_at w now"] representsD(5,8) [OF rep] representsD(8) [OF run(2)] by simp
qed

definition two_timers :: "wheel_call list" where
  "two_timers =
     [InsertTimer (Some 7) 3 \<lparr>seconds = 100, microSeconds = 0\<rparr>, InsertTimer (Some 8) 2 \<lparr>seconds = 100, microSeconds = 0\<rparr>,
      InsertTimer (Some 9) 6 \<lparr>seconds = 100, microSeconds = 0\<rparr>]"

theorem expired_timers_exact_witness:
  "\<exists>w w'. run_wheel two_timers (new_timing_wheel 8 1 \<lparr>seconds = 100, microSeconds = 0\<rparr> True) = Some ([(ESB_SUCCESS, None), (ESB_SUCCESS, None), (ESB_SUCCESS, None)], w) \<and>
    expired_timers \<lparr>seconds = 100, microSeconds = 4000\<rparr> w = Some ([8, 7], w') \<and> inTimingWheel w' 9"
proof -
  let ?w0 = "new_timing_wheel 8 1 \<lparr>seconds = 100, microSeconds = 0\<rparr> True"
    and ?now = "\<lparr>seconds = 100, microSeconds = 4000\<rparr>"
    and ?q = "\<lparr>expiredTo = 0, span = 8, due = [(2, 8), (3, 7), (6, 9)]\<rparr>"
  have ok: "all_in_time ?w0 two_timers (empty_spec 8)"
    by (simp add: wheel_simps two_timers_def)
  have spec: "run_spec ?w0 two_timers (empty_spec 8) = ([(ESB_SUCCESS, None), (ESB_SUCCESS, None), (ESB_SUCCESS, None)], ?q)"
    by (simp add: wheel_simps two_timers_def)
  obtain w where w: "run_wheel two_timers ?w0 = Some ([(ESB_SUCCESS, None), (ESB_SUCCESS, None), (ESB_SUCCESS, None)], w)" "represents w ?q"
    using run_wheel_spec [OF new_wheel_represents [of 8 1] ok] spec by auto
  have tick: "tick_at w ?now = 4"
    using run_wheel_clock [OF w(1)] by (simp add: same_clock_def tick_at_def now_tick_def wheel_ticks_def date_minus_def new_timing_wheel_def)
  show ?thesis
    using expired_timers_exact [of 8 1, OF _ _ _ ok spec w(1), of ?now] w(1) tick by force
qed

text \<open>C22. A timer comes on time. Put into a fresh wheel with a delay of \<open>d\<close> milliseconds, it does not
  expire before \<open>d\<close> less three ticks have passed, since the start and the delay are rounded down, and
  it expires at the latest with the first call after \<open>d\<close> and two ticks. Times of up to twelve days.\<close>

theorem timers_on_time:
  assumes "0 < n" "n \<le> 2 ^ 30" "0 < ms" "normal start" "normal now" "normal later"
    and "micros start \<le> micros now" "micros now \<le> micros later" "micros later - micros start < 1000 * 2 ^ 30"
    and "unat d < 2 ^ 30" "wheel_insert (Some t) d now (new_timing_wheel n ms start True) = (ESB_SUCCESS, w)"
  shows "\<exists>r w'. nextExpired later w = Some (ESB_SUCCESS, r, w') \<and>
    (r = Some t \<longrightarrow> micros now + 1000 * unat d < micros later + 3000 * unat ms) \<and>
    (micros now + 1000 * unat d + 2000 * unat ms \<le> micros later \<longrightarrow> r = Some t)"
proof -
  let ?w0 = "new_timing_wheel n ms start True"
  have n31: "n < 2 ^ 31"
    using assms(2) by (simp add: word_less_nat_alt word_le_nat_alt)
  have clock: "wheelStart ?w0 = start" "tickMilliSeconds ?w0 = ms"
    by (simp_all add: new_timing_wheel_def)
  have small: "tick_at ?w0 x < 2 ^ 30" if "normal x" "micros start \<le> micros x" "micros x - micros start < 1000 * 2 ^ 30" for x
  proof -
    have "1000 * (unat ms * tick_at ?w0 x) < 1000 * 2 ^ 30"
      using tick_at_bounds(1) [of ?w0 x] that assms(3,4) clock by simp
    moreover have "tick_at ?w0 x \<le> unat ms * tick_at ?w0 x"
      using assms(3) by (simp add: word_less_nat_alt)
    ultimately show ?thesis
      by linarith
  qed
  have "unat (d div ms) \<le> unat d"
    by (simp add: unat_div)
  moreover have "micros now - micros start < 1000 * 2 ^ 30"
    using assms(8,9) by linarith
  ultimately have due: "due_at ?w0 now d < 2 ^ 31"
    using small [of now] assms(5,7,10) clock by (simp add: due_at_def)
  note rep = wheel_insert_spec [OF new_wheel_represents [OF assms(1) n31 assms(3), of start] due, of t]
  then have "fst (spec_insert (due_at ?w0 now d) t (empty_spec n)) = ESB_SUCCESS"
    using assms(11) by simp
  then have "snd (spec_insert (due_at ?w0 now d) t (empty_spec n)) = (empty_spec n)\<lparr>due := [(due_at ?w0 now d, t)]\<rparr>"
    by (auto simp: spec_insert_def spec_enqueue_def split: if_splits)
  then have q: "represents w ((empty_spec n)\<lparr>due := [(due_at ?w0 now d, t)]\<rparr>)"
    using rep assms(11) by simp
  have "same_clock ?w0 w"
    using apply_wheel_call_clock [of "InsertTimer (Some t) d now" ?w0] assms(11) by simp
  then have tick: "tick_at w = tick_at ?w0"
    by (simp add: same_clock_ticks)
  have "tick_at ?w0 later + unat n < 2 ^ 31"
    using small [of later] assms(2,6-9) by (simp add: word_le_nat_alt)
  then obtain w' where "nextExpired later w =
      Some (ESB_SUCCESS, if due_at ?w0 now d \<le> tick_at ?w0 later then Some t else None, w')"
    using nextExpired_spec [OF q, of later] tick by (auto simp: spec_expired_def split: if_splits)
  moreover have m31: "micros later - micros start < 1000 * 2 ^ 31"
    using assms(9) by simp
  moreover have "due_at ?w0 now d \<le> tick_at ?w0 later \<Longrightarrow> micros now + 1000 * unat d < micros later + 3000 * unat ms"
      "micros now + 1000 * unat d + 2000 * unat ms \<le> micros later \<Longrightarrow> due_at ?w0 now d \<le> tick_at ?w0 later"
    using due_between [of ?w0 now later d] assms(3-8) m31 by (simp_all only: clock)
  ultimately show ?thesis
    by auto
qed

theorem timers_on_time_witness:
  "\<exists>w w'. wheel_insert (Some 7) 25 \<lparr>seconds = 5, microSeconds = 0\<rparr> (new_timing_wheel 8 10 \<lparr>seconds = 5, microSeconds = 0\<rparr> True)
      = (ESB_SUCCESS, w) \<and>
    nextExpired \<lparr>seconds = 5, microSeconds = 45000\<rparr> w = Some (ESB_SUCCESS, Some 7, w')"
proof -
  let ?start = "\<lparr>seconds = 5, microSeconds = 0\<rparr>" and ?later = "\<lparr>seconds = 5, microSeconds = 45000\<rparr>"
  obtain e w where w: "wheel_insert (Some 7) 25 ?start (new_timing_wheel 8 10 ?start True) = (e, w)"
    by fastforce
  then have e: "e = ESB_SUCCESS"
    by (auto simp: wheel_insert_def inTimingWheel_def now_tick_def wheel_ticks_def date_minus_def new_timing_wheel_def
      word_sle_eq Let_def split: if_splits)
  have "normal ?start" "normal ?later" "micros ?start = 5000000" "micros ?later = 5045000"
    by (simp_all add: normal_def micros_def)
  then show ?thesis
    using timers_on_time [of 8 10 ?start ?start ?later 25 7 w] w e by auto
qed

text \<open>The milliseconds since the start of the wheel are computed in 32 bits. After 49.7 days they
  start again from zero: at 4294968 seconds every wheel, whatever timers are due in it, answers that
  none has expired and sets its clock back.\<close>

theorem clock_starts_again:
  assumes "0 < tickMilliSeconds w" "tickMilliSeconds w \<le> 4294967000"
    and "currentTick w = now_tick w (date_plus_seconds (wheelStart w) 4294967)"
  shows "nextExpired (date_plus_seconds (wheelStart w) 4294968) w =
      Some (ESB_SUCCESS, None, w\<lparr>currentTick := 704 div tickMilliSeconds w\<rparr>) \<and>
    704 div tickMilliSeconds w < currentTick w"
proof -
  have tick: "now_tick w (date_plus_seconds (wheelStart w) k) = k * 1000 div tickMilliSeconds w" for k
    by (simp add: now_tick_def wheel_ticks_def date_minus_def date_plus_seconds_def)
  let ?T = "unat (tickMilliSeconds w)"
  have T: "0 < ?T" "?T \<le> 4294967000"
    using assms(1,2) by (simp_all add: word_less_nat_alt word_le_nat_alt)
  have "704 div ?T < 4294967000 div ?T"
  proof (cases "?T \<le> 704")
    case True
    have "704 div ?T \<le> 704"
      by simp
    also have "704 < (4294967000 :: nat) div 704"
      by simp
    also have "\<dots> \<le> 4294967000 div ?T"
      using T(1) True by (rule div_le_mono2)
    finally show ?thesis .
  next
    case False
    then show ?thesis
      using T by (simp add: div_greater_zero_iff)
  qed
  then have less: "704 div tickMilliSeconds w < 4294967000 div tickMilliSeconds w"
    by (simp add: word_less_nat_alt unat_div)
  have wrap: "(4294968 :: u32) * 1000 = 704"
    by (simp add: word_unat_eq_iff)
  have now: "now_tick w (date_plus_seconds (wheelStart w) 4294968) = 704 div tickMilliSeconds w"
      "currentTick w = 4294967000 div tickMilliSeconds w"
    using assms(3) tick [of 4294967] by (simp_all only: tick wrap) simp
  have "expired_from (4294967000 div tickMilliSeconds w) (704 div tickMilliSeconds w) bs w =
      Some (None, w\<lparr>currentTick := 704 div tickMilliSeconds w\<rparr>)" for bs
    using less by (subst expired_from.simps) simp
  then show ?thesis
    using now less by (simp add: nextExpired_def split: option.split)
qed

theorem clock_starts_again_witness:
  "\<exists>w :: timing_wheel. tickMilliSeconds w = 1000 \<and> currentTick w = 4294967 \<and>
    nextExpired \<lparr>seconds = 4294968, microSeconds = 0\<rparr> w = Some (ESB_SUCCESS, None, w\<lparr>currentTick := 0\<rparr>)"
proof -
  define w where "w = (new_timing_wheel 60 1000 \<lparr>seconds = 0, microSeconds = 0\<rparr> True)\<lparr>currentTick := 4294967\<rparr>"
  have fields: "tickMilliSeconds w = 1000" "wheelStart w = \<lparr>seconds = 0, microSeconds = 0\<rparr>" "currentTick w = 4294967"
    by (simp_all add: w_def new_timing_wheel_def)
  have "nextExpired (date_plus_seconds (wheelStart w) 4294968) w =
      Some (ESB_SUCCESS, None, w\<lparr>currentTick := 704 div tickMilliSeconds w\<rparr>) \<and> 704 div tickMilliSeconds w < currentTick w"
    by (rule clock_starts_again)
      (simp_all add: fields now_tick_def wheel_ticks_def date_minus_def date_plus_seconds_def)
  then show ?thesis
    using fields by (intro exI [of _ w]) (simp add: date_plus_seconds_def)
qed

text \<open>A delay near $2^{32}$ milliseconds is not rejected but wraps, and the timer expires at once.\<close>

lemma huge_delay_expires:
  "\<exists>w w'. wheel_insert (Some 7) 4294966300 \<lparr>seconds = 1, microSeconds = 0\<rparr>
      (new_timing_wheel 8 1 \<lparr>seconds = 0, microSeconds = 0\<rparr> True) = (ESB_SUCCESS, w) \<and> tick_nat w 7 = 4"
  by (simp add: wheel_insert_def inTimingWheel_def now_tick_def wheel_ticks_def date_minus_def new_timing_wheel_def
      word_sle_eq Let_def tick_nat_def)

end
