(* ===== verification/ProxyHandler.thy ===== *)
theory ProxyHandler
  imports ServerSocket ClientSocket
begin

text \<open>
  \<open>ES::HttpRoutingProxyHandler\<close> (data-plane/proxy/source/ESHttpRoutingProxyHandler.cpp): the handler that
  relays a request from a server stream to a client stream and the response back. The two streams of a
  relayed exchange share a \<open>HttpRoutingProxyContext\<close>, whose address both keep as their context.

  The handler knows the streams only through their interfaces, HttpServerStream and HttpClientStream, and
  calls the multiplexer and a router. These are the record \<open>streams\<close>, on a world that also holds the
  contexts: a call on a stream may run its state machine and call the handler again. Streams and client
  transactions are numbers. The use of a context that does not exist any more is UNDEFINED_BEHAVIOUR.
\<close>

section \<open>Contexts\<close>

record proxy_context =
  pxServerStream :: "nat option"
  pxClientStream :: "nat option"
  pxFlags :: u32
  requestBodyBytesForwarded :: u64
  responseBodyBytesForwarded :: u64

record proxy_world =
  proxyContexts :: "(u64 \<times> proxy_context) list"

definition new_proxy_context :: proxy_context where
  "new_proxy_context =
     \<lparr>pxServerStream = None, pxClientStream = None, pxFlags = 0, requestBodyBytesForwarded = 0,
      responseBodyBytesForwarded = 0\<rparr>"

definition receivedOutboundResponse :: "proxy_context \<Rightarrow> bool" where
  "receivedOutboundResponse c \<longleftrightarrow> pxFlags c AND 1 \<noteq> 0"

definition setReceivedOutboundResponse :: "bool \<Rightarrow> proxy_context \<Rightarrow> proxy_context" where
  "setReceivedOutboundResponse b c = c\<lparr>pxFlags := (if b then pxFlags c OR 1 else pxFlags c AND NOT 1)\<rparr>"

definition addRequestBodyBytesForwarded :: "u64 \<Rightarrow> proxy_context \<Rightarrow> proxy_context" where
  "addRequestBodyBytesForwarded n c = c\<lparr>requestBodyBytesForwarded := requestBodyBytesForwarded c + n\<rparr>"

definition addResponseBodyBytesForwarded :: "u64 \<Rightarrow> proxy_context \<Rightarrow> proxy_context" where
  "addResponseBodyBytesForwarded n c = c\<lparr>responseBodyBytesForwarded := responseBodyBytesForwarded c + n\<rparr>"

text \<open>
  The contexts are a store of their own, by address. Their memory is that of the allocator of the server
  transaction; the reset of that allocator does not change the store, but the next transaction gets the same
  address and so overwrites what is there.
\<close>

definition context_at :: "u64 \<Rightarrow> 'z proxy_world_scheme \<Rightarrow> proxy_context option" where
  "context_at a w = map_of (proxyContexts w) a"

definition put_context :: "u64 \<Rightarrow> proxy_context \<Rightarrow> 'z proxy_world_scheme \<Rightarrow> 'z proxy_world_scheme" where
  "put_context a c w = w\<lparr>proxyContexts := (a, c) # filter (\<lambda>e. fst e \<noteq> a) (proxyContexts w)\<rparr>"

definition destroy_context :: "u64 \<Rightarrow> 'z proxy_world_scheme \<Rightarrow> 'z proxy_world_scheme" where
  "destroy_context a w = w\<lparr>proxyContexts := filter (\<lambda>e. fst e \<noteq> a) (proxyContexts w)\<rparr>"

text \<open>\<open>context->set...()\<close> through an address.\<close>

definition modify_context ::
  "u64 \<Rightarrow> (proxy_context \<Rightarrow> proxy_context) \<Rightarrow> 'z proxy_world_scheme \<Rightarrow> 'z proxy_world_scheme option" where
  "modify_context a f w = map_option (\<lambda>c. put_context a (f c) w) (context_at a w)"

section \<open>The interfaces of the streams\<close>

record 'w streams =
  serverContext :: "nat \<Rightarrow> 'w \<Rightarrow> u64"
  setServerContext :: "nat \<Rightarrow> u64 \<Rightarrow> 'w \<Rightarrow> 'w"
  serverAllocate :: "nat \<Rightarrow> 'w \<Rightarrow> u64 \<times> 'w"
  serverPauseRecv :: "nat \<Rightarrow> bool \<Rightarrow> 'w \<Rightarrow> error \<times> 'w"
  serverResumeRecv :: "nat \<Rightarrow> bool \<Rightarrow> 'w \<Rightarrow> error \<times> 'w"
  serverPauseSend :: "nat \<Rightarrow> bool \<Rightarrow> 'w \<Rightarrow> error \<times> 'w"
  serverResumeSend :: "nat \<Rightarrow> bool \<Rightarrow> 'w \<Rightarrow> error \<times> 'w"
  serverAbort :: "nat \<Rightarrow> 'w \<Rightarrow> error \<times> 'w"
  serverSendEmptyResponse :: "nat \<Rightarrow> int \<Rightarrow> string \<Rightarrow> 'w \<Rightarrow> error \<times> 'w"
  serverSendResponse :: "nat \<Rightarrow> http_response \<Rightarrow> 'w \<Rightarrow> error \<times> 'w"
  serverSendResponseBody :: "nat \<Rightarrow> u8 list \<Rightarrow> u64 \<Rightarrow> 'w \<Rightarrow> error \<times> u64 \<times> 'w"
  serverRequestBodyAvailable :: "nat \<Rightarrow> 'w \<Rightarrow> error \<times> u64 \<times> 'w"
  serverReadRequestBody :: "nat \<Rightarrow> u64 \<Rightarrow> 'w \<Rightarrow> error \<times> u8 list \<times> u64 \<times> 'w"
  clientContext :: "nat \<Rightarrow> 'w \<Rightarrow> u64"
  setClientContext :: "nat \<Rightarrow> u64 \<Rightarrow> 'w \<Rightarrow> 'w"
  clientResponse :: "nat \<Rightarrow> 'w \<Rightarrow> http_response"
  clientPauseRecv :: "nat \<Rightarrow> bool \<Rightarrow> 'w \<Rightarrow> error \<times> 'w"
  clientResumeRecv :: "nat \<Rightarrow> bool \<Rightarrow> 'w \<Rightarrow> error \<times> 'w"
  clientPauseSend :: "nat \<Rightarrow> bool \<Rightarrow> 'w \<Rightarrow> error \<times> 'w"
  clientResumeSend :: "nat \<Rightarrow> bool \<Rightarrow> 'w \<Rightarrow> error \<times> 'w"
  clientAbort :: "nat \<Rightarrow> 'w \<Rightarrow> error \<times> 'w"
  clientSendRequestBody :: "nat \<Rightarrow> u8 list \<Rightarrow> u64 \<Rightarrow> 'w \<Rightarrow> error \<times> u64 \<times> 'w"
  clientResponseBodyAvailable :: "nat \<Rightarrow> 'w \<Rightarrow> error \<times> u64 \<times> 'w"
  clientReadResponseBody :: "nat \<Rightarrow> u64 \<Rightarrow> 'w \<Rightarrow> error \<times> u8 list \<times> u64 \<times> 'w"

text \<open>
  The multiplexer's client transactions, and the router, which answers an address \<open>'d\<close>.
  \<open>copyRequest\<close> is \<open>request().copy\<close> from a server stream into a client transaction.
\<close>

record ('w, 'd) proxy_env = "'w streams" +
  createClientTransaction :: "'w \<Rightarrow> nat option \<times> 'w"
  destroyClientTransaction :: "nat \<Rightarrow> 'w \<Rightarrow> 'w"
  executeClientTransaction :: "nat \<Rightarrow> 'w \<Rightarrow> error \<times> 'w"
  copyRequest :: "nat \<Rightarrow> nat \<Rightarrow> 'w \<Rightarrow> error \<times> 'w"
  setPeerAddress :: "nat \<Rightarrow> 'd \<Rightarrow> 'w \<Rightarrow> 'w"
  setTransactionContext :: "nat \<Rightarrow> u64 \<Rightarrow> 'w \<Rightarrow> 'w"
  route :: "nat \<Rightarrow> nat \<Rightarrow> 'w \<Rightarrow> error \<times> 'd \<times> 'w"

section \<open>The routers\<close>

text \<open>\<open>HttpFixedRouter\<close> always answers its own destination.\<close>

definition fixed_route :: "'d \<Rightarrow> nat \<Rightarrow> nat \<Rightarrow> 'w \<Rightarrow> error \<times> 'd \<times> 'w" where
  "fixed_route destination s t w = (ESB_SUCCESS, destination, w)"

text \<open>
  \<open>SynchronousDnsHttpRouter\<close> takes host and port from the request, in a buffer of 256 octets, and asks a
  resolver. \<open>requestOf\<close> is the request of a client transaction, \<open>none\<close> the address it started with.
\<close>

definition dns_route ::
  "(nat \<Rightarrow> 'w \<Rightarrow> http_request) \<Rightarrow> (cstr \<Rightarrow> u16 \<Rightarrow> bool \<Rightarrow> 'w \<Rightarrow> error \<times> 'd \<times> 'w) \<Rightarrow> 'd \<Rightarrow> nat \<Rightarrow> nat \<Rightarrow> 'w
    \<Rightarrow> error \<times> 'd \<times> 'w" where
  "dns_route requestOf resolve none s t w =
     (case parsePeerAddress (requestOf t w) 256 of
        (e, name, num, tls) \<Rightarrow>
          if e \<noteq> ESB_SUCCESS then (e, none, w)
          else
            resolve (case name of None \<Rightarrow> [] | Some h \<Rightarrow> h) (case num of None \<Rightarrow> 0 | Some p \<Rightarrow> p)
              (case tls of None \<Rightarrow> False | Some b \<Rightarrow> b) w)"

section \<open>Flow control\<close>

text \<open>\<open>onClientRecvBlocked\<close> and so on: resume the side that is waited for, then pause the side that waits.\<close>

definition hand_over :: "('w \<Rightarrow> error \<times> 'w) \<Rightarrow> ('w \<Rightarrow> error \<times> 'w) \<Rightarrow> 'w \<Rightarrow> error \<times> 'w" where
  "hand_over resume pause w =
     (case resume w of (e, w1) \<Rightarrow> if e \<noteq> ESB_SUCCESS then (e, w1) else pause w1)"

definition onClientRecvBlocked :: "('w, 'z) streams_scheme \<Rightarrow> nat \<Rightarrow> nat \<Rightarrow> 'w \<Rightarrow> error \<times> 'w" where
  "onClientRecvBlocked env s c = hand_over (clientResumeRecv env c True) (serverPauseSend env s True)"

definition onServerRecvBlocked :: "('w, 'z) streams_scheme \<Rightarrow> nat \<Rightarrow> nat \<Rightarrow> 'w \<Rightarrow> error \<times> 'w" where
  "onServerRecvBlocked env s c = hand_over (serverResumeRecv env s True) (clientPauseSend env c True)"

definition onClientSendBlocked :: "('w, 'z) streams_scheme \<Rightarrow> nat \<Rightarrow> nat \<Rightarrow> 'w \<Rightarrow> error \<times> 'w" where
  "onClientSendBlocked env s c = hand_over (clientResumeSend env c True) (serverPauseRecv env s True)"

definition onServerSendBlocked :: "('w, 'z) streams_scheme \<Rightarrow> nat \<Rightarrow> nat \<Rightarrow> 'w \<Rightarrow> error \<times> 'w" where
  "onServerSendBlocked env s c = hand_over (serverResumeSend env s True) (clientPauseRecv env c True)"

text \<open>A callback that blocks answers \<open>r\<close> unless the hand-over fails.\<close>

definition blocked :: "error \<Rightarrow> error \<times> 'w \<Rightarrow> error \<times> 'w" where
  "blocked r res = (case res of (e, w) \<Rightarrow> (if e \<noteq> ESB_SUCCESS then relay_error e else r, w))"

section \<open>The callbacks of the server stream\<close>

type_synonym ('z, 'd) proxy = "('z proxy_world_scheme, 'd) proxy_env"

text \<open>\<open>beginTransaction\<close> of a server stream; the allocator answers 0 when it has no memory.\<close>

definition proxy_beginServer ::
  "('z, 'd) proxy \<Rightarrow> nat \<Rightarrow> 'z proxy_world_scheme \<Rightarrow> error \<times> 'z proxy_world_scheme" where
  "proxy_beginServer env s w =
     (case serverAllocate env s w of (a, w1) \<Rightarrow>
        if a = 0 then (ESB_OUT_OF_MEMORY, w1)
        else
          (ESB_SUCCESS,
           put_context a (new_proxy_context\<lparr>pxServerStream := Some s\<rparr>)
             (setServerContext env s a (put_context a new_proxy_context w1))))"

definition copy_error_response ::
  "('z, 'd) proxy \<Rightarrow> nat \<Rightarrow> error \<Rightarrow> 'z proxy_world_scheme \<Rightarrow> error \<times> 'z proxy_world_scheme" where
  "copy_error_response env s e w =
     (if e = ESB_INVALID_FIELD then serverSendEmptyResponse env s 400 ''Bad Request'' w
      else serverSendEmptyResponse env s 500 ''Internal Server Error'' w)"

definition route_error_response ::
  "('z, 'd) proxy \<Rightarrow> nat \<Rightarrow> error \<Rightarrow> 'z proxy_world_scheme \<Rightarrow> error \<times> 'z proxy_world_scheme" where
  "route_error_response env s e w =
     (if e = ESB_CANNOT_FIND then serverSendEmptyResponse env s 404 ''Not Found'' w
      else if e = ESB_NOT_OWNER then serverSendEmptyResponse env s 403 ''Forbidden'' w
      else serverSendEmptyResponse env s 500 ''Internal Server Error'' w)"

text \<open>The server stream is paused in both directions until the response comes, and the transaction is started.\<close>

definition start_client_transaction ::
  "('z, 'd) proxy \<Rightarrow> nat \<Rightarrow> nat \<Rightarrow> u64 \<Rightarrow> 'd \<Rightarrow> 'z proxy_world_scheme \<Rightarrow> error \<times> 'z proxy_world_scheme" where
  "start_client_transaction env s t a destination w =
     (case serverPauseRecv env s False w of (e1, w1) \<Rightarrow>
      case (if e1 = ESB_SUCCESS then serverPauseSend env s True w1 else (e1, w1)) of (e2, w2) \<Rightarrow>
        if e2 \<noteq> ESB_SUCCESS then (e2, destroyClientTransaction env t w2)
        else
          case executeClientTransaction env t
                 (setTransactionContext env t a (setPeerAddress env t destination w2)) of (e3, w3) \<Rightarrow>
            if e3 \<noteq> ESB_SUCCESS
            then serverSendEmptyResponse env s 500 ''Internal Server Error'' (destroyClientTransaction env t w3)
            else (ESB_PAUSE, w3))"

definition proxy_receiveRequestHeaders ::
  "('z, 'd) proxy \<Rightarrow> nat \<Rightarrow> 'z proxy_world_scheme \<Rightarrow> error \<times> 'z proxy_world_scheme" where
  "proxy_receiveRequestHeaders env s w =
     (let a = serverContext env s w in
      if a = 0 then (ESB_INVALID_STATE, w)
      else
        case context_at a w of
          None \<Rightarrow> (UNDEFINED_BEHAVIOUR, w)
        | Some c \<Rightarrow>
            if pxServerStream c = None then (ESB_INVALID_STATE, w)
            else
              case createClientTransaction env w of
                (None, w1) \<Rightarrow> serverSendEmptyResponse env s 500 ''Internal Server Error'' w1
              | (Some t, w1) \<Rightarrow>
                  (case copyRequest env s t w1 of (e, w2) \<Rightarrow>
                     if e \<noteq> ESB_SUCCESS then copy_error_response env s e (destroyClientTransaction env t w2)
                     else
                       case route env s t w2 of (e1, destination, w3) \<Rightarrow>
                         if e1 \<noteq> ESB_SUCCESS then route_error_response env s e1 w3
                         else start_client_transaction env s t a destination w3))"

text \<open>
  The body callbacks. \<open>body\<close> is None for a NULL pointer. A count that the code does not write is 0, as the
  sockets initialise it.
\<close>

definition count_forwarded ::
  "u64 \<Rightarrow> (u64 \<Rightarrow> proxy_context \<Rightarrow> proxy_context) \<Rightarrow> u64 \<Rightarrow> 'z proxy_world_scheme \<Rightarrow> 'z proxy_world_scheme option" where
  "count_forwarded a f n w = (if 0 < n then modify_context a (f n) w else Some w)"

definition proxy_consumeRequestBody ::
  "('z, 'd) proxy \<Rightarrow> nat \<Rightarrow> u8 list option \<Rightarrow> u64 \<Rightarrow> 'z proxy_world_scheme
    \<Rightarrow> error \<times> u64 \<times> 'z proxy_world_scheme" where
  "proxy_consumeRequestBody env s body offered w =
     (case body of
        None \<Rightarrow> (ESB_NULL_POINTER, 0, w)
      | Some os \<Rightarrow>
          let a = serverContext env s w in
          if a = 0 then (ESB_INVALID_STATE, 0, w)
          else
            case context_at a w of
              None \<Rightarrow> (UNDEFINED_BEHAVIOUR, 0, w)
            | Some c \<Rightarrow>
                (case pxClientStream c of
                   None \<Rightarrow> (ESB_INVALID_STATE, 0, w)
                 | Some k \<Rightarrow>
                     if \<not> receivedOutboundResponse c then
                       (case blocked ESB_AGAIN (onClientSendBlocked env s k w) of (e, w1) \<Rightarrow> (e, 0, w1))
                     else
                       case clientSendRequestBody env k os offered w of (e, n, w1) \<Rightarrow>
                         (case count_forwarded a addRequestBodyBytesForwarded n w1 of
                            None \<Rightarrow> (UNDEFINED_BEHAVIOUR, n, w1)
                          | Some w2 \<Rightarrow>
                              if e = ESB_PAUSE then
                                (case blocked ESB_PAUSE (onServerRecvBlocked env s k w2) of (e1, w3) \<Rightarrow> (e1, n, w3))
                              else if e = ESB_AGAIN then
                                (case blocked ESB_AGAIN (onClientSendBlocked env s k w2) of (e1, w3) \<Rightarrow> (e1, n, w3))
                              else (e, n, w2))))"

definition proxy_offerResponseBody ::
  "('z, 'd) proxy \<Rightarrow> nat \<Rightarrow> 'z proxy_world_scheme \<Rightarrow> error \<times> u64 \<times> 'z proxy_world_scheme" where
  "proxy_offerResponseBody env s w =
     (let a = serverContext env s w in
      if a = 0 then (ESB_INVALID_STATE, 0, w)
      else
        case context_at a w of
          None \<Rightarrow> (UNDEFINED_BEHAVIOUR, 0, w)
        | Some c \<Rightarrow>
            (case pxClientStream c of
               None \<Rightarrow> (ESB_INVALID_STATE, 0, w)
             | Some k \<Rightarrow>
                 case clientResponseBodyAvailable env k w of (e, n, w1) \<Rightarrow>
                   if e = ESB_PAUSE then
                     (case blocked ESB_PAUSE (onServerSendBlocked env s k w1) of (e1, w2) \<Rightarrow> (e1, n, w2))
                   else if e = ESB_AGAIN then
                     (case blocked ESB_AGAIN (onClientRecvBlocked env s k w1) of (e1, w2) \<Rightarrow> (e1, n, w2))
                   else (e, n, w1)))"

text \<open>After a hand-over the code goes on as if all octets had been read.\<close>

definition proxy_produceResponseBody ::
  "('z, 'd) proxy \<Rightarrow> nat \<Rightarrow> bool \<Rightarrow> u64 \<Rightarrow> 'z proxy_world_scheme
    \<Rightarrow> error \<times> u8 list \<times> 'z proxy_world_scheme" where
  "proxy_produceResponseBody env s body_null requested w =
     (if body_null then (ESB_NULL_POINTER, [], w)
      else if requested = 0 then (ESB_INVALID_ARGUMENT, [], w)
      else
        let a = serverContext env s w in
        if a = 0 then (ESB_INVALID_STATE, [], w)
        else
          case context_at a w of
            None \<Rightarrow> (UNDEFINED_BEHAVIOUR, [], w)
          | Some c \<Rightarrow>
              (case pxClientStream c of
                 None \<Rightarrow> (ESB_INVALID_STATE, [], w)
               | Some k \<Rightarrow>
                   case clientReadResponseBody env k requested w of (e, os, n, w1) \<Rightarrow>
                     (case (if e = ESB_PAUSE then blocked ESB_SUCCESS (onServerSendBlocked env s k w1)
                            else if e = ESB_AGAIN then blocked ESB_SUCCESS (onClientRecvBlocked env s k w1)
                            else (e, w1)) of (e1, w2) \<Rightarrow>
                        if e1 \<noteq> ESB_SUCCESS then (e1, os, w2)
                        else
                          case modify_context a (addResponseBodyBytesForwarded n) w2 of
                            None \<Rightarrow> (UNDEFINED_BEHAVIOUR, os, w2)
                          | Some w3 \<Rightarrow> (ESB_SUCCESS, os, w3))))"

section \<open>The callbacks of the client stream\<close>

definition proxy_beginClient ::
  "('z, 'd) proxy \<Rightarrow> nat \<Rightarrow> 'z proxy_world_scheme \<Rightarrow> error \<times> 'z proxy_world_scheme" where
  "proxy_beginClient env k w =
     (let a = clientContext env k w in
      if a = 0 then (ESB_INVALID_STATE, w)
      else
        case context_at a w of
          None \<Rightarrow> (UNDEFINED_BEHAVIOUR, w)
        | Some c \<Rightarrow>
            if pxServerStream c = None then (ESB_INVALID_STATE, w)
            else (ESB_SUCCESS, put_context a (c\<lparr>pxClientStream := Some k\<rparr>) w))"

text \<open>The server stream is prepared for reuse once the response has been sent.\<close>

definition prepare_reuse ::
  "('z, 'd) proxy \<Rightarrow> nat \<Rightarrow> 'z proxy_world_scheme \<Rightarrow> error \<times> 'z proxy_world_scheme" where
  "prepare_reuse env s w =
     (case serverResumeRecv env s False w of (e, w1) \<Rightarrow>
        if e \<noteq> ESB_SUCCESS then (relay_error e, w1)
        else case serverPauseSend env s True w1 of (e1, w2) \<Rightarrow>
          (if e1 \<noteq> ESB_SUCCESS then relay_error e1 else ESB_SUCCESS, w2))"

definition proxy_receiveResponseHeaders ::
  "('z, 'd) proxy \<Rightarrow> nat \<Rightarrow> 'z proxy_world_scheme \<Rightarrow> error \<times> 'z proxy_world_scheme" where
  "proxy_receiveResponseHeaders env k w =
     (let a = clientContext env k w in
      if a = 0 then (ESB_INVALID_STATE, w)
      else
        case context_at a w of
          None \<Rightarrow> (UNDEFINED_BEHAVIOUR, w)
        | Some c \<Rightarrow>
            (case (pxServerStream c, pxClientStream c) of
               (Some s, Some _) \<Rightarrow>
                 (let w1 = put_context a (setReceivedOutboundResponse True c) w in
                  case serverResumeRecv env s True w1 of (e, w2) \<Rightarrow>
                    if e \<noteq> ESB_SUCCESS then (e, w2)
                    else
                      case serverSendResponse env s (clientResponse env k w2) w2 of (e1, w3) \<Rightarrow>
                        if e1 = ESB_PAUSE then blocked ESB_PAUSE (onClientRecvBlocked env s k w3)
                        else if e1 = ESB_AGAIN then blocked ESB_AGAIN (onServerSendBlocked env s k w3)
                        else if e1 \<noteq> ESB_SUCCESS then (e1, w3)
                        else
                          case prepare_reuse env s w3 of (e2, w4) \<Rightarrow>
                            if e2 \<noteq> ESB_SUCCESS then (e2, w4)
                            else (if 300 \<le> statusCode (clientResponse env k w4) then ESB_CLOSED else ESB_SUCCESS, w4))
             | _ \<Rightarrow> (ESB_INVALID_STATE, w)))"

definition proxy_offerRequestBody ::
  "('z, 'd) proxy \<Rightarrow> nat \<Rightarrow> 'z proxy_world_scheme \<Rightarrow> error \<times> u64 \<times> 'z proxy_world_scheme" where
  "proxy_offerRequestBody env k w =
     (let a = clientContext env k w in
      if a = 0 then (ESB_INVALID_STATE, 0, w)
      else
        case context_at a w of
          None \<Rightarrow> (UNDEFINED_BEHAVIOUR, 0, w)
        | Some c \<Rightarrow>
            (case pxServerStream c of
               None \<Rightarrow> (ESB_INVALID_STATE, 0, w)
             | Some s \<Rightarrow>
                 case serverRequestBodyAvailable env s w of (e, n, w1) \<Rightarrow>
                   if e = ESB_PAUSE then
                     (case blocked ESB_PAUSE (onClientSendBlocked env s k w1) of (e1, w2) \<Rightarrow> (e1, n, w2))
                   else if e = ESB_AGAIN then
                     (case blocked ESB_AGAIN (onServerRecvBlocked env s k w1) of (e1, w2) \<Rightarrow> (e1, n, w2))
                   else (e, n, w1)))"

definition proxy_produceRequestBody ::
  "('z, 'd) proxy \<Rightarrow> nat \<Rightarrow> bool \<Rightarrow> u64 \<Rightarrow> 'z proxy_world_scheme
    \<Rightarrow> error \<times> u8 list \<times> 'z proxy_world_scheme" where
  "proxy_produceRequestBody env k body_null requested w =
     (if body_null then (ESB_NULL_POINTER, [], w)
      else if requested = 0 then (ESB_INVALID_ARGUMENT, [], w)
      else
        let a = clientContext env k w in
        if a = 0 then (ESB_INVALID_STATE, [], w)
        else
          case context_at a w of
            None \<Rightarrow> (UNDEFINED_BEHAVIOUR, [], w)
          | Some c \<Rightarrow>
              (case pxServerStream c of
                 None \<Rightarrow> (ESB_INVALID_STATE, [], w)
               | Some s \<Rightarrow>
                   case serverReadRequestBody env s requested w of (e, os, n, w1) \<Rightarrow>
                     (case (if e = ESB_PAUSE then blocked ESB_SUCCESS (onClientSendBlocked env s k w1)
                            else if e = ESB_AGAIN then blocked ESB_SUCCESS (onServerRecvBlocked env s k w1)
                            else (e, w1)) of (e1, w2) \<Rightarrow>
                        if e1 \<noteq> ESB_SUCCESS then (e1, os, w2)
                        else
                          case modify_context a (addRequestBodyBytesForwarded n) w2 of
                            None \<Rightarrow> (UNDEFINED_BEHAVIOUR, os, w2)
                          | Some w3 \<Rightarrow> (ESB_SUCCESS, os, w3))))"

definition proxy_consumeResponseBody ::
  "('z, 'd) proxy \<Rightarrow> nat \<Rightarrow> u8 list option \<Rightarrow> u64 \<Rightarrow> 'z proxy_world_scheme
    \<Rightarrow> error \<times> u64 \<times> 'z proxy_world_scheme" where
  "proxy_consumeResponseBody env k body offered w =
     (case body of
        None \<Rightarrow> (ESB_NULL_POINTER, 0, w)
      | Some os \<Rightarrow>
          let a = clientContext env k w in
          if a = 0 then (ESB_INVALID_STATE, 0, w)
          else
            case context_at a w of
              None \<Rightarrow> (UNDEFINED_BEHAVIOUR, 0, w)
            | Some c \<Rightarrow>
                (case pxServerStream c of
                   None \<Rightarrow> (ESB_INVALID_STATE, 0, w)
                 | Some s \<Rightarrow>
                     case serverSendResponseBody env s os offered w of (e, n, w1) \<Rightarrow>
                       (case count_forwarded a addResponseBodyBytesForwarded n w1 of
                          None \<Rightarrow> (UNDEFINED_BEHAVIOUR, n, w1)
                        | Some w2 \<Rightarrow>
                            if e = ESB_SUCCESS then
                              (ESB_SUCCESS, n,
                               if offered = 0
                               then snd (serverPauseSend env s True (snd (serverResumeRecv env s False w2)))
                               else w2)
                            else if e = ESB_PAUSE then
                              (case blocked ESB_PAUSE (onClientRecvBlocked env s k w2) of (e1, w3) \<Rightarrow> (e1, n, w3))
                            else if e = ESB_AGAIN then
                              (case blocked ESB_AGAIN (onServerSendBlocked env s k w2) of (e1, w3) \<Rightarrow> (e1, n, w3))
                            else (e, n, w2))))"

definition proxy_endRequest :: "nat \<Rightarrow> 'w \<Rightarrow> error \<times> 'w" where
  "proxy_endRequest k w = (ESB_SUCCESS, w)"

definition proxy_acceptConnection :: "'w \<Rightarrow> error \<times> 'w" where
  "proxy_acceptConnection w = (ESB_SUCCESS, w)"

section \<open>The end of a transaction\<close>

text \<open>
  The context is destroyed when the other stream does not refer to it any more. A transaction that has
  failed takes the other stream down with it: \<open>abort\<close> removes that stream from the multiplexer, which
  calls the handler for its end before it returns.
  The code reads the context again after that; ESB_SUCCESS as result means that all such reads were of a
  live context.
\<close>

definition unpair ::
  "u64 \<Rightarrow> (proxy_context \<Rightarrow> proxy_context) \<Rightarrow> (proxy_context \<Rightarrow> nat option) \<Rightarrow> (nat \<Rightarrow> 'z proxy_world_scheme \<Rightarrow> u64)
    \<Rightarrow> 'z proxy_world_scheme \<Rightarrow> error \<times> 'z proxy_world_scheme" where
  "unpair a forget partner contextOf w =
     (case modify_context a forget w of
        None \<Rightarrow> (UNDEFINED_BEHAVIOUR, w)
      | Some w1 \<Rightarrow>
          (case context_at a w1 of
             None \<Rightarrow> (UNDEFINED_BEHAVIOUR, w1)
           | Some c \<Rightarrow>
               (ESB_SUCCESS,
                case partner c of None \<Rightarrow> destroy_context a w1
                | Some x \<Rightarrow> if contextOf x w1 = 0 then destroy_context a w1 else w1)))"

definition proxy_endClient ::
  "('z, 'd) proxy \<Rightarrow> nat \<Rightarrow> client_end_state \<Rightarrow> 'z proxy_world_scheme \<Rightarrow> error \<times> 'z proxy_world_scheme" where
  "proxy_endClient env k st w =
     (let a = clientContext env k w in
      if a = 0 then (ESB_SUCCESS, w)
      else
        case modify_context a (pxClientStream_update (\<lambda>_. None)) w of
          None \<Rightarrow> (UNDEFINED_BEHAVIOUR, w)
        | Some w1 \<Rightarrow>
            let w2 = setClientContext env k 0 w1 in
            case context_at a w2 of
              None \<Rightarrow> (UNDEFINED_BEHAVIOUR, w2)
            | Some c \<Rightarrow>
                (case (if st = ES_HTTP_CLIENT_HANDLER_END then None else pxServerStream c) of
                   None \<Rightarrow> unpair a id pxServerStream (serverContext env) w2
                 | Some s \<Rightarrow>
                     unpair a (pxServerStream_update (\<lambda>_. None)) pxServerStream (serverContext env)
                       (snd (serverAbort env s w2))))"

definition proxy_endServer ::
  "('z, 'd) proxy \<Rightarrow> nat \<Rightarrow> end_state \<Rightarrow> 'z proxy_world_scheme \<Rightarrow> error \<times> 'z proxy_world_scheme" where
  "proxy_endServer env s st w =
     (let a = serverContext env s w in
      if a = 0 then (ESB_SUCCESS, w)
      else
        case modify_context a (pxServerStream_update (\<lambda>_. None)) w of
          None \<Rightarrow> (UNDEFINED_BEHAVIOUR, w)
        | Some w1 \<Rightarrow>
            let w2 = setServerContext env s 0 w1 in
            case context_at a w2 of
              None \<Rightarrow> (UNDEFINED_BEHAVIOUR, w2)
            | Some c \<Rightarrow>
                (case (if st = ES_HTTP_SERVER_HANDLER_END then None else pxClientStream c) of
                   None \<Rightarrow> unpair a id pxClientStream (clientContext env) w2
                 | Some k \<Rightarrow>
                     unpair a (pxClientStream_update (\<lambda>_. None)) pxClientStream (clientContext env)
                       (snd (clientAbort env k w2))))"

end
