(* ===== verification/ProxyFlow.thy ===== *)
theory ProxyFlow
  imports ProxyHandler
begin

text \<open>
  Flow control of the proxy. A relayed exchange has four ends: each stream receives and sends. Octets
  received at one end wait to be sent at the opposite end of the other stream. When a callback blocks, it
  names the end that is waited for: that end must run, and the opposite end must sleep, or both streams
  would wait for each other or one would spin.
\<close>

section \<open>The ends of an exchange\<close>

datatype side = ServerRecv | ServerSend | ClientRecv | ClientSend

fun opposite :: "side \<Rightarrow> side" where
  "opposite ServerRecv = ClientSend"
| "opposite ClientSend = ServerRecv"
| "opposite ClientRecv = ServerSend"
| "opposite ServerSend = ClientRecv"

fun server_side :: "side \<Rightarrow> bool" where
  "server_side ServerRecv = True"
| "server_side ServerSend = True"
| "server_side _ = False"

datatype callback =
  ConsumeRequestBody "u8 list option" u64
| OfferResponseBody
| ProduceResponseBody bool u64
| ReceiveResponseHeaders
| OfferRequestBody
| ProduceRequestBody bool u64
| ConsumeResponseBody "u8 list option" u64

fun run_callback ::
  "('z, 'd) proxy \<Rightarrow> nat \<Rightarrow> nat \<Rightarrow> callback \<Rightarrow> 'z proxy_world_scheme \<Rightarrow> error \<times> 'z proxy_world_scheme" where
  "run_callback env s k (ConsumeRequestBody body n) w =
     (case proxy_consumeRequestBody env s body n w of (e, _, w1) \<Rightarrow> (e, w1))"
| "run_callback env s k OfferResponseBody w = (case proxy_offerResponseBody env s w of (e, _, w1) \<Rightarrow> (e, w1))"
| "run_callback env s k (ProduceResponseBody null n) w =
     (case proxy_produceResponseBody env s null n w of (e, _, w1) \<Rightarrow> (e, w1))"
| "run_callback env s k ReceiveResponseHeaders w = proxy_receiveResponseHeaders env k w"
| "run_callback env s k OfferRequestBody w = (case proxy_offerRequestBody env k w of (e, _, w1) \<Rightarrow> (e, w1))"
| "run_callback env s k (ProduceRequestBody null n) w =
     (case proxy_produceRequestBody env k null n w of (e, _, w1) \<Rightarrow> (e, w1))"
| "run_callback env s k (ConsumeResponseBody body n) w =
     (case proxy_consumeResponseBody env k body n w of (e, _, w1) \<Rightarrow> (e, w1))"

text \<open>The end that a callback waits for when it answers ESB_PAUSE or ESB_AGAIN.\<close>

fun awaits :: "callback \<Rightarrow> error \<Rightarrow> side option" where
  "awaits (ConsumeRequestBody _ _) e = (if e = ESB_PAUSE then Some ServerRecv else if e = ESB_AGAIN then Some ClientSend else None)"
| "awaits OfferResponseBody e = (if e = ESB_PAUSE then Some ServerSend else if e = ESB_AGAIN then Some ClientRecv else None)"
| "awaits ReceiveResponseHeaders e = (if e = ESB_PAUSE then Some ClientRecv else if e = ESB_AGAIN then Some ServerSend else None)"
| "awaits OfferRequestBody e = (if e = ESB_PAUSE then Some ClientSend else if e = ESB_AGAIN then Some ServerRecv else None)"
| "awaits (ConsumeResponseBody _ _) e = (if e = ESB_PAUSE then Some ClientRecv else if e = ESB_AGAIN then Some ServerSend else None)"
| "awaits _ e = None"

section \<open>The contract of pausing and resuming\<close>

text \<open>
  What the handler needs of the streams: a pause or resume that succeeds sets the end it is for, those of
  one stream leave the other stream alone, and none answers an error that the sockets take for waiting.
\<close>

definition sets :: "(side \<Rightarrow> 'w \<Rightarrow> bool) \<Rightarrow> side \<Rightarrow> bool \<Rightarrow> ('w \<Rightarrow> error \<times> 'w) \<Rightarrow> bool" where
  "sets paused x b f \<longleftrightarrow>
     (\<forall>w. fst (f w) \<noteq> ESB_PAUSE \<and> fst (f w) \<noteq> ESB_AGAIN \<and>
       (fst (f w) = ESB_SUCCESS \<longrightarrow> paused x (snd (f w)) = b) \<and>
       (\<forall>y. server_side y \<noteq> server_side x \<longrightarrow> paused y (snd (f w)) = paused y w))"

locale paired_streams =
  fixes env :: "('z, 'd) proxy" and s k :: nat and paused :: "side \<Rightarrow> 'z proxy_world_scheme \<Rightarrow> bool"
  assumes pause_server: "sets paused ServerRecv True (serverPauseRecv env s u)" "sets paused ServerSend True (serverPauseSend env s u)"
    and resume_server: "sets paused ServerRecv False (serverResumeRecv env s u)" "sets paused ServerSend False (serverResumeSend env s u)"
    and pause_client: "sets paused ClientRecv True (clientPauseRecv env k u)" "sets paused ClientSend True (clientPauseSend env k u)"
    and resume_client: "sets paused ClientRecv False (clientResumeRecv env k u)" "sets paused ClientSend False (clientResumeSend env k u)"
begin

lemma setsD:
  assumes "sets paused x b f" "f w = (e, w')"
  shows "e \<noteq> ESB_PAUSE" "e \<noteq> ESB_AGAIN" "e = ESB_SUCCESS \<Longrightarrow> paused x w' = b"
    "server_side y \<noteq> server_side x \<Longrightarrow> paused y w' = paused y w"
  using assms by (auto simp: sets_def dest!: spec [of _ w])

lemma hand_over_flow:
  assumes "sets paused x False resume" "sets paused y True pause" "server_side y \<noteq> server_side x"
    and "hand_over resume pause w = (e, w')"
  shows "e \<noteq> ESB_PAUSE \<and> e \<noteq> ESB_AGAIN \<and> (e = ESB_SUCCESS \<longrightarrow> \<not> paused x w' \<and> paused y w')"
proof -
  obtain e1 w1 where r: "resume w = (e1, w1)"
    by fastforce
  obtain e2 w2 where p: "pause w1 = (e2, w2)"
    by fastforce
  show ?thesis
    using setsD [OF assms(1) r] setsD [OF assms(2) p] setsD(4) [OF assms(2) p, of x] assms(3,4) r p
    by (auto simp: hand_over_def split: if_splits)
qed

lemma on_blocked:
  "onClientRecvBlocked env s k w = (e, w') \<Longrightarrow> e \<noteq> ESB_PAUSE \<and> e \<noteq> ESB_AGAIN \<and>
    (e = ESB_SUCCESS \<longrightarrow> \<not> paused ClientRecv w' \<and> paused ServerSend w')"
  "onServerRecvBlocked env s k w = (e, w') \<Longrightarrow> e \<noteq> ESB_PAUSE \<and> e \<noteq> ESB_AGAIN \<and>
    (e = ESB_SUCCESS \<longrightarrow> \<not> paused ServerRecv w' \<and> paused ClientSend w')"
  "onClientSendBlocked env s k w = (e, w') \<Longrightarrow> e \<noteq> ESB_PAUSE \<and> e \<noteq> ESB_AGAIN \<and>
    (e = ESB_SUCCESS \<longrightarrow> \<not> paused ClientSend w' \<and> paused ServerRecv w')"
  "onServerSendBlocked env s k w = (e, w') \<Longrightarrow> e \<noteq> ESB_PAUSE \<and> e \<noteq> ESB_AGAIN \<and>
    (e = ESB_SUCCESS \<longrightarrow> \<not> paused ServerSend w' \<and> paused ClientRecv w')"
  unfolding onClientRecvBlocked_def onServerRecvBlocked_def onClientSendBlocked_def onServerSendBlocked_def
  by (rule hand_over_flow [OF resume_client(1) pause_server(2)], simp, assumption)
     (rule hand_over_flow [OF resume_server(1) pause_client(2)], simp, assumption,
      rule hand_over_flow [OF resume_client(2) pause_server(1)], simp, assumption,
      rule hand_over_flow [OF resume_server(2) pause_client(1)], simp, assumption)

lemma blocked_flow:
  assumes "blocked r (f w) = (e, w')" "e = ESB_PAUSE \<or> e = ESB_AGAIN"
    and "\<And>e w'. f w = (e, w') \<Longrightarrow> e \<noteq> ESB_PAUSE \<and> e \<noteq> ESB_AGAIN \<and> (e = ESB_SUCCESS \<longrightarrow> P w')"
  shows "e = r \<and> P w'"
  using assms by (auto simp: blocked_def relay_error_def split: prod.splits if_splits)

lemmas blocked_flows =
  blocked_flow [of _ "onClientRecvBlocked env s k", OF _ _ on_blocked(1)]
  blocked_flow [of _ "onServerRecvBlocked env s k", OF _ _ on_blocked(2)]
  blocked_flow [of _ "onClientSendBlocked env s k", OF _ _ on_blocked(3)]
  blocked_flow [of _ "onServerSendBlocked env s k", OF _ _ on_blocked(4)]

lemma serverResumeRecv_flow:
  "serverResumeRecv env s u w = (e, w') \<Longrightarrow> e \<noteq> ESB_PAUSE \<and> e \<noteq> ESB_AGAIN"
  using setsD [OF resume_server(1)] by blast

lemma prepare_reuse_flow: "prepare_reuse env s w = (e, w') \<Longrightarrow> e \<noteq> ESB_PAUSE \<and> e \<noteq> ESB_AGAIN"
  using setsD [OF resume_server(1)] setsD [OF pause_server(2)]
  by (auto simp: prepare_reuse_def relay_error_def split: prod.splits if_splits)

text \<open>Whatever a callback waits for runs, and the opposite end sleeps.\<close>

lemma callback_flow:
  assumes paired: "context_at a w = Some c" "pxServerStream c = Some s" "pxClientStream c = Some k"
      "serverContext env s w = a" "clientContext env k w = a" "a \<noteq> 0"
    and run: "run_callback env s k cb w = (e, w')" "awaits cb e = Some x"
  shows "\<not> paused x w' \<and> paused (opposite x) w'"
proof (cases cb)
  case (ConsumeRequestBody body n)
  then show ?thesis
    using run paired
    by (auto simp: proxy_consumeRequestBody_def Let_def split: option.splits prod.splits if_splits
        dest!: blocked_flows)
next
  case OfferResponseBody
  then show ?thesis
    using run paired
    by (auto simp: proxy_offerResponseBody_def Let_def split: option.splits prod.splits if_splits
        dest!: blocked_flows)
next
  case ReceiveResponseHeaders
  then show ?thesis
    using run paired
    by (auto simp: proxy_receiveResponseHeaders_def Let_def split: option.splits prod.splits if_splits
        dest!: blocked_flows prepare_reuse_flow serverResumeRecv_flow)
next
  case OfferRequestBody
  then show ?thesis
    using run paired
    by (auto simp: proxy_offerRequestBody_def Let_def split: option.splits prod.splits if_splits
        dest!: blocked_flows)
next
  case (ConsumeResponseBody body n)
  then show ?thesis
    using run paired
    by (auto simp: proxy_consumeResponseBody_def Let_def split: option.splits prod.splits if_splits
        dest!: blocked_flows)
qed (use run in simp_all)

end

end
