(* ===== verification/ProxyRelay.thy ===== *)
theory ProxyRelay
  imports ProxyFlow ScriptedPeer
begin

text \<open>
  The proxy on the models of its two sockets: one server socket and one client socket in one world, each
  on a wire of its own. The callbacks of a socket's machine run the handler, the handler calls the other
  socket, whose machine may call the handler again: a socket is put into the world before a callback and
  taken out after it. \<open>relay_step\<close> builds the streams on the sockets, given the streams that nested
  callbacks use; a few steps are enough, as the nesting is bounded by the two sockets.
\<close>

record relay_world = proxy_world +
  relayServer :: "u64 server_socket"
  relayClient :: "u64 client_socket"
  serverLine :: wire
  originLine :: wire
  pendingTransaction :: "u64 client_transaction option"
  relayBuffers :: int
  relayDestroyed :: nat

type_synonym relay = "(relay_world, unit) proxy_env"

section \<open>The environments of the sockets\<close>

definition relay_server_env ::
  "(relay_world \<Rightarrow> u64 server_socket \<Rightarrow> relay_world \<times> u64 server_socket) \<Rightarrow> (relay_world, u64) server_env" where
  "relay_server_env remove =
     \<lparr>isShutdown = (\<lambda>_. False),
      acquireBuffer = (\<lambda>w. (Some net_buffer, w\<lparr>relayBuffers := relayBuffers w + 1\<rparr>)),
      releaseBuffer = (\<lambda>_ w. w\<lparr>relayBuffers := relayBuffers w - 1\<rparr>),
      createTransaction = (\<lambda>w. (Some net_transaction, w)),
      destroyTransaction = (\<lambda>_ w. w),
      updateMultiplexedSocket = (\<lambda>w s. (ESB_SUCCESS, w, s)),
      removeMultiplexedSocket = (\<lambda>w s. case remove w s of (w1, s1) \<Rightarrow> (ESB_SUCCESS, w1, s1)),
      allocate = bump_alloc,
      resetAllocator = (\<lambda>_. 4096),
      sockPeer = (\<lambda>_. [127, 0, 0, 1]),
      sockConnected = (\<lambda>_. True),
      sockWantRead = (\<lambda>_. False),
      sockWantWrite = (\<lambda>_. False),
      sockClose = (\<lambda>w. w),
      sockReceive = (\<lambda>n w. case wire_receive n (serverLine w) of (r, l) \<Rightarrow> (r, w\<lparr>serverLine := l\<rparr>)),
      sockSend = (\<lambda>os w. case wire_send os (serverLine w) of (r, l) \<Rightarrow> (r, w\<lparr>serverLine := l\<rparr>)),
      addAverage = (\<lambda>_ w. w)\<rparr>"

definition relay_client_env ::
  "(relay_world \<Rightarrow> u64 client_socket \<Rightarrow> relay_world \<times> u64 client_socket) \<Rightarrow> (relay_world, u64) client_env" where
  "relay_client_env remove =
     \<lparr>isShutdown = (\<lambda>_. False),
      acquireBuffer = (\<lambda>w. (Some net_buffer, w\<lparr>relayBuffers := relayBuffers w + 1\<rparr>)),
      releaseBuffer = (\<lambda>_ w. w\<lparr>relayBuffers := relayBuffers w - 1\<rparr>),
      createTransaction = (\<lambda>w. (None, w)),
      destroyTransaction = (\<lambda>_ w. w\<lparr>relayDestroyed := relayDestroyed w + 1\<rparr>),
      updateMultiplexedSocket = (\<lambda>w s. (ESB_SUCCESS, w, s)),
      removeMultiplexedSocket = (\<lambda>w s. case remove w s of (w1, s1) \<Rightarrow> (ESB_SUCCESS, w1, s1)),
      allocate = bump_alloc,
      resetAllocator = (\<lambda>_. 4096),
      sockPeer = (\<lambda>_. [127, 0, 0, 1]),
      sockConnected = (\<lambda>_. True),
      sockWantRead = (\<lambda>_. False),
      sockWantWrite = (\<lambda>_. False),
      sockClose = (\<lambda>w. w),
      sockReceive = (\<lambda>n w. case wire_receive n (originLine w) of (r, l) \<Rightarrow> (r, w\<lparr>originLine := l\<rparr>)),
      sockSend = (\<lambda>os w. case wire_send os (originLine w) of (r, l) \<Rightarrow> (r, w\<lparr>originLine := l\<rparr>)),
      reuseConnections = True,
      executeTransaction = (\<lambda>_ w. (ESB_SUCCESS, w)),
      recordOutcome = (\<lambda>_ _ w. w)\<rparr>"

section \<open>The proxy as handler of the sockets\<close>

definition in_server :: "(relay_world \<Rightarrow> 'r \<times> relay_world) \<Rightarrow> relay_world \<Rightarrow> u64 server_socket \<Rightarrow> 'r \<times> relay_world \<times> u64 server_socket" where
  "in_server f w s = (case f (w\<lparr>relayServer := s\<rparr>) of (r, w1) \<Rightarrow> (r, w1, relayServer w1))"

definition in_client :: "(relay_world \<Rightarrow> 'r \<times> relay_world) \<Rightarrow> relay_world \<Rightarrow> u64 client_socket \<Rightarrow> 'r \<times> relay_world \<times> u64 client_socket" where
  "in_client f w s = (case f (w\<lparr>relayClient := s\<rparr>) of (r, w1) \<Rightarrow> (r, w1, relayClient w1))"

text \<open>The streams of the world: 0 is the server socket, 1 the client socket.\<close>

definition relay_beginServer :: "relay \<Rightarrow> relay_world \<Rightarrow> u64 server_socket \<Rightarrow> (relay_world, u64) socket_result" where
  "relay_beginServer p w s = in_server (proxy_beginServer p 0) w s"

definition relay_requestHeaders :: "relay \<Rightarrow> relay_world \<Rightarrow> u64 server_socket \<Rightarrow> (relay_world, u64) socket_result" where
  "relay_requestHeaders p w s = in_server (proxy_receiveRequestHeaders p 0) w s"

definition relay_endServer ::
  "relay \<Rightarrow> end_state \<Rightarrow> relay_world \<Rightarrow> u64 server_socket \<Rightarrow> relay_world \<times> u64 server_socket" where
  "relay_endServer p st w s = snd (in_server (proxy_endServer p 0 st) w s)"

definition relay_server_body :: "relay \<Rightarrow> (unit, relay_world, u64 server_socket) body_handler" where
  "relay_server_body p =
     \<lparr>consume_body = (\<lambda>os n c w s.
        case proxy_consumeRequestBody p 0 (Some os) n (w\<lparr>relayServer := s\<rparr>) of (e, k, w1) \<Rightarrow> (e, k, c, w1, relayServer w1)),
      offer_body = (\<lambda>c w s.
        case proxy_offerResponseBody p 0 (w\<lparr>relayServer := s\<rparr>) of (e, k, w1) \<Rightarrow> (e, k, c, w1, relayServer w1)),
      produce_body = (\<lambda>n c w s.
        case proxy_produceResponseBody p 0 False n (w\<lparr>relayServer := s\<rparr>) of (e, os, w1) \<Rightarrow> (e, os, c, w1, relayServer w1))\<rparr>"

definition proxy_server_handler :: "relay \<Rightarrow> (relay_world, u64) server_handler" where
  "proxy_server_handler p =
     \<lparr>beginTransaction = relay_beginServer p, receiveRequestHeaders = relay_requestHeaders p,
      endTransaction = relay_endServer p, bodyHandler = relay_server_body p\<rparr>"

definition relay_beginClient :: "relay \<Rightarrow> relay_world \<Rightarrow> u64 client_socket \<Rightarrow> (relay_world, u64) client_result" where
  "relay_beginClient p w s = in_client (proxy_beginClient p 1) w s"

definition relay_endRequest :: "relay_world \<Rightarrow> u64 client_socket \<Rightarrow> (relay_world, u64) client_result" where
  "relay_endRequest w s = in_client (proxy_endRequest 1) w s"

definition relay_responseHeaders :: "relay \<Rightarrow> relay_world \<Rightarrow> u64 client_socket \<Rightarrow> (relay_world, u64) client_result" where
  "relay_responseHeaders p w s = in_client (proxy_receiveResponseHeaders p 1) w s"

definition relay_endClient ::
  "relay \<Rightarrow> client_end_state \<Rightarrow> relay_world \<Rightarrow> u64 client_socket \<Rightarrow> relay_world \<times> u64 client_socket" where
  "relay_endClient p st w s = snd (in_client (proxy_endClient p 1 st) w s)"

definition relay_client_body :: "relay \<Rightarrow> (unit, relay_world, u64 client_socket) body_handler" where
  "relay_client_body p =
     \<lparr>consume_body = (\<lambda>os n c w s.
        case proxy_consumeResponseBody p 1 (Some os) n (w\<lparr>relayClient := s\<rparr>) of (e, k, w1) \<Rightarrow> (e, k, c, w1, relayClient w1)),
      offer_body = (\<lambda>c w s.
        case proxy_offerRequestBody p 1 (w\<lparr>relayClient := s\<rparr>) of (e, k, w1) \<Rightarrow> (e, k, c, w1, relayClient w1)),
      produce_body = (\<lambda>n c w s.
        case proxy_produceRequestBody p 1 False n (w\<lparr>relayClient := s\<rparr>) of (e, os, w1) \<Rightarrow> (e, os, c, w1, relayClient w1))\<rparr>"

definition proxy_client_handler :: "relay \<Rightarrow> (relay_world, u64) client_handler" where
  "proxy_client_handler p =
     \<lparr>beginRequest = relay_beginClient p, endRequest = relay_endRequest,
      receiveResponseHeaders = relay_responseHeaders p, endClientTransaction = relay_endClient p,
      clientBody = relay_client_body p\<rparr>"

section \<open>The streams on the sockets\<close>

definition remove_server :: "relay \<Rightarrow> relay_world \<Rightarrow> u64 server_socket \<Rightarrow> relay_world \<times> u64 server_socket" where
  "remove_server p = handleRemove (relay_server_env Pair) (proxy_server_handler p)"

definition remove_client :: "relay \<Rightarrow> relay_world \<Rightarrow> u64 client_socket \<Rightarrow> relay_world \<times> u64 client_socket" where
  "remove_client p = client_handleRemove (relay_client_env Pair) (proxy_client_handler p)"

definition senv :: "relay \<Rightarrow> (relay_world, u64) server_env" where
  "senv p = relay_server_env (remove_server p)"

definition cenv :: "relay \<Rightarrow> (relay_world, u64) client_env" where
  "cenv p = relay_client_env (remove_client p)"

definition on_server ::
  "(relay_world \<Rightarrow> u64 server_socket \<Rightarrow> (relay_world, u64) socket_result) \<Rightarrow> relay_world \<Rightarrow> error \<times> relay_world" where
  "on_server f w = (case f w (relayServer w) of (e, w1, s1) \<Rightarrow> (e, w1\<lparr>relayServer := s1\<rparr>))"

definition on_client ::
  "(relay_world \<Rightarrow> u64 client_socket \<Rightarrow> (relay_world, u64) client_result) \<Rightarrow> relay_world \<Rightarrow> error \<times> relay_world" where
  "on_client f w = (case f w (relayClient w) of (e, w1, s1) \<Rightarrow> (e, w1\<lparr>relayClient := s1\<rparr>))"

text \<open>A machine that does not return has no place in the interface; it counts as UNDEFINED_BEHAVIOUR.\<close>

definition returns :: "'r \<Rightarrow> 'r option \<Rightarrow> 'r" where
  "returns d r = (case r of None \<Rightarrow> d | Some x \<Rightarrow> x)"

definition relay_allocate :: "relay_world \<Rightarrow> u64 \<times> relay_world" where
  "relay_allocate w =
     (case transaction (relayServer w) of
        None \<Rightarrow> (0, w)
      | Some t \<Rightarrow>
          (case bump_alloc (allocator (parser t)) 48 of (e, a, al) \<Rightarrow>
             (if e = ESB_SUCCESS then a else 0,
              w\<lparr>relayServer := set_transaction (t\<lparr>parser := (parser t)\<lparr>allocator := al\<rparr>\<rparr>) (relayServer w)\<rparr>)))"

definition relay_copyRequest :: "relay_world \<Rightarrow> error \<times> relay_world" where
  "relay_copyRequest w =
     (case (transaction (relayServer w), pendingTransaction w) of
        (Some t, Some k) \<Rightarrow>
          (case request_copy bump_alloc HeaderCopyAll (allocator (ctParser k)) (ctRequest k) (Some (request t)) of
             (e, al, r) \<Rightarrow>
               (e, w\<lparr>pendingTransaction := Some (k\<lparr>ctRequest := r, ctParser := (ctParser k)\<lparr>allocator := al\<rparr>\<rparr>)\<rparr>))
      | _ \<Rightarrow> (UNDEFINED_BEHAVIOUR, w))"

definition relay_step :: "relay \<Rightarrow> relay" where
  "relay_step p =
     \<lparr>serverContext = (\<lambda>_ w. stream_context (relayServer w)),
      setServerContext = (\<lambda>_ a w. w\<lparr>relayServer := setContext a (relayServer w)\<rparr>),
      serverAllocate = (\<lambda>_. relay_allocate),
      serverPauseRecv = (\<lambda>_ u. on_server (pauseRecv (senv p) u)),
      serverResumeRecv = (\<lambda>_ u. on_server (resumeRecv (senv p) u)),
      serverPauseSend = (\<lambda>_ u. on_server (pauseSend (senv p) u)),
      serverResumeSend = (\<lambda>_ u. on_server (resumeSend (senv p) u)),
      serverAbort = (\<lambda>_. on_server (abort (senv p) True)),
      serverSendEmptyResponse = (\<lambda>_ status reason. on_server (\<lambda>w s.
        returns (UNDEFINED_BEHAVIOUR, w, s) (sendEmptyResponse (senv p) (proxy_server_handler p) status reason w s))),
      serverSendResponse = (\<lambda>_ response. on_server (\<lambda>w s.
        returns (UNDEFINED_BEHAVIOUR, w, s) (sendResponse (senv p) (proxy_server_handler p) response HeaderCopyAll w s))),
      serverSendResponseBody = (\<lambda>_ os n w.
        case returns (UNDEFINED_BEHAVIOUR, 0, w, relayServer w)
          (sendResponseBody (senv p) (proxy_server_handler p) os n w (relayServer w)) of
          (e, k, w1, s1) \<Rightarrow> (e, k, w1\<lparr>relayServer := s1\<rparr>)),
      serverRequestBodyAvailable = (\<lambda>_ w.
        case returns (UNDEFINED_BEHAVIOUR, 0, w, relayServer w)
          (requestBodyAvailable (senv p) (proxy_server_handler p) w (relayServer w)) of
          (e, k, w1, s1) \<Rightarrow> (e, k, w1\<lparr>relayServer := s1\<rparr>)),
      serverReadRequestBody = (\<lambda>_ n w.
        case returns (UNDEFINED_BEHAVIOUR, [], 0, w, relayServer w)
          (readRequestBody (senv p) (proxy_server_handler p) n w (relayServer w)) of
          (e, os, k, w1, s1) \<Rightarrow> (e, os, k, w1\<lparr>relayServer := s1\<rparr>)),
      clientContext = (\<lambda>_ w. client_context (relayClient w)),
      setClientContext = (\<lambda>_ a w. w\<lparr>relayClient := client_setContext a (relayClient w)\<rparr>),
      clientResponse = (\<lambda>_ w. case clTransaction (relayClient w) of None \<Rightarrow> new_http_response | Some t \<Rightarrow> ctResponse t),
      clientPauseRecv = (\<lambda>_ u. on_client (client_pauseRecv (cenv p) u)),
      clientResumeRecv = (\<lambda>_ u. on_client (client_resumeRecv (cenv p) u)),
      clientPauseSend = (\<lambda>_ u. on_client (client_pauseSend (cenv p) u)),
      clientResumeSend = (\<lambda>_ u. on_client (client_resumeSend (cenv p) u)),
      clientAbort = (\<lambda>_. on_client (client_abort (cenv p) True)),
      clientSendRequestBody = (\<lambda>_ os n w.
        case returns (UNDEFINED_BEHAVIOUR, 0, w, relayClient w)
          (sendRequestBody (cenv p) (proxy_client_handler p) os n w (relayClient w)) of
          (e, k, w1, s1) \<Rightarrow> (e, k, w1\<lparr>relayClient := s1\<rparr>)),
      clientResponseBodyAvailable = (\<lambda>_ w.
        case returns (UNDEFINED_BEHAVIOUR, 0, w, relayClient w)
          (responseBodyAvailable (cenv p) (proxy_client_handler p) w (relayClient w)) of
          (e, k, w1, s1) \<Rightarrow> (e, k, w1\<lparr>relayClient := s1\<rparr>)),
      clientReadResponseBody = (\<lambda>_ n w.
        case returns (UNDEFINED_BEHAVIOUR, [], 0, w, relayClient w)
          (readResponseBody (cenv p) (proxy_client_handler p) n w (relayClient w)) of
          (e, os, k, w1, s1) \<Rightarrow> (e, os, k, w1\<lparr>relayClient := s1\<rparr>)),
      createClientTransaction = (\<lambda>w.
        (Some 1, w\<lparr>pendingTransaction := Some (peer_transaction\<lparr>ctContext := 0, ctRequest := new_http_request\<rparr>)\<rparr>)),
      destroyClientTransaction = (\<lambda>_ w. w\<lparr>pendingTransaction := None, relayDestroyed := relayDestroyed w + 1\<rparr>),
      executeClientTransaction = (\<lambda>_ w.
        (ESB_SUCCESS, w\<lparr>relayClient := new_client_socket False (pendingTransaction w), pendingTransaction := None\<rparr>)),
      copyRequest = (\<lambda>_ _. relay_copyRequest),
      setPeerAddress = (\<lambda>_ _ w. w),
      setTransactionContext = (\<lambda>_ a w. w\<lparr>pendingTransaction := map_option (\<lambda>t. t\<lparr>ctContext := a\<rparr>) (pendingTransaction w)\<rparr>),
      route = fixed_route ()\<rparr>"

text \<open>Streams on which every call fails end the nesting.\<close>

definition dead_end :: relay where
  "dead_end =
     (let fails = (\<lambda>w. (ESB_INVALID_STATE, w)); fails3 = (\<lambda>w. (ESB_INVALID_STATE, 0, w)) in
      \<lparr>serverContext = (\<lambda>_ _. 0), setServerContext = (\<lambda>_ _ w. w), serverAllocate = (\<lambda>_ w. (0, w)),
       serverPauseRecv = (\<lambda>_ _. fails), serverResumeRecv = (\<lambda>_ _. fails), serverPauseSend = (\<lambda>_ _. fails),
       serverResumeSend = (\<lambda>_ _. fails), serverAbort = (\<lambda>_. fails), serverSendEmptyResponse = (\<lambda>_ _ _. fails),
       serverSendResponse = (\<lambda>_ _. fails), serverSendResponseBody = (\<lambda>_ _ _. fails3),
       serverRequestBodyAvailable = (\<lambda>_. fails3), serverReadRequestBody = (\<lambda>_ _ w. (ESB_INVALID_STATE, [], 0, w)),
       clientContext = (\<lambda>_ _. 0), setClientContext = (\<lambda>_ _ w. w), clientResponse = (\<lambda>_ _. new_http_response),
       clientPauseRecv = (\<lambda>_ _. fails), clientResumeRecv = (\<lambda>_ _. fails), clientPauseSend = (\<lambda>_ _. fails),
       clientResumeSend = (\<lambda>_ _. fails), clientAbort = (\<lambda>_. fails), clientSendRequestBody = (\<lambda>_ _ _. fails3),
       clientResponseBodyAvailable = (\<lambda>_. fails3), clientReadResponseBody = (\<lambda>_ _ w. (ESB_INVALID_STATE, [], 0, w)),
       createClientTransaction = (\<lambda>w. (None, w)), destroyClientTransaction = (\<lambda>_ w. w),
       executeClientTransaction = (\<lambda>_. fails), copyRequest = (\<lambda>_ _. fails), setPeerAddress = (\<lambda>_ _ w. w),
       setTransactionContext = (\<lambda>_ _ w. w), route = (\<lambda>_ _ w. (ESB_INVALID_STATE, (), w))\<rparr>)"

primrec relay :: "nat \<Rightarrow> relay" where
  "relay 0 = dead_end"
| "relay (Suc n) = relay_step (relay n)"

section \<open>Evaluation\<close>

text \<open>
  Simplification works under lambdas: to evaluate the streams of a level, their fields are constants
  that unfold only when they are applied.
\<close>

definition senv_at :: "nat \<Rightarrow> (relay_world, u64) server_env" where
  "senv_at n = senv (relay n)"

definition cenv_at :: "nat \<Rightarrow> (relay_world, u64) client_env" where
  "cenv_at n = cenv (relay n)"

definition sh_at :: "nat \<Rightarrow> (relay_world, u64) server_handler" where
  "sh_at n = proxy_server_handler (relay n)"

definition ch_at :: "nat \<Rightarrow> (relay_world, u64) client_handler" where
  "ch_at n = proxy_client_handler (relay n)"

definition srvPauseRecv :: "nat \<Rightarrow> nat \<Rightarrow> bool \<Rightarrow> relay_world \<Rightarrow> error \<times> relay_world" where
  "srvPauseRecv n s u w =
     (on_server (pauseRecv (senv_at n) u) w)"

definition srvResumeRecv :: "nat \<Rightarrow> nat \<Rightarrow> bool \<Rightarrow> relay_world \<Rightarrow> error \<times> relay_world" where
  "srvResumeRecv n s u w =
     (on_server (resumeRecv (senv_at n) u) w)"

definition srvPauseSend :: "nat \<Rightarrow> nat \<Rightarrow> bool \<Rightarrow> relay_world \<Rightarrow> error \<times> relay_world" where
  "srvPauseSend n s u w =
     (on_server (pauseSend (senv_at n) u) w)"

definition srvResumeSend :: "nat \<Rightarrow> nat \<Rightarrow> bool \<Rightarrow> relay_world \<Rightarrow> error \<times> relay_world" where
  "srvResumeSend n s u w =
     (on_server (resumeSend (senv_at n) u) w)"

definition srvAbort :: "nat \<Rightarrow> nat \<Rightarrow> relay_world \<Rightarrow> error \<times> relay_world" where
  "srvAbort n s w =
     (on_server (abort (senv_at n) True) w)"

definition srvSendEmpty :: "nat \<Rightarrow> nat \<Rightarrow> int \<Rightarrow> string \<Rightarrow> relay_world \<Rightarrow> error \<times> relay_world" where
  "srvSendEmpty n s st r w =
     (on_server (\<lambda>w s. returns (UNDEFINED_BEHAVIOUR, w, s) (sendEmptyResponse (senv_at n) (sh_at n) st r w s)) w)"

definition srvSend :: "nat \<Rightarrow> nat \<Rightarrow> http_response \<Rightarrow> relay_world \<Rightarrow> error \<times> relay_world" where
  "srvSend n s r w =
     (on_server (\<lambda>w s. returns (UNDEFINED_BEHAVIOUR, w, s) (sendResponse (senv_at n) (sh_at n) r HeaderCopyAll w s)) w)"

definition srvSendBody :: "nat \<Rightarrow> nat \<Rightarrow> u8 list \<Rightarrow> u64 \<Rightarrow> relay_world \<Rightarrow> error \<times> u64 \<times> relay_world" where
  "srvSendBody n s os k w =
     (case returns (UNDEFINED_BEHAVIOUR, 0, w, relayServer w) (sendResponseBody (senv_at n) (sh_at n) os k w (relayServer w)) of (e, j, w1, s1) \<Rightarrow> (e, j, w1\<lparr>relayServer := s1\<rparr>))"

definition srvAvailable :: "nat \<Rightarrow> nat \<Rightarrow> relay_world \<Rightarrow> error \<times> u64 \<times> relay_world" where
  "srvAvailable n s w =
     (case returns (UNDEFINED_BEHAVIOUR, 0, w, relayServer w) (requestBodyAvailable (senv_at n) (sh_at n) w (relayServer w)) of (e, j, w1, s1) \<Rightarrow> (e, j, w1\<lparr>relayServer := s1\<rparr>))"

definition srvRead :: "nat \<Rightarrow> nat \<Rightarrow> u64 \<Rightarrow> relay_world \<Rightarrow> error \<times> u8 list \<times> u64 \<times> relay_world" where
  "srvRead n s k w =
     (case returns (UNDEFINED_BEHAVIOUR, [], 0, w, relayServer w) (readRequestBody (senv_at n) (sh_at n) k w (relayServer w)) of (e, os, j, w1, s1) \<Rightarrow> (e, os, j, w1\<lparr>relayServer := s1\<rparr>))"

definition cltPauseRecv :: "nat \<Rightarrow> nat \<Rightarrow> bool \<Rightarrow> relay_world \<Rightarrow> error \<times> relay_world" where
  "cltPauseRecv n s u w =
     (on_client (client_pauseRecv (cenv_at n) u) w)"

definition cltResumeRecv :: "nat \<Rightarrow> nat \<Rightarrow> bool \<Rightarrow> relay_world \<Rightarrow> error \<times> relay_world" where
  "cltResumeRecv n s u w =
     (on_client (client_resumeRecv (cenv_at n) u) w)"

definition cltPauseSend :: "nat \<Rightarrow> nat \<Rightarrow> bool \<Rightarrow> relay_world \<Rightarrow> error \<times> relay_world" where
  "cltPauseSend n s u w =
     (on_client (client_pauseSend (cenv_at n) u) w)"

definition cltResumeSend :: "nat \<Rightarrow> nat \<Rightarrow> bool \<Rightarrow> relay_world \<Rightarrow> error \<times> relay_world" where
  "cltResumeSend n s u w =
     (on_client (client_resumeSend (cenv_at n) u) w)"

definition cltAbort :: "nat \<Rightarrow> nat \<Rightarrow> relay_world \<Rightarrow> error \<times> relay_world" where
  "cltAbort n s w =
     (on_client (client_abort (cenv_at n) True) w)"

definition cltSendBody :: "nat \<Rightarrow> nat \<Rightarrow> u8 list \<Rightarrow> u64 \<Rightarrow> relay_world \<Rightarrow> error \<times> u64 \<times> relay_world" where
  "cltSendBody n s os k w =
     (case returns (UNDEFINED_BEHAVIOUR, 0, w, relayClient w) (sendRequestBody (cenv_at n) (ch_at n) os k w (relayClient w)) of (e, j, w1, s1) \<Rightarrow> (e, j, w1\<lparr>relayClient := s1\<rparr>))"

definition cltAvailable :: "nat \<Rightarrow> nat \<Rightarrow> relay_world \<Rightarrow> error \<times> u64 \<times> relay_world" where
  "cltAvailable n s w =
     (case returns (UNDEFINED_BEHAVIOUR, 0, w, relayClient w) (responseBodyAvailable (cenv_at n) (ch_at n) w (relayClient w)) of (e, j, w1, s1) \<Rightarrow> (e, j, w1\<lparr>relayClient := s1\<rparr>))"

definition cltRead :: "nat \<Rightarrow> nat \<Rightarrow> u64 \<Rightarrow> relay_world \<Rightarrow> error \<times> u8 list \<times> u64 \<times> relay_world" where
  "cltRead n s k w =
     (case returns (UNDEFINED_BEHAVIOUR, [], 0, w, relayClient w) (readResponseBody (cenv_at n) (ch_at n) k w (relayClient w)) of (e, os, j, w1, s1) \<Rightarrow> (e, os, j, w1\<lparr>relayClient := s1\<rparr>))"

definition consumeRequest_at ::
  "nat \<Rightarrow> u8 list \<Rightarrow> u64 \<Rightarrow> unit \<Rightarrow> relay_world \<Rightarrow> u64 server_socket \<Rightarrow> error \<times> u64 \<times> unit \<times> relay_world \<times> u64 server_socket" where
  "consumeRequest_at n os k c w s = consume_body (relay_server_body (relay n)) os k c w s"

definition offerResponse_at ::
  "nat \<Rightarrow> unit \<Rightarrow> relay_world \<Rightarrow> u64 server_socket \<Rightarrow> error \<times> u64 \<times> unit \<times> relay_world \<times> u64 server_socket" where
  "offerResponse_at n c w s = offer_body (relay_server_body (relay n)) c w s"

definition produceResponse_at ::
  "nat \<Rightarrow> u64 \<Rightarrow> unit \<Rightarrow> relay_world \<Rightarrow> u64 server_socket \<Rightarrow> error \<times> u8 list \<times> unit \<times> relay_world \<times> u64 server_socket" where
  "produceResponse_at n k c w s = produce_body (relay_server_body (relay n)) k c w s"

definition consumeResponse_at ::
  "nat \<Rightarrow> u8 list \<Rightarrow> u64 \<Rightarrow> unit \<Rightarrow> relay_world \<Rightarrow> u64 client_socket \<Rightarrow> error \<times> u64 \<times> unit \<times> relay_world \<times> u64 client_socket" where
  "consumeResponse_at n os k c w s = consume_body (relay_client_body (relay n)) os k c w s"

definition offerRequest_at ::
  "nat \<Rightarrow> unit \<Rightarrow> relay_world \<Rightarrow> u64 client_socket \<Rightarrow> error \<times> u64 \<times> unit \<times> relay_world \<times> u64 client_socket" where
  "offerRequest_at n c w s = offer_body (relay_client_body (relay n)) c w s"

definition produceRequest_at ::
  "nat \<Rightarrow> u64 \<Rightarrow> unit \<Rightarrow> relay_world \<Rightarrow> u64 client_socket \<Rightarrow> error \<times> u8 list \<times> unit \<times> relay_world \<times> u64 client_socket" where
  "produceRequest_at n k c w s = produce_body (relay_client_body (relay n)) k c w s"

lemma body_at_code [code]:
  "consumeRequest_at n os k c w s =
     (case proxy_consumeRequestBody (relay n) 0 (Some os) k (w\<lparr>relayServer := s\<rparr>) of (e, j, w1) \<Rightarrow> (e, j, c, w1, relayServer w1))"
  "offerResponse_at n c w s =
     (case proxy_offerResponseBody (relay n) 0 (w\<lparr>relayServer := s\<rparr>) of (e, j, w1) \<Rightarrow> (e, j, c, w1, relayServer w1))"
  "produceResponse_at n k c w s =
     (case proxy_produceResponseBody (relay n) 0 False k (w\<lparr>relayServer := s\<rparr>) of (e, os, w1) \<Rightarrow> (e, os, c, w1, relayServer w1))"
  "consumeResponse_at n os k c w t =
     (case proxy_consumeResponseBody (relay n) 1 (Some os) k (w\<lparr>relayClient := t\<rparr>) of (e, j, w1) \<Rightarrow> (e, j, c, w1, relayClient w1))"
  "offerRequest_at n c w t =
     (case proxy_offerRequestBody (relay n) 1 (w\<lparr>relayClient := t\<rparr>) of (e, j, w1) \<Rightarrow> (e, j, c, w1, relayClient w1))"
  "produceRequest_at n k c w t =
     (case proxy_produceRequestBody (relay n) 1 False k (w\<lparr>relayClient := t\<rparr>) of (e, os, w1) \<Rightarrow> (e, os, c, w1, relayClient w1))"
  by (simp_all add: consumeRequest_at_def offerResponse_at_def produceResponse_at_def consumeResponse_at_def
      offerRequest_at_def produceRequest_at_def relay_server_body_def relay_client_body_def)

lemma handler_at_code [code]:
  "sh_at n =
     \<lparr>beginTransaction = relay_beginServer (relay n), receiveRequestHeaders = relay_requestHeaders (relay n),
      endTransaction = relay_endServer (relay n),
      bodyHandler = \<lparr>consume_body = consumeRequest_at n, offer_body = offerResponse_at n, produce_body = produceResponse_at n\<rparr>\<rparr>"
  "ch_at n =
     \<lparr>beginRequest = relay_beginClient (relay n), endRequest = relay_endRequest,
      receiveResponseHeaders = relay_responseHeaders (relay n), endClientTransaction = relay_endClient (relay n),
      clientBody = \<lparr>consume_body = consumeResponse_at n, offer_body = offerRequest_at n, produce_body = produceRequest_at n\<rparr>\<rparr>"
  by (simp_all add: sh_at_def ch_at_def proxy_server_handler_def proxy_client_handler_def relay_server_body_def
      relay_client_body_def consumeRequest_at_def offerResponse_at_def produceResponse_at_def consumeResponse_at_def
      offerRequest_at_def produceRequest_at_def fun_eq_iff)

lemma env_at_code [code]:
  "senv_at n = relay_server_env (\<lambda>w. handleRemove (relay_server_env Pair) (sh_at n) w)"
  "cenv_at n = relay_client_env (\<lambda>w. client_handleRemove (relay_client_env Pair) (ch_at n) w)"
  by (simp_all add: senv_at_def cenv_at_def senv_def cenv_def remove_server_def remove_client_def sh_at_def ch_at_def fun_eq_iff)

lemma relay_code [code]:
  "relay 0 = dead_end"
  "relay (Suc n) =
     \<lparr>serverContext = (\<lambda>_ w. stream_context (relayServer w)),
      setServerContext = (\<lambda>_ a w. w\<lparr>relayServer := setContext a (relayServer w)\<rparr>),
      serverAllocate = (\<lambda>_. relay_allocate),
      serverPauseRecv = srvPauseRecv n,
      serverResumeRecv = srvResumeRecv n,
      serverPauseSend = srvPauseSend n,
      serverResumeSend = srvResumeSend n,
      serverAbort = srvAbort n,
      serverSendEmptyResponse = srvSendEmpty n,
      serverSendResponse = srvSend n,
      serverSendResponseBody = srvSendBody n,
      serverRequestBodyAvailable = srvAvailable n,
      serverReadRequestBody = srvRead n,
      clientContext = (\<lambda>_ w. client_context (relayClient w)),
      setClientContext = (\<lambda>_ a w. w\<lparr>relayClient := client_setContext a (relayClient w)\<rparr>),
      clientResponse = (\<lambda>_ w. case clTransaction (relayClient w) of None \<Rightarrow> new_http_response | Some t \<Rightarrow> ctResponse t),
      clientPauseRecv = cltPauseRecv n,
      clientResumeRecv = cltResumeRecv n,
      clientPauseSend = cltPauseSend n,
      clientResumeSend = cltResumeSend n,
      clientAbort = cltAbort n,
      clientSendRequestBody = cltSendBody n,
      clientResponseBodyAvailable = cltAvailable n,
      clientReadResponseBody = cltRead n,
      createClientTransaction = (\<lambda>w. (Some 1, w\<lparr>pendingTransaction := Some (peer_transaction\<lparr>ctContext := 0, ctRequest := new_http_request\<rparr>)\<rparr>)),
      destroyClientTransaction = (\<lambda>_ w. w\<lparr>pendingTransaction := None, relayDestroyed := relayDestroyed w + 1\<rparr>),
      executeClientTransaction = (\<lambda>_ w. (ESB_SUCCESS, w\<lparr>relayClient := new_client_socket False (pendingTransaction w), pendingTransaction := None\<rparr>)),
      copyRequest = (\<lambda>_ _. relay_copyRequest),
      setPeerAddress = (\<lambda>_ _ w. w),
      setTransactionContext = (\<lambda>_ a w. w\<lparr>pendingTransaction := map_option (\<lambda>t. t\<lparr>ctContext := a\<rparr>) (pendingTransaction w)\<rparr>),
      route = fixed_route ()\<rparr>"
  by (simp_all add: relay_step_def fun_eq_iff senv_at_def cenv_at_def sh_at_def ch_at_def
    srvPauseRecv_def srvResumeRecv_def srvPauseSend_def srvResumeSend_def srvAbort_def srvSendEmpty_def srvSend_def srvSendBody_def srvAvailable_def srvRead_def cltPauseRecv_def cltResumeRecv_def cltPauseSend_def cltResumeSend_def cltAbort_def cltSendBody_def cltAvailable_def cltRead_def)

end
