(* ===== verification/ProxyProperties.thy ===== *)
theory ProxyProperties
  imports ProxyRelay
begin

text \<open>
  The properties of the proxy handler, on the models of the two sockets: what it relays, that it never
  lets both streams of an exchange wait for each other, and how long the context of the two lives.
\<close>

section \<open>Flow control\<close>

fun relay_paused :: "side \<Rightarrow> relay_world \<Rightarrow> bool" where
  "relay_paused ServerRecv w = in_state (relayServer w) SERVER_RECV_PAUSED"
| "relay_paused ServerSend w = in_state (relayServer w) SERVER_SEND_PAUSED"
| "relay_paused ClientRecv w = client_in (relayClient w) CLIENT_RECV_PAUSED"
| "relay_paused ClientSend w = client_in (relayClient w) CLIENT_SEND_PAUSED"

lemma updates_quietly [simp]:
  "updateMultiplexedSocket (senv p) w s = (ESB_SUCCESS, w, s)" "updateMultiplexedSocket (cenv p) w t = (ESB_SUCCESS, w, t)"
  by (simp_all add: senv_def cenv_def relay_server_env_def relay_client_env_def)

lemma and_not_self: "f AND x AND NOT f = (0 :: u32)" "(x AND NOT f) AND f = (0 :: u32)"
  by (rule bit_eqI, simp add: bit_and_iff bit_not_iff)+

lemma flag_set:
  "has_flag f f \<longleftrightarrow> f \<noteq> 0" "\<not> in_state s 0" "\<not> client_in t 0"
  "client_in (client_addFlag f t) f \<longleftrightarrow> f \<noteq> 0" "\<not> client_in (client_clearFlag f t) f"
  by (simp_all add: in_state_def client_in_def client_addFlag_def client_clearFlag_def has_flag_def
      bit.conj_disj_distrib and_not_self)

interpretation relayed: paired_streams "relay_step p" 0 1 relay_paused
proof
  note defs = sets_def relay_step_def on_server_def on_client_def after_update_def relay_error_def flag_set
    pauseRecv_def pauseSend_def resumeRecv_def resumeSend_def
    client_pauseRecv_def client_pauseSend_def client_resumeRecv_def client_resumeSend_def
  fix u
  show "sets relay_paused ServerRecv True (serverPauseRecv (relay_step p) 0 u)"
      "sets relay_paused ServerSend True (serverPauseSend (relay_step p) 0 u)"
      "sets relay_paused ServerRecv False (serverResumeRecv (relay_step p) 0 u)"
      "sets relay_paused ServerSend False (serverResumeSend (relay_step p) 0 u)"
    by (auto simp: defs split: if_splits elim!: server_side.elims)
  show "sets relay_paused ClientRecv True (clientPauseRecv (relay_step p) 1 u)"
      "sets relay_paused ClientSend True (clientPauseSend (relay_step p) 1 u)"
      "sets relay_paused ClientRecv False (clientResumeRecv (relay_step p) 1 u)"
      "sets relay_paused ClientSend False (clientResumeSend (relay_step p) 1 u)"
    by (auto simp: defs split: if_splits elim!: server_side.elims)
qed

text \<open>C7. When a callback of the proxy waits, the other stream does not wait for it: if the answer is
  ESB_AGAIN or ESB_PAUSE, the end of the exchange that is waited for is running and the opposite end, which
  has nothing to do until then, is paused.\<close>

theorem waiting_hands_over:
  assumes "context_at a w = Some c" "pxServerStream c = Some 0" "pxClientStream c = Some 1"
    and "stream_context (relayServer w) = a" "client_context (relayClient w) = a" "a \<noteq> 0"
    and "run_callback (relay_step p) 0 1 cb w = (e, w')" "awaits cb e = Some x"
  shows "\<not> relay_paused x w' \<and> relay_paused (opposite x) w'"
  using relayed.callback_flow [OF assms(1-3) _ _ assms(6-8)] assms(4,5) by (simp add: relay_step_def)

definition paired_world :: relay_world where
  "paired_world =
     \<lparr>proxyContexts = [(4096, new_proxy_context\<lparr>pxServerStream := Some 0, pxClientStream := Some 1\<rparr>)],
      relayServer = setContext 4096 (stateTransition SERVER_PARSING_BODY
        (new_server_socket\<lparr>transaction := Some net_transaction, requestsPerConnection := 1\<rparr>)),
      relayClient = client_setContext 4096 (client_stateTransition CLIENT_PARSING_HEADERS
        (new_client_socket False (Some peer_transaction))),
      serverLine = new_wire [] [], originLine = new_wire [] [], pendingTransaction = None, relayBuffers = 0,
      relayDestroyed = 0\<rparr>"

theorem waiting_hands_over_witness:
  "\<exists>w'. run_callback (relay_step (relay 1)) 0 1 (ConsumeRequestBody (Some [1, 2]) 2) paired_world = (ESB_AGAIN, w') \<and>
    \<not> relay_paused ClientSend w' \<and> relay_paused ServerRecv w'"
proof -
  let ?cb = "ConsumeRequestBody (Some [1, 2]) 2"
  obtain e w' where r: "run_callback (relay_step (relay 1)) 0 1 ?cb paired_world = (e, w')"
    by fastforce
  have "fst (run_callback (relay_step (relay 1)) 0 1 ?cb paired_world) = ESB_AGAIN"
    by code_simp
  then have e: "e = ESB_AGAIN"
    using r by simp
  have "context_at 4096 paired_world = Some (new_proxy_context\<lparr>pxServerStream := Some 0, pxClientStream := Some 1\<rparr>)"
      "stream_context (relayServer paired_world) = 4096" "client_context (relayClient paired_world) = 4096"
    by code_simp+
  then show ?thesis
    using waiting_hands_over [OF _ _ _ _ _ _ r, of 4096 _ ClientSend] r e by simp
qed

section \<open>The life of a context\<close>

lemma context_heap [simp]:
  "context_at a (put_context b c w) = (if a = b then Some c else context_at a w)"
  "context_at a (destroy_context b w) = (if a = b then None else context_at a w)"
proof -
  have "map_of (filter (\<lambda>e. fst e \<noteq> b) xs) a = (if a = b then None else map_of xs a)" for xs :: "(u64 \<times> proxy_context) list"
    by (induction xs) auto
  then show "context_at a (put_context b c w) = (if a = b then Some c else context_at a w)"
      "context_at a (destroy_context b w) = (if a = b then None else context_at a w)"
    by (simp_all add: context_at_def put_context_def destroy_context_def)
qed

lemma context_at_world [simp]:
  "context_at a (relayServer_update f w) = context_at a w" "context_at a (relayClient_update g w) = context_at a w"
  "context_at a (relayBuffers_update h w) = context_at a w" "context_at a (relayDestroyed_update d w) = context_at a w"
  by (simp_all add: context_at_def)

lemma heap_sockets [simp]:
  "relayServer (put_context a c w) = relayServer w" "relayClient (put_context a c w) = relayClient w"
  "relayServer (destroy_context a w) = relayServer w" "relayClient (destroy_context a w) = relayClient w"
  by (simp_all add: put_context_def destroy_context_def)

definition has_context :: "u64 \<Rightarrow> relay_world \<Rightarrow> bool" where
  "has_context a w \<longleftrightarrow> a \<noteq> 0 \<and> stream_context (relayServer w) = a \<and> client_context (relayClient w) = a"

lemma contexts_cleared [simp]: "stream_context (setContext 0 s) = 0" "client_context (client_setContext 0 t) = 0"
  by (simp_all add: stream_context_def setContext_def map_transaction_def client_context_def client_setContext_def split: option.split)

text \<open>C12. The context that the two streams of an exchange share outlives the client transaction: when that
  completes first, the context stays as it is but for its client stream, and the server stream goes on with
  it. It is destroyed when the server transaction ends, at whatever time and in whatever state; no stream
  refers to it then. (Where the client transaction fails, C13 applies. Where the server transaction ends
  first, the memory of the context is gone with it: \<open>stale_context_reused\<close> below.)\<close>

theorem context_lives_until_both_end:
  assumes "has_context a w" "context_at a w = Some c" "pxServerStream c = Some 0" "pxClientStream c = Some 1"
  shows "(case proxy_endClient (relay_step p) 1 ES_HTTP_CLIENT_HANDLER_END w of (e, w1) \<Rightarrow>
      e = ESB_SUCCESS \<and> context_at a w1 = Some (c\<lparr>pxClientStream := None\<rparr>) \<and>
      stream_context (relayServer w1) = a \<and> client_context (relayClient w1) = 0) \<and>
    (\<forall>w2 c2 st. context_at a w2 = Some c2 \<longrightarrow> pxClientStream c2 = None \<longrightarrow> stream_context (relayServer w2) = a \<longrightarrow>
      (case proxy_endServer (relay_step p) 0 st w2 of (e, w3) \<Rightarrow>
        e = ESB_SUCCESS \<and> context_at a w3 = None \<and> stream_context (relayServer w3) = 0))"
  using assms
  by (simp add: has_context_def proxy_endServer_def proxy_endClient_def unpair_def modify_context_def relay_step_def Let_def)

theorem context_lives_until_both_end_witness:
  "\<exists>w1 w2. proxy_endClient (relay_step (relay 1)) 1 ES_HTTP_CLIENT_HANDLER_END paired_world = (ESB_SUCCESS, w1) \<and>
    context_at 4096 w1 \<noteq> None \<and>
    proxy_endServer (relay_step (relay 1)) 0 ES_HTTP_SERVER_HANDLER_END w1 = (ESB_SUCCESS, w2) \<and> context_at 4096 w2 = None"
proof -
  have paired: "has_context 4096 paired_world"
      "context_at 4096 paired_world = Some (new_proxy_context\<lparr>pxServerStream := Some 0, pxClientStream := Some 1\<rparr>)"
    by code_simp+
  obtain e w1 where w1: "proxy_endClient (relay_step (relay 1)) 1 ES_HTTP_CLIENT_HANDLER_END paired_world = (e, w1)"
    by fastforce
  obtain e' w2 where w2: "proxy_endServer (relay_step (relay 1)) 0 ES_HTTP_SERVER_HANDLER_END w1 = (e', w2)"
    by fastforce
  have streams: "pxServerStream (new_proxy_context\<lparr>pxServerStream := Some 0, pxClientStream := Some 1\<rparr>) = Some 0"
      "pxClientStream (new_proxy_context\<lparr>pxServerStream := Some 0, pxClientStream := Some 1\<rparr>) = Some 1"
    by simp_all
  note both = context_lives_until_both_end [OF paired streams, of "relay 1"]
  have first: "e = ESB_SUCCESS \<and>
      context_at 4096 w1 = Some (new_proxy_context\<lparr>pxServerStream := Some 0, pxClientStream := Some 1, pxClientStream := None\<rparr>) \<and>
      stream_context (relayServer w1) = 4096"
    using both [THEN conjunct1, unfolded w1] by simp
  moreover have "e' = ESB_SUCCESS \<and> context_at 4096 w2 = None"
    using both [THEN conjunct2, rule_format, of w1 _ ES_HTTP_SERVER_HANDLER_END, unfolded w2] first by simp
  ultimately show ?thesis
    using w1 w2 by auto
qed

lemma endServer_last:
  assumes "context_at a w = Some c" "pxClientStream c = None" "stream_context (relayServer w) = a" "a \<noteq> 0"
  shows "context_at a (snd (proxy_endServer (relay_step p) 0 st w)) = None"
  using assms
  by (simp add: proxy_endServer_def unpair_def modify_context_def relay_step_def Let_def)

lemma endClient_last:
  assumes "context_at a w = Some c" "pxServerStream c = None" "client_context (relayClient w) = a" "a \<noteq> 0"
  shows "context_at a (snd (proxy_endClient (relay_step p) 1 st w)) = None"
  using assms
  by (simp add: proxy_endClient_def unpair_def modify_context_def relay_step_def Let_def)

lemma relay_env_fields [simp]:
  "sockClose (relay_server_env r) = (\<lambda>w. w)" "addAverage (relay_server_env r) = (\<lambda>_ w. w)"
  "destroyTransaction (relay_server_env r) = (\<lambda>_ w. w)" "sockClose (relay_client_env q) = (\<lambda>w. w)"
  "recordOutcome (relay_client_env q) = (\<lambda>_ _ w. w)"
  "destroyTransaction (relay_client_env q) = (\<lambda>_ w. w\<lparr>relayDestroyed := relayDestroyed w + 1\<rparr>)"
  "removeMultiplexedSocket (relay_server_env r) = (\<lambda>w s. case r w s of (w1, s1) \<Rightarrow> (ESB_SUCCESS, w1, s1))"
  "removeMultiplexedSocket (relay_client_env q) = (\<lambda>w t. case q w t of (w1, t1) \<Rightarrow> (ESB_SUCCESS, w1, t1))"
  by (simp_all add: relay_server_env_def relay_client_env_def)

lemma remove_server_ends:
  assumes "context_at a w = Some c" "pxClientStream c = None" "stream_context s = a" "a \<noteq> 0"
    and "removal_state (sockState s AND SERVER_STATE_MASK) \<noteq> None"
  shows "context_at a (fst (remove_server (relay_step p) w s)) = None"
proof -
  obtain st where st: "removal_state (sockState s AND SERVER_STATE_MASK) = Some st"
    using assms(5) by blast
  obtain w1 s1 where r: "release_buffers (relay_server_env Pair) w s = (w1, s1)"
    by fastforce
  then have "context_at a w1 = Some c" "stream_context s1 = a" "sockState s1 = sockState s"
    using assms(1,3) by (auto simp: release_buffers_def relay_server_env_def Let_def stream_context_def split: option.splits)
  moreover obtain e w2 where e: "proxy_endServer (relay_step p) 0 st (w1\<lparr>relayServer := s1\<rparr>) = (e, w2)"
    by fastforce
  ultimately have "context_at a w2 = None"
    using endServer_last [of a "w1\<lparr>relayServer := s1\<rparr>" c p st] assms(2,4) by simp
  then show ?thesis
    using st r e \<open>sockState s1 = sockState s\<close>
    by (simp add: remove_server_def handleRemove_def Let_def proxy_server_handler_def relay_endServer_def in_server_def
        split: prod.splits option.splits)
qed

lemma remove_client_ends:
  assumes "context_at a w = Some c" "pxServerStream c = None" "client_context t = a" "a \<noteq> 0"
    and "client_removal_state (clState t AND CLIENT_STATE_MASK) \<noteq> None" "client_in t CLIENT_ABORTED"
  shows "context_at a (fst (remove_client (relay_step p) w t)) = None"
proof -
  obtain st where st: "client_removal_state (clState t AND CLIENT_STATE_MASK) = Some st"
    using assms(5) by blast
  obtain w1 t1 where r: "client_release_buffers (relay_client_env Pair) w t = (w1, t1)"
    by fastforce
  then have "context_at a w1 = Some c" "client_context t1 = a" "clState t1 = clState t" "clTransaction t1 = clTransaction t"
    using assms(1,3) by (auto simp: client_release_buffers_def relay_client_env_def Let_def client_context_def split: option.splits)
  moreover obtain k where "clTransaction t = Some k"
    using assms(3,4) by (auto simp: client_context_def split: option.splits)
  moreover obtain e w2 where e: "proxy_endClient (relay_step p) 1 st (w1\<lparr>relayClient := t1\<rparr>) = (e, w2)"
    by fastforce
  ultimately have "context_at a w2 = None" "clTransaction t1 = Some k"
    using endClient_last [of a "w1\<lparr>relayClient := t1\<rparr>" c p st] assms(2,4) by simp_all
  then show ?thesis
    using assms(6) st r e \<open>clState t1 = clState t\<close>
    by (auto simp: remove_client_def client_handleRemove_def client_report_end_def client_drop_transaction_def Let_def client_in_def
        proxy_client_handler_def relay_endClient_def in_client_def split: prod.splits option.splits)
qed

text \<open>C13. An exchange that fails destroys its context twice. A stream that ends early takes the other one
  down with it; the removal of that stream calls the handler again, which finds itself the last and
  destroys the context, and the outer call goes on to use it and to destroy it once more. Whichever of the
  two streams fails, as long as the other is in the course of a transaction.\<close>

theorem failed_exchange_uses_dead_context:
  assumes "has_context a w" "context_at a w = Some c" "pxServerStream c = Some 0" "pxClientStream c = Some 1"
  shows "(cst \<noteq> ES_HTTP_CLIENT_HANDLER_END \<and> \<not> in_state (relayServer w) SERVER_ABORTED \<and>
      removal_state (sockState (relayServer w) AND SERVER_STATE_MASK) \<noteq> None \<longrightarrow>
      fst (proxy_endClient (relay_step (relay_step p)) 1 cst w) = UNDEFINED_BEHAVIOUR) \<and>
    (sst \<noteq> ES_HTTP_SERVER_HANDLER_END \<and> \<not> client_in (relayClient w) CLIENT_ABORTED \<and>
      client_removal_state (clState (relayClient w) AND CLIENT_STATE_MASK) \<noteq> None \<longrightarrow>
      fst (proxy_endServer (relay_step (relay_step p)) 0 sst w) = UNDEFINED_BEHAVIOUR)"
proof (intro conjI impI; elim conjE)
  let ?q = "relay_step p"
  have ctx: "a \<noteq> 0" "stream_context (relayServer w) = a" "client_context (relayClient w) = a"
    using assms(1) by (auto simp: has_context_def)
  {
    assume cst: "cst \<noteq> ES_HTTP_CLIENT_HANDLER_END" and ok: "\<not> in_state (relayServer w) SERVER_ABORTED"
      "removal_state (sockState (relayServer w) AND SERVER_STATE_MASK) \<noteq> None"
    define w2 where "w2 = put_context a (c\<lparr>pxClientStream := None\<rparr>) w\<lparr>relayClient := client_setContext 0 (relayClient w)\<rparr>"
    define s2 where "s2 = addFlag SERVER_ABORTED (relayServer w)"
    have "stream_context s2 = a" "sockState s2 AND SERVER_STATE_MASK = sockState (relayServer w) AND SERVER_STATE_MASK"
      using ctx by (simp_all add: s2_def addFlag_def stream_context_def bit.conj_disj_distrib2)
    then have gone: "context_at a (fst (remove_server ?q w2 s2)) = None"
      using remove_server_ends [of a w2 "c\<lparr>pxClientStream := None\<rparr>" s2 p] ctx ok(2) by (simp add: w2_def)
    obtain w3 s3 where r: "remove_server ?q w2 s2 = (w3, s3)"
      by fastforce
    have abort: "serverAbort (relay_step ?q) 0 w2 = (ESB_SUCCESS, w3\<lparr>relayServer := s3\<rparr>)"
      using ok(1) r
      by (simp add: relay_step_def [of ?q] on_server_def abort_def after_update_def relay_error_def senv_def s2_def w2_def)
    have "proxy_endClient (relay_step ?q) 1 cst w =
        unpair a (pxServerStream_update (\<lambda>_. None)) pxServerStream (serverContext (relay_step ?q)) (snd (serverAbort (relay_step ?q) 0 w2))"
      using assms cst ctx
      by (simp add: proxy_endClient_def modify_context_def relay_step_def [of ?q] Let_def w2_def)
    then show "fst (proxy_endClient (relay_step ?q) 1 cst w) = UNDEFINED_BEHAVIOUR"
      using gone by (simp add: abort r unpair_def modify_context_def)
  }
  {
    assume sst: "sst \<noteq> ES_HTTP_SERVER_HANDLER_END" and ok: "\<not> client_in (relayClient w) CLIENT_ABORTED"
      "client_removal_state (clState (relayClient w) AND CLIENT_STATE_MASK) \<noteq> None"
    define w2 where "w2 = put_context a (c\<lparr>pxServerStream := None\<rparr>) w\<lparr>relayServer := setContext 0 (relayServer w)\<rparr>"
    define t2 where "t2 = client_addFlag CLIENT_ABORTED (relayClient w)"
    have "client_context t2 = a" "clState t2 AND CLIENT_STATE_MASK = clState (relayClient w) AND CLIENT_STATE_MASK"
        "client_in t2 CLIENT_ABORTED"
      using ctx by (simp_all add: t2_def client_addFlag_def client_context_def bit.conj_disj_distrib2 client_in_def
          has_flag_def bit.conj_disj_distrib)
    then have gone: "context_at a (fst (remove_client ?q w2 t2)) = None"
      using remove_client_ends [of a w2 "c\<lparr>pxServerStream := None\<rparr>" t2 p] ctx ok(2) by (simp add: w2_def)
    obtain w3 t3 where r: "remove_client ?q w2 t2 = (w3, t3)"
      by fastforce
    have abort: "clientAbort (relay_step ?q) 1 w2 = (ESB_SUCCESS, w3\<lparr>relayClient := t3\<rparr>)"
      using ok(1) r
      by (simp add: relay_step_def [of ?q] on_client_def client_abort_def after_update_def relay_error_def cenv_def t2_def w2_def)
    have "proxy_endServer (relay_step ?q) 0 sst w =
        unpair a (pxClientStream_update (\<lambda>_. None)) pxClientStream (clientContext (relay_step ?q)) (snd (clientAbort (relay_step ?q) 1 w2))"
      using assms sst ctx
      by (simp add: proxy_endServer_def modify_context_def relay_step_def [of ?q] Let_def w2_def)
    then show "fst (proxy_endServer (relay_step ?q) 0 sst w) = UNDEFINED_BEHAVIOUR"
      using gone by (simp add: abort [unfolded One_nat_def] r unpair_def modify_context_def)
  }
qed

theorem failed_exchange_uses_dead_context_witness:
  "fst (proxy_endClient (relay 2) 1 ES_HTTP_CLIENT_HANDLER_RECV_RESPONSE_HEADERS paired_world) = UNDEFINED_BEHAVIOUR"
proof -
  have "has_context 4096 paired_world"
      "context_at 4096 paired_world = Some (new_proxy_context\<lparr>pxServerStream := Some 0, pxClientStream := Some 1\<rparr>)"
      "\<not> in_state (relayServer paired_world) SERVER_ABORTED"
      "removal_state (sockState (relayServer paired_world) AND SERVER_STATE_MASK) \<noteq> None"
    by code_simp+
  then show ?thesis
    using failed_exchange_uses_dead_context [of 4096 paired_world _ ES_HTTP_CLIENT_HANDLER_RECV_RESPONSE_HEADERS "relay 0"]
    by (simp add: numeral_2_eq_2)
qed

section \<open>Whole exchanges\<close>

definition relay_start :: relay_world where
  "relay_start =
     \<lparr>proxyContexts = [], relayServer = new_server_socket, relayClient = new_client_socket False None,
      serverLine = new_wire [get_request] [], originLine = new_wire [ok_response] [], pendingTransaction = None,
      relayBuffers = 0, relayDestroyed = 0\<rparr>"

text \<open>A request arrives at the server socket; then the connection to the origin is established.\<close>

definition relay_get :: "(error \<times> relay_world) option" where
  "relay_get =
     (case handleReadable (senv_at 3) (sh_at 3) relay_start (relayServer relay_start) of
        None \<Rightarrow> None
      | Some (_, w, s) \<Rightarrow>
          let w1 = w\<lparr>relayServer := s\<rparr> in
          (case handleConnect (cenv_at 3) (ch_at 3) w1 (relayClient w1) of
             None \<Rightarrow> None
           | Some (e, w2, t) \<Rightarrow> Some (e, w2\<lparr>relayClient := t\<rparr>)))"

lemma relay_get_run:
  "map_option (\<lambda>(e, w). (e, taken (originLine w), taken (serverLine w), client_context (relayClient w), proxyContexts w)) relay_get =
    Some (ESB_SUCCESS, get_request, ok_response, 4096, [(4096, new_proxy_context\<lparr>pxServerStream := Some 0\<rparr>)])"
  by code_simp

text \<open>A run of the proxy on scripted connections: the GET that arrives at the server socket goes out to the
  origin octet by octet the same, and the response of the origin, head and body, goes back to the peer, through the state machines
  of both sockets, their parsers and formatters and 64-octet buffers.\<close>

theorem proxy_relays_get:
  "\<exists>w. relay_get = Some (ESB_SUCCESS, w) \<and> taken (originLine w) = get_request \<and> taken (serverLine w) = ok_response"
  using relay_get_run by (auto simp: map_option_eq_Some)

text \<open>The context of an exchange lives in the allocator of its server transaction, which is reset when
  that completes. The next transaction of the connection then has its context at the same address, while
  the client stream of the exchange that is ending still refers to it.\<close>

theorem stale_context_reused:
  "\<exists>w c. relay_get = Some (ESB_SUCCESS, w) \<and> client_context (relayClient w) = 4096 \<and>
    context_at 4096 w = Some c \<and> pxServerStream c = Some 0 \<and> \<not> receivedOutboundResponse c"
  using relay_get_run
  by (auto simp: map_option_eq_Some context_at_def new_proxy_context_def receivedOutboundResponse_def)

section \<open>Error responses\<close>

lemma send_only_while_receiving:
  assumes "in_state s SERVER_RECV_STATE_MASK" "\<not> isShutdown env w"
  shows "advance_own env h SERVER_ADVANCE_SEND w s = Some (ESB_SUCCESS, w, s)"
  using assms by (simp add: advance_own_def advanceStateMachine_def machine_loop.simps machine_round_def has_flag_def)

lemma setResponse_keeps:
  assumes "setResponse env status reason s = (e, s1)" "transaction s \<noteq> None"
  shows "e = ESB_SUCCESS" "sockState s1 = sockState s" "stream_context s1 = stream_context s"
  using assms
  by (auto simp: setResponse_def Let_def set_transaction_def add_response_header_def stream_context_def update_response_def
      split: prod.splits if_splits option.splits)

lemma sendEmptyResponse_too_early:
  assumes "in_state (relayServer w) SERVER_RECV_STATE_MASK" "transaction (relayServer w) \<noteq> None"
    and "serverSendEmptyResponse (relay_step p) 0 status reason w = (e, w1)"
  shows "\<exists>s1. e = ESB_SUCCESS \<and> w1 = w\<lparr>relayServer := s1\<rparr> \<and> sockState s1 = sockState (relayServer w) \<and>
    stream_context s1 = stream_context (relayServer w)"
proof -
  obtain e2 s1 where r: "setResponse (senv p) status reason (relayServer w) = (e2, s1)"
    by fastforce
  note keeps = setResponse_keeps [OF r assms(2)]
  have "in_state s1 SERVER_RECV_STATE_MASK" "\<not> isShutdown (senv p) w"
    using assms(1) keeps by (simp_all add: in_state_def senv_def relay_server_env_def)
  from send_only_while_receiving [OF this] show ?thesis
    using assms(3) r keeps by (auto simp: relay_step_def on_server_def sendEmptyResponse_def returns_def)
qed

text \<open>C14. A request that cannot be routed is never answered: the response is handed to the socket before the
  request's body was received, where the machine does not send; the callback succeeds, and the first chunk
  of the body, or its end, then aborts the connection as there is no client stream. The transaction that
  was made for the origin is neither executed nor destroyed.\<close>

theorem unroutable_request_unanswered:
  assumes "context_at (stream_context (relayServer w)) w = Some c" "stream_context (relayServer w) \<noteq> 0"
    and "pxServerStream c = Some 0" "pxClientStream c = None"
    and "in_state (relayServer w) SERVER_RECV_STATE_MASK" "transaction (relayServer w) \<noteq> None"
    and "fst (relay_copyRequest (snd (createClientTransaction (relay_step p) w))) = ESB_SUCCESS" "e \<noteq> ESB_SUCCESS"
    and "proxy_receiveRequestHeaders ((relay_step p)\<lparr>route := \<lambda>_ _ w. (e, (), w)\<rparr>) 0 w = (r, w1)"
  shows "r = ESB_SUCCESS \<and> taken (serverLine w1) = taken (serverLine w) \<and>
    pendingTransaction w1 \<noteq> None \<and> relayDestroyed w1 = relayDestroyed w \<and>
    (\<forall>os n. fst (proxy_consumeRequestBody (relay_step p) 0 (Some os) n w1) = ESB_INVALID_STATE)"
proof -
  obtain w0 where w0: "createClientTransaction (relay_step p) w = (Some 1, w0)" "relayServer w0 = relayServer w"
      "serverLine w0 = serverLine w" "relayDestroyed w0 = relayDestroyed w" "proxyContexts w0 = proxyContexts w"
    by (simp add: relay_step_def)
  obtain t where "pendingTransaction w0 = Some t"
    using w0(1) by (auto simp: relay_step_def)
  then obtain t1 where copied: "relay_copyRequest w0 = (ESB_SUCCESS, w0\<lparr>pendingTransaction := Some t1\<rparr>)"
    using assms(6,7) w0 by (auto simp: relay_copyRequest_def split: option.splits prod.splits)
  let ?w2 = "w0\<lparr>pendingTransaction := Some t1\<rparr>"
  have sent: "proxy_receiveRequestHeaders ((relay_step p)\<lparr>route := \<lambda>_ _ w. (e, (), w)\<rparr>) 0 w =
      route_error_response ((relay_step p)\<lparr>route := \<lambda>_ _ w. (e, (), w)\<rparr>) 0 e ?w2"
    using assms(1-3,8) w0(1) copied
    by (simp add: proxy_receiveRequestHeaders_def relay_step_def Let_def)
  then obtain status reason where "serverSendEmptyResponse (relay_step p) 0 status reason ?w2 = (r, w1)"
    using assms(9) by (auto simp: route_error_response_def split: if_splits)
  from sendEmptyResponse_too_early [OF _ _ this] obtain s1 where
    out: "r = ESB_SUCCESS" "w1 = ?w2\<lparr>relayServer := s1\<rparr>" "stream_context s1 = stream_context (relayServer w)"
    using assms(5,6) w0(2) by auto
  have "fst (proxy_consumeRequestBody (relay_step p) 0 (Some os) n w1) = ESB_INVALID_STATE" for os n
    using assms(1-4) w0 out by (simp add: proxy_consumeRequestBody_def relay_step_def context_at_def Let_def)
  then show ?thesis
    using out w0 by simp
qed

definition unpaired_world :: relay_world where
  "unpaired_world = paired_world\<lparr>proxyContexts := [(4096, new_proxy_context\<lparr>pxServerStream := Some 0\<rparr>)]\<rparr>"

theorem unroutable_request_unanswered_witness:
  "\<exists>w. proxy_receiveRequestHeaders ((relay_step (relay 1))\<lparr>route := \<lambda>_ _ w. (ESB_CANNOT_FIND, (), w)\<rparr>) 0 unpaired_world =
      (ESB_SUCCESS, w) \<and> taken (serverLine w) = [] \<and> pendingTransaction w \<noteq> None"
proof -
  obtain r w where run: "proxy_receiveRequestHeaders ((relay_step (relay 1))\<lparr>route := \<lambda>_ _ w. (ESB_CANNOT_FIND, (), w)\<rparr>) 0
      unpaired_world = (r, w)"
    by fastforce
  have "context_at (stream_context (relayServer unpaired_world)) unpaired_world =
        Some (new_proxy_context\<lparr>pxServerStream := Some 0\<rparr>)"
      "stream_context (relayServer unpaired_world) \<noteq> 0" "in_state (relayServer unpaired_world) SERVER_RECV_STATE_MASK"
      "transaction (relayServer unpaired_world) \<noteq> None" "taken (serverLine unpaired_world) = []"
      "fst (relay_copyRequest (snd (createClientTransaction (relay_step (relay 1)) unpaired_world))) = ESB_SUCCESS"
    by code_simp+
  then show ?thesis
    using unroutable_request_unanswered [OF _ _ _ _ _ _ _ _ run] run by (simp add: new_proxy_context_def)
qed

end
