(* ===== verification/StringUtil.thy ===== *)
theory StringUtil
  imports Prelude
begin

text \<open>
  \<open>base/source/ESBString.cpp\<close>: hashing, wildcard patterns, pointers in unaligned memory, host names.

  A size-delimited string is the memory that begins at its pointer, with its length: the code reads
  behind the length, so a list may be longer than it, and reading behind the list is None.
\<close>

section \<open>The functions\<close>

text \<open>A char is signed. \<open>str\<close> is None for a NULL pointer.\<close>

primrec hash_loop :: "cstr \<Rightarrow> u64 \<Rightarrow> u64 \<Rightarrow> u64" where
  "hash_loop [] a h = h"
| "hash_loop (c # cs) a h = hash_loop cs (a * 27183 mod (7919 - 1)) ((a * h + scast c) mod 7919)"

definition StringHash :: "cstr option \<Rightarrow> u64" where
  "StringHash str = (case str of None \<Rightarrow> 0 | Some s \<Rightarrow> hash_loop s 31415 0)"

text \<open>
  \<open>ForwardMatch\<close>: the two indices and the count of its loop are always the same number \<open>k\<close>. The result is
  the match value, and whether a wildcard was found.
\<close>

function forward_from :: "u8 list \<Rightarrow> nat \<Rightarrow> u8 list \<Rightarrow> nat \<Rightarrow> nat \<Rightarrow> (int \<times> bool) option" where
  "forward_from pattern plen str slen k =
     (if length pattern \<le> k then None
      else if pattern ! k = ASTERISK then Some (int k, True)
      else if slen \<le> k then Some (if plen \<le> k then int k else - 1, False)
      else if plen \<le> k then Some (- 1, False)
      else if length str \<le> k then None
      else if pattern ! k \<noteq> str ! k then Some (- 1, False)
      else forward_from pattern plen str slen (Suc k))"
  by auto
termination
  by (relation "measure (\<lambda>(_, _, _, slen, k). slen - k)") auto

declare forward_from.simps [simp del]

definition ForwardMatch :: "u8 list option \<Rightarrow> u32 \<Rightarrow> u8 list option \<Rightarrow> u32 \<Rightarrow> (int \<times> bool) option" where
  "ForwardMatch pattern plen str slen =
     (case (pattern, str) of
        (Some p, Some s) \<Rightarrow>
          if plen = 0 \<or> slen = 0 then Some (if plen = slen then 0 else - 1, False)
          else forward_from p (unat plen) s (unat slen) 0
      | _ \<Rightarrow> Some (- 1, False))"

text \<open>\<open>ReverseMatch\<close>: \<open>i\<close> and \<open>j\<close> are the indices into pattern and string, \<open>n\<close> the count.\<close>

fun reverse_from :: "u8 list \<Rightarrow> u8 list \<Rightarrow> nat \<Rightarrow> nat \<Rightarrow> int \<Rightarrow> int option" where
  "reverse_from pattern str i 0 n =
     (if length pattern \<le> i then None
      else if pattern ! i = ASTERISK then Some n
      else Some (if i = 0 \<or> pattern ! (i - 1) = ASTERISK then n + 1 else - 1))"
| "reverse_from pattern str i (Suc j) n =
     (if length pattern \<le> i then None
      else if pattern ! i = ASTERISK then Some n
      else if i = 0 then Some (- 1)
      else if length str \<le> Suc j then None
      else if pattern ! i \<noteq> str ! Suc j then Some (- 1)
      else reverse_from pattern str (i - 1) j (n + 1))"

definition ReverseMatch :: "u8 list option \<Rightarrow> u32 \<Rightarrow> u8 list option \<Rightarrow> u32 \<Rightarrow> int option" where
  "ReverseMatch pattern plen str slen =
     (case (pattern, str) of
        (Some p, Some s) \<Rightarrow>
          if plen = 0 \<or> slen = 0 then Some (if plen = slen then 0 else - 1)
          else reverse_from p s (unat plen - 1) (unat slen - 1) 0
      | _ \<Rightarrow> Some (- 1))"

text \<open>The differences are computed in 32 bits and converted to an int.\<close>

definition StringWildcardMatch :: "u8 list option \<Rightarrow> u32 \<Rightarrow> u8 list option \<Rightarrow> u32 \<Rightarrow> int option" where
  "StringWildcardMatch pattern plen str slen =
     (case ForwardMatch pattern plen str slen of
        None \<Rightarrow> None
      | Some (f, wild) \<Rightarrow>
          if f < 0 then Some (- 1)
          else if \<not> wild then Some (sint (slen - word_of_int f))
          else
            map_option (\<lambda>r. if r < 0 then - 1 else sint (slen - word_of_int f - word_of_int r + 1))
              (ReverseMatch pattern plen str slen))"

text \<open>The overload for NUL terminated strings.\<close>

definition StringWildcardMatch_c :: "cstr option \<Rightarrow> cstr option \<Rightarrow> int option" where
  "StringWildcardMatch_c pattern str =
     (case (pattern, str) of
        (Some p, Some s) \<Rightarrow>
          StringWildcardMatch (Some (p @ [0])) (of_nat (length p)) (Some (s @ [0])) (of_nat (length s))
      | _ \<Rightarrow> Some (- 1))"

text \<open>Pointers in unaligned memory, the highest octet first.\<close>

definition ReadPointer :: "u8 list \<Rightarrow> u64" where
  "ReadPointer buffer =
     push_bit 56 (ucast (buffer ! 0)) OR push_bit 48 (ucast (buffer ! 1)) OR push_bit 40 (ucast (buffer ! 2)) OR
     push_bit 32 (ucast (buffer ! 3)) OR push_bit 24 (ucast (buffer ! 4)) OR push_bit 16 (ucast (buffer ! 5)) OR
     push_bit 8 (ucast (buffer ! 6)) OR ucast (buffer ! 7)"

definition pointer_octets :: "u64 \<Rightarrow> u8 list" where
  "pointer_octets p = map (\<lambda>n. ucast (drop_bit n p)) [56, 48, 40, 32, 24, 16, 8, 0]"

definition WritePointer :: "u64 \<Rightarrow> u8 list \<Rightarrow> u8 list" where
  "WritePointer p buffer = pointer_octets p @ drop 8 buffer"

text \<open>The host name, its size, and the domain: what follows the first dot.\<close>

definition SplitFqdn :: "cstr \<Rightarrow> cstr \<times> u32 \<times> cstr option" where
  "SplitFqdn fqdn =
     (let host = takeWhile (\<lambda>c. c \<noteq> DOT) fqdn; rest = dropWhile (\<lambda>c. c \<noteq> DOT) fqdn
      in (host, of_nat (length host), case rest of [] \<Rightarrow> None | _ # d \<Rightarrow> Some d))"

text \<open>\<open>Duplicate\<close> through an allocator that answers an error or an address; the memory is the new string.\<close>

definition Duplicate :: "u8 list option \<Rightarrow> u64 \<Rightarrow> (u64 \<Rightarrow> error) \<Rightarrow> bool \<Rightarrow> error \<times> u8 list option" where
  "Duplicate buffer n alloc out_null =
     (case buffer of
        None \<Rightarrow> (ESB_NULL_POINTER, None)
      | Some bs \<Rightarrow>
          if out_null then (ESB_NULL_POINTER, None)
          else if alloc (n + 1) \<noteq> ESB_SUCCESS then (alloc (n + 1), None)
          else if length bs < unat n then (UNDEFINED_BEHAVIOUR, None)
          else (ESB_SUCCESS, Some (take (unat n) bs @ [0])))"

section \<open>What a pattern matches\<close>

text \<open>A pattern with one wildcard is the octets before it and those behind it.\<close>

definition wild_pattern :: "u8 list \<Rightarrow> u8 list \<Rightarrow> u8 list" where
  "wild_pattern a b = a @ ASTERISK # b"

definition glob :: "u8 list \<Rightarrow> u8 list \<Rightarrow> u8 list \<Rightarrow> bool" where
  "glob a b s \<longleftrightarrow> (\<exists>m. s = a @ m @ b)"

lemma nth_other: "x \<notin> set xs \<Longrightarrow> n < length xs \<Longrightarrow> xs ! n \<noteq> x"
  by (metis nth_mem)

lemma glob_iff:
  "glob a b s \<longleftrightarrow> length a + length b \<le> length s \<and> take (length a) s = a \<and> drop (length s - length b) s = b"
proof
  assume r: "length a + length b \<le> length s \<and> take (length a) s = a \<and> drop (length s - length b) s = b"
  moreover have "s = take (length a) s @ take n (drop (length a) s) @ drop n (drop (length a) s)" for n
    by (simp only: append_take_drop_id)
  moreover have "drop (length s - length b - length a) (drop (length a) s) = drop (length s - length b) s"
    using r by simp
  ultimately have "s = a @ take (length s - length b - length a) (drop (length a) s) @ b"
    by metis
  then show "glob a b s"
    unfolding glob_def by blast
qed (auto simp: glob_def)

text \<open>What the code accepts as the end of the string: the first octet of the string is never compared.\<close>

definition ends_with :: "u8 list \<Rightarrow> u8 list \<Rightarrow> bool" where
  "ends_with b s \<longleftrightarrow>
     length b \<le> length s \<and> (\<forall>t < length b. 0 < length s - length b + t \<longrightarrow> b ! t = s ! (length s - length b + t))"

lemma ends_with_shorter:
  assumes "length b < length s"
  shows "ends_with b s \<longleftrightarrow> drop (length s - length b) s = b"
proof -
  have "(\<forall>t < length b. b ! t = s ! (length s - length b + t)) \<longleftrightarrow> drop (length s - length b) s = b"
    using assms by (subst list_eq_iff_nth_eq) (auto simp: eq_commute)
  then show ?thesis
    using assms by (simp add: ends_with_def)
qed

lemma ends_with_same_length:
  assumes "length b = length s"
  shows "ends_with b s \<longleftrightarrow> tl b = tl s"
proof (cases b)
  case (Cons c cs)
  then obtain d ds where s: "s = d # ds" "length cs = length ds"
    using assms by (cases s) auto
  have "ends_with b s \<longleftrightarrow> (\<forall>t < length cs. cs ! t = ds ! t)"
    using Cons s by (auto simp: ends_with_def nth_Cons' less_Suc_eq_0_disj)
  then show ?thesis
    unfolding Cons s(1) using s(2) by (simp add: list_eq_iff_nth_eq)
qed (use assms in \<open>simp add: ends_with_def\<close>)

lemma ends_with_suffix: "ends_with b (xs @ b)"
  by (simp add: ends_with_def nth_append)

lemma forward_plain:
  assumes "ASTERISK \<notin> set p" "tp \<noteq> []" "hd tp \<noteq> ASTERISK"
    and "k \<le> length p" "k \<le> length s" "take k p = take k s"
  shows "forward_from (p @ tp) (length p) (s @ ts) (length s) k = Some (if p = s then int (length p) else - 1, False)"
  using assms(4-6)
proof (induction "length s - k" arbitrary: k)
  case 0
  then have "k = length s" "take k p = s"
    by simp_all
  moreover from this have "(p @ tp) ! k \<noteq> ASTERISK"
    using assms(1-3) 0(2) by (cases tp) (auto simp: nth_append nth_other)
  ultimately show ?case
    using 0 assms(2) by (subst forward_from.simps) auto
next
  case (Suc n)
  then have k: "k < length s" "k \<le> length p"
    by simp_all
  have star: "(p @ tp) ! k \<noteq> ASTERISK"
    using assms(1-3) k by (cases tp) (auto simp: nth_append nth_other)
  show ?case
  proof (cases "k < length p \<and> p ! k = s ! k")
    case True
    then have "take (Suc k) p = take (Suc k) s"
      using k Suc.prems(3) by (simp add: take_Suc_conv_app_nth)
    then have "forward_from (p @ tp) (length p) (s @ ts) (length s) (Suc k) =
        Some (if p = s then int (length p) else - 1, False)"
      using True k Suc.hyps by (intro Suc.hyps(1)) simp_all
    then show ?thesis
      using True k star by (subst forward_from.simps) (auto simp: nth_append)
  next
    case False
    then have "p \<noteq> s"
      using k by auto
    then show ?thesis
      using False k star assms(2) by (subst forward_from.simps) (auto simp: nth_append)
  qed
qed

lemma forward_wild:
  assumes "ASTERISK \<notin> set a" "k \<le> length a" "k \<le> length s" "take k a = take k s"
  shows "forward_from (wild_pattern a b @ tp) (length (wild_pattern a b)) (s @ ts) (length s) k =
    Some (if take (length a) s = a then (int (length a), True) else (- 1, False))"
  using assms(2-4)
proof (induction "length a - k" arbitrary: k)
  case 0
  then have "k = length a" "take k s = a"
    by simp_all
  then show ?case
    by (subst forward_from.simps) (simp add: wild_pattern_def nth_append)
next
  case (Suc n)
  then have k: "k < length a"
    by simp
  then have star: "(wild_pattern a b @ tp) ! k = a ! k" "a ! k \<noteq> ASTERISK"
    using assms(1) by (auto simp: wild_pattern_def nth_append nth_other)
  show ?case
  proof (cases "k < length s \<and> a ! k = s ! k")
    case True
    then have "take (Suc k) a = take (Suc k) s"
      using k Suc.prems(3) by (simp add: take_Suc_conv_app_nth)
    then have "forward_from (wild_pattern a b @ tp) (length (wild_pattern a b)) (s @ ts) (length s) (Suc k) =
        Some (if take (length a) s = a then (int (length a), True) else (- 1, False))"
      using True k Suc.hyps by (intro Suc.hyps(1)) simp_all
    then show ?thesis
      using True k star by (subst forward_from.simps) (auto simp: nth_append wild_pattern_def)
  next
    case False
    then have "take (length a) s \<noteq> a"
      using k by (metis length_take min.absorb4 min.strict_order_iff min_less_iff_conj nth_take)
    then show ?thesis
      using False k star by (subst forward_from.simps) (auto simp: nth_append wild_pattern_def)
  qed
qed

lemma reverse_wild:
  assumes "ASTERISK \<notin> set b" "m \<le> length b" "j < length s"
  shows "reverse_from (wild_pattern a b @ tp) (s @ ts) (length a + m) j n =
    Some (if m \<le> Suc j \<and> (\<forall>t < m. 0 < Suc j - m + t \<longrightarrow> b ! t = s ! (Suc j - m + t)) then n + int m else - 1)"
  using assms(2,3)
proof (induction j arbitrary: m n)
  case 0
  show ?case
  proof (cases m)
    case (Suc l)
    then have "(wild_pattern a b @ tp) ! (length a + m) = b ! l" "(wild_pattern a b @ tp) ! (length a + m - 1) = ASTERISK \<longleftrightarrow> l = 0"
      using 0(1) assms(1) by (cases l; auto simp: wild_pattern_def nth_append nth_other)+
    moreover have "b ! l \<noteq> ASTERISK"
      using Suc 0(1) assms(1) nth_other [of ASTERISK b l] by simp
    ultimately show ?thesis
      using Suc 0(1) by (auto simp: wild_pattern_def)
  qed (simp add: wild_pattern_def nth_append)
next
  case (Suc j)
  show ?case
  proof (cases m)
    case l: (Suc l)
    then have at: "(wild_pattern a b @ tp) ! (length a + m) = b ! l"
      using Suc.prems(1) by (simp add: wild_pattern_def nth_append)
    have star: "b ! l \<noteq> ASTERISK" "l < length b"
      using l Suc.prems(1) assms(1) nth_other [of ASTERISK b l] by simp_all
    have IH: "reverse_from (wild_pattern a b @ tp) (s @ ts) (length a + l) j (n + 1) =
        Some (if l \<le> Suc j \<and> (\<forall>t < l. 0 < Suc j - l + t \<longrightarrow> b ! t = s ! (Suc j - l + t)) then n + 1 + int l else - 1)"
      using l Suc.prems by (intro Suc.IH) simp_all
    have split: "(\<forall>t < m. 0 < Suc (Suc j) - m + t \<longrightarrow> b ! t = s ! (Suc (Suc j) - m + t)) \<longleftrightarrow>
        b ! l = s ! Suc j \<and> (\<forall>t < l. 0 < Suc j - l + t \<longrightarrow> b ! t = s ! (Suc j - l + t))" if "l \<le> Suc j"
      using that unfolding l by (auto simp: less_Suc_eq)
    have len: "length a + m < length (wild_pattern a b @ tp)"
      using l star by (simp add: wild_pattern_def)
    have at': "(s @ ts) ! Suc j = s ! Suc j"
      using Suc.prems by (simp add: nth_append)
    have step: "reverse_from (wild_pattern a b @ tp) (s @ ts) (length a + m) (Suc j) n =
        (if b ! l \<noteq> s ! Suc j then Some (- 1)
         else reverse_from (wild_pattern a b @ tp) (s @ ts) (length a + l) j (n + 1))"
      using len Suc.prems star unfolding reverse_from.simps(2) at at' by (simp add: l)
    show ?thesis
    proof (cases "l \<le> Suc j")
      case True
      then show ?thesis
        unfolding step IH split [OF True] by (simp add: l) blast
    qed (unfold step IH, simp add: l)
  qed (simp add: wild_pattern_def nth_append)
qed

text \<open>
  The match values. Lengths are below $2^{31}$, as the code keeps them in an int. \<open>tp\<close> is what lies behind
  the pattern in memory: without a wildcard its first octet is compared with one.
\<close>

definition readable :: "u8 list \<Rightarrow> bool" where
  "readable tp \<longleftrightarrow> tp \<noteq> [] \<and> hd tp \<noteq> ASTERISK"

lemma small_unat: "n < 2 ^ 31 \<Longrightarrow> unat (of_nat n :: u32) = n"
  by (simp add: unat_of_nat take_bit_nat_eq_self)

lemma small_zero: "n < 2 ^ 31 \<Longrightarrow> (of_nat n :: u32) = 0 \<longleftrightarrow> n = 0"
  using small_unat [of n] by (cases "n = 0") (auto simp: unat_eq_0 [symmetric])

lemma match_plain:
  assumes "ASTERISK \<notin> set p" "readable tp" "length p < 2 ^ 31" "length s < 2 ^ 31"
  shows "StringWildcardMatch (Some (p @ tp)) (of_nat (length p)) (Some (s @ ts)) (of_nat (length s)) =
    Some (if p = s then 0 else - 1)"
proof (cases "p = [] \<or> s = []")
  case True
  then show ?thesis
    using assms by (auto simp: StringWildcardMatch_def ForwardMatch_def small_zero)
next
  case False
  moreover have "(of_nat (length p) :: u32) \<noteq> 0" "(of_nat (length s) :: u32) \<noteq> 0"
    using False assms by (simp_all add: small_zero)
  ultimately show ?thesis
    using assms forward_plain [of p tp 0 s ts]
    by (simp add: StringWildcardMatch_def ForwardMatch_def small_unat readable_def)
qed

lemma match_wild:
  assumes "ASTERISK \<notin> set a" "ASTERISK \<notin> set b" "s \<noteq> []"
    and "length (wild_pattern a b) < 2 ^ 30" "length s < 2 ^ 30"
  shows "StringWildcardMatch (Some (wild_pattern a b @ tp)) (of_nat (length (wild_pattern a b)))
      (Some (s @ ts)) (of_nat (length s)) =
    Some (if take (length a) s = a \<and> ends_with b s then int (length s) - int (length a) - int (length b) + 1 else - 1)"
proof -
  have small: "length (wild_pattern a b) < 2 ^ 31" "length s < 2 ^ 31" "length a < 2 ^ 31" "length b < 2 ^ 31"
    using assms(4,5) by (simp_all add: wild_pattern_def)
  have len: "unat (of_nat (length (wild_pattern a b)) :: u32) = length a + Suc (length b)"
      "unat (of_nat (length s) :: u32) = length s"
    using small(1,2) by (simp_all only: small_unat) (simp add: wild_pattern_def)
  have zero: "(of_nat (length (wild_pattern a b)) :: u32) \<noteq> 0" "(of_nat (length s) :: u32) \<noteq> 0"
    using assms(3) small(1,2) by (simp_all only: small_zero) (simp_all add: wild_pattern_def)
  have "ForwardMatch (Some (wild_pattern a b @ tp)) (of_nat (length (wild_pattern a b))) (Some (s @ ts)) (of_nat (length s)) =
      Some (if take (length a) s = a then (int (length a), True) else (- 1, False))"
    using forward_wild [OF assms(1), of 0 s b tp ts] zero len
    by (simp add: ForwardMatch_def) (simp add: wild_pattern_def)
  moreover have "ReverseMatch (Some (wild_pattern a b @ tp)) (of_nat (length (wild_pattern a b))) (Some (s @ ts)) (of_nat (length s)) =
      Some (if ends_with b s then int (length b) else - 1)"
  proof -
    have "length s - 1 < length s" "Suc (length s - 1) = length s"
      using assms(3) by simp_all
    then have "reverse_from (wild_pattern a b @ tp) (s @ ts) (length a + length b) (length s - 1) 0 =
        Some (if ends_with b s then int (length b) else - 1)"
      using reverse_wild [OF assms(2) order_refl, of "length s - 1" s a tp ts 0] unfolding ends_with_def
      by (simp only: add_0 of_nat_0)
    then show ?thesis
      using zero len by (simp add: ReverseMatch_def)
  qed
  moreover have "sint (of_nat (length s) - word_of_int (int (length a)) - word_of_int (int (length b)) + 1 :: u32) =
      int (length s) - int (length a) - int (length b) + 1"
  proof -
    have "(of_nat (length s) - word_of_int (int (length a)) - word_of_int (int (length b)) + 1 :: u32) =
        word_of_int (int (length s) - int (length a) - int (length b) + 1)"
      by simp
    then show ?thesis
      using assms(4,5) by (simp only: sint_sbintrunc') (simp add: wild_pattern_def signed_take_bit_int_eq_self)
  qed
  ultimately show ?thesis
    by (simp add: StringWildcardMatch_def)
qed

text \<open>What is accepted, in terms of what the pattern means: two kinds of strings too many.\<close>

lemma accepted_iff:
  assumes "s \<noteq> []"
  shows "take (length a) s = a \<and> ends_with b s \<and> length a + length b \<le> length s + 1 \<longleftrightarrow>
    glob a b s \<or>
    (a = [] \<and> length b = length s \<and> hd b \<noteq> hd s \<and> tl b = tl s) \<or>
    (length a + length b = length s + 1 \<and> take (length a) s = a \<and> ends_with b s)"
proof -
  have "take (length a) s = a \<and> ends_with b s \<longleftrightarrow>
      glob a b s \<or> (a = [] \<and> length b = length s \<and> hd b \<noteq> hd s \<and> tl b = tl s)"
    if le: "length a + length b \<le> length s"
  proof (cases "length b < length s")
    case True
    then show ?thesis
      using le by (auto simp: glob_iff ends_with_shorter)
  next
    case False
    then have "length a = 0" "length b = length s"
      using le by linarith+
    then have "a = []" "length b = length s"
      by simp_all
    moreover from this have "b \<noteq> []"
      using assms by auto
    ultimately show ?thesis
      using assms by (auto simp: glob_iff ends_with_same_length intro: list.expand)
  qed
  moreover have "glob a b s \<Longrightarrow> length a + length b \<le> length s"
    by (simp add: glob_iff)
  ultimately show ?thesis
    by auto
qed

section \<open>Pointers and names\<close>

lemma pointer_round_trip: "ReadPointer (WritePointer p buffer) = p"
proof (rule bit_word_eqI)
  fix n :: nat
  assume n: "n < LENGTH(64)"
  have octet: "bit (push_bit k (ucast (ucast (drop_bit k p) :: u8)) :: u64) n \<longleftrightarrow> k \<le> n \<and> n < k + 8 \<and> bit p n"
    if "k \<le> 56" for k
    using n that by (auto simp: bit_push_bit_iff bit_ucast_iff bit_drop_bit_eq)
  have "bit (ReadPointer (WritePointer p buffer)) n \<longleftrightarrow>
      (\<exists>k \<in> {56, 48, 40, 32, 24, 16, 8, 0}. k \<le> n \<and> n < k + 8) \<and> bit p n"
    using octet [of 56] octet [of 48] octet [of 40] octet [of 32] octet [of 24] octet [of 16] octet [of 8] octet [of 0]
    by (simp add: ReadPointer_def WritePointer_def pointer_octets_def bit_or_iff) blast
  moreover have "\<exists>k \<in> {56, 48, 40, 32, 24, 16, 8, 0}. k \<le> n \<and> n < k + 8"
    using n by simp presburger
  ultimately show "bit (ReadPointer (WritePointer p buffer)) n = bit p n"
    by simp
qed

lemma length_pointer [simp]: "length (pointer_octets p) = 8"
  by (simp add: pointer_octets_def)

lemma read_written: "ReadPointer (pointer_octets p @ rest) = p"
  using pointer_round_trip [of p "replicate 8 0 @ rest"] by (simp add: WritePointer_def)

lemma SplitFqdn_parts:
  assumes "SplitFqdn fqdn = (host, n, domain)"
  shows "DOT \<notin> set host" "case domain of None \<Rightarrow> fqdn = host | Some d \<Rightarrow> fqdn = host @ DOT # d"
    "n = of_nat (length host)"
proof -
  have "host = takeWhile (\<lambda>c. c \<noteq> DOT) fqdn" and rest: "domain = (case dropWhile (\<lambda>c. c \<noteq> DOT) fqdn of [] \<Rightarrow> None | _ # d \<Rightarrow> Some d)"
      and "n = of_nat (length host)"
    using assms by (auto simp: SplitFqdn_def Let_def)
  then show "DOT \<notin> set host" "n = of_nat (length host)"
    by (auto dest: set_takeWhileD)
  have whole: "fqdn = host @ dropWhile (\<lambda>c. c \<noteq> DOT) fqdn"
    unfolding \<open>host = _\<close> by simp
  show "case domain of None \<Rightarrow> fqdn = host | Some d \<Rightarrow> fqdn = host @ DOT # d"
  proof (cases "dropWhile (\<lambda>c. c \<noteq> DOT) fqdn")
    case Nil
    show ?thesis
      using whole unfolding rest Nil by simp
  next
    case (Cons c d)
    then have "c = DOT"
      using hd_dropWhile [of "\<lambda>c. c \<noteq> DOT" fqdn] by auto
    then show ?thesis
      using whole unfolding rest Cons by simp
  qed
qed

end
