(* ===== verification/EmbeddedMap.thy ===== *)
theory EmbeddedMap
  imports EmbeddedList StringUtil
begin

text \<open>
  \<open>ES::EmbeddedMapBase\<close> and \<open>SharedEmbeddedMap\<close> (base/source/ESBEmbeddedMapBase.cpp,
  ESBSharedEmbeddedMap.cpp): a hash table of intrusive elements. An element is a number, its key what
  \<open>keyOf\<close> answers for it. A bucket is an \<open>EmbeddedList\<close>; by the refinement in EmbeddedList it is the list
  of its elements. A key may occur more than once.
\<close>

section \<open>The operations\<close>

text \<open>\<open>HashComparator\<close>: how keys are compared and hashed.\<close>

record 'k map_callbacks =
  cbCompare :: "'k \<Rightarrow> 'k \<Rightarrow> int"
  cbHash :: "'k \<Rightarrow> u64"

text \<open>\<open>mapBuckets\<close> is None when there are no buckets: none were asked for, or the allocation has failed.\<close>

record embedded_map =
  mapBuckets :: "nat list list option"
  numElements :: int
  numBuckets :: u32

definition new_embedded_map :: "u32 \<Rightarrow> bool \<Rightarrow> embedded_map" where
  "new_embedded_map n allocated =
     \<lparr>mapBuckets = (if n = 0 \<or> \<not> allocated then None else Some (replicate (unat n) [])), numElements = 0, numBuckets = n\<rparr>"

text \<open>\<open>bucket\<close>; None is a division by zero.\<close>

definition map_bucket :: "'k map_callbacks \<Rightarrow> 'z embedded_map_scheme \<Rightarrow> 'k \<Rightarrow> nat option" where
  "map_bucket cb m k = (if numBuckets m = 0 then None else Some (unat (cbHash cb k mod ucast (numBuckets m))))"

definition set_bucket :: "nat \<Rightarrow> nat list \<Rightarrow> 'z embedded_map_scheme \<Rightarrow> 'z embedded_map_scheme" where
  "set_bucket i es m = m\<lparr>mapBuckets := map_option (\<lambda>bs. bs[i := es]) (mapBuckets m)\<rparr>"

text \<open>The search in a bucket: the elements before the first that compares as equal, that element, and the rest.\<close>

definition bucket_search :: "'k map_callbacks \<Rightarrow> (nat \<Rightarrow> 'k) \<Rightarrow> 'k \<Rightarrow> nat list \<Rightarrow> (nat list \<times> nat \<times> nat list) option" where
  "bucket_search cb keyOf k es = List.extract (\<lambda>e. cbCompare cb k (keyOf e) = 0) es"

text \<open>\<open>find\<close> moves what it has found to the front of its bucket.\<close>

definition map_find ::
  "'k map_callbacks \<Rightarrow> (nat \<Rightarrow> 'k) \<Rightarrow> nat \<Rightarrow> 'k \<Rightarrow> 'z embedded_map_scheme \<Rightarrow> nat option \<times> 'z embedded_map_scheme" where
  "map_find cb keyOf i k m =
     (case mapBuckets m of
        None \<Rightarrow> (None, m)
      | Some bs \<Rightarrow>
          (case bucket_search cb keyOf k (bs ! i) of
             None \<Rightarrow> (None, m)
           | Some (xs, e, ys) \<Rightarrow> (Some e, set_bucket i (e # xs @ ys) m)))"

definition map_insert :: "nat \<Rightarrow> nat \<Rightarrow> 'z embedded_map_scheme \<Rightarrow> error \<times> 'z embedded_map_scheme" where
  "map_insert i e m =
     (case mapBuckets m of
        None \<Rightarrow> (ESB_OUT_OF_MEMORY, m)
      | Some bs \<Rightarrow> (ESB_SUCCESS, set_bucket i (e # bs ! i) m\<lparr>numElements := numElements m + 1\<rparr>))"

definition map_remove ::
  "'k map_callbacks \<Rightarrow> (nat \<Rightarrow> 'k) \<Rightarrow> nat \<Rightarrow> 'k \<Rightarrow> 'z embedded_map_scheme \<Rightarrow> nat option \<times> 'z embedded_map_scheme" where
  "map_remove cb keyOf i k m =
     (case mapBuckets m of
        None \<Rightarrow> (None, m)
      | Some bs \<Rightarrow>
          (case bucket_search cb keyOf k (bs ! i) of
             None \<Rightarrow> (None, m)
           | Some (xs, e, ys) \<Rightarrow> (Some e, set_bucket i (xs @ ys) m\<lparr>numElements := numElements m - 1\<rparr>)))"

text \<open>\<open>removeElement\<close> does not count.\<close>

definition map_remove_element :: "nat \<Rightarrow> nat \<Rightarrow> 'z embedded_map_scheme \<Rightarrow> 'z embedded_map_scheme" where
  "map_remove_element i e m =
     (case mapBuckets m of None \<Rightarrow> m | Some bs \<Rightarrow> set_bucket i (remove1 e (bs ! i)) m)"

text \<open>
  \<open>clear\<close>: the elements in the order in which \<open>cleanup\<close> is called. It does not test \<open>_buckets\<close>, which it
  dereferences unless there are zero buckets, and does not count.
\<close>

definition map_clear :: "'z embedded_map_scheme \<Rightarrow> error \<times> nat list \<times> 'z embedded_map_scheme" where
  "map_clear m =
     (case mapBuckets m of
        None \<Rightarrow> (if numBuckets m = 0 then ESB_SUCCESS else UNDEFINED_BEHAVIOUR, [], m)
      | Some bs \<Rightarrow> (ESB_SUCCESS, concat bs, m\<lparr>mapBuckets := Some (map (\<lambda>_. []) bs)\<rparr>))"

subsection \<open>The shared map\<close>

text \<open>The locks of the buckets are not modelled, but for their allocation, which may fail.\<close>

record shared_map = embedded_map +
  numBucketLocks :: u32
  bucketLocks :: bool

definition new_shared_map :: "u32 \<Rightarrow> u32 \<Rightarrow> bool \<Rightarrow> bool \<Rightarrow> shared_map" where
  "new_shared_map n locks allocated locks_allocated =
     embedded_map.extend (new_embedded_map n allocated)
       (shared_map.fields (min n locks) (0 < min n locks \<and> locks_allocated))"

definition locks_missing :: "'z shared_map_scheme \<Rightarrow> bool" where
  "locks_missing m \<longleftrightarrow> 0 < numBucketLocks m \<and> \<not> bucketLocks m"

text \<open>An element is None for a NULL pointer, its key None for a NULL key.\<close>

definition shared_insert ::
  "'k map_callbacks \<Rightarrow> (nat \<Rightarrow> 'k option) \<Rightarrow> nat option \<Rightarrow> 'z shared_map_scheme \<Rightarrow> error \<times> 'z shared_map_scheme" where
  "shared_insert cb keyOf el m =
     (case el of
        None \<Rightarrow> (ESB_NULL_POINTER, m)
      | Some e \<Rightarrow>
          (case keyOf e of
             None \<Rightarrow> (ESB_INVALID_ARGUMENT, m)
           | Some k \<Rightarrow>
               if locks_missing m then (ESB_OUT_OF_MEMORY, m)
               else case map_bucket cb m k of None \<Rightarrow> (UNDEFINED_BEHAVIOUR, m) | Some i \<Rightarrow> map_insert i e m))"

definition shared_remove ::
  "'k map_callbacks \<Rightarrow> (nat \<Rightarrow> 'k) \<Rightarrow> 'k option \<Rightarrow> 'z shared_map_scheme \<Rightarrow> error \<times> nat option \<times> 'z shared_map_scheme" where
  "shared_remove cb keyOf key m =
     (case key of
        None \<Rightarrow> (ESB_SUCCESS, None, m)
      | Some k \<Rightarrow>
          if locks_missing m then (ESB_SUCCESS, None, m)
          else
            case map_bucket cb m k of
              None \<Rightarrow> (UNDEFINED_BEHAVIOUR, None, m)
            | Some i \<Rightarrow> (ESB_SUCCESS, map_remove cb keyOf i k m))"

definition shared_find ::
  "'k map_callbacks \<Rightarrow> (nat \<Rightarrow> 'k) \<Rightarrow> 'k option \<Rightarrow> 'z shared_map_scheme \<Rightarrow> error \<times> nat option \<times> 'z shared_map_scheme" where
  "shared_find cb keyOf key m =
     (case key of
        None \<Rightarrow> (ESB_SUCCESS, None, m)
      | Some k \<Rightarrow>
          if locks_missing m then (ESB_SUCCESS, None, m)
          else
            case map_bucket cb m k of
              None \<Rightarrow> (UNDEFINED_BEHAVIOUR, None, m)
            | Some i \<Rightarrow> (ESB_SUCCESS, map_find cb keyOf i k m))"

section \<open>The contract\<close>

text \<open>The map is the set of its elements, each in the bucket of its key.\<close>

definition map_inv :: "'k map_callbacks \<Rightarrow> (nat \<Rightarrow> 'k) \<Rightarrow> 'z embedded_map_scheme \<Rightarrow> bool" where
  "map_inv cb keyOf m \<longleftrightarrow>
     (\<exists>bs. mapBuckets m = Some bs \<and> numBuckets m \<noteq> 0 \<and> length bs = unat (numBuckets m) \<and>
       (\<forall>i < length bs. distinct (bs ! i) \<and> (\<forall>e \<in> set (bs ! i). map_bucket cb m (keyOf e) = Some i)))"

definition map_elements :: "'z embedded_map_scheme \<Rightarrow> nat set" where
  "map_elements m = (case mapBuckets m of None \<Rightarrow> {} | Some bs \<Rightarrow> \<Union> (set (map set bs)))"

lemma set_bucket_fields [simp]:
  "mapBuckets (set_bucket i es m) = map_option (\<lambda>bs. bs[i := es]) (mapBuckets m)"
  "numBuckets (set_bucket i es m) = numBuckets m" "numElements (set_bucket i es m) = numElements m"
  "map_bucket cb (set_bucket i es m) = map_bucket cb m"
  by (simp_all add: set_bucket_def map_bucket_def fun_eq_iff)

lemma count_fields [simp]:
  "map_bucket cb (numElements_update f m) = map_bucket cb m"
  "map_elements (numElements_update f m) = map_elements m"
  "map_inv cb keyOf (numElements_update f m) = map_inv cb keyOf m"
  by (simp_all add: map_bucket_def map_elements_def map_inv_def fun_eq_iff split: option.split)

lemma map_bucket_less:
  assumes "map_bucket cb m k = Some i"
  shows "i < unat (numBuckets m)"
proof -
  have "numBuckets m \<noteq> 0" and i: "i = unat (cbHash cb k mod ucast (numBuckets m))"
    using assms by (auto simp: map_bucket_def split: if_splits)
  moreover have "unat (ucast (numBuckets m) :: u64) = unat (numBuckets m)"
  proof -
    have "unat (numBuckets m) < 2 ^ 64"
      using unsigned_less [of "numBuckets m", where ?'a = nat] by simp
    then show ?thesis
      by (simp add: unsigned_ucast_eq take_bit_nat_eq_self)
  qed
  ultimately show ?thesis
    by (simp add: unat_mod_distrib unat_gt_0)
qed

lemma map_bucket_total: "numBuckets m \<noteq> 0 \<Longrightarrow> \<exists>i. map_bucket cb m k = Some i"
  by (simp add: map_bucket_def)

lemma map_elements_buckets:
  "mapBuckets m = Some bs \<Longrightarrow> e \<in> map_elements m \<longleftrightarrow> (\<exists>i < length bs. e \<in> set (bs ! i))"
  by (auto simp: map_elements_def in_set_conv_nth) (metis nth_mem)+

text \<open>A bucket may be replaced by distinct elements that belong into it.\<close>

lemma set_bucket_contract:
  assumes "map_inv cb keyOf m" "mapBuckets m = Some bs" "i < length bs" "distinct es"
    and "\<forall>e \<in> set es. map_bucket cb m (keyOf e) = Some i"
  shows "map_inv cb keyOf (set_bucket i es m)"
    "map_elements (set_bucket i es m) = map_elements m - set (bs ! i) \<union> set es"
proof -
  show "map_inv cb keyOf (set_bucket i es m)"
    using assms by (auto simp: map_inv_def nth_list_update)
  have own: "e \<in> set (bs ! j) \<Longrightarrow> j < length bs \<Longrightarrow> map_bucket cb m (keyOf e) = Some j" for e j
    using assms(1,2) by (auto simp: map_inv_def)
  show "map_elements (set_bucket i es m) = map_elements m - set (bs ! i) \<union> set es"
  proof (rule set_eqI)
    fix e
    have "e \<in> map_elements (set_bucket i es m) \<longleftrightarrow> (\<exists>j < length bs. e \<in> set (bs[i := es] ! j))"
      using assms(2) map_elements_buckets [of "set_bucket i es m" "bs[i := es]" e] by simp
    also have "\<dots> \<longleftrightarrow> e \<in> set es \<or> (\<exists>j < length bs. j \<noteq> i \<and> e \<in> set (bs ! j))"
      using assms(3) by (auto simp: nth_list_update)
    also have "\<dots> \<longleftrightarrow> e \<in> map_elements m - set (bs ! i) \<union> set es"
      using own assms(3) by (auto simp: map_elements_buckets [OF assms(2)]) (metis option.inject)
    finally show "e \<in> map_elements (set_bucket i es m) \<longleftrightarrow> e \<in> map_elements m - set (bs ! i) \<union> set es" .
  qed
qed

lemma map_inv_keys:
  assumes "\<And>e. e \<in> map_elements m \<Longrightarrow> keyOf e = keyOf' e"
  shows "map_inv cb keyOf m \<longleftrightarrow> map_inv cb keyOf' m"
proof -
  have "keyOf e = keyOf' e" if "mapBuckets m = Some bs" "i < length bs" "e \<in> set (bs ! i)" for bs i e
    using assms that by (auto simp: map_elements_buckets)
  then show ?thesis
    unfolding map_inv_def by metis
qed

lemma remove_element_contract:
  assumes "map_inv cb keyOf m" "e \<in> map_elements m" "map_bucket cb m (keyOf e) = Some i"
  shows "map_inv cb keyOf (map_remove_element i e m)" "map_elements (map_remove_element i e m) = map_elements m - {e}"
proof -
  obtain bs where bs: "mapBuckets m = Some bs" "i < length bs" "distinct (bs ! i)"
      "\<forall>x \<in> set (bs ! i). map_bucket cb m (keyOf x) = Some i" "e \<in> set (bs ! i)"
    using assms map_bucket_less [OF assms(3)] by (auto simp: map_inv_def map_elements_buckets)
  have run: "map_remove_element i e m = set_bucket i (remove1 e (bs ! i)) m"
    using bs(1) by (simp add: map_remove_element_def)
  have kept: "map_inv cb keyOf (set_bucket i (remove1 e (bs ! i)) m)"
      "map_elements (set_bucket i (remove1 e (bs ! i)) m) = map_elements m - set (bs ! i) \<union> set (remove1 e (bs ! i))"
    using set_bucket_contract [OF assms(1) bs(1,2), of "remove1 e (bs ! i)"] bs(3,4) by auto
  have "set (bs ! i) \<subseteq> map_elements m"
    using bs(1,2) by (auto simp: map_elements_buckets)
  then have "map_elements m - set (bs ! i) \<union> set (remove1 e (bs ! i)) = map_elements m - {e}"
    using bs(3,5) by auto
  then show "map_inv cb keyOf (map_remove_element i e m)" "map_elements (map_remove_element i e m) = map_elements m - {e}"
    using kept unfolding run by simp_all
qed

text \<open>Keys that compare as equal have the same hash.\<close>

locale hashed_keys =
  fixes cb :: "'k map_callbacks" and valid :: "'k \<Rightarrow> bool"
  assumes hash_equal: "valid k \<Longrightarrow> valid k' \<Longrightarrow> cbCompare cb k k' = 0 \<Longrightarrow> cbHash cb k = cbHash cb k'"
begin

lemma bucket_equal: "valid k \<Longrightarrow> valid k' \<Longrightarrow> cbCompare cb k k' = 0 \<Longrightarrow> map_bucket cb m k = map_bucket cb m k'"
  by (simp add: map_bucket_def hash_equal)

text \<open>What the operations answer and do; \<open>i\<close> is the bucket of the key.\<close>

lemma insert_contract:
  assumes "map_inv cb keyOf m" "e \<notin> map_elements m" "map_bucket cb m (keyOf e) = Some i"
  shows "\<exists>m'. map_insert i e m = (ESB_SUCCESS, m') \<and> map_inv cb keyOf m' \<and>
    map_elements m' = insert e (map_elements m) \<and> numElements m' = numElements m + 1 \<and> numBuckets m' = numBuckets m"
proof -
  obtain bs where bs: "mapBuckets m = Some bs" "i < length bs" "distinct (bs ! i)"
      "\<forall>x \<in> set (bs ! i). map_bucket cb m (keyOf x) = Some i"
    using assms(1) map_bucket_less [OF assms(3)] by (auto simp: map_inv_def)
  then have "e \<notin> set (bs ! i)" "set (bs ! i) \<subseteq> map_elements m"
    using assms(2) by (auto simp: map_elements_buckets)
  moreover from this have "map_inv cb keyOf (set_bucket i (e # bs ! i) m) \<and>
      map_elements (set_bucket i (e # bs ! i) m) = map_elements m - set (bs ! i) \<union> set (e # bs ! i)"
    using set_bucket_contract [OF assms(1) bs(1,2), of "e # bs ! i"] bs(3,4) assms(3) by simp
  ultimately show ?thesis
    using bs(1) by (auto simp: map_insert_def)
qed

lemma search_contract:
  assumes "map_inv cb keyOf m" "\<forall>e \<in> map_elements m. valid (keyOf e)" "valid k" "map_bucket cb m k = Some i"
    and "mapBuckets m = Some bs"
  shows "case bucket_search cb keyOf k (bs ! i) of
      None \<Rightarrow> \<forall>e \<in> map_elements m. cbCompare cb k (keyOf e) \<noteq> 0
    | Some (xs, e, ys) \<Rightarrow> bs ! i = xs @ e # ys \<and> e \<in> map_elements m \<and> cbCompare cb k (keyOf e) = 0"
proof -
  have i: "i < length bs"
    using assms(1,5) map_bucket_less [OF assms(4)] by (auto simp: map_inv_def)
  have own: "e \<in> set (bs ! i)" if "e \<in> map_elements m" "cbCompare cb k (keyOf e) = 0" for e
  proof -
    have "map_bucket cb m (keyOf e) = Some i"
      using bucket_equal [of k "keyOf e" m] assms(2-4) that by simp
    then show ?thesis
      using that(1) assms(1,5) by (auto simp: map_elements_buckets map_inv_def)
  qed
  show ?thesis
    using own i
    by (auto simp: bucket_search_def extract_None_iff extract_Some_iff map_elements_buckets [OF assms(5)]
        split: option.split) 
qed

lemma find_contract:
  assumes "map_inv cb keyOf m" "\<forall>e \<in> map_elements m. valid (keyOf e)" "valid k" "map_bucket cb m k = Some i"
    and "map_find cb keyOf i k m = (r, m')"
  shows "map_inv cb keyOf m' \<and> map_elements m' = map_elements m \<and> numElements m' = numElements m \<and>
    numBuckets m' = numBuckets m \<and>
    (case r of
       None \<Rightarrow> m' = m \<and> (\<forall>e \<in> map_elements m. cbCompare cb k (keyOf e) \<noteq> 0)
     | Some e \<Rightarrow> e \<in> map_elements m \<and> cbCompare cb k (keyOf e) = 0 \<and>
         (\<exists>bs es. mapBuckets m' = Some bs \<and> i < length bs \<and> bs ! i = e # es))"
proof -
  obtain bs where bs: "mapBuckets m = Some bs" "i < length bs" "distinct (bs ! i)"
      "\<forall>x \<in> set (bs ! i). map_bucket cb m (keyOf x) = Some i"
    using assms(1) map_bucket_less [OF assms(4)] by (auto simp: map_inv_def)
  note found = search_contract [OF assms(1-4) bs(1)]
  show ?thesis
  proof (cases "bucket_search cb keyOf k (bs ! i)")
    case None
    then show ?thesis
      using assms(1,5) found bs(1) by (auto simp: map_find_def)
  next
    case (Some s)
    then obtain xs e ys where s: "bucket_search cb keyOf k (bs ! i) = Some (xs, e, ys)" "bs ! i = xs @ e # ys"
        "e \<in> map_elements m" "cbCompare cb k (keyOf e) = 0"
      using found by (cases s) auto
    have "set (bs ! i) \<subseteq> map_elements m"
      using bs(1,2) by (auto simp: map_elements_buckets)
    moreover have "set (bs ! i) = set (e # xs @ ys)"
      using s(2) by auto
    moreover have "map_inv cb keyOf (set_bucket i (e # xs @ ys) m)"
        "map_elements (set_bucket i (e # xs @ ys) m) = map_elements m - set (bs ! i) \<union> set (e # xs @ ys)"
      using set_bucket_contract [OF assms(1) bs(1,2), of "e # xs @ ys"] bs(3,4) s(2) by auto
    ultimately show ?thesis
      using assms(5) s bs(1,2) by (auto simp: map_find_def)
  qed
qed

lemma remove_contract:
  assumes "map_inv cb keyOf m" "\<forall>e \<in> map_elements m. valid (keyOf e)" "valid k" "map_bucket cb m k = Some i"
    and "map_remove cb keyOf i k m = (r, m')"
  shows "map_inv cb keyOf m' \<and> numBuckets m' = numBuckets m \<and>
    (case r of
       None \<Rightarrow> m' = m \<and> (\<forall>e \<in> map_elements m. cbCompare cb k (keyOf e) \<noteq> 0)
     | Some e \<Rightarrow> e \<in> map_elements m \<and> cbCompare cb k (keyOf e) = 0 \<and>
         map_elements m' = map_elements m - {e} \<and> numElements m' = numElements m - 1)"
proof -
  obtain bs where bs: "mapBuckets m = Some bs" "i < length bs" "distinct (bs ! i)"
      "\<forall>x \<in> set (bs ! i). map_bucket cb m (keyOf x) = Some i"
    using assms(1) map_bucket_less [OF assms(4)] by (auto simp: map_inv_def)
  note found = search_contract [OF assms(1-4) bs(1)]
  show ?thesis
  proof (cases "bucket_search cb keyOf k (bs ! i)")
    case None
    then show ?thesis
      using assms(1,5) found bs(1) by (auto simp: map_remove_def)
  next
    case (Some s)
    then obtain xs e ys where s: "bucket_search cb keyOf k (bs ! i) = Some (xs, e, ys)" "bs ! i = xs @ e # ys"
        "e \<in> map_elements m" "cbCompare cb k (keyOf e) = 0"
      using found by (cases s) auto
    have kept: "map_inv cb keyOf (set_bucket i (xs @ ys) m)"
        "map_elements (set_bucket i (xs @ ys) m) = map_elements m - set (bs ! i) \<union> set (xs @ ys)"
      using set_bucket_contract [OF assms(1) bs(1,2), of "xs @ ys"] bs(3,4) s(2) by auto
    have gone: "map_elements m - set (bs ! i) \<union> set (xs @ ys) = map_elements m - {e}"
    proof -
      have "set (bs ! i) \<subseteq> map_elements m"
        using bs(1,2) by (auto simp: map_elements_buckets)
      moreover have "set (bs ! i) = insert e (set (xs @ ys))" "e \<notin> set (xs @ ys)"
        using s(2) bs(3) by simp_all
      ultimately show ?thesis
        by blast
    qed
    have "r = Some e" "m' = set_bucket i (xs @ ys) m\<lparr>numElements := numElements m - 1\<rparr>"
      using assms(5) s(1) bs(1) by (simp_all add: map_remove_def)
    then show ?thesis
      using kept(1) kept(2) [unfolded gone] s(3,4) by simp
  qed
qed

end

end
