(* ===== verification/WildcardNode.thy ===== *)
theory WildcardNode
  imports StringUtil
begin

text \<open>
  \<open>ES::WildcardIndexNode\<close> (base/source/ESBWildcardIndex.cpp): the patterns of one domain with their values,
  packed into octets: the size of a pattern, the pattern, the address of its value; a size of 0 ends them.
  The first go into the block of the node, the others into memory of their own that grows.

  A buffer is its octets, whose number is its capacity. The count of references to an object is what
  \<open>refs\<close> answers for its address; a local smart pointer increments and decrements it again and is left
  out. \<open>malloc\<close> answers the octets of new memory, or None.
\<close>

section \<open>The operations\<close>

type_synonym refs = "u64 \<Rightarrow> int"
type_synonym mallocs = "nat \<Rightarrow> u8 list option"

abbreviation (input) MAX_HOSTNAME :: nat where "MAX_HOSTNAME \<equiv> 255"
abbreviation (input) SizeofNode :: nat where "SizeofNode \<equiv> 64"
abbreviation (input) DefaultAlloc :: nat where "DefaultAlloc \<equiv> SizeofNode + MAX_HOSTNAME + 3 * 8"

record wildcard_node =
  nodeKey :: cstr
  wildcards :: "u8 list"
  extra :: "u8 list option"

definition poke :: "nat \<Rightarrow> u8 list \<Rightarrow> u8 list \<Rightarrow> u8 list" where
  "poke i xs buffer = take i buffer @ xs @ drop (i + length xs) buffer"

text \<open>\<open>Create\<close> in a block of \<open>DefaultAlloc\<close> octets.\<close>

definition create_in :: "cstr \<Rightarrow> u8 list \<Rightarrow> wildcard_node" where
  "create_in key block =
     \<lparr>nodeKey = key, wildcards = poke 0 [0] (drop (SizeofNode + length key + 1) block), extra = None\<rparr>"

definition Create_node :: "cstr option \<Rightarrow> mallocs \<Rightarrow> wildcard_node option" where
  "Create_node key alloc =
     (case key of
        None \<Rightarrow> None
      | Some k \<Rightarrow>
          if length k = 0 \<or> MAX_HOSTNAME < length k then None
          else map_option (create_in k) (alloc DefaultAlloc))"

definition Recycle :: "cstr option \<Rightarrow> u8 list \<Rightarrow> wildcard_node option" where
  "Recycle key block =
     (case key of
        None \<Rightarrow> None
      | Some k \<Rightarrow> if length k = 0 \<or> MAX_HOSTNAME < length k then None else Some (create_in k block))"

text \<open>The private \<open>find\<close>: where the key is, or where the entries end. None: the code reads behind the buffer.\<close>

function find_from :: "u8 list \<Rightarrow> u8 list \<Rightarrow> nat \<Rightarrow> (nat \<times> bool) option" where
  "find_from buffer key p =
     (if length buffer \<le> p then None
      else if buffer ! p = 0 then Some (p, False)
      else if unat (buffer ! p) = length key \<and> take (length key) (drop (p + 1) buffer) = key then Some (p, True)
      else find_from buffer key (p + unat (buffer ! p) + 8 + 1))"
  by auto
termination
  by (relation "measure (\<lambda>(b, _, p). length b - p)") auto

declare find_from.simps [simp del]

definition value_at :: "u8 list \<Rightarrow> nat \<Rightarrow> u64" where
  "value_at buffer i = ReadPointer (drop i buffer)"

definition inc_ref :: "u64 \<Rightarrow> refs \<Rightarrow> refs" where
  "inc_ref v r = r(v := r v + 1)"

definition dec_ref :: "u64 \<Rightarrow> refs \<Rightarrow> refs" where
  "dec_ref v r = r(v := r v - 1)"

definition entry :: "u8 list \<Rightarrow> u64 \<Rightarrow> u8 list" where
  "entry key v = of_nat (length key) # key @ pointer_octets v"

text \<open>
  \<open>insert\<close>. The value of a key in the first buffer is replaced. For one in the second the code takes the
  octets behind the end of the entries of the \<^emph>\<open>first\<close> buffer for the address of the old value and
  decrements the count of references there: in new memory that is NULL, otherwise what an entry that has
  been moved has left. Its behaviour is undefined.
\<close>

definition insert_extra ::
  "mallocs \<Rightarrow> u8 list \<Rightarrow> u64 \<Rightarrow> nat \<Rightarrow> wildcard_node \<Rightarrow> refs \<Rightarrow> error \<times> wildcard_node \<times> refs" where
  "insert_extra malloc key v q n r =
     (let need = length key + 8 + 2 in
      case (case extra n of None \<Rightarrow> map_option (poke 0 [0]) (malloc (max DefaultAlloc (length key + 8 + 1))) | Some x \<Rightarrow> Some x) of
        None \<Rightarrow> (ESB_OUT_OF_MEMORY, n, r)
      | Some x \<Rightarrow>
          let n1 = n\<lparr>extra := Some x\<rparr>; free = length x - q in
          (case (if free \<le> need
                 then map_option ((@) x) (malloc (max (length x * 2) (length x + need - free) - length x))
                 else Some x) of
             None \<Rightarrow> (ESB_OUT_OF_MEMORY, n1, r)
           | Some y \<Rightarrow> (ESB_SUCCESS, n1\<lparr>extra := Some (poke q (entry key v @ [0]) y)\<rparr>, inc_ref v r)))"

definition node_insert ::
  "mallocs \<Rightarrow> u8 list option \<Rightarrow> u64 \<Rightarrow> bool \<Rightarrow> wildcard_node \<Rightarrow> refs \<Rightarrow> error \<times> wildcard_node \<times> refs" where
  "node_insert malloc keyp v update n r =
     (case keyp of
        None \<Rightarrow> (ESB_NULL_POINTER, n, r)
      | Some key \<Rightarrow>
          if length key < 1 then (ESB_UNDERFLOW, n, r)
          else if length key > 255 then (ESB_OVERFLOW, n, r)
          else if v = 0 then (ESB_INVALID_ARGUMENT, n, r)
          else
            case find_from (wildcards n) key 0 of
              None \<Rightarrow> (UNDEFINED_BEHAVIOUR, n, r)
            | Some (p, True) \<Rightarrow>
                if \<not> update then (ESB_UNIQUENESS_VIOLATION, n, r)
                else
                  (ESB_SUCCESS, n\<lparr>wildcards := poke (p + length key + 1) (pointer_octets v) (wildcards n)\<rparr>,
                   inc_ref v (dec_ref (value_at (wildcards n) (p + length key + 1)) r))
            | Some (p, False) \<Rightarrow>
                (case (case extra n of None \<Rightarrow> Some (0, False) | Some x \<Rightarrow> find_from x key 0) of
                   None \<Rightarrow> (UNDEFINED_BEHAVIOUR, n, r)
                 | Some (q, True) \<Rightarrow>
                     (if \<not> update then ESB_UNIQUENESS_VIOLATION else UNDEFINED_BEHAVIOUR, n, r)
                 | Some (q, False) \<Rightarrow>
                     if length (wildcards n) - p > length key + 8 + 2
                     then (ESB_SUCCESS, n\<lparr>wildcards := poke p (entry key v @ [0]) (wildcards n)\<rparr>, inc_ref v r)
                     else insert_extra malloc key v q n r))"

text \<open>\<open>memmove\<close> of what follows an entry to its place; the end of the buffer keeps its octets.\<close>

definition drop_entry :: "nat \<Rightarrow> nat \<Rightarrow> u8 list \<Rightarrow> u8 list" where
  "drop_entry p n buffer = poke p (drop (p + n) buffer) buffer"

definition node_remove ::
  "u8 list option \<Rightarrow> wildcard_node \<Rightarrow> refs \<Rightarrow> error \<times> wildcard_node \<times> refs" where
  "node_remove keyp n r =
     (case keyp of
        None \<Rightarrow> (ESB_NULL_POINTER, n, r)
      | Some key \<Rightarrow>
          let gone = length key + 8 + 1; old = (\<lambda>b p. value_at b (p + length key + 1)) in
          if length key = 0 then (ESB_INVALID_ARGUMENT, n, r)
          else if 255 < length key then (ESB_CANNOT_FIND, n, r)
          else
            case find_from (wildcards n) key 0 of
              None \<Rightarrow> (UNDEFINED_BEHAVIOUR, n, r)
            | Some (p, True) \<Rightarrow>
                (ESB_SUCCESS, n\<lparr>wildcards := drop_entry p gone (wildcards n)\<rparr>, dec_ref (old (wildcards n) p) r)
            | Some (p, False) \<Rightarrow>
                (case extra n of
                   None \<Rightarrow> (ESB_CANNOT_FIND, n, r)
                 | Some x \<Rightarrow>
                     (case find_from x key 0 of
                        None \<Rightarrow> (UNDEFINED_BEHAVIOUR, n, r)
                      | Some (q, True) \<Rightarrow> (ESB_SUCCESS, n\<lparr>extra := Some (drop_entry q gone x)\<rparr>, dec_ref (old x q) r)
                      | Some (q, False) \<Rightarrow> (ESB_CANNOT_FIND, n, r))))"

definition node_find :: "u8 list option \<Rightarrow> wildcard_node \<Rightarrow> error \<times> u64" where
  "node_find keyp n =
     (case keyp of
        None \<Rightarrow> (ESB_CANNOT_FIND, 0)
      | Some key \<Rightarrow>
          if length key = 0 \<or> 255 < length key then (ESB_CANNOT_FIND, 0)
          else
            case find_from (wildcards n) key 0 of
              None \<Rightarrow> (UNDEFINED_BEHAVIOUR, 0)
            | Some (p, True) \<Rightarrow> (ESB_SUCCESS, value_at (wildcards n) (p + length key + 1))
            | Some (p, False) \<Rightarrow>
                (case extra n of
                   None \<Rightarrow> (ESB_CANNOT_FIND, 0)
                 | Some x \<Rightarrow>
                     (case find_from x key 0 of
                        None \<Rightarrow> (UNDEFINED_BEHAVIOUR, 0)
                      | Some (q, True) \<Rightarrow> (ESB_SUCCESS, value_at x (q + length key + 1))
                      | Some (q, False) \<Rightarrow> (ESB_CANNOT_FIND, 0))))"

text \<open>\<open>update\<close>; the result also has the old value.\<close>

definition node_update ::
  "u8 list option \<Rightarrow> u64 \<Rightarrow> wildcard_node \<Rightarrow> refs \<Rightarrow> error \<times> u64 \<times> wildcard_node \<times> refs" where
  "node_update keyp v n r =
     (case keyp of
        None \<Rightarrow> (ESB_NULL_POINTER, 0, n, r)
      | Some key \<Rightarrow>
          let old = (\<lambda>b p. value_at b (p + length key + 1));
              set = (\<lambda>b p. poke (p + length key + 1) (pointer_octets v) b) in
          if length key < 1 then (ESB_UNDERFLOW, 0, n, r)
          else if length key > 255 then (ESB_OVERFLOW, 0, n, r)
          else if v = 0 then (ESB_INVALID_ARGUMENT, 0, n, r)
          else
            case find_from (wildcards n) key 0 of
              None \<Rightarrow> (UNDEFINED_BEHAVIOUR, 0, n, r)
            | Some (p, True) \<Rightarrow>
                (ESB_SUCCESS, old (wildcards n) p, n\<lparr>wildcards := set (wildcards n) p\<rparr>,
                 inc_ref v (dec_ref (old (wildcards n) p) r))
            | Some (p, False) \<Rightarrow>
                (case extra n of
                   None \<Rightarrow> (ESB_CANNOT_FIND, 0, n, r)
                 | Some x \<Rightarrow>
                     (case find_from x key 0 of
                        None \<Rightarrow> (UNDEFINED_BEHAVIOUR, 0, n, r)
                      | Some (q, True) \<Rightarrow>
                          (ESB_SUCCESS, old x q, n\<lparr>extra := Some (set x q)\<rparr>, inc_ref v (dec_ref (old x q) r))
                      | Some (q, False) \<Rightarrow> (ESB_CANNOT_FIND, 0, n, r))))"

text \<open>\<open>clear\<close> of a buffer, and of the node.\<close>

function release_from :: "u8 list \<Rightarrow> nat \<Rightarrow> refs \<Rightarrow> refs option" where
  "release_from buffer p r =
     (if length buffer \<le> p then None
      else if buffer ! p = 0 then Some r
      else
        release_from buffer (p + unat (buffer ! p) + 8 + 1) (dec_ref (value_at buffer (p + unat (buffer ! p) + 1)) r))"
  by auto
termination
  by (relation "measure (\<lambda>(b, p, _). length b - p)") auto

declare release_from.simps [simp del]

definition node_clear :: "wildcard_node \<Rightarrow> refs \<Rightarrow> error \<times> wildcard_node \<times> refs" where
  "node_clear n r =
     (case release_from (wildcards n) 0 r of
        None \<Rightarrow> (UNDEFINED_BEHAVIOUR, n, r)
      | Some r1 \<Rightarrow>
          let n1 = n\<lparr>wildcards := poke 0 [0] (wildcards n)\<rparr> in
          (case extra n of
             None \<Rightarrow> (ESB_SUCCESS, n1, r1)
           | Some x \<Rightarrow>
               (case release_from x 0 r1 of
                  None \<Rightarrow> (UNDEFINED_BEHAVIOUR, n1, r1)
                | Some r2 \<Rightarrow> (ESB_SUCCESS, n1\<lparr>extra := None\<rparr>, r2))))"

definition node_empty :: "wildcard_node \<Rightarrow> bool" where
  "node_empty n \<longleftrightarrow> wildcards n ! 0 = 0 \<and> (case extra n of None \<Rightarrow> True | Some x \<Rightarrow> x ! 0 = 0)"

text \<open>An iterator: whether it points into the second buffer, and the place there.\<close>

type_synonym node_iterator = "bool \<times> nat"

definition iterated :: "node_iterator \<Rightarrow> wildcard_node \<Rightarrow> u8 list" where
  "iterated it n = (if fst it then (case extra n of None \<Rightarrow> [] | Some x \<Rightarrow> x) else wildcards n)"

definition node_first :: node_iterator where
  "node_first = (False, 0)"

definition node_last :: "node_iterator \<Rightarrow> wildcard_node \<Rightarrow> bool" where
  "node_last it n \<longleftrightarrow> iterated it n ! snd it = 0"

definition node_next :: "node_iterator \<Rightarrow> wildcard_node \<Rightarrow> error \<times> node_iterator" where
  "node_next it n =
     (let b = iterated it n; p = snd it; after = p + 1 + unat (b ! p) + 8 in
      if b ! p = 0 then (ESB_CANNOT_FIND, it)
      else if \<not> fst it then
        (if b ! after \<noteq> 0 then (ESB_SUCCESS, (False, after))
         else if extra n \<noteq> None then (ESB_SUCCESS, (True, 0))
         else (ESB_SUCCESS, (False, after)))
      else (ESB_SUCCESS, (True, after)))"

text \<open>\<open>key\<close>: the memory that begins at the key, and its size.\<close>

definition node_key :: "node_iterator \<Rightarrow> wildcard_node \<Rightarrow> error \<times> u8 list \<times> u32" where
  "node_key it n =
     (let b = iterated it n; p = snd it in
      if b ! p = 0 then (ESB_CANNOT_FIND, [], 0) else (ESB_SUCCESS, drop (p + 1) b, ucast (b ! p)))"

definition node_value :: "node_iterator \<Rightarrow> wildcard_node \<Rightarrow> error \<times> u64" where
  "node_value it n =
     (let b = iterated it n; p = snd it in
      if b ! p = 0 then (ESB_CANNOT_FIND, 0) else (ESB_SUCCESS, value_at b (p + unat (b ! p) + 1)))"

section \<open>What a buffer holds\<close>

definition packed :: "(u8 list \<times> u64) list \<Rightarrow> u8 list" where
  "packed es = concat (map (\<lambda>(k, v). entry k v) es)"

definition good_key :: "u8 list \<Rightarrow> bool" where
  "good_key k \<longleftrightarrow> k \<noteq> [] \<and> length k \<le> 255"

definition holds :: "u8 list \<Rightarrow> (u8 list \<times> u64) list \<Rightarrow> bool" where
  "holds b es \<longleftrightarrow> (\<exists>rest. b = packed es @ 0 # rest) \<and> (\<forall>k \<in> fst ` set es. good_key k)"

lemma packed_simps [simp]:
  "packed [] = []" "packed (e # es) = entry (fst e) (snd e) @ packed es" "packed (es @ fs) = packed es @ packed fs"
  by (simp_all add: packed_def case_prod_beta)

lemma length_entry [simp]: "length (entry k v) = length k + 9"
  by (simp add: entry_def)

lemma size_octet:
  assumes "good_key k"
  shows "unat (of_nat (length k) :: u8) = length k" "(of_nat (length k) :: u8) \<noteq> 0"
proof -
  show "unat (of_nat (length k) :: u8) = length k"
    using assms by (simp add: good_key_def unat_of_nat take_bit_nat_eq_self)
  then show "(of_nat (length k) :: u8) \<noteq> 0"
    using assms by (auto simp: good_key_def)
qed

lemma find_offset:
  "find_from (xs @ b) key (length xs + p) = map_option (\<lambda>(q, f). (length xs + q, f)) (find_from b key p)"
proof (induction b key p rule: find_from.induct)
  case (1 b key p)
  show ?case
  proof (cases "length b \<le> p \<or> b ! p = 0 \<or> (unat (b ! p) = length key \<and> take (length key) (drop (p + 1) b) = key)")
    case True
    then show ?thesis
      by (subst (1 2) find_from.simps) (auto simp: nth_append)
  next
    case False
    then have "find_from (xs @ b) key (length xs + (p + unat (b ! p) + 8 + 1)) =
        map_option (\<lambda>(q, f). (length xs + q, f)) (find_from b key (p + unat (b ! p) + 8 + 1))"
      using 1 by auto
    then show ?thesis
      using False by (subst (1 2) find_from.simps) (auto simp: nth_append ac_simps)
  qed
qed

lemma find_entry:
  assumes "good_key k"
  shows "find_from (entry k v @ b) key 0 =
    (if k = key then Some (0, True) else map_option (\<lambda>(q, f). (length k + 9 + q, f)) (find_from b key 0))"
proof (cases "k = key")
  case True
  then show ?thesis
    using size_octet [OF assms] by (subst find_from.simps) (simp add: entry_def)
next
  case False
  then have "\<not> (length k = length key \<and> take (length key) (k @ pointer_octets v @ b) = key)"
    by auto
  then have "find_from (entry k v @ b) key 0 = find_from (entry k v @ b) key (length (entry k v) + 0)"
    using size_octet [OF assms] by (subst find_from.simps) (auto simp: entry_def)
  then show ?thesis
    using False by (simp only: find_offset) simp
qed

lemma find_end: "find_from (0 # rest) key 0 = Some (0, False)"
  by (subst find_from.simps) simp

lemma find_holds:
  assumes "holds b es"
  shows "find_from b key 0 =
    (case List.extract (\<lambda>e. fst e = key) es of
       None \<Rightarrow> Some (length (packed es), False)
     | Some (pre, _, _) \<Rightarrow> Some (length (packed pre), True))"
proof -
  have "find_from (packed es @ 0 # rest) key 0 =
      (case List.extract (\<lambda>e. fst e = key) es of
         None \<Rightarrow> Some (length (packed es), False)
       | Some (pre, _, _) \<Rightarrow> Some (length (packed pre), True))"
    if "\<forall>k \<in> fst ` set es. good_key k" for rest
    using that by (induction es) (auto simp: find_end find_entry extract_Nil_code extract_Cons_code split: option.split)
  then show ?thesis
    using assms by (auto simp: holds_def)
qed

lemma find_present:
  assumes "holds b es" "es = pre @ (key, v) # post" "key \<notin> fst ` set pre"
  shows "find_from b key 0 = Some (length (packed pre), True)"
proof -
  have "List.extract (\<lambda>e. fst e = key) es = Some (pre, (key, v), post)"
    using assms(2,3) by (auto simp: extract_Some_iff)
  then show ?thesis
    by (simp add: find_holds [OF assms(1)])
qed

lemma find_absent:
  assumes "holds b es" "key \<notin> fst ` set es"
  shows "find_from b key 0 = Some (length (packed es), False)"
proof -
  have "List.extract (\<lambda>e. fst e = key) es = None"
    using assms(2) by (auto simp: extract_None_iff)
  then show ?thesis
    by (simp add: find_holds [OF assms(1)])
qed

lemma poke_middle: "length zs = length ys \<Longrightarrow> poke (length xs) ys (xs @ zs @ r) = xs @ ys @ r"
  by (simp add: poke_def)

lemma value_middle: "value_at (xs @ entry k v @ r) (length xs + length k + 1) = v"
  by (simp add: value_at_def entry_def read_written)

text \<open>The three changes of a buffer: an entry is appended, its value replaced, or it is dropped.\<close>

lemma holds_append:
  assumes "holds b es" "good_key k" "length b - length (packed es) > length k + 9"
  shows "holds (poke (length (packed es)) (entry k v @ [0]) b) (es @ [(k, v)])"
    "length (poke (length (packed es)) (entry k v @ [0]) b) = length b"
proof -
  obtain rest where b: "b = packed es @ 0 # rest" and ks: "\<forall>k \<in> fst ` set es. good_key k"
    using assms(1) by (auto simp: holds_def)
  have "poke (length (packed es)) (entry k v @ [0]) b =
      packed es @ (entry k v @ [0]) @ drop (length k + 9) rest"
    using assms(3) drop_Suc_Cons [of "length k + 9" 0 rest] by (simp add: b poke_def del: drop_Suc_Cons)
  then show "holds (poke (length (packed es)) (entry k v @ [0]) b) (es @ [(k, v)])"
    using ks assms(2) by (auto simp: holds_def)
  show "length (poke (length (packed es)) (entry k v @ [0]) b) = length b"
    using assms(3) by (simp add: b poke_def)
qed

lemma holds_value:
  assumes "holds b es" "es = pre @ (k, w) # post"
  shows "holds (poke (length (packed pre) + length k + 1) (pointer_octets v) b) (pre @ (k, v) # post)"
    "length (poke (length (packed pre) + length k + 1) (pointer_octets v) b) = length b"
    "value_at b (length (packed pre) + length k + 1) = w"
proof -
  obtain rest where b: "b = packed es @ 0 # rest" and ks: "\<forall>k \<in> fst ` set es. good_key k"
    using assms(1) by (auto simp: holds_def)
  have parts: "b = (packed pre @ of_nat (length k) # k) @ pointer_octets w @ packed post @ 0 # rest"
    by (simp add: b assms(2) entry_def)
  have "poke (length (packed pre @ of_nat (length k) # k)) (pointer_octets v) b =
      (packed pre @ of_nat (length k) # k) @ pointer_octets v @ packed post @ 0 # rest"
    unfolding parts by (rule poke_middle) simp
  then show "holds (poke (length (packed pre) + length k + 1) (pointer_octets v) b) (pre @ (k, v) # post)"
      "length (poke (length (packed pre) + length k + 1) (pointer_octets v) b) = length b"
    using ks assms(2) by (simp_all add: holds_def entry_def parts)
  show "value_at b (length (packed pre) + length k + 1) = w"
    using value_middle [of "packed pre" k w "packed post @ 0 # rest"] by (simp add: b assms(2))
qed

lemma holds_drop:
  assumes "holds b es" "es = pre @ (k, w) # post"
  shows "holds (drop_entry (length (packed pre)) (length k + 8 + 1) b) (pre @ post)"
    "length (drop_entry (length (packed pre)) (length k + 8 + 1) b) = length b"
proof -
  obtain rest where b: "b = packed es @ 0 # rest" and ks: "\<forall>k \<in> fst ` set es. good_key k"
    using assms(1) by (auto simp: holds_def)
  have "drop (length (packed pre) + (length k + 8 + 1)) b = packed post @ 0 # rest"
    by (simp add: b assms(2))
  then have "drop_entry (length (packed pre)) (length k + 8 + 1) b =
      packed pre @ (packed post @ 0 # rest) @ drop (length (packed pre) + length (packed post @ 0 # rest)) b"
    by (simp add: drop_entry_def poke_def) (simp add: b assms(2))
  moreover have "length b = length (packed pre) + (length k + 9) + length (packed post @ 0 # rest)"
    by (simp add: b assms(2))
  ultimately show "holds (drop_entry (length (packed pre)) (length k + 8 + 1) b) (pre @ post)"
      "length (drop_entry (length (packed pre)) (length k + 8 + 1) b) = length b"
    using ks assms(2) by (auto simp: holds_def)
qed

section \<open>What a node holds\<close>

definition node_holds :: "wildcard_node \<Rightarrow> (u8 list \<times> u64) list \<Rightarrow> (u8 list \<times> u64) list \<Rightarrow> bool" where
  "node_holds n es fs \<longleftrightarrow>
     holds (wildcards n) es \<and> (case extra n of None \<Rightarrow> fs = [] | Some x \<Rightarrow> holds x fs) \<and> distinct (map fst (es @ fs))"

definition without :: "u8 list \<Rightarrow> (u8 list \<times> u64) list \<Rightarrow> (u8 list \<times> u64) list" where
  "without key es = filter (\<lambda>e. fst e \<noteq> key) es"

definition revalued :: "u8 list \<Rightarrow> u64 \<Rightarrow> (u8 list \<times> u64) list \<Rightarrow> (u8 list \<times> u64) list" where
  "revalued key v es = map (\<lambda>e. if fst e = key then (key, v) else e) es"

lemma without_absent [simp]: "key \<notin> fst ` set es \<Longrightarrow> without key es = es"
  by (auto simp: without_def filter_id_conv)

lemma revalued_absent [simp]: "key \<notin> fst ` set es \<Longrightarrow> revalued key v es = es"
  by (induction es) (auto simp: revalued_def)

lemma without_split: "key \<notin> fst ` set pre \<Longrightarrow> key \<notin> fst ` set post \<Longrightarrow> without key (pre @ (key, w) # post) = pre @ post"
  using without_absent [of key pre] without_absent [of key post] by (simp add: without_def)

lemma revalued_split:
  "key \<notin> fst ` set pre \<Longrightarrow> key \<notin> fst ` set post \<Longrightarrow> revalued key v (pre @ (key, w) # post) = pre @ (key, v) # post"
  using revalued_absent [of key pre] revalued_absent [of key post] by (simp add: revalued_def)

lemma keys_revalued [simp]: "map fst (revalued key v es) = map fst es"
  by (simp add: revalued_def)

lemma keys_without: "fst ` set (without key es) = fst ` set es - {key}" "distinct (map fst es) \<Longrightarrow> distinct (map fst (without key es))"
  by (auto simp: without_def distinct_map_filter)

lemma map_of_without: "map_of (without key es) = (map_of es)(key := None)"
  by (induction es) (auto simp: without_def fun_eq_iff)

lemma map_of_revalued: "key \<in> fst ` set es \<Longrightarrow> map_of (revalued key v es) = (map_of es)(key \<mapsto> v)"
proof (induction es)
  case (Cons e es)
  have "revalued key v (e # es) = (if fst e = key then (key, v) else e) # revalued key v es"
    by (simp add: revalued_def)
  then show ?case
    using Cons by (cases "key \<in> fst ` set es") (auto simp: fun_eq_iff)
qed simp

lemma key_split:
  assumes "key \<in> fst ` set es" "distinct (map fst es)"
  obtains pre w post where "es = pre @ (key, w) # post" "key \<notin> fst ` set pre" "key \<notin> fst ` set post" "map_of es key = Some w"
proof -
  obtain w where "(key, w) \<in> set es"
    using assms(1) by auto
  then obtain pre post where es: "es = pre @ (key, w) # post"
    by (meson split_list)
  then have "key \<notin> fst ` set pre" "key \<notin> fst ` set post"
    using assms(2) by auto
  moreover from this have "map_of es key = Some w"
    by (simp add: es map_add_def map_of_eq_None_iff [THEN iffD2])
  ultimately show ?thesis
    using that es by blast
qed

text \<open>The places of a key that is held in the first buffer, in the second, or not at all.\<close>

lemma node_holdsD:
  assumes "node_holds n es fs"
  shows "holds (wildcards n) es" "extra n = None \<Longrightarrow> fs = []" "extra n = Some x \<Longrightarrow> holds x fs"
    "distinct (map fst es)" "distinct (map fst fs)" "fst ` set es \<inter> fst ` set fs = {}"
    "k \<in> fst ` set (es @ fs) \<Longrightarrow> good_key k"
  using assms by (auto simp: node_holds_def holds_def split: option.splits)

lemma node_places:
  assumes "node_holds n es fs"
  obtains
    (first) pre w post where "es = pre @ (key, w) # post" "key \<notin> fst ` set pre" "key \<notin> fst ` set post" "key \<notin> fst ` set fs"
      "find_from (wildcards n) key 0 = Some (length (packed pre), True)"
      "value_at (wildcards n) (length (packed pre) + length key + 1) = w"
      "map_of (es @ fs) key = Some w" "good_key key"
  | (second) x pre w post where "fs = pre @ (key, w) # post" "key \<notin> fst ` set pre" "key \<notin> fst ` set post"
      "key \<notin> fst ` set es" "extra n = Some x" "holds x fs"
      "find_from (wildcards n) key 0 = Some (length (packed es), False)"
      "find_from x key 0 = Some (length (packed pre), True)"
      "value_at x (length (packed pre) + length key + 1) = w"
      "map_of (es @ fs) key = Some w" "good_key key"
  | (absent) "key \<notin> fst ` set (es @ fs)" "find_from (wildcards n) key 0 = Some (length (packed es), False)"
      "\<And>x. extra n = Some x \<Longrightarrow> find_from x key 0 = Some (length (packed fs), False)" "map_of (es @ fs) key = None"
proof -
  note n = node_holdsD [OF assms]
  consider (a) "key \<in> fst ` set es" | (b) "key \<notin> fst ` set es" "key \<in> fst ` set fs" | (c) "key \<notin> fst ` set (es @ fs)"
    by auto
  then show thesis
  proof cases
    case a
    then obtain pre w post where es: "es = pre @ (key, w) # post" "key \<notin> fst ` set pre" "key \<notin> fst ` set post"
        "map_of es key = Some w"
      using n(4) by (rule key_split)
    have other: "good_key key" "key \<notin> fst ` set fs"
      using a n(6,7) by auto
    then have "map_of (es @ fs) key = Some w"
      using es(4) by (simp add: map_add_def map_of_eq_None_iff [THEN iffD2])
    then show thesis
      using first [OF es(1-3) other(2) find_present [OF n(1) es(1,2)] holds_value(3) [OF n(1) es(1)] _ other(1)] by blast
  next
    case b
    obtain pre w post where fs: "fs = pre @ (key, w) # post" "key \<notin> fst ` set pre" "key \<notin> fst ` set post"
        "map_of fs key = Some w"
      using b(2) n(5) by (rule key_split)
    obtain x where x: "extra n = Some x" "holds x fs"
      using b n(2,3) by (cases "extra n") auto
    have "good_key key" "map_of (es @ fs) key = Some w"
      using b n(7) fs(4) by (auto simp: map_add_def map_of_eq_None_iff [THEN iffD2])
    then show thesis
      using second [OF fs(1-3) b(1) x find_absent [OF n(1) b(1)] find_present [OF x(2) fs(1,2)] holds_value(3) [OF x(2) fs(1)]]
      by blast
  next
    case c
    have "find_from x key 0 = Some (length (packed fs), False)" if "extra n = Some x" for x
      using find_absent [of x fs key] n(3) [OF that] c by auto
    moreover have "find_from (wildcards n) key 0 = Some (length (packed es), False)"
      using find_absent [OF n(1), of key] c by auto
    moreover have "map_of (es @ fs) key = None"
      using map_of_eq_None_iff [of "es @ fs" key] c by blast
    ultimately show thesis
      using absent c by blast
  qed
qed

lemma node_find_correct:
  assumes "node_holds n es fs"
  shows "node_find (Some key) n = (case map_of (es @ fs) key of None \<Rightarrow> (ESB_CANNOT_FIND, 0) | Some v \<Rightarrow> (ESB_SUCCESS, v))"
  by (rule node_places [OF assms, of key])
    (auto simp: node_find_def good_key_def simp del: map_of_append split: option.split)

text \<open>An operation on one buffer leaves a good node.\<close>

lemma node_holds_wildcards:
  assumes "node_holds n es fs" "holds b es'" "distinct (map fst (es' @ fs))"
  shows "node_holds (n\<lparr>wildcards := b\<rparr>) es' fs"
  using assms by (auto simp: node_holds_def split: option.splits)

lemma node_holds_extra:
  assumes "node_holds n es fs" "holds x fs'" "distinct (map fst (es @ fs'))"
  shows "node_holds (n\<lparr>extra := Some x\<rparr>) es fs'"
  using assms by (auto simp: node_holds_def)

lemma distinct_drop: "distinct (xs @ x # ys) \<Longrightarrow> distinct (xs @ ys)"
  by auto

lemma keys_distinct:
  assumes "node_holds n es fs"
  shows "es = pre @ (key, w) # post \<Longrightarrow> distinct (map fst ((pre @ post) @ fs)) \<and> distinct (map fst ((pre @ (key, v) # post) @ fs))"
    "fs = pre @ (key, w) # post \<Longrightarrow> distinct (map fst (es @ (pre @ post))) \<and> distinct (map fst (es @ (pre @ (key, v) # post)))"
proof -
  have d: "distinct (map fst es @ map fst fs)"
    using assms by (simp add: node_holds_def)
  show "es = pre @ (key, w) # post \<Longrightarrow> distinct (map fst ((pre @ post) @ fs)) \<and> distinct (map fst ((pre @ (key, v) # post) @ fs))"
    using d distinct_drop [of "map fst pre" key "map fst post @ map fst fs"] by simp
  show "fs = pre @ (key, w) # post \<Longrightarrow> distinct (map fst (es @ (pre @ post))) \<and> distinct (map fst (es @ (pre @ (key, v) # post)))"
    using d distinct_drop [of "map fst es @ map fst pre" key "map fst post"] by simp
qed

lemma node_remove_correct:
  assumes "node_holds n es fs" "key \<noteq> []" "node_remove (Some key) n r = (e, n1, r1)"
  shows "case map_of (es @ fs) key of
      None \<Rightarrow> e = ESB_CANNOT_FIND \<and> n1 = n \<and> r1 = r
    | Some v \<Rightarrow> e = ESB_SUCCESS \<and> node_holds n1 (without key es) (without key fs) \<and> r1 = dec_ref v r \<and> nodeKey n1 = nodeKey n"
  using assms(1)
proof (rule node_places [of n es fs key])
  fix pre w post
  assume es: "es = pre @ (key, w) # post" "key \<notin> fst ` set pre" "key \<notin> fst ` set post" "key \<notin> fst ` set fs"
    and at: "find_from (wildcards n) key 0 = Some (length (packed pre), True)"
      "value_at (wildcards n) (length (packed pre) + length key + 1) = w" "map_of (es @ fs) key = Some w" "good_key key"
  have "node_holds (n\<lparr>wildcards := drop_entry (length (packed pre)) (length key + 8 + 1) (wildcards n)\<rparr>) (pre @ post) fs"
    using holds_drop(1) [OF node_holdsD(1) [OF assms(1)] es(1)] keys_distinct(1) [OF assms(1) es(1)] assms(1)
    by (blast intro: node_holds_wildcards)
  then show ?thesis
    using assms(2,3) at es without_split [OF es(2,3)] by (auto simp: node_remove_def Let_def good_key_def)
next
  fix x pre w post
  assume fs: "fs = pre @ (key, w) # post" "key \<notin> fst ` set pre" "key \<notin> fst ` set post" "key \<notin> fst ` set es"
    and at: "extra n = Some x" "holds x fs" "find_from (wildcards n) key 0 = Some (length (packed es), False)"
      "find_from x key 0 = Some (length (packed pre), True)" "value_at x (length (packed pre) + length key + 1) = w"
      "map_of (es @ fs) key = Some w" "good_key key"
  have "node_holds (n\<lparr>extra := Some (drop_entry (length (packed pre)) (length key + 8 + 1) x)\<rparr>) es (pre @ post)"
    using holds_drop(1) [OF at(2) fs(1)] keys_distinct(2) [OF assms(1) fs(1)] assms(1)
    by (blast intro: node_holds_extra)
  then show ?thesis
    using assms(2,3) at fs without_split [OF fs(2,3)] by (auto simp: node_remove_def Let_def good_key_def)
qed (use assms(2,3) in \<open>auto simp: node_remove_def Let_def simp del: map_of_append split: option.splits if_splits\<close>)

lemma node_update_correct:
  assumes "node_holds n es fs" "good_key key" "v \<noteq> 0" "node_update (Some key) v n r = (e, old, n1, r1)"
  shows "case map_of (es @ fs) key of
      None \<Rightarrow> e = ESB_CANNOT_FIND \<and> n1 = n \<and> r1 = r
    | Some w \<Rightarrow> e = ESB_SUCCESS \<and> old = w \<and> node_holds n1 (revalued key v es) (revalued key v fs) \<and>
        r1 = inc_ref v (dec_ref w r) \<and> nodeKey n1 = nodeKey n"
  using assms(1)
proof (rule node_places [of n es fs key])
  fix pre w post
  assume es: "es = pre @ (key, w) # post" "key \<notin> fst ` set pre" "key \<notin> fst ` set post" "key \<notin> fst ` set fs"
    and at: "find_from (wildcards n) key 0 = Some (length (packed pre), True)"
      "value_at (wildcards n) (length (packed pre) + length key + 1) = w" "map_of (es @ fs) key = Some w"
  have "node_holds (n\<lparr>wildcards := poke (length (packed pre) + length key + 1) (pointer_octets v) (wildcards n)\<rparr>)
      (pre @ (key, v) # post) fs"
    using holds_value(1) [OF node_holdsD(1) [OF assms(1)] es(1)] keys_distinct(1) [OF assms(1) es(1)] assms(1)
    by (blast intro: node_holds_wildcards)
  then show ?thesis
    using assms(2-4) at es revalued_split [OF es(2,3), of v w] by (auto simp: node_update_def Let_def good_key_def)
next
  fix x pre w post
  assume fs: "fs = pre @ (key, w) # post" "key \<notin> fst ` set pre" "key \<notin> fst ` set post" "key \<notin> fst ` set es"
    and at: "extra n = Some x" "holds x fs" "find_from (wildcards n) key 0 = Some (length (packed es), False)"
      "find_from x key 0 = Some (length (packed pre), True)" "value_at x (length (packed pre) + length key + 1) = w"
      "map_of (es @ fs) key = Some w"
  have "node_holds (n\<lparr>extra := Some (poke (length (packed pre) + length key + 1) (pointer_octets v) x)\<rparr>) es
      (pre @ (key, v) # post)"
    using holds_value(1) [OF at(2) fs(1)] keys_distinct(2) [OF assms(1) fs(1)] assms(1)
    by (blast intro: node_holds_extra)
  then show ?thesis
    using assms(2-4) at fs revalued_split [OF fs(2,3), of v w] by (auto simp: node_update_def Let_def good_key_def)
qed (use assms(2-4) in \<open>auto simp: node_update_def Let_def good_key_def simp del: map_of_append split: option.splits if_splits\<close>)

lemma holds_more: "holds b es \<Longrightarrow> holds (b @ m) es"
  by (auto simp: holds_def)

lemma holds_fresh: "m \<noteq> [] \<Longrightarrow> holds (poke 0 [0] m) []"
  by (cases m) (auto simp: holds_def poke_def)

lemma length_poke: "i + length xs \<le> length b \<Longrightarrow> length (poke i xs b) = length b"
  by (simp add: poke_def)

definition good_malloc :: "mallocs \<Rightarrow> bool" where
  "good_malloc malloc \<longleftrightarrow> (\<forall>n m. malloc n = Some m \<longrightarrow> length m = n)"

lemma insert_extra_correct:
  assumes "node_holds n es fs" "good_key key" "key \<notin> fst ` set (es @ fs)" "good_malloc malloc"
    and "q = length (packed fs)" "insert_extra malloc key v q n r = (e, n1, r1)"
  shows "(e = ESB_SUCCESS \<and> r1 = inc_ref v r \<and> node_holds n1 es (fs @ [(key, v)]) \<or>
      e = ESB_OUT_OF_MEMORY \<and> r1 = r \<and> node_holds n1 es fs) \<and> nodeKey n1 = nodeKey n"
proof -
  have appended: "distinct (map fst (es @ (fs @ [(key, v)])))"
    using assms(1,3) by (simp add: node_holds_def image_Un)
  let ?start = "case extra n of None \<Rightarrow> map_option (poke 0 [0]) (malloc (max DefaultAlloc (length key + 8 + 1))) | Some x \<Rightarrow> Some x"
  show ?thesis
  proof (cases ?start)
    case None
    then show ?thesis
      using assms(1,6) by (simp add: insert_extra_def Let_def)
  next
    case (Some x)
    have x: "holds x fs"
    proof (cases "extra n")
      case None
      then have "fs = []" "\<exists>m. x = poke 0 [0] m \<and> m \<noteq> []"
        using Some assms(1,4) by (auto simp: node_holds_def good_malloc_def map_option_eq_Some) fastforce
      then show ?thesis
        using holds_fresh by auto
    qed (use Some node_holdsD(3) [OF assms(1)] in simp)
    have q: "q < length x"
      using x assms(5) by (auto simp: holds_def)
    define need where "need = length key + 8 + 2"
    define grown where "grown = (if length x - q \<le> need
        then map_option ((@) x) (malloc (max (length x * 2) (length x + need - (length x - q)) - length x)) else Some x)"
    have grown_holds: "holds y fs \<and> need \<le> length y - q" if y: "grown = Some y" for y
    proof (cases "length x - q \<le> need")
      case True
      then obtain m where "y = x @ m" "length m = max (length x * 2) (length x + need - (length x - q)) - length x"
        using y assms(4) by (auto simp: grown_def good_malloc_def)
      then show ?thesis
        using x q True holds_more by auto
    qed (use y x in \<open>simp add: grown_def\<close>)
    have first: "node_holds (n\<lparr>extra := Some x\<rparr>) es fs"
      using assms(1) x by (auto simp: node_holds_def)
    have run: "insert_extra malloc key v q n r =
        (case grown of
           None \<Rightarrow> (ESB_OUT_OF_MEMORY, n\<lparr>extra := Some x\<rparr>, r)
         | Some y \<Rightarrow> (ESB_SUCCESS, n\<lparr>extra := Some (poke q (entry key v @ [0]) y)\<rparr>, inc_ref v r))"
      unfolding insert_extra_def Let_def Some by (simp add: grown_def need_def split: option.split)
    show ?thesis
    proof (cases grown)
      case None
      then show ?thesis
        using assms(6) run first by auto
    next
      case (Some y)
      have "holds (poke q (entry key v @ [0]) y) (fs @ [(key, v)])"
        using holds_append(1) [of y fs key v] grown_holds [OF Some] assms(2,5) by (simp add: need_def)
      then have "node_holds (n\<lparr>extra := Some (poke q (entry key v @ [0]) y)\<rparr>) es (fs @ [(key, v)])"
        using assms(1) appended by (blast intro: node_holds_extra)
      then show ?thesis
        using assms(6) run Some by auto
    qed
  qed
qed

lemma node_insert_correct:
  assumes "node_holds n es fs" "good_key key" "v \<noteq> 0" "good_malloc malloc"
    and "node_insert malloc (Some key) v update n r = (e, n1, r1)"
  shows "case map_of (es @ fs) key of
      None \<Rightarrow>
        (e = ESB_SUCCESS \<and> r1 = inc_ref v r \<and>
          (node_holds n1 (es @ [(key, v)]) fs \<or> node_holds n1 es (fs @ [(key, v)])) \<or>
         e = ESB_OUT_OF_MEMORY \<and> r1 = r \<and> node_holds n1 es fs) \<and> nodeKey n1 = nodeKey n
    | Some w \<Rightarrow>
        if \<not> update then e = ESB_UNIQUENESS_VIOLATION \<and> n1 = n \<and> r1 = r
        else if key \<in> fst ` set es
        then e = ESB_SUCCESS \<and> node_holds n1 (revalued key v es) fs \<and> r1 = inc_ref v (dec_ref w r) \<and> nodeKey n1 = nodeKey n
        else e = UNDEFINED_BEHAVIOUR \<and> n1 = n \<and> r1 = r"
  using assms(1)
proof (rule node_places [of n es fs key])
  fix pre w post
  assume es: "es = pre @ (key, w) # post" "key \<notin> fst ` set pre" "key \<notin> fst ` set post" "key \<notin> fst ` set fs"
    and at: "find_from (wildcards n) key 0 = Some (length (packed pre), True)"
      "value_at (wildcards n) (length (packed pre) + length key + 1) = w" "map_of (es @ fs) key = Some w"
  have "node_holds (n\<lparr>wildcards := poke (length (packed pre) + length key + 1) (pointer_octets v) (wildcards n)\<rparr>)
      (pre @ (key, v) # post) fs"
    using holds_value(1) [OF node_holdsD(1) [OF assms(1)] es(1)] keys_distinct(1) [OF assms(1) es(1)] assms(1)
    by (blast intro: node_holds_wildcards)
  then show ?thesis
    using assms(2,3,5) at es revalued_split [OF es(2,3), of v w]
    by (auto simp: node_insert_def good_key_def split: if_splits)
next
  fix x pre w post
  assume fs: "key \<notin> fst ` set es"
    and at: "extra n = Some x" "find_from (wildcards n) key 0 = Some (length (packed es), False)"
      "find_from x key 0 = Some (length (packed pre), True)" "map_of (es @ fs) key = Some w"
  then show ?thesis
    using assms(2,3,5) by (auto simp: node_insert_def good_key_def split: if_splits)
next
  assume absent: "key \<notin> fst ` set (es @ fs)" "map_of (es @ fs) key = None"
    and at: "find_from (wildcards n) key 0 = Some (length (packed es), False)"
      "\<And>x. extra n = Some x \<Longrightarrow> find_from x key 0 = Some (length (packed fs), False)"
  have second: "(case extra n of None \<Rightarrow> Some (0, False) | Some x \<Rightarrow> find_from x key 0) = Some (length (packed fs), False)"
    using at(2) node_holdsD(2) [OF assms(1)] by (auto split: option.split)
  have run: "node_insert malloc (Some key) v update n r =
      (if length (wildcards n) - length (packed es) > length key + 8 + 2
       then (ESB_SUCCESS, n\<lparr>wildcards := poke (length (packed es)) (entry key v @ [0]) (wildcards n)\<rparr>, inc_ref v r)
       else insert_extra malloc key v (length (packed fs)) n r)"
    using assms(2,3) at(1) second by (auto simp: node_insert_def good_key_def)
  show ?thesis
  proof (cases "length (wildcards n) - length (packed es) > length key + 8 + 2")
    case True
    then have "holds (poke (length (packed es)) (entry key v @ [0]) (wildcards n)) (es @ [(key, v)])"
      using holds_append(1) [OF node_holdsD(1) [OF assms(1)] assms(2), of v] by simp
    moreover have "distinct (map fst ((es @ [(key, v)]) @ fs))"
      using assms(1) absent(1) by (simp add: node_holds_def image_Un)
    ultimately have "node_holds (n\<lparr>wildcards := poke (length (packed es)) (entry key v @ [0]) (wildcards n)\<rparr>) (es @ [(key, v)]) fs"
      using assms(1) by (blast intro: node_holds_wildcards)
    then show ?thesis
      unfolding absent(2) using run True assms(5) by simp
  next
    case False
    then show ?thesis
      unfolding absent(2)
      using insert_extra_correct [OF assms(1,2) absent(1) assms(4) refl, of v r e n1 r1] run assms(5) by auto
  qed
qed

lemma create_holds:
  assumes "length key \<le> 255" "length block = DefaultAlloc"
  shows "node_holds (create_in key block) [] []" "nodeKey (create_in key block) = key"
proof -
  have "drop (SizeofNode + length key + 1) block \<noteq> []"
    using assms by simp
  then show "node_holds (create_in key block) [] []"
    using holds_fresh by (simp add: create_in_def node_holds_def)
qed (simp add: create_in_def)

lemma empty_iff:
  assumes "node_holds n es fs"
  shows "node_empty n \<longleftrightarrow> es = [] \<and> fs = []"
proof -
  have zero: "b ! 0 = 0 \<longleftrightarrow> xs = []" if h: "holds b xs" for b xs
  proof (cases xs)
    case (Cons x ys)
    then have "good_key (fst x)" "b ! 0 = of_nat (length (fst x))"
      using h by (auto simp: holds_def entry_def)
    then show ?thesis
      using Cons size_octet(2) by simp
  qed (use h in \<open>auto simp: holds_def\<close>)
  show ?thesis
    using zero [OF node_holdsD(1) [OF assms]] zero [of _ fs] node_holdsD(2,3) [OF assms]
    by (auto simp: node_empty_def split: option.split)
qed

text \<open>Whether a key is in the first buffer.\<close>

definition in_first :: "wildcard_node \<Rightarrow> u8 list \<Rightarrow> bool" where
  "in_first n key \<longleftrightarrow> (case find_from (wildcards n) key 0 of Some (_, found) \<Rightarrow> found | None \<Rightarrow> False)"

lemma in_first_holds: "node_holds n es fs \<Longrightarrow> in_first n key \<longleftrightarrow> key \<in> fst ` set es"
  by (rule node_places [of n es fs key]) (auto simp: in_first_def)

end
