(* ===== verification/WildcardIndex.thy ===== *)
theory WildcardIndex
  imports EmbeddedMap WildcardNode
begin

text \<open>
  \<open>ES::WildcardIndex\<close> (base/source/ESBWildcardIndex.cpp): a hash table of domains, each with a node of
  patterns, that answers the most specific pattern for a host name. The TLS contexts of the servers and
  of the connection pool are found with it.

  A node is a number, in the order of allocation. \<open>stale\<close> answers what the block of a node that is used
  again contains. The locks of the buckets are not modelled: the code creates each as a temporary that is
  destroyed at the end of its statement.
\<close>

section \<open>The operations\<close>

record wildcard_index = shared_map +
  nodes :: "nat \<Rightarrow> wildcard_node"
  nodeCount :: nat
  deadNodes :: "nat list"
  objectRefs :: refs

record index_env =
  allocBlock :: mallocs
  mallocExtra :: mallocs
  stale :: "nat \<Rightarrow> u8 list"

definition wc_compare :: "cstr \<Rightarrow> cstr \<Rightarrow> int" where
  "wc_compare f s = strcmp f s"

definition wc_hash :: "cstr \<Rightarrow> u64" where
  "wc_hash k = StringHash (Some k)"

definition wc_callbacks :: "cstr map_callbacks" where
  "wc_callbacks = \<lparr>cbCompare = wc_compare, cbHash = wc_hash\<rparr>"

definition new_wildcard_index :: "u32 \<Rightarrow> u32 \<Rightarrow> bool \<Rightarrow> bool \<Rightarrow> wildcard_index" where
  "new_wildcard_index n locks allocated locks_allocated =
     shared_map.extend (new_shared_map n locks allocated locks_allocated)
       (wildcard_index.fields (\<lambda>_. \<lparr>nodeKey = [], wildcards = [], extra = None\<rparr>) 0 [] (\<lambda>_. 0))"

definition domain_of :: "wildcard_index \<Rightarrow> nat \<Rightarrow> cstr" where
  "domain_of x i = nodeKey (nodes x i)"

definition set_node :: "nat \<Rightarrow> wildcard_node \<Rightarrow> refs \<Rightarrow> wildcard_index \<Rightarrow> wildcard_index" where
  "set_node i n r x = x\<lparr>nodes := (nodes x)(i := n), objectRefs := r\<rparr>"

text \<open>\<open>cleanup\<close>: the destructor clears the node, whose block is kept.\<close>

definition wc_cleanup :: "nat \<Rightarrow> wildcard_index \<Rightarrow> wildcard_index" where
  "wc_cleanup i x =
     (case node_clear (nodes x i) (objectRefs x) of (_, n, r) \<Rightarrow> set_node i n r x\<lparr>deadNodes := i # deadNodes x\<rparr>)"

definition find_node :: "cstr \<Rightarrow> nat \<Rightarrow> wildcard_index \<Rightarrow> nat option \<times> wildcard_index" where
  "find_node domain i x = map_find wc_callbacks (domain_of x) i domain x"

text \<open>A node for a new domain: a block that was kept, or a new one. A kept block is lost when the domain is no good.\<close>

definition new_node :: "index_env \<Rightarrow> cstr \<Rightarrow> wildcard_index \<Rightarrow> nat option \<times> wildcard_index" where
  "new_node env domain x =
     (case deadNodes x of
        i # is \<Rightarrow>
          let x1 = x\<lparr>deadNodes := is\<rparr> in
          (case Recycle (Some domain) (stale env i) of
             None \<Rightarrow> (None, x1)
           | Some n \<Rightarrow> (Some i, set_node i n (objectRefs x) x1))
      | [] \<Rightarrow>
          (case Create_node (Some domain) (allocBlock env) of
             None \<Rightarrow> (None, x)
           | Some n \<Rightarrow> (Some (nodeCount x), set_node (nodeCount x) n (objectRefs x) x\<lparr>nodeCount := nodeCount x + 1\<rparr>)))"

definition index_insert ::
  "index_env \<Rightarrow> cstr option \<Rightarrow> u8 list option \<Rightarrow> u64 \<Rightarrow> bool \<Rightarrow> wildcard_index \<Rightarrow> error \<times> wildcard_index" where
  "index_insert env domainp wildcard v update x =
     (case (domainp, wildcard) of
        (Some domain, Some _) \<Rightarrow>
          if locks_missing x then (ESB_OUT_OF_MEMORY, x)
          else
            (case map_bucket wc_callbacks x domain of
               None \<Rightarrow> (UNDEFINED_BEHAVIOUR, x)
             | Some b \<Rightarrow>
                 (case find_node domain b x of
                    (Some i, x1) \<Rightarrow>
                      (case node_insert (mallocExtra env) wildcard v update (nodes x1 i) (objectRefs x1) of
                         (e, n, r) \<Rightarrow> (e, set_node i n r x1))
                  | (None, x1) \<Rightarrow>
                      (case new_node env domain x1 of
                         (None, x2) \<Rightarrow> (ESB_OUT_OF_MEMORY, x2)
                       | (Some i, x2) \<Rightarrow>
                           (case node_insert (mallocExtra env) wildcard v update (nodes x2 i) (objectRefs x2) of
                              (e, n, r) \<Rightarrow>
                                let x3 = set_node i n r x2 in
                                if e \<noteq> ESB_SUCCESS then (e, wc_cleanup i x3)
                                else
                                  (case map_insert b i x3 of
                                     (e1, x4) \<Rightarrow> if e1 \<noteq> ESB_SUCCESS then (e1, wc_cleanup i x4) else (ESB_SUCCESS, x4))))))
      | _ \<Rightarrow> (ESB_NULL_POINTER, x))"

definition index_remove ::
  "cstr option \<Rightarrow> u8 list option \<Rightarrow> wildcard_index \<Rightarrow> error \<times> wildcard_index" where
  "index_remove domainp wildcard x =
     (case (domainp, wildcard) of
        (Some domain, Some _) \<Rightarrow>
          if locks_missing x then (ESB_OUT_OF_MEMORY, x)
          else
            (case map_bucket wc_callbacks x domain of
               None \<Rightarrow> (UNDEFINED_BEHAVIOUR, x)
             | Some b \<Rightarrow>
                 (case find_node domain b x of
                    (None, x1) \<Rightarrow> (ESB_CANNOT_FIND, x1)
                  | (Some i, x1) \<Rightarrow>
                      (case node_remove wildcard (nodes x1 i) (objectRefs x1) of
                         (e, n, r) \<Rightarrow>
                           let x2 = set_node i n r x1 in
                           if e \<noteq> ESB_SUCCESS then (e, x2)
                           else if node_empty n then (ESB_SUCCESS, wc_cleanup i (map_remove_element b i x2))
                           else (ESB_SUCCESS, x2))))
      | _ \<Rightarrow> (ESB_NULL_POINTER, x))"

definition index_update ::
  "cstr option \<Rightarrow> u8 list option \<Rightarrow> u64 \<Rightarrow> wildcard_index \<Rightarrow> error \<times> u64 \<times> wildcard_index" where
  "index_update domainp wildcard v x =
     (case (domainp, wildcard) of
        (Some domain, Some _) \<Rightarrow>
          if locks_missing x then (ESB_OUT_OF_MEMORY, 0, x)
          else
            (case map_bucket wc_callbacks x domain of
               None \<Rightarrow> (UNDEFINED_BEHAVIOUR, 0, x)
             | Some b \<Rightarrow>
                 (case find_node domain b x of
                    (None, x1) \<Rightarrow> (ESB_CANNOT_FIND, 0, x1)
                  | (Some i, x1) \<Rightarrow>
                      (case node_update wildcard v (nodes x1 i) (objectRefs x1) of
                         (e, old, n, r) \<Rightarrow> (e, old, set_node i n r x1))))
      | _ \<Rightarrow> (ESB_NULL_POINTER, 0, x))"

definition index_find ::
  "cstr option \<Rightarrow> u8 list option \<Rightarrow> wildcard_index \<Rightarrow> error \<times> u64 \<times> wildcard_index" where
  "index_find domainp wildcard x =
     (case (domainp, wildcard) of
        (Some domain, Some _) \<Rightarrow>
          if locks_missing x then (ESB_OUT_OF_MEMORY, 0, x)
          else
            (case map_bucket wc_callbacks x domain of
               None \<Rightarrow> (UNDEFINED_BEHAVIOUR, 0, x)
             | Some b \<Rightarrow>
                 (case find_node domain b x of
                    (None, x1) \<Rightarrow> (ESB_CANNOT_FIND, 0, x1)
                  | (Some i, x1) \<Rightarrow> (case node_find wildcard (nodes x1 i) of (e, v) \<Rightarrow> (e, v, x1))))
      | _ \<Rightarrow> (ESB_NULL_POINTER, 0, x))"

text \<open>
  The loop of \<open>match\<close> over the patterns of a node: \<open>best\<close> is negative as long as none has matched. None
  as result: the loop does not end.
\<close>

partial_function (option) match_loop ::
  "wildcard_node \<Rightarrow> u8 list \<Rightarrow> u32 \<Rightarrow> node_iterator \<Rightarrow> int \<Rightarrow> node_iterator \<Rightarrow> (error \<times> u64) option" where
  "match_loop n hostname hostnameSize it best bestIt =
     (if node_last it n then
        Some (if best < 0 then (ESB_CANNOT_FIND, 0) else (ESB_SUCCESS, snd (node_value bestIt n)))
      else
        case node_key it n of
          (_, wildcard, wildcardSize) \<Rightarrow>
            (case StringWildcardMatch (Some wildcard) wildcardSize (Some hostname) hostnameSize of
               None \<Rightarrow> Some (UNDEFINED_BEHAVIOUR, 0)
             | Some matchValue \<Rightarrow>
                 if matchValue = 0 then Some (ESB_SUCCESS, snd (node_value it n))
                 else
                   let better = 0 < matchValue \<and> (0 > best \<or> best > matchValue) in
                   (case node_next it n of
                      (e, it1) \<Rightarrow>
                        if e \<noteq> ESB_SUCCESS then Some (e, 0)
                        else
                          match_loop n hostname hostnameSize it1 (if better then matchValue else best)
                            (if better then it else bestIt))))"

declare match_loop.simps [code]

definition index_match ::
  "cstr option \<Rightarrow> u8 list option \<Rightarrow> u32 \<Rightarrow> wildcard_index \<Rightarrow> (error \<times> u64 \<times> wildcard_index) option" where
  "index_match domainp hostname hostnameSize x =
     (case (domainp, hostname) of
        (Some domain, Some host) \<Rightarrow>
          if locks_missing x then Some (ESB_OUT_OF_MEMORY, 0, x)
          else
            (case map_bucket wc_callbacks x domain of
               None \<Rightarrow> Some (UNDEFINED_BEHAVIOUR, 0, x)
             | Some b \<Rightarrow>
                 (case find_node domain b x of
                    (None, x1) \<Rightarrow> Some (ESB_CANNOT_FIND, 0, x1)
                  | (Some i, x1) \<Rightarrow>
                      map_option (\<lambda>(e, v). (e, v, x1))
                        (match_loop (nodes x1 i) host hostnameSize node_first (- 1) node_first)))
      | _ \<Rightarrow> Some (ESB_NULL_POINTER, 0, x))"

definition index_clear :: "wildcard_index \<Rightarrow> error \<times> wildcard_index" where
  "index_clear x = (case map_clear x of (e, gone, x1) \<Rightarrow> (e, fold wc_cleanup gone x1))"

text \<open>\<open>TLSContextIndex::matchContext\<close>: the host name and the domain of a fully qualified name.\<close>

definition matchContext :: "cstr \<Rightarrow> wildcard_index \<Rightarrow> (error \<times> u64 \<times> wildcard_index) option" where
  "matchContext fqdn x =
     (case SplitFqdn fqdn of
        (host, n, domain) \<Rightarrow>
          (case domain of
             None \<Rightarrow> Some (ESB_CANNOT_FIND, 0, x)
           | Some d \<Rightarrow>
               if d = [] \<or> host = [] \<or> n = 0 then Some (ESB_CANNOT_FIND, 0, x)
               else index_match (Some d) (Some (fqdn @ [0])) n x))"

section \<open>Matching\<close>

text \<open>A pattern has at most one wildcard; a host name is short. The value of a pattern for a host name.\<close>

definition one_wildcard :: "u8 list \<Rightarrow> bool" where
  "one_wildcard k \<longleftrightarrow> ASTERISK \<notin> set k \<or> (\<exists>a b. k = wild_pattern a b \<and> ASTERISK \<notin> set a \<and> ASTERISK \<notin> set b)"

definition pattern_value :: "u8 list \<Rightarrow> u8 list \<Rightarrow> int" where
  "pattern_value k host = the (StringWildcardMatch_c (Some k) (Some host))"

definition short_host :: "u8 list \<Rightarrow> bool" where
  "short_host host \<longleftrightarrow> host \<noteq> [] \<and> length host < 2 ^ 30"

lemma pattern_value_any_memory:
  assumes "good_key k" "one_wildcard k" "short_host host" "readable tp"
  shows "StringWildcardMatch (Some (k @ tp)) (of_nat (length k)) (Some (host @ ts)) (of_nat (length host)) =
    Some (pattern_value k host)"
proof (cases "ASTERISK \<in> set k")
  case False
  have "length k < 2 ^ 31" "length host < 2 ^ 31" "readable [0]"
    using assms by (auto simp: good_key_def short_host_def readable_def)
  then show ?thesis
    using match_plain [OF False] assms(4) by (simp add: pattern_value_def StringWildcardMatch_c_def)
next
  case True
  then obtain a b where k: "k = wild_pattern a b" "ASTERISK \<notin> set a" "ASTERISK \<notin> set b"
    using assms(2) by (auto simp: one_wildcard_def)
  have "length (wild_pattern a b) < 2 ^ 30" "host \<noteq> []" "length host < 2 ^ 30"
    using assms(1,3) k by (auto simp: good_key_def short_host_def)
  then show ?thesis
    using match_wild [OF k(2,3)] by (simp add: pattern_value_def StringWildcardMatch_c_def k(1))
qed

text \<open>What \<open>match\<close> computes over the entries of a node.\<close>

fun scan :: "u8 list \<Rightarrow> (u8 list \<times> u64) list \<Rightarrow> int \<Rightarrow> u64 \<Rightarrow> error \<times> u64" where
  "scan host [] best w = (if best < 0 then (ESB_CANNOT_FIND, 0) else (ESB_SUCCESS, w))"
| "scan host ((k, v) # es) best w =
     (let m = pattern_value k host in
      if m = 0 then (ESB_SUCCESS, v)
      else if 0 < m \<and> (0 > best \<or> best > m) then scan host es m v
      else scan host es best w)"

definition good_entries :: "(u8 list \<times> u64) list \<Rightarrow> bool" where
  "good_entries es \<longleftrightarrow> (\<forall>(k, v) \<in> set es. one_wildcard k \<and> hd (pointer_octets v) \<noteq> ASTERISK)"

lemma iterated_entry:
  assumes "holds (iterated (f, p) n) es" "es = pre @ (k, v) # post" "p = length (packed pre)"
  shows "\<not> node_last (f, p) n" "node_value (f, p) n = (ESB_SUCCESS, v)"
    "\<exists>tp. node_key (f, p) n = (ESB_SUCCESS, k @ pointer_octets v @ tp, of_nat (length k))"
    "iterated (f, p) n ! (p + 1 + unat (iterated (f, p) n ! p) + 8) =
      (case post of [] \<Rightarrow> 0 | (k', _) # _ \<Rightarrow> of_nat (length k'))"
    "p + 1 + unat (iterated (f, p) n ! p) + 8 = length (packed (pre @ [(k, v)]))" "good_key k"
proof -
  obtain rest where b: "iterated (f, length (packed pre)) n = packed pre @ entry k v @ packed post @ 0 # rest"
      and good: "good_key k"
    using assms by (auto simp: holds_def)
  have at: "iterated (f, p) n ! p = of_nat (length k)" "unat (iterated (f, p) n ! p) = length k" "iterated (f, p) n ! p \<noteq> 0"
    using size_octet [OF good] by (simp_all add: b assms(3) entry_def)
  then show "\<not> node_last (f, p) n"
    by (simp add: node_last_def)
  show "node_value (f, p) n = (ESB_SUCCESS, v)"
    using at value_middle [of "packed pre" k v "packed post @ 0 # rest"]
    by (simp add: node_value_def Let_def b assms(3) add.commute add.left_commute)
  have "drop (p + 1) (iterated (f, p) n) = k @ pointer_octets v @ packed post @ 0 # rest"
    by (simp add: b assms(3) entry_def)
  moreover have "(ucast (of_nat (length k) :: u8) :: u32) = of_nat (length k)"
    using size_octet(1) [OF good] by (metis of_nat_unat unat_of_nat word_of_nat_eq_iff)
  ultimately show "\<exists>tp. node_key (f, p) n = (ESB_SUCCESS, k @ pointer_octets v @ tp, of_nat (length k))"
    using at by (auto simp: node_key_def Let_def)
  show "p + 1 + unat (iterated (f, p) n ! p) + 8 = length (packed (pre @ [(k, v)]))"
    using at(2) assms(3) by simp
  then show "iterated (f, p) n ! (p + 1 + unat (iterated (f, p) n ! p) + 8) =
      (case post of [] \<Rightarrow> 0 | (k', _) # _ \<Rightarrow> of_nat (length k'))"
    by (simp add: b assms(3) nth_append entry_def split: list.split)
qed (use assms in \<open>auto simp: holds_def\<close>)

text \<open>One round at an entry.\<close>

lemma match_round:
  assumes "holds (iterated (f, p) n) es" "es = pre @ (k, v) # post" "p = length (packed pre)"
    and "good_entries es" "short_host host"
    and "node_next (f, p) n = (ESB_SUCCESS, it1)" "best < 0 \<or> node_value bestIt n = (ESB_SUCCESS, w)"
    and rest: "\<And>b it u. b < 0 \<or> node_value it n = (ESB_SUCCESS, u) \<Longrightarrow>
      match_loop n (host @ ts) (of_nat (length host)) it1 b it = Some (scan host later b u)"
  shows "match_loop n (host @ ts) (of_nat (length host)) (f, p) best bestIt = Some (scan host ((k, v) # later) best w)"
proof -
  note entry = iterated_entry [OF assms(1-3)]
  obtain tp where key: "node_key (f, p) n = (ESB_SUCCESS, k @ pointer_octets v @ tp, of_nat (length k))"
    using entry(3) by blast
  have "one_wildcard k" "readable (pointer_octets v @ tp)"
    using assms(2,4) by (auto simp: good_entries_def readable_def pointer_octets_def)
  then have "StringWildcardMatch (Some (k @ pointer_octets v @ tp)) (of_nat (length k)) (Some (host @ ts)) (of_nat (length host)) =
      Some (pattern_value k host)"
    using pattern_value_any_memory [OF entry(6) _ assms(5)] by simp
  then show ?thesis
    using entry(1) key assms(6) rest [of "pattern_value k host" "(f, p)" v] rest [of best bestIt w] entry(2) assms(7)
    by (subst match_loop.simps) (auto simp: Let_def)
qed

lemma match_second:
  assumes "extra n = Some x" "holds x fs" "good_entries fs" "short_host host" "fs = pre @ post"
    and "best < 0 \<or> node_value bestIt n = (ESB_SUCCESS, w)"
  shows "match_loop n (host @ ts) (of_nat (length host)) (True, length (packed pre)) best bestIt = Some (scan host post best w)"
  using assms(5,6)
proof (induction post arbitrary: pre best bestIt w)
  case Nil
  have "x ! length (packed pre) = 0"
    using assms(2) Nil(1) by (auto simp: holds_def)
  then have "node_last (True, length (packed pre)) n"
    using assms(1) by (simp add: node_last_def iterated_def)
  then show ?case
    using Nil(2) by (subst match_loop.simps) auto
next
  case (Cons e post)
  obtain k v where e: "e = (k, v)"
    by (cases e)
  have h: "holds (iterated (True, length (packed pre)) n) fs"
    using assms(1,2) by (simp add: iterated_def)
  have fs: "fs = pre @ (k, v) # post"
    using Cons.prems(1) e by simp
  note entry = iterated_entry [OF h fs refl]
  have step: "node_next (True, length (packed pre)) n = (ESB_SUCCESS, (True, length (packed (pre @ [(k, v)]))))"
    using entry(1,5) by (simp add: node_next_def Let_def node_last_def)
  have "match_loop n (host @ ts) (of_nat (length host)) (True, length (packed (pre @ [(k, v)]))) b it =
        Some (scan host post b u)" if "b < 0 \<or> node_value it n = (ESB_SUCCESS, u)" for b it u
    using Cons.IH [of "pre @ [(k, v)]" b it u] fs that by simp
  then show ?case
    unfolding e by (rule match_round [OF h fs refl assms(3,4) step Cons.prems(2)])
qed

lemma match_first:
  assumes "node_holds n es fs" "good_entries (es @ fs)" "short_host host" "es = pre @ e # post"
    and "best < 0 \<or> node_value bestIt n = (ESB_SUCCESS, w)"
  shows "match_loop n (host @ ts) (of_nat (length host)) (False, length (packed pre)) best bestIt =
    Some (scan host (e # post @ fs) best w)"
  using assms(4,5)
proof (induction post arbitrary: pre e best bestIt w)
  case Nil
  obtain k v where e: "e = (k, v)"
    by (cases e)
  have h: "holds (iterated (False, length (packed pre)) n) es"
    using node_holdsD(1) [OF assms(1)] by (simp add: iterated_def)
  have es: "es = pre @ (k, v) # []"
    using Nil(1) e by simp
  note entry = iterated_entry [OF h es refl]
  have good: "good_entries es" "good_entries fs"
    using assms(2) by (auto simp: good_entries_def)
  define it1 where "it1 = (if extra n = None then (False, length (packed es)) else (True, 0))"
  have step: "node_next (False, length (packed pre)) n = (ESB_SUCCESS, it1)"
    using entry(1,4,5) es by (simp add: node_next_def Let_def node_last_def it1_def)
  have "match_loop n (host @ ts) (of_nat (length host)) it1 b it = Some (scan host fs b u)"
    if "b < 0 \<or> node_value it n = (ESB_SUCCESS, u)" for b it u
  proof (cases "extra n")
    case None
    have "wildcards n ! length (packed es) = 0"
      using node_holdsD(1) [OF assms(1)] by (auto simp: holds_def)
    then have "node_last it1 n" "fs = []"
      using None node_holdsD(2) [OF assms(1)] by (simp_all add: it1_def node_last_def iterated_def)
    then show ?thesis
      using that by (subst match_loop.simps) auto
  next
    case (Some x)
    then show ?thesis
      using match_second [OF Some node_holdsD(3) [OF assms(1) Some] good(2) assms(3), of "[]" fs b it u ts] that
      by (simp add: it1_def)
  qed
  then show ?case
    unfolding e append_Nil by (rule match_round [OF h es refl good(1) assms(3) step Nil(2)])
next
  case (Cons e2 post)
  obtain k v where e: "e = (k, v)"
    by (cases e)
  have h: "holds (iterated (False, length (packed pre)) n) es"
    using node_holdsD(1) [OF assms(1)] by (simp add: iterated_def)
  have es: "es = pre @ (k, v) # e2 # post"
    using Cons.prems(1) e by simp
  note entry = iterated_entry [OF h es refl]
  have good: "good_entries es" "good_key (fst e2)"
    using assms(2) es node_holdsD(7) [OF assms(1), of "fst e2"] by (auto simp: good_entries_def)
  have step: "node_next (False, length (packed pre)) n = (ESB_SUCCESS, (False, length (packed (pre @ [(k, v)]))))"
    using entry(1,4,5) size_octet(2) [OF good(2)] by (simp add: node_next_def Let_def node_last_def split: prod.splits)
  have "match_loop n (host @ ts) (of_nat (length host)) (False, length (packed (pre @ [(k, v)]))) b it =
        Some (scan host (e2 # post @ fs) b u)" if "b < 0 \<or> node_value it n = (ESB_SUCCESS, u)" for b it u
    using Cons.IH [of "pre @ [(k, v)]" e2 b it u] es that by simp
  then show ?case
    unfolding e append_Cons by (rule match_round [OF h es refl good(1) assms(3) step Cons.prems(2)])
qed

text \<open>A node whose first buffer is empty matches nothing, whatever the second holds.\<close>

lemma match_node:
  assumes "node_holds n es fs" "good_entries (es @ fs)" "short_host host"
  shows "match_loop n (host @ ts) (of_nat (length host)) node_first (- 1) node_first =
    Some (if es = [] then (ESB_CANNOT_FIND, 0) else scan host (es @ fs) (- 1) 0)"
proof (cases es)
  case Nil
  then have "wildcards n ! 0 = 0"
    using node_holdsD(1) [OF assms(1)] by (auto simp: holds_def)
  then have "node_last node_first n"
    by (simp add: node_last_def node_first_def iterated_def)
  then show ?thesis
    using Nil by (subst match_loop.simps) simp
next
  case (Cons e post)
  then show ?thesis
    using match_first [OF assms, of "[]" e post "- 1" node_first 0 ts] by (simp add: node_first_def)
qed

text \<open>\<open>scan\<close> answers an entry of the least value of all that match.\<close>

lemma scan_best:
  assumes "scan host es best w = (e, v)" "best \<noteq> 0"
  shows "(e = ESB_CANNOT_FIND \<and> best < 0 \<and> (\<forall>(k, u) \<in> set es. pattern_value k host < 0)) \<or>
    (e = ESB_SUCCESS \<and>
      (\<exists>m. ((0 < best \<and> m = best \<and> v = w) \<or> (\<exists>k. (k, v) \<in> set es \<and> m = pattern_value k host)) \<and> 0 \<le> m \<and>
        (0 < best \<longrightarrow> m \<le> best) \<and> (\<forall>(k, u) \<in> set es. 0 \<le> pattern_value k host \<longrightarrow> m \<le> pattern_value k host)))"
  using assms
proof (induction host es best w rule: scan.induct)
  case (1 host best w)
  then show ?case
    by (auto split: if_splits)
next
  case (2 host k u es best w)
  let ?m = "pattern_value k host"
  consider (zero) "?m = 0" | (better) "0 < ?m" "0 > best \<or> best > ?m" | (worse) "?m \<noteq> 0" "\<not> (0 < ?m \<and> (0 > best \<or> best > ?m))"
    by linarith
  then show ?case
  proof cases
    case zero
    then show ?thesis
      using 2(3) by (intro disjI2) (auto intro!: exI [of _ 0])
  next
    case better
    then have "scan host es ?m u = (e, v)"
      using 2(3) by (simp add: Let_def)
    then obtain m where m: "e = ESB_SUCCESS" "m = ?m \<and> v = u \<or> (\<exists>k. (k, v) \<in> set es \<and> m = pattern_value k host)" "0 \<le> m"
        "m \<le> ?m" "\<forall>(k, u) \<in> set es. 0 \<le> pattern_value k host \<longrightarrow> m \<le> pattern_value k host"
      using 2(1) [OF refl] better by auto
    moreover have "(\<exists>k'. (k', v) \<in> set ((k, u) # es) \<and> m = pattern_value k' host)"
      using m(2) by auto
    ultimately show ?thesis
      using better by (intro disjI2) (auto intro!: exI [of _ m])
  next
    case worse
    then have "scan host es best w = (e, v)"
      using 2(3) by (simp add: Let_def split: if_splits)
    then consider (none) "e = ESB_CANNOT_FIND" "best < 0" "\<forall>(k, u) \<in> set es. pattern_value k host < 0"
      | (some) m where "e = ESB_SUCCESS" "(0 < best \<and> m = best \<and> v = w) \<or> (\<exists>k. (k, v) \<in> set es \<and> m = pattern_value k host)"
        "0 \<le> m" "0 < best \<longrightarrow> m \<le> best" "\<forall>(k, u) \<in> set es. 0 \<le> pattern_value k host \<longrightarrow> m \<le> pattern_value k host"
      using 2(2) [OF refl] 2(4) worse by blast
    then show ?thesis
    proof cases
      case none
      then show ?thesis
        using worse by auto
    next
      case some
      moreover have "0 \<le> ?m \<Longrightarrow> m \<le> ?m"
        using worse 2(4) some(4) by linarith
      moreover have "(0 < best \<and> m = best \<and> v = w) \<or> (\<exists>k'. (k', v) \<in> set ((k, u) # es) \<and> m = pattern_value k' host)"
        using some(2) by auto
      ultimately show ?thesis
        by - (rule disjI2, simp, rule exI [of _ m], simp)
    qed
  qed
qed

end
