(* ===== verification/WildcardMap.thy ===== *)
theory WildcardMap
  imports WildcardIndex
begin

text \<open>
  The wildcard index (base/source/ESBWildcardIndex.cpp) as a map from domain and pattern to a value: the
  invariant, the abstraction, and what every operation answers and does in terms of the map.
\<close>

section \<open>The index as a map\<close>

text \<open>C strings compare as equal when they are.\<close>

lemma strncmp_equal:
  assumes "strncmp s t n = 0" "length s < n" "length t < n" "0 \<notin> set s" "0 \<notin> set t"
  shows "s = t"
  using assms
proof (induction n arbitrary: s t)
  case (Suc n)
  then show ?case
    by (cases s; cases t) (auto simp: c_head_def Let_def split: if_splits)
qed simp

lemma strncmp_same: "strncmp s s n = 0"
  by (induction n arbitrary: s) (simp_all add: Let_def)

definition good_domain :: "cstr \<Rightarrow> bool" where
  "good_domain d \<longleftrightarrow> d \<noteq> [] \<and> length d \<le> 255 \<and> 0 \<notin> set d"

lemma compare_domains: "good_domain d \<Longrightarrow> good_domain d' \<Longrightarrow> cbCompare wc_callbacks d d' = 0 \<longleftrightarrow> d = d'"
  using strncmp_equal [of d d' "Suc (max (length d) (length d'))"] strncmp_same
  by (auto simp: wc_callbacks_def wc_compare_def strcmp_def good_domain_def)

interpretation domains: hashed_keys wc_callbacks good_domain
  by unfold_locales (simp add: compare_domains)

text \<open>The invariant: every node holds something, no two have the same domain, and dead nodes are not in the map.\<close>

definition node_ok :: "wildcard_node \<Rightarrow> bool" where
  "node_ok n \<longleftrightarrow> (\<exists>es fs. node_holds n es fs) \<and> good_domain (nodeKey n)"

definition index_inv :: "wildcard_index \<Rightarrow> bool" where
  "index_inv x \<longleftrightarrow>
     map_inv wc_callbacks (domain_of x) x \<and> \<not> locks_missing x \<and>
     (\<forall>i \<in> map_elements x. node_ok (nodes x i) \<and> i < nodeCount x) \<and>
     inj_on (domain_of x) (map_elements x) \<and>
     distinct (deadNodes x) \<and> (\<forall>i \<in> set (deadNodes x). i < nodeCount x \<and> i \<notin> map_elements x)"

definition index_maps :: "wildcard_index \<Rightarrow> cstr \<Rightarrow> u8 list \<Rightarrow> u64 \<Rightarrow> bool" where
  "index_maps x d k v \<longleftrightarrow> (\<exists>i \<in> map_elements x. domain_of x i = d \<and> node_find (Some k) (nodes x i) = (ESB_SUCCESS, v))"

definition good_env :: "index_env \<Rightarrow> bool" where
  "good_env env \<longleftrightarrow> good_malloc (allocBlock env) \<and> good_malloc (mallocExtra env) \<and> (\<forall>i. length (stale env i) = DefaultAlloc)"

lemma index_fields [simp]:
  "map_elements (objectRefs_update f x) = map_elements x" "map_elements (nodes_update g x) = map_elements x"
  "map_elements (deadNodes_update h x) = map_elements x" "map_elements (nodeCount_update c x) = map_elements x"
  "map_bucket cb (objectRefs_update f x) = map_bucket cb x" "map_bucket cb (nodes_update g x) = map_bucket cb x"
  "map_bucket cb (deadNodes_update h x) = map_bucket cb x" "map_bucket cb (nodeCount_update c x) = map_bucket cb x"
  "map_inv cb keyOf (objectRefs_update f x) = map_inv cb keyOf x" "map_inv cb keyOf (nodes_update g x) = map_inv cb keyOf x"
  "map_inv cb keyOf (deadNodes_update h x) = map_inv cb keyOf x" "map_inv cb keyOf (nodeCount_update c x) = map_inv cb keyOf x"
  "locks_missing (objectRefs_update f x) = locks_missing x" "locks_missing (nodes_update g x) = locks_missing x"
  "locks_missing (deadNodes_update h x) = locks_missing x" "locks_missing (nodeCount_update c x) = locks_missing x"
  by (simp_all add: map_elements_def map_bucket_def map_inv_def locks_missing_def fun_eq_iff split: option.split)

lemma set_node_fields [simp]:
  "nodes (set_node i n r x) = (nodes x)(i := n)" "nodeCount (set_node i n r x) = nodeCount x"
  "deadNodes (set_node i n r x) = deadNodes x" "objectRefs (set_node i n r x) = r"
  "map_elements (set_node i n r x) = map_elements x" "map_bucket cb (set_node i n r x) = map_bucket cb x"
  "map_inv cb keyOf (set_node i n r x) = map_inv cb keyOf x" "locks_missing (set_node i n r x) = locks_missing x"
  "domain_of (set_node i n r x) = (domain_of x)(i := nodeKey n)"
  by (simp_all add: set_node_def domain_of_def fun_eq_iff)

lemma set_bucket_index_fields [simp]:
  "nodes (set_bucket i es x) = nodes x" "nodeCount (set_bucket i es x) = nodeCount x"
  "deadNodes (set_bucket i es x) = deadNodes x" "objectRefs (set_bucket i es x) = objectRefs x"
  "locks_missing (set_bucket i es x) = locks_missing x" "domain_of (set_bucket i es x) = domain_of x"
  "domain_of (numElements_update f x) = domain_of x" "locks_missing (numElements_update f x) = locks_missing x"
  by (simp_all add: set_bucket_def locks_missing_def domain_of_def fun_eq_iff)

lemma find_node_spec:
  assumes "index_inv x" "good_domain d" "map_bucket wc_callbacks x d = Some b" "find_node d b x = (r, x1)"
  shows "index_inv x1 \<and> map_elements x1 = map_elements x \<and> nodes x1 = nodes x \<and> map_bucket wc_callbacks x1 = map_bucket wc_callbacks x \<and>
    objectRefs x1 = objectRefs x \<and>
    (case r of None \<Rightarrow> \<forall>i \<in> map_elements x. domain_of x i \<noteq> d | Some i \<Rightarrow> i \<in> map_elements x \<and> domain_of x i = d)"
proof -
  have domains: "\<forall>i \<in> map_elements x. good_domain (domain_of x i)"
    using assms(1) by (auto simp: index_inv_def node_ok_def domain_of_def)
  have run: "map_find wc_callbacks (domain_of x) b d x = (r, x1)"
    using assms(4) by (simp add: find_node_def)
  have same: "nodes x1 = nodes x" "nodeCount x1 = nodeCount x" "deadNodes x1 = deadNodes x" "objectRefs x1 = objectRefs x"
      "locks_missing x1 = locks_missing x" "domain_of x1 = domain_of x" "map_bucket wc_callbacks x1 = map_bucket wc_callbacks x"
    using run by (auto simp: map_find_def split: option.splits)
  have spec: "map_inv wc_callbacks (domain_of x) x1" "map_elements x1 = map_elements x"
      "case r of None \<Rightarrow> \<forall>e \<in> map_elements x. cbCompare wc_callbacks d (domain_of x e) \<noteq> 0
       | Some e \<Rightarrow> e \<in> map_elements x \<and> cbCompare wc_callbacks d (domain_of x e) = 0"
    using domains.find_contract [OF _ domains assms(2,3) run] assms(1) by (auto simp: index_inv_def split: option.splits)
  moreover have "index_inv x1"
    using assms(1) spec(1,2) same by (simp add: index_inv_def)
  ultimately show ?thesis
    using same domains assms(2) compare_domains by (auto split: option.splits)
qed

definition node_map :: "wildcard_node \<Rightarrow> u8 list \<rightharpoonup> u64" where
  "node_map n k = (case node_find (Some k) n of (e, v) \<Rightarrow> if e = ESB_SUCCESS then Some v else None)"

lemma node_map_holds: "node_holds n es fs \<Longrightarrow> node_map n = map_of (es @ fs)"
  by (rule ext) (simp add: node_map_def node_find_correct del: map_of_append split: option.split)

text \<open>The abstraction: from domain and pattern to the value.\<close>

definition index_map :: "wildcard_index \<Rightarrow> cstr \<times> u8 list \<rightharpoonup> u64" where
  "index_map x dk =
     (case mapBuckets x of
        None \<Rightarrow> None
      | Some bs \<Rightarrow>
          (case find (\<lambda>i. domain_of x i = fst dk) (concat bs) of
             None \<Rightarrow> None
           | Some i \<Rightarrow> node_map (nodes x i) (snd dk)))"

lemma index_map_node:
  assumes "index_inv x" "i \<in> map_elements x" "domain_of x i = d"
  shows "index_map x (d, k) = node_map (nodes x i) k"
proof -
  obtain bs where bs: "mapBuckets x = Some bs" "map_elements x = set (concat bs)"
    using assms(1) by (auto simp: index_inv_def map_inv_def map_elements_def)
  have unique: "j = i" if "j \<in> map_elements x" "domain_of x j = d" for j
    using assms that by (auto simp: index_inv_def inj_on_def)
  have "find (\<lambda>i. domain_of x i = d) (concat bs) = Some i"
  proof (cases "find (\<lambda>i. domain_of x i = d) (concat bs)")
    case None
    then show ?thesis
      using assms(2,3) bs(2) by (auto simp: find_None_iff)
  next
    case (Some j)
    then have "j \<in> set (concat bs)" "domain_of x j = d"
      by (auto simp: find_Some_iff in_set_conv_nth simp del: set_concat)
    then show ?thesis
      using unique Some bs(2) by simp
  qed
  then show ?thesis
    using bs(1) by (simp add: index_map_def)
qed

lemma index_map_no_node:
  assumes "index_inv x" "\<forall>i \<in> map_elements x. domain_of x i \<noteq> d"
  shows "index_map x (d, k) = None"
proof -
  obtain bs where bs: "mapBuckets x = Some bs" "map_elements x = set (concat bs)"
    using assms(1) by (auto simp: index_inv_def map_inv_def map_elements_def)
  then have "find (\<lambda>i. domain_of x i = d) (concat bs) = None"
    using assms(2) by (auto simp: find_None_iff)
  then show ?thesis
    using bs(1) by (simp add: index_map_def)
qed

text \<open>Two indexes with the same domains and nodes are the same map.\<close>

lemma index_map_cong:
  assumes "index_inv x" "index_inv y" "map_elements x = map_elements y"
    and "\<forall>i \<in> map_elements x. domain_of x i = domain_of y i \<and> node_map (nodes x i) = node_map (nodes y i)"
  shows "index_map x = index_map y"
proof
  fix dk :: "cstr \<times> u8 list"
  obtain d k where dk: "dk = (d, k)"
    by (cases dk)
  show "index_map x dk = index_map y dk"
  proof (cases "\<exists>i \<in> map_elements x. domain_of x i = d")
    case True
    then obtain i where i: "i \<in> map_elements x" "domain_of x i = d"
      by blast
    then have "index_map x (d, k) = node_map (nodes x i) k" "index_map y (d, k) = node_map (nodes y i) k"
      using index_map_node [OF assms(1) i] index_map_node [OF assms(2), of i d] assms(3,4) by auto
    then show ?thesis
      using assms(4) i(1) dk by simp
  next
    case False
    then have "index_map x (d, k) = None" "index_map y (d, k) = None"
      using index_map_no_node [OF assms(1), of d k] index_map_no_node [OF assms(2), of d k] assms(3,4) by auto
    then show ?thesis
      using dk by simp
  qed
qed

lemma set_node_contract:
  assumes "index_inv x" "i \<in> map_elements x" "node_ok n" "nodeKey n = domain_of x i"
  shows "index_inv (set_node i n r x)"
    "index_map (set_node i n r x) = (\<lambda>(d, k). if d = domain_of x i then node_map n k else index_map x (d, k))"
proof -
  let ?y = "set_node i n r x"
  have same: "domain_of ?y = domain_of x"
    using assms(4) by (auto simp: fun_eq_iff)
  show inv: "index_inv ?y"
    using assms(1,2,3) same by (simp add: index_inv_def)
  show "index_map ?y = (\<lambda>(d, k). if d = domain_of x i then node_map n k else index_map x (d, k))"
  proof (rule ext, clarify)
    fix d k
    show "index_map ?y (d, k) = (if d = domain_of x i then node_map n k else index_map x (d, k))"
    proof (cases "\<exists>j \<in> map_elements x. domain_of x j = d")
      case True
      then obtain j where j: "j \<in> map_elements x" "domain_of x j = d"
        by blast
      moreover have "d = domain_of x i \<longleftrightarrow> j = i"
        using j assms(1,2) by (auto simp: index_inv_def inj_on_def)
      ultimately show ?thesis
        using index_map_node [OF inv, of j d k] index_map_node [OF assms(1) j] same assms(4) by auto
    next
      case False
      have "\<forall>j \<in> map_elements ?y. domain_of ?y j \<noteq> d"
        unfolding same using False by simp
      then show ?thesis
        using index_map_no_node [OF inv, of d k] index_map_no_node [OF assms(1), of d k] False assms(2) by auto
    qed
  qed
qed

lemma cleanup_contract:
  assumes "index_inv x" "i \<notin> map_elements x" "i < nodeCount x" "i \<notin> set (deadNodes x)"
  shows "index_inv (wc_cleanup i x)" "index_map (wc_cleanup i x) = index_map x"
proof -
  obtain e n r where c: "node_clear (nodes x i) (objectRefs x) = (e, n, r)"
    by (cases "node_clear (nodes x i) (objectRefs x)")
  let ?y = "wc_cleanup i x"
  have y: "?y = set_node i n r x\<lparr>deadNodes := i # deadNodes x\<rparr>"
    by (simp add: wc_cleanup_def c)
  have elements: "map_elements ?y = map_elements x"
    by (simp add: y)
  have domains: "domain_of ?y = (domain_of x)(i := nodeKey n)"
    by (auto simp: y domain_of_def set_node_def)
  have "map_inv wc_callbacks (domain_of ?y) x \<longleftrightarrow> map_inv wc_callbacks (domain_of x) x"
    by (rule map_inv_keys) (use assms(2) domains in auto)
  moreover have "inj_on (domain_of ?y) (map_elements x) \<longleftrightarrow> inj_on (domain_of x) (map_elements x)"
    by (rule inj_on_cong) (use assms(2) domains in auto)
  moreover have "nodes ?y = (nodes x)(i := n)" "nodeCount ?y = nodeCount x" "deadNodes ?y = i # deadNodes x"
      "locks_missing ?y = locks_missing x" "map_inv wc_callbacks k ?y = map_inv wc_callbacks k x" for k
    by (simp_all add: y)
  ultimately show "index_inv ?y"
    using assms elements by (auto simp: index_inv_def)
  then show "index_map ?y = index_map x"
    using assms(1,2) elements domains by (intro index_map_cong) (auto simp: y set_node_def)
qed

lemma new_node_contract:
  assumes "index_inv x" "good_env env" "good_domain d" "new_node env d x = (r, x1)"
  shows "index_inv x1 \<and> map_elements x1 = map_elements x \<and> index_map x1 = index_map x \<and>
    map_bucket wc_callbacks x1 = map_bucket wc_callbacks x \<and> domain_of x1 ` map_elements x = domain_of x ` map_elements x \<and>
    (case r of
       None \<Rightarrow> deadNodes x = [] \<and> allocBlock env DefaultAlloc = None
     | Some i \<Rightarrow> i \<notin> map_elements x1 \<and> i < nodeCount x1 \<and> i \<notin> set (deadNodes x1) \<and> node_holds (nodes x1 i) [] [] \<and>
         domain_of x1 i = d)"
proof -
  have inv: "index_inv x1 \<and> index_map x1 = index_map x \<and> domain_of x1 ` map_elements x = domain_of x ` map_elements x"
    if fresh: "i \<notin> map_elements x" and fields: "nodes x1 = (nodes x)(i := n)" "mapBuckets x1 = mapBuckets x"
      "numBuckets x1 = numBuckets x" "locks_missing x1 = locks_missing x" "nodeCount x \<le> nodeCount x1"
      "distinct (deadNodes x1)" "set (deadNodes x1) \<subseteq> set (deadNodes x)" for i n
  proof -
    have elements: "map_elements x1 = map_elements x"
      using fields by (simp add: map_elements_def)
    have domains: "domain_of x1 = (domain_of x)(i := nodeKey n)"
      using fields by (auto simp: domain_of_def fun_eq_iff)
    have "map_inv wc_callbacks (domain_of x1) x1 \<longleftrightarrow> map_inv wc_callbacks (domain_of x1) x"
      using fields by (simp add: map_inv_def map_bucket_def)
    also have "\<dots> \<longleftrightarrow> map_inv wc_callbacks (domain_of x) x"
      by (rule map_inv_keys) (use fresh domains in auto)
    finally have m: "map_inv wc_callbacks (domain_of x1) x1"
      using assms(1) by (simp add: index_inv_def)
    moreover have "inj_on (domain_of x1) (map_elements x) \<longleftrightarrow> inj_on (domain_of x) (map_elements x)"
      by (rule inj_on_cong) (use fresh domains in auto)
    moreover have "\<forall>j \<in> map_elements x. j < nodeCount x1" "\<forall>j \<in> set (deadNodes x1). j < nodeCount x1"
      using assms(1) fields(5,7) unfolding index_inv_def by (meson order_less_le_trans subsetD)+
    ultimately have i: "index_inv x1"
      using assms(1) m fields elements fresh unfolding index_inv_def by auto
    moreover have "index_map x1 = index_map x"
      using fresh domains fields elements by (intro index_map_cong i assms(1)) auto
    moreover have "domain_of x1 ` map_elements x = domain_of x ` map_elements x"
      by (rule image_cong) (use fresh domains in auto)
    ultimately show ?thesis
      by blast
  qed
  have good: "length d \<noteq> 0" "\<not> MAX_HOSTNAME < length d" "length d \<le> 255"
    using assms(3) by (auto simp: good_domain_def)
  show ?thesis
  proof (cases "deadNodes x")
    case Nil
    show ?thesis
    proof (cases "allocBlock env DefaultAlloc")
      case None
      then show ?thesis
        using Nil assms(1,4) good by (auto simp: new_node_def Create_node_def)
    next
      case (Some block)
      let ?n = "create_in d block"
      have x1: "r = Some (nodeCount x)" "x1 = set_node (nodeCount x) ?n (objectRefs x) x\<lparr>nodeCount := nodeCount x + 1\<rparr>"
        using Nil Some assms(4) good by (auto simp: new_node_def Create_node_def)
      have "node_holds ?n [] []" "nodeKey ?n = d"
        using create_holds [OF good(3), of block] Some assms(2) by (auto simp: good_env_def good_malloc_def)
      moreover have "nodeCount x \<notin> map_elements x"
        using assms(1) by (auto simp: index_inv_def)
      ultimately show ?thesis
        using inv [of "nodeCount x" ?n] assms(1) Nil by (auto simp: x1 set_node_def domain_of_def)
    qed
  next
    case (Cons i rest)
    let ?n = "create_in d (stale env i)"
    have x1: "r = Some i" "x1 = set_node i ?n (objectRefs x) (x\<lparr>deadNodes := rest\<rparr>)"
      using Cons assms(4) good by (auto simp: new_node_def Recycle_def Let_def)
    have "node_holds ?n [] []" "nodeKey ?n = d"
      using create_holds [OF good(3), of "stale env i"] assms(2) by (auto simp: good_env_def)
    moreover have "i \<notin> map_elements x" "i < nodeCount x" "i \<notin> set rest" "distinct rest"
      using assms(1) Cons by (auto simp: index_inv_def)
    ultimately show ?thesis
      using inv [of i ?n] Cons by (auto simp: x1 set_node_def domain_of_def)
  qed
qed

text \<open>\<open>node_ok\<close> after an operation on a node.\<close>

lemma node_okI: "node_holds n es fs \<Longrightarrow> good_domain (nodeKey n) \<Longrightarrow> node_ok n"
  by (auto simp: node_ok_def)

lemma map_of_snoc:
  assumes "k \<notin> fst ` set es" "k \<notin> fst ` set fs"
  shows "map_of ((es @ [(k, v)]) @ fs) = (map_of (es @ fs))(k \<mapsto> v)" "map_of (es @ (fs @ [(k, v)])) = (map_of (es @ fs))(k \<mapsto> v)"
proof -
  have "map_of es k = None" "map_of fs k = None"
    using assms by (simp_all add: map_of_eq_None_iff)
  then show "map_of ((es @ [(k, v)]) @ fs) = (map_of (es @ fs))(k \<mapsto> v)" "map_of (es @ (fs @ [(k, v)])) = (map_of (es @ fs))(k \<mapsto> v)"
    by (auto simp: fun_eq_iff map_add_def split: option.split)
qed

lemma entries_revalued:
  assumes "map_of (es @ fs) k \<noteq> None"
  shows "map_of (revalued k v es @ revalued k v fs) = (map_of (es @ fs))(k \<mapsto> v)"
proof -
  have "map_of (revalued k v xs) = (map_of xs)(k := (if map_of xs k = None then None else Some v))" for xs
    by (induction xs) (auto simp: revalued_def fun_eq_iff)
  then show ?thesis
    using assms by (auto simp: fun_eq_iff map_add_def split: option.splits)
qed

lemma node_insert_map:
  assumes "node_holds n es fs" "good_key k" "v \<noteq> 0" "good_malloc malloc"
    and "node_insert malloc (Some k) v update n r = (e, n1, r1)"
  shows "(\<exists>es fs. node_holds n1 es fs) \<and> nodeKey n1 = nodeKey n \<and>
    (if node_map n k \<noteq> None then
       if \<not> update then e = ESB_UNIQUENESS_VIOLATION \<and> node_map n1 = node_map n
       else if in_first n k then e = ESB_SUCCESS \<and> node_map n1 = (node_map n)(k \<mapsto> v)
       else e = UNDEFINED_BEHAVIOUR \<and> node_map n1 = node_map n
     else e = ESB_SUCCESS \<and> node_map n1 = (node_map n)(k \<mapsto> v) \<or> e = ESB_OUT_OF_MEMORY \<and> node_map n1 = node_map n)"
proof (cases "map_of (es @ fs) k")
  case None
  then have "k \<notin> fst ` set (es @ fs)"
    using map_of_eq_None_iff [of "es @ fs" k] by blast
  then have absent: "k \<notin> fst ` set es" "k \<notin> fst ` set fs"
    by auto
  consider (first) "e = ESB_SUCCESS" "node_holds n1 (es @ [(k, v)]) fs"
    | (second) "e = ESB_SUCCESS" "node_holds n1 es (fs @ [(k, v)])" | (failed) "e = ESB_OUT_OF_MEMORY" "node_holds n1 es fs"
    using node_insert_correct [OF assms] unfolding None by auto
  moreover have key: "nodeKey n1 = nodeKey n"
    using node_insert_correct [OF assms] unfolding None by auto
  ultimately show ?thesis
  proof cases
    case first
    then show ?thesis
      using map_of_snoc(1) [OF absent, of v] None key by (auto simp: node_map_holds [OF assms(1)] node_map_holds [OF first(2)] simp del: map_of_append)
  next
    case second
    then show ?thesis
      using map_of_snoc(2) [OF absent, of v] None key by (auto simp: node_map_holds [OF assms(1)] node_map_holds [OF second(2)] simp del: map_of_append)
  next
    case failed
    then show ?thesis
      using None key by (auto simp: node_map_holds [OF assms(1)] node_map_holds [OF failed(2)] simp del: map_of_append)
  qed
next
  case (Some w)
  show ?thesis
  proof (cases "update \<and> k \<in> fst ` set es")
    case True
    then have here: "e = ESB_SUCCESS" "node_holds n1 (revalued k v es) fs" "nodeKey n1 = nodeKey n"
      using node_insert_correct [OF assms] unfolding Some by (simp_all del: map_of_append)
    have "k \<notin> fst ` set fs"
      using node_holdsD(6) [OF assms(1)] True by blast
    then have "revalued k v fs = fs"
      by (induction fs) (auto simp: revalued_def)
    moreover have "map_of (es @ fs) k \<noteq> None"
      by (simp add: Some del: map_of_append)
    ultimately have "map_of (revalued k v es @ fs) = (map_of (es @ fs))(k \<mapsto> v)"
      using entries_revalued [of es fs k v] by (simp del: map_of_append)
    then show ?thesis
      using here True Some
      by (auto simp: node_map_holds [OF assms(1)] node_map_holds [OF here(2)] in_first_holds [OF assms(1)] simp del: map_of_append)
  next
    case False
    then have "n1 = n \<and> e = (if update then UNDEFINED_BEHAVIOUR else ESB_UNIQUENESS_VIOLATION)"
      using node_insert_correct [OF assms] unfolding Some by (auto split: if_splits)
    then show ?thesis
      using False assms(1) Some by (auto simp: node_map_holds [OF assms(1)] in_first_holds [OF assms(1)] simp del: map_of_append)
  qed
qed

subsection \<open>The operations on the map\<close>

lemma index_inv_node: "index_inv x \<Longrightarrow> i \<in> map_elements x \<Longrightarrow> node_ok (nodes x i)"
  by (simp add: index_inv_def)

lemma index_bucket:
  assumes "index_inv x"
  obtains b where "map_bucket wc_callbacks x d = Some b"
proof -
  have "numBuckets x \<noteq> 0"
    using assms by (auto simp: index_inv_def map_inv_def)
  from map_bucket_total [OF this, of wc_callbacks d] show thesis
    using that by (elim exE)
qed

lemma find_node_map:
  assumes "index_inv x" "good_domain d" "map_bucket wc_callbacks x d = Some b" "find_node d b x = (r, x1)"
  shows "index_inv x1" "index_map x1 = index_map x" "map_bucket wc_callbacks x1 = map_bucket wc_callbacks x"
    "r = None \<Longrightarrow> index_map x (d, k) = None \<and> (\<forall>i \<in> map_elements x1. domain_of x1 i \<noteq> d)"
    "r = Some i \<Longrightarrow> i \<in> map_elements x1 \<and> domain_of x1 i = d \<and> nodeKey (nodes x1 i) = d \<and>
      index_map x (d, k) = node_map (nodes x1 i) k"
proof -
  note spec = find_node_spec [OF assms]
  then show "index_inv x1" "map_bucket wc_callbacks x1 = map_bucket wc_callbacks x"
    by simp_all
  show "index_map x1 = index_map x"
    using spec assms(1) by (intro index_map_cong) (auto simp: domain_of_def)
  show "r = None \<Longrightarrow> index_map x (d, k) = None \<and> (\<forall>i \<in> map_elements x1. domain_of x1 i \<noteq> d)"
    using spec index_map_no_node [OF assms(1)] by (auto simp: domain_of_def)
  show "r = Some i \<Longrightarrow> i \<in> map_elements x1 \<and> domain_of x1 i = d \<and> nodeKey (nodes x1 i) = d \<and>
      index_map x (d, k) = node_map (nodes x1 i) k"
    using spec index_map_node [OF assms(1), of i d k] by (auto simp: domain_of_def)
qed

lemma index_find_correct:
  assumes "index_inv x" "good_domain d" "index_find (Some d) (Some k) x = (e, v, x1)"
  shows "index_inv x1 \<and> index_map x1 = index_map x \<and>
    (case index_map x (d, k) of None \<Rightarrow> e = ESB_CANNOT_FIND | Some w \<Rightarrow> e = ESB_SUCCESS \<and> v = w)"
proof -
  obtain b where b: "map_bucket wc_callbacks x d = Some b"
    using index_bucket [OF assms(1)] .
  obtain r y where r: "find_node d b x = (r, y)"
    by fastforce
  note found = find_node_map [OF assms(1,2) b r]
  have locks: "\<not> locks_missing x"
    using assms(1) by (simp add: index_inv_def)
  show ?thesis
  proof (cases r)
    case None
    then show ?thesis
      using found(1,2) found(4) [OF None, of k] assms(3) b r locks by (auto simp: index_find_def)
  next
    case (Some i)
    then obtain es fs where n: "node_holds (nodes y i) es fs"
      using index_inv_node [OF found(1), of i] found(5) [OF Some, of k] by (auto simp: node_ok_def)
    have "node_find (Some k) (nodes y i) =
        (case node_map (nodes y i) k of None \<Rightarrow> (ESB_CANNOT_FIND, 0) | Some v \<Rightarrow> (ESB_SUCCESS, v))"
      by (simp add: node_find_correct [OF n] node_map_holds [OF n])
    then show ?thesis
      using found(1,2) found(5) [OF Some, of k] assms(3) b r locks Some by (auto simp: index_find_def split: option.splits)
  qed
qed

text \<open>A node that is put into the map: its domain is new.\<close>

lemma insert_node_contract:
  assumes "index_inv y" "i < nodeCount y" "i \<notin> set (deadNodes y)" "i \<notin> map_elements y" "node_ok (nodes y i)"
    and "map_bucket wc_callbacks y (domain_of y i) = Some b" "\<forall>j \<in> map_elements y. domain_of y j \<noteq> domain_of y i"
  shows "\<exists>z. map_insert b i y = (ESB_SUCCESS, z) \<and> index_inv z \<and>
    index_map z = (\<lambda>(d, k). if d = domain_of y i then node_map (nodes y i) k else index_map y (d, k))"
proof -
  have "map_inv wc_callbacks (domain_of y) y"
    using assms(1) by (simp add: index_inv_def)
  from domains.insert_contract [OF this assms(4,6)] obtain z where
    z: "map_insert b i y = (ESB_SUCCESS, z)" "map_inv wc_callbacks (domain_of y) z" "map_elements z = insert i (map_elements y)"
    by blast
  have same: "nodes z = nodes y" "nodeCount z = nodeCount y" "deadNodes z = deadNodes y" "locks_missing z = locks_missing y"
      "domain_of z = domain_of y"
    using z(1) by (auto simp: map_insert_def split: option.splits)
  have inv: "index_inv z"
    using assms z(2,3) same unfolding index_inv_def by (auto simp: inj_on_insert)
  have "index_map z (d, k) = (if d = domain_of y i then node_map (nodes y i) k else index_map y (d, k))" for d k
  proof (cases "\<exists>j \<in> map_elements z. domain_of z j = d")
    case True
    then obtain j where j: "j \<in> map_elements z" "domain_of z j = d"
      by blast
    show ?thesis
    proof (cases "j = i")
      case True
      then show ?thesis
        using index_map_node [OF inv j] same j(2) by auto
    next
      case False
      then have "j \<in> map_elements y" "domain_of y j = d" "d \<noteq> domain_of y i"
        using j z(3) same assms(7) by auto
      then show ?thesis
        using index_map_node [OF inv j] index_map_node [OF assms(1), of j d k] same by simp
    qed
  next
    case False
    then have "d \<noteq> domain_of y i" "\<forall>j \<in> map_elements y. domain_of y j \<noteq> d"
      using z(3) same by auto
    then show ?thesis
      using False index_map_no_node [OF inv, of d k] index_map_no_node [OF assms(1), of d k] by simp
  qed
  then show ?thesis
    using z(1) inv by auto
qed

text \<open>Whether a pattern of a domain is in the first buffer of its node.\<close>

definition in_first_of :: "wildcard_index \<Rightarrow> cstr \<Rightarrow> u8 list \<Rightarrow> bool" where
  "in_first_of x d k \<longleftrightarrow> (\<exists>i \<in> map_elements x. domain_of x i = d \<and> in_first (nodes x i) k)"

lemma in_first_of_node:
  assumes "index_inv x" "i \<in> map_elements x" "domain_of x i = d"
  shows "in_first_of x d k = in_first (nodes x i) k"
  using assms by (auto simp: in_first_of_def index_inv_def inj_on_def)

lemma index_insert_correct:
  assumes "index_inv x" "good_env env" "good_domain d" "good_key k" "v \<noteq> 0"
    and "index_insert env (Some d) (Some k) v update x = (e, x1)"
  shows "index_inv x1 \<and>
    (if index_map x (d, k) \<noteq> None then
       if \<not> update then e = ESB_UNIQUENESS_VIOLATION \<and> index_map x1 = index_map x
       else if in_first_of x d k then e = ESB_SUCCESS \<and> index_map x1 = (index_map x)((d, k) \<mapsto> v)
       else e = UNDEFINED_BEHAVIOUR \<and> index_map x1 = index_map x
     else e = ESB_SUCCESS \<and> index_map x1 = (index_map x)((d, k) \<mapsto> v) \<or>
       e = ESB_OUT_OF_MEMORY \<and> index_map x1 = index_map x)"
proof -
  obtain b where b: "map_bucket wc_callbacks x d = Some b"
    using index_bucket [OF assms(1)] .
  obtain r y where r: "find_node d b x = (r, y)"
    by fastforce
  note found = find_node_map [OF assms(1,3) b r]
  have locks: "\<not> locks_missing x" and mem: "good_malloc (mallocExtra env)"
    using assms(1,2) by (simp_all add: index_inv_def good_env_def)
  show ?thesis
  proof (cases r)
    case (Some i)
    note here = found(5) [OF Some, of k]
    then obtain es fs where n: "node_holds (nodes y i) es fs"
      using index_inv_node [OF found(1), of i] by (auto simp: node_ok_def)
    obtain e1 n1 r1 where ins: "node_insert (mallocExtra env) (Some k) v update (nodes y i) (objectRefs y) = (e1, n1, r1)"
      by (cases "node_insert (mallocExtra env) (Some k) v update (nodes y i) (objectRefs y)")
    note node = node_insert_map [OF n assms(4,5) mem ins]
    have out: "e = e1" "x1 = set_node i n1 r1 y"
      using assms(6) b r locks Some ins by (auto simp: index_insert_def)
    have "node_ok n1" "nodeKey n1 = domain_of y i"
      using node here assms(3) by (auto simp: node_ok_def)
    note kept = set_node_contract [OF found(1) conjunct1 [OF here] this, of r1]
    have place: "in_first_of x d k = in_first (nodes y i) k"
      using find_node_spec [OF assms(1,3) b r] Some in_first_of_node [OF assms(1), of i d k] by auto
    have "domain_of y i = d"
      using here by simp
    then have "index_map x1 = (\<lambda>(d', k). if d' = d then node_map n1 k else index_map x (d', k))"
      unfolding out(2) kept(2) found(2) by simp
    moreover have "index_map x (d, k') = node_map (nodes y i) k'" for k'
      using found(5) [OF Some, of k'] by simp
    ultimately show ?thesis
      using kept(1) node out by (auto simp: fun_eq_iff place split: if_splits)
  next
    case None
    note here = found(4) [OF None, of k]
    obtain r1 y1 where new: "new_node env d y = (r1, y1)"
      by fastforce
    note fresh = new_node_contract [OF found(1) assms(2,3) new]
    show ?thesis
    proof (cases r1)
      case None
      then show ?thesis
        using assms(6) b r locks \<open>r = None\<close> new fresh found(2) here by (auto simp: index_insert_def)
    next
      case (Some i)
      have i: "i \<notin> map_elements y1" "i < nodeCount y1" "i \<notin> set (deadNodes y1)" "node_holds (nodes y1 i) [] []"
          "domain_of y1 i = d" "index_inv y1" "index_map y1 = index_map x" "map_bucket wc_callbacks y1 = map_bucket wc_callbacks y"
          "map_elements y1 = map_elements y" "domain_of y1 ` map_elements y = domain_of y ` map_elements y"
        using fresh Some found(2) by auto
      obtain e1 n1 s1 where ins: "node_insert (mallocExtra env) (Some k) v update (nodes y1 i) (objectRefs y1) = (e1, n1, s1)"
        by (cases "node_insert (mallocExtra env) (Some k) v update (nodes y1 i) (objectRefs y1)")
      have empty: "node_map (nodes y1 i) = Map.empty"
        by (simp add: node_map_holds [OF i(4)])
      note node = node_insert_map [OF i(4) assms(4,5) mem ins, unfolded empty]
      have key: "nodeKey n1 = d"
        using node i(5) by (simp add: domain_of_def)
      define y2 where "y2 = set_node i n1 s1 y1"
      have elements: "map_elements y2 = map_elements y1" and domains: "domain_of y2 = domain_of y1"
        using key i(5) by (auto simp: y2_def fun_eq_iff)
      have inv2: "index_inv y2"
        using i(1,6) domains by (auto simp: index_inv_def y2_def)
      have map2: "index_map y2 = index_map x"
        using index_map_cong [OF inv2 i(6)] elements domains i(1,7) by (auto simp: y2_def)
      have fields2: "i < nodeCount y2" "i \<notin> set (deadNodes y2)" "i \<notin> map_elements y2"
        using i elements by (simp_all add: y2_def)
      have run: "(if e1 \<noteq> ESB_SUCCESS then (e1, wc_cleanup i y2)
          else case map_insert b i y2 of (e1, x4) \<Rightarrow> if e1 \<noteq> ESB_SUCCESS then (e1, wc_cleanup i x4) else (ESB_SUCCESS, x4)) = (e, x1)"
        using assms(6) b r locks \<open>r = None\<close> new Some ins unfolding y2_def by (simp add: index_insert_def Let_def split del: if_split)
      show ?thesis
      proof (cases "e1 = ESB_SUCCESS")
        case False
        then have "e = ESB_OUT_OF_MEMORY" "x1 = wc_cleanup i y2"
          using run node by auto
        then show ?thesis
          using cleanup_contract [OF inv2 fields2(3,1,2)] map2 here by simp
      next
        case True
        have node2: "node_ok (nodes y2 i)" "domain_of y2 i = d"
          using node key assms(3) by (auto simp: node_ok_def y2_def)
        have bucket: "map_bucket wc_callbacks y2 (domain_of y2 i) = Some b"
          using b i(8) found(3) node2 by (simp add: y2_def)
        have other: "\<forall>j \<in> map_elements y2. domain_of y2 j \<noteq> domain_of y2 i"
          using here i(9,10) elements domains node2 by (metis imageE imageI)
        obtain z where z: "map_insert b i y2 = (ESB_SUCCESS, z)" "index_inv z"
            "index_map z = (\<lambda>(d', k'). if d' = d then node_map (nodes y2 i) k' else index_map y2 (d', k'))"
          using insert_node_contract [OF inv2 fields2 node2(1) bucket other] node2(2) by auto
        have out: "e = ESB_SUCCESS" "x1 = z"
          using run True z(1) by simp_all
        have "index_map x (d, k') = None" for k'
          using found(4) [OF \<open>r = None\<close>, of k'] by simp
        then have "index_map z = (index_map x)((d, k) \<mapsto> v)"
          using node True map2 z(3) by (auto simp: fun_eq_iff y2_def)
        then show ?thesis
          using z(2) out here by simp
      qed
    qed
  qed
qed

text \<open>Removing and changing an entry of a node.\<close>

lemma entries_without: "map_of (without k es @ without k fs) = (map_of (es @ fs))(k := None)"
  by (auto simp: map_of_without fun_eq_iff map_add_def split: option.split)

lemma node_remove_map:
  assumes "node_holds n es fs" "k \<noteq> []" "node_remove (Some k) n r = (e, n1, r1)"
  shows "(\<exists>es fs. node_holds n1 es fs) \<and> nodeKey n1 = nodeKey n \<and> node_map n1 = (node_map n)(k := None) \<and>
    e = (if node_map n k = None then ESB_CANNOT_FIND else ESB_SUCCESS)"
proof (cases "map_of (es @ fs) k")
  case None
  then show ?thesis
    using node_remove_correct [OF assms] assms(1)
    by (auto simp: node_map_holds [OF assms(1)] fun_upd_idem simp del: map_of_append)
next
  case (Some v)
  then have here: "e = ESB_SUCCESS" "node_holds n1 (without k es) (without k fs)" "nodeKey n1 = nodeKey n"
    using node_remove_correct [OF assms] by (simp_all del: map_of_append)
  then show ?thesis
    using Some entries_without [of k es fs]
    by (auto simp: node_map_holds [OF assms(1)] node_map_holds [OF here(2)] simp del: map_of_append)
qed

lemma node_update_map:
  assumes "node_holds n es fs" "good_key k" "v \<noteq> 0" "node_update (Some k) v n r = (e, old, n1, r1)"
  shows "(\<exists>es fs. node_holds n1 es fs) \<and> nodeKey n1 = nodeKey n \<and>
    (case node_map n k of
       None \<Rightarrow> e = ESB_CANNOT_FIND \<and> node_map n1 = node_map n
     | Some w \<Rightarrow> e = ESB_SUCCESS \<and> old = w \<and> node_map n1 = (node_map n)(k \<mapsto> v))"
proof (cases "map_of (es @ fs) k")
  case None
  then show ?thesis
    using node_update_correct [OF assms] assms(1)
    by (auto simp: node_map_holds [OF assms(1)] simp del: map_of_append)
next
  case (Some w)
  then have here: "e = ESB_SUCCESS" "old = w" "node_holds n1 (revalued k v es) (revalued k v fs)" "nodeKey n1 = nodeKey n"
    using node_update_correct [OF assms] by (simp_all del: map_of_append)
  then show ?thesis
    using Some entries_revalued [of es fs k v]
    by (auto simp: node_map_holds [OF assms(1)] node_map_holds [OF here(3)] simp del: map_of_append)
qed

lemma index_update_correct:
  assumes "index_inv x" "good_domain d" "good_key k" "v \<noteq> 0"
    and "index_update (Some d) (Some k) v x = (e, old, x1)"
  shows "index_inv x1 \<and>
    (case index_map x (d, k) of
       None \<Rightarrow> e = ESB_CANNOT_FIND \<and> index_map x1 = index_map x
     | Some w \<Rightarrow> e = ESB_SUCCESS \<and> old = w \<and> index_map x1 = (index_map x)((d, k) \<mapsto> v))"
proof -
  obtain b where b: "map_bucket wc_callbacks x d = Some b"
    using index_bucket [OF assms(1)] .
  obtain r y where r: "find_node d b x = (r, y)"
    by fastforce
  note found = find_node_map [OF assms(1,2) b r]
  have locks: "\<not> locks_missing x"
    using assms(1) by (simp add: index_inv_def)
  show ?thesis
  proof (cases r)
    case None
    then show ?thesis
      using found(1,2) found(4) [OF None, of k] assms(5) b r locks by (auto simp: index_update_def)
  next
    case (Some i)
    note here = found(5) [OF Some, of k]
    then obtain es fs where n: "node_holds (nodes y i) es fs"
      using index_inv_node [OF found(1), of i] by (auto simp: node_ok_def)
    obtain e1 old1 n1 r1 where upd: "node_update (Some k) v (nodes y i) (objectRefs y) = (e1, old1, n1, r1)"
      by (cases "node_update (Some k) v (nodes y i) (objectRefs y)")
    note node = node_update_map [OF n assms(3,4) upd]
    have out: "e = e1" "old = old1" "x1 = set_node i n1 r1 y"
      using assms(5) b r locks Some upd by (auto simp: index_update_def)
    have "node_ok n1" "nodeKey n1 = domain_of y i"
      using node here assms(2) by (auto simp: node_ok_def)
    note kept = set_node_contract [OF found(1) conjunct1 [OF here] this, of r1]
    have "domain_of y i = d"
      using here by simp
    then have "index_map x1 = (\<lambda>(d', k). if d' = d then node_map n1 k else index_map x (d', k))"
      unfolding out(3) kept(2) found(2) by simp
    moreover have "index_map x (d, k') = node_map (nodes y i) k'" for k'
      using found(5) [OF Some, of k'] by simp
    ultimately have "index_map x1 = (if node_map (nodes y i) k = None then index_map x else (index_map x)((d, k) \<mapsto> v))"
      using node by (cases "node_map (nodes y i) k") (auto simp: fun_eq_iff)
    then show ?thesis
      using kept(1) node out here by (auto split: option.splits)
  qed
qed

text \<open>A node that is taken out of the map: its patterns are gone.\<close>

lemma remove_node_contract:
  assumes "index_inv y" "i \<in> map_elements y" "map_bucket wc_callbacks y (domain_of y i) = Some b" "node_map (nodes y i) = Map.empty"
  shows "index_inv (wc_cleanup i (map_remove_element b i y))" "index_map (wc_cleanup i (map_remove_element b i y)) = index_map y"
proof -
  let ?z = "map_remove_element b i y"
  have m: "map_inv wc_callbacks (domain_of y) y"
    using assms(1) by (simp add: index_inv_def)
  note gone = remove_element_contract [OF m assms(2,3)]
  have same: "nodes ?z = nodes y" "nodeCount ?z = nodeCount y" "deadNodes ?z = deadNodes y" "locks_missing ?z = locks_missing y"
      "domain_of ?z = domain_of y"
    by (simp_all add: map_remove_element_def split: option.split)
  have inv: "index_inv ?z"
    using assms(1) gone same unfolding index_inv_def by (auto intro: inj_on_subset)
  have dead: "i \<notin> map_elements ?z" "i < nodeCount ?z" "i \<notin> set (deadNodes ?z)"
    using assms(1,2) gone(2) same by (auto simp: index_inv_def)
  have unique: "j = i" if "j \<in> map_elements y" "domain_of y j = domain_of y i" for j
    using assms(1,2) that by (auto simp: index_inv_def inj_on_def)
  have "index_map ?z (d, k) = index_map y (d, k)" for d k
  proof (cases "\<exists>j \<in> map_elements ?z. domain_of ?z j = d")
    case True
    then obtain j where j: "j \<in> map_elements ?z" "domain_of ?z j = d"
      by blast
    then show ?thesis
      using index_map_node [OF inv j] index_map_node [OF assms(1), of j d k] gone(2) same by auto
  next
    case False
    then have none: "index_map ?z (d, k) = None"
      using index_map_no_node [OF inv] by blast
    show ?thesis
    proof (cases "d = domain_of y i")
      case True
      then show ?thesis
        using none index_map_node [OF assms(1,2), of d k] assms(4) by simp
    next
      case other: False
      then have "\<forall>j \<in> map_elements y. domain_of y j \<noteq> d"
        using False gone(2) same by auto
      then show ?thesis
        using none index_map_no_node [OF assms(1)] by simp
    qed
  qed
  then have "index_map ?z = index_map y"
    by (auto simp: fun_eq_iff)
  then show "index_inv (wc_cleanup i ?z)" "index_map (wc_cleanup i ?z) = index_map y"
    using cleanup_contract [OF inv dead] by simp_all
qed

lemma node_empty_map: "node_holds n es fs \<Longrightarrow> node_empty n \<Longrightarrow> node_map n = Map.empty"
  by (simp add: node_map_holds empty_iff)

lemma index_remove_correct:
  assumes "index_inv x" "good_domain d" "k \<noteq> []" "index_remove (Some d) (Some k) x = (e, x1)"
  shows "index_inv x1 \<and> index_map x1 = (index_map x)((d, k) := None) \<and>
    e = (if index_map x (d, k) = None then ESB_CANNOT_FIND else ESB_SUCCESS)"
proof -
  obtain b where b: "map_bucket wc_callbacks x d = Some b"
    using index_bucket [OF assms(1)] .
  obtain r y where r: "find_node d b x = (r, y)"
    by fastforce
  note found = find_node_map [OF assms(1,2) b r]
  have locks: "\<not> locks_missing x"
    using assms(1) by (simp add: index_inv_def)
  show ?thesis
  proof (cases r)
    case None
    then show ?thesis
      using found(1,2) found(4) [OF None, of k] assms(4) b r locks by (auto simp: index_remove_def fun_upd_idem)
  next
    case (Some i)
    note here = found(5) [OF Some, of k]
    then obtain es fs where n: "node_holds (nodes y i) es fs"
      using index_inv_node [OF found(1), of i] by (auto simp: node_ok_def)
    obtain e1 n1 r1 where rem: "node_remove (Some k) (nodes y i) (objectRefs y) = (e1, n1, r1)"
      by (cases "node_remove (Some k) (nodes y i) (objectRefs y)")
    note node = node_remove_map [OF n assms(3) rem]
    define y2 where "y2 = set_node i n1 r1 y"
    have out: "e = e1" "x1 = (if e1 = ESB_SUCCESS \<and> node_empty n1 then wc_cleanup i (map_remove_element b i y2) else y2)"
      using assms(4) b r locks Some rem by (auto simp: index_remove_def Let_def y2_def split: if_splits)
    have ok: "node_ok n1" "nodeKey n1 = domain_of y i"
      using node here assms(2) by (auto simp: node_ok_def)
    note kept = set_node_contract [OF found(1) conjunct1 [OF here] ok, of r1, folded y2_def]
    have in2: "i \<in> map_elements y2" "nodes y2 i = n1" "domain_of y2 i = d" "map_bucket wc_callbacks y2 d = Some b"
      using here ok b found(3) by (simp_all add: y2_def)
    have "index_inv x1 \<and> index_map x1 = index_map y2"
    proof (cases "e1 = ESB_SUCCESS \<and> node_empty n1")
      case True
      then have "node_map (nodes y2 i) = Map.empty"
        using node in2 node_empty_map by auto
      then show ?thesis
        using remove_node_contract [OF kept(1) in2(1), of b] in2 out True by simp
    next
      case False
      then show ?thesis
        using kept(1) out by auto
    qed
    moreover have "domain_of y i = d"
      using here by simp
    then have "index_map y2 = (\<lambda>(d', k). if d' = d then node_map n1 k else index_map x (d', k))"
      unfolding kept(2) found(2) by simp
    moreover have "index_map x (d, k') = node_map (nodes y i) k'" for k'
      using found(5) [OF Some, of k'] by simp
    ultimately show ?thesis
      using node out(1) by (auto simp: fun_eq_iff)
  qed
qed

text \<open>A new index, and one that is cleared, hold nothing.\<close>

lemma new_index_empty:
  assumes "n \<noteq> 0"
  shows "index_inv (new_wildcard_index n locks True True)" "index_map (new_wildcard_index n locks True True) = Map.empty"
proof -
  let ?x = "new_wildcard_index n locks True True"
  have "mapBuckets ?x = Some (replicate (unat n) [])" "numBuckets ?x = n" "deadNodes ?x = []" "\<not> locks_missing ?x"
    using assms
    by (auto simp: new_wildcard_index_def new_shared_map_def new_embedded_map_def wildcard_index.defs shared_map.defs
        embedded_map.defs locks_missing_def)
  moreover from this have "map_elements ?x = {}"
    by (auto simp: map_elements_def)
  ultimately show inv: "index_inv ?x"
    using assms by (auto simp: index_inv_def map_inv_def)
  show "index_map ?x = Map.empty"
    using index_map_no_node [OF inv] \<open>map_elements ?x = {}\<close> by (auto simp: fun_eq_iff)
qed

lemma distinct_concat_buckets:
  assumes "\<forall>i < length bs. distinct (bs ! i)" "\<forall>i < length bs. \<forall>j < length bs. i \<noteq> j \<longrightarrow> set (bs ! i) \<inter> set (bs ! j) = {}"
  shows "distinct (concat bs)"
  using assms
proof (induction bs)
  case (Cons b bs)
  have "distinct (concat bs)"
  proof (rule Cons.IH)
    show "\<forall>i < length bs. distinct (bs ! i)"
      using Cons.prems(1) by (metis Suc_less_eq length_Cons nth_Cons_Suc)
    show "\<forall>i < length bs. \<forall>j < length bs. i \<noteq> j \<longrightarrow> set (bs ! i) \<inter> set (bs ! j) = {}"
      using Cons.prems(2) by (metis Suc_less_eq length_Cons nat.inject nth_Cons_Suc)
  qed
  moreover have "distinct b"
    using Cons.prems(1) by force
  moreover have "set b \<inter> set (bs ! i) = {}" if "i < length bs" for i
    using Cons.prems(2) that by (metis Suc_less_eq length_Cons nat.distinct(1) nth_Cons_0 nth_Cons_Suc zero_less_Suc)
  then have "set b \<inter> set (concat bs) = {}"
    unfolding disjoint_iff set_concat by (metis UN_E in_set_conv_nth)
  ultimately show ?case
    by simp
qed simp

lemma cleanup_all:
  assumes "index_inv x" "map_elements x = {}" "distinct is" "\<forall>i \<in> set is. i < nodeCount x \<and> i \<notin> set (deadNodes x)"
  shows "index_inv (fold wc_cleanup is x) \<and> map_elements (fold wc_cleanup is x) = {}"
  using assms
proof (induction "is" arbitrary: x)
  case (Cons i rest)
  have fields: "map_elements (wc_cleanup i x) = map_elements x" "nodeCount (wc_cleanup i x) = nodeCount x"
      "deadNodes (wc_cleanup i x) = i # deadNodes x"
    by (simp_all add: wc_cleanup_def split: prod.split)
  show ?case
    using Cons.IH [of "wc_cleanup i x"] cleanup_contract(1) [of x i] Cons.prems fields by auto
qed simp

lemma index_clear_correct:
  assumes "index_inv x" "index_clear x = (e, x1)"
  shows "e = ESB_SUCCESS \<and> index_inv x1 \<and> index_map x1 = Map.empty"
proof -
  obtain bs where bs: "mapBuckets x = Some bs" "numBuckets x \<noteq> 0" "length bs = unat (numBuckets x)"
      "\<forall>i < length bs. distinct (bs ! i) \<and> (\<forall>e \<in> set (bs ! i). map_bucket wc_callbacks x (domain_of x e) = Some i)"
    using assms(1) by (auto simp: index_inv_def map_inv_def)
  let ?y = "x\<lparr>mapBuckets := Some (map (\<lambda>_. []) bs)\<rparr>"
  have run: "e = ESB_SUCCESS" "x1 = fold wc_cleanup (concat bs) ?y"
    using assms(2) bs(1) by (simp_all add: index_clear_def map_clear_def)
  have none: "map_elements ?y = {}"
    by (auto simp: map_elements_def)
  have all: "set (concat bs) = map_elements x"
    using bs(1) by (simp add: map_elements_def)
  have "locks_missing ?y = locks_missing x"
    by (simp add: locks_missing_def)
  then have inv: "index_inv ?y"
    using assms(1) bs none by (auto simp: index_inv_def map_inv_def)
  have "distinct (concat bs)"
  proof (rule distinct_concat_buckets)
    show "\<forall>i < length bs. distinct (bs ! i)"
      using bs(4) by blast
    show "\<forall>i < length bs. \<forall>j < length bs. i \<noteq> j \<longrightarrow> set (bs ! i) \<inter> set (bs ! j) = {}"
      using bs(4) by (metis disjoint_iff option.inject)
  qed
  moreover have "\<forall>i \<in> set (concat bs). i < nodeCount ?y \<and> i \<notin> set (deadNodes ?y)"
    using assms(1) all by (auto simp: index_inv_def)
  ultimately have "index_inv x1 \<and> map_elements x1 = {}"
    using cleanup_all [OF inv none, of "concat bs"] run(2) by blast
  then show ?thesis
    using run(1) index_map_no_node [of x1] by (auto simp: fun_eq_iff)
qed

end
