(* ===== verification/WildcardProperties.thy ===== *)
theory WildcardProperties
  imports WildcardMap
begin

text \<open>The properties of the wildcard matcher and the wildcard index, with their witnesses.\<close>

section \<open>Runs of calls\<close>

datatype index_call =
    Call_insert cstr "u8 list" u64 bool
  | Call_update cstr "u8 list" u64
  | Call_remove cstr "u8 list"
  | Call_find cstr "u8 list"
  | Call_clear

definition index_call :: "index_env \<Rightarrow> index_call \<Rightarrow> wildcard_index \<Rightarrow> (error \<times> u64) \<times> wildcard_index" where
  "index_call env c x =
     (case c of
        Call_insert d k v update \<Rightarrow> (case index_insert env (Some d) (Some k) v update x of (e, y) \<Rightarrow> ((e, 0), y))
      | Call_update d k v \<Rightarrow> (case index_update (Some d) (Some k) v x of (e, old, y) \<Rightarrow> ((e, old), y))
      | Call_remove d k \<Rightarrow> (case index_remove (Some d) (Some k) x of (e, y) \<Rightarrow> ((e, 0), y))
      | Call_find d k \<Rightarrow> (case index_find (Some d) (Some k) x of (e, v, y) \<Rightarrow> ((e, v), y))
      | Call_clear \<Rightarrow> (case index_clear x of (e, y) \<Rightarrow> ((e, 0), y)))"

text \<open>A run ends where the behaviour of the code is undefined.\<close>

fun index_calls :: "index_env \<Rightarrow> index_call list \<Rightarrow> wildcard_index \<Rightarrow> (error \<times> u64) list \<times> wildcard_index" where
  "index_calls env [] x = ([], x)"
| "index_calls env (c # cs) x =
     (case index_call env c x of (a, y) \<Rightarrow>
        if fst a = UNDEFINED_BEHAVIOUR then ([a], y) else (case index_calls env cs y of (as, z) \<Rightarrow> (a # as, z)))"

fun good_call :: "index_call \<Rightarrow> bool" where
  "good_call (Call_insert d k v update) \<longleftrightarrow> good_domain d \<and> good_key k \<and> v \<noteq> 0"
| "good_call (Call_update d k v) \<longleftrightarrow> good_domain d \<and> good_key k \<and> v \<noteq> 0"
| "good_call (Call_remove d k) \<longleftrightarrow> good_domain d \<and> good_key k"
| "good_call (Call_find d k) \<longleftrightarrow> good_domain d \<and> good_key k"
| "good_call Call_clear \<longleftrightarrow> True"

text \<open>
  What a map answers: None if the answer is none of a map, otherwise the map after the call. An insertion may
  also find no memory, and one that replaces a value may be undefined.
\<close>

type_synonym domain_map = "cstr \<times> u8 list \<rightharpoonup> u64"

fun map_call :: "index_call \<Rightarrow> error \<times> u64 \<Rightarrow> domain_map \<Rightarrow> domain_map option" where
  "map_call (Call_insert d k v update) (e, _) m =
     (if m (d, k) \<noteq> None then
        (if \<not> update then (if e = ESB_UNIQUENESS_VIOLATION then Some m else None)
         else if e = ESB_SUCCESS then Some (m((d, k) \<mapsto> v))
         else if e = UNDEFINED_BEHAVIOUR then Some m else None)
      else if e = ESB_SUCCESS then Some (m((d, k) \<mapsto> v))
      else if e = ESB_OUT_OF_MEMORY then Some m else None)"
| "map_call (Call_update d k v) (e, old) m =
     (case m (d, k) of
        None \<Rightarrow> (if e = ESB_CANNOT_FIND then Some m else None)
      | Some w \<Rightarrow> (if e = ESB_SUCCESS \<and> old = w then Some (m((d, k) \<mapsto> v)) else None))"
| "map_call (Call_remove d k) (e, _) m =
     (if e = (if m (d, k) = None then ESB_CANNOT_FIND else ESB_SUCCESS) then Some (m((d, k) := None)) else None)"
| "map_call (Call_find d k) (e, v) m =
     (case m (d, k) of
        None \<Rightarrow> (if e = ESB_CANNOT_FIND then Some m else None)
      | Some w \<Rightarrow> (if e = ESB_SUCCESS \<and> v = w then Some m else None))"
| "map_call Call_clear (e, _) m = (if e = ESB_SUCCESS then Some Map.empty else None)"

fun map_calls :: "index_call list \<Rightarrow> (error \<times> u64) list \<Rightarrow> domain_map \<Rightarrow> domain_map option" where
  "map_calls (c # cs) (a # as) m =
     (case map_call c a m of
        None \<Rightarrow> None
      | Some m1 \<Rightarrow>
          if fst a = UNDEFINED_BEHAVIOUR then (if as = [] then Some m1 else None) else map_calls cs as m1)"
| "map_calls [] [] m = Some m"
| "map_calls _ _ m = None"

lemma index_call_refines:
  assumes "index_inv x" "good_env env" "good_call c" "index_call env c x = (a, y)"
  shows "index_inv y" "map_call c a (index_map x) = Some (index_map y)"
proof -
  have "index_inv y \<and> map_call c a (index_map x) = Some (index_map y)"
  proof (cases c)
    case (Call_insert d k v update)
    then obtain e where r: "index_insert env (Some d) (Some k) v update x = (e, y)" "a = (e, 0)"
      using assms(4) by (auto simp: index_call_def split: prod.splits)
    show ?thesis
      using index_insert_correct [OF assms(1,2) _ _ _ r(1)] assms(3) Call_insert r(2) by (auto split: if_splits)
  next
    case (Call_update d k v)
    then obtain e old where r: "index_update (Some d) (Some k) v x = (e, old, y)" "a = (e, old)"
      using assms(4) by (auto simp: index_call_def split: prod.splits)
    show ?thesis
      using index_update_correct [OF assms(1) _ _ _ r(1)] assms(3) Call_update r(2) by (auto split: option.splits)
  next
    case (Call_remove d k)
    then obtain e where r: "index_remove (Some d) (Some k) x = (e, y)" "a = (e, 0)"
      using assms(4) by (auto simp: index_call_def split: prod.splits)
    have "k \<noteq> []"
      using assms(3) Call_remove by (auto simp: good_key_def)
    then show ?thesis
      using index_remove_correct [OF assms(1) _ _ r(1)] assms(3) Call_remove r(2) by auto
  next
    case (Call_find d k)
    then obtain e v where r: "index_find (Some d) (Some k) x = (e, v, y)" "a = (e, v)"
      using assms(4) by (auto simp: index_call_def split: prod.splits)
    show ?thesis
      using index_find_correct [OF assms(1) _ r(1)] assms(3) Call_find r(2) by (auto split: option.splits)
  next
    case Call_clear
    then obtain e where r: "index_clear x = (e, y)" "a = (e, 0)"
      using assms(4) by (auto simp: index_call_def split: prod.splits)
    show ?thesis
      using index_clear_correct [OF assms(1) r(1)] Call_clear r(2) by auto
  qed
  then show "index_inv y" "map_call c a (index_map x) = Some (index_map y)"
    by simp_all
qed

lemma index_calls_refine:
  assumes "index_inv x" "good_env env" "\<forall>c \<in> set cs. good_call c" "index_calls env cs x = (as, y)"
  shows "index_inv y \<and> map_calls cs as (index_map x) = Some (index_map y)"
  using assms
proof (induction cs arbitrary: x as)
  case (Cons c cs)
  obtain a x1 where a: "index_call env c x = (a, x1)"
    by fastforce
  moreover obtain bs z where bs: "index_calls env cs x1 = (bs, z)"
    by fastforce
  moreover note index_call_refines [OF Cons.prems(1,2) _ a]
  ultimately show ?case
    using Cons.IH [of x1 bs] Cons.prems by (auto split: if_splits)
qed simp

text \<open>C33. A wildcard index is a map from domain and pattern to a context: after any sequence of insertions,
  with and without replacement, changes, removals, searches and clears from a new index, every answer was
  the one of a map (insertion of a present pattern without replacement, and removal or change of an absent
  one, are refused; an insertion may find no memory and then changes nothing), the index stands for the map
  those answers leave, and its invariant holds. The run ends early where the code's behaviour is undefined,
  which only an insertion that replaces the value of a present pattern can be (C37). Domains and patterns
  have 1 to 255 octets, no value is NULL, and \<open>malloc\<close> gives what is asked for or nothing.\<close>

theorem index_refines_map:
  assumes "n \<noteq> 0" "good_env env" "\<forall>c \<in> set cs. good_call c"
    and "index_calls env cs (new_wildcard_index n locks True True) = (as, y)"
  shows "map_calls cs as Map.empty = Some (index_map y) \<and> index_inv y"
  using index_calls_refine [OF new_index_empty(1) [OF assms(1)] assms(2-4)] new_index_empty(2) [OF assms(1)] by simp

definition zero_env :: index_env where
  "zero_env = \<lparr>allocBlock = \<lambda>n. Some (replicate n 0), mallocExtra = \<lambda>n. Some (replicate n 0), stale = \<lambda>_. replicate DefaultAlloc 0\<rparr>"

definition some_calls :: "index_call list" where
  "some_calls =
     (let com = [99, 111, 109]; w = [ASTERISK, 46, 97] in
      [Call_insert com w 16 False, Call_insert com w 18 False, Call_insert com w 17 True, Call_update com w 19, Call_find com w,
       Call_remove com w, Call_find com w, Call_insert com w 20 True, Call_clear])"

lemma zero_env: "good_env zero_env"
  by (simp add: good_env_def good_malloc_def zero_env_def)

theorem index_refines_map_witness:
  "fst (index_calls zero_env some_calls (new_wildcard_index 2 2 True True)) =
     [(ESB_SUCCESS, 0), (ESB_UNIQUENESS_VIOLATION, 0), (ESB_SUCCESS, 0), (ESB_SUCCESS, 17), (ESB_SUCCESS, 19), (ESB_SUCCESS, 0),
      (ESB_CANNOT_FIND, 0), (ESB_SUCCESS, 0), (ESB_SUCCESS, 0)] \<and>
   map_calls some_calls (fst (index_calls zero_env some_calls (new_wildcard_index 2 2 True True))) Map.empty =
     Some (index_map (snd (index_calls zero_env some_calls (new_wildcard_index 2 2 True True))))"
proof -
  have calls: "\<forall>c \<in> set some_calls. good_call c"
    by (simp add: some_calls_def Let_def good_domain_def good_key_def)
  have answers: "fst (index_calls zero_env some_calls (new_wildcard_index 2 2 True True)) =
      [(ESB_SUCCESS, 0), (ESB_UNIQUENESS_VIOLATION, 0), (ESB_SUCCESS, 0), (ESB_SUCCESS, 17), (ESB_SUCCESS, 19), (ESB_SUCCESS, 0),
       (ESB_CANNOT_FIND, 0), (ESB_SUCCESS, 0), (ESB_SUCCESS, 0)]"
    by code_simp
  show ?thesis
    using answers index_refines_map [OF _ zero_env calls prod.collapse [symmetric], of 2 2] by simp
qed

section \<open>Matching\<close>

text \<open>
  The patterns of a domain have at most one wildcard, and no value begins with the octet of the wildcard:
  the values are addresses of objects, which are aligned to 8 octets, and the octet is 42.
\<close>

definition matchable :: "wildcard_index \<Rightarrow> cstr \<Rightarrow> bool" where
  "matchable x d \<longleftrightarrow>
     (\<forall>k v. index_map x (d, k) = Some v \<longrightarrow> one_wildcard k \<and> hd (pointer_octets v) \<noteq> ASTERISK)"

text \<open>
  The patterns that \<open>match\<close> reaches: those of a domain, unless the first buffer of its node is empty (when
  removals have emptied it while the second holds patterns).
\<close>

definition first_empty :: "wildcard_index \<Rightarrow> cstr \<Rightarrow> bool" where
  "first_empty x d \<longleftrightarrow> (\<exists>i \<in> map_elements x. domain_of x i = d \<and> wildcards (nodes x i) ! 0 = 0)"

definition reached :: "wildcard_index \<Rightarrow> cstr \<Rightarrow> u8 list \<Rightarrow> u64 option" where
  "reached x d k = (if first_empty x d then None else index_map x (d, k))"

text \<open>The answer of a match against a map of patterns: a value of a pattern that no other pattern beats.\<close>

definition most_specific :: "(u8 list \<rightharpoonup> u64) \<Rightarrow> u8 list \<Rightarrow> error \<Rightarrow> u64 \<Rightarrow> bool" where
  "most_specific m host e v \<longleftrightarrow>
     (e = ESB_CANNOT_FIND \<and> (\<forall>k u. m k = Some u \<longrightarrow> pattern_value k host < 0)) \<or>
     (e = ESB_SUCCESS \<and>
       (\<exists>k. m k = Some v \<and> 0 \<le> pattern_value k host \<and>
         (\<forall>k' u. m k' = Some u \<longrightarrow> 0 \<le> pattern_value k' host \<longrightarrow> pattern_value k host \<le> pattern_value k' host)))"

lemma index_match_run:
  assumes "index_inv x" "good_domain d"
  obtains (absent) y where "index_match (Some d) (Some host) n x = Some (ESB_CANNOT_FIND, 0, y)" "index_inv y" "index_map y = index_map x"
      "\<And>k. index_map x (d, k) = None"
  | (present) y i where "index_match (Some d) (Some host) n x =
        map_option (\<lambda>(e, v). (e, v, y)) (match_loop (nodes x i) host n node_first (- 1) node_first)"
      "index_inv y" "index_map y = index_map x" "i \<in> map_elements x" "domain_of x i = d" "\<And>k. index_map x (d, k) = node_map (nodes x i) k"
proof -
  obtain b where b: "map_bucket wc_callbacks x d = Some b"
    using index_bucket [OF assms(1)] .
  obtain r y where r: "find_node d b x = (r, y)"
    by fastforce
  note found = find_node_map [OF assms b r]
  note spec = find_node_spec [OF assms b r]
  have locks: "\<not> locks_missing x"
    using assms(1) by (simp add: index_inv_def)
  show thesis
  proof (cases r)
    case None
    have "index_map x (d, k) = None" for k
      using found(4) [OF None, of k] by simp
    moreover have "index_match (Some d) (Some host) n x = Some (ESB_CANNOT_FIND, 0, y)"
      using b r locks None by (simp add: index_match_def)
    ultimately show thesis
      using absent found(1,2) by blast
  next
    case (Some i)
    have "i \<in> map_elements x" "domain_of x i = d" "nodes y = nodes x"
      using spec Some by auto
    moreover from this have "index_map x (d, k) = node_map (nodes x i) k" for k
      using found(5) [OF Some, of k] by simp
    moreover have "index_match (Some d) (Some host) n x =
        map_option (\<lambda>(e, v). (e, v, y)) (match_loop (nodes y i) host n node_first (- 1) node_first)"
      using b r locks Some by (simp add: index_match_def)
    ultimately show thesis
      using present found(1,2) by metis
  qed
qed

lemma scan_most_specific:
  assumes "distinct (map fst es)" "scan host es (- 1) 0 = (e, v)"
  shows "most_specific (map_of es) host e v"
proof -
  have entries: "map_of es k = Some u \<longleftrightarrow> (k, u) \<in> set es" for k u
    using assms(1) by simp
  show ?thesis
    using scan_best [OF assms(2)] unfolding most_specific_def entries by auto
qed

lemma index_match_correct:
  assumes "index_inv x" "good_domain d" "short_host host" "matchable x d"
  shows "\<exists>e v y. index_match (Some d) (Some (host @ ts)) (of_nat (length host)) x = Some (e, v, y) \<and>
    index_inv y \<and> index_map y = index_map x \<and> most_specific (reached x d) host e v"
  using assms(1,2)
proof (rule index_match_run [of x d "host @ ts" "of_nat (length host)"])
  fix y
  assume "index_match (Some d) (Some (host @ ts)) (of_nat (length host)) x = Some (ESB_CANNOT_FIND, 0, y)"
    and "index_inv y" "index_map y = index_map x" "\<And>k. index_map x (d, k) = None"
  then show ?thesis
    by (auto simp: most_specific_def reached_def)
next
  fix y i
  assume run: "index_match (Some d) (Some (host @ ts)) (of_nat (length host)) x =
        map_option (\<lambda>(e, v). (e, v, y)) (match_loop (nodes x i) (host @ ts) (of_nat (length host)) node_first (- 1) node_first)"
    and y: "index_inv y" "index_map y = index_map x" and i: "i \<in> map_elements x" "domain_of x i = d"
    and m: "\<And>k. index_map x (d, k) = node_map (nodes x i) k"
  have empty: "first_empty x d \<longleftrightarrow> wildcards (nodes x i) ! 0 = 0"
    using assms(1) i by (auto simp: first_empty_def index_inv_def inj_on_def)
  show ?thesis
  proof (cases "first_empty x d")
    case True
    then have "node_last node_first (nodes x i)"
      using empty by (simp add: node_last_def node_first_def iterated_def)
    then have "match_loop (nodes x i) (host @ ts) (of_nat (length host)) node_first (- 1) node_first = Some (ESB_CANNOT_FIND, 0)"
      by (subst match_loop.simps) simp
    then show ?thesis
      using run y True by (auto simp: most_specific_def reached_def)
  next
    case False
    obtain es fs where n: "node_holds (nodes x i) es fs"
      using index_inv_node [OF assms(1) i(1)] by (auto simp: node_ok_def)
    have distinct: "distinct (map fst (es @ fs))"
      using n by (simp add: node_holds_def)
    have "index_map x (d, k) = Some v" if "(k, v) \<in> set (es @ fs)" for k v
      using map_of_is_SomeI [OF distinct that] by (simp add: m node_map_holds [OF n] del: map_of_append)
    then have good: "good_entries (es @ fs)"
      using assms(4) by (fastforce simp: matchable_def good_entries_def)
    have begins: "wildcards (nodes x i) ! 0 \<noteq> 0"
      using False empty by simp
    have "es \<noteq> []"
      using begins node_holdsD(1) [OF n] by (auto simp: holds_def)
    obtain e v where s: "scan host (es @ fs) (- 1) 0 = (e, v)"
      by fastforce
    have "map_of (es @ fs) = reached x d"
      using False by (auto simp: reached_def m node_map_holds [OF n] simp del: map_of_append)
    then have "most_specific (reached x d) host e v"
      using scan_most_specific [OF distinct s] by simp
    then show ?thesis
      using run y s match_node [OF n good assms(3), of ts] \<open>es \<noteq> []\<close> by simp
  qed
qed

text \<open>C34. Matching a host name against the patterns of a domain ends and answers a most specific pattern: if
  none matches it answers ESB_CANNOT_FIND, otherwise the value of a pattern that matches, and no pattern
  that matches has a smaller distance (0 is the exact name, then the number of octets that the wildcard
  stands for plus one). The index stays the same map. The patterns considered are all those of the domain, or
  none where the first buffer of the domain's node is empty; each has at most one wildcard.\<close>

theorem match_most_specific:
  assumes "index_inv x" "good_domain d" "short_host host" "matchable x d"
  shows "\<exists>e v y. index_match (Some d) (Some (host @ ts)) (of_nat (length host)) x = Some (e, v, y) \<and>
    index_inv y \<and> index_map y = index_map x \<and> most_specific (reached x d) host e v"
  using index_match_correct [OF assms] .

abbreviation (input) com :: cstr where "com \<equiv> [99, 111, 109]"
abbreviation (input) foo :: cstr where "foo \<equiv> [102, 111, 111]"

definition two_patterns :: "wildcard_index" where
  "two_patterns = snd (index_calls zero_env [Call_insert com [102, ASTERISK] 18 False, Call_insert com [ASTERISK, 111, 111] 17 False] (new_wildcard_index 2 2 True True))"

lemma two_patterns: "index_inv two_patterns" "index_map two_patterns = [(com, [102, ASTERISK]) \<mapsto> 18, (com, [ASTERISK, 111, 111]) \<mapsto> 17]"
proof -
  let ?cs = "[Call_insert com [102, ASTERISK] 18 False, Call_insert com [ASTERISK, 111, 111] 17 False]"
  let ?x = "new_wildcard_index 2 2 True True"
  have "\<forall>c \<in> set ?cs. good_call c"
    by (simp add: good_domain_def good_key_def)
  moreover have answers: "fst (index_calls zero_env ?cs ?x) = [(ESB_SUCCESS, 0), (ESB_SUCCESS, 0)]"
    by code_simp
  ultimately have r: "index_inv two_patterns \<and>
      map_calls ?cs [(ESB_SUCCESS, 0), (ESB_SUCCESS, 0)] Map.empty = Some (index_map two_patterns)"
    using index_calls_refine [OF new_index_empty(1) [of 2 2] zero_env _ prod.collapse [symmetric], of ?cs]
      new_index_empty(2) [of 2 2] by (simp add: two_patterns_def del: index_calls.simps)
  then show "index_inv two_patterns"
    by simp
  show "index_map two_patterns = [(com, [102, ASTERISK]) \<mapsto> 18, (com, [ASTERISK, 111, 111]) \<mapsto> 17]"
    using r by simp
qed

lemma two_patterns_matchable: "matchable two_patterns com" "\<not> first_empty two_patterns com"
proof -
  have "one_wildcard [102, ASTERISK]" "one_wildcard [ASTERISK, 111, 111]"
    unfolding one_wildcard_def wild_pattern_def
    by (rule disjI2, rule exI [of _ "[102]"], rule exI [of _ "[]"], simp) (rule disjI2, rule exI [of _ "[]"], rule exI [of _ "[111, 111]"], simp)
  then show "matchable two_patterns com"
    unfolding matchable_def two_patterns(2) by (auto simp: pointer_octets_def split: if_splits)
  show "\<not> first_empty two_patterns com"
    by code_simp
qed

lemma good_com: "good_domain com"
  by (simp add: good_domain_def)

theorem match_most_specific_witness:
  "map_option (\<lambda>(e, v, _). (e, v)) (index_match (Some com) (Some (foo @ [0])) 3 two_patterns) = Some (ESB_SUCCESS, 17) \<and>
   most_specific (reached two_patterns com) foo ESB_SUCCESS 17"
proof -
  have run: "map_option (\<lambda>(e, v, _). (e, v)) (index_match (Some com) (Some (foo @ [0])) 3 two_patterns) = Some (ESB_SUCCESS, 17)"
    by code_simp
  moreover have "short_host foo"
    by (simp add: short_host_def)
  ultimately show ?thesis
    using match_most_specific [OF two_patterns(1) good_com _ two_patterns_matchable(1), of foo "[0]"] by auto
qed

section \<open>What a pattern accepts\<close>

text \<open>C35. The distance between a pattern and a host name: a pattern without wildcard matches, at distance 0,
  exactly the equal name. A pattern a*b whose name begins with a and ends, behind it, with b is at a distance
  of one more than the octets between. Otherwise it is refused, but for two kinds of names: one as long as b
  that differs from it in the first octet only (a is empty), and one whose a and b overlap by one octet.\<close>

theorem pattern_value_exact:
  assumes "ASTERISK \<notin> set a" "ASTERISK \<notin> set b" "s \<noteq> []" "length (wild_pattern a b) < 2 ^ 30" "length s < 2 ^ 30"
  shows "pattern_value a s = (if a = s then 0 else - 1) \<and>
    (glob a b s \<longrightarrow> pattern_value (wild_pattern a b) s = int (length s - length a - length b) + 1) \<and>
    (0 \<le> pattern_value (wild_pattern a b) s \<longleftrightarrow>
       glob a b s \<or> (a = [] \<and> length b = length s \<and> hd b \<noteq> hd s \<and> tl b = tl s) \<or>
       (length a + length b = length s + 1 \<and> take (length a) s = a \<and> ends_with b s))"
proof -
  have "readable [0]" "length a < 2 ^ 31" "length s < 2 ^ 31"
    using assms(4,5) by (simp_all add: readable_def wild_pattern_def)
  then have plain: "pattern_value a s = (if a = s then 0 else - 1)"
    using match_plain [OF assms(1), of "[0]" s "[0]"] by (simp add: pattern_value_def StringWildcardMatch_c_def)
  have distance: "pattern_value (wild_pattern a b) s =
      (if take (length a) s = a \<and> ends_with b s then int (length s) - int (length a) - int (length b) + 1 else - 1)"
    using match_wild [OF assms, of "[0]" "[0]"] by (simp add: pattern_value_def StringWildcardMatch_c_def)
  note accepted = accepted_iff [OF assms(3), of a b]
  have "0 \<le> pattern_value (wild_pattern a b) s \<longleftrightarrow> take (length a) s = a \<and> ends_with b s \<and> length a + length b \<le> length s + 1"
    using distance by auto
  moreover have "pattern_value (wild_pattern a b) s = int (length s - length a - length b) + 1" if "glob a b s"
  proof -
    have "length a + length b \<le> length s"
      using that by (simp add: glob_iff)
    then show ?thesis
      using distance accepted that by auto
  qed
  ultimately show ?thesis
    using plain accepted by blast
qed

theorem pattern_value_exact_witness:
  "pattern_value (wild_pattern [102] [111]) [102, 120, 121, 111] = 3"
proof -
  have "glob [102] [111] [102, 120, 121, 111 :: u8]"
    unfolding glob_def by (rule exI [of _ "[120, 121]"]) simp
  then show ?thesis
    using pattern_value_exact [of "[102]" "[111]" "[102, 120, 121, 111]"] by (simp add: wild_pattern_def)
qed

lemma SplitFqdn_join: "DOT \<notin> set h \<Longrightarrow> SplitFqdn (h @ DOT # d) = (h, of_nat (length h), Some d)"
proof -
  assume "DOT \<notin> set h"
  then have "takeWhile (\<lambda>c. c \<noteq> DOT) (h @ DOT # d) = h" "dropWhile (\<lambda>c. c \<noteq> DOT) (h @ DOT # d) = DOT # d"
    by (induction h) auto
  then show ?thesis
    by (simp add: SplitFqdn_def)
qed

text \<open>C36. The first octet of a host name is not compared with a pattern that begins with the wildcard: if an
  index has the context v for the pattern *cb, a fully qualified name whose first label is db is answered with
  v whatever c and d are, unless another pattern of the domain is as specific (the name itself, or one whose
  wildcard stands for nothing). The patterns are as in C34, and the first buffer of the node is not empty.\<close>

theorem first_octet_not_compared:
  assumes "index_inv x" "good_domain dn" "matchable x dn" "\<not> first_empty x dn" "index_map x (dn, ASTERISK # c # b) = Some v"
    and "DOT \<notin> set (d # b)" "length b < 2 ^ 29"
    and "\<And>k. index_map x (dn, k) \<noteq> None \<Longrightarrow> k \<noteq> ASTERISK # c # b \<Longrightarrow> pattern_value k (d # b) \<notin> {0, 1}"
  shows "\<exists>y. matchContext ((d # b) @ DOT # dn) x = Some (ESB_SUCCESS, v, y)"
proof -
  let ?host = "d # b"
  have short: "short_host ?host"
    using assms(7) by (simp add: short_host_def)
  have "one_wildcard (ASTERISK # c # b)"
    using assms(3,5) by (auto simp: matchable_def)
  then obtain p q where "ASTERISK # c # b = wild_pattern p q" "ASTERISK \<notin> set p" "ASTERISK \<notin> set q"
    by (auto simp: one_wildcard_def)
  then have pq: "wild_pattern [] (c # b) = ASTERISK # c # b" "ASTERISK \<notin> set (c # b)"
    by (cases p; auto simp: wild_pattern_def)+
  have one: "pattern_value (ASTERISK # c # b) ?host = 1"
    using match_wild [of "[]" "c # b" ?host "[0]" "[0]"] pq assms(7) ends_with_same_length [of "c # b" ?host]
    by (simp add: pattern_value_def StringWildcardMatch_c_def wild_pattern_def)
  obtain e w y where r: "index_match (Some dn) (Some (?host @ DOT # dn @ [0])) (of_nat (length ?host)) x = Some (e, w, y)"
      "most_specific (reached x dn) ?host e w"
    using index_match_correct [OF assms(1,2) short assms(3), of "DOT # dn @ [0]"] by auto
  have reached: "reached x dn k = index_map x (dn, k)" for k
    using assms(4) by (simp add: reached_def)
  have "e = ESB_SUCCESS"
    using r(2) one assms(5) unfolding most_specific_def reached by force
  then obtain k where k: "index_map x (dn, k) = Some w" "0 \<le> pattern_value k ?host" "pattern_value k ?host \<le> 1"
    using r(2) one assms(5) unfolding most_specific_def reached by auto
  then have "pattern_value k ?host \<in> {0, 1}"
    by auto
  then have "k = ASTERISK # c # b"
    using assms(8) [of k] k(1) by auto
  then have "w = v"
    using k(1) assms(5) by simp
  moreover have "(of_nat (length ?host) :: u32) \<noteq> 0" "dn \<noteq> []"
    using small_zero [of "length ?host"] assms(2,7) by (simp_all add: good_domain_def del: of_nat_Suc)
  ultimately show ?thesis
    using r(1) \<open>e = ESB_SUCCESS\<close> SplitFqdn_join [OF assms(6), of dn] by (simp add: matchContext_def)
qed

theorem first_octet_not_compared_witness:
  "\<exists>y. matchContext ([121, 111] @ DOT # com) two_patterns = Some (ESB_SUCCESS, 17, y)"
proof (rule first_octet_not_compared [OF two_patterns(1) good_com two_patterns_matchable])
  fix k
  assume "index_map two_patterns (com, k) \<noteq> None" "k \<noteq> ASTERISK # 111 # [111]"
  then have "k = [102, ASTERISK]"
    by (auto simp: two_patterns(2) split: if_splits)
  then show "pattern_value k (121 # [111]) \<notin> {0, 1}"
    by (simp only:) code_simp
qed (simp_all add: two_patterns(2))

section \<open>Patterns in the second buffer\<close>

text \<open>When the first buffer of a domain's node is empty, no host name matches any pattern of the domain,
  even if the second buffer holds patterns that do match and are found by their names.\<close>

theorem patterns_not_reached:
  assumes "index_inv x" "good_domain d" "i \<in> map_elements x" "domain_of x i = d" "wildcards (nodes x i) ! 0 = 0"
  shows "\<exists>y. index_match (Some d) (Some host) n x = Some (ESB_CANNOT_FIND, 0, y) \<and> index_map y = index_map x"
  using assms(1,2)
proof (rule index_match_run [of x d host n])
  fix y j
  assume run: "index_match (Some d) (Some host) n x =
        map_option (\<lambda>(e, v). (e, v, y)) (match_loop (nodes x j) host n node_first (- 1) node_first)"
    and y: "index_map y = index_map x" and j: "j \<in> map_elements x" "domain_of x j = d"
  have "j = i"
    using assms(1,3,4) j by (auto simp: index_inv_def inj_on_def)
  then have "node_last node_first (nodes x j)"
    using assms(5) by (simp add: node_last_def node_first_def iterated_def)
  then show ?thesis
    using run y by (subst (asm) match_loop.simps) simp
qed blast

definition spilled :: "wildcard_index" where
  "spilled = snd (index_calls zero_env [Call_insert com (replicate 250 97) 17 False, Call_insert com [ASTERISK, 111, 111, 111, 111, 111] 18 False, Call_remove com (replicate 250 97)]
     (new_wildcard_index 2 2 True True))"

theorem patterns_not_reached_witness:
  "(\<exists>y. index_match (Some com) (Some [111, 111, 111, 111, 111, 111, 0]) 6 spilled = Some (ESB_CANNOT_FIND, 0, y)) \<and>
   pattern_value [ASTERISK, 111, 111, 111, 111, 111] [111, 111, 111, 111, 111, 111] = 2 \<and>
   index_map spilled (com, [ASTERISK, 111, 111, 111, 111, 111]) = Some 18"
proof -
  let ?cs = "[Call_insert com (replicate 250 97) 17 False, Call_insert com [ASTERISK, 111, 111, 111, 111, 111] 18 False, Call_remove com (replicate 250 97)]"
  let ?x = "new_wildcard_index 2 2 True True"
  have "\<forall>c \<in> set ?cs. good_call c"
    by (simp add: good_domain_def good_key_def)
  moreover have run: "case index_calls zero_env ?cs ?x of (as, x) \<Rightarrow>
      as = [(ESB_SUCCESS, 0), (ESB_SUCCESS, 0), (ESB_SUCCESS, 0)] \<and> 0 \<in> map_elements x \<and> nodeKey (nodes x 0) = com \<and>
      wildcards (nodes x 0) ! 0 = 0"
    by code_simp
  then have "fst (index_calls zero_env ?cs ?x) = [(ESB_SUCCESS, 0), (ESB_SUCCESS, 0), (ESB_SUCCESS, 0)]"
    by (simp add: case_prod_beta del: index_calls.simps)
  ultimately have r: "index_inv spilled \<and>
      map_calls ?cs [(ESB_SUCCESS, 0), (ESB_SUCCESS, 0), (ESB_SUCCESS, 0)] Map.empty = Some (index_map spilled)"
    using index_calls_refine [OF new_index_empty(1) [of 2 2] zero_env _ prod.collapse [symmetric], of ?cs]
      new_index_empty(2) [of 2 2] by (simp add: spilled_def del: index_calls.simps)
  moreover have "[ASTERISK, 111, 111, 111, 111, 111] \<noteq> replicate 250 (97 :: u8)"
    by (auto dest: arg_cong [of _ _ length])
  ultimately have "index_map spilled = [(com, [ASTERISK, 111, 111, 111, 111, 111]) \<mapsto> 18]"
    by simp
  moreover have "0 \<in> map_elements spilled" "domain_of spilled 0 = com" "wildcards (nodes spilled 0) ! 0 = 0"
    using run by (simp_all add: spilled_def domain_of_def case_prod_beta del: index_calls.simps)
  moreover have "pattern_value [ASTERISK, 111, 111, 111, 111, 111] [111, 111, 111, 111, 111, 111] = 2"
    by code_simp
  ultimately show ?thesis
    using patterns_not_reached [of spilled com 0 "[111, 111, 111, 111, 111, 111, 0]" 6] r good_com by auto
qed




end
