(* ===== verification/Multiplexer.thy ===== *)
theory Multiplexer
  imports TimerQueue
begin

text \<open>
  \<open>ESB::EpollMultiplexer\<close> (base/source/ESBEpollMultiplexer.cpp): the event loop of a worker thread.

  A socket is a number; its virtual functions, the kernel and the clock are fields of \<open>mux_env\<close> over a world
  \<open>'w\<close>. A callback gets the multiplexer and may call it again, so it is a function on both. The timer of a
  socket has the number of the socket. The two lists are what \<open>EmbeddedList\<close> refines; \<open>_eventCache\<close> is a
  function with the test of its size written out. Log lines are not modelled.
\<close>

abbreviation (input) EPOLLIN :: u32 where "EPOLLIN \<equiv> 0x001"
abbreviation (input) EPOLLOUT :: u32 where "EPOLLOUT \<equiv> 0x004"
abbreviation (input) EPOLLERR :: u32 where "EPOLLERR \<equiv> 0x008"
abbreviation (input) EPOLLHUP :: u32 where "EPOLLHUP \<equiv> 0x010"
abbreviation (input) EPOLLET :: u32 where "EPOLLET \<equiv> 0x80000000"

abbreviation (input) MAX_TIMEOUT_MSEC :: u32 where "MAX_TIMEOUT_MSEC \<equiv> 1800000"
abbreviation (input) MIN_TIMEOUT_MSEC :: u32 where "MIN_TIMEOUT_MSEC \<equiv> 10"

text \<open>\<open>events\<close>: whether \<open>_events\<close> has been allocated; \<open>activeSocketCount\<close> is an int, compared as unsigned.\<close>

record multiplexer =
  epollOpen :: bool
  idleTimeoutMsec :: u32
  maxSockets :: u32
  events :: bool
  interests :: "int \<Rightarrow> u32"
  activeSocketCount :: u32
  activeSockets :: "nat list"
  deadSockets :: "nat list"
  timingWheel :: timing_wheel

datatype epoll_op = EPOLL_CTL_ADD | EPOLL_CTL_MOD | EPOLL_CTL_DEL

text \<open>What \<open>epoll_wait\<close> answers: sockets with their events (none after a timeout), or an error.\<close>

datatype waited = Ready "(nat \<times> u32) list" | Failed error

record 'w mux_env =
  clock :: "'w \<Rightarrow> date"
  running :: "'w \<Rightarrow> bool"
  fdOf :: "nat \<Rightarrow> 'w \<Rightarrow> int"
  isPermanent :: "nat \<Rightarrow> 'w \<Rightarrow> bool"
  wantsAccept :: "nat \<Rightarrow> 'w \<Rightarrow> bool"
  wantsConnect :: "nat \<Rightarrow> 'w \<Rightarrow> bool"
  wantsRead :: "nat \<Rightarrow> 'w \<Rightarrow> bool"
  wantsWrite :: "nat \<Rightarrow> 'w \<Rightarrow> bool"
  isDead :: "nat \<Rightarrow> 'w \<Rightarrow> bool"
  markDead :: "nat \<Rightarrow> 'w \<Rightarrow> 'w"
  epollCtl :: "epoll_op \<Rightarrow> int \<Rightarrow> u32 \<Rightarrow> nat \<Rightarrow> 'w \<Rightarrow> error \<times> 'w"
  epollWait :: "u32 \<Rightarrow> u32 \<Rightarrow> 'w \<Rightarrow> waited \<times> 'w"
  bytesReadable :: "int \<Rightarrow> 'w \<Rightarrow> int"
  lastSocketError :: "int \<Rightarrow> 'w \<Rightarrow> error"
  onAccept :: "nat \<Rightarrow> multiplexer \<times> 'w \<Rightarrow> error \<times> multiplexer \<times> 'w"
  onConnect :: "nat \<Rightarrow> multiplexer \<times> 'w \<Rightarrow> error \<times> multiplexer \<times> 'w"
  onReadable :: "nat \<Rightarrow> multiplexer \<times> 'w \<Rightarrow> error \<times> multiplexer \<times> 'w"
  onWritable :: "nat \<Rightarrow> multiplexer \<times> 'w \<Rightarrow> error \<times> multiplexer \<times> 'w"
  onError :: "nat \<Rightarrow> error \<Rightarrow> multiplexer \<times> 'w \<Rightarrow> multiplexer \<times> 'w"
  onRemoteClose :: "nat \<Rightarrow> multiplexer \<times> 'w \<Rightarrow> multiplexer \<times> 'w"
  onIdle :: "nat \<Rightarrow> multiplexer \<times> 'w \<Rightarrow> multiplexer \<times> 'w"
  onRemove :: "nat \<Rightarrow> multiplexer \<times> 'w \<Rightarrow> multiplexer \<times> 'w"
  onCleanup :: "nat \<Rightarrow> multiplexer \<times> 'w \<Rightarrow> multiplexer \<times> 'w"

text \<open>The constructor. The three answers are those of \<open>epoll_create\<close> and of the two allocations.\<close>

definition new_multiplexer :: "u32 \<Rightarrow> u32 \<Rightarrow> date \<Rightarrow> bool \<Rightarrow> bool \<Rightarrow> bool \<Rightarrow> bool \<Rightarrow> multiplexer" where
  "new_multiplexer idle sockets now created events_allocated cache_allocated wheel_allocated =
     \<lparr>epollOpen = (created \<and> events_allocated \<and> cache_allocated),
      idleTimeoutMsec = (if idle = 0 then 0 else min (max idle MIN_TIMEOUT_MSEC) MAX_TIMEOUT_MSEC),
      maxSockets = max sockets 1,
      events = (created \<and> events_allocated \<and> cache_allocated),
      interests = (\<lambda>_. 0), activeSocketCount = 0, activeSockets = [], deadSockets = [],
      timingWheel = new_timing_wheel (MAX_TIMEOUT_MSEC * 2 div MIN_TIMEOUT_MSEC) MIN_TIMEOUT_MSEC now wheel_allocated\<rparr>"

section \<open>The sockets of the multiplexer\<close>

definition interest :: "'w mux_env \<Rightarrow> nat \<Rightarrow> 'w \<Rightarrow> u32" where
  "interest env s w =
     EPOLLERR OR
     (if wantsAccept env s w then EPOLLIN
      else if wantsConnect env s w then EPOLLIN OR EPOLLOUT OR EPOLLHUP
      else (if wantsWrite env s w then EPOLLOUT OR EPOLLHUP else 0) OR (if wantsRead env s w then EPOLLIN OR EPOLLHUP else 0))"

definition in_cache :: "multiplexer \<Rightarrow> int \<Rightarrow> bool" where
  "in_cache m fd \<longleftrightarrow> 0 \<le> fd \<and> fd < uint (maxSockets m)"

definition set_interest :: "int \<Rightarrow> u32 \<Rightarrow> multiplexer \<Rightarrow> multiplexer" where
  "set_interest fd v m = m\<lparr>interests := (interests m)(fd := v)\<rparr>"

definition stop_timer :: "nat \<Rightarrow> multiplexer \<Rightarrow> multiplexer" where
  "stop_timer s m =
     (if inTimingWheel (timingWheel m) s then m\<lparr>timingWheel := snd (wheel_remove (Some s) (timingWheel m))\<rparr> else m)"

definition start_timer :: "'w mux_env \<Rightarrow> nat \<Rightarrow> multiplexer \<times> 'w \<Rightarrow> error \<times> multiplexer" where
  "start_timer env s mw =
     (case mw of (m, w) \<Rightarrow>
        if 0 < idleTimeoutMsec m \<and> \<not> isPermanent env s w
        then (case wheel_insert (Some s) (idleTimeoutMsec m) (clock env w) (timingWheel m) of
                (e, wheel) \<Rightarrow> (e, m\<lparr>timingWheel := wheel\<rparr>))
        else (ESB_SUCCESS, m))"

text \<open>Writing behind \<open>_eventCache\<close> is undefined; \<open>-1\<close> is \<open>INVALID_SOCKET\<close>.\<close>

definition addMultiplexedSocket ::
  "'w mux_env \<Rightarrow> nat option \<Rightarrow> multiplexer \<times> 'w \<Rightarrow> error \<times> multiplexer \<times> 'w" where
  "addMultiplexedSocket env sp mw =
     (case mw of (m, w) \<Rightarrow>
        if \<not> events m then (ESB_OUT_OF_MEMORY, m, w)
        else
          (case sp of
             None \<Rightarrow> (ESB_NULL_POINTER, m, w)
           | Some s \<Rightarrow>
               let fd = fdOf env s w; ev = EPOLLET OR interest env s w in
               if fd = - 1 then (ESB_INVALID_ARGUMENT, m, w)
               else if maxSockets m < activeSocketCount m + 1 then (ESB_OVERFLOW, m, w)
               else
                 (case start_timer env s (m, w) of
                    (e, m1) \<Rightarrow>
                      if e \<noteq> ESB_SUCCESS then (e, m1, w)
                      else
                        let m2 = m1\<lparr>activeSocketCount := activeSocketCount m + 1, activeSockets := activeSockets m @ [s]\<rparr> in
                        (case epollCtl env EPOLL_CTL_ADD fd ev s w of
                           (e1, w1) \<Rightarrow>
                             if e1 \<noteq> ESB_SUCCESS
                             then (e1, stop_timer s (m2\<lparr>activeSocketCount := activeSocketCount m, activeSockets := remove1 s (activeSockets m2)\<rparr>), w1)
                             else if \<not> in_cache m2 fd then (UNDEFINED_BEHAVIOUR, m2, w1)
                             else (ESB_SUCCESS, set_interest fd ev m2, w1)))))"

definition updateMultiplexedSocket ::
  "'w mux_env \<Rightarrow> nat option \<Rightarrow> multiplexer \<times> 'w \<Rightarrow> error \<times> multiplexer \<times> 'w" where
  "updateMultiplexedSocket env sp mw =
     (case mw of (m, w) \<Rightarrow>
        if \<not> events m then (ESB_OUT_OF_MEMORY, m, w)
        else
          (case sp of
             None \<Rightarrow> (ESB_NULL_POINTER, m, w)
           | Some s \<Rightarrow>
               let fd = fdOf env s w; ev = interest env s w in
               if fd = - 1 then (ESB_INVALID_ARGUMENT, m, w)
               else if \<not> in_cache m fd then (UNDEFINED_BEHAVIOUR, m, w)
               else if interests m fd \<noteq> ev then
                 (case epollCtl env EPOLL_CTL_MOD fd ev s w of
                    (e, w1) \<Rightarrow> if e \<noteq> ESB_SUCCESS then (e, m, w1) else (ESB_SUCCESS, set_interest fd ev m, w1))
               else (ESB_SUCCESS, m, w)))"

definition removeMultiplexedSocket ::
  "'w mux_env \<Rightarrow> nat option \<Rightarrow> multiplexer \<times> 'w \<Rightarrow> error \<times> multiplexer \<times> 'w" where
  "removeMultiplexedSocket env sp mw =
     (case mw of (m, w) \<Rightarrow>
        if \<not> events m then (ESB_OUT_OF_MEMORY, m, w)
        else
          (case sp of
             None \<Rightarrow> (ESB_NULL_POINTER, m, w)
           | Some s \<Rightarrow>
               let fd = fdOf env s w in
               if fd = - 1 then (ESB_INVALID_ARGUMENT, m, w)
               else
                 (case epollCtl env EPOLL_CTL_DEL fd 0 s w of
                    (e, w1) \<Rightarrow>
                      if e \<noteq> ESB_SUCCESS then (e, m, w1)
                      else if \<not> in_cache m fd then (UNDEFINED_BEHAVIOUR, m, w1)
                      else
                        let m1 = stop_timer s (set_interest fd 0 m\<lparr>activeSockets := remove1 s (activeSockets m)\<rparr>);
                            m2 = m1\<lparr>activeSocketCount := activeSocketCount m1 - 1, deadSockets := deadSockets m1 @ [s]\<rparr>
                        in (ESB_SUCCESS, onRemove env s (m2, markDead env s w1)))))"

section \<open>The loop\<close>

definition keeps :: "error \<Rightarrow> bool" where
  "keeps e \<longleftrightarrow> e = ESB_AGAIN \<or> e = ESB_PAUSE"

text \<open>\<open>handleAccept\<close> as long as it answers ESB_AGAIN. None: that never ends.\<close>

partial_function (option) accept_loop ::
  "'w mux_env \<Rightarrow> nat \<Rightarrow> multiplexer \<times> 'w \<Rightarrow> (bool \<times> multiplexer \<times> 'w) option" where
  "accept_loop env s mw =
     (case onAccept env s mw of
        (e, mw1) \<Rightarrow>
          if e = ESB_AGAIN then accept_loop env s mw1
          else Some (e = ESB_SUCCESS, mw1))"

declare accept_loop.simps [code]

definition listening_event ::
  "'w mux_env \<Rightarrow> nat \<Rightarrow> u32 \<Rightarrow> multiplexer \<times> 'w \<Rightarrow> (bool \<times> multiplexer \<times> 'w) option" where
  "listening_event env s ev mw =
     (let fd = fdOf env s (snd mw) in
      if ev AND EPOLLERR \<noteq> 0 then Some (False, onError env s (lastSocketError env fd (snd mw)) mw)
      else if ev AND EPOLLIN \<noteq> 0 then accept_loop env s mw
      else Some (True, mw))"

definition connect_result :: "error \<times> multiplexer \<times> 'w \<Rightarrow> bool \<times> multiplexer \<times> 'w" where
  "connect_result r = (case r of (e, mw) \<Rightarrow> (keeps e, mw))"

definition connecting_event ::
  "'w mux_env \<Rightarrow> nat \<Rightarrow> u32 \<Rightarrow> multiplexer \<times> 'w \<Rightarrow> bool \<times> multiplexer \<times> 'w" where
  "connecting_event env s ev mw =
     (let fd = fdOf env s (snd mw); err = lastSocketError env fd (snd mw); n = bytesReadable env fd (snd mw) in
      if ev AND EPOLLERR \<noteq> 0 then (False, onError env s err mw)
      else if ev AND EPOLLHUP \<noteq> 0 then (False, onRemoteClose env s mw)
      else if ev AND EPOLLIN \<noteq> 0 then
        (if n < 0 then (False, onError env s err mw)
         else if n = 0 then (False, onRemoteClose env s mw)
         else connect_result (onConnect env s mw))
      else if ev AND EPOLLOUT \<noteq> 0 then connect_result (onConnect env s mw)
      else (True, mw))"

definition connected_event ::
  "'w mux_env \<Rightarrow> nat \<Rightarrow> u32 \<Rightarrow> multiplexer \<times> 'w \<Rightarrow> bool \<times> multiplexer \<times> 'w" where
  "connected_event env s ev mw =
     (if ev AND EPOLLERR \<noteq> 0 then (False, onError env s (lastSocketError env (fdOf env s (snd mw)) (snd mw)) mw)
      else if ev AND EPOLLHUP \<noteq> 0 then (False, onRemoteClose env s mw)
      else
        (case (if wantsRead env s (snd mw) \<and> ev AND EPOLLIN \<noteq> 0 then connect_result (onReadable env s mw) else (True, mw)) of
           (keep, mw1) \<Rightarrow>
             if keep \<and> wantsWrite env s (snd mw1) \<and> ev AND EPOLLOUT \<noteq> 0 then connect_result (onWritable env s mw1)
             else (keep, mw1)))"

text \<open>What follows the callbacks: the socket is removed, or its timer and its interests are renewed.\<close>

definition after_event ::
  "'w mux_env \<Rightarrow> date \<Rightarrow> nat \<Rightarrow> bool \<times> multiplexer \<times> 'w \<Rightarrow> multiplexer \<times> 'w" where
  "after_event env now s r =
     (case r of (keep, m, w) \<Rightarrow>
        if \<not> keep then snd (removeMultiplexedSocket env (Some s) (m, w))
        else if isPermanent env s w \<or> idleTimeoutMsec m = 0 then snd (updateMultiplexedSocket env (Some s) (m, w))
        else
          (case wheel_update (Some s) (idleTimeoutMsec m) now (timingWheel m) of
             (e, wheel) \<Rightarrow>
               let m1 = m\<lparr>timingWheel := wheel\<rparr> in
               if e = ESB_SUCCESS then snd (updateMultiplexedSocket env (Some s) (m1, w))
               else if e = ESB_UNDERFLOW then snd (removeMultiplexedSocket env (Some s) (onIdle env s (m1, w)))
               else snd (removeMultiplexedSocket env (Some s) (m1, w))))"

definition process_event ::
  "'w mux_env \<Rightarrow> date \<Rightarrow> nat \<times> u32 \<Rightarrow> multiplexer \<times> 'w \<Rightarrow> (multiplexer \<times> 'w) option" where
  "process_event env now sev mw =
     (case sev of (s, ev) \<Rightarrow>
        if isDead env s (snd mw) then Some mw
        else
          map_option (after_event env now s)
            (if wantsAccept env s (snd mw) then listening_event env s ev mw
             else if wantsConnect env s (snd mw) then Some (connecting_event env s ev mw)
             else Some (connected_event env s ev mw)))"

fun process_events ::
  "'w mux_env \<Rightarrow> date \<Rightarrow> (nat \<times> u32) list \<Rightarrow> multiplexer \<times> 'w \<Rightarrow> (multiplexer \<times> 'w) option" where
  "process_events env now [] mw = Some mw"
| "process_events env now (e # es) mw =
     (case process_event env now e mw of None \<Rightarrow> None | Some mw1 \<Rightarrow> process_events env now es mw1)"

partial_function (option) reap :: "'w mux_env \<Rightarrow> multiplexer \<times> 'w \<Rightarrow> (multiplexer \<times> 'w) option" where
  "reap env mw =
     (case mw of (m, w) \<Rightarrow>
        (case deadSockets m of
           [] \<Rightarrow> Some (m, w)
         | s # ss \<Rightarrow> reap env (onCleanup env s (m\<lparr>deadSockets := ss\<rparr>, w))))"

declare reap.simps [code]

text \<open>\<open>checkIdleSockets\<close>. The bool is whether the wheel has been allocated.\<close>

partial_function (option) idle_loop ::
  "'w mux_env \<Rightarrow> date \<Rightarrow> multiplexer \<times> 'w \<Rightarrow> (error \<times> multiplexer \<times> 'w) option" where
  "idle_loop env now mw =
     (case mw of (m, w) \<Rightarrow>
        (case nextExpired now (timingWheel m) of
           None \<Rightarrow> None
         | Some (e, None, wheel) \<Rightarrow> Some (e, m\<lparr>timingWheel := wheel\<rparr>, w)
         | Some (e, Some s, wheel) \<Rightarrow>
             idle_loop env now (snd (removeMultiplexedSocket env (Some s) (onIdle env s (m\<lparr>timingWheel := wheel\<rparr>, w))))))"

declare idle_loop.simps [code]

definition checkIdleSockets :: "'w mux_env \<Rightarrow> multiplexer \<times> 'w \<Rightarrow> (error \<times> multiplexer \<times> 'w) option" where
  "checkIdleSockets env mw = idle_loop env (clock env (snd mw)) mw"

partial_function (option) remove_all :: "'w mux_env \<Rightarrow> multiplexer \<times> 'w \<Rightarrow> (multiplexer \<times> 'w) option" where
  "remove_all env mw =
     (case mw of (m, w) \<Rightarrow>
        (case activeSockets m of
           [] \<Rightarrow> Some (m, w)
         | s # _ \<Rightarrow> remove_all env (snd (removeMultiplexedSocket env (Some s) (m, w)))))"

declare remove_all.simps [code]

text \<open>\<open>destroy\<close>. The cleanup handlers of the dead sockets are called by \<open>_deadSockets.clear()\<close>, those of timers do nothing.\<close>

definition mux_destroy :: "'w mux_env \<Rightarrow> multiplexer \<times> 'w \<Rightarrow> (multiplexer \<times> 'w) option" where
  "mux_destroy env mw =
     (case remove_all env mw of
        None \<Rightarrow> None
      | Some (m, w) \<Rightarrow>
          map_option (\<lambda>(m1, w1). (m1\<lparr>epollOpen := False, events := False\<rparr>, w1))
            (reap env (m\<lparr>timingWheel := snd (wheel_clear (timingWheel m))\<rparr>, w)))"

text \<open>
  One round of the loop of \<open>run\<close>. It goes on with the number of errors of \<open>epoll_wait\<close> in a row, or \<open>run\<close>
  returns (None as second component).
\<close>

definition run_round ::
  "'w mux_env \<Rightarrow> nat \<Rightarrow> multiplexer \<times> 'w \<Rightarrow> (error \<times> nat option \<times> multiplexer \<times> 'w) option" where
  "run_round env errorCount mw =
     (case checkIdleSockets env mw of
        None \<Rightarrow> None
      | Some (e, m, w) \<Rightarrow>
          if e \<noteq> ESB_SUCCESS then Some (e, None, m, w)
          else
            (case epollWait env (maxSockets m) (min (idleTimeoutMsec m) 1000) w of
               (Ready [], w1) \<Rightarrow> Some (ESB_SUCCESS, Some errorCount, m, w1)
             | (Failed err, w1) \<Rightarrow>
                 if err = ESB_INTR then Some (ESB_SUCCESS, Some errorCount, m, w1)
                 else if errorCount \<ge> 10 then Some (ESB_SUCCESS, None, m\<lparr>epollOpen := False, events := False\<rparr>, w1)
                 else Some (ESB_SUCCESS, Some (errorCount + 1), m, w1)
             | (Ready (ev # evs), w1) \<Rightarrow>
                 (case process_events env (clock env w1) (ev # evs) (m, w1) of
                    None \<Rightarrow> None
                  | Some mw1 \<Rightarrow> map_option (\<lambda>mw2. (ESB_SUCCESS, Some 0, mw2)) (reap env mw1))))"

partial_function (option) run_loop ::
  "'w mux_env \<Rightarrow> nat \<Rightarrow> multiplexer \<times> 'w \<Rightarrow> (error \<times> multiplexer \<times> 'w) option" where
  "run_loop env errorCount mw =
     (if \<not> running env (snd mw) then map_option (\<lambda>mw1. (ESB_SUCCESS, mw1)) (mux_destroy env mw)
      else
        (case run_round env errorCount mw of
           None \<Rightarrow> None
         | Some (e, None, mw1) \<Rightarrow> Some (e, mw1)
         | Some (e, Some n, mw1) \<Rightarrow> run_loop env n mw1))"

declare run_loop.simps [code]

definition mux_run :: "'w mux_env \<Rightarrow> multiplexer \<times> 'w \<Rightarrow> (error \<times> multiplexer \<times> 'w) option" where
  "mux_run env mw = (if \<not> events (fst mw) then Some (ESB_SUCCESS, mw) else run_loop env 0 mw)"

end
