(* ===== verification/MuxInvariant.thy ===== *)
theory MuxInvariant
  imports Multiplexer
begin

text \<open>
  The invariant of the multiplexer (base/source/ESBEpollMultiplexer.cpp) and what it relies on: the locale
  \<open>epoll_kernel\<close> states what the kernel promises, \<open>event_loop\<close> adds what the callbacks of the sockets
  promise. Under them every operation and every part of the loop keeps the invariant.
\<close>

section \<open>Timers that are in time\<close>

text \<open>The wheel is a queue of timers, its clock does not run backwards, and no tick reaches 31 bits.\<close>

definition wheel_in_time :: "timing_wheel \<Rightarrow> u32 \<Rightarrow> date \<Rightarrow> bool" where
  "wheel_in_time wheel idle now \<longleftrightarrow>
     (\<exists>q. represents wheel q \<and> expiredTo q \<le> tick_at wheel now \<and> tick_at wheel now + span q < 2 ^ 31 \<and>
       due_at wheel now idle < 2 ^ 31)"

definition same_wheel :: "timing_wheel \<Rightarrow> timing_wheel \<Rightarrow> bool" where
  "same_wheel w w' \<longleftrightarrow> same_clock w w' \<and> maxTicks w' = maxTicks w \<and> currentTick w' = currentTick w"

lemma same_wheel_refl [simp]: "same_wheel w w"
  by (simp add: same_wheel_def same_clock_def)

lemma same_wheel_trans: "same_wheel u v \<Longrightarrow> same_wheel v w \<Longrightarrow> same_wheel u w"
  by (simp add: same_wheel_def same_clock_def)

lemma same_wheel_ticks: "same_wheel w w' \<Longrightarrow> tick_at w' = tick_at w \<and> due_at w' = due_at w"
  by (simp add: same_wheel_def same_clock_ticks)

lemma wheel_in_time_later:
  assumes "wheel_in_time w idle now" "same_wheel w w'" "represents w' q'" "tick_at w now \<le> tick_at w now'"
    and "tick_at w now' + unat (maxTicks w) < 2 ^ 31" "due_at w now' idle < 2 ^ 31"
  shows "wheel_in_time w' idle now'"
proof -
  obtain q where q: "represents w q" "expiredTo q \<le> tick_at w now"
    using assms(1) by (auto simp: wheel_in_time_def)
  then have "expiredTo q' = expiredTo q" "span q' = unat (maxTicks w)"
    using representsD(3,4) [OF q(1)] representsD(3,4) [OF assms(3)] assms(2) by (simp_all add: same_wheel_def)
  then show ?thesis
    using assms q(2) same_wheel_ticks [OF assms(2)] by (auto simp: wheel_in_time_def)
qed

lemma wheel_fields:
  "wheel_insert t d now w = (e, w') \<Longrightarrow> same_wheel w w'" "wheel_remove t w = (e, w') \<Longrightarrow> same_wheel w w'"
  "wheel_update t d now w = (e, w') \<Longrightarrow> same_wheel w w'"
  by (auto simp: wheel_insert_def wheel_remove_def wheel_update_def same_wheel_def same_clock_def Let_def timer_remove_def
      split: option.splits if_splits)

lemma kept_in_time:
  assumes "wheel_in_time w idle now" "same_wheel w w'" "represents w' q'"
  shows "wheel_in_time w' idle now"
  using assms wheel_in_time_later [OF assms, of now] representsD(4) by (fastforce simp: wheel_in_time_def)

lemma wheel_insert_in_time:
  assumes "wheel_in_time w idle now" "wheel_insert (Some s) idle now w = (e, w')"
  shows "wheel_in_time w' idle now" "inTimingWheel w' t \<longleftrightarrow> inTimingWheel w t \<or> (t = s \<and> e = ESB_SUCCESS)"
proof -
  obtain q where q: "represents w q" "due_at w now idle < 2 ^ 31"
    using assms(1) by (auto simp: wheel_in_time_def)
  let ?r = "spec_insert (due_at w now idle) s q"
  have r: "e = fst ?r" "represents w' (snd ?r)"
    using wheel_insert_spec [OF q, of s] assms(2) by simp_all
  show "wheel_in_time w' idle now"
    using kept_in_time [OF assms(1) wheel_fields(1) [OF assms(2)] r(2)] .
  have "snd ` set (due (snd ?r)) = snd ` set (due q) \<union> (if fst ?r = ESB_SUCCESS then {s} else {})"
    by (auto simp: spec_insert_def set_enqueue)
  then show "inTimingWheel w' t \<longleftrightarrow> inTimingWheel w t \<or> (t = s \<and> e = ESB_SUCCESS)"
    using representsD(8) [OF q(1), of t] representsD(8) [OF r(2), of t] r(1) by auto
qed

lemma drop_timers: "snd ` set (due (spec_drop s q)) = snd ` set (due q) - {s}"
  by (auto simp: spec_drop_def)

lemma wheel_remove_in_time:
  assumes "wheel_in_time w idle now" "wheel_remove (Some s) w = (e, w')"
  shows "wheel_in_time w' idle now" "inTimingWheel w' t \<longleftrightarrow> inTimingWheel w t \<and> t \<noteq> s"
proof -
  obtain q where q: "represents w q"
    using assms(1) by (auto simp: wheel_in_time_def)
  let ?r = "spec_remove s q"
  have r: "e = fst ?r" "represents w' (snd ?r)"
    using wheel_remove_spec [OF q, of s] assms(2) by simp_all
  show "wheel_in_time w' idle now"
    using kept_in_time [OF assms(1) wheel_fields(2) [OF assms(2)] r(2)] .
  have "snd ` set (due (snd ?r)) = snd ` set (due q) - {s}"
    by (auto simp: spec_remove_def drop_timers)
  then show "inTimingWheel w' t \<longleftrightarrow> inTimingWheel w t \<and> t \<noteq> s"
    using representsD(8) [OF q(1), of t] representsD(8) [OF r(2), of t] by auto
qed

lemma wheel_update_in_time:
  assumes "wheel_in_time w idle now" "due_at w now' idle < 2 ^ 31" "wheel_update (Some s) idle now' w = (e, w')"
  shows "wheel_in_time w' idle now"
    "inTimingWheel w' t \<longleftrightarrow>
      (if t = s then e = ESB_SUCCESS \<or> (e \<noteq> ESB_UNDERFLOW \<and> inTimingWheel w t) else inTimingWheel w t)"
proof -
  obtain q where q: "represents w q"
    using assms(1) by (auto simp: wheel_in_time_def)
  let ?k = "due_at w now' idle"
  let ?r = "spec_update ?k s q"
  have r: "e = fst ?r" "represents w' (snd ?r)"
    using wheel_update_spec [OF q assms(2), of s] assms(3) by simp_all
  show "wheel_in_time w' idle now"
    using kept_in_time [OF assms(1) wheel_fields(3) [OF assms(3)] r(2)] .
  have "t \<in> snd ` set (due (snd ?r)) \<longleftrightarrow>
      (if t = s then fst ?r = ESB_SUCCESS \<or> (fst ?r \<noteq> ESB_UNDERFLOW \<and> t \<in> snd ` set (due q)) else t \<in> snd ` set (due q))"
    by (force simp: spec_update_def spec_insert_def set_enqueue drop_timers)
  then show "inTimingWheel w' t \<longleftrightarrow>
      (if t = s then e = ESB_SUCCESS \<or> (e \<noteq> ESB_UNDERFLOW \<and> inTimingWheel w t) else inTimingWheel w t)"
    unfolding representsD(8) [OF q(1)] representsD(8) [OF r(2)] r(1) .
qed

text \<open>An expired timer leaves the wheel, and the timers that are left are later.\<close>

lemma nextExpired_in_time:
  assumes "wheel_in_time w idle now"
  obtains t w' where "nextExpired now w = Some (ESB_SUCCESS, t, w')" "wheel_in_time w' idle now" "same_clock w w'"
    "maxTicks w' = maxTicks w"
    "\<And>s. inTimingWheel w' s \<longleftrightarrow> inTimingWheel w s \<and> t \<noteq> Some s" "\<And>s. t = Some s \<Longrightarrow> inTimingWheel w s"
    "\<And>s. t = None \<Longrightarrow> inTimingWheel w' s \<Longrightarrow> tick_at w now < tick_nat w' s"
proof -
  obtain q where q: "represents w q" "expiredTo q \<le> tick_at w now" "tick_at w now + span q < 2 ^ 31" "due_at w now idle < 2 ^ 31"
    using assms(1) by (auto simp: wheel_in_time_def)
  let ?r = "spec_expired (tick_at w now) q"
  obtain w' where w': "nextExpired now w = Some (ESB_SUCCESS, fst ?r, w')" "represents w' (snd ?r)"
    using nextExpired_spec [OF q(1-3)] by blast
  have clock: "same_clock w w'"
    using w'(1) apply_wheel_call_clock [of "NextExpired now" w ESB_SUCCESS "fst ?r" w'] by simp
  have span: "span (snd ?r) = span q" "expiredTo (snd ?r) \<le> tick_at w now"
    using q(2) by (auto simp: spec_expired_def split: list.split)
  then have "maxTicks w' = maxTicks w"
    using representsD(4) [OF q(1)] representsD(4) [OF w'(2)] by (simp add: word_unat_eq_iff)
  moreover have "wheel_in_time w' idle now"
    using w'(2) q(3,4) span same_clock_ticks [OF clock] by (auto simp: wheel_in_time_def)
  moreover have "inTimingWheel w' s \<longleftrightarrow> inTimingWheel w s \<and> fst ?r \<noteq> Some s" for s
  proof -
    have "distinct (map snd (due q))"
      using representsD(6) [OF q(1)] .
    then have "s \<in> snd ` set (due (snd ?r)) \<longleftrightarrow> s \<in> snd ` set (due q) \<and> fst ?r \<noteq> Some s"
      by (cases "due q") (fastforce simp: spec_expired_def image_iff split: if_splits)+
    then show ?thesis
      using representsD(8) [OF q(1), of s] representsD(8) [OF w'(2), of s] by simp
  qed
  moreover have "fst ?r = Some s \<Longrightarrow> inTimingWheel w s" for s
    using representsD(8) [OF q(1), of s] by (auto simp: spec_expired_def split: list.splits if_splits)
  moreover have "tick_at w now < tick_nat w' s" if "fst ?r = None" "inTimingWheel w' s" for s
  proof -
    have "s \<in> snd ` set (due (snd ?r))" "due (snd ?r) = due q"
      using that representsD(8) [OF w'(2), of s] by (auto simp: spec_expired_def split: list.splits if_splits)
    then obtain k where k: "(k, s) \<in> set (due q)" "(k, s) \<in> set (due (snd ?r))"
      by auto
    then have "tick_at w now < k"
      using that(1) representsD(5) [OF q(1)] by (cases "due q") (fastforce simp: spec_expired_def image_iff split: if_splits)+
    then show ?thesis
      using representsD(7) [OF w'(2) k(2)] by simp
  qed
  ultimately show thesis
    using that w'(1) clock by blast
qed

section \<open>The invariant\<close>

text \<open>
  \<open>registered\<close> are the sockets in the epoll descriptor, \<open>constructed\<close> those the multiplexer is answerable for,
  \<open>sane\<close> is whatever the environment keeps of the world. Every socket of the loop is registered and alive,
  its descriptor is within the event cache, and it has a timer, unless it is permanent or in \<open>late\<close> (its
  timer has just expired). A constructed socket is in one of the two lists, or in \<open>lost\<close>.
\<close>

type_synonym mux_config = "u32 \<times> u32 \<times> date \<times> u32 \<times> u32"

record 'w mux_view =
  registered :: "'w \<Rightarrow> nat set"
  constructed :: "'w \<Rightarrow> nat set"
  lost :: "nat set"
  sane :: "'w \<Rightarrow> bool"
  config :: mux_config

text \<open>What the constructor sets for good.\<close>

definition config_of :: "multiplexer \<Rightarrow> mux_config" where
  "config_of m =
     (maxSockets m, idleTimeoutMsec m, wheelStart (timingWheel m), tickMilliSeconds (timingWheel m), maxTicks (timingWheel m))"

definition timers_ok :: "'w mux_env \<Rightarrow> nat set \<Rightarrow> multiplexer \<Rightarrow> 'w \<Rightarrow> bool" where
  "timers_ok env late m w \<longleftrightarrow>
     wheel_in_time (timingWheel m) (idleTimeoutMsec m) (clock env w) \<and>
     (\<forall>s. inTimingWheel (timingWheel m) s \<longrightarrow> s \<in> set (activeSockets m)) \<and>
     (\<forall>s \<in> set (activeSockets m).
       s \<notin> late \<longrightarrow> 0 < idleTimeoutMsec m \<longrightarrow> \<not> isPermanent env s w \<longrightarrow> inTimingWheel (timingWheel m) s)"

definition sockets_ok :: "'w mux_env \<Rightarrow> 'w mux_view \<Rightarrow> multiplexer \<Rightarrow> 'w \<Rightarrow> bool" where
  "sockets_ok env view m w \<longleftrightarrow>
     events m \<and> distinct (activeSockets m @ deadSockets m) \<and>
     activeSocketCount m = of_nat (length (activeSockets m)) \<and> length (activeSockets m) \<le> unat (maxSockets m) \<and>
     unat (maxSockets m) < 2 ^ 31 \<and>
     (\<forall>s \<in> set (activeSockets m). \<not> isDead env s w \<and> in_cache m (fdOf env s w)) \<and>
     (\<forall>s \<in> set (deadSockets m). isDead env s w) \<and> registered view w = set (activeSockets m) \<and>
     constructed view w \<subseteq> set (activeSockets m) \<union> set (deadSockets m) \<union> lost view \<and> sane view w"

definition mux_inv :: "'w mux_env \<Rightarrow> 'w mux_view \<Rightarrow> nat set \<Rightarrow> multiplexer \<times> 'w \<Rightarrow> bool" where
  "mux_inv env view late mw \<longleftrightarrow>
     (case mw of (m, w) \<Rightarrow> timers_ok env late m w \<and> sockets_ok env view m w \<and> config_of m = config view)"

text \<open>What a callback leaves: no socket is lost, the clock does not run backwards.\<close>

definition mux_grows :: "'w mux_env \<Rightarrow> multiplexer \<times> 'w \<Rightarrow> multiplexer \<times> 'w \<Rightarrow> bool" where
  "mux_grows env mw mw' \<longleftrightarrow>
     (case (mw, mw') of ((m, w), m', w') \<Rightarrow>
        idleTimeoutMsec m' = idleTimeoutMsec m \<and> maxSockets m' = maxSockets m \<and>
        same_clock (timingWheel m) (timingWheel m') \<and> maxTicks (timingWheel m') = maxTicks (timingWheel m) \<and>
        tick_at (timingWheel m) (clock env w) \<le> tick_at (timingWheel m) (clock env w') \<and>
        set (deadSockets m) \<subseteq> set (deadSockets m') \<and>
        set (activeSockets m) \<subseteq> set (activeSockets m') \<union> set (deadSockets m'))"

lemma config_grows: "mux_grows env (m, w) (m', w') \<Longrightarrow> config_of m' = config_of m"
  by (simp add: mux_grows_def config_of_def same_clock_def)

text \<open>A callback also leaves the current tick of the wheel.\<close>

definition callback_step :: "'w mux_env \<Rightarrow> multiplexer \<times> 'w \<Rightarrow> multiplexer \<times> 'w \<Rightarrow> bool" where
  "callback_step env mw mw' \<longleftrightarrow>
     mux_grows env mw mw' \<and> currentTick (timingWheel (fst mw')) = currentTick (timingWheel (fst mw))"

lemma callback_step_refl [simp]: "callback_step env mw mw"
  by (simp add: callback_step_def mux_grows_def same_clock_def split: prod.split)

lemma mux_grows_refl [simp]: "mux_grows env mw mw"
  by (simp add: mux_grows_def same_clock_def split: prod.split)

lemma mux_grows_trans: "mux_grows env a b \<Longrightarrow> mux_grows env b c \<Longrightarrow> mux_grows env a c"
  by (force simp: mux_grows_def same_clock_def tick_at_def now_tick_def wheel_ticks_def split: prod.splits)

lemma callback_step_trans: "callback_step env a b \<Longrightarrow> callback_step env b c \<Longrightarrow> callback_step env a c"
  by (auto simp: callback_step_def intro: mux_grows_trans)

lemma callback_step_grows: "callback_step env a b \<Longrightarrow> mux_grows env a b"
  by (simp add: callback_step_def)

text \<open>A callback without an answer, and one with an answer that decides whether its socket is kept.\<close>

definition polite_call ::
  "'w mux_env \<Rightarrow> 'w mux_view \<Rightarrow> (multiplexer \<Rightarrow> bool) \<Rightarrow> (multiplexer \<times> 'w \<Rightarrow> multiplexer \<times> 'w) \<Rightarrow> bool" where
  "polite_call env view P f \<longleftrightarrow>
     (\<forall>late mw. mux_inv env view late mw \<and> P (fst mw) \<longrightarrow> mux_inv env view late (f mw) \<and> callback_step env mw (f mw))"

definition polite_event ::
  "'w mux_env \<Rightarrow> 'w mux_view \<Rightarrow> (error \<Rightarrow> bool) \<Rightarrow> nat \<Rightarrow> (multiplexer \<times> 'w \<Rightarrow> error \<times> multiplexer \<times> 'w) \<Rightarrow> bool" where
  "polite_event env view keep s f \<longleftrightarrow>
     (\<forall>late mw e mw'. mux_inv env view late mw \<and> s \<in> set (activeSockets (fst mw)) \<and> f mw = (e, mw') \<longrightarrow>
        mux_inv env view late mw' \<and> callback_step env mw mw' \<and> (keep e \<longrightarrow> s \<in> set (activeSockets (fst mw'))))"

definition same_sockets :: "'w mux_env \<Rightarrow> 'w \<Rightarrow> 'w \<Rightarrow> bool" where
  "same_sockets env w w' \<longleftrightarrow>
     clock env w' = clock env w \<and> (\<forall>s. isDead env s w' = isDead env s w \<and> isPermanent env s w' = isPermanent env s w \<and>
       fdOf env s w' = fdOf env s w)"

section \<open>The operations\<close>

lemma stop_timer_fields [simp]:
  "idleTimeoutMsec (stop_timer s m) = idleTimeoutMsec m" "maxSockets (stop_timer s m) = maxSockets m"
  "events (stop_timer s m) = events m" "interests (stop_timer s m) = interests m"
  "activeSocketCount (stop_timer s m) = activeSocketCount m" "activeSockets (stop_timer s m) = activeSockets m"
  "deadSockets (stop_timer s m) = deadSockets m" "epollOpen (stop_timer s m) = epollOpen m"
  by (simp_all add: stop_timer_def)

lemma set_interest_fields [simp]:
  "idleTimeoutMsec (set_interest fd v m) = idleTimeoutMsec m" "maxSockets (set_interest fd v m) = maxSockets m"
  "events (set_interest fd v m) = events m" "timingWheel (set_interest fd v m) = timingWheel m"
  "activeSocketCount (set_interest fd v m) = activeSocketCount m" "activeSockets (set_interest fd v m) = activeSockets m"
  "deadSockets (set_interest fd v m) = deadSockets m"
  by (simp_all add: set_interest_def)

lemma stop_timer_in_time:
  assumes "wheel_in_time (timingWheel m) idle now"
  shows "wheel_in_time (timingWheel (stop_timer s m)) idle now" "same_wheel (timingWheel m) (timingWheel (stop_timer s m))"
    "inTimingWheel (timingWheel (stop_timer s m)) t \<longleftrightarrow> inTimingWheel (timingWheel m) t \<and> t \<noteq> s"
proof -
  obtain e w' where r: "wheel_remove (Some s) (timingWheel m) = (e, w')"
    by fastforce
  show "wheel_in_time (timingWheel (stop_timer s m)) idle now" "same_wheel (timingWheel m) (timingWheel (stop_timer s m))"
    "inTimingWheel (timingWheel (stop_timer s m)) t \<longleftrightarrow> inTimingWheel (timingWheel m) t \<and> t \<noteq> s"
    using wheel_remove_in_time [OF assms r] wheel_fields(2) [OF r] assms r by (auto simp: stop_timer_def)
qed

text \<open>
  The kernel: \<open>epoll_ctl\<close> changes the registration of the socket only, and the removal succeeds exactly for
  a registered one. \<open>markDead\<close> sets the mark of its socket.
\<close>

locale epoll_kernel =
  fixes env :: "'w mux_env" and view :: "'w mux_view"
  assumes ctl: "epollCtl env op (fdOf env s w) ev s w = (e, w') \<Longrightarrow> sane view w \<Longrightarrow>
      same_sockets env w w' \<and> sane view w' \<and> constructed view w' = constructed view w \<and>
      registered view w' =
        (if e \<noteq> ESB_SUCCESS then registered view w
         else case op of EPOLL_CTL_ADD \<Rightarrow> insert s (registered view w) | EPOLL_CTL_MOD \<Rightarrow> registered view w
           | EPOLL_CTL_DEL \<Rightarrow> registered view w - {s})"
    and ctl_del: "epollCtl env EPOLL_CTL_DEL (fdOf env s w) ev s w = (e, w') \<Longrightarrow> sane view w \<Longrightarrow>
      e = ESB_SUCCESS \<longleftrightarrow> s \<in> registered view w"
    and mark: "epollCtl env EPOLL_CTL_DEL fd ev s w0 = (ESB_SUCCESS, w) \<Longrightarrow> sane view w0 \<Longrightarrow> s \<in> registered view w0 \<Longrightarrow>
      clock env (markDead env s w) = clock env w \<and> sane view (markDead env s w) \<and>
      registered view (markDead env s w) = registered view w \<and> constructed view (markDead env s w) = constructed view w \<and>
      (\<forall>t. isDead env t (markDead env s w) = (t = s \<or> isDead env t w) \<and>
        isPermanent env t (markDead env s w) = isPermanent env t w \<and> fdOf env t (markDead env s w) = fdOf env t w)"
begin

lemma mux_inv_world:
  assumes "mux_inv env view late (m, w)" "same_sockets env w w'" "sane view w'" "registered view w' = registered view w"
    and "constructed view w' = constructed view w"
  shows "mux_inv env view late (m, w') \<and> callback_step env (m, w) (m, w')"
  using assms by (simp add: mux_inv_def timers_ok_def sockets_ok_def same_sockets_def callback_step_def mux_grows_def same_clock_def)

lemma mux_invI:
  assumes "mux_inv env view late (m, w)" "callback_step env (m, w) (m', w')" "timers_ok env late' m' w'" "sockets_ok env view m' w'"
  shows "mux_inv env view late' (m', w')"
  using assms config_grows [OF callback_step_grows [OF assms(2)]] by (simp add: mux_inv_def)

lemma mux_inv_interest: "mux_inv env view late (set_interest fd v m, w) \<longleftrightarrow> mux_inv env view late (m, w)"
  by (simp add: mux_inv_def timers_ok_def sockets_ok_def in_cache_def config_of_def)

lemma callback_step_interest: "callback_step env mw (set_interest fd v m, w) \<longleftrightarrow> callback_step env mw (m, w)"
  by (simp add: callback_step_def mux_grows_def split: prod.split)

lemma update_step:
  assumes "mux_inv env view late (m, w)" "updateMultiplexedSocket env (Some s) (m, w) = (e, m', w')"
  shows "mux_inv env view late (m', w') \<and> callback_step env (m, w) (m', w') \<and> activeSockets m' = activeSockets m"
proof -
  have sane: "sane view w" "events m"
    using assms(1) by (simp_all add: mux_inv_def sockets_ok_def)
  obtain e1 w1 where r: "epollCtl env EPOLL_CTL_MOD (fdOf env s w) (interest env s w) s w = (e1, w1)"
    by fastforce
  then have "mux_inv env view late (m, w1) \<and> callback_step env (m, w) (m, w1)"
    using mux_inv_world [OF assms(1), of w1] ctl [OF r sane(1)] by (simp split: if_splits)
  then show ?thesis
    using assms sane(2) r
    by (auto simp: updateMultiplexedSocket_def Let_def mux_inv_interest callback_step_interest split: if_splits)
qed

text \<open>A socket that is not in the multiplexer and not dead can be added.\<close>

lemma start_timer_step:
  assumes "wheel_in_time (timingWheel m) (idleTimeoutMsec m) (clock env w)" "start_timer env s (m, w) = (e, m')"
  shows "\<exists>wheel. m' = m\<lparr>timingWheel := wheel\<rparr> \<and> same_wheel (timingWheel m) wheel \<and>
    wheel_in_time wheel (idleTimeoutMsec m) (clock env w) \<and>
    (\<forall>t. inTimingWheel wheel t \<longleftrightarrow> inTimingWheel (timingWheel m) t \<or>
      (t = s \<and> e = ESB_SUCCESS \<and> 0 < idleTimeoutMsec m \<and> \<not> isPermanent env s w))"
proof (cases "0 < idleTimeoutMsec m \<and> \<not> isPermanent env s w")
  case True
  obtain e1 wheel where r: "wheel_insert (Some s) (idleTimeoutMsec m) (clock env w) (timingWheel m) = (e1, wheel)"
    by fastforce
  then have "m' = m\<lparr>timingWheel := wheel\<rparr>" "e = e1"
    using assms(2) True by (auto simp: start_timer_def)
  then show ?thesis
    using wheel_insert_in_time [OF assms(1) r] wheel_fields(1) [OF r] True by auto
next
  case False
  then have "m' = m\<lparr>timingWheel := timingWheel m\<rparr>"
    using assms(2) by (auto simp: start_timer_def)
  then show ?thesis
    using assms(1) False by (intro exI [of _ "timingWheel m"]) auto
qed

lemma add_step:
  assumes inv: "mux_inv env view late (m, w)" and s: "s \<notin> set (activeSockets m) \<union> set (deadSockets m)" "\<not> isDead env s w"
    and fd: "in_cache m (fdOf env s w)" and r: "addMultiplexedSocket env (Some s) (m, w) = (e, m', w')"
  shows "mux_inv env view late (m', w') \<and> callback_step env (m, w) (m', w') \<and> deadSockets m' = deadSockets m \<and>
    activeSockets m' = (if e = ESB_SUCCESS then activeSockets m @ [s] else activeSockets m)"
proof -
  have T: "timers_ok env late m w" and S: "sockets_ok env view m w"
    using inv by (simp_all add: mux_inv_def)
  have sane: "sane view w" "events m" "fdOf env s w \<noteq> - 1"
    using S fd by (auto simp: sockets_ok_def in_cache_def)
  show ?thesis
  proof (cases "maxSockets m < activeSocketCount m + 1")
    case True
    then show ?thesis
      using r sane inv by (auto simp: addMultiplexedSocket_def)
  next
    case room: False
    have count: "activeSocketCount m = of_nat (length (activeSockets m))" "length (activeSockets m) < 2 ^ 31"
      using S by (simp_all add: sockets_ok_def)
    then have "unat (activeSocketCount m + 1) = length (activeSockets m) + 1"
      by (simp add: unat_word_ariths unat_of_nat take_bit_nat_eq_self)
    then have more: "length (activeSockets m) + 1 \<le> unat (maxSockets m)"
      using room by (simp add: word_less_nat_alt)
    obtain e1 m1 where t: "start_timer env s (m, w) = (e1, m1)"
      by fastforce
    obtain wheel where wheel: "m1 = m\<lparr>timingWheel := wheel\<rparr>" "same_wheel (timingWheel m) wheel"
        "wheel_in_time wheel (idleTimeoutMsec m) (clock env w)"
        "\<And>t. inTimingWheel wheel t \<longleftrightarrow> inTimingWheel (timingWheel m) t \<or>
          (t = s \<and> e1 = ESB_SUCCESS \<and> 0 < idleTimeoutMsec m \<and> \<not> isPermanent env s w)"
      using start_timer_step [OF _ t] T unfolding timers_ok_def by blast
    have absent: "\<not> inTimingWheel (timingWheel m) s"
      using T s(1) by (auto simp: timers_ok_def)
    show ?thesis
    proof (cases "e1 = ESB_SUCCESS")
      case False
      then have "m' = m\<lparr>timingWheel := wheel\<rparr>" "w' = w" "e = e1"
        using r sane room t wheel(1) by (auto simp: addMultiplexedSocket_def Let_def)
      then show ?thesis
        using inv wheel(2-) False
        by (auto simp: mux_inv_def timers_ok_def sockets_ok_def config_of_def callback_step_def mux_grows_def same_wheel_def
            same_clock_def in_cache_def)
    next
      case started: True
      let ?ev = "EPOLLET OR interest env s w"
      obtain e2 w1 where c: "epollCtl env EPOLL_CTL_ADD (fdOf env s w) ?ev s w = (e2, w1)"
        by fastforce
      note k = ctl [OF c sane(1)]
      have world: "mux_inv env view late (m, w1) \<and> callback_step env (m, w) (m, w1)" if "e2 \<noteq> ESB_SUCCESS"
        using mux_inv_world [OF inv, of w1] k that by simp
      have same: "clock env w1 = clock env w" "isDead env t w1 = isDead env t w" "isPermanent env t w1 = isPermanent env t w"
          "fdOf env t w1 = fdOf env t w" for t
        using k by (simp_all add: same_sockets_def)
      show ?thesis
      proof (cases "e2 = ESB_SUCCESS")
        case True
        let ?m2 = "m\<lparr>timingWheel := wheel, activeSocketCount := activeSocketCount m + 1, activeSockets := activeSockets m @ [s]\<rparr>"
        have out: "e = ESB_SUCCESS" "m' = set_interest (fdOf env s w) ?ev ?m2" "w' = w1"
          using r sane room t wheel(1) started c True fd by (auto simp: addMultiplexedSocket_def Let_def in_cache_def)
        have "timers_ok env late ?m2 w1"
          using T wheel(3,4) started by (auto simp: timers_ok_def same)
        moreover have "sockets_ok env view ?m2 w1"
          using S s fd k True more by (auto simp: sockets_ok_def same in_cache_def)
        moreover have "callback_step env (m, w) (?m2, w1)"
          using wheel(2) by (auto simp: callback_step_def mux_grows_def same_wheel_def same)
        ultimately show ?thesis
          using out mux_invI [OF inv] by (simp add: mux_inv_interest callback_step_interest)
      next
        case False
        let ?m2 = "m\<lparr>timingWheel := wheel\<rparr>"
        have "remove1 s (activeSockets m @ [s]) = activeSockets m"
          using s(1) by (simp add: remove1_append)
        then have out: "e = e2" "m' = stop_timer s ?m2" "w' = w1"
          using r sane room t wheel(1) started c False fd by (auto simp: addMultiplexedSocket_def Let_def)
        note stop = stop_timer_in_time [of ?m2, simplified, OF wheel(3)]
        have "same_wheel (timingWheel m) (timingWheel m')"
          using same_wheel_trans [OF wheel(2)] stop(2) out(2) by simp
        moreover have "inTimingWheel (timingWheel m') t \<longleftrightarrow> inTimingWheel (timingWheel m) t" for t
          using stop(3) wheel(4) absent out(2) by auto
        moreover have "registered view w1 = registered view w"
          using k False by simp
        ultimately show ?thesis
          using inv stop(1) out False k
          by (simp add: mux_inv_def timers_ok_def sockets_ok_def config_of_def callback_step_def mux_grows_def same_wheel_def
              same_clock_def same in_cache_def)
      qed
    qed
  qed
qed

text \<open>The removal fails for a socket that is not registered, and otherwise ends with its callback.\<close>

lemma remove_cases:
  assumes inv: "mux_inv env view late (m, w)" and r: "removeMultiplexedSocket env (Some s) (m, w) = (e, mw')"
  obtains (absent) w' where "e \<noteq> ESB_SUCCESS" "s \<notin> set (activeSockets m)" "mw' = (m, w')" "mux_inv env view late (m, w')"
      "callback_step env (m, w) (m, w')"
  | (present) m1 w1 where "e = ESB_SUCCESS" "s \<in> set (activeSockets m)" "mw' = onRemove env s (m1, w1)"
      "mux_inv env view (late - {s}) (m1, w1)" "callback_step env (m, w) (m1, w1)"
      "activeSockets m1 = remove1 s (activeSockets m)" "deadSockets m1 = deadSockets m @ [s]"
      "\<And>t. inTimingWheel (timingWheel m1) t \<longleftrightarrow> inTimingWheel (timingWheel m) t \<and> t \<noteq> s"
proof -
  have T: "timers_ok env late m w" and S: "sockets_ok env view m w"
    using inv by (simp_all add: mux_inv_def)
  have sane: "sane view w" "events m" "registered view w = set (activeSockets m)"
    using S by (simp_all add: sockets_ok_def)
  obtain e1 w1 where c: "epollCtl env EPOLL_CTL_DEL (fdOf env s w) 0 s w = (e1, w1)"
    by fastforce
  note k = ctl [OF c sane(1)]
  show thesis
  proof (cases "s \<in> set (activeSockets m)")
    case False
    then have "e1 \<noteq> ESB_SUCCESS"
      using ctl_del [OF c sane(1)] sane(3) by simp
    moreover from this have "mux_inv env view late (m, w1) \<and> callback_step env (m, w) (m, w1)"
      using mux_inv_world [OF inv, of w1] k by simp
    ultimately show thesis
      using absent [of w] absent [of w1] r c sane(2) inv False
      by (auto simp: removeMultiplexedSocket_def Let_def split: if_splits)
  next
    case True
    then have e1: "e1 = ESB_SUCCESS" and fd: "in_cache m (fdOf env s w)" "fdOf env s w \<noteq> - 1"
      using ctl_del [OF c sane(1)] sane(3) S by (auto simp: sockets_ok_def in_cache_def)
    let ?m0 = "set_interest (fdOf env s w) 0 m\<lparr>activeSockets := remove1 s (activeSockets m)\<rparr>"
    let ?m1 = "stop_timer s ?m0\<lparr>activeSocketCount := activeSocketCount m - 1, deadSockets := deadSockets m @ [s]\<rparr>"
    let ?w = "markDead env s w1"
    have out: "e = ESB_SUCCESS" "mw' = onRemove env s (?m1, ?w)"
      using r c sane(2) e1 fd by (simp_all add: removeMultiplexedSocket_def Let_def)
    have w0: "wheel_in_time (timingWheel ?m0) (idleTimeoutMsec m) (clock env w)"
      using T by (simp add: timers_ok_def)
    note stop = stop_timer_in_time [OF w0, simplified]
    note dead = mark [OF c [unfolded e1] sane(1)]
    have same: "clock env ?w = clock env w" "isDead env t ?w \<longleftrightarrow> t = s \<or> isDead env t w" "isPermanent env t ?w = isPermanent env t w"
        "fdOf env t ?w = fdOf env t w" "sane view ?w" "registered view ?w = set (activeSockets m) - {s}"
        "constructed view ?w = constructed view w" for t
      using k dead True e1 sane(3) by (simp_all add: same_sockets_def)
    have distinct: "distinct (activeSockets m @ deadSockets m)"
      using S by (simp add: sockets_ok_def)
    have timers: "timers_ok env (late - {s}) ?m1 ?w"
      using T stop(1,3) distinct by (auto simp: timers_ok_def same)
    obtain n where "length (activeSockets m) = Suc n" "length (remove1 s (activeSockets m)) = n"
      using True by (cases "length (activeSockets m)") (auto simp: length_remove1)
    then have "sockets_ok env view ?m1 ?w"
      using S distinct True by (auto simp: sockets_ok_def same in_cache_def)
    moreover have step: "callback_step env (m, w) (?m1, ?w)"
      using stop(2) distinct by (auto simp: callback_step_def mux_grows_def same_wheel_def same)
    ultimately have "mux_inv env view (late - {s}) (?m1, ?w)"
      using mux_invI [OF inv step timers] by blast
    then show thesis
      using present [of ?m1 ?w] out True stop(3) step by simp
  qed
qed

end

end
