(* ===== verification/EventLoop.thy ===== *)
theory EventLoop
  imports MuxInvariant
begin

text \<open>
  The loop of the multiplexer (\<open>EpollMultiplexer::run\<close>) under the contract of its callbacks: every part of it
  keeps the invariant, so a callback is called for live sockets only.
\<close>

section \<open>The contract of the callbacks\<close>

text \<open>
  A callback may add and remove sockets. One that answers that its socket is to be kept has not removed it;
  only the loop removes dead sockets from the list of the dead, and then they are destroyed.
\<close>

locale event_loop = epoll_kernel +
  assumes wait: "mux_inv env view {} (m, w) \<Longrightarrow> epollWait env n t w = (r, w') \<Longrightarrow>
      mux_inv env view {} (m, w') \<and> callback_step env (m, w) (m, w') \<and>
      (\<forall>evs. r = Ready evs \<longrightarrow> fst ` set evs \<subseteq> set (activeSockets m))"
    and on_accept: "polite_event env view (\<lambda>e. e = ESB_AGAIN \<or> e = ESB_SUCCESS) s (onAccept env s)"
    and on_connect: "polite_event env view keeps s (onConnect env s)"
    and on_readable: "polite_event env view keeps s (onReadable env s)"
    and on_writable: "polite_event env view keeps s (onWritable env s)"
    and on_error: "polite_call env view (\<lambda>m. s \<in> set (activeSockets m)) (onError env s err)"
    and on_close: "polite_call env view (\<lambda>m. s \<in> set (activeSockets m)) (onRemoteClose env s)"
    and on_idle: "polite_call env view (\<lambda>m. s \<in> set (activeSockets m)) (onIdle env s)"
    and on_remove: "polite_call env view (\<lambda>m. s \<in> set (deadSockets m)) (onRemove env s)"
    and on_cleanup: "mux_inv env (view\<lparr>lost := insert s (lost view)\<rparr>) late mw \<Longrightarrow>
      s \<notin> set (activeSockets (fst mw)) \<union> set (deadSockets (fst mw)) \<Longrightarrow>
      mux_inv env view late (onCleanup env s mw) \<and> callback_step env mw (onCleanup env s mw)"
begin

lemma polite_callD:
  assumes "polite_call env view P f" "mux_inv env view late mw" "P (fst mw)"
  shows "mux_inv env view late (f mw)" "callback_step env mw (f mw)"
  using assms unfolding polite_call_def by blast+

lemma polite_eventD:
  assumes "polite_event env view keep s f" "mux_inv env view late mw" "s \<in> set (activeSockets (fst mw))" "f mw = (e, mw')"
  shows "mux_inv env view late mw'" "callback_step env mw mw'" "keep e \<Longrightarrow> s \<in> set (activeSockets (fst mw'))"
  using assms unfolding polite_event_def by blast+

lemma mux_inv_late:
  assumes "mux_inv env view late mw" "late \<inter> set (activeSockets (fst mw)) \<subseteq> late'"
  shows "mux_inv env view late' mw"
  using assms by (auto simp: mux_inv_def timers_ok_def split: prod.splits)

lemma remove_step:
  assumes "mux_inv env view late mw" "removeMultiplexedSocket env (Some s) mw = (e, mw')"
  shows "mux_inv env view (late - {s}) mw' \<and> callback_step env mw mw'"
proof -
  obtain m w where mw: "mw = (m, w)"
    by (cases mw)
  from assms [unfolded mw] show ?thesis
  proof (cases rule: remove_cases)
    case (absent w1)
    then show ?thesis
      using mux_inv_late [of late "(m, w1)" "late - {s}"] mw by auto
  next
    case (present m1 w1)
    then have "s \<in> set (deadSockets (fst (m1, w1)))"
      by simp
    from polite_callD [OF on_remove present(4) this] show ?thesis
      using present(3) callback_step_trans [OF present(5)] mw by simp
  qed
qed

lemma remove_snd:
  assumes "mux_inv env view late mw"
  shows "mux_inv env view (late - {s}) (snd (removeMultiplexedSocket env (Some s) mw))"
    "callback_step env mw (snd (removeMultiplexedSocket env (Some s) mw))"
  using remove_step [OF assms] by (metis prod.collapse)+

lemma update_snd:
  assumes "mux_inv env view late mw"
  shows "mux_inv env view late (snd (updateMultiplexedSocket env (Some s) mw))"
    "callback_step env mw (snd (updateMultiplexedSocket env (Some s) mw))"
  using update_step assms by (metis prod.collapse)+

section \<open>An event\<close>

lemma accept_loop_step:
  assumes "accept_loop env s mw = Some (keep, mw')" "mux_inv env view late mw" "s \<in> set (activeSockets (fst mw))"
  shows "mux_inv env view late mw' \<and> callback_step env mw mw' \<and> (keep \<longrightarrow> s \<in> set (activeSockets (fst mw')))"
proof -
  let ?Q = "\<lambda>s mw r. mux_inv env view late mw \<longrightarrow> s \<in> set (activeSockets (fst mw)) \<longrightarrow>
      mux_inv env view late (snd r) \<and> callback_step env mw (snd r) \<and> (fst r \<longrightarrow> s \<in> set (activeSockets (fst (snd r))))"
  let ?P = "\<lambda>env' s mw r. env' = env \<longrightarrow> ?Q s mw r"
  have "?P env s mw (keep, mw')"
  proof (rule accept_loop.raw_induct [where P = ?P, OF _ assms(1)])
    fix rec env' s mw r
    assume IH: "\<And>env' s mw r. rec env' s mw = Some r \<Longrightarrow> ?P env' s mw r"
      and r: "(case onAccept env' s mw of (e, mw1) \<Rightarrow> if e = ESB_AGAIN then rec env' s mw1 else Some (e = ESB_SUCCESS, mw1)) = Some r"
    show "?P env' s mw r"
    proof (intro impI)
      assume env': "env' = env" and inv: "mux_inv env view late mw" and s: "s \<in> set (activeSockets (fst mw))"
      obtain e mw1 where a: "onAccept env s mw = (e, mw1)"
        by (rule prod.exhaust)
      note step = polite_eventD [OF on_accept inv s a]
      show "mux_inv env view late (snd r) \<and> callback_step env mw (snd r) \<and> (fst r \<longrightarrow> s \<in> set (activeSockets (fst (snd r))))"
      proof (cases "e = ESB_AGAIN")
        case True
        then have "rec env s mw1 = Some r" "s \<in> set (activeSockets (fst mw1))"
          using r a env' step(3) by simp_all
        then show ?thesis
          using IH [of env s mw1 r] step(1,2) callback_step_trans by blast
      next
        case False
        then show ?thesis
          using r a env' step by auto
      qed
    qed
  qed
  then show ?thesis
    using assms(2,3) by simp
qed

lemma connect_result_step:
  assumes "polite_event env view keeps s f" "mux_inv env view late mw" "s \<in> set (activeSockets (fst mw))"
    and "connect_result (f mw) = (keep, mw')"
  shows "mux_inv env view late mw' \<and> callback_step env mw mw' \<and> (keep \<longrightarrow> s \<in> set (activeSockets (fst mw')))"
  using polite_eventD [OF assms(1-3)] assms(4) by (auto simp: connect_result_def split: prod.splits)

lemma listening_event_step:
  assumes "listening_event env s ev mw = Some (keep, mw')" "mux_inv env view late mw" "s \<in> set (activeSockets (fst mw))"
  shows "mux_inv env view late mw' \<and> callback_step env mw mw' \<and> (keep \<longrightarrow> s \<in> set (activeSockets (fst mw')))"
  using assms accept_loop_step [of s mw keep mw' late] polite_callD [OF on_error assms(2), of s]
  by (auto simp: listening_event_def Let_def split: if_splits)

lemma connecting_event_step:
  assumes "connecting_event env s ev mw = (keep, mw')" "mux_inv env view late mw" "s \<in> set (activeSockets (fst mw))"
  shows "mux_inv env view late mw' \<and> callback_step env mw mw' \<and> (keep \<longrightarrow> s \<in> set (activeSockets (fst mw')))"
  using assms connect_result_step [OF on_connect assms(2,3)] polite_callD [OF on_error assms(2), of s]
    polite_callD [OF on_close assms(2), of s]
  by (auto simp: connecting_event_def Let_def split: if_splits)

lemma connected_event_step:
  assumes "connected_event env s ev mw = (keep, mw')" "mux_inv env view late mw" "s \<in> set (activeSockets (fst mw))"
  shows "mux_inv env view late mw' \<and> callback_step env mw mw' \<and> (keep \<longrightarrow> s \<in> set (activeSockets (fst mw')))"
proof -
  obtain k1 mw1 where r: "(if wantsRead env s (snd mw) \<and> ev AND EPOLLIN \<noteq> 0 then connect_result (onReadable env s mw) else (True, mw)) = (k1, mw1)"
    by (rule prod.exhaust)
  have read: "mux_inv env view late mw1" "callback_step env mw mw1" "k1 \<Longrightarrow> s \<in> set (activeSockets (fst mw1))"
    using r connect_result_step [OF on_readable assms(2,3)] assms(2,3) by (auto split: if_splits)
  consider (error) "ev AND EPOLLERR \<noteq> 0" | (close) "ev AND EPOLLERR = 0" "ev AND EPOLLHUP \<noteq> 0"
    | (writable) "ev AND EPOLLERR = 0" "ev AND EPOLLHUP = 0" "k1 \<and> wantsWrite env s (snd mw1) \<and> ev AND EPOLLOUT \<noteq> 0"
    | (ready) "ev AND EPOLLERR = 0" "ev AND EPOLLHUP = 0" "\<not> (k1 \<and> wantsWrite env s (snd mw1) \<and> ev AND EPOLLOUT \<noteq> 0)"
    by blast
  then show ?thesis
  proof cases
    case error
    then show ?thesis
      using assms polite_callD [OF on_error assms(2), of s] by (auto simp: connected_event_def)
  next
    case close
    then show ?thesis
      using assms polite_callD [OF on_close assms(2), of s] by (auto simp: connected_event_def)
  next
    case writable
    then have "connect_result (onWritable env s mw1) = (keep, mw')"
      using assms(1) r by (simp add: connected_event_def)
    from connect_result_step [OF on_writable read(1) read(3) this] show ?thesis
      using writable callback_step_trans [OF read(2)] by blast
  next
    case ready
    then have "keep = k1" "mw' = mw1"
      using assms(1) r by (auto simp: connected_event_def split: if_splits)
    then show ?thesis
      using read by blast
  qed
qed

section \<open>The events of a round\<close>

lemma wheel_change:
  assumes "mux_inv env view late (m, w)" "wheel_in_time wheel (idleTimeoutMsec m) (clock env w)" "same_wheel (timingWheel m) wheel"
    and "\<And>t. inTimingWheel wheel t \<Longrightarrow> t \<in> set (activeSockets m)"
    and "\<And>t. t \<notin> late' \<Longrightarrow> t \<notin> late \<and> (inTimingWheel (timingWheel m) t \<longrightarrow> inTimingWheel wheel t)"
  shows "mux_inv env view late' (m\<lparr>timingWheel := wheel\<rparr>, w)" "callback_step env (m, w) (m\<lparr>timingWheel := wheel\<rparr>, w)"
  using assms
  by (auto simp: mux_inv_def timers_ok_def sockets_ok_def in_cache_def callback_step_def mux_grows_def same_wheel_def
      config_of_def same_clock_def)

lemma after_event_step:
  assumes inv: "mux_inv env view {} (m, w)" and s: "keep \<Longrightarrow> s \<in> set (activeSockets m)"
    and due: "due_at (timingWheel m) now (idleTimeoutMsec m) < 2 ^ 31"
  shows "mux_inv env view {} (after_event env now s (keep, m, w))" "callback_step env (m, w) (after_event env now s (keep, m, w))"
proof -
  note remove = remove_snd [of "{}" _ s, simplified]
  have "mux_inv env view {} (after_event env now s (keep, m, w)) \<and> callback_step env (m, w) (after_event env now s (keep, m, w))"
  proof (cases "keep \<and> \<not> (isPermanent env s w \<or> idleTimeoutMsec m = 0)")
    case False
    then show ?thesis
      using remove [OF inv] update_snd [OF inv] by (auto simp: after_event_def)
  next
    case True
    obtain e wheel where u: "wheel_update (Some s) (idleTimeoutMsec m) now (timingWheel m) = (e, wheel)"
      by (rule prod.exhaust)
    have time: "wheel_in_time (timingWheel m) (idleTimeoutMsec m) (clock env w)" and T: "timers_ok env {} m w"
      using inv by (simp_all add: mux_inv_def timers_ok_def)
    note wheel = wheel_update_in_time [OF time due u] wheel_fields(3) [OF u]
    have active: "s \<in> set (activeSockets m)"
      using s True by simp
    have timers: "t \<in> set (activeSockets m)" if "inTimingWheel wheel t" for t
      using that wheel(2) [of t] active T by (auto simp: timers_ok_def split: if_splits)
    let ?m = "m\<lparr>timingWheel := wheel\<rparr>"
    show ?thesis
    proof (cases "e = ESB_UNDERFLOW")
      case True
      have m1: "mux_inv env view {s} (?m, w)" "callback_step env (m, w) (?m, w)"
        using wheel_change [OF inv wheel(1,3) timers, of "{s}"] wheel(2) by auto
      note idle = polite_callD [OF on_idle m1(1), of s, simplified, OF active]
      show ?thesis
        using remove_snd [OF idle(1), of s] callback_step_trans [OF callback_step_trans [OF m1(2) idle(2)]] True u
          \<open>keep \<and> \<not> (isPermanent env s w \<or> idleTimeoutMsec m = 0)\<close>
        by (auto simp: after_event_def Let_def)
    next
      case False
      have m1: "mux_inv env view {} (?m, w)" "callback_step env (m, w) (?m, w)"
        using wheel_change [OF inv wheel(1,3) timers, of "{}"] wheel(2) False by auto
      show ?thesis
        using remove [OF m1(1)] update_snd [OF m1(1), of s] callback_step_trans [OF m1(2)] False u
          \<open>keep \<and> \<not> (isPermanent env s w \<or> idleTimeoutMsec m = 0)\<close>
        by (auto simp: after_event_def Let_def)
    qed
  qed
  then show "mux_inv env view {} (after_event env now s (keep, m, w))" "callback_step env (m, w) (after_event env now s (keep, m, w))"
    by simp_all
qed

lemma step_due:
  assumes "callback_step env (m, w) (m', w')"
  shows "due_at (timingWheel m') = due_at (timingWheel m)" "tick_at (timingWheel m') = tick_at (timingWheel m)"
    "idleTimeoutMsec m' = idleTimeoutMsec m"
  using assms same_clock_ticks by (auto simp: callback_step_def mux_grows_def)

text \<open>An event for a socket of the loop, or for one that has died in this round.\<close>

lemma process_event_step:
  assumes inv: "mux_inv env view {} mw" and s: "s \<in> set (activeSockets (fst mw)) \<union> set (deadSockets (fst mw))"
    and due: "due_at (timingWheel (fst mw)) now (idleTimeoutMsec (fst mw)) < 2 ^ 31"
    and r: "process_event env now (s, ev) mw = Some mw'"
  shows "mux_inv env view {} mw' \<and> callback_step env mw mw'"
proof (cases "isDead env s (snd mw)")
  case True
  then show ?thesis
    using r inv by (simp add: process_event_def)
next
  case False
  then have active: "s \<in> set (activeSockets (fst mw))"
    using s inv by (auto simp: mux_inv_def sockets_ok_def split: prod.splits)
  obtain keep m1 w1 where e: "(if wantsAccept env s (snd mw) then listening_event env s ev mw
             else if wantsConnect env s (snd mw) then Some (connecting_event env s ev mw)
             else Some (connected_event env s ev mw)) = Some (keep, m1, w1)" "mw' = after_event env now s (keep, m1, w1)"
    using r False unfolding process_event_def by (auto simp del: option.map)
  have step: "mux_inv env view {} (m1, w1) \<and> callback_step env mw (m1, w1) \<and> (keep \<longrightarrow> s \<in> set (activeSockets m1))"
    using e(1) listening_event_step [OF _ inv active, of ev keep "(m1, w1)"] connecting_event_step [OF _ inv active, of ev keep "(m1, w1)"]
      connected_event_step [OF _ inv active, of ev keep "(m1, w1)"] by (auto split: if_splits)
  then have "due_at (timingWheel m1) now (idleTimeoutMsec m1) < 2 ^ 31"
    using due step_due [of "fst mw" "snd mw" m1 w1] by simp
  then show ?thesis
    using after_event_step [of m1 w1 keep s now] step callback_step_trans [of env mw "(m1, w1)"] e(2) by blast
qed

lemma process_events_step:
  assumes "mux_inv env view {} mw" "fst ` set evs \<subseteq> set (activeSockets (fst mw)) \<union> set (deadSockets (fst mw))"
    and "due_at (timingWheel (fst mw)) now (idleTimeoutMsec (fst mw)) < 2 ^ 31" "process_events env now evs mw = Some mw'"
  shows "mux_inv env view {} mw' \<and> callback_step env mw mw'"
  using assms
proof (induction evs arbitrary: mw)
  case (Cons e evs)
  obtain s ev where e: "e = (s, ev)"
    by (rule prod.exhaust)
  obtain mw1 where r: "process_event env now (s, ev) mw = Some mw1" "process_events env now evs mw1 = Some mw'"
    using Cons.prems(4) e by (auto split: option.splits)
  have step: "mux_inv env view {} mw1" "callback_step env mw mw1"
    using process_event_step [OF Cons.prems(1) _ Cons.prems(3) r(1)] Cons.prems(2) e by auto
  then have "set (activeSockets (fst mw)) \<union> set (deadSockets (fst mw)) \<subseteq> set (activeSockets (fst mw1)) \<union> set (deadSockets (fst mw1))"
    by (auto simp: callback_step_def mux_grows_def split: prod.splits)
  moreover have "due_at (timingWheel (fst mw1)) now (idleTimeoutMsec (fst mw1)) < 2 ^ 31"
    using Cons.prems(3) step_due [of "fst mw" "snd mw" "fst mw1" "snd mw1"] step(2) by simp
  ultimately show ?case
    using Cons.IH [OF step(1) subset_trans _ r(2)] Cons.prems(2) callback_step_trans [OF step(2), of mw'] e by auto
qed simp

lemma reap_next:
  assumes "mux_inv env view {} (m, w)" "deadSockets m = s # ss"
  shows "mux_inv env (view\<lparr>lost := insert s (lost view)\<rparr>) {} (m\<lparr>deadSockets := ss\<rparr>, w)"
    "s \<notin> set (activeSockets m) \<union> set ss" "mux_inv env view {} (onCleanup env s (m\<lparr>deadSockets := ss\<rparr>, w))"
proof -
  show *: "mux_inv env (view\<lparr>lost := insert s (lost view)\<rparr>) {} (m\<lparr>deadSockets := ss\<rparr>, w)"
    "s \<notin> set (activeSockets m) \<union> set ss"
    using assms by (auto simp: mux_inv_def timers_ok_def sockets_ok_def in_cache_def config_of_def)
  show "mux_inv env view {} (onCleanup env s (m\<lparr>deadSockets := ss\<rparr>, w))"
    using on_cleanup [OF *(1)] *(2) by simp
qed

lemma reap_step:
  assumes "reap env mw = Some mw'" "mux_inv env view {} mw"
  shows "mux_inv env view {} mw' \<and> deadSockets (fst mw') = []"
proof -
  let ?P = "\<lambda>env' mw r. env' = env \<longrightarrow> mux_inv env view {} mw \<longrightarrow> mux_inv env view {} r \<and> deadSockets (fst r) = []"
  have "?P env mw mw'"
  proof (rule reap.raw_induct [where P = ?P, OF _ assms(1)])
    fix rec env' mw r
    assume IH: "\<And>env' mw r. rec env' mw = Some r \<Longrightarrow> ?P env' mw r"
      and r: "(case mw of (m, w) \<Rightarrow> case deadSockets m of [] \<Rightarrow> Some (m, w)
           | s # ss \<Rightarrow> rec env' (onCleanup env' s (m\<lparr>deadSockets := ss\<rparr>, w))) = Some r"
    show "?P env' mw r"
    proof (intro impI)
      assume env': "env' = env" and inv: "mux_inv env view {} mw"
      obtain m w where mw: "mw = (m, w)"
        by (rule prod.exhaust)
      show "mux_inv env view {} r \<and> deadSockets (fst r) = []"
      proof (cases "deadSockets m")
        case Nil
        then show ?thesis
          using r mw inv by auto
      next
        case (Cons s ss)
        then have "mux_inv env view {} (onCleanup env s (m\<lparr>deadSockets := ss\<rparr>, w))"
          using reap_next(3) [of m w s ss] inv mw by simp
        then show ?thesis
          using IH r mw Cons env' by simp
      qed
    qed
  qed
  then show ?thesis
    using assms(2) by simp
qed

section \<open>Idle sockets\<close>

text \<open>\<open>now\<close> is when the search for idle sockets has begun.\<close>

definition idle_inv :: "date \<Rightarrow> multiplexer \<times> 'a \<Rightarrow> bool" where
  "idle_inv now mw \<longleftrightarrow>
     mux_inv env view {} mw \<and> wheel_in_time (timingWheel (fst mw)) (idleTimeoutMsec (fst mw)) now \<and>
     tick_at (timingWheel (fst mw)) now \<le> tick_at (timingWheel (fst mw)) (clock env (snd mw))"

lemma idle_inv_start: "mux_inv env view {} mw \<Longrightarrow> idle_inv (clock env (snd mw)) mw"
  by (auto simp: idle_inv_def mux_inv_def timers_ok_def split: prod.splits)

lemma in_time_clock:
  assumes "wheel_in_time wheel idle now" "wheel_in_time w0 idle' later" "same_clock w0 wheel" "maxTicks wheel = maxTicks w0"
    and "tick_at wheel now \<le> tick_at wheel later" "idle' = idle"
  shows "wheel_in_time wheel idle later"
proof -
  obtain q0 where q0: "represents w0 q0" "tick_at w0 later + span q0 < 2 ^ 31" "due_at w0 later idle < 2 ^ 31"
    using assms(2,6) by (auto simp: wheel_in_time_def)
  moreover obtain q where "represents wheel q"
    using assms(1) by (auto simp: wheel_in_time_def)
  ultimately show ?thesis
    using wheel_in_time_later [OF assms(1) same_wheel_refl _ assms(5), of q] same_clock_ticks [OF assms(3)] assms(4)
      representsD(4) [OF q0(1)] by simp
qed

text \<open>What the wheel answers: nothing more, or a socket of the loop whose timer is gone.\<close>

lemma idle_next:
  assumes "idle_inv now (m, w)"
  obtains wheel t where "nextExpired now (timingWheel m) = Some (ESB_SUCCESS, t, wheel)"
    "mux_inv env view (set_option t) (m\<lparr>timingWheel := wheel\<rparr>, w)" "mux_grows env (m, w) (m\<lparr>timingWheel := wheel\<rparr>, w)"
    "wheel_in_time wheel (idleTimeoutMsec m) now" "\<And>s. t = Some s \<Longrightarrow> s \<in> set (activeSockets m) \<and> inTimingWheel (timingWheel m) s"
    "\<And>s. inTimingWheel wheel s \<longleftrightarrow> inTimingWheel (timingWheel m) s \<and> t \<noteq> Some s"
    "\<And>s. t = None \<Longrightarrow> inTimingWheel wheel s \<Longrightarrow> tick_at wheel now < tick_nat wheel s"
proof -
  have inv: "mux_inv env view {} (m, w)" and time: "wheel_in_time (timingWheel m) (idleTimeoutMsec m) now"
    and tick: "tick_at (timingWheel m) now \<le> tick_at (timingWheel m) (clock env w)"
    using assms by (simp_all add: idle_inv_def)
  from nextExpired_in_time [OF time] obtain t wheel where r: "nextExpired now (timingWheel m) = Some (ESB_SUCCESS, t, wheel)"
    "wheel_in_time wheel (idleTimeoutMsec m) now" "same_clock (timingWheel m) wheel" "maxTicks wheel = maxTicks (timingWheel m)"
    "\<And>s. inTimingWheel wheel s \<longleftrightarrow> inTimingWheel (timingWheel m) s \<and> t \<noteq> Some s"
    "\<And>s. t = Some s \<Longrightarrow> inTimingWheel (timingWheel m) s"
    "\<And>s. t = None \<Longrightarrow> inTimingWheel wheel s \<Longrightarrow> tick_at (timingWheel m) now < tick_nat wheel s"
    by blast
  note ticks = same_clock_ticks [OF r(3)]
  have T: "timers_ok env {} m w"
    using inv by (simp add: mux_inv_def)
  have "wheel_in_time wheel (idleTimeoutMsec m) (clock env w)"
    using in_time_clock [OF r(2) _ r(3,4), of "idleTimeoutMsec m" "clock env w"] T tick ticks by (simp add: timers_ok_def)
  then have "mux_inv env view (set_option t) (m\<lparr>timingWheel := wheel\<rparr>, w)"
    using inv r(3-5) by (auto simp: mux_inv_def timers_ok_def sockets_ok_def in_cache_def config_of_def same_clock_def)
  moreover have "mux_grows env (m, w) (m\<lparr>timingWheel := wheel\<rparr>, w)"
    using r(3,4) by (simp add: mux_grows_def)
  moreover have "s \<in> set (activeSockets m)" if "t = Some s" for s
    using T r(6) [OF that] by (auto simp: timers_ok_def)
  ultimately show thesis
    using that [OF r(1)] r(2,5,6,7) ticks by simp
qed

text \<open>A timer has expired: the socket is told so and removed.\<close>

definition close_idle :: "nat \<Rightarrow> multiplexer \<times> 'a \<Rightarrow> multiplexer \<times> 'a" where
  "close_idle s mw = snd (removeMultiplexedSocket env (Some s) (onIdle env s mw))"

lemma close_idle_step:
  assumes "mux_inv env view {s} (m, w)" "s \<in> set (activeSockets m)"
  shows "mux_inv env view {} (close_idle s (m, w))" "callback_step env (m, w) (close_idle s (m, w))"
proof -
  note idle = polite_callD [OF on_idle assms(1), of s, simplified, OF assms(2)]
  show "mux_inv env view {} (close_idle s (m, w))" "callback_step env (m, w) (close_idle s (m, w))"
    using remove_snd [OF idle(1), of s] callback_step_trans [OF idle(2)] by (auto simp: close_idle_def)
qed

lemma close_idle_inv:
  assumes "mux_inv env view {s} (m, w)" "s \<in> set (activeSockets m)" "wheel_in_time (timingWheel m) (idleTimeoutMsec m) now"
    and "tick_at (timingWheel m) now \<le> tick_at (timingWheel m) (clock env w)"
  shows "idle_inv now (close_idle s (m, w))"
proof -
  obtain m1 w1 where c: "close_idle s (m, w) = (m1, w1)"
    by (rule prod.exhaust)
  have inv: "mux_inv env view {} (m1, w1)" and step: "callback_step env (m, w) (m1, w1)"
    using close_idle_step [OF assms(1,2)] c by simp_all
  obtain q where "represents (timingWheel m1) q"
    using inv by (auto simp: mux_inv_def timers_ok_def wheel_in_time_def)
  moreover have "same_wheel (timingWheel m) (timingWheel m1)" "idleTimeoutMsec m1 = idleTimeoutMsec m"
      "tick_at (timingWheel m) (clock env w) \<le> tick_at (timingWheel m) (clock env w1)"
    using step by (auto simp: callback_step_def mux_grows_def same_wheel_def)
  ultimately show ?thesis
    using inv kept_in_time [OF assms(3)] assms(4) same_wheel_ticks unfolding c idle_inv_def by fastforce
qed

lemma idle_loop_step:
  assumes "idle_loop env now mw = Some (e, mw')" "idle_inv now mw"
  shows "e = ESB_SUCCESS \<and> mux_inv env view {} mw' \<and> mux_grows env mw mw' \<and>
    (\<forall>t. inTimingWheel (timingWheel (fst mw')) t \<longrightarrow> tick_at (timingWheel (fst mw')) now < tick_nat (timingWheel (fst mw')) t)"
proof -
  let ?Q = "\<lambda>now mw r. idle_inv now mw \<longrightarrow> fst r = ESB_SUCCESS \<and> mux_inv env view {} (snd r) \<and> mux_grows env mw (snd r) \<and>
    (\<forall>t. inTimingWheel (timingWheel (fst (snd r))) t \<longrightarrow>
      tick_at (timingWheel (fst (snd r))) now < tick_nat (timingWheel (fst (snd r))) t)"
  let ?P = "\<lambda>env' now mw r. env' = env \<longrightarrow> ?Q now mw r"
  have "?P env now mw (e, mw')"
  proof (rule idle_loop.raw_induct [where P = ?P, OF _ assms(1)])
    fix rec env' now mw r
    assume IH: "\<And>env' now mw r. rec env' now mw = Some r \<Longrightarrow> ?P env' now mw r"
      and r: "(case mw of (m, w) \<Rightarrow> case nextExpired now (timingWheel m) of None \<Rightarrow> None
           | Some (e, None, wheel) \<Rightarrow> Some (e, m\<lparr>timingWheel := wheel\<rparr>, w)
           | Some (e, Some s, wheel) \<Rightarrow>
               rec env' now (snd (removeMultiplexedSocket env' (Some s) (onIdle env' s (m\<lparr>timingWheel := wheel\<rparr>, w))))) = Some r"
    show "?P env' now mw r"
    proof (rule impI, rule impI)
      assume env': "env' = env" and inv: "idle_inv now mw"
      obtain m w where mw: "mw = (m, w)"
        by (rule prod.exhaust)
      from idle_next [OF inv [unfolded mw]] obtain wheel t where
        n: "nextExpired now (timingWheel m) = Some (ESB_SUCCESS, t, wheel)" and
        i: "mux_inv env view (set_option t) (m\<lparr>timingWheel := wheel\<rparr>, w)" and
        g: "mux_grows env (m, w) (m\<lparr>timingWheel := wheel\<rparr>, w)" and
        time: "wheel_in_time wheel (idleTimeoutMsec m) now" and
        s: "\<And>s. t = Some s \<Longrightarrow> s \<in> set (activeSockets m)" and
        later: "\<And>s. t = None \<Longrightarrow> inTimingWheel wheel s \<Longrightarrow> tick_at wheel now < tick_nat wheel s"
        by metis
      show "fst r = ESB_SUCCESS \<and> mux_inv env view {} (snd r) \<and> mux_grows env mw (snd r) \<and>
          (\<forall>t. inTimingWheel (timingWheel (fst (snd r))) t \<longrightarrow>
            tick_at (timingWheel (fst (snd r))) now < tick_nat (timingWheel (fst (snd r))) t)"
      proof (cases t)
        case None
        then have "r = (ESB_SUCCESS, m\<lparr>timingWheel := wheel\<rparr>, w)"
          using r mw n by simp
        then show ?thesis
          using i g later None mw by simp
      next
        case (Some s')
        let ?mw = "(m\<lparr>timingWheel := wheel\<rparr>, w)"
        have "rec env now (close_idle s' ?mw) = Some r"
          using r mw n Some env' by (simp add: close_idle_def)
        moreover have "tick_at wheel now \<le> tick_at wheel (clock env w)"
          using inv mw g same_clock_ticks [of "timingWheel m" wheel] by (simp add: idle_inv_def mux_grows_def)
        then have "idle_inv now (close_idle s' ?mw)"
          using close_idle_inv [of s' "m\<lparr>timingWheel := wheel\<rparr>" w now] i s Some time by simp
        moreover have "callback_step env ?mw (close_idle s' ?mw)"
          using close_idle_step(2) [of s' "m\<lparr>timingWheel := wheel\<rparr>" w] i s Some by simp
        ultimately show ?thesis
          using IH [of env now "close_idle s' ?mw" r] mux_grows_trans [OF mux_grows_trans [OF g callback_step_grows]] mw by auto
      qed
    qed
  qed
  then show ?thesis
    using assms(2) by simp
qed

section \<open>A round\<close>

lemma checkIdle_step:
  assumes "checkIdleSockets env mw = Some (e, mw')" "mux_inv env view {} mw"
  shows "e = ESB_SUCCESS" "mux_inv env view {} mw'" "mux_grows env mw mw'"
    "inTimingWheel (timingWheel (fst mw')) t \<Longrightarrow>
      tick_at (timingWheel (fst mw')) (clock env (snd mw)) < tick_nat (timingWheel (fst mw')) t"
  using idle_loop_step [OF assms(1) [unfolded checkIdleSockets_def] idle_inv_start [OF assms(2)]] by blast+

lemma ready_step:
  assumes "mux_inv env view {} (m, w)" "epollWait env n t w = (Ready evs, w1)"
    and "process_events env (clock env w1) evs (m, w1) = Some mw'"
  shows "mux_inv env view {} mw'"
proof -
  have w1: "mux_inv env view {} (m, w1)" "fst ` set evs \<subseteq> set (activeSockets m)"
    using wait [OF assms(1,2)] by auto
  then have "due_at (timingWheel m) (clock env w1) (idleTimeoutMsec m) < 2 ^ 31"
    by (auto simp: mux_inv_def timers_ok_def wheel_in_time_def)
  then show ?thesis
    using process_events_step [OF w1(1) _ _ assms(3)] w1(2) by auto
qed

lemma run_round_step:
  assumes "run_round env n mw = Some (e, Some k, mw')" "mux_inv env view {} mw"
  shows "mux_inv env view {} mw'"
proof -
  obtain e1 m w where c: "checkIdleSockets env mw = Some (e1, m, w)"
    using assms(1) by (auto simp: run_round_def split: option.splits)
  note idle = checkIdle_step [OF c assms(2)]
  obtain r w1 where wt: "epollWait env (maxSockets m) (min (idleTimeoutMsec m) 1000) w = (r, w1)"
    by (rule prod.exhaust)
  have w1: "mux_inv env view {} (m, w1)"
    using wait [OF idle(2) wt] by simp
  show ?thesis
  proof (cases r)
    case (Failed err)
    then show ?thesis
      using assms(1) c idle(1) wt w1 by (auto simp: run_round_def split: if_splits)
  next
    case (Ready evs)
    show ?thesis
    proof (cases evs)
      case Nil
      then show ?thesis
        using assms(1) c idle(1) wt w1 Ready by (auto simp: run_round_def)
    next
      case (Cons ev rest)
      then obtain mw1 where mw1: "process_events env (clock env w1) evs (m, w1) = Some mw1" "reap env mw1 = Some mw'"
        using assms(1) c idle(1) wt Ready by (auto simp: run_round_def split: option.splits)
      then show ?thesis
        using reap_step [OF mw1(2) ready_step [OF idle(2) wt [unfolded Ready] mw1(1)]] by simp
    qed
  qed
qed

end

section \<open>Rounds that end\<close>

text \<open>
  Connections are accepted from a finite backlog, callbacks of a dying socket start no timers and add no
  sockets, and the destruction of a socket kills no other. Then every round returns, and so does \<open>destroy\<close>.
\<close>

locale ending_loop = event_loop +
  fixes backlog :: "'a \<Rightarrow> nat"
  assumes accept_ends: "mux_inv env view late mw \<Longrightarrow> s \<in> set (activeSockets (fst mw)) \<Longrightarrow> onAccept env s mw = (ESB_AGAIN, mw') \<Longrightarrow>
      backlog (snd mw') < backlog (snd mw)"
    and idle_starts: "mux_inv env view late mw \<Longrightarrow> s \<in> set (activeSockets (fst mw)) \<Longrightarrow>
      inTimingWheel (timingWheel (fst (onIdle env s mw))) t \<Longrightarrow> inTimingWheel (timingWheel (fst mw)) t"
    and remove_starts: "mux_inv env view late mw \<Longrightarrow> s \<in> set (deadSockets (fst mw)) \<Longrightarrow>
      inTimingWheel (timingWheel (fst (onRemove env s mw))) t \<Longrightarrow> inTimingWheel (timingWheel (fst mw)) t"
    and remove_adds: "mux_inv env view late mw \<Longrightarrow> s \<in> set (deadSockets (fst mw)) \<Longrightarrow>
      set (activeSockets (fst (onRemove env s mw))) \<subseteq> set (activeSockets (fst mw))"
    and cleanup_adds: "mux_inv env (view\<lparr>lost := insert s (lost view)\<rparr>) late mw \<Longrightarrow> s \<notin> set (activeSockets (fst mw)) \<union> set (deadSockets (fst mw)) \<Longrightarrow>
      deadSockets (fst (onCleanup env s mw)) = deadSockets (fst mw) \<and>
      set (activeSockets (fst (onCleanup env s mw))) \<subseteq> set (activeSockets (fst mw))"
begin

lemma accept_loop_ends:
  assumes "mux_inv env view late mw" "s \<in> set (activeSockets (fst mw))"
  shows "\<exists>r. accept_loop env s mw = Some r"
  using assms
proof (induction "backlog (snd mw)" arbitrary: mw rule: less_induct)
  case less
  obtain e mw1 where a: "onAccept env s mw = (e, mw1)"
    by (rule prod.exhaust)
  show ?case
  proof (cases "e = ESB_AGAIN")
    case True
    have "\<exists>r. accept_loop env s mw1 = Some r"
      using less.hyps [of mw1] accept_ends [OF less.prems, of mw1] polite_eventD [OF on_accept less.prems a] a True by blast
    then show ?thesis
      using a True by (subst accept_loop.simps) simp
  next
    case False
    then show ?thesis
      using a by (subst accept_loop.simps) simp
  qed
qed

lemma process_event_ends:
  assumes "mux_inv env view {} mw" "s \<in> set (activeSockets (fst mw)) \<union> set (deadSockets (fst mw))"
  shows "\<exists>mw'. process_event env now (s, ev) mw = Some mw'"
proof (cases "isDead env s (snd mw)")
  case True
  then show ?thesis
    by (simp add: process_event_def)
next
  case False
  then have "s \<in> set (activeSockets (fst mw))"
    using assms by (auto simp: mux_inv_def sockets_ok_def split: prod.splits)
  then obtain r where "accept_loop env s mw = Some r"
    using accept_loop_ends [OF assms(1)] by blast
  then have "\<exists>r'. listening_event env s ev mw = Some r'"
    unfolding listening_event_def Let_def by (simp only: split: if_split) blast
  then obtain r' where r': "listening_event env s ev mw = Some r'"
    by blast
  show ?thesis
    unfolding process_event_def prod.case using False r'
    by (simp only: option.map option.inject split: if_split) blast
qed

lemma process_events_ends:
  assumes "mux_inv env view {} mw" "fst ` set evs \<subseteq> set (activeSockets (fst mw)) \<union> set (deadSockets (fst mw))"
    and "due_at (timingWheel (fst mw)) now (idleTimeoutMsec (fst mw)) < 2 ^ 31"
  shows "\<exists>mw'. process_events env now evs mw = Some mw'"
  using assms
proof (induction evs arbitrary: mw)
  case (Cons e evs)
  obtain s ev where e: "e = (s, ev)"
    by (rule prod.exhaust)
  obtain mw1 where r: "process_event env now (s, ev) mw = Some mw1"
    using process_event_ends [OF Cons.prems(1), of s now ev] Cons.prems(2) e by auto
  have step: "mux_inv env view {} mw1" "callback_step env mw mw1"
    using process_event_step [OF Cons.prems(1) _ Cons.prems(3) r] Cons.prems(2) e by auto
  then have "set (activeSockets (fst mw)) \<union> set (deadSockets (fst mw)) \<subseteq> set (activeSockets (fst mw1)) \<union> set (deadSockets (fst mw1))"
    by (auto simp: callback_step_def mux_grows_def split: prod.splits)
  moreover have "due_at (timingWheel (fst mw1)) now (idleTimeoutMsec (fst mw1)) < 2 ^ 31"
    using Cons.prems(3) step_due [of "fst mw" "snd mw" "fst mw1" "snd mw1"] step(2) by simp
  ultimately show ?case
    using Cons.IH [OF step(1) subset_trans] Cons.prems(2) e r by auto
qed simp

lemma reap_ends:
  assumes "mux_inv env view {} mw"
  shows "\<exists>mw'. reap env mw = Some mw' \<and> set (activeSockets (fst mw')) \<subseteq> set (activeSockets (fst mw))"
  using assms
proof (induction "length (deadSockets (fst mw))" arbitrary: mw)
  case 0
  then show ?case
    by (cases mw) (subst reap.simps, simp)
next
  case (Suc n)
  obtain m w where mw: "mw = (m, w)"
    by (rule prod.exhaust)
  then obtain s ss where d: "deadSockets m = s # ss"
    using Suc.hyps(2) by (cases "deadSockets m") auto
  let ?mw = "(m\<lparr>deadSockets := ss\<rparr>, w)"
  note next_inv = reap_next [OF Suc.prems [unfolded mw] d]
  have "deadSockets (fst (onCleanup env s ?mw)) = ss" "set (activeSockets (fst (onCleanup env s ?mw))) \<subseteq> set (activeSockets m)"
      "mux_inv env view {} (onCleanup env s ?mw)"
    using cleanup_adds [OF next_inv(1)] next_inv(2,3) by simp_all
  moreover from this obtain mw' where "reap env (onCleanup env s ?mw) = Some mw'"
      "set (activeSockets (fst mw')) \<subseteq> set (activeSockets (fst (onCleanup env s ?mw)))"
    using Suc.hyps(1) [of "onCleanup env s ?mw"] Suc.hyps(2) d mw by auto
  ultimately show ?case
    unfolding mw by (subst reap.simps) (auto simp: d)
qed

text \<open>Every expired timer leaves one fewer in the wheel.\<close>

lemma close_idle_timers:
  assumes "mux_inv env view {s} (m, w)" "s \<in> set (activeSockets m)" "inTimingWheel (timingWheel (fst (close_idle s (m, w)))) t"
  shows "inTimingWheel (timingWheel m) t"
proof -
  note idle = polite_callD [OF on_idle assms(1), of s, simplified, OF assms(2)]
  obtain m1 w1 where i: "onIdle env s (m, w) = (m1, w1)"
    by (rule prod.exhaust)
  have inv: "mux_inv env view {s} (m1, w1)" and starts: "inTimingWheel (timingWheel m1) t \<Longrightarrow> inTimingWheel (timingWheel m) t" for t
    using idle(1) idle_starts [OF assms(1)] assms(2) i by (simp, fastforce)
  obtain e mw' where r: "removeMultiplexedSocket env (Some s) (m1, w1) = (e, mw')"
    by (rule prod.exhaust)
  have "inTimingWheel (timingWheel (fst mw')) t"
    using assms(3) i r by (simp add: close_idle_def)
  moreover from inv r have "inTimingWheel (timingWheel (fst mw')) t \<Longrightarrow> inTimingWheel (timingWheel m1) t"
  proof (cases rule: remove_cases)
    case (present m2 w2)
    then show "inTimingWheel (timingWheel (fst mw')) t \<Longrightarrow> inTimingWheel (timingWheel m1) t"
      using remove_starts [OF present(4), of s t] by simp
  qed simp
  ultimately show ?thesis
    using starts by blast
qed

lemma idle_loop_decreases:
  assumes "idle_inv now (m, w)" "nextExpired now (timingWheel m) = Some (ESB_SUCCESS, Some s, wheel)"
  shows "card {t. inTimingWheel (timingWheel (fst (close_idle s (m\<lparr>timingWheel := wheel\<rparr>, w)))) t} <
      card {t. inTimingWheel (timingWheel m) t}"
    "idle_inv now (close_idle s (m\<lparr>timingWheel := wheel\<rparr>, w))"
proof -
  let ?mw = "(m\<lparr>timingWheel := wheel\<rparr>, w)"
  from idle_next [OF assms(1)] assms(2) have
    i: "mux_inv env view {s} ?mw" and g: "mux_grows env (m, w) ?mw" and time: "wheel_in_time wheel (idleTimeoutMsec m) now" and
    active: "s \<in> set (activeSockets m)" "inTimingWheel (timingWheel m) s" and
    gone: "\<And>t. inTimingWheel wheel t \<longleftrightarrow> inTimingWheel (timingWheel m) t \<and> t \<noteq> s"
    by fastforce+
  have "{t. inTimingWheel (timingWheel (fst (close_idle s ?mw))) t} \<subseteq> {t. inTimingWheel (timingWheel m) t} - {s}"
    using close_idle_timers [of s "m\<lparr>timingWheel := wheel\<rparr>" w] i active(1) gone by auto
  moreover have "finite {t. inTimingWheel (timingWheel m) t}"
  proof (rule finite_subset)
    show "{t. inTimingWheel (timingWheel m) t} \<subseteq> set (activeSockets m)"
      using assms(1) by (auto simp: idle_inv_def mux_inv_def timers_ok_def)
  qed simp
  ultimately show "card {t. inTimingWheel (timingWheel (fst (close_idle s ?mw))) t} < card {t. inTimingWheel (timingWheel m) t}"
    using active(2) by (intro psubset_card_mono) auto
  have "tick_at wheel now \<le> tick_at wheel (clock env w)"
    using assms(1) g same_clock_ticks [of "timingWheel m" wheel] by (simp add: idle_inv_def mux_grows_def)
  then show "idle_inv now (close_idle s ?mw)"
    using close_idle_inv [of s "m\<lparr>timingWheel := wheel\<rparr>" w now] i time active(1) by simp
qed

lemma idle_loop_ends:
  assumes "idle_inv now mw"
  shows "\<exists>r. idle_loop env now mw = Some r"
  using assms
proof (induction "card {t. inTimingWheel (timingWheel (fst mw)) t}" arbitrary: mw rule: less_induct)
  case less
  obtain m w where mw: "mw = (m, w)"
    by (rule prod.exhaust)
  from idle_next [OF less.prems [unfolded mw]] obtain wheel t where
    n: "nextExpired now (timingWheel m) = Some (ESB_SUCCESS, t, wheel)"
    by metis
  show ?case
  proof (cases t)
    case None
    then show ?thesis
      unfolding mw using n by (subst idle_loop.simps) simp
  next
    case (Some s')
    let ?mw = "(m\<lparr>timingWheel := wheel\<rparr>, w)"
    note fewer = idle_loop_decreases [OF less.prems [unfolded mw] n [unfolded Some]]
    obtain r where "idle_loop env now (close_idle s' ?mw) = Some r"
      using less.hyps [of "close_idle s' ?mw"] fewer mw by auto
    then show ?thesis
      unfolding mw using n Some by (cases r) (subst idle_loop.simps, simp add: close_idle_def)
  qed
qed

lemma run_round_ends:
  assumes "mux_inv env view {} mw"
  shows "\<exists>r. run_round env n mw = Some r"
proof -
  obtain e m w where c: "checkIdleSockets env mw = Some (e, m, w)"
    using idle_loop_ends [OF idle_inv_start [OF assms]] by (auto simp: checkIdleSockets_def)
  note idle = checkIdle_step [OF c assms]
  obtain r w1 where wt: "epollWait env (maxSockets m) (min (idleTimeoutMsec m) 1000) w = (r, w1)"
    by (rule prod.exhaust)
  note w1 = wait [OF idle(2) wt]
  show ?thesis
  proof (cases "\<exists>ev evs. r = Ready (ev # evs)")
    case True
    then obtain ev evs where r: "r = Ready (ev # evs)"
      by blast
    have "due_at (timingWheel m) (clock env w1) (idleTimeoutMsec m) < 2 ^ 31"
      using w1 by (auto simp: mux_inv_def timers_ok_def wheel_in_time_def)
    then obtain mw1 where p: "process_events env (clock env w1) (ev # evs) (m, w1) = Some mw1"
      using process_events_ends [of "(m, w1)" "ev # evs" "clock env w1"] w1 r by auto
    obtain mw2 where "reap env mw1 = Some mw2"
      using reap_ends [OF ready_step [OF idle(2) wt [unfolded r] p]] by blast
    then show ?thesis
      using c idle(1) wt r p by (auto simp: run_round_def simp del: process_events.simps)
  next
    case False
    then show ?thesis
      using c idle(1) wt by (auto simp: run_round_def split: waited.split list.split)
  qed
qed

section \<open>The end of the loop\<close>

lemma remove_all_ends:
  assumes "mux_inv env view {} mw"
  shows "\<exists>m w. remove_all env mw = Some (m, w) \<and> mux_inv env view {} (m, w) \<and> activeSockets m = []"
  using assms
proof (induction "card (set (activeSockets (fst mw)))" arbitrary: mw rule: less_induct)
  case less
  obtain m w where mw: "mw = (m, w)"
    by (rule prod.exhaust)
  show ?case
  proof (cases "activeSockets m")
    case Nil
    then show ?thesis
      using less.prems mw by (subst remove_all.simps) simp
  next
    case (Cons s ss)
    obtain e mw' where r: "removeMultiplexedSocket env (Some s) (m, w) = (e, mw')"
      by (rule prod.exhaust)
    have fewer: "set (activeSockets (fst mw')) \<subseteq> set ss"
      using less.prems [unfolded mw] r
    proof (cases rule: remove_cases)
      case (present m1 w1)
      then show ?thesis
        using remove_adds [OF present(4), of s] Cons by simp
    qed (use Cons in simp)
    have "s \<notin> set ss"
      using less.prems mw Cons by (simp add: mux_inv_def sockets_ok_def)
    then have "set (activeSockets (fst mw')) \<subset> set (activeSockets m)"
      using fewer Cons by auto
    then have "card (set (activeSockets (fst mw'))) < card (set (activeSockets m))"
      by (rule psubset_card_mono [OF finite_set])
    moreover have "mux_inv env view {} mw'"
      using remove_step [OF less.prems, of s e mw'] r mw by simp
    ultimately have "\<exists>m w. remove_all env mw' = Some (m, w) \<and> mux_inv env view {} (m, w) \<and> activeSockets m = []"
      using less.hyps [of mw'] mw by simp
    then show ?thesis
      unfolding mw by (subst remove_all.simps) (simp add: Cons r)
  qed
qed

lemma clear_in_time:
  assumes "wheel_in_time wheel idle now" "wheel_clear wheel = (ts, wheel')"
  shows "wheel_in_time wheel' idle now" "same_wheel wheel wheel'" "\<not> inTimingWheel wheel' t"
proof -
  obtain q where q: "represents wheel q"
    using assms(1) by (auto simp: wheel_in_time_def)
  then have q': "represents wheel' (q\<lparr>due := []\<rparr>)"
    using wheel_clear_spec(3) assms(2) by fastforce
  have fields: "wheelStart (fold timer_remove us v) = wheelStart v \<and> tickMilliSeconds (fold timer_remove us v) = tickMilliSeconds v \<and>
      maxTicks (fold timer_remove us v) = maxTicks v \<and> currentTick (fold timer_remove us v) = currentTick v" for us v
    by (induction us arbitrary: v) (simp_all add: timer_remove_def setTick_def)
  then show same: "same_wheel wheel wheel'"
    using assms(2) by (auto simp: wheel_clear_def same_wheel_def same_clock_def split: option.splits)
  show "wheel_in_time wheel' idle now"
    by (rule kept_in_time [OF assms(1) same q'])
  show "\<not> inTimingWheel wheel' t"
    using representsD(8) [OF q', of t] by simp
qed

lemma destroy_ends:
  assumes "mux_inv env view {} mw"
  shows "\<exists>m w. mux_destroy env mw = Some (m, w) \<and> \<not> events m \<and> activeSockets m = [] \<and> deadSockets m = [] \<and>
    registered view w = {} \<and> constructed view w \<subseteq> lost view \<and> sane view w"
proof -
  obtain m w where r: "remove_all env mw = Some (m, w)" "mux_inv env view {} (m, w)" "activeSockets m = []"
    using remove_all_ends [OF assms] by blast
  obtain ts wheel where c: "wheel_clear (timingWheel m) = (ts, wheel)"
    by (rule prod.exhaust)
  have T: "timers_ok env {} m w"
    using r(2) by (simp add: mux_inv_def)
  then have time: "wheel_in_time (timingWheel m) (idleTimeoutMsec m) (clock env w)" and
      none: "\<not> inTimingWheel (timingWheel m) t" for t
    using r(3) by (simp_all add: timers_ok_def)
  note clear = clear_in_time [OF time c]
  have inv: "mux_inv env view {} (m\<lparr>timingWheel := wheel\<rparr>, w)"
    using wheel_change(1) [OF r(2) clear(1,2), of "{}"] clear(3) none by blast
  obtain m1 w1 where p: "reap env (m\<lparr>timingWheel := wheel\<rparr>, w) = Some (m1, w1)" "set (activeSockets m1) \<subseteq> {}"
    using reap_ends [OF inv] r(3) by auto
  then have "mux_inv env view {} (m1, w1)" "deadSockets m1 = []"
    using reap_step [OF p(1) inv] by simp_all
  then show ?thesis
    using r(1) c p by (simp add: mux_destroy_def mux_inv_def sockets_ok_def)
qed

end

end
