(* ===== verification/LiveSockets.thy ===== *)
theory LiveSockets
  imports EventLoop
begin

text \<open>
  The loop (\<open>EpollMultiplexer::run\<close>) calls a socket only while it exists: what the callbacks would do to a
  socket that has been removed, or the removal handler to one that has not, makes no difference to a round.
\<close>

text \<open>Environments that differ in the callbacks of sockets that must not be called.\<close>

definition same_kernel :: "'w mux_env \<Rightarrow> 'w mux_env \<Rightarrow> bool" where
  "same_kernel env env' \<longleftrightarrow>
     clock env' = clock env \<and> running env' = running env \<and> fdOf env' = fdOf env \<and> isPermanent env' = isPermanent env \<and>
     wantsAccept env' = wantsAccept env \<and> wantsConnect env' = wantsConnect env \<and> wantsRead env' = wantsRead env \<and>
     wantsWrite env' = wantsWrite env \<and> isDead env' = isDead env \<and> markDead env' = markDead env \<and>
     epollCtl env' = epollCtl env \<and> epollWait env' = epollWait env \<and> bytesReadable env' = bytesReadable env \<and>
     lastSocketError env' = lastSocketError env"

definition live_same :: "'w mux_env \<Rightarrow> 'w mux_env \<Rightarrow> bool" where
  "live_same env env' \<longleftrightarrow>
     same_kernel env env' \<and>
     (\<forall>s mw. s \<in> set (activeSockets (fst mw)) \<longrightarrow>
       onAccept env' s mw = onAccept env s mw \<and> onConnect env' s mw = onConnect env s mw \<and>
       onReadable env' s mw = onReadable env s mw \<and> onWritable env' s mw = onWritable env s mw \<and>
       (\<forall>err. onError env' s err mw = onError env s err mw) \<and> onRemoteClose env' s mw = onRemoteClose env s mw \<and>
       onIdle env' s mw = onIdle env s mw) \<and>
     (\<forall>s mw. s \<in> set (deadSockets (fst mw)) \<longrightarrow> onRemove env' s mw = onRemove env s mw) \<and>
     (\<forall>s mw. s \<notin> set (activeSockets (fst mw)) \<union> set (deadSockets (fst mw)) \<longrightarrow> onCleanup env' s mw = onCleanup env s mw)"

lemma live_sameD:
  assumes "live_same env env'"
  shows "same_kernel env env'"
    "s \<in> set (activeSockets (fst mw)) \<Longrightarrow> onAccept env' s mw = onAccept env s mw"
    "s \<in> set (activeSockets (fst mw)) \<Longrightarrow> onConnect env' s mw = onConnect env s mw"
    "s \<in> set (activeSockets (fst mw)) \<Longrightarrow> onReadable env' s mw = onReadable env s mw"
    "s \<in> set (activeSockets (fst mw)) \<Longrightarrow> onWritable env' s mw = onWritable env s mw"
    "s \<in> set (activeSockets (fst mw)) \<Longrightarrow> onError env' s err mw = onError env s err mw"
    "s \<in> set (activeSockets (fst mw)) \<Longrightarrow> onRemoteClose env' s mw = onRemoteClose env s mw"
    "s \<in> set (activeSockets (fst mw)) \<Longrightarrow> onIdle env' s mw = onIdle env s mw"
    "s \<in> set (deadSockets (fst mw)) \<Longrightarrow> onRemove env' s mw = onRemove env s mw"
    "s \<notin> set (activeSockets (fst mw)) \<union> set (deadSockets (fst mw)) \<Longrightarrow> onCleanup env' s mw = onCleanup env s mw"
  using assms unfolding live_same_def by blast+

lemma same_kernelD:
  assumes "same_kernel env env'"
  shows "clock env' = clock env" "fdOf env' = fdOf env" "isPermanent env' = isPermanent env"
    "wantsAccept env' = wantsAccept env" "wantsConnect env' = wantsConnect env" "wantsRead env' = wantsRead env"
    "wantsWrite env' = wantsWrite env" "isDead env' = isDead env" "markDead env' = markDead env"
    "epollCtl env' = epollCtl env" "epollWait env' = epollWait env" "bytesReadable env' = bytesReadable env"
    "lastSocketError env' = lastSocketError env"
  using assms by (simp_all add: same_kernel_def)

lemma update_same:
  assumes "same_kernel env env'"
  shows "updateMultiplexedSocket env' = updateMultiplexedSocket env"
  unfolding fun_eq_iff updateMultiplexedSocket_def interest_def same_kernelD [OF assms] by simp

lemma remove_same:
  assumes "live_same env env'"
  shows "removeMultiplexedSocket env' (Some s) mw = removeMultiplexedSocket env (Some s) mw"
proof -
  note k = same_kernelD [OF live_sameD(1) [OF assms]]
  have last: "onRemove env' s (m\<lparr>activeSocketCount := n, deadSockets := ds @ [s]\<rparr>, w) = onRemove env s (m\<lparr>activeSocketCount := n, deadSockets := ds @ [s]\<rparr>, w)"
    for m n ds w
    by (rule live_sameD(9) [OF assms]) simp
  show ?thesis
    unfolding removeMultiplexedSocket_def k Let_def option.case last by (rule refl)
qed

context ending_loop
begin

lemma accept_loop_same:
  assumes same: "live_same env env'" and "mux_inv env view late mw" "s \<in> set (activeSockets (fst mw))"
  shows "accept_loop env' s mw = accept_loop env s mw"
  using assms(2,3)
proof (induction "backlog (snd mw)" arbitrary: mw rule: less_induct)
  case less
  obtain e mw1 where a: "onAccept env s mw = (e, mw1)"
    by (rule prod.exhaust)
  then have a': "onAccept env' s mw = (e, mw1)"
    using live_sameD(2) [OF same less.prems(2)] by simp
  show ?case
  proof (cases "e = ESB_AGAIN")
    case True
    have "accept_loop env' s mw1 = accept_loop env s mw1"
      using less.hyps [of mw1] accept_ends [OF less.prems, of mw1] polite_eventD [OF on_accept less.prems a] a True by blast
    then show ?thesis
      using a a' True by (simp add: accept_loop.simps [of _ s mw])
  next
    case False
    then show ?thesis
      using a a' by (simp add: accept_loop.simps [of _ s mw])
  qed
qed

lemma connected_event_same:
  assumes same: "live_same env env'" and inv: "mux_inv env view late mw" and s: "s \<in> set (activeSockets (fst mw))"
  shows "connected_event env' s ev mw = connected_event env s ev mw"
proof -
  note k = same_kernelD [OF live_sameD(1) [OF same]]
  note live = live_sameD(4-7) [OF same]
  obtain e mw1 where r: "onReadable env s mw = (e, mw1)"
    by (rule prod.exhaust)
  have "keeps e \<Longrightarrow> onWritable env' s mw1 = onWritable env s mw1"
    using polite_eventD(3) [OF on_readable inv s r] live(2) by blast
  then show ?thesis
    using live [OF s] r by (simp add: connected_event_def k connect_result_def)
qed

lemma after_event_same:
  assumes same: "live_same env env'" and s: "keep \<Longrightarrow> s \<in> set (activeSockets m)"
  shows "after_event env' now s (keep, m, w) = after_event env now s (keep, m, w)"
proof -
  note k = same_kernelD [OF live_sameD(1) [OF same]]
  have "keep \<Longrightarrow> onIdle env' s (m\<lparr>timingWheel := wheel\<rparr>, w) = onIdle env s (m\<lparr>timingWheel := wheel\<rparr>, w)" for wheel
    by (rule live_sameD(8) [OF same]) (simp add: s)
  then show ?thesis
    unfolding after_event_def k update_same [OF live_sameD(1) [OF same]] remove_same [OF same]
    by (simp add: Let_def split: prod.split)
qed

lemma process_event_same:
  assumes same: "live_same env env'" and inv: "mux_inv env view {} mw" and s: "s \<in> set (activeSockets (fst mw)) \<union> set (deadSockets (fst mw))"
  shows "process_event env' now (s, ev) mw = process_event env now (s, ev) mw"
proof (cases "isDead env s (snd mw)")
  case True
  then show ?thesis
    by (simp add: process_event_def same_kernelD [OF live_sameD(1) [OF same]])
next
  case False
  then have active: "s \<in> set (activeSockets (fst mw))"
    using s inv by (auto simp: mux_inv_def sockets_ok_def split: prod.splits)
  note k = same_kernelD [OF live_sameD(1) [OF same]]
  note live = live_sameD(2-8) [OF same active]
  have events: "listening_event env' s ev mw = listening_event env s ev mw" "connecting_event env' s ev mw = connecting_event env s ev mw"
    "connected_event env' s ev mw = connected_event env s ev mw"
    using accept_loop_same [OF same inv active] connected_event_same [OF same inv active] live
    by (simp_all add: listening_event_def connecting_event_def k Let_def)
  let ?r = "if wantsAccept env s (snd mw) then listening_event env s ev mw
             else if wantsConnect env s (snd mw) then Some (connecting_event env s ev mw)
             else Some (connected_event env s ev mw)"
  have "after_event env' now s r = after_event env now s r" if "?r = Some r" for r
  proof -
    obtain keep m1 w1 where r: "r = (keep, m1, w1)"
      by (rule prod_cases3)
    have "keep \<longrightarrow> s \<in> set (activeSockets m1)"
      using that [unfolded r] listening_event_step [OF _ inv active, of ev keep "(m1, w1)"] connecting_event_step [OF _ inv active, of ev keep "(m1, w1)"]
        connected_event_step [OF _ inv active, of ev keep "(m1, w1)"] by (auto split: if_splits)
    then show ?thesis
      unfolding r by (intro after_event_same [OF same]) blast
  qed
  then have "map_option (after_event env' now s) ?r = map_option (after_event env now s) ?r"
    by (rule option.map_cong0) simp
  then show ?thesis
    using False unfolding process_event_def prod.case k events by (simp only: if_False)
qed

lemma process_events_same:
  assumes same: "live_same env env'"
    and "mux_inv env view {} mw" "fst ` set evs \<subseteq> set (activeSockets (fst mw)) \<union> set (deadSockets (fst mw))"
    and "due_at (timingWheel (fst mw)) now (idleTimeoutMsec (fst mw)) < 2 ^ 31"
  shows "process_events env' now evs mw = process_events env now evs mw"
  using assms(2-)
proof (induction evs arbitrary: mw)
  case (Cons e evs)
  obtain s ev where e: "e = (s, ev)"
    by (rule prod.exhaust)
  have s: "s \<in> set (activeSockets (fst mw)) \<union> set (deadSockets (fst mw))"
    using Cons.prems(2) e by auto
  obtain mw1 where r: "process_event env now (s, ev) mw = Some mw1"
    using process_event_ends [OF Cons.prems(1) s] by blast
  have step: "mux_inv env view {} mw1" "callback_step env mw mw1"
    using process_event_step [OF Cons.prems(1) s Cons.prems(3) r] by auto
  then have "set (activeSockets (fst mw)) \<union> set (deadSockets (fst mw)) \<subseteq> set (activeSockets (fst mw1)) \<union> set (deadSockets (fst mw1))"
    by (auto simp: callback_step_def mux_grows_def split: prod.splits)
  moreover have "due_at (timingWheel (fst mw1)) now (idleTimeoutMsec (fst mw1)) < 2 ^ 31"
    using Cons.prems(3) step_due [of "fst mw" "snd mw" "fst mw1" "snd mw1"] step(2) by simp
  ultimately have "process_events env' now evs mw1 = process_events env now evs mw1"
    using Cons.IH [OF step(1) subset_trans] Cons.prems(2) by auto
  then show ?case
    using process_event_same [OF same Cons.prems(1) s] r e by simp
qed simp

lemma reap_same:
  assumes same: "live_same env env'" and "mux_inv env view {} mw"
  shows "reap env' mw = reap env mw"
  using assms(2)
proof (induction "length (deadSockets (fst mw))" arbitrary: mw)
  case 0
  then show ?case
    using reap.simps [of env' mw] reap.simps [of env mw] by (simp split: prod.splits)
next
  case (Suc n)
  obtain m w where mw: "mw = (m, w)"
    by (rule prod.exhaust)
  then obtain s ss where d: "deadSockets m = s # ss"
    using Suc.hyps(2) by (cases "deadSockets m") auto
  let ?mw = "(m\<lparr>deadSockets := ss\<rparr>, w)"
  note next_inv = reap_next [OF Suc.prems [unfolded mw] d]
  have "reap env' (onCleanup env s ?mw) = reap env (onCleanup env s ?mw)"
    using Suc.hyps(1) [of "onCleanup env s ?mw"] Suc.hyps(2) d mw cleanup_adds [OF next_inv(1)] next_inv(2,3) by simp
  moreover have "onCleanup env' s ?mw = onCleanup env s ?mw"
    using live_sameD(10) [OF same, of s ?mw] next_inv(2) by simp
  ultimately show ?case
    unfolding mw by (simp add: reap.simps [of _ "(m, w)"] d)
qed

lemma idle_loop_same:
  assumes same: "live_same env env'" and "idle_inv now mw"
  shows "idle_loop env' now mw = idle_loop env now mw"
  using assms(2)
proof (induction "card {t. inTimingWheel (timingWheel (fst mw)) t}" arbitrary: mw rule: less_induct)
  case less
  obtain m w where mw: "mw = (m, w)"
    by (rule prod.exhaust)
  from idle_next [OF less.prems [unfolded mw]] obtain wheel t where
    n: "nextExpired now (timingWheel m) = Some (ESB_SUCCESS, t, wheel)" and
    s: "\<And>s. t = Some s \<Longrightarrow> s \<in> set (activeSockets m)"
    by metis
  show ?case
  proof (cases t)
    case None
    then show ?thesis
      unfolding mw using n by (simp add: idle_loop.simps [of _ now "(m, w)"])
  next
    case (Some s')
    let ?mw = "(m\<lparr>timingWheel := wheel\<rparr>, w)"
    have "onIdle env' s' ?mw = onIdle env s' ?mw"
      by (rule live_sameD(8) [OF same]) (simp add: s Some)
    then have close: "snd (removeMultiplexedSocket env' (Some s') (onIdle env' s' ?mw)) = close_idle s' ?mw"
      by (simp add: close_idle_def remove_same [OF same])
    note fewer = idle_loop_decreases [OF less.prems [unfolded mw] n [unfolded Some]]
    have "idle_loop env' now (close_idle s' ?mw) = idle_loop env now (close_idle s' ?mw)"
      using less.hyps [of "close_idle s' ?mw"] fewer mw by simp
    then show ?thesis
      unfolding mw using n Some close by (simp add: idle_loop.simps [of _ now "(m, w)"] close_idle_def)
  qed
qed

lemma run_round_same:
  assumes same: "live_same env env'" and inv: "mux_inv env view {} mw"
  shows "run_round env' n mw = run_round env n mw"
proof -
  note k = same_kernelD [OF live_sameD(1) [OF same]]
  obtain e m w where c: "checkIdleSockets env mw = Some (e, m, w)"
    using idle_loop_ends [OF idle_inv_start [OF inv]] by (auto simp: checkIdleSockets_def)
  then have c': "checkIdleSockets env' mw = Some (e, m, w)"
    using idle_loop_same [OF same idle_inv_start [OF inv]] by (simp add: checkIdleSockets_def k)
  note idle = checkIdle_step [OF c inv]
  obtain r w1 where wt: "epollWait env (maxSockets m) (min (idleTimeoutMsec m) 1000) w = (r, w1)"
    by (rule prod.exhaust)
  note w1 = wait [OF idle(2) wt]
  show ?thesis
  proof (cases "\<exists>ev evs. r = Ready (ev # evs)")
    case True
    then obtain ev evs where r: "r = Ready (ev # evs)"
      by blast
    have due: "due_at (timingWheel m) (clock env w1) (idleTimeoutMsec m) < 2 ^ 31"
      using w1 by (auto simp: mux_inv_def timers_ok_def wheel_in_time_def)
    have p: "process_events env' (clock env w1) (ev # evs) (m, w1) = process_events env (clock env w1) (ev # evs) (m, w1)"
    proof (rule process_events_same [OF same])
      show "fst ` set (ev # evs) \<subseteq> set (activeSockets (fst (m, w1))) \<union> set (deadSockets (fst (m, w1)))"
        using w1 r by auto
    qed (use w1 due in simp_all)
    have "reap env' mw1 = reap env mw1" if "process_events env (clock env w1) (ev # evs) (m, w1) = Some mw1" for mw1
      by (rule reap_same [OF same ready_step [OF idle(2) wt [unfolded r] that]])
    then show ?thesis
      using c c' wt r p by (simp add: run_round_def k split: option.split del: process_events.simps)
  next
    case False
    then show ?thesis
      using c c' wt by (auto simp: run_round_def k split: waited.split list.split)
  qed
qed

end

end
