(* ===== verification/ServerFactory.thy ===== *)
theory ServerFactory
  imports LiveSockets
begin

text \<open>
  \<open>HttpListeningSocket\<close>, \<open>HttpServerSocketFactory\<close> (http1) and \<open>HttpProxyMultiplexer::addServerSocket\<close>
  (multiplexers): a worker accepts connections, makes a server socket of each, adds it to the multiplexer and
  recycles the memory of the sockets that have died.

  An object is the address of its block. The world holds what is constructed where, the blocks the allocator
  has left, and a kernel: the open descriptors, the connections to accept, the registrations of the epoll
  descriptor and the rounds of events to come, after which the worker is stopped. What a connection does with its octets is
  \<open>connection_code\<close>: ServerSocket models it. It changes the state of the connections only: a callback that
  itself removes a socket or changes its interests (an abort, a pause or a resumption inside the callback) is
  not covered here, but by the environment of Multiplexer, whose callbacks get the multiplexer.
\<close>

section \<open>The factory\<close>

datatype transport = TRANSPORT_NONE | TRANSPORT_UDP | TRANSPORT_TCP | TRANSPORT_TLS

record server_factory =
  deconstructedHTTPSockets :: "nat list"
  deconstructedClearSockets :: "nat list"
  deconstructedTLSSockets :: "nat list"

text \<open>A connected socket, and an HTTP server socket: its connection and its flag \<open>SERVER_DEAD\<close>.\<close>

record connected_object =
  peerType :: transport
  sockFd :: int

record http_object =
  httpConnection :: nat
  httpDead :: bool

datatype accepted = Accepted int transport | AcceptFailed error

record 'c listen_world =
  serverFactory :: server_factory
  connections :: "nat \<rightharpoonup> connected_object"
  httpSockets :: "nat \<rightharpoonup> http_object"
  freeBlocks :: "nat list"
  openFds :: "int list"
  listenerAt :: nat
  listenFd :: int
  listenerDead :: bool
  backlog :: "accepted list"
  inEpoll :: "nat list"
  epollRoom :: nat
  wallClock :: date
  schedule :: "(date \<times> (nat \<times> u32) list) list"
  app :: 'c

record 'c connection_code =
  acceptConnection :: "'c \<Rightarrow> error \<times> 'c"
  wantReadOf :: "nat \<Rightarrow> 'c \<Rightarrow> bool"
  wantWriteOf :: "nat \<Rightarrow> 'c \<Rightarrow> bool"
  readableOf :: "nat \<Rightarrow> 'c \<Rightarrow> error \<times> 'c"
  writableOf :: "nat \<Rightarrow> 'c \<Rightarrow> error \<times> 'c"
  removeOf :: "nat \<Rightarrow> 'c \<Rightarrow> 'c"

definition allocate_block :: "'c listen_world \<Rightarrow> (nat \<times> 'c listen_world) option" where
  "allocate_block w = (case freeBlocks w of [] \<Rightarrow> None | b # bs \<Rightarrow> Some (b, w\<lparr>freeBlocks := bs\<rparr>))"

text \<open>The memory of a socket: a recycled block, or a new one. \<open>removeLast\<close> and \<open>removeFirst\<close> are of the embedded lists.\<close>

definition connection_memory :: "transport \<Rightarrow> 'c listen_world \<Rightarrow> (nat \<times> 'c listen_world) option" where
  "connection_memory t w =
     (let f = serverFactory w in
      case t of
        TRANSPORT_TLS \<Rightarrow>
          (if deconstructedTLSSockets f = [] then allocate_block w
           else Some (last (deconstructedTLSSockets f),
             w\<lparr>serverFactory := f\<lparr>deconstructedTLSSockets := butlast (deconstructedTLSSockets f)\<rparr>\<rparr>))
      | TRANSPORT_TCP \<Rightarrow>
          (if deconstructedClearSockets f = [] then allocate_block w
           else Some (last (deconstructedClearSockets f),
             w\<lparr>serverFactory := f\<lparr>deconstructedClearSockets := butlast (deconstructedClearSockets f)\<rparr>\<rparr>))
      | _ \<Rightarrow> None)"

definition http_memory :: "'c listen_world \<Rightarrow> (nat \<times> 'c listen_world) option" where
  "http_memory w =
     (let f = serverFactory w in
      case deconstructedHTTPSockets f of
        [] \<Rightarrow> allocate_block w
      | b # bs \<Rightarrow> Some (b, w\<lparr>serverFactory := f\<lparr>deconstructedHTTPSockets := bs\<rparr>\<rparr>))"

definition closeFd :: "int \<Rightarrow> 'c listen_world \<Rightarrow> 'c listen_world" where
  "closeFd fd w = (if fd = - 1 then w else w\<lparr>openFds := remove1 fd (openFds w)\<rparr>)"

text \<open>\<open>ConnectedSocket::close\<close>, and the destructor, which calls it.\<close>

definition closeConnection :: "nat \<Rightarrow> 'c listen_world \<Rightarrow> 'c listen_world" where
  "closeConnection c w =
     (case connections w c of
        None \<Rightarrow> w
      | Some x \<Rightarrow> closeFd (sockFd x) w\<lparr>connections := (connections w)(c \<mapsto> x\<lparr>sockFd := - 1\<rparr>)\<rparr>)"

definition releaseSocket :: "nat \<Rightarrow> 'c listen_world \<Rightarrow> 'c listen_world" where
  "releaseSocket c w =
     (case connections w c of
        None \<Rightarrow> w
      | Some x \<Rightarrow>
          let w1 = closeFd (sockFd x) w\<lparr>connections := (connections w)(c := None)\<rparr>; f = serverFactory w1 in
          (case peerType x of
             TRANSPORT_TLS \<Rightarrow> w1\<lparr>serverFactory := f\<lparr>deconstructedTLSSockets := deconstructedTLSSockets f @ [c]\<rparr>\<rparr>
           | TRANSPORT_TCP \<Rightarrow> w1\<lparr>serverFactory := f\<lparr>deconstructedClearSockets := deconstructedClearSockets f @ [c]\<rparr>\<rparr>
           | _ \<Rightarrow> w1\<lparr>freeBlocks := c # freeBlocks w1\<rparr>))"

definition factory_release :: "nat \<Rightarrow> 'c listen_world \<Rightarrow> 'c listen_world" where
  "factory_release h w =
     (case httpSockets w h of
        None \<Rightarrow> w
      | Some x \<Rightarrow>
          let w1 = releaseSocket (httpConnection x) w; f = serverFactory w1 in
          w1\<lparr>httpSockets := (httpSockets w1)(h := None),
             serverFactory := f\<lparr>deconstructedHTTPSockets := deconstructedHTTPSockets f @ [h]\<rparr>\<rparr>)"

text \<open>\<open>create\<close>: a transport that is not supported, or no memory, loses the descriptor.\<close>

definition factory_create :: "int \<Rightarrow> transport \<Rightarrow> 'c listen_world \<Rightarrow> nat option \<times> 'c listen_world" where
  "factory_create fd t w =
     (case connection_memory t w of
        None \<Rightarrow> (None, w)
      | Some (c, w1) \<Rightarrow>
          let w2 = w1\<lparr>connections := (connections w1)(c \<mapsto> \<lparr>peerType = t, sockFd = fd\<rparr>)\<rparr> in
          (case http_memory w2 of
             None \<Rightarrow> (None, releaseSocket c w2)
           | Some (h, w3) \<Rightarrow> (Some h, w3\<lparr>httpSockets := (httpSockets w3)(h \<mapsto> \<lparr>httpConnection = c, httpDead = False\<rparr>)\<rparr>)))"

section \<open>The sockets in the multiplexer\<close>

definition fd_of :: "nat \<Rightarrow> 'c listen_world \<Rightarrow> int" where
  "fd_of s w =
     (if s = listenerAt w then listenFd w
      else
        case httpSockets w s of
          None \<Rightarrow> - 1
        | Some x \<Rightarrow> (case connections w (httpConnection x) of None \<Rightarrow> - 1 | Some c \<Rightarrow> sockFd c))"

definition dead_of :: "nat \<Rightarrow> 'c listen_world \<Rightarrow> bool" where
  "dead_of s w =
     (if s = listenerAt w then listenerDead w else case httpSockets w s of None \<Rightarrow> False | Some x \<Rightarrow> httpDead x)"

definition mark_dead :: "nat \<Rightarrow> 'c listen_world \<Rightarrow> 'c listen_world" where
  "mark_dead s w =
     (if s = listenerAt w then w\<lparr>listenerDead := True\<rparr>
      else
        case httpSockets w s of
          None \<Rightarrow> w
        | Some x \<Rightarrow> w\<lparr>httpSockets := (httpSockets w)(s \<mapsto> x\<lparr>httpDead := True\<rparr>)\<rparr>)"

text \<open>The kernel: an open descriptor is registered once, and only so many of them; events are of registered ones.\<close>

definition kernel_ctl :: "epoll_op \<Rightarrow> int \<Rightarrow> u32 \<Rightarrow> nat \<Rightarrow> 'c listen_world \<Rightarrow> error \<times> 'c listen_world" where
  "kernel_ctl op fd ev s w =
     (case op of
        EPOLL_CTL_ADD \<Rightarrow>
          if fd < 0 then (ESB_INVALID_ARGUMENT, w)
          else if s \<in> set (inEpoll w) then (ESB_UNIQUENESS_VIOLATION, w)
          else if epollRoom w = 0 then (ESB_OUT_OF_MEMORY, w)
          else (ESB_SUCCESS, w\<lparr>inEpoll := s # inEpoll w, epollRoom := epollRoom w - 1\<rparr>)
      | EPOLL_CTL_MOD \<Rightarrow> (if s \<in> set (inEpoll w) then ESB_SUCCESS else ESB_CANNOT_FIND, w)
      | EPOLL_CTL_DEL \<Rightarrow>
          if s \<in> set (inEpoll w) then (ESB_SUCCESS, w\<lparr>inEpoll := removeAll s (inEpoll w), epollRoom := epollRoom w + 1\<rparr>)
          else (ESB_CANNOT_FIND, w))"

definition kernel_wait :: "u32 \<Rightarrow> u32 \<Rightarrow> 'c listen_world \<Rightarrow> waited \<times> 'c listen_world" where
  "kernel_wait n timeout w =
     (case schedule w of
        [] \<Rightarrow> (Ready [], w)
      | (d, evs) # rest \<Rightarrow>
          (Ready (take (unat n) (filter (\<lambda>(s, _). s \<in> set (inEpoll w)) evs)), w\<lparr>wallClock := d, schedule := rest\<rparr>))"

text \<open>The callbacks of a server socket; \<open>handleRemove\<close> closes its connection.\<close>

definition on_app :: "('c \<Rightarrow> error \<times> 'c) \<Rightarrow> multiplexer \<times> 'c listen_world \<Rightarrow> error \<times> multiplexer \<times> 'c listen_world" where
  "on_app f mw = (case mw of (m, w) \<Rightarrow> (case f (app w) of (e, a) \<Rightarrow> (e, m, w\<lparr>app := a\<rparr>)))"

definition http_handleRemove ::
  "'c connection_code \<Rightarrow> nat \<Rightarrow> multiplexer \<times> 'c listen_world \<Rightarrow> multiplexer \<times> 'c listen_world" where
  "http_handleRemove code s mw =
     (case mw of (m, w) \<Rightarrow>
        (case httpSockets w s of
           None \<Rightarrow> (m, w)
         | Some x \<Rightarrow>
             let w1 = closeConnection (httpConnection x) w in (m, w1\<lparr>app := removeOf code s (app w1)\<rparr>)))"

definition sockets_env :: "'c connection_code \<Rightarrow> 'c listen_world mux_env" where
  "sockets_env code =
     \<lparr>clock = wallClock, running = (\<lambda>w. schedule w \<noteq> []), fdOf = fd_of, isPermanent = (\<lambda>s w. s = listenerAt w),
      wantsAccept = (\<lambda>s w. s = listenerAt w), wantsConnect = (\<lambda>_ _. False),
      wantsRead = (\<lambda>s w. s \<noteq> listenerAt w \<and> wantReadOf code s (app w)),
      wantsWrite = (\<lambda>s w. s \<noteq> listenerAt w \<and> wantWriteOf code s (app w)),
      isDead = dead_of, markDead = mark_dead, epollCtl = kernel_ctl, epollWait = kernel_wait,
      bytesReadable = (\<lambda>_ _. 0), lastSocketError = (\<lambda>_ _. ESB_OTHER_ERROR),
      onAccept = (\<lambda>_ mw. (ESB_INVALID_STATE, mw)), onConnect = (\<lambda>_ mw. (ESB_INVALID_STATE, mw)),
      onReadable = (\<lambda>s mw. if s = listenerAt (snd mw) then (ESB_INVALID_STATE, mw) else on_app (readableOf code s) mw),
      onWritable = (\<lambda>s mw. if s = listenerAt (snd mw) then (ESB_INVALID_STATE, mw) else on_app (writableOf code s) mw),
      onError = (\<lambda>_ _ mw. mw), onRemoteClose = (\<lambda>_ mw. mw), onIdle = (\<lambda>_ mw. mw),
      onRemove = (\<lambda>s mw. if s = listenerAt (snd mw) then mw else http_handleRemove code s mw),
      onCleanup = (\<lambda>s (m, w). (m, if s = listenerAt w then w else factory_release s w))\<rparr>"

definition addServerSocket ::
  "'c connection_code \<Rightarrow> int \<Rightarrow> transport \<Rightarrow> multiplexer \<times> 'c listen_world \<Rightarrow> error \<times> multiplexer \<times> 'c listen_world" where
  "addServerSocket code fd t mw =
     (case mw of (m, w) \<Rightarrow>
        (case factory_create fd t w of
           (None, w1) \<Rightarrow> (ESB_OUT_OF_MEMORY, m, w1)
         | (Some h, w1) \<Rightarrow>
             (case addMultiplexedSocket (sockets_env code) (Some h) (m, w1) of
                (e, m1, w2) \<Rightarrow> if e \<noteq> ESB_SUCCESS then (e, m1, factory_release h w2) else (ESB_SUCCESS, m1, w2))))"

text \<open>\<open>HttpListeningSocket::handleAccept\<close>.\<close>

definition listener_handleAccept ::
  "'c connection_code \<Rightarrow> multiplexer \<times> 'c listen_world \<Rightarrow> error \<times> multiplexer \<times> 'c listen_world" where
  "listener_handleAccept code mw =
     (case mw of (m, w) \<Rightarrow>
        (case backlog w of
           [] \<Rightarrow> (ESB_SUCCESS, m, w)
         | AcceptFailed e # rest \<Rightarrow> (e, m, w\<lparr>backlog := rest\<rparr>)
         | Accepted fd t # rest \<Rightarrow>
             let w1 = w\<lparr>backlog := rest, openFds := fd # openFds w\<rparr> in
             (case acceptConnection code (app w1) of
                (e, a) \<Rightarrow>
                  let w2 = w1\<lparr>app := a\<rparr> in
                  if e \<noteq> ESB_SUCCESS then (ESB_AGAIN, m, closeFd fd w2)
                  else (ESB_AGAIN, snd (addServerSocket code fd t (m, w2))))))"

definition server_loop_env :: "'c connection_code \<Rightarrow> 'c listen_world mux_env" where
  "server_loop_env code =
     (sockets_env code)\<lparr>onAccept := (\<lambda>s mw. if s = listenerAt (snd mw) then listener_handleAccept code mw else (ESB_INVALID_STATE, mw))\<rparr>"

end
