(* ===== verification/FactoryMemory.thy ===== *)
theory FactoryMemory
  imports ServerFactory "HOL-Library.Multiset"
begin

text \<open>
  What \<open>HttpServerSocketFactory\<close> (http1) keeps of its memory: no block is of two objects, and none is lost.
\<close>

section \<open>Memory\<close>

definition spare_blocks :: "'c listen_world \<Rightarrow> nat list" where
  "spare_blocks w =
     freeBlocks w @ deconstructedHTTPSockets (serverFactory w) @ deconstructedClearSockets (serverFactory w) @
     deconstructedTLSSockets (serverFactory w)"

definition objects :: "'c listen_world \<Rightarrow> nat set" where
  "objects w = insert (listenerAt w) (dom (connections w) \<union> dom (httpSockets w))"

text \<open>No block is of two objects, nor of an object and spare; an HTTP socket has a connection of its own, and no connection is without.\<close>

definition owns_connections :: "'c listen_world \<Rightarrow> bool" where
  "owns_connections w \<longleftrightarrow>
     (\<forall>h x. httpSockets w h = Some x \<longrightarrow>
       (\<exists>y. connections w (httpConnection x) = Some y \<and> peerType y \<in> {TRANSPORT_TCP, TRANSPORT_TLS}) \<and>
       (\<forall>h' x'. httpSockets w h' = Some x' \<longrightarrow> httpConnection x' = httpConnection x \<longrightarrow> h' = h))"

definition memory_ok :: "'c listen_world \<Rightarrow> bool" where
  "memory_ok w \<longleftrightarrow>
     distinct (spare_blocks w) \<and> set (spare_blocks w) \<inter> objects w = {} \<and>
     dom (connections w) \<inter> dom (httpSockets w) = {} \<and> listenerAt w \<notin> dom (connections w) \<union> dom (httpSockets w) \<and>
     owns_connections w \<and> (\<forall>c \<in> dom (connections w). \<exists>h x. httpSockets w h = Some x \<and> httpConnection x = c)"

definition all_blocks :: "'c listen_world \<Rightarrow> nat set" where
  "all_blocks w = set (spare_blocks w) \<union> objects w"

text \<open>What the factory leaves: the listener, the registrations and the clock.\<close>

definition same_loop :: "'c listen_world \<Rightarrow> 'c listen_world \<Rightarrow> bool" where
  "same_loop w w' \<longleftrightarrow>
     listenerAt w' = listenerAt w \<and> listenFd w' = listenFd w \<and> listenerDead w' = listenerDead w \<and> inEpoll w' = inEpoll w \<and>
     epollRoom w' = epollRoom w \<and> wallClock w' = wallClock w \<and> schedule w' = schedule w \<and> backlog w' = backlog w"

lemma same_loop_refl [simp]: "same_loop w w"
  by (simp add: same_loop_def)

lemma same_loop_trans: "same_loop u v \<Longrightarrow> same_loop v w \<Longrightarrow> same_loop u w"
  by (simp add: same_loop_def)

lemma closeFd_simps [simp]:
  "serverFactory (closeFd fd w) = serverFactory w" "connections (closeFd fd w) = connections w"
  "httpSockets (closeFd fd w) = httpSockets w" "freeBlocks (closeFd fd w) = freeBlocks w"
  "same_loop w' (closeFd fd w) = same_loop w' w" "app (closeFd fd w) = app w" "backlog (closeFd fd w) = backlog w"
  "listenerAt (closeFd fd w) = listenerAt w"
  by (simp_all add: closeFd_def same_loop_def)

lemma memory_okD:
  assumes "memory_ok w" "httpSockets w h = Some x"
  shows "\<exists>y. connections w (httpConnection x) = Some y \<and> peerType y \<in> {TRANSPORT_TCP, TRANSPORT_TLS}"
    "httpSockets w h' = Some x' \<Longrightarrow> httpConnection x' = httpConnection x \<Longrightarrow> h' = h" "h \<noteq> listenerAt w"
proof -
  have "owns_connections w"
    using assms(1) by (simp add: memory_ok_def)
  note own = this [unfolded owns_connections_def, rule_format, OF assms(2)]
  show "\<exists>y. connections w (httpConnection x) = Some y \<and> peerType y \<in> {TRANSPORT_TCP, TRANSPORT_TLS}"
    "httpSockets w h' = Some x' \<Longrightarrow> httpConnection x' = httpConnection x \<Longrightarrow> h' = h"
    using own by blast+
  show "h \<noteq> listenerAt w"
    using assms by (auto simp: memory_ok_def)
qed

lemma memory_ok_connection:
  assumes "memory_ok w" "c \<in> dom (connections w)"
  obtains h x where "httpSockets w h = Some x" "httpConnection x = c"
proof -
  have "\<forall>c \<in> dom (connections w). \<exists>h x. httpSockets w h = Some x \<and> httpConnection x = c"
    using assms(1) by (simp add: memory_ok_def)
  then show thesis
    using assms(2) that by blast
qed

text \<open>Neither the mark of a socket nor the descriptor of a connection matters.\<close>

lemma memory_ok_maps:
  assumes "memory_ok w" "\<And>h. map_option httpConnection (httpSockets w' h) = map_option httpConnection (httpSockets w h)"
    and "\<And>c. map_option peerType (connections w' c) = map_option peerType (connections w c)"
    and "spare_blocks w' = spare_blocks w" "listenerAt w' = listenerAt w"
  shows "memory_ok w'" "all_blocks w' = all_blocks w"
proof -
  have http: "httpSockets w' h = Some x' \<Longrightarrow> \<exists>x. httpSockets w h = Some x \<and> httpConnection x = httpConnection x'" for h x'
    using assms(2) [of h] by (cases "httpSockets w h") auto
  have conn: "connections w c = Some y \<Longrightarrow> \<exists>y'. connections w' c = Some y' \<and> peerType y' = peerType y" for c y
    using assms(3) [of c] by (cases "connections w' c") auto
  have "owns_connections w'"
    unfolding owns_connections_def
  proof (intro allI impI conjI)
    fix h x'
    assume "httpSockets w' h = Some x'"
    then obtain x where x: "httpSockets w h = Some x" "httpConnection x = httpConnection x'"
      using http by blast
    then show "\<exists>y. connections w' (httpConnection x') = Some y \<and> peerType y \<in> {TRANSPORT_TCP, TRANSPORT_TLS}"
      using memory_okD(1) [OF assms(1) x(1)] conn by fastforce
    show "h' = h" if "httpSockets w' h' = Some z'" "httpConnection z' = httpConnection x'" for h' z'
      using http [OF that(1)] that(2) x memory_okD(2) [OF assms(1) x(1)] by force
  qed
  moreover have doms: "dom (httpSockets w') = dom (httpSockets w)" "dom (connections w') = dom (connections w)"
    using assms(2,3) by (auto simp: dom_def simp flip: map_option_is_None) (metis map_option_is_None not_None_eq)+
  moreover have "\<exists>h x. httpSockets w' h = Some x \<and> httpConnection x = c" if c: "c \<in> dom (connections w')" for c
  proof -
    obtain h x where x: "httpSockets w h = Some x" "httpConnection x = c"
      using memory_ok_connection [OF assms(1)] c doms(2) by blast
    then obtain x' where "httpSockets w' h = Some x'" "httpConnection x' = httpConnection x"
      using assms(2) [of h] by (cases "httpSockets w' h") simp_all
    then show ?thesis
      using x(2) by blast
  qed
  moreover have "distinct (spare_blocks w')" "set (spare_blocks w') \<inter> objects w' = {}" "dom (connections w') \<inter> dom (httpSockets w') = {}"
      "listenerAt w' \<notin> dom (connections w') \<union> dom (httpSockets w')"
    using assms(1) unfolding memory_ok_def objects_def doms assms(4,5) by simp_all
  ultimately show "memory_ok w'"
    by (simp add: memory_ok_def)
  show "all_blocks w' = all_blocks w"
    using doms assms(4,5) by (simp add: all_blocks_def objects_def)
qed

text \<open>A block that is taken and one that is given back, whatever becomes of them.\<close>

definition same_objects :: "'c listen_world \<Rightarrow> 'c listen_world \<Rightarrow> bool" where
  "same_objects w w' \<longleftrightarrow> same_loop w w' \<and> connections w' = connections w \<and> httpSockets w' = httpSockets w"

lemma block_taken:
  assumes "memory_ok w" "mset (spare_blocks w) = add_mset b (mset (spare_blocks w1))" "same_objects w w1"
  shows "memory_ok w1" "b \<notin> set (spare_blocks w1)" "b \<notin> objects w1" "all_blocks w = insert b (all_blocks w1)"
proof -
  have m: "mset (spare_blocks w) = mset (b # spare_blocks w1)"
    using assms(2) by simp
  have set: "set (spare_blocks w) = insert b (set (spare_blocks w1))" and
      dist: "distinct (spare_blocks w) \<longleftrightarrow> distinct (b # spare_blocks w1)"
    using mset_eq_setD [OF m] mset_eq_imp_distinct_iff [OF m] by simp_all
  have same: "connections w1 = connections w" "httpSockets w1 = httpSockets w" "listenerAt w1 = listenerAt w" "objects w1 = objects w"
    using assms(3) by (simp_all add: same_objects_def same_loop_def objects_def)
  show "memory_ok w1"
    using assms(1) dist set same by (simp add: memory_ok_def owns_connections_def)
  show "b \<notin> set (spare_blocks w1)" "b \<notin> objects w1"
    using assms(1) dist set same by (simp_all add: memory_ok_def)
  show "all_blocks w = insert b (all_blocks w1)"
    using set same by (simp add: all_blocks_def)
qed

lemma distinct_taken:
  assumes "xs \<noteq> []"
  shows "mset xs = add_mset (last xs) (mset (butlast xs))"
  using assms by (metis add.right_neutral append_butlast_last_id mset.simps union_mset_add_mset_right mset_append)

lemma connection_memory_block:
  assumes "connection_memory t w = Some (c, w1)"
  shows "mset (spare_blocks w) = add_mset c (mset (spare_blocks w1)) \<and> same_objects w w1 \<and> app w1 = app w \<and>
    t \<in> {TRANSPORT_TCP, TRANSPORT_TLS}"
  using assms distinct_taken [of "deconstructedClearSockets (serverFactory w)"]
    distinct_taken [of "deconstructedTLSSockets (serverFactory w)"]
  by (cases t) (auto simp: connection_memory_def allocate_block_def Let_def spare_blocks_def same_objects_def same_loop_def
      split: if_splits list.splits)

lemma http_memory_block:
  assumes "http_memory w = Some (h, w1)"
  shows "mset (spare_blocks w) = add_mset h (mset (spare_blocks w1)) \<and> same_objects w w1 \<and> app w1 = app w"
  using assms by (auto simp: http_memory_def allocate_block_def Let_def spare_blocks_def same_objects_def same_loop_def
      split: list.splits)

text \<open>The destructor of a connection: its memory is spare again.\<close>

lemma releaseSocket_block:
  assumes "connections w c = Some x" "peerType x \<in> {TRANSPORT_TCP, TRANSPORT_TLS}"
  shows "mset (spare_blocks (releaseSocket c w)) = add_mset c (mset (spare_blocks w))"
    "same_loop w (releaseSocket c w)" "httpSockets (releaseSocket c w) = httpSockets w"
    "connections (releaseSocket c w) = (connections w)(c := None)" "app (releaseSocket c w) = app w"
  using assms by (auto simp: releaseSocket_def Let_def spare_blocks_def same_loop_def closeFd_def)

lemma spare_add:
  assumes "mset (spare_blocks w1) = add_mset b (mset (spare_blocks w))"
  shows "set (spare_blocks w1) = insert b (set (spare_blocks w))" "distinct (spare_blocks w1) \<longleftrightarrow> distinct (b # spare_blocks w)"
proof -
  have m: "mset (spare_blocks w1) = mset (b # spare_blocks w)"
    using assms by simp
  show "set (spare_blocks w1) = insert b (set (spare_blocks w))" "distinct (spare_blocks w1) \<longleftrightarrow> distinct (b # spare_blocks w)"
    using mset_eq_setD [OF m] mset_eq_imp_distinct_iff [OF m] by simp_all
qed

lemma factory_release_block:
  assumes "memory_ok w" "httpSockets w h = Some x"
  shows "memory_ok (factory_release h w)" "same_loop w (factory_release h w)"
    "httpSockets (factory_release h w) = (httpSockets w)(h := None)"
    "connections (factory_release h w) = (connections w)(httpConnection x := None)"
    "all_blocks (factory_release h w) = all_blocks w"
proof -
  let ?c = "httpConnection x"
  obtain y where y: "connections w ?c = Some y" "peerType y \<in> {TRANSPORT_TCP, TRANSPORT_TLS}"
    using memory_okD(1) [OF assms] by blast
  note r = releaseSocket_block [OF y]
  let ?w = "factory_release h w"
  have w: "mset (spare_blocks ?w) = add_mset h (mset (spare_blocks (releaseSocket ?c w)))"
    "same_loop (releaseSocket ?c w) ?w" "httpSockets ?w = (httpSockets w)(h := None)"
    "connections ?w = (connections w)(?c := None)"
    using r assms(2) by (simp_all add: factory_release_def Let_def spare_blocks_def same_loop_def)
  show "same_loop w ?w" "httpSockets ?w = (httpSockets w)(h := None)" "connections ?w = (connections w)(?c := None)"
    using w same_loop_trans [OF r(2) w(2)] by simp_all
  have l: "listenerAt ?w = listenerAt w"
    using same_loop_trans [OF r(2) w(2)] by (simp add: same_loop_def)
  note spare = spare_add [OF w(1)] spare_add [OF r(1)]
  have doms: "?c \<in> dom (connections w)" "h \<in> dom (httpSockets w)"
    using y(1) assms(2) by auto
  have objs: "objects ?w = objects w - {h, ?c}"
    using doms assms(1) unfolding objects_def memory_ok_def w(3,4) l by auto
  have in_objs: "h \<in> objects w" "?c \<in> objects w"
    using doms by (simp_all add: objects_def)
  have set: "set (spare_blocks ?w) = insert h (insert ?c (set (spare_blocks w)))"
    using spare(1,3) by simp
  show "all_blocks ?w = all_blocks w"
    using in_objs unfolding all_blocks_def objs set by auto
  have disj: "set (spare_blocks w) \<inter> objects w = {}" "distinct (spare_blocks w)" "dom (connections w) \<inter> dom (httpSockets w) = {}"
    using assms(1) by (simp_all add: memory_ok_def)
  then have "h \<noteq> ?c" "h \<notin> set (spare_blocks w)" "?c \<notin> set (spare_blocks w)"
    using doms in_objs by auto
  then have "distinct (spare_blocks ?w)" "set (spare_blocks ?w) \<inter> objects ?w = {}"
    using disj spare(2,3,4) by simp (use disj in \<open>auto simp: objs set\<close>)
  moreover have "owns_connections ?w"
    unfolding owns_connections_def w(3,4)
  proof (intro allI impI conjI)
    fix h' z
    assume "((httpSockets w)(h := None)) h' = Some z"
    then have h': "httpSockets w h' = Some z" "h' \<noteq> h"
      by (auto split: if_splits)
    then have "httpConnection z \<noteq> ?c"
      using memory_okD(2) [OF assms, of h' z] by blast
    then show "\<exists>y. ((connections w)(?c := None)) (httpConnection z) = Some y \<and> peerType y \<in> {TRANSPORT_TCP, TRANSPORT_TLS}"
      using memory_okD(1) [OF assms(1) h'(1)] by simp
    show "h'' = h'" if "((httpSockets w)(h := None)) h'' = Some z'" "httpConnection z' = httpConnection z" for h'' z'
      using memory_okD(2) [OF assms(1) h'(1), of h'' z'] that by (simp split: if_splits)
  qed
  moreover have "dom (connections ?w) \<inter> dom (httpSockets ?w) = {}" "listenerAt ?w \<notin> dom (connections ?w) \<union> dom (httpSockets ?w)"
    using assms(1) w(3,4) l by (auto simp: memory_ok_def)
  moreover have "\<exists>h' z. httpSockets ?w h' = Some z \<and> httpConnection z = c" if c: "c \<in> dom (connections ?w)" for c
  proof -
    have "c \<in> dom (connections w)" "c \<noteq> ?c"
      using c w(4) by (auto split: if_splits)
    then obtain h' z where z: "httpSockets w h' = Some z" "httpConnection z = c"
      using memory_ok_connection [OF assms(1)] by blast
    then have "h' \<noteq> h"
      using \<open>c \<noteq> ?c\<close> assms(2) by auto
    then show ?thesis
      using z w(3) by auto
  qed
  ultimately show "memory_ok ?w"
    by (simp add: memory_ok_def)
qed

lemma unchanged_objects:
  assumes "memory_ok w" "mset (spare_blocks w') = mset (spare_blocks w)" "same_objects w w'"
  shows "memory_ok w'" "all_blocks w' = all_blocks w"
  using assms mset_eq_setD [OF assms(2)] mset_eq_imp_distinct_iff [OF assms(2)]
  by (simp_all add: memory_ok_def owns_connections_def objects_def all_blocks_def same_objects_def same_loop_def)

lemma factory_create_none:
  assumes "memory_ok w" "factory_create fd t w = (None, w')"
  shows "memory_ok w'" "same_objects w w'" "all_blocks w' = all_blocks w" "app w' = app w"
proof -
  have "mset (spare_blocks w') = mset (spare_blocks w) \<and> same_objects w w' \<and> app w' = app w"
  proof (cases "connection_memory t w")
    case None
    then show ?thesis
      using assms(2) by (simp add: factory_create_def same_objects_def)
  next
    case (Some p)
    then obtain c w1 where c: "connection_memory t w = Some (c, w1)"
      by (cases p) simp
    let ?w2 = "w1\<lparr>connections := (connections w1)(c \<mapsto> \<lparr>peerType = t, sockFd = fd\<rparr>)\<rparr>"
    note b = connection_memory_block [OF c]
    have w': "w' = releaseSocket c ?w2"
      using assms(2) c by (auto simp: factory_create_def Let_def split: option.splits)
    have "connections w c = None"
      using block_taken(3) [OF assms(1), of c w1] b by (auto simp: objects_def same_objects_def same_loop_def)
    then have "(connections w1)(c := None) = connections w"
      using b by (auto simp: same_objects_def)
    then show ?thesis
      using b releaseSocket_block [of ?w2 c "\<lparr>peerType = t, sockFd = fd\<rparr>"] same_loop_trans [of w w1 w']
      unfolding w' by (auto simp: spare_blocks_def same_objects_def same_loop_def)
  qed
  then show "memory_ok w'" "same_objects w w'" "all_blocks w' = all_blocks w" "app w' = app w"
    using unchanged_objects [OF assms(1)] by simp_all
qed

lemma factory_create_some:
  assumes ok: "memory_ok w" and r: "factory_create fd t w = (Some h, w')"
  obtains c where "connections w' = (connections w)(c \<mapsto> \<lparr>peerType = t, sockFd = fd\<rparr>)"
    "httpSockets w' = (httpSockets w)(h \<mapsto> \<lparr>httpConnection = c, httpDead = False\<rparr>)" "c \<notin> objects w" "h \<notin> objects w"
    "memory_ok w'" "same_loop w w'" "all_blocks w' = all_blocks w" "app w' = app w"
proof -
  obtain c w1 where c: "connection_memory t w = Some (c, w1)"
    using r by (auto simp: factory_create_def split: option.splits)
  note b = connection_memory_block [OF c]
  have t: "t \<in> {TRANSPORT_TCP, TRANSPORT_TLS}" and same1: "same_objects w w1"
    using b by simp_all
  have m1: "mset (spare_blocks w) = add_mset c (mset (spare_blocks w1))"
    using b by simp
  note taken1 = block_taken [OF ok m1 same1]
  let ?w2 = "w1\<lparr>connections := (connections w1)(c \<mapsto> \<lparr>peerType = t, sockFd = fd\<rparr>)\<rparr>"
  obtain w3 where h: "http_memory ?w2 = Some (h, w3)" and w': "w' = w3\<lparr>httpSockets := (httpSockets w3)(h \<mapsto> \<lparr>httpConnection = c, httpDead = False\<rparr>)\<rparr>"
    using r c by (auto simp: factory_create_def Let_def split: option.splits)
  note b2 = http_memory_block [OF h]
  have spare2: "spare_blocks ?w2 = spare_blocks w1"
    by (simp add: spare_blocks_def)
  have m2: "mset (spare_blocks w1) = add_mset h (mset (spare_blocks w3))"
    using b2 spare2 by simp
  have maps: "connections w' = (connections w)(c \<mapsto> \<lparr>peerType = t, sockFd = fd\<rparr>)"
      "httpSockets w' = (httpSockets w)(h \<mapsto> \<lparr>httpConnection = c, httpDead = False\<rparr>)" "same_loop w w'" "app w' = app w"
      "spare_blocks w' = spare_blocks w3"
    using b b2 w' by (auto simp: same_objects_def same_loop_def spare_blocks_def)
  have set: "set (spare_blocks w) = insert c (insert h (set (spare_blocks w')))"
      and dist: "distinct (spare_blocks w) \<longleftrightarrow> distinct (c # h # spare_blocks w')"
    using spare_add [OF m1] spare_add [OF m2] maps(5) by auto
  have fresh: "c \<notin> objects w" "h \<notin> objects w" "c \<noteq> h" "distinct (spare_blocks w')" "c \<notin> set (spare_blocks w')" "h \<notin> set (spare_blocks w')"
      "set (spare_blocks w') \<inter> objects w = {}"
    using ok set dist by (auto simp: memory_ok_def)
  have l: "listenerAt w' = listenerAt w"
    using maps(3) by (simp add: same_loop_def)
  have objs: "objects w' = insert c (insert h (objects w))"
    unfolding objects_def maps(1,2) l by auto
  have "owns_connections w'"
    unfolding owns_connections_def maps(1,2)
  proof (intro allI impI)
    fix g x
    assume g: "((httpSockets w)(h \<mapsto> \<lparr>httpConnection = c, httpDead = False\<rparr>)) g = Some x"
    have other: "httpConnection x' \<noteq> c \<and> (\<exists>y. connections w (httpConnection x') = Some y \<and> peerType y \<in> {TRANSPORT_TCP, TRANSPORT_TLS})"
      if "httpSockets w g' = Some x'" for g' x'
      using memory_okD(1) [OF ok that] fresh(1) by (auto simp: objects_def)
    show "(\<exists>y. ((connections w)(c \<mapsto> \<lparr>peerType = t, sockFd = fd\<rparr>)) (httpConnection x) = Some y \<and>
          peerType y \<in> {TRANSPORT_TCP, TRANSPORT_TLS}) \<and>
        (\<forall>h' x'. ((httpSockets w)(h \<mapsto> \<lparr>httpConnection = c, httpDead = False\<rparr>)) h' = Some x' \<longrightarrow>
          httpConnection x' = httpConnection x \<longrightarrow> h' = g)"
    proof (cases "g = h")
      case True
      then show ?thesis
        using g t other by auto
    next
      case False
      then have "httpSockets w g = Some x"
        using g by simp
      then show ?thesis
        using other memory_okD(2) [OF ok] by (metis fun_upd_apply http_object.select_convs(1) option.inject)
    qed
  qed
  moreover have "dom (connections w') \<inter> dom (httpSockets w') = {}" "listenerAt w' \<notin> dom (connections w') \<union> dom (httpSockets w')"
    using ok fresh(1-3) unfolding maps(1,2) l memory_ok_def objects_def by auto
  moreover have "\<exists>g x. httpSockets w' g = Some x \<and> httpConnection x = d" if d: "d \<in> dom (connections w')" for d
  proof (cases "d = c")
    case True
    then show ?thesis
      using maps(2) by auto
  next
    case False
    then have "d \<in> dom (connections w)"
      using d maps(1) by simp
    then obtain g x where x: "httpSockets w g = Some x" "httpConnection x = d"
      using memory_ok_connection [OF ok] by blast
    then have "g \<noteq> h"
      using fresh(2) by (auto simp: objects_def)
    then show ?thesis
      using x maps(2) by auto
  qed
  moreover have "set (spare_blocks w') \<inter> objects w' = {}"
    using fresh unfolding objs by auto
  ultimately have "memory_ok w'"
    using fresh(4) by (simp add: memory_ok_def)
  moreover have "all_blocks w' = all_blocks w"
    unfolding all_blocks_def objs set by auto
  ultimately show thesis
    using that [OF maps(1,2) fresh(1,2)] maps(3,4) by blast
qed

end
