(* ===== verification/ServerLoop.thy ===== *)
theory ServerLoop
  imports FactoryMemory
begin

text \<open>
  A worker of the server: the loop of the multiplexer over the sockets of the factory. They keep the contract
  of the loop (locales \<open>epoll_kernel\<close>, \<open>event_loop\<close>, \<open>ending_loop\<close>), whatever the connections answer.
\<close>

section \<open>The kernel\<close>

text \<open>\<open>m0\<close> is the multiplexer as it has been constructed, \<open>B\<close> the memory it has, \<open>N\<close> bounds the rounds to come, the sockets in \<open>L\<close>
  are not in its lists. The clock does not run backwards, and for 31 bits of ticks.\<close>

definition clock_ok :: "multiplexer \<Rightarrow> 'c listen_world \<Rightarrow> bool" where
  "clock_ok m0 w \<longleftrightarrow>
     (let ds = wallClock w # map fst (schedule w) in
      sorted (map (tick_at (timingWheel m0)) ds) \<and>
      (\<forall>d \<in> set ds. tick_at (timingWheel m0) d + unat (maxTicks (timingWheel m0)) < 2 ^ 31 \<and>
        due_at (timingWheel m0) d (idleTimeoutMsec m0) < 2 ^ 31))"

definition descriptors_ok :: "multiplexer \<Rightarrow> 'c listen_world \<Rightarrow> bool" where
  "descriptors_ok m0 w \<longleftrightarrow> (\<forall>fd t. Accepted fd t \<in> set (backlog w) \<longrightarrow> in_cache m0 fd)"

definition registered_ok :: "'c listen_world \<Rightarrow> bool" where
  "registered_ok w \<longleftrightarrow> set (inEpoll w) \<subseteq> insert (listenerAt w) (dom (httpSockets w))"

definition loop_view :: "multiplexer \<Rightarrow> nat set \<Rightarrow> nat \<Rightarrow> nat set \<Rightarrow> 'c listen_world mux_view" where
  "loop_view m0 B N L =
     \<lparr>registered = (\<lambda>w. set (inEpoll w)), constructed = (\<lambda>w. dom (httpSockets w)), lost = L,
      sane = (\<lambda>w. memory_ok w \<and> all_blocks w = B \<and> registered_ok w \<and> clock_ok m0 w \<and> descriptors_ok m0 w \<and>
        length (schedule w) \<le> N),
      config = config_of m0\<rparr>"

lemma env_simps [simp]:
  "clock (server_loop_env code) = wallClock" "running (server_loop_env code) w = (schedule w \<noteq> [])" "fdOf (server_loop_env code) = fd_of"
  "isPermanent (server_loop_env code) s w = (s = listenerAt w)" "wantsAccept (server_loop_env code) s w = (s = listenerAt w)"
  "wantsConnect (server_loop_env code) s w = False" "isDead (server_loop_env code) = dead_of"
  "markDead (server_loop_env code) = mark_dead" "epollCtl (server_loop_env code) = kernel_ctl"
  "epollWait (server_loop_env code) = kernel_wait"
  by (simp_all add: server_loop_env_def sockets_env_def)

lemma view_simps [simp]:
  "registered (loop_view m0 B N L) w = set (inEpoll w)" "config (loop_view m0 B N L) = config_of m0"
  "constructed (loop_view m0 B N L) w = dom (httpSockets w)" "lost (loop_view m0 B N L) = L"
  "loop_view m0 B N L\<lparr>lost := L'\<rparr> = loop_view m0 B N L'"
  "sane (loop_view m0 B N L) w \<longleftrightarrow> memory_ok w \<and> all_blocks w = B \<and> registered_ok w \<and> clock_ok m0 w \<and> descriptors_ok m0 w \<and>
    length (schedule w) \<le> N"
  by (simp_all add: loop_view_def)

lemma sane_same_objects:
  assumes "same_objects w w'" "spare_blocks w' = spare_blocks w"
  shows "memory_ok w' = memory_ok w"
  using assms by (simp add: memory_ok_def owns_connections_def objects_def same_objects_def same_loop_def)

lemma kernel_ctl_world:
  assumes "kernel_ctl op fd ev s w = (e, w')"
  shows "w' = w\<lparr>inEpoll := inEpoll w', epollRoom := epollRoom w'\<rparr>"
    "set (inEpoll w') = (if e \<noteq> ESB_SUCCESS then set (inEpoll w)
      else case op of EPOLL_CTL_ADD \<Rightarrow> insert s (set (inEpoll w)) | EPOLL_CTL_MOD \<Rightarrow> set (inEpoll w)
        | EPOLL_CTL_DEL \<Rightarrow> set (inEpoll w) - {s})"
    "op = EPOLL_CTL_DEL \<Longrightarrow> e = ESB_SUCCESS \<longleftrightarrow> s \<in> set (inEpoll w)"
    "e = ESB_SUCCESS \<Longrightarrow> op = EPOLL_CTL_ADD \<Longrightarrow> 0 \<le> fd"
  using assms by (cases op; auto simp: kernel_ctl_def split: if_splits)+

lemma registered_world:
  "fd_of s (w\<lparr>inEpoll := xs, epollRoom := n\<rparr>) = fd_of s w" "dead_of s (w\<lparr>inEpoll := xs, epollRoom := n\<rparr>) = dead_of s w"
  "memory_ok (w\<lparr>inEpoll := xs, epollRoom := n\<rparr>) = memory_ok w" "all_blocks (w\<lparr>inEpoll := xs, epollRoom := n\<rparr>) = all_blocks w" "clock_ok m0 (w\<lparr>inEpoll := xs, epollRoom := n\<rparr>) = clock_ok m0 w"
  "descriptors_ok m0 (w\<lparr>inEpoll := xs, epollRoom := n\<rparr>) = descriptors_ok m0 w"
  by (simp_all add: fd_of_def dead_of_def memory_ok_def owns_connections_def objects_def all_blocks_def spare_blocks_def clock_ok_def descriptors_ok_def
      cong: option.case_cong)

lemma same_loop_sane:
  assumes "same_loop w w'"
  shows "clock_ok m0 w' = clock_ok m0 w" "descriptors_ok m0 w' = descriptors_ok m0 w"
  using assms by (simp_all add: clock_ok_def descriptors_ok_def same_loop_def)

lemma mark_dead_world:
  assumes "memory_ok w" "dead_of t w \<or> t = listenerAt w \<or> t \<in> dom (httpSockets w)"
  shows "memory_ok (mark_dead t w)" "all_blocks (mark_dead t w) = all_blocks w" "fd_of s (mark_dead t w) = fd_of s w" "dead_of s (mark_dead t w) = (s = t \<or> dead_of s w)"
    "listenerAt (mark_dead t w) = listenerAt w" "wallClock (mark_dead t w) = wallClock w" "inEpoll (mark_dead t w) = inEpoll w"
    "clock_ok m0 (mark_dead t w) = clock_ok m0 w" "descriptors_ok m0 (mark_dead t w) = descriptors_ok m0 w"
    "schedule (mark_dead t w) = schedule w"
proof -
  have t: "t = listenerAt w \<or> (\<exists>x. httpSockets w t = Some x)"
    using assms(2) by (auto simp: dead_of_def split: if_splits option.splits)
  have "memory_ok (mark_dead t w) \<and> all_blocks (mark_dead t w) = all_blocks w"
  proof (cases "t = listenerAt w")
    case True
    then show ?thesis
      using assms(1)
      by (simp add: mark_dead_def memory_ok_def objects_def spare_blocks_def owns_connections_def all_blocks_def)
  next
    case False
    then obtain x where x: "httpSockets w t = Some x" "t \<noteq> listenerAt w"
      using t by blast
    then have w: "mark_dead t w = w\<lparr>httpSockets := (httpSockets w)(t \<mapsto> x\<lparr>httpDead := True\<rparr>)\<rparr>"
      by (simp add: mark_dead_def)
    have "map_option httpConnection (httpSockets (mark_dead t w) h) = map_option httpConnection (httpSockets w h)"
      "map_option peerType (connections (mark_dead t w) c) = map_option peerType (connections w c)"
      "spare_blocks (mark_dead t w) = spare_blocks w" "listenerAt (mark_dead t w) = listenerAt w" for h c
      using x by (simp_all add: w spare_blocks_def)
    from memory_ok_maps [OF assms(1) this] show ?thesis
      by simp
  qed
  then show "memory_ok (mark_dead t w)" "all_blocks (mark_dead t w) = all_blocks w"
    by simp_all
  show "fd_of s (mark_dead t w) = fd_of s w" "dead_of s (mark_dead t w) = (s = t \<or> dead_of s w)"
  proof -
    have "fd_of s (mark_dead t w) = fd_of s w \<and> dead_of s (mark_dead t w) = (s = t \<or> dead_of s w)"
    proof (cases "t = listenerAt w")
      case True
      then show ?thesis
        by (simp add: mark_dead_def fd_of_def dead_of_def cong: option.case_cong)
    next
      case False
      then obtain x where x: "httpSockets w t = Some x" "t \<noteq> listenerAt w"
        using t by blast
      then show ?thesis
        by (cases "s = t") (simp_all add: mark_dead_def fd_of_def dead_of_def cong: option.case_cong)
    qed
    then show "fd_of s (mark_dead t w) = fd_of s w" "dead_of s (mark_dead t w) = (s = t \<or> dead_of s w)"
      by simp_all
  qed
  show "listenerAt (mark_dead t w) = listenerAt w" "wallClock (mark_dead t w) = wallClock w" "inEpoll (mark_dead t w) = inEpoll w"
    "clock_ok m0 (mark_dead t w) = clock_ok m0 w" "descriptors_ok m0 (mark_dead t w) = descriptors_ok m0 w"
    "schedule (mark_dead t w) = schedule w"
    by (auto simp: mark_dead_def clock_ok_def descriptors_ok_def split: option.splits)
qed

lemma closeConnection_world:
  assumes "memory_ok w" "httpSockets w h = Some x"
  shows "memory_ok (closeConnection (httpConnection x) w)" "all_blocks (closeConnection (httpConnection x) w) = all_blocks w"
    "same_loop w (closeConnection (httpConnection x) w)"
    "dead_of s (closeConnection (httpConnection x) w) = dead_of s w" "httpSockets (closeConnection (httpConnection x) w) = httpSockets w"
    "s \<noteq> h \<Longrightarrow> fd_of s (closeConnection (httpConnection x) w) = fd_of s w"
proof -
  let ?w = "closeConnection (httpConnection x) w"
  obtain y where y: "connections w (httpConnection x) = Some y"
    using memory_okD(1) [OF assms] by blast
  then have w: "?w = closeFd (sockFd y) w\<lparr>connections := (connections w)(httpConnection x \<mapsto> y\<lparr>sockFd := - 1\<rparr>)\<rparr>"
    by (simp add: closeConnection_def)
  then show loop: "same_loop w ?w" and http: "httpSockets ?w = httpSockets w"
    by (simp_all add: same_loop_def closeFd_def)
  then show "dead_of s ?w = dead_of s w"
    by (simp add: dead_of_def same_loop_def)
  have "map_option httpConnection (httpSockets ?w h) = map_option httpConnection (httpSockets w h)"
    "map_option peerType (connections ?w c) = map_option peerType (connections w c)"
    "spare_blocks ?w = spare_blocks w" "listenerAt ?w = listenerAt w" for h c
    using y by (simp_all add: w spare_blocks_def)
  from memory_ok_maps [OF assms(1) this] show "memory_ok ?w" "all_blocks ?w = all_blocks w"
    by simp_all
  show "fd_of s ?w = fd_of s w" if "s \<noteq> h"
  proof -
    have "httpConnection z \<noteq> httpConnection x" if "httpSockets w s = Some z" for z
      using memory_okD(2) [OF assms that] \<open>s \<noteq> h\<close> by blast
    then show ?thesis
      using loop by (auto simp: fd_of_def http w same_loop_def split: option.split)
  qed
qed

lemma fd_object: "0 \<le> fd_of s w \<Longrightarrow> s \<in> insert (listenerAt w) (dom (httpSockets w))"
  by (auto simp: fd_of_def split: if_splits option.splits)

interpretation lk: epoll_kernel "server_loop_env code" "loop_view m0 B N L"
  for code :: "'c connection_code" and m0 :: multiplexer and B :: "nat set" and N :: nat and L :: "nat set"
proof unfold_locales
  fix op s ev w e w'
  assume c: "epollCtl (server_loop_env code) op (fdOf (server_loop_env code) s w) ev s w = (e, w')" and sane: "sane (loop_view m0 B N L) w"
  then have k: "kernel_ctl op (fd_of s w) ev s w = (e, w')"
    by simp
  note world = kernel_ctl_world [OF k]
  have rest: "listenerAt w' = listenerAt w" "wallClock w' = wallClock w" "httpSockets w' = httpSockets w" "fd_of t w' = fd_of t w"
    "dead_of t w' = dead_of t w" "memory_ok w' = memory_ok w" "all_blocks w' = all_blocks w" "clock_ok m0 w' = clock_ok m0 w"
    "schedule w' = schedule w"
    "descriptors_ok m0 w' = descriptors_ok m0 w" for t
    by (subst world(1), simp add: registered_world)+
  have "registered_ok w'"
  proof -
    have "set (inEpoll w) \<subseteq> insert (listenerAt w) (dom (httpSockets w))"
      using sane by (simp add: registered_ok_def)
    then show ?thesis
      using world(2,4) fd_object [of s w] unfolding registered_ok_def rest by (cases op) (auto split: if_splits)
  qed
  then show "same_sockets (server_loop_env code) w w' \<and> sane (loop_view m0 B N L) w' \<and>
      constructed (loop_view m0 B N L) w' = constructed (loop_view m0 B N L) w \<and>
      registered (loop_view m0 B N L) w' = (if e \<noteq> ESB_SUCCESS then registered (loop_view m0 B N L) w
        else case op of EPOLL_CTL_ADD \<Rightarrow> insert s (registered (loop_view m0 B N L) w) | EPOLL_CTL_MOD \<Rightarrow> registered (loop_view m0 B N L) w
          | EPOLL_CTL_DEL \<Rightarrow> registered (loop_view m0 B N L) w - {s})"
    using sane world(2) rest by (simp add: same_sockets_def cong: epoll_op.case_cong)
next
  fix s w ev e w'
  assume "epollCtl (server_loop_env code) EPOLL_CTL_DEL (fdOf (server_loop_env code) s w) ev s w = (e, w')"
  then show "e = ESB_SUCCESS \<longleftrightarrow> s \<in> registered (loop_view m0 B N L) w"
    using kernel_ctl_world(3) [of EPOLL_CTL_DEL "fd_of s w" ev s w e w'] by simp
next
  fix fd ev s w0 w
  assume c: "epollCtl (server_loop_env code) EPOLL_CTL_DEL fd ev s w0 = (ESB_SUCCESS, w)" and sane: "sane (loop_view m0 B N L) w0"
    and s: "s \<in> registered (loop_view m0 B N L) w0"
  then have k: "kernel_ctl EPOLL_CTL_DEL fd ev s w0 = (ESB_SUCCESS, w)"
    by simp
  note world = kernel_ctl_world [OF k]
  have rest: "listenerAt w = listenerAt w0" "httpSockets w = httpSockets w0" "memory_ok w = memory_ok w0" "all_blocks w = all_blocks w0" "schedule w = schedule w0"
    "clock_ok m0 w = clock_ok m0 w0" "descriptors_ok m0 w = descriptors_ok m0 w0"
    by (subst world(1), simp add: registered_world)+
  have "s = listenerAt w \<or> s \<in> dom (httpSockets w)"
    using sane s rest by (auto simp: registered_ok_def)
  note dead = mark_dead_world [OF _ disjI2 [OF this]]
  have ok: "memory_ok w"
    using sane rest by simp
  have "dom (httpSockets (mark_dead s w)) = dom (httpSockets w)"
    by (auto simp: mark_dead_def split: option.splits)
  moreover from this have "registered_ok (mark_dead s w)"
    using sane world(2) dead(5,7) [OF ok] rest by (auto simp: registered_ok_def)
  ultimately show "clock (server_loop_env code) (markDead (server_loop_env code) s w) = clock (server_loop_env code) w \<and>
      sane (loop_view m0 B N L) (markDead (server_loop_env code) s w) \<and>
      registered (loop_view m0 B N L) (markDead (server_loop_env code) s w) = registered (loop_view m0 B N L) w \<and>
      constructed (loop_view m0 B N L) (markDead (server_loop_env code) s w) = constructed (loop_view m0 B N L) w \<and>
      (\<forall>t. isDead (server_loop_env code) t (markDead (server_loop_env code) s w) = (t = s \<or> isDead (server_loop_env code) t w) \<and>
        isPermanent (server_loop_env code) t (markDead (server_loop_env code) s w) = isPermanent (server_loop_env code) t w \<and>
        fdOf (server_loop_env code) t (markDead (server_loop_env code) s w) = fdOf (server_loop_env code) t w)"
    using dead [OF ok] sane rest by simp
qed

text \<open>
  A change of the world that leaves the loop, the live sockets and the marks of the dead. Connections may have
  been accepted, and sockets constructed or destroyed that are not in the lists.
\<close>

lemma world_change:
  assumes "mux_inv (server_loop_env code) (loop_view m0 B N L) late (m, w)" "same_loop (w\<lparr>backlog := backlog w'\<rparr>) w'" "memory_ok w'"
    and "all_blocks w' = all_blocks w"
    and "registered_ok w'" "set (backlog w') \<subseteq> set (backlog w)" "dom (httpSockets w') - L' \<subseteq> dom (httpSockets w) - L"
    and "\<And>s. s \<in> set (activeSockets m) \<Longrightarrow> fd_of s w' = fd_of s w"
    and "\<And>s. s \<in> set (activeSockets m) \<union> set (deadSockets m) \<Longrightarrow> dead_of s w' = dead_of s w"
  shows "mux_inv (server_loop_env code) (loop_view m0 B N L') late (m, w') \<and> callback_step (server_loop_env code) (m, w) (m, w')"
proof -
  have "clock_ok m0 w' = clock_ok m0 w" "descriptors_ok m0 w \<Longrightarrow> descriptors_ok m0 w'"
    using assms(2,6) by (auto simp: clock_ok_def descriptors_ok_def same_loop_def)
  moreover have "dom (httpSockets w') \<subseteq> set (activeSockets m) \<union> set (deadSockets m) \<union> L'"
  proof -
    have "dom (httpSockets w) \<subseteq> set (activeSockets m) \<union> set (deadSockets m) \<union> L"
      using assms(1) by (simp add: mux_inv_def sockets_ok_def)
    then show ?thesis
      using assms(7) by blast
  qed
  ultimately show ?thesis
    using assms(1-6,8,9)
    by (simp add: mux_inv_def timers_ok_def sockets_ok_def callback_step_def mux_grows_def same_clock_def same_loop_def)
qed

lemma lost_found:
  assumes "mux_inv (server_loop_env code) (loop_view m0 B N (insert h L)) late (m, w)"
    and "h \<in> set (activeSockets m) \<union> set (deadSockets m) \<or> h \<notin> dom (httpSockets w)"
  shows "mux_inv (server_loop_env code) (loop_view m0 B N L) late (m, w)"
proof -
  have "dom (httpSockets w) \<subseteq> set (activeSockets m) \<union> set (deadSockets m) \<union> insert h L"
    using assms(1) by (simp add: mux_inv_def sockets_ok_def)
  then have "dom (httpSockets w) \<subseteq> set (activeSockets m) \<union> set (deadSockets m) \<union> L"
    using assms(2) by auto
  then show ?thesis
    using assms(1) by (simp add: mux_inv_def sockets_ok_def)
qed

lemma mux_inv_sane:
  assumes "mux_inv (server_loop_env code) (loop_view m0 B N L) late (m, w)"
  shows "memory_ok w" "registered_ok w" "clock_ok m0 w" "descriptors_ok m0 w" "set (inEpoll w) = set (activeSockets m)"
    "set (activeSockets m) \<inter> set (deadSockets m) = {}" "maxSockets m = maxSockets m0"
    "s \<in> set (deadSockets m) \<Longrightarrow> dead_of s w" "s \<in> set (activeSockets m) \<union> set (deadSockets m) \<Longrightarrow> s \<in> insert (listenerAt w) (dom (httpSockets w))"
proof -
  show all: "memory_ok w" "registered_ok w" "clock_ok m0 w" "descriptors_ok m0 w" "set (inEpoll w) = set (activeSockets m)"
    "set (activeSockets m) \<inter> set (deadSockets m) = {}" "maxSockets m = maxSockets m0"
    "s \<in> set (deadSockets m) \<Longrightarrow> dead_of s w" for s
    using assms by (simp_all add: mux_inv_def sockets_ok_def config_of_def)
  show "s \<in> insert (listenerAt w) (dom (httpSockets w))" if "s \<in> set (activeSockets m) \<union> set (deadSockets m)"
    using that all(2,5) all(8) [of s] by (auto simp: registered_ok_def dead_of_def split: if_splits option.splits)
qed

lemma app_simps [simp]:
  "fd_of s (w\<lparr>app := a\<rparr>) = fd_of s w" "dead_of s (w\<lparr>app := a\<rparr>) = dead_of s w" "same_loop w' (w\<lparr>app := a\<rparr>) = same_loop w' w"
  "memory_ok (w\<lparr>app := a\<rparr>) = memory_ok w" "all_blocks (w\<lparr>app := a\<rparr>) = all_blocks w" "registered_ok (w\<lparr>app := a\<rparr>) = registered_ok w"
  by (simp_all add: fd_of_def dead_of_def same_loop_def memory_ok_def owns_connections_def objects_def all_blocks_def spare_blocks_def
      registered_ok_def cong: option.case_cong)

lemma pending_simps [simp]:
  "fd_of s (w\<lparr>backlog := b\<rparr>) = fd_of s w" "dead_of s (w\<lparr>backlog := b\<rparr>) = dead_of s w"
  "memory_ok (w\<lparr>backlog := b\<rparr>) = memory_ok w" "all_blocks (w\<lparr>backlog := b\<rparr>) = all_blocks w" "registered_ok (w\<lparr>backlog := b\<rparr>) = registered_ok w"
  "fd_of s (w\<lparr>openFds := fds\<rparr>) = fd_of s w" "dead_of s (w\<lparr>openFds := fds\<rparr>) = dead_of s w"
  "memory_ok (w\<lparr>openFds := fds\<rparr>) = memory_ok w" "all_blocks (w\<lparr>openFds := fds\<rparr>) = all_blocks w" "registered_ok (w\<lparr>openFds := fds\<rparr>) = registered_ok w"
  by (simp_all add: fd_of_def dead_of_def memory_ok_def owns_connections_def objects_def all_blocks_def spare_blocks_def
      registered_ok_def cong: option.case_cong)

lemma closeFd_keeps [simp]:
  "fd_of s (closeFd fd w) = fd_of s w" "dead_of s (closeFd fd w) = dead_of s w" "memory_ok (closeFd fd w) = memory_ok w"
  "all_blocks (closeFd fd w) = all_blocks w"
  "registered_ok (closeFd fd w) = registered_ok w"
  by (simp_all add: closeFd_def)

section \<open>The callbacks\<close>

lemma release_step:
  assumes inv: "mux_inv (server_loop_env code) (loop_view m0 B N (insert h L)) late (m, w)" and h: "h \<notin> set (activeSockets m) \<union> set (deadSockets m)"
    and x: "httpSockets w h = Some x"
  shows "mux_inv (server_loop_env code) (loop_view m0 B N L) late (m, factory_release h w) \<and>
    callback_step (server_loop_env code) (m, w) (m, factory_release h w)"
proof -
  note ok = mux_inv_sane [OF inv]
  note r = factory_release_block [OF ok(1) x]
  have l: "listenerAt (factory_release h w) = listenerAt w" "inEpoll (factory_release h w) = inEpoll w"
      "backlog (factory_release h w) = backlog w"
    using r(2) by (simp_all add: same_loop_def)
  have "fd_of s (factory_release h w) = fd_of s w \<and> dead_of s (factory_release h w) = dead_of s w" if "s \<noteq> h" for s
  proof -
    have "httpConnection z \<noteq> httpConnection x" if "httpSockets w s = Some z" for z
      using memory_okD(2) [OF ok(1) x that] \<open>s \<noteq> h\<close> by blast
    moreover have "listenFd (factory_release h w) = listenFd w" "listenerDead (factory_release h w) = listenerDead w"
      using r(2) by (simp_all add: same_loop_def)
    ultimately show ?thesis
      using that by (auto simp: fd_of_def dead_of_def r(3,4) l split: option.split)
  qed
  moreover have "registered_ok (factory_release h w)"
    using ok(2,5) h unfolding registered_ok_def r(3) l by auto
  moreover have "same_loop (w\<lparr>backlog := backlog (factory_release h w)\<rparr>) (factory_release h w)"
    using r(2) by (simp add: same_loop_def)
  moreover have "s \<noteq> h" if "s \<in> set (activeSockets m) \<union> set (deadSockets m)" for s
    using that h by blast
  ultimately show ?thesis
    by (intro world_change [OF inv]) (auto simp: r(1,3,5) l(3))
qed

lemma added_world:
  assumes "addMultiplexedSocket (server_loop_env code) (Some h) (m, w) = (e, m', w')"
  shows "w' = w\<lparr>inEpoll := inEpoll w', epollRoom := epollRoom w'\<rparr>"
  using assms kernel_ctl_world(1) [of EPOLL_CTL_ADD "fd_of h w" "EPOLLET OR interest (server_loop_env code) h w" h w _ w']
  by (auto simp: addMultiplexedSocket_def Let_def split: if_splits prod.splits)

lemma sockets_env_add: "addMultiplexedSocket (sockets_env code) = addMultiplexedSocket (server_loop_env code)"
proof -
  have same: "clock (server_loop_env code) = clock (sockets_env code)" "fdOf (server_loop_env code) = fdOf (sockets_env code)"
    "isPermanent (server_loop_env code) = isPermanent (sockets_env code)" "wantsAccept (server_loop_env code) = wantsAccept (sockets_env code)"
    "wantsConnect (server_loop_env code) = wantsConnect (sockets_env code)" "wantsRead (server_loop_env code) = wantsRead (sockets_env code)"
    "wantsWrite (server_loop_env code) = wantsWrite (sockets_env code)" "epollCtl (server_loop_env code) = epollCtl (sockets_env code)"
    by (simp_all add: server_loop_env_def)
  show ?thesis
    unfolding fun_eq_iff addMultiplexedSocket_def start_timer_def interest_def same by simp
qed

text \<open>A connection is added, or given up.\<close>

lemma addServerSocket_step:
  assumes inv: "mux_inv (server_loop_env code) (loop_view m0 B N L) late (m, w)" and fd: "in_cache m0 fd"
    and r: "addServerSocket code fd t (m, w) = (e, m', w')"
  shows "mux_inv (server_loop_env code) (loop_view m0 B N L) late (m', w') \<and> callback_step (server_loop_env code) (m, w) (m', w') \<and>
    set (activeSockets m) \<subseteq> set (activeSockets m') \<and> backlog w' = backlog w"
proof -
  note ok = mux_inv_sane [OF inv]
  obtain hp w1 where c: "factory_create fd t w = (hp, w1)"
    by (rule prod.exhaust)
  show ?thesis
  proof (cases hp)
    case None
    note f = factory_create_none [OF ok(1) c [unfolded None]]
    have w1: "w' = w1" "m' = m"
      using r c None by (simp_all add: addServerSocket_def)
    have "fd_of s w1 = fd_of s w \<and> dead_of s w1 = dead_of s w" for s
      using f(2) by (simp add: fd_of_def dead_of_def same_objects_def same_loop_def cong: option.case_cong)
    moreover have "registered_ok w1" "same_loop (w\<lparr>backlog := backlog w1\<rparr>) w1" "backlog w1 = backlog w" "httpSockets w1 = httpSockets w"
      using f(2) ok(2) by (simp_all add: registered_ok_def same_objects_def same_loop_def)
    ultimately show ?thesis
      using world_change [OF inv, of w1 L] f(1,3) w1 by simp
  next
    case (Some h)
    from factory_create_some [OF ok(1) c [unfolded Some]] obtain b where
      maps: "connections w1 = (connections w)(b \<mapsto> \<lparr>peerType = t, sockFd = fd\<rparr>)"
        "httpSockets w1 = (httpSockets w)(h \<mapsto> \<lparr>httpConnection = b, httpDead = False\<rparr>)" and
      fresh: "b \<notin> objects w" "h \<notin> objects w" and f: "memory_ok w1" "same_loop w w1" "all_blocks w1 = all_blocks w" .
    have l: "listenerAt w1 = listenerAt w" "listenFd w1 = listenFd w" "listenerDead w1 = listenerDead w" "inEpoll w1 = inEpoll w"
        "backlog w1 = backlog w"
      using f(2) by (simp_all add: same_loop_def)
    have h: "h \<noteq> listenerAt w" "h \<notin> dom (httpSockets w)" "b \<notin> dom (connections w)"
      using fresh by (simp_all add: objects_def)
    have old: "fd_of s w1 = fd_of s w \<and> dead_of s w1 = dead_of s w" if "s \<noteq> h" for s
    proof -
      have "httpConnection z \<noteq> b" if "httpSockets w s = Some z" for z
        using memory_okD(1) [OF ok(1) that] h(3) by auto
      then show ?thesis
        using that by (auto simp: fd_of_def dead_of_def maps l split: option.split)
    qed
    have out: "h \<notin> set (activeSockets m) \<union> set (deadSockets m)"
      using ok(9) [of h] h by auto
    have "registered_ok w1"
      using ok(2) by (auto simp: registered_ok_def maps l)
    moreover have "same_loop (w\<lparr>backlog := backlog w1\<rparr>) w1"
      using f(2) by (simp add: same_loop_def)
    moreover have "s \<noteq> h" if "s \<in> set (activeSockets m) \<union> set (deadSockets m)" for s
      using that out by blast
    ultimately have step1: "mux_inv (server_loop_env code) (loop_view m0 B N (insert h L)) late (m, w1) \<and> callback_step (server_loop_env code) (m, w) (m, w1)"
      using old by (intro world_change [OF inv]) (auto simp: f(1,3) l maps(2))
    have fresh1: "fd_of h w1 = fd" "\<not> dead_of h w1"
      using h by (simp_all add: fd_of_def dead_of_def maps l)
    obtain e2 m2 w2 where a: "addMultiplexedSocket (server_loop_env code) (Some h) (m, w1) = (e2, m2, w2)"
      by (rule prod_cases3)
    have "in_cache m fd"
      using fd ok(7) by (simp add: in_cache_def)
    then have step2: "mux_inv (server_loop_env code) (loop_view m0 B N (insert h L)) late (m2, w2) \<and> callback_step (server_loop_env code) (m, w1) (m2, w2) \<and>
        deadSockets m2 = deadSockets m \<and> activeSockets m2 = (if e2 = ESB_SUCCESS then activeSockets m @ [h] else activeSockets m)"
      using lk.add_step [OF conjunct1 [OF step1] out _ _ a] fresh1 by simp
    note w2 = added_world [OF a]
    have w2_maps: "httpSockets w2 h = Some \<lparr>httpConnection = b, httpDead = False\<rparr>" "backlog w2 = backlog w"
      by (subst w2, simp add: maps l)+
    note step12 = callback_step_trans [OF conjunct2 [OF step1]]
    show ?thesis
    proof (cases "e2 = ESB_SUCCESS")
      case True
      then have "m' = m2" "w' = w2"
        using r c Some a by (simp_all add: addServerSocket_def sockets_env_add)
      moreover have "mux_inv (server_loop_env code) (loop_view m0 B N L) late (m2, w2)"
        by (rule lost_found [OF conjunct1 [OF step2]]) (use step2 True in simp)
      ultimately show ?thesis
        using step2 step12 w2_maps(2) True by auto
    next
      case False
      then have out2: "m' = m2" "w' = factory_release h w2" "h \<notin> set (activeSockets m2) \<union> set (deadSockets m2)"
        using r c Some a step2 out by (simp_all add: addServerSocket_def sockets_env_add)
      have inv2: "mux_inv (server_loop_env code) (loop_view m0 B N (insert h L)) late (m2, w2)"
        using step2 by blast
      have "backlog (factory_release h w2) = backlog w2"
        using factory_release_block(2) [OF mux_inv_sane(1) [OF inv2] w2_maps(1)] by (simp add: same_loop_def)
      moreover note rel = release_step [OF inv2 out2(3) w2_maps(1)]
      moreover have "callback_step (server_loop_env code) (m, w) (m2, w2)"
        using step12 step2 by blast
      from callback_step_trans [OF this conjunct2 [OF rel]]
      have "callback_step (server_loop_env code) (m, w) (m', w')"
        using out2(1,2) by simp
      ultimately show ?thesis
        using step2 out2(1,2) w2_maps(2) False by simp
    qed
  qed
qed

lemma accept_step:
  assumes inv: "mux_inv (server_loop_env code) (loop_view m0 B N L) late (m, w)"
    and r: "listener_handleAccept code (m, w) = (e, m', w')"
  shows "mux_inv (server_loop_env code) (loop_view m0 B N L) late (m', w') \<and> callback_step (server_loop_env code) (m, w) (m', w') \<and>
    set (activeSockets m) \<subseteq> set (activeSockets m') \<and> (e = ESB_AGAIN \<longrightarrow> length (backlog w') < length (backlog w))"
proof (cases "backlog w")
  case Nil
  then show ?thesis
    using r inv by (simp add: listener_handleAccept_def)
next
  case (Cons a rest)
  have popped: "mux_inv (server_loop_env code) (loop_view m0 B N L) late (m, w1) \<and> callback_step (server_loop_env code) (m, w) (m, w1)"
    if "same_loop (w\<lparr>backlog := rest\<rparr>) w1" "memory_ok w1" "all_blocks w1 = all_blocks w" "registered_ok w1"
      "httpSockets w1 = httpSockets w" "\<And>s. fd_of s w1 = fd_of s w \<and> dead_of s w1 = dead_of s w" for w1
  proof -
    have b: "backlog w1 = rest"
      using that(1) by (simp add: same_loop_def)
    show ?thesis
      by (rule world_change [OF inv]) (use that b Cons in auto)
  qed
  note ok = mux_inv_sane [OF inv]
  show ?thesis
  proof (cases a)
    case (AcceptFailed err)
    then have "e = err" "m' = m" "w' = w\<lparr>backlog := rest\<rparr>"
      using r Cons by (simp_all add: listener_handleAccept_def)
    then show ?thesis
      using popped [of w'] ok(1,2) Cons by simp
  next
    case (Accepted fd t)
    let ?w = "\<lambda>a. w\<lparr>backlog := rest, openFds := fd # openFds w, app := a\<rparr>"
    obtain e1 a1 where c: "acceptConnection code (app w) = (e1, a1)"
      by (rule prod.exhaust)
    have loop: "same_loop (w\<lparr>backlog := rest\<rparr>) (?w a1)"
      by (simp add: same_loop_def)
    have w1: "mux_inv (server_loop_env code) (loop_view m0 B N L) late (m, ?w a1) \<and> callback_step (server_loop_env code) (m, w) (m, ?w a1)"
      using popped [of "?w a1"] ok(1,2) loop by simp
    show ?thesis
    proof (cases "e1 = ESB_SUCCESS")
      case False
      then have "e = ESB_AGAIN" "m' = m" "w' = closeFd fd (?w a1)"
        using r Cons Accepted c by (simp_all add: listener_handleAccept_def Let_def)
      then show ?thesis
        using popped [of w'] ok(1,2) Cons loop by simp
    next
      case True
      obtain e2 m2 w2 where add: "addServerSocket code fd t (m, ?w a1) = (e2, m2, w2)"
        by (rule prod_cases3)
      then have "e = ESB_AGAIN" "m' = m2" "w' = w2"
        using r Cons Accepted c True by (simp_all add: listener_handleAccept_def Let_def)
      moreover have "in_cache m0 fd"
        using ok(4) Cons Accepted by (auto simp: descriptors_ok_def)
      ultimately show ?thesis
        using addServerSocket_step [OF conjunct1 [OF w1] _ add] callback_step_trans [OF conjunct2 [OF w1]] Cons by simp
    qed
  qed
qed

lemma app_change:
  assumes "mux_inv (server_loop_env code) (loop_view m0 B N L) late (m, w)"
  shows "mux_inv (server_loop_env code) (loop_view m0 B N L) late (m, w\<lparr>app := a\<rparr>) \<and>
    callback_step (server_loop_env code) (m, w) (m, w\<lparr>app := a\<rparr>)"
  by (rule world_change [OF assms, of "w\<lparr>app := a\<rparr>" L]) (use mux_inv_sane [OF assms] in \<open>simp_all add: same_loop_def\<close>)

lemma callbacks [simp]:
  "onConnect (server_loop_env code) s mw = (ESB_INVALID_STATE, mw)"
  "onAccept (server_loop_env code) s mw = (if s = listenerAt (snd mw) then listener_handleAccept code mw else (ESB_INVALID_STATE, mw))"
  "onReadable (server_loop_env code) s mw = (if s = listenerAt (snd mw) then (ESB_INVALID_STATE, mw) else on_app (readableOf code s) mw)"
  "onWritable (server_loop_env code) s mw = (if s = listenerAt (snd mw) then (ESB_INVALID_STATE, mw) else on_app (writableOf code s) mw)"
  "onError (server_loop_env code) s err mw = mw" "onRemoteClose (server_loop_env code) s mw = mw"
  "onIdle (server_loop_env code) s mw = mw"
  "onRemove (server_loop_env code) s mw = (if s = listenerAt (snd mw) then mw else http_handleRemove code s mw)"
  "onCleanup (server_loop_env code) s mw = (fst mw, if s = listenerAt (snd mw) then snd mw else factory_release s (snd mw))"
  by (simp_all add: server_loop_env_def sockets_env_def split: prod.split)

lemma handleRemove_step:
  assumes inv: "mux_inv (server_loop_env code) (loop_view m0 B N L) late (m, w)" and s: "s \<in> set (deadSockets m)"
  shows "mux_inv (server_loop_env code) (loop_view m0 B N L) late (http_handleRemove code s (m, w)) \<and>
    callback_step (server_loop_env code) (m, w) (http_handleRemove code s (m, w)) \<and> fst (http_handleRemove code s (m, w)) = m"
proof (cases "httpSockets w s")
  case None
  then show ?thesis
    using inv by (simp add: http_handleRemove_def)
next
  case (Some x)
  note ok = mux_inv_sane [OF inv]
  note c = closeConnection_world [OF ok(1) Some]
  let ?w = "closeConnection (httpConnection x) w"
  have l: "inEpoll ?w = inEpoll w" "listenerAt ?w = listenerAt w" "backlog ?w = backlog w" "same_loop (w\<lparr>backlog := backlog ?w\<rparr>) ?w"
    using c(3) by (simp_all add: same_loop_def)
  have "registered_ok ?w"
    using ok(2) by (simp add: registered_ok_def l c(5))
  moreover have "s' \<noteq> s" if "s' \<in> set (activeSockets m)" for s'
    using that s ok(6) by blast
  ultimately have step: "mux_inv (server_loop_env code) (loop_view m0 B N L) late (m, ?w) \<and> callback_step (server_loop_env code) (m, w) (m, ?w)"
    by (intro world_change [OF inv]) (simp_all add: c l)
  then show ?thesis
    using app_change [OF conjunct1 [OF step], of "removeOf code s (app ?w)"] callback_step_trans [OF conjunct2 [OF step]] Some
    by (simp add: http_handleRemove_def Let_def)
qed

lemma cleanup_step:
  assumes inv: "mux_inv (server_loop_env code) (loop_view m0 B N (insert s L)) late (m, w)"
    and s: "s \<notin> set (activeSockets m) \<union> set (deadSockets m)"
  shows "mux_inv (server_loop_env code) (loop_view m0 B N L) late (m, factory_release s w) \<and>
    callback_step (server_loop_env code) (m, w) (m, factory_release s w)"
proof (cases "httpSockets w s")
  case None
  then show ?thesis
    using lost_found [OF inv] by (auto simp: factory_release_def)
next
  case (Some x)
  then show ?thesis
    by (rule release_step [OF inv s])
qed

text \<open>The kernel waits: the clock goes on, one round less is to come, and events are of registered sockets.\<close>

lemma fewer_rounds:
  assumes "mux_inv env (loop_view m0 B N L) late (m, w)" "length (schedule w) \<le> N'"
  shows "mux_inv env (loop_view m0 B N' L) late (m, w)"
  using assms by (simp add: mux_inv_def sockets_ok_def)


lemma wait_step:
  assumes inv: "mux_inv (server_loop_env code) (loop_view m0 B N L) {} (m, w)" and r: "kernel_wait n t w = (r, w')"
  shows "mux_inv (server_loop_env code) (loop_view m0 B (N - 1) L) {} (m, w') \<and> callback_step (server_loop_env code) (m, w) (m, w') \<and>
    (\<forall>evs. r = Ready evs \<longrightarrow> fst ` set evs \<subseteq> set (activeSockets m))"
proof (cases "schedule w")
  case Nil
  then show ?thesis
    using r fewer_rounds [OF inv] by (auto simp: kernel_wait_def)
next
  case (Cons round rest)
  obtain d evs where round: "round = (d, evs)"
    by (rule prod.exhaust)
  note ok = mux_inv_sane [OF inv]
  have w': "w' = w\<lparr>wallClock := d, schedule := rest\<rparr>"
      "r = Ready (take (unat n) (filter (\<lambda>(s, _). s \<in> set (inEpoll w)) evs))"
    using r Cons round by (simp_all add: kernel_wait_def)
  have c: "config_of m = config_of m0"
    using inv by (simp add: mux_inv_def)
  then have clock: "same_clock (timingWheel m) (timingWheel m0)" "maxTicks (timingWheel m) = maxTicks (timingWheel m0)"
      "idleTimeoutMsec m = idleTimeoutMsec m0"
    by (simp_all add: config_of_def same_clock_def)
  note ticks = same_clock_ticks [OF clock(1)]
  have time: "tick_at (timingWheel m) (wallClock w) \<le> tick_at (timingWheel m) d"
      "tick_at (timingWheel m) d + unat (maxTicks (timingWheel m)) < 2 ^ 31" "due_at (timingWheel m) d (idleTimeoutMsec m) < 2 ^ 31"
    using ok(3) Cons round clock(2,3) ticks by (simp_all add: clock_ok_def)
  have wheel: "wheel_in_time (timingWheel m) (idleTimeoutMsec m) (wallClock w)"
    using inv by (simp add: mux_inv_def timers_ok_def)
  then obtain q where "represents (timingWheel m) q"
    by (auto simp: wheel_in_time_def)
  from wheel_in_time_later [OF wheel same_wheel_refl this time]
  have "wheel_in_time (timingWheel m) (idleTimeoutMsec m) d" .
  moreover have "fd_of s w' = fd_of s w" "dead_of s w' = dead_of s w" for s
    by (simp_all add: w' fd_of_def dead_of_def cong: option.case_cong)
  moreover have "memory_ok w'" "all_blocks w' = all_blocks w" "registered_ok w'" "descriptors_ok m0 w'"
    using ok(1,2,4)
    by (simp_all add: w' memory_ok_def owns_connections_def objects_def spare_blocks_def all_blocks_def registered_ok_def descriptors_ok_def)
  moreover have "clock_ok m0 w'"
    using ok(3) Cons round by (simp add: clock_ok_def w' Let_def)
  moreover have "wallClock w' = d" "inEpoll w' = inEpoll w" "listenerAt w' = listenerAt w" "httpSockets w' = httpSockets w"
    by (simp_all add: w')
  moreover have "length (schedule w') \<le> N - 1"
    using inv Cons by (auto simp: w' mux_inv_def sockets_ok_def)
  ultimately have "mux_inv (server_loop_env code) (loop_view m0 B (N - 1) L) {} (m, w') \<and> callback_step (server_loop_env code) (m, w) (m, w')"
    using inv time(1) by (simp add: mux_inv_def timers_ok_def sockets_ok_def callback_step_def mux_grows_def same_clock_def)
  moreover have "fst ` set (take (unat n) (filter (\<lambda>(s, _). s \<in> set (inEpoll w)) evs)) \<subseteq> set (activeSockets m)"
    using ok(5) set_take_subset [of "unat n" "filter (\<lambda>(s, _). s \<in> set (inEpoll w)) evs"] by fastforce
  ultimately show ?thesis
    using w'(2) by simp
qed

section \<open>The contract\<close>

lemma unchanged_polite:
  assumes "\<And>mw. f mw = mw"
  shows "polite_call env view P f"
  using assms by (simp add: polite_call_def)

lemma on_app_polite:
  "polite_event (server_loop_env code) (loop_view m0 B N L) keeps s
     (\<lambda>mw. if s = listenerAt (snd mw) then (ESB_INVALID_STATE, mw) else on_app f mw)"
  unfolding polite_event_def
proof (intro allI impI, elim conjE)
  fix late mw e mw'
  assume inv: "mux_inv (server_loop_env code) (loop_view m0 B N L) late mw" and s: "s \<in> set (activeSockets (fst mw))"
    and r: "(if s = listenerAt (snd mw) then (ESB_INVALID_STATE, mw) else on_app f mw) = (e, mw')"
  obtain m w where mw: "mw = (m, w)"
    by (rule prod.exhaust)
  show "mux_inv (server_loop_env code) (loop_view m0 B N L) late mw' \<and> callback_step (server_loop_env code) mw mw' \<and>
      (keeps e \<longrightarrow> s \<in> set (activeSockets (fst mw')))"
  proof (cases "s = listenerAt w")
    case True
    then show ?thesis
      using r inv mw by (auto simp: keeps_def)
  next
    case False
    obtain e1 a where "f (app w) = (e1, a)"
      by (rule prod.exhaust)
    then have "mw' = (m, w\<lparr>app := a\<rparr>)"
      using r mw False by (simp add: on_app_def)
    then show ?thesis
      using app_change [of code m0 B N L late m w a] inv s mw by simp
  qed
qed

interpretation sl: ending_loop "server_loop_env code" "loop_view m0 B N L" "\<lambda>w. length (backlog w)"
  for code :: "'c connection_code" and m0 :: multiplexer and B :: "nat set" and N :: nat and L :: "nat set"
proof unfold_locales
  let ?env = "server_loop_env code"
  let ?inv = "mux_inv ?env (loop_view m0 B N L)"
  show "?inv {} (m, w') \<and> callback_step ?env (m, w) (m, w') \<and> (\<forall>evs. r = Ready evs \<longrightarrow> fst ` set evs \<subseteq> set (activeSockets m))"
    if "?inv {} (m, w)" "epollWait ?env n t w = (r, w')" for m w n t r w'
  proof -
    have step: "mux_inv ?env (loop_view m0 B (N - 1) L) {} (m, w') \<and> callback_step ?env (m, w) (m, w') \<and>
        (\<forall>evs. r = Ready evs \<longrightarrow> fst ` set evs \<subseteq> set (activeSockets m))"
      using wait_step [OF that(1)] that(2) by simp
    then have "length (schedule w') \<le> N - 1"
      by (simp add: mux_inv_def sockets_ok_def)
    then show ?thesis
      using fewer_rounds [OF conjunct1 [OF step], of N] step by simp
  qed
  show "polite_event ?env (loop_view m0 B N L) (\<lambda>e. e = ESB_AGAIN \<or> e = ESB_SUCCESS) s (onAccept ?env s)" for s
    unfolding polite_event_def
  proof (intro allI impI, elim conjE)
    fix late mw e mw'
    assume inv: "?inv late mw" and s: "s \<in> set (activeSockets (fst mw))" and r: "onAccept ?env s mw = (e, mw')"
    then show "?inv late mw' \<and> callback_step ?env mw mw' \<and> (e = ESB_AGAIN \<or> e = ESB_SUCCESS \<longrightarrow> s \<in> set (activeSockets (fst mw')))"
      using accept_step [of code m0 B N L late "fst mw" "snd mw" e "fst mw'" "snd mw'"] by (auto split: if_splits)
  qed
  show "polite_event ?env (loop_view m0 B N L) keeps s (onConnect ?env s)" for s
    by (auto simp: polite_event_def keeps_def)
  show "polite_event ?env (loop_view m0 B N L) keeps s (onReadable ?env s)"
    "polite_event ?env (loop_view m0 B N L) keeps s (onWritable ?env s)" for s
  proof -
    have "onReadable ?env s = (\<lambda>mw. if s = listenerAt (snd mw) then (ESB_INVALID_STATE, mw) else on_app (readableOf code s) mw)"
      "onWritable ?env s = (\<lambda>mw. if s = listenerAt (snd mw) then (ESB_INVALID_STATE, mw) else on_app (writableOf code s) mw)"
      by (rule ext, rule callbacks)+
    then show "polite_event ?env (loop_view m0 B N L) keeps s (onReadable ?env s)"
      "polite_event ?env (loop_view m0 B N L) keeps s (onWritable ?env s)"
      using on_app_polite by (simp_all only:)
  qed
  show "polite_call ?env (loop_view m0 B N L) (\<lambda>m. s \<in> set (activeSockets m)) (onError ?env s err)"
    "polite_call ?env (loop_view m0 B N L) (\<lambda>m. s \<in> set (activeSockets m)) (onRemoteClose ?env s)"
    "polite_call ?env (loop_view m0 B N L) (\<lambda>m. s \<in> set (activeSockets m)) (onIdle ?env s)" for s err
    by (rule unchanged_polite, simp)+
  show "polite_call ?env (loop_view m0 B N L) (\<lambda>m. s \<in> set (deadSockets m)) (onRemove ?env s)" for s
    unfolding polite_call_def
  proof (intro allI impI, elim conjE)
    fix late mw
    assume "?inv late mw" "s \<in> set (deadSockets (fst mw))"
    then show "?inv late (onRemove ?env s mw) \<and> callback_step ?env mw (onRemove ?env s mw)"
      using handleRemove_step [of code m0 B N L late "fst mw" "snd mw" s] by simp
  qed
  show "?inv late (onCleanup ?env s mw) \<and> callback_step ?env mw (onCleanup ?env s mw)"
    if inv: "mux_inv ?env (loop_view m0 B N L\<lparr>lost := insert s (lost (loop_view m0 B N L))\<rparr>) late mw"
      and s: "s \<notin> set (activeSockets (fst mw)) \<union> set (deadSockets (fst mw))" for late mw s
  proof -
    have "mux_inv ?env (loop_view m0 B N (insert s L)) late (fst mw, snd mw)"
      using inv by simp
    moreover from mux_inv_sane(1) [OF this] have "s = listenerAt (snd mw) \<Longrightarrow> s \<notin> dom (httpSockets (snd mw))"
      by (simp add: memory_ok_def)
    ultimately show ?thesis
      using cleanup_step [of code m0 B N s L late "fst mw" "snd mw"] lost_found [of code m0 B N s L late "fst mw" "snd mw"] s by simp
  qed
  fix late mw s t
  show "length (backlog (snd mw')) < length (backlog (snd mw))"
    if "?inv late mw" "s \<in> set (activeSockets (fst mw))" "onAccept ?env s mw = (ESB_AGAIN, mw')" for mw'
    using that accept_step [of code m0 B N L late "fst mw" "snd mw" ESB_AGAIN "fst mw'" "snd mw'"] by (auto split: if_splits)
  show "inTimingWheel (timingWheel (fst mw)) t" if "inTimingWheel (timingWheel (fst (onIdle ?env s mw))) t"
    using that by simp
  show "inTimingWheel (timingWheel (fst mw)) t"
    if "?inv late mw" "s \<in> set (deadSockets (fst mw))" "inTimingWheel (timingWheel (fst (onRemove ?env s mw))) t"
    using that handleRemove_step [of code m0 B N L late "fst mw" "snd mw" s] by (simp split: if_splits)
  show "set (activeSockets (fst (onRemove ?env s mw))) \<subseteq> set (activeSockets (fst mw))"
    if "?inv late mw" "s \<in> set (deadSockets (fst mw))"
    using that handleRemove_step [of code m0 B N L late "fst mw" "snd mw" s] by simp
  show "deadSockets (fst (onCleanup ?env s mw)) = deadSockets (fst mw) \<and>
      set (activeSockets (fst (onCleanup ?env s mw))) \<subseteq> set (activeSockets (fst mw))"
    by simp
qed

end
