(* ===== verification/MultiplexerProperties.thy ===== *)
theory MultiplexerProperties
  imports ServerLoop
begin

text \<open>
  The properties of the multiplexer (base/source/ESBEpollMultiplexer.cpp) and of a worker of the server that
  runs in it (http1, multiplexers). The facts \<open>sl\<close> and \<open>lk\<close> are those of the locales for \<open>server_loop_env\<close>.
\<close>

section \<open>A worker from its start to its end\<close>

definition start_multiplexer :: "u32 \<Rightarrow> u32 \<Rightarrow> date \<Rightarrow> multiplexer" where
  "start_multiplexer idle sockets now = new_multiplexer idle sockets now True True True True"

text \<open>Before the listener has been added: no sockets, and descriptors within the event cache.\<close>

definition start_world :: "multiplexer \<Rightarrow> 'c listen_world \<Rightarrow> bool" where
  "start_world m0 w \<longleftrightarrow>
     memory_ok w \<and> httpSockets w = Map.empty \<and> inEpoll w = [] \<and> \<not> listenerDead w \<and> in_cache m0 (listenFd w) \<and>
     clock_ok m0 w \<and> descriptors_ok m0 w"

lemma start_inv:
  fixes w :: "'c listen_world"
  assumes "start_world m0 w" "m0 = start_multiplexer idle sockets now" "sockets < 2 ^ 31"
  shows "mux_inv (server_loop_env code) (loop_view m0 (all_blocks w) (length (schedule w)) {}) {} (m0, w)"
proof -
  have clock: "tick_at (timingWheel m0) (wallClock w) + unat (maxTicks (timingWheel m0)) < 2 ^ 31"
    "due_at (timingWheel m0) (wallClock w) (idleTimeoutMsec m0) < 2 ^ 31"
    using assms(1) by (simp_all add: start_world_def clock_ok_def)
  have "represents (timingWheel m0) \<lparr>expiredTo = 0, span = unat (maxTicks (timingWheel m0)), due = []\<rparr>"
    unfolding assms(2) start_multiplexer_def new_multiplexer_def
    using new_wheel_represents [of 360000 10 now] by (simp add: new_timing_wheel_def)
  then have "wheel_in_time (timingWheel m0) (idleTimeoutMsec m0) (wallClock w)"
    using clock unfolding wheel_in_time_def by fastforce
  moreover have "\<not> inTimingWheel (timingWheel m0) s" for s
    unfolding assms(2) start_multiplexer_def new_multiplexer_def new_timing_wheel_def inTimingWheel_def
    using sint_nonneg_iff [of "- 1"] by simp
  moreover have "unat (maxSockets m0) < 2 ^ 31"
    using assms(2,3) by (simp add: start_multiplexer_def new_multiplexer_def max_def word_less_nat_alt)
  moreover have "events m0" "activeSockets m0 = []" "deadSockets m0 = []" "activeSocketCount m0 = 0"
    using assms(2) by (simp_all add: start_multiplexer_def new_multiplexer_def)
  ultimately show ?thesis
    using assms(1) by (simp add: mux_inv_def timers_ok_def sockets_ok_def start_world_def registered_ok_def)
qed

lemma listener_added_inv:
  fixes w :: "'c listen_world"
  assumes "start_world m0 w" "m0 = start_multiplexer idle sockets now" "sockets < 2 ^ 31"
    and "addMultiplexedSocket (server_loop_env code) (Some (listenerAt w)) (m0, w) = (e, m, w1)"
  shows "mux_inv (server_loop_env code) (loop_view m0 (all_blocks w) (length (schedule w)) {}) {} (m, w1)"
  using lk.add_step [OF start_inv [OF assms(1-3)] _ _ _ assms(4)] assms(1,2)
  by (simp add: start_world_def dead_of_def fd_of_def start_multiplexer_def new_multiplexer_def)

text \<open>Every round returns, with one round less to come.\<close>

lemma server_round:
  assumes inv: "mux_inv (server_loop_env code) (loop_view m0 B (Suc N) L) {} mw"
  shows "\<exists>k mw'. run_round (server_loop_env code) n mw = Some (ESB_SUCCESS, Some k, mw') \<and>
    mux_inv (server_loop_env code) (loop_view m0 B N L) {} mw'"
proof -
  let ?env = "server_loop_env code"
  obtain e m w where c: "checkIdleSockets ?env mw = Some (e, m, w)"
    using sl.idle_loop_ends [OF sl.idle_inv_start [OF inv]] by (auto simp: checkIdleSockets_def)
  note idle = sl.checkIdle_step [OF c inv]
  obtain r w1 where wt: "kernel_wait (maxSockets m) (min (idleTimeoutMsec m) 1000) w = (r, w1)"
    by (rule prod.exhaust)
  then obtain evs where r: "r = Ready evs"
    by (auto simp: kernel_wait_def split: list.splits)
  have w1: "mux_inv ?env (loop_view m0 B N L) {} (m, w1)" "fst ` set evs \<subseteq> set (activeSockets m)"
    using wait_step [OF idle(2) wt] r by simp_all
  have due: "due_at (timingWheel m) (wallClock w1) (idleTimeoutMsec m) < 2 ^ 31"
    using w1(1) by (auto simp: mux_inv_def timers_ok_def wheel_in_time_def)
  show ?thesis
  proof (cases evs)
    case Nil
    then show ?thesis
      using c idle(1) wt r w1(1) by (simp add: run_round_def)
  next
    case (Cons ev rest)
    have events: "fst ` set evs \<subseteq> set (activeSockets (fst (m, w1))) \<union> set (deadSockets (fst (m, w1)))"
      "due_at (timingWheel (fst (m, w1))) (wallClock w1) (idleTimeoutMsec (fst (m, w1))) < 2 ^ 31"
      using w1(2) due by auto
    obtain mw1 where p: "process_events ?env (wallClock w1) evs (m, w1) = Some mw1"
      using sl.process_events_ends [OF w1(1) events] by blast
    have inv1: "mux_inv ?env (loop_view m0 B N L) {} mw1"
      using sl.process_events_step [OF w1(1) events p] by blast
    obtain mw2 where q: "reap ?env mw1 = Some mw2"
      using sl.reap_ends [OF inv1] by blast
    show ?thesis
      using c idle(1) wt r p q sl.reap_step [OF q inv1] unfolding Cons
      by (simp add: run_round_def del: process_events.simps)
  qed
qed

lemma server_loop_stops:
  assumes "mux_inv (server_loop_env code) (loop_view m0 B N {}) {} mw"
  shows "\<exists>m w. run_loop (server_loop_env code) n mw = Some (ESB_SUCCESS, m, w) \<and> \<not> events m \<and> activeSockets m = [] \<and>
    deadSockets m = [] \<and> inEpoll w = [] \<and> httpSockets w = Map.empty \<and> memory_ok w \<and> all_blocks w = B"
  using assms
proof (induction N arbitrary: n mw)
  case less: 0
  then have "schedule (snd mw) = []"
    by (cases mw) (simp add: mux_inv_def sockets_ok_def)
  moreover obtain m w where "mux_destroy (server_loop_env code) mw = Some (m, w)" "\<not> events m" "activeSockets m = []"
      "deadSockets m = []" "inEpoll w = []" "dom (httpSockets w) = {}" "memory_ok w" "all_blocks w = B"
    using sl.destroy_ends [OF less] by auto
  ultimately show ?case
    by (subst run_loop.simps) simp
next
  case (Suc N)
  show ?case
  proof (cases "schedule (snd mw) = []")
    case True
    then have "mux_inv (server_loop_env code) (loop_view m0 B N {}) {} mw"
      using fewer_rounds [of _ m0 B "Suc N" "{}" "{}" "fst mw" "snd mw" N] Suc.prems by simp
    then show ?thesis
      by (rule Suc.IH)
  next
    case False
    obtain k mw' where "run_round (server_loop_env code) n mw = Some (ESB_SUCCESS, Some k, mw')"
        "mux_inv (server_loop_env code) (loop_view m0 B N {}) {} mw'"
      using server_round [OF Suc.prems] by blast
    then show ?thesis
      using Suc.IH [of mw' k] False by (subst run_loop.simps) simp
  qed
qed

text \<open>C8. A worker that has been stopped stops: from its start, whatever connections arrive, whatever events the
  kernel reports and whatever the sockets answer, the loop returns ESB_SUCCESS, with no socket left in the
  multiplexer or in the epoll descriptor, every HTTP socket and every connection destroyed, and all the memory
  of the factory spare again. The callbacks of the sockets do not themselves call the multiplexer (C39 shows
  what can happen when they do), the descriptors are below the number of sockets (C38), which is below $2^{31}$, and the
  clock does not start again.\<close>

theorem worker_runs_and_stops:
  fixes w :: "'c listen_world"
  assumes "start_world (start_multiplexer idle sockets now) w" "sockets < 2 ^ 31"
    and "addMultiplexedSocket (server_loop_env code) (Some (listenerAt w)) (start_multiplexer idle sockets now, w) = (e, mw)"
  shows "\<exists>m w'. mux_run (server_loop_env code) mw = Some (ESB_SUCCESS, m, w') \<and>
    \<not> events m \<and> activeSockets m = [] \<and> deadSockets m = [] \<and> inEpoll w' = [] \<and>
    httpSockets w' = Map.empty \<and> connections w' = Map.empty \<and>
    distinct (spare_blocks w') \<and> insert (listenerAt w') (set (spare_blocks w')) = all_blocks w"
proof -
  obtain m1 w1 where mw: "mw = (m1, w1)"
    by (rule prod.exhaust)
  note inv = listener_added_inv [OF assms(1) refl assms(2) assms(3) [unfolded mw]]
  have "events m1"
    using inv by (simp add: mux_inv_def sockets_ok_def)
  moreover obtain m w' where r: "run_loop (server_loop_env code) 0 (m1, w1) = Some (ESB_SUCCESS, m, w')" "\<not> events m"
      "activeSockets m = []" "deadSockets m = []" "inEpoll w' = []" "httpSockets w' = Map.empty" "memory_ok w'"
      "all_blocks w' = all_blocks w"
    using server_loop_stops [OF inv] by blast
  moreover have conns: "connections w' = Map.empty"
  proof -
    have "c \<notin> dom (connections w')" for c
      using memory_ok_connection [OF r(7), of c] r(6) by auto
    then show ?thesis
      by auto
  qed
  moreover have "distinct (spare_blocks w')"
    using r(7) by (simp add: memory_ok_def)
  moreover have "insert (listenerAt w') (set (spare_blocks w')) = all_blocks w"
    using r(6,8) conns by (simp add: all_blocks_def objects_def)
  ultimately show ?thesis
    unfolding mw by (simp add: mux_run_def)
qed

text \<open>Two connections, of which one sends; then the worker is stopped.\<close>

definition quiet_code :: "unit connection_code" where
  "quiet_code =
     \<lparr>acceptConnection = (\<lambda>c. (ESB_SUCCESS, c)), wantReadOf = (\<lambda>_ _. True), wantWriteOf = (\<lambda>_ _. False),
      readableOf = (\<lambda>_ c. (ESB_AGAIN, c)), writableOf = (\<lambda>_ c. (ESB_AGAIN, c)), removeOf = (\<lambda>_ c. c)\<rparr>"

definition two_clients :: "unit listen_world" where
  "two_clients =
     \<lparr>serverFactory = \<lparr>deconstructedHTTPSockets = [], deconstructedClearSockets = [], deconstructedTLSSockets = []\<rparr>,
      connections = Map.empty, httpSockets = Map.empty, freeBlocks = [1, 2, 3, 4], openFds = [3], listenerAt = 9, listenFd = 3,
      listenerDead = False, backlog = [Accepted 5 TRANSPORT_TCP, Accepted 6 TRANSPORT_TLS], inEpoll = [], epollRoom = 8,
      wallClock = \<lparr>seconds = 100, microSeconds = 0\<rparr>,
      schedule = [(\<lparr>seconds = 100, microSeconds = 50000\<rparr>, [(9, 1)]), (\<lparr>seconds = 103, microSeconds = 0\<rparr>, [(2, 1)])], app = ()\<rparr>"

abbreviation start_8 :: multiplexer where
  "start_8 \<equiv> start_multiplexer 1000 8 \<lparr>seconds = 100, microSeconds = 0\<rparr>"

lemma two_clients_start: "start_world start_8 two_clients"
  unfolding start_world_def
proof (intro conjI)
  show "memory_ok two_clients"
    by (simp add: two_clients_def memory_ok_def spare_blocks_def objects_def owns_connections_def)
  show "clock_ok start_8 two_clients"
    by (simp add: two_clients_def clock_ok_def start_multiplexer_def new_multiplexer_def new_timing_wheel_def tick_at_def due_at_def
        now_tick_def wheel_ticks_def date_minus_def Let_def)
qed (simp_all add: two_clients_def in_cache_def descriptors_ok_def start_multiplexer_def new_multiplexer_def)

theorem worker_runs_and_stops_witness:
  "\<exists>m w. mux_run (server_loop_env quiet_code) (snd (addMultiplexedSocket (server_loop_env quiet_code) (Some 9) (start_8, two_clients))) =
      Some (ESB_SUCCESS, m, w) \<and> httpSockets w = Map.empty \<and> insert (listenerAt w) (set (spare_blocks w)) = {1, 2, 3, 4, 9}"
proof -
  have l: "listenerAt two_clients = 9" "all_blocks two_clients = {1, 2, 3, 4, 9}"
    by (auto simp: two_clients_def all_blocks_def spare_blocks_def objects_def)
  have "(8 :: u32) < 2 ^ 31"
    by simp
  from worker_runs_and_stops [OF two_clients_start this, of quiet_code
      "fst (addMultiplexedSocket (server_loop_env quiet_code) (Some 9) (start_8, two_clients))"
      "snd (addMultiplexedSocket (server_loop_env quiet_code) (Some 9) (start_8, two_clients))", unfolded l, OF prod.collapse [symmetric]]
  show ?thesis
    by blast
qed

section \<open>The sockets that are called\<close>

text \<open>C9. No callback after the end of a socket: in a round of a worker (as in C8), the callbacks of a socket are called only
  while it is in the loop, its removal handler only once it has been removed, and its destructor only when it is
  in neither list. What they would do at any other time makes no difference to the round.\<close>

theorem callbacks_reach_live_sockets:
  assumes "mux_inv (server_loop_env code) (loop_view m0 B N L) {} mw" "live_same (server_loop_env code) env'"
  shows "run_round env' n mw = run_round (server_loop_env code) n mw"
  by (rule sl.run_round_same [OF assms(2,1)])

text \<open>Handlers that destroy the multiplexer when they are called for a socket that is not in the loop.\<close>

definition strict_env :: "unit listen_world mux_env" where
  "strict_env =
     (server_loop_env quiet_code)
       \<lparr>onReadable := (\<lambda>s mw. if s \<in> set (activeSockets (fst mw)) then onReadable (server_loop_env quiet_code) s mw
          else (ESB_AGAIN, (fst mw)\<lparr>events := False\<rparr>, snd mw))\<rparr>"

lemma strict_live_same: "live_same (server_loop_env quiet_code) strict_env"
  by (simp add: live_same_def same_kernel_def strict_env_def)

theorem callbacks_reach_live_sockets_witness:
  "run_round strict_env 0 (start_8, two_clients) = run_round (server_loop_env quiet_code) 0 (start_8, two_clients)"
  by (rule callbacks_reach_live_sockets [OF start_inv [OF two_clients_start refl] strict_live_same]) simp

section \<open>Idle sockets\<close>

text \<open>C10. checkIdleSockets of a worker (as in C8) returns ESB_SUCCESS. No socket is lost by it, and a connection that is left
  in the loop has a timer that is not due at the time of the call: every one whose timer is due has been closed.\<close>

theorem idle_sockets_are_closed:
  assumes "mux_inv (server_loop_env code) (loop_view m0 B N L) {} (m, w)"
  shows "\<exists>m' w'. checkIdleSockets (server_loop_env code) (m, w) = Some (ESB_SUCCESS, m', w') \<and>
    mux_inv (server_loop_env code) (loop_view m0 B N L) {} (m', w') \<and>
    set (activeSockets m) \<subseteq> set (activeSockets m') \<union> set (deadSockets m') \<and>
    (\<forall>s \<in> set (activeSockets m'). s \<noteq> listenerAt w' \<longrightarrow> 0 < idleTimeoutMsec m' \<longrightarrow>
      inTimingWheel (timingWheel m') s \<and> tick_at (timingWheel m') (wallClock w) < tick_nat (timingWheel m') s)"
proof -
  obtain e m' w' where c: "checkIdleSockets (server_loop_env code) (m, w) = Some (e, m', w')"
    using sl.idle_loop_ends [OF sl.idle_inv_start [OF assms]] by (auto simp: checkIdleSockets_def)
  note idle = sl.checkIdle_step [OF c assms]
  have "inTimingWheel (timingWheel m') s" if "s \<in> set (activeSockets m')" "s \<noteq> listenerAt w'" "0 < idleTimeoutMsec m'" for s
    using idle(2) that by (simp add: mux_inv_def timers_ok_def)
  then show ?thesis
    using c idle(1,2) idle(3) idle(4) by (auto simp: mux_grows_def)
qed

theorem idle_sockets_are_closed_witness:
  "\<exists>m w. checkIdleSockets (server_loop_env quiet_code) (start_8, two_clients) = Some (ESB_SUCCESS, m, w)"
proof -
  have "(8 :: u32) < 2 ^ 31"
    by simp
  from idle_sockets_are_closed [OF start_inv [OF two_clients_start refl this, of quiet_code]] show ?thesis
    by blast
qed

section \<open>What the code does not guard\<close>

text \<open>C38. The event cache has as many entries as there may be sockets, and is indexed by descriptors: once a socket
  whose descriptor is not below that number has been registered, addMultiplexedSocket writes outside the cache.\<close>

theorem descriptor_beyond_cache:
  assumes "events m" "activeSocketCount m + 1 \<le> maxSockets m" "int (unat (maxSockets m)) \<le> fdOf env s w"
    and "start_timer env s (m, w) = (ESB_SUCCESS, m1)"
    and "epollCtl env EPOLL_CTL_ADD (fdOf env s w) (EPOLLET OR interest env s w) s w = (ESB_SUCCESS, w1)"
  shows "\<exists>m'. addMultiplexedSocket env (Some s) (m, w) = (UNDEFINED_BEHAVIOUR, m', w1) \<and> s \<in> set (activeSockets m')"
proof -
  have maxSockets: "maxSockets m1 = maxSockets m"
    using assms(4) by (auto simp: start_timer_def split: if_splits prod.splits)
  have "\<not> in_cache m1 (fdOf env s w)"
    using assms(3) maxSockets by (simp add: in_cache_def)
  moreover have "fdOf env s w \<noteq> - 1"
    using assms(3) by linarith
  ultimately show ?thesis
    using assms(1,2,4,5) by (auto simp: addMultiplexedSocket_def Let_def in_cache_def not_less)
qed

text \<open>A listener with descriptor 8 in a multiplexer for 8 sockets.\<close>

theorem descriptor_beyond_cache_witness:
  "\<exists>m w. addMultiplexedSocket (server_loop_env quiet_code) (Some 9) (start_8, two_clients\<lparr>listenFd := 8\<rparr>) = (UNDEFINED_BEHAVIOUR, m, w)"
proof -
  let ?w = "two_clients\<lparr>listenFd := 8\<rparr>"
  have "\<exists>m'. addMultiplexedSocket (server_loop_env quiet_code) (Some 9) (start_8, ?w) =
      (UNDEFINED_BEHAVIOUR, m', ?w\<lparr>inEpoll := [9], epollRoom := 7\<rparr>) \<and> 9 \<in> set (activeSockets m')"
    by (rule descriptor_beyond_cache [where ?m1.0 = start_8])
      (simp_all add: two_clients_def start_multiplexer_def new_multiplexer_def fd_of_def start_timer_def kernel_ctl_def)
  then show ?thesis
    by blast
qed

lemma update_keeps:
  assumes "updateMultiplexedSocket env (Some s) (m, w) = (e, m', w')"
  shows "timingWheel m' = timingWheel m \<and> activeSockets m' = activeSockets m"
  using assms by (auto simp: updateMultiplexedSocket_def Let_def split: if_splits prod.splits)

text \<open>C39. The loop tells by the answer of a callback that its socket is to be kept, not by whether it still is in the
  multiplexer. A callback that has removed its socket and answers ESB_AGAIN has the timer of the removed socket
  started again; the wheel keeps it when the socket is destroyed.\<close>

theorem removed_socket_keeps_timer:
  assumes "events m" "0 < idleTimeoutMsec m" "\<not> isPermanent env s w" "represents (timingWheel m) q"
    and "expiredTo q < due_at (timingWheel m) now (idleTimeoutMsec m)"
    and "due_at (timingWheel m) now (idleTimeoutMsec m) < expiredTo q + span q"
    and "\<not> isDead env s w0" "\<not> wantsAccept env s w0" "\<not> wantsConnect env s w0" "wantsRead env s w0"
    and "onReadable env s (m0, w0) = (ESB_AGAIN, m, w)" "s \<notin> set (activeSockets m)"
  shows "\<exists>m' w'. process_event env now (s, EPOLLIN) (m0, w0) = Some (m', w') \<and>
    s \<notin> set (activeSockets m') \<and> inTimingWheel (timingWheel m') s"
proof -
  obtain e wheel where u: "wheel_update (Some s) (idleTimeoutMsec m) now (timingWheel m) = (e, wheel)"
    by (rule prod.exhaust)
  have due: "due_at (timingWheel m) now (idleTimeoutMsec m) < 2 ^ 31"
    using assms(4,6) by (simp add: represents_def)
  let ?k = "due_at (timingWheel m) now (idleTimeoutMsec m)"
  have spec: "e = fst (spec_update ?k s q)" "represents wheel (snd (spec_update ?k s q))"
    using wheel_update_spec [OF assms(4) due, of s] u by simp_all
  then have "e = ESB_SUCCESS" "s \<in> snd ` set (due (snd (spec_update ?k s q)))"
    using assms(5,6) by (auto simp: spec_update_def spec_insert_def spec_drop_def set_enqueue)
  then have started: "e = ESB_SUCCESS" "inTimingWheel wheel s"
    using representsD(8) [OF spec(2)] by simp_all
  obtain e1 m' w' where up: "updateMultiplexedSocket env (Some s) (m\<lparr>timingWheel := wheel\<rparr>, w) = (e1, m', w')"
    by (rule prod_cases3)
  have "idleTimeoutMsec m \<noteq> 0"
    using assms(2) by auto
  then have "process_event env now (s, EPOLLIN) (m0, w0) = Some (m', w')"
    using assms(3,7-11) u started(1) up
    by (simp add: process_event_def connected_event_def connect_result_def keeps_def after_event_def)
  then show ?thesis
    using update_keeps [OF up] started(2) assms(12) by simp
qed

text \<open>A handler that removes its own socket, which is the only one.\<close>

definition self_removing_env :: "unit listen_world mux_env" where
  "self_removing_env =
     (server_loop_env quiet_code)
       \<lparr>onReadable := (\<lambda>s mw. (ESB_AGAIN, snd (removeMultiplexedSocket (server_loop_env quiet_code) (Some s) mw)))\<rparr>"

definition one_client :: "unit listen_world" where
  "one_client =
     two_clients
       \<lparr>connections := [1 \<mapsto> \<lparr>peerType = TRANSPORT_TCP, sockFd = 5\<rparr>], httpSockets := [2 \<mapsto> \<lparr>httpConnection = 1, httpDead = False\<rparr>],
        freeBlocks := [3, 4], inEpoll := [2]\<rparr>"

abbreviation one_active :: multiplexer where
  "one_active \<equiv> start_8\<lparr>activeSockets := [2], activeSocketCount := 1\<rparr>"

theorem removed_socket_keeps_timer_witness:
  "\<exists>m w. process_event self_removing_env \<lparr>seconds = 103, microSeconds = 0\<rparr> (2, 1) (one_active, one_client) = Some (m, w) \<and>
    2 \<notin> set (activeSockets m) \<and> inTimingWheel (timingWheel m) 2"
proof -
  let ?now = "\<lparr>seconds = 103, microSeconds = 0\<rparr>"
  let ?m = "start_8\<lparr>interests := (\<lambda>_. 0)(5 := 0), activeSockets := [], activeSocketCount := 0, deadSockets := [2]\<rparr>"
  let ?w = "one_client\<lparr>connections := [1 \<mapsto> \<lparr>peerType = TRANSPORT_TCP, sockFd = - 1\<rparr>], openFds := [3], inEpoll := [], epollRoom := 9,
      httpSockets := [2 \<mapsto> \<lparr>httpConnection = 1, httpDead = True\<rparr>]\<rparr>"
  have wheel: "timingWheel ?m = new_timing_wheel 360000 10 \<lparr>seconds = 100, microSeconds = 0\<rparr> True" "idleTimeoutMsec ?m = 1000"
    by (simp_all add: start_multiplexer_def new_multiplexer_def)
  have rep: "represents (timingWheel ?m) \<lparr>expiredTo = 0, span = 360000, due = []\<rparr>"
    using new_wheel_represents [of 360000 10] wheel(1) by simp
  have due: "due_at (timingWheel ?m) ?now (idleTimeoutMsec ?m) = 400"
    unfolding wheel by (simp add: due_at_def tick_at_def now_tick_def wheel_ticks_def date_minus_def new_timing_wheel_def Let_def)
  have "\<not> inTimingWheel (new_timing_wheel 360000 10 \<lparr>seconds = 100, microSeconds = 0\<rparr> True) 2"
    using sint_nonneg_iff [of "- 1"] by (simp add: new_timing_wheel_def inTimingWheel_def)
  then have read: "onReadable self_removing_env 2 (one_active, one_client) = (ESB_AGAIN, ?m, ?w)"
    by (simp add: self_removing_env_def removeMultiplexedSocket_def start_multiplexer_def new_multiplexer_def one_client_def
        two_clients_def fd_of_def kernel_ctl_def in_cache_def stop_timer_def set_interest_def http_handleRemove_def
        closeConnection_def closeFd_def mark_dead_def Let_def quiet_code_def)
  have "\<exists>m w. process_event self_removing_env ?now (2, 1) (one_active, one_client) = Some (m, w) \<and>
      2 \<notin> set (activeSockets m) \<and> inTimingWheel (timingWheel m) 2"
  proof (rule removed_socket_keeps_timer [OF _ _ _ rep _ _ _ _ _ _ read])
    show "expiredTo \<lparr>expiredTo = 0, span = 360000, due = []\<rparr> < due_at (timingWheel ?m) ?now (idleTimeoutMsec ?m)"
      "due_at (timingWheel ?m) ?now (idleTimeoutMsec ?m) <
        expiredTo \<lparr>expiredTo = 0, span = 360000, due = []\<rparr> + span \<lparr>expiredTo = 0, span = 360000, due = []\<rparr>"
      unfolding due by simp_all
    show "wantsRead self_removing_env 2 one_client"
      by (simp add: self_removing_env_def server_loop_env_def sockets_env_def one_client_def two_clients_def quiet_code_def)
  qed (simp_all add: self_removing_env_def one_client_def two_clients_def dead_of_def start_multiplexer_def new_multiplexer_def)
  then show ?thesis .
qed

text \<open>C40. A connection that has been accepted when there is no memory for it is not closed: its descriptor stays open,
  no socket has it, and the listening socket goes on.\<close>

theorem accepted_descriptor_leaks:
  assumes "backlog w = Accepted fd TRANSPORT_TCP # rest" "acceptConnection code (app w) = (ESB_SUCCESS, a)"
    and "freeBlocks w = []" "deconstructedClearSockets (serverFactory w) = []"
  shows "listener_handleAccept code (m, w) = (ESB_AGAIN, m, w\<lparr>backlog := rest, openFds := fd # openFds w, app := a\<rparr>)"
  using assms
  by (simp add: listener_handleAccept_def addServerSocket_def factory_create_def connection_memory_def allocate_block_def Let_def)

theorem accepted_descriptor_leaks_witness:
  "openFds (snd (snd (listener_handleAccept quiet_code (start_8, two_clients\<lparr>freeBlocks := []\<rparr>)))) = [5, 3]"
proof -
  have "listener_handleAccept quiet_code (start_8, two_clients\<lparr>freeBlocks := []\<rparr>) =
      (ESB_AGAIN, start_8, two_clients\<lparr>freeBlocks := [], backlog := [Accepted 6 TRANSPORT_TLS], openFds := [5, 3], app := ()\<rparr>)"
    using accepted_descriptor_leaks [of "two_clients\<lparr>freeBlocks := []\<rparr>" 5 "[Accepted 6 TRANSPORT_TLS]" quiet_code "()" start_8]
    by (simp add: two_clients_def quiet_code_def)
  then show ?thesis
    by simp
qed

section \<open>The memory of the factory\<close>

text \<open>C11. The memory of the factory is well-formed: whatever it creates and destroys, no block is of two objects or
  both of an object and spare, every HTTP socket has a connection of its own and every connection an HTTP socket,
  and no block is lost; a create that fails leaves the objects as they were.\<close>

theorem factory_memory_well_formed:
  assumes "memory_ok w"
  shows "(case factory_create fd t w of (r, w1) \<Rightarrow>
      memory_ok w1 \<and> all_blocks w1 = all_blocks w \<and>
      (case r of None \<Rightarrow> connections w1 = connections w \<and> httpSockets w1 = httpSockets w
       | Some h \<Rightarrow> httpSockets w h = None \<and> (\<exists>c. httpSockets w1 h = Some \<lparr>httpConnection = c, httpDead = False\<rparr> \<and>
           connections w c = None \<and> connections w1 c = Some \<lparr>peerType = t, sockFd = fd\<rparr>))) \<and>
    memory_ok (factory_release g w) \<and> all_blocks (factory_release g w) = all_blocks w"
proof -
  obtain r w1 where c: "factory_create fd t w = (r, w1)"
    by (rule prod.exhaust)
  have "memory_ok w1 \<and> all_blocks w1 = all_blocks w \<and>
      (case r of None \<Rightarrow> connections w1 = connections w \<and> httpSockets w1 = httpSockets w
       | Some h \<Rightarrow> httpSockets w h = None \<and> (\<exists>c. httpSockets w1 h = Some \<lparr>httpConnection = c, httpDead = False\<rparr> \<and>
           connections w c = None \<and> connections w1 c = Some \<lparr>peerType = t, sockFd = fd\<rparr>))"
  proof (cases r)
    case None
    then show ?thesis
      using factory_create_none [OF assms c [unfolded None]] by (simp add: same_objects_def)
  next
    case (Some h)
    from factory_create_some [OF assms c [unfolded Some]] obtain b where
      maps: "connections w1 = (connections w)(b \<mapsto> \<lparr>peerType = t, sockFd = fd\<rparr>)"
        "httpSockets w1 = (httpSockets w)(h \<mapsto> \<lparr>httpConnection = b, httpDead = False\<rparr>)" and
      fresh: "b \<notin> objects w" "h \<notin> objects w" and f: "memory_ok w1" "all_blocks w1 = all_blocks w" .
    have "connections w b = None" "httpSockets w h = None"
      using fresh by (auto simp: objects_def)
    then show ?thesis
      using f maps Some by simp
  qed
  moreover have "memory_ok (factory_release g w) \<and> all_blocks (factory_release g w) = all_blocks w"
    using factory_release_block [OF assms, of g] assms by (cases "httpSockets w g") (auto simp: factory_release_def)
  ultimately show ?thesis
    using c by simp
qed

theorem factory_memory_well_formed_witness:
  "memory_ok (snd (factory_create 5 TRANSPORT_TCP two_clients)) \<and>
    memory_ok (factory_release 2 (snd (factory_create 5 TRANSPORT_TCP two_clients)))"
proof -
  have ok: "memory_ok two_clients"
    using two_clients_start by (simp add: start_world_def)
  have ok1: "memory_ok (snd (factory_create 5 TRANSPORT_TCP two_clients))"
    using factory_memory_well_formed [OF ok, where fd = 5 and t = TRANSPORT_TCP] unfolding case_prod_beta by blast
  then show ?thesis
    using factory_memory_well_formed [OF ok1, where g = 2] by blast
qed

end
