(* ===== verification/Spec2Isabelle.thy ===== *)
theory Spec2Isabelle
  imports ParserProperties FormatterProperties CodecProperties ServerProperties ClientProperties BaseProperties ProxyProperties WildcardProperties MultiplexerProperties
begin

text \<open>
  A model of the HTTP data plane of everscale, a proxy in C++, and the theorems that make it correct.

  \<^bold>\<open>The program.\<close> Worker threads run a multiplexer over non-blocking sockets. A socket reads octets into
  a receive buffer, a parser turns them into a request or response object, a handler of the application
  produces or relays messages, a formatter writes them into a send buffer, and the socket flushes that
  buffer. Every piece works on whatever has arrived so far: it answers ESB_AGAIN and is called again when
  there are more octets or more room. Most of the work is to make that invisible.

  \<^bold>\<open>Conventions.\<close> The model is that of a release build (NDEBUG) on a 64-bit Linux. A class is a record, an
  int of flags a 32-bit word, an output parameter a component of the result, an error code a value of
  \<open>error\<close>. UNDEFINED_BEHAVIOUR stands for what the language does not define: a NULL dereference, a signed
  overflow. Strings are lists of octets without the final NUL, and a NULL pointer is None. The allocator,
  the kernel and the application are parameters; so is the multiplexer for the sockets and handlers. Log lines are not modelled.
  Loops over a buffer are total functions with the unread octets as measure; loops that may run forever
  (the socket's) are partial functions into an option, None meaning that the call does not return.

  \<^bold>\<open>Theories, in the order of the program.\<close>
  \<^item> Prelude: octets, C strings, error codes, flag words, lemma collections.
  \<^item> Buffer (base/ESBBuffer): the shared buffer, its invariant and abstraction; BufferQueue: its refinement
    of a bounded queue, over any sequence of calls. Locale \<open>octet_queue\<close>.
  \<^item> HttpUtil, HttpScan, HttpNumber (http-common/ESHttpUtil): octet classes, scanning, escapes, integers.
  \<^item> HttpMessage (http-common): requests, responses, URIs, header lists.
  \<^item> RequestUriParser, MessageParser, RequestParser, ResponseParser (http1): the parsers. Incremental,
    UriIncremental, MessageIncremental: the contract \<open>incremental_parser\<close> (parsing what has arrived and
    then the rest is parsing it all at once) and its proof for every production.
  \<^item> UriFormatter, MessageFormatter (http1): the formatters. FormatUnits, FormatTexts, UriUnits, MessageUnits:
    a message is a list of units, each written whole or not at all; the contract \<open>unit_formatter\<close>.
    ChunkedBody: writing and reading a chunked body.
  \<^item> ServerSocket (http1/ESHttpServerSocket): the state machine of a server connection. ServerInvariant,
    ServerMachine: its protocol, its invariant, and the locales of the callbacks (\<open>polite_handler\<close>,
    \<open>polite_body\<close>) under which every state keeps them. SocketEnv: what both sockets call and share;
    SocketSend: flushing. OriginHandler (origin/ESHttpOriginHandler): a handler, on which the locales are
    interpreted.
  \<^item> ClientSocket (http1/ESHttpClientSocket), ClientInvariant, ClientMachine: the same for the connection
    to an origin, with its retry on a stale connection. LoadgenHandler (loadgen/ESHttpLoadgenHandler): its
    handler.
  \<^item> ProxyHandler (proxy/ESHttpRoutingProxyHandler): the handler that relays between a server and a client
    stream, their shared context, the routers. ProxyFlow: its flow control, locale \<open>paired_streams\<close>;
    ProxyRelay: the handler on the models of both sockets, which call it back.
  \<^item> EmbeddedList (base/ESBEmbeddedList): doubly linked lists whose links live in the elements, over one
    store of links; refinement of HOL lists. Dates (base/ESBDate). TimingWheel (base/ESBFlatTimingWheel,
    ESBTimer): the buckets of timers; TimerQueue: its contract, a queue ordered by ticks, and the simulation.
  \<^item> Multiplexer (base/ESBEpollMultiplexer): the event loop of a worker, over an environment of the kernel, the
    clock and the virtual functions of the sockets. MuxInvariant: its invariant and the locale \<open>epoll_kernel\<close>;
    EventLoop: the locales \<open>event_loop\<close> and \<open>ending_loop\<close>, the contract of the callbacks under which every part of
    the loop keeps the invariant and returns; LiveSockets: no callback of a socket that has gone matters.
  \<^item> ServerFactory (http1/ESHttpServerSocketFactory, ESHttpListeningSocket, and addServerSocket of
    multiplexers/ESHttpProxyMultiplexer): accepting connections and recycling the memory of sockets, over a
    world with a kernel. FactoryMemory: no block is of two objects or lost; ServerLoop: the locales of the loop
    are interpreted on it, whatever the callbacks of the connections answer, for callbacks that do not call the
    multiplexer themselves.
  \<^item> StringUtil (base/ESBString): hashes, wildcard matching, pointers in octets, host names. EmbeddedMap
    (base/ESBEmbeddedMapBase, ESBSharedEmbeddedMap): buckets of elements. WildcardNode, WildcardIndex
    (base/ESBWildcardIndex, and matchContext of ESBTLSContextIndex): patterns packed into octet buffers, and the
    choice of a context for a host name; WildcardMap: the index as a map from domain and pattern.
  \<^item> ParserProperties, FormatterProperties, CodecProperties, ServerProperties, ClientProperties,
    BaseProperties, ProxyProperties, WildcardProperties, MultiplexerProperties: the properties, with witnesses
    on concrete inputs; ScriptedNetwork, ScriptedPeer: the worlds the sockets run in for them.

  \<^bold>\<open>What the properties show.\<close> Parsing does not depend on how the network cuts the input, where the uncut input
  does not end with one of the two errors the theorem names; formatting through a small buffer yields the text of the message; chunked
  bodies, integers and escapes are read back; the buffer is a queue; a server socket takes one step
  of its protocol at a time and goes back only to serve a further request, is reused only after a complete exchange, and sends in order; a client socket never sends a
  request twice; the timing wheel is a queue ordered by ticks, whose timers come within three ticks; the proxy
  never lets both sides of an exchange wait for each other; a worker runs until it is stopped and then has
  destroyed every socket and has all its memory back, having called no socket after its end; the wildcard
  index is a map, as long as no value in a second buffer is replaced, and answers the most specific of the
  patterns it reaches. Some theorems are about what the
  code does against its intention: a field name split at its end, a flush that sent only a part, the body
  after an error response, a buffer released twice, a skip that wraps, a clock that starts again after 49.7
  days, a request without a route that is never answered, an exchange whose context is freed while it is in
  use, an event cache indexed by descriptors, a timer started for a socket that has been removed, a descriptor
  that leaks, a first octet that is not compared, a replacement that dereferences what is no address.

  \<^bold>\<open>Bounds.\<close> The ticks of the clock of a worker are assumed not to decrease (they start again 49.7 days after
  its start); a multiplexer is for fewer than $2^{31}$ sockets, and the descriptors it accepts are below its
  number of sockets. No fuel is used in the model; ProxyRelay nests the calls between the two sockets to a depth
  given by a number, and three levels are enough for a whole exchange. Capacities up to $2^{27}$ are assumed where \<open>FormatInteger\<close> multiplies in an
  int; the sockets' buffers are far smaller. Witnesses use buffers of 24 to 96 octets.

  \<^bold>\<open>Not modelled.\<close> System calls, the TLS library, threads and locks. Allocators, the red-black map, shared queues,
  the connection pool and the client socket factory, counters and time series are left out for want of time.
  JSON configuration is read through a third-party library; the remaining programs only wire components together.
\<close>

end
